(* ===== verification/Prelude.thy ===== *)
theory Prelude
  imports Main "HOL-Library.Word" "HOL-Library.Monad_Syntax"
begin

text \<open>
  Shared vocabulary of the development: Go slices as lists with checked indexing, where
  \<^term>\<open>None\<close> stands for the run-time panic of an index out of range, Go's \<^verbatim>\<open>int64\<close>
  arithmetic as signed reading of 64-bit words, and the generic lemmas on lists, association
  lists and bit masks that the component theories share.
\<close>

unbundle bit_operations_syntax

named_theorems go_defs "definitions of the checked slice operations"

section \<open>Slices with checked indexing\<close>

definition go_len :: "'a list \<Rightarrow> int" where
  "go_len xs = int (length xs)"

definition go_get :: "'a list \<Rightarrow> int \<Rightarrow> 'a option" where
  "go_get xs i = (if 0 \<le> i \<and> i < go_len xs then Some (xs ! nat i) else None)"

definition go_set :: "'a list \<Rightarrow> int \<Rightarrow> 'a \<Rightarrow> 'a list option" where
  "go_set xs i v = (if 0 \<le> i \<and> i < go_len xs then Some (xs[nat i := v]) else None)"

definition go_make :: "int \<Rightarrow> 'a::zero list option" where
  "go_make n = (if 0 \<le> n then Some (replicate (nat n) 0) else None)"

declare go_get_def [go_defs] go_set_def [go_defs] go_make_def [go_defs] go_len_def [go_defs]

lemma go_get_Some [simp]: "0 \<le> i \<Longrightarrow> i < int (length xs) \<Longrightarrow> go_get xs i = Some (xs ! nat i)"
  by (simp add: go_defs)

lemma go_set_Some [simp]: "0 \<le> i \<Longrightarrow> i < int (length xs) \<Longrightarrow> go_set xs i v = Some (xs[nat i := v])"
  by (simp add: go_defs)

lemma go_make_Some [simp]: "0 \<le> n \<Longrightarrow> go_make n = Some (replicate (nat n) 0)"
  by (simp add: go_defs)

lemma go_len_simps [simp]: "go_len [] = 0" "go_len (x # xs) = 1 + go_len xs"
  by (simp_all add: go_len_def)

lemma go_len_nonneg [simp]: "0 \<le> go_len xs"
  by (simp add: go_len_def)

section \<open>Machine integers\<close>

text \<open>\<^verbatim>\<open>int64\<close> wraps around; \<^term>\<open>i64\<close> is the signed value an int64 variable holds
  after an arithmetic operation whose mathematical result is given.\<close>

definition i64 :: "int \<Rightarrow> int" where
  "i64 n = sint (word_of_int n :: 64 word)"

definition i64_range :: "int \<Rightarrow> bool" where
  "i64_range n \<longleftrightarrow> - (2 ^ 63) \<le> n \<and> n < 2 ^ 63"

lemma i64_id: "i64_range n \<Longrightarrow> i64 n = n"
  by (simp add: i64_def i64_range_def sint_sbintrunc' signed_take_bit_int_eq_self)

lemma i64_in_range: "i64_range (i64 n)"
  using sint_greater_eq [of "word_of_int n :: 64 word"] sint_less [of "word_of_int n :: 64 word"]
  by (simp add: i64_def i64_range_def)

text \<open>Go's \<^verbatim>\<open>x & (n-1)\<close> with \<^term>\<open>n\<close> a power of two is the remainder modulo
  \<^term>\<open>n\<close>, for every (also negative) \<^term>\<open>x\<close>.\<close>

lemma and_mask_mod: "(x::int) AND (2 ^ k - 1) = x mod 2 ^ k"
  by (simp add: take_bit_eq_mod flip: take_bit_eq_mask mask_eq_exp_minus_1)

section \<open>Lists and association lists\<close>

lemma map_upt_Suc: "map f [0..<Suc n] = f 0 # map (\<lambda>i. f (Suc i)) [0..<n]"
  by (simp add: map_upt_Suc del: upt_Suc)

lemma drop_eq_Cons_nth: "i < length xs \<Longrightarrow> drop i xs = xs ! i # drop (Suc i) xs"
  by (simp add: Cons_nth_drop_Suc)

lemma find_SomeD: "List.find P xs = Some x \<Longrightarrow> x \<in> set xs \<and> P x"
  by (induction xs) (auto split: if_splits)

lemma find_append: "List.find P (xs @ ys) = (case List.find P xs of None \<Rightarrow> List.find P ys | Some x \<Rightarrow> Some x)"
  by (induction xs) auto

end
