(* ===== verification/Queue.thy ===== *)
theory Queue
  imports Prelude
begin

text \<open>
  The in-memory double-ended queue of \<^verbatim>\<open>internal/queue/queue.go\<close>: a circular buffer whose
  length is a power of two, indexed with \<^verbatim>\<open>& (len-1)\<close>, that doubles when it is full and
  halves when it is at most a quarter full. Every exported method runs under the queue's mutex,
  so each is one atomic operation here; an operation returns \<^term>\<open>None\<close> where the code would
  panic on an index out of range. \<^verbatim>\<open>DequeueWait\<close>, the one blocking method, is split at its
  \<^verbatim>\<open>cond.Wait()\<close>. The Go zero value of the element type is \<^term>\<open>0\<close>.
\<close>

section \<open>State, errors and construction\<close>

definition minCapacity :: int where
  "minCapacity = 16"

datatype queue_error = ErrEmptyQueue | ErrClosedQueue | ErrQueueFull

record 'a queue =
  q_buf :: "'a list"
  q_ctAddBack :: int
  q_ctAddFront :: int
  q_ctRemoveBack :: int
  q_ctRemoveFront :: int
  q_head :: int
  q_tail :: int
  q_size :: int
  q_closed :: bool
  q_maxCap :: int
  q_wakeEpoch :: "64 word"

record queue_stats =
  st_CtAddBack :: int
  st_CtAddFront :: int
  st_CtRemoveBack :: int
  st_CtRemoveFront :: int
  st_Size :: int
  st_Capacity :: int
  st_MaxCapacity :: int
  st_HeadIndex :: int
  st_TailIndex :: int
  st_IsClosed :: bool

text \<open>The clamping of the requested capacity at the head of \<^verbatim>\<open>newQueue\<close>.\<close>

definition requestedCap :: "int \<Rightarrow> int \<Rightarrow> int" where
  "requestedCap initialCap maxCap =
     (let ic = (if initialCap < minCapacity then minCapacity else initialCap)
      in if 0 < maxCap \<and> maxCap < ic then maxCap else ic)"

text \<open>The loop \<^verbatim>\<open>for cap < initialCap { cap <<= 1 }\<close>, in the 64-bit integers of \<^verbatim>\<open>int\<close>: the shift
  wraps around. \<^term>\<open>None\<close> is a loop that never ends.\<close>

partial_function (option) grow_cap :: "int \<Rightarrow> int \<Rightarrow> int option" where
  "grow_cap cap initialCap =
     (if cap < initialCap then grow_cap (i64 (push_bit 1 cap)) initialCap else Some cap)"

definition newQueue :: "int \<Rightarrow> int \<Rightarrow> 'a::zero queue option" where
  "newQueue initialCap maxCap = do {
     cap \<leftarrow> grow_cap minCapacity (requestedCap initialCap maxCap);
     b \<leftarrow> go_make cap;
     Some \<lparr>q_buf = b, q_ctAddBack = 0, q_ctAddFront = 0, q_ctRemoveBack = 0,
           q_ctRemoveFront = 0, q_head = 0, q_tail = 0, q_size = 0, q_closed = False,
           q_maxCap = maxCap, q_wakeEpoch = 0\<rparr> }"

definition NewQueue :: "int \<Rightarrow> 'a::zero queue option" where
  "NewQueue initialCap = newQueue initialCap 0"

definition NewBoundedQueue :: "int \<Rightarrow> int \<Rightarrow> 'a::zero queue option" where
  "NewBoundedQueue initialCap maxCap = newQueue initialCap maxCap"

section \<open>Observers\<close>

definition Queue_Stats :: "'a queue \<Rightarrow> queue_stats" where
  "Queue_Stats q = \<lparr>st_CtAddBack = q_ctAddBack q, st_CtAddFront = q_ctAddFront q,
     st_CtRemoveBack = q_ctRemoveBack q, st_CtRemoveFront = q_ctRemoveFront q,
     st_Size = q_size q, st_Capacity = go_len (q_buf q), st_MaxCapacity = q_maxCap q,
     st_HeadIndex = q_head q, st_TailIndex = q_tail q, st_IsClosed = q_closed q\<rparr>"

definition Queue_Len :: "'a queue \<Rightarrow> int" where
  "Queue_Len q = q_size q"

definition Queue_Cap :: "'a queue \<Rightarrow> int" where
  "Queue_Cap q = go_len (q_buf q)"

definition Queue_MaxCap :: "'a queue \<Rightarrow> int" where
  "Queue_MaxCap q = q_maxCap q"

definition Queue_IsEmpty :: "'a queue \<Rightarrow> bool" where
  "Queue_IsEmpty q \<longleftrightarrow> q_size q = 0"

section \<open>Resizing\<close>

text \<open>The copying loop shared by \<^verbatim>\<open>Slice\<close> and \<^verbatim>\<open>resize\<close>: \<^term>\<open>n\<close> further rounds,
  the next one copying logical position \<^term>\<open>i\<close>.\<close>

fun ring_copy :: "'a list \<Rightarrow> int \<Rightarrow> int \<Rightarrow> nat \<Rightarrow> 'a list \<Rightarrow> 'a list option" where
  "ring_copy b h i 0 dst = Some dst"
| "ring_copy b h i (Suc n) dst = do {
     v \<leftarrow> go_get b ((h + i) AND (go_len b - 1));
     dst' \<leftarrow> go_set dst i v;
     ring_copy b h (i + 1) n dst' }"

definition Queue_resize :: "int \<Rightarrow> 'a::zero queue \<Rightarrow> 'a queue option" where
  "Queue_resize newCap q = do {
     newBuf \<leftarrow> go_make newCap;
     newBuf' \<leftarrow> ring_copy (q_buf q) (q_head q) 0 (nat (q_size q)) newBuf;
     Some (q\<lparr>q_buf := newBuf', q_head := 0, q_tail := q_size q\<rparr>) }"

definition Queue_shrinkIfNeeded :: "'a::zero queue \<Rightarrow> 'a queue option" where
  "Queue_shrinkIfNeeded q =
     (let cap = go_len (q_buf q)
      in if cap \<le> minCapacity then Some q
         else if q_size q \<le> cap div 4 then Queue_resize (max (cap div 2) minCapacity) q
         else Some q)"

section \<open>Operations\<close>

definition Queue_Clear :: "'a::zero queue \<Rightarrow> 'a queue option" where
  "Queue_Clear q = do {
     b \<leftarrow> go_make minCapacity;
     Some (q\<lparr>q_head := 0, q_tail := 0, q_size := 0, q_buf := b,
             q_wakeEpoch := q_wakeEpoch q + 1\<rparr>) }"

definition Queue_Close :: "'a queue \<Rightarrow> 'a queue" where
  "Queue_Close q = q\<lparr>q_closed := True, q_wakeEpoch := q_wakeEpoch q + 1\<rparr>"

definition Queue_BroadcastWaiters :: "'a queue \<Rightarrow> 'a queue" where
  "Queue_BroadcastWaiters q = q\<lparr>q_wakeEpoch := q_wakeEpoch q + 1\<rparr>"

definition Queue_AddBack :: "'a \<Rightarrow> 'a::zero queue \<Rightarrow> (queue_error option \<times> 'a queue) option" where
  "Queue_AddBack item q =
     (if q_closed q then Some (Some ErrClosedQueue, q)
      else if 0 < q_maxCap q \<and> q_maxCap q \<le> q_size q then Some (Some ErrQueueFull, q)
      else do {
        q1 \<leftarrow> (if q_size q = go_len (q_buf q) then Queue_resize (push_bit 1 (go_len (q_buf q))) q
              else Some q);
        b \<leftarrow> go_set (q_buf q1) (q_tail q1) item;
        Some (None, q1\<lparr>q_buf := b, q_tail := (q_tail q1 + 1) AND (go_len b - 1),
                       q_size := q_size q1 + 1, q_ctAddBack := q_ctAddBack q1 + 1\<rparr>) })"

definition Queue_Enqueue :: "'a \<Rightarrow> 'a::zero queue \<Rightarrow> (queue_error option \<times> 'a queue) option" where
  "Queue_Enqueue item q = Queue_AddBack item q"

definition Queue_Push :: "'a \<Rightarrow> 'a::zero queue \<Rightarrow> (queue_error option \<times> 'a queue) option" where
  "Queue_Push item q = Queue_AddBack item q"

definition Queue_AddFront :: "'a \<Rightarrow> 'a::zero queue \<Rightarrow> (queue_error option \<times> 'a queue) option" where
  "Queue_AddFront item q =
     (if q_closed q then Some (Some ErrClosedQueue, q)
      else if 0 < q_maxCap q \<and> q_maxCap q \<le> q_size q then Some (Some ErrQueueFull, q)
      else do {
        q1 \<leftarrow> (if q_size q = go_len (q_buf q) then Queue_resize (push_bit 1 (go_len (q_buf q))) q
              else Some q);
        let h = (q_head q1 - 1 + go_len (q_buf q1)) AND (go_len (q_buf q1) - 1);
        b \<leftarrow> go_set (q_buf q1) h item;
        Some (None, q1\<lparr>q_head := h, q_buf := b, q_size := q_size q1 + 1,
                       q_ctAddFront := q_ctAddFront q1 + 1\<rparr>) })"

definition Queue_removeFrontLocked :: "'a::zero queue \<Rightarrow> ('a \<times> 'a queue) option" where
  "Queue_removeFrontLocked q = do {
     item \<leftarrow> go_get (q_buf q) (q_head q);
     b \<leftarrow> go_set (q_buf q) (q_head q) 0;
     q' \<leftarrow> Queue_shrinkIfNeeded (q\<lparr>q_buf := b, q_head := (q_head q + 1) AND (go_len b - 1),
                            q_size := q_size q - 1, q_ctRemoveFront := q_ctRemoveFront q + 1\<rparr>);
     Some (item, q') }"

definition Queue_RemoveFront :: "'a::zero queue \<Rightarrow> ((queue_error + 'a) \<times> 'a queue) option" where
  "Queue_RemoveFront q =
     (if q_size q = 0 then Some (Inl ErrEmptyQueue, q)
      else if q_closed q then Some (Inl ErrClosedQueue, q)
      else map_option (\<lambda>(item, q'). (Inr item, q')) (Queue_removeFrontLocked q))"

definition Queue_Dequeue :: "'a::zero queue \<Rightarrow> ((queue_error + 'a) \<times> 'a queue) option" where
  "Queue_Dequeue q = Queue_RemoveFront q"

definition Queue_RemoveBack :: "'a::zero queue \<Rightarrow> ((queue_error + 'a) \<times> 'a queue) option" where
  "Queue_RemoveBack q =
     (if q_size q = 0 then Some (Inl ErrEmptyQueue, q)
      else if q_closed q then Some (Inl ErrClosedQueue, q)
      else do {
        let t = (q_tail q - 1 + go_len (q_buf q)) AND (go_len (q_buf q) - 1);
        item \<leftarrow> go_get (q_buf q) t;
        b \<leftarrow> go_set (q_buf q) t 0;
        q' \<leftarrow> Queue_shrinkIfNeeded (q\<lparr>q_tail := t, q_buf := b, q_size := q_size q - 1,
                               q_ctRemoveBack := q_ctRemoveBack q + 1\<rparr>);
        Some (Inr item, q') })"

definition Queue_Pop :: "'a::zero queue \<Rightarrow> ((queue_error + 'a) \<times> 'a queue) option" where
  "Queue_Pop q = Queue_RemoveBack q"

definition Queue_PeekFront :: "'a queue \<Rightarrow> (queue_error + 'a) option" where
  "Queue_PeekFront q =
     (if q_size q = 0 then Some (Inl ErrEmptyQueue)
      else if q_closed q then Some (Inl ErrClosedQueue)
      else map_option Inr (go_get (q_buf q) (q_head q)))"

definition Queue_PeekBack :: "'a queue \<Rightarrow> (queue_error + 'a) option" where
  "Queue_PeekBack q =
     (if q_size q = 0 then Some (Inl ErrEmptyQueue)
      else if q_closed q then Some (Inl ErrClosedQueue)
      else map_option Inr
        (go_get (q_buf q) ((q_tail q - 1 + go_len (q_buf q)) AND (go_len (q_buf q) - 1))))"

definition Queue_Slice :: "'a::zero queue \<Rightarrow> 'a list option" where
  "Queue_Slice q = do {
     result \<leftarrow> go_make (q_size q);
     ring_copy (q_buf q) (q_head q) 0 (nat (q_size q)) result }"

subsection \<open>The blocking receive\<close>

text \<open>
  \<^verbatim>\<open>DequeueWait\<close> either returns or blocks in \<^verbatim>\<open>cond.Wait()\<close> with the wake epoch it
  has read. \<^term>\<open>dequeue_wait_loop\<close> is one pass of the loop up to the \<^verbatim>\<open>Wait\<close>,
  \<^term>\<open>Queue_DequeueWait_start\<close> the call, and \<^term>\<open>Queue_DequeueWait_wake\<close> what runs when the waiter
  is woken (by a broadcast or by the context's callback); the argument \<^term>\<open>ctxErr\<close> is
  \<^verbatim>\<open>ctx.Err() != nil\<close> at that moment.
\<close>

datatype 'a wait_result =
    WaitItem 'a
  | WaitErr queue_error
  | WaitCtxErr
  | WaitBlocked "64 word"

definition dequeue_wait_take :: "'a::zero queue \<Rightarrow> ('a wait_result \<times> 'a queue) option" where
  "dequeue_wait_take q =
     (if q_closed q then Some (WaitErr ErrClosedQueue, q)
      else map_option (\<lambda>(item, q'). (WaitItem item, q')) (Queue_removeFrontLocked q))"

definition dequeue_wait_loop :: "bool \<Rightarrow> 'a::zero queue \<Rightarrow> ('a wait_result \<times> 'a queue) option" where
  "dequeue_wait_loop ctxErr q =
     (if q_size q = 0 then
        (if q_closed q then Some (WaitErr ErrClosedQueue, q)
         else if ctxErr then Some (WaitCtxErr, q)
         else Some (WaitBlocked (q_wakeEpoch q), q))
      else dequeue_wait_take q)"

definition Queue_DequeueWait_start :: "bool \<Rightarrow> 'a::zero queue \<Rightarrow> ('a wait_result \<times> 'a queue) option" where
  "Queue_DequeueWait_start ctxErr q =
     (if 0 < q_size q then dequeue_wait_take q else dequeue_wait_loop ctxErr q)"

definition Queue_DequeueWait_wake ::
  "64 word \<Rightarrow> bool \<Rightarrow> 'a::zero queue \<Rightarrow> ('a wait_result \<times> 'a queue) option" where
  "Queue_DequeueWait_wake epoch ctxErr q =
     (if 0 < q_size q then dequeue_wait_take q
      else if q_size q = 0 \<and> \<not> q_closed q \<and> \<not> ctxErr \<and> q_wakeEpoch q \<noteq> epoch
        then Some (WaitErr ErrEmptyQueue, q)
      else dequeue_wait_loop ctxErr q)"

end
