(* ===== verification/Queue_Correct.thy ===== *)
theory Queue_Correct
  imports Queue
begin

text \<open>
  Correctness of the circular buffer of \<^verbatim>\<open>internal/queue\<close>: the contents as a modular slice
  of the buffer, the representation invariant, one lemma per operation against the list of
  elements, and the simulation of the abstract deque by whole histories of calls. No operation
  panics in a state the invariant allows.
\<close>


section \<open>The contents of a circular buffer\<close>

definition ring_items :: "'a list \<Rightarrow> int \<Rightarrow> nat \<Rightarrow> 'a list" where
  "ring_items b h n = map (\<lambda>i. b ! nat ((h + int i) mod go_len b)) [0..<n]"

lemma length_ring_items [simp]: "length (ring_items b h n) = n"
  by (simp add: ring_items_def)

lemma ring_items_0 [simp]: "ring_items b h 0 = []"
  by (simp add: ring_items_def)

lemma nth_ring_items: "i < n \<Longrightarrow> ring_items b h n ! i = b ! nat ((h + int i) mod go_len b)"
  by (simp add: ring_items_def)

lemma ring_index_inj:
  assumes "0 \<le> i" "i < L" "0 \<le> j" "j < L" "(h + i) mod L = (h + j) mod (L::int)"
  shows "i = j"
proof -
  have "i mod L = j mod L"
    using assms(5) by (metis add_diff_cancel_left' mod_diff_left_eq)
  with assms show ?thesis by simp
qed

lemma nat_mod_less: "0 < L \<Longrightarrow> nat (x mod int L) < L"
  by (metis nat_less_iff of_nat_0_less_iff pos_mod_bound pos_mod_sign)

lemma nat_mod_eq_iff: "0 < (L::int) \<Longrightarrow> nat (x mod L) = nat (y mod L) \<longleftrightarrow> x mod L = y mod L"
  by (metis eq_nat_nat_iff pos_mod_sign)

lemma ring_set_outside:
  assumes "b \<noteq> []" and "\<And>i. i < n \<Longrightarrow> (h + int i) mod go_len b \<noteq> k mod go_len b"
  shows "ring_items (b[nat (k mod go_len b) := x]) h n = ring_items b h n"
proof (rule nth_equalityI)
  fix i assume "i < length (ring_items (b[nat (k mod go_len b) := x]) h n)"
  then have i: "i < n" by simp
  have "0 < go_len b" using assms(1) by (simp add: go_len_def)
  with assms(2) [OF i] have "nat ((h + int i) mod go_len b) \<noteq> nat (k mod go_len b)"
    by (simp add: nat_mod_eq_iff)
  with i show "ring_items (b[nat (k mod go_len b) := x]) h n ! i = ring_items b h n ! i"
    by (simp add: nth_ring_items go_len_def)
qed simp

lemma ring_items_Suc: "ring_items b h (Suc n) = ring_items b h n @ [b ! nat ((h + int n) mod go_len b)]"
  by (simp add: ring_items_def)

lemma ring_items_Cons:
  "ring_items b h (Suc n) = b ! nat (h mod go_len b) # ring_items b ((h + 1) mod go_len b) n"
proof (rule nth_equalityI)
  fix i assume "i < length (ring_items b h (Suc n))"
  then have "i < Suc n" by simp
  then show "ring_items b h (Suc n) ! i
      = (b ! nat (h mod go_len b) # ring_items b ((h + 1) mod go_len b) n) ! i"
    by (cases i) (simp_all add: nth_ring_items mod_add_left_eq mod_add_right_eq ac_simps)
qed simp

lemma ring_items_mod: "ring_items b (h mod go_len b) n = ring_items b h n"
  by (simp add: ring_items_def mod_add_left_eq)

lemma ring_push_back:
  assumes "n < length b"
  shows "ring_items (b[nat ((h + int n) mod go_len b) := x]) h (Suc n) = ring_items b h n @ [x]"
proof -
  have ne: "b \<noteq> []" using assms by auto
  have L: "0 < go_len b" using ne by (simp add: go_len_def)
  have "ring_items (b[nat ((h + int n) mod go_len b) := x]) h n = ring_items b h n"
  proof (rule ring_set_outside [OF ne])
    fix i assume "i < n"
    then show "(h + int i) mod go_len b \<noteq> (h + int n) mod go_len b"
      using ring_index_inj [of "int i" "go_len b" "int n" h] assms by (auto simp: go_len_def)
  qed
  moreover have "nat ((h + int n) mod go_len b) < length b"
    using nat_mod_less [of "length b"] ne by (simp add: go_len_def)
  ultimately show ?thesis
    by (simp add: ring_items_Suc go_len_def)
qed

lemma ring_push_front:
  assumes "n < length b"
  shows "ring_items (b[nat ((h - 1) mod go_len b) := x]) ((h - 1) mod go_len b) (Suc n)
    = x # ring_items b (h mod go_len b) n"
proof -
  have ne: "b \<noteq> []" using assms by auto
  have lt: "nat ((h - 1) mod go_len b) < length b"
    using nat_mod_less [of "length b"] ne by (simp add: go_len_def)
  have "ring_items (b[nat ((h - 1) mod go_len b) := x]) h n = ring_items b h n"
  proof (rule ring_set_outside [OF ne])
    fix i assume "i < n"
    then have "int i + 1 < go_len b" using assms by (simp add: go_len_def)
    then show "(h + int i) mod go_len b \<noteq> (h - 1) mod go_len b"
      using ring_index_inj [of "int i + 1" "go_len b" 0 "h - 1"] by fastforce
  qed
  moreover have "((h - 1) mod go_len b + 1) mod go_len b = h mod go_len b"
    by (simp add: mod_add_left_eq)
  ultimately show ?thesis
    using lt ring_items_mod [of "b[nat ((h - 1) mod go_len b) := x]" h n] ring_items_mod [of b h n]
    by (simp add: ring_items_Cons go_len_def)
qed

lemma ring_pop_front:
  assumes "Suc n \<le> length b"
  shows "ring_items (b[nat (h mod go_len b) := z]) ((h + 1) mod go_len b) n
    = tl (ring_items b h (Suc n))"
proof -
  have ne: "b \<noteq> []" using assms by auto
  have "ring_items (b[nat (h mod go_len b) := z]) (h + 1) n = ring_items b (h + 1) n"
  proof (rule ring_set_outside [OF ne])
    fix i assume "i < n"
    then have "1 + int i < go_len b" using assms by (simp add: go_len_def)
    then show "(h + 1 + int i) mod go_len b \<noteq> h mod go_len b"
      using ring_index_inj [of "1 + int i" "go_len b" 0 h] by (fastforce simp: add.assoc)
  qed
  then show ?thesis
    by (simp add: ring_items_Cons ring_items_mod go_len_def)
       (metis go_len_def length_list_update ring_items_mod)
qed

lemma ring_pop_back:
  assumes "Suc n \<le> length b"
  shows "ring_items (b[nat ((h + int n) mod go_len b) := z]) h n
    = butlast (ring_items b h (Suc n))"
proof -
  have ne: "b \<noteq> []" using assms by auto
  have "ring_items (b[nat ((h + int n) mod go_len b) := z]) h n = ring_items b h n"
  proof (rule ring_set_outside [OF ne])
    fix i assume "i < n"
    then show "(h + int i) mod go_len b \<noteq> (h + int n) mod go_len b"
      using ring_index_inj [of "int i" "go_len b" "int n" h] assms by (auto simp: go_len_def)
  qed
  then show ?thesis by (simp add: ring_items_Suc)
qed

lemma ring_items_linear: "n \<le> length b \<Longrightarrow> ring_items b 0 n = take n b"
  by (rule nth_equalityI) (simp_all add: nth_ring_items go_len_def)

section \<open>The representation invariant\<close>

definition queue_inv :: "'a queue \<Rightarrow> bool" where
  "queue_inv q \<longleftrightarrow> (\<exists>k. go_len (q_buf q) = 2 ^ k) \<and> minCapacity \<le> go_len (q_buf q) \<and>
     0 \<le> q_head q \<and> q_head q < go_len (q_buf q) \<and>
     0 \<le> q_size q \<and> q_size q \<le> go_len (q_buf q) \<and>
     q_tail q = (q_head q + q_size q) mod go_len (q_buf q)"

definition queue_items :: "'a queue \<Rightarrow> 'a list" where
  "queue_items q = ring_items (q_buf q) (q_head q) (nat (q_size q))"

lemma length_queue_items: "queue_inv q \<Longrightarrow> int (length (queue_items q)) = q_size q"
  by (simp add: queue_items_def queue_inv_def)

lemma queue_items_Nil_iff: "queue_inv q \<Longrightarrow> queue_items q = [] \<longleftrightarrow> q_size q = 0"
  using length_queue_items [of q] by auto

lemma ring_copy_spec:
  assumes "go_len b = 2 ^ k" and "0 \<le> i" and "i + int n \<le> int (length dst)"
  shows "ring_copy b h i n dst
    = Some (take (nat i) dst @ map (\<lambda>j. b ! nat ((h + i + int j) mod go_len b)) [0..<n]
            @ drop (nat i + n) dst)"
  using assms(2,3)
proof (induction n arbitrary: i dst)
  case 0
  then show ?case by simp
next
  case (Suc n)
  let ?L = "go_len b"
  let ?v = "b ! nat ((h + i) mod ?L)"
  have L: "0 < ?L" using assms(1) by simp
  have "go_get b ((h + i) AND (?L - 1)) = Some ?v"
    using L by (simp add: assms(1) and_mask_mod go_get_def)
  moreover have "go_set dst i ?v = Some (dst[nat i := ?v])"
    using Suc.prems by (simp add: go_defs)
  moreover have "ring_copy b h (i + 1) n (dst[nat i := ?v])
    = Some (take (nat (i + 1)) (dst[nat i := ?v])
        @ map (\<lambda>j. b ! nat ((h + (i + 1) + int j) mod ?L)) [0..<n]
        @ drop (nat (i + 1) + n) (dst[nat i := ?v]))"
    using Suc.prems by (intro Suc.IH) auto
  moreover have "take (nat (i + 1)) (dst[nat i := ?v]) = take (nat i) dst @ [?v]"
  proof -
    have "nat (i + 1) = Suc (nat i)" using Suc.prems by simp
    then show ?thesis using Suc.prems by (simp add: take_Suc_conv_app_nth)
  qed
  moreover have "drop (nat (i + 1) + n) (dst[nat i := ?v]) = drop (nat i + Suc n) dst"
    using Suc.prems by (simp add: drop_update_cancel nat_add_distrib)
  ultimately show ?case
    by (simp add: map_upt_Suc ac_simps del: upt_Suc)
qed

lemma queue_inv_bounds:
  assumes "queue_inv q"
  shows "0 < go_len (q_buf q)" "q_buf q \<noteq> []" "16 \<le> go_len (q_buf q)"
    "0 \<le> q_head q" "q_head q < go_len (q_buf q)" "0 \<le> q_size q" "q_size q \<le> go_len (q_buf q)"
    "q_tail q = (q_head q + q_size q) mod go_len (q_buf q)"
  using assms by (auto simp: queue_inv_def minCapacity_def go_len_def)

lemma queue_and_mask: "queue_inv q \<Longrightarrow> x AND (go_len (q_buf q) - 1) = x mod go_len (q_buf q)"
  by (auto simp: queue_inv_def and_mask_mod)

lemma ring_copy_queue:
  assumes "queue_inv q" and "nat (q_size q) \<le> length dst"
  shows "ring_copy (q_buf q) (q_head q) 0 (nat (q_size q)) dst
    = Some (queue_items q @ drop (nat (q_size q)) dst)"
proof -
  obtain k where "go_len (q_buf q) = 2 ^ k" using assms(1) by (auto simp: queue_inv_def)
  moreover have "0 + int (nat (q_size q)) \<le> int (length dst)" using assms(2) by (simp add: nat_le_iff)
  ultimately show ?thesis
    using ring_copy_spec [of "q_buf q" k 0 "nat (q_size q)" dst "q_head q"]
    by (simp add: queue_items_def ring_items_def)
qed

definition same_control :: "'a queue \<Rightarrow> 'a queue \<Rightarrow> bool" where
  "same_control q q' \<longleftrightarrow> q_closed q' = q_closed q \<and> q_maxCap q' = q_maxCap q \<and>
     q_wakeEpoch q' = q_wakeEpoch q"

lemma same_control_refl [simp]: "same_control q q"
  by (simp add: same_control_def)

lemma resize_spec:
  assumes inv: "queue_inv q" and cap: "newCap = 2 ^ k" "minCapacity \<le> newCap" "q_size q < newCap"
  obtains q' where "Queue_resize newCap q = Some q'" "queue_inv q'" "queue_items q' = queue_items q"
    "same_control q q'" "go_len (q_buf q') = newCap" "q_size q' = q_size q"
proof -
  let ?b = "queue_items q @ replicate (nat newCap - nat (q_size q)) 0"
  let ?q = "q\<lparr>q_buf := ?b, q_head := 0, q_tail := q_size q\<rparr>"
  note bnd = queue_inv_bounds [OF inv]
  have len: "length (queue_items q) = nat (q_size q)" by (simp add: queue_items_def)
  have glen: "go_len ?b = newCap"
    using cap(3) bnd(6) by (simp add: go_len_def len of_nat_diff)
  have r: "Queue_resize newCap q = Some ?q"
    using cap bnd(6) ring_copy_queue [OF inv, of "replicate (nat newCap) 0"]
    by (simp add: Queue_resize_def)
  moreover have "queue_inv ?q"
    using cap bnd glen by (auto simp: queue_inv_def)
  moreover have "queue_items ?q = queue_items q"
    by (simp add: queue_items_def [of ?q] ring_items_linear len)
  ultimately show thesis
    using that [of ?q] glen by (simp add: same_control_def)
qed

lemma shrink_spec:
  assumes inv: "queue_inv q"
  obtains q' where "Queue_shrinkIfNeeded q = Some q'" "queue_inv q'" "queue_items q' = queue_items q"
    "same_control q q'" "q_size q' = q_size q"
    "go_len (q_buf q') = (if go_len (q_buf q) > 16 \<and> q_size q \<le> go_len (q_buf q) div 4
       then go_len (q_buf q) div 2 else go_len (q_buf q))"
proof (cases "go_len (q_buf q) > 16 \<and> q_size q \<le> go_len (q_buf q) div 4")
  case False
  then show ?thesis
    using that [of q] inv by (auto simp: Queue_shrinkIfNeeded_def minCapacity_def Let_def)
next
  case True
  obtain k where k: "go_len (q_buf q) = 2 ^ k" using inv by (auto simp: queue_inv_def)
  with True have "(2::int) ^ 4 < 2 ^ k" by simp
  then have k4: "4 < k" using power_less_imp_less_exp [of "2::int" 4 k] by simp
  then obtain k' where k': "k = Suc k'" by (cases k) auto
  have half: "go_len (q_buf q) div 2 = 2 ^ k'" using k k' by simp
  have big: "(16::int) \<le> 2 ^ k'"
    using power_increasing [of 4 k' "2::int"] k4 k' by simp
  have "Queue_shrinkIfNeeded q = Queue_resize (2 ^ k') q"
    using True half big by (simp add: Queue_shrinkIfNeeded_def minCapacity_def)
  moreover have "q_size q < 2 ^ k'"
    using True k k' big by simp
  ultimately show ?thesis
    using resize_spec [OF inv, of "2 ^ k'" k'] that big half True
    by (auto simp: minCapacity_def)
qed

section \<open>Each operation against the list of elements\<close>

definition queue_full :: "'a queue \<Rightarrow> bool" where
  "queue_full q \<longleftrightarrow> 0 < q_maxCap q \<and> q_maxCap q \<le> q_size q"

lemma nat_Suc_of_size: "queue_inv q \<Longrightarrow> nat (q_size q + 1) = Suc (nat (q_size q))"
  by (simp add: queue_inv_def nat_add_distrib)

text \<open>Room for one more element: the buffer that \<^verbatim>\<open>AddBack\<close> and \<^verbatim>\<open>AddFront\<close> write to.\<close>

lemma grow_spec:
  assumes inv: "queue_inv q"
  obtains q1 where
    "(if q_size q = go_len (q_buf q) then Queue_resize (push_bit 1 (go_len (q_buf q))) q
      else Some q) = Some q1"
    "queue_inv q1" "queue_items q1 = queue_items q" "same_control q q1" "q_size q1 = q_size q"
    "q_size q1 < go_len (q_buf q1)"
    "go_len (q_buf q1) = (if q_size q = go_len (q_buf q) then 2 * go_len (q_buf q)
       else go_len (q_buf q))"
proof (cases "q_size q = go_len (q_buf q)")
  case True
  obtain k where k: "go_len (q_buf q) = 2 ^ k" using inv by (auto simp: queue_inv_def)
  have two: "push_bit 1 (go_len (q_buf q)) = 2 ^ Suc k"
    by (simp add: push_bit_eq_mult k)
  have "minCapacity \<le> 2 ^ Suc k" "q_size q < 2 ^ Suc k"
    using queue_inv_bounds [OF inv] k True by (auto simp: minCapacity_def)
  from resize_spec [OF inv refl this] obtain q1 where
    "Queue_resize (2 ^ Suc k) q = Some q1" "queue_inv q1" "queue_items q1 = queue_items q"
    "same_control q q1" "go_len (q_buf q1) = 2 ^ Suc k" "q_size q1 = q_size q" by blast
  with that [of q1] True two k show ?thesis by (simp add: mult.commute)
next
  case False
  with that [of q] inv queue_inv_bounds [OF inv] show ?thesis by simp
qed

lemma AddBack_ok:
  assumes inv: "queue_inv q" and "\<not> q_closed q" "\<not> queue_full q"
  obtains q' where "Queue_AddBack x q = Some (None, q')" "queue_inv q'"
    "queue_items q' = queue_items q @ [x]" "same_control q q'" "q_size q' = q_size q + 1"
    "go_len (q_buf q') = (if q_size q = go_len (q_buf q) then 2 * go_len (q_buf q)
       else go_len (q_buf q))"
proof -
  obtain q1 where g: "(if q_size q = go_len (q_buf q)
        then Queue_resize (push_bit 1 (go_len (q_buf q))) q else Some q) = Some q1"
    and inv1: "queue_inv q1" and it: "queue_items q1 = queue_items q" and ctl: "same_control q q1"
    and sz: "q_size q1 = q_size q" "q_size q1 < go_len (q_buf q1)"
    and ln: "go_len (q_buf q1) = (if q_size q = go_len (q_buf q) then 2 * go_len (q_buf q)
       else go_len (q_buf q))"
    using grow_spec [OF inv] by metis
  note b = queue_inv_bounds [OF inv1]
  let ?b = "(q_buf q1)[nat (q_tail q1) := x]"
  let ?q = "q1\<lparr>q_buf := ?b, q_tail := (q_tail q1 + 1) mod go_len (q_buf q1),
     q_size := q_size q1 + 1, q_ctAddBack := q_ctAddBack q1 + 1\<rparr>"
  have gl: "go_len ?b = go_len (q_buf q1)" by (simp add: go_len_def)
  have st: "go_set (q_buf q1) (q_tail q1) x = Some ?b"
    using b by (simp add: go_set_def)
  have eq: "Queue_AddBack x q = Some (None, ?q)"
    using assms(2,3) by (simp add: Queue_AddBack_def queue_full_def g st gl queue_and_mask [OF inv1])
  moreover have "queue_inv ?q"
    using inv1 sz gl b by (auto simp: queue_inv_def mod_add_left_eq add.assoc)
  moreover have "queue_items ?q = queue_items q @ [x]"
  proof -
    have "nat (q_size q1) < length (q_buf q1)"
      using sz b by (simp add: go_len_def nat_less_iff)
    from ring_push_back [OF this, of "q_head q1" x] show ?thesis
      using b it by (simp add: queue_items_def nat_Suc_of_size [OF inv1])
  qed
  ultimately show thesis
    using that [of ?q] ctl sz ln gl by (simp add: same_control_def)
qed

lemma AddFront_ok:
  assumes inv: "queue_inv q" and "\<not> q_closed q" "\<not> queue_full q"
  obtains q' where "Queue_AddFront x q = Some (None, q')" "queue_inv q'"
    "queue_items q' = x # queue_items q" "same_control q q'" "q_size q' = q_size q + 1"
    "go_len (q_buf q') = (if q_size q = go_len (q_buf q) then 2 * go_len (q_buf q)
       else go_len (q_buf q))"
proof -
  obtain q1 where g: "(if q_size q = go_len (q_buf q)
        then Queue_resize (push_bit 1 (go_len (q_buf q))) q else Some q) = Some q1"
    and inv1: "queue_inv q1" and it: "queue_items q1 = queue_items q" and ctl: "same_control q q1"
    and sz: "q_size q1 = q_size q" "q_size q1 < go_len (q_buf q1)"
    and ln: "go_len (q_buf q1) = (if q_size q = go_len (q_buf q) then 2 * go_len (q_buf q)
       else go_len (q_buf q))"
    using grow_spec [OF inv] by metis
  note b = queue_inv_bounds [OF inv1]
  let ?h = "(q_head q1 - 1) mod go_len (q_buf q1)"
  let ?b = "(q_buf q1)[nat ?h := x]"
  let ?q = "q1\<lparr>q_head := ?h, q_buf := ?b, q_size := q_size q1 + 1,
     q_ctAddFront := q_ctAddFront q1 + 1\<rparr>"
  have gl: "go_len ?b = go_len (q_buf q1)" by (simp add: go_len_def)
  have h: "(q_head q1 - 1 + go_len (q_buf q1)) AND (go_len (q_buf q1) - 1) = ?h"
    by (simp add: queue_and_mask [OF inv1])
  have st: "go_set (q_buf q1) ?h x = Some ?b"
    using b by (simp add: go_set_def)
  have eq: "Queue_AddFront x q = Some (None, ?q)"
    using assms(2,3) by (simp add: Queue_AddFront_def queue_full_def g h st Let_def)
  moreover have "queue_inv ?q"
    using inv1 sz gl b by (auto simp: queue_inv_def mod_add_left_eq)
  moreover have "queue_items ?q = x # queue_items q"
  proof -
    have "nat (q_size q1) < length (q_buf q1)"
      using sz b by (simp add: go_len_def nat_less_iff)
    from ring_push_front [OF this, of "q_head q1" x] show ?thesis
      using b it by (simp add: queue_items_def nat_Suc_of_size [OF inv1])
  qed
  ultimately show thesis
    using that [of ?q] ctl sz ln gl by (simp add: same_control_def)
qed

lemma removeFront_ok:
  assumes inv: "queue_inv q" and ne: "q_size q \<noteq> 0"
  obtains q' where "Queue_removeFrontLocked q = Some (hd (queue_items q), q')" "queue_inv q'"
    "queue_items q' = tl (queue_items q)" "same_control q q'" "q_size q' = q_size q - 1"
    "go_len (q_buf q') = (if go_len (q_buf q) > 16 \<and> q_size q - 1 \<le> go_len (q_buf q) div 4
       then go_len (q_buf q) div 2 else go_len (q_buf q))"
proof -
  note b = queue_inv_bounds [OF inv]
  obtain n where n: "nat (q_size q) = Suc n"
    using ne b(6) by (cases "nat (q_size q)") auto
  let ?b = "(q_buf q)[nat (q_head q) := 0]"
  let ?q = "q\<lparr>q_buf := ?b, q_head := (q_head q + 1) mod go_len (q_buf q),
     q_size := q_size q - 1, q_ctRemoveFront := q_ctRemoveFront q + 1\<rparr>"
  have gl: "go_len ?b = go_len (q_buf q)" by (simp add: go_len_def)
  have inv1: "queue_inv ?q"
    using inv gl b ne by (auto simp: queue_inv_def mod_add_left_eq)
  have it: "queue_items ?q = tl (queue_items q)"
  proof -
    have "Suc n \<le> length (q_buf q)" using n b by (simp add: go_len_def)
    from ring_pop_front [OF this, of "q_head q" 0] show ?thesis
      using b n by (simp add: queue_items_def nat_diff_distrib)
  qed
  have hd: "go_get (q_buf q) (q_head q) = Some (hd (queue_items q))"
    using b n by (simp add: go_get_def queue_items_def ring_items_Cons)
  obtain q' where "Queue_shrinkIfNeeded ?q = Some q'" "queue_inv q'" "queue_items q' = queue_items ?q"
    "same_control ?q q'" "q_size q' = q_size ?q"
    "go_len (q_buf q') = (if go_len (q_buf ?q) > 16 \<and> q_size ?q \<le> go_len (q_buf ?q) div 4
       then go_len (q_buf ?q) div 2 else go_len (q_buf ?q))"
    using shrink_spec [OF inv1] by metis
  then show thesis
    using that [of q'] b hd it gl
    by (simp add: Queue_removeFrontLocked_def go_set_def queue_and_mask [OF inv] same_control_def)
qed


lemma RemoveBack_ok:
  assumes inv: "queue_inv q" and ne: "q_size q \<noteq> 0" and op: "\<not> q_closed q"
  obtains q' where "Queue_RemoveBack q = Some (Inr (last (queue_items q)), q')" "queue_inv q'"
    "queue_items q' = butlast (queue_items q)" "same_control q q'" "q_size q' = q_size q - 1"
    "go_len (q_buf q') = (if go_len (q_buf q) > 16 \<and> q_size q - 1 \<le> go_len (q_buf q) div 4
       then go_len (q_buf q) div 2 else go_len (q_buf q))"
proof -
  note b = queue_inv_bounds [OF inv]
  obtain n where n: "nat (q_size q) = Suc n"
    using ne b(6) by (cases "nat (q_size q)") auto
  then have sz: "q_size q = int n + 1" by simp
  let ?t = "(q_head q + int n) mod go_len (q_buf q)"
  let ?b = "(q_buf q)[nat ?t := 0]"
  let ?q = "q\<lparr>q_tail := ?t, q_buf := ?b, q_size := q_size q - 1,
     q_ctRemoveBack := q_ctRemoveBack q + 1\<rparr>"
  have gl: "go_len ?b = go_len (q_buf q)" by (simp add: go_len_def)
  have t: "(q_tail q - 1 + go_len (q_buf q)) AND (go_len (q_buf q) - 1) = ?t"
    using b(8) sz by (simp add: queue_and_mask [OF inv] mod_diff_left_eq)
  have inv1: "queue_inv ?q"
    using inv gl b sz by (auto simp: queue_inv_def)
  have it: "queue_items ?q = butlast (queue_items q)"
  proof -
    have "Suc n \<le> length (q_buf q)" using n b by (simp add: go_len_def)
    from ring_pop_back [OF this, of "q_head q" 0] show ?thesis
      using n sz by (simp add: queue_items_def)
  qed
  have lst: "go_get (q_buf q) ?t = Some (last (queue_items q))"
    using b n by (simp add: go_get_def queue_items_def ring_items_Suc)
  have stt: "go_set (q_buf q) ?t 0 = Some ?b"
    using b by (simp add: go_set_def)
  obtain q' where "Queue_shrinkIfNeeded ?q = Some q'" "queue_inv q'" "queue_items q' = queue_items ?q"
    "same_control ?q q'" "q_size q' = q_size ?q"
    "go_len (q_buf q') = (if go_len (q_buf ?q) > 16 \<and> q_size ?q \<le> go_len (q_buf ?q) div 4
       then go_len (q_buf ?q) div 2 else go_len (q_buf ?q))"
    using shrink_spec [OF inv1] by metis
  then show thesis
    using that [of q'] ne op lst it gl t stt
    by (simp add: Queue_RemoveBack_def same_control_def Let_def)
qed

lemma Peek_ok:
  assumes inv: "queue_inv q" and ne: "q_size q \<noteq> 0" and op: "\<not> q_closed q"
  shows "Queue_PeekFront q = Some (Inr (hd (queue_items q)))"
    and "Queue_PeekBack q = Some (Inr (last (queue_items q)))"
proof -
  note b = queue_inv_bounds [OF inv]
  obtain n where n: "nat (q_size q) = Suc n"
    using ne b(6) by (cases "nat (q_size q)") auto
  then have sz: "q_size q = int n + 1" by simp
  show "Queue_PeekFront q = Some (Inr (hd (queue_items q)))"
    using b n ne op by (simp add: Queue_PeekFront_def go_get_def queue_items_def ring_items_Cons)
  have t: "(q_tail q - 1 + go_len (q_buf q)) AND (go_len (q_buf q) - 1)
      = (q_head q + int n) mod go_len (q_buf q)"
    using b(8) sz by (simp add: queue_and_mask [OF inv] mod_diff_left_eq)
  show "Queue_PeekBack q = Some (Inr (last (queue_items q)))"
    using b(1-7) n ne op by (simp add: Queue_PeekBack_def t go_get_def queue_items_def ring_items_Suc)
qed

lemma Slice_ok: "queue_inv q \<Longrightarrow> Queue_Slice q = Some (queue_items q)"
  using queue_inv_bounds [of q] ring_copy_queue [of q "replicate (nat (q_size q)) 0"]
  by (simp add: Queue_Slice_def)

lemma Clear_ok:
  assumes "queue_inv q"
  obtains q' where "Queue_Clear q = Some q'" "queue_inv q'" "queue_items q' = []"
    "q_closed q' = q_closed q" "q_maxCap q' = q_maxCap q" "go_len (q_buf q') = 16" "q_size q' = 0"
proof -
  let ?q = "q\<lparr>q_head := 0, q_tail := 0, q_size := 0, q_buf := replicate 16 0,
    q_wakeEpoch := q_wakeEpoch q + 1\<rparr>"
  have "Queue_Clear q = Some ?q" by (simp add: Queue_Clear_def minCapacity_def)
  moreover have "queue_inv ?q"
    by (auto simp: queue_inv_def go_len_def minCapacity_def intro: exI [of _ 4])
  ultimately show thesis
    using that [of ?q] by (simp add: queue_items_def go_len_def)
qed

section \<open>Construction\<close>

lemma i64_double: "k < 62 \<Longrightarrow> i64 (2 * 2 ^ k) = 2 * 2 ^ k"
proof -
  assume "k < 62"
  then have "(2::int) ^ Suc k \<le> 2 ^ 62" by (intro power_increasing) auto
  then have "(2::int) ^ Suc k < 2 ^ 63" by (rule le_less_trans) simp
  moreover have "- (2 ^ 63) \<le> (2::int) ^ Suc k"
    by (rule order.trans [of _ 0]) simp_all
  ultimately have "i64_range (2 ^ Suc k)" unfolding i64_range_def by (rule conjI [rotated])
  from i64_id [OF this] show ?thesis by (simp only: power_Suc)
qed

text \<open>Up to \<^term>\<open>2 ^ 62 :: int\<close> the loop ends with the least power of two that is large enough.\<close>

lemma grow_cap_spec:
  assumes "k \<le> 62" and "ic \<le> 2 ^ 62"
  obtains j where "grow_cap (2 ^ k) ic = Some (2 ^ k * 2 ^ j)" "ic \<le> 2 ^ k * 2 ^ j"
    "j = 0 \<or> 2 ^ k * 2 ^ (j - 1) < ic"
  using assms(1)
proof (induction "62 - k" arbitrary: k thesis rule: less_induct)
  case less
  show ?case
  proof (cases "(2::int) ^ k < ic")
    case False
    then show ?thesis
      using less.prems(1) [of 0] by (simp add: grow_cap.simps)
  next
    case True
    then have "(2::int) ^ k < 2 ^ 62" using assms(2) by (rule less_le_trans)
    then have k: "k < 62" by (rule power_less_imp_less_exp [rotated]) simp
    then have "62 - Suc k < 62 - k" "Suc k \<le> 62" by simp_all
    from less.hyps [OF this(1) _ this(2)] obtain j where
      j: "grow_cap (2 ^ Suc k) ic = Some (2 ^ Suc k * 2 ^ j)" "ic \<le> 2 ^ Suc k * 2 ^ j"
      "j = 0 \<or> 2 ^ Suc k * 2 ^ (j - 1) < ic" by metis
    have "grow_cap (2 ^ k) ic = grow_cap (2 ^ Suc k) ic"
      using True i64_double [OF k]
      by (simp add: grow_cap.simps [of "2 ^ k"] push_bit_eq_mult mult.commute)
    moreover have "2 ^ k * 2 ^ (Suc j - 1) < ic"
      using j(3) True by (cases j) (auto simp: ac_simps)
    ultimately show ?thesis
      using less.prems(1) [of "Suc j"] j by (simp add: ac_simps)
  qed
qed

text \<open>Above \<^term>\<open>2 ^ 62 :: int\<close> the shift reaches the sign bit, then zero, and the loop never
  ends.\<close>

abbreviation wrapped_caps :: "int set" where
  "wrapped_caps \<equiv> insert 0 (insert (- (2 ^ 63)) {2 ^ k |k. k \<le> 62})"

lemma i64_double_wraps: "k \<le> 62 \<Longrightarrow> i64 (2 * 2 ^ k) \<in> wrapped_caps"
proof -
  assume "k \<le> 62"
  show ?thesis
  proof (cases "k = 62")
    case True
    have "i64 (2 * 2 ^ 62) = - (2 ^ 63)" by (simp add: i64_def)
    with True show ?thesis by simp
  next
    case False
    with \<open>k \<le> 62\<close> have "k < 62" by simp
    from i64_double [OF this] have "i64 (2 * 2 ^ k) = 2 ^ Suc k" by simp
    with \<open>k < 62\<close> show ?thesis using Suc_leI [of k 62] by blast
  qed
qed

lemma wrapped_caps_closed: "x \<in> wrapped_caps \<Longrightarrow> i64 (push_bit 1 x) \<in> wrapped_caps"
proof -
  assume "x \<in> wrapped_caps"
  then consider "x = 0" | "x = - (2 ^ 63)" | k where "x = 2 ^ k" "k \<le> 62" by blast
  then show ?thesis
  proof cases
    case (3 k)
    with i64_double_wraps [of k] show ?thesis by (simp only: push_bit_eq_mult) (simp add: mult.commute)
  qed (simp_all add: push_bit_eq_mult i64_def)
qed

lemma wrapped_caps_bound: "x \<in> wrapped_caps \<Longrightarrow> x \<le> 2 ^ 62"
  using power_increasing [of _ 62 "2::int"] by auto

lemma grow_cap_wrapped: "grow_cap cap ic = Some y \<Longrightarrow> cap \<in> wrapped_caps \<longrightarrow> \<not> 2 ^ 62 < ic"
proof (rule grow_cap.raw_induct [where P = "\<lambda>cap ic y. cap \<in> wrapped_caps \<longrightarrow> \<not> 2 ^ 62 < ic"])
  fix rec :: "int \<Rightarrow> int \<Rightarrow> int option" and cap ic y
  assume IH: "\<And>cap ic y. rec cap ic = Some y \<Longrightarrow> cap \<in> wrapped_caps \<longrightarrow> \<not> 2 ^ 62 < ic"
    and run: "(if cap < ic then rec (i64 (push_bit 1 cap)) ic else Some cap) = Some y"
  show "cap \<in> wrapped_caps \<longrightarrow> \<not> 2 ^ 62 < ic"
  proof (intro impI notI)
    assume cap: "cap \<in> wrapped_caps" and ic: "2 ^ 62 < ic"
    from wrapped_caps_bound [OF cap] ic have "cap < ic" by (rule le_less_trans)
    with run have "rec (i64 (push_bit 1 cap)) ic = Some y" by simp
    from IH [OF this] wrapped_caps_closed [OF cap] ic show False by blast
  qed
qed

lemma grow_cap_diverges: "2 ^ 62 < ic \<Longrightarrow> grow_cap minCapacity ic = None"
proof -
  assume ic: "2 ^ 62 < ic"
  have "minCapacity = 2 ^ 4" by (simp add: minCapacity_def)
  moreover have "(4::nat) \<le> 62" by simp
  ultimately have "minCapacity \<in> wrapped_caps" by blast
  with grow_cap_wrapped [of minCapacity ic] ic show ?thesis
    by (cases "grow_cap minCapacity ic") auto
qed

lemma power_of_two_times_16: "(16::int) * 2 ^ j = 2 ^ (4 + j)"
  by (simp add: power_add)

lemma newQueue_ok:
  assumes "requestedCap initialCap maxCap \<le> 2 ^ 62"
  obtains q where "(newQueue initialCap maxCap :: 'a::zero queue option) = Some q" "queue_inv q"
    "queue_items q = []" "\<not> q_closed q" "q_maxCap q = maxCap" "q_size q = 0"
    "go_len (q_buf q) = 16 \<or> go_len (q_buf q) < 2 * initialCap"
    "maxCap \<le> 0 \<or> initialCap \<le> maxCap \<longrightarrow> initialCap \<le> go_len (q_buf q)"
proof -
  define ic' where "ic' = requestedCap initialCap maxCap"
  have min4: "minCapacity = 2 ^ 4" by (simp add: minCapacity_def)
  obtain j where j: "grow_cap minCapacity ic' = Some (minCapacity * 2 ^ j)"
    "ic' \<le> minCapacity * 2 ^ j" "j = 0 \<or> minCapacity * 2 ^ (j - 1) < ic'"
    using grow_cap_spec [of 4 ic'] assms unfolding min4 ic'_def by auto
  let ?q = "\<lparr>q_buf = replicate (nat (16 * 2 ^ j)) (0::'a), q_ctAddBack = 0, q_ctAddFront = 0,
     q_ctRemoveBack = 0, q_ctRemoveFront = 0, q_head = 0, q_tail = 0, q_size = 0, q_closed = False,
     q_maxCap = maxCap, q_wakeEpoch = 0\<rparr>"
  have "newQueue initialCap maxCap = Some ?q"
    unfolding newQueue_def ic'_def [symmetric] j(1)
    by (simp add: minCapacity_def)
  moreover have "go_len (q_buf ?q) = 16 * 2 ^ j"
    by (simp add: go_len_def)
  moreover from this have "queue_inv ?q"
    by (auto simp: queue_inv_def minCapacity_def simp flip: power_of_two_times_16
        intro: exI [of _ "4 + j"])
  moreover have "(16::int) * 2 ^ j = 16 \<or> 16 * 2 ^ j < 2 * initialCap"
  proof (cases j)
    case (Suc i)
    have "ic' \<le> 16 \<or> ic' \<le> initialCap"
      by (auto simp: ic'_def requestedCap_def minCapacity_def Let_def)
    moreover have "16 * 2 ^ i < ic'" using Suc j(3) by (simp add: minCapacity_def)
    moreover have "\<not> (16::int) * 2 ^ i < 16" by (simp add: not_less)
    ultimately show ?thesis using Suc by auto
  qed simp
  moreover have "maxCap \<le> 0 \<or> initialCap \<le> maxCap \<longrightarrow> initialCap \<le> 16 * 2 ^ j"
  proof
    assume "maxCap \<le> 0 \<or> initialCap \<le> maxCap"
    then have "initialCap \<le> ic'" by (auto simp: ic'_def requestedCap_def minCapacity_def Let_def)
    with j(2) show "initialCap \<le> 16 * 2 ^ j" by (simp add: minCapacity_def)
  qed
  ultimately show thesis
    using that [of ?q] by (simp add: queue_items_def)
qed

text \<open>A constructor that returned was asked for at most \<^term>\<open>2 ^ 62 :: int\<close> elements.\<close>

lemma newQueue_returned:
  assumes "newQueue initialCap maxCap = Some (q :: 'a::zero queue)"
  shows "requestedCap initialCap maxCap \<le> 2 ^ 62" and "queue_inv q" and "queue_items q = []"
    and "\<not> q_closed q" and "q_maxCap q = maxCap" and "q_size q = 0"
    and "go_len (q_buf q) = 16 \<or> go_len (q_buf q) < 2 * initialCap"
proof -
  show "requestedCap initialCap maxCap \<le> 2 ^ 62"
    using assms grow_cap_diverges [of "requestedCap initialCap maxCap"]
    by (cases "2 ^ 62 < requestedCap initialCap maxCap") (simp_all add: newQueue_def)
  from newQueue_ok [OF this, where 'a = 'a] assms
  show "queue_inv q" "queue_items q = []" "\<not> q_closed q" "q_maxCap q = maxCap" "q_size q = 0"
    "go_len (q_buf q) = 16 \<or> go_len (q_buf q) < 2 * initialCap"
    by (metis option.inject)+
qed

lemma requestedCap_small: "initialCap \<le> 64 \<Longrightarrow> requestedCap initialCap maxCap \<le> 2 ^ 62"
  by (auto simp: requestedCap_def minCapacity_def Let_def)

section \<open>The abstract deque and the simulation\<close>

text \<open>What the package documents: a list with a closed flag and an optional maximum length.\<close>

record 'a deque =
  d_items :: "'a list"
  d_closed :: bool
  d_max :: int

datatype 'a queue_op =
    OpAddBack 'a | OpAddFront 'a | OpRemoveFront | OpRemoveBack | OpPeekFront | OpPeekBack
  | OpSlice | OpLen | OpIsEmpty | OpClear | OpClose | OpBroadcast

datatype 'a queue_resp =
    RespUnit | RespErr queue_error | RespItem 'a | RespItems "'a list" | RespInt int | RespBool bool

definition deque_add :: "('a list \<Rightarrow> 'a list) \<Rightarrow> 'a deque \<Rightarrow> 'a queue_resp \<times> 'a deque" where
  "deque_add f d =
     (if d_closed d then (RespErr ErrClosedQueue, d)
      else if 0 < d_max d \<and> d_max d \<le> int (length (d_items d)) then (RespErr ErrQueueFull, d)
      else (RespUnit, d\<lparr>d_items := f (d_items d)\<rparr>))"

definition deque_take ::
  "('a list \<Rightarrow> 'a) \<Rightarrow> ('a list \<Rightarrow> 'a list) \<Rightarrow> 'a deque \<Rightarrow> 'a queue_resp \<times> 'a deque" where
  "deque_take get rest d =
     (if d_items d = [] then (RespErr ErrEmptyQueue, d)
      else if d_closed d then (RespErr ErrClosedQueue, d)
      else (RespItem (get (d_items d)), d\<lparr>d_items := rest (d_items d)\<rparr>))"

fun deque_step :: "'a queue_op \<Rightarrow> 'a deque \<Rightarrow> 'a queue_resp \<times> 'a deque" where
  "deque_step (OpAddBack x) d = deque_add (\<lambda>xs. xs @ [x]) d"
| "deque_step (OpAddFront x) d = deque_add (\<lambda>xs. x # xs) d"
| "deque_step OpRemoveFront d = deque_take hd tl d"
| "deque_step OpRemoveBack d = deque_take last butlast d"
| "deque_step OpPeekFront d = deque_take hd id d"
| "deque_step OpPeekBack d = deque_take last id d"
| "deque_step OpSlice d = (RespItems (d_items d), d)"
| "deque_step OpLen d = (RespInt (int (length (d_items d))), d)"
| "deque_step OpIsEmpty d = (RespBool (d_items d = []), d)"
| "deque_step OpClear d = (RespUnit, d\<lparr>d_items := []\<rparr>)"
| "deque_step OpClose d = (RespUnit, d\<lparr>d_closed := True\<rparr>)"
| "deque_step OpBroadcast d = (RespUnit, d)"

definition add_resp :: "queue_error option \<times> 'q \<Rightarrow> 'a queue_resp \<times> 'q" where
  "add_resp r = (case fst r of None \<Rightarrow> RespUnit | Some e \<Rightarrow> RespErr e, snd r)"

definition take_resp :: "queue_error + 'a \<Rightarrow> 'a queue_resp" where
  "take_resp r = (case r of Inl e \<Rightarrow> RespErr e | Inr x \<Rightarrow> RespItem x)"

text \<open>One call on the circular buffer; \<^term>\<open>None\<close> is a panic.\<close>

fun queue_exec :: "'a queue_op \<Rightarrow> 'a::zero queue \<Rightarrow> ('a queue_resp \<times> 'a queue) option" where
  "queue_exec (OpAddBack x) q = map_option add_resp (Queue_AddBack x q)"
| "queue_exec (OpAddFront x) q = map_option add_resp (Queue_AddFront x q)"
| "queue_exec OpRemoveFront q = map_option (map_prod take_resp id) (Queue_RemoveFront q)"
| "queue_exec OpRemoveBack q = map_option (map_prod take_resp id) (Queue_RemoveBack q)"
| "queue_exec OpPeekFront q = map_option (\<lambda>r. (take_resp r, q)) (Queue_PeekFront q)"
| "queue_exec OpPeekBack q = map_option (\<lambda>r. (take_resp r, q)) (Queue_PeekBack q)"
| "queue_exec OpSlice q = map_option (\<lambda>xs. (RespItems xs, q)) (Queue_Slice q)"
| "queue_exec OpLen q = Some (RespInt (Queue_Len q), q)"
| "queue_exec OpIsEmpty q = Some (RespBool (Queue_IsEmpty q), q)"
| "queue_exec OpClear q = map_option (\<lambda>q'. (RespUnit, q')) (Queue_Clear q)"
| "queue_exec OpClose q = Some (RespUnit, Queue_Close q)"
| "queue_exec OpBroadcast q = Some (RespUnit, Queue_BroadcastWaiters q)"

definition queue_abs :: "'a queue \<Rightarrow> 'a deque" where
  "queue_abs q = \<lparr>d_items = queue_items q, d_closed = q_closed q, d_max = q_maxCap q\<rparr>"

text \<open>The buffer is never more than four times as long as the contents, above the minimum.\<close>

definition queue_tight :: "'a queue \<Rightarrow> bool" where
  "queue_tight q \<longleftrightarrow> go_len (q_buf q) = 16 \<or> go_len (q_buf q) \<le> 4 * q_size q"


lemma queue_length_simps:
  "queue_inv q \<Longrightarrow> int (length (queue_items q)) = q_size q"
  "queue_inv q \<Longrightarrow> queue_items q = [] \<longleftrightarrow> q_size q = 0"
  by (simp_all add: length_queue_items queue_items_Nil_iff)

lemma abs_simps [simp]:
  "d_items (queue_abs q) = queue_items q" "d_closed (queue_abs q) = q_closed q"
  "d_max (queue_abs q) = q_maxCap q"
  by (simp_all add: queue_abs_def)

definition sim_ok :: "'a queue_op \<Rightarrow> 'a::zero queue \<Rightarrow> 'a queue_resp \<Rightarrow> 'a queue \<Rightarrow> bool" where
  "sim_ok c q r q' \<longleftrightarrow> queue_exec c q = Some (r, q') \<and> queue_inv q' \<and>
     deque_step c (queue_abs q) = (r, queue_abs q') \<and> (queue_tight q \<longrightarrow> queue_tight q')"

lemma sim_okI:
  assumes "queue_exec c q = Some (r, q')" "queue_inv q'"
    "deque_step c (queue_abs q) = (r, queue_abs q')" "queue_tight q \<Longrightarrow> queue_tight q'"
  shows "\<exists>r q'. sim_ok c q r q'"
  using assms by (auto simp: sim_ok_def)

lemma sim_AddBack: "queue_inv q \<Longrightarrow> \<exists>r q'. sim_ok (OpAddBack x) q r q'"
proof (cases "q_closed q \<or> queue_full q")
  case True
  assume "queue_inv q"
  then show ?thesis
    using True by (intro sim_okI [where q' = q and
      r = "RespErr (if q_closed q then ErrClosedQueue else ErrQueueFull)"])
      (auto simp: Queue_AddBack_def queue_full_def add_resp_def deque_add_def queue_length_simps)
next
  case False
  assume inv: "queue_inv q"
  with False obtain q' where q': "Queue_AddBack x q = Some (None, q')" "queue_inv q'"
    "queue_items q' = queue_items q @ [x]" "same_control q q'" "q_size q' = q_size q + 1"
    "go_len (q_buf q') = (if q_size q = go_len (q_buf q) then 2 * go_len (q_buf q)
       else go_len (q_buf q))"
    using AddBack_ok [OF inv] by metis
  show ?thesis
  proof (rule sim_okI)
    show "queue_exec (OpAddBack x) q = Some (RespUnit, q')" using q' by (simp add: add_resp_def)
    show "deque_step (OpAddBack x) (queue_abs q) = (RespUnit, queue_abs q')"
      using q' False inv
      by (auto simp: deque_add_def queue_full_def queue_length_simps queue_abs_def same_control_def)
    show "queue_tight q \<Longrightarrow> queue_tight q'"
      using q' queue_inv_bounds [OF inv] by (auto simp: queue_tight_def split: if_splits)
  qed (use q' in simp)
qed

lemma sim_AddFront: "queue_inv q \<Longrightarrow> \<exists>r q'. sim_ok (OpAddFront x) q r q'"
proof (cases "q_closed q \<or> queue_full q")
  case True
  assume "queue_inv q"
  then show ?thesis
    using True by (intro sim_okI [where q' = q and
      r = "RespErr (if q_closed q then ErrClosedQueue else ErrQueueFull)"])
      (auto simp: Queue_AddFront_def queue_full_def add_resp_def deque_add_def queue_length_simps)
next
  case False
  assume inv: "queue_inv q"
  with False obtain q' where q': "Queue_AddFront x q = Some (None, q')" "queue_inv q'"
    "queue_items q' = x # queue_items q" "same_control q q'" "q_size q' = q_size q + 1"
    "go_len (q_buf q') = (if q_size q = go_len (q_buf q) then 2 * go_len (q_buf q)
       else go_len (q_buf q))"
    using AddFront_ok [OF inv] by metis
  show ?thesis
  proof (rule sim_okI)
    show "queue_exec (OpAddFront x) q = Some (RespUnit, q')" using q' by (simp add: add_resp_def)
    show "deque_step (OpAddFront x) (queue_abs q) = (RespUnit, queue_abs q')"
      using q' False inv
      by (auto simp: deque_add_def queue_full_def queue_length_simps queue_abs_def same_control_def)
    show "queue_tight q \<Longrightarrow> queue_tight q'"
      using q' queue_inv_bounds [OF inv] by (auto simp: queue_tight_def split: if_splits)
  qed (use q' in simp)
qed

lemma tight_shrink:
  assumes "queue_inv q" "q_size q \<noteq> 0" "q_size q' = q_size q - 1"
    "go_len (q_buf q') = (if go_len (q_buf q) > 16 \<and> q_size q - 1 \<le> go_len (q_buf q) div 4
       then go_len (q_buf q) div 2 else go_len (q_buf q))" "queue_tight q"
  shows "queue_tight q'"
proof -
  show ?thesis
    using assms queue_inv_bounds [OF assms(1)]
    by (auto simp: queue_tight_def split: if_splits)
qed


lemma sim_RemoveFront: "queue_inv q \<Longrightarrow> \<exists>r q'. sim_ok OpRemoveFront q r q'"
proof (cases "q_size q = 0 \<or> q_closed q")
  case True
  assume inv: "queue_inv q"
  show ?thesis
    using True inv by (intro sim_okI [where q' = q and
        r = "RespErr (if q_size q = 0 then ErrEmptyQueue else ErrClosedQueue)"])
      (auto simp: Queue_RemoveFront_def take_resp_def deque_take_def queue_length_simps)
next
  case False
  assume inv: "queue_inv q"
  with False obtain q' where q': "Queue_removeFrontLocked q = Some (hd (queue_items q), q')"
    "queue_inv q'" "queue_items q' = tl (queue_items q)" "same_control q q'"
    "q_size q' = q_size q - 1"
    "go_len (q_buf q') = (if go_len (q_buf q) > 16 \<and> q_size q - 1 \<le> go_len (q_buf q) div 4
       then go_len (q_buf q) div 2 else go_len (q_buf q))"
    using removeFront_ok [OF inv] by metis
  show ?thesis
  proof (rule sim_okI)
    show "queue_exec OpRemoveFront q = Some (RespItem (hd (queue_items q)), q')"
      using q' False by (simp add: Queue_RemoveFront_def take_resp_def)
    show "deque_step OpRemoveFront (queue_abs q) = (RespItem (hd (queue_items q)), queue_abs q')"
      using q' False inv
      by (simp add: deque_take_def queue_length_simps queue_abs_def same_control_def)
    show "queue_tight q \<Longrightarrow> queue_tight q'"
      using tight_shrink [OF inv _ q'(5,6)] False by blast
  qed (use q' in simp)
qed

lemma sim_RemoveBack: "queue_inv q \<Longrightarrow> \<exists>r q'. sim_ok OpRemoveBack q r q'"
proof (cases "q_size q = 0 \<or> q_closed q")
  case True
  assume inv: "queue_inv q"
  show ?thesis
    using True inv by (intro sim_okI [where q' = q and
        r = "RespErr (if q_size q = 0 then ErrEmptyQueue else ErrClosedQueue)"])
      (auto simp: Queue_RemoveBack_def take_resp_def deque_take_def queue_length_simps)
next
  case False
  assume inv: "queue_inv q"
  with False obtain q' where q': "Queue_RemoveBack q = Some (Inr (last (queue_items q)), q')"
    "queue_inv q'" "queue_items q' = butlast (queue_items q)" "same_control q q'"
    "q_size q' = q_size q - 1"
    "go_len (q_buf q') = (if go_len (q_buf q) > 16 \<and> q_size q - 1 \<le> go_len (q_buf q) div 4
       then go_len (q_buf q) div 2 else go_len (q_buf q))"
    using RemoveBack_ok [OF inv] by metis
  show ?thesis
  proof (rule sim_okI)
    show "queue_exec OpRemoveBack q = Some (RespItem (last (queue_items q)), q')"
      using q' by (simp add: take_resp_def)
    show "deque_step OpRemoveBack (queue_abs q) = (RespItem (last (queue_items q)), queue_abs q')"
      using q' False inv
      by (simp add: deque_take_def queue_length_simps queue_abs_def same_control_def)
    show "queue_tight q \<Longrightarrow> queue_tight q'"
      using tight_shrink [OF inv _ q'(5,6)] False by blast
  qed (use q' in simp)
qed

lemma sim_Peek:
  assumes "queue_inv q"
  shows "\<exists>r q'. sim_ok OpPeekFront q r q'" "\<exists>r q'. sim_ok OpPeekBack q r q'"
proof -
  show "\<exists>r q'. sim_ok OpPeekFront q r q'"
    using assms Peek_ok [OF assms]
    by (intro sim_okI [where q' = q and r = "fst (deque_step OpPeekFront (queue_abs q))"])
      (auto simp: Queue_PeekFront_def take_resp_def deque_take_def queue_length_simps)
  show "\<exists>r q'. sim_ok OpPeekBack q r q'"
    using assms Peek_ok [OF assms]
    by (intro sim_okI [where q' = q and r = "fst (deque_step OpPeekBack (queue_abs q))"])
      (auto simp: Queue_PeekBack_def take_resp_def deque_take_def queue_length_simps)
qed

lemma queue_inv_control:
  "queue_inv (q\<lparr>q_closed := c\<rparr>) = queue_inv q"
  "queue_items (q\<lparr>q_closed := c\<rparr>) = queue_items q"
  "queue_inv (q\<lparr>q_wakeEpoch := w\<rparr>) = queue_inv q"
  "queue_items (q\<lparr>q_wakeEpoch := w\<rparr>) = queue_items q"
  by (simp_all add: queue_inv_def queue_items_def)

lemma queue_simulation:
  assumes inv: "queue_inv q"
  shows "\<exists>r q'. sim_ok c q r q'"
proof (cases c)
  case OpSlice
  then show ?thesis
    using inv by (auto intro!: sim_okI [where q' = q] simp: Slice_ok)
next
  case OpLen
  then show ?thesis
    using inv by (auto intro!: sim_okI [where q' = q] simp: Queue_Len_def queue_length_simps)
next
  case OpIsEmpty
  then show ?thesis
    using inv by (auto intro!: sim_okI [where q' = q] simp: Queue_IsEmpty_def queue_length_simps)
next
  case OpClear
  obtain q' where "Queue_Clear q = Some q'" "queue_inv q'" "queue_items q' = []"
    "q_closed q' = q_closed q" "q_maxCap q' = q_maxCap q" "go_len (q_buf q') = 16" "q_size q' = 0"
    using Clear_ok [OF inv] by metis
  then show ?thesis
    using OpClear by (intro sim_okI [where q' = q']) (auto simp: queue_abs_def queue_tight_def)
next
  case OpClose
  then show ?thesis
    using inv by (auto intro!: sim_okI
        simp: Queue_Close_def queue_inv_control queue_abs_def queue_tight_def)
next
  case OpBroadcast
  then show ?thesis
    using inv by (auto intro!: sim_okI
        simp: Queue_BroadcastWaiters_def queue_inv_control queue_abs_def queue_tight_def)
qed (simp_all add: inv sim_AddBack sim_AddFront sim_RemoveFront sim_RemoveBack sim_Peek)

text \<open>A client's whole history: the calls in order, with their responses.\<close>

fun queue_run :: "'a queue_op list \<Rightarrow> 'a::zero queue \<Rightarrow> ('a queue_resp list \<times> 'a queue) option" where
  "queue_run [] q = Some ([], q)"
| "queue_run (c # cs) q = do {
     (r, q') \<leftarrow> queue_exec c q;
     (rs, q'') \<leftarrow> queue_run cs q';
     Some (r # rs, q'') }"

fun deque_run :: "'a queue_op list \<Rightarrow> 'a deque \<Rightarrow> 'a queue_resp list \<times> 'a deque" where
  "deque_run [] d = ([], d)"
| "deque_run (c # cs) d =
     (let (r, d') = deque_step c d; (rs, d'') = deque_run cs d' in (r # rs, d''))"

lemma queue_run_simulation:
  assumes "queue_inv q"
  shows "\<exists>rs q'. queue_run cs q = Some (rs, q') \<and> queue_inv q' \<and>
    deque_run cs (queue_abs q) = (rs, queue_abs q') \<and> (queue_tight q \<longrightarrow> queue_tight q')"
  using assms
proof (induction cs arbitrary: q)
  case Nil
  then show ?case by simp
next
  case (Cons c cs)
  obtain r q1 where 1: "sim_ok c q r q1" using queue_simulation [OF Cons.prems] by blast
  then have inv1: "queue_inv q1" by (simp add: sim_ok_def)
  obtain rs q' where "queue_run cs q1 = Some (rs, q')" "queue_inv q'"
    "deque_run cs (queue_abs q1) = (rs, queue_abs q')" "queue_tight q1 \<longrightarrow> queue_tight q'"
    using Cons.IH [OF inv1] by blast
  with 1 show ?case by (auto simp: sim_ok_def)
qed


section \<open>Properties\<close>

definition empty_deque :: "int \<Rightarrow> 'a deque" where
  "empty_deque maxCap = \<lparr>d_items = [], d_closed = False, d_max = maxCap\<rparr>"

text \<open>C3: For every requested capacity up to \<^term>\<open>2 ^ 62 :: int\<close> the constructor returns, and
  every history of calls on the circular buffer (as long as the memory for its buffers is there)
  runs without a panic, answers each call exactly as the bounded list-based deque would (elements,
  order, \<^verbatim>\<open>ErrEmptyQueue\<close>, \<^verbatim>\<open>ErrClosedQueue\<close>, \<^verbatim>\<open>ErrQueueFull\<close>), and ends with the same
  contents. The deque is bounded by every positive \<^verbatim>\<open>maxCap\<close>, also by one below \<^verbatim>\<open>initialCap\<close>,
  for which the comment of \<^verbatim>\<open>NewBoundedQueue\<close> promises an unbounded queue. For a larger request
  the loop that looks for a power of two never ends.\<close>

theorem queue_refines_deque:
  "(requestedCap initialCap maxCap \<le> 2 ^ 62 \<longrightarrow>
     (\<exists>q rs q'. newQueue initialCap maxCap = Some (q :: 'a::zero queue) \<and>
       queue_run cs q = Some (rs, q') \<and>
       deque_run cs (empty_deque maxCap) = (rs, queue_abs q'))) \<and>
   (2 ^ 62 < requestedCap initialCap maxCap \<longrightarrow>
     grow_cap minCapacity (requestedCap initialCap maxCap) = None)"
proof (intro conjI impI)
  assume "requestedCap initialCap maxCap \<le> 2 ^ 62"
  then obtain q where q: "newQueue initialCap maxCap = Some (q :: 'a queue)" "queue_inv q"
    "queue_items q = []" "\<not> q_closed q" "q_maxCap q = maxCap"
    using newQueue_ok by metis
  then have "queue_abs q = empty_deque maxCap" by (simp add: queue_abs_def empty_deque_def)
  with q queue_run_simulation [OF q(2), of cs] show "\<exists>q rs q'.
      newQueue initialCap maxCap = Some (q :: 'a queue) \<and> queue_run cs q = Some (rs, q') \<and>
      deque_run cs (empty_deque maxCap) = (rs, queue_abs q')" by auto
qed (rule grow_cap_diverges)

theorem queue_refines_deque_witness:
  "(\<exists>q rs q'. newQueue 4 2 = Some (q :: nat queue) \<and>
     queue_run [OpAddBack 7, OpAddFront 5, OpAddBack 9] q = Some (rs, q') \<and>
     deque_run [OpAddBack 7, OpAddFront 5, OpAddBack 9] (empty_deque 2) = (rs, queue_abs q')) \<and>
   grow_cap minCapacity (requestedCap (2 ^ 62 + 1) 0) = None"
proof
  show "\<exists>q rs q'. newQueue 4 2 = Some (q :: nat queue) \<and>
     queue_run [OpAddBack 7, OpAddFront 5, OpAddBack 9] q = Some (rs, q') \<and>
     deque_run [OpAddBack 7, OpAddFront 5, OpAddBack 9] (empty_deque 2) = (rs, queue_abs q')"
    using queue_refines_deque [of 4 2 "[OpAddBack 7, OpAddFront 5, OpAddBack 9 :: nat queue_op]"]
      requestedCap_small [of 4 2] by simp
  show "grow_cap minCapacity (requestedCap (2 ^ 62 + 1) 0) = None"
    using queue_refines_deque [of "2 ^ 62 + 1" 0 "[] :: nat queue_op list"]
    by (simp add: requestedCap_def minCapacity_def)
qed

text \<open>A queue created with an initial capacity of at most 16 never holds a buffer larger than
  the minimum capacity and four times its current number of elements, whatever calls are made:
  growth by doubling and shrinking at a quarter keep the memory linear in the contents.\<close>

theorem queue_memory_linear:
  assumes "initialCap \<le> minCapacity" and "newQueue initialCap maxCap = Some (q :: 'a::zero queue)"
    and "queue_run cs q = Some (rs, q')"
  shows "Queue_Cap q' = minCapacity \<or> Queue_Cap q' \<le> 4 * Queue_Len q'"
proof -
  note new = newQueue_returned [OF assms(2)]
  from new(7) assms(1) have "go_len (q_buf q) < 32 \<or> go_len (q_buf q) = 16"
    by (auto simp: minCapacity_def)
  moreover have "go_len (q_buf q) = 16" if "go_len (q_buf q) < 32"
  proof -
    obtain k where k: "go_len (q_buf q) = 2 ^ k"
      using new(2) by (auto simp: queue_inv_def)
    with that have "(2::int) ^ k < 2 ^ 5" by simp
    then have "k < 5" using power_less_imp_less_exp [of "2::int" k 5] by simp
    moreover have "(2::int) ^ 4 \<le> 2 ^ k" using new(2) k by (simp add: queue_inv_def minCapacity_def)
    then have "4 \<le> k" using power_le_imp_le_exp [of "2::int" 4 k] by simp
    ultimately have "k = 4" by simp
    with k show ?thesis by simp
  qed
  ultimately have "queue_tight q" by (auto simp: queue_tight_def)
  with queue_run_simulation [of q cs] new(2) assms(3) show ?thesis
    by (auto simp: queue_tight_def Queue_Cap_def Queue_Len_def minCapacity_def)
qed

theorem queue_memory_linear_witness:
  "\<exists>q rs q'. newQueue 4 0 = Some (q :: nat queue) \<and>
     queue_run [OpAddBack 7, OpAddFront 5, OpRemoveBack] q = Some (rs, q') \<and>
     (Queue_Cap q' = minCapacity \<or> Queue_Cap q' \<le> 4 * Queue_Len q')"
proof -
  obtain q where q: "newQueue 4 0 = Some (q :: nat queue)" "queue_inv q"
    by (rule newQueue_ok [OF requestedCap_small, where initialCap = 4 and maxCap = 0]) (use that in auto)
  obtain rs q' where run: "queue_run [OpAddBack 7, OpAddFront 5, OpRemoveBack] q = Some (rs, q')"
    using queue_run_simulation [OF q(2)] by metis
  have "4 \<le> minCapacity" by (simp add: minCapacity_def)
  from queue_memory_linear [OF this q(1) run] q run show ?thesis by blast
qed

lemma deque_step_bounded:
  "0 < d_max d \<Longrightarrow> int (length (d_items d)) \<le> d_max d \<Longrightarrow> deque_step c d = (r, d') \<Longrightarrow>
    d_max d' = d_max d \<and> int (length (d_items d')) \<le> d_max d"
  by (cases c) (auto simp: deque_add_def deque_take_def split: if_splits)

lemma deque_run_bounded:
  "0 < d_max d \<Longrightarrow> int (length (d_items d)) \<le> d_max d \<Longrightarrow> deque_run cs d = (rs, d') \<Longrightarrow>
    int (length (d_items d')) \<le> d_max d"
proof (induction cs arbitrary: d rs)
  case (Cons c cs)
  obtain r d1 where 1: "deque_step c d = (r, d1)" by fastforce
  from deque_step_bounded [OF Cons.prems(1,2) 1] Cons.IH [of d1] Cons.prems(1,3) 1 show ?case
    by (auto split: prod.splits)
qed simp

text \<open>A positive maximum capacity bounds the queue even when it is smaller than the requested
  initial capacity: \<^verbatim>\<open>NewBoundedQueue\<close> lowers the initial capacity instead of dropping the
  bound, so no history of calls brings the queue above \<^verbatim>\<open>maxCap\<close> elements.\<close>

theorem bounded_queue_stays_bounded:
  assumes "0 < maxCap" and "NewBoundedQueue initialCap maxCap = Some (q :: 'a::zero queue)"
    and "queue_run cs q = Some (rs, q')"
  shows "Queue_Len q' \<le> maxCap"
proof -
  note new = newQueue_returned [OF assms(2) [unfolded NewBoundedQueue_def]]
  from queue_run_simulation [of q cs] new(2) assms(3)
  have "queue_inv q'" "deque_run cs (queue_abs q) = (rs, queue_abs q')" by auto
  with deque_run_bounded [of "queue_abs q" cs rs] new assms(1) show ?thesis
    by (simp add: Queue_Len_def queue_length_simps)
qed

theorem bounded_queue_stays_bounded_witness:
  "\<exists>q rs q'. NewBoundedQueue 64 2 = Some (q :: nat queue) \<and>
     queue_run [OpAddBack 1, OpAddBack 2, OpAddBack 3] q = Some (rs, q') \<and> Queue_Len q' \<le> 2"
proof -
  obtain q where q: "NewBoundedQueue 64 2 = Some (q :: nat queue)" "queue_inv q"
    unfolding NewBoundedQueue_def
    by (rule newQueue_ok [OF requestedCap_small, where initialCap = 64 and maxCap = 2]) (use that in auto)
  obtain rs q' where run: "queue_run [OpAddBack 1, OpAddBack 2, OpAddBack 3] q = Some (rs, q')"
    using queue_run_simulation [OF q(2)] by metis
  have "0 < (2::int)" by simp
  from bounded_queue_stays_bounded [OF this q(1) run] q run show ?thesis by blast
qed

end
