(* ===== verification/Queue_Wait.thy ===== *)
theory Queue_Wait
  imports Queue_Correct
begin

text \<open>
  \<^verbatim>\<open>DequeueWait\<close> and its wake-ups: the queue together with the goroutines blocked in
  \<^verbatim>\<open>cond.Wait()\<close>, each with the epoch it read and whether a broadcast has reached it since.
  A step is one critical section of the mutex: a non-blocking call by anyone, a goroutine entering
  \<^verbatim>\<open>DequeueWait\<close>, a notified goroutine resuming, the cancellation of a context, or the
  broadcast of a cancelled context's \<^verbatim>\<open>AfterFunc\<close> callback (also one that \<^verbatim>\<open>stop()\<close> came
  too late for). \<^term>\<open>ws_callbacks\<close> holds the callbacks registered for the current sleep that are
  due and have not broadcast yet.
\<close>

record 'a wait_sys =
  ws_queue :: "'a queue"
  ws_waiting :: "nat \<rightharpoonup> 64 word \<times> bool"
  ws_cancelled :: "nat set"
  ws_callbacks :: "nat set"

definition notify_all :: "(nat \<rightharpoonup> 64 word \<times> bool) \<Rightarrow> (nat \<rightharpoonup> 64 word \<times> bool)" where
  "notify_all w = (\<lambda>i. map_option (\<lambda>(e, _). (e, True)) (w i))"

text \<open>Which calls reach a \<^verbatim>\<open>cond.Broadcast()\<close>: successful additions and front removals,
  \<^verbatim>\<open>Clear\<close>, \<^verbatim>\<open>Close\<close> and \<^verbatim>\<open>BroadcastWaiters\<close>.\<close>

fun broadcasts :: "'a queue_op \<Rightarrow> 'a queue_resp \<Rightarrow> bool" where
  "broadcasts (OpAddBack _) r = (r = RespUnit)"
| "broadcasts (OpAddFront _) r = (r = RespUnit)"
| "broadcasts OpRemoveFront r = (\<exists>x. r = RespItem x)"
| "broadcasts OpClear r = True"
| "broadcasts OpClose r = True"
| "broadcasts OpBroadcast r = True"
| "broadcasts _ r = False"

text \<open>What a goroutine's pass through \<^verbatim>\<open>DequeueWait\<close> does to the waiters: it blocks again
  with a fresh epoch, or returns (a returned item was removed under a broadcast); resuming first
  calls \<^verbatim>\<open>stop()\<close>, which drops its callback.\<close>

definition settle :: "nat \<Rightarrow> 'a wait_result \<times> 'a queue \<Rightarrow> 'a wait_sys \<Rightarrow> 'a wait_sys" where
  "settle i res s =
     (case fst res of
        WaitBlocked e \<Rightarrow> s\<lparr>ws_queue := snd res, ws_waiting := (ws_waiting s)(i \<mapsto> (e, False)),
                          ws_callbacks := ws_callbacks s - {i}\<rparr>
      | WaitItem _ \<Rightarrow> s\<lparr>ws_queue := snd res, ws_waiting := (notify_all (ws_waiting s))(i := None),
                       ws_callbacks := ws_callbacks s - {i}\<rparr>
      | _ \<Rightarrow> s\<lparr>ws_queue := snd res, ws_waiting := (ws_waiting s)(i := None),
             ws_callbacks := ws_callbacks s - {i}\<rparr>)"

inductive wait_step :: "'a::zero wait_sys \<Rightarrow> 'a wait_sys \<Rightarrow> bool" where
  call: "queue_exec c (ws_queue s) = Some (r, q') \<Longrightarrow>
     wait_step s (s\<lparr>ws_queue := q',
       ws_waiting := (if broadcasts c r then notify_all (ws_waiting s) else ws_waiting s)\<rparr>)"
| enter: "ws_waiting s i = None \<Longrightarrow>
     Queue_DequeueWait_start (i \<in> ws_cancelled s) (ws_queue s) = Some res \<Longrightarrow>
     wait_step s (settle i res s)"
| wake: "ws_waiting s i = Some (e, True) \<Longrightarrow>
     Queue_DequeueWait_wake e (i \<in> ws_cancelled s) (ws_queue s) = Some res \<Longrightarrow>
     wait_step s (settle i res s)"
| cancel: "wait_step s (s\<lparr>ws_cancelled := insert i (ws_cancelled s),
     ws_callbacks := (if ws_waiting s i = None then ws_callbacks s else insert i (ws_callbacks s))\<rparr>)"
| callback: "i \<in> ws_cancelled s \<Longrightarrow>
     wait_step s (s\<lparr>ws_callbacks := ws_callbacks s - {i}, ws_waiting := notify_all (ws_waiting s)\<rparr>)"

inductive wait_reachable :: "'a::zero queue \<Rightarrow> 'a wait_sys \<Rightarrow> bool" for q0 where
  init: "wait_reachable q0 \<lparr>ws_queue = q0, ws_waiting = Map.empty, ws_cancelled = {}, ws_callbacks = {}\<rparr>"
| step: "wait_reachable q0 s \<Longrightarrow> wait_step s t \<Longrightarrow> wait_reachable q0 t"

section \<open>One pass through DequeueWait\<close>

lemma wait_take_ok:
  assumes "queue_inv q" "q_size q \<noteq> 0"
  shows "\<exists>r q'. dequeue_wait_take q = Some (r, q') \<and> queue_inv q' \<and>
    (if q_closed q then r = WaitErr ErrClosedQueue \<and> q' = q
     else r = WaitItem (hd (queue_items q)) \<and> queue_items q' = tl (queue_items q) \<and>
       same_control q q')"
proof (cases "q_closed q")
  case False
  obtain q' where "Queue_removeFrontLocked q = Some (hd (queue_items q), q')" "queue_inv q'"
    "queue_items q' = tl (queue_items q)" "same_control q q'"
    using removeFront_ok [OF assms] by metis
  with False show ?thesis by (simp add: dequeue_wait_take_def)
qed (simp add: dequeue_wait_take_def assms)

lemma wait_loop_ok:
  assumes "queue_inv q" "q_size q = 0"
  shows "dequeue_wait_loop c q = Some
    ((if q_closed q then WaitErr ErrClosedQueue else if c then WaitCtxErr
      else WaitBlocked (q_wakeEpoch q)), q)"
  using assms by (simp add: dequeue_wait_loop_def)

definition wait_outcome :: "64 word option \<Rightarrow> bool \<Rightarrow> 'a queue \<Rightarrow> 'a wait_result \<Rightarrow> bool" where
  "wait_outcome ep ctxErr q r \<longleftrightarrow>
     r = (if q_closed q then WaitErr ErrClosedQueue
          else if queue_items q \<noteq> [] then WaitItem (hd (queue_items q))
          else if ctxErr then WaitCtxErr
          else if ep \<noteq> None \<and> ep \<noteq> Some (q_wakeEpoch q) then WaitErr ErrEmptyQueue
          else WaitBlocked (q_wakeEpoch q))"

lemma wait_pass_ok:
  assumes inv: "queue_inv q"
  shows "\<exists>r q'. (case ep of None \<Rightarrow> Queue_DequeueWait_start c q
      | Some e \<Rightarrow> Queue_DequeueWait_wake e c q) = Some (r, q') \<and> queue_inv q' \<and> wait_outcome ep c q r \<and>
    (if (\<exists>x. r = WaitItem x) then queue_items q' = tl (queue_items q) \<and> same_control q q'
     else q' = q)"
proof (cases "q_size q = 0")
  case True
  with inv have "queue_items q = []" by (simp add: queue_length_simps)
  with True inv show ?thesis
    by (auto simp: Queue_DequeueWait_start_def Queue_DequeueWait_wake_def wait_loop_ok
        wait_outcome_def split: option.split)
next
  case False
  with inv have ne: "queue_items q \<noteq> []" "0 < q_size q"
    using queue_inv_bounds(6) [OF inv] by (auto simp: queue_length_simps)
  then have "(case ep of None \<Rightarrow> Queue_DequeueWait_start c q
      | Some e \<Rightarrow> Queue_DequeueWait_wake e c q) = dequeue_wait_take q"
    by (simp add: Queue_DequeueWait_start_def Queue_DequeueWait_wake_def split: option.split)
  with wait_take_ok [OF inv False] ne show ?thesis
    by (auto simp: wait_outcome_def split: if_splits)
qed

section \<open>No wake-up is lost\<close>

definition wait_inv :: "'a wait_sys \<Rightarrow> bool" where
  "wait_inv s \<longleftrightarrow> queue_inv (ws_queue s) \<and>
     (\<forall>i e. ws_waiting s i = Some (e, False) \<longrightarrow>
        queue_items (ws_queue s) = [] \<and> \<not> q_closed (ws_queue s) \<and> q_wakeEpoch (ws_queue s) = e \<and>
        (i \<in> ws_cancelled s \<longrightarrow> i \<in> ws_callbacks s))"

lemma notify_all_False [simp]: "notify_all w i \<noteq> Some (e, False)"
  by (auto simp: notify_all_def)

lemma silent_call_on_empty:
  "q_size q = 0 \<Longrightarrow> queue_exec c q = Some (r, q') \<Longrightarrow> \<not> broadcasts c r \<Longrightarrow> q' = q"
  by (cases c) (auto simp: Queue_AddBack_def Queue_AddFront_def Queue_RemoveFront_def
      Queue_RemoveBack_def add_resp_def Let_def split: if_splits option.splits bind_splits)

lemma wait_step_inv:
  assumes "wait_step s t" and "wait_inv s"
  shows "wait_inv t"
  using assms
proof (induction rule: wait_step.induct)
  case (call c s r q')
  then have inv: "queue_inv (ws_queue s)" by (simp add: wait_inv_def)
  have inv': "queue_inv q'"
    using queue_simulation [OF inv, of c] call.hyps by (auto simp: sim_ok_def)
  show ?case
  proof (cases "broadcasts c r")
    case True
    with inv' show ?thesis by (simp add: wait_inv_def)
  next
    case False
    have "q' = ws_queue s" if "ws_waiting s i = Some (e, False)" for i e
    proof (rule silent_call_on_empty [OF _ call.hyps False])
      show "q_size (ws_queue s) = 0"
        using that call.prems inv by (auto simp: wait_inv_def queue_length_simps)
    qed
    with False inv' call.prems show ?thesis by (auto simp: wait_inv_def)
  qed
next
  case (enter s i res)
  then have inv: "queue_inv (ws_queue s)" by (simp add: wait_inv_def)
  obtain r q' where "res = (r, q')" by fastforce
  with wait_pass_ok [OF inv, where ep = None and c = "i \<in> ws_cancelled s"] enter show ?case
    by (auto simp: settle_def wait_inv_def wait_outcome_def split: wait_result.splits if_splits)
next
  case (wake s i e res)
  then have inv: "queue_inv (ws_queue s)" by (simp add: wait_inv_def)
  obtain r q' where "res = (r, q')" by fastforce
  with wait_pass_ok [OF inv, where ep = "Some e" and c = "i \<in> ws_cancelled s"] wake show ?case
    by (auto simp: settle_def wait_inv_def wait_outcome_def split: wait_result.splits if_splits)
qed (auto simp: wait_inv_def)

lemma wait_reachable_inv: "wait_reachable q0 s \<Longrightarrow> queue_inv q0 \<Longrightarrow> wait_inv s"
proof (induction rule: wait_reachable.induct)
  case init
  then show ?case by (simp add: wait_inv_def)
next
  case (step s t)
  then show ?case by (blast intro: wait_step_inv)
qed

text \<open>C23: No wake-up is lost. Whatever goroutines call the queue, block in
  \<^verbatim>\<open>DequeueWait\<close>, are woken or have their contexts cancelled, in any interleaving: a goroutine
  asleep in \<^verbatim>\<open>cond.Wait()\<close> that no broadcast has reached has nothing to do, because the queue
  is empty and open, no \<^verbatim>\<open>Clear\<close>, \<^verbatim>\<open>Close\<close> or \<^verbatim>\<open>BroadcastWaiters\<close> happened since it
  went to sleep, and if its context was cancelled the callback that wakes it is still to run.\<close>

theorem dequeue_wait_no_lost_wakeup:
  assumes "newQueue initialCap maxCap = Some q0" and "wait_reachable q0 s"
    and "ws_waiting s i = Some (e, False)"
  shows "queue_items (ws_queue s) = [] \<and> \<not> q_closed (ws_queue s) \<and>
    q_wakeEpoch (ws_queue s) = e \<and> (i \<in> ws_cancelled s \<longrightarrow> i \<in> ws_callbacks s)"
proof -
  have "queue_inv q0" using newQueue_returned(2) [OF assms(1)] .
  from wait_reachable_inv [OF assms(2) this] assms(3) show ?thesis by (auto simp: wait_inv_def)
qed

theorem dequeue_wait_no_lost_wakeup_witness:
  "\<exists>q0 s e. newQueue 4 0 = Some (q0 :: nat queue) \<and> wait_reachable q0 s \<and>
     ws_waiting s 1 = Some (e, False) \<and> queue_items (ws_queue s) = [] \<and>
     \<not> q_closed (ws_queue s) \<and> q_wakeEpoch (ws_queue s) = e"
proof -
  obtain q0 where q0: "newQueue 4 0 = Some (q0 :: nat queue)" "q_size q0 = 0" "\<not> q_closed q0"
    by (rule newQueue_ok [OF requestedCap_small, where initialCap = 4 and maxCap = 0]) (use that in auto)
  let ?start = "\<lparr>ws_queue = q0, ws_waiting = Map.empty, ws_cancelled = {}, ws_callbacks = {}\<rparr>"
  let ?s = "settle 1 (WaitBlocked (q_wakeEpoch q0), q0) ?start"
  have "wait_step ?start ?s"
    by (rule wait_step.enter)
      (simp_all add: q0 Queue_DequeueWait_start_def dequeue_wait_loop_def)
  with wait_reachable.init have r: "wait_reachable q0 ?s" by (rule wait_reachable.step)
  have w: "ws_waiting ?s 1 = Some (q_wakeEpoch q0, False)" by (simp add: settle_def)
  from dequeue_wait_no_lost_wakeup [OF q0(1) r w] q0(1) r w show ?thesis by blast
qed

text \<open>A goroutine in \<^verbatim>\<open>DequeueWait\<close> never panics, and each pass ends as documented: with
  the front item when there is one, with \<^verbatim>\<open>ErrClosedQueue\<close> when the queue is closed, with the
  context's error, with \<^verbatim>\<open>ErrEmptyQueue\<close> after a wake-up that brought nothing, and it goes
  back to sleep only on an empty open queue that nothing has touched.\<close>

theorem dequeue_wait_outcomes:
  assumes "queue_inv q"
  shows "(\<exists>r q'. Queue_DequeueWait_start c q = Some (r, q') \<and> wait_outcome None c q r \<and> queue_inv q') \<and>
    (\<exists>r q'. Queue_DequeueWait_wake e c q = Some (r, q') \<and> wait_outcome (Some e) c q r \<and> queue_inv q')"
  using wait_pass_ok [OF assms, where ep = None and c = c]
    wait_pass_ok [OF assms, where ep = "Some e" and c = c] by auto

theorem dequeue_wait_outcomes_witness:
  "\<exists>q :: nat queue. queue_inv q \<and>
    (\<exists>r q'. Queue_DequeueWait_start False q = Some (r, q') \<and> wait_outcome None False q r) \<and>
    (\<exists>r q'. Queue_DequeueWait_wake 3 False q = Some (r, q') \<and> wait_outcome (Some 3) False q r)"
proof -
  obtain q :: "nat queue" where q: "queue_inv q"
    by (rule newQueue_ok [OF requestedCap_small, where initialCap = 0 and maxCap = 0]) (use that in auto)
  from dequeue_wait_outcomes [OF q, of False 3] q show ?thesis by blast
qed

end
