(* ===== verification/Disk.thy ===== *)
theory Disk
  imports Go_Text "HOL-Library.AList"
begin

text \<open>
  The operating-system side of the durable queue: one queue directory whose regular files are
  byte lists, the advisory lock on \<^verbatim>\<open>lock.lock\<close> (package \<^verbatim>\<open>internal/flock\<close>), and a script of
  faults.  Every system call the code makes consumes the head of the script, so a theorem that
  quantifies over the script speaks of every pattern of I/O errors; an exhausted script means
  that the remaining calls succeed.
\<close>

type_synonym bytes = "8 word list"

text \<open>\<^term>\<open>Fault k\<close> is a failing call; a failing \<^verbatim>\<open>write\<close> has stored its first \<^term>\<open>k\<close> bytes.
  \<^term>\<open>Busy\<close> makes one attempt to lock find the lock taken and is no fault elsewhere.\<close>

datatype fault = NoFault | Fault nat | Busy

text \<open>The errors of package \<^verbatim>\<open>dque\<close>.  \<^verbatim>\<open>errors.Wrap\<close> keeps the identity \<^verbatim>\<open>errors.Is\<close> tests for, so a
  wrapped error is its cause.  \<^term>\<open>NilDeref\<close> is the run-time panic on a nil segment.\<close>

datatype corrupt_reason = ShortLength | ExcessDeletion | TooLong | ShortData

datatype dque_error =
    ErrQueueClosed | ErrEmpty | errEmptySegment
  | ErrCorruptedSegment corrupt_reason | ErrUnableToDecode | ErrEncode
  | ErrOS | ErrFileClosed | ErrNilFile
  | ErrDirMissing | ErrDirExists | ErrFileExists | ErrFileMissing
  | ErrQueueName | ErrQueueDir | ErrItemsPerSegment
  | ErrNotLocked | ErrTurboState | NilDeref

record disk =
  dk_parent :: bool  \<comment> \<open>\<^verbatim>\<open>dirPath\<close> is a directory\<close>
  dk_dir :: bool     \<comment> \<open>the queue's own directory exists\<close>
  dk_files :: "(string \<times> bytes) list"
  dk_locked :: bool  \<comment> \<open>some open file holds the lock\<close>
  dk_faults :: "fault list"

definition next_fault :: "disk \<Rightarrow> fault \<times> disk" where
  "next_fault d = (case dk_faults d of [] \<Rightarrow> (NoFault, d) | f # fs \<Rightarrow> (f, d\<lparr>dk_faults := fs\<rparr>))"

definition io :: "(disk \<Rightarrow> 'r \<times> disk) \<Rightarrow> (nat \<Rightarrow> disk \<Rightarrow> 'r \<times> disk) \<Rightarrow> disk \<Rightarrow> 'r \<times> disk" where
  "io ok bad d = (case next_fault d of
       (Fault k, d') \<Rightarrow> bad k d'
     | (_, d') \<Rightarrow> ok d')"

abbreviation dk_lookup :: "disk \<Rightarrow> string \<Rightarrow> bytes option" where
  "dk_lookup d \<equiv> map_of (dk_files d)"

definition dk_put :: "string \<Rightarrow> bytes \<Rightarrow> disk \<Rightarrow> disk" where
  "dk_put n bs d = d\<lparr>dk_files := AList.update n bs (dk_files d)\<rparr>"

definition dk_append :: "string \<Rightarrow> bytes \<Rightarrow> disk \<Rightarrow> disk" where
  "dk_append n bs d = (case dk_lookup d n of
       None \<Rightarrow> d
     | Some old \<Rightarrow> dk_put n (old @ bs) d)"

definition dk_delete :: "string \<Rightarrow> disk \<Rightarrow> disk" where
  "dk_delete n d = d\<lparr>dk_files := AList.delete n (dk_files d)\<rparr>"

section \<open>System calls\<close>

definition dirExists_parent :: "disk \<Rightarrow> (dque_error + bool) \<times> disk" where
  "dirExists_parent = io (\<lambda>d. (Inr (dk_parent d), d)) (\<lambda>_ d. (Inl ErrOS, d))"

definition dirExists :: "disk \<Rightarrow> (dque_error + bool) \<times> disk" where
  "dirExists = io (\<lambda>d. (Inr (dk_dir d), d)) (\<lambda>_ d. (Inl ErrOS, d))"

definition fileExists :: "string \<Rightarrow> disk \<Rightarrow> (dque_error + bool) \<times> disk" where
  "fileExists n = io (\<lambda>d. (Inr (dk_lookup d n \<noteq> None), d)) (\<lambda>_ d. (Inl ErrOS, d))"

definition sizeOfFile :: "string \<Rightarrow> disk \<Rightarrow> int \<times> disk" where
  "sizeOfFile n = io
     (\<lambda>d. (case dk_lookup d n of None \<Rightarrow> 0 | Some bs \<Rightarrow> int (length bs), d)) (\<lambda>_ d. (0, d))"

definition os_mkdir :: "disk \<Rightarrow> dque_error option \<times> disk" where
  "os_mkdir = io
     (\<lambda>d. if dk_dir d then (Some ErrOS, d) else (None, d\<lparr>dk_dir := True, dk_files := []\<rparr>))
     (\<lambda>_ d. (Some ErrOS, d))"

text \<open>\<^verbatim>\<open>OpenFile\<close> with \<^verbatim>\<open>O_CREATE\<close> (an existing file keeps its contents) and without.\<close>

definition os_create :: "string \<Rightarrow> disk \<Rightarrow> dque_error option \<times> disk" where
  "os_create n = io
     (\<lambda>d. if dk_dir d then (None, if dk_lookup d n = None then dk_put n [] d else d)
          else (Some ErrOS, d))
     (\<lambda>_ d. (Some ErrOS, d))"

definition os_open :: "string \<Rightarrow> disk \<Rightarrow> (dque_error + bytes) \<times> disk" where
  "os_open n = io
     (\<lambda>d. (case dk_lookup d n of None \<Rightarrow> Inl ErrOS | Some bs \<Rightarrow> Inr bs, d)) (\<lambda>_ d. (Inl ErrOS, d))"

definition os_remove :: "string \<Rightarrow> disk \<Rightarrow> dque_error option \<times> disk" where
  "os_remove n = io
     (\<lambda>d. if dk_lookup d n = None then (Some ErrOS, d) else (None, dk_delete n d))
     (\<lambda>_ d. (Some ErrOS, d))"

text \<open>A write on an append handle; a short write leaves the bytes it managed to store.\<close>

definition os_write :: "string \<Rightarrow> bytes \<Rightarrow> disk \<Rightarrow> dque_error option \<times> disk" where
  "os_write n bs = io (\<lambda>d. (None, dk_append n bs d))
     (\<lambda>k d. (Some ErrOS, dk_append n (take k bs) d))"

definition os_call :: "disk \<Rightarrow> dque_error option \<times> disk" where
  "os_call = io (\<lambda>d. (None, d)) (\<lambda>_ d. (Some ErrOS, d))"

definition osReadDir :: "disk \<Rightarrow> (dque_error + string list) \<times> disk" where
  "osReadDir = io
     (\<lambda>d. (if dk_dir d then Inr (map fst (dk_files d)) else Inl ErrOS, d)) (\<lambda>_ d. (Inl ErrOS, d))"

text \<open>\<^verbatim>\<open>io.ReadFull\<close> of \<^term>\<open>n\<close> bytes: end of file when nothing is left, a failure when too little
  is left or the read fails.\<close>

datatype read_result = ReadOk bytes | ReadEOF | ReadFail

definition read_full :: "nat \<Rightarrow> bytes \<Rightarrow> disk \<Rightarrow> (read_result \<times> bytes) \<times> disk" where
  "read_full n bs = io
     (\<lambda>d. (if n \<le> length bs then (ReadOk (take n bs), drop n bs)
           else if bs = [] then (ReadEOF, []) else (ReadFail, []), d))
     (\<lambda>k d. ((ReadFail, drop k bs), d))"

section \<open>The advisory lock\<close>

text \<open>\<^verbatim>\<open>Flock\<close>: whether its file is open and whether it holds the lock.\<close>

record flock =
  fl_open :: bool
  fl_locked :: bool

definition Flock_New :: flock where
  "Flock_New = \<lparr>fl_open = False, fl_locked = False\<rparr>"

text \<open>One \<^verbatim>\<open>flock(2)\<close> call with \<^verbatim>\<open>LOCK_EX|LOCK_NB\<close>.\<close>

definition flock_tryLock :: "disk \<Rightarrow> (dque_error + bool) \<times> disk" where
  "flock_tryLock d = (case next_fault d of
       (Fault k, d') \<Rightarrow> (Inl ErrOS, d')
     | (Busy, d') \<Rightarrow> (Inr False, d')
     | (NoFault, d') \<Rightarrow> if dk_locked d' then (Inr False, d') else (Inr True, d'\<lparr>dk_locked := True\<rparr>))"

fun flock_retry :: "nat \<Rightarrow> flock \<Rightarrow> disk \<Rightarrow> (dque_error + bool) \<times> flock \<times> disk" where
  "flock_retry 0 f d = (Inr False, f, d)"
| "flock_retry (Suc i) f d = (case flock_tryLock d of
       (Inl e, d') \<Rightarrow> (Inl e, f, d')
     | (Inr True, d') \<Rightarrow> (Inr True, f\<lparr>fl_locked := True\<rparr>, d')
     | (Inr False, d') \<Rightarrow> flock_retry i f d')"

definition Flock_TryLock :: "string \<Rightarrow> flock \<Rightarrow> disk \<Rightarrow> (dque_error + bool) \<times> flock \<times> disk" where
  "Flock_TryLock path f d =
     (if fl_locked f then (Inr True, f, d)
      else if fl_open f then flock_retry 3 f d
      else (case os_create path d of
              (Some e, d') \<Rightarrow> (Inl e, f, d')
            | (None, d') \<Rightarrow> flock_retry 3 (f\<lparr>fl_open := True\<rparr>) d'))"

definition flock_unlock :: "disk \<Rightarrow> dque_error option \<times> disk" where
  "flock_unlock = io (\<lambda>d. (None, d\<lparr>dk_locked := False\<rparr>)) (\<lambda>_ d. (Some ErrOS, d))"

definition Flock_Unlock :: "flock \<Rightarrow> disk \<Rightarrow> dque_error option \<times> flock \<times> disk" where
  "Flock_Unlock f d =
     (if \<not> fl_locked f then (None, f, d)
      else (case flock_unlock d of
              (Some e, d') \<Rightarrow> (Some e, f, d')
            | (None, d') \<Rightarrow> (None, f\<lparr>fl_locked := False\<rparr>, d')))"

text \<open>\<^verbatim>\<open>Close\<close> joins the errors of unlocking and closing.  Closing the descriptor releases a lock
  that is still held, as the kernel does when the last descriptor of an open file is closed.\<close>

definition os_close_lock :: "disk \<Rightarrow> dque_error option \<times> disk" where
  "os_close_lock = io (\<lambda>d. (None, d\<lparr>dk_locked := False\<rparr>)) (\<lambda>_ d. (Some ErrOS, d\<lparr>dk_locked := False\<rparr>))"

definition Flock_Close :: "flock \<Rightarrow> disk \<Rightarrow> dque_error list \<times> flock \<times> disk" where
  "Flock_Close f d =
     (if \<not> fl_open f then ([], f, d)
      else
        let (e1, d1) = (if fl_locked f then flock_unlock d else (None, d));
            (e2, d2) = (if fl_locked f then os_close_lock d1 else os_call d1)
        in ((case e1 of None \<Rightarrow> [] | Some e \<Rightarrow> [e]) @ (case e2 of None \<Rightarrow> [] | Some e \<Rightarrow> [e]),
            \<lparr>fl_open = False, fl_locked = False\<rparr>, d2))"

section \<open>Calls under an exhausted fault script\<close>

named_theorems calm "system calls that cannot fail"

lemma next_fault_calm [simp]: "dk_faults d = [] \<Longrightarrow> next_fault d = (NoFault, d)"
  by (simp add: next_fault_def)

lemma io_calm [calm]: "dk_faults d = [] \<Longrightarrow> io ok bad d = ok d"
  by (simp add: io_def)

lemma dk_put_simps [simp]:
  "dk_faults (dk_put n bs d) = dk_faults d" "dk_dir (dk_put n bs d) = dk_dir d"
  "dk_parent (dk_put n bs d) = dk_parent d" "dk_locked (dk_put n bs d) = dk_locked d"
  "dk_lookup (dk_put n bs d) = (dk_lookup d)(n \<mapsto> bs)"
  "fst ` set (dk_files (dk_put n bs d)) = insert n (fst ` set (dk_files d))"
  "distinct (map fst (dk_files d)) \<Longrightarrow> distinct (map fst (dk_files (dk_put n bs d)))"
  by (simp_all add: dk_put_def update_conv' dom_update distinct_update)

lemma dk_delete_simps [simp]:
  "dk_faults (dk_delete n d) = dk_faults d" "dk_dir (dk_delete n d) = dk_dir d"
  "dk_parent (dk_delete n d) = dk_parent d" "dk_locked (dk_delete n d) = dk_locked d"
  "dk_lookup (dk_delete n d) = (dk_lookup d)(n := None)"
  "map fst (dk_files (dk_delete n d)) = removeAll n (map fst (dk_files d))"
  "distinct (map fst (dk_files d)) \<Longrightarrow> distinct (map fst (dk_files (dk_delete n d)))"
  by (simp_all add: dk_delete_def delete_conv' delete_keys distinct_removeAll)

lemma dk_append_simps [simp]:
  "dk_faults (dk_append n bs d) = dk_faults d" "dk_dir (dk_append n bs d) = dk_dir d"
  "dk_parent (dk_append n bs d) = dk_parent d" "dk_locked (dk_append n bs d) = dk_locked d"
  by (simp_all add: dk_append_def split: option.split)

lemma dk_append_eq [simp]: "dk_lookup d n = Some old \<Longrightarrow> dk_append n bs d = dk_put n (old @ bs) d"
  by (simp add: dk_append_def)

lemma read_full_length:
  assumes "read_full n bs d = ((ReadOk r, bs'), d')"
  shows "length bs' + n = length bs"
  using assms by (auto simp: read_full_def io_def split: prod.splits fault.splits if_splits)

lemma flock_retry_busy:
  assumes "dk_faults d = replicate k Busy" "\<not> dk_locked d" "k < i"
  shows "\<exists>d'. flock_retry i f d = (Inr True, f\<lparr>fl_locked := True\<rparr>, d') \<and> dk_locked d'"
  using assms
proof (induction k arbitrary: i d)
  case 0
  then show ?case by (cases i) (auto simp: flock_tryLock_def)
next
  case (Suc k)
  then obtain i' where i: "i = Suc i'" "k < i'" by (cases i) auto
  let ?d = "d\<lparr>dk_faults := replicate k Busy\<rparr>"
  have "flock_tryLock d = (Inr False, ?d)"
    using Suc.prems(1) by (simp add: flock_tryLock_def next_fault_def)
  moreover have "\<exists>d'. flock_retry i' f ?d = (Inr True, f\<lparr>fl_locked := True\<rparr>, d') \<and> dk_locked d'"
    using Suc.prems(2) i(2) by (intro Suc.IH) auto
  ultimately show ?case by (simp add: i(1))
qed

end
