(* ===== verification/Writebatcher.thy ===== *)
theory Writebatcher
  imports Disk
begin

text \<open>
  The write batcher (\<^verbatim>\<open>internal/writebatcher\<close>): clients submit items to a bounded channel that
  overflows into a durable queue; one worker collects them into batches and writes each batch in
  a transaction; a failed batch is submitted again.  The durable queue is reached through the
  interface \<^verbatim>\<open>dqueQueue\<close>, here a record of its operations; the database is a script of transaction
  outcomes; a \<^verbatim>\<open>select\<close> with two ready cases consults a script of choices.
\<close>

section \<open>Interface, configuration, state\<close>

text \<open>\<^verbatim>\<open>dqueQueue[T]\<close>: the methods the batcher calls, on a queue state of type \<^typ>\<open>'q\<close>.\<close>

record ('a, 'q) dqueQueue =
  qSize :: "'q \<Rightarrow> int"
  qDiskBytes :: "'q \<Rightarrow> int"
  qDequeue :: "'q \<Rightarrow> ('a option \<times> dque_error option) \<times> 'q"
  qEnqueue :: "'a \<Rightarrow> 'q \<Rightarrow> dque_error option \<times> 'q"
  qTurboOn :: "'q \<Rightarrow> dque_error option \<times> 'q"
  qClose :: "'q \<Rightarrow> dque_error list \<times> 'q"

datatype wb_error = ErrClosed | ErrFull | ErrQuotaExceeded

datatype config_error = BeginTxRequired | FlushRequired | SizeFuncRequired | QueueFailed

text \<open>The outcome of one transaction; \<^term>\<open>CommitsNoTx\<close> is a \<^verbatim>\<open>BeginTx\<close> that returns a nil
  transaction, for which the commit is skipped.\<close>

datatype tx_outcome = BeginFails | FlushFails | CommitFails | Commits | CommitsNoTx

record 'a wb_config =
  cfg_hasBeginTx :: bool
  cfg_hasFlush :: bool
  cfg_MaxBatchSize :: int
  cfg_FlushInterval :: int
  cfg_MaintenanceInterval :: int
  cfg_ChannelSize :: int
  cfg_SizeFunc :: "('a \<Rightarrow> int) option"
  cfg_MaxBatchBytes :: int
  cfg_MaxDiskBytes :: int
  cfg_DeferDQueDrain :: bool
  cfg_DropWithoutFlush :: "('a list \<Rightarrow> bool) option"
  cfg_hasOnAfterCommit :: bool

text \<open>What the callbacks and the log see.\<close>

datatype 'a wb_event =
    EvSuccess "'a list"      \<comment> \<open>\<^verbatim>\<open>OnSuccess\<close> after a commit\<close>
  | EvDropped "'a list"      \<comment> \<open>\<^verbatim>\<open>OnSuccess\<close> after \<^verbatim>\<open>DropWithoutFlush\<close>\<close>
  | EvError "'a list"        \<comment> \<open>\<^verbatim>\<open>OnError\<close>\<close>
  | EvNotRequeued "'a list"  \<comment> \<open>the warning of \<^verbatim>\<open>reEnqueueBatch\<close>: these items are given up\<close>
  | EvAfterCommit int bool

record ('a, 'q) batcher =
  wb_ch :: "'a list"
  wb_chClosed :: bool
  wb_ctxDone :: bool
  wb_closed :: bool
  wb_pendingCount :: int
  wb_totalFlushed :: int
  wb_totalErrors :: int
  wb_totalCommitted :: int
  wb_overflowCount :: int
  wb_dq :: "'q option"
  wb_dqNotify :: bool
  wb_dqueDrainEnabled :: bool
  wb_maxDiskBytes :: int
  wb_outcomes :: "tx_outcome list"  \<comment> \<open>script of the database; exhausted: every transaction commits\<close>
  wb_choices :: "bool list"         \<comment> \<open>script of \<^verbatim>\<open>select\<close>; exhausted: the context case\<close>
  wb_log :: "'a wb_event list"

section \<open>New and Submit\<close>

definition New_config :: "'a wb_config \<Rightarrow> config_error + 'a wb_config" where
  "New_config cfg =
     (if \<not> cfg_hasBeginTx cfg then Inl BeginTxRequired
      else if \<not> cfg_hasFlush cfg then Inl FlushRequired
      else if cfg_MaxBatchBytes cfg > 0 \<and> cfg_SizeFunc cfg = None then Inl SizeFuncRequired
      else
        let cfg1 = (if cfg_MaxBatchSize cfg \<le> 0 then cfg\<lparr>cfg_MaxBatchSize := 50\<rparr> else cfg);
            cfg2 = (if cfg_FlushInterval cfg1 \<le> 0 then cfg1\<lparr>cfg_FlushInterval := 200000000\<rparr> else cfg1);
            cfg3 = (if cfg_ChannelSize cfg2 \<le> 0 then cfg2\<lparr>cfg_ChannelSize := 1024\<rparr> else cfg2)
        in Inr cfg3)"

text \<open>\<^verbatim>\<open>New\<close> after the defaults and the opening of the queue, with the scripts of the run.\<close>

definition New_batcher ::
  "('a, 'q) dqueQueue \<Rightarrow> 'a wb_config \<Rightarrow> 'q option \<Rightarrow> tx_outcome list \<Rightarrow> bool list \<Rightarrow> ('a, 'q) batcher" where
  "New_batcher ops cfg dq outcomes choices =
     \<lparr>wb_ch = [], wb_chClosed = False, wb_ctxDone = False, wb_closed = False,
      wb_pendingCount = (case dq of None \<Rightarrow> 0 | Some q \<Rightarrow> qSize ops q),
      wb_totalFlushed = 0, wb_totalErrors = 0, wb_totalCommitted = 0, wb_overflowCount = 0,
      wb_dq = dq, wb_dqNotify = False,
      wb_dqueDrainEnabled = (dq \<noteq> None \<and> \<not> cfg_DeferDQueDrain cfg),
      wb_maxDiskBytes = cfg_MaxDiskBytes cfg,
      wb_outcomes = outcomes, wb_choices = choices, wb_log = []\<rparr>"

definition log_event :: "'a wb_event \<Rightarrow> ('a, 'q) batcher \<Rightarrow> ('a, 'q) batcher" where
  "log_event e wb = wb\<lparr>wb_log := wb_log wb @ [e]\<rparr>"

definition SetMaxDiskBytes :: "int \<Rightarrow> ('a, 'q) batcher \<Rightarrow> ('a, 'q) batcher" where
  "SetMaxDiskBytes n wb = wb\<lparr>wb_maxDiskBytes := n\<rparr>"

definition next_choice :: "('a, 'q) batcher \<Rightarrow> bool \<times> ('a, 'q) batcher" where
  "next_choice wb = (case wb_choices wb of
       [] \<Rightarrow> (False, wb) | c # cs \<Rightarrow> (c, wb\<lparr>wb_choices := cs\<rparr>))"

text \<open>The \<^verbatim>\<open>select\<close> of \<^verbatim>\<open>Submit\<close>: \<^term>\<open>Some True\<close> sends to the channel, \<^term>\<open>Some False\<close> sees the
  cancelled context, \<^term>\<open>None\<close> is the default case.\<close>

definition submit_select ::
  "'a wb_config \<Rightarrow> ('a, 'q) batcher \<Rightarrow> bool option \<times> ('a, 'q) batcher" where
  "submit_select cfg wb =
     (if go_len (wb_ch wb) < cfg_ChannelSize cfg then
        (if wb_ctxDone wb then (case next_choice wb of (c, wb') \<Rightarrow> (Some c, wb')) else (Some True, wb))
      else if wb_ctxDone wb then (Some False, wb) else (None, wb))"

definition Submit_overflow ::
  "('a, 'q) dqueQueue \<Rightarrow> 'a \<Rightarrow> 'q \<Rightarrow> ('a, 'q) batcher \<Rightarrow> wb_error option \<times> ('a, 'q) batcher" where
  "Submit_overflow ops item q wb =
     (if wb_maxDiskBytes wb > 0 \<and> qDiskBytes ops q \<ge> wb_maxDiskBytes wb then
        (Some ErrQuotaExceeded, wb)
      else (case qEnqueue ops item q of
          (Some e, q') \<Rightarrow> (Some ErrFull, wb\<lparr>wb_dq := Some q'\<rparr>)
        | (None, q') \<Rightarrow>
            (None, wb\<lparr>wb_dq := Some q', wb_pendingCount := wb_pendingCount wb + 1,
               wb_overflowCount := wb_overflowCount wb + 1, wb_dqNotify := True\<rparr>)))"

definition Submit ::
  "('a, 'q) dqueQueue \<Rightarrow> 'a wb_config \<Rightarrow> 'a \<Rightarrow> ('a, 'q) batcher \<Rightarrow> wb_error option \<times> ('a, 'q) batcher" where
  "Submit ops cfg item wb =
     (if wb_closed wb then (Some ErrClosed, wb)
      else (case submit_select cfg wb of
          (Some True, wb1) \<Rightarrow>
            (None, wb1\<lparr>wb_ch := wb_ch wb1 @ [item], wb_pendingCount := wb_pendingCount wb1 + 1\<rparr>)
        | (Some False, wb1) \<Rightarrow> (Some ErrClosed, wb1)
        | (None, wb1) \<Rightarrow> (case wb_dq wb1 of
              None \<Rightarrow> (Some ErrFull, wb1)
            | Some q \<Rightarrow> Submit_overflow ops item q wb1)))"

section \<open>Flushing a batch\<close>

fun reEnqueueBatch ::
  "('a, 'q) dqueQueue \<Rightarrow> 'a wb_config \<Rightarrow> 'a list \<Rightarrow> ('a, 'q) batcher \<Rightarrow> ('a, 'q) batcher" where
  "reEnqueueBatch ops cfg [] wb = wb"
| "reEnqueueBatch ops cfg (item # batch) wb = (case Submit ops cfg item wb of
       (None, wb') \<Rightarrow> reEnqueueBatch ops cfg batch wb'
     | (Some e, wb') \<Rightarrow> log_event (EvNotRequeued (item # batch)) wb')"

definition next_outcome :: "('a, 'q) batcher \<Rightarrow> tx_outcome \<times> ('a, 'q) batcher" where
  "next_outcome wb = (case wb_outcomes wb of
       [] \<Rightarrow> (Commits, wb) | c # cs \<Rightarrow> (c, wb\<lparr>wb_outcomes := cs\<rparr>))"

text \<open>The three error paths of \<^verbatim>\<open>flush\<close> have the same effect on the batcher; on success the counters
  and the callbacks.  The deferred \<^verbatim>\<open>pendingCount.Add(-n)\<close> runs last.\<close>

definition flush_failed ::
  "('a, 'q) dqueQueue \<Rightarrow> 'a wb_config \<Rightarrow> 'a list \<Rightarrow> ('a, 'q) batcher \<Rightarrow> ('a, 'q) batcher" where
  "flush_failed ops cfg batch wb =
     reEnqueueBatch ops cfg batch
       (log_event (EvError batch) (wb\<lparr>wb_totalErrors := wb_totalErrors wb + 1\<rparr>))"

definition flush_committed :: "'a wb_config \<Rightarrow> 'a list \<Rightarrow> ('a, 'q) batcher \<Rightarrow> ('a, 'q) batcher" where
  "flush_committed cfg batch wb =
     (let n = go_len batch;
          wb1 = wb\<lparr>wb_totalFlushed := wb_totalFlushed wb + n,
                   wb_totalCommitted := wb_totalCommitted wb + n\<rparr>;
          wb2 = log_event (EvSuccess batch) wb1
      in if cfg_hasOnAfterCommit cfg
         then log_event (EvAfterCommit (wb_totalCommitted wb2) True) wb2 else wb2)"

definition flush ::
  "('a, 'q) dqueQueue \<Rightarrow> 'a wb_config \<Rightarrow> 'a list \<Rightarrow> ('a, 'q) batcher \<Rightarrow> ('a, 'q) batcher" where
  "flush ops cfg batch wb =
     (if batch = [] then wb
      else
        let n = go_len batch;
            drop = (case cfg_DropWithoutFlush cfg of None \<Rightarrow> False | Some f \<Rightarrow> f batch);
            wb2 = (if drop then
                     log_event (EvDropped batch) (wb\<lparr>wb_totalFlushed := wb_totalFlushed wb + n\<rparr>)
                   else (case next_outcome wb of
                       (BeginFails, wb1) \<Rightarrow> flush_failed ops cfg batch wb1
                     | (FlushFails, wb1) \<Rightarrow> flush_failed ops cfg batch wb1
                     | (CommitFails, wb1) \<Rightarrow> flush_failed ops cfg batch wb1
                     | (Commits, wb1) \<Rightarrow> flush_committed cfg batch wb1
                     | (CommitsNoTx, wb1) \<Rightarrow> flush_committed cfg batch wb1))
        in wb2\<lparr>wb_pendingCount := wb_pendingCount wb2 - n\<rparr>)"

section \<open>The worker\<close>

text \<open>The worker's locals: the batch, its bytes and whether the flush timer runs.\<close>

record 'a worker =
  wk_batch :: "'a list"
  wk_batchBytes :: int
  wk_timer :: bool

definition new_worker :: "'a worker" where
  "new_worker = \<lparr>wk_batch = [], wk_batchBytes = 0, wk_timer = False\<rparr>"

definition add_item :: "'a wb_config \<Rightarrow> 'a \<Rightarrow> 'a worker \<Rightarrow> 'a worker" where
  "add_item cfg item w = w\<lparr>wk_batch := wk_batch w @ [item],
     wk_batchBytes := wk_batchBytes w + (case cfg_SizeFunc cfg of None \<Rightarrow> 0 | Some f \<Rightarrow> f item)\<rparr>"

definition batch_full :: "'a wb_config \<Rightarrow> 'a worker \<Rightarrow> bool" where
  "batch_full cfg w \<longleftrightarrow> go_len (wk_batch w) \<ge> cfg_MaxBatchSize cfg \<or>
     (cfg_MaxBatchBytes cfg > 0 \<and> wk_batchBytes w \<ge> cfg_MaxBatchBytes cfg)"

definition clear_batch :: "'a worker \<Rightarrow> 'a worker" where
  "clear_batch w = w\<lparr>wk_batch := [], wk_batchBytes := 0\<rparr>"

definition stopFlushTimer :: "'a worker \<Rightarrow> 'a worker" where
  "stopFlushTimer w = w\<lparr>wk_timer := False\<rparr>"

definition appendAndManageTimer ::
  "('a, 'q) dqueQueue \<Rightarrow> 'a wb_config \<Rightarrow> 'a \<Rightarrow> 'a worker \<times> ('a, 'q) batcher \<Rightarrow> 'a worker \<times> ('a, 'q) batcher" where
  "appendAndManageTimer ops cfg item = (\<lambda>(w, wb).
     let w1 = add_item cfg item w in
     if batch_full cfg w1 then
       (stopFlushTimer (clear_batch w1), flush ops cfg (wk_batch w1) wb)
     else if length (wk_batch w1) = 1 then (w1\<lparr>wk_timer := True\<rparr>, wb)
     else (w1, wb))"

text \<open>The loops of \<^verbatim>\<open>flushChannelAndExit\<close>: both read the channel until it has nothing more, the one
  for \<^verbatim>\<open>close\<close> because the channel is closed, the other because it does not block.  A flush inside
  may fail and put items back, so the loop runs on fuel.\<close>

fun drainChannel ::
  "('a, 'q) dqueQueue \<Rightarrow> 'a wb_config \<Rightarrow> nat \<Rightarrow> 'a worker \<times> ('a, 'q) batcher \<Rightarrow>
   ('a worker \<times> ('a, 'q) batcher) option" where
  "drainChannel ops cfg 0 st = None"
| "drainChannel ops cfg (Suc fuel) (w, wb) = (case wb_ch wb of
       [] \<Rightarrow> Some (w, wb)
     | item # rest \<Rightarrow>
         let w1 = add_item cfg item w; wb1 = wb\<lparr>wb_ch := rest\<rparr> in
         if batch_full cfg w1
         then drainChannel ops cfg fuel (clear_batch w1, flush ops cfg (wk_batch w1) wb1)
         else drainChannel ops cfg fuel (w1, wb1))"

definition flushChannelAndExit ::
  "('a, 'q) dqueQueue \<Rightarrow> 'a wb_config \<Rightarrow> nat \<Rightarrow> 'a worker \<times> ('a, 'q) batcher \<Rightarrow>
   ('a worker \<times> ('a, 'q) batcher) option" where
  "flushChannelAndExit ops cfg fuel = (\<lambda>(w, wb).
     case drainChannel ops cfg fuel (stopFlushTimer w, wb) of
       None \<Rightarrow> None
     | Some (w1, wb1) \<Rightarrow> Some (w1, flush ops cfg (wk_batch w1) wb1))"

text \<open>One pass of the loop of \<^verbatim>\<open>drainDQueAll\<close>.  The batch stays in \<^term>\<open>wk_batch\<close> after the exit's
  last flush, as in the code, where nobody reads it any more.\<close>

datatype drain_result = Again int | Returned bool | Exit | PanicNilItem

definition drain_pass ::
  "('a, 'q) dqueQueue \<Rightarrow> 'a wb_config \<Rightarrow> int \<Rightarrow> 'a worker \<times> ('a, 'q) batcher \<Rightarrow>
   drain_result \<times> 'a worker \<times> ('a, 'q) batcher" where
  "drain_pass ops cfg drained = (\<lambda>(w, wb).
     if wb_closed wb then (Returned False, w, wb)
     else if wb_ctxDone wb then (Exit, w, wb)
     else (case wb_ch wb of
         item # rest \<Rightarrow> (Again drained, appendAndManageTimer ops cfg item (w, wb\<lparr>wb_ch := rest\<rparr>))
       | [] \<Rightarrow>
         if wb_chClosed wb then (Exit, w, wb)
         else (case wb_dq wb of
             None \<Rightarrow> (Returned False, w, wb)
           | Some q \<Rightarrow>
             if qSize ops q > 0 then
               (case qDequeue ops q of
                  ((obj, Some e), q') \<Rightarrow>
                    (if e = ErrEmpty then Again drained else Returned False, w, wb\<lparr>wb_dq := Some q'\<rparr>)
                | ((None, None), q') \<Rightarrow> (PanicNilItem, w, wb\<lparr>wb_dq := Some q'\<rparr>)
                | ((Some item, None), q') \<Rightarrow>
                    (Again (drained + 1),
                     appendAndManageTimer ops cfg item
                       (w, wb\<lparr>wb_dq := Some q', wb_overflowCount := wb_overflowCount wb - 1\<rparr>)))
             else if drained > 0 \<and> wk_batch w \<noteq> [] then
               (Returned False, stopFlushTimer (clear_batch w), flush ops cfg (wk_batch w) wb)
             else (Returned False, w, wb))))"

fun drainDQueAll ::
  "('a, 'q) dqueQueue \<Rightarrow> 'a wb_config \<Rightarrow> nat \<Rightarrow> int \<Rightarrow> 'a worker \<times> ('a, 'q) batcher \<Rightarrow>
   (bool \<times> 'a worker \<times> ('a, 'q) batcher) option" where
  "drainDQueAll ops cfg 0 drained st = None"
| "drainDQueAll ops cfg (Suc fuel) drained st = (case drain_pass ops cfg drained st of
       (Again n, st') \<Rightarrow> drainDQueAll ops cfg fuel n st'
     | (Returned b, st') \<Rightarrow> Some (b, st')
     | (PanicNilItem, _) \<Rightarrow> None
     | (Exit, st') \<Rightarrow> (case flushChannelAndExit ops cfg fuel st' of
           None \<Rightarrow> None | Some st'' \<Rightarrow> Some (True, st'')))"

text \<open>The cases of the worker's main \<^verbatim>\<open>select\<close> that do not end the worker.\<close>

definition worker_timeout ::
  "('a, 'q) dqueQueue \<Rightarrow> 'a wb_config \<Rightarrow> 'a worker \<times> ('a, 'q) batcher \<Rightarrow> 'a worker \<times> ('a, 'q) batcher" where
  "worker_timeout ops cfg = (\<lambda>(w, wb).
     let w1 = w\<lparr>wk_timer := False\<rparr> in
     if wk_batch w1 \<noteq> [] then (clear_batch w1, flush ops cfg (wk_batch w1) wb) else (w1, wb))"

definition worker_maintenance :: "'a wb_config \<Rightarrow> ('a, 'q) batcher \<Rightarrow> ('a, 'q) batcher" where
  "worker_maintenance cfg wb =
     (if cfg_MaintenanceInterval cfg > 0 \<and> cfg_hasOnAfterCommit cfg
      then log_event (EvAfterCommit (wb_totalCommitted wb) False) wb else wb)"

section \<open>Close, drain switch, statistics\<close>

definition StartDQueDrain :: "('a, 'q) batcher \<Rightarrow> ('a, 'q) batcher" where
  "StartDQueDrain wb =
     (if wb_dq wb = None then wb
      else if wb_dqueDrainEnabled wb then wb
      else wb\<lparr>wb_dqueDrainEnabled := True, wb_dqNotify := True\<rparr>)"

definition Close_begin :: "('a, 'q) batcher \<Rightarrow> ('a, 'q) batcher" where
  "Close_begin wb = (if wb_closed wb then wb else wb\<lparr>wb_closed := True, wb_chClosed := True\<rparr>)"

definition Close_end :: "('a, 'q) dqueQueue \<Rightarrow> ('a, 'q) batcher \<Rightarrow> ('a, 'q) batcher" where
  "Close_end ops wb = wb\<lparr>wb_ctxDone := True,
     wb_dq := (case wb_dq wb of None \<Rightarrow> None | Some q \<Rightarrow> Some (snd (qClose ops q)))\<rparr>"

record wb_stats =
  st_IsClosed :: bool
  st_TotalFlushed :: int
  st_TotalErrors :: int
  st_OverflowCount :: int
  st_DQueEnabled :: bool
  st_DQueSize :: int
  st_DiskBytes :: int
  st_MaxDiskBytes :: int

definition GetStats :: "('a, 'q) dqueQueue \<Rightarrow> ('a, 'q) batcher \<Rightarrow> wb_stats" where
  "GetStats ops wb = \<lparr>st_IsClosed = wb_closed wb, st_TotalFlushed = wb_totalFlushed wb,
     st_TotalErrors = wb_totalErrors wb, st_OverflowCount = wb_overflowCount wb,
     st_DQueEnabled = (wb_dq wb \<noteq> None),
     st_DQueSize = (case wb_dq wb of None \<Rightarrow> 0 | Some q \<Rightarrow> qSize ops q),
     st_DiskBytes = (case wb_dq wb of None \<Rightarrow> 0 | Some q \<Rightarrow> qDiskBytes ops q),
     st_MaxDiskBytes = wb_maxDiskBytes wb\<rparr>"

definition PendingCount :: "('a, 'q) batcher \<Rightarrow> int" where
  "PendingCount wb = wb_pendingCount wb"

end
