(* ===== verification/Segment.thy ===== *)
theory Segment
  imports Disk
begin

text \<open>
  One segment of the durable queue (\<^verbatim>\<open>internal/dque/segment.go\<close>): an append-only file of records,
  each a little-endian 32-bit length and that many bytes of a gob, where length zero marks the
  removal of the oldest object; the objects not removed are also held in memory.  The gob codec
  of the object type is a parameter.
\<close>

section \<open>The file format\<close>

text \<open>\<^verbatim>\<open>gob.Encode\<close> and \<^verbatim>\<open>gob.Decode\<close> at the type of the objects; \<^term>\<open>None\<close> is an error.\<close>

record 'a codec =
  gob_encode :: "'a \<Rightarrow> bytes option"
  gob_decode :: "bytes \<Rightarrow> 'a option"

definition le32_put :: "32 word \<Rightarrow> bytes" where
  "le32_put w = [ucast w, ucast (drop_bit 8 w), ucast (drop_bit 16 w), ucast (drop_bit 24 w)]"

definition le32_get :: "bytes \<Rightarrow> 32 word" where
  "le32_get bs = ucast (bs ! 0) OR push_bit 8 (ucast (bs ! 1)) OR
     push_bit 16 (ucast (bs ! 2)) OR push_bit 24 (ucast (bs ! 3))"

definition maxObjectSize :: int where
  "maxObjectSize = 64 * 2 ^ 20"

definition segment_fileName :: "nat \<Rightarrow> string" where
  "segment_fileName n = zero_padded 13 n @ ''.dque''"

section \<open>The segment\<close>

text \<open>\<^verbatim>\<open>seg.file\<close>: a nil pointer, an open append handle, or a handle that was closed and kept.\<close>

datatype file_state = NilFile | AppendFile | ClosedFile

record 'a segment =
  sg_number :: nat
  sg_objects :: "'a list"
  sg_file :: file_state
  sg_removeCount :: nat
  sg_turbo :: bool
  sg_maybeDirty :: bool
  sg_syncCount :: nat

definition file_write :: "'a segment \<Rightarrow> bytes \<Rightarrow> disk \<Rightarrow> dque_error option \<times> disk" where
  "file_write seg bs d = (case sg_file seg of
       AppendFile \<Rightarrow> os_write (segment_fileName (sg_number seg)) bs d
     | ClosedFile \<Rightarrow> (Some ErrFileClosed, d)
     | NilFile \<Rightarrow> (Some ErrNilFile, d))"

definition file_call :: "'a segment \<Rightarrow> disk \<Rightarrow> dque_error option \<times> disk" where
  "file_call seg d = (case sg_file seg of
       AppendFile \<Rightarrow> os_call d
     | ClosedFile \<Rightarrow> (Some ErrFileClosed, d)
     | NilFile \<Rightarrow> (Some ErrNilFile, d))"

text \<open>\<^verbatim>\<open>load\<close>: replay the records of the file.\<close>

function segment_load_loop ::
  "'a codec \<Rightarrow> bytes \<Rightarrow> 'a list \<Rightarrow> nat \<Rightarrow> disk \<Rightarrow> (dque_error + 'a list \<times> nat) \<times> disk" where
  "segment_load_loop G bs objects removeCount d =
     (case read_full 4 bs d of
        ((ReadEOF, _), d1) \<Rightarrow> (Inr (objects, removeCount), d1)
      | ((ReadFail, _), d1) \<Rightarrow> (Inl (ErrCorruptedSegment ShortLength), d1)
      | ((ReadOk lenBytes, bs1), d1) \<Rightarrow>
          let gobLen = le32_get lenBytes in
          if gobLen = 0 then
            (case objects of
               [] \<Rightarrow> (Inl (ErrCorruptedSegment ExcessDeletion), d1)
             | _ # objects' \<Rightarrow> segment_load_loop G bs1 objects' (removeCount + 1) d1)
          else if maxObjectSize < uint gobLen then (Inl (ErrCorruptedSegment TooLong), d1)
          else (case read_full (unat gobLen) bs1 d1 of
             ((ReadOk data, bs2), d2) \<Rightarrow>
               (case gob_decode G data of
                  None \<Rightarrow> (Inl ErrUnableToDecode, d2)
                | Some object \<Rightarrow> segment_load_loop G bs2 (objects @ [object]) removeCount d2)
           | (_, d2) \<Rightarrow> (Inl (ErrCorruptedSegment ShortData), d2)))"
  by pat_completeness auto
termination
proof (relation "measure (\<lambda>(G, bs, objects, removeCount, d). length bs)", goal_cases)
  case (2 G bs objects removeCount d x d1 r bs1 lenBytes gobLen y objs')
  then have "read_full 4 bs d = ((ReadOk lenBytes, bs1), d1)" by simp
  from read_full_length [OF this] show ?case by simp
next
  case (3 G bs objects removeCount d x d1 r bs1 lenBytes gobLen z d2 r2 bs2 data object)
  then have "read_full 4 bs d = ((ReadOk lenBytes, bs1), d1)"
    "read_full (unat gobLen) bs1 d1 = ((ReadOk data, bs2), d2)" by simp_all
  from read_full_length [OF this(1)] read_full_length [OF this(2)] show ?case by simp
qed simp

declare segment_load_loop.simps [simp del]

definition segment_load :: "'a codec \<Rightarrow> 'a segment \<Rightarrow> disk \<Rightarrow> (dque_error + 'a segment) \<times> disk" where
  "segment_load G seg d = (case os_open (segment_fileName (sg_number seg)) d of
       (Inl e, d1) \<Rightarrow> (Inl e, d1)
     | (Inr bs, d1) \<Rightarrow>
         (case segment_load_loop G bs (sg_objects seg) (sg_removeCount seg) d1 of
            (Inl e, d2) \<Rightarrow> (Inl e, snd (os_call d2))
          | (Inr (objs, rc), d2) \<Rightarrow>
              (Inr (seg\<lparr>sg_objects := objs, sg_removeCount := rc, sg_file := ClosedFile\<rparr>),
               snd (os_call d2))))"

definition segment_peek :: "'a segment \<Rightarrow> dque_error + 'a" where
  "segment_peek seg = (case sg_objects seg of [] \<Rightarrow> Inl errEmptySegment | x # _ \<Rightarrow> Inr x)"

text \<open>\<^verbatim>\<open>_sync\<close>, then \<^verbatim>\<open>remove\<close> and \<^verbatim>\<open>add\<close>.\<close>

definition segment_sync :: "'a segment \<Rightarrow> disk \<Rightarrow> dque_error option \<times> 'a segment \<times> disk" where
  "segment_sync seg d =
     (if sg_turbo seg then (None, seg\<lparr>sg_maybeDirty := True\<rparr>, d)
      else (case file_call seg d of
              (Some e, d') \<Rightarrow> (Some e, seg, d')
            | (None, d') \<Rightarrow>
                (None, seg\<lparr>sg_syncCount := sg_syncCount seg + 1, sg_maybeDirty := False\<rparr>, d')))"

definition segment_remove ::
  "'a segment \<Rightarrow> disk \<Rightarrow> ('a option \<times> dque_error option) \<times> 'a segment \<times> disk" where
  "segment_remove seg d = (case sg_objects seg of
       [] \<Rightarrow> ((None, Some errEmptySegment), seg, d)
     | object # objects' \<Rightarrow>
         (case file_write seg [0, 0, 0, 0] d of
            (Some e, d1) \<Rightarrow> ((None, Some e), seg, d1)
          | (None, d1) \<Rightarrow>
              (case segment_sync
                 (seg\<lparr>sg_objects := objects', sg_removeCount := sg_removeCount seg + 1\<rparr>) d1 of
                 (e, seg2, d2) \<Rightarrow> ((Some object, e), seg2, d2))))"

definition segment_add ::
  "'a codec \<Rightarrow> 'a \<Rightarrow> 'a segment \<Rightarrow> disk \<Rightarrow> dque_error option \<times> 'a segment \<times> disk" where
  "segment_add G object seg d = (case gob_encode G object of
       None \<Rightarrow> (Some ErrEncode, seg, d)
     | Some buf \<Rightarrow>
         (case file_write seg (le32_put (word_of_nat (length buf))) d of
            (Some e, d1) \<Rightarrow> (Some e, seg, d1)
          | (None, d1) \<Rightarrow>
              (case file_write seg buf d1 of
                 (Some e, d2) \<Rightarrow> (Some e, seg, d2)
               | (None, d2) \<Rightarrow>
                   (case segment_sync (seg\<lparr>sg_objects := sg_objects seg @ [object]\<rparr>) d2 of
                      (Some e, seg3, d3) \<Rightarrow>
                        (Some e, seg3\<lparr>sg_objects := butlast (sg_objects seg3)\<rparr>, d3)
                    | (None, seg3, d3) \<Rightarrow> (None, seg3, d3)))))"

definition segment_size :: "'a segment \<Rightarrow> int" where
  "segment_size seg = go_len (sg_objects seg)"

definition segment_sizeOnDisk :: "'a segment \<Rightarrow> int" where
  "segment_sizeOnDisk seg = go_len (sg_objects seg) + int (sg_removeCount seg)"

text \<open>\<^verbatim>\<open>delete\<close>: when the removal fails the closed handle stays in place.\<close>

definition segment_delete :: "'a segment \<Rightarrow> disk \<Rightarrow> dque_error option \<times> 'a segment \<times> disk" where
  "segment_delete seg d = (case file_call seg d of
       (Some e, d1) \<Rightarrow>
         (Some e, if sg_file seg = AppendFile then seg\<lparr>sg_file := ClosedFile\<rparr> else seg, d1)
     | (None, d1) \<Rightarrow>
         (case os_remove (segment_fileName (sg_number seg)) d1 of
            (Some e, d2) \<Rightarrow> (Some e, seg\<lparr>sg_file := ClosedFile\<rparr>, d2)
          | (None, d2) \<Rightarrow> (None, seg\<lparr>sg_objects := [], sg_file := NilFile\<rparr>, d2)))"

definition segment_turboOn :: "'a segment \<Rightarrow> 'a segment" where
  "segment_turboOn seg = seg\<lparr>sg_turbo := True\<rparr>"

definition segment_turboSync :: "'a segment \<Rightarrow> disk \<Rightarrow> dque_error option \<times> 'a segment \<times> disk" where
  "segment_turboSync seg d =
     (if \<not> sg_turbo seg then (None, seg, d)
      else if sg_maybeDirty seg then
        (case file_call seg d of
           (Some e, d') \<Rightarrow> (Some e, seg, d')
         | (None, d') \<Rightarrow>
             (None, seg\<lparr>sg_syncCount := sg_syncCount seg + 1, sg_maybeDirty := False\<rparr>, d'))
      else (None, seg, d))"

definition segment_turboOff :: "'a segment \<Rightarrow> disk \<Rightarrow> dque_error option \<times> 'a segment \<times> disk" where
  "segment_turboOff seg d =
     (if \<not> sg_turbo seg then (None, seg, d)
      else (case segment_turboSync seg d of
              (Some e, seg', d') \<Rightarrow> (Some e, seg', d')
            | (None, seg', d') \<Rightarrow> (None, seg'\<lparr>sg_turbo := False\<rparr>, d')))"

definition segment_close :: "'a segment \<Rightarrow> disk \<Rightarrow> dque_error option \<times> 'a segment \<times> disk" where
  "segment_close seg d =
     (if sg_file seg = NilFile then (None, seg, d)
      else (case file_call seg d of
              (Some e, d') \<Rightarrow> (Some e, seg\<lparr>sg_file := ClosedFile\<rparr>, d')
            | (None, d') \<Rightarrow> (None, seg\<lparr>sg_file := NilFile\<rparr>, d')))"

definition blank_segment :: "nat \<Rightarrow> bool \<Rightarrow> 'a segment" where
  "blank_segment number turbo = \<lparr>sg_number = number, sg_objects = [], sg_file = NilFile,
     sg_removeCount = 0, sg_turbo = turbo, sg_maybeDirty = False, sg_syncCount = 0\<rparr>"

definition newQueueSegment :: "nat \<Rightarrow> bool \<Rightarrow> disk \<Rightarrow> (dque_error + 'a segment) \<times> disk" where
  "newQueueSegment number turbo d = (case dirExists d of
       (Inl e, d1) \<Rightarrow> (Inl e, d1)
     | (Inr False, d1) \<Rightarrow> (Inl ErrDirMissing, d1)
     | (Inr True, d1) \<Rightarrow>
         (case fileExists (segment_fileName number) d1 of
            (Inl e, d2) \<Rightarrow> (Inl e, d2)
          | (Inr True, d2) \<Rightarrow> (Inl ErrFileExists, d2)
          | (Inr False, d2) \<Rightarrow>
              (case os_create (segment_fileName number) d2 of
                 (Some e, d3) \<Rightarrow> (Inl e, d3)
               | (None, d3) \<Rightarrow> (Inr ((blank_segment number turbo)\<lparr>sg_file := AppendFile\<rparr>), d3))))"

definition openQueueSegment ::
  "'a codec \<Rightarrow> nat \<Rightarrow> bool \<Rightarrow> disk \<Rightarrow> (dque_error + 'a segment) \<times> disk" where
  "openQueueSegment G number turbo d = (case dirExists d of
       (Inl e, d1) \<Rightarrow> (Inl e, d1)
     | (Inr False, d1) \<Rightarrow> (Inl ErrDirMissing, d1)
     | (Inr True, d1) \<Rightarrow>
         (case fileExists (segment_fileName number) d1 of
            (Inl e, d2) \<Rightarrow> (Inl e, d2)
          | (Inr False, d2) \<Rightarrow> (Inl ErrFileMissing, d2)
          | (Inr True, d2) \<Rightarrow>
              (case segment_load G (blank_segment number turbo) d2 of
                 (Inl e, d3) \<Rightarrow> (Inl e, d3)
               | (Inr seg, d3) \<Rightarrow>
                   (case os_open (segment_fileName number) d3 of
                      (Inl e, d4) \<Rightarrow> (Inl e, d4)
                    | (Inr _, d4) \<Rightarrow> (Inr (seg\<lparr>sg_file := AppendFile\<rparr>), d4)))))"

end
