(* ===== verification/DQue.thy ===== *)
theory DQue
  imports Segment
begin

text \<open>
  The durable queue \<^verbatim>\<open>DQue[T]\<close> (\<^verbatim>\<open>internal/dque/queue.go\<close>): a chain of segment files numbered
  consecutively, of which only the first and the last are in memory.  The two pointers
  \<^verbatim>\<open>firstSegment\<close> and \<^verbatim>\<open>lastSegment\<close> may be the same object, which the type below keeps apart from
  two objects; every method takes the queue and the directory and returns both updated.
\<close>

definition lockFile :: string where
  "lockFile = ''lock.lock''"

definition MaxInt32 :: int where
  "MaxInt32 = 2 ^ 31 - 1"

datatype 'a segments = NoSegments | Shared "'a segment" | Distinct "'a segment" "'a segment"

record 'a dque =
  dq_segs :: "'a segments"
  dq_ItemsPerSegment :: int
  dq_fileLock :: "flock option"
  dq_broadcasts :: nat
  dq_cachedDiskBytes :: int
  dq_turbo :: bool
  dq_closed :: bool

fun firstSegment :: "'a segments \<Rightarrow> 'a segment option" where
  "firstSegment NoSegments = None"
| "firstSegment (Shared s) = Some s"
| "firstSegment (Distinct f l) = Some f"

fun lastSegment :: "'a segments \<Rightarrow> 'a segment option" where
  "lastSegment NoSegments = None"
| "lastSegment (Shared s) = Some s"
| "lastSegment (Distinct f l) = Some l"

text \<open>An update of the object a pointer names is seen through the other pointer when they alias.\<close>

fun put_first :: "'a segment \<Rightarrow> 'a segments \<Rightarrow> 'a segments" where
  "put_first s NoSegments = NoSegments"
| "put_first s (Shared _) = Shared s"
| "put_first s (Distinct _ l) = Distinct s l"

fun put_last :: "'a segment \<Rightarrow> 'a segments \<Rightarrow> 'a segments" where
  "put_last s NoSegments = NoSegments"
| "put_last s (Shared _) = Shared s"
| "put_last s (Distinct f _) = Distinct f s"

text \<open>\<^verbatim>\<open>q.lastSegment = seg\<close> and \<^verbatim>\<open>q.firstSegment = seg\<close> with a fresh object.\<close>

fun assign_last :: "'a segment \<Rightarrow> 'a segments \<Rightarrow> 'a segments" where
  "assign_last s NoSegments = NoSegments"
| "assign_last s (Shared f) = Distinct f s"
| "assign_last s (Distinct f _) = Distinct f s"

fun assign_first :: "'a segment \<Rightarrow> 'a segments \<Rightarrow> 'a segments" where
  "assign_first s NoSegments = NoSegments"
| "assign_first s (Shared l) = Distinct s l"
| "assign_first s (Distinct _ l) = Distinct s l"

section \<open>Opening and closing\<close>

definition validateQueueInputs ::
  "string \<Rightarrow> string \<Rightarrow> int \<Rightarrow> disk \<Rightarrow> dque_error option \<times> disk" where
  "validateQueueInputs name dirPath itemsPerSegment d =
     (if name = [] then (Some ErrQueueName, d)
      else if name = ''.'' \<or> name = ''..'' then (Some ErrQueueName, d)
      else if CHR ''/'' \<in> set name \<or> char_of (92::nat) \<in> set name then (Some ErrQueueName, d)
      else if dirPath = [] then (Some ErrQueueDir, d)
      else (case dirExists_parent d of
              (Inl e, d') \<Rightarrow> (Some e, d')
            | (Inr False, d') \<Rightarrow> (Some ErrQueueDir, d')
            | (Inr True, d') \<Rightarrow>
                (if itemsPerSegment \<le> 0 then Some ErrItemsPerSegment else None, d')))"

definition createQueueDir :: "bool \<Rightarrow> disk \<Rightarrow> dque_error option \<times> disk" where
  "createQueueDir mustCreate d = (case dirExists d of
       (Inl e, d') \<Rightarrow> (Some e, d')
     | (Inr exists, d') \<Rightarrow>
         if mustCreate \<and> exists then (Some ErrDirExists, d')
         else if \<not> mustCreate \<and> \<not> exists then (Some ErrDirMissing, d')
         else if mustCreate then os_mkdir d' else (None, d'))"

text \<open>\<^verbatim>\<open>diskBytesLocked\<close>: the sum over the directory's files, skipping those that cannot be stat'd.\<close>

fun sum_sizes :: "string list \<Rightarrow> disk \<Rightarrow> int \<times> disk" where
  "sum_sizes [] d = (0, d)"
| "sum_sizes (n # ns) d =
     (let (k, d1) = sizeOfFile n d; (t, d2) = sum_sizes ns d1 in (k + t, d2))"

definition diskBytesLocked :: "disk \<Rightarrow> int \<times> disk" where
  "diskBytesLocked d = (case osReadDir d of
       (Inl _, d') \<Rightarrow> (0, d')
     | (Inr names, d') \<Rightarrow> sum_sizes names d')"

text \<open>The number a directory entry carries: \<^verbatim>\<open>^([0-9]+)\.dque$\<close> and \<^verbatim>\<open>strconv.Atoi\<close>.\<close>

definition segment_number_of :: "string \<Rightarrow> int option" where
  "segment_number_of name =
     (let digits = TrimSuffix name ''.dque'' in
      if HasSuffix name ''.dque'' \<and> digits \<noteq> [] \<and> list_all is_digit digits
      then parse_int64 digits else None)"

definition scan_numbers :: "string list \<Rightarrow> int \<times> int" where
  "scan_numbers names = foldl (\<lambda>(minNum, maxNum) name.
       (case segment_number_of name of
          None \<Rightarrow> (minNum, maxNum)
        | Some n \<Rightarrow> (if n < minNum then n else minNum, if n > maxNum then n else maxNum)))
     (MaxInt32, 0) names"

text \<open>The loop of \<^verbatim>\<open>load\<close> over the candidates for the first segment: it opens \<^term>\<open>minNum\<close>, deletes it
  when empty and complete, and goes on with the next; \<^term>\<open>steps\<close> counts the numbers up to
  \<^term>\<open>maxNum\<close> that are left.\<close>

fun find_first :: "'a codec \<Rightarrow> int \<Rightarrow> bool \<Rightarrow> nat \<Rightarrow> nat \<Rightarrow> disk \<Rightarrow>
    (dque_error + ('a segment \<times> nat) option) \<times> disk" where
  "find_first G K turbo minNum 0 d = (Inr None, d)"
| "find_first G K turbo minNum (Suc steps) d = (case openQueueSegment G minNum turbo d of
       (Inl e, d1) \<Rightarrow> (Inl e, d1)
     | (Inr seg, d1) \<Rightarrow>
         if segment_size seg > 0 \<or> segment_sizeOnDisk seg < K then (Inr (Some (seg, minNum)), d1)
         else (case segment_delete seg d1 of
                 (Some e, _, d2) \<Rightarrow> (Inl e, d2)
               | (None, _, d2) \<Rightarrow> find_first G K turbo (minNum + 1) steps d2))"

text \<open>\<^verbatim>\<open>load\<close>: the result carries the first segment even on an error, because \<^verbatim>\<open>initQueue\<close> closes what
  was opened.\<close>

definition DQue_load ::
  "'a codec \<Rightarrow> 'a dque \<Rightarrow> disk \<Rightarrow> dque_error option \<times> 'a segments \<times> disk" where
  "DQue_load G q d = (case osReadDir d of
       (Inl e, d1) \<Rightarrow> (Some e, NoSegments, d1)
     | (Inr files, d1) \<Rightarrow>
         let (minNum, maxNum) = scan_numbers files in
         (case (if maxNum > 0
                then find_first G (dq_ItemsPerSegment q) (dq_turbo q) (nat minNum) (nat (maxNum + 1 - minNum)) d1
                else (Inr None, d1)) of
            (Inl e, d2) \<Rightarrow> (Some e, NoSegments, d2)
          | (Inr None, d2) \<Rightarrow>
              (case newQueueSegment 1 (dq_turbo q) d2 of
                 (Inl e, d3) \<Rightarrow> (Some e, NoSegments, d3)
               | (Inr seg, d3) \<Rightarrow> (None, Shared seg, d3))
          | (Inr (Some (first, minNum')), d2) \<Rightarrow>
              if int minNum' = maxNum then (None, Shared first, d2)
              else (case openQueueSegment G (nat maxNum) (dq_turbo q) d2 of
                      (Inl e, d3) \<Rightarrow> (Some e, Shared first, d3)
                    | (Inr seg, d3) \<Rightarrow> (None, Distinct first seg, d3))))"

definition DQue_lock :: "disk \<Rightarrow> (dque_error + flock) \<times> disk" where
  "DQue_lock d = (case Flock_TryLock lockFile Flock_New d of
       (Inl e, fl, d') \<Rightarrow> (Inl e, snd (snd (Flock_Close fl d')))
     | (Inr False, fl, d') \<Rightarrow> (Inl ErrNotLocked, snd (snd (Flock_Close fl d')))
     | (Inr True, fl, d') \<Rightarrow> (Inr fl, d'))"

definition blank_dque :: "'a dque" where
  "blank_dque = \<lparr>dq_segs = NoSegments, dq_ItemsPerSegment = 0, dq_fileLock = None,
     dq_broadcasts = 0, dq_cachedDiskBytes = 0, dq_turbo = False, dq_closed = False\<rparr>"

definition close_segments :: "'a segments \<Rightarrow> disk \<Rightarrow> dque_error list \<times> 'a segments \<times> disk" where
  "close_segments segs d = (case segs of
       NoSegments \<Rightarrow> ([], NoSegments, d)
     | Shared s \<Rightarrow>
         (case segment_close s d of (e, s', d') \<Rightarrow>
            (case e of None \<Rightarrow> [] | Some x \<Rightarrow> [x], Shared s', d'))
     | Distinct f l \<Rightarrow>
         (case segment_close f d of (e1, f', d1) \<Rightarrow>
            (case segment_close l d1 of (e2, l', d2) \<Rightarrow>
               ((case e1 of None \<Rightarrow> [] | Some x \<Rightarrow> [x]) @ (case e2 of None \<Rightarrow> [] | Some x \<Rightarrow> [x]),
                Distinct f' l', d2))))"

definition DQue_initQueue ::
  "'a codec \<Rightarrow> int \<Rightarrow> disk \<Rightarrow> (dque_error list + 'a dque) \<times> disk" where
  "DQue_initQueue G itemsPerSegment d =
     (let q = blank_dque\<lparr>dq_ItemsPerSegment := itemsPerSegment\<rparr> in
      case DQue_lock d of
        (Inl e, d1) \<Rightarrow> (Inl [e], d1)
      | (Inr fl, d1) \<Rightarrow>
          (case DQue_load G q d1 of
             (Some e, segs, d2) \<Rightarrow>
               (case close_segments segs d2 of (_, _, d3) \<Rightarrow>
                  (case Flock_Close fl d3 of (errs, _, d4) \<Rightarrow> (Inl (e # errs), d4)))
           | (None, segs, d2) \<Rightarrow>
               (case diskBytesLocked d2 of (n, d3) \<Rightarrow>
                  (Inr (q\<lparr>dq_segs := segs, dq_fileLock := Some fl, dq_cachedDiskBytes := n\<rparr>), d3))))"

definition DQue_NewOpen ::
  "bool \<Rightarrow> 'a codec \<Rightarrow> string \<Rightarrow> string \<Rightarrow> int \<Rightarrow> disk \<Rightarrow> (dque_error list + 'a dque) \<times> disk" where
  "DQue_NewOpen mustCreate G name dirPath itemsPerSegment d =
     (case validateQueueInputs name dirPath itemsPerSegment d of
        (Some e, d1) \<Rightarrow> (Inl [e], d1)
      | (None, d1) \<Rightarrow>
          (case createQueueDir mustCreate d1 of
             (Some e, d2) \<Rightarrow> (Inl [e], d2)
           | (None, d2) \<Rightarrow> DQue_initQueue G itemsPerSegment d2))"

definition DQue_New ::
  "'a codec \<Rightarrow> string \<Rightarrow> string \<Rightarrow> int \<Rightarrow> disk \<Rightarrow> (dque_error list + 'a dque) \<times> disk" where
  "DQue_New = DQue_NewOpen True"

definition DQue_Open ::
  "'a codec \<Rightarrow> string \<Rightarrow> string \<Rightarrow> int \<Rightarrow> disk \<Rightarrow> (dque_error list + 'a dque) \<times> disk" where
  "DQue_Open = DQue_NewOpen False"

definition DQue_NewOrOpen ::
  "'a codec \<Rightarrow> string \<Rightarrow> string \<Rightarrow> int \<Rightarrow> disk \<Rightarrow> (dque_error list + 'a dque) \<times> disk" where
  "DQue_NewOrOpen G name dirPath itemsPerSegment d =
     (case validateQueueInputs name dirPath itemsPerSegment d of
        (Some e, d1) \<Rightarrow> (Inl [e], d1)
      | (None, d1) \<Rightarrow>
          (case dirExists d1 of
             (Inl e, d2) \<Rightarrow> (Inl [e], d2)
           | (Inr True, d2) \<Rightarrow> DQue_Open G name dirPath itemsPerSegment d2
           | (Inr False, d2) \<Rightarrow> DQue_New G name dirPath itemsPerSegment d2))"

definition DQue_Close :: "'a dque \<Rightarrow> disk \<Rightarrow> dque_error list \<times> 'a dque \<times> disk" where
  "DQue_Close q d =
     (if dq_closed q then ([ErrQueueClosed], q, d)
      else
        (case close_segments (dq_segs q) d of (errs1, _, d1) \<Rightarrow>
           (case dq_fileLock q of
              None \<Rightarrow> (errs1 @ [NilDeref], q, d1)
            | Some fl \<Rightarrow>
                (case Flock_Close fl d1 of (errs2, _, d2) \<Rightarrow>
                   (errs1 @ errs2,
                    q\<lparr>dq_closed := True, dq_segs := NoSegments, dq_fileLock := None,
                      dq_broadcasts := dq_broadcasts q + 1\<rparr>, d2)))))"

section \<open>The queue operations\<close>

text \<open>The first part of \<^verbatim>\<open>Enqueue\<close>: a full last segment is replaced by a new one.  When the new
  file was created and closing the old one fails, the new segment is dropped.\<close>

definition DQue_roll :: "'a dque \<Rightarrow> 'a segment \<Rightarrow> disk \<Rightarrow> dque_error option \<times> 'a dque \<times> disk" where
  "DQue_roll q lastS d =
     (if segment_sizeOnDisk lastS \<ge> dq_ItemsPerSegment q then
        (case newQueueSegment (sg_number lastS + 1) (dq_turbo q) d of
           (Inl e, d1) \<Rightarrow> (Some e, q, d1)
         | (Inr seg, d1) \<Rightarrow>
             (case dq_segs q of
                Distinct f l \<Rightarrow>
                  (case segment_close l d1 of
                     (Some e, l', d2) \<Rightarrow> (Some e, q\<lparr>dq_segs := Distinct f l'\<rparr>, d2)
                   | (None, _, d2) \<Rightarrow> (None, q\<lparr>dq_segs := Distinct f seg\<rparr>, d2))
              | segs \<Rightarrow> (None, q\<lparr>dq_segs := assign_last seg segs\<rparr>, d1)))
      else (None, q, d))"

definition DQue_Enqueue ::
  "'a codec \<Rightarrow> 'a \<Rightarrow> 'a dque \<Rightarrow> disk \<Rightarrow> dque_error option \<times> 'a dque \<times> disk" where
  "DQue_Enqueue G obj q d =
     (if dq_closed q then (Some ErrQueueClosed, q, d)
      else (case lastSegment (dq_segs q) of
        None \<Rightarrow> (Some NilDeref, q, d)
      | Some lastS \<Rightarrow>
          (case DQue_roll q lastS d of
             (Some e, q1, d1) \<Rightarrow> (Some e, q1, d1)
           | (None, q1, d1) \<Rightarrow>
               (case lastSegment (dq_segs q1) of
                  None \<Rightarrow> (Some NilDeref, q1, d1)
                | Some last1 \<Rightarrow>
                    let (oldSize, d2) = sizeOfFile (segment_fileName (sg_number last1)) d1 in
                    (case segment_add G obj last1 d2 of
                       (Some e, last2, d3) \<Rightarrow>
                         (Some e, q1\<lparr>dq_segs := put_last last2 (dq_segs q1)\<rparr>, d3)
                     | (None, last2, d3) \<Rightarrow>
                         let (newSize, d4) = sizeOfFile (segment_fileName (sg_number last2)) d3 in
                         (None, q1\<lparr>dq_segs := put_last last2 (dq_segs q1),
                            dq_cachedDiskBytes := dq_cachedDiskBytes q1 + (newSize - oldSize),
                            dq_broadcasts := dq_broadcasts q1 + 1\<rparr>, d4))))))"

text \<open>The last part of \<^verbatim>\<open>dequeueLocked\<close>: the drained first segment has been deleted and the queue
  moves on to the next one.\<close>

definition DQue_advance ::
  "'a codec \<Rightarrow> 'a dque \<Rightarrow> 'a segment \<Rightarrow> 'a segment \<Rightarrow> disk \<Rightarrow> dque_error option \<times> 'a dque \<times> disk" where
  "DQue_advance G q first lastS d =
     (if sg_number first = sg_number lastS then
        (case newQueueSegment (sg_number first + 1) (dq_turbo q) d of
           (Inl e, d1) \<Rightarrow> (Some e, q, d1)
         | (Inr seg, d1) \<Rightarrow>
             let (n, d2) = sizeOfFile (segment_fileName (sg_number seg)) d1 in
             (None, q\<lparr>dq_segs := Shared seg,
                dq_cachedDiskBytes := dq_cachedDiskBytes q + n\<rparr>, d2))
      else if sg_number first + 1 = sg_number lastS then
        (None, q\<lparr>dq_segs := Shared lastS\<rparr>, d)
      else
        (case openQueueSegment G (sg_number first + 1) (dq_turbo q) d of
           (Inl e, d1) \<Rightarrow> (Some e, q, d1)
         | (Inr seg, d1) \<Rightarrow> (None, q\<lparr>dq_segs := assign_first seg (dq_segs q)\<rparr>, d1)))"

definition DQue_dequeueLocked ::
  "'a codec \<Rightarrow> 'a dque \<Rightarrow> disk \<Rightarrow> ('a option \<times> dque_error option) \<times> 'a dque \<times> disk" where
  "DQue_dequeueLocked G q d =
     (if dq_closed q then ((None, Some ErrQueueClosed), q, d)
      else (case firstSegment (dq_segs q) of
        None \<Rightarrow> ((None, Some NilDeref), q, d)
      | Some first \<Rightarrow>
          let (firstOldSize, d1) = sizeOfFile (segment_fileName (sg_number first)) d in
          (case segment_remove first d1 of
             ((obj, Some e), first1, d2) \<Rightarrow>
               ((None, Some (if e = errEmptySegment then ErrEmpty else e)),
                q\<lparr>dq_segs := put_first first1 (dq_segs q)\<rparr>, d2)
           | ((obj, None), first1, d2) \<Rightarrow>
               let (firstSize, d3) = sizeOfFile (segment_fileName (sg_number first1)) d2;
                   q1 = q\<lparr>dq_segs := put_first first1 (dq_segs q),
                     dq_cachedDiskBytes := dq_cachedDiskBytes q + (firstSize - firstOldSize)\<rparr>
               in if segment_size first1 = 0 \<and> segment_sizeOnDisk first1 \<ge> dq_ItemsPerSegment q then
                    let (deletedSize, d4) = sizeOfFile (segment_fileName (sg_number first1)) d3 in
                    (case segment_delete first1 d4 of
                       (Some e, first2, d5) \<Rightarrow>
                         ((obj, Some e), q1\<lparr>dq_segs := put_first first2 (dq_segs q1)\<rparr>, d5)
                     | (None, first2, d5) \<Rightarrow>
                         let q2 = q1\<lparr>dq_segs := put_first first2 (dq_segs q1),
                               dq_cachedDiskBytes := dq_cachedDiskBytes q1 - deletedSize\<rparr> in
                         (case lastSegment (dq_segs q2) of
                            None \<Rightarrow> ((obj, Some NilDeref), q2, d5)
                          | Some lastS \<Rightarrow>
                              (case DQue_advance G q2 first2 lastS d5 of
                                 (e, q3, d6) \<Rightarrow> ((obj, e), q3, d6))))
                  else ((obj, None), q1, d3))))"

definition DQue_Dequeue ::
  "'a codec \<Rightarrow> 'a dque \<Rightarrow> disk \<Rightarrow> ('a option \<times> dque_error option) \<times> 'a dque \<times> disk" where
  "DQue_Dequeue = DQue_dequeueLocked"

definition DQue_Peek :: "'a dque \<Rightarrow> dque_error + 'a" where
  "DQue_Peek q =
     (if dq_closed q then Inl ErrQueueClosed
      else (case firstSegment (dq_segs q) of
        None \<Rightarrow> Inl NilDeref
      | Some first \<Rightarrow> (case segment_peek first of
            Inl e \<Rightarrow> Inl (if e = errEmptySegment then ErrEmpty else e)
          | Inr x \<Rightarrow> Inr x)))"

text \<open>One pass of the loops of \<^verbatim>\<open>DequeueBlock\<close> and \<^verbatim>\<open>PeekBlock\<close>: \<^term>\<open>None\<close> means that the caller
  sleeps on the condition variable and will pass again after a broadcast.\<close>

definition DQue_DequeueBlock_pass ::
  "'a codec \<Rightarrow> 'a dque \<Rightarrow> disk \<Rightarrow> (dque_error + 'a option) option \<times> 'a dque \<times> disk" where
  "DQue_DequeueBlock_pass G q d = (case DQue_dequeueLocked G q d of
       ((obj, None), q', d') \<Rightarrow> (Some (Inr obj), q', d')
     | ((obj, Some e), q', d') \<Rightarrow> (if e = ErrEmpty then None else Some (Inl e), q', d'))"

definition DQue_PeekBlock_pass :: "'a dque \<Rightarrow> (dque_error + 'a) option" where
  "DQue_PeekBlock_pass q = (case DQue_Peek q of
       Inr x \<Rightarrow> Some (Inr x)
     | Inl e \<Rightarrow> if e = ErrEmpty then None else Some (Inl e))"

definition DQue_sizeUnsafeLocked :: "'a dque \<Rightarrow> int option" where
  "DQue_sizeUnsafeLocked q = do {
     first \<leftarrow> firstSegment (dq_segs q);
     lastS \<leftarrow> lastSegment (dq_segs q);
     if sg_number first = sg_number lastS then Some (segment_size first)
     else let numSegmentsBetween = int (sg_number lastS) - int (sg_number first) - 1 in
       Some (segment_size first + numSegmentsBetween * dq_ItemsPerSegment q + segment_size lastS)
   }"

definition DQue_Size :: "'a dque \<Rightarrow> int option" where
  "DQue_Size q = (if dq_closed q then Some 0 else DQue_sizeUnsafeLocked q)"

definition DQue_SizeUnsafe :: "'a dque \<Rightarrow> int option" where
  "DQue_SizeUnsafe q = (if dq_closed q then Some 0 else DQue_sizeUnsafeLocked q)"

definition DQue_DiskBytes :: "'a dque \<Rightarrow> int" where
  "DQue_DiskBytes q = (if dq_closed q then 0 else dq_cachedDiskBytes q)"

definition DQue_SegmentNumbers :: "'a dque \<Rightarrow> (int \<times> int) option" where
  "DQue_SegmentNumbers q =
     (if dq_closed q then Some (0, 0)
      else do {
        first \<leftarrow> firstSegment (dq_segs q);
        lastS \<leftarrow> lastSegment (dq_segs q);
        Some (int (sg_number first), int (sg_number lastS)) })"

definition DQue_Turbo :: "'a dque \<Rightarrow> bool" where
  "DQue_Turbo q = (if dq_closed q then False else dq_turbo q)"

definition DQue_TurboOn :: "'a dque \<Rightarrow> dque_error option \<times> 'a dque" where
  "DQue_TurboOn q =
     (if dq_closed q then (Some ErrQueueClosed, q)
      else if dq_turbo q then (Some ErrTurboState, q)
      else (None, q\<lparr>dq_turbo := True, dq_segs := (case dq_segs q of
          NoSegments \<Rightarrow> NoSegments
        | Shared s \<Rightarrow> Shared (segment_turboOn s)
        | Distinct f l \<Rightarrow> Distinct (segment_turboOn f) (segment_turboOn l))\<rparr>))"

text \<open>\<^verbatim>\<open>TurboOff\<close> and \<^verbatim>\<open>TurboSync\<close> call the segment's method through both pointers.\<close>

definition both_segments ::
  "('a segment \<Rightarrow> disk \<Rightarrow> dque_error option \<times> 'a segment \<times> disk) \<Rightarrow> 'a segments \<Rightarrow> disk \<Rightarrow>
   dque_error option \<times> 'a segments \<times> disk" where
  "both_segments f segs d = (case firstSegment segs of
       None \<Rightarrow> (Some NilDeref, segs, d)
     | Some s \<Rightarrow> (case f s d of
         (Some e, s', d1) \<Rightarrow> (Some e, put_first s' segs, d1)
       | (None, s', d1) \<Rightarrow>
           (case lastSegment (put_first s' segs) of
              None \<Rightarrow> (Some NilDeref, segs, d1)
            | Some l \<Rightarrow> (case f l d1 of
                (e, l', d2) \<Rightarrow> (e, put_last l' (put_first s' segs), d2)))))"

definition DQue_TurboOff :: "'a dque \<Rightarrow> disk \<Rightarrow> dque_error option \<times> 'a dque \<times> disk" where
  "DQue_TurboOff q d =
     (if dq_closed q then (Some ErrQueueClosed, q, d)
      else if \<not> dq_turbo q then (Some ErrTurboState, q, d)
      else (case both_segments segment_turboOff (dq_segs q) d of
              (Some e, segs, d') \<Rightarrow> (Some e, q\<lparr>dq_segs := segs\<rparr>, d')
            | (None, segs, d') \<Rightarrow> (None, q\<lparr>dq_segs := segs, dq_turbo := False\<rparr>, d')))"

definition DQue_TurboSync :: "'a dque \<Rightarrow> disk \<Rightarrow> dque_error option \<times> 'a dque \<times> disk" where
  "DQue_TurboSync q d =
     (if dq_closed q then (Some ErrQueueClosed, q, d)
      else if \<not> dq_turbo q then (Some ErrTurboState, q, d)
      else (case both_segments segment_turboSync (dq_segs q) d of
              (e, segs, d') \<Rightarrow> (e, q\<lparr>dq_segs := segs\<rparr>, d')))"

end
