(* ===== verification/Segment_Correct.thy ===== *)
theory Segment_Correct
  imports DQue
begin

text \<open>
  Facts about one segment on a disk without faults: the length prefix round trips, replaying a
  file is compositional, and every operation keeps the file and the memory of a segment in step.
\<close>

section \<open>The file format\<close>

lemma le32_get_put [simp]: "le32_get (le32_put w @ bs) = w"
proof -
  have "bit (le32_get (le32_put w @ bs)) i = bit w i" if i32: "i < 32" for i
  proof -
    consider "i < 8" | "8 \<le> i" "i < 16" | "16 \<le> i" "i < 24" | "24 \<le> i" "i < 32"
      using i32 by linarith
    then show ?thesis
      by cases (auto simp: le32_get_def le32_put_def bit_simps numeral_2_eq_2)
  qed
  then show ?thesis by (auto intro: bit_word_eqI)
qed

lemma length_le32_put [simp]: "length (le32_put w) = 4"
  by (simp add: le32_put_def)

lemma le32_put_nonempty [simp]: "le32_put w \<noteq> []"
  by (simp add: le32_put_def)

lemma le32_get_zeros [simp]: "le32_get (0 # 0 # 0 # 0 # bs) = 0"
  by (simp add: le32_get_def)

lemma segment_fileName_inject [simp]: "segment_fileName m = segment_fileName n \<longleftrightarrow> m = n"
  by (simp add: segment_fileName_def)

lemma segment_fileName_not_lock [simp]:
  "segment_fileName n \<noteq> lockFile" "lockFile \<noteq> segment_fileName n"
proof -
  have "rev (segment_fileName n) \<noteq> rev lockFile"
    by (simp add: segment_fileName_def lockFile_def)
  then show "segment_fileName n \<noteq> lockFile" "lockFile \<noteq> segment_fileName n" by metis+
qed

lemma segment_number_of_lock [simp]: "segment_number_of lockFile = None"
  by (simp add: segment_number_of_def lockFile_def HasSuffix_def TrimSuffix_def Let_def)

lemma TrimSuffix_append [simp]: "TrimSuffix (s @ p) p = s"
  by (simp add: TrimSuffix_def HasSuffix_iff)

lemma parse_int64_digits:
  assumes "list_all is_digit ds" "ds \<noteq> []" "nat_of_dec ds < 2 ^ 63"
  shows "parse_int64 ds = Some (int (nat_of_dec ds))"
proof (cases ds)
  case (Cons c r)
  with assms(1) have "c \<noteq> CHR ''-''" "c \<noteq> CHR ''+''" by (auto simp: is_digit_def)
  moreover have "i64_range (int (nat_of_dec ds))" using assms(3) by (simp add: i64_range_def)
  ultimately show ?thesis using assms(1) Cons by (simp add: parse_int64_def)
qed (use assms in simp)

lemma segment_number_of_fileName [simp]:
  assumes "n < 2 ^ 63" shows "segment_number_of (segment_fileName n) = Some (int n)"
proof -
  have "HasSuffix (segment_fileName n) ''.dque''"
    unfolding HasSuffix_iff segment_fileName_def by blast
  moreover have "parse_int64 (zero_padded 13 n) = Some (int n)"
    using parse_int64_digits [OF zero_padded_props(1,2), of 13 n] assms by (simp add: zero_padded_props)
  moreover have "TrimSuffix (segment_fileName n) ''.dque'' = zero_padded 13 n"
    by (simp only: segment_fileName_def TrimSuffix_append)
  ultimately show ?thesis
    by (simp add: segment_number_of_def zero_padded_props del: TrimSuffix_append)
qed

section \<open>System calls without faults\<close>

definition calm_disk :: "disk \<Rightarrow> bool" where
  "calm_disk d \<longleftrightarrow> dk_faults d = [] \<and> dk_parent d \<and> dk_dir d \<and> distinct (map fst (dk_files d))"

lemma calm_disk_put [simp]: "calm_disk d \<Longrightarrow> calm_disk (dk_put n bs d)"
  by (simp add: calm_disk_def)

lemma calm_disk_delete [simp]: "calm_disk d \<Longrightarrow> calm_disk (dk_delete n d)"
  by (simp add: calm_disk_def distinct_removeAll)

lemma calm_diskD:
  assumes "calm_disk d"
  shows "dk_faults d = []" "dk_parent d" "dk_dir d" "distinct (map fst (dk_files d))"
  using assms by (simp_all add: calm_disk_def)

declare calm_diskD(1,2,3) [simp]

lemma read_full_calm [simp]:
  "dk_faults d = [] \<Longrightarrow> read_full n bs d =
     (if n \<le> length bs then (ReadOk (take n bs), drop n bs)
      else if bs = [] then (ReadEOF, []) else (ReadFail, []), d)"
  by (simp add: read_full_def io_calm)

lemma sys_calm [simp]:
  assumes "calm_disk d"
  shows "dirExists d = (Inr True, d)" "dirExists_parent d = (Inr True, d)"
    "fileExists n d = (Inr (dk_lookup d n \<noteq> None), d)"
    "os_write n bs d = (None, dk_append n bs d)"
    "os_call d = (None, d)"
    "osReadDir d = (Inr (map fst (dk_files d)), d)"
    "dk_lookup d n = Some bs \<Longrightarrow> os_open n d = (Inr bs, d)"
    "dk_lookup d n = Some bs \<Longrightarrow> sizeOfFile n d = (int (length bs), d)"
    "dk_lookup d n = None \<Longrightarrow> os_create n d = (None, dk_put n [] d)"
    "dk_lookup d n = Some bs \<Longrightarrow> os_remove n d = (None, dk_delete n d)"
  using assms
  by (simp_all add: dirExists_def dirExists_parent_def fileExists_def os_write_def os_call_def
      osReadDir_def os_open_def sizeOfFile_def os_create_def os_remove_def io_calm)

section \<open>Replaying a file\<close>

definition replays :: "'a codec \<Rightarrow> bytes \<Rightarrow> 'a list \<Rightarrow> nat \<Rightarrow> bool" where
  "replays G bs objs rc \<longleftrightarrow>
     (\<forall>d. dk_faults d = [] \<longrightarrow> segment_load_loop G bs [] 0 d = (Inr (objs, rc), d))"

lemma segment_load_loop_calm:
  assumes "dk_faults d = []"
  shows "segment_load_loop G bs objs rc d =
     (if bs = [] then (Inr (objs, rc), d)
      else if length bs < 4 then (Inl (ErrCorruptedSegment ShortLength), d)
      else let n = le32_get (take 4 bs) in
        if n = 0 then
          (case objs of [] \<Rightarrow> (Inl (ErrCorruptedSegment ExcessDeletion), d)
           | _ # objs' \<Rightarrow> segment_load_loop G (drop 4 bs) objs' (rc + 1) d)
        else if maxObjectSize < uint n then (Inl (ErrCorruptedSegment TooLong), d)
        else if unat n \<le> length bs - 4 then
          (case gob_decode G (take (unat n) (drop 4 bs)) of
             None \<Rightarrow> (Inl ErrUnableToDecode, d)
           | Some x \<Rightarrow> segment_load_loop G (drop (unat n + 4) bs) (objs @ [x]) rc d)
        else (Inl (ErrCorruptedSegment ShortData), d))"
  using assms by (subst segment_load_loop.simps) (auto simp: Let_def)

lemma segment_load_loop_append:
  assumes "segment_load_loop G bs objs rc d = (Inr (objs', rc'), d')" "dk_faults d = []"
  shows "segment_load_loop G (bs @ cs) objs rc d = segment_load_loop G cs objs' rc' d"
  using assms
proof (induction "length bs" arbitrary: bs objs rc rule: less_induct)
  case less
  note calm = segment_load_loop_calm [OF less.prems(2)]
  show ?case
  proof (cases "length bs < 4")
    case True
    with less.prems have "bs = []" "objs' = objs" "rc' = rc"
      by (auto simp: calm [of G bs] split: if_splits)
    then show ?thesis by simp
  next
    case False
    then have ne: "bs \<noteq> []" by auto
    let ?n = "le32_get (take 4 bs)"
    note run = less.prems(1) [unfolded calm [of G bs]]
    show ?thesis
    proof (cases "?n = 0")
      case True
      then obtain y ys where objs: "objs = y # ys"
        and rest: "segment_load_loop G (drop 4 bs) ys (rc + 1) d = (Inr (objs', rc'), d')"
        using False ne run by (auto simp: Let_def split: list.splits)
      have "length (drop 4 bs) < length bs" using ne by simp
      from less.hyps [OF this rest less.prems(2)] show ?thesis
        using False True ne by (subst calm) (simp add: Let_def objs)
    next
      case nz: False
      then obtain x where small: "uint ?n \<le> maxObjectSize" "unat ?n \<le> length bs - 4"
        and x: "gob_decode G (take (unat ?n) (drop 4 bs)) = Some x"
        and rest: "segment_load_loop G (drop (unat ?n + 4) bs) (objs @ [x]) rc d = (Inr (objs', rc'), d')"
        using False ne run by (auto simp: Let_def not_less split: option.splits if_splits)
      have "length (drop (unat ?n + 4) bs) < length bs" using ne by simp
      moreover have "unat ?n \<le> length bs + length cs - 4" using small(2) by linarith
      ultimately show ?thesis
        using False nz ne small x less.hyps [OF _ rest less.prems(2)]
        by (subst calm) (simp add: Let_def)
    qed
  qed
qed

lemma replays_append:
  assumes "replays G bs objs rc"
    "\<And>d. dk_faults d = [] \<Longrightarrow> segment_load_loop G cs objs rc d = (Inr (objs', rc'), d)"
  shows "replays G (bs @ cs) objs' rc'"
  using assms by (auto simp: replays_def segment_load_loop_append)

definition storable :: "'a codec \<Rightarrow> 'a \<Rightarrow> bool" where
  "storable G x \<longleftrightarrow> (\<exists>bs. gob_encode G x = Some bs \<and> 0 < length bs \<and> int (length bs) \<le> maxObjectSize)"

text \<open>The documented contract of \<^verbatim>\<open>encoding/gob\<close>: decoding what was encoded gives the value.\<close>

definition gob_ok :: "'a codec \<Rightarrow> bool" where
  "gob_ok G \<longleftrightarrow> (\<forall>x bs. gob_encode G x = Some bs \<longrightarrow> gob_decode G bs = Some x)"

lemma replays_Nil [simp]: "replays G [] [] 0"
  by (simp add: replays_def segment_load_loop.simps [of _ "[]"])

lemma unat_length_word:
  "int (length buf) \<le> maxObjectSize \<Longrightarrow> unat (word_of_nat (length buf) :: 32 word) = length buf"
  by (simp add: maxObjectSize_def unat_of_nat take_bit_nat_eq_self)

lemma replays_add:
  assumes "replays G bs objs rc" "gob_ok G" "gob_encode G x = Some buf"
    "0 < length buf" "int (length buf) \<le> maxObjectSize"
  shows "replays G (bs @ le32_put (word_of_nat (length buf)) @ buf) (objs @ [x]) rc"
proof (rule replays_append [OF assms(1)])
  fix d :: disk
  assume d: "dk_faults d = []"
  let ?n = "word_of_nat (length buf) :: 32 word"
  have n: "unat ?n = length buf" by (rule unat_length_word [OF assms(5)])
  then have u: "uint ?n = int (length buf)" by (metis uint_nat)
  from n assms(4) have nz: "?n \<noteq> 0" by (metis less_irrefl unat_0)
  have "gob_decode G buf = Some x" using assms(2,3) by (simp add: gob_ok_def)
  moreover have "take 4 (le32_put ?n @ buf) = le32_put ?n @ []" by simp
  ultimately show "segment_load_loop G (le32_put ?n @ buf) objs rc d = (Inr (objs @ [x], rc), d)"
    using d n u nz assms(5)
    by (subst segment_load_loop.simps)
      (simp add: le32_get_put [of _ "[]", simplified] segment_load_loop.simps [of _ "[]"])
qed

lemma replays_remove:
  assumes "replays G bs (x # objs) rc"
  shows "replays G (bs @ [0, 0, 0, 0]) objs (rc + 1)"
proof (rule replays_append [OF assms])
  fix d :: disk
  assume "dk_faults d = []"
  then show "segment_load_loop G [0, 0, 0, 0] (x # objs) rc d = (Inr (objs, rc + 1), d)"
    by (subst segment_load_loop.simps) (simp add: segment_load_loop.simps [of _ "[]"])
qed

lemma replays_unique: "replays G bs xs m \<Longrightarrow> replays G bs ys n \<Longrightarrow> xs = ys \<and> m = n"
  using ex_in_conv [of "{d :: disk. dk_faults d = []}"]
  by (auto simp: replays_def intro: exI [of _ "\<lparr>dk_parent = True, dk_dir = True, dk_files = [],
      dk_locked = False, dk_faults = []\<rparr>"])

section \<open>A segment and its file in step\<close>

definition backed :: "'a codec \<Rightarrow> 'a segment \<Rightarrow> disk \<Rightarrow> bool" where
  "backed G s d \<longleftrightarrow> sg_file s = AppendFile \<and>
     (\<exists>bs. dk_lookup d (segment_fileName (sg_number s)) = Some bs \<and>
           replays G bs (sg_objects s) (sg_removeCount s))"

lemma backedE:
  assumes "backed G s d"
  obtains bs where "sg_file s = AppendFile"
    "dk_lookup d (segment_fileName (sg_number s)) = Some bs"
    "replays G bs (sg_objects s) (sg_removeCount s)"
  using assms by (auto simp: backed_def)

lemma backed_put_other:
  "backed G s d \<Longrightarrow> n \<noteq> segment_fileName (sg_number s) \<Longrightarrow> backed G s (dk_put n bs d)"
  by (auto simp: backed_def)

lemma backed_delete_other:
  "backed G s d \<Longrightarrow> n \<noteq> segment_fileName (sg_number s) \<Longrightarrow> backed G s (dk_delete n d)"
  by (auto simp: backed_def)

lemma backed_cong:
  assumes "backed G s d" "sg_file s' = sg_file s" "sg_number s' = sg_number s"
    "sg_objects s' = sg_objects s" "sg_removeCount s' = sg_removeCount s"
  shows "backed G s' d"
  using assms by (simp add: backed_def)

lemma segment_sync_calm:
  assumes "calm_disk d" "sg_file s = AppendFile"
  obtains s' where "segment_sync s d = (None, s', d)"
    "sg_number s' = sg_number s" "sg_objects s' = sg_objects s" "sg_file s' = AppendFile"
    "sg_removeCount s' = sg_removeCount s" "sg_turbo s' = sg_turbo s"
  using that assms by (cases "sg_turbo s") (simp_all add: segment_sync_def file_call_def)

lemma segment_add_write:
  assumes d: "calm_disk d" and f: "sg_file s = AppendFile"
    and old: "dk_lookup d (segment_fileName (sg_number s)) = Some old"
    and buf: "gob_encode G x = Some buf"
  obtains s' where "segment_add G x s d = (None, s', dk_put (segment_fileName (sg_number s))
      (old @ le32_put (word_of_nat (length buf)) @ buf) d)"
    "sg_number s' = sg_number s" "sg_objects s' = sg_objects s @ [x]" "sg_file s' = AppendFile"
    "sg_removeCount s' = sg_removeCount s"
proof -
  let ?n = "segment_fileName (sg_number s)" and ?len = "le32_put (word_of_nat (length buf))"
  let ?d1 = "dk_put ?n (old @ ?len) d" and ?d2 = "dk_put ?n (old @ ?len @ buf) d"
  have d2: "dk_put ?n ((old @ ?len) @ buf) ?d1 = ?d2" by (simp add: dk_put_def)
  have c: "calm_disk ?d2" using d by simp
  from f have "sg_file (s\<lparr>sg_objects := sg_objects s @ [x]\<rparr>) = AppendFile" by simp
  obtain s' where s':
    "segment_sync (s\<lparr>sg_objects := sg_objects s @ [x]\<rparr>) ?d2 = (None, s', ?d2)"
    "sg_number s' = sg_number s" "sg_objects s' = sg_objects s @ [x]"
    "sg_file s' = AppendFile" "sg_removeCount s' = sg_removeCount s"
    by (rule segment_sync_calm [OF c \<open>sg_file (s\<lparr>sg_objects := sg_objects s @ [x]\<rparr>) = AppendFile\<close>])
      (rule that, assumption, simp_all)
  have "segment_add G x s d = (None, s', ?d2)"
    using d f old buf s'(1) d2 by (simp add: segment_add_def file_write_def)
  then show ?thesis using that s'(2-) by blast
qed

lemma segment_add_calm:
  assumes d: "calm_disk d" and s: "backed G s d" and G: "gob_ok G" and x: "storable G x"
  obtains s' bs where "segment_add G x s d = (None, s', dk_put (segment_fileName (sg_number s)) bs d)"
    "backed G s' (dk_put (segment_fileName (sg_number s)) bs d)"
    "sg_number s' = sg_number s" "sg_objects s' = sg_objects s @ [x]"
    "sg_removeCount s' = sg_removeCount s"
proof -
  from x obtain buf where buf: "gob_encode G x = Some buf" "0 < length buf"
    "int (length buf) \<le> maxObjectSize"
    by (auto simp: storable_def)
  from s obtain old where old: "sg_file s = AppendFile"
    "dk_lookup d (segment_fileName (sg_number s)) = Some old"
    "replays G old (sg_objects s) (sg_removeCount s)" by (rule backedE)
  from segment_add_write [OF d old(1,2) buf(1)] obtain s' where s':
    "segment_add G x s d = (None, s', dk_put (segment_fileName (sg_number s))
      (old @ le32_put (word_of_nat (length buf)) @ buf) d)"
    "sg_number s' = sg_number s" "sg_objects s' = sg_objects s @ [x]" "sg_file s' = AppendFile"
    "sg_removeCount s' = sg_removeCount s" .
  have "backed G s' (dk_put (segment_fileName (sg_number s))
      (old @ le32_put (word_of_nat (length buf)) @ buf) d)"
    using replays_add [OF old(3) G buf] s' by (simp add: backed_def)
  with s' show ?thesis using that by blast
qed

lemma segment_add_encode_error:
  "gob_encode G x = None \<Longrightarrow> segment_add G x s d = (Some ErrEncode, s, d)"
  by (simp add: segment_add_def)

lemma segment_remove_calm:
  assumes d: "calm_disk d" and s: "backed G s d" and x: "sg_objects s = x # xs"
  obtains s' bs where
    "segment_remove s d = ((Some x, None), s', dk_put (segment_fileName (sg_number s)) bs d)"
    "backed G s' (dk_put (segment_fileName (sg_number s)) bs d)"
    "sg_number s' = sg_number s" "sg_objects s' = xs" "sg_removeCount s' = sg_removeCount s + 1"
proof -
  let ?n = "segment_fileName (sg_number s)"
  from s obtain old where old: "sg_file s = AppendFile" "dk_lookup d ?n = Some old"
    "replays G old (sg_objects s) (sg_removeCount s)" by (rule backedE)
  let ?d1 = "dk_put ?n (old @ [0, 0, 0, 0]) d"
  let ?s = "s\<lparr>sg_objects := xs, sg_removeCount := sg_removeCount s + 1\<rparr>"
  have c: "calm_disk ?d1" using d by simp
  from old(1) have "sg_file ?s = AppendFile" by simp
  obtain s' where s':
    "segment_sync ?s ?d1 = (None, s', ?d1)" "sg_number s' = sg_number s" "sg_objects s' = xs"
    "sg_file s' = AppendFile" "sg_removeCount s' = sg_removeCount s + 1"
    by (rule segment_sync_calm [OF c \<open>sg_file ?s = AppendFile\<close>]) (rule that, assumption, simp_all)
  have "segment_remove s d = ((Some x, None), s', ?d1)"
    using d old x s'(1) by (simp add: segment_remove_def file_write_def)
  moreover have "backed G s' ?d1"
    using replays_remove [OF old(3) [unfolded x]] s' by (simp add: backed_def)
  ultimately show ?thesis using that s'(2,3,5) by blast
qed

lemma segment_delete_calm:
  assumes "calm_disk d" "backed G s d"
  obtains s' where
    "segment_delete s d = (None, s', dk_delete (segment_fileName (sg_number s)) d)"
    "sg_number s' = sg_number s"
  using assms that by (auto simp: backed_def segment_delete_def file_call_def)

lemma newQueueSegment_calm:
  assumes "calm_disk d" "dk_lookup d (segment_fileName n) = None"
  shows "newQueueSegment n t d =
      (Inr ((blank_segment n t)\<lparr>sg_file := AppendFile\<rparr>), dk_put (segment_fileName n) [] d)"
  using assms by (simp add: newQueueSegment_def)

lemma blank_segment_simps [simp]:
  "sg_number (blank_segment n t) = n" "sg_objects (blank_segment n t) = []"
  "sg_removeCount (blank_segment n t) = 0"
  by (simp_all add: blank_segment_def)

lemma backed_new:
  "backed G ((blank_segment n t)\<lparr>sg_file := AppendFile\<rparr>) (dk_put (segment_fileName n) [] d)"
  by (simp add: backed_def)

lemma openQueueSegment_calm:
  assumes "calm_disk d" "dk_lookup d (segment_fileName n) = Some bs" "replays G bs objs rc"
  obtains s where "openQueueSegment G n t d = (Inr s, d)" "backed G s d"
    "sg_number s = n" "sg_objects s = objs" "sg_removeCount s = rc"
proof -
  have "segment_load_loop G bs [] 0 d = (Inr (objs, rc), d)"
    using assms by (simp add: replays_def)
  then have "segment_load G (blank_segment n t) d =
      (Inr ((blank_segment n t)\<lparr>sg_objects := objs, sg_removeCount := rc, sg_file := ClosedFile\<rparr>), d)"
    using assms by (simp add: segment_load_def)
  then show ?thesis
    using assms by (intro that) (auto simp: openQueueSegment_def backed_def)
qed

lemma segment_close_calm:
  "calm_disk d \<Longrightarrow> backed G s d \<Longrightarrow> segment_close s d = (None, s\<lparr>sg_file := NilFile\<rparr>, d)"
  by (auto simp: segment_close_def file_call_def backed_def)

section \<open>The size of the directory\<close>

definition file_size :: "disk \<Rightarrow> string \<Rightarrow> int" where
  "file_size d n = (case dk_lookup d n of None \<Rightarrow> 0 | Some bs \<Rightarrow> int (length bs))"

definition total_size :: "disk \<Rightarrow> int" where
  "total_size d = (\<Sum>n\<in>fst ` set (dk_files d). file_size d n)"

lemma sizeOfFile_calm [simp]: "calm_disk d \<Longrightarrow> sizeOfFile n d = (file_size d n, d)"
  by (simp add: sizeOfFile_def io_calm file_size_def)

lemma file_size_simps [simp]:
  "file_size (dk_put n bs d) m = (if m = n then int (length bs) else file_size d m)"
  "file_size (dk_delete n d) m = (if m = n then 0 else file_size d m)"
  by (auto simp: file_size_def)

lemma file_size_absent: "n \<notin> fst ` set (dk_files d) \<Longrightarrow> file_size d n = 0"
  by (simp add: file_size_def flip: map_of_eq_None_iff)

lemma total_size_put: "total_size (dk_put n bs d) = total_size d + (int (length bs) - file_size d n)"
proof -
  let ?N = "fst ` set (dk_files d)"
  have "total_size (dk_put n bs d) = int (length bs) + (\<Sum>m\<in>?N - {n}. file_size d m)"
    by (simp add: total_size_def sum.insert_remove)
  moreover have "total_size d = file_size d n + (\<Sum>m\<in>?N - {n}. file_size d m)"
    by (cases "n \<in> ?N") (simp_all add: total_size_def sum.remove file_size_absent)
  ultimately show ?thesis by simp
qed

lemma names_delete: "fst ` set (dk_files (dk_delete n d)) = fst ` set (dk_files d) - {n}"
  by (auto simp: dk_delete_def AList.delete_eq image_iff)

lemma total_size_delete: "total_size (dk_delete n d) = total_size d - file_size d n"
proof -
  let ?N = "fst ` set (dk_files d)"
  have "total_size (dk_delete n d) = (\<Sum>m\<in>?N - {n}. file_size d m)"
    by (simp add: total_size_def names_delete)
  moreover have "total_size d = file_size d n + (\<Sum>m\<in>?N - {n}. file_size d m)"
    by (cases "n \<in> ?N") (simp_all add: total_size_def sum.remove file_size_absent)
  ultimately show ?thesis by simp
qed

lemma sum_sizes_calm:
  "calm_disk d \<Longrightarrow> sum_sizes ns d = (sum_list (map (file_size d) ns), d)"
  by (induction ns) simp_all

lemma diskBytesLocked_calm: "calm_disk d \<Longrightarrow> diskBytesLocked d = (total_size d, d)"
  using sum_list_distinct_conv_sum_set [OF calm_diskD(4), of d "file_size d"]
  by (simp add: diskBytesLocked_def sum_sizes_calm total_size_def)

section \<open>Scanning the directory\<close>

lemma scan_numbers_fold:
  assumes "N = {n. \<exists>x\<in>set names. segment_number_of x = Some n}"
  shows "foldl (\<lambda>(minNum, maxNum) name.
       (case segment_number_of name of
          None \<Rightarrow> (minNum, maxNum)
        | Some n \<Rightarrow> (if n < minNum then n else minNum, if n > maxNum then n else maxNum)))
     (a, b) names = (Min (insert a N), Max (insert b N)) \<and> finite N"
  using assms
proof (induction names arbitrary: a b N)
  case (Cons x xs)
  let ?N = "{n. \<exists>x\<in>set xs. segment_number_of x = Some n}"
  show ?case
  proof (cases "segment_number_of x")
    case None
    then have "N = ?N" using Cons.prems by auto
    then show ?thesis using Cons.IH [of ?N a b] None by simp
  next
    case (Some n)
    then have N: "N = insert n ?N" using Cons.prems by auto
    have fin: "finite ?N" using Cons.IH [OF refl] by blast
    have "Min (insert (if n < a then n else a) ?N) = Min (insert a (insert n ?N))"
      "Max (insert (if n > b then n else b) ?N) = Max (insert b (insert n ?N))"
      using fin by (cases "?N = {}"; auto simp: min_def max_def)+
    then show ?thesis using Cons.IH [OF refl] Some fin by (simp add: N)
  qed
qed simp

lemma scan_numbers_range:
  assumes "fst ` set files = insert lockFile (segment_fileName ` {lo..hi})"
    "1 \<le> lo" "lo \<le> hi" "int hi \<le> MaxInt32"
  shows "scan_numbers (map fst files) = (int lo, int hi)"
proof -
  have "{n. \<exists>x\<in>set (map fst files). segment_number_of x = Some n} = int ` {lo..hi}"
  proof -
    have "segment_number_of (segment_fileName n) = Some (int n)" if "n \<le> hi" for n
      using that assms(4) by (intro segment_number_of_fileName) (simp add: MaxInt32_def)
    then show ?thesis using assms(1) by (auto simp: image_def)
  qed
  moreover have "Min (insert MaxInt32 (int ` {lo..hi})) = int lo" "Max (insert 0 (int ` {lo..hi})) = int hi"
    using assms(3,4) by (intro Min_eqI Max_eqI; auto)+
  ultimately show ?thesis
    using scan_numbers_fold [OF refl, where names = "map fst files" and a = MaxInt32 and b = 0] by (simp add: scan_numbers_def)
qed

end
