(* ===== verification/DQue_Correct.thy ===== *)
theory DQue_Correct
  imports Segment_Correct
begin

text \<open>
  The durable queue is a FIFO queue that survives being closed, or killed between two calls, and
  reopened.  The representation relation ties the two segments in memory and the full segments
  that exist on disk only to one list.
\<close>

section \<open>The representation\<close>

definition full_file :: "'a codec \<Rightarrow> int \<Rightarrow> disk \<Rightarrow> nat \<Rightarrow> 'a list \<Rightarrow> bool" where
  "full_file G K d n xs \<longleftrightarrow> int (length xs) = K \<and>
     (\<exists>bs. dk_lookup d (segment_fileName n) = Some bs \<and> replays G bs xs 0)"

fun segs_rep :: "'a codec \<Rightarrow> int \<Rightarrow> disk \<Rightarrow> 'a segments \<Rightarrow> 'a list list \<Rightarrow> bool" where
  "segs_rep G K d NoSegments mids = False"
| "segs_rep G K d (Shared s) mids \<longleftrightarrow>
     backed G s d \<and> mids = [] \<and> 1 \<le> sg_number s \<and> segment_sizeOnDisk s \<le> K \<and>
     (sg_objects s = [] \<longrightarrow> segment_sizeOnDisk s < K) \<and>
     fst ` set (dk_files d) = insert lockFile (segment_fileName ` {sg_number s..sg_number s})"
| "segs_rep G K d (Distinct f l) mids \<longleftrightarrow>
     backed G f d \<and> backed G l d \<and> 1 \<le> sg_number f \<and> sg_objects f \<noteq> [] \<and>
     segment_sizeOnDisk f = K \<and> sg_removeCount l = 0 \<and> segment_sizeOnDisk l \<le> K \<and>
     sg_number l = sg_number f + 1 + length mids \<and>
     (\<forall>i<length mids. full_file G K d (sg_number f + 1 + i) (mids ! i)) \<and>
     fst ` set (dk_files d) = insert lockFile (segment_fileName ` {sg_number f..sg_number l})"

fun segs_items :: "'a segments \<Rightarrow> 'a list list \<Rightarrow> 'a list" where
  "segs_items NoSegments mids = []"
| "segs_items (Shared s) mids = sg_objects s"
| "segs_items (Distinct f l) mids = sg_objects f @ concat mids @ sg_objects l"

fun segs_last_number :: "'a segments \<Rightarrow> nat" where
  "segs_last_number NoSegments = 0"
| "segs_last_number (Shared s) = sg_number s"
| "segs_last_number (Distinct f l) = sg_number l"

definition dque_rep :: "'a codec \<Rightarrow> int \<Rightarrow> nat \<Rightarrow> 'a dque \<Rightarrow> disk \<Rightarrow> 'a list \<Rightarrow> bool" where
  "dque_rep G K N q d xs \<longleftrightarrow>
     \<not> dq_closed q \<and> dq_ItemsPerSegment q = K \<and> 0 < K \<and>
     dq_fileLock q = Some \<lparr>fl_open = True, fl_locked = True\<rparr> \<and> dk_locked d \<and> calm_disk d \<and>
     dq_cachedDiskBytes q = total_size d \<and> segs_last_number (dq_segs q) \<le> N \<and>
     (\<exists>mids. segs_rep G K d (dq_segs q) mids \<and> xs = segs_items (dq_segs q) mids)"

lemma dque_repE:
  assumes "dque_rep G K N q d xs"
  obtains mids where "\<not> dq_closed q" "dq_ItemsPerSegment q = K" "0 < K"
    "dq_fileLock q = Some \<lparr>fl_open = True, fl_locked = True\<rparr>" "dk_locked d" "calm_disk d"
    "dq_cachedDiskBytes q = total_size d" "segs_last_number (dq_segs q) \<le> N"
    "segs_rep G K d (dq_segs q) mids" "xs = segs_items (dq_segs q) mids"
  using assms by (auto simp: dque_rep_def)

lemma dque_repI:
  assumes "segs_rep G K d (dq_segs q) mids"
    "\<not> dq_closed q" "dq_ItemsPerSegment q = K" "0 < K"
    "dq_fileLock q = Some \<lparr>fl_open = True, fl_locked = True\<rparr>" "dk_locked d" "calm_disk d"
    "dq_cachedDiskBytes q = total_size d" "segs_last_number (dq_segs q) \<le> N"
    "xs = segs_items (dq_segs q) mids"
  shows "dque_rep G K N q d xs"
  using assms by (auto simp: dque_rep_def)

lemma names_put_old:
  "dk_lookup d n \<noteq> None \<Longrightarrow> fst ` set (dk_files (dk_put n bs d)) = fst ` set (dk_files d)"
  by (auto simp: insert_absorb map_of_eq_None_iff)

lemma full_file_put:
  "full_file G K d n xs \<Longrightarrow> m \<noteq> n \<Longrightarrow> full_file G K (dk_put (segment_fileName m) bs d) n xs"
  by (simp add: full_file_def)

lemma full_file_delete:
  "full_file G K d n xs \<Longrightarrow> m \<noteq> n \<Longrightarrow> full_file G K (dk_delete (segment_fileName m) d) n xs"
  by (simp add: full_file_def)

lemma segment_sizes:
  "segment_size s = int (length (sg_objects s))"
  "segment_sizeOnDisk s = int (length (sg_objects s)) + int (sg_removeCount s)"
  by (simp_all add: segment_size_def segment_sizeOnDisk_def go_len_def)

section \<open>Enqueue\<close>

text \<open>Rolling over to a new segment leaves the contents alone and makes room in the last one.\<close>

lemma DQue_roll_calm:
  assumes rep: "dque_rep G K N q d xs" and l: "lastSegment (dq_segs q) = Some l"
  obtains q' d' l' where "DQue_roll q l d = (None, q', d')" "dque_rep G K (N + 1) q' d' xs"
    "lastSegment (dq_segs q') = Some l'" "segment_sizeOnDisk l' < K"
    "dq_closed q' = dq_closed q" "total_size d' = total_size d"
proof -
  from rep obtain mids where q: "\<not> dq_closed q" "dq_ItemsPerSegment q = K" "0 < K"
    "dq_fileLock q = Some \<lparr>fl_open = True, fl_locked = True\<rparr>" "dk_locked d" and d: "calm_disk d"
    and N: "dq_cachedDiskBytes q = total_size d" "segs_last_number (dq_segs q) \<le> N"
    and segs: "segs_rep G K d (dq_segs q) mids" and xs: "xs = segs_items (dq_segs q) mids"
    by (rule dque_repE)
  show ?thesis
  proof (cases "segment_sizeOnDisk l \<ge> K")
    case False
    moreover have "dque_rep G K (N + 1) q d xs" using rep by (auto simp: dque_rep_def)
    ultimately show ?thesis using l q by (intro that) (auto simp: DQue_roll_def)
  next
    case True
    let ?m = "sg_number l + 1"
    let ?new = "(blank_segment ?m (dq_turbo q))\<lparr>sg_file := AppendFile\<rparr> :: 'a segment"
    let ?d = "dk_put (segment_fileName ?m) [] d"
    have absent: "dk_lookup d (segment_fileName ?m) = None"
      using segs l by (cases "dq_segs q") (auto simp: map_of_eq_None_iff)
    have new: "newQueueSegment ?m (dq_turbo q) d = (Inr ?new, ?d)"
      by (rule newQueueSegment_calm [OF d absent])
    have size: "total_size ?d = total_size d"
      using absent by (simp add: total_size_put file_size_def)
    show ?thesis
    proof (cases "dq_segs q")
      case NoSegments
      with l show ?thesis by simp
    next
      case (Shared s)
      with l have ls: "l = s" by simp
      let ?q = "q\<lparr>dq_segs := Distinct s ?new\<rparr>"
      from segs Shared ls have s: "backed G s d" "1 \<le> sg_number s" "segment_sizeOnDisk s = K"
        "sg_objects s \<noteq> []" "mids = []" using True by auto
      have "fst ` set (dk_files ?d) = insert lockFile (segment_fileName ` {sg_number s..?m})"
        using segs Shared ls by (auto simp: atLeastAtMostSuc_conv)
      then have "segs_rep G K ?d (Distinct s ?new) []"
        using s ls q(3) by (simp add: backed_put_other backed_new segment_sizes)
      then have "dque_rep G K (N + 1) ?q ?d xs"
        using q d N xs Shared s(5) ls size by (auto simp: dque_rep_def)
      then show ?thesis
        using new q True Shared ls size
        by (intro that [of ?q ?d ?new]) (simp_all add: DQue_roll_def segment_sizes)
    next
      case (Distinct f l0)
      with l have ll: "l0 = l" by simp
      let ?q = "q\<lparr>dq_segs := Distinct f ?new\<rparr>"
      from segs Distinct ll have s: "backed G f d" "backed G l d" "1 \<le> sg_number f"
        "segment_sizeOnDisk f = K" "sg_objects f \<noteq> []" "sg_removeCount l = 0"
        "segment_sizeOnDisk l = K" "sg_number l = sg_number f + 1 + length mids"
        "\<forall>i<length mids. full_file G K d (sg_number f + 1 + i) (mids ! i)"
        using True by auto
      have "backed G l ?d" using s by (intro backed_put_other) simp_all
      then have close: "segment_close l ?d = (None, l\<lparr>sg_file := NilFile\<rparr>, ?d)"
        using d by (intro segment_close_calm) simp_all
      have full: "full_file G K ?d (sg_number l) (sg_objects l)"
        using s by (auto simp: full_file_def backed_def segment_sizes)
      have "full_file G K ?d (sg_number f + 1 + i) ((mids @ [sg_objects l]) ! i)"
        if "i < length (mids @ [sg_objects l])" for i
        using that s full by (cases "i = length mids") (simp_all add: nth_append full_file_put)
      moreover have "fst ` set (dk_files ?d) = insert lockFile (segment_fileName ` {sg_number f..?m})"
        using segs Distinct ll s(8) by (auto simp: atLeastAtMostSuc_conv)
      moreover have "backed G f ?d" using s by (intro backed_put_other) simp_all
      moreover have "backed G ?new ?d" by (rule backed_new)
      ultimately have "segs_rep G K ?d (Distinct f ?new) (mids @ [sg_objects l])"
        using s q(3) by (simp add: segment_sizes)
      then have "segs_rep G K ?d (dq_segs ?q) (mids @ [sg_objects l])" by (simp del: segs_rep.simps)
      then have "dque_rep G K (N + 1) ?q ?d xs"
        by (rule dque_repI) (use q d N xs Distinct ll size in simp_all)
      then show ?thesis
        using new q True Distinct ll size close
        by (intro that [of ?q ?d ?new]) (simp_all add: DQue_roll_def segment_sizes)
    qed
  qed
qed

text \<open>A segment of the chain may be replaced by one that has grown.\<close>

lemma segs_rep_grow:
  assumes "segs_rep G K d segs mids" "lastSegment segs = Some l"
    "backed G l' (dk_put (segment_fileName (sg_number l)) bs d)" "sg_number l' = sg_number l"
    "sg_objects l' = sg_objects l @ [x]" "sg_removeCount l' = sg_removeCount l"
    "segment_sizeOnDisk l < K"
  shows "segs_rep G K (dk_put (segment_fileName (sg_number l)) bs d) (put_last l' segs) mids \<and>
    segs_items (put_last l' segs) mids = segs_items segs mids @ [x]"
proof (cases segs)
  case NoSegments
  with assms show ?thesis by simp
next
  case (Shared s)
  with assms(1,2) have "dk_lookup d (segment_fileName (sg_number l)) \<noteq> None"
    by (auto simp: backed_def)
  from names_put_old [OF this] show ?thesis
    using assms Shared by (auto simp: segment_sizes)
next
  case (Distinct f l0)
  with assms(1,2) have "dk_lookup d (segment_fileName (sg_number l)) \<noteq> None"
    by (auto simp: backed_def)
  from names_put_old [OF this] show ?thesis
    using assms Distinct by (auto simp: segment_sizes backed_put_other full_file_put)
qed

lemma DQue_Enqueue_calm:
  assumes rep: "dque_rep G K N q d xs" and G: "gob_ok G" and x: "storable G x"
  obtains q' d' where "DQue_Enqueue G x q d = (None, q', d')" "dque_rep G K (N + 1) q' d' (xs @ [x])"
proof -
  from rep obtain l where l: "lastSegment (dq_segs q) = Some l"
    by (cases "dq_segs q") (auto simp: dque_rep_def)
  from DQue_roll_calm [OF rep l] obtain q1 d1 l1 where
    roll: "DQue_roll q l d = (None, q1, d1)" and rep1: "dque_rep G K (N + 1) q1 d1 xs"
    and l1: "lastSegment (dq_segs q1) = Some l1" "segment_sizeOnDisk l1 < K"
    by metis
  from rep1 obtain mids where q: "\<not> dq_closed q1" "dq_ItemsPerSegment q1 = K" "0 < K"
    "dq_fileLock q1 = Some \<lparr>fl_open = True, fl_locked = True\<rparr>" "dk_locked d1"
    and d1: "calm_disk d1"
    and N: "dq_cachedDiskBytes q1 = total_size d1" "segs_last_number (dq_segs q1) \<le> N + 1"
    and segs: "segs_rep G K d1 (dq_segs q1) mids" and xs: "xs = segs_items (dq_segs q1) mids"
    by (rule dque_repE)
  have "backed G l1 d1" using segs l1 by (cases "dq_segs q1") auto
  from segment_add_calm [OF d1 this G x] obtain l2 bs where
    add: "segment_add G x l1 d1 = (None, l2, dk_put (segment_fileName (sg_number l1)) bs d1)"
    and l2: "backed G l2 (dk_put (segment_fileName (sg_number l1)) bs d1)"
      "sg_number l2 = sg_number l1" "sg_objects l2 = sg_objects l1 @ [x]"
      "sg_removeCount l2 = sg_removeCount l1"
    by metis
  let ?d = "dk_put (segment_fileName (sg_number l1)) bs d1"
  let ?q = "q1\<lparr>dq_segs := put_last l2 (dq_segs q1),
     dq_cachedDiskBytes := dq_cachedDiskBytes q1 +
       (int (length bs) - file_size d1 (segment_fileName (sg_number l1))),
     dq_broadcasts := dq_broadcasts q1 + 1\<rparr>"
  have "segs_last_number (put_last l2 (dq_segs q1)) \<le> N + 1"
    using N(2) l1(1) l2(2) by (cases "dq_segs q1") auto
  then have "dque_rep G K (N + 1) ?q ?d (xs @ [x])"
    using q d1 N segs_rep_grow [OF segs l1(1) l2 l1(2)] xs
    by (auto simp: dque_rep_def total_size_put)
  moreover have "DQue_Enqueue G x q d = (None, ?q, ?d)"
    using rep l roll l1 add d1 l2(2) by (simp add: DQue_Enqueue_def dque_rep_def)
  ultimately show ?thesis by (rule that [rotated])
qed

lemma DQue_Enqueue_encode_error:
  assumes rep: "dque_rep G K N q d xs" and x: "gob_encode G x = None"
  obtains q' d' where "DQue_Enqueue G x q d = (Some ErrEncode, q', d')"
    "dque_rep G K (N + 1) q' d' xs"
proof -
  from rep obtain l where l: "lastSegment (dq_segs q) = Some l"
    by (cases "dq_segs q") (auto simp: dque_rep_def)
  from DQue_roll_calm [OF rep l] obtain q1 d1 l1 where
    roll: "DQue_roll q l d = (None, q1, d1)" and rep1: "dque_rep G K (N + 1) q1 d1 xs"
    and l1: "lastSegment (dq_segs q1) = Some l1"
    by metis
  have "put_last l1 (dq_segs q1) = dq_segs q1" using l1 by (cases "dq_segs q1") auto
  then have "DQue_Enqueue G x q d = (Some ErrEncode, q1, d1)"
    using rep rep1 l roll l1 x
    by (simp add: DQue_Enqueue_def dque_rep_def segment_add_encode_error)
  then show ?thesis using rep1 by (rule that)
qed

section \<open>Dequeue and Peek\<close>

lemma dque_rep_first:
  assumes "dque_rep G K N q d xs"
  obtains f where "firstSegment (dq_segs q) = Some f" "backed G f d"
    "put_first f (dq_segs q) = dq_segs q" "sg_objects f = [] \<longleftrightarrow> xs = []"
    "xs \<noteq> [] \<Longrightarrow> hd (sg_objects f) = hd xs"
  using assms by (cases "dq_segs q") (auto simp: dque_rep_def)

lemma DQue_Dequeue_empty:
  assumes "dque_rep G K N q d []"
  shows "DQue_Dequeue G q d = ((None, Some ErrEmpty), q, d)"
proof -
  from assms have d: "calm_disk d" "\<not> dq_closed q" by (auto simp: dque_rep_def)
  from assms obtain f where "firstSegment (dq_segs q) = Some f" "sg_objects f = []"
    "put_first f (dq_segs q) = dq_segs q"
    by (rule dque_rep_first) auto
  with d show ?thesis
    by (simp add: DQue_Dequeue_def DQue_dequeueLocked_def segment_remove_def)
qed

lemma names_range_delete:
  assumes "fst ` set (dk_files d) = insert lockFile (segment_fileName ` {lo..hi})" "lo \<le> hi"
  shows "fst ` set (dk_files (dk_delete (segment_fileName lo) d)) =
    insert lockFile (segment_fileName ` {lo + 1..hi})"
  using assms by (auto simp: names_delete)

text \<open>Taking the first object out of a chain whose first segment is not drained by it.\<close>

lemma segs_rep_shrink:
  assumes segs: "segs_rep G K d segs mids" "firstSegment segs = Some f"
    and f': "backed G f' (dk_put (segment_fileName (sg_number f)) bs d)" "sg_number f' = sg_number f"
      "sg_objects f = x # sg_objects f'" "sg_removeCount f' = sg_removeCount f + 1"
    and go: "sg_objects f' \<noteq> [] \<or> segment_sizeOnDisk f' < K"
  shows "segs_rep G K (dk_put (segment_fileName (sg_number f)) bs d) (put_first f' segs) mids \<and>
    segs_items segs mids = x # segs_items (put_first f' segs) mids"
proof (cases segs)
  case NoSegments
  with assms show ?thesis by simp
next
  case (Shared s)
  with segs have "dk_lookup d (segment_fileName (sg_number f)) \<noteq> None" by (auto simp: backed_def)
  from names_put_old [OF this] show ?thesis using assms Shared by (auto simp: segment_sizes)
next
  case (Distinct f0 l)
  with segs have "dk_lookup d (segment_fileName (sg_number f)) \<noteq> None" by (auto simp: backed_def)
  from names_put_old [OF this] show ?thesis
    using assms Distinct by (auto simp: segment_sizes backed_put_other full_file_put)
qed

text \<open>Moving on after the drained first segment was deleted.\<close>

lemma DQue_advance_calm:
  assumes segs: "segs_rep G K d0 segs mids" "firstSegment segs = Some f" "lastSegment segs = Some l"
    and items: "segs_items segs mids = x # xs" and one: "sg_objects f = [x]" and K: "0 < K"
    and d: "calm_disk d0" "dk_locked d0"
    and f': "sg_number f' = sg_number f"
    and q: "\<not> dq_closed q" "dq_ItemsPerSegment q = K"
      "dq_fileLock q = Some \<lparr>fl_open = True, fl_locked = True\<rparr>"
      "dq_segs q = put_first f' segs" "dq_cachedDiskBytes q = total_size d"
    and N: "sg_number l \<le> N"
    and del: "d = dk_delete (segment_fileName (sg_number f)) (dk_put (segment_fileName (sg_number f)) bs d0)"
    and l': "lastSegment (dq_segs q) = Some l'"
  obtains q' d' where "DQue_advance G q f' l' d = (None, q', d')" "dque_rep G K (N + 1) q' d' xs"
proof -
  have cd: "calm_disk d" "dk_locked d" using d by (simp_all add: del)
  have "dk_lookup d0 (segment_fileName (sg_number f)) \<noteq> None"
    using segs by (cases segs) (auto simp: backed_def)
  note put = names_put_old [OF this, of bs]
  show ?thesis
  proof (cases segs)
    case NoSegments
    with segs show ?thesis by simp
  next
    case (Shared s)
    with segs have fl: "s = f" "l = f" by simp_all
    have xs: "xs = []" using items one Shared fl by simp
    let ?m = "sg_number f + 1"
    let ?new = "(blank_segment ?m (dq_turbo q))\<lparr>sg_file := AppendFile\<rparr> :: 'a segment"
    let ?d = "dk_put (segment_fileName ?m) [] d"
    have nd: "fst ` set (dk_files d) = {lockFile}"
      using segs(1) Shared fl put by (auto simp: del names_delete)
    then have absent: "dk_lookup d (segment_fileName ?m) = None"
      by (auto simp: map_of_eq_None_iff)
    have new: "newQueueSegment ?m (dq_turbo q) d = (Inr ?new, ?d)"
      by (rule newQueueSegment_calm [OF cd(1) absent])
    have size: "total_size ?d = total_size d" using absent by (simp add: total_size_put file_size_def)
    let ?q = "q\<lparr>dq_segs := Shared ?new, dq_cachedDiskBytes := dq_cachedDiskBytes q + 0\<rparr>"
    have "segs_rep G K ?d (dq_segs ?q) []"
      using K nd by (auto simp: backed_new segment_sizes)
    then have "dque_rep G K (N + 1) ?q ?d xs"
      by (rule dque_repI) (use q N cd xs fl K size in simp_all)
    moreover have "l' = f'" using l' q(4) Shared by simp
    then have "DQue_advance G q f' l' d = (None, ?q, ?d)"
      using new cd(1) by (simp add: DQue_advance_def f')
    ultimately show ?thesis by (rule that [rotated])
  next
    case (Distinct f0 l0)
    with segs have fl: "f0 = f" "l0 = l" by simp_all
    with segs(1) Distinct have s: "backed G l d0" "sg_removeCount l = 0"
      "segment_sizeOnDisk l \<le> K" "sg_number l = sg_number f + 1 + length mids"
      "\<forall>i<length mids. full_file G K d0 (sg_number f + 1 + i) (mids ! i)"
      and nd0: "fst ` set (dk_files d0) = insert lockFile (segment_fileName ` {sg_number f..sg_number l})"
      by simp_all
    have nd: "fst ` set (dk_files d) = insert lockFile (segment_fileName ` {sg_number f + 1..sg_number l})"
      unfolding del using put nd0 s(4) by (intro names_range_delete) simp_all
    have bl: "backed G l d"
      using s(1,4) by (simp add: del backed_put_other backed_delete_other)
    have full: "full_file G K d (sg_number f + 1 + i) (mids ! i)" if "i < length mids" for i
      using s(5) that by (simp add: del full_file_put full_file_delete)
    have xs: "xs = concat mids @ sg_objects l" using items one Distinct fl by simp
    have l'l: "l' = l" using l' q(4) Distinct fl by simp
    show ?thesis
    proof (cases mids)
      case Nil
      let ?q = "q\<lparr>dq_segs := Shared l\<rparr>"
      have "segs_rep G K d (dq_segs ?q) []"
        using bl s Nil K nd by (auto simp: segment_sizes)
      then have "dque_rep G K (N + 1) ?q d xs"
        by (rule dque_repI) (use q N cd xs K Nil in simp_all)
      then show ?thesis
        using s(4) Nil by (intro that [of ?q d]) (simp_all add: DQue_advance_def f' l'l)
    next
      case (Cons m ms)
      with full [of 0] obtain bs1 where m: "int (length m) = K"
        "dk_lookup d (segment_fileName (sg_number f + 1)) = Some bs1" "replays G bs1 m 0"
        by (auto simp: full_file_def)
      from openQueueSegment_calm [OF cd(1) m(2,3), of "dq_turbo q"] obtain g where g:
        "openQueueSegment G (sg_number f + 1) (dq_turbo q) d = (Inr g, d)" "backed G g d"
        "sg_number g = sg_number f + 1" "sg_objects g = m" "sg_removeCount g = 0"
        by metis
      let ?q = "q\<lparr>dq_segs := Distinct g l\<rparr>"
      have "full_file G K d (sg_number g + 1 + i) (ms ! i)" if "i < length ms" for i
        using full [of "i + 1"] that Cons g(3) by simp
      moreover have "m \<noteq> []" using m(1) K by auto
      ultimately have "segs_rep G K d (dq_segs ?q) ms"
        using g bl s Cons nd m(1) by (simp add: segment_sizes)
      then have "dque_rep G K (N + 1) ?q d xs"
        by (rule dque_repI) (use q N cd xs K Cons g in simp_all)
      then show ?thesis
        using s(4) Cons g(1) q(4) Distinct fl
        by (intro that [of ?q d]) (simp_all add: DQue_advance_def f' l'l)
    qed
  qed
qed

lemma DQue_Dequeue_calm:
  assumes rep: "dque_rep G K N q d (x # xs)"
  obtains q' d' where "DQue_Dequeue G q d = ((Some x, None), q', d')" "dque_rep G K (N + 1) q' d' xs"
proof -
  from rep obtain mids where q: "\<not> dq_closed q" "dq_ItemsPerSegment q = K" "0 < K"
    "dq_fileLock q = Some \<lparr>fl_open = True, fl_locked = True\<rparr>" "dk_locked d" and d: "calm_disk d"
    and N: "dq_cachedDiskBytes q = total_size d" "segs_last_number (dq_segs q) \<le> N"
    and segs: "segs_rep G K d (dq_segs q) mids" and xs: "x # xs = segs_items (dq_segs q) mids"
    by (rule dque_repE)
  from rep obtain f where f: "firstSegment (dq_segs q) = Some f" "backed G f d"
    "sg_objects f \<noteq> []" "hd (sg_objects f) = x"
    by (rule dque_rep_first) auto
  then have "sg_objects f = x # tl (sg_objects f)" by (metis list.collapse)
  from segment_remove_calm [OF d f(2) this] obtain f1 bs where
    remove: "segment_remove f d = ((Some x, None), f1, dk_put (segment_fileName (sg_number f)) bs d)"
    and f1: "backed G f1 (dk_put (segment_fileName (sg_number f)) bs d)"
      "sg_number f1 = sg_number f" "sg_objects f1 = tl (sg_objects f)"
      "sg_removeCount f1 = sg_removeCount f + 1"
    by metis
  let ?d1 = "dk_put (segment_fileName (sg_number f)) bs d"
  let ?q1 = "q\<lparr>dq_segs := put_first f1 (dq_segs q), dq_cachedDiskBytes := dq_cachedDiskBytes q +
      (int (length bs) - file_size d (segment_fileName (sg_number f)))\<rparr>"
  have d1: "calm_disk ?d1" using d by simp
  have N1: "segs_last_number (put_first f1 (dq_segs q)) \<le> N"
    using N(2) f(1) f1(2) by (cases "dq_segs q") auto
  show ?thesis
  proof (cases "segment_size f1 = 0 \<and> segment_sizeOnDisk f1 \<ge> K")
    case False
    have "sg_objects f = x # sg_objects f1" using f(3,4) f1(3) by (metis list.collapse)
    then have step: "segs_rep G K ?d1 (put_first f1 (dq_segs q)) mids \<and>
        segs_items (dq_segs q) mids = x # segs_items (put_first f1 (dq_segs q)) mids"
      using False by (intro segs_rep_shrink [OF segs f(1) f1(1,2) _ f1(4)]) (auto simp: segment_sizes)
    then have "segs_rep G K ?d1 (dq_segs ?q1) mids" by simp
    then have "dque_rep G K (N + 1) ?q1 ?d1 xs"
      by (rule dque_repI) (use q d N N1 xs step in \<open>simp_all add: total_size_put\<close>)
    moreover have "DQue_Dequeue G q d = ((Some x, None), ?q1, ?d1)"
      using q f(1) d remove f1(2)
      by (simp add: DQue_Dequeue_def DQue_dequeueLocked_def Let_def if_not_P [OF False])
    ultimately show ?thesis by (rule that [rotated])
  next
    case True
    then have one: "sg_objects f = [x]"
      using f(3,4) f1(3) by (cases "sg_objects f") (auto simp: segment_sizes)
    from segment_delete_calm [OF d1 f1(1)] obtain f2 where
      delete: "segment_delete f1 ?d1 = (None, f2, dk_delete (segment_fileName (sg_number f)) ?d1)"
      and f2: "sg_number f2 = sg_number f"
      using f1(2) by metis
    let ?d2 = "dk_delete (segment_fileName (sg_number f)) ?d1"
    let ?q2 = "?q1\<lparr>dq_segs := put_first f2 (dq_segs ?q1),
        dq_cachedDiskBytes := dq_cachedDiskBytes ?q1 - int (length bs)\<rparr>"
    from f(1) obtain l where l: "lastSegment (dq_segs q) = Some l" by (cases "dq_segs q") auto
    then have Nl: "sg_number l \<le> N" using N(2) by (cases "dq_segs q") auto
    have pp: "dq_segs ?q2 = put_first f2 (dq_segs q)" by (cases "dq_segs q") simp_all
    obtain l2 where l2: "lastSegment (dq_segs ?q2) = Some l2"
      using f(1) by (cases "dq_segs q") auto
    have size: "dq_cachedDiskBytes ?q2 = total_size ?d2"
      using N(1) by (simp add: total_size_delete total_size_put)
    obtain q3 d3 where adv: "DQue_advance G ?q2 f2 l2 ?d2 = (None, q3, d3)"
      and rep3: "dque_rep G K (N + 1) q3 d3 xs"
      by (rule DQue_advance_calm [OF segs f(1) l xs [symmetric] one q(3) d q(5) f2 _ _ _ pp size Nl refl l2])
        (use q in simp_all)
    have "DQue_Dequeue G q d = ((Some x, None), q3, d3)"
      using q f(1) d remove True f1(2) delete l2 adv
      by (simp add: DQue_Dequeue_def DQue_dequeueLocked_def Let_def)
    then show ?thesis using rep3 by (rule that)
  qed
qed

lemma DQue_Peek_calm:
  assumes "dque_rep G K N q d xs"
  shows "DQue_Peek q = (case xs of [] \<Rightarrow> Inl ErrEmpty | x # _ \<Rightarrow> Inr x)"
proof -
  from assms obtain f where "firstSegment (dq_segs q) = Some f" "sg_objects f = [] \<longleftrightarrow> xs = []"
    "xs \<noteq> [] \<Longrightarrow> hd (sg_objects f) = hd xs"
    by (rule dque_rep_first) auto
  then show ?thesis
    using assms by (auto simp: DQue_Peek_def segment_peek_def dque_rep_def split: list.splits)
qed

lemma DQue_Size_calm:
  assumes "dque_rep G K N q d xs"
  shows "DQue_Size q = Some (int (length xs))"
proof -
  from assms obtain mids where q: "\<not> dq_closed q" "dq_ItemsPerSegment q = K"
    and segs: "segs_rep G K d (dq_segs q) mids" and xs: "xs = segs_items (dq_segs q) mids"
    by (rule dque_repE)
  have "int (length (concat mids)) = int (length mids) * K"
    if "\<forall>i<length mids. int (length (mids ! i)) = K"
  proof -
    have "\<forall>m\<in>set mids. int (length m) = K" using that by (auto simp: in_set_conv_nth)
    then show ?thesis by (induction mids) (auto simp: algebra_simps)
  qed
  then show ?thesis
    using q segs xs
    by (cases "dq_segs q") (auto simp: DQue_Size_def DQue_sizeUnsafeLocked_def segment_sizes full_file_def)
qed

lemma DQue_DiskBytes_calm:
  "dque_rep G K N q d xs \<Longrightarrow> DQue_DiskBytes q = total_size d"
  by (auto simp: DQue_DiskBytes_def dque_rep_def)

end
