(* ===== verification/DQue_History.thy ===== *)
theory DQue_History
  imports DQue_Correct
begin

text \<open>
  Whole histories of the durable queue: creation in a fresh directory, any sequence of calls,
  clean closes and crashes of the process between calls, each followed by reopening.  The
  reference is a list with a turbo flag.
\<close>

section \<open>Opening an existing directory\<close>

lemma segs_rep_files:
  assumes "dk_files d' = dk_files d"
  shows "segs_rep G K d' segs mids = segs_rep G K d segs mids"
proof -
  have "backed G s d' = backed G s d" for s by (simp add: backed_def assms)
  moreover have "full_file G K d' n xs = full_file G K d n xs" for n xs
    by (simp add: full_file_def assms)
  ultimately show ?thesis by (cases segs) (simp_all add: assms)
qed

lemma calm_disk_locked [simp]: "calm_disk (d\<lparr>dk_locked := b\<rparr>) = calm_disk d"
  by (simp add: calm_disk_def del: calm_diskD)

lemma os_create_old: "calm_disk d \<Longrightarrow> dk_lookup d n \<noteq> None \<Longrightarrow> os_create n d = (None, d)"
  by (auto simp: os_create_def io_calm)

lemma blank_dque_simps [simp]:
  "\<not> dq_closed blank_dque" "\<not> dq_turbo blank_dque"
  by (simp_all add: blank_dque_def)

lemma DQue_lock_calm:
  assumes "calm_disk d" "\<not> dk_locked d" "dk_lookup d lockFile \<noteq> None"
  shows "DQue_lock d = (Inr \<lparr>fl_open = True, fl_locked = True\<rparr>, d\<lparr>dk_locked := True\<rparr>)"
  using assms
  by (simp add: DQue_lock_def Flock_TryLock_def Flock_New_def os_create_old flock_tryLock_def
      eval_nat_numeral)

lemma DQue_load_calm:
  assumes d: "calm_disk d" and segs: "segs_rep G K d segs mids"
    and K: "0 < K" "dq_ItemsPerSegment q = K" and hi: "int (segs_last_number segs) \<le> MaxInt32"
  obtains segs' where "DQue_load G q d = (None, segs', d)" "segs_rep G K d segs' mids"
    "segs_items segs' mids = segs_items segs mids" "segs_last_number segs' = segs_last_number segs"
proof (cases segs)
  case NoSegments
  with segs show ?thesis by simp
next
  case (Shared s)
  with segs have s: "backed G s d" "1 \<le> sg_number s"
    "sg_objects s = [] \<longrightarrow> segment_sizeOnDisk s < K" "mids = []"
    and nd: "fst ` set (dk_files d) = insert lockFile (segment_fileName ` {sg_number s..sg_number s})"
    by simp_all
  from s(1) obtain bs where bs: "dk_lookup d (segment_fileName (sg_number s)) = Some bs"
    "replays G bs (sg_objects s) (sg_removeCount s)" by (auto simp: backed_def)
  from openQueueSegment_calm [OF d bs, of "dq_turbo q"] obtain s' where s':
    "openQueueSegment G (sg_number s) (dq_turbo q) d = (Inr s', d)" "backed G s' d"
    "sg_number s' = sg_number s" "sg_objects s' = sg_objects s"
    "sg_removeCount s' = sg_removeCount s" by metis
  have "scan_numbers (map fst (dk_files d)) = (int (sg_number s), int (sg_number s))"
    using hi Shared s(2) by (intro scan_numbers_range [OF nd]) simp_all
  moreover have "segment_size s' > 0 \<or> segment_sizeOnDisk s' < K"
    using s(3) s' by (auto simp: segment_sizes)
  ultimately have "DQue_load G q d = (None, Shared s', d)"
    using d s(2) s'(1) K(2) by (auto simp: DQue_load_def)
  then show ?thesis
    using segs s s' Shared by (intro that [of "Shared s'"]) (auto simp: segment_sizes)
next
  case (Distinct f l)
  with segs have s: "backed G f d" "backed G l d" "1 \<le> sg_number f" "sg_objects f \<noteq> []"
    "sg_number l = sg_number f + 1 + length mids"
    and nd: "fst ` set (dk_files d) = insert lockFile (segment_fileName ` {sg_number f..sg_number l})"
    by simp_all
  from s(1) obtain bs where bs: "dk_lookup d (segment_fileName (sg_number f)) = Some bs"
    "replays G bs (sg_objects f) (sg_removeCount f)" by (auto simp: backed_def)
  from openQueueSegment_calm [OF d bs, of "dq_turbo q"] obtain f' where f':
    "openQueueSegment G (sg_number f) (dq_turbo q) d = (Inr f', d)" "backed G f' d"
    "sg_number f' = sg_number f" "sg_objects f' = sg_objects f"
    "sg_removeCount f' = sg_removeCount f" by metis
  from s(2) obtain bl where bl: "dk_lookup d (segment_fileName (sg_number l)) = Some bl"
    "replays G bl (sg_objects l) (sg_removeCount l)" by (auto simp: backed_def)
  from openQueueSegment_calm [OF d bl, of "dq_turbo q"] obtain l' where l':
    "openQueueSegment G (sg_number l) (dq_turbo q) d = (Inr l', d)" "backed G l' d"
    "sg_number l' = sg_number l" "sg_objects l' = sg_objects l"
    "sg_removeCount l' = sg_removeCount l" by metis
  have "scan_numbers (map fst (dk_files d)) = (int (sg_number f), int (sg_number l))"
    using hi Distinct s(3,5) by (intro scan_numbers_range [OF nd]) simp_all
  moreover have "segment_size f' > 0" using s(4) f' by (simp add: segment_sizes)
  moreover have "nat (int (sg_number l) + 1 - int (sg_number f)) = Suc (1 + length mids)" using s(5) by simp
  moreover have "sg_number f < sg_number l" using s(5) by simp
  ultimately have "DQue_load G q d = (None, Distinct f' l', d)"
    using d s(3) f'(1) l'(1) by (simp add: DQue_load_def)
  then show ?thesis
    using segs s f' l' Distinct by (intro that [of "Distinct f' l'"]) (auto simp: segment_sizes)
qed

lemma DQue_init_calm:
  assumes d: "calm_disk d" "\<not> dk_locked d" and segs: "segs_rep G K d segs mids" and K: "0 < K"
    and N: "segs_last_number segs \<le> N" "int N \<le> MaxInt32"
  obtains q' d' where "DQue_initQueue G K d = (Inr q', d')"
    "dque_rep G K N q' d' (segs_items segs mids)" "\<not> dq_turbo q'"
proof -
  let ?d = "d\<lparr>dk_locked := True\<rparr>"
  let ?q = "blank_dque\<lparr>dq_ItemsPerSegment := K\<rparr> :: 'a dque"
  let ?fl = "\<lparr>fl_open = True, fl_locked = True\<rparr>"
  have "lockFile \<in> fst ` set (dk_files d)" using segs by (cases segs) auto
  then have lock: "DQue_lock d = (Inr ?fl, ?d)"
    using d by (intro DQue_lock_calm) (auto simp: map_of_eq_None_iff)
  have cd: "calm_disk ?d" using d by simp
  have sr: "segs_rep G K ?d segs mids" using segs_rep_files [of ?d d G K segs mids] segs by simp
  have hi: "int (segs_last_number segs) \<le> MaxInt32" using N by linarith
  have qK: "dq_ItemsPerSegment ?q = K" by simp
  obtain segs' where load:
    "DQue_load G ?q ?d = (None, segs', ?d)" "segs_rep G K ?d segs' mids"
    "segs_items segs' mids = segs_items segs mids" "segs_last_number segs' = segs_last_number segs"
    by (rule DQue_load_calm [OF cd sr K qK hi])
  let ?q' = "?q\<lparr>dq_segs := segs', dq_fileLock := Some ?fl, dq_cachedDiskBytes := total_size ?d\<rparr>"
  have "segs_rep G K ?d (dq_segs ?q') mids" using load(2) by simp
  then have rep: "dque_rep G K N ?q' ?d (segs_items segs mids)"
    by (rule dque_repI) (use cd K N load in simp_all)
  have init: "DQue_initQueue G K d = (Inr ?q', ?d)"
    by (simp only: DQue_initQueue_def Let_def lock prod.case sum.case load(1) option.case
        diskBytesLocked_calm [OF cd])
  have "\<not> dq_turbo ?q'" by simp
  with init rep show ?thesis by (rule that)
qed

definition valid_queue_args :: "string \<Rightarrow> string \<Rightarrow> int \<Rightarrow> bool" where
  "valid_queue_args name dirPath K \<longleftrightarrow> name \<noteq> [] \<and> name \<noteq> ''.'' \<and> name \<noteq> ''..'' \<and>
     CHR ''/'' \<notin> set name \<and> char_of (92::nat) \<notin> set name \<and> dirPath \<noteq> [] \<and> 0 < K"

lemma validateQueueInputs_ok:
  "valid_queue_args name dirPath K \<Longrightarrow> dk_faults d = [] \<Longrightarrow> dk_parent d \<Longrightarrow>
   validateQueueInputs name dirPath K d = (None, d)"
  by (simp add: validateQueueInputs_def valid_queue_args_def dirExists_parent_def io_calm)

lemma DQue_Open_calm:
  assumes args: "valid_queue_args name dirPath K" and d: "calm_disk d" "\<not> dk_locked d"
    and segs: "segs_rep G K d segs mids" and N: "segs_last_number segs \<le> N" "int N \<le> MaxInt32"
  obtains q' d' where "DQue_Open G name dirPath K d = (Inr q', d')"
    "dque_rep G K N q' d' (segs_items segs mids)" "\<not> dq_turbo q'"
proof -
  have K: "0 < K" using args by (simp add: valid_queue_args_def)
  have "DQue_Open G name dirPath K d = DQue_initQueue G K d"
    using args d by (simp add: DQue_Open_def DQue_NewOpen_def validateQueueInputs_ok createQueueDir_def)
  then show ?thesis using DQue_init_calm [OF d segs K N] that by metis
qed

lemma DQue_Close_calm:
  assumes rep: "dque_rep G K N q d xs"
  obtains q' where "DQue_Close q d = ([], q', d\<lparr>dk_locked := False\<rparr>)" "dq_closed q'"
proof -
  from rep obtain mids where "\<not> dq_closed q" "calm_disk d" "segs_rep G K d (dq_segs q) mids"
    "dq_fileLock q = Some \<lparr>fl_open = True, fl_locked = True\<rparr>"
    by (auto simp: dque_rep_def)
  then show ?thesis
    by (intro that, cases "dq_segs q")
      (auto simp: DQue_Close_def close_segments_def segment_close_calm Flock_Close_def
        flock_unlock_def os_close_lock_def io_calm)
qed

text \<open>A new queue in a parent directory that has no such queue yet.\<close>

definition fresh_disk :: "disk \<Rightarrow> bool" where
  "fresh_disk d \<longleftrightarrow> dk_faults d = [] \<and> dk_parent d \<and> \<not> dk_dir d \<and> \<not> dk_locked d"

lemma DQue_New_calm:
  fixes G :: "'a codec"
  assumes args: "valid_queue_args name dirPath K" and d: "fresh_disk d"
  obtains q' d' where "DQue_New G name dirPath K d = (Inr q', d')" "dque_rep G K 1 q' d' []"
    "\<not> dq_turbo q'"
proof -
  let ?fl = "\<lparr>fl_open = True, fl_locked = True\<rparr>"
  let ?d1 = "d\<lparr>dk_dir := True, dk_files := []\<rparr>"
  let ?d2 = "(dk_put lockFile [] ?d1)\<lparr>dk_locked := True\<rparr>"
  let ?d3 = "dk_put (segment_fileName 1) [] ?d2"
  let ?s = "(blank_segment 1 False)\<lparr>sg_file := AppendFile\<rparr> :: 'a segment"
  have K: "0 < K" using args by (simp add: valid_queue_args_def)
  have c1: "calm_disk ?d1" using d by (simp add: fresh_disk_def calm_disk_def del: calm_diskD)
  then have c2: "calm_disk ?d2" by simp
  have f2: "map fst (dk_files ?d2) = [lockFile]" by (simp add: dk_put_def)
  have open_dir: "DQue_New G name dirPath K d = DQue_initQueue G K ?d1"
    using args d by (simp add: DQue_New_def DQue_NewOpen_def validateQueueInputs_ok fresh_disk_def
        createQueueDir_def dirExists_def os_mkdir_def io_calm)
  have "os_create lockFile ?d1 = (None, dk_put lockFile [] ?d1)"
    using c1 by (intro sys_calm) simp_all
  then have lock: "DQue_lock ?d1 = (Inr ?fl, ?d2)"
    using c1 d by (simp add: DQue_lock_def Flock_TryLock_def Flock_New_def flock_tryLock_def
        eval_nat_numeral fresh_disk_def dk_put_def)
  let ?q = "blank_dque\<lparr>dq_ItemsPerSegment := K\<rparr> :: 'a dque"
  have new: "newQueueSegment 1 False ?d2 = (Inr ?s, ?d3)"
    by (rule newQueueSegment_calm [OF c2]) simp
  have load: "DQue_load G ?q ?d2 = (None, Shared ?s, ?d3)"
    using new c2 f2 by (simp add: DQue_load_def scan_numbers_def)
  let ?q' = "?q\<lparr>dq_segs := Shared ?s, dq_fileLock := Some ?fl, dq_cachedDiskBytes := total_size ?d3\<rparr>"
  have init: "DQue_initQueue G K ?d1 = (Inr ?q', ?d3)"
    using lock load c2 diskBytesLocked_calm [of ?d3] by (simp add: DQue_initQueue_def)
  have "segs_rep G K ?d3 (dq_segs ?q') []"
    using K by (auto simp: backed_new [of G 1, simplified] segment_sizes)
  then have "dque_rep G K 1 ?q' ?d3 []"
    by (rule dque_repI) (use c2 K in simp_all)
  moreover have "\<not> dq_turbo ?q'" by simp
  moreover have "DQue_New G name dirPath K d = (Inr ?q', ?d3)" using init open_dir by simp
  ultimately show ?thesis using that by blast
qed

section \<open>The turbo switches\<close>

text \<open>Operations that touch neither the number, the objects nor the file of a segment.\<close>

definition same_segment :: "'a segment \<Rightarrow> 'a segment \<Rightarrow> bool" where
  "same_segment s s' \<longleftrightarrow> sg_file s' = sg_file s \<and> sg_number s' = sg_number s \<and>
     sg_objects s' = sg_objects s \<and> sg_removeCount s' = sg_removeCount s"

lemma same_segment_backed: "same_segment s s' \<Longrightarrow> backed G s' d = backed G s d"
  by (auto simp: same_segment_def backed_def)

lemma same_segment_rep:
  assumes "same_segment f f'" "same_segment l l'"
  shows "segs_rep G K d (Distinct f' l') mids = segs_rep G K d (Distinct f l) mids"
    "segs_rep G K d (Shared f') mids = segs_rep G K d (Shared f) mids"
    "segs_items (Distinct f' l') mids = segs_items (Distinct f l) mids"
    "segs_items (Shared f') mids = segs_items (Shared f) mids"
    "segs_last_number (Distinct f' l') = segs_last_number (Distinct f l)"
    "segs_last_number (Shared f') = segs_last_number (Shared f)"
  using assms same_segment_backed [OF assms(1)] same_segment_backed [OF assms(2)]
  by (simp_all add: same_segment_def segment_sizes)

definition harmless ::
  "('a segment \<Rightarrow> disk \<Rightarrow> dque_error option \<times> 'a segment \<times> disk) \<Rightarrow> 'a codec \<Rightarrow> disk \<Rightarrow> bool" where
  "harmless op G d \<longleftrightarrow>
     (\<forall>s. backed G s d \<longrightarrow> (\<exists>s'. op s d = (None, s', d) \<and> same_segment s s'))"

lemma turboSync_harmless: "calm_disk d \<Longrightarrow> harmless segment_turboSync G d"
  by (auto simp: harmless_def segment_turboSync_def file_call_def backed_def same_segment_def)

lemma turboOff_harmless: "calm_disk d \<Longrightarrow> harmless segment_turboOff G d"
  by (auto simp: harmless_def segment_turboOff_def segment_turboSync_def file_call_def backed_def
      same_segment_def)

lemma both_segments_calm:
  assumes op: "harmless op G d" and segs: "segs_rep G K d segs mids"
  obtains segs' where "both_segments op segs d = (None, segs', d)" "segs_rep G K d segs' mids"
    "segs_items segs' mids = segs_items segs mids" "segs_last_number segs' = segs_last_number segs"
proof (cases segs)
  case NoSegments
  with segs show ?thesis by simp
next
  case (Shared s)
  with segs have "backed G s d" by simp
  with op obtain s1 where s1: "op s d = (None, s1, d)" "same_segment s s1"
    by (auto simp: harmless_def)
  then have "backed G s1 d" using \<open>backed G s d\<close> same_segment_backed by blast
  with op obtain s2 where s2: "op s1 d = (None, s2, d)" "same_segment s1 s2"
    by (auto simp: harmless_def)
  have same: "same_segment s s2" using s1(2) s2(2) by (simp add: same_segment_def)
  have "both_segments op segs d = (None, Shared s2, d)"
    using s1(1) s2(1) by (simp add: both_segments_def Shared)
  moreover have "segs_rep G K d (Shared s2) mids" using segs Shared same_segment_rep(2) [OF same same] by blast
  ultimately show ?thesis
    using Shared same by (intro that [of "Shared s2"]) (simp_all add: same_segment_def)
next
  case (Distinct f l)
  with segs have b: "backed G f d" "backed G l d" by simp_all
  with op obtain f' where f': "op f d = (None, f', d)" "same_segment f f'"
    by (auto simp: harmless_def)
  from b op obtain l' where l': "op l d = (None, l', d)" "same_segment l l'"
    by (auto simp: harmless_def)
  have "both_segments op segs d = (None, Distinct f' l', d)"
    using f'(1) l'(1) by (simp add: both_segments_def Distinct)
  moreover have "segs_rep G K d (Distinct f' l') mids"
    using segs Distinct same_segment_rep(1) [OF f'(2) l'(2)] by blast
  ultimately show ?thesis
    using Distinct f'(2) l'(2) by (intro that [of "Distinct f' l'"]) (simp_all add: same_segment_def)
qed

lemma DQue_TurboOn_calm:
  assumes rep: "dque_rep G K N q d xs" and t: "\<not> dq_turbo q"
  obtains q' where "DQue_TurboOn q = (None, q')" "dque_rep G K N q' d xs" "dq_turbo q'"
proof -
  have same: "same_segment s (segment_turboOn s)" for s :: "'a segment"
    by (simp add: same_segment_def segment_turboOn_def)
  from rep obtain mids where q: "\<not> dq_closed q" "dq_ItemsPerSegment q = K" "0 < K"
    "dq_fileLock q = Some \<lparr>fl_open = True, fl_locked = True\<rparr>" "dk_locked d" and d: "calm_disk d"
    and N: "dq_cachedDiskBytes q = total_size d" "segs_last_number (dq_segs q) \<le> N"
    and segs: "segs_rep G K d (dq_segs q) mids" and xs: "xs = segs_items (dq_segs q) mids"
    by (rule dque_repE)
  let ?segs = "case dq_segs q of NoSegments \<Rightarrow> NoSegments | Shared s \<Rightarrow> Shared (segment_turboOn s)
        | Distinct f l \<Rightarrow> Distinct (segment_turboOn f) (segment_turboOn l)"
  let ?q = "q\<lparr>dq_turbo := True, dq_segs := ?segs\<rparr>"
  have S: "segs_rep G K d ?segs mids \<and> segs_items ?segs mids = segs_items (dq_segs q) mids \<and>
      segs_last_number ?segs = segs_last_number (dq_segs q)"
    using segs same_segment_rep [OF same same]
    by (cases "dq_segs q") (simp_all del: segs_rep.simps segs_items.simps segs_last_number.simps)
  then have "segs_rep G K d (dq_segs ?q) mids" by simp
  then have "dque_rep G K N ?q d xs" by (rule dque_repI) (use q d N xs S in simp_all)
  then show ?thesis using q t by (intro that [of ?q]) (simp_all add: DQue_TurboOn_def)
qed

lemma dque_rep_segs:
  assumes rep: "dque_rep G K N q d xs" and "segs_rep G K d segs mids"
    "segs_rep G K d (dq_segs q) mids'" "xs = segs_items segs mids"
    "segs_last_number segs = segs_last_number (dq_segs q)"
  shows "dque_rep G K N (q\<lparr>dq_segs := segs\<rparr>) d xs"
    "dque_rep G K N (q\<lparr>dq_segs := segs, dq_turbo := t\<rparr>) d xs"
  using assms by (auto simp: dque_rep_def)

lemma DQue_TurboOff_calm:
  assumes rep: "dque_rep G K N q d xs" and t: "dq_turbo q"
  obtains q' where "DQue_TurboOff q d = (None, q', d)" "dque_rep G K N q' d xs" "\<not> dq_turbo q'"
proof -
  from rep obtain mids where q: "\<not> dq_closed q" and d: "calm_disk d"
    and segs: "segs_rep G K d (dq_segs q) mids" and xs: "xs = segs_items (dq_segs q) mids"
    by (rule dque_repE)
  from both_segments_calm [OF turboOff_harmless [OF d] segs] obtain segs' where b:
    "both_segments segment_turboOff (dq_segs q) d = (None, segs', d)" "segs_rep G K d segs' mids"
    "segs_items segs' mids = xs" "segs_last_number segs' = segs_last_number (dq_segs q)"
    unfolding xs by metis
  show ?thesis
    using dque_rep_segs(2) [OF rep b(2) segs b(3) [symmetric] b(4), of False] q t b(1)
    by (intro that [of "q\<lparr>dq_segs := segs', dq_turbo := False\<rparr>"]) (simp_all add: DQue_TurboOff_def)
qed

lemma DQue_TurboSync_calm:
  assumes rep: "dque_rep G K N q d xs" and t: "dq_turbo q"
  obtains q' where "DQue_TurboSync q d = (None, q', d)" "dque_rep G K N q' d xs" "dq_turbo q'"
proof -
  from rep obtain mids where q: "\<not> dq_closed q" and d: "calm_disk d"
    and segs: "segs_rep G K d (dq_segs q) mids" and xs: "xs = segs_items (dq_segs q) mids"
    by (rule dque_repE)
  from both_segments_calm [OF turboSync_harmless [OF d] segs] obtain segs' where b:
    "both_segments segment_turboSync (dq_segs q) d = (None, segs', d)" "segs_rep G K d segs' mids"
    "segs_items segs' mids = xs" "segs_last_number segs' = segs_last_number (dq_segs q)"
    unfolding xs by metis
  show ?thesis
    using dque_rep_segs(1) [OF rep b(2) segs b(3) [symmetric] b(4)] q t b(1)
    by (intro that [of "q\<lparr>dq_segs := segs'\<rparr>"]) (simp_all add: DQue_TurboSync_def)
qed

section \<open>Histories\<close>

datatype 'a dque_call = CEnqueue 'a | CDequeue | CPeek | CSize | CTurboOn | CTurboOff | CTurboSync
  | CReopen \<comment> \<open>\<^verbatim>\<open>Close\<close>, then \<^verbatim>\<open>Open\<close>\<close>
  | CCrash  \<comment> \<open>the process dies, the kernel drops its lock, a new one calls \<^verbatim>\<open>Open\<close>\<close>

datatype 'a dque_answer = AOk | AItem 'a | AItemErr 'a dque_error | ANumber int | AErr dque_error | AFail

definition dque_open_answer ::
  "(dque_error list + 'a dque) \<times> disk \<Rightarrow> 'a dque \<Rightarrow> 'a dque_answer \<times> 'a dque \<times> disk" where
  "dque_open_answer r q = (case r of
       (Inr q', d') \<Rightarrow> (AOk, q', d')
     | (Inl _, d') \<Rightarrow> (AFail, q, d'))"

fun dque_call_step :: "'a codec \<Rightarrow> string \<Rightarrow> string \<Rightarrow> int \<Rightarrow> 'a dque_call \<Rightarrow> 'a dque \<times> disk \<Rightarrow>
    'a dque_answer \<times> 'a dque \<times> disk" where
  "dque_call_step G name dir K (CEnqueue x) (q, d) = (case DQue_Enqueue G x q d of
       (None, q', d') \<Rightarrow> (AOk, q', d') | (Some e, q', d') \<Rightarrow> (AErr e, q', d'))"
| "dque_call_step G name dir K CDequeue (q, d) = (case DQue_Dequeue G q d of
       ((Some x, None), q', d') \<Rightarrow> (AItem x, q', d')
     | ((None, Some e), q', d') \<Rightarrow> (AErr e, q', d')
     | ((Some x, Some e), q', d') \<Rightarrow> (AItemErr x e, q', d')
     | ((None, None), q', d') \<Rightarrow> (AFail, q', d'))"
| "dque_call_step G name dir K CPeek (q, d) = (case DQue_Peek q of
       Inr x \<Rightarrow> (AItem x, q, d) | Inl e \<Rightarrow> (AErr e, q, d))"
| "dque_call_step G name dir K CSize (q, d) = (case DQue_Size q of
       Some n \<Rightarrow> (ANumber n, q, d) | None \<Rightarrow> (AFail, q, d))"
| "dque_call_step G name dir K CTurboOn (q, d) = (case DQue_TurboOn q of
       (None, q') \<Rightarrow> (AOk, q', d) | (Some e, q') \<Rightarrow> (AErr e, q', d))"
| "dque_call_step G name dir K CTurboOff (q, d) = (case DQue_TurboOff q d of
       (None, q', d') \<Rightarrow> (AOk, q', d') | (Some e, q', d') \<Rightarrow> (AErr e, q', d'))"
| "dque_call_step G name dir K CTurboSync (q, d) = (case DQue_TurboSync q d of
       (None, q', d') \<Rightarrow> (AOk, q', d') | (Some e, q', d') \<Rightarrow> (AErr e, q', d'))"
| "dque_call_step G name dir K CReopen (q, d) = (case DQue_Close q d of
       ([], q', d') \<Rightarrow> dque_open_answer (DQue_Open G name dir K d') q'
     | (_, q', d') \<Rightarrow> (AFail, q', d'))"
| "dque_call_step G name dir K CCrash (q, d) =
     dque_open_answer (DQue_Open G name dir K (d\<lparr>dk_locked := False\<rparr>)) q"

fun dque_history :: "'a codec \<Rightarrow> string \<Rightarrow> string \<Rightarrow> int \<Rightarrow> 'a dque_call list \<Rightarrow> 'a dque \<times> disk \<Rightarrow>
    'a dque_answer list \<times> 'a dque \<times> disk" where
  "dque_history G name dir K [] qd = ([], qd)"
| "dque_history G name dir K (c # cs) qd = (case dque_call_step G name dir K c qd of
       (a, qd1) \<Rightarrow> (case dque_history G name dir K cs qd1 of (as, qd2) \<Rightarrow> (a # as, qd2)))"

text \<open>The reference: a list and a switch.\<close>

fun fifo_step :: "'a codec \<Rightarrow> 'a dque_call \<Rightarrow> 'a list \<times> bool \<Rightarrow> 'a dque_answer \<times> 'a list \<times> bool" where
  "fifo_step G (CEnqueue x) (xs, t) =
     (if gob_encode G x = None then (AErr ErrEncode, xs, t) else (AOk, xs @ [x], t))"
| "fifo_step G CDequeue (xs, t) = (case xs of [] \<Rightarrow> (AErr ErrEmpty, xs, t) | y # ys \<Rightarrow> (AItem y, ys, t))"
| "fifo_step G CPeek (xs, t) = (case xs of [] \<Rightarrow> (AErr ErrEmpty, xs, t) | y # ys \<Rightarrow> (AItem y, xs, t))"
| "fifo_step G CSize (xs, t) = (ANumber (int (length xs)), xs, t)"
| "fifo_step G CTurboOn (xs, t) = (if t then AErr ErrTurboState else AOk, xs, True)"
| "fifo_step G CTurboOff (xs, t) = (if t then AOk else AErr ErrTurboState, xs, False)"
| "fifo_step G CTurboSync (xs, t) = (if t then AOk else AErr ErrTurboState, xs, t)"
| "fifo_step G CReopen (xs, t) = (AOk, xs, False)"
| "fifo_step G CCrash (xs, t) = (AOk, xs, False)"

fun fifo_history :: "'a codec \<Rightarrow> 'a dque_call list \<Rightarrow> 'a list \<times> bool \<Rightarrow> 'a dque_answer list \<times> 'a list \<times> bool" where
  "fifo_history G [] st = ([], st)"
| "fifo_history G (c # cs) st = (case fifo_step G c st of
       (a, st1) \<Rightarrow> (case fifo_history G cs st1 of (as, st2) \<Rightarrow> (a # as, st2)))"

fun call_fits :: "'a codec \<Rightarrow> 'a dque_call \<Rightarrow> bool" where
  "call_fits G (CEnqueue x) \<longleftrightarrow> gob_encode G x = None \<or> storable G x"
| "call_fits G _ \<longleftrightarrow> True"

lemma dque_rep_turbo: "dque_rep G K N q d xs \<Longrightarrow> \<not> dq_closed q"
  by (simp add: dque_rep_def)

lemma dque_rep_mono: "dque_rep G K N q d xs \<Longrightarrow> N \<le> M \<Longrightarrow> dque_rep G K M q d xs"
  by (auto simp: dque_rep_def)

text \<open>One call: the queue answers as the list does.\<close>

lemma dque_reopen_calm:
  assumes rep: "dque_rep G K N q d xs" and args: "valid_queue_args name dir K" and N: "int N \<le> MaxInt32"
  obtains q' d' where "DQue_Open G name dir K (d\<lparr>dk_locked := False\<rparr>) = (Inr q', d')"
    "dque_rep G K N q' d' xs" "\<not> dq_turbo q'"
proof -
  let ?d = "d\<lparr>dk_locked := False\<rparr>"
  from rep obtain mids where d: "calm_disk d" and n: "segs_last_number (dq_segs q) \<le> N"
    and segs: "segs_rep G K d (dq_segs q) mids" and xs: "xs = segs_items (dq_segs q) mids"
    by (rule dque_repE)
  have c: "calm_disk ?d" "\<not> dk_locked ?d" using d by simp_all
  have "segs_rep G K ?d (dq_segs q) mids"
    using segs_rep_files [of ?d d G K "dq_segs q" mids] segs by simp
  from DQue_Open_calm [OF args c this n N] show ?thesis using that xs by metis
qed

definition answers_as where
  "answers_as G K N r spec \<longleftrightarrow> (case r of (a, q', d') \<Rightarrow> (case spec of (a', xs', t') \<Rightarrow>
     a = a' \<and> t' = dq_turbo q' \<and> dque_rep G K N q' d' xs'))"

lemma answers_asI:
  "dque_rep G K N q' d' xs' \<Longrightarrow> t' = dq_turbo q' \<Longrightarrow> answers_as G K N (a, q', d') (a, xs', t')"
  by (simp add: answers_as_def)

text \<open>Neither call touches the switch.\<close>

lemma DQue_roll_turbo: "dq_turbo (fst (snd (DQue_roll q l d))) = dq_turbo q"
  by (auto simp: DQue_roll_def split: sum.split prod.split segments.split option.split)

lemma DQue_Enqueue_turbo:
  assumes "DQue_Enqueue G x q d = (e, q', d')" shows "dq_turbo q' = dq_turbo q"
proof -
  have "dq_turbo (fst (snd (DQue_Enqueue G x q d))) = dq_turbo q"
    using DQue_roll_turbo [of q _ d]
    by (auto simp: DQue_Enqueue_def Let_def split: option.split prod.split) (metis fst_conv snd_conv)+
  with assms show ?thesis by simp
qed

lemma DQue_advance_turbo: "dq_turbo (fst (snd (DQue_advance G q f l d))) = dq_turbo q"
  by (auto simp: DQue_advance_def Let_def split: sum.split prod.split)

lemma DQue_Dequeue_turbo:
  assumes "DQue_Dequeue G q d = (r, q', d')" shows "dq_turbo q' = dq_turbo q"
proof -
  have "dq_turbo (fst (snd (DQue_dequeueLocked G q d))) = dq_turbo q"
    by (auto simp: DQue_dequeueLocked_def Let_def split: option.split prod.split)
      (metis DQue_advance_turbo dque.ext_inject dque.surjective dque.update_convs(1,5) fst_conv snd_conv)+
  with assms show ?thesis by (simp add: DQue_Dequeue_def)
qed

lemma dque_call_step_sim:
  assumes rep: "dque_rep G K N q d xs" and G: "gob_ok G" and fits: "call_fits G c"
    and args: "valid_queue_args name dir K" and N: "int N \<le> MaxInt32"
  shows "answers_as G K (N + 1) (dque_call_step G name dir K c (q, d)) (fifo_step G c (xs, dq_turbo q))"
proof -
  have rep1: "dque_rep G K (N + 1) q d xs" by (rule dque_rep_mono [OF rep]) simp
  have open_q: "\<not> dq_closed q" using rep by (simp add: dque_rep_def)
  show ?thesis
  proof (cases c)
    case (CEnqueue x)
    show ?thesis
    proof (cases "gob_encode G x = None")
      case True
      then obtain q' d' where "DQue_Enqueue G x q d = (Some ErrEncode, q', d')"
        "dque_rep G K (N + 1) q' d' xs" by (rule DQue_Enqueue_encode_error [OF rep])
      then show ?thesis using CEnqueue True by (simp add: answers_asI DQue_Enqueue_turbo)
    next
      case False
      then obtain y where y: "gob_encode G x = Some y" by blast
      then have "storable G x" using fits CEnqueue by simp
      then obtain q' d' where "DQue_Enqueue G x q d = (None, q', d')"
        "dque_rep G K (N + 1) q' d' (xs @ [x])" by (rule DQue_Enqueue_calm [OF rep G])
      then show ?thesis using CEnqueue y by (simp add: answers_asI DQue_Enqueue_turbo)
    qed
  next
    case CDequeue
    show ?thesis
    proof (cases xs)
      case Nil
      with rep have "DQue_Dequeue G q d = ((None, Some ErrEmpty), q, d)"
        by (intro DQue_Dequeue_empty) simp
      then show ?thesis using CDequeue Nil rep1 by (simp add: answers_asI)
    next
      case (Cons y ys)
      from rep [unfolded Cons] obtain q' d' where "DQue_Dequeue G q d = ((Some y, None), q', d')"
        "dque_rep G K (N + 1) q' d' ys" by (rule DQue_Dequeue_calm)
      then show ?thesis using CDequeue Cons by (simp add: answers_asI DQue_Dequeue_turbo)
    qed
  next
    case CPeek
    then show ?thesis
      using DQue_Peek_calm [OF rep] rep1 by (cases xs) (simp_all add: answers_asI)
  next
    case CSize
    then show ?thesis using DQue_Size_calm [OF rep] rep1 by (simp add: answers_asI)
  next
    case CTurboOn
    show ?thesis
    proof (cases "dq_turbo q")
      case True
      then show ?thesis using CTurboOn open_q rep1 by (simp add: DQue_TurboOn_def answers_asI)
    next
      case False
      from DQue_TurboOn_calm [OF rep1 False] obtain q' where
        "DQue_TurboOn q = (None, q')" "dque_rep G K (N + 1) q' d xs" "dq_turbo q'" .
      then show ?thesis using CTurboOn False by (simp add: answers_asI)
    qed
  next
    case CTurboOff
    show ?thesis
    proof (cases "dq_turbo q")
      case False
      then show ?thesis using CTurboOff open_q rep1 by (simp add: DQue_TurboOff_def answers_asI)
    next
      case True
      from DQue_TurboOff_calm [OF rep1 True] obtain q' where
        "DQue_TurboOff q d = (None, q', d)" "dque_rep G K (N + 1) q' d xs" "\<not> dq_turbo q'" .
      then show ?thesis using CTurboOff True by (simp add: answers_asI)
    qed
  next
    case CTurboSync
    show ?thesis
    proof (cases "dq_turbo q")
      case False
      then show ?thesis using CTurboSync open_q rep1 by (simp add: DQue_TurboSync_def answers_asI)
    next
      case True
      from DQue_TurboSync_calm [OF rep1 True] obtain q' where
        "DQue_TurboSync q d = (None, q', d)" "dque_rep G K (N + 1) q' d xs" "dq_turbo q'" .
      then show ?thesis using CTurboSync True by (simp add: answers_asI)
    qed
  next
    case CReopen
    from DQue_Close_calm [OF rep] obtain q0 where
      "DQue_Close q d = ([], q0, d\<lparr>dk_locked := False\<rparr>)" .
    moreover from dque_reopen_calm [OF rep args N] obtain q' d' where
      "DQue_Open G name dir K (d\<lparr>dk_locked := False\<rparr>) = (Inr q', d')"
      "dque_rep G K N q' d' xs" "\<not> dq_turbo q'" .
    ultimately show ?thesis
      using CReopen dque_rep_mono [of G K N q' d' xs "N + 1"]
      by (simp add: dque_open_answer_def answers_asI)
  next
    case CCrash
    from dque_reopen_calm [OF rep args N] obtain q' d' where
      "DQue_Open G name dir K (d\<lparr>dk_locked := False\<rparr>) = (Inr q', d')"
      "dque_rep G K N q' d' xs" "\<not> dq_turbo q'" .
    then show ?thesis
      using CCrash dque_rep_mono [of G K N q' d' xs "N + 1"]
      by (simp add: dque_open_answer_def answers_asI)
  qed
qed

lemma dque_history_sim:
  assumes "dque_rep G K N q d xs" "gob_ok G" "list_all (call_fits G) cs"
    "valid_queue_args name dir K" "int (N + length cs) \<le> MaxInt32"
  shows "\<exists>as q' d' xs'. dque_history G name dir K cs (q, d) = (as, q', d') \<and>
    fifo_history G cs (xs, dq_turbo q) = (as, xs', dq_turbo q') \<and>
    dque_rep G K (N + length cs) q' d' xs'"
  using assms
proof (induction cs arbitrary: q d xs N)
  case (Cons c cs)
  obtain a q1 d1 where step: "dque_call_step G name dir K c (q, d) = (a, q1, d1)"
    by (metis prod_cases3)
  obtain a' xs1 t1 where spec: "fifo_step G c (xs, dq_turbo q) = (a', xs1, t1)"
    by (metis prod_cases3)
  have "answers_as G K (N + 1) (a, q1, d1) (a', xs1, t1)"
    using Cons.prems by (simp only: step [symmetric] spec [symmetric]) (intro dque_call_step_sim; simp)
  then have s: "a' = a" "t1 = dq_turbo q1" "dque_rep G K (N + 1) q1 d1 xs1"
    by (simp_all add: answers_as_def)
  from Cons.IH [OF s(3)] Cons.prems obtain as q' d' xs' where
    "dque_history G name dir K cs (q1, d1) = (as, q', d')"
    "fifo_history G cs (xs1, dq_turbo q1) = (as, xs', dq_turbo q')"
    "dque_rep G K (N + 1 + length cs) q' d' xs'" by auto
  then show ?case using step spec s(1,2) by simp
qed simp

section \<open>Properties\<close>

text \<open>C1: A durable queue created in a fresh directory answers every sequence of calls, with clean
  reopenings and crashes between the calls, exactly as a list does, provided the gob codec round
  trips, no encoded object exceeds the cap that loading enforces, no system call fails, and fewer
  than 2^31 - 1 calls are made.  In particular nothing is lost, duplicated or reordered by
  reopening, and no call panics.\<close>

theorem dque_refines_fifo:
  assumes "gob_ok G" and "list_all (call_fits G) cs" and "valid_queue_args name dir K"
    and "fresh_disk d" and "int (length cs) < MaxInt32"
  shows "\<exists>q0 d0 as q d' xs.
    DQue_New G name dir K d = (Inr q0, d0) \<and>
    dque_history G name dir K cs (q0, d0) = (as, q, d') \<and>
    fifo_history G cs ([], False) = (as, xs, DQue_Turbo q) \<and>
    DQue_Size q = Some (int (length xs))"
proof -
  from DQue_New_calm [OF assms(3,4)] obtain q0 d0 where new:
    "DQue_New G name dir K d = (Inr q0, d0)" "dque_rep G K 1 q0 d0 []" "\<not> dq_turbo q0" .
  from dque_history_sim [OF new(2) assms(1,2,3)] assms(5) obtain as q d' xs where
    "dque_history G name dir K cs (q0, d0) = (as, q, d')"
    "fifo_history G cs ([], dq_turbo q0) = (as, xs, dq_turbo q)"
    "dque_rep G K (1 + length cs) q d' xs" by auto
  then show ?thesis
    using new DQue_Size_calm [of G K _ q d' xs] dque_rep_turbo [of G K _ q d' xs]
    by (auto simp: DQue_Turbo_def)
qed

text \<open>A codec of one-byte objects for the concrete instances.\<close>

definition byte_codec :: "8 word codec" where
  "byte_codec = \<lparr>gob_encode = (\<lambda>x. Some [x]), gob_decode = (\<lambda>bs. case bs of [x] \<Rightarrow> Some x | _ \<Rightarrow> None)\<rparr>"

definition empty_disk :: disk where
  "empty_disk = \<lparr>dk_parent = True, dk_dir = False, dk_files = [], dk_locked = False, dk_faults = []\<rparr>"

lemma byte_codec_ok: "gob_ok byte_codec" "storable byte_codec x"
  by (simp_all add: gob_ok_def byte_codec_def storable_def maxObjectSize_def)

lemma empty_disk_fresh: "fresh_disk empty_disk"
  by (simp add: fresh_disk_def empty_disk_def)

definition demo_calls :: "8 word dque_call list" where
  "demo_calls = [CEnqueue 1, CEnqueue 2, CEnqueue 3, CDequeue, CCrash, CDequeue, CReopen, CDequeue, CDequeue]"

lemma demo_calls_ok:
  "list_all (call_fits byte_codec) demo_calls" "int (length demo_calls) < MaxInt32"
  "valid_queue_args ''q'' ''/tmp'' 2"
  by (simp_all add: demo_calls_def byte_codec_ok MaxInt32_def valid_queue_args_def char_of_def)

lemma demo_calls_fifo: "fifo_history byte_codec demo_calls ([], False) =
    ([AOk, AOk, AOk, AItem 1, AOk, AItem 2, AOk, AItem 3, AErr ErrEmpty], [], False)"
  by (simp add: demo_calls_def byte_codec_def)

theorem dque_refines_fifo_witness:
  "\<exists>q0 d0 q d'. DQue_New byte_codec ''q'' ''/tmp'' 2 empty_disk = (Inr q0, d0) \<and>
    dque_history byte_codec ''q'' ''/tmp'' 2 demo_calls (q0, d0) =
      ([AOk, AOk, AOk, AItem 1, AOk, AItem 2, AOk, AItem 3, AErr ErrEmpty], q, d') \<and>
    DQue_Size q = Some 0"
proof -
  from dque_refines_fifo [OF byte_codec_ok(1) demo_calls_ok(1,3) empty_disk_fresh demo_calls_ok(2)]
  obtain q0 d0 as q d' xs where
    "DQue_New byte_codec ''q'' ''/tmp'' 2 empty_disk = (Inr q0, d0)"
    "dque_history byte_codec ''q'' ''/tmp'' 2 demo_calls (q0, d0) = (as, q, d')"
    "fifo_history byte_codec demo_calls ([], False) = (as, xs, DQue_Turbo q)"
    "DQue_Size q = Some (int (length xs))" by blast
  then show ?thesis by (simp add: demo_calls_fifo)
qed

text \<open>C28: After any such history \<^verbatim>\<open>DiskBytes\<close>, which the code maintains incrementally, is the sum of
  the sizes of the files in the queue's directory.\<close>

theorem dque_disk_bytes_exact:
  assumes "gob_ok G" and "list_all (call_fits G) cs" and "valid_queue_args name dir K"
    and "fresh_disk d" and "int (length cs) < MaxInt32"
  shows "\<exists>q0 d0 as q d'.
    DQue_New G name dir K d = (Inr q0, d0) \<and>
    dque_history G name dir K cs (q0, d0) = (as, q, d') \<and>
    diskBytesLocked d' = (DQue_DiskBytes q, d')"
proof -
  from DQue_New_calm [OF assms(3,4)] obtain q0 d0 where new:
    "DQue_New G name dir K d = (Inr q0, d0)" "dque_rep G K 1 q0 d0 []" .
  from dque_history_sim [OF new(2) assms(1,2,3)] assms(5) obtain as q d' xs where run:
    "dque_history G name dir K cs (q0, d0) = (as, q, d')" "dque_rep G K (1 + length cs) q d' xs"
    by auto
  then have "calm_disk d'" by (simp add: dque_rep_def)
  then have "diskBytesLocked d' = (DQue_DiskBytes q, d')"
    using run(2) by (simp add: DQue_DiskBytes_calm diskBytesLocked_calm)
  then show ?thesis using new(1) run(1) by blast
qed

theorem dque_disk_bytes_exact_witness:
  "\<exists>q0 d0 as q d'.
    DQue_New byte_codec ''q'' ''/tmp'' 2 empty_disk = (Inr q0, d0) \<and>
    dque_history byte_codec ''q'' ''/tmp'' 2 demo_calls (q0, d0) = (as, q, d') \<and>
    diskBytesLocked d' = (DQue_DiskBytes q, d')"
  by (rule dque_disk_bytes_exact
      [OF byte_codec_ok(1) demo_calls_ok(1,3) empty_disk_fresh demo_calls_ok(2)])

end
