(* ===== verification/DQue_Faults.thy ===== *)
theory DQue_Faults
  imports DQue_History
begin

text \<open>
  The durable queue under failing system calls.  Whatever fails, no method dereferences a nil
  segment and a closed queue stays inert; what the disk holds after a failure, and what a
  configuration change does to it, is shown on concrete runs.
\<close>

section \<open>No nil segment is dereferenced\<close>

definition dque_ok :: "'a dque \<Rightarrow> bool" where
  "dque_ok q \<longleftrightarrow> (dq_closed q \<longleftrightarrow> dq_segs q = NoSegments) \<and> (\<not> dq_closed q \<longrightarrow> dq_fileLock q \<noteq> None)"

lemma put_first_NoSegments [simp]: "put_first s segs = NoSegments \<longleftrightarrow> segs = NoSegments"
  by (cases segs) simp_all

lemma put_last_NoSegments [simp]: "put_last s segs = NoSegments \<longleftrightarrow> segs = NoSegments"
  by (cases segs) simp_all

lemma assign_first_NoSegments [simp]: "assign_first s segs = NoSegments \<longleftrightarrow> segs = NoSegments"
  by (cases segs) simp_all

lemma firstSegment_None [simp]: "firstSegment segs = None \<longleftrightarrow> segs = NoSegments"
  by (cases segs) simp_all

lemma lastSegment_None [simp]: "lastSegment segs = None \<longleftrightarrow> segs = NoSegments"
  by (cases segs) simp_all

text \<open>No call below the queue answers \<^term>\<open>NilDeref\<close>.\<close>

lemma io_fst:
  assumes "\<And>d. P (fst (ok d))" "\<And>k d. P (fst (bad k d))" shows "P (fst (io ok bad d))"
  using assms by (auto simp: io_def split: prod.split fault.split)

lemma os_no_nil [simp]:
  "fst (os_write n bs d) \<noteq> Some NilDeref" "fst (os_call d) \<noteq> Some NilDeref"
  "fst (os_remove n d) \<noteq> Some NilDeref" "fst (os_create n d) \<noteq> Some NilDeref"
  "fst (dirExists d) \<noteq> Inl NilDeref" "fst (fileExists n d) \<noteq> Inl NilDeref"
  "fst (os_open n d) \<noteq> Inl NilDeref" "fst (osReadDir d) \<noteq> Inl NilDeref"
  "fst (flock_unlock d) \<noteq> Some NilDeref" "fst (os_close_lock d) \<noteq> Some NilDeref"
  unfolding os_write_def os_call_def os_remove_def os_create_def dirExists_def fileExists_def
    os_open_def osReadDir_def flock_unlock_def os_close_lock_def
  by (rule io_fst; auto split: option.split)+

lemma os_no_nil_eq [simp]:
  "os_write n bs d \<noteq> (Some NilDeref, d')" "os_call d \<noteq> (Some NilDeref, d')"
  "os_remove n d \<noteq> (Some NilDeref, d')" "os_create n d \<noteq> (Some NilDeref, d')"
  "dirExists d \<noteq> (Inl NilDeref, d')" "fileExists n d \<noteq> (Inl NilDeref, d')"
  "os_open n d \<noteq> (Inl NilDeref, d')" "osReadDir d \<noteq> (Inl NilDeref, d')"
  "flock_unlock d \<noteq> (Some NilDeref, d')" "os_close_lock d \<noteq> (Some NilDeref, d')"
  using os_no_nil by (metis fst_conv)+

lemma file_no_nil [simp]:
  "file_write s bs d \<noteq> (Some NilDeref, d')" "file_call s d \<noteq> (Some NilDeref, d')"
  by (auto simp: file_write_def file_call_def split: file_state.split)

lemma segment_load_loop_no_nil: "fst (segment_load_loop G bs objs rc d) \<noteq> Inl NilDeref"
proof (induction G bs objs rc d rule: segment_load_loop.induct)
  case (1 G bs objs rc d)
  show ?case
    using "1.IH"
    by (subst segment_load_loop.simps)
      (auto simp: Let_def split: prod.split read_result.split list.split option.split)
qed

lemma segment_no_nil [simp]:
  "segment_sync s d \<noteq> (Some NilDeref, r)" "segment_remove s d \<noteq> ((ob, Some NilDeref), r)"
  "segment_add G x s d \<noteq> (Some NilDeref, r)" "segment_delete s d \<noteq> (Some NilDeref, r)"
  "segment_turboSync s d \<noteq> (Some NilDeref, r)" "segment_turboOff s d \<noteq> (Some NilDeref, r)"
  "segment_close s d \<noteq> (Some NilDeref, r)"
proof -
  show sync: "segment_sync s d \<noteq> (Some NilDeref, r)" for s d r
    by (auto simp: segment_sync_def split: option.split prod.split)
  show "segment_remove s d \<noteq> ((ob, Some NilDeref), r)"
    using sync by (auto simp: segment_remove_def split: list.split option.split prod.split)
  show "segment_add G x s d \<noteq> (Some NilDeref, r)"
    using sync by (auto simp: segment_add_def split: option.split prod.split)
  show "segment_delete s d \<noteq> (Some NilDeref, r)"
    by (auto simp: segment_delete_def split: option.split prod.split)
  show ts: "segment_turboSync s d \<noteq> (Some NilDeref, r)" for s d r
    by (auto simp: segment_turboSync_def split: option.split prod.split)
  show "segment_turboOff s d \<noteq> (Some NilDeref, r)"
    using ts by (auto simp: segment_turboOff_def split: option.split prod.split)
  show "segment_close s d \<noteq> (Some NilDeref, r)"
    by (auto simp: segment_close_def split: option.split prod.split)
qed

lemma new_no_nil [simp]: "newQueueSegment n t d \<noteq> (Inl NilDeref, d')"
  by (auto simp: newQueueSegment_def split: sum.split prod.split bool.split option.split)

lemma segment_load_no_nil [simp]: "segment_load G s d \<noteq> (Inl NilDeref, d')"
  using segment_load_loop_no_nil [of G _ "sg_objects s" "sg_removeCount s"]
  by (auto simp: segment_load_def split: sum.split prod.split) (metis fst_conv)

lemma open_no_nil [simp]: "openQueueSegment G n t d \<noteq> (Inl NilDeref, d')"
  by (auto simp: openQueueSegment_def split: sum.split prod.split bool.split)

section \<open>Every method keeps the queue usable\<close>

lemma DQue_roll_ok:
  assumes "dque_ok q" "\<not> dq_closed q" "DQue_roll q l d = (e, q', d')"
  shows "dque_ok q' \<and> \<not> dq_closed q' \<and> e \<noteq> Some NilDeref"
  using assms
  by (auto simp: DQue_roll_def dque_ok_def split: if_splits sum.splits prod.splits option.splits segments.splits)

lemma DQue_Enqueue_ok:
  assumes "dque_ok q" "DQue_Enqueue G x q d = (e, q', d')"
  shows "dque_ok q' \<and> e \<noteq> Some NilDeref"
proof (cases "dq_closed q")
  case True
  then show ?thesis using assms by (auto simp: DQue_Enqueue_def)
next
  case False
  with assms(1) obtain l where l: "lastSegment (dq_segs q) = Some l"
    by (metis dque_ok_def lastSegment_None not_None_eq)
  obtain e1 q1 d1 where roll: "DQue_roll q l d = (e1, q1, d1)" by (metis prod_cases3)
  note ok1 = DQue_roll_ok [OF assms(1) False roll]
  then obtain l1 where l1: "lastSegment (dq_segs q1) = Some l1"
    by (metis dque_ok_def lastSegment_None not_None_eq)
  show ?thesis
    using assms(2) False l roll l1 ok1
    by (auto simp: DQue_Enqueue_def Let_def dque_ok_def split: prod.splits option.splits)
qed

lemma DQue_advance_ok:
  assumes "dque_ok q" "\<not> dq_closed q" "DQue_advance G q f l d = (e, q', d')"
  shows "dque_ok q' \<and> e \<noteq> Some NilDeref"
  using assms
  by (auto simp: DQue_advance_def dque_ok_def Let_def split: if_splits sum.splits prod.splits)

lemma DQue_Dequeue_ok:
  assumes "dque_ok q" "DQue_Dequeue G q d = ((r, e), q', d')"
  shows "dque_ok q' \<and> e \<noteq> Some NilDeref \<and> (e = None \<longrightarrow> r \<noteq> None)"
proof (cases "dq_closed q")
  case True
  then show ?thesis using assms by (auto simp: DQue_Dequeue_def DQue_dequeueLocked_def)
next
  case False
  with assms(1) obtain f where f: "firstSegment (dq_segs q) = Some f"
    by (metis dque_ok_def firstSegment_None not_None_eq)
  have seg: "dq_segs q \<noteq> NoSegments" and fl: "dq_fileLock q \<noteq> None"
    using assms(1) False by (auto simp: dque_ok_def)
  obtain n1 d1 where s1: "sizeOfFile (segment_fileName (sg_number f)) d = (n1, d1)" by fastforce
  obtain ob e1 f1 d2 where rm: "segment_remove f d1 = ((ob, e1), f1, d2)" by (metis prod_cases3 surj_pair)
  show ?thesis
  proof (cases e1)
    case (Some e2)
    then show ?thesis
      using assms(2) False f s1 rm seg fl segment_no_nil(2) [of f d1 ob "(f1, d2)"]
      by (auto simp: DQue_Dequeue_def DQue_dequeueLocked_def dque_ok_def split: if_splits)
  next
    case None
    then have ob: "ob \<noteq> None"
      using rm by (auto simp: segment_remove_def split: list.splits prod.splits option.splits)
    show ?thesis
      using assms(2) False f s1 rm None ob seg fl
      by (auto simp: DQue_Dequeue_def DQue_dequeueLocked_def dque_ok_def Let_def
          split: if_splits prod.splits option.splits
          dest!: DQue_advance_ok [rotated 2])
  qed
qed

lemma Flock_Close_no_nil: "NilDeref \<notin> set (fst (Flock_Close fl d))"
  by (auto simp: Flock_Close_def split: prod.split option.split)

lemma close_segments_no_nil: "NilDeref \<notin> set (fst (close_segments segs d))"
  by (auto simp: close_segments_def split: segments.split prod.split option.split)

lemma DQue_Close_ok:
  assumes "dque_ok q" "DQue_Close q d = (es, q', d')"
  shows "dque_ok q' \<and> NilDeref \<notin> set es"
proof (cases "dq_closed q")
  case True
  then show ?thesis using assms by (auto simp: DQue_Close_def)
next
  case False
  with assms(1) obtain fl where fl: "dq_fileLock q = Some fl" by (auto simp: dque_ok_def)
  obtain e1 s1 d1 where c1: "close_segments (dq_segs q) d = (e1, s1, d1)" by (metis prod_cases3)
  obtain e2 f2 d2 where c2: "Flock_Close fl d1 = (e2, f2, d2)" by (metis prod_cases3)
  have "NilDeref \<notin> set e1" "NilDeref \<notin> set e2"
    using close_segments_no_nil [of "dq_segs q" d] Flock_Close_no_nil [of fl d1] by (simp_all add: c1 c2)
  then show ?thesis using assms(2) False fl c1 c2 by (auto simp: DQue_Close_def dque_ok_def)
qed

lemma DQue_load_ok: "DQue_load G q d = (None, segs, d') \<Longrightarrow> segs \<noteq> NoSegments"
  by (auto simp: DQue_load_def Let_def split: sum.splits prod.splits option.splits if_splits)

lemma DQue_initQueue_ok: "DQue_initQueue G K d = (Inr q, d') \<Longrightarrow> dque_ok q"
  by (auto simp: DQue_initQueue_def Let_def dque_ok_def
      split: sum.splits prod.splits option.splits dest: DQue_load_ok)

lemma DQue_NewOpen_ok: "DQue_NewOpen b G name dir K d = (Inr q, d') \<Longrightarrow> dque_ok q"
  by (auto simp: DQue_NewOpen_def split: prod.splits option.splits dest: DQue_initQueue_ok)

lemma both_segments_ok:
  assumes "both_segments op segs d = (e, segs', d')" "segs \<noteq> NoSegments"
    and op: "\<And>s d r. op s d \<noteq> (Some NilDeref, r)"
  shows "segs' \<noteq> NoSegments \<and> e \<noteq> Some NilDeref"
  using assms(1,2) op
  by (auto simp: both_segments_def split: option.splits prod.splits)

lemma dque_call_step_ok:
  assumes ok: "dque_ok q" and step: "dque_call_step G name dir K c (q, d) = (a, q', d')"
  shows "dque_ok q' \<and> a \<noteq> AErr NilDeref \<and> (\<forall>x. a \<noteq> AItemErr x NilDeref) \<and> (a = AFail \<longrightarrow> c = CReopen \<or> c = CCrash)"
proof (cases c)
  case (CEnqueue x)
  then show ?thesis
    using step DQue_Enqueue_ok [OF ok] by (fastforce split: prod.splits option.splits)
next
  case CDequeue
  obtain r e q1 d1 where deq: "DQue_Dequeue G q d = ((r, e), q1, d1)"
    by (metis prod.collapse)
  from DQue_Dequeue_ok [OF ok deq] show ?thesis
    using step CDequeue by (auto simp: deq split: option.splits)
next
  case CPeek
  then show ?thesis
    using step ok by (auto simp: DQue_Peek_def segment_peek_def dque_ok_def
        split: sum.splits option.splits list.splits if_splits)
next
  case CSize
  then show ?thesis
    using step ok by (auto simp: DQue_Size_def DQue_sizeUnsafeLocked_def dque_ok_def Let_def
        split: option.splits if_splits bind_splits)
next
  case CTurboOn
  then show ?thesis
    using step ok by (auto simp: DQue_TurboOn_def dque_ok_def
        split: option.splits if_splits prod.splits segments.splits)
next
  case CTurboOff
  then show ?thesis
    using step ok both_segments_ok [of segment_turboOff "dq_segs q" d]
    by (auto simp: DQue_TurboOff_def dque_ok_def split: option.splits if_splits prod.splits)
next
  case CTurboSync
  then show ?thesis
    using step ok both_segments_ok [of segment_turboSync "dq_segs q" d]
    by (auto simp: DQue_TurboSync_def dque_ok_def split: option.splits if_splits prod.splits)
next
  case CReopen
  then show ?thesis
    using step DQue_Close_ok [OF ok] DQue_NewOpen_ok
    by (auto simp: dque_open_answer_def DQue_Open_def split: prod.splits list.splits sum.splits)
next
  case CCrash
  then show ?thesis
    using step ok DQue_NewOpen_ok
    by (auto simp: dque_open_answer_def DQue_Open_def split: prod.splits sum.splits)
qed

section \<open>Scripts with faults\<close>

text \<open>A script gives, for each call, the segment size a reopening uses and the faults that the
  call's system calls meet.\<close>

fun dque_script :: "'a codec \<Rightarrow> string \<Rightarrow> string \<Rightarrow> (int \<times> fault list \<times> 'a dque_call) list \<Rightarrow>
    'a dque \<times> disk \<Rightarrow> 'a dque_answer list \<times> 'a dque \<times> disk" where
  "dque_script G name dir [] qd = ([], qd)"
| "dque_script G name dir ((K, fs, c) # cs) (q, d) =
     (case dque_call_step G name dir K c (q, d\<lparr>dk_faults := fs\<rparr>) of
        (a, qd1) \<Rightarrow> (case dque_script G name dir cs qd1 of (as, qd2) \<Rightarrow> (a # as, qd2)))"

lemma dque_script_ok:
  assumes "dque_ok q" "dque_script G name dir script (q, d) = (as, q', d')"
  shows "dque_ok q' \<and> AErr NilDeref \<notin> set as \<and> (\<forall>x. AItemErr x NilDeref \<notin> set as)"
  using assms
proof (induction script arbitrary: q d as)
  case (Cons e script)
  obtain K fs c where e: "e = (K, fs, c)" by (metis prod_cases3)
  obtain a q1 d1 where step: "dque_call_step G name dir K c (q, d\<lparr>dk_faults := fs\<rparr>) = (a, q1, d1)"
    by (metis prod_cases3)
  note ok1 = dque_call_step_ok [OF Cons.prems(1) step]
  obtain as1 where "dque_script G name dir script (q1, d1) = (as1, q', d')" "as = a # as1"
    using Cons.prems(2) step by (auto simp: e split: prod.splits)
  then show ?case using Cons.IH ok1 by auto
qed simp

text \<open>Whatever system calls fail, while the queue is created or during any sequence of calls
  with any segment sizes, no method dereferences a nil segment or a nil lock, \<^verbatim>\<open>Size\<close> is defined
  and a final \<^verbatim>\<open>Close\<close> meets no nil either.\<close>

theorem dque_never_nil:
  assumes "DQue_New G name dir K d = (Inr q0, d0)"
    and "dque_script G name dir script (q0, d0) = (as, q, d')"
  shows "AErr NilDeref \<notin> set as \<and> (\<forall>x. AItemErr x NilDeref \<notin> set as) \<and> DQue_Size q \<noteq> None \<and> NilDeref \<notin> set (fst (DQue_Close q d'))"
proof -
  have "dque_ok q0" using assms(1) DQue_NewOpen_ok by (auto simp: DQue_New_def)
  from dque_script_ok [OF this assms(2)] have ok: "dque_ok q"
    "AErr NilDeref \<notin> set as \<and> (\<forall>x. AItemErr x NilDeref \<notin> set as)" by simp_all
  obtain a q1 d1 where size: "dque_call_step G name dir K CSize (q, d') = (a, q1, d1)"
    by (metis prod_cases3)
  have "DQue_Size q \<noteq> None"
    using dque_call_step_ok [OF ok(1) size] size by (auto split: option.splits)
  moreover have "NilDeref \<notin> set (fst (DQue_Close q d'))"
    using DQue_Close_ok [OF ok(1)] by (metis prod.collapse)
  ultimately show ?thesis using ok(2) by simp
qed

definition dque_scenario :: "int \<Rightarrow> (int \<times> fault list \<times> 8 word dque_call) list \<Rightarrow> 8 word dque_answer list" where
  "dque_scenario K script = (case DQue_New byte_codec ''q'' ''/tmp'' K empty_disk of
       (Inr q, d) \<Rightarrow> fst (dque_script byte_codec ''q'' ''/tmp'' script (q, d))
     | (Inl _, _) \<Rightarrow> [])"

text \<open>Growing \<^verbatim>\<open>itemsPerSegment\<close> between two runs hides items: after the first segment is drained,
  \<^verbatim>\<open>Dequeue\<close> answers \<^verbatim>\<open>ErrEmpty\<close> although an item is left and \<^verbatim>\<open>Size\<close> counts it, and reopening
  again does not help.\<close>

theorem dque_larger_segments_hide_items:
  "dque_scenario 1 [(1, [], CEnqueue 1), (1, [], CEnqueue 2), (3, [], CReopen), (3, [], CDequeue),
      (3, [], CSize), (3, [], CDequeue), (3, [], CReopen), (3, [], CDequeue)] =
   [AOk, AOk, AOk, AItem 1, ANumber 1, AErr ErrEmpty, AOk, AErr ErrEmpty]"
  by code_simp

text \<open>An \<^verbatim>\<open>Enqueue\<close> that failed in \<^verbatim>\<open>fsync\<close> takes the object back from memory only: its record
  stays in the file, so after a reopening the deletion of the next object hits the wrong record
  and that object is delivered a second time.\<close>

theorem dque_failed_sync_duplicates:
  "dque_scenario 10 [(10, [NoFault, NoFault, NoFault, Fault 0], CEnqueue 1), (10, [], CEnqueue 2),
      (10, [], CDequeue), (10, [], CReopen), (10, [], CDequeue)] =
   [AErr ErrOS, AOk, AItem 2, AOk, AItem 2]"
  by code_simp

text \<open>A short write in \<^verbatim>\<open>Enqueue\<close> is reported but not undone; the next \<^verbatim>\<open>Enqueue\<close> succeeds behind the
  torn record and the queue can never be opened again.\<close>

theorem dque_torn_write_corrupts:
  "dque_scenario 10 [(10, [NoFault, NoFault, Fault 0], CEnqueue 1), (10, [], CEnqueue 200),
      (10, [], CSize), (10, [], CReopen)] = [AErr ErrOS, AOk, ANumber 1, AFail]"
  by code_simp

text \<open>When \<^verbatim>\<open>fsync\<close> fails in \<^verbatim>\<open>Dequeue\<close> the object is removed but not returned: the caller gets the
  error alone and the next call delivers the following object.\<close>

theorem dque_failed_sync_loses_item:
  "dque_scenario 10 [(10, [], CEnqueue 1), (10, [], CEnqueue 2),
      (10, [NoFault, NoFault, Fault 0], CDequeue), (10, [], CDequeue), (10, [], CReopen),
      (10, [], CDequeue)] =
   [AOk, AOk, AErr ErrOS, AItem 2, AOk, AErr ErrEmpty]"
  by code_simp

text \<open>When closing the full last segment fails, the next segment's file is already there: every
  later \<^verbatim>\<open>Enqueue\<close> fails because that file exists.\<close>

theorem dque_failed_close_wedges:
  "dque_scenario 1 [(1, [], CEnqueue 1), (1, [], CEnqueue 2),
      (1, [NoFault, NoFault, NoFault, Fault 0], CEnqueue 3), (1, [], CEnqueue 3), (1, [], CEnqueue 3)] =
   [AOk, AOk, AErr ErrOS, AErr ErrFileExists, AErr ErrFileExists]"
  by code_simp

text \<open>An object whose encoding is longer than the cap of 64 MiB is accepted by \<^verbatim>\<open>Enqueue\<close> and makes
  the queue unreadable: the segment that holds it fails to load.\<close>

theorem dque_oversize_unreadable:
  assumes "dque_rep G K N q d xs" and "gob_encode G x = Some buf"
    and "maxObjectSize < int (length buf)" and "length buf < 2 ^ 32"
  shows "\<exists>q' d' lo n. DQue_Enqueue G x q d = (None, q', d') \<and>
    DQue_SegmentNumbers q' = Some (lo, int n) \<and>
    openQueueSegment G n False d' = (Inl (ErrCorruptedSegment TooLong), d')"
proof -
  from assms(1) obtain l where l: "lastSegment (dq_segs q) = Some l"
    by (cases "dq_segs q") (auto simp: dque_rep_def)
  from DQue_roll_calm [OF assms(1) l] obtain q1 d1 l1 where
    roll: "DQue_roll q l d = (None, q1, d1)" and rep1: "dque_rep G K (N + 1) q1 d1 xs"
    and l1: "lastSegment (dq_segs q1) = Some l1"
    by metis
  from rep1 l1 have d1: "calm_disk d1" "backed G l1 d1" "\<not> dq_closed q1"
    by (cases "dq_segs q1"; auto simp: dque_rep_def)+
  from d1(2) obtain old where old: "sg_file l1 = AppendFile"
    "dk_lookup d1 (segment_fileName (sg_number l1)) = Some old"
    "replays G old (sg_objects l1) (sg_removeCount l1)" by (rule backedE)
  let ?w = "word_of_nat (length buf) :: 32 word"
  let ?bs = "old @ le32_put ?w @ buf" and ?n = "segment_fileName (sg_number l1)"
  let ?d = "dk_put ?n ?bs d1"
  from segment_add_write [OF d1(1) old(1,2) assms(2)] obtain l2 where
    add: "segment_add G x l1 d1 = (None, l2, ?d)" and l2: "sg_number l2 = sg_number l1" .
  let ?q = "q1\<lparr>dq_segs := put_last l2 (dq_segs q1),
     dq_cachedDiskBytes := dq_cachedDiskBytes q1 + (int (length ?bs) - file_size d1 ?n),
     dq_broadcasts := dq_broadcasts q1 + 1\<rparr>"
  have enq: "DQue_Enqueue G x q d = (None, ?q, ?d)"
    using assms(1) l roll l1 add d1 l2 by (simp add: DQue_Enqueue_def dque_rep_def)
  obtain f where "firstSegment (dq_segs ?q) = Some f" "lastSegment (dq_segs ?q) = Some l2"
    using l1 by (cases "dq_segs q1") auto
  then have num: "DQue_SegmentNumbers ?q = Some (int (sg_number f), int (sg_number l1))"
    using d1(3) l2 by (simp add: DQue_SegmentNumbers_def)
  have u: "unat ?w = length buf"
    using assms(4) by (simp add: unat_of_nat take_bit_nat_eq_self)
  have "0 < length buf" using assms(3) by (cases buf) (simp_all add: maxObjectSize_def)
  with u have "?w \<noteq> 0" by (metis less_irrefl unat_0)
  with u have w: "uint ?w = int (length buf)" "?w \<noteq> 0" by (simp_all add: uint_nat)
  have "segment_load_loop G (le32_put ?w @ buf) objs rc ?d = (Inl (ErrCorruptedSegment TooLong), ?d)"
    for objs rc
    using w assms(3) d1(1)
    by (subst segment_load_loop_calm)
      (simp_all add: le32_get_put [of _ "[]", simplified] Let_def)
  then have "segment_load_loop G ?bs [] 0 ?d = (Inl (ErrCorruptedSegment TooLong), ?d)"
    using old(3) d1(1) segment_load_loop_append [of G old "[]" 0 ?d _ _ ?d "le32_put ?w @ buf"]
    by (simp add: replays_def)
  then have "openQueueSegment G (sg_number l1) False ?d = (Inl (ErrCorruptedSegment TooLong), ?d)"
    using d1(1) by (simp add: openQueueSegment_def segment_load_def blank_segment_def)
  with enq num show ?thesis by blast
qed

text \<open>A codec whose encodings are one byte longer than the cap.\<close>

definition fat_codec :: "unit codec" where
  "fat_codec = \<lparr>gob_encode = (\<lambda>_. Some (replicate (nat maxObjectSize + 1) 0)), gob_decode = (\<lambda>_. Some ())\<rparr>"

theorem dque_oversize_unreadable_witness:
  "\<exists>q d q' d' lo n. DQue_New fat_codec ''q'' ''/tmp'' 2 empty_disk = (Inr q, d) \<and>
    DQue_Enqueue fat_codec () q d = (None, q', d') \<and>
    DQue_SegmentNumbers q' = Some (lo, int n) \<and>
    openQueueSegment fat_codec n False d' = (Inl (ErrCorruptedSegment TooLong), d')"
proof -
  from DQue_New_calm [OF demo_calls_ok(3) empty_disk_fresh, where G = fat_codec] obtain q d where
    new: "DQue_New fat_codec ''q'' ''/tmp'' 2 empty_disk = (Inr q, d)"
      "dque_rep fat_codec 2 1 q d []" .
  have "gob_encode fat_codec () = Some (replicate (nat maxObjectSize + 1) 0)"
    by (simp add: fat_codec_def)
  from dque_oversize_unreadable [OF new(2) this] new(1) show ?thesis
    by (auto simp: maxObjectSize_def)
qed

theorem dque_never_nil_witness:
  "\<exists>q0 d0 as q d. DQue_New byte_codec ''q'' ''/tmp'' 2 empty_disk = (Inr q0, d0) \<and>
    dque_script byte_codec ''q'' ''/tmp'' [(2, [NoFault, Fault 3], CEnqueue 1)] (q0, d0) = (as, q, d) \<and>
    AErr NilDeref \<notin> set as \<and> DQue_Size q \<noteq> None"
proof -
  from DQue_New_calm [OF demo_calls_ok(3) empty_disk_fresh, where G = byte_codec] obtain q0 d0 where
    new: "DQue_New byte_codec ''q'' ''/tmp'' 2 empty_disk = (Inr q0, d0)" .
  obtain as q d where
    "dque_script byte_codec ''q'' ''/tmp'' [(2, [NoFault, Fault 3], CEnqueue 1)] (q0, d0) = (as, q, d)"
    by (metis prod_cases3)
  with dque_never_nil [OF new this] new show ?thesis by blast
qed

end
