(* ===== verification/Writebatcher_Correct.thy ===== *)
theory Writebatcher_Correct
  imports Writebatcher DQue_Faults "HOL-Library.Multiset"
begin

text \<open>
  No item is lost or duplicated by the write batcher.  The contract of the durable queue is a
  locale, the batcher's accounting is proved once inside it, and the queue of \<^verbatim>\<open>internal/dque\<close> is
  an instance.
\<close>

section \<open>The contract of the durable queue\<close>

locale durable_queue =
  fixes ops :: "('a, 'q) dqueQueue"
    and holds :: "'q \<Rightarrow> 'a list \<Rightarrow> bool"
  assumes size_law: "holds q xs \<Longrightarrow> qSize ops q = int (length xs)"
    and enqueue_law: "holds q xs \<Longrightarrow> qEnqueue ops x q = (e, q') \<Longrightarrow>
      holds q' (if e = None then xs @ [x] else xs)"
    and dequeue_law: "holds q (x # xs) \<Longrightarrow>
      \<exists>q'. qDequeue ops q = ((Some x, None), q') \<and> holds q' xs"

text \<open>The items that left the batcher, according to its log.\<close>

fun event_items :: "'a wb_event \<Rightarrow> 'a list" where
  "event_items (EvSuccess b) = b"
| "event_items (EvDropped b) = b"
| "event_items (EvNotRequeued b) = b"
| "event_items (EvError b) = []"
| "event_items (EvAfterCommit n f) = []"

definition gone :: "('a, 'q) batcher \<Rightarrow> 'a multiset" where
  "gone wb = mset (concat (map event_items (wb_log wb)))"

lemma gone_log [simp]: "gone (log_event e wb) = gone wb + mset (event_items e)"
  by (simp add: gone_def log_event_def)

lemma gone_cong: "wb_log wb' = wb_log wb \<Longrightarrow> gone wb' = gone wb"
  by (simp add: gone_def)

lemma log_event_simps [simp]:
  "wb_ch (log_event e wb) = wb_ch wb" "wb_dq (log_event e wb) = wb_dq wb"
  "wb_pendingCount (log_event e wb) = wb_pendingCount wb" "wb_closed (log_event e wb) = wb_closed wb"
  "wb_ctxDone (log_event e wb) = wb_ctxDone wb" "wb_outcomes (log_event e wb) = wb_outcomes wb"
  "wb_maxDiskBytes (log_event e wb) = wb_maxDiskBytes wb" "wb_chClosed (log_event e wb) = wb_chClosed wb"
  "wb_log (log_event e wb) = wb_log wb @ [e]"
  by (simp_all add: log_event_def)

definition dq_holds :: "('q \<Rightarrow> 'a list \<Rightarrow> bool) \<Rightarrow> ('a, 'q) batcher \<Rightarrow> 'a list \<Rightarrow> bool" where
  "dq_holds holds wb ds \<longleftrightarrow> (case wb_dq wb of None \<Rightarrow> ds = [] | Some q \<Rightarrow> holds q ds)"

text \<open>The account of a batcher: the items \<^term>\<open>M\<close> it ever took are in the channel, in the durable
  queue, in the worker's hands \<^term>\<open>b\<close> or gone, and \<^verbatim>\<open>pendingCount\<close> counts the first two and
  \<^term>\<open>k\<close> more.\<close>

definition account ::
  "('q \<Rightarrow> 'a list \<Rightarrow> bool) \<Rightarrow> ('a, 'q) batcher \<Rightarrow> 'a multiset \<Rightarrow> 'a multiset \<Rightarrow> int \<Rightarrow> bool" where
  "account holds wb b M k \<longleftrightarrow> (\<exists>ds. dq_holds holds wb ds \<and>
     mset (wb_ch wb) + mset ds + gone wb + b = M \<and>
     wb_pendingCount wb = int (length (wb_ch wb)) + int (length ds) + k)"

lemma accountE:
  assumes "account holds wb b M k"
  obtains ds where "dq_holds holds wb ds" "mset (wb_ch wb) + mset ds + gone wb + b = M"
    "wb_pendingCount wb = int (length (wb_ch wb)) + int (length ds) + k"
  using assms by (auto simp: account_def)

lemma account_cong:
  assumes "account holds wb b M k" "wb_ch wb' = wb_ch wb" "wb_dq wb' = wb_dq wb"
    "wb_log wb' = wb_log wb" "wb_pendingCount wb' = wb_pendingCount wb"
  shows "account holds wb' b M k"
  using assms by (simp add: account_def dq_holds_def gone_def)

lemma account_event:
  assumes "account holds wb b M k" "b = mset (event_items e) + b'"
  shows "account holds (log_event e wb) b' M k"
  using assms by (auto simp: account_def dq_holds_def ac_simps)

context durable_queue
begin

lemma Submit_overflow_account:
  assumes "account holds wb (add_mset x b) M k" "wb_dq wb = Some q"
    "Submit_overflow ops x q wb = (e, wb')"
  shows "account holds wb' (if e = None then b else add_mset x b) M k"
proof -
  from assms(1,2) obtain ds where ds: "holds q ds"
    "mset (wb_ch wb) + mset ds + gone wb + add_mset x b = M"
    "wb_pendingCount wb = int (length (wb_ch wb)) + int (length ds) + k"
    by (auto simp: account_def dq_holds_def)
  obtain e0 q' where enq: "qEnqueue ops x q = (e0, q')" by fastforce
  have q': "holds q' (if e0 = None then ds @ [x] else ds)" by (rule enqueue_law [OF ds(1) enq])
  show ?thesis
  proof (cases "wb_maxDiskBytes wb > 0 \<and> qDiskBytes ops q \<ge> wb_maxDiskBytes wb")
    case True
    then show ?thesis using assms by (auto simp: Submit_overflow_def)
  next
    case False
    show ?thesis
    proof (cases e0)
      case None
      then have "e = None" "wb' = wb\<lparr>wb_dq := Some q', wb_pendingCount := wb_pendingCount wb + 1,
          wb_overflowCount := wb_overflowCount wb + 1, wb_dqNotify := True\<rparr>"
        using assms(3) enq False by (auto simp: Submit_overflow_def)
      then show ?thesis using q' ds None
        by (auto simp: account_def dq_holds_def gone_def intro!: exI [of _ "ds @ [x]"])
    next
      case (Some e1)
      then have "e \<noteq> None" "wb' = wb\<lparr>wb_dq := Some q'\<rparr>"
        using assms(3) enq False by (auto simp: Submit_overflow_def)
      then show ?thesis using q' ds Some
        by (auto simp: account_def dq_holds_def gone_def intro!: exI [of _ ds])
    qed
  qed
qed

lemma submit_select_account:
  assumes "account holds wb b M k" "submit_select cfg wb = (c, wb')"
  shows "account holds wb' b M k"
  using assms
  by (auto simp: submit_select_def next_choice_def split: if_splits list.splits prod.splits
      elim!: account_cong)

lemma Submit_account:
  assumes "account holds wb (add_mset x b) M k" "Submit ops cfg x wb = (e, wb')"
  shows "account holds wb' (if e = None then b else add_mset x b) M k"
proof (cases "wb_closed wb")
  case True
  then show ?thesis using assms by (auto simp: Submit_def)
next
  case False
  obtain c wb1 where sel: "submit_select cfg wb = (c, wb1)" by fastforce
  have a1: "account holds wb1 (add_mset x b) M k" by (rule submit_select_account [OF assms(1) sel])
  consider "c = Some True" | "c = Some False" | "c = None" "wb_dq wb1 = None"
    | q where "c = None" "wb_dq wb1 = Some q" by (cases c; cases "wb_dq wb1") auto
  then show ?thesis
  proof cases
    case 1
    then have "e = None" "wb' = wb1\<lparr>wb_ch := wb_ch wb1 @ [x], wb_pendingCount := wb_pendingCount wb1 + 1\<rparr>"
      using assms(2) False sel by (auto simp: Submit_def)
    then show ?thesis using a1 by (auto simp: account_def dq_holds_def gone_def)
  next
    case 4
    then have "Submit_overflow ops x q wb1 = (e, wb')" using assms(2) False sel by (auto simp: Submit_def)
    from Submit_overflow_account [OF a1 4(2) this] show ?thesis .
  qed (use assms(2) False sel a1 in \<open>auto simp: Submit_def\<close>)
qed

lemma reEnqueueBatch_account:
  "account holds wb (mset batch + b) M k \<Longrightarrow> account holds (reEnqueueBatch ops cfg batch wb) b M k"
proof (induction batch arbitrary: wb)
  case (Cons x batch)
  obtain e wb' where sub: "Submit ops cfg x wb = (e, wb')" by fastforce
  have "account holds wb' (if e = None then mset batch + b else add_mset x (mset batch + b)) M k"
    using Cons.prems by (intro Submit_account [OF _ sub]) simp
  note sub_acc = this
  show ?case
  proof (cases e)
    case None
    with sub_acc have "account holds wb' (mset batch + b) M k" by simp
    from Cons.IH [OF this] show ?thesis using None by (simp add: sub)
  next
    case (Some e')
    with sub_acc have "account holds wb' (add_mset x (mset batch + b)) M k" by simp
    then have "account holds (log_event (EvNotRequeued (x # batch)) wb') b M k"
      by (rule account_event) simp
    then show ?thesis using Some by (simp add: sub)
  qed
qed simp

lemma flush_failed_account:
  assumes "account holds wb (mset batch + b) M k"
  shows "account holds (flush_failed ops cfg batch wb) b M k"
proof -
  have "account holds (wb\<lparr>wb_totalErrors := wb_totalErrors wb + 1\<rparr>) (mset batch + b) M k"
    by (rule account_cong [OF assms]) simp_all
  then show ?thesis
    unfolding flush_failed_def by (intro reEnqueueBatch_account account_event) simp_all
qed

lemma flush_committed_account:
  assumes "account holds wb (mset batch + b) M k"
  shows "account holds (flush_committed cfg batch wb) b M k"
proof -
  have "account holds (wb\<lparr>wb_totalFlushed := wb_totalFlushed wb + go_len batch,
      wb_totalCommitted := wb_totalCommitted wb + go_len batch\<rparr>) (mset batch + b) M k"
    by (rule account_cong [OF assms]) simp_all
  then have "account holds (log_event (EvSuccess batch) (wb\<lparr>wb_totalFlushed := wb_totalFlushed wb + go_len batch,
      wb_totalCommitted := wb_totalCommitted wb + go_len batch\<rparr>)) b M k"
    by (rule account_event) simp
  then show ?thesis
    using account_event [of holds _ b M k "EvAfterCommit n True" b for n]
    by (simp add: flush_committed_def Let_def)
qed

lemma flush_account:
  assumes "account holds wb (mset batch + b) M k"
  shows "account holds (flush ops cfg batch wb) b M (k - int (length batch))"
proof (cases "batch = []")
  case True
  then show ?thesis using assms by (simp add: flush_def)
next
  case False
  obtain c wb1 where out: "next_outcome wb = (c, wb1)" by fastforce
  have a1: "account holds wb1 (mset batch + b) M k"
    using assms out by (auto simp: next_outcome_def split: list.splits elim!: account_cong)
  have ad: "account holds (log_event (EvDropped batch)
      (wb\<lparr>wb_totalFlushed := wb_totalFlushed wb + go_len batch\<rparr>)) b M k"
    by (rule account_event, rule account_cong [OF assms]) simp_all
  have pend: "account holds (wb2\<lparr>wb_pendingCount := wb_pendingCount wb2 - go_len batch\<rparr>) b M
      (k - int (length batch))" if "account holds wb2 b M k" for wb2
    using that by (auto simp: account_def dq_holds_def gone_def go_len_def)
  show ?thesis
    using pend [OF flush_failed_account [OF a1]] pend [OF flush_committed_account [OF a1]]
      pend [OF ad] False
    by (cases c) (simp_all add: flush_def Let_def out)
qed

lemma append_account:
  assumes "account holds wb (add_mset x (mset (wk_batch w))) M (int (length (wk_batch w)) + 1)"
    "appendAndManageTimer ops cfg x (w, wb) = (w', wb')"
  shows "account holds wb' (mset (wk_batch w')) M (int (length (wk_batch w')))"
proof (cases "batch_full cfg (add_item cfg x w)")
  case True
  have "account holds (flush ops cfg (wk_batch w @ [x]) wb) {#} M
      (int (length (wk_batch w)) + 1 - int (length (wk_batch w @ [x])))"
    by (rule flush_account) (use assms(1) in simp)
  then show ?thesis
    using True assms(2)
    by (auto simp: appendAndManageTimer_def add_item_def clear_batch_def stopFlushTimer_def Let_def)
next
  case False
  then show ?thesis
    using assms by (auto simp: appendAndManageTimer_def add_item_def Let_def ac_simps split: if_splits)
qed

lemma account_receive:
  assumes "account holds wb b M k" "wb_ch wb = x # rest"
  shows "account holds (wb\<lparr>wb_ch := rest\<rparr>) (add_mset x b) M (k + 1)"
  using assms by (auto simp: account_def dq_holds_def gone_def)

lemma drainChannel_account:
  assumes "account holds wb (mset (wk_batch w)) M (int (length (wk_batch w)))"
    "drainChannel ops cfg fuel (w, wb) = Some (w', wb')"
  shows "account holds wb' (mset (wk_batch w')) M (int (length (wk_batch w'))) \<and> wb_ch wb' = []"
  using assms
proof (induction fuel arbitrary: w wb)
  case (Suc fuel)
  show ?case
  proof (cases "wb_ch wb")
    case Nil
    then show ?thesis using Suc.prems by simp
  next
    case (Cons x rest)
    let ?w1 = "add_item cfg x w" and ?wb1 = "wb\<lparr>wb_ch := rest\<rparr>"
    have b1: "wk_batch ?w1 = wk_batch w @ [x]" by (simp add: add_item_def)
    have a1: "account holds ?wb1 (mset (wk_batch ?w1)) M (int (length (wk_batch ?w1)))"
      using account_receive [OF Suc.prems(1) Cons] by (simp add: b1 ac_simps)
    show ?thesis
    proof (cases "batch_full cfg ?w1")
      case True
      have "account holds (flush ops cfg (wk_batch ?w1) ?wb1) {#} M
          (int (length (wk_batch ?w1)) - int (length (wk_batch ?w1)))"
        by (rule flush_account) (use a1 in simp)
      then show ?thesis
        using Suc.IH [of "flush ops cfg (wk_batch ?w1) ?wb1" "clear_batch ?w1"] Suc.prems(2) Cons True
        by (simp add: clear_batch_def Let_def)
    next
      case False
      then show ?thesis using Suc.IH [OF a1] Suc.prems(2) Cons by (simp add: Let_def)
    qed
  qed
qed simp

lemma flushChannelAndExit_account:
  assumes "account holds wb (mset (wk_batch w)) M (int (length (wk_batch w)))"
    "flushChannelAndExit ops cfg fuel (w, wb) = Some (w', wb')"
  shows "account holds wb' {#} M 0"
proof -
  obtain w1 wb1 where run: "drainChannel ops cfg fuel (stopFlushTimer w, wb) = Some (w1, wb1)"
    and wb': "wb' = flush ops cfg (wk_batch w1) wb1"
    using assms(2) by (auto simp: flushChannelAndExit_def split: option.splits)
  have "account holds wb1 (mset (wk_batch w1)) M (int (length (wk_batch w1)))"
    using drainChannel_account [OF _ run] assms(1) by (simp add: stopFlushTimer_def)
  from flush_account [of wb1 "wk_batch w1" "{#}", simplified, OF this] show ?thesis
    by (simp add: wb')
qed

lemma drain_pass_account:
  assumes acc: "account holds wb (mset (wk_batch w)) M (int (length (wk_batch w)))"
    and run: "drain_pass ops cfg n (w, wb) = (r, w', wb')"
  shows "account holds wb' (mset (wk_batch w')) M (int (length (wk_batch w'))) \<and> r \<noteq> PanicNilItem"
proof -
  consider "wb_closed wb \<or> wb_ctxDone wb" | x rest where "\<not> (wb_closed wb \<or> wb_ctxDone wb)" "wb_ch wb = x # rest"
    | "\<not> (wb_closed wb \<or> wb_ctxDone wb)" "wb_ch wb = []" "wb_chClosed wb \<or> wb_dq wb = None"
    | q where "\<not> (wb_closed wb \<or> wb_ctxDone wb)" "wb_ch wb = []" "\<not> wb_chClosed wb" "wb_dq wb = Some q"
    by (cases "wb_ch wb"; cases "wb_dq wb") auto
  then show ?thesis
  proof cases
    case 1
    then show ?thesis using acc run by (cases "wb_closed wb") (auto simp: drain_pass_def)
  next
    case 2
    then have "appendAndManageTimer ops cfg x (w, wb\<lparr>wb_ch := rest\<rparr>) = (w', wb')" "r = Again n"
      using run by (auto simp: drain_pass_def)
    then show ?thesis
      using append_account [of "wb\<lparr>wb_ch := rest\<rparr>" x w M cfg w' wb'] account_receive [OF acc 2(2)] by simp
  next
    case 3
    then show ?thesis using acc run by (auto simp: drain_pass_def split: option.splits if_splits)
  next
    case 4
    from acc 4 obtain ds where ds: "holds q ds" "mset ds + gone wb + mset (wk_batch w) = M"
      "wb_pendingCount wb = int (length ds) + int (length (wk_batch w))"
      by (auto simp: account_def dq_holds_def)
    show ?thesis
    proof (cases ds)
      case Nil
      have "account holds (flush ops cfg (wk_batch w) wb) {#} M (int (length (wk_batch w)) - int (length (wk_batch w)))"
        by (rule flush_account) (use acc in simp)
      then show ?thesis
        using run 4 acc size_law [OF ds(1)] Nil
        by (auto simp: drain_pass_def clear_batch_def stopFlushTimer_def split: if_splits)
    next
      case (Cons x xs)
      from dequeue_law ds(1) Cons obtain q' where q': "qDequeue ops q = ((Some x, None), q')" "holds q' xs"
        by blast
      let ?wb = "wb\<lparr>wb_dq := Some q', wb_overflowCount := wb_overflowCount wb - 1\<rparr>"
      have "account holds ?wb (add_mset x (mset (wk_batch w))) M (int (length (wk_batch w)) + 1)"
        using ds 4 Cons q'(2) by (auto simp: account_def dq_holds_def gone_def intro!: exI [of _ xs])
      moreover have "appendAndManageTimer ops cfg x (w, ?wb) = (w', wb')" "r = Again (n + 1)"
        using run 4 q'(1) size_law [OF ds(1)] Cons by (auto simp: drain_pass_def)
      ultimately show ?thesis using append_account by blast
    qed
  qed
qed

lemma worker_timeout_account:
  assumes "account holds wb (mset (wk_batch w)) M (int (length (wk_batch w)))"
    "worker_timeout ops cfg (w, wb) = (w', wb')"
  shows "account holds wb' (mset (wk_batch w')) M (int (length (wk_batch w')))"
proof -
  have "account holds (flush ops cfg (wk_batch w) wb) {#} M (int (length (wk_batch w)) - int (length (wk_batch w)))"
    by (rule flush_account) (use assms(1) in simp)
  then show ?thesis using assms by (auto simp: worker_timeout_def clear_batch_def Let_def split: if_splits)
qed

end

end
