(* ===== verification/Writebatcher_System.thy ===== *)
theory Writebatcher_System
  imports Writebatcher_Correct
begin

text \<open>
  The write batcher as a system: clients submitting, the worker, the database script, cancelling,
  closing and reconfiguring, in every order.  Each step is one critical section of a client or one
  pass of a worker's loop; the durable queue of \<^verbatim>\<open>internal/dque\<close> is the one the batcher opens.
\<close>

section \<open>Steps\<close>

datatype wb_pc = PcLoop int | PcSelect | PcExited

record ('a, 'q) wb_sys =
  s_wb :: "('a, 'q) batcher"
  s_w :: "'a worker"
  s_pc :: wb_pc
  s_accepted :: "'a list"  \<comment> \<open>ghost: what \<^verbatim>\<open>Submit\<close> accepted from clients, in order\<close>

inductive wb_step ::
  "('a, 'q) dqueQueue \<Rightarrow> 'a wb_config \<Rightarrow> ('a, 'q) wb_sys \<Rightarrow> ('a, 'q) wb_sys \<Rightarrow> bool"
  for ops cfg where
  submit: "Submit ops cfg x (s_wb s) = (e, wb') \<Longrightarrow>
     wb_step ops cfg s (s\<lparr>s_wb := wb',
       s_accepted := (if e = None then s_accepted s @ [x] else s_accepted s)\<rparr>)"
| skip_drain: "s_pc s = PcLoop n \<Longrightarrow> wb_dq (s_wb s) = None \<or> \<not> wb_dqueDrainEnabled (s_wb s) \<Longrightarrow>
     wb_step ops cfg s (s\<lparr>s_pc := PcSelect\<rparr>)"
| drain_again: "s_pc s = PcLoop n \<Longrightarrow> wb_dq (s_wb s) \<noteq> None \<Longrightarrow> wb_dqueDrainEnabled (s_wb s) \<Longrightarrow>
     drain_pass ops cfg n (s_w s, s_wb s) = (Again n', w', wb') \<Longrightarrow>
     wb_step ops cfg s (s\<lparr>s_wb := wb', s_w := w', s_pc := PcLoop n'\<rparr>)"
| drain_return: "s_pc s = PcLoop n \<Longrightarrow> wb_dq (s_wb s) \<noteq> None \<Longrightarrow> wb_dqueDrainEnabled (s_wb s) \<Longrightarrow>
     drain_pass ops cfg n (s_w s, s_wb s) = (Returned b, w', wb') \<Longrightarrow>
     wb_step ops cfg s (s\<lparr>s_wb := wb', s_w := w', s_pc := PcSelect\<rparr>)"
| drain_exit: "s_pc s = PcLoop n \<Longrightarrow> wb_dq (s_wb s) \<noteq> None \<Longrightarrow> wb_dqueDrainEnabled (s_wb s) \<Longrightarrow>
     drain_pass ops cfg n (s_w s, s_wb s) = (Exit, w1, wb1) \<Longrightarrow>
     flushChannelAndExit ops cfg fuel (w1, wb1) = Some (w', wb') \<Longrightarrow>
     wb_step ops cfg s (s\<lparr>s_wb := wb', s_w := new_worker, s_pc := PcExited\<rparr>)"
| receive: "s_pc s = PcSelect \<Longrightarrow> wb_ch (s_wb s) = x # rest \<Longrightarrow>
     appendAndManageTimer ops cfg x (s_w s, (s_wb s)\<lparr>wb_ch := rest\<rparr>) = (w', wb') \<Longrightarrow>
     wb_step ops cfg s (s\<lparr>s_wb := wb', s_w := w', s_pc := PcLoop 0\<rparr>)"
| receive_closed: "s_pc s = PcSelect \<Longrightarrow> wb_ch (s_wb s) = [] \<Longrightarrow> wb_chClosed (s_wb s) \<Longrightarrow>
     flushChannelAndExit ops cfg fuel (s_w s, s_wb s) = Some (w', wb') \<Longrightarrow>
     wb_step ops cfg s (s\<lparr>s_wb := wb', s_w := new_worker, s_pc := PcExited\<rparr>)"
| timeout: "s_pc s = PcSelect \<Longrightarrow> wk_timer (s_w s) \<Longrightarrow>
     worker_timeout ops cfg (s_w s, s_wb s) = (w', wb') \<Longrightarrow>
     wb_step ops cfg s (s\<lparr>s_wb := wb', s_w := w', s_pc := PcLoop 0\<rparr>)"
| maintenance: "s_pc s = PcSelect \<Longrightarrow>
     wb_step ops cfg s (s\<lparr>s_wb := worker_maintenance cfg (s_wb s), s_pc := PcLoop 0\<rparr>)"
| notified: "s_pc s = PcSelect \<Longrightarrow> wb_dqNotify (s_wb s) \<Longrightarrow>
     wb_step ops cfg s (s\<lparr>s_wb := (s_wb s)\<lparr>wb_dqNotify := False\<rparr>, s_pc := PcLoop 0\<rparr>)"
| cancelled: "s_pc s = PcSelect \<Longrightarrow> wb_ctxDone (s_wb s) \<Longrightarrow>
     flushChannelAndExit ops cfg fuel (s_w s, s_wb s) = Some (w', wb') \<Longrightarrow>
     wb_step ops cfg s (s\<lparr>s_wb := wb', s_w := new_worker, s_pc := PcExited\<rparr>)"
| cancel: "wb_step ops cfg s (s\<lparr>s_wb := (s_wb s)\<lparr>wb_ctxDone := True\<rparr>\<rparr>)"
| close: "wb_step ops cfg s (s\<lparr>s_wb := Close_begin (s_wb s)\<rparr>)"
| start_drain: "wb_step ops cfg s (s\<lparr>s_wb := StartDQueDrain (s_wb s)\<rparr>)"
| set_quota: "wb_step ops cfg s (s\<lparr>s_wb := SetMaxDiskBytes m (s_wb s)\<rparr>)"

definition wb_init ::
  "('a, 'q) dqueQueue \<Rightarrow> 'a wb_config \<Rightarrow> 'q option \<Rightarrow> tx_outcome list \<Rightarrow> bool list \<Rightarrow> ('a, 'q) wb_sys" where
  "wb_init ops cfg dq outcomes choices =
     \<lparr>s_wb = New_batcher ops cfg dq outcomes choices, s_w = new_worker, s_pc = PcLoop 0, s_accepted = []\<rparr>"

abbreviation wb_reachable where
  "wb_reachable ops cfg s0 s \<equiv> (wb_step ops cfg)\<^sup>*\<^sup>* s0 s"

section \<open>The account of the whole system\<close>

definition sys_account ::
  "('q \<Rightarrow> 'a list \<Rightarrow> bool) \<Rightarrow> 'a list \<Rightarrow> ('a, 'q) wb_sys \<Rightarrow> bool" where
  "sys_account holds ds0 s \<longleftrightarrow> account holds (s_wb s) (mset (wk_batch (s_w s)))
     (mset ds0 + mset (s_accepted s)) (int (length (wk_batch (s_w s))))"

lemma account_grow:
  assumes "account holds wb b M k" shows "account holds wb (add_mset x b) (add_mset x M) k"
  using assms by (auto simp: account_def)

context durable_queue
begin

lemma init_account:
  assumes "case dq of None \<Rightarrow> ds = [] | Some q \<Rightarrow> holds q ds"
  shows "sys_account holds ds (wb_init ops cfg dq outcomes choices)"
  using assms
  by (auto simp: sys_account_def account_def wb_init_def New_batcher_def dq_holds_def gone_def
      new_worker_def size_law split: option.splits)

lemma step_account:
  assumes "wb_step ops cfg s s'" "sys_account holds ds s"
  shows "sys_account holds ds s'"
  using assms
proof (induction rule: wb_step.induct)
  case (submit x s e wb')
  have "account holds (s_wb s) (add_mset x (mset (wk_batch (s_w s))))
      (add_mset x (mset ds + mset (s_accepted s))) (int (length (wk_batch (s_w s))))"
    using submit(2) unfolding sys_account_def by (rule account_grow)
  from Submit_account [OF this submit(1)] show ?case
    by (cases e) (auto simp: sys_account_def account_def)
next
  case (skip_drain s n)
  then show ?case by (simp add: sys_account_def)
next
  case (drain_again s n n' w' wb')
  from drain_pass_account [OF drain_again(5) [unfolded sys_account_def] drain_again(4)]
  show ?case by (simp add: sys_account_def)
next
  case (drain_return s n b w' wb')
  from drain_pass_account [OF drain_return(5) [unfolded sys_account_def] drain_return(4)]
  show ?case by (simp add: sys_account_def)
next
  case (drain_exit s n w1 wb1 fuel w' wb')
  have "account holds wb1 (mset (wk_batch w1)) (mset ds + mset (s_accepted s)) (int (length (wk_batch w1)))"
    using drain_pass_account [OF drain_exit(6) [unfolded sys_account_def] drain_exit(4)] by simp
  from flushChannelAndExit_account [OF this drain_exit(5)] show ?case
    by (simp add: sys_account_def new_worker_def)
next
  case (receive s x rest w' wb')
  have "account holds ((s_wb s)\<lparr>wb_ch := rest\<rparr>) (add_mset x (mset (wk_batch (s_w s))))
      (mset ds + mset (s_accepted s)) (int (length (wk_batch (s_w s))) + 1)"
    using receive(4) unfolding sys_account_def by (rule account_receive [OF _ receive(2)])
  from append_account [OF this receive(3)] show ?case by (simp add: sys_account_def)
next
  case (receive_closed s fuel w' wb')
  from flushChannelAndExit_account [OF receive_closed(5) [unfolded sys_account_def] receive_closed(4)]
  show ?case by (simp add: sys_account_def new_worker_def)
next
  case (timeout s w' wb')
  from worker_timeout_account [OF timeout(4) [unfolded sys_account_def] timeout(3)]
  show ?case by (simp add: sys_account_def)
next
  case (maintenance s)
  then show ?case
    by (auto simp: sys_account_def worker_maintenance_def intro: account_event)
next
  case (notified s)
  then show ?case by (auto simp: sys_account_def elim!: account_cong)
next
  case (cancelled s fuel w' wb')
  from flushChannelAndExit_account [OF cancelled(4) [unfolded sys_account_def] cancelled(3)]
  show ?case by (simp add: sys_account_def new_worker_def)
next
  case (cancel s)
  then show ?case by (auto simp: sys_account_def elim!: account_cong)
next
  case (close s)
  then show ?case by (auto simp: sys_account_def Close_begin_def elim!: account_cong)
next
  case (start_drain s)
  then show ?case by (auto simp: sys_account_def StartDQueDrain_def elim!: account_cong)
next
  case (set_quota s m)
  then show ?case by (auto simp: sys_account_def SetMaxDiskBytes_def elim!: account_cong)
qed

lemma reachable_account:
  assumes "wb_reachable ops cfg (wb_init ops cfg dq outcomes choices) s"
    "case dq of None \<Rightarrow> ds = [] | Some q \<Rightarrow> holds q ds"
  shows "sys_account holds ds s"
  using assms(1)
  by (induction rule: rtranclp_induct) (auto intro: init_account [OF assms(2)] step_account)

end

section \<open>Batch sizes\<close>

text \<open>No law of the queue is needed: every batch a callback sees has between one and
  \<^verbatim>\<open>MaxBatchSize\<close> items, and the channel stays within its capacity.\<close>

fun event_batch :: "'a wb_event \<Rightarrow> 'a list option" where
  "event_batch (EvSuccess b) = Some b"
| "event_batch (EvDropped b) = Some b"
| "event_batch (EvError b) = Some b"
| "event_batch _ = None"

definition sized :: "'a wb_config \<Rightarrow> ('a, 'q) batcher \<Rightarrow> bool" where
  "sized cfg wb \<longleftrightarrow> go_len (wb_ch wb) \<le> cfg_ChannelSize cfg \<and>
     (\<forall>e\<in>set (wb_log wb). \<forall>b. event_batch e = Some b \<longrightarrow> 1 \<le> go_len b \<and> go_len b \<le> cfg_MaxBatchSize cfg)"

lemma sized_cong:
  "sized cfg wb \<Longrightarrow> go_len (wb_ch wb') \<le> go_len (wb_ch wb) \<Longrightarrow> wb_log wb' = wb_log wb \<Longrightarrow> sized cfg wb'"
  by (simp add: sized_def)

lemma sized_simps [simp]:
  "sized cfg (wb\<lparr>wb_pendingCount := p\<rparr>) = sized cfg wb" "sized cfg (wb\<lparr>wb_dq := q\<rparr>) = sized cfg wb"
  "sized cfg (wb\<lparr>wb_overflowCount := p\<rparr>) = sized cfg wb"
  by (simp_all add: sized_def)

lemma sized_event:
  "sized cfg wb \<Longrightarrow> (\<And>b. event_batch e = Some b \<Longrightarrow> 1 \<le> go_len b \<and> go_len b \<le> cfg_MaxBatchSize cfg) \<Longrightarrow>
   sized cfg (log_event e wb)"
  by (auto simp: sized_def log_event_def)

lemma Submit_sized:
  assumes "sized cfg wb" "Submit ops cfg x wb = (e, wb')" shows "sized cfg wb'"
  using assms
  by (auto simp: Submit_def submit_select_def next_choice_def Submit_overflow_def sized_def go_len_def
      split: if_splits option.splits list.splits bool.splits prod.splits)

lemma reEnqueueBatch_sized: "sized cfg wb \<Longrightarrow> sized cfg (reEnqueueBatch ops cfg batch wb)"
proof (induction batch arbitrary: wb)
  case (Cons x batch)
  obtain e wb' where sub: "Submit ops cfg x wb = (e, wb')" by fastforce
  note s = Submit_sized [OF Cons.prems sub]
  then show ?case using Cons.IH [OF s] by (cases e) (auto simp: sub intro: sized_event)
qed simp

lemma flush_sized:
  assumes "sized cfg wb" "go_len batch \<le> cfg_MaxBatchSize cfg"
  shows "sized cfg (flush ops cfg batch wb)"
proof (cases "batch = []")
  case True
  then show ?thesis using assms by (simp add: flush_def)
next
  case False
  then have one: "1 \<le> go_len batch" by (cases batch) (auto simp: go_len_def)
  obtain c wb1 where out: "next_outcome wb = (c, wb1)" by fastforce
  have s1: "sized cfg wb1"
    using assms(1) out by (auto simp: next_outcome_def split: list.splits elim!: sized_cong)
  have "sized cfg (flush_failed ops cfg batch wb1)"
    unfolding flush_failed_def
    by (intro reEnqueueBatch_sized sized_event) (use assms(2) one s1 in \<open>auto elim!: sized_cong\<close>)
  moreover have "sized cfg (flush_committed cfg batch wb1)"
    unfolding flush_committed_def Let_def
    by (auto intro!: sized_event) (use assms(2) one s1 in \<open>auto elim!: sized_cong\<close>)
  moreover have "sized cfg (log_event (EvDropped batch) (wb\<lparr>wb_totalFlushed := wb_totalFlushed wb + go_len batch\<rparr>))"
    by (intro sized_event) (use assms one in \<open>auto elim!: sized_cong\<close>)
  ultimately show ?thesis using False by (cases c) (simp_all add: flush_def Let_def out)
qed

text \<open>The batch a worker holds between two steps is not full.\<close>

definition roomy :: "'a wb_config \<Rightarrow> 'a worker \<Rightarrow> bool" where
  "roomy cfg w \<longleftrightarrow> wk_batch w = [] \<or> \<not> batch_full cfg w"

lemma roomy_len: "roomy cfg w \<Longrightarrow> 1 \<le> cfg_MaxBatchSize cfg \<Longrightarrow> go_len (wk_batch w) < cfg_MaxBatchSize cfg"
  by (auto simp: roomy_def batch_full_def go_len_def)

lemma add_item_len: "go_len (wk_batch (add_item cfg x w)) = go_len (wk_batch w) + 1"
  by (simp add: add_item_def go_len_def)

lemma append_sized:
  assumes "sized cfg wb" "roomy cfg w" "1 \<le> cfg_MaxBatchSize cfg"
    "appendAndManageTimer ops cfg x (w, wb) = (w', wb')"
  shows "sized cfg wb' \<and> roomy cfg w'"
proof (cases "batch_full cfg (add_item cfg x w)")
  case True
  have "sized cfg (flush ops cfg (wk_batch (add_item cfg x w)) wb)"
    using roomy_len [OF assms(2,3)] by (intro flush_sized assms(1)) (simp add: add_item_len)
  then show ?thesis
    using True assms(4)
    by (auto simp: appendAndManageTimer_def clear_batch_def stopFlushTimer_def roomy_def Let_def)
next
  case False
  then have "roomy cfg w'"
    using assms(4) by (auto simp: appendAndManageTimer_def roomy_def batch_full_def Let_def split: if_splits)
  then show ?thesis using False assms(1,4) by (auto simp: appendAndManageTimer_def Let_def split: if_splits)
qed

lemma sized_receive: "sized cfg wb \<Longrightarrow> wb_ch wb = x # rest \<Longrightarrow> sized cfg (wb\<lparr>wb_ch := rest\<rparr>)"
  by (auto simp: sized_def)

lemma drainChannel_sized:
  assumes "sized cfg wb" "roomy cfg w" "1 \<le> cfg_MaxBatchSize cfg"
    "drainChannel ops cfg fuel (w, wb) = Some (w', wb')"
  shows "sized cfg wb' \<and> roomy cfg w'"
  using assms
proof (induction fuel arbitrary: w wb)
  case (Suc fuel)
  show ?case
  proof (cases "wb_ch wb")
    case Nil
    then show ?thesis using Suc.prems by simp
  next
    case (Cons x rest)
    let ?w1 = "add_item cfg x w" and ?wb1 = "wb\<lparr>wb_ch := rest\<rparr>"
    have s1: "sized cfg ?wb1" using Suc.prems(1) Cons by (rule sized_receive)
    show ?thesis
    proof (cases "batch_full cfg ?w1")
      case True
      have "sized cfg (flush ops cfg (wk_batch ?w1) ?wb1)"
        using roomy_len [OF Suc.prems(2,3)] by (intro flush_sized s1) (simp add: add_item_len)
      then show ?thesis
        using Suc.IH [of "flush ops cfg (wk_batch ?w1) ?wb1" "clear_batch ?w1"] Suc.prems(3,4) Cons True
        by (simp add: clear_batch_def roomy_def Let_def)
    next
      case False
      then have "roomy cfg ?w1" by (simp add: roomy_def)
      then show ?thesis using Suc.IH [OF s1] Suc.prems(3,4) Cons False by (simp add: Let_def)
    qed
  qed
qed simp

lemma flushChannelAndExit_sized:
  assumes "sized cfg wb" "roomy cfg w" "1 \<le> cfg_MaxBatchSize cfg"
    "flushChannelAndExit ops cfg fuel (w, wb) = Some (w', wb')"
  shows "sized cfg wb'"
proof -
  obtain w1 wb1 where run: "drainChannel ops cfg fuel (stopFlushTimer w, wb) = Some (w1, wb1)"
    and wb': "wb' = flush ops cfg (wk_batch w1) wb1"
    using assms(4) by (auto simp: flushChannelAndExit_def split: option.splits)
  have "roomy cfg (stopFlushTimer w)"
    using assms(2) by (simp add: roomy_def batch_full_def stopFlushTimer_def)
  from drainChannel_sized [OF assms(1) this assms(3) run] roomy_len [OF _ assms(3), of w1]
  show ?thesis unfolding wb' by (intro flush_sized) simp_all
qed

lemma drain_pass_sized:
  assumes "sized cfg wb" "roomy cfg w" "1 \<le> cfg_MaxBatchSize cfg"
    "drain_pass ops cfg n (w, wb) = (r, w', wb')"
  shows "sized cfg wb' \<and> roomy cfg w'"
proof -
  have f: "sized cfg (flush ops cfg (wk_batch w) wb)"
    using roomy_len [OF assms(2,3)] by (intro flush_sized assms(1)) simp
  have r0: "roomy cfg (stopFlushTimer (clear_batch w))"
    by (simp add: roomy_def clear_batch_def stopFlushTimer_def)
  consider "wb_closed wb \<or> wb_ctxDone wb" | x rest where "\<not> (wb_closed wb \<or> wb_ctxDone wb)" "wb_ch wb = x # rest"
    | "\<not> (wb_closed wb \<or> wb_ctxDone wb)" "wb_ch wb = []" "wb_chClosed wb \<or> wb_dq wb = None"
    | q where "\<not> (wb_closed wb \<or> wb_ctxDone wb)" "wb_ch wb = []" "\<not> wb_chClosed wb" "wb_dq wb = Some q"
    by (cases "wb_ch wb"; cases "wb_dq wb") auto
  then show ?thesis
  proof cases
    case 1
    then show ?thesis using assms by (cases "wb_closed wb") (auto simp: drain_pass_def)
  next
    case 2
    then have "appendAndManageTimer ops cfg x (w, wb\<lparr>wb_ch := rest\<rparr>) = (w', wb')"
      using assms(4) by (auto simp: drain_pass_def)
    then show ?thesis by (rule append_sized [OF sized_receive [OF assms(1) 2(2)] assms(2,3)])
  next
    case 3
    then show ?thesis using assms by (auto simp: drain_pass_def split: option.splits if_splits)
  next
    case 4
    have a: "sized cfg wb2 \<and> roomy cfg w2"
      if "appendAndManageTimer ops cfg x (w, wb\<lparr>wb_dq := q', wb_overflowCount := m\<rparr>) = (w2, wb2)" for x q' m w2 wb2
      by (rule append_sized [OF _ assms(2,3) that]) (simp add: assms(1))
    show ?thesis
    proof (cases "qSize ops q > 0")
      case False
      then show ?thesis using 4 assms f r0 by (auto simp: drain_pass_def split: if_splits)
    next
      case True
      obtain ob er q' where deq: "qDequeue ops q = ((ob, er), q')" by (metis prod.collapse)
      show ?thesis
        using 4 True assms(1,2,4) deq a
        by (cases ob; cases er) (auto simp: drain_pass_def split: if_splits)
    qed
  qed
qed

definition sys_sized :: "'a wb_config \<Rightarrow> ('a, 'q) wb_sys \<Rightarrow> bool" where
  "sys_sized cfg s \<longleftrightarrow> sized cfg (s_wb s) \<and> roomy cfg (s_w s)"

lemma step_sized:
  assumes "wb_step ops cfg s s'" "sys_sized cfg s" "1 \<le> cfg_MaxBatchSize cfg"
  shows "sys_sized cfg s'"
  using assms
proof (induction rule: wb_step.induct)
  case (submit x s e wb')
  then show ?case by (auto simp: sys_sized_def intro: Submit_sized)
next
  case (drain_again s n n' w' wb')
  then show ?case using drain_pass_sized [OF _ _ drain_again(6,4)] by (simp add: sys_sized_def)
next
  case (drain_return s n b w' wb')
  then show ?case using drain_pass_sized [OF _ _ drain_return(6,4)] by (simp add: sys_sized_def)
next
  case (drain_exit s n w1 wb1 fuel w' wb')
  then have "sized cfg wb1 \<and> roomy cfg w1"
    using drain_pass_sized [OF _ _ drain_exit(7,4)] by (simp add: sys_sized_def)
  then show ?case
    using flushChannelAndExit_sized [OF _ _ drain_exit(7,5)]
    by (simp add: sys_sized_def roomy_def new_worker_def)
next
  case (receive s x rest w' wb')
  then show ?case using append_sized [OF sized_receive _ receive(5,3)] by (simp add: sys_sized_def)
next
  case (receive_closed s fuel w' wb')
  then show ?case
    using flushChannelAndExit_sized [OF _ _ receive_closed(6,4)]
    by (simp add: sys_sized_def roomy_def new_worker_def)
next
  case (timeout s w' wb')
  have "sized cfg (flush ops cfg (wk_batch (s_w s)) (s_wb s))"
    using timeout roomy_len [of cfg "s_w s"] by (intro flush_sized) (auto simp: sys_sized_def)
  then show ?case
    using timeout(3,4) by (auto simp: sys_sized_def worker_timeout_def clear_batch_def roomy_def Let_def
        batch_full_def split: if_splits)
next
  case (maintenance s)
  then show ?case by (auto simp: sys_sized_def worker_maintenance_def intro: sized_event)
next
  case (cancelled s fuel w' wb')
  then show ?case
    using flushChannelAndExit_sized [OF _ _ cancelled(5,3)]
    by (simp add: sys_sized_def roomy_def new_worker_def)
next
  case (close s)
  then show ?case by (auto simp: sys_sized_def Close_begin_def elim!: sized_cong)
next
  case (start_drain s)
  then show ?case by (auto simp: sys_sized_def StartDQueDrain_def elim!: sized_cong)
qed (auto simp: sys_sized_def SetMaxDiskBytes_def elim!: sized_cong)

end
