(* ===== verification/Writebatcher_DQue.thy ===== *)
theory Writebatcher_DQue
  imports Writebatcher_System
begin

text \<open>
  The drain loops end, recovery delivers everything in order, a failed batch is kept; and the
  instance: the batcher on the durable queue of \<^verbatim>\<open>internal/dque\<close>.
\<close>

section \<open>What a flush leaves alone\<close>

definition same_frame :: "('a, 'q) batcher \<Rightarrow> ('a, 'q) batcher \<Rightarrow> bool" where
  "same_frame wb wb' \<longleftrightarrow> wb_closed wb' = wb_closed wb \<and> wb_ctxDone wb' = wb_ctxDone wb \<and>
     wb_chClosed wb' = wb_chClosed wb \<and> wb_dqueDrainEnabled wb' = wb_dqueDrainEnabled wb \<and>
     wb_maxDiskBytes wb' = wb_maxDiskBytes wb \<and> (wb_dq wb' = None \<longleftrightarrow> wb_dq wb = None)"

lemma same_frame_refl [simp]: "same_frame wb wb"
  by (simp add: same_frame_def)

lemma same_frame_trans: "same_frame a b \<Longrightarrow> same_frame b c \<Longrightarrow> same_frame a c"
  by (auto simp: same_frame_def)

lemma Submit_frame:
  assumes "Submit ops cfg x wb = (e, wb')"
  shows "same_frame wb wb' \<and> wb_outcomes wb' = wb_outcomes wb \<and> wb_log wb' = wb_log wb"
  using assms
  by (auto simp: Submit_def submit_select_def next_choice_def Submit_overflow_def same_frame_def
      split: if_splits option.splits list.splits bool.splits prod.splits)

lemma reEnqueueBatch_frame:
  "same_frame wb (reEnqueueBatch ops cfg batch wb) \<and>
   wb_outcomes (reEnqueueBatch ops cfg batch wb) = wb_outcomes wb"
proof (induction batch arbitrary: wb)
  case (Cons x batch)
  obtain e wb' where sub: "Submit ops cfg x wb = (e, wb')" by fastforce
  from Submit_frame [OF sub] Cons.IH [of wb'] show ?case
    by (cases e) (auto simp: sub log_event_def same_frame_def)
qed simp

lemma flush_frame: "same_frame wb (flush ops cfg batch wb)"
proof -
  obtain c wb1 where out: "next_outcome wb = (c, wb1)" by fastforce
  then have "same_frame wb wb1" by (auto simp: next_outcome_def same_frame_def split: list.splits)
  moreover have "same_frame wb1 (flush_failed ops cfg batch wb1)"
    using reEnqueueBatch_frame
      [of "log_event (EvError batch) (wb1\<lparr>wb_totalErrors := wb_totalErrors wb1 + 1\<rparr>)" ops cfg batch]
    by (simp add: flush_failed_def same_frame_def log_event_def)
  moreover have "same_frame wb1 (flush_committed cfg batch wb1)"
    by (simp add: flush_committed_def same_frame_def log_event_def Let_def)
  ultimately show ?thesis
    by (cases c) (auto simp: flush_def out Let_def same_frame_def log_event_def)
qed

lemma flush_script:
  "length (wb_outcomes (flush ops cfg batch wb)) < length (wb_outcomes wb) \<or>
   (wb_outcomes (flush ops cfg batch wb) = wb_outcomes wb \<and>
    wb_ch (flush ops cfg batch wb) = wb_ch wb \<and> wb_dq (flush ops cfg batch wb) = wb_dq wb)"
proof (cases "wb_outcomes wb")
  case Nil
  then show ?thesis
    by (auto simp: flush_def next_outcome_def flush_committed_def Let_def log_event_def)
next
  case (Cons c cs)
  have "wb_outcomes (flush_failed ops cfg batch (wb\<lparr>wb_outcomes := cs\<rparr>)) = cs"
    using reEnqueueBatch_frame [of "log_event (EvError batch) (wb\<lparr>wb_outcomes := cs,
        wb_totalErrors := wb_totalErrors wb + 1\<rparr>)" ops cfg batch]
    by (simp add: flush_failed_def log_event_def)
  then show ?thesis
    using Cons by (cases c)
      (auto simp: flush_def next_outcome_def flush_committed_def Let_def log_event_def)
qed

text \<open>With a database that commits, a flush hands its batch over, in order.\<close>

definition delivered :: "('a, 'q) batcher \<Rightarrow> 'a list" where
  "delivered wb = concat (map event_items (wb_log wb))"

lemma flush_commits:
  assumes "wb_outcomes wb = []"
  shows "wb_outcomes (flush ops cfg batch wb) = []" "wb_ch (flush ops cfg batch wb) = wb_ch wb"
    "wb_dq (flush ops cfg batch wb) = wb_dq wb"
    "delivered (flush ops cfg batch wb) = delivered wb @ batch"
    "wb_overflowCount (flush ops cfg batch wb) = wb_overflowCount wb"
  using assms
  by (auto simp: flush_def next_outcome_def flush_committed_def Let_def log_event_def delivered_def)

section \<open>The drain loops end\<close>

lemma drainChannel_terminates: "\<exists>fuel r. drainChannel ops cfg fuel (w, wb) = Some r"
proof (induction "(length (wb_outcomes wb), length (wb_ch wb))" arbitrary: w wb
    rule: wf_induct_rule [OF wf_lex_prod [OF wf_less_than wf_less_than]])
  case 1
  show ?case
  proof (cases "wb_ch wb")
    case Nil
    then have "drainChannel ops cfg (Suc 0) (w, wb) = Some (w, wb)" by simp
    then show ?thesis by blast
  next
    case (Cons x rest)
    let ?w1 = "add_item cfg x w" and ?wb1 = "wb\<lparr>wb_ch := rest\<rparr>"
    let ?st = "if batch_full cfg ?w1 then (clear_batch ?w1, flush ops cfg (wk_batch ?w1) ?wb1) else (?w1, ?wb1)"
    have "((length (wb_outcomes (snd ?st)), length (wb_ch (snd ?st))),
        (length (wb_outcomes wb), length (wb_ch wb))) \<in> less_than <*lex*> less_than"
      using flush_script [of ops cfg "wk_batch ?w1" ?wb1] Cons by auto
    then obtain fuel r where "drainChannel ops cfg fuel (fst ?st, snd ?st) = Some r"
      using 1 [of "snd ?st" "fst ?st"] by blast
    then have "drainChannel ops cfg (Suc fuel) (w, wb) = Some r"
      using Cons by (simp add: Let_def split: if_splits)
    then show ?thesis by blast
  qed
qed

lemma flushChannelAndExit_terminates: "\<exists>fuel r. flushChannelAndExit ops cfg fuel (w, wb) = Some r"
proof -
  obtain fuel w1 wb1 where "drainChannel ops cfg fuel (stopFlushTimer w, wb) = Some (w1, wb1)"
    using drainChannel_terminates [of ops cfg "stopFlushTimer w" wb] by auto
  then have "flushChannelAndExit ops cfg fuel (w, wb) = Some (w1, flush ops cfg (wk_batch w1) wb1)"
    by (simp add: flushChannelAndExit_def)
  then show ?thesis by blast
qed

lemma dq_holds_account:
  "dq_holds holds wb ds \<Longrightarrow> account holds wb b (mset (wb_ch wb) + mset ds + gone wb + b)
     (wb_pendingCount wb - int (length (wb_ch wb)) - int (length ds))"
  by (auto simp: account_def)

context durable_queue
begin

lemma flush_dq_holds: "dq_holds holds wb ds \<Longrightarrow> \<exists>ds'. dq_holds holds (flush ops cfg batch wb) ds'"
  using flush_account [OF dq_holds_account [of holds wb ds "mset batch + {#}"]] by (auto simp: account_def)

lemma append_progress:
  assumes "dq_holds holds wb ds" "appendAndManageTimer ops cfg x (w, wb) = (w', wb')"
  shows "\<exists>ds'. dq_holds holds wb' ds' \<and>
    (length (wb_outcomes wb') < length (wb_outcomes wb) \<or>
     wb_outcomes wb' = wb_outcomes wb \<and> wb_ch wb' = wb_ch wb \<and> ds' = ds)"
proof (cases "batch_full cfg (add_item cfg x w)")
  case False
  then show ?thesis using assms by (auto simp: appendAndManageTimer_def Let_def split: if_splits)
next
  case True
  then have wb': "wb' = flush ops cfg (wk_batch (add_item cfg x w)) wb"
    using assms(2) by (auto simp: appendAndManageTimer_def Let_def)
  from flush_script [of ops cfg "wk_batch (add_item cfg x w)" wb, folded wb'] show ?thesis
  proof
    assume "length (wb_outcomes wb') < length (wb_outcomes wb)"
    then show ?thesis using flush_dq_holds [OF assms(1)] wb' by blast
  next
    assume "wb_outcomes wb' = wb_outcomes wb \<and> wb_ch wb' = wb_ch wb \<and> wb_dq wb' = wb_dq wb"
    then show ?thesis using assms(1) by (auto simp: dq_holds_def)
  qed
qed

lemma drain_pass_progress:
  assumes holds: "dq_holds holds wb ds" and run: "drain_pass ops cfg n (w, wb) = (Again n', w', wb')"
  shows "\<exists>ds'. dq_holds holds wb' ds' \<and>
    (length (wb_outcomes wb') < length (wb_outcomes wb) \<or>
     wb_outcomes wb' = wb_outcomes wb \<and> length (wb_ch wb') + length ds' < length (wb_ch wb) + length ds)"
proof -
  have go: "\<not> wb_closed wb" "\<not> wb_ctxDone wb" using run by (auto simp: drain_pass_def split: if_splits)
  show ?thesis
  proof (cases "wb_ch wb")
    case (Cons x rest)
    have "appendAndManageTimer ops cfg x (w, wb\<lparr>wb_ch := rest\<rparr>) = (w', wb')"
      using run go Cons by (auto simp: drain_pass_def)
    from append_progress [OF _ this, of ds] holds Cons show ?thesis by (auto simp: dq_holds_def)
  next
    case Nil
    with run go obtain q where q: "wb_dq wb = Some q" "qSize ops q > 0" "\<not> wb_chClosed wb"
      by (auto simp: drain_pass_def split: if_splits option.splits)
    with holds have ds: "holds q ds" by (simp add: dq_holds_def)
    with q(2) size_law obtain x xs where xs: "ds = x # xs" by (cases ds) fastforce+
    from dequeue_law ds xs obtain q' where q': "qDequeue ops q = ((Some x, None), q')" "holds q' xs" by blast
    let ?wb = "wb\<lparr>wb_dq := Some q', wb_overflowCount := wb_overflowCount wb - 1\<rparr>"
    have "appendAndManageTimer ops cfg x (w, ?wb) = (w', wb')"
      using run go Nil q q'(1) by (auto simp: drain_pass_def)
    from append_progress [OF _ this, of xs] q'(2) show ?thesis
      by (auto simp: dq_holds_def xs Nil)
  qed
qed

lemma drain_pass_no_panic:
  assumes "dq_holds holds wb ds" "drain_pass ops cfg n (w, wb) = (r, w', wb')"
  shows "r \<noteq> PanicNilItem"
proof
  assume "r = PanicNilItem"
  with assms(2) obtain q where q: "wb_dq wb = Some q" "qSize ops q > 0" "fst (qDequeue ops q) = (None, None)"
    by (auto simp: drain_pass_def appendAndManageTimer_def split: if_splits option.splits list.splits prod.splits)
  with assms(1) size_law obtain x xs where "holds q (x # xs)"
    by (metis dq_holds_def length_0_conv neq_Nil_conv of_nat_eq_0_iff option.simps(5) order_less_irrefl)
  with dequeue_law q(3) show False by (metis fst_conv option.distinct(1) prod.inject)
qed

lemma drainDQueAll_terminates:
  assumes "dq_holds holds wb ds"
  shows "\<exists>fuel r. drainDQueAll ops cfg fuel n (w, wb) = Some r"
  using assms
proof (induction "(length (wb_outcomes wb), length (wb_ch wb) + length ds)" arbitrary: n w wb ds
    rule: wf_induct_rule [OF wf_lex_prod [OF wf_less_than wf_less_than]])
  case 1
  obtain r w' wb' where run: "drain_pass ops cfg n (w, wb) = (r, w', wb')" by (metis prod_cases3)
  show ?case
  proof (cases r)
    case (Again n')
    from drain_pass_progress [OF 1(2) run [unfolded Again]] obtain ds' where
      "dq_holds holds wb' ds'"
      "((length (wb_outcomes wb'), length (wb_ch wb') + length ds'),
        (length (wb_outcomes wb), length (wb_ch wb) + length ds)) \<in> less_than <*lex*> less_than"
      by auto
    with 1(1) obtain fuel x where "drainDQueAll ops cfg fuel n' (w', wb') = Some x" by blast
    then have "drainDQueAll ops cfg (Suc fuel) n (w, wb) = Some x" using run Again by simp
    then show ?thesis by blast
  next
    case (Returned b)
    then have "drainDQueAll ops cfg (Suc 0) n (w, wb) = Some (b, w', wb')" using run by simp
    then show ?thesis by blast
  next
    case Exit
    obtain fuel x where "flushChannelAndExit ops cfg fuel (w', wb') = Some x"
      using flushChannelAndExit_terminates by blast
    then have "drainDQueAll ops cfg (Suc fuel) n (w, wb) = Some (True, x)" using run Exit by simp
    then show ?thesis by blast
  next
    case PanicNilItem
    then show ?thesis using drain_pass_no_panic [OF 1(2) run] by simp
  qed
qed

text \<open>Recovery with a database that commits: everything stored is delivered in order.\<close>

lemma append_commits:
  assumes "wb_outcomes wb = []" "appendAndManageTimer ops cfg x (w, wb) = (w', wb')"
  shows "wb_outcomes wb' = [] \<and> wb_ch wb' = wb_ch wb \<and> wb_dq wb' = wb_dq wb \<and> same_frame wb wb' \<and>
    delivered wb' @ wk_batch w' = delivered wb @ wk_batch w @ [x] \<and>
    wb_overflowCount wb' = wb_overflowCount wb"
  using assms flush_commits [OF assms(1), of ops cfg "wk_batch (add_item cfg x w)"]
    flush_frame [of wb ops cfg "wk_batch (add_item cfg x w)"]
  by (auto simp: appendAndManageTimer_def add_item_def clear_batch_def stopFlushTimer_def Let_def
      split: if_splits)

lemma drain_in_order:
  assumes "dq_holds holds wb ds" "wb_dq wb \<noteq> None" "wb_outcomes wb = []" "wb_ch wb = []"
    "\<not> wb_closed wb" "\<not> wb_ctxDone wb" "\<not> wb_chClosed wb" "0 \<le> n" "wk_batch w \<noteq> [] \<longrightarrow> 0 < n"
  shows "\<exists>fuel w' wb'. drainDQueAll ops cfg fuel n (w, wb) = Some (False, w', wb') \<and>
    wk_batch w' = [] \<and> wb_ch wb' = [] \<and> dq_holds holds wb' [] \<and>
    delivered wb' = delivered wb @ wk_batch w @ ds \<and>
    wb_overflowCount wb' = wb_overflowCount wb - int (length ds)"
  using assms
proof (induction ds arbitrary: n w wb)
  case Nil
  then obtain q where q: "wb_dq wb = Some q" "qSize ops q = 0"
    using size_law by (fastforce simp: dq_holds_def)
  let ?r = "if wk_batch w = [] then (False, w, wb)
     else (False, stopFlushTimer (clear_batch w), flush ops cfg (wk_batch w) wb)"
  have run: "drainDQueAll ops cfg (Suc 0) n (w, wb) = Some ?r"
    using Nil q by (auto simp: drain_pass_def)
  have "wk_batch (fst (snd ?r)) = [] \<and> wb_ch (snd (snd ?r)) = [] \<and> dq_holds holds (snd (snd ?r)) [] \<and>
    delivered (snd (snd ?r)) = delivered wb @ wk_batch w \<and>
    wb_overflowCount (snd (snd ?r)) = wb_overflowCount wb"
    using Nil flush_commits [OF Nil(3), of ops cfg "wk_batch w"]
    by (simp add: clear_batch_def stopFlushTimer_def dq_holds_def)
  then show ?case using run by (intro exI [of _ "Suc 0"] exI [of _ "fst (snd ?r)"] exI [of _ "snd (snd ?r)"]) auto
next
  case (Cons x xs)
  then obtain q where q: "wb_dq wb = Some q" "holds q (x # xs)" by (auto simp: dq_holds_def)
  then have size: "qSize ops q > 0" using size_law by fastforce
  from dequeue_law q(2) obtain q' where q': "qDequeue ops q = ((Some x, None), q')" "holds q' xs" by blast
  let ?wb = "wb\<lparr>wb_dq := Some q', wb_overflowCount := wb_overflowCount wb - 1\<rparr>"
  obtain w1 wb1 where app: "appendAndManageTimer ops cfg x (w, ?wb) = (w1, wb1)" by fastforce
  have run: "drain_pass ops cfg n (w, wb) = (Again (n + 1), w1, wb1)"
    using Cons.prems q(1) size q'(1) app by (simp add: drain_pass_def)
  note a = append_commits [OF _ app]
  have out: "wb_outcomes ?wb = []" using Cons.prems by simp
  have "\<exists>fuel w' wb'. drainDQueAll ops cfg fuel (n + 1) (w1, wb1) = Some (False, w', wb') \<and>
    wk_batch w' = [] \<and> wb_ch wb' = [] \<and> dq_holds holds wb' [] \<and>
    delivered wb' = delivered wb1 @ wk_batch w1 @ xs \<and>
    wb_overflowCount wb' = wb_overflowCount wb1 - int (length xs)"
    using Cons.prems a [OF out] q'(2)
    by (intro Cons.IH) (auto simp: dq_holds_def same_frame_def)
  then obtain fuel w' wb' where r: "drainDQueAll ops cfg fuel (n + 1) (w1, wb1) = Some (False, w', wb')"
    "wk_batch w' = []" "wb_ch wb' = []" "dq_holds holds wb' []"
    "delivered wb' = delivered wb1 @ wk_batch w1 @ xs"
    "wb_overflowCount wb' = wb_overflowCount wb1 - int (length xs)" by blast
  have "drainDQueAll ops cfg (Suc fuel) n (w, wb) = Some (False, w', wb')" using run r(1) by simp
  moreover have "delivered wb' = delivered wb @ wk_batch w @ x # xs"
    using r(5) a [OF out] by (metis append.assoc append_Cons append_Nil batcher.select_convs(16)
        batcher.surjective batcher.update_convs(9,10) delivered_def)
  moreover have "wb_overflowCount wb' = wb_overflowCount wb - int (length (x # xs))"
    using r(6) a [OF out] by simp
  ultimately show ?case using r(2-4) by blast
qed

end

section \<open>A queue that never refuses\<close>

locale reliable_queue = durable_queue +
  assumes enqueue_total: "holds q xs \<Longrightarrow> fst (qEnqueue ops x q) = None"
begin

lemma Submit_open:
  assumes "dq_holds holds wb ds" "wb_dq wb \<noteq> None" "\<not> wb_closed wb" "\<not> wb_ctxDone wb"
    "wb_maxDiskBytes wb \<le> 0"
  shows "fst (Submit ops cfg x wb) = None"
proof -
  from assms(1,2) obtain q where q: "wb_dq wb = Some q" "holds q ds" by (auto simp: dq_holds_def)
  obtain q' where "qEnqueue ops x q = (None, q')" using enqueue_total [OF q(2)] by (metis prod.collapse)
  then show ?thesis
    using assms q(1) by (simp add: Submit_def submit_select_def Submit_overflow_def)
qed

lemma reEnqueueBatch_open:
  assumes "account holds wb (mset batch + b) M k" "wb_dq wb \<noteq> None" "\<not> wb_closed wb" "\<not> wb_ctxDone wb"
    "wb_maxDiskBytes wb \<le> 0"
  shows "wb_log (reEnqueueBatch ops cfg batch wb) = wb_log wb"
  using assms
proof (induction batch arbitrary: wb)
  case (Cons x batch)
  obtain e wb' where sub: "Submit ops cfg x wb = (e, wb')" by fastforce
  from Cons.prems(1) obtain ds where "dq_holds holds wb ds" by (auto simp: account_def)
  from Submit_open [OF this Cons.prems(2-5), of cfg x] have e: "e = None" using sub by simp
  have "account holds wb (add_mset x (mset batch + b)) M k" using Cons.prems(1) by simp
  from Submit_account [OF this sub] have acc: "account holds wb' (mset batch + b) M k" by (simp add: e)
  from Submit_frame [OF sub] have f: "same_frame wb wb'" "wb_log wb' = wb_log wb" by simp_all
  have "wb_log (reEnqueueBatch ops cfg batch wb') = wb_log wb'"
    by (rule Cons.IH [OF acc]) (use f(1) Cons.prems in \<open>auto simp: same_frame_def\<close>)
  then show ?case by (simp add: sub e f(2))
qed simp

lemma failed_flush_keeps:
  assumes "dq_holds holds wb ds" "wb_dq wb \<noteq> None" "\<not> wb_closed wb" "\<not> wb_ctxDone wb"
    "wb_maxDiskBytes wb \<le> 0" "cfg_DropWithoutFlush cfg = None"
    "wb_outcomes wb = c # cs" "c \<in> {BeginFails, FlushFails, CommitFails}" "batch \<noteq> []"
  shows "\<exists>ds'. dq_holds holds (flush ops cfg batch wb) ds' \<and>
    mset (wb_ch (flush ops cfg batch wb)) + mset ds' = mset (wb_ch wb) + mset ds + mset batch \<and>
    wb_pendingCount (flush ops cfg batch wb) = wb_pendingCount wb \<and>
    wb_log (flush ops cfg batch wb) = wb_log wb @ [EvError batch]"
proof -
  let ?wb1 = "log_event (EvError batch) (wb\<lparr>wb_outcomes := cs, wb_totalErrors := wb_totalErrors wb + 1\<rparr>)"
  let ?wb2 = "reEnqueueBatch ops cfg batch ?wb1"
  have fl: "flush ops cfg batch wb = ?wb2\<lparr>wb_pendingCount := wb_pendingCount ?wb2 - go_len batch\<rparr>"
    using assms(6-9) by (auto simp: flush_def next_outcome_def flush_failed_def Let_def log_event_def)
  have h1: "dq_holds holds ?wb1 ds" using assms(1) by (simp add: dq_holds_def log_event_def)
  from dq_holds_account [OF this, of "mset batch"] obtain M k where
    acc: "account holds ?wb1 (mset batch + {#}) M k" and M: "M = mset (wb_ch wb) + mset ds + gone ?wb1 + mset batch"
    and k: "k = wb_pendingCount wb - int (length (wb_ch wb)) - int (length ds)"
    by (auto simp: log_event_def)
  have log: "wb_log ?wb2 = wb_log ?wb1"
    by (rule reEnqueueBatch_open [OF acc]) (use assms in \<open>simp_all add: log_event_def\<close>)
  from reEnqueueBatch_account [OF acc] obtain ds' where ds': "dq_holds holds ?wb2 ds'"
    "mset (wb_ch ?wb2) + mset ds' + gone ?wb2 = M"
    "wb_pendingCount ?wb2 = int (length (wb_ch ?wb2)) + int (length ds') + k"
    by (auto simp: account_def)
  have eq: "mset (wb_ch ?wb2) + mset ds' = mset (wb_ch wb) + mset ds + mset batch"
    using ds'(2) M gone_cong [OF log] by simp
  then have "length (wb_ch ?wb2) + length ds' = length (wb_ch wb) + length ds + length batch"
    by (metis size_mset size_union)
  then have "wb_pendingCount ?wb2 - go_len batch = wb_pendingCount wb"
    using ds'(3) k by (simp add: go_len_def)
  then show ?thesis
    using ds'(1) eq log by (intro exI [of _ ds']) (simp add: fl dq_holds_def log_event_def)
qed

end

section \<open>The queue is never dropped\<close>

lemma append_frame: "appendAndManageTimer ops cfg x (w, wb) = (w', wb') \<Longrightarrow> same_frame wb wb'"
  using flush_frame [of wb ops cfg] by (auto simp: appendAndManageTimer_def Let_def split: if_splits)

lemma drainChannel_frame:
  "drainChannel ops cfg fuel (w, wb) = Some (w', wb') \<Longrightarrow> same_frame wb wb'"
proof (induction fuel arbitrary: w wb)
  case (Suc fuel)
  show ?case
  proof (cases "wb_ch wb")
    case Nil
    then show ?thesis using Suc.prems by simp
  next
    case (Cons x rest)
    have "same_frame wb (wb\<lparr>wb_ch := rest\<rparr>)" by (simp add: same_frame_def)
    moreover have "same_frame (wb\<lparr>wb_ch := rest\<rparr>) wb'"
      using Suc.prems Cons Suc.IH same_frame_trans [OF flush_frame]
      by (fastforce simp: Let_def split: if_splits)
    ultimately show ?thesis by (rule same_frame_trans)
  qed
qed simp

lemma flushChannelAndExit_frame:
  "flushChannelAndExit ops cfg fuel (w, wb) = Some (w', wb') \<Longrightarrow> same_frame wb wb'"
  using drainChannel_frame same_frame_trans [OF _ flush_frame]
  by (fastforce simp: flushChannelAndExit_def split: option.splits)

lemma drain_pass_frame:
  assumes "drain_pass ops cfg n (w, wb) = (r, w', wb')" shows "same_frame wb wb'"
  using assms flush_frame [of wb ops cfg "wk_batch w"]
  by (auto simp: drain_pass_def same_frame_def split: if_splits list.splits option.splits prod.splits
      dest!: append_frame)

lemma wb_step_dq:
  assumes "wb_step ops cfg s s'" "wb_dq (s_wb s) \<noteq> None" shows "wb_dq (s_wb s') \<noteq> None"
  using assms
proof (induction rule: wb_step.induct)
  case (submit x s e wb')
  then show ?case using Submit_frame [OF submit(1)] by (simp add: same_frame_def)
next
  case (drain_again s n n' w' wb')
  then show ?case using drain_pass_frame [OF drain_again(4)] by (simp add: same_frame_def)
next
  case (drain_return s n b w' wb')
  then show ?case using drain_pass_frame [OF drain_return(4)] by (simp add: same_frame_def)
next
  case (drain_exit s n w1 wb1 fuel w' wb')
  then show ?case
    using drain_pass_frame [OF drain_exit(4)] flushChannelAndExit_frame [OF drain_exit(5)]
    by (simp add: same_frame_def)
next
  case (receive s x rest w' wb')
  then show ?case using append_frame [OF receive(3)] by (simp add: same_frame_def)
next
  case (receive_closed s fuel w' wb')
  then show ?case using flushChannelAndExit_frame [OF receive_closed(4)] by (simp add: same_frame_def)
next
  case (timeout s w' wb')
  then show ?case
    using flush_frame [of "s_wb s" ops cfg "wk_batch (s_w s)"]
    by (auto simp: worker_timeout_def same_frame_def Let_def split: if_splits)
next
  case (cancelled s fuel w' wb')
  then show ?case using flushChannelAndExit_frame [OF cancelled(3)] by (simp add: same_frame_def)
qed (auto simp: worker_maintenance_def Close_begin_def StartDQueDrain_def SetMaxDiskBytes_def)

section \<open>The batcher on the queue of package dque\<close>

definition dque_ops :: "'a codec \<Rightarrow> ('a, 'a dque \<times> disk) dqueQueue" where
  "dque_ops G = \<lparr>
     qSize = (\<lambda>(q, d). case DQue_Size q of Some n \<Rightarrow> n | None \<Rightarrow> 0),
     qDiskBytes = (\<lambda>(q, d). DQue_DiskBytes q),
     qDequeue = (\<lambda>(q, d). case DQue_Dequeue G q d of (r, q', d') \<Rightarrow> (r, q', d')),
     qEnqueue = (\<lambda>x (q, d). case DQue_Enqueue G x q d of (e, q', d') \<Rightarrow> (e, q', d')),
     qTurboOn = (\<lambda>(q, d). case DQue_TurboOn q of (e, q') \<Rightarrow> (e, q', d)),
     qClose = (\<lambda>(q, d). case DQue_Close q d of (es, q', d') \<Rightarrow> (es, q', d'))\<rparr>"

text \<open>\<^verbatim>\<open>openDQue\<close>: create the directory, open or create the queue and switch turbo on.\<close>

definition openDQue :: "'a codec \<Rightarrow> string \<Rightarrow> int \<Rightarrow> disk \<Rightarrow>
    (dque_error list + ('a dque \<times> disk) option) \<times> disk" where
  "openDQue G dirPath itemsPerSegment d =
     (if dirPath = [] then (Inr None, d)
      else
        let K = (if itemsPerSegment \<le> 0 then 250 else itemsPerSegment) in
        (case io (\<lambda>d. (None, d\<lparr>dk_parent := True\<rparr>)) (\<lambda>_ d. (Some ErrOS, d)) d of
           (Some e, d1) \<Rightarrow> (Inl [e], d1)
         | (None, d1) \<Rightarrow>
             (case DQue_NewOrOpen G ''writebatcher'' dirPath K d1 of
                (Inl es, d2) \<Rightarrow> (Inl es, d2)
              | (Inr q, d2) \<Rightarrow> (Inr (Some (snd (DQue_TurboOn q), d2)), d2))))"

definition dque_holds :: "'a codec \<Rightarrow> 'a dque \<times> disk \<Rightarrow> 'a list \<Rightarrow> bool" where
  "dque_holds G qd xs \<longleftrightarrow> gob_ok G \<and> (\<forall>x. call_fits G (CEnqueue x)) \<and>
     (\<exists>K N. dque_rep G K N (fst qd) (snd qd) xs)"

definition dque_holds_all :: "'a codec \<Rightarrow> 'a dque \<times> disk \<Rightarrow> 'a list \<Rightarrow> bool" where
  "dque_holds_all G qd xs \<longleftrightarrow> gob_ok G \<and> (\<forall>x. storable G x) \<and>
     (\<exists>K N. dque_rep G K N (fst qd) (snd qd) xs)"

lemma dque_size_law: "dque_rep G K N q d xs \<Longrightarrow> qSize (dque_ops G) (q, d) = int (length xs)"
  by (simp add: dque_ops_def DQue_Size_calm)

lemma dque_enqueue_law:
  assumes "dque_rep G K N q d xs" "gob_ok G" "call_fits G (CEnqueue x)"
    "qEnqueue (dque_ops G) x (q, d) = (e, q', d')"
  shows "dque_rep G K (N + 1) q' d' (if e = None then xs @ [x] else xs)"
proof (cases "gob_encode G x = None")
  case True
  then obtain q1 d1 where "DQue_Enqueue G x q d = (Some ErrEncode, q1, d1)"
    "dque_rep G K (N + 1) q1 d1 xs" by (rule DQue_Enqueue_encode_error [OF assms(1)])
  then show ?thesis using assms(4) by (auto simp: dque_ops_def)
next
  case False
  then have "storable G x" using assms(3) by auto
  then obtain q1 d1 where "DQue_Enqueue G x q d = (None, q1, d1)"
    "dque_rep G K (N + 1) q1 d1 (xs @ [x])" by (rule DQue_Enqueue_calm [OF assms(1,2)])
  then show ?thesis using assms(4) by (auto simp: dque_ops_def)
qed

lemma dque_dequeue_law:
  assumes "dque_rep G K N q d (x # xs)"
  shows "\<exists>q' d'. qDequeue (dque_ops G) (q, d) = ((Some x, None), q', d') \<and> dque_rep G K (N + 1) q' d' xs"
proof -
  obtain q' d' where "DQue_Dequeue G q d = ((Some x, None), q', d')" "dque_rep G K (N + 1) q' d' xs"
    by (rule DQue_Dequeue_calm [OF assms])
  then show ?thesis by (simp add: dque_ops_def)
qed

interpretation dq: durable_queue "dque_ops G" "dque_holds G" for G :: "'a codec"
proof (unfold_locales, goal_cases)
  case (1 qd xs)
  then show ?case using dque_size_law by (cases qd) (auto simp: dque_holds_def)
next
  case (2 qd xs x e qd')
  then obtain K N where "dque_rep G K N (fst qd) (snd qd) xs" "gob_ok G" "call_fits G (CEnqueue x)"
    by (auto simp: dque_holds_def)
  from dque_enqueue_law [OF this, of e "fst qd'" "snd qd'"] 2(2)
  have "dque_rep G K (N + 1) (fst qd') (snd qd') (if e = None then xs @ [x] else xs)" by simp
  with 2(1) show ?case unfolding dque_holds_def by blast
next
  case (3 qd x xs)
  then obtain K N where "dque_rep G K N (fst qd) (snd qd) (x # xs)" by (auto simp: dque_holds_def)
  from dque_dequeue_law [OF this] obtain q' d' where
    "qDequeue (dque_ops G) qd = ((Some x, None), q', d')" "dque_rep G K (N + 1) q' d' xs" by auto
  with 3 show ?case by (auto simp: dque_holds_def)
qed

interpretation dqr: reliable_queue "dque_ops G" "dque_holds_all G" for G :: "'a codec"
proof (unfold_locales, goal_cases)
  case (1 qd xs)
  then show ?case using dque_size_law by (cases qd) (auto simp: dque_holds_all_def)
next
  case (2 qd xs x e qd')
  then obtain K N where "dque_rep G K N (fst qd) (snd qd) xs" "gob_ok G" "call_fits G (CEnqueue x)"
    by (auto simp: dque_holds_all_def)
  from dque_enqueue_law [OF this, of e "fst qd'" "snd qd'"] 2(2)
  have "dque_rep G K (N + 1) (fst qd') (snd qd') (if e = None then xs @ [x] else xs)" by simp
  with 2(1) show ?case unfolding dque_holds_all_def by blast
next
  case (3 qd x xs)
  then obtain K N where "dque_rep G K N (fst qd) (snd qd) (x # xs)" by (auto simp: dque_holds_all_def)
  from dque_dequeue_law [OF this] obtain q' d' where
    "qDequeue (dque_ops G) qd = ((Some x, None), q', d')" "dque_rep G K (N + 1) q' d' xs" by auto
  with 3 show ?case by (auto simp: dque_holds_all_def)
next
  case (4 qd xs x)
  obtain q d where qd: "qd = (q, d)" by fastforce
  from 4 obtain K N where rep: "dque_rep G K N q d xs" "gob_ok G" "storable G x"
    by (auto simp: dque_holds_all_def qd)
  obtain q' d' where "DQue_Enqueue G x q d = (None, q', d')"
    by (rule DQue_Enqueue_calm [OF rep])
  then show ?case by (simp add: dque_ops_def qd)
qed

section \<open>Properties\<close>

lemma New_config_positive:
  "New_config cfg0 = Inr cfg \<Longrightarrow> 1 \<le> cfg_MaxBatchSize cfg \<and> 1 \<le> cfg_ChannelSize cfg"
  by (auto simp: New_config_def Let_def split: if_splits)


text \<open>A configuration for the concrete instances: batches of two, a channel of one.\<close>

definition demo_config :: "8 word wb_config" where
  "demo_config = \<lparr>cfg_hasBeginTx = True, cfg_hasFlush = True, cfg_MaxBatchSize = 2,
     cfg_FlushInterval = 1000, cfg_MaintenanceInterval = 0, cfg_ChannelSize = 1,
     cfg_SizeFunc = None, cfg_MaxBatchBytes = 0, cfg_MaxDiskBytes = 0,
     cfg_DeferDQueDrain = False, cfg_DropWithoutFlush = None, cfg_hasOnAfterCommit = False\<rparr>"

lemma demo_config_New: "New_config demo_config = Inr demo_config"
  by (simp add: New_config_def demo_config_def)

lemma demo_queue:
  obtains q d where "DQue_New byte_codec ''q'' ''/tmp'' 2 empty_disk = (Inr q, d)"
    "dque_rep byte_codec 2 1 q d []"
  by (rule DQue_New_calm [OF demo_calls_ok(3) empty_disk_fresh, where G = byte_codec])

lemma demo_submit:
  "wb_step ops demo_config (wb_init ops demo_config dq outcomes choices)
    ((wb_init ops demo_config dq outcomes choices)
      \<lparr>s_wb := (New_batcher ops demo_config dq outcomes choices)
         \<lparr>wb_ch := [7], wb_pendingCount := wb_pendingCount (New_batcher ops demo_config dq outcomes choices) + 1\<rparr>,
       s_accepted := [7]\<rparr>)"
proof -
  let ?s = "wb_init ops demo_config dq outcomes choices"
  have "Submit ops demo_config 7 (s_wb ?s) = (None, (New_batcher ops demo_config dq outcomes choices)
         \<lparr>wb_ch := [7], wb_pendingCount := wb_pendingCount (New_batcher ops demo_config dq outcomes choices) + 1\<rparr>)"
    by (simp add: wb_init_def New_batcher_def Submit_def submit_select_def demo_config_def)
  from wb_step.submit [OF this] show ?thesis by (simp add: wb_init_def)
qed


text \<open>Whatever the durable queue answers, every batch that reaches the flush, drop or error
  callback has at least one and at most \<^verbatim>\<open>MaxBatchSize\<close> items, with the defaults \<^verbatim>\<open>New\<close> applies, and
  the channel never exceeds its capacity.\<close>

theorem wb_batch_bounds:
  assumes "New_config cfg0 = Inr cfg"
    and "wb_reachable ops cfg (wb_init ops cfg dq outcomes choices) s"
    and "e \<in> set (wb_log (s_wb s))" and "event_batch e = Some b"
  shows "1 \<le> go_len b \<and> go_len b \<le> cfg_MaxBatchSize cfg \<and> go_len (wb_ch (s_wb s)) \<le> cfg_ChannelSize cfg"
proof -
  have pos: "1 \<le> cfg_MaxBatchSize cfg" "1 \<le> cfg_ChannelSize cfg"
    using New_config_positive [OF assms(1)] by simp_all
  from assms(2) have "sys_sized cfg s"
  proof (induction rule: rtranclp_induct)
    case base
    then show ?case using pos
      by (simp add: sys_sized_def wb_init_def New_batcher_def sized_def roomy_def new_worker_def go_len_def)
  next
    case (step y z)
    show ?case by (rule step_sized [OF step(2,3) pos(1)])
  qed
  then show ?thesis using assms(3,4) by (auto simp: sys_sized_def sized_def)
qed

text \<open>Draining the durable queue ends whatever the queue holds and however many transactions
  the script fails, although a failed batch goes back into the channel that is being drained.\<close>

theorem wb_drain_terminates:
  assumes "gob_ok G" and "\<forall>x. call_fits G (CEnqueue x)" and "dque_rep G K N q d ds"
    and "wb_dq wb = Some (q, d)"
  shows "\<exists>fuel b w' wb'. drainDQueAll (dque_ops G) cfg fuel n (w, wb) = Some (b, w', wb')"
proof -
  have "dq_holds (dque_holds G) wb ds" using assms by (auto simp: dq_holds_def dque_holds_def)
  from dq.drainDQueAll_terminates [OF this] show ?thesis by (metis prod_cases3)
qed

text \<open>When the database commits, the drain that follows a start on a directory with items left
  over delivers exactly those items in their order and leaves the durable queue empty, and the
  \<^verbatim>\<open>OverflowCount\<close> of the statistics then is minus their number, because recovered items are
  subtracted but were never added.\<close>

theorem wb_recovery_in_order:
  assumes "gob_ok G" and "\<forall>x. call_fits G (CEnqueue x)" and "dque_rep G K N q d xs"
    and "cfg_DeferDQueDrain cfg = False"
  shows "\<exists>fuel w' wb'. drainDQueAll (dque_ops G) cfg fuel 0
      (new_worker, New_batcher (dque_ops G) cfg (Some (q, d)) [] choices) = Some (False, w', wb') \<and>
    delivered wb' = xs \<and> wk_batch w' = [] \<and> wb_ch wb' = [] \<and>
    st_DQueSize (GetStats (dque_ops G) wb') = 0 \<and>
    st_OverflowCount (GetStats (dque_ops G) wb') = - go_len xs"
proof -
  let ?wb = "New_batcher (dque_ops G) cfg (Some (q, d)) [] choices"
  have "dq_holds (dque_holds G) ?wb xs"
    using assms(1-3) by (auto simp: dq_holds_def dque_holds_def New_batcher_def)
  from dq.drain_in_order [OF this, of 0 new_worker cfg] obtain fuel w' wb' where r:
    "drainDQueAll (dque_ops G) cfg fuel 0 (new_worker, ?wb) = Some (False, w', wb')"
    "wk_batch w' = []" "wb_ch wb' = []" "dq_holds (dque_holds G) wb' []"
    "delivered wb' = xs" "wb_overflowCount wb' = - int (length xs)"
    by (auto simp: New_batcher_def new_worker_def delivered_def)
  have "st_DQueSize (GetStats (dque_ops G) wb') = 0"
    using r(4) dq.size_law [of G _ "[]"] by (auto simp: GetStats_def dq_holds_def split: option.split)
  with r show ?thesis by (auto simp: GetStats_def go_len_def)
qed

text \<open>As long as the batcher is open, its context lives, no disk quota is set and every object
  can be stored, a batch whose transaction fails at any stage is put back completely: nothing is
  given up, the items are in the channel or the durable queue again and \<^verbatim>\<open>PendingCount\<close> is unchanged.\<close>

theorem wb_failed_batch_kept:
  assumes "gob_ok G" and "\<forall>x. storable G x" and "dque_rep G K N q d ds"
    and "wb_dq wb = Some (q, d)" and "\<not> wb_closed wb" and "\<not> wb_ctxDone wb"
    and "wb_maxDiskBytes wb \<le> 0" and "cfg_DropWithoutFlush cfg = None"
    and "wb_outcomes wb = c # cs" and "c \<in> {BeginFails, FlushFails, CommitFails}" and "batch \<noteq> []"
  shows "\<exists>q' d' ds' K' N'. wb_dq (flush (dque_ops G) cfg batch wb) = Some (q', d') \<and>
    dque_rep G K' N' q' d' ds' \<and>
    mset (wb_ch (flush (dque_ops G) cfg batch wb)) + mset ds' = mset (wb_ch wb) + mset ds + mset batch \<and>
    PendingCount (flush (dque_ops G) cfg batch wb) = PendingCount wb \<and>
    wb_log (flush (dque_ops G) cfg batch wb) = wb_log wb @ [EvError batch]"
proof -
  have h: "dq_holds (dque_holds_all G) wb ds" using assms(1-4) by (auto simp: dq_holds_def dque_holds_all_def)
  have dq: "wb_dq wb \<noteq> None" using assms(4) by simp
  from dqr.failed_flush_keeps [OF h dq assms(5-11)] obtain ds' where ds':
    "dq_holds (dque_holds_all G) (flush (dque_ops G) cfg batch wb) ds'"
    "mset (wb_ch (flush (dque_ops G) cfg batch wb)) + mset ds' = mset (wb_ch wb) + mset ds + mset batch"
    "wb_pendingCount (flush (dque_ops G) cfg batch wb) = wb_pendingCount wb"
    "wb_log (flush (dque_ops G) cfg batch wb) = wb_log wb @ [EvError batch]" by blast
  have "wb_dq (flush (dque_ops G) cfg batch wb) \<noteq> None"
    using flush_frame [of wb "dque_ops G" cfg batch] dq by (simp add: same_frame_def)
  then obtain q' d' where q': "wb_dq (flush (dque_ops G) cfg batch wb) = Some (q', d')" by auto
  with ds'(1) obtain K' N' where "dque_rep G K' N' q' d' ds'"
    by (auto simp: dq_holds_def dque_holds_all_def)
  with q' ds'(2-4) show ?thesis by (auto simp: PendingCount_def)
qed

text \<open>A drain of a one-item queue whose segment file cannot be removed.\<close>

definition lost_drain :: "(bool \<times> 8 word list \<times> int \<times> int) option" where
  "lost_drain = (case fst (openDQue byte_codec ''/tmp'' 1 empty_disk) of
     Inl _ \<Rightarrow> None | Inr None \<Rightarrow> None
   | Inr (Some (q, d)) \<Rightarrow>
      (case DQue_Enqueue byte_codec 1 q d of (_, q1, d1) \<Rightarrow>
        (let ops = dque_ops byte_codec;
             d2 = d1\<lparr>dk_faults := [NoFault, NoFault, NoFault, NoFault, NoFault, Fault 0]\<rparr>;
             wb = New_batcher ops demo_config (Some (q1, d2)) [] [] in
         case drain_pass ops demo_config 0 (new_worker, wb) of (r, w, wb') \<Rightarrow>
           Some (r = Returned False, wk_batch w, PendingCount wb', st_DQueSize (GetStats ops wb')))))"

text \<open>When the durable queue's \<^verbatim>\<open>Dequeue\<close> returns an object together with an error, because removing
  its drained segment file failed, the drain drops the object: it is in no batch and not in the
  queue, and \<^verbatim>\<open>PendingCount\<close> counts it for ever.\<close>

theorem wb_drain_drops_item: "lost_drain = Some (True, [], 1, 0)"
  by code_simp

section \<open>Concrete instances\<close>

definition one_config :: "8 word wb_config" where
  "one_config = demo_config\<lparr>cfg_MaxBatchSize := 1\<rparr>"

definition one_start :: "(8 word, 8 word dque \<times> disk) wb_sys" where
  "one_start = wb_init (dque_ops byte_codec) one_config None [] []"

theorem wb_batch_bounds_witness:
  "\<exists>s. wb_reachable (dque_ops byte_codec) one_config one_start s \<and> EvSuccess [7] \<in> set (wb_log (s_wb s)) \<and>
    1 \<le> go_len [7 :: 8 word] \<and> go_len [7 :: 8 word] \<le> cfg_MaxBatchSize one_config \<and>
    go_len (wb_ch (s_wb s)) \<le> cfg_ChannelSize one_config"
proof -
  let ?ops = "dque_ops byte_codec" and ?wb = "s_wb one_start"
  let ?wb1 = "?wb\<lparr>wb_ch := [7], wb_pendingCount := 1\<rparr>"
  let ?a = "one_start\<lparr>s_wb := ?wb1, s_accepted := [7]\<rparr>"
  let ?b = "?a\<lparr>s_pc := PcSelect\<rparr>"
  let ?wb2 = "flush ?ops one_config [7] (?wb1\<lparr>wb_ch := []\<rparr>)"
  let ?c = "?b\<lparr>s_wb := ?wb2, s_w := new_worker, s_pc := PcLoop 0\<rparr>"
  have "Submit ?ops one_config 7 ?wb = (None, ?wb1)"
    by (simp add: one_start_def one_config_def demo_config_def wb_init_def New_batcher_def Submit_def submit_select_def)
  from wb_step.submit [OF this] have 1: "wb_step ?ops one_config one_start ?a"
    by (simp add: one_start_def wb_init_def)
  have 2: "wb_step ?ops one_config ?a ?b"
    by (rule wb_step.skip_drain) (simp_all add: one_start_def wb_init_def New_batcher_def)
  have "appendAndManageTimer ?ops one_config 7 (s_w ?b, (s_wb ?b)\<lparr>wb_ch := []\<rparr>) = (new_worker, ?wb2)"
    by (simp add: appendAndManageTimer_def one_start_def wb_init_def new_worker_def add_item_def one_config_def
        demo_config_def batch_full_def clear_batch_def stopFlushTimer_def Let_def)
  then have 3: "wb_step ?ops one_config ?b ?c"
    by (rule wb_step.receive [rotated 2]) simp_all
  have "wb_reachable ?ops one_config one_start ?a" using 1 by (rule r_into_rtranclp)
  then have "wb_reachable ?ops one_config one_start ?b" using 2 by (rule rtranclp.rtrancl_into_rtrancl)
  then have "wb_reachable ?ops one_config one_start ?c" using 3 by (rule rtranclp.rtrancl_into_rtrancl)
  moreover have "EvSuccess [7] \<in> set (wb_log ?wb2)"
    by (simp add: one_start_def wb_init_def New_batcher_def flush_def next_outcome_def flush_committed_def
        one_config_def demo_config_def Let_def)
  then have "EvSuccess [7] \<in> set (wb_log (s_wb ?c))" by simp
  ultimately obtain s where s: "wb_reachable ?ops one_config one_start s" "EvSuccess [7] \<in> set (wb_log (s_wb s))"
    by blast
  have cfg: "New_config one_config = Inr one_config"
    by (simp add: New_config_def one_config_def demo_config_def)
  have "event_batch (EvSuccess [7 :: 8 word]) = Some [7]" by simp
  from wb_batch_bounds [OF cfg s(1) [unfolded one_start_def] s(2) this] s show ?thesis by blast
qed

lemma byte_codec_fits: "\<forall>x. call_fits byte_codec (CEnqueue x)"
  by (simp add: byte_codec_ok)

theorem wb_drain_terminates_witness:
  "\<exists>q d fuel b w' wb'. drainDQueAll (dque_ops byte_codec) demo_config fuel 0
      (new_worker, New_batcher (dque_ops byte_codec) demo_config (Some (q, d))
         [BeginFails, CommitFails] []) = Some (b, w', wb')"
proof -
  obtain q d where q: "dque_rep byte_codec 2 1 q d []" by (rule demo_queue)
  have "wb_dq (New_batcher (dque_ops byte_codec) demo_config (Some (q, d)) [BeginFails, CommitFails] []) =
      Some (q, d)" by (simp add: New_batcher_def)
  from wb_drain_terminates [OF byte_codec_ok(1) byte_codec_fits q this] show ?thesis by blast
qed

lemma demo_queue_one:
  obtains q d where "dque_rep byte_codec 2 2 q d [7]"
proof -
  obtain q d where q: "dque_rep byte_codec 2 1 q d []" by (rule demo_queue)
  obtain q' d' where "dque_rep byte_codec 2 (1 + 1) q' d' ([] @ [7])"
    by (rule DQue_Enqueue_calm [OF q byte_codec_ok])
  then show ?thesis by (intro that) (simp add: numeral_2_eq_2)
qed

theorem wb_recovery_in_order_witness:
  "\<exists>q d fuel w' wb'. drainDQueAll (dque_ops byte_codec) demo_config fuel 0
      (new_worker, New_batcher (dque_ops byte_codec) demo_config (Some (q, d)) [] []) = Some (False, w', wb') \<and>
    delivered wb' = [7] \<and> st_OverflowCount (GetStats (dque_ops byte_codec) wb') = - 1"
proof -
  obtain q d where q: "dque_rep byte_codec 2 2 q d [7]" by (rule demo_queue_one)
  have "cfg_DeferDQueDrain demo_config = False" by (simp add: demo_config_def)
  from wb_recovery_in_order [OF byte_codec_ok(1) byte_codec_fits q this] show ?thesis by fastforce
qed

theorem wb_failed_batch_kept_witness:
  "\<exists>q d wb'. wb' = flush (dque_ops byte_codec) demo_config [1, 2]
      (New_batcher (dque_ops byte_codec) demo_config (Some (q, d)) [CommitFails] []) \<and>
    wb_log wb' = [EvError [1, 2]] \<and>
    (\<exists>q' d' ds' K' N'. wb_dq wb' = Some (q', d') \<and> dque_rep byte_codec K' N' q' d' ds' \<and>
      mset (wb_ch wb') + mset ds' = {#7, 1, 2#})"
proof -
  obtain q d where q: "dque_rep byte_codec 2 2 q d [7]" by (rule demo_queue_one)
  let ?wb = "New_batcher (dque_ops byte_codec) demo_config (Some (q, d)) [CommitFails] []"
  have "wb_dq ?wb = Some (q, d)" "\<not> wb_closed ?wb" "\<not> wb_ctxDone ?wb" "wb_maxDiskBytes ?wb \<le> 0"
    "cfg_DropWithoutFlush demo_config = None" "wb_outcomes ?wb = CommitFails # []"
    by (simp_all add: New_batcher_def demo_config_def)
  moreover have "wb_log ?wb = []" "wb_ch ?wb = []" by (simp_all add: New_batcher_def)
  moreover note wb_failed_batch_kept [OF byte_codec_ok(1) allI [OF byte_codec_ok(2)] q, of ?wb demo_config
      CommitFails "[]" "[1, 2]"]
  ultimately have "\<exists>q' d' ds' K' N'. wb_dq (flush (dque_ops byte_codec) demo_config [1, 2] ?wb) = Some (q', d') \<and>
      dque_rep byte_codec K' N' q' d' ds' \<and>
      mset (wb_ch (flush (dque_ops byte_codec) demo_config [1, 2] ?wb)) + mset ds' = {#7, 1, 2#} \<and>
      wb_log (flush (dque_ops byte_codec) demo_config [1, 2] ?wb) = [EvError [1, 2]]"
    by (simp add: add_mset_commute) blast
  then show ?thesis by blast
qed

end
