(* ===== verification/Scheduler.thy ===== *)
theory Scheduler
  imports Go_Text "HOL-Library.Multiset"
begin

text \<open>
  The task scheduler (\<^verbatim>\<open>internal/scheduler/scheduler.go\<close>).  Task objects live in a store that maps
  their number to their fields, because the dispatch loop and the task goroutines keep pointers to
  tasks that may have left the registry; the registry holds the numbers of the tasks in the map
  \<^verbatim>\<open>tasks\<close>.  Times are nanoseconds since the epoch, read in UTC where the calendar matters.
\<close>

section \<open>Time\<close>

definition Millisecond :: int where "Millisecond = 1000000"
definition Hour :: int where "Hour = 3600 * 1000 * Millisecond"
definition Day :: int where "Day = 24 * Hour"

definition schedulerMinDelay :: int where "schedulerMinDelay = 10 * Millisecond"
definition schedulerIdleDelay :: int where "schedulerIdleDelay = 250 * Millisecond"
definition schedulerMaxDelay :: int where "schedulerMaxDelay = 1000 * Millisecond"

text \<open>The civil calendar of package \<^verbatim>\<open>time\<close>: months are counted from year 0, month January, and
  \<^term>\<open>days_before_month\<close> is the number of days before the first of a month, up to a constant.
  A year of this count starts in March, so that the leap day is its last.\<close>

definition march_days :: "int \<Rightarrow> int" where
  "march_days k = (153 * k + 2) div 5"

definition days_before_month :: "int \<Rightarrow> int" where
  "days_before_month m =
     (let y = (m - 2) div 12; k = (m - 2) mod 12
      in 365 * y + y div 4 - y div 100 + y div 400 + march_days k)"

text \<open>The month and the day of the month of a day number, by search from an estimate: the month of a
  day is the last one that does not start after it.\<close>

definition epoch_days :: int where
  "epoch_days = days_before_month (1970 * 12)"

fun month_back :: "nat \<Rightarrow> int \<Rightarrow> int \<Rightarrow> int" where
  "month_back 0 m d = m"
| "month_back (Suc n) m d = (if days_before_month m \<le> d then m else month_back n (m - 1) d)"

definition month_of_day :: "int \<Rightarrow> int" where
  "month_of_day d = month_back 8 (d * 4800 div 146097 + 5) d"

text \<open>\<^verbatim>\<open>t.AddDate(0, months, days)\<close>: the day of the month is kept and normalised into the following
  month when the month is too short; the time of day is kept.\<close>

definition AddDate :: "int \<Rightarrow> int \<Rightarrow> int \<Rightarrow> int" where
  "AddDate t months days =
     (let d = t div Day + epoch_days; m = month_of_day d;
          dom = d - days_before_month m;
          d' = days_before_month (m + months) + dom + days
      in (d' - epoch_days) * Day + t mod Day)"

section \<open>Tasks and the scheduler's state\<close>

datatype mode = OneTime | Hourly | Daily | Weekly | Monthly

record task =
  tk_mode :: mode
  tk_startTime :: int
  tk_nextRun :: int
  tk_runCount :: int
  tk_marked :: bool

datatype sched_error = ErrNilTask | ErrSchedulerAlreadyRunning | ErrSchedulerShutdown
  | ErrSchedulerRunning | ErrTaskNotFound | CtxErr

text \<open>A task goroutine: running the task, having updated the schedule, having released its
  semaphore slot.\<close>

datatype phase = Running | Updated | Released

text \<open>The goroutine of \<^verbatim>\<open>Start\<close>: not started, in its select, dispatching the ready tasks that are
  left, waiting for the active tasks with the error it will return.\<close>

datatype start_pc = Stopped | Selecting | Dispatching "nat list" | Waiting sched_error

record scheduler =
  sc_Max :: int
  sc_objs :: "nat \<Rightarrow> task"
  sc_tasks :: "nat list"
  sc_sem :: int
  sc_wg :: int
  sc_running :: bool
  sc_shutdown :: bool
  sc_nextID :: nat
  sc_wake :: bool
  sc_pc :: start_pc
  sc_closers :: nat  \<comment> \<open>calls of \<^verbatim>\<open>Shutdown\<close> that have found the scheduler not running\<close>
  sc_go :: "(nat \<times> phase) list"
  sc_dispatched :: "(nat \<times> int) list"  \<comment> \<open>ghost: every dispatch with its time\<close>

definition NewScheduler_max :: "int \<Rightarrow> int \<Rightarrow> int" where
  "NewScheduler_max numCPU n = (let n1 = (if n = 0 then numCPU else n) in if n1 < 1 then 1 else n1)"

definition NewScheduler :: "int \<Rightarrow> int \<Rightarrow> scheduler" where
  "NewScheduler numCPU n = \<lparr>sc_Max = NewScheduler_max numCPU n,
     sc_objs = (\<lambda>_. \<lparr>tk_mode = OneTime, tk_startTime = 0, tk_nextRun = 0, tk_runCount = 0, tk_marked = False\<rparr>),
     sc_tasks = [], sc_sem = 0, sc_wg = 0, sc_running = False, sc_shutdown = False, sc_nextID = 0,
     sc_wake = False, sc_pc = Stopped, sc_closers = 0, sc_go = [], sc_dispatched = []\<rparr>"

definition task_id :: "nat \<Rightarrow> string" where
  "task_id i = dec_of_nat i"

section \<open>Operations\<close>

definition AddTask :: "bool \<Rightarrow> mode \<Rightarrow> int \<Rightarrow> scheduler \<Rightarrow> (sched_error + string) \<times> scheduler" where
  "AddTask nil_task md startTime s =
     (if nil_task then (Inl ErrNilTask, s)
      else if sc_shutdown s then (Inl ErrSchedulerShutdown, s)
      else
        let i = sc_nextID s + 1;
            t = \<lparr>tk_mode = md, tk_startTime = startTime, tk_nextRun = startTime, tk_runCount = 0,
                 tk_marked = False\<rparr>
        in (Inr (task_id i), s\<lparr>sc_nextID := i, sc_objs := (sc_objs s)(i := t),
              sc_tasks := i # sc_tasks s, sc_wake := True\<rparr>))"

definition RemoveTask :: "string \<Rightarrow> scheduler \<Rightarrow> sched_error option \<times> scheduler" where
  "RemoveTask taskID s =
     (if taskID = [] then (Some ErrTaskNotFound, s)
      else (case filter (\<lambda>i. task_id i = taskID) (sc_tasks s) of
          [] \<Rightarrow> (Some ErrTaskNotFound, s)
        | i # _ \<Rightarrow> (None, s\<lparr>sc_objs := (sc_objs s)(i := (sc_objs s i)\<lparr>tk_marked := True\<rparr>), sc_wake := True\<rparr>)))"

definition calculateNextRun :: "int \<Rightarrow> int \<Rightarrow> mode \<Rightarrow> int \<Rightarrow> int" where
  "calculateNextRun now startTime md runCount = (case md of
       Hourly \<Rightarrow> startTime + runCount * Hour
     | Daily \<Rightarrow> AddDate startTime 0 runCount
     | Weekly \<Rightarrow> AddDate startTime 0 (7 * runCount)
     | Monthly \<Rightarrow> AddDate startTime runCount 0
     | OneTime \<Rightarrow> now + 365 * Day)"

text \<open>The locked scan of \<^verbatim>\<open>executeReadyTasks\<close> over the registry in the order \<^term>\<open>is\<close> of the map
  iteration: marked tasks leave the registry; the rest is ready or counts for the earliest time.\<close>

fun collect :: "int \<Rightarrow> (nat \<Rightarrow> task) \<Rightarrow> nat list \<Rightarrow> nat list \<times> int option \<times> nat list" where
  "collect now objs [] = ([], None, [])"
| "collect now objs (i # is) = (case collect now objs is of
       (kept, earliest, ready) \<Rightarrow>
         if tk_marked (objs i) then (kept, earliest, ready)
         else if tk_nextRun (objs i) \<le> now then (i # kept, earliest, i # ready)
         else (i # kept,
               Some (case earliest of None \<Rightarrow> tk_nextRun (objs i) | Some e \<Rightarrow> min (tk_nextRun (objs i)) e),
               ready))"

text \<open>One iteration of its loop over the ready tasks.\<close>

definition dispatch :: "int \<Rightarrow> nat \<Rightarrow> scheduler \<Rightarrow> scheduler" where
  "dispatch now i s =
     (if tk_marked (sc_objs s i) then s
      else if sc_sem s < sc_Max s then
        s\<lparr>sc_sem := sc_sem s + 1,
          sc_objs := (if tk_mode (sc_objs s i) = OneTime
            then (sc_objs s)(i := (sc_objs s i)\<lparr>tk_nextRun := now + 365 * Day\<rparr>) else sc_objs s),
          sc_wg := sc_wg s + 1, sc_go := (i, Running) # sc_go s,
          sc_dispatched := (i, now) # sc_dispatched s\<rparr>
      else s)"

text \<open>The delay it returns, \<^term>\<open>now2\<close> being the clock when it asks \<^verbatim>\<open>time.Until\<close>.\<close>

definition next_delay :: "bool \<Rightarrow> int option \<Rightarrow> int \<Rightarrow> int" where
  "next_delay hadReady earliest now2 =
     (if hadReady then schedulerMinDelay
      else (case earliest of
          None \<Rightarrow> schedulerIdleDelay
        | Some e \<Rightarrow>
            let delay = e - now2 in
            if delay > 0 then
              (if delay < schedulerMinDelay then schedulerMinDelay
               else if delay > schedulerMaxDelay then schedulerMaxDelay else delay)
            else schedulerMinDelay))"

text \<open>\<^verbatim>\<open>executeReadyTasks\<close> when nothing else runs in between.\<close>

definition executeReadyTasks :: "int \<Rightarrow> int \<Rightarrow> scheduler \<Rightarrow> int \<times> scheduler" where
  "executeReadyTasks now now2 s =
     (if sc_shutdown s then (schedulerIdleDelay, s)
      else (case collect now (sc_objs s) (sc_tasks s) of
          (kept, earliest, ready) \<Rightarrow>
            (next_delay (ready \<noteq> []) earliest now2,
             fold (dispatch now) ready (s\<lparr>sc_tasks := kept\<rparr>))))"

text \<open>\<^verbatim>\<open>executeTask\<close> after \<^verbatim>\<open>Run\<close> returned.\<close>

definition finish_task :: "int \<Rightarrow> nat \<Rightarrow> scheduler \<Rightarrow> scheduler" where
  "finish_task now i s =
     (let t = sc_objs s i in
      if tk_mode t = OneTime then s\<lparr>sc_tasks := removeAll i (sc_tasks s)\<rparr>
      else
        let rc = tk_runCount t + 1;
            s1 = s\<lparr>sc_objs := (sc_objs s)(i := t\<lparr>tk_runCount := rc,
                     tk_nextRun := calculateNextRun now (tk_startTime t) (tk_mode t) rc\<rparr>)\<rparr>
        in if tk_marked t then s1\<lparr>sc_tasks := removeAll i (sc_tasks s1)\<rparr> else s1)"

section \<open>Interleaving\<close>

text \<open>One step at time \<^term>\<open>now\<close>: a call of a client, a step of \<^verbatim>\<open>Start\<close>, of \<^verbatim>\<open>Shutdown\<close> or of a task
  goroutine.  The scan visits the registry in any order.  An \<^verbatim>\<open>AddTask\<close> that finds the scheduler shut
  down after waiting for the lock has used up a number; \<^verbatim>\<open>Shutdown\<close> tests the running flag and sets
  its own in two steps.\<close>

inductive sched_step :: "int \<Rightarrow> scheduler \<Rightarrow> scheduler \<Rightarrow> bool" for now where
  add: "AddTask nil_task md st s = (r, s') \<Longrightarrow> sched_step now s s'"
| add_refused: "sched_step now s (s\<lparr>sc_nextID := sc_nextID s + 1\<rparr>)"
| remove: "RemoveTask tid s = (r, s') \<Longrightarrow> sched_step now s s'"
| start: "\<not> sc_running s \<Longrightarrow>
     sched_step now s (s\<lparr>sc_running := (if sc_shutdown s then False else True),
       sc_pc := (if sc_shutdown s then Stopped else Selecting)\<rparr>)"
| tick_shutdown: "sc_pc s = Selecting \<Longrightarrow> sc_shutdown s \<Longrightarrow> sched_step now s (s\<lparr>sc_wake := False\<rparr>)"
| tick: "sc_pc s = Selecting \<Longrightarrow> \<not> sc_shutdown s \<Longrightarrow> mset order = mset (sc_tasks s) \<Longrightarrow>
     collect now (sc_objs s) order = (kept, earliest, ready) \<Longrightarrow>
     sched_step now s (s\<lparr>sc_tasks := kept, sc_wake := False, sc_pc := Dispatching ready\<rparr>)"
| dispatch_shutdown: "sc_pc s = Dispatching (i # is) \<Longrightarrow> sc_shutdown s \<Longrightarrow>
     sched_step now s (s\<lparr>sc_pc := Selecting\<rparr>)"
| dispatch_one: "sc_pc s = Dispatching (i # is) \<Longrightarrow> \<not> sc_shutdown s \<Longrightarrow>
     sched_step now s ((dispatch now i s)\<lparr>sc_pc := Dispatching is\<rparr>)"
| dispatch_end: "sc_pc s = Dispatching [] \<Longrightarrow> sched_step now s (s\<lparr>sc_pc := Selecting\<rparr>)"
| ctx_done: "sc_pc s = Selecting \<Longrightarrow> sched_step now s (s\<lparr>sc_pc := Waiting CtxErr\<rparr>)"
| shutdown_seen: "sc_pc s = Selecting \<Longrightarrow> sc_shutdown s \<Longrightarrow>
     sched_step now s (s\<lparr>sc_pc := Waiting ErrSchedulerShutdown\<rparr>)"
| start_returns: "sc_pc s = Waiting e \<Longrightarrow> sc_wg s = 0 \<Longrightarrow>
     sched_step now s (s\<lparr>sc_pc := Stopped, sc_running := False\<rparr>)"
| shutdown_check: "\<not> sc_running s \<Longrightarrow> sched_step now s (s\<lparr>sc_closers := sc_closers s + 1\<rparr>)"
| shutdown_mark: "sc_closers s = Suc n \<Longrightarrow> sched_step now s (s\<lparr>sc_closers := n, sc_shutdown := True\<rparr>)"
| run_returns: "sc_go s = gs @ (i, Running) # hs \<Longrightarrow>
     sched_step now s ((finish_task now i s)\<lparr>sc_go := gs @ (i, Updated) # hs\<rparr>)"
| release: "sc_go s = gs @ (i, Updated) # hs \<Longrightarrow>
     sched_step now s (s\<lparr>sc_sem := sc_sem s - 1, sc_go := gs @ (i, Released) # hs\<rparr>)"
| finished: "sc_go s = gs @ (i, Released) # hs \<Longrightarrow>
     sched_step now s (s\<lparr>sc_wg := sc_wg s - 1, sc_go := gs @ hs\<rparr>)"

text \<open>Runs with a clock that does not go back.\<close>

inductive sched_reachable :: "scheduler \<Rightarrow> int \<Rightarrow> scheduler \<Rightarrow> bool" for s0 where
  init: "sched_reachable s0 t s0"
| step: "sched_reachable s0 t s \<Longrightarrow> t \<le> t' \<Longrightarrow> sched_step t' s s' \<Longrightarrow> sched_reachable s0 t' s'"

end
