(* ===== verification/Scheduler_Correct.thy ===== *)
theory Scheduler_Correct
  imports Scheduler
begin

text \<open>
  Concurrency limit, graceful shutdown and spacing of one-time tasks as invariants of every
  interleaving; drift-free schedules; and what the scheduler does with a recurring task that is
  still running at the next tick.
\<close>

section \<open>The calendar\<close>

lemma Day_pos [simp]: "0 < Day"
  by (simp add: Day_def Hour_def Millisecond_def)

lemma AddDate_days [simp]: "AddDate t 0 k = t + k * Day"
proof -
  have "(t div Day + k) * Day + t mod Day = t + k * Day"
    by (simp add: algebra_simps)
  then show ?thesis by (simp add: AddDate_def Let_def algebra_simps)
qed

lemma march_days_step: "march_days k + 30 \<le> march_days (k + 1)"
proof -
  have "(153 * k + 2) div 5 + 30 = (153 * k + 2 + 30 * 5) div 5" by (simp del: add_diff_eq)
  also have "\<dots> \<le> (153 * (k + 1) + 2) div 5" by (rule zdiv_mono1) simp_all
  finally show ?thesis by (simp only: march_days_def)
qed

lemma div_mod_unique: "(m::int) = n * q + r \<Longrightarrow> 0 \<le> r \<Longrightarrow> r < n \<Longrightarrow> m div n = q \<and> m mod n = r"
  by (metis add.commute div_mult_self4 div_pos_pos_trivial mod_mult_self4 mod_pos_pos_trivial mult.commute
      add_0_right less_irrefl less_le_trans order.strict_trans1)

lemma leap_days_mono: "(y::int) div 4 - y div 100 \<le> (y + 1) div 4 - (y + 1) div 100"
proof -
  have hundred: "x div 100 = x div 4 div 25" for x :: int
    using zdiv_zmult2_eq [of 25 x 4] by simp
  have c: "(y + 1) div 4 = y div 4 \<or> (y + 1) div 4 = y div 4 + 1" by presburger
  have d: "(a + 1) div 25 \<le> a div 25 + 1" for a :: int by presburger
  from c show ?thesis unfolding hundred
  proof (elim disjE)
    assume "(y + 1) div 4 = y div 4 + 1"
    with d [of "y div 4"] show "y div 4 - y div 4 div 25 \<le> (y + 1) div 4 - (y + 1) div 4 div 25"
      by (simp del: div_mult2_eq)
  qed simp
qed

lemma next_month:
  assumes "(m::int) mod 12 = r"
  shows "r \<noteq> 11 \<Longrightarrow> (m + 1) div 12 = m div 12 \<and> (m + 1) mod 12 = m mod 12 + 1"
    and "r = 11 \<Longrightarrow> (m + 1) div 12 = m div 12 + 1 \<and> (m + 1) mod 12 = 0"
proof -
  have m: "m = 12 * (m div 12) + r" "0 \<le> r" "r < 12"
    using assms mult_div_mod_eq [of 12 m] by auto
  show "(m + 1) div 12 = m div 12 \<and> (m + 1) mod 12 = m mod 12 + 1" if "r \<noteq> 11"
    unfolding assms using m that by (intro div_mod_unique) linarith+
  show "(m + 1) div 12 = m div 12 + 1 \<and> (m + 1) mod 12 = 0" if "r = 11"
    using m that by (intro div_mod_unique) simp_all
qed

definition leap_days :: "int \<Rightarrow> int" where
  "leap_days y = y div 4 - y div 100 + y div 400"

lemma leap_days_step: "leap_days y \<le> leap_days (y + 1)"
proof -
  have "y div 400 \<le> (y + 1) div 400" by (rule zdiv_mono1) simp_all
  from add_mono [OF leap_days_mono [of y] this] show ?thesis by (simp only: leap_days_def)
qed

lemma days_before_month_alt:
  "days_before_month m = 365 * ((m - 2) div 12) + leap_days ((m - 2) div 12) + march_days ((m - 2) mod 12)"
  by (simp add: days_before_month_def leap_days_def Let_def)

lemma days_before_month_step: "days_before_month m + 28 \<le> days_before_month (m + 1)"
proof -
  have shift: "m + 1 - 2 = (m - 2) + 1" by simp
  show ?thesis
  proof (cases "(m - 2) mod 12 = 11")
    case False
    from next_month(1) [OF refl this] march_days_step [of "(m - 2) mod 12"] show ?thesis
      unfolding days_before_month_alt shift next_month(1) [OF refl False, THEN conjunct1]
        next_month(1) [OF refl False, THEN conjunct2] by simp
  next
    case True
    have "march_days 11 = 337" "march_days 0 = 0" by (simp_all add: march_days_def)
    then show ?thesis
      unfolding days_before_month_alt shift next_month(2) [OF refl True, THEN conjunct1]
        next_month(2) [OF refl True, THEN conjunct2] True
      using leap_days_step [of "(m - 2) div 12"] by (simp add: algebra_simps)
  qed
qed

lemma AddDate_month_mono: "AddDate t n 0 < AddDate t (n + 1) 0"
proof -
  let ?m = "month_of_day (t div Day + epoch_days)"
  have "days_before_month (?m + n) < days_before_month (?m + (n + 1))"
    using days_before_month_step [of "?m + n"] by (simp add: algebra_simps)
  then show ?thesis by (simp add: AddDate_def Let_def Day_def Hour_def Millisecond_def)
qed

section \<open>Invariants\<close>

definition active :: "(nat \<times> phase) list \<Rightarrow> int" where
  "active gs = int (length (filter (\<lambda>(i, p). p \<noteq> Released) gs))"

lemma active_simps [simp]:
  "active [] = 0" "active ((i, p) # gs) = (if p = Released then 0 else 1) + active gs"
  "active (gs @ hs) = active gs + active hs"
  by (simp_all add: active_def)

definition sched_counts :: "scheduler \<Rightarrow> bool" where
  "sched_counts s \<longleftrightarrow> 1 \<le> sc_Max s \<and> sc_sem s = active (sc_go s) \<and> sc_wg s = int (length (sc_go s)) \<and>
     sc_sem s \<le> sc_Max s"

lemma finish_task_simps [simp]:
  "sc_go (finish_task now i s) = sc_go s" "sc_sem (finish_task now i s) = sc_sem s"
  "sc_wg (finish_task now i s) = sc_wg s" "sc_Max (finish_task now i s) = sc_Max s"
  "sc_pc (finish_task now i s) = sc_pc s" "sc_nextID (finish_task now i s) = sc_nextID s"
  "sc_dispatched (finish_task now i s) = sc_dispatched s" "sc_running (finish_task now i s) = sc_running s"
  by (simp_all add: finish_task_def Let_def)

lemma dispatch_counts: "sched_counts s \<Longrightarrow> sched_counts (dispatch now i s)"
  by (auto simp: sched_counts_def dispatch_def)

lemma sched_counts_pc [simp]: "sched_counts (s\<lparr>sc_pc := p\<rparr>) = sched_counts s"
  by (simp add: sched_counts_def)

lemma step_counts:
  assumes "sched_step now s s'" "sched_counts s" shows "sched_counts s'"
  using assms
proof (induction rule: sched_step.induct)
  case (add nil_task md st s r s')
  then show ?case by (auto simp: AddTask_def sched_counts_def Let_def split: if_splits)
next
  case (remove tid s r s')
  then show ?case by (auto simp: RemoveTask_def sched_counts_def split: if_splits list.splits)
next
  case (dispatch_one s i "is")
  then show ?case by (simp add: dispatch_counts)
qed (auto simp: sched_counts_def)

lemma reachable_counts:
  "sched_reachable s0 t s \<Longrightarrow> sched_counts s0 \<Longrightarrow> sched_counts s"
  by (induction rule: sched_reachable.induct) (auto intro: step_counts)

lemma New_counts: "sched_counts (NewScheduler numCPU n)"
  by (simp add: sched_counts_def NewScheduler_def NewScheduler_max_def Let_def)

text \<open>One-time tasks: the ghost list of dispatches, newest first.\<close>

definition one_time_spaced :: "scheduler \<Rightarrow> bool" where
  "one_time_spaced s \<longleftrightarrow> sorted_wrt (\<lambda>(i, t) (j, u).
     i = j \<longrightarrow> tk_mode (sc_objs s i) = OneTime \<longrightarrow> u + 365 * Day \<le> t) (sc_dispatched s)"

fun pc_list :: "start_pc \<Rightarrow> nat list" where
  "pc_list (Dispatching is) = is"
| "pc_list _ = []"

definition sched_spacing :: "int \<Rightarrow> scheduler \<Rightarrow> bool" where
  "sched_spacing now s \<longleftrightarrow>
     distinct (sc_tasks s) \<and> (\<forall>i\<in>set (sc_tasks s). i \<le> sc_nextID s) \<and>
     distinct (pc_list (sc_pc s)) \<and> (\<forall>i\<in>set (pc_list (sc_pc s)). i \<le> sc_nextID s) \<and>
     (\<forall>(i, p)\<in>set (sc_go s). i \<le> sc_nextID s) \<and>
     (\<forall>(i, t)\<in>set (sc_dispatched s). i \<le> sc_nextID s \<and>
        (tk_mode (sc_objs s i) = OneTime \<longrightarrow> t + 365 * Day \<le> tk_nextRun (sc_objs s i) \<and>
          (i \<in> set (pc_list (sc_pc s)) \<longrightarrow> t + 365 * Day \<le> now))) \<and>
     one_time_spaced s"

lemma collect_props:
  "collect now objs is = (kept, e, ready) \<Longrightarrow>
   set kept \<subseteq> set is \<and> set ready \<subseteq> set is \<and> (distinct is \<longrightarrow> distinct kept \<and> distinct ready) \<and>
   (\<forall>i\<in>set ready. tk_nextRun (objs i) \<le> now)"
proof (induction "is" arbitrary: kept e ready)
  case (Cons i "is")
  obtain k0 e0 r0 where c: "collect now objs is = (k0, e0, r0)" by (metis prod_cases3)
  from Cons.IH [OF c] Cons.prems show ?case
    by (auto simp: c split: if_splits)
qed simp

lemma sched_spacing_later: "sched_spacing t s \<Longrightarrow> t \<le> t' \<Longrightarrow> sched_spacing t' s"
  by (fastforce simp: sched_spacing_def)

lemma step_spacing:
  assumes "sched_step now s s'" "sched_spacing now s" shows "sched_spacing now s'"
  using assms
proof (induction rule: sched_step.induct)
  case (add nil_task md st s r s')
  show ?case
  proof (cases "nil_task \<or> sc_shutdown s")
    case True
    then show ?thesis using add by (auto simp: AddTask_def split: if_splits)
  next
    case False
    let ?i = "sc_nextID s + 1"
    have s': "s' = s\<lparr>sc_nextID := ?i, sc_objs := (sc_objs s)(?i := \<lparr>tk_mode = md, tk_startTime = st,
        tk_nextRun = st, tk_runCount = 0, tk_marked = False\<rparr>), sc_tasks := ?i # sc_tasks s, sc_wake := True\<rparr>"
      using add(1) False by (auto simp: AddTask_def Let_def)
    have old: "j \<noteq> ?i" if "j \<le> sc_nextID s" for j using that by simp
    have disp: "\<forall>(i, t)\<in>set (sc_dispatched s). i \<le> sc_nextID s" using add(2) by (auto simp: sched_spacing_def)
    have "sorted_wrt (\<lambda>(i, t) (j, u). i = j \<longrightarrow> tk_mode (sc_objs s' i) = OneTime \<longrightarrow> u + 365 * Day \<le> t)
        (sc_dispatched s)"
      using add(2) unfolding sched_spacing_def one_time_spaced_def
      by (elim conjE) (erule sorted_wrt_mono_rel [rotated], use disp in \<open>auto simp: s' dest!: old\<close>)
    then show ?thesis
      using add(2) by (fastforce simp: sched_spacing_def one_time_spaced_def s')
  qed
next
  case (remove tid s r s')
  have "tk_mode (sc_objs s' i) = tk_mode (sc_objs s i) \<and> tk_nextRun (sc_objs s' i) = tk_nextRun (sc_objs s i)" for i
    using remove(1) by (auto simp: RemoveTask_def split: if_splits list.splits)
  moreover have "sc_tasks s' = sc_tasks s \<and> sc_nextID s' = sc_nextID s \<and> sc_pc s' = sc_pc s \<and>
      sc_go s' = sc_go s \<and> sc_dispatched s' = sc_dispatched s"
    using remove(1) by (auto simp: RemoveTask_def split: if_splits list.splits)
  ultimately show ?case using remove(2) by (simp add: sched_spacing_def one_time_spaced_def)
next
  case (tick s order kept e ready)
  have o: "set order = set (sc_tasks s)" "distinct order = distinct (sc_tasks s)"
    using tick(3) by (metis mset_eq_setD, metis mset_eq_imp_distinct_iff)
  from collect_props [OF tick(4)] tick(5) o show ?case
    by (fastforce simp: sched_spacing_def one_time_spaced_def)
next
  case (dispatch_one s i "is")
  show ?case
  proof (cases "tk_marked (sc_objs s i) \<or> \<not> sc_sem s < sc_Max s")
    case True
    then show ?thesis using dispatch_one by (fastforce simp: dispatch_def sched_spacing_def one_time_spaced_def)
  next
    case False
    have mode: "tk_mode (sc_objs (dispatch now i s) j) = tk_mode (sc_objs s j)" for j
      by (simp add: dispatch_def)
    have dis: "sc_dispatched (dispatch now i s) = (i, now) # sc_dispatched s"
      using False by (simp add: dispatch_def)
    have "\<forall>(j, u)\<in>set (sc_dispatched s). i = j \<longrightarrow> tk_mode (sc_objs s i) = OneTime \<longrightarrow> u + 365 * Day \<le> now"
      using dispatch_one by (fastforce simp: sched_spacing_def)
    then have "one_time_spaced ((dispatch now i s)\<lparr>sc_pc := Dispatching is\<rparr>)"
      using dispatch_one(3) by (simp add: one_time_spaced_def mode dis sched_spacing_def)
    moreover have "sc_nextID (dispatch now i s) = sc_nextID s" "sc_tasks (dispatch now i s) = sc_tasks s"
      "sc_go (dispatch now i s) = (i, Running) # sc_go s"
      "tk_mode (sc_objs s j) = OneTime \<Longrightarrow> tk_nextRun (sc_objs (dispatch now i s) j) =
        (if j = i then now + 365 * Day else tk_nextRun (sc_objs s j))" for j
      using False by (auto simp: dispatch_def)
    moreover have "\<forall>(j, t)\<in>set ((i, now) # sc_dispatched s). j \<le> sc_nextID s \<and>
        (tk_mode (sc_objs s j) = OneTime \<longrightarrow>
          t + 365 * Day \<le> (if j = i then now + 365 * Day else tk_nextRun (sc_objs s j)) \<and>
          (j \<in> set is \<longrightarrow> t + 365 * Day \<le> now))"
    proof (clarify, intro conjI impI)
      fix j t
      assume jt: "(j, t) \<in> set ((i, now) # sc_dispatched s)"
      have spc: "i \<le> sc_nextID s" "i \<notin> set is"
        "\<And>j t. (j, t) \<in> set (sc_dispatched s) \<Longrightarrow> j \<le> sc_nextID s"
        "\<And>j t. (j, t) \<in> set (sc_dispatched s) \<Longrightarrow> tk_mode (sc_objs s j) = OneTime \<Longrightarrow>
          t + 365 * Day \<le> tk_nextRun (sc_objs s j)"
        "\<And>j t. (j, t) \<in> set (sc_dispatched s) \<Longrightarrow> tk_mode (sc_objs s j) = OneTime \<Longrightarrow>
          j \<in> set (i # is) \<Longrightarrow> t + 365 * Day \<le> now"
        using dispatch_one by (auto simp: sched_spacing_def)
      show "j \<le> sc_nextID s" using jt spc(1,3) by auto
      assume m: "tk_mode (sc_objs s j) = OneTime"
      show "t + 365 * Day \<le> (if j = i then now + 365 * Day else tk_nextRun (sc_objs s j))"
      proof (cases "j = i")
        case True
        have "t \<le> now"
        proof (cases "(j, t) \<in> set (sc_dispatched s)")
          case True
          then have "t + 365 * Day \<le> now" using \<open>j = i\<close> m by (intro spc(5) [of i t]) simp_all
          then show ?thesis using Day_pos by linarith
        next
          case False
          then show ?thesis using jt by simp
        qed
        then show ?thesis using True by simp
      next
        case False
        then show ?thesis using jt spc(4) [OF _ m, of t] by auto
      qed
      assume "j \<in> set is"
      then show "t + 365 * Day \<le> now" using jt spc(2) spc(5) [OF _ m, of t] by auto
    qed
    moreover have "distinct (sc_tasks s)" "\<forall>i\<in>set (sc_tasks s). i \<le> sc_nextID s" "distinct is"
      "\<forall>i\<in>set is. i \<le> sc_nextID s" "\<forall>(j, p)\<in>set ((i, Running) # sc_go s). j \<le> sc_nextID s"
      using dispatch_one by (auto simp: sched_spacing_def)
    ultimately show ?thesis by (auto simp: sched_spacing_def mode dis)
  qed
next
  case (run_returns s gs i hs)
  have mode: "tk_mode (sc_objs (finish_task now i s) j) = tk_mode (sc_objs s j)" for j
    by (simp add: finish_task_def Let_def)
  have next_run: "tk_mode (sc_objs s j) = OneTime \<Longrightarrow>
      tk_nextRun (sc_objs (finish_task now i s) j) = tk_nextRun (sc_objs s j)" for j
    by (auto simp: finish_task_def Let_def)
  have tasks: "set (sc_tasks (finish_task now i s)) \<subseteq> set (sc_tasks s)"
    "distinct (sc_tasks s) \<Longrightarrow> distinct (sc_tasks (finish_task now i s))"
    by (auto simp: finish_task_def Let_def distinct_removeAll)
  show ?case
    using run_returns tasks by (fastforce simp: sched_spacing_def one_time_spaced_def mode next_run)
qed (fastforce simp: sched_spacing_def one_time_spaced_def)+

lemma reachable_spacing:
  "sched_reachable s0 t s \<Longrightarrow> (\<And>t. sched_spacing t s0) \<Longrightarrow> sched_spacing t s"
  by (induction rule: sched_reachable.induct) (auto intro: step_spacing sched_spacing_later)

lemma New_spacing: "sched_spacing t (NewScheduler numCPU n)"
  by (simp add: sched_spacing_def one_time_spaced_def NewScheduler_def)

text \<open>A task that was removed: it stays marked and is not dispatched.\<close>

definition removed_inv :: "nat \<Rightarrow> (nat \<times> int) list \<Rightarrow> scheduler \<Rightarrow> bool" where
  "removed_inv i ds s \<longleftrightarrow> tk_marked (sc_objs s i) \<and> i \<le> sc_nextID s \<and>
     filter (\<lambda>(j, t). j = i) (sc_dispatched s) = ds"

lemma step_removed:
  assumes "sched_step now s s'" "removed_inv i ds s" shows "removed_inv i ds s'"
  using assms
proof (induction rule: sched_step.induct)
  case (add nil_task md st s r s')
  then show ?case by (auto simp: AddTask_def removed_inv_def Let_def split: if_splits)
next
  case (remove tid s r s')
  then show ?case by (auto simp: RemoveTask_def removed_inv_def split: if_splits list.splits)
next
  case (dispatch_one s j "is")
  then show ?case by (auto simp: removed_inv_def dispatch_def)
next
  case (run_returns s gs j hs)
  then show ?case by (auto simp: removed_inv_def finish_task_def Let_def)
qed (auto simp: removed_inv_def)

lemma reachable_removed: "sched_reachable s0 t s \<Longrightarrow> removed_inv i ds s0 \<Longrightarrow> removed_inv i ds s"
  by (induction rule: sched_reachable.induct) (auto intro: step_removed)

lemma RemoveTask_marks:
  assumes "RemoveTask tid s = (None, s')" "\<forall>i\<in>set (sc_tasks s). i \<le> sc_nextID s"
  obtains i where "i \<in> set (sc_tasks s)" "task_id i = tid"
    "removed_inv i (filter (\<lambda>(j, t). j = i) (sc_dispatched s)) s'"
proof (cases "filter (\<lambda>i. task_id i = tid) (sc_tasks s)")
  case Nil
  then show ?thesis using assms by (auto simp: RemoveTask_def split: if_splits)
next
  case (Cons i "is")
  from arg_cong [OF this, of set] have "i \<in> set (sc_tasks s)" "task_id i = tid" by auto
  then show ?thesis
    using assms Cons by (intro that [of i]) (auto simp: RemoveTask_def removed_inv_def split: if_splits)
qed

section \<open>A run\<close>

text \<open>A one-time task whose run lasts longer than a year: added, dispatched at time 0, and dispatched
  again 365 days later while the first run has not returned.\<close>

definition demo_start :: scheduler where
  "demo_start = (snd (AddTask False OneTime 0 (NewScheduler 8 2)))\<lparr>sc_running := True, sc_pc := Selecting\<rparr>"

definition demo_tick :: scheduler where
  "demo_tick = demo_start\<lparr>sc_tasks := [1], sc_wake := False, sc_pc := Dispatching [1]\<rparr>"

definition demo_pass :: "int \<Rightarrow> scheduler \<Rightarrow> scheduler" where
  "demo_pass now s = (dispatch now 1 (s\<lparr>sc_tasks := [1], sc_wake := False, sc_pc := Dispatching [1]\<rparr>))\<lparr>sc_pc := Dispatching []\<rparr>"

definition demo_run :: scheduler where
  "demo_run = demo_pass (365 * Day) ((demo_pass 0 demo_start)\<lparr>sc_pc := Selecting\<rparr>)"

lemma demo_start_reachable: "sched_reachable (NewScheduler 8 2) 0 demo_start"
proof -
  let ?s1 = "snd (AddTask False OneTime 0 (NewScheduler 8 2))"
  have "sched_step 0 (NewScheduler 8 2) ?s1" by (rule sched_step.add [OF prod.collapse [symmetric]])
  then have r1: "sched_reachable (NewScheduler 8 2) 0 ?s1"
    by (rule sched_reachable.step [OF sched_reachable.init order_refl])
  have "sched_step 0 ?s1 demo_start"
    using sched_step.start [of ?s1 0] by (simp add: AddTask_def NewScheduler_def demo_start_def Let_def)
  with r1 show ?thesis by (rule sched_reachable.step [OF _ order_refl])
qed

lemma demo_pass_reachable:
  assumes "sched_reachable s0 t s" "t \<le> t'" "sc_pc s = Selecting" "\<not> sc_shutdown s" "sc_tasks s = [1]"
    "\<not> tk_marked (sc_objs s 1)" "tk_nextRun (sc_objs s 1) \<le> t'"
  shows "sched_reachable s0 t' (demo_pass t' s)"
proof -
  let ?s1 = "s\<lparr>sc_tasks := [1], sc_wake := False, sc_pc := Dispatching [1]\<rparr>"
  have "sched_step t' s ?s1"
    by (rule sched_step.tick [where order = "[1]"]) (use assms in simp_all)
  then have r: "sched_reachable s0 t' ?s1" by (rule sched_reachable.step [OF assms(1,2)])
  have "sched_step t' ?s1 (demo_pass t' s)" unfolding demo_pass_def
    by (rule sched_step.dispatch_one) (use assms in simp_all)
  with r show ?thesis by (rule sched_reachable.step [OF _ order_refl])
qed

lemma demo_tick_reachable: "sched_reachable (NewScheduler 8 2) 0 demo_tick"
proof -
  have "sched_step 0 demo_start demo_tick" unfolding demo_tick_def
    by (rule sched_step.tick [where order = "[1]"])
      (simp_all add: demo_start_def AddTask_def NewScheduler_def Let_def)
  with demo_start_reachable show ?thesis by (rule sched_reachable.step [OF _ order_refl])
qed

lemma demo_run_reachable: "sched_reachable (NewScheduler 8 2) (365 * Day) demo_run"
proof -
  have "sched_reachable (NewScheduler 8 2) 0 (demo_pass 0 demo_start)"
    by (rule demo_pass_reachable [OF demo_start_reachable order_refl])
      (simp_all add: demo_start_def AddTask_def NewScheduler_def Let_def)
  moreover have "sched_step 0 (demo_pass 0 demo_start) ((demo_pass 0 demo_start)\<lparr>sc_pc := Selecting\<rparr>)"
    by (rule sched_step.dispatch_end) (simp add: demo_pass_def)
  ultimately have r: "sched_reachable (NewScheduler 8 2) 0 ((demo_pass 0 demo_start)\<lparr>sc_pc := Selecting\<rparr>)"
    by (rule sched_reachable.step [OF _ order_refl])
  show ?thesis unfolding demo_run_def
    by (rule demo_pass_reachable [OF r])
      (simp_all add: demo_pass_def dispatch_def demo_start_def AddTask_def NewScheduler_def NewScheduler_max_def Let_def
        Day_def Hour_def Millisecond_def)
qed

lemma demo_run_fields:
  "sc_dispatched demo_run = [(1, 365 * Day), (1, 0)] \<and> sc_Max demo_run = 2 \<and>
   sc_go demo_run = [(1, Running), (1, Running)] \<and> tk_mode (sc_objs demo_run 1) = OneTime"
  by (simp add: demo_run_def demo_pass_def dispatch_def demo_start_def AddTask_def NewScheduler_def
      NewScheduler_max_def Let_def)

section \<open>Properties\<close>

text \<open>C18: In every interleaving at most \<^verbatim>\<open>MaxConcurrentTasks\<close> (at least one) tasks execute at the same
  time, and when \<^verbatim>\<open>Start\<close> passes its final wait no task goroutine is left.\<close>

theorem sched_concurrency_bound:
  assumes "sched_reachable (NewScheduler numCPU n) t s"
  shows "1 \<le> sc_Max s \<and> active (sc_go s) \<le> sc_Max s \<and> sc_sem s = active (sc_go s) \<and>
    (sc_wg s = 0 \<longleftrightarrow> sc_go s = [])"
  using reachable_counts [OF assms New_counts] by (auto simp: sched_counts_def)

lemma sched_concurrency_bound_witness:
  "active (sc_go demo_run) \<le> sc_Max demo_run \<and> sc_sem demo_run = active (sc_go demo_run)"
  using sched_concurrency_bound [OF demo_run_reachable] by blast

text \<open>Two executions of the same one-time task are started at least 365 days apart, in every
  interleaving with removals, full semaphores and concurrently finishing goroutines.\<close>

theorem sched_one_time_once:
  assumes "sched_reachable (NewScheduler numCPU n) t s"
    and "k < m" and "m < length (sc_dispatched s)"
    and "sc_dispatched s ! k = (i, later)" and "sc_dispatched s ! m = (i, earlier)"
    and "tk_mode (sc_objs s i) = OneTime"
  shows "earlier + 365 * Day \<le> later"
proof -
  have "one_time_spaced s"
    using reachable_spacing [OF assms(1) New_spacing] by (simp add: sched_spacing_def)
  then show ?thesis
    using assms(2-6) sorted_wrt_nth_less by (fastforce simp: one_time_spaced_def)
qed

lemma sched_one_time_once_witness:
  "snd (sc_dispatched demo_run ! 1) + 365 * Day \<le> snd (sc_dispatched demo_run ! 0)"
proof -
  have "(0::int) + 365 * Day \<le> 365 * Day"
    by (rule sched_one_time_once [OF demo_run_reachable, where k = 0 and m = 1 and i = 1])
      (simp_all del: One_nat_def add: demo_run_fields)
  then show ?thesis by (simp add: demo_run_fields)
qed

text \<open>After \<^verbatim>\<open>RemoveTask\<close> has answered without an error no execution of that task is started any
  more, in any continuation, while executions that are under way are not touched; an unknown
  identifier is reported.\<close>

theorem sched_removed_never_runs:
  assumes "sched_reachable (NewScheduler numCPU n) t s" and "RemoveTask tid s = (None, s1)"
    and "sched_reachable s1 t' s2"
  shows "\<exists>i\<in>set (sc_tasks s). task_id i = tid \<and> sc_go s1 = sc_go s \<and>
    filter (\<lambda>(j, u). j = i) (sc_dispatched s2) = filter (\<lambda>(j, u). j = i) (sc_dispatched s)"
proof -
  have "\<forall>i\<in>set (sc_tasks s). i \<le> sc_nextID s"
    using reachable_spacing [OF assms(1) New_spacing] by (simp add: sched_spacing_def)
  then obtain i where i: "i \<in> set (sc_tasks s)" "task_id i = tid"
    "removed_inv i (filter (\<lambda>(j, t). j = i) (sc_dispatched s)) s1"
    by (rule RemoveTask_marks [OF assms(2)])
  have "sc_go s1 = sc_go s" using assms(2) by (auto simp: RemoveTask_def split: if_splits list.splits)
  with i reachable_removed [OF assms(3) i(3)] show ?thesis by (auto simp: removed_inv_def)
qed

lemma sched_removed_never_runs_witness:
  "filter (\<lambda>(j, u). j = 1) (sc_dispatched (dispatch 0 1 (snd (RemoveTask ''1'' demo_tick)))) = []"
proof -
  let ?s1 = "snd (RemoveTask ''1'' demo_tick)"
  let ?s2 = "(dispatch 0 1 ?s1)\<lparr>sc_pc := Dispatching []\<rparr>"
  have one: "task_id 1 = ''1''" by (simp add: task_id_def) code_simp
  have fields: "sc_tasks demo_tick = [1]" "sc_pc demo_tick = Dispatching [1]" "\<not> sc_shutdown demo_tick"
    "sc_dispatched demo_tick = []"
    by (simp_all add: demo_tick_def demo_start_def AddTask_def NewScheduler_def Let_def)
  have rm: "RemoveTask ''1'' demo_tick = (None, ?s1)" "sc_pc ?s1 = Dispatching [1]" "\<not> sc_shutdown ?s1"
    using one fields by (simp_all add: RemoveTask_def)
  have "sched_step 0 ?s1 ?s2"
    by (rule sched_step.dispatch_one) (use rm in simp_all)
  then have "sched_reachable ?s1 0 ?s2" by (rule sched_reachable.step [OF sched_reachable.init order_refl])
  from sched_removed_never_runs [OF demo_tick_reachable rm(1) this] fields
  show ?thesis by auto
qed

text \<open>The schedule of a recurring task does not drift: the next run depends on the start time and
  the number of completed runs only, is exactly that many hours, days or weeks after the start,
  and every completed run moves it forward, monthly tasks included.\<close>

theorem sched_next_run_drift_free:
  "calculateNextRun now st Hourly rc = st + rc * Hour \<and>
   calculateNextRun now st Daily rc = st + rc * (24 * Hour) \<and>
   calculateNextRun now st Weekly rc = st + rc * (7 * 24 * Hour) \<and>
   (md = OneTime \<or> (calculateNextRun now st md rc = calculateNextRun now' st md rc \<and>
      calculateNextRun now st md rc < calculateNextRun now' st md (rc + 1)))"
proof -
  have "calculateNextRun now st Monthly rc < calculateNextRun now' st Monthly (rc + 1)"
    using AddDate_month_mono [of st rc] by (simp add: calculateNextRun_def)
  then show ?thesis
    by (cases md) (simp_all add: calculateNextRun_def Day_def Hour_def Millisecond_def)
qed

text \<open>Every pass asks to be woken again after at least ten milliseconds and at most one second,
  after ten milliseconds when anything was ready.\<close>

theorem sched_delay_bounds:
  "schedulerMinDelay \<le> fst (executeReadyTasks now now2 s) \<and>
   fst (executeReadyTasks now now2 s) \<le> schedulerMaxDelay"
  by (auto simp: executeReadyTasks_def next_delay_def schedulerMinDelay_def schedulerMaxDelay_def
      schedulerIdleDelay_def Millisecond_def Let_def split: prod.split option.split)

definition overlap_run :: "(nat \<times> phase) list \<times> int" where
  "overlap_run =
     (let s1 = snd (AddTask False Hourly 0 (NewScheduler 8 2));
          s2 = snd (executeReadyTasks 0 0 s1);
          s3 = snd (executeReadyTasks (10 * Millisecond) (10 * Millisecond) s2);
          s4 = finish_task Hour 1 (finish_task Hour 1 s3)
      in (sc_go s3, tk_nextRun (sc_objs s4 1)))"

text \<open>A recurring task that runs longer than one tick is started again at the next tick while it is
  still running, because its next time is only set when a run ends: an hourly task is executed
  twice at once, and after both runs the following hour is skipped.\<close>

theorem sched_recurring_overlaps: "overlap_run = ([(1, Running), (1, Running)], 2 * Hour)"
  by code_simp

end
