(* ===== verification/Dbconnpool.thy ===== *)
theory Dbconnpool
  imports Prelude
begin

text \<open>
  The SQLite connection pool (\<^verbatim>\<open>internal/dbconnpool/dbconnpool.go\<close>): validation of the configuration,
  creation of a connection with every failure path, and the lock-free \<^verbatim>\<open>Get\<close>, \<^verbatim>\<open>Put\<close>, \<^verbatim>\<open>Close\<close> and
  monitor as programs of goroutines that interleave at every atomic operation, channel operation and
  connection close.  A goroutine is its program counter; the shared part is the pool.
\<close>

section \<open>Configuration\<close>

record pool_config =
  pc_DriverName :: string
  pc_ReadOnly :: bool
  pc_MaxConnections :: int
  pc_MinIdleConnections :: int
  pc_ThumbsDBPath :: string
  pc_MonitorInterval :: int
  pc_HealthCheckThreshold :: int

datatype pool_error = ErrPoolClosed | ErrDriverName | ErrMaxConnections | ErrMinIdleNegative
  | ErrMinIdleTooLarge | ErrOpen | ErrConnect | ErrPing | ErrCheckThumbs | ErrAttachThumbs
  | ErrThumbsPragmas | ErrPrepare | ErrAcquire

definition defaultHealthCheck :: int where
  "defaultHealthCheck = 30 * 1000000000"

definition defaultShutdownWait :: int where
  "defaultShutdownWait = 5 * 1000000000"

definition closeWaitTimeout :: "int \<Rightarrow> int" where
  "closeWaitTimeout shutdownWait = (if shutdownWait > 0 then shutdownWait else defaultShutdownWait)"

definition healthCheck_of :: "int \<Rightarrow> int" where
  "healthCheck_of threshold =
     (let h = max threshold 0 in if h = 0 \<and> threshold = 0 then defaultHealthCheck else h)"

section \<open>Connections\<close>

text \<open>\<^term>\<open>cc_idleSince\<close> is \<^term>\<open>None\<close> for the zero time of a connection that was never put back;
  \<^term>\<open>cc_id\<close> tells connections apart.\<close>

record cpconn =
  cc_id :: nat
  cc_idleSince :: "int option"
  cc_putCount :: int

definition rwRecycleMemBytes :: int where "rwRecycleMemBytes = 10 * 1024 * 1024"
definition rwRecyclePutCount :: int where "rwRecyclePutCount = 100"

text \<open>What the driver answers while a connection is set up, and the calls it sees.\<close>

record conn_replies =
  cr_connect :: bool
  cr_ping :: bool
  cr_thumbs :: "bool option"  \<comment> \<open>attached already, or the query failed\<close>
  cr_attach :: bool
  cr_pragmas :: bool
  cr_prepare :: bool

datatype conn_call = CConnect | CPing | CThumbsList | CAttach string | CPragmas string | CPrepare | CClose

definition thumbs_target :: "string \<Rightarrow> string \<Rightarrow> string" where
  "thumbs_target attachURI path =
     (if attachURI = [] \<and> path \<noteq> [] then ''file:'' @ path else attachURI)"

definition newCpConn ::
  "bool \<Rightarrow> bool \<Rightarrow> string \<Rightarrow> string \<Rightarrow> conn_replies \<Rightarrow> conn_call list \<times> pool_error option" where
  "newCpConn readOnly isMemory attachURI path r =
     (if \<not> cr_connect r then ([CConnect], Some ErrConnect)
      else if \<not> cr_ping r then ([CConnect, CPing, CClose], Some ErrPing)
      else
        let want = attachURI \<noteq> [] \<or> path \<noteq> [];
            calls = [CConnect, CPing] @ (if want then [CThumbsList] else [])
        in if want \<and> cr_thumbs r = None then (calls @ [CClose], Some ErrCheckThumbs)
        else
          let attached = want \<and> cr_thumbs r = Some True;
              target = thumbs_target attachURI path;
              attach = target \<noteq> [] \<and> \<not> attached;
              calls = calls @ (if attach then [CAttach target] else [])
          in if attach \<and> \<not> cr_attach r then (calls @ [CClose], Some ErrAttachThumbs)
          else
            let pragmas = attach \<and> \<not> readOnly;
                calls = calls @ (if pragmas then [CPragmas (if isMemory then ''MEMORY'' else ''WAL'')] else [])
            in if pragmas \<and> \<not> cr_pragmas r then (calls @ [CClose], Some ErrThumbsPragmas)
            else if \<not> cr_prepare r then (calls @ [CPrepare, CClose], Some ErrPrepare)
            else (calls @ [CPrepare], None))"

section \<open>The pool\<close>

record pool =
  pl_cfg :: pool_config
  pl_isMemory :: bool
  pl_thumbsURI :: string
  pl_threshold :: int
  pl_chan :: "cpconn list"
  pl_chClosed :: bool
  pl_num :: int
  pl_closed :: bool
  pl_done :: bool
  pl_ctxDone :: bool
  pl_next :: nat  \<comment> \<open>number of the next connection\<close>
  pl_panic :: bool

abbreviation pl_max :: "pool \<Rightarrow> int" where "pl_max p \<equiv> pc_MaxConnections (pl_cfg p)"
abbreviation pl_minIdle :: "pool \<Rightarrow> int" where "pl_minIdle p \<equiv> pc_MinIdleConnections (pl_cfg p)"

text \<open>Opening the memory-VFS slot or the file, \<^term>\<open>opened\<close>, gives the ATTACH address of the thumbs
  image in the first case.\<close>

definition NewDbSQLConnPool ::
  "pool_config \<Rightarrow> (bool \<times> string) option \<Rightarrow> pool_error + pool" where
  "NewDbSQLConnPool cfg opened =
     (if pc_DriverName cfg = [] then Inl ErrDriverName
      else if pc_MaxConnections cfg \<le> 0 then Inl ErrMaxConnections
      else if pc_MinIdleConnections cfg < 0 then Inl ErrMinIdleNegative
      else if pc_MinIdleConnections cfg > pc_MaxConnections cfg then Inl ErrMinIdleTooLarge
      else (case opened of
          None \<Rightarrow> Inl ErrOpen
        | Some (isMemory, uri) \<Rightarrow> Inr \<lparr>pl_cfg = cfg, pl_isMemory = isMemory, pl_thumbsURI = uri,
            pl_threshold = healthCheck_of (pc_HealthCheckThreshold cfg), pl_chan = [], pl_chClosed = False,
            pl_num = 0, pl_closed = False, pl_done = False, pl_ctxDone = False, pl_next = 0,
            pl_panic = False\<rparr>))"

definition needsHealthCheck :: "pool \<Rightarrow> int \<Rightarrow> cpconn \<Rightarrow> bool" where
  "needsHealthCheck p now c \<longleftrightarrow>
     pl_threshold p = 0 \<or>
     (case cc_idleSince c of None \<Rightarrow> False | Some t \<Rightarrow> now - t > pl_threshold p)"

definition reserveSlot :: "pool \<Rightarrow> bool \<times> pool" where
  "reserveSlot p = (if pl_num p \<ge> pl_max p then (False, p) else (True, p\<lparr>pl_num := pl_num p + 1\<rparr>))"

text \<open>\<^term>\<open>mem\<close> is what SQLite reports about the memory of the connection, if it does.\<close>

definition shouldRecycleRWOnPut :: "pool \<Rightarrow> int option \<Rightarrow> cpconn \<Rightarrow> bool" where
  "shouldRecycleRWOnPut p mem c \<longleftrightarrow>
     \<not> pc_ReadOnly (pl_cfg p) \<and>
     (cc_putCount c > rwRecyclePutCount \<or> (\<exists>m. mem = Some m \<and> m > rwRecycleMemBytes))"

definition release_slot :: "pool \<Rightarrow> pool" where
  "release_slot p = p\<lparr>pl_num := pl_num p - 1\<rparr>"

section \<open>Goroutines\<close>

text \<open>The goroutine of a client is in \<^verbatim>\<open>Get\<close>, holds a connection, or is in \<^verbatim>\<open>Put\<close> or \<^verbatim>\<open>Close\<close>; one
  goroutine is the monitor.  Where the code closes a connection and then adjusts the counter, the
  program counter between the two is a \<^verbatim>\<open>Drop\<close>; where it adjusts the counter first, the connection
  that is still open is \<^verbatim>\<open>PutUnclosed\<close>.\<close>

datatype pc =
    GetRetry | GetFast | GetSlot | GetCreate | GetFailed pool_error | GetBlocked | GetGot cpconn
  | GetDrop | Held cpconn
  | PutCheck cpconn | PutSend cpconn | PutUnclosed cpconn | PutDrop
  | CloseCas | CloseSignal | CloseDrain | CloseDrop | CloseWait | CloseEnd
  | MonIdle | MonGrow int | MonCreate int | MonFailed | MonSend int cpconn | MonDropGrow int
  | MonExcess | MonShrink int | MonDropShrink int
  | Ended "pool_error option"

definition new_conn :: "pool \<Rightarrow> cpconn" where
  "new_conn p = \<lparr>cc_id = pl_next p, cc_idleSince = None, cc_putCount = 0\<rparr>"

definition creates :: "pool \<Rightarrow> conn_replies \<Rightarrow> pool_error option" where
  "creates p r = snd (newCpConn (pc_ReadOnly (pl_cfg p)) (pl_isMemory p) (pl_thumbsURI p)
     (pc_ThumbsDBPath (pl_cfg p)) r)"

text \<open>\<^verbatim>\<open>Get\<close>.\<close>

inductive get_step :: "pool \<Rightarrow> pc \<Rightarrow> pool \<Rightarrow> pc \<Rightarrow> bool" where
  get_closed: "pl_closed p \<Longrightarrow> get_step p GetRetry p (Ended (Some ErrPoolClosed))"
| get_open: "\<not> pl_closed p \<Longrightarrow> get_step p GetRetry p GetFast"
| get_fast: "pl_chan p = c # cs \<Longrightarrow> get_step p GetFast (p\<lparr>pl_chan := cs\<rparr>) (GetGot c)"
| get_fast_closed: "pl_chan p = [] \<Longrightarrow> pl_chClosed p \<Longrightarrow> get_step p GetFast p (Ended (Some ErrPoolClosed))"
| get_fast_done: "pl_done p \<Longrightarrow> get_step p GetFast p (Ended (Some ErrPoolClosed))"
| get_fast_none: "pl_chan p = [] \<Longrightarrow> \<not> pl_chClosed p \<Longrightarrow> \<not> pl_done p \<Longrightarrow> get_step p GetFast p GetSlot"
| get_slot: "reserveSlot p = (ok, p') \<Longrightarrow>
     get_step p GetSlot p' (if ok then GetCreate else GetBlocked)"
| get_created: "creates p r = None \<Longrightarrow>
     get_step p GetCreate (p\<lparr>pl_next := pl_next p + 1\<rparr>) (Held (new_conn p))"
| get_create_failed: "creates p r = Some e \<Longrightarrow> get_step p GetCreate p (GetFailed e)"
| get_failed: "get_step p (GetFailed e) (release_slot p) (Ended (Some e))"
| get_blocked: "pl_chan p = c # cs \<Longrightarrow> get_step p GetBlocked (p\<lparr>pl_chan := cs\<rparr>) (GetGot c)"
| get_blocked_closed: "pl_chan p = [] \<Longrightarrow> pl_chClosed p \<Longrightarrow> get_step p GetBlocked p (Ended (Some ErrPoolClosed))"
| get_blocked_done: "pl_done p \<Longrightarrow> get_step p GetBlocked p (Ended (Some ErrPoolClosed))"
| get_blocked_ctx: "pl_ctxDone p \<Longrightarrow> get_step p GetBlocked p (Ended (Some ErrAcquire))"
| get_healthy: "needsHealthCheck p now c \<longrightarrow> ping_ok \<Longrightarrow> get_step p (GetGot c) p (Held c)"
| get_unhealthy: "needsHealthCheck p now c \<Longrightarrow> get_step p (GetGot c) p GetDrop"
| get_drop: "get_step p GetDrop (release_slot p) GetRetry"

text \<open>\<^verbatim>\<open>Put\<close> after it has counted the return.\<close>

inductive put_step :: "pool \<Rightarrow> pc \<Rightarrow> pool \<Rightarrow> pc \<Rightarrow> bool" where
  put_closed: "pl_closed p \<Longrightarrow> put_step p (PutCheck c) (release_slot p) (PutUnclosed c)"
| put_recycle: "\<not> pl_closed p \<Longrightarrow> shouldRecycleRWOnPut p mem c \<Longrightarrow>
     put_step p (PutCheck c) (release_slot p) (PutUnclosed c)"
| put_keep: "\<not> pl_closed p \<Longrightarrow> \<not> shouldRecycleRWOnPut p mem c \<Longrightarrow>
     put_step p (PutCheck c) p (PutSend (c\<lparr>cc_idleSince := Some now\<rparr>))"
| put_send: "\<not> pl_chClosed p \<Longrightarrow> int (length (pl_chan p)) < pl_max p \<Longrightarrow>
     put_step p (PutSend c) (p\<lparr>pl_chan := pl_chan p @ [c]\<rparr>) (Ended None)"
| put_panic: "pl_chClosed p \<Longrightarrow> put_step p (PutSend c) (p\<lparr>pl_panic := True\<rparr>) (PutSend c)"
| put_done: "pl_done p \<Longrightarrow> put_step p (PutSend c) (release_slot p) (PutUnclosed c)"
| put_full: "\<not> pl_chClosed p \<Longrightarrow> \<not> pl_done p \<Longrightarrow> \<not> int (length (pl_chan p)) < pl_max p \<Longrightarrow>
     put_step p (PutSend c) p PutDrop"
| put_drop: "put_step p PutDrop (release_slot p) (Ended None)"
| put_unclosed: "put_step p (PutUnclosed c) p (Ended None)"

text \<open>\<^verbatim>\<open>Close\<close>.\<close>

inductive close_step :: "pool \<Rightarrow> pc \<Rightarrow> pool \<Rightarrow> pc \<Rightarrow> bool" where
  close_again: "pl_closed p \<Longrightarrow> close_step p CloseCas p (Ended (Some ErrPoolClosed))"
| close_first: "\<not> pl_closed p \<Longrightarrow> close_step p CloseCas (p\<lparr>pl_closed := True\<rparr>) CloseSignal"
| close_signal: "close_step p CloseSignal (p\<lparr>pl_done := True\<rparr>) CloseDrain"
| close_drain: "pl_chan p = c # cs \<Longrightarrow> close_step p CloseDrain (p\<lparr>pl_chan := cs\<rparr>) CloseDrop"
| close_drop: "close_step p CloseDrop (release_slot p) CloseDrain"
| close_drained: "pl_chan p = [] \<Longrightarrow> close_step p CloseDrain p CloseWait"
| close_waited: "pl_num p = 0 \<or> deadline_over \<Longrightarrow> close_step p CloseWait (p\<lparr>pl_chClosed := True\<rparr>) CloseEnd"
| close_end: "close_step p CloseEnd p (Ended None)"

text \<open>The monitor.\<close>

inductive monitor_step :: "pool \<Rightarrow> pc \<Rightarrow> pool \<Rightarrow> pc \<Rightarrow> bool" where
  mon_stop: "pl_done p \<or> pl_ctxDone p \<or> pl_closed p \<Longrightarrow> monitor_step p MonIdle p (Ended None)"
| mon_tick: "\<not> pl_closed p \<Longrightarrow>
     monitor_step p MonIdle p (MonGrow (min (pl_minIdle p - int (length (pl_chan p))) (pl_max p - pl_num p)))"
| mon_slot: "n > 0 \<Longrightarrow> reserveSlot p = (ok, p') \<Longrightarrow>
     monitor_step p (MonGrow n) p' (if ok then MonCreate (n - 1) else MonExcess)"
| mon_grown: "n \<le> 0 \<Longrightarrow> monitor_step p (MonGrow n) p MonExcess"
| mon_created: "creates p r = None \<Longrightarrow>
     monitor_step p (MonCreate n) (p\<lparr>pl_next := pl_next p + 1\<rparr>) (MonSend n (new_conn p))"
| mon_create_failed: "creates p r = Some e \<Longrightarrow> monitor_step p (MonCreate n) p MonFailed"
| mon_failed: "monitor_step p MonFailed (release_slot p) MonExcess"
| mon_send: "\<not> pl_chClosed p \<Longrightarrow> int (length (pl_chan p)) < pl_max p \<Longrightarrow>
     monitor_step p (MonSend n c) (p\<lparr>pl_chan := pl_chan p @ [c]\<rparr>) (MonGrow n)"
| mon_panic: "pl_chClosed p \<Longrightarrow> monitor_step p (MonSend n c) (p\<lparr>pl_panic := True\<rparr>) (MonSend n c)"
| mon_full: "\<not> pl_chClosed p \<Longrightarrow> \<not> int (length (pl_chan p)) < pl_max p \<Longrightarrow>
     monitor_step p (MonSend n c) p (MonDropGrow n)"
| mon_drop_grow: "monitor_step p (MonDropGrow n) (release_slot p) (MonGrow n)"
| mon_excess: "monitor_step p MonExcess p (MonShrink (int (length (pl_chan p)) - pl_minIdle p))"
| mon_shrink: "n > 0 \<Longrightarrow> pl_chan p = c # cs \<Longrightarrow>
     monitor_step p (MonShrink n) (p\<lparr>pl_chan := cs\<rparr>) (MonDropShrink (n - 1))"
| mon_shrink_nil: "n > 0 \<Longrightarrow> pl_chan p = [] \<Longrightarrow> pl_chClosed p \<Longrightarrow>
     monitor_step p (MonShrink n) (p\<lparr>pl_panic := True\<rparr>) (MonShrink n)"
| mon_drop_shrink: "monitor_step p (MonDropShrink n) (release_slot p) (MonShrink n)"
| mon_shrunk: "n \<le> 0 \<or> (pl_chan p = [] \<and> \<not> pl_chClosed p) \<Longrightarrow> monitor_step p (MonShrink n) p MonIdle"

text \<open>A step of any goroutine.\<close>

inductive pc_step :: "pool \<Rightarrow> pc \<Rightarrow> pool \<Rightarrow> pc \<Rightarrow> bool" where
  in_get: "get_step p c p' c' \<Longrightarrow> pc_step p c p' c'"
| in_put: "put_step p c p' c' \<Longrightarrow> pc_step p c p' c'"
| in_close: "close_step p c p' c' \<Longrightarrow> pc_step p c p' c'"
| in_monitor: "monitor_step p c p' c' \<Longrightarrow> pc_step p c p' c'"

text \<open>The system: a step of a goroutine that is running, or of a client that calls \<^verbatim>\<open>Get\<close> or
  \<^verbatim>\<open>Close\<close>, puts back a connection it holds, or cancels the context.\<close>

inductive run_step :: "pool \<times> pc list \<Rightarrow> pool \<times> pc list \<Rightarrow> bool" where
  run: "pc_step p c p' c' \<Longrightarrow> run_step (p, gs @ c # hs) (p', gs @ c' # hs)"

inductive client_step :: "pool \<times> pc list \<Rightarrow> pool \<times> pc list \<Rightarrow> bool" where
  Get: "client_step (p, gs) (p, GetRetry # gs)"
| Put: "client_step (p, gs @ Held c # hs)
     (p, gs @ PutCheck (c\<lparr>cc_putCount := cc_putCount c + 1\<rparr>) # hs)"
| Put_nil: "client_step (p, gs) (p, gs)"
| Close: "client_step (p, gs) (p, CloseCas # gs)"
| cancel: "client_step (p, gs) (p\<lparr>pl_ctxDone := True\<rparr>, gs)"

definition pool_start :: "pool \<Rightarrow> pool \<times> pc list" where
  "pool_start p = (p, if pc_MonitorInterval (pl_cfg p) > 0 then [MonIdle] else [])"

abbreviation pool_reachable :: "pool \<times> pc list \<Rightarrow> pool \<times> pc list \<Rightarrow> bool" where
  "pool_reachable \<equiv> (sup run_step client_step)\<^sup>*\<^sup>*"

end
