(* ===== verification/Dbconnpool_Correct.thy ===== *)
theory Dbconnpool_Correct
  imports Dbconnpool "HOL-Library.Multiset"
begin

text \<open>
  The connection pool under every interleaving: the counter is exact and bounded, no connection is
  ever in two places, and the branches for a full channel are dead; what goes wrong when a slot is
  freed without a wake-up and when \<^verbatim>\<open>Put\<close> races with \<^verbatim>\<open>Close\<close>; the set-up of a connection leaks
  nothing.
\<close>

section \<open>The account of slots and connections\<close>

fun slots :: "pc \<Rightarrow> int" where
  "slots GetCreate = 1" | "slots (GetFailed _) = 1" | "slots (GetGot _) = 1" | "slots GetDrop = 1"
| "slots (Held _) = 1" | "slots (PutCheck _) = 1" | "slots (PutSend _) = 1" | "slots PutDrop = 1"
| "slots CloseDrop = 1" | "slots (MonCreate _) = 1" | "slots MonFailed = 1" | "slots (MonSend _ _) = 1"
| "slots (MonDropGrow _) = 1" | "slots (MonDropShrink _) = 1"
| "slots _ = 0"

fun conns :: "pc \<Rightarrow> nat list" where
  "conns (GetGot c) = [cc_id c]" | "conns (Held c) = [cc_id c]" | "conns (PutCheck c) = [cc_id c]"
| "conns (PutSend c) = [cc_id c]" | "conns (PutUnclosed c) = [cc_id c]" | "conns (MonSend _ c) = [cc_id c]"
| "conns _ = []"

definition all_slots :: "pc list \<Rightarrow> int" where "all_slots gs = sum_list (map slots gs)"
definition all_conns :: "pool \<times> pc list \<Rightarrow> nat list" where
  "all_conns s = map cc_id (pl_chan (fst s)) @ concat (map conns (snd s))"
definition unclosed :: "pc list \<Rightarrow> nat" where
  "unclosed gs = length (filter (\<lambda>g. case g of PutUnclosed _ \<Rightarrow> True | _ \<Rightarrow> False) gs)"

lemma all_slots_simps [simp]:
  "all_slots [] = 0" "all_slots (g # gs) = slots g + all_slots gs"
  "all_slots (gs @ hs) = all_slots gs + all_slots hs"
  by (simp_all add: all_slots_def)

lemma slots_nonneg [simp]: "0 \<le> slots g"
  by (cases g) simp_all

lemma all_slots_nonneg [simp]: "0 \<le> all_slots gs"
  by (induction gs) (simp_all add: add_nonneg_nonneg)

lemma all_slots_member: "g \<in> set gs \<Longrightarrow> slots g \<le> all_slots gs"
  by (induction gs) (auto intro: add_increasing add_increasing2)

definition pool_ok :: "pool \<times> pc list \<Rightarrow> bool" where
  "pool_ok s \<longleftrightarrow> pl_num (fst s) = int (length (pl_chan (fst s))) + all_slots (snd s) \<and>
     pl_num (fst s) \<le> pl_max (fst s) \<and> distinct (all_conns s) \<and> (\<forall>i\<in>set (all_conns s). i < pl_next (fst s))"

lemma release_slot_simps [simp]:
  "pl_num (release_slot p) = pl_num p - 1" "pl_chan (release_slot p) = pl_chan p"
  "pl_cfg (release_slot p) = pl_cfg p" "pl_next (release_slot p) = pl_next p"
  "pl_chClosed (release_slot p) = pl_chClosed p" "pl_closed (release_slot p) = pl_closed p"
  "pl_done (release_slot p) = pl_done p" "pl_ctxDone (release_slot p) = pl_ctxDone p"
  by (simp_all add: release_slot_def)

lemma new_conn_id [simp]: "cc_id (new_conn p) = pl_next p"
  by (simp add: new_conn_def)

lemmas pc_elims = get_step.cases put_step.cases close_step.cases monitor_step.cases

lemma pc_step_cfg: "pc_step p c p' c' \<Longrightarrow> pl_cfg p' = pl_cfg p"
  by (erule pc_step.cases; elim pc_elims) (auto simp: reserveSlot_def split: if_splits)

lemma pc_step_slots:
  "pc_step p c p' c' \<Longrightarrow>
   pl_num p' - int (length (pl_chan p')) - slots c' = pl_num p - int (length (pl_chan p)) - slots c"
  by (erule pc_step.cases; elim pc_elims) (auto simp: reserveSlot_def split: if_splits)

lemma pc_step_max: "pc_step p c p' c' \<Longrightarrow> pl_num p \<le> pl_max p \<Longrightarrow> pl_num p' \<le> pl_max p'"
  by (erule pc_step.cases; elim pc_elims) (auto simp: reserveSlot_def split: if_splits)

definition ids :: "pool \<Rightarrow> pc \<Rightarrow> nat multiset" where
  "ids p c = mset (map cc_id (pl_chan p)) + mset (conns c)"

lemma pc_step_ids:
  "pc_step p c p' c' \<Longrightarrow>
   (ids p' c' \<subseteq># ids p c \<and> pl_next p' = pl_next p) \<or>
   (ids p' c' = add_mset (pl_next p) (ids p c) \<and> pl_next p' = pl_next p + 1)"
  by (erule pc_step.cases; elim pc_elims) (auto simp: ids_def reserveSlot_def split: if_splits)

lemma all_conns_mset:
  "mset (all_conns (p, gs @ c # hs)) = ids p c + mset (concat (map conns (gs @ hs)))"
  by (simp add: all_conns_def ids_def)

lemma all_conns_set:
  "set (all_conns (p, gs @ c # hs)) = set_mset (ids p c + mset (concat (map conns (gs @ hs))))"
  by (metis all_conns_mset set_mset_mset)

lemma distinct_mset_le: "mset xs \<subseteq># mset ys \<Longrightarrow> distinct ys \<Longrightarrow> distinct xs"
  by (metis distinct_append mset_append mset_eq_imp_distinct_iff mset_subset_eq_exists_conv ex_mset)

lemma run_step_ok:
  assumes "run_step s s'" "pool_ok s" shows "pool_ok s'"
  using assms
proof (induction rule: run_step.induct)
  case (run p c p' c' gs hs)
  let ?rest = "mset (concat (map conns (gs @ hs)))"
  have num: "pl_num p = int (length (pl_chan p)) + all_slots (gs @ c # hs)" "pl_num p \<le> pl_max p"
    and dist: "distinct (all_conns (p, gs @ c # hs))"
    and fresh: "\<forall>i\<in>#ids p c + ?rest. i < pl_next p"
    using run(2) unfolding pool_ok_def all_conns_set by simp_all
  have ids: "distinct (all_conns (p', gs @ c' # hs)) \<and> (\<forall>i\<in>#ids p' c' + ?rest. i < pl_next p')"
    using pc_step_ids [OF run(1)]
  proof
    assume le: "ids p' c' \<subseteq># ids p c \<and> pl_next p' = pl_next p"
    then have "ids p' c' + ?rest \<subseteq># ids p c + ?rest" by simp
    with distinct_mset_le [OF _ dist] fresh le mset_subset_eqD show ?thesis
      by (metis all_conns_mset)
  next
    assume new: "ids p' c' = add_mset (pl_next p) (ids p c) \<and> pl_next p' = pl_next p + 1"
    then have m: "mset (all_conns (p', gs @ c' # hs)) = mset (pl_next p # all_conns (p, gs @ c # hs))"
      by (simp only: all_conns_mset mset.simps) simp
    have "pl_next p \<notin> set (all_conns (p, gs @ c # hs))"
      using fresh by (metis all_conns_mset less_irrefl set_mset_mset)
    then have "distinct (pl_next p # all_conns (p, gs @ c # hs))" using dist by simp
    with mset_eq_imp_distinct_iff [OF m] fresh new show ?thesis by (auto simp: less_Suc_eq)
  qed
  show ?case
    using pc_step_slots [OF run(1)] pc_step_max [OF run(1)] num ids
    unfolding pool_ok_def all_conns_set by simp
qed

lemma client_step_ok:
  assumes "client_step s s'" "pool_ok s" shows "pool_ok s'"
  using assms
  by (induction rule: client_step.induct) (auto simp: pool_ok_def all_conns_def)

lemma reachable_ok: "pool_reachable s0 s \<Longrightarrow> pool_ok s0 \<Longrightarrow> pool_ok s"
  by (induction rule: rtranclp_induct) (auto intro: run_step_ok client_step_ok)

lemma start_ok:
  "NewDbSQLConnPool cfg opened = Inr p \<Longrightarrow> pool_ok (pool_start p)"
  by (auto simp: NewDbSQLConnPool_def pool_ok_def pool_start_def all_conns_def
      split: if_splits option.splits)

lemma reachable_cfg: "pool_reachable s0 s \<Longrightarrow> pl_cfg (fst s) = pl_cfg (fst s0)"
proof (induction rule: rtranclp_induct)
  case (step s s')
  have "pl_cfg (fst s') = pl_cfg (fst s)"
    using step(2) by (auto elim!: run_step.cases client_step.cases dest: pc_step_cfg)
  with step(3) show ?case by simp
qed simp

lemma conns_slots: "int (length (conns g)) \<le> slots g + (case g of PutUnclosed _ \<Rightarrow> 1 | _ \<Rightarrow> 0)"
  by (cases g) simp_all

lemma open_bound: "int (length (concat (map conns gs))) \<le> all_slots gs + int (unclosed gs)"
proof (induction gs)
  case (Cons g gs)
  with conns_slots [of g] show ?case by (cases g) (simp_all add: unclosed_def)
qed (simp add: unclosed_def)


section \<open>Scenarios\<close>

text \<open>A read-write pool of one connection without a monitor, and a driver that answers.\<close>

definition rw_cfg :: pool_config where
  "rw_cfg = \<lparr>pc_DriverName = ''sqlite3'', pc_ReadOnly = False, pc_MaxConnections = 1,
     pc_MinIdleConnections = 0, pc_ThumbsDBPath = [], pc_MonitorInterval = 0, pc_HealthCheckThreshold = 0\<rparr>"

definition rw_pool :: pool where
  "rw_pool = projr (NewDbSQLConnPool rw_cfg (Some (False, [])))"

definition good_replies :: conn_replies where
  "good_replies = \<lparr>cr_connect = True, cr_ping = True, cr_thumbs = Some False, cr_attach = True,
     cr_pragmas = True, cr_prepare = True\<rparr>"

lemma rw_pool_New: "NewDbSQLConnPool rw_cfg (Some (False, [])) = Inr rw_pool"
  by (simp add: rw_pool_def NewDbSQLConnPool_def rw_cfg_def)

lemma rw_pool_fields [simp]:
  "pl_cfg rw_pool = rw_cfg" "pl_chan rw_pool = []" "pl_num rw_pool = 0" "pl_closed rw_pool = False"
  "pl_chClosed rw_pool = False" "pl_done rw_pool = False" "pl_thumbsURI rw_pool = []"
  "pl_next rw_pool = 0" "pl_panic rw_pool = False"
  by (simp_all add: rw_pool_def NewDbSQLConnPool_def rw_cfg_def)

lemma rw_cfg_fields [simp]:
  "pc_MaxConnections rw_cfg = 1" "pc_ReadOnly rw_cfg = False" "pc_ThumbsDBPath rw_cfg = []"
  "pc_MonitorInterval rw_cfg = 0"
  by (simp_all add: rw_cfg_def)

lemma reach_run:
  assumes "pool_reachable s0 (p, gs @ c # hs)" "pc_step p c p' c'"
  shows "pool_reachable s0 (p', gs @ c' # hs)"
  by (rule rtranclp.rtrancl_into_rtrancl [OF assms(1)]) (simp add: run_step.run [OF assms(2)])

lemmas reach_run1 = reach_run [where gs = "[]", unfolded append_Nil]
lemmas reach_run2 = reach_run [where gs = "[g]" for g, unfolded append_Cons append_Nil]

lemma reach_client:
  "pool_reachable s0 s \<Longrightarrow> client_step s s' \<Longrightarrow> pool_reachable s0 s'"
  by (rule rtranclp.rtrancl_into_rtrancl, assumption) simp

text \<open>A client that holds the only connection of the pool.\<close>

definition one_open :: pool where
  "one_open = rw_pool\<lparr>pl_num := 1, pl_next := 1\<rparr>"

lemma rw_creates: "creates (rw_pool\<lparr>pl_num := n\<rparr>) good_replies = None"
  by (simp add: creates_def newCpConn_def good_replies_def Let_def thumbs_target_def)

lemma one_holder: "pool_reachable (pool_start rw_pool) (one_open, [Held (new_conn rw_pool)])"
proof -
  let ?s0 = "pool_start rw_pool"
  have "pool_reachable ?s0 (rw_pool, [])" by (simp add: pool_start_def)
  then have "pool_reachable ?s0 (rw_pool, [GetRetry])" by (rule reach_client) (rule client_step.Get)
  then have "pool_reachable ?s0 (rw_pool, [GetFast])" by (rule reach_run1) (simp add: in_get [OF get_step.get_open])
  then have "pool_reachable ?s0 (rw_pool, [GetSlot])" by (rule reach_run1) (simp add: in_get [OF get_step.get_fast_none])
  then have "pool_reachable ?s0 (rw_pool\<lparr>pl_num := 1\<rparr>, [GetCreate])"
    by (rule reach_run1) (use in_get [OF get_step.get_slot [of rw_pool True "rw_pool\<lparr>pl_num := 1\<rparr>"]] in \<open>simp add: reserveSlot_def\<close>)
  then show ?thesis
    by (rule reach_run1) (use in_get [OF get_step.get_created [OF rw_creates [of 1]]] in \<open>simp add: one_open_def new_conn_def\<close>)
qed

text \<open>The holder puts its connection back with more memory in use than is allowed while another client
  has found the pool at its maximum.\<close>

lemma holder_and_waiter:
  "pool_reachable (pool_start rw_pool) (one_open, [GetBlocked, Held (new_conn rw_pool)])"
proof -
  let ?s0 = "pool_start rw_pool" and ?h = "Held (new_conn rw_pool)"
  have f: "pl_chan one_open = []" "\<not> pl_closed one_open" "\<not> pl_chClosed one_open" "\<not> pl_done one_open"
    "pl_num one_open = 1" "pl_cfg one_open = rw_cfg"
    by (simp_all add: one_open_def)
  have "pool_reachable ?s0 (one_open, [GetRetry, ?h])"
    by (rule reach_client [OF one_holder]) (rule client_step.Get)
  then have "pool_reachable ?s0 (one_open, [GetFast, ?h])" by (rule reach_run1) (simp add: in_get [OF get_step.get_open] f)
  then have "pool_reachable ?s0 (one_open, [GetSlot, ?h])" by (rule reach_run1) (simp add: in_get [OF get_step.get_fast_none] f)
  then show ?thesis
    by (rule reach_run1) (use in_get [OF get_step.get_slot [of one_open False one_open]] in \<open>simp add: reserveSlot_def f\<close>)
qed

inductive_cases blocked_cases:
  "get_step p GetBlocked p' c'" "put_step p GetBlocked p' c'"
  "close_step p GetBlocked p' c'" "monitor_step p GetBlocked p' c'"

inductive_cases ended_cases:
  "get_step p (Ended e) p' c'" "put_step p (Ended e) p' c'"
  "close_step p (Ended e) p' c'" "monitor_step p (Ended e) p' c'"

lemma blocked_stuck:
  assumes "pl_chan p = []" "\<not> pl_chClosed p" "\<not> pl_done p" "\<not> pl_ctxDone p"
  shows "\<not> run_step (p, [GetBlocked, Ended e]) s'"
  using assms
  by (auto elim!: run_step.cases pc_step.cases blocked_cases ended_cases simp: Cons_eq_append_conv)

definition after_recycle :: pool where "after_recycle = release_slot one_open"

lemma after_recycle_reachable:
  "pool_reachable (pool_start rw_pool) (after_recycle, [GetBlocked, Ended None])"
proof -
  let ?s0 = "pool_start rw_pool" and ?c = "(new_conn rw_pool)\<lparr>cc_putCount := 1\<rparr>"
  have "client_step (one_open, [GetBlocked] @ Held (new_conn rw_pool) # [])
      (one_open, [GetBlocked] @ PutCheck ((new_conn rw_pool)\<lparr>cc_putCount := cc_putCount (new_conn rw_pool) + 1\<rparr>) # [])"
    by (rule client_step.Put)
  then have "client_step (one_open, [GetBlocked, Held (new_conn rw_pool)]) (one_open, [GetBlocked, PutCheck ?c])"
    by (simp add: new_conn_def)
  from reach_client [OF holder_and_waiter this]
  have "pool_reachable ?s0 (after_recycle, [GetBlocked, PutUnclosed ?c])" unfolding after_recycle_def
    by (rule reach_run2, intro in_put [OF put_step.put_recycle [where mem = "Some (rwRecycleMemBytes + 1)"]])
      (simp_all add: one_open_def shouldRecycleRWOnPut_def)
  then show ?thesis by (rule reach_run2) (rule in_put [OF put_step.put_unclosed])
qed

text \<open>The holder is in \<^verbatim>\<open>Put\<close>, past its check of the closed flag, when another client closes the pool.\<close>

definition closing :: pool where "closing = one_open\<lparr>pl_closed := True, pl_done := True\<rparr>"
abbreviation put_back :: cpconn where
  "put_back \<equiv> (new_conn rw_pool)\<lparr>cc_putCount := 1, cc_idleSince := Some 0\<rparr>"

lemma put_and_close:
  "pool_reachable (pool_start rw_pool) (closing, [CloseWait, PutSend put_back])"
proof -
  let ?s0 = "pool_start rw_pool" and ?c = "(new_conn rw_pool)\<lparr>cc_putCount := 1\<rparr>"
  have "client_step (one_open, [] @ Held (new_conn rw_pool) # [])
      (one_open, [] @ PutCheck ((new_conn rw_pool)\<lparr>cc_putCount := cc_putCount (new_conn rw_pool) + 1\<rparr>) # [])"
    by (rule client_step.Put)
  then have "client_step (one_open, [Held (new_conn rw_pool)]) (one_open, [PutCheck ?c])"
    by (simp add: new_conn_def)
  from reach_client [OF one_holder this]
  have "pool_reachable ?s0 (one_open, [PutSend put_back])"
    by (rule reach_run1)
      (use in_put [OF put_step.put_keep [of one_open None ?c 0]] in
        \<open>simp add: one_open_def shouldRecycleRWOnPut_def rwRecyclePutCount_def new_conn_def\<close>)
  then have "pool_reachable ?s0 (one_open, [CloseCas, PutSend put_back])"
    by (rule reach_client) (rule client_step.Close)
  then have "pool_reachable ?s0 (one_open\<lparr>pl_closed := True\<rparr>, [CloseSignal, PutSend put_back])"
    by (rule reach_run1) (simp add: in_close [OF close_step.close_first] one_open_def)
  then have "pool_reachable ?s0 (closing, [CloseDrain, PutSend put_back])"
    by (rule reach_run1) (use in_close [OF close_step.close_signal [of "one_open\<lparr>pl_closed := True\<rparr>"]] in \<open>simp add: closing_def\<close>)
  then show ?thesis by (rule reach_run1) (simp add: in_close [OF close_step.close_drained] closing_def one_open_def)
qed

section \<open>Properties\<close>

text \<open>C9: In every interleaving of clients, closes and the monitor, the counter of the pool is the
  number of idle connections plus the slots that goroutines hold, it never exceeds the configured
  maximum, a goroutine that returns a connection always finds room in the channel (the branch for a
  full channel is dead), and the database has at most the maximum plus the recycled connections that
  are about to be closed.\<close>

theorem pool_counts_exact:
  assumes "NewDbSQLConnPool cfg opened = Inr p0" and "pool_reachable (pool_start p0) (p, gs)"
  shows "pl_num p = int (length (pl_chan p)) + all_slots gs \<and> 0 \<le> pl_num p \<and>
    pl_num p \<le> pc_MaxConnections cfg \<and>
    (\<forall>c. PutSend c \<in> set gs \<longrightarrow> int (length (pl_chan p)) < pl_max p) \<and>
    (\<forall>n c. MonSend n c \<in> set gs \<longrightarrow> int (length (pl_chan p)) < pl_max p) \<and>
    int (length (all_conns (p, gs))) \<le> pc_MaxConnections cfg + int (unclosed gs)"
proof -
  have ok: "pl_num p = int (length (pl_chan p)) + all_slots gs" "pl_num p \<le> pl_max p"
    using reachable_ok [OF assms(2) start_ok [OF assms(1)]] by (simp_all add: pool_ok_def)
  have cfg: "pl_cfg p = cfg"
    using reachable_cfg [OF assms(2)] assms(1)
    by (auto simp: NewDbSQLConnPool_def pool_start_def split: if_splits option.splits)
  show ?thesis
    using ok cfg open_bound [of gs] all_slots_member [of _ gs]
    by (fastforce simp: all_conns_def)
qed

theorem pool_counts_exact_witness:
  "int (length (all_conns (one_open, [GetBlocked, Held (new_conn rw_pool)]))) \<le> 1"
  using pool_counts_exact [OF rw_pool_New holder_and_waiter] by (simp add: unclosed_def)

text \<open>C25: A connection is in one place only: idle in the channel, or with exactly one goroutine; no
  interleaving hands the same connection to two clients.\<close>

theorem pool_exclusive:
  assumes "NewDbSQLConnPool cfg opened = Inr p0" and "pool_reachable (pool_start p0) (p, gs)"
  shows "distinct (map cc_id (pl_chan p) @ concat (map conns gs))"
  using reachable_ok [OF assms(2) start_ok [OF assms(1)]] by (simp add: pool_ok_def all_conns_def)

theorem pool_exclusive_witness:
  "distinct (map cc_id (pl_chan one_open) @ concat (map conns [GetBlocked, Held (new_conn rw_pool)]))"
  by (rule pool_exclusive [OF rw_pool_New holder_and_waiter])

text \<open>A freed slot wakes nobody: after a read-write connection has been recycled in \<^verbatim>\<open>Put\<close>, the pool
  has no connection at all, yet the client that was waiting at the maximum stays blocked; no
  goroutine can take a step until a client calls again, cancels or closes.\<close>

theorem pool_lost_wakeup:
  "pool_reachable (pool_start rw_pool) (after_recycle, [GetBlocked, Ended None]) \<and>
   pl_num after_recycle = 0 \<and> pl_max after_recycle = 1 \<and> \<not> pl_closed after_recycle \<and>
   (\<forall>s'. \<not> run_step (after_recycle, [GetBlocked, Ended None]) s')"
  using after_recycle_reachable blocked_stuck [of after_recycle None]
  by (simp add: after_recycle_def one_open_def) (simp add: release_slot_def rw_pool_def NewDbSQLConnPool_def rw_cfg_def)

text \<open>\<^verbatim>\<open>Put\<close> and \<^verbatim>\<open>Close\<close> race: a \<^verbatim>\<open>Put\<close> that has passed its test of the closed flag can put its
  connection into the channel after \<^verbatim>\<open>Close\<close> has drained it, so that \<^verbatim>\<open>Close\<close> waits its whole timeout
  for a connection that nobody takes out any more; when it comes later still, it sends on a
  closed channel and panics.\<close>

theorem pool_put_close_race:
  "(\<exists>p. pool_reachable (pool_start rw_pool) (p, [Ended None, Ended None]) \<and>
      pl_chan p = [put_back] \<and> pl_num p = 1) \<and>
   (\<exists>p gs. pool_reachable (pool_start rw_pool) (p, gs) \<and> pl_panic p)"
proof
  let ?s0 = "pool_start rw_pool"
  let ?p = "closing\<lparr>pl_chan := [put_back]\<rparr>"
  have "pool_reachable ?s0 (?p, [CloseWait, Ended None])"
    by (rule reach_run2 [OF put_and_close])
      (use in_put [OF put_step.put_send [of closing put_back]] in \<open>simp add: closing_def one_open_def\<close>)
  then have "pool_reachable ?s0 (?p\<lparr>pl_chClosed := True\<rparr>, [CloseEnd, Ended None])"
    by (rule reach_run1) (rule in_close [OF close_step.close_waited [where deadline_over = True]], simp)
  then have "pool_reachable ?s0 (?p\<lparr>pl_chClosed := True\<rparr>, [Ended None, Ended None])"
    by (rule reach_run1) (rule in_close [OF close_step.close_end])
  then show "\<exists>p. pool_reachable ?s0 (p, [Ended None, Ended None]) \<and> pl_chan p = [put_back] \<and> pl_num p = 1"
    by (rule exI [of _ "?p\<lparr>pl_chClosed := True\<rparr>", OF conjI]) (simp add: closing_def one_open_def)
  have "pool_reachable ?s0 (closing\<lparr>pl_chClosed := True\<rparr>, [CloseEnd, PutSend put_back])"
    by (rule reach_run1 [OF put_and_close]) (rule in_close [OF close_step.close_waited [where deadline_over = True]], simp)
  then have "pool_reachable ?s0 (closing\<lparr>pl_chClosed := True, pl_panic := True\<rparr>, [CloseEnd, PutSend put_back])"
    by (rule reach_run2) (use in_put [OF put_step.put_panic [of "closing\<lparr>pl_chClosed := True\<rparr>" put_back]] in simp)
  then show "\<exists>p gs. pool_reachable ?s0 (p, gs) \<and> pl_panic p" by fastforce
qed

text \<open>Setting up a connection leaks nothing, whatever the driver answers: after a connect that
  succeeded the connection is closed exactly when an error is returned; it attaches the thumbs database
  only when it is configured and not attached already, and a read-only pool runs no pragma.\<close>

theorem newCpConn_no_leak:
  "(case newCpConn readOnly isMemory uri path r of (calls, e) \<Rightarrow>
      hd calls = CConnect \<and>
      (CClose \<in> set calls) = (cr_connect r \<and> e \<noteq> None) \<and> (e = None \<longrightarrow> last calls = CPrepare) \<and>
      (\<forall>a. CAttach a \<in> set calls \<longrightarrow> cr_thumbs r = Some False \<and> a = thumbs_target uri path \<and> a \<noteq> []) \<and>
      (readOnly \<longrightarrow> (\<forall>m. CPragmas m \<notin> set calls)))"
  by (auto simp: newCpConn_def Let_def thumbs_target_def)

theorem newCpConn_no_leak_witness:
  "CClose \<notin> set (fst (newCpConn False False [] ''t.db'' good_replies)) \<and>
   CAttach ''file:t.db'' \<in> set (fst (newCpConn False False [] ''t.db'' good_replies))"
  using newCpConn_no_leak [where readOnly = False and isMemory = False and uri = "[]" and path = "''t.db''" and r = good_replies]
  by (simp add: newCpConn_def good_replies_def thumbs_target_def Let_def)

text \<open>A pool is made exactly from a named driver, a positive maximum and a minimum between zero and
  that maximum; a health-check threshold of zero becomes thirty seconds, so that a connection that was
  just put back is not pinged, and only a negative threshold makes every \<^verbatim>\<open>Get\<close> ping.\<close>

theorem pool_config_checked:
  "(case NewDbSQLConnPool cfg (Some opened) of
      Inl e \<Rightarrow> pc_DriverName cfg = [] \<or> pc_MaxConnections cfg \<le> 0 \<or> pc_MinIdleConnections cfg < 0 \<or>
        pc_MinIdleConnections cfg > pc_MaxConnections cfg
    | Inr p \<Rightarrow> pc_DriverName cfg \<noteq> [] \<and> 0 < pl_max p \<and> 0 \<le> pl_minIdle p \<and> pl_minIdle p \<le> pl_max p \<and>
        needsHealthCheck p now c = (pc_HealthCheckThreshold cfg < 0 \<or>
          (case cc_idleSince c of None \<Rightarrow> False
           | Some t \<Rightarrow> now - t > (if pc_HealthCheckThreshold cfg = 0 then defaultHealthCheck
                                  else pc_HealthCheckThreshold cfg))))"
  by (cases opened)
    (auto simp: NewDbSQLConnPool_def needsHealthCheck_def healthCheck_of_def defaultHealthCheck_def
      Let_def split: option.splits)

end
