(* ===== verification/Mem_Slots.thy ===== *)
theory Mem_Slots
  imports Go_Text "HOL-Library.Multiset"
begin

text \<open>
  The registry of memory-VFS databases of \<^verbatim>\<open>internal/dbconnpool/mem_db.go\<close>: one slot per schema key, shared
  by the pools that open it and counted by references, with the roll-back of an acquisition that
  fails.  The lease (the package \<^verbatim>\<open>testdb\<close>) is represented by what its calls answer; the numbers of
  the leases that are open are a ghost field.
\<close>

section \<open>State\<close>

text \<open>\<^term>\<open>md_id\<close> is the identity of the slot object; its lease carries the same number.\<close>

record mem_slot =
  md_id :: nat
  md_lease :: "nat option"
  md_mainURI :: "bool \<Rightarrow> string"
  md_thumbsURI :: "bool \<Rightarrow> string"
  md_mainReady :: bool
  md_thumbsReady :: bool
  md_refs :: int

record mem_registry =
  mr_slots :: "string \<Rightarrow> mem_slot option"
  mr_next :: nat
  mr_open :: "nat list"

text \<open>The answers of a lease, in the order of the calls: whether it can be created, its main addresses,
  and the thumbs addresses for read-write and read-only access.\<close>

record lease_replies =
  lr_new :: bool
  lr_main :: "bool \<Rightarrow> string"
  lr_thumbsRW :: "string option"
  lr_thumbsRO :: "string option"

datatype mem_error = ErrCreateLease | ErrThumbs | ErrSchemaKey | ErrOpenMain | ErrPingMain

definition empty_registry :: mem_registry where
  "empty_registry = \<lparr>mr_slots = (\<lambda>_. None), mr_next = 0, mr_open = []\<rparr>"

section \<open>Operations\<close>

definition useMemDB :: "string \<Rightarrow> bool \<Rightarrow> bool" where
  "useMemDB dataSourceName testUseMemDB = (if TrimSpace dataSourceName \<noteq> [] then False else testUseMemDB)"

definition fresh_slot :: "nat \<Rightarrow> mem_slot" where
  "fresh_slot i = \<lparr>md_id = i, md_lease = None, md_mainURI = (\<lambda>_. []), md_thumbsURI = (\<lambda>_. []),
     md_mainReady = False, md_thumbsReady = False, md_refs = 0\<rparr>"

text \<open>The roll-back that runs when an acquisition ends without success.\<close>

definition acquire_failed :: "string \<Rightarrow> bool \<Rightarrow> mem_slot \<Rightarrow> mem_registry \<Rightarrow> mem_registry" where
  "acquire_failed key isNew slot m =
     (if isNew \<and> md_refs slot = 0 then
        m\<lparr>mr_open := (case md_lease slot of None \<Rightarrow> mr_open m | Some l \<Rightarrow> removeAll l (mr_open m)),
          mr_slots := (mr_slots m)(key := None)\<rparr>
      else m)"

text \<open>\<^verbatim>\<open>release\<close>, the callback of an acquisition, which keeps the key and the slot.\<close>

definition release_mem :: "string \<Rightarrow> nat \<Rightarrow> mem_registry \<Rightarrow> mem_registry" where
  "release_mem key i m = (case mr_slots m key of
       None \<Rightarrow> m
     | Some s \<Rightarrow>
         if md_id s \<noteq> i then m
         else
           let s' = s\<lparr>md_refs := md_refs s - 1\<rparr>; m' = m\<lparr>mr_slots := (mr_slots m)(key \<mapsto> s')\<rparr> in
           if md_refs s' > 0 then m'
           else m'\<lparr>mr_open := (case md_lease s' of None \<Rightarrow> mr_open m' | Some l \<Rightarrow> removeAll l (mr_open m')),
                   mr_slots := (mr_slots m')(key := None)\<rparr>)"

text \<open>The thumbs part of an acquisition, and the acquisition itself.\<close>

definition thumbs_ready :: "bool \<Rightarrow> lease_replies \<Rightarrow> mem_slot \<Rightarrow> mem_slot option" where
  "thumbs_ready wantThumbs r s =
     (if wantThumbs \<and> \<not> md_thumbsReady s then
        (case lr_thumbsRW r of
           None \<Rightarrow> None
         | Some rw \<Rightarrow> (case lr_thumbsRO r of
             None \<Rightarrow> None
           | Some ro \<Rightarrow> Some (s\<lparr>md_thumbsURI := (\<lambda>readOnly. if readOnly then ro else rw), md_thumbsReady := True\<rparr>)))
      else Some s)"

definition acquireMemSlot ::
  "string \<Rightarrow> bool \<Rightarrow> bool \<Rightarrow> lease_replies \<Rightarrow> mem_registry \<Rightarrow> (mem_error + string \<times> string \<times> nat) \<times> mem_registry" where
  "acquireMemSlot key readOnly wantThumbs r m =
     (let (slot, m1) = (case mr_slots m key of
             Some s \<Rightarrow> (s, m)
           | None \<Rightarrow> (fresh_slot (mr_next m),
               m\<lparr>mr_slots := (mr_slots m)(key \<mapsto> fresh_slot (mr_next m)), mr_next := mr_next m + 1\<rparr>));
          isNew = (md_lease slot = None)
      in if isNew \<and> \<not> lr_new r then (Inl ErrCreateLease, acquire_failed key isNew slot m1)
      else
        let slot1 = (if isNew then slot\<lparr>md_lease := Some (md_id slot)\<rparr> else slot);
            m2 = (if isNew then m1\<lparr>mr_open := md_id slot # mr_open m1\<rparr> else m1);
            slot2 = (if \<not> md_mainReady slot1 then slot1\<lparr>md_mainURI := lr_main r, md_mainReady := True\<rparr> else slot1)
        in (case thumbs_ready wantThumbs r slot2 of
              None \<Rightarrow> (Inl ErrThumbs, acquire_failed key isNew slot2 (m2\<lparr>mr_slots := (mr_slots m2)(key \<mapsto> slot2)\<rparr>))
            | Some slot3 \<Rightarrow>
                let slot4 = slot3\<lparr>md_refs := md_refs slot3 + 1\<rparr>
                in (Inr (md_mainURI slot4 readOnly,
                         (if md_thumbsReady slot4 then md_thumbsURI slot4 readOnly else []), md_id slot4),
                    m2\<lparr>mr_slots := (mr_slots m2)(key \<mapsto> slot4)\<rparr>)))"

definition acquireMemSlotForConfig ::
  "string option \<Rightarrow> bool \<Rightarrow> string \<Rightarrow> lease_replies \<Rightarrow> mem_registry \<Rightarrow>
   (mem_error + string \<times> string \<times> nat) \<times> mem_registry" where
  "acquireMemSlotForConfig schemaKey readOnly thumbsPath r m = (case schemaKey of
       None \<Rightarrow> (Inl ErrSchemaKey, m)
     | Some key \<Rightarrow> acquireMemSlot key readOnly (thumbsPath \<noteq> []) r m)"

text \<open>\<^verbatim>\<open>openMemTestPool\<close>: the slot, then the database on its main address; it answers the key and the slot
  for the release and the address for ATTACH.\<close>

definition openMemTestPool ::
  "string option \<Rightarrow> bool \<Rightarrow> string \<Rightarrow> lease_replies \<Rightarrow> bool \<Rightarrow> bool \<Rightarrow> mem_registry \<Rightarrow>
   (mem_error + string \<times> nat \<times> string) \<times> mem_registry" where
  "openMemTestPool schemaKey readOnly thumbsPath r opens pings m =
     (case acquireMemSlotForConfig schemaKey readOnly thumbsPath r m of
        (Inl e, m') \<Rightarrow> (Inl e, m')
      | (Inr (mainURI, thumbsURI, i), m') \<Rightarrow>
          (let key = the schemaKey in
           if \<not> opens then (Inl ErrOpenMain, release_mem key i m')
           else if \<not> pings then (Inl ErrPingMain, release_mem key i m')
           else (Inr (key, i, thumbsURI), m')))"

section \<open>Histories\<close>

text \<open>Pools open and close in any order; \<^verbatim>\<open>Close\<close> of a pool releases its reference once.\<close>

datatype mem_op =
    OpenPool "string option" bool string lease_replies bool bool
  | ClosePool nat

fun mem_step :: "mem_op \<Rightarrow> mem_registry \<times> (string \<times> nat) list \<Rightarrow> mem_registry \<times> (string \<times> nat) list" where
  "mem_step (OpenPool k ro path r opens pings) (m, hs) =
     (case openMemTestPool k ro path r opens pings m of
        (Inl e, m') \<Rightarrow> (m', hs)
      | (Inr (key, i, uri), m') \<Rightarrow> (m', (key, i) # hs))"
| "mem_step (ClosePool n) (m, hs) =
     (if n < length hs then (release_mem (fst (hs ! n)) (snd (hs ! n)) m, take n hs @ drop (Suc n) hs)
      else (m, hs))"

definition mem_run :: "mem_op list \<Rightarrow> mem_registry \<times> (string \<times> nat) list" where
  "mem_run ops = fold mem_step ops (empty_registry, [])"

section \<open>Correctness\<close>

text \<open>Every slot of the registry is in use: its count is the number of pools that hold it, its lease is
  open, and no other lease is.\<close>

definition slot_ok :: "nat \<Rightarrow> (string \<times> nat) multiset \<Rightarrow> string \<Rightarrow> mem_slot \<Rightarrow> bool" where
  "slot_ok nxt H k s \<longleftrightarrow> md_refs s = int (count H (k, md_id s)) \<and> 1 \<le> md_refs s \<and>
     md_lease s = Some (md_id s) \<and> md_mainReady s \<and> md_id s < nxt"

definition ident :: "mem_registry \<Rightarrow> string \<Rightarrow> nat option" where
  "ident m k = map_option md_id (mr_slots m k)"

definition mem_ok :: "mem_registry \<Rightarrow> (string \<times> nat) multiset \<Rightarrow> bool" where
  "mem_ok m H \<longleftrightarrow>
     (\<forall>k s. mr_slots m k = Some s \<longrightarrow> slot_ok (mr_next m) H k s) \<and>
     (\<forall>k i. (k, i) \<in># H \<longrightarrow> ident m k = Some i) \<and>
     (\<forall>k k' i. ident m k = Some i \<longrightarrow> ident m k' = Some i \<longrightarrow> k = k') \<and>
     (\<forall>i. (i \<in> set (mr_open m)) = (\<exists>k. ident m k = Some i))"

lemma mem_okD:
  assumes "mem_ok m H"
  shows "mr_slots m k = Some s \<Longrightarrow> slot_ok (mr_next m) H k s"
    and "(k, i) \<in># H \<Longrightarrow> ident m k = Some i"
    and "ident m k = Some i \<Longrightarrow> ident m k' = Some i \<Longrightarrow> k = k'"
    and "(i \<in> set (mr_open m)) = (\<exists>k. ident m k = Some i)"
  using assms unfolding mem_ok_def by blast+

lemma mem_okI:
  assumes "\<And>k s. mr_slots m k = Some s \<Longrightarrow> slot_ok (mr_next m) H k s"
    and "\<And>k i. (k, i) \<in># H \<Longrightarrow> ident m k = Some i"
    and "\<And>k k' i. ident m k = Some i \<Longrightarrow> ident m k' = Some i \<Longrightarrow> k = k'"
    and "\<And>i. (i \<in> set (mr_open m)) = (\<exists>k. ident m k = Some i)"
  shows "mem_ok m H"
  unfolding mem_ok_def using assms by blast

lemma slot_ok_cong:
  "slot_ok n H k s \<Longrightarrow> count H' (k, md_id s) = count H (k, md_id s) \<Longrightarrow> n \<le> n' \<Longrightarrow> slot_ok n' H' k s"
  unfolding slot_ok_def by (metis order_less_le_trans)

lemma count_same_mem: "count H' j = count H j \<Longrightarrow> (j \<in># H') = (j \<in># H)"
  by (metis count_greater_zero_iff)

text \<open>A slot that is replaced by one of the same identity with a new count.\<close>

lemma mem_ok_replace:
  assumes ok: "mem_ok m H" and s: "mr_slots m k = Some s" and id: "md_id s' = md_id s"
    and ok': "slot_ok (mr_next m) H' k s'"
    and H': "\<And>j. j \<noteq> (k, md_id s) \<Longrightarrow> count H' j = count H j"
  shows "mem_ok (m\<lparr>mr_slots := (mr_slots m)(k \<mapsto> s')\<rparr>) H'"
proof -
  have same: "ident (m\<lparr>mr_slots := (mr_slots m)(k \<mapsto> s')\<rparr>) = ident m"
    using s id by (auto simp: ident_def fun_eq_iff)
  show ?thesis
  proof (rule mem_okI, unfold same)
    fix k1 t assume t: "mr_slots (m\<lparr>mr_slots := (mr_slots m)(k \<mapsto> s')\<rparr>) k1 = Some t"
    show "slot_ok (mr_next (m\<lparr>mr_slots := (mr_slots m)(k \<mapsto> s')\<rparr>)) H' k1 t"
    proof (cases "k1 = k")
      case True
      then show ?thesis using t ok' by simp
    next
      case False
      then show ?thesis
        using t slot_ok_cong [OF mem_okD(1) [OF ok, of k1 t] H' [of "(k1, md_id t)"] order_refl] by simp
    qed
  next
    fix k1 i assume "(k1, i) \<in># H'"
    then show "ident m k1 = Some i"
      using count_same_mem [OF H', of "(k1, i)"] mem_okD(2) [OF ok, of k1 i] s
      by (cases "(k1, i) = (k, md_id s)") (auto simp: ident_def)
  qed (simp_all add: mem_okD(4) [OF ok], rule mem_okD(3) [OF ok])
qed

lemma mem_ok_drop:
  assumes ok: "mem_ok m H" and s: "mr_slots m k = Some s" and none: "\<And>i. (k, i) \<notin># H'"
    and H': "\<And>j. fst j \<noteq> k \<Longrightarrow> count H' j = count H j"
  shows "mem_ok (m\<lparr>mr_open := removeAll (md_id s) (mr_open m), mr_slots := (mr_slots m)(k := None)\<rparr>) H'"
    (is "mem_ok ?m H'")
proof -
  have id: "ident ?m = (ident m)(k := None)" by (auto simp: ident_def fun_eq_iff)
  have ik: "ident m k = Some (md_id s)" using s by (simp add: ident_def)
  show ?thesis
  proof (rule mem_okI, unfold id)
    fix k1 t assume t: "mr_slots ?m k1 = Some t"
    then have "k1 \<noteq> k" "mr_slots m k1 = Some t" by (simp_all split: if_splits)
    then show "slot_ok (mr_next ?m) H' k1 t"
      using slot_ok_cong [OF mem_okD(1) [OF ok, of k1 t] H' [of "(k1, md_id t)"] order_refl] by simp
  next
    fix k1 i assume a: "(k1, i) \<in># H'"
    with none [of i] have "k1 \<noteq> k" by auto
    with a count_same_mem [OF H', of "(k1, i)"] mem_okD(2) [OF ok, of k1 i]
    show "((ident m)(k := None)) k1 = Some i" by (metis fst_conv fun_upd_apply)
  next
    fix i
    show "(i \<in> set (mr_open ?m)) = (\<exists>k1. ((ident m)(k := None)) k1 = Some i)"
    proof (cases "i = md_id s")
      case True
      have "((ident m)(k := None)) k1 \<noteq> Some i" for k1
        using mem_okD(3) [OF ok _ ik, of k1] True by (cases "k1 = k") auto
      then show ?thesis using True by simp
    next
      case False
      have "(\<exists>k1. ident m k1 = Some i) = (\<exists>k1. ((ident m)(k := None)) k1 = Some i)"
        using False ik by (metis fun_upd_apply option.distinct(1) option.inject)
      then show ?thesis using False mem_okD(4) [OF ok, of i] by simp
    qed
  next
    fix k1 k2 i
    assume "((ident m)(k := None)) k1 = Some i" "((ident m)(k := None)) k2 = Some i"
    then show "k1 = k2" using mem_okD(3) [OF ok, of k1 i k2] by (simp split: if_splits)
  qed
qed

lemma release_ok:
  assumes ok: "mem_ok m (add_mset (k, i) H)" shows "mem_ok (release_mem k i m) H"
proof -
  have "ident m k = Some i" using mem_okD(2) [OF ok, of k i] by simp
  then obtain s where s: "mr_slots m k = Some s" "md_id s = i" by (auto simp: ident_def)
  have sk: "slot_ok (mr_next m) (add_mset (k, i) H) k s" by (rule mem_okD(1) [OF ok s(1)])
  then have refs: "md_refs s = int (count H (k, i)) + 1" "md_lease s = Some i"
    by (simp_all add: slot_ok_def s(2))
  show ?thesis
  proof (cases "md_refs s - 1 > 0")
    case True
    let ?s' = "s\<lparr>md_refs := md_refs s - 1\<rparr>"
    have "mem_ok (m\<lparr>mr_slots := (mr_slots m)(k \<mapsto> ?s')\<rparr>) H"
      by (rule mem_ok_replace [OF ok s(1)]) (use sk refs True s(2) in \<open>auto simp: slot_ok_def\<close>)
    then show ?thesis using True s by (simp add: release_mem_def Let_def)
  next
    case False
    then have zero: "count H (k, i) = 0" using refs by linarith
    have none: "(k, j) \<notin># H" for j
      using mem_okD(2) [OF ok, of k j] s zero by (auto simp: count_eq_zero_iff ident_def)
    have "mem_ok (m\<lparr>mr_open := removeAll (md_id s) (mr_open m), mr_slots := (mr_slots m)(k := None)\<rparr>) H"
      by (rule mem_ok_drop [OF ok s(1) none]) auto
    then show ?thesis using False s refs by (simp add: release_mem_def Let_def)
  qed
qed

lemma thumbs_ready_same:
  "thumbs_ready w r s = Some s' \<Longrightarrow> md_id s' = md_id s \<and> md_refs s' = md_refs s \<and>
     md_lease s' = md_lease s \<and> md_mainReady s' = md_mainReady s"
  by (auto simp: thumbs_ready_def split: if_splits option.splits)

lemma acquire_existing:
  assumes "mr_slots m key = Some s" "md_lease s = Some l" "md_mainReady s"
  shows "acquireMemSlot key ro w r m = (case thumbs_ready w r s of
      None \<Rightarrow> (Inl ErrThumbs, m\<lparr>mr_slots := (mr_slots m)(key \<mapsto> s)\<rparr>)
    | Some s3 \<Rightarrow> (Inr (md_mainURI s3 ro, (if md_thumbsReady s3 then md_thumbsURI s3 ro else []), md_id s3),
        m\<lparr>mr_slots := (mr_slots m)(key \<mapsto> s3\<lparr>md_refs := md_refs s3 + 1\<rparr>)\<rparr>))"
  using assms by (simp add: acquireMemSlot_def acquire_failed_def split: option.splits)

lemma acquire_new:
  assumes "mr_slots m key = None" "lr_new r"
  defines "s \<equiv> (fresh_slot (mr_next m))\<lparr>md_lease := Some (mr_next m), md_mainURI := lr_main r, md_mainReady := True\<rparr>"
  shows "acquireMemSlot key ro w r m = (case thumbs_ready w r s of
      None \<Rightarrow> (Inl ErrThumbs, m\<lparr>mr_slots := (mr_slots m)(key := None), mr_next := mr_next m + 1,
        mr_open := removeAll (mr_next m) (mr_open m)\<rparr>)
    | Some s3 \<Rightarrow> (Inr (md_mainURI s3 ro, (if md_thumbsReady s3 then md_thumbsURI s3 ro else []), md_id s3),
        m\<lparr>mr_slots := (mr_slots m)(key \<mapsto> s3\<lparr>md_refs := md_refs s3 + 1\<rparr>), mr_next := mr_next m + 1,
          mr_open := mr_next m # mr_open m\<rparr>))"
  using assms by (simp add: acquireMemSlot_def acquire_failed_def fresh_slot_def split: option.splits)

lemma acquire_no_lease:
  "mr_slots m key = None \<Longrightarrow> \<not> lr_new r \<Longrightarrow> acquireMemSlot key ro w r m =
     (Inl ErrCreateLease, m\<lparr>mr_slots := (mr_slots m)(key := None), mr_next := mr_next m + 1\<rparr>)"
  by (simp add: acquireMemSlot_def acquire_failed_def fresh_slot_def)

lemma acquire_ok:
  assumes ok: "mem_ok m H" and a: "acquireMemSlot key ro w r m = (Inr (mu, tu, i), m')"
  shows "mem_ok m' (add_mset (key, i) H)"
proof (cases "mr_slots m key")
  case (Some s)
  note sk = mem_okD(1) [OF ok Some]
  have ready: "md_lease s = Some (md_id s)" "md_mainReady s" using sk by (simp_all add: slot_ok_def)
  note ex = acquire_existing [OF Some ready, of ro w r]
  obtain s3 where s3: "thumbs_ready w r s = Some s3" using a ex by (cases "thumbs_ready w r s") simp_all
  define s' where "s' = s3\<lparr>md_refs := md_refs s3 + 1\<rparr>"
  have s': "m' = m\<lparr>mr_slots := (mr_slots m)(key \<mapsto> s')\<rparr>" "md_id s' = md_id s" "i = md_id s"
    "md_refs s' = md_refs s + 1" "md_lease s' = md_lease s" "md_mainReady s'"
    using a ex s3 thumbs_ready_same [OF s3] ready by (simp_all add: s'_def)
  show ?thesis unfolding s'(1)
  proof (rule mem_ok_replace [OF ok Some s'(2)])
    show "slot_ok (mr_next m) (add_mset (key, i) H) key s'"
      using sk s' unfolding slot_ok_def by simp
  qed (use s'(3) in simp)
next
  case None
  let ?s0 = "(fresh_slot (mr_next m))\<lparr>md_lease := Some (mr_next m), md_mainURI := lr_main r, md_mainReady := True\<rparr>"
  have lease: "lr_new r" using a acquire_no_lease [OF None] by (cases "lr_new r") simp_all
  note new = acquire_new [OF None lease, of ro w]
  obtain s3 where s3: "thumbs_ready w r ?s0 = Some s3" using a new by (cases "thumbs_ready w r ?s0") simp_all
  define s where "s = s3\<lparr>md_refs := md_refs s3 + 1\<rparr>"
  have m': "m' = m\<lparr>mr_slots := (mr_slots m)(key \<mapsto> s), mr_next := mr_next m + 1, mr_open := mr_next m # mr_open m\<rparr>"
    and "i = md_id s3"
    using a new s3 by (simp_all add: s_def)
  with thumbs_ready_same [OF s3] have i: "i = mr_next m" and nx: "mr_next m' = mr_next m + 1" "mr_open m' = mr_next m # mr_open m"
    and s: "mr_slots m' = (mr_slots m)(key \<mapsto> s)" "md_id s = mr_next m" "md_refs s = 1"
      "md_lease s = Some (mr_next m)" "md_mainReady s"
    by (simp_all add: s_def fresh_slot_def)
  have id: "ident m' = (ident m)(key \<mapsto> mr_next m)" using s by (auto simp: ident_def fun_eq_iff)
  have idk: "ident m key = None" using None by (simp add: ident_def)
  have noH: "(key, j) \<notin># H" for j using mem_okD(2) [OF ok, of key j] idk by auto
  have old: "ident m k \<noteq> Some (mr_next m)" for k
    using mem_okD(1) [OF ok, of k] by (auto simp: ident_def slot_ok_def)
  show ?thesis
  proof (rule mem_okI, unfold id)
    fix k t assume t: "mr_slots m' k = Some t"
    show "slot_ok (mr_next m') (add_mset (key, i) H) k t"
    proof (cases "k = key")
      case True
      then have "t = s" using t s(1) by simp
      then show ?thesis using True s noH [of i] nx i by (simp add: slot_ok_def not_in_iff)
    next
      case False
      then have "mr_slots m k = Some t" using t s(1) by simp
      from slot_ok_cong [OF mem_okD(1) [OF ok this], of "add_mset (key, i) H" "mr_next m'"] False nx
      show ?thesis by simp
    qed
  next
    fix k j assume "(k, j) \<in># add_mset (key, i) H"
    then show "((ident m)(key \<mapsto> mr_next m)) k = Some j"
      using mem_okD(2) [OF ok, of k j] noH i by (cases "k = key") auto
  next
    fix k k' j
    assume "((ident m)(key \<mapsto> mr_next m)) k = Some j" "((ident m)(key \<mapsto> mr_next m)) k' = Some j"
    then show "k = k'" using mem_okD(3) [OF ok, of k j k'] old by (metis fun_upd_apply option.inject)
  next
    fix j
    have "(\<exists>k. ((ident m)(key \<mapsto> mr_next m)) k = Some j) = (j = mr_next m \<or> (\<exists>k. ident m k = Some j))"
      using idk by (metis fun_upd_apply option.distinct(1) option.inject)
    then show "(j \<in> set (mr_open m')) = (\<exists>k. ((ident m)(key \<mapsto> mr_next m)) k = Some j)"
      using mem_okD(4) [OF ok, of j] nx by simp
  qed
qed

lemma acquire_err:
  assumes ok: "mem_ok m H" and a: "acquireMemSlot key ro w r m = (Inl e, m')"
  shows "mr_slots m' = mr_slots m \<and> set (mr_open m') = set (mr_open m) \<and> mr_next m \<le> mr_next m'"
proof (cases "mr_slots m key")
  case (Some s)
  have ready: "md_lease s = Some (md_id s)" "md_mainReady s"
    using mem_okD(1) [OF ok Some] by (simp_all add: slot_ok_def)
  from acquire_existing [OF Some ready, of ro w r] a have "m' = m\<lparr>mr_slots := (mr_slots m)(key \<mapsto> s)\<rparr>"
    by (simp split: option.splits)
  then show ?thesis using Some by (simp add: fun_upd_idem)
next
  case None
  then have upd: "(mr_slots m)(key := None) = mr_slots m" by (simp add: fun_upd_idem)
  have "ident m k \<noteq> Some (mr_next m)" for k
    using mem_okD(1) [OF ok, of k] by (auto simp: ident_def slot_ok_def)
  then have "mr_next m \<notin> set (mr_open m)" using mem_okD(4) [OF ok, of "mr_next m"] by simp
  then show ?thesis
    using a upd acquire_no_lease [OF None, of r ro w] acquire_new [OF None, of r ro w]
    by (cases "lr_new r") (auto simp: upd removeAll_id split: option.splits)
qed

lemma mem_ok_unchanged:
  assumes ok: "mem_ok m H" and "mr_slots m' = mr_slots m" "set (mr_open m') = set (mr_open m)" "mr_next m \<le> mr_next m'"
  shows "mem_ok m' H"
proof -
  have "ident m' = ident m" using assms(2) by (simp add: ident_def fun_eq_iff)
  note m' = this assms(2,3)
  show ?thesis
    by (rule mem_okI, unfold m')
      (rule slot_ok_cong [OF mem_okD(1) [OF ok] refl assms(4)], assumption,
       rule mem_okD(2) [OF ok], assumption, rule mem_okD(3) [OF ok], assumption+, rule mem_okD(4) [OF ok])
qed

lemma openMemTestPool_cases:
  assumes ok: "mem_ok m H" and a: "openMemTestPool k ro path r opens pings m = (res, m')"
  obtains (opened) key i uri where "res = Inr (key, i, uri)" "mem_ok m' (add_mset (key, i) H)"
    | (failed) e where "res = Inl e" "mem_ok m' H"
proof (cases k)
  case None
  then show ?thesis
    using a ok failed [of ErrSchemaKey] by (simp add: openMemTestPool_def acquireMemSlotForConfig_def)
next
  case (Some key)
  obtain res1 m1 where acq: "acquireMemSlot key ro (path \<noteq> []) r m = (res1, m1)" by fastforce
  show ?thesis
  proof (cases res1)
    case (Inl e)
    from acquire_err [OF ok acq [unfolded Inl]] have "mem_ok m1 H"
      by (elim conjE) (rule mem_ok_unchanged [OF ok])
    then show ?thesis
      using a failed [of e] acq Some Inl by (simp add: openMemTestPool_def acquireMemSlotForConfig_def)
  next
    case (Inr t)
    obtain mu tu i where t: "t = (mu, tu, i)" by (cases t)
    from acquire_ok [OF ok acq [unfolded Inr t]] have ok1: "mem_ok m1 (add_mset (key, i) H)" .
    from release_ok [OF this] ok1 show ?thesis
      using a failed opened acq Some Inr t
      by (auto simp: openMemTestPool_def acquireMemSlotForConfig_def Let_def split: if_splits)
  qed
qed

lemma mem_step_ok: "mem_ok m (mset hs) \<Longrightarrow> mem_step op (m, hs) = (m', hs') \<Longrightarrow> mem_ok m' (mset hs')"
proof (cases op)
  case (OpenPool k ro path r opens pings)
  assume ok: "mem_ok m (mset hs)" and st: "mem_step op (m, hs) = (m', hs')"
  obtain res m1 where o: "openMemTestPool k ro path r opens pings m = (res, m1)" by fastforce
  from openMemTestPool_cases [OF ok o] show ?thesis
    by cases (use st o OpenPool in auto)
next
  case (ClosePool n)
  assume ok: "mem_ok m (mset hs)" and st: "mem_step op (m, hs) = (m', hs')"
  show ?thesis
  proof (cases "n < length hs")
    case True
    then have "mset hs = add_mset (hs ! n) (mset (take n hs @ drop (Suc n) hs))"
      by (metis id_take_nth_drop mset.simps(2) mset_append union_mset_add_mset_right)
    then have "mem_ok m (add_mset (fst (hs ! n), snd (hs ! n)) (mset (take n hs @ drop (Suc n) hs)))"
      using ok by simp
    from release_ok [OF this] show ?thesis using True st ClosePool by auto
  next
    case False
    then show ?thesis using ok st ClosePool by simp
  qed
qed

lemma mem_run_ok: "mem_ok (fst (mem_run ops)) (mset (snd (mem_run ops)))"
proof (induction ops rule: rev_induct)
  case Nil
  show ?case by (simp add: mem_run_def empty_registry_def mem_ok_def ident_def)
next
  case (snoc op ops)
  obtain m hs where run: "mem_run ops = (m, hs)" by fastforce
  obtain m' hs' where st: "mem_step op (m, hs) = (m', hs')" by fastforce
  have "mem_run (ops @ [op]) = (m', hs')" using run st by (simp add: mem_run_def)
  then show ?case using mem_step_ok [OF _ st] snoc run by simp
qed

section \<open>Properties\<close>

text \<open>After every history of pools being opened (with any failures on the way) and closed, a memory
  database is open exactly for the slots that some pool still holds; a slot counts its pools, and
  no key has two databases.\<close>

theorem mem_leases_exact:
  assumes "mem_run ops = (m, hs)"
  shows "set (mr_open m) = snd ` set hs \<and>
    (\<forall>k. case mr_slots m k of
        None \<Rightarrow> k \<notin> fst ` set hs
      | Some s \<Rightarrow> md_refs s = int (count (mset hs) (k, md_id s)) \<and> 1 \<le> md_refs s \<and>
          {i. (k, i) \<in> set hs} = {md_id s})"
proof -
  have ok: "mem_ok m (mset hs)" using mem_run_ok [of ops] assms by simp
  have held: "(k, i) \<in> set hs" if "ident m k = Some i" for k i
  proof -
    from that obtain s where s: "mr_slots m k = Some s" "md_id s = i" unfolding ident_def by blast
    from mem_okD(1) [OF ok s(1)] s(2) have "1 \<le> int (count (mset hs) (k, i))" unfolding slot_ok_def by metis
    then have "0 < count (mset hs) (k, i)" by linarith
    then show ?thesis by (simp only: count_greater_zero_iff set_mset_mset)
  qed
  have ids: "(ident m k = Some i) = ((k, i) \<in> set hs)" for k i
    using held mem_okD(2) [OF ok, of k i] by auto
  have "set (mr_open m) = snd ` set hs"
    using mem_okD(4) [OF ok] by (force simp: ids)
  moreover have "case mr_slots m k of
        None \<Rightarrow> k \<notin> fst ` set hs
      | Some s \<Rightarrow> md_refs s = int (count (mset hs) (k, md_id s)) \<and> 1 \<le> md_refs s \<and>
          {i. (k, i) \<in> set hs} = {md_id s}" for k
  proof (cases "mr_slots m k")
    case None
    then have "(k, i) \<notin> set hs" for i by (simp add: ident_def flip: ids)
    then have "k \<notin> fst ` set hs" by force
    then show ?thesis using None by simp
  next
    case (Some s)
    then have "ident m k = Some (md_id s)" by (simp add: ident_def)
    with ids have "{i. (k, i) \<in> set hs} = {md_id s}" by (auto simp flip: ids)
    with mem_okD(1) [OF ok Some] show ?thesis unfolding slot_ok_def Some option.case by blast
  qed
  ultimately show ?thesis by blast
qed

text \<open>Two pools on the same images, a third that fails, and the first closing again.\<close>

definition demo_lease :: lease_replies where
  "demo_lease = \<lparr>lr_new = True, lr_main = (\<lambda>ro. if ro then ''ro'' else ''rw''), lr_thumbsRW = None, lr_thumbsRO = None\<rparr>"

definition demo_ops :: "mem_op list" where
  "demo_ops = [OpenPool (Some ''k'') False [] demo_lease True True, OpenPool (Some ''k'') True [] demo_lease True True,
     OpenPool (Some ''k'') False ''thumbs.db'' demo_lease True True, OpenPool (Some ''k2'') False [] demo_lease True False,
     ClosePool 1]"

lemma demo_run: "snd (mem_run demo_ops) = [(''k'', 0)] \<and> mr_open (fst (mem_run demo_ops)) = [0]"
  by code_simp

theorem mem_leases_exact_witness: "set (mr_open (fst (mem_run demo_ops))) = {0}"
  using mem_leases_exact [of demo_ops "fst (mem_run demo_ops)" "[(''k'', 0)]"] demo_run
  by (simp add: prod_eq_iff)

end
