(* ===== verification/Rate_Limit.thy ===== *)
theory Rate_Limit
  imports Go_Text
begin

text \<open>
  The per-IP sliding-window limiter of \<^verbatim>\<open>internal/server/security/ratelimit.go\<close>, with the key it takes from
  the remote address, and its equivalence with the specification that looks at the complete history
  of the attempts that were let through.
\<close>

section \<open>The limiter\<close>

definition DefaultRateLimitWindow :: int where "DefaultRateLimitWindow = 60"
definition defaultGCInterval :: nat where "defaultGCInterval = 64"

record limiter =
  rl_attempts :: "string \<Rightarrow> int list option"
  rl_max :: int
  rl_window :: int
  rl_allowCount :: nat
  rl_gcInterval :: nat

definition EffectiveLoginRateLimitPerIP :: "int \<Rightarrow> int" where
  "EffectiveLoginRateLimitPerIP cfgMax = (if cfgMax > 0 then cfgMax else 0)"

definition NewIPRateLimiter :: "int \<Rightarrow> int \<Rightarrow> limiter" where
  "NewIPRateLimiter mx windowSec = \<lparr>rl_attempts = (\<lambda>_. None), rl_max = mx,
     rl_window = (if windowSec \<le> 0 then DefaultRateLimitWindow else windowSec), rl_allowCount = 0,
     rl_gcInterval = defaultGCInterval\<rparr>"

definition pruneAttempts :: "int list \<Rightarrow> int \<Rightarrow> int list" where
  "pruneAttempts attempts cutoff = filter (\<lambda>t. t > cutoff) attempts"

text \<open>The counter is a \<^verbatim>\<open>uint64\<close>.\<close>

definition maybeGCStaleLocked :: "int \<Rightarrow> limiter \<Rightarrow> limiter" where
  "maybeGCStaleLocked now rl =
     (let n = (rl_allowCount rl + 1) mod 2 ^ 64; rl1 = rl\<lparr>rl_allowCount := n\<rparr> in
      if rl_gcInterval rl1 = 0 \<or> n mod rl_gcInterval rl1 \<noteq> 0 then rl1
      else
        let cutoff = now - rl_window rl1 in
        rl1\<lparr>rl_attempts := (\<lambda>ip. case rl_attempts rl1 ip of None \<Rightarrow> None
              | Some xs \<Rightarrow> if pruneAttempts xs cutoff = [] then None else Some xs)\<rparr>)"

definition Allow :: "int \<Rightarrow> string \<Rightarrow> limiter \<Rightarrow> bool \<times> limiter" where
  "Allow now ip rl =
     (if rl_max rl \<le> 0 then (True, rl)
      else
        let cutoff = now - rl_window rl;
            valid = pruneAttempts (case rl_attempts rl ip of None \<Rightarrow> [] | Some xs \<Rightarrow> xs) cutoff
        in if int (length valid) \<ge> rl_max rl then
             (False, maybeGCStaleLocked now
                (rl\<lparr>rl_attempts := (if valid = [] then (rl_attempts rl)(ip := None)
                                    else (rl_attempts rl)(ip \<mapsto> valid))\<rparr>))
           else (True, maybeGCStaleLocked now (rl\<lparr>rl_attempts := (rl_attempts rl)(ip \<mapsto> valid @ [now])\<rparr>)))"

definition SetMax :: "int \<Rightarrow> limiter \<Rightarrow> limiter" where
  "SetMax mx rl = rl\<lparr>rl_max := mx\<rparr>"

definition Clear :: "limiter \<Rightarrow> limiter" where
  "Clear rl = rl\<lparr>rl_attempts := (\<lambda>_. None), rl_allowCount := 0\<rparr>"

section \<open>The key of a request\<close>

text \<open>The position of the last colon and of the first bracket.\<close>

fun last_index :: "char \<Rightarrow> string \<Rightarrow> nat option" where
  "last_index c [] = None"
| "last_index c (x # xs) = (case last_index c xs of
     Some i \<Rightarrow> Some (Suc i) | None \<Rightarrow> if x = c then Some 0 else None)"

fun first_index :: "char \<Rightarrow> string \<Rightarrow> nat option" where
  "first_index c [] = None"
| "first_index c (x # xs) = (if x = c then Some 0 else map_option Suc (first_index c xs))"

text \<open>The host of \<^verbatim>\<open>net.SplitHostPort\<close>, \<^term>\<open>None\<close> for every address it rejects.\<close>

definition SplitHost :: "string \<Rightarrow> string option" where
  "SplitHost hostport = (case last_index CHR '':'' hostport of
       None \<Rightarrow> None
     | Some i \<Rightarrow>
         if hd hostport = CHR ''['' then
           (case first_index CHR '']'' hostport of
              None \<Rightarrow> None
            | Some e \<Rightarrow>
                if e + 1 = i \<and> CHR ''['' \<notin> set (drop 1 hostport) \<and> CHR '']'' \<notin> set (drop (e + 1) hostport)
                then Some (take (e - 1) (drop 1 hostport)) else None)
         else
           let host = take i hostport in
           if CHR '':'' \<in> set host \<or> CHR ''['' \<in> set hostport \<or> CHR '']'' \<in> set hostport then None
           else Some host)"

definition RateLimitFromRequestKey :: "string \<Rightarrow> string" where
  "RateLimitFromRequestKey remoteAddr = (case SplitHost remoteAddr of None \<Rightarrow> remoteAddr | Some h \<Rightarrow> h)"

text \<open>The gate of the profiling endpoints (\<^verbatim>\<open>internal/server/middleware/pprof_access.go\<close>).\<close>

definition isLoopbackRemoteAddr :: "string \<Rightarrow> bool" where
  "isLoopbackRemoteAddr addr \<longleftrightarrow>
     RateLimitFromRequestKey addr = ''127.0.0.1'' \<or> RateLimitFromRequestKey addr = ''::1''"

definition requestHasForwardProxyHeaders :: "(string \<Rightarrow> string) \<Rightarrow> bool" where
  "requestHasForwardProxyHeaders get \<longleftrightarrow> get ''X-Forwarded-For'' \<noteq> [] \<or> get ''X-Forwarded-Proto'' \<noteq> [] \<or>
     get ''X-Forwarded-Host'' \<noteq> [] \<or> get ''Forwarded'' \<noteq> []"

definition PprofAccess :: "(string \<Rightarrow> string) \<Rightarrow> string \<Rightarrow> bool" where
  "PprofAccess get addr = (if requestHasForwardProxyHeaders get then False
     else if \<not> isLoopbackRemoteAddr addr then False else True)"

section \<open>Specification\<close>

datatype rl_op = Call int string | NewMax int | Reset

fun rl_step :: "rl_op \<Rightarrow> limiter \<Rightarrow> bool option \<times> limiter" where
  "rl_step (Call now ip) rl = (case Allow now ip rl of (b, rl') \<Rightarrow> (Some b, rl'))"
| "rl_step (NewMax m) rl = (None, SetMax m rl)"
| "rl_step Reset rl = (None, Clear rl)"

text \<open>The specification keeps every attempt that was let through and counts those of the address in the
  window.\<close>

definition granted_in :: "int \<Rightarrow> string \<Rightarrow> (string \<times> int) list \<Rightarrow> int list" where
  "granted_in cutoff ip gs = filter (\<lambda>t. t > cutoff) (map snd (filter (\<lambda>(i, t). i = ip) gs))"

fun spec_step :: "int \<Rightarrow> rl_op \<Rightarrow> int \<times> (string \<times> int) list \<Rightarrow> bool option \<times> int \<times> (string \<times> int) list" where
  "spec_step W (Call now ip) (m, gs) =
     (if m \<le> 0 then (Some True, m, gs)
      else if int (length (granted_in (now - W) ip gs)) < m then (Some True, m, gs @ [(ip, now)])
      else (Some False, m, gs))"
| "spec_step W (NewMax m') (m, gs) = (None, m', gs)"
| "spec_step W Reset (m, gs) = (None, m, [])"

fun run_steps :: "('o \<Rightarrow> 's \<Rightarrow> 'r \<times> 's) \<Rightarrow> 'o list \<Rightarrow> 's \<Rightarrow> 'r list \<times> 's" where
  "run_steps f [] s = ([], s)"
| "run_steps f (x # xs) s = (case f x s of (r, s1) \<Rightarrow> case run_steps f xs s1 of (rs, s2) \<Rightarrow> (r # rs, s2))"

text \<open>The clock does not go back.\<close>

fun clock_ok :: "int \<Rightarrow> rl_op list \<Rightarrow> bool" where
  "clock_ok t [] = True"
| "clock_ok t (Call now ip # ops) = (t \<le> now \<and> clock_ok now ops)"
| "clock_ok t (op # ops) = clock_ok t ops"

definition sim :: "int \<Rightarrow> limiter \<Rightarrow> int \<times> (string \<times> int) list \<Rightarrow> bool" where
  "sim t rl s \<longleftrightarrow> rl_max rl = fst s \<and>
     (\<forall>ip. pruneAttempts (case rl_attempts rl ip of None \<Rightarrow> [] | Some xs \<Rightarrow> xs) (t - rl_window rl) =
        granted_in (t - rl_window rl) ip (snd s))"

lemma prune_prune: "c \<le> d \<Longrightarrow> pruneAttempts (pruneAttempts xs c) d = pruneAttempts xs d"
  by (induction xs) (auto simp: pruneAttempts_def)

lemma granted_prune: "c \<le> d \<Longrightarrow> pruneAttempts (granted_in c ip gs) d = granted_in d ip gs"
  using prune_prune [of c d] by (simp add: granted_in_def pruneAttempts_def)

lemma granted_snoc:
  "granted_in c ip (gs @ [(i, t)]) = granted_in c ip gs @ (if i = ip \<and> t > c then [t] else [])"
  by (simp add: granted_in_def)

lemma sim_later:
  assumes "sim t rl s" "t \<le> t'" shows "sim t' rl s"
proof -
  have le: "t - rl_window rl \<le> t' - rl_window rl" using assms(2) by simp
  then show ?thesis
    using assms(1) prune_prune [OF le] granted_prune [OF le] unfolding sim_def by metis
qed

lemma maybeGC_same:
  "rl_max (maybeGCStaleLocked now rl) = rl_max rl" "rl_window (maybeGCStaleLocked now rl) = rl_window rl"
  "pruneAttempts (case rl_attempts (maybeGCStaleLocked now rl) ip of None \<Rightarrow> [] | Some xs \<Rightarrow> xs) (now - rl_window rl) =
   pruneAttempts (case rl_attempts rl ip of None \<Rightarrow> [] | Some xs \<Rightarrow> xs) (now - rl_window rl)"
  by (auto simp: maybeGCStaleLocked_def Let_def pruneAttempts_def split: option.splits)

lemma sim_GC: "sim now (maybeGCStaleLocked now rl) s = sim now rl s"
  by (simp add: sim_def maybeGC_same)

lemma Allow_window: "rl_window (snd (Allow now ip rl)) = rl_window rl"
  by (simp add: Allow_def Let_def maybeGC_same)

lemma Allow_sim:
  assumes "sim t rl (m, gs)" "t \<le> now" "rl_window rl = W" "0 < W"
  shows "case spec_step W (Call now ip) (m, gs) of (r, s') \<Rightarrow>
    r = Some (fst (Allow now ip rl)) \<and> sim now (snd (Allow now ip rl)) s'"
proof -
  have s: "sim now rl (m, gs)" by (rule sim_later [OF assms(1,2)])
  let ?valid = "pruneAttempts (case rl_attempts rl ip of None \<Rightarrow> [] | Some xs \<Rightarrow> xs) (now - W)"
  have v: "?valid = granted_in (now - W) ip gs" and m: "rl_max rl = m"
    using s assms(3) by (auto simp: sim_def)
  have idem: "pruneAttempts ?valid (now - W) = ?valid" by (rule prune_prune) simp
  have keep: "sim now (rl\<lparr>rl_attempts := f\<rparr>) s' \<longleftrightarrow> m = fst s' \<and>
      (\<forall>i. pruneAttempts (case f i of None \<Rightarrow> [] | Some xs \<Rightarrow> xs) (now - W) = granted_in (now - W) i (snd s'))" for f s'
    using m assms(3) by (simp add: sim_def)
  have old: "pruneAttempts (case rl_attempts rl i of None \<Rightarrow> [] | Some xs \<Rightarrow> xs) (now - W) = granted_in (now - W) i gs" for i
    using s assms(3) by (simp add: sim_def)
  show ?thesis
  proof (cases "m \<le> 0 \<or> int (length ?valid) < m")
    case True
    have "pruneAttempts (?valid @ [now]) (now - W) = granted_in (now - W) ip (gs @ [(ip, now)])"
      using idem assms(4) unfolding v by (simp add: granted_snoc pruneAttempts_def)
    then show ?thesis
      using True s m v assms(3) old
      by (auto simp: Allow_def Let_def sim_GC keep granted_snoc)
  next
    case False
    then show ?thesis
      using s m v assms(3) old idem
      by (auto simp: Allow_def Let_def sim_GC keep)
  qed
qed

lemma other_sim:
  "sim t rl s \<Longrightarrow> sim t (SetMax m rl) (m, snd s)" "sim t rl s \<Longrightarrow> sim t (Clear rl) (fst s, [])"
  by (simp_all add: sim_def SetMax_def Clear_def granted_in_def pruneAttempts_def)

lemma run_steps_Cons [simp]:
  "fst (run_steps f (x # xs) s) = fst (f x s) # fst (run_steps f xs (snd (f x s)))"
  "snd (run_steps f (x # xs) s) = snd (run_steps f xs (snd (f x s)))"
  by (simp_all split: prod.split)

lemma run_sim:
  assumes "clock_ok t ops" "sim t rl s" "rl_window rl = W" "0 < W"
  shows "fst (run_steps rl_step ops rl) = fst (run_steps (spec_step W) ops s)"
  using assms(1-3)
proof (induction ops arbitrary: t rl s)
  case (Cons x xs)
  obtain m gs where s: "s = (m, gs)" by fastforce
  show ?case
  proof (cases x)
    case (Call now ip)
    obtain r s' where sp: "spec_step W (Call now ip) (m, gs) = (r, s')" by fastforce
    obtain b rl' where al: "Allow now ip rl = (b, rl')" by fastforce
    from Allow_sim [of t rl m gs now W ip] Cons.prems Call s sp al assms(4)
    have "r = Some b" "sim now rl' s'" by simp_all
    moreover have "rl_window rl' = W" using Allow_window [of now ip rl] al Cons.prems(3) by simp
    ultimately show ?thesis
      using Cons.IH [of now rl' s'] Cons.prems(1) sp al Call s
      by (simp del: run_steps.simps spec_step.simps)
  next
    case (NewMax m')
    have "fst (run_steps rl_step xs (SetMax m' rl)) = fst (run_steps (spec_step W) xs (m', gs))"
      by (rule Cons.IH [of t])
        (use Cons.prems NewMax s other_sim(1) [OF Cons.prems(2), of m'] in \<open>simp_all add: SetMax_def\<close>)
    then show ?thesis using NewMax s by (simp del: run_steps.simps)
  next
    case Reset
    have "fst (run_steps rl_step xs (Clear rl)) = fst (run_steps (spec_step W) xs (m, []))"
      by (rule Cons.IH [of t])
        (use Cons.prems Reset s other_sim(2) [OF Cons.prems(2)] in \<open>simp_all add: Clear_def\<close>)
    then show ?thesis using Reset s by (simp del: run_steps.simps)
  qed
qed simp

section \<open>Properties\<close>

text \<open>C17: For every sequence of login attempts, changes of the limit and resets, with a clock that does
  not go back, the limiter answers exactly as the specification that keeps the complete history: an
  attempt is let through if and only if fewer than the maximum of that address were let through in
  the window, however the attempts of other addresses and the sweeps of idle entries interleave.\<close>

theorem ratelimit_sliding_window:
  assumes "clock_ok t ops"
  shows "fst (run_steps rl_step ops (NewIPRateLimiter mx windowSec)) =
    fst (run_steps (spec_step (if windowSec \<le> 0 then DefaultRateLimitWindow else windowSec)) ops (mx, []))"
  by (rule run_sim [OF assms])
    (simp_all add: sim_def NewIPRateLimiter_def granted_in_def pruneAttempts_def DefaultRateLimitWindow_def)

theorem ratelimit_sliding_window_witness:
  "fst (run_steps rl_step [Call 5 ''a'', Call 6 ''a'', Call 6 ''b'', Call 7 ''a'', Call 66 ''a'']
     (NewIPRateLimiter 2 60)) = [Some True, Some True, Some True, Some False, Some True]"
proof -
  have "clock_ok 0 [Call 5 ''a'', Call 6 ''a'', Call 6 ''b'', Call 7 ''a'', Call 66 ''a'']" by simp
  from ratelimit_sliding_window [OF this, of 2 60] show ?thesis by (simp add: granted_in_def)
qed

end
