(* ===== verification/Auth.thy ===== *)
theory Auth
  imports Rate_Limit
begin

text \<open>
  Login, lockout and credentials: \<^verbatim>\<open>internal/server/security/lockout.go\<close>, the services of
  \<^verbatim>\<open>internal/server/auth/service.go\<close> and \<^verbatim>\<open>internal/server/auth_service.go\<close>, the validation of
  \<^verbatim>\<open>internal/server/validation/validation.go\<close> and the login handler.  The database is the config table and
  the table of login attempts; every query can fail.  The password hash (bcrypt) is a parameter.
\<close>

section \<open>Lockout arithmetic\<close>

definition LockoutThreshold :: int where "LockoutThreshold = 3"

definition CalculateLockout :: "int \<Rightarrow> int \<Rightarrow> int \<Rightarrow> int \<Rightarrow> int option" where
  "CalculateLockout failedAttempts now durationSec threshold =
     (let d = (if durationSec \<le> 0 then 3600 else durationSec);
          n = (if threshold \<le> 0 then LockoutThreshold else threshold)
      in if failedAttempts \<ge> n then Some (i64 (now + d)) else None)"

definition IsLocked :: "int option \<Rightarrow> int \<Rightarrow> bool" where
  "IsLocked lockedUntil now = (case lockedUntil of None \<Rightarrow> False | Some t \<Rightarrow> t > now)"

definition ShouldClearLockout :: "int option \<Rightarrow> int \<Rightarrow> bool" where
  "ShouldClearLockout lockedUntil now = (case lockedUntil of None \<Rightarrow> False | Some t \<Rightarrow> t \<le> now)"

definition IncrementFailedAttempts :: "int \<Rightarrow> int" where
  "IncrementFailedAttempts current = i64 (current + 1)"

section \<open>Database\<close>

record login_attempt =
  la_failed :: int
  la_last :: int
  la_locked :: "int option"

text \<open>\<^term>\<open>db_tasks\<close> are the unlock tasks handed to the scheduler, with their times.\<close>

record auth_db =
  db_config :: "string \<Rightarrow> string option"
  db_attempts :: "string \<Rightarrow> login_attempt option"
  db_tasks :: "(int \<times> string) list"

text \<open>Which calls of one facade operation fail: the connection, a read, a write.\<close>

record db_faults =
  df_get :: bool
  df_read :: bool
  df_write :: bool

definition no_faults :: db_faults where
  "no_faults = \<lparr>df_get = False, df_read = False, df_write = False\<rparr>"

datatype auth_error = ErrInvalidCredentials | ErrAccountLocked | ErrNoRows | ErrDB
  | ErrInvalidAndRecord  \<comment> \<open>\<^verbatim>\<open>errors.Join\<close> of the first and a database error\<close>

record user = u_name :: string  u_hash :: string

definition GetUser :: "db_faults \<Rightarrow> string \<Rightarrow> auth_db \<Rightarrow> auth_error + user" where
  "GetUser f username db =
     (if df_get f then Inl ErrDB
      else if df_read f then Inl ErrDB
      else (case db_config db ''user'' of
          None \<Rightarrow> Inl ErrNoRows
        | Some u \<Rightarrow> (case db_config db ''password'' of
            None \<Rightarrow> Inl ErrNoRows
          | Some h \<Rightarrow> if u \<noteq> username then Inl ErrNoRows else Inr \<lparr>u_name = u, u_hash = h\<rparr>)))"

definition db_ClearLoginAttempts :: "string \<Rightarrow> auth_db \<Rightarrow> auth_db" where
  "db_ClearLoginAttempts u db = db\<lparr>db_attempts := (db_attempts db)(u := None)\<rparr>"

definition db_UnlockAccount :: "string \<Rightarrow> auth_db \<Rightarrow> auth_db" where
  "db_UnlockAccount u db = (case db_attempts db u of None \<Rightarrow> db
     | Some a \<Rightarrow> db\<lparr>db_attempts := (db_attempts db)(u \<mapsto> a\<lparr>la_failed := 0, la_locked := None\<rparr>)\<rparr>)"

definition CheckAccountLockout :: "db_faults \<Rightarrow> int \<Rightarrow> string \<Rightarrow> auth_db \<Rightarrow> (auth_error + bool) \<times> auth_db" where
  "CheckAccountLockout f now u db =
     (if df_get f \<or> df_read f then (Inl ErrDB, db)
      else (case db_attempts db u of
          None \<Rightarrow> (Inr False, db)
        | Some a \<Rightarrow>
            if la_locked a = None then (Inr False, db)
            else if ShouldClearLockout (la_locked a) now then
              (Inr False, if df_write f then db else db_ClearLoginAttempts u db)
            else (Inr (IsLocked (la_locked a) now), db)))"

text \<open>The read and the write of \<^verbatim>\<open>RecordFailedLoginAttempt\<close>, and both together; \<^term>\<open>sched\<close> says whether a
  scheduler accepts the unlock task.\<close>

definition record_read :: "string \<Rightarrow> auth_db \<Rightarrow> int" where
  "record_read u db = (case db_attempts db u of None \<Rightarrow> 1 | Some a \<Rightarrow> IncrementFailedAttempts (la_failed a))"

definition record_write :: "bool \<Rightarrow> int \<Rightarrow> int \<Rightarrow> int \<Rightarrow> string \<Rightarrow> int \<Rightarrow> auth_db \<Rightarrow> auth_db" where
  "record_write sched now dur thr u failed db =
     (let until = CalculateLockout failed now dur thr in
      db\<lparr>db_attempts := (db_attempts db)(u \<mapsto> \<lparr>la_failed = failed, la_last = now, la_locked = until\<rparr>),
         db_tasks := db_tasks db @ (case until of None \<Rightarrow> [] | Some t \<Rightarrow> if sched then [(t + 1, u)] else [])\<rparr>)"

definition RecordFailedLoginAttempt ::
  "db_faults \<Rightarrow> bool \<Rightarrow> int \<Rightarrow> int \<Rightarrow> int \<Rightarrow> string \<Rightarrow> auth_db \<Rightarrow> auth_error option \<times> auth_db" where
  "RecordFailedLoginAttempt f sched now dur thr u db =
     (if df_get f \<or> df_read f \<or> df_write f then (Some ErrDB, db)
      else (None, record_write sched now dur thr u (record_read u db) db))"

definition ClearLoginAttempts :: "db_faults \<Rightarrow> string \<Rightarrow> auth_db \<Rightarrow> auth_error option \<times> auth_db" where
  "ClearLoginAttempts f u db =
     (if df_get f \<or> df_write f then (Some ErrDB, db) else (None, db_ClearLoginAttempts u db))"

definition UnlockAccountFromTask :: "db_faults \<Rightarrow> string \<Rightarrow> auth_db \<Rightarrow> auth_error option \<times> auth_db" where
  "UnlockAccountFromTask f u db =
     (if df_get f \<or> df_write f then (Some ErrDB, db) else (None, db_UnlockAccount u db))"

definition GetAdminUsername :: "db_faults \<Rightarrow> auth_db \<Rightarrow> auth_error + string" where
  "GetAdminUsername f db = (if df_get f \<or> df_read f then Inl ErrDB
     else (case db_config db ''user'' of None \<Rightarrow> Inl ErrNoRows | Some u \<Rightarrow> Inr u))"

definition GetEffectiveTheme :: "string option \<Rightarrow> string list \<Rightarrow> string \<Rightarrow> string" where
  "GetEffectiveTheme cookie themes defaultTheme =
     (case cookie of None \<Rightarrow> defaultTheme | Some c \<Rightarrow> if c \<in> set themes then c else defaultTheme)"

section \<open>Authentication\<close>

text \<open>\<^term>\<open>verify\<close> is the comparison of bcrypt with the hash first; the two clock readings are those of the
  lockout check and of the recording; one fault record per call of the store.\<close>

record auth_env =
  ae_verify :: "string \<Rightarrow> string \<Rightarrow> bool"
  ae_sched :: bool
  ae_dur :: int
  ae_thr :: int

record auth_faults =
  af_check :: db_faults
  af_user :: db_faults
  af_record :: db_faults
  af_clear :: db_faults

definition fault_free :: auth_faults where
  "fault_free = \<lparr>af_check = no_faults, af_user = no_faults, af_record = no_faults, af_clear = no_faults\<rparr>"

definition Authenticate ::
  "auth_env \<Rightarrow> auth_faults \<Rightarrow> int \<Rightarrow> int \<Rightarrow> string \<Rightarrow> string \<Rightarrow> auth_db \<Rightarrow> (auth_error + user) \<times> auth_db" where
  "Authenticate env f now1 now2 username password db =
     (case CheckAccountLockout (af_check f) now1 username db of
        (Inl e, db1) \<Rightarrow> (Inl e, db1)
      | (Inr True, db1) \<Rightarrow> (Inl ErrAccountLocked, db1)
      | (Inr False, db1) \<Rightarrow>
          (case GetUser (af_user f) username db1 of
             Inl e \<Rightarrow> (Inl (if e = ErrNoRows then ErrInvalidCredentials else e), db1)
           | Inr user \<Rightarrow>
               if \<not> ae_verify env (u_hash user) password then
                 (case RecordFailedLoginAttempt (af_record f) (ae_sched env) now2 (ae_dur env) (ae_thr env) username db1 of
                    (Some e, db2) \<Rightarrow> (Inl ErrInvalidAndRecord, db2)
                  | (None, db2) \<Rightarrow> (Inl ErrInvalidCredentials, db2))
               else
                 (case ClearLoginAttempts (af_clear f) username db1 of
                    (Some e, db2) \<Rightarrow> (Inl e, db2)
                  | (None, db2) \<Rightarrow> (Inr user, db2))))"

text \<open>The login handler: the limiter, if there is one, then the service, then the session.\<close>

datatype login_response = TooManyRequests | FormLocked | FormInvalid | InternalServerError | LoginOK

definition Login ::
  "auth_env \<Rightarrow> auth_faults \<Rightarrow> bool \<Rightarrow> int \<Rightarrow> string \<Rightarrow> string \<Rightarrow> string \<Rightarrow> limiter option \<times> auth_db \<Rightarrow>
   login_response \<times> limiter option \<times> auth_db" where
  "Login env f sessionOK now remoteAddr username password s =
     (case s of (rl, db) \<Rightarrow>
        let (ok, rl') = (case rl of None \<Rightarrow> (True, None)
               | Some l \<Rightarrow> (case Allow now (RateLimitFromRequestKey remoteAddr) l of (b, l') \<Rightarrow> (b, Some l')))
        in if \<not> ok then (TooManyRequests, rl', db)
        else (case Authenticate env f now now username password db of
            (Inl ErrAccountLocked, db') \<Rightarrow> (FormLocked, rl', db')
          | (Inl ErrInvalidCredentials, db') \<Rightarrow> (FormInvalid, rl', db')
          | (Inl ErrInvalidAndRecord, db') \<Rightarrow> (FormInvalid, rl', db')
          | (Inl _, db') \<Rightarrow> (InternalServerError, rl', db')
          | (Inr _, db') \<Rightarrow> (if \<not> sessionOK then InternalServerError else LoginOK, rl', db')))"

definition SyncLoginRateLimitMax :: "int \<Rightarrow> limiter option \<Rightarrow> limiter option" where
  "SyncLoginRateLimitMax mx rl = (case rl of
     None \<Rightarrow> Some (NewIPRateLimiter mx DefaultRateLimitWindow)
   | Some l \<Rightarrow> Some (Clear (SetMax mx l)))"

section \<open>Validation and update of the credentials\<close>

datatype field_error = UsernameRequired | UsernameShort | UsernameChars | PasswordShort
  | PasswordMissing "string list" | CurrentRequired | CurrentIncorrect | NewRequired | ConfirmRequired
  | Mismatch | UpdateUserFailed | HashFailed | UpdatePasswordFailed

definition is_lower :: "char \<Rightarrow> bool" where
  "is_lower c \<longleftrightarrow> of_char c \<in> {97..122::nat}"
definition is_upper :: "char \<Rightarrow> bool" where
  "is_upper c \<longleftrightarrow> of_char c \<in> {65..90::nat}"
definition is_special :: "char \<Rightarrow> bool" where
  "is_special c \<longleftrightarrow> c \<in> set ''!@#$%^&*()-_=+[]{};:,.<>/?|'' \<or> of_char c \<in> {34, 39, 92::nat}"

definition ValidateUsername :: "string \<Rightarrow> field_error option" where
  "ValidateUsername u =
     (if u = [] then Some UsernameRequired
      else if length u < 8 then Some UsernameShort
      else if \<not> list_all (\<lambda>c. is_lower c \<or> is_upper c \<or> is_digit c \<or> c = CHR ''_'' \<or> c = CHR ''-'') u
      then Some UsernameChars else None)"

definition isValidPassword :: "string \<Rightarrow> bool" where
  "isValidPassword s \<longleftrightarrow> length s \<ge> 8 \<and> list_ex is_lower s \<and> list_ex is_upper s \<and> list_ex is_digit s \<and>
     list_ex is_special s"

definition ValidatePassword :: "string \<Rightarrow> field_error option" where
  "ValidatePassword p =
     (if length p < 8 then Some PasswordShort
      else if \<not> isValidPassword p then Some (PasswordMissing
        ((if list_ex is_lower p then [] else [''lowercase letter'']) @
         (if list_ex is_upper p then [] else [''uppercase letter'']) @
         (if list_ex is_digit p then [] else [''number'']) @
         (if list_ex is_special p then [] else [''special character''])))
      else None)"

record cred_opts =
  co_CurrentUsername :: string
  co_NewUsername :: string
  co_CurrentPassword :: string
  co_NewPassword :: string
  co_ConfirmPassword :: string

record cred_result =
  cres_user :: bool
  cres_password :: bool
  cres_errors :: "(string \<times> field_error) list"

definition db_set :: "string \<Rightarrow> string \<Rightarrow> auth_db \<Rightarrow> auth_db" where
  "db_set k v db = db\<lparr>db_config := (db_config db)(k \<mapsto> v)\<rparr>"

text \<open>The errors of the fields, before anything is written; the later checks only run when the earlier
  ones found nothing.\<close>

definition credential_errors ::
  "(string \<Rightarrow> string \<Rightarrow> bool) \<Rightarrow> db_faults \<Rightarrow> bool \<Rightarrow> bool \<Rightarrow> string \<Rightarrow> string \<Rightarrow> string \<Rightarrow> string \<Rightarrow> string \<Rightarrow> auth_db \<Rightarrow>
   (string \<times> field_error) list" where
  "credential_errors verify f chUser chPw currentUsername newUsername currentPassword newPassword confirmPassword db =
     (let e1 = (case GetUser f currentUsername db of
            Inl _ \<Rightarrow> [(''admin_current_password'', CurrentIncorrect)]
          | Inr u \<Rightarrow> if \<not> verify (u_hash u) currentPassword then [(''admin_current_password'', CurrentIncorrect)] else []);
          e2 = e1 @ (if chUser \<and> e1 = [] then
              (case ValidateUsername newUsername of None \<Rightarrow> [] | Some e \<Rightarrow> [(''admin_username'', e)]) else []);
          e3 = e2 @ (if chPw \<and> e2 = [] then
              (if newPassword = [] then [(''admin_new_password'', NewRequired)]
               else if confirmPassword = [] then [(''admin_confirm_password'', ConfirmRequired)]
               else if newPassword \<noteq> confirmPassword then [(''admin_confirm_password'', Mismatch)]
               else (case ValidatePassword newPassword of None \<Rightarrow> [] | Some e \<Rightarrow> [(''admin_new_password'', e)]))
              else [])
      in e3)"

text \<open>Faults: the read of the default user, of the current user, the two writes.  \<^term>\<open>genhash\<close> is bcrypt's
  hash, \<^term>\<open>None\<close> when it refuses the password.\<close>

definition UpdateCredentials ::
  "(string \<Rightarrow> string \<Rightarrow> bool) \<Rightarrow> (string \<Rightarrow> string option) \<Rightarrow> db_faults \<Rightarrow> db_faults \<Rightarrow> db_faults \<Rightarrow> db_faults \<Rightarrow>
   cred_opts \<Rightarrow> auth_db \<Rightarrow> cred_result \<times> bool \<times> auth_db" where
  "UpdateCredentials verify genhash f0 f1 f2 f3 opts db =
     (let newUsername = TrimSpace (co_NewUsername opts);
          currentPassword = TrimSpace (co_CurrentPassword opts);
          newPassword = TrimSpace (co_NewPassword opts);
          confirmPassword = TrimSpace (co_ConfirmPassword opts);
          currentUsername = (if co_CurrentUsername opts = [] then
              (case GetUser f0 ''admin'' db of Inl _ \<Rightarrow> [] | Inr u \<Rightarrow> u_name u) else co_CurrentUsername opts);
          chUser = (newUsername \<noteq> [] \<and> newUsername \<noteq> currentUsername);
          chPw = (newPassword \<noteq> [] \<or> confirmPassword \<noteq> []);
          result = \<lparr>cres_user = chUser, cres_password = chPw, cres_errors = []\<rparr>
      in if \<not> chUser \<and> \<not> chPw then (result, True, db)
      else if currentPassword = [] then
        (result\<lparr>cres_errors := [(''admin_current_password'', CurrentRequired)]\<rparr>, True, db)
      else
        let errs = credential_errors verify f1 chUser chPw currentUsername newUsername currentPassword newPassword
              confirmPassword db
        in if errs \<noteq> [] then (result\<lparr>cres_errors := errs\<rparr>, True, db)
        else if chUser \<and> (df_get f2 \<or> df_write f2) then
          (result\<lparr>cres_errors := [(''_global'', UpdateUserFailed)]\<rparr>, False, db)
        else
          let db1 = (if chUser then db_set ''user'' newUsername db else db) in
          if \<not> chPw then (result, True, db1)
          else (case genhash newPassword of
              None \<Rightarrow> (result\<lparr>cres_errors := [(''_global'', HashFailed)]\<rparr>, False, db1)
            | Some h \<Rightarrow>
                if df_get f3 \<or> df_write f3 then (result\<lparr>cres_errors := [(''_global'', UpdatePasswordFailed)]\<rparr>, False, db1)
                else (result, True, db_set ''password'' h db1)))"

end
