(* ===== verification/Auth_Correct.thy ===== *)
theory Auth_Correct
  imports Auth
begin

text \<open>
  What the lockout guarantees for one client after the other, and what it does not: concurrent
  guesses are neither counted nor stopped, and the unlock task of an old lockout ends a new one.
  Credentials are written only when the current password was verified and everything validated, but
  the two writes are not one.
\<close>

section \<open>Lockout, one attempt after the other\<close>

definition admin :: "string \<Rightarrow> string \<Rightarrow> auth_db \<Rightarrow> bool" where
  "admin u h db \<longleftrightarrow> db_config db ''user'' = Some u \<and> db_config db ''password'' = Some h"

definition try_login :: "auth_env \<Rightarrow> string \<Rightarrow> int \<times> string \<Rightarrow> auth_db \<Rightarrow> (auth_error + user) \<times> auth_db" where
  "try_login env u tp db = Authenticate env fault_free (fst tp) (fst tp) u (snd tp) db"

definition threshold_of :: "auth_env \<Rightarrow> int" where
  "threshold_of env = (if ae_thr env \<le> 0 then LockoutThreshold else ae_thr env)"

definition duration_of :: "auth_env \<Rightarrow> int" where
  "duration_of env = (if ae_dur env \<le> 0 then 3600 else ae_dur env)"

definition counted :: "string \<Rightarrow> int \<Rightarrow> auth_db \<Rightarrow> bool" where
  "counted u k db \<longleftrightarrow> (if k = 0 then db_attempts db u = None
     else (\<exists>a. db_attempts db u = Some a \<and> la_failed a = k \<and> la_locked a = None))"

lemma no_faults_simps [simp]:
  "df_get no_faults = False" "df_read no_faults = False" "df_write no_faults = False"
  "af_check fault_free = no_faults" "af_user fault_free = no_faults" "af_record fault_free = no_faults"
  "af_clear fault_free = no_faults"
  by (simp_all add: no_faults_def fault_free_def)

lemma admin_record_write [simp]: "admin u h (record_write sd now d n v k db) = admin u h db"
  by (simp add: admin_def record_write_def Let_def)

lemma wrong_try:
  assumes "admin u h db" "\<not> ae_verify env h pw" "counted u k db" "0 \<le> k" "k + 1 < 2 ^ 63"
  shows "try_login env u (t, pw) db = (Inl ErrInvalidCredentials,
    record_write (ae_sched env) t (ae_dur env) (ae_thr env) u (k + 1) db)"
proof -
  have "i64 (k + 1) = k + 1" by (rule i64_id) (use assms(4,5) in \<open>simp add: i64_range_def\<close>)
  with assms(1-3) show ?thesis
    by (auto simp: try_login_def Authenticate_def CheckAccountLockout_def GetUser_def admin_def counted_def
        RecordFailedLoginAttempt_def record_read_def IncrementFailedAttempts_def split: if_splits)
qed

lemma write_counted:
  "0 \<le> k \<Longrightarrow> k + 1 < threshold_of env \<Longrightarrow>
   counted u (k + 1) (record_write sd t (ae_dur env) (ae_thr env) u (k + 1) db)"
  by (simp add: counted_def record_write_def CalculateLockout_def threshold_of_def Let_def)

lemma write_locks:
  assumes "threshold_of env \<le> k" "i64_range (t + duration_of env)"
  shows "\<exists>a. db_attempts (record_write sd t (ae_dur env) (ae_thr env) u k db) u = Some a \<and>
    la_locked a = Some (t + duration_of env)"
  using assms by (simp add: record_write_def CalculateLockout_def threshold_of_def duration_of_def Let_def i64_id)

lemma write_tasks:
  assumes "i64_range (t + duration_of env)"
  shows "db_tasks (record_write sd t (ae_dur env) (ae_thr env) v k db) = db_tasks db \<or>
    db_tasks (record_write sd t (ae_dur env) (ae_thr env) v k db) = db_tasks db @ [(t + duration_of env + 1, v)]"
  using assms by (simp add: record_write_def CalculateLockout_def duration_of_def Let_def i64_id)

lemma locked_try:
  assumes "db_attempts db u = Some a" "la_locked a = Some until" "now < until" "af_check f = no_faults"
  shows "Authenticate env f now now2 u pw db = (Inl ErrAccountLocked, db)"
  using assms by (simp add: Authenticate_def CheckAccountLockout_def ShouldClearLockout_def IsLocked_def)

lemma wrong_tries:
  assumes "admin u h db" "\<forall>tp\<in>set tries. \<not> ae_verify env h (snd tp)" "counted u k db" "0 \<le> k"
    and "k + int (length tries) < threshold_of env" "threshold_of env < 2 ^ 63"
  shows "fst (run_steps (try_login env u) tries db) = replicate (length tries) (Inl ErrInvalidCredentials) \<and>
    admin u h (snd (run_steps (try_login env u) tries db)) \<and>
    counted u (k + int (length tries)) (snd (run_steps (try_login env u) tries db)) \<and>
    db_tasks (snd (run_steps (try_login env u) tries db)) = db_tasks db"
  using assms(1-5)
proof (induction tries arbitrary: db k)
  case (Cons tp tries)
  obtain t pw where tp: "tp = (t, pw)" by fastforce
  let ?db = "record_write (ae_sched env) t (ae_dur env) (ae_thr env) u (k + 1) db"
  have st: "try_login env u tp db = (Inl ErrInvalidCredentials, ?db)"
    unfolding tp by (rule wrong_try) (use Cons.prems assms(6) tp in auto)
  have cnt: "counted u (k + 1) ?db" by (rule write_counted) (use Cons.prems in auto)
  have "fst (run_steps (try_login env u) tries ?db) = replicate (length tries) (Inl ErrInvalidCredentials) \<and>
    admin u h (snd (run_steps (try_login env u) tries ?db)) \<and>
    counted u (k + 1 + int (length tries)) (snd (run_steps (try_login env u) tries ?db)) \<and>
    db_tasks (snd (run_steps (try_login env u) tries ?db)) = db_tasks ?db"
    by (rule Cons.IH) (use Cons.prems cnt in auto)
  moreover have "db_tasks ?db = db_tasks db"
    using Cons.prems(5) by (simp add: record_write_def CalculateLockout_def threshold_of_def Let_def)
  ultimately show ?case using st by (simp del: run_steps.simps add: algebra_simps)
qed simp

lemma run_steps_snoc:
  "run_steps f (xs @ [x]) s = (fst (run_steps f xs s) @ [fst (f x (snd (run_steps f xs s)))],
     snd (f x (snd (run_steps f xs s))))"
  by (induction xs arbitrary: s) (auto split: prod.splits)

section \<open>Concurrent attempts\<close>

text \<open>A request in \<^verbatim>\<open>Authenticate\<close>, at each of its accesses to the database; the comparison of the password
  is one step, counted by the ghost \<^term>\<open>guesses\<close>.\<close>

datatype login_pc = AtCheck | AtVerify | AtRead | AtWrite int | Answered "auth_error option"

inductive login_step ::
  "auth_env \<Rightarrow> int \<Rightarrow> string \<Rightarrow> string \<Rightarrow> auth_db \<times> nat \<times> login_pc list \<Rightarrow> auth_db \<times> nat \<times> login_pc list \<Rightarrow> bool"
  for env now u pw where
  lg_check: "CheckAccountLockout no_faults now u db = (Inr locked, db') \<Longrightarrow>
     login_step env now u pw (db, n, gs @ AtCheck # hs)
       (db', n, gs @ (if locked then Answered (Some ErrAccountLocked) else AtVerify) # hs)"
| lg_wrong: "GetUser no_faults u db = Inr user \<Longrightarrow> \<not> ae_verify env (u_hash user) pw \<Longrightarrow>
     login_step env now u pw (db, n, gs @ AtVerify # hs) (db, n + 1, gs @ AtRead # hs)"
| lg_right: "GetUser no_faults u db = Inr user \<Longrightarrow> ae_verify env (u_hash user) pw \<Longrightarrow>
     login_step env now u pw (db, n, gs @ AtVerify # hs)
       (db_ClearLoginAttempts u db, n + 1, gs @ Answered None # hs)"
| lg_read: "login_step env now u pw (db, n, gs @ AtRead # hs) (db, n, gs @ AtWrite (record_read u db) # hs)"
| lg_write: "login_step env now u pw (db, n, gs @ AtWrite k # hs)
     (record_write (ae_sched env) now (ae_dur env) (ae_thr env) u k db, n,
      gs @ Answered (Some ErrInvalidCredentials) # hs)"

text \<open>All of \<^term>\<open>m\<close> requests take the same step one after the other.\<close>

lemma all_step:
  assumes "\<And>n gs hs. login_step env now u pw (db, n, gs @ p # hs) (db, n + d, gs @ q # hs)"
  shows "(login_step env now u pw)\<^sup>*\<^sup>* (db, n, gs @ replicate m p) (db, n + m * d, gs @ replicate m q)"
proof (induction m arbitrary: n gs)
  case (Suc m)
  have "(login_step env now u pw) (db, n, gs @ p # replicate m p) (db, n + d, gs @ q # replicate m p)"
    by (rule assms)
  moreover have "(login_step env now u pw)\<^sup>*\<^sup>* (db, n + d, (gs @ [q]) @ replicate m p)
      (db, n + d + m * d, (gs @ [q]) @ replicate m q)"
    by (rule Suc.IH)
  ultimately show ?case
    by (simp add: converse_rtranclp_into_rtranclp algebra_simps)
qed simp

definition wrong_written :: "auth_env \<Rightarrow> int \<Rightarrow> string \<Rightarrow> auth_db \<Rightarrow> auth_db" where
  "wrong_written env now u db = record_write False now (ae_dur env) (ae_thr env) u 1 db"

lemma all_write:
  assumes "1 < threshold_of env"
  shows "\<exists>db'. (login_step env now u pw)\<^sup>*\<^sup>* (db, n, gs @ replicate (Suc m) (AtWrite 1))
      (db', n, gs @ replicate (Suc m) (Answered (Some ErrInvalidCredentials))) \<and>
    db_attempts db' u = Some \<lparr>la_failed = 1, la_last = now, la_locked = None\<rparr>"
proof (induction m arbitrary: db gs)
  case 0
  have "login_step env now u pw (db, n, gs @ AtWrite 1 # [])
      (record_write (ae_sched env) now (ae_dur env) (ae_thr env) u 1 db, n, gs @ Answered (Some ErrInvalidCredentials) # [])"
    by (rule login_step.lg_write)
  moreover have "db_attempts (record_write (ae_sched env) now (ae_dur env) (ae_thr env) u 1 db) u =
      Some \<lparr>la_failed = 1, la_last = now, la_locked = None\<rparr>"
    using assms by (simp add: record_write_def CalculateLockout_def threshold_of_def Let_def)
  ultimately show ?case by (fastforce intro: r_into_rtranclp)
next
  case (Suc m)
  let ?a = "Answered (Some ErrInvalidCredentials)"
  let ?db = "record_write (ae_sched env) now (ae_dur env) (ae_thr env) u 1 db"
  have first: "login_step env now u pw (db, n, gs @ AtWrite 1 # replicate (Suc m) (AtWrite 1))
      (?db, n, gs @ ?a # replicate (Suc m) (AtWrite 1))"
    by (rule login_step.lg_write)
  obtain db' where "(login_step env now u pw)\<^sup>*\<^sup>* (?db, n, (gs @ [?a]) @ replicate (Suc m) (AtWrite 1))
      (db', n, (gs @ [?a]) @ replicate (Suc m) ?a)"
    "db_attempts db' u = Some \<lparr>la_failed = 1, la_last = now, la_locked = None\<rparr>"
    using Suc.IH [of ?db "gs @ [?a]"] by blast
  with converse_rtranclp_into_rtranclp [of "login_step env now u pw", OF first] show ?case
    by (intro exI [of _ db']) simp
qed

section \<open>While the account is locked\<close>

text \<open>What happens to the store, in any order: attempts under any name, with any failures of the database,
  and the scheduler running a task that is due, which it does at most once.\<close>

datatype auth_event = Attempt auth_faults int int string string | RunTask db_faults int nat

definition run_unlock :: "db_faults \<Rightarrow> int \<Rightarrow> nat \<Rightarrow> auth_db \<Rightarrow> auth_db" where
  "run_unlock f now k db =
     (if k < length (db_tasks db) \<and> fst (db_tasks db ! k) \<le> now
      then snd (UnlockAccountFromTask f (snd (db_tasks db ! k))
        (db\<lparr>db_tasks := take k (db_tasks db) @ drop (Suc k) (db_tasks db)\<rparr>))
      else db)"

fun auth_step :: "auth_env \<Rightarrow> auth_event \<Rightarrow> auth_db \<Rightarrow> (auth_error + user) option \<times> auth_db" where
  "auth_step env (Attempt f now1 now2 v pw) db = (case Authenticate env f now1 now2 v pw db of (r, db') \<Rightarrow> (Some r, db'))"
| "auth_step env (RunTask f now k) db = (None, run_unlock f now k db)"

fun event_time :: "auth_event \<Rightarrow> int" where
  "event_time (Attempt f now1 now2 v pw) = now1"
| "event_time (RunTask f now k) = now"

text \<open>The answer of an event on the locked account: the attempts under its name are refused, as locked or,
  when the check itself fails, with the database error.\<close>

fun refused :: "string \<Rightarrow> auth_event \<Rightarrow> (auth_error + user) option \<Rightarrow> bool" where
  "refused u (Attempt f now1 now2 v pw) r \<longleftrightarrow>
     (v = u \<longrightarrow> r = Some (Inl (if df_get (af_check f) \<or> df_read (af_check f) then ErrDB else ErrAccountLocked)))"
| "refused u (RunTask f now k) r \<longleftrightarrow> True"

definition tasks_after :: "int \<Rightarrow> string \<Rightarrow> auth_db \<Rightarrow> bool" where
  "tasks_after until u db \<longleftrightarrow> (\<forall>(s, v) \<in> set (db_tasks db). v = u \<longrightarrow> until \<le> s)"

definition held :: "string \<Rightarrow> int \<Rightarrow> login_attempt \<Rightarrow> auth_db \<Rightarrow> bool" where
  "held u until a db \<longleftrightarrow> db_attempts db u = Some a \<and> la_locked a = Some until \<and> tasks_after until u db"

lemma authenticate_other:
  assumes "v \<noteq> u" "Authenticate env f now1 now2 v pw db = (r, db')"
  shows "db_attempts db' u = db_attempts db u \<and> (tasks_after until u db \<longrightarrow> tasks_after until u db')"
proof -
  have c: "db_attempts db1 u = db_attempts db u \<and> db_tasks db1 = db_tasks db"
    if "CheckAccountLockout (af_check f) now1 v db = (x, db1)" for x db1
    using that assms(1) by (auto simp: CheckAccountLockout_def db_ClearLoginAttempts_def split: if_splits option.splits)
  obtain x db1 where 1: "CheckAccountLockout (af_check f) now1 v db = (x, db1)" by fastforce
  have "db_attempts db' u = db_attempts db1 u \<and> (tasks_after until u db1 \<longrightarrow> tasks_after until u db')"
    using assms by (auto simp: Authenticate_def 1 RecordFailedLoginAttempt_def record_write_def ClearLoginAttempts_def
        db_ClearLoginAttempts_def tasks_after_def Let_def split: sum.splits if_splits bool.splits option.splits)
  with c [OF 1] show ?thesis by (simp add: tasks_after_def)
qed

lemma unlock_other:
  assumes "v \<noteq> u"
  shows "db_attempts (snd (UnlockAccountFromTask f v db)) u = db_attempts db u \<and>
    db_tasks (snd (UnlockAccountFromTask f v db)) = db_tasks db"
  using assms by (simp add: UnlockAccountFromTask_def db_UnlockAccount_def split: option.splits)

lemma held_event:
  assumes h: "held u until a db" and e: "event_time e < until" "auth_step env e db = (r, db')"
  shows "held u until a db' \<and> refused u e r"
proof (cases e)
  case (RunTask f now k)
  let ?db = "db\<lparr>db_tasks := take k (db_tasks db) @ drop (Suc k) (db_tasks db)\<rparr>"
  have "db' = (if k < length (db_tasks db) \<and> fst (db_tasks db ! k) \<le> now
      then snd (UnlockAccountFromTask f (snd (db_tasks db ! k)) ?db) else db)" "refused u e r"
    using e(2) RunTask by (auto simp: run_unlock_def)
  moreover have "held u until a (snd (UnlockAccountFromTask f (snd (db_tasks db ! k)) ?db))"
    if "k < length (db_tasks db)" "fst (db_tasks db ! k) \<le> now"
  proof -
    have "snd (db_tasks db ! k) \<noteq> u"
      using h that(2) e(1) RunTask nth_mem [OF that(1)] by (force simp: held_def tasks_after_def)
    moreover have "set (take k (db_tasks db) @ drop (Suc k) (db_tasks db)) \<subseteq> set (db_tasks db)"
      using set_take_subset set_drop_subset by fastforce
    then have "tasks_after until u ?db" using h by (force simp: held_def tasks_after_def)
    ultimately show ?thesis using h unlock_other [of "snd (db_tasks db ! k)" u f ?db]
      by (simp add: held_def tasks_after_def)
  qed
  ultimately show ?thesis using h by simp
next
  case (Attempt f now1 now2 v pw)
  show ?thesis
  proof (cases "v = u")
    case True
    then show ?thesis using h e Attempt
      by (auto simp: held_def Authenticate_def CheckAccountLockout_def ShouldClearLockout_def IsLocked_def split: if_splits)
  next
    case False
    obtain x where "Authenticate env f now1 now2 v pw db = (x, db')" using e(2) Attempt by (auto split: prod.splits)
    from authenticate_other [OF False this, of until] h show ?thesis by (simp add: held_def Attempt False)
  qed
qed

lemma held_events:
  assumes "held u until a db" "\<forall>e \<in> set es. event_time e < until"
  shows "held u until a (snd (run_steps (auth_step env) es db)) \<and>
    list_all2 (refused u) es (fst (run_steps (auth_step env) es db))"
  using assms
proof (induction es arbitrary: db)
  case (Cons e es)
  obtain r db1 where 1: "auth_step env e db = (r, db1)" by fastforce
  from held_event [OF Cons.prems(1) _ 1] Cons.prems(2) have "held u until a db1" "refused u e r" by auto
  with Cons.IH [of db1] Cons.prems(2) 1 show ?case by (simp add: split_beta)
qed simp

text \<open>Also concurrent requests stop at their first access.\<close>

lemma held_requests:
  assumes "db_attempts db u = Some a" "la_locked a = Some until" "now < until"
    and "(login_step env now u pw)\<^sup>*\<^sup>* (db, n, replicate m AtCheck) s"
  shows "\<exists>pcs. s = (db, n, pcs) \<and> set pcs \<subseteq> {AtCheck, Answered (Some ErrAccountLocked)}"
  using assms(4)
proof (induction rule: rtranclp_induct)
  case (step s s')
  then obtain pcs where s: "s = (db, n, pcs)" "set pcs \<subseteq> {AtCheck, Answered (Some ErrAccountLocked)}" by blast
  have "CheckAccountLockout no_faults now u db = (Inr True, db)"
    using assms(1-3) by (simp add: CheckAccountLockout_def ShouldClearLockout_def IsLocked_def)
  with step.hyps(2) s show ?case by (cases rule: login_step.cases) auto
qed (auto simp: set_replicate_conv_if)

section \<open>Properties\<close>

text \<open>C15: When as many wrong passwords in a row as the threshold have been tried and recorded, one after
  the other, for the existing account, each is answered as invalid, and until the lockout time is over
  the account stays locked: whatever attempts are made, under whatever name and with whatever failures of
  the database, and whichever due tasks the scheduler runs, every attempt under this name is refused,
  with the right password as well; and any number of concurrent requests compare no password. The
  condition is that no unlock task of an earlier lockout of this account is due before that time (one
  that is ends the lockout), and that no request is still under way when the threshold is reached.\<close>

theorem lockout_after_threshold:
  assumes "admin u h db" and "db_attempts db u = None" and "tasks_after (t + duration_of env) u db"
    and "int (length tries) + 1 = threshold_of env" and "threshold_of env < 2 ^ 63"
    and "\<forall>tp\<in>set tries. \<not> ae_verify env h (snd tp)" and "\<not> ae_verify env h pw"
    and "i64_range (t + duration_of env)"
    and "\<forall>e \<in> set es. event_time e < t + duration_of env"
  shows "case run_steps (try_login env u) (tries @ [(t, pw)]) db of (answers, db1) \<Rightarrow>
    answers = replicate (length tries + 1) (Inl ErrInvalidCredentials) \<and>
    (case run_steps (auth_step env) es db1 of (outcomes, db2) \<Rightarrow>
      list_all2 (refused u) es outcomes \<and> db_attempts db2 u = db_attempts db1 u \<and>
      (\<forall>now n m s anything. now < t + duration_of env \<and> (login_step env now u anything)\<^sup>*\<^sup>* (db2, n, replicate m AtCheck) s \<longrightarrow>
        (\<exists>pcs. s = (db2, n, pcs) \<and> set pcs \<subseteq> {AtCheck, Answered (Some ErrAccountLocked)})))"
proof -
  let ?db = "snd (run_steps (try_login env u) tries db)"
  have init: "counted u 0 db" using assms(2) by (simp add: counted_def)
  from wrong_tries [OF assms(1,6) init order_refl _ assms(5)] assms(4)
  have run: "fst (run_steps (try_login env u) tries db) = replicate (length tries) (Inl ErrInvalidCredentials)"
    "admin u h ?db" "counted u (int (length tries)) ?db" "db_tasks ?db = db_tasks db" by simp_all
  let ?db1 = "record_write (ae_sched env) t (ae_dur env) (ae_thr env) u (threshold_of env) ?db"
  have st: "try_login env u (t, pw) ?db = (Inl ErrInvalidCredentials, ?db1)"
    using wrong_try [OF run(2) assms(7) run(3)] assms(4,5) by simp
  obtain a where a: "db_attempts ?db1 u = Some a" "la_locked a = Some (t + duration_of env)"
    using write_locks [OF order_refl assms(8)] by blast
  have "db_tasks ?db1 = db_tasks db \<or> db_tasks ?db1 = db_tasks db @ [(t + duration_of env + 1, u)]"
    using write_tasks [OF assms(8)] run(4) by metis
  then have "tasks_after (t + duration_of env) u ?db1"
    using assms(3) by (auto simp: tasks_after_def)
  with a have held: "held u (t + duration_of env) a ?db1" by (simp add: held_def)
  obtain outcomes db2 where es: "run_steps (auth_step env) es ?db1 = (outcomes, db2)" by fastforce
  from held_events [OF held assms(9), of env]
  have after: "held u (t + duration_of env) a db2" "list_all2 (refused u) es outcomes" by (simp_all add: es)
  then have "\<forall>now n m s anything. now < t + duration_of env \<and>
      (login_step env now u anything)\<^sup>*\<^sup>* (db2, n, replicate m AtCheck) s \<longrightarrow>
      (\<exists>pcs. s = (db2, n, pcs) \<and> set pcs \<subseteq> {AtCheck, Answered (Some ErrAccountLocked)})"
    using held_requests [OF _ a(2)] unfolding held_def by blast
  then show ?thesis using after a(1) st run(1) es
    by (simp add: run_steps_snoc replicate_append_same held_def)
qed

definition demo_env :: auth_env where
  "demo_env = \<lparr>ae_verify = (\<lambda>h p. h = p), ae_sched = True, ae_dur = 3600, ae_thr = 3\<rparr>"

definition demo_db :: auth_db where
  "demo_db = \<lparr>db_config = (\<lambda>k. if k = ''user'' then Some ''admin'' else if k = ''password'' then Some ''right'' else None),
     db_attempts = (\<lambda>_. None), db_tasks = []\<rparr>"

text \<open>After three wrong passwords at the seconds 1, 2 and 3, the right one is refused at second 500, also
  when the scheduler has looked for due tasks before; and so are a hundred concurrent requests.\<close>

theorem lockout_after_threshold_witness:
  "fst (run_steps (auth_step demo_env) [RunTask no_faults 400 0, Attempt fault_free 500 500 ''admin'' ''right'']
     (snd (run_steps (try_login demo_env ''admin'') ([(1, ''a''), (2, ''b'')] @ [(3, ''c'')]) demo_db)))
   = [None, Some (Inl ErrAccountLocked)]"
proof -
  let ?es = "[RunTask no_faults 400 0, Attempt fault_free 500 500 ''admin'' ''right'']"
  let ?db1 = "snd (run_steps (try_login demo_env ''admin'') ([(1, ''a''), (2, ''b'')] @ [(3, ''c'')]) demo_db)"
  have "list_all2 (refused ''admin'') ?es (fst (run_steps (auth_step demo_env) ?es ?db1))"
    using lockout_after_threshold [of "''admin''" "''right''" demo_db 3 demo_env "[(1, ''a''), (2, ''b'')]" "''c''" ?es]
    by (simp add: admin_def demo_db_def demo_env_def threshold_of_def duration_of_def tasks_after_def i64_range_def split_beta
        del: run_steps.simps append.simps)
  then obtain x y where "fst (run_steps (auth_step demo_env) ?es ?db1) = [x, y]" "y = Some (Inl ErrAccountLocked)"
    by (auto simp: list_all2_Cons1 simp del: run_steps.simps append.simps)
  moreover have "hd (fst (run_steps (auth_step demo_env) ?es ?db1)) = None" by (simp add: split_beta)
  ultimately show ?thesis by (metis list.sel(1))
qed

text \<open>The lockout does not stop concurrent guesses: any number of requests that pass the check before
  the first of them has recorded its failure all compare a password, and the counter can end at one,
  with the account not locked.\<close>

theorem lockout_concurrent_guesses:
  assumes "admin u h db" and "db_attempts db u = None" and "\<not> ae_verify env h pw" and "1 < threshold_of env"
  shows "\<exists>db'. (login_step env now u pw)\<^sup>*\<^sup>* (db, 0, replicate (Suc m) AtCheck)
      (db', Suc m, replicate (Suc m) (Answered (Some ErrInvalidCredentials))) \<and>
    db_attempts db' u = Some \<lparr>la_failed = 1, la_last = now, la_locked = None\<rparr>"
proof -
  have user: "GetUser no_faults u db = Inr \<lparr>u_name = u, u_hash = h\<rparr>"
    using assms(1) by (simp add: GetUser_def admin_def)
  have "(login_step env now u pw)\<^sup>*\<^sup>* (db, 0, [] @ replicate (Suc m) AtCheck) (db, 0 + Suc m * 0, [] @ replicate (Suc m) AtVerify)"
    by (rule all_step) (use login_step.lg_check [of now u db False db] assms(2) in \<open>simp add: CheckAccountLockout_def\<close>)
  moreover have "(login_step env now u pw)\<^sup>*\<^sup>* (db, 0, [] @ replicate (Suc m) AtVerify) (db, 0 + Suc m * 1, [] @ replicate (Suc m) AtRead)"
    by (rule all_step) (use login_step.lg_wrong [OF user] assms(3) in simp)
  moreover have "(login_step env now u pw)\<^sup>*\<^sup>* (db, Suc m, [] @ replicate (Suc m) AtRead) (db, Suc m + Suc m * 0, [] @ replicate (Suc m) (AtWrite 1))"
    by (rule all_step) (use login_step.lg_read [of env now u pw db] assms(2) in \<open>simp add: record_read_def\<close>)
  moreover obtain db' where "(login_step env now u pw)\<^sup>*\<^sup>* (db, Suc m, [] @ replicate (Suc m) (AtWrite 1))
      (db', Suc m, [] @ replicate (Suc m) (Answered (Some ErrInvalidCredentials)))"
    "db_attempts db' u = Some \<lparr>la_failed = 1, la_last = now, la_locked = None\<rparr>"
    using all_write [OF assms(4)] by blast
  note final = this
  ultimately have "(login_step env now u pw)\<^sup>*\<^sup>* (db, 0, [] @ replicate (Suc m) AtCheck)
      (db', Suc m, [] @ replicate (Suc m) (Answered (Some ErrInvalidCredentials)))"
    by (simp only: mult_0_right add_0_right add_0_left mult_1_right)
  with final(2) show ?thesis by (intro exI [of _ db']) (simp only: append_Nil)
qed

theorem lockout_concurrent_guesses_witness:
  "\<exists>db'. (login_step demo_env 7 ''admin'' ''wrong'')\<^sup>*\<^sup>* (demo_db, 0, replicate (Suc 99) AtCheck)
      (db', Suc 99, replicate (Suc 99) (Answered (Some ErrInvalidCredentials))) \<and>
    db_attempts db' ''admin'' = Some \<lparr>la_failed = 1, la_last = 7, la_locked = None\<rparr>"
  by (rule lockout_concurrent_guesses [where h = "''right''"])
    (simp_all add: admin_def demo_db_def demo_env_def threshold_of_def)

definition stale_unlock :: "(int \<times> string) list \<times> int option \<times> int option" where
  "stale_unlock =
     (let wrong = (\<lambda>t db. snd (try_login demo_env ''admin'' (t, ''wrong'') db));
          db1 = wrong 0 (wrong 0 (wrong 0 demo_db));
          db2 = wrong 3600 (wrong 3600 (wrong 3600 db1));
          db3 = snd (UnlockAccountFromTask no_faults (snd (hd (db_tasks db2))) db2)
      in (db_tasks db2, Option.bind (db_attempts db2 ''admin'') la_locked,
          Option.bind (db_attempts db3 ''admin'') la_locked))"

text \<open>The unlock task of an old lockout ends a new one: locked at time 0 for an hour, the account is
  free again at second 3600, three more wrong passwords lock it until second 7200, and the task of the
  first lockout, due at second 3601, unlocks it.\<close>

theorem lockout_stale_unlock:
  "stale_unlock = ([(3601, ''admin''), (7201, ''admin'')], Some 7200, None)"
  by code_simp

section \<open>Credentials\<close>

lemma credential_errors_none:
  "credential_errors verify f chU chP cu nu cp np cf db = [] \<Longrightarrow>
   (\<exists>user. GetUser f cu db = Inr user \<and> verify (u_hash user) cp) \<and> (chU \<longrightarrow> ValidateUsername nu = None) \<and>
   (chP \<longrightarrow> np = cf \<and> ValidatePassword np = None)"
  by (auto simp: credential_errors_def Let_def split: if_splits sum.splits option.splits)

text \<open>Credentials are written only when the current password was verified against the stored hash and
  what is new passed its validation; an update that reports field errors and no failure of the
  database or of the hash has written nothing.\<close>

theorem credentials_guarded:
  assumes "UpdateCredentials verify genhash f0 f1 f2 f3 opts db = (res, ok, db')"
  shows "(db' \<noteq> db \<longrightarrow> TrimSpace (co_CurrentPassword opts) \<noteq> [] \<and>
      (\<exists>cu user. GetUser f1 cu db = Inr user \<and> verify (u_hash user) (TrimSpace (co_CurrentPassword opts))) \<and>
      (cres_user res \<longrightarrow> ValidateUsername (TrimSpace (co_NewUsername opts)) = None) \<and>
      (cres_password res \<longrightarrow> ValidatePassword (TrimSpace (co_NewPassword opts)) = None \<and>
         TrimSpace (co_NewPassword opts) = TrimSpace (co_ConfirmPassword opts))) \<and>
    (ok \<and> cres_errors res \<noteq> [] \<longrightarrow> db' = db)"
  using assms
  by (auto simp: UpdateCredentials_def Let_def dest!: credential_errors_none split: if_splits option.splits)

text \<open>An update of both credentials by the current user \<^verbatim>\<open>admin\<close>, with bcrypt's limit of 72 bytes.\<close>

definition bcrypt_limit :: "string \<Rightarrow> string option" where
  "bcrypt_limit p = (if length p > 72 then None else Some p)"

definition demo_opts :: "string \<Rightarrow> cred_opts" where
  "demo_opts pw = \<lparr>co_CurrentUsername = ''admin'', co_NewUsername = ''new_admin'', co_CurrentPassword = ''right'',
     co_NewPassword = pw, co_ConfirmPassword = pw\<rparr>"

definition demo_update :: "string \<Rightarrow> cred_result \<times> bool \<times> auth_db" where
  "demo_update pw = UpdateCredentials (\<lambda>h p. h = p) bcrypt_limit no_faults no_faults no_faults no_faults (demo_opts pw) demo_db"

definition long_password :: string where
  "long_password = concat (replicate 19 ''Aa1!'')"

lemma demo_update_good:
  "fst (demo_update ''Aa1!Aa1!'') = \<lparr>cres_user = True, cres_password = True, cres_errors = []\<rparr> \<and>
   db_config (snd (snd (demo_update ''Aa1!Aa1!''))) ''password'' = Some ''Aa1!Aa1!''"
  by code_simp

lemma demo_update_long:
  "fst (snd (demo_update long_password)) = False \<and>
   cres_user (fst (demo_update long_password))"
  by code_simp

theorem credentials_guarded_witness:
  "ValidateUsername ''new_admin'' = None \<and> ValidatePassword ''Aa1!Aa1!'' = None"
proof -
  obtain ok db' where st: "demo_update ''Aa1!Aa1!'' = (fst (demo_update ''Aa1!Aa1!''), ok, db')" by (metis prod.collapse)
  have "db' \<noteq> demo_db"
    using demo_update_good st by (auto simp: demo_db_def dest: arg_cong [where f = "\<lambda>d. db_config d ''password''"])
  moreover have "TrimSpace ''new_admin'' = ''new_admin''" "TrimSpace ''Aa1!Aa1!'' = ''Aa1!Aa1!''" by code_simp+
  ultimately show ?thesis
    using credentials_guarded [OF st [unfolded demo_update_def]] demo_update_good
    by (simp add: demo_opts_def demo_update_def)
qed

text \<open>The update of both credentials is not atomic: when it fails after the user name has been written,
  because the hash refuses the password (bcrypt does above 72 bytes, the validation has no upper bound)
  or the second write fails, the new user name stays with the old password.\<close>

theorem credentials_partial_update:
  assumes "UpdateCredentials verify genhash f0 f1 f2 f3 opts db = (res, False, db')"
    and "cres_user res" and "f2 = no_faults"
  shows "db' = db_set ''user'' (TrimSpace (co_NewUsername opts)) db"
  using assms
  by (auto simp: UpdateCredentials_def Let_def split: if_splits option.splits)

theorem credentials_partial_update_witness:
  "db_config (snd (snd (demo_update long_password))) ''user'' = Some ''new_admin'' \<and>
   db_config (snd (snd (demo_update long_password))) ''password'' = Some ''right''"
proof -
  let ?d = "demo_update long_password"
  have st: "?d = (fst ?d, False, snd (snd ?d))" using demo_update_long by (metis prod.collapse)
  have "TrimSpace ''new_admin'' = ''new_admin''" by code_simp
  then show ?thesis
    using credentials_partial_update [OF st [unfolded demo_update_def] _ refl] demo_update_long
    by (simp add: demo_update_def demo_opts_def db_set_def demo_db_def)
qed

end
