(* ===== verification/Cache_Key.thy ===== *)
theory Cache_Key
  imports Go_Text
begin

text \<open>
  The keys of the HTTP cache (\<^verbatim>\<open>internal/cachelite/key.go\<close>), with the query parsing and escaping of
  \<^verbatim>\<open>net/url\<close> that the normalisation uses: two requests for the cached routes share an entry only when
  method, path, the normalised query and the variant agree.
\<close>

section \<open>Queries of \<^verbatim>\<open>net/url\<close>\<close>

definition hex_val :: "char \<Rightarrow> nat option" where
  "hex_val c = (let n = of_char c in
     if 48 \<le> n \<and> n \<le> 57 then Some (n - 48)
     else if 97 \<le> n \<and> n \<le> 102 then Some (n - 87)
     else if 65 \<le> n \<and> n \<le> 70 then Some (n - 55) else None)"

definition hex_digit :: "nat \<Rightarrow> char" where
  "hex_digit n = (if n < 10 then char_of (48 + n) else char_of (55 + n))"

text \<open>\<^verbatim>\<open>url.QueryUnescape\<close>: \<^term>\<open>None\<close> for a malformed escape.\<close>

fun query_unescape :: "string \<Rightarrow> string option" where
  "query_unescape [] = Some []"
| "query_unescape (c # s) =
     (if c = CHR ''%'' then
        (case s of
           a # b # r \<Rightarrow>
             (case (hex_val a, hex_val b) of
                (Some x, Some y) \<Rightarrow> map_option (Cons (char_of (16 * x + y))) (query_unescape r)
              | _ \<Rightarrow> None)
         | _ \<Rightarrow> None)
      else map_option (Cons (if c = CHR ''+'' then CHR '' '' else c)) (query_unescape s))"

definition unreserved :: "char \<Rightarrow> bool" where
  "unreserved c \<longleftrightarrow> (let n = of_char c :: nat in (48 \<le> n \<and> n \<le> 57) \<or> (65 \<le> n \<and> n \<le> 90) \<or> (97 \<le> n \<and> n \<le> 122)) \<or>
     c \<in> set ''-_.~''"

definition escape_char :: "char \<Rightarrow> string" where
  "escape_char c = (if unreserved c then [c] else if c = CHR '' '' then ''+''
     else [CHR ''%'', hex_digit (of_char c div 16), hex_digit (of_char c mod 16)])"

definition QueryEscape :: "string \<Rightarrow> string" where
  "QueryEscape s = concat (map escape_char s)"

text \<open>\<^verbatim>\<open>url.ParseQuery\<close> and the first value of a key: a bad setting is skipped, and remembered as the
  error.\<close>

definition parse_setting :: "string \<Rightarrow> (string \<times> string) option option" where
  "parse_setting s =
     (if s = [] then Some None
      else if CHR '';'' \<in> set s then None
      else
        let k = takeWhile (\<lambda>c. c \<noteq> CHR ''='') s; v = drop (length k + 1) s
        in (case (query_unescape k, query_unescape v) of
              (Some k', Some v') \<Rightarrow> Some (Some (k', v')) | _ \<Rightarrow> None))"

definition ParseQuery :: "string \<Rightarrow> (string \<times> string) list option" where
  "ParseQuery raw = (let rs = map parse_setting (split_on CHR ''&'' raw) in
     if None \<in> set rs then None else Some (List.map_filter (\<lambda>r. case r of Some x \<Rightarrow> x | None \<Rightarrow> None) rs))"

definition query_get :: "string \<Rightarrow> (string \<times> string) list \<Rightarrow> string" where
  "query_get k kvs = (case map_of kvs k of None \<Rightarrow> [] | Some v \<Rightarrow> v)"

section \<open>Keys\<close>

record cache_key_params =
  ck_Method :: string
  ck_Path :: string
  ck_Query :: string
  ck_Variant :: string

datatype route_kind = cacheRouteGallery | cacheRouteLightbox | cacheRouteInfo | cacheRouteOther

definition cacheRouteKindForPath :: "string \<Rightarrow> route_kind" where
  "cacheRouteKindForPath path =
     (if HasPrefix path ''/gallery/'' then cacheRouteGallery
      else if HasPrefix path ''/lightbox/'' then cacheRouteLightbox
      else if HasPrefix path ''/info/'' then cacheRouteInfo else cacheRouteOther)"

definition cacheKeyUsesVQueryOnly :: "string \<Rightarrow> bool" where
  "cacheKeyUsesVQueryOnly path \<longleftrightarrow> cacheRouteKindForPath path \<noteq> cacheRouteOther"

definition NormalizeCacheQuery :: "string \<Rightarrow> string \<Rightarrow> string" where
  "NormalizeCacheQuery path rawQuery =
     (if \<not> cacheKeyUsesVQueryOnly path then rawQuery
      else if rawQuery = [] then []
      else (case ParseQuery rawQuery of
          None \<Rightarrow> []
        | Some values \<Rightarrow> (let v = query_get ''v'' values in if v = [] then [] else ''v='' @ QueryEscape v)))"

definition NormalizedVariant :: "string \<Rightarrow> string \<Rightarrow> string \<Rightarrow> string" where
  "NormalizedVariant path hxRequest hxTarget = (case cacheRouteKindForPath path of
       cacheRouteGallery \<Rightarrow>
         (if hxRequest = ''true'' \<and> hxTarget = ''gallery-content'' then ''gallery-content'' else ''full'')
     | cacheRouteInfo \<Rightarrow> ''box_info''
     | cacheRouteLightbox \<Rightarrow> ''lightbox-ui''
     | cacheRouteOther \<Rightarrow> ''full'')"

definition PreloadVariantForPath :: "string \<Rightarrow> string" where
  "PreloadVariantForPath path = (case cacheRouteKindForPath path of
       cacheRouteGallery \<Rightarrow> ''gallery-content'' | cacheRouteInfo \<Rightarrow> ''box_info''
     | cacheRouteLightbox \<Rightarrow> ''lightbox-ui'' | cacheRouteOther \<Rightarrow> ''full'')"

definition NewCacheKey :: "cache_key_params \<Rightarrow> string" where
  "NewCacheKey p = ck_Method p @ '':'' @ ck_Path p @ ''?'' @ ck_Query p @
     (if ck_Variant p \<noteq> [] then ''|Variant='' @ ck_Variant p else [])"

definition NewCacheKeyForRequest :: "string \<Rightarrow> string \<Rightarrow> string \<Rightarrow> string \<Rightarrow> string \<Rightarrow> cache_key_params" where
  "NewCacheKeyForRequest method path rawQuery hxRequest hxTarget =
     (let htmx = (if hxRequest = [] then ''false'' else hxRequest) in
      \<lparr>ck_Method = method, ck_Path = path, ck_Query = NormalizeCacheQuery path rawQuery,
       ck_Variant = NormalizedVariant path htmx hxTarget\<rparr>)"

definition NewCacheKeyForPreload :: "string \<Rightarrow> string \<Rightarrow> string \<Rightarrow> cache_key_params" where
  "NewCacheKeyForPreload path query variant =
     \<lparr>ck_Method = ''GET'', ck_Path = path, ck_Query = NormalizeCacheQuery path query, ck_Variant = variant\<rparr>"

section \<open>Injectivity\<close>

text \<open>A word without the separator in front of it is determined by a string.\<close>

lemma split_first:
  assumes "c \<notin> set x" "c \<notin> set x'" "x @ c # y = x' @ c # y'"
  shows "x = x' \<and> y = y'"
  using assms(1,2,3)
proof (induction x arbitrary: x')
  case Nil
  then show ?case by (cases x') auto
next
  case (Cons a x)
  then show ?case by (cases x') auto
qed

lemma split_last:
  assumes "c \<notin> set y" "c \<notin> set y'" "x @ c # y = x' @ c # y'"
  shows "x = x' \<and> y = y'"
proof -
  have "rev y @ c # rev x = rev y' @ c # rev x'"
    using arg_cong [OF assms(3), of rev] by simp
  from split_first [OF _ _ this] assms(1,2) show ?thesis by simp
qed

lemma hex_digit_unreserved: "n < 16 \<Longrightarrow> unreserved (hex_digit n)"
  by (auto simp: unreserved_def hex_digit_def Let_def)

lemma of_char_byte: "of_char c < (256::nat)"
proof -
  have "of_char c mod (256::nat) = of_char c" by simp
  then show ?thesis by (metis mod_less_divisor zero_less_numeral)
qed

lemma escape_chars:
  assumes "d \<in> set (QueryEscape s)" shows "unreserved d \<or> d = CHR ''+'' \<or> d = CHR ''%''"
proof -
  obtain c where c: "d \<in> set (escape_char c)" using assms by (auto simp: QueryEscape_def)
  have "of_char c div 16 < (16::nat)" using of_char_byte [of c] by (simp add: less_mult_imp_div_less)
  then have "unreserved (hex_digit (of_char c div 16))" "unreserved (hex_digit (of_char c mod 16))"
    by (simp_all add: hex_digit_unreserved)
  with c show ?thesis by (simp add: escape_char_def split: if_splits) blast+
qed

text \<open>Escaping is undone by unescaping, so that it is injective.\<close>

lemma hex_val_digit [simp]: "n < 16 \<Longrightarrow> hex_val (hex_digit n) = Some n"
  by (auto simp: hex_val_def hex_digit_def Let_def)

lemma unescape_escape_char:
  "query_unescape (escape_char c @ s) = map_option (Cons c) (query_unescape s)"
proof -
  have "of_char c div 16 < (16::nat)" using of_char_byte [of c] by (simp add: less_mult_imp_div_less)
  then have h: "hex_val (hex_digit (of_char c div 16)) = Some (of_char c div 16)"
    "hex_val (hex_digit (of_char c mod 16)) = Some (of_char c mod 16)" by simp_all
  have "(16 * (of_char c div 16) + of_char c mod 16 :: nat) = of_char c" by simp
  then have c: "char_of (16 * (of_char c div 16) + of_char c mod 16 :: nat) = c" by simp
  have "unreserved c \<Longrightarrow> c \<noteq> CHR ''%'' \<and> c \<noteq> CHR ''+''" by (auto simp: unreserved_def Let_def)
  then show ?thesis using h c by (auto simp: escape_char_def)
qed

lemma query_unescape_escape: "query_unescape (QueryEscape s) = Some s"
  by (induction s) (simp_all add: QueryEscape_def unescape_escape_char)

lemma QueryEscape_inject: "QueryEscape s = QueryEscape t \<Longrightarrow> s = t"
  by (metis option.inject query_unescape_escape)

definition v_param :: "string \<Rightarrow> string" where
  "v_param raw = (case ParseQuery raw of None \<Rightarrow> [] | Some values \<Rightarrow> query_get ''v'' values)"

lemma v_param_empty: "v_param [] = []"
  by code_simp

lemma NormalizeCacheQuery_v:
  assumes "cacheKeyUsesVQueryOnly path"
  shows "NormalizeCacheQuery path raw = (if v_param raw = [] then [] else ''v='' @ QueryEscape (v_param raw))"
proof (cases "raw = []")
  case True
  then show ?thesis using assms v_param_empty by (simp add: NormalizeCacheQuery_def)
next
  case False
  then show ?thesis using assms
    by (cases "ParseQuery raw") (simp_all add: NormalizeCacheQuery_def v_param_def Let_def)
qed

lemma query_no_mark:
  "cacheKeyUsesVQueryOnly path \<Longrightarrow> c = CHR ''?'' \<or> c = CHR ''|'' \<Longrightarrow> c \<notin> set (NormalizeCacheQuery path raw)"
  using escape_chars [of c "v_param raw"]
  by (elim disjE) (auto simp: NormalizeCacheQuery_v unreserved_def Let_def)

lemma variant_word:
  "NormalizedVariant path hx target \<noteq> [] \<and> CHR ''|'' \<notin> set (NormalizedVariant path hx target)"
  by (auto simp: NormalizedVariant_def split: route_kind.splits if_splits)

text \<open>C24: For the cached routes two requests get the same key exactly when they have the same method (which
  contains no colon), the same path, the same variant and the same first value of the query parameter
  \<^verbatim>\<open>v\<close>: no other request, however its path or query is written, can read or replace an entry.\<close>

theorem cache_key_injective:
  assumes "cacheKeyUsesVQueryOnly path" and "cacheKeyUsesVQueryOnly path'"
    and "CHR '':'' \<notin> set method" and "CHR '':'' \<notin> set method'"
  shows "NewCacheKey (NewCacheKeyForRequest method path raw hx target) =
      NewCacheKey (NewCacheKeyForRequest method' path' raw' hx' target') \<longleftrightarrow>
    method = method' \<and> path = path' \<and> v_param raw = v_param raw' \<and>
    NormalizedVariant path (if hx = [] then ''false'' else hx) target =
      NormalizedVariant path' (if hx' = [] then ''false'' else hx') target'"
    (is "?key = ?key' \<longleftrightarrow> ?same")
proof -
  let ?v = "NormalizedVariant path (if hx = [] then ''false'' else hx) target"
  let ?v' = "NormalizedVariant path' (if hx' = [] then ''false'' else hx') target'"
  let ?q = "NormalizeCacheQuery path raw" and ?q' = "NormalizeCacheQuery path' raw'"
  have keys: "?key = (method @ '':'' @ path @ ''?'' @ ?q) @ CHR ''|'' # ''Variant='' @ ?v"
    "?key' = (method' @ '':'' @ path' @ ''?'' @ ?q') @ CHR ''|'' # ''Variant='' @ ?v'"
    using variant_word by (simp_all add: NewCacheKey_def NewCacheKeyForRequest_def Let_def)
  show ?thesis
  proof
  assume eq: "?key = ?key'"
  have v: "method @ '':'' @ path @ ''?'' @ ?q = method' @ '':'' @ path' @ ''?'' @ ?q' \<and> ''Variant='' @ ?v = ''Variant='' @ ?v'"
    by (rule split_last [OF _ _ eq [unfolded keys]]) (simp_all add: variant_word)
  then have "(method @ '':'' @ path) @ CHR ''?'' # ?q = (method' @ '':'' @ path') @ CHR ''?'' # ?q'" by simp
  from split_last [OF query_no_mark [OF assms(1)] query_no_mark [OF assms(2)] this]
  have q: "method @ CHR '':'' # path = method' @ CHR '':'' # path'" "?q = ?q'" by simp_all
  from split_first [OF assms(3,4) q(1)] have mp: "method = method'" "path = path'" by simp_all
  have "v_param raw = v_param raw'"
    using q(2) QueryEscape_inject [of "v_param raw" "v_param raw'"]
    unfolding mp(2) NormalizeCacheQuery_v [OF assms(2)] by (simp split: if_splits)
  then show ?same using v mp by simp
next
  assume same: ?same
  then have eqs: "?v = ?v'" "method = method'" "path = path'" "v_param raw = v_param raw'" by blast+
  then have "?q = ?q'" using assms(2) by (simp only: NormalizeCacheQuery_v)
  with eqs show "?key = ?key'" unfolding keys by (simp only:)
  qed
qed

theorem cache_key_injective_witness:
  "NewCacheKey (NewCacheKeyForRequest ''GET'' ''/gallery/1?v=2'' [] [] []) \<noteq>
   NewCacheKey (NewCacheKeyForRequest ''GET'' ''/gallery/1'' ''v=2'' [] [])"
proof -
  have "cacheKeyUsesVQueryOnly ''/gallery/1?v=2''" "cacheKeyUsesVQueryOnly ''/gallery/1''"
    by (simp_all add: cacheKeyUsesVQueryOnly_def cacheRouteKindForPath_def HasPrefix_def)
  from cache_key_injective [OF this, of "''GET''" "''GET''"] show ?thesis by simp
qed

end
