(* ===== verification/Body_Codec.thy ===== *)
theory Body_Codec
  imports Go_Text
begin

text \<open>
  Compression of cached bodies: the codec registry of \<^verbatim>\<open>internal/cachelite/bodycodec\<close>, its gzip and zstd
  codecs over the two compression libraries (parameters), and the storage form of
  \<^verbatim>\<open>internal/cachelite/body_storage.go\<close>.
\<close>

section \<open>Codecs\<close>

text \<open>A compression library: compress and decompress, either of which can fail.\<close>

record comp_lib =
  lib_compress :: "string \<Rightarrow> string option"
  lib_decompress :: "string \<Rightarrow> string option"

record codec =
  cd_ID :: string
  cd_Magic :: "string list"
  cd_Compress :: "string \<Rightarrow> string option"
  cd_Decompress :: "string \<Rightarrow> int \<Rightarrow> string option"

datatype codec_error = ErrUnrecognizedCacheBody | ErrNoMagic | ErrEmptyMagic | ErrDuplicateMagic
  | ErrDuplicateID | ErrUnknownCodecID | ErrCodec

definition gzip_magic :: string where "gzip_magic = [CHR 0x1F, CHR 0x8B]"
definition zstd_magic :: string where "zstd_magic = [CHR 0x28, CHR 0xB5, CHR 0x2F, CHR 0xFD]"

definition gzip_Decompress :: "comp_lib \<Rightarrow> string \<Rightarrow> int \<Rightarrow> string option" where
  "gzip_Decompress lib src uncompressedLen = (case lib_decompress lib src of
       None \<Rightarrow> None
     | Some out \<Rightarrow> if uncompressedLen > 0 \<and> go_len out \<noteq> uncompressedLen then None else Some out)"

definition gzip_codec :: "comp_lib \<Rightarrow> codec" where
  "gzip_codec lib = \<lparr>cd_ID = ''gzip-6'', cd_Magic = [gzip_magic], cd_Compress = lib_compress lib,
     cd_Decompress = gzip_Decompress lib\<rparr>"

definition zstd_Decompress :: "comp_lib \<Rightarrow> string \<Rightarrow> int \<Rightarrow> string option" where
  "zstd_Decompress lib src uncompressedLen = (case lib_decompress lib src of
       None \<Rightarrow> None
     | Some out \<Rightarrow> if uncompressedLen > 0 \<and> go_len out \<noteq> uncompressedLen then None else Some out)"

definition zstd_codec :: "comp_lib \<Rightarrow> codec" where
  "zstd_codec lib = \<lparr>cd_ID = ''zstd-1'', cd_Magic = [zstd_magic], cd_Compress = lib_compress lib,
     cd_Decompress = zstd_Decompress lib\<rparr>"

section \<open>Registry\<close>

record registry =
  rg_byID :: "(string \<times> codec) list"
  rg_entries :: "(string \<times> codec) list"
  rg_maxMagic :: nat

definition NewRegistry :: registry where
  "NewRegistry = \<lparr>rg_byID = [], rg_entries = [], rg_maxMagic = 0\<rparr>"

definition prefixesMatch :: "string \<Rightarrow> string \<Rightarrow> bool" where
  "prefixesMatch a b \<longleftrightarrow> length a = length b \<and> list_all2 (=) a b"

definition Register :: "codec \<Rightarrow> registry \<Rightarrow> codec_error + registry" where
  "Register c r =
     (if cd_Magic c = [] then Inl ErrNoMagic
      else if list_ex (\<lambda>m. m = []) (cd_Magic c) then Inl ErrEmptyMagic
      else if map_of (rg_byID r) (cd_ID c) \<noteq> None then Inl ErrDuplicateID
      else if list_ex (\<lambda>m. list_ex (\<lambda>(p, _). prefixesMatch p m) (rg_entries r)) (cd_Magic c)
      then Inl ErrDuplicateMagic
      else Inr \<lparr>rg_byID = (cd_ID c, c) # rg_byID r,
        rg_entries = sort_key (\<lambda>(p, _). - int (length p)) (rg_entries r @ map (\<lambda>m. (m, c)) (cd_Magic c)),
        rg_maxMagic = fold (\<lambda>m n. max n (length m)) (cd_Magic c) (rg_maxMagic r)\<rparr>)"

definition RegisterDefaults :: "comp_lib \<Rightarrow> comp_lib \<Rightarrow> registry \<Rightarrow> codec_error + registry" where
  "RegisterDefaults zl gl r = (case Register (zstd_codec zl) r of
     Inl e \<Rightarrow> Inl e | Inr r1 \<Rightarrow> Register (gzip_codec gl) r1)"

definition Lookup :: "string \<Rightarrow> registry \<Rightarrow> codec_error + codec" where
  "Lookup i r = (case map_of (rg_byID r) i of None \<Rightarrow> Inl ErrUnknownCodecID | Some c \<Rightarrow> Inr c)"

fun match_entries :: "string \<Rightarrow> (string \<times> codec) list \<Rightarrow> codec option" where
  "match_entries head [] = None"
| "match_entries head ((p, c) # es) =
     (if length head < length p then match_entries head es
      else if HasPrefix head p then Some c
      else match_entries head es)"

definition Match :: "string \<Rightarrow> registry \<Rightarrow> codec option" where
  "Match head r = match_entries head (rg_entries r)"

definition MinCompressBytes :: nat where "MinCompressBytes = 256"

definition EncodeWith :: "string \<Rightarrow> string \<Rightarrow> registry \<Rightarrow> codec_error + string" where
  "EncodeWith writeCodecID src r =
     (if writeCodecID = ''identity'' then Inr src
      else if length src < MinCompressBytes then Inr src
      else (case Lookup writeCodecID r of
          Inl e \<Rightarrow> Inl e
        | Inr c \<Rightarrow> (case cd_Compress c src of
            None \<Rightarrow> Inl ErrCodec
          | Some compressed \<Rightarrow> if length compressed \<ge> length src then Inr src else Inr compressed)))"

definition DecodeForServe :: "string \<Rightarrow> int \<Rightarrow> registry \<Rightarrow> codec_error + string" where
  "DecodeForServe stored uncompressedLen r = (case Match stored r of
       Some c \<Rightarrow> (case cd_Decompress c stored uncompressedLen of
           None \<Rightarrow> Inl ErrCodec
         | Some plain \<Rightarrow>
             if uncompressedLen > 0 \<and> go_len plain \<noteq> uncompressedLen then Inl ErrUnrecognizedCacheBody else Inr plain)
     | None \<Rightarrow> if go_len stored \<noteq> uncompressedLen then Inl ErrUnrecognizedCacheBody else Inr stored)"

section \<open>Storage form\<close>

definition ConfigureBodyCodec :: "registry \<Rightarrow> string \<Rightarrow> string \<Rightarrow> codec_error option \<times> string" where
  "ConfigureBodyCodec r writeCodecID current =
     (let i = (if writeCodecID = [] then ''zstd-1'' else writeCodecID) in
      if i \<noteq> ''identity'' then
        (case Lookup i r of Inl e \<Rightarrow> (Some e, current) | Inr _ \<Rightarrow> (None, i))
      else (None, i))"

definition ValidateWriteCodecID :: "registry \<Rightarrow> string \<Rightarrow> codec_error option" where
  "ValidateWriteCodecID r i =
     (if i = [] \<or> i = ''identity'' then None
      else (case Lookup i r of Inl e \<Rightarrow> Some e | Inr _ \<Rightarrow> None))"

definition FinalizeForStorage :: "registry \<Rightarrow> string \<Rightarrow> string \<Rightarrow> codec_error + string" where
  "FinalizeForStorage r writeCodecID body =
     (if body = [] then Inr body
      else if Match body r \<noteq> None then Inr body
      else EncodeWith writeCodecID body r)"

section \<open>Correctness\<close>

text \<open>What the documentation of the two formats says: decompression undoes compression, and what
  compression gives starts with the magic of the format.\<close>

definition lossless :: "string \<Rightarrow> comp_lib \<Rightarrow> bool" where
  "lossless magic lib \<longleftrightarrow> (\<forall>x y. lib_compress lib x = Some y \<longrightarrow> lib_decompress lib y = Some x \<and> HasPrefix y magic)"

definition default_registry :: "comp_lib \<Rightarrow> comp_lib \<Rightarrow> registry" where
  "default_registry zl gl = projr (RegisterDefaults zl gl NewRegistry)"

lemma default_registry:
  "RegisterDefaults zl gl NewRegistry = Inr (default_registry zl gl)"
  "rg_entries (default_registry zl gl) = [(zstd_magic, zstd_codec zl), (gzip_magic, gzip_codec gl)]"
  "rg_byID (default_registry zl gl) = [(''gzip-6'', gzip_codec gl), (''zstd-1'', zstd_codec zl)]"
  by (simp_all add: default_registry_def RegisterDefaults_def Register_def NewRegistry_def zstd_codec_def
      gzip_codec_def zstd_magic_def gzip_magic_def prefixesMatch_def)

lemma match_default:
  "Match s (default_registry zl gl) = (if HasPrefix s zstd_magic then Some (zstd_codec zl)
     else if HasPrefix s gzip_magic then Some (gzip_codec gl) else None)"
  by (auto simp: Match_def default_registry(2) HasPrefix_def dest: arg_cong [where f = length])

lemma gzip_not_zstd: "HasPrefix s gzip_magic \<Longrightarrow> \<not> HasPrefix s zstd_magic"
  by (auto simp: HasPrefix_iff gzip_magic_def zstd_magic_def)

lemma encode_decode:
  assumes "lossless zstd_magic zl" "lossless gzip_magic gl"
    and "Match body (default_registry zl gl) = None" "EncodeWith i body (default_registry zl gl) = Inr stored"
  shows "DecodeForServe stored (go_len body) (default_registry zl gl) = Inr body"
proof (cases "stored = body")
  case True
  then show ?thesis using assms(3) by (simp add: DecodeForServe_def)
next
  case False
  then obtain c where c: "map_of (rg_byID (default_registry zl gl)) i = Some c" "cd_Compress c body = Some stored"
    using assms(4) by (auto simp: EncodeWith_def Lookup_def split: if_splits option.splits sum.splits)
  then consider "c = gzip_codec gl" | "c = zstd_codec zl"
    by (auto simp: default_registry(3) split: if_splits)
  then show ?thesis
  proof cases
    case 1
    with c(2) assms(2) have "lib_decompress gl stored = Some body" "HasPrefix stored gzip_magic"
      by (auto simp: lossless_def gzip_codec_def)
    then show ?thesis using gzip_not_zstd [of stored]
      by (simp add: DecodeForServe_def match_default gzip_codec_def gzip_Decompress_def)
  next
    case 2
    with c(2) assms(1) have "lib_decompress zl stored = Some body" "HasPrefix stored zstd_magic"
      by (auto simp: lossless_def zstd_codec_def)
    then show ?thesis
      by (simp add: DecodeForServe_def match_default zstd_codec_def zstd_Decompress_def)
  qed
qed

lemma finalize_decode:
  assumes "lossless zstd_magic zl" and "lossless gzip_magic gl"
    and "\<not> HasPrefix body zstd_magic" and "\<not> HasPrefix body gzip_magic"
    and "FinalizeForStorage (default_registry zl gl) i body = Inr stored"
  shows "DecodeForServe stored (go_len body) (default_registry zl gl) = Inr body \<and> length stored \<le> length body"
proof (cases "body = []")
  case True
  then show ?thesis using assms(3-5)
    by (simp add: FinalizeForStorage_def DecodeForServe_def match_default HasPrefix_def)
next
  case False
  have m: "Match body (default_registry zl gl) = None" using assms(3,4) by (simp add: match_default)
  with False assms(5) have enc: "EncodeWith i body (default_registry zl gl) = Inr stored"
    by (simp add: FinalizeForStorage_def)
  then have "length stored \<le> length body"
    by (auto simp: EncodeWith_def split: if_splits sum.splits option.splits)
  with encode_decode [OF assms(1,2) m enc] show ?thesis by blast
qed

text \<open>Storing and serving a body gives the body back, with every codec the configuration accepts, for every body
  that does not itself start with the magic bytes of a codec; the compressed form is never longer.\<close>

theorem cache_body_roundtrip:
  assumes "lossless zstd_magic zl" and "lossless gzip_magic gl"
    and "\<not> HasPrefix body zstd_magic" and "\<not> HasPrefix body gzip_magic"
    and "FinalizeForStorage (default_registry zl gl) i body = Inr stored"
  shows "DecodeForServe stored (go_len body) (default_registry zl gl) = Inr body \<and> length stored \<le> length body"
  by (rule finalize_decode [OF assms])

text \<open>A library that cuts off a run of blanks, behind the magic.\<close>

definition toy_lib :: "string \<Rightarrow> comp_lib" where
  "toy_lib magic = \<lparr>lib_compress = (\<lambda>x. Some (magic @ dec_of_nat (length (takeWhile (\<lambda>c. c = CHR '' '') x)) @ ''#'' @
       dropWhile (\<lambda>c. c = CHR '' '') x)),
     lib_decompress = (\<lambda>y. let r = drop (length magic) y; n = nat_of_dec (takeWhile is_digit r) in
       Some (replicate n (CHR '' '') @ drop (Suc (length (takeWhile is_digit r))) r))\<rparr>"

lemma toy_lossless: "lossless magic (toy_lib magic)"
proof -
  have blanks: "replicate (length (takeWhile (\<lambda>c. c = CHR '' '') x)) (CHR '' '') @ dropWhile (\<lambda>c. c = CHR '' '') x = x" for x
    by (induction x) auto
  have "takeWhile is_digit (dec_of_nat n @ CHR ''#'' # r) = dec_of_nat n" for n r
    using dec_of_nat_digits [of n] by (subst takeWhile_append2) (auto simp: list_all_iff is_digit_def)
  then show ?thesis
    by (auto simp: lossless_def toy_lib_def Let_def blanks)
qed

definition blank_body :: string where "blank_body = replicate 300 (CHR '' '') @ ''x''"

theorem cache_body_roundtrip_witness:
  "\<exists>stored. length stored = 9 \<and>
     DecodeForServe stored 301 (default_registry (toy_lib zstd_magic) (toy_lib gzip_magic)) = Inr blank_body"
proof -
  let ?r = "default_registry (toy_lib zstd_magic) (toy_lib gzip_magic)"
  have take: "takeWhile (\<lambda>c. c = CHR '' '') blank_body = replicate 300 (CHR '' '')"
    "dropWhile (\<lambda>c. c = CHR '' '') blank_body = ''x''"
    by (simp_all add: blank_body_def takeWhile_append dropWhile_append)
  have no: "\<not> HasPrefix blank_body zstd_magic" "\<not> HasPrefix blank_body gzip_magic"
    by (simp_all add: blank_body_def HasPrefix_def zstd_magic_def gzip_magic_def)
  let ?stored = "zstd_magic @ ''300'' @ ''#'' @ ''x''"
  have len: "length blank_body = 301" by (simp add: blank_body_def)
  have dec: "dec_of_nat 300 = ''300''" by code_simp
  have "FinalizeForStorage ?r ''zstd-1'' blank_body = Inr ?stored"
    using no len take dec
    by (auto simp: FinalizeForStorage_def match_default EncodeWith_def Lookup_def default_registry(3)
        zstd_codec_def toy_lib_def zstd_magic_def MinCompressBytes_def)
  from cache_body_roundtrip [OF toy_lossless toy_lossless no this] len show ?thesis
    by (intro exI [of _ ?stored]) (simp add: go_len_def zstd_magic_def)
qed

end
