(* ===== verification/Conditional.thy ===== *)
theory Conditional
  imports Go_Text
begin

text \<open>
  Conditional requests: \<^verbatim>\<open>internal/server/conditional\<close> and the buffering response writer of
  \<^verbatim>\<open>internal/server/middleware/conditional.go\<close>.  Headers are association lists with canonical names;
  parsing of HTTP dates is a parameter that gives nanoseconds.
\<close>

section \<open>Matching\<close>

definition normalizeETag :: "string \<Rightarrow> string" where
  "normalizeETag e = TrimPrefix (TrimSpace e) ''W/''"

definition MatchesETag :: "string \<Rightarrow> string \<Rightarrow> bool" where
  "MatchesETag ifNoneMatch etag =
     (if ifNoneMatch = [] then False
      else if ifNoneMatch = ''*'' then True
      else list_ex (\<lambda>v. normalizeETag v = normalizeETag etag) (split_on CHR '','' ifNoneMatch))"

definition Second :: int where "Second = 1000000000"

definition matchesLastModified :: "int \<Rightarrow> int \<Rightarrow> bool" where
  "matchesLastModified lastModified ifModifiedSince =
     (lastModified - lastModified mod Second < ifModifiedSince + Second)"

section \<open>The response writer\<close>

type_synonym headers = "(string \<times> string list) list"

definition header_get :: "headers \<Rightarrow> string \<Rightarrow> string" where
  "header_get hs k = (case map_of hs k of Some (v # _) \<Rightarrow> v | _ \<Rightarrow> [])"

record http_request =
  hq_method :: string
  hq_headers :: headers

record cond_writer =
  cw_header :: headers
  cw_body :: string
  cw_status :: int
  cw_wrote :: bool

record http_response =
  hr_status :: int
  hr_header :: headers
  hr_body :: string

definition newConditionalResponseWriter :: cond_writer where
  "newConditionalResponseWriter = \<lparr>cw_header = [], cw_body = [], cw_status = 200, cw_wrote = False\<rparr>"

definition WriteHeader :: "int \<Rightarrow> cond_writer \<Rightarrow> cond_writer" where
  "WriteHeader st w = (if cw_wrote w then w else w\<lparr>cw_wrote := True, cw_status := st\<rparr>)"

definition Write_body :: "string \<Rightarrow> cond_writer \<Rightarrow> cond_writer" where
  "Write_body p w = (let w1 = (if cw_wrote w then w else WriteHeader 200 w) in w1\<lparr>cw_body := cw_body w1 @ p\<rparr>)"

definition set_header :: "string \<Rightarrow> string \<Rightarrow> cond_writer \<Rightarrow> cond_writer" where
  "set_header k v w = w\<lparr>cw_header := (k, [v]) # filter (\<lambda>(k', _). k' \<noteq> k) (cw_header w)\<rparr>"

text \<open>What is sent: the headers are added to those the outer handlers have set.\<close>

definition writeNotModified :: "headers \<Rightarrow> cond_writer \<Rightarrow> http_response" where
  "writeNotModified outer w = \<lparr>hr_status = 304,
     hr_header = outer @ filter (\<lambda>(k, _). ToLower k \<notin> {''content-length'', ''content-type'', ''content-encoding'',
       ''content-range''}) (cw_header w),
     hr_body = []\<rparr>"

definition writeNormal :: "headers \<Rightarrow> http_request \<Rightarrow> cond_writer \<Rightarrow> http_response" where
  "writeNormal outer r w = \<lparr>hr_status = cw_status w, hr_header = outer @ cw_header w,
     hr_body = (if hq_method r = ''HEAD'' then [] else cw_body w)\<rparr>"

definition Finalize ::
  "(string \<Rightarrow> int option) \<Rightarrow> headers \<Rightarrow> http_request \<Rightarrow> cond_writer \<Rightarrow> http_response" where
  "Finalize parse outer r w =
     (let w = (if \<not> cw_wrote w then w\<lparr>cw_status := 200\<rparr> else w) in
      if cw_status w = 200 then
        (let etag = header_get (cw_header w) ''Etag'';
             lastModifiedHeader = header_get (cw_header w) ''Last-Modified'';
             inm = header_get (hq_headers r) ''If-None-Match'';
             ims = header_get (hq_headers r) ''If-Modified-Since''
         in if inm \<noteq> [] \<and> etag \<noteq> [] \<and> MatchesETag inm etag then writeNotModified outer w
         else if ims \<noteq> [] \<and> lastModifiedHeader \<noteq> [] then
           (case parse lastModifiedHeader of
              None \<Rightarrow> writeNormal outer r w
            | Some lastMod \<Rightarrow> (case parse ims of
                None \<Rightarrow> writeNormal outer r w
              | Some imsTime \<Rightarrow>
                  if matchesLastModified lastMod imsTime then writeNotModified outer w
                  else writeNormal outer r w))
         else writeNormal outer r w)
      else writeNormal outer r w)"

text \<open>A handler is the sequence of its calls on the writer.  Without validators a \<^verbatim>\<open>GET\<close> goes to the
  handler directly, as do other methods; then net/http sends the headers that are set when the
  header is written.\<close>

datatype handler_call = CallSet string string | CallStatus int | CallWrite string

fun run_handler :: "handler_call list \<Rightarrow> cond_writer \<Rightarrow> cond_writer" where
  "run_handler [] w = w"
| "run_handler (CallSet k v # cs) w = run_handler cs (set_header k v w)"
| "run_handler (CallStatus n # cs) w = run_handler cs (WriteHeader n w)"
| "run_handler (CallWrite p # cs) w = run_handler cs (Write_body p w)"

definition write_through :: "http_request \<Rightarrow> bool" where
  "write_through r \<longleftrightarrow> (hq_method r \<noteq> ''GET'' \<and> hq_method r \<noteq> ''HEAD'') \<or>
     (hq_method r = ''GET'' \<and> header_get (hq_headers r) ''If-None-Match'' = [] \<and>
      header_get (hq_headers r) ''If-Modified-Since'' = [])"

definition ConditionalMiddleware ::
  "(string \<Rightarrow> int option) \<Rightarrow> headers \<Rightarrow> (http_request \<Rightarrow> http_response) \<Rightarrow> handler_call list \<Rightarrow> http_request \<Rightarrow> http_response" where
  "ConditionalMiddleware parse outer direct calls r =
     (if write_through r then direct r
      else Finalize parse outer r (run_handler calls newConditionalResponseWriter))"

section \<open>Properties\<close>

lemma matchesLastModified_seconds:
  assumes "Second dvd lm" "Second dvd ims" shows "matchesLastModified lm ims \<longleftrightarrow> lm \<le> ims"
proof -
  obtain a b where "lm = Second * a" "ims = Second * b" using assms by (auto elim!: dvdE)
  then show ?thesis by (simp add: matchesLastModified_def Second_def) linarith
qed

definition etag_matches :: "http_request \<Rightarrow> cond_writer \<Rightarrow> bool" where
  "etag_matches r w \<longleftrightarrow> header_get (hq_headers r) ''If-None-Match'' \<noteq> [] \<and> header_get (cw_header w) ''Etag'' \<noteq> [] \<and>
     MatchesETag (header_get (hq_headers r) ''If-None-Match'') (header_get (cw_header w) ''Etag'')"

definition not_modified_since :: "(string \<Rightarrow> int option) \<Rightarrow> http_request \<Rightarrow> cond_writer \<Rightarrow> bool" where
  "not_modified_since parse r w \<longleftrightarrow> header_get (hq_headers r) ''If-Modified-Since'' \<noteq> [] \<and>
     header_get (cw_header w) ''Last-Modified'' \<noteq> [] \<and>
     (\<exists>lm ims. parse (header_get (cw_header w) ''Last-Modified'') = Some lm \<and>
        parse (header_get (hq_headers r) ''If-Modified-Since'') = Some ims \<and> matchesLastModified lm ims)"

lemma Finalize_cases:
  assumes "cw_wrote w \<or> cw_status w = 200"
  shows "Finalize parse outer r w =
    (if cw_status w = 200 \<and> (etag_matches r w \<or> not_modified_since parse r w)
     then writeNotModified outer w else writeNormal outer r w)"
proof -
  have "(if \<not> cw_wrote w then w\<lparr>cw_status := 200\<rparr> else w) = w" using assms by (cases w) auto
  then show ?thesis
    by (auto simp: Finalize_def Let_def etag_matches_def not_modified_since_def split: option.splits)
qed

lemma run_handler_status: "cw_wrote w \<or> cw_status w = 200 \<Longrightarrow> cw_wrote (run_handler cs w) \<or> cw_status (run_handler cs w) = 200"
  by (induction cs w rule: run_handler.induct)
    (auto simp: set_header_def WriteHeader_def Write_body_def Let_def)

text \<open>A buffered response becomes 304 Not Modified if and only if the handler answered 200 and the
  entity tag matches one of those listed (weakly) or the resource was not modified since the date given; a 304
  has no body and loses only the content headers, everything else is passed on unchanged, the
  body being left out for HEAD; but the date is also consulted when entity tags were given and none of
  them matches, against RFC 7232, so that a changed resource is reported as not modified.\<close>

theorem conditional_not_modified:
  fixes calls :: "handler_call list"
  defines "w \<equiv> run_handler calls newConditionalResponseWriter"
  shows "\<not> write_through r \<Longrightarrow> ConditionalMiddleware parse outer direct calls r =
    (if cw_status w = 200 \<and> (etag_matches r w \<or> not_modified_since parse r w)
     then \<lparr>hr_status = 304, hr_header = outer @ filter (\<lambda>(k, _). ToLower k \<notin>
            {''content-length'', ''content-type'', ''content-encoding'', ''content-range''}) (cw_header w), hr_body = []\<rparr>
     else \<lparr>hr_status = cw_status w, hr_header = outer @ cw_header w,
            hr_body = (if hq_method r = ''HEAD'' then [] else cw_body w)\<rparr>)"
  unfolding w_def ConditionalMiddleware_def
  using Finalize_cases [OF run_handler_status [of newConditionalResponseWriter calls], of parse outer r]
  by (simp add: newConditionalResponseWriter_def writeNotModified_def writeNormal_def)

definition stale_request :: http_request where
  "stale_request = \<lparr>hq_method = ''GET'', hq_headers = [(''If-None-Match'', [''v1'']), (''If-Modified-Since'', [''d'']) ]\<rparr>"

definition changed_page :: "handler_call list" where
  "changed_page = [CallSet ''Etag'' ''v2'', CallSet ''Last-Modified'' ''d'', CallWrite ''new'']"

theorem conditional_not_modified_witness:
  "\<not> MatchesETag ''v1'' ''v2'' \<and>
   hr_status (ConditionalMiddleware (\<lambda>_. Some 0) [] (\<lambda>_. undefined) changed_page stale_request) = 304"
proof -
  have "\<not> write_through stale_request" by (simp add: write_through_def stale_request_def header_get_def)
  then have "hr_status (ConditionalMiddleware (\<lambda>_. Some 0) [] (\<lambda>_. undefined) changed_page stale_request) = 304"
    using conditional_not_modified [of stale_request "\<lambda>_. Some 0" "[]" "\<lambda>_. undefined" changed_page]
    by (simp add: changed_page_def stale_request_def newConditionalResponseWriter_def set_header_def Write_body_def
        WriteHeader_def header_get_def not_modified_since_def matchesLastModified_def Second_def Let_def)
  moreover have "\<not> MatchesETag ''v1'' ''v2''" by code_simp
  ultimately show ?thesis by blast
qed

end
