(* ===== verification/Http_Cache.thy ===== *)
theory Http_Cache
  imports Cache_Key Body_Codec Conditional
begin

text \<open>
  The HTTP response cache of \<^verbatim>\<open>internal/cachelite\<close>: the SQL table with the queries of
  \<^verbatim>\<open>gallerydb/http_cache.sql.go\<close>, the operations of \<^verbatim>\<open>cache.go\<close> and the middleware of
  \<^verbatim>\<open>http_cache_middleware.go\<close> with the writer that captures a response.  A connection that cannot be
  had and a query that fails are Boolean arguments; the body codecs are those of
  \<^theory_text>\<open>Body_Codec\<close>.
\<close>

section \<open>The table\<close>

record cache_entry =
  ce_Key :: string
  ce_Method :: string
  ce_Path :: string
  ce_QueryString :: "string option"
  ce_Status :: int
  ce_ContentType :: "string option"
  ce_CacheControl :: "string option"
  ce_ETag :: "string option"
  ce_LastModified :: "string option"
  ce_Vary :: "string option"
  ce_Body :: string
  ce_ContentLength :: "int option"
  ce_CreatedAt :: int
  ce_ExpiresAt :: "int option"

record cache_table =
  ct_rows :: "(nat \<times> cache_entry) list"
  ct_next :: nat

definition empty_table :: cache_table where
  "empty_table = \<lparr>ct_rows = [], ct_next = 1\<rparr>"

definition live :: "int \<Rightarrow> cache_entry \<Rightarrow> bool" where
  "live now e = (case ce_ExpiresAt e of None \<Rightarrow> True | Some t \<Rightarrow> t > now)"

definition GetHttpCacheByKey :: "int \<Rightarrow> string \<Rightarrow> cache_table \<Rightarrow> cache_entry option" where
  "GetHttpCacheByKey now key t =
     map_option snd (List.find (\<lambda>(i, e). ce_Key e = key \<and> live now e) (ct_rows t))"

definition upsert_row :: "cache_entry \<Rightarrow> cache_entry \<Rightarrow> cache_entry" where
  "upsert_row new old = old\<lparr>ce_Status := ce_Status new, ce_ContentType := ce_ContentType new,
     ce_CacheControl := ce_CacheControl new, ce_ETag := ce_ETag new, ce_LastModified := ce_LastModified new,
     ce_Vary := ce_Vary new, ce_Body := ce_Body new, ce_ContentLength := ce_ContentLength new,
     ce_ExpiresAt := ce_ExpiresAt new\<rparr>"

definition has_key :: "string \<Rightarrow> cache_table \<Rightarrow> bool" where
  "has_key key t \<longleftrightarrow> list_ex (\<lambda>(i, e). ce_Key e = key) (ct_rows t)"

definition UpsertHttpCache :: "cache_entry \<Rightarrow> cache_table \<Rightarrow> cache_table" where
  "UpsertHttpCache e t =
     (if has_key (ce_Key e) t
      then t\<lparr>ct_rows := map (\<lambda>(i, x). (i, if ce_Key x = ce_Key e then upsert_row e x else x)) (ct_rows t)\<rparr>
      else \<lparr>ct_rows = ct_rows t @ [(ct_next t, e)], ct_next = ct_next t + 1\<rparr>)"

definition DeleteHttpCacheByID :: "nat \<Rightarrow> cache_table \<Rightarrow> cache_table" where
  "DeleteHttpCacheByID i t = t\<lparr>ct_rows := filter (\<lambda>(j, e). j \<noteq> i) (ct_rows t)\<rparr>"

definition DeleteHttpCacheByKey :: "string \<Rightarrow> cache_table \<Rightarrow> cache_table" where
  "DeleteHttpCacheByKey key t = t\<lparr>ct_rows := filter (\<lambda>(j, e). ce_Key e \<noteq> key) (ct_rows t)\<rparr>"

definition DeleteHttpCacheExpired :: "int \<Rightarrow> cache_table \<Rightarrow> cache_table" where
  "DeleteHttpCacheExpired now t = t\<lparr>ct_rows := filter (\<lambda>(j, e). live now e) (ct_rows t)\<rparr>"

definition ClearHttpCache :: "cache_table \<Rightarrow> cache_table" where
  "ClearHttpCache t = t\<lparr>ct_rows := []\<rparr>"

definition CountHttpCacheEntries :: "cache_table \<Rightarrow> int" where
  "CountHttpCacheEntries t = go_len (ct_rows t)"

definition GetHttpCacheSizeBytes :: "cache_table \<Rightarrow> int" where
  "GetHttpCacheSizeBytes t = sum_list (map (\<lambda>(i, e). go_len (ce_Body e)) (ct_rows t))"

definition GetHttpCacheOldestCreated :: "nat \<Rightarrow> cache_table \<Rightarrow> (nat \<times> int) list" where
  "GetHttpCacheOldestCreated limit t =
     take limit (map (\<lambda>(i, e). (i, go_len (ce_Body e))) (sort_key (\<lambda>(i, e). ce_CreatedAt e) (ct_rows t)))"

section \<open>The operations of \<^verbatim>\<open>cache.go\<close>\<close>

datatype cache_error = ErrConn | ErrNoRows | ErrQuery | ErrBody codec_error | ErrCanceled

text \<open>The fields that matter of \<^verbatim>\<open>CacheConfig\<close>.\<close>

record cache_config =
  cc_MaxEntrySize :: int
  cc_MaxTotalSize :: int
  cc_DefaultTTL :: int
  cc_CacheableRoutes :: "string list"
  cc_OnGalleryCacheHit :: bool
  cc_SessionCookieName :: string
  cc_SkipPreloadWhenHeader :: string
  cc_SkipPreloadWhenValue :: string

definition IsCacheablePath :: "cache_config \<Rightarrow> string \<Rightarrow> bool" where
  "IsCacheablePath cfg path \<longleftrightarrow> cc_CacheableRoutes cfg = [] \<or> list_ex (HasPrefix path) (cc_CacheableRoutes cfg)"

definition GetCacheEntry ::
  "registry \<Rightarrow> bool \<Rightarrow> int \<Rightarrow> string \<Rightarrow> cache_table \<Rightarrow> cache_error + cache_entry" where
  "GetCacheEntry reg conn_ok now key t =
     (if \<not> conn_ok then Inl ErrConn
      else (case GetHttpCacheByKey now key t of
          None \<Rightarrow> Inl ErrNoRows
        | Some e \<Rightarrow>
            let uncompressedLen = (case ce_ContentLength e of None \<Rightarrow> 0 | Some n \<Rightarrow> n) in
            (case DecodeForServe (ce_Body e) uncompressedLen reg of
               Inl err \<Rightarrow> Inl (ErrBody err)
             | Inr plain \<Rightarrow> Inr (e\<lparr>ce_Body := plain\<rparr>))))"

definition StoreCacheEntry ::
  "registry \<Rightarrow> string \<Rightarrow> bool \<Rightarrow> bool \<Rightarrow> cache_entry \<Rightarrow> cache_table \<Rightarrow> cache_error option \<times> cache_table" where
  "StoreCacheEntry reg codec conn_ok exec_ok e t =
     (case FinalizeForStorage reg codec (ce_Body e) of
        Inl err \<Rightarrow> (Some (ErrBody err), t)
      | Inr stored \<Rightarrow>
          if \<not> conn_ok then (Some ErrConn, t)
          else if \<not> exec_ok then (Some ErrQuery, t)
          else (None, UpsertHttpCache (e\<lparr>ce_Body := stored\<rparr>) t))"

definition StoreCacheEntryInTx ::
  "registry \<Rightarrow> string \<Rightarrow> bool \<Rightarrow> cache_entry \<Rightarrow> cache_table \<Rightarrow> (cache_error + cache_entry) \<times> cache_table" where
  "StoreCacheEntryInTx reg codec exec_ok e t =
     (case FinalizeForStorage reg codec (ce_Body e) of
        Inl err \<Rightarrow> (Inl (ErrBody err), t)
      | Inr stored \<Rightarrow>
          let e' = e\<lparr>ce_Body := stored\<rparr> in
          if \<not> exec_ok then (Inl ErrQuery, t) else (Inr e', UpsertHttpCache e' t))"

definition DeleteCacheEntry :: "bool \<Rightarrow> bool \<Rightarrow> string \<Rightarrow> cache_table \<Rightarrow> cache_error option \<times> cache_table" where
  "DeleteCacheEntry conn_ok exec_ok key t =
     (if \<not> conn_ok then (Some ErrConn, t) else if \<not> exec_ok then (Some ErrQuery, t)
      else (None, DeleteHttpCacheByKey key t))"

definition ClearCache :: "bool \<Rightarrow> bool \<Rightarrow> cache_table \<Rightarrow> cache_error option \<times> cache_table" where
  "ClearCache conn_ok exec_ok t =
     (if \<not> conn_ok then (Some ErrConn, t) else if \<not> exec_ok then (Some ErrQuery, t)
      else (None, ClearHttpCache t))"

definition CleanupExpired :: "bool \<Rightarrow> bool \<Rightarrow> int \<Rightarrow> cache_table \<Rightarrow> int \<times> cache_error option \<times> cache_table" where
  "CleanupExpired conn_ok exec_ok now t =
     (if \<not> conn_ok then (0, Some ErrConn, t) else if \<not> exec_ok then (1, Some ErrQuery, t)
      else (1, None, DeleteHttpCacheExpired now t))"

definition GetCacheSizeBytes :: "bool \<Rightarrow> bool \<Rightarrow> bool \<Rightarrow> cache_table \<Rightarrow> cache_error + int" where
  "GetCacheSizeBytes canceled conn_ok exec_ok t =
     (if canceled then Inl ErrCanceled else if \<not> conn_ok then Inl ErrConn
      else if \<not> exec_ok then Inl ErrQuery else Inr (GetHttpCacheSizeBytes t))"

definition CountCacheEntries :: "bool \<Rightarrow> bool \<Rightarrow> cache_table \<Rightarrow> cache_error + int" where
  "CountCacheEntries conn_ok exec_ok t =
     (if \<not> conn_ok then Inl ErrConn else if \<not> exec_ok then Inl ErrQuery else Inr (CountHttpCacheEntries t))"

text \<open>The loop of \<^verbatim>\<open>EvictLRU\<close>; the list of Booleans says which deletions succeed, and deletions
  after its end do.\<close>

fun evict_loop ::
  "int \<Rightarrow> bool list \<Rightarrow> (nat \<times> int) list \<Rightarrow> int \<Rightarrow> int \<Rightarrow> cache_table \<Rightarrow> int \<times> int \<times> cache_error option \<times> cache_table" where
  "evict_loop target oks [] freed deleted t = (freed, deleted, None, t)"
| "evict_loop target oks ((i, len) # rows) freed deleted t =
     (if freed \<ge> target then (freed, deleted, None, t)
      else if (case oks of [] \<Rightarrow> True | ok # _ \<Rightarrow> ok)
      then evict_loop target (tl oks) rows (freed + len) (deleted + 1) (DeleteHttpCacheByID i t)
      else (freed, deleted, Some ErrQuery, t))"

definition EvictLRU ::
  "bool \<Rightarrow> bool \<Rightarrow> bool \<Rightarrow> bool list \<Rightarrow> int \<Rightarrow> cache_table \<Rightarrow> int \<times> int \<times> cache_error option \<times> cache_table" where
  "EvictLRU canceled conn_ok query_ok oks targetFreeBytes t =
     (if canceled then (0, 0, Some ErrCanceled, t)
      else if \<not> conn_ok then (0, 0, Some ErrConn, t)
      else if \<not> query_ok then (0, 0, Some ErrQuery, t)
      else evict_loop targetFreeBytes oks (GetHttpCacheOldestCreated 1000 t) 0 0 t)"

definition CanCacheResponse :: "int \<Rightarrow> string \<Rightarrow> string \<Rightarrow> bool" where
  "CanCacheResponse status cacheControl setCookie =
     (if status \<noteq> 200 then False
      else if Contains cacheControl ''no-store'' then False
      else if setCookie \<noteq> [] then False else True)"

section \<open>The middleware\<close>

text \<open>The writer that captures the body of a response, with what the client of the outer writer has
  got.\<close>

record capture =
  cp_header :: headers
  cp_body :: string
  cp_status :: int
  cp_wrote :: bool
  cp_sent :: "(int \<times> headers) option"
  cp_out :: string

definition getCacheCapturingWriter :: "headers \<Rightarrow> capture" where
  "getCacheCapturingWriter hs =
     \<lparr>cp_header = hs, cp_body = [], cp_status = 0, cp_wrote = False, cp_sent = None, cp_out = []\<rparr>"

definition Capture_WriteHeader :: "int \<Rightarrow> capture \<Rightarrow> capture" where
  "Capture_WriteHeader code w =
     (if \<not> cp_wrote w then w\<lparr>cp_status := code, cp_wrote := True, cp_sent := Some (code, cp_header w)\<rparr> else w)"

definition Capture_Write :: "string \<Rightarrow> capture \<Rightarrow> capture" where
  "Capture_Write p w = (let w1 = (if \<not> cp_wrote w then Capture_WriteHeader 200 w else w) in
     w1\<lparr>cp_body := cp_body w1 @ p, cp_out := cp_out w1 @ p\<rparr>)"

definition Sink_Write :: "string \<Rightarrow> capture \<Rightarrow> capture" where
  "Sink_Write p w = w\<lparr>cp_body := cp_body w @ p\<rparr>"

definition CommitCapturedBody :: "capture \<Rightarrow> capture" where
  "CommitCapturedBody w = (let w1 = (if \<not> cp_wrote w then Capture_WriteHeader 200 w else w) in
     w1\<lparr>cp_out := cp_out w1 @ cp_body w1\<rparr>)"

definition ResetCapturedBody :: "capture \<Rightarrow> capture" where
  "ResetCapturedBody w = w\<lparr>cp_body := []\<rparr>"

definition put_header :: "string \<Rightarrow> string \<Rightarrow> headers \<Rightarrow> headers" where
  "put_header k v hs = (k, [v]) # filter (\<lambda>(k', _). k' \<noteq> k) hs"

definition put_opt :: "string \<Rightarrow> string option \<Rightarrow> headers \<Rightarrow> headers" where
  "put_opt k v hs = (case v of None \<Rightarrow> hs | Some x \<Rightarrow> put_header k x hs)"

datatype capture_op = HSet string string | HStatus int | HWrite string | HSink string | HCommit | HReset

fun capture_call :: "capture_op \<Rightarrow> capture \<Rightarrow> capture" where
  "capture_call (HSet k v) w = w\<lparr>cp_header := put_header k v (cp_header w)\<rparr>"
| "capture_call (HStatus n) w = Capture_WriteHeader n w"
| "capture_call (HWrite p) w = Capture_Write p w"
| "capture_call (HSink p) w = Sink_Write p w"
| "capture_call HCommit w = CommitCapturedBody w"
| "capture_call HReset w = ResetCapturedBody w"

definition serve :: "capture_op list \<Rightarrow> capture \<Rightarrow> capture" where
  "serve cs w = fold capture_call cs w"

text \<open>Bypass directives of the request: \<^verbatim>\<open>no-cache\<close>, \<^verbatim>\<open>no-store\<close>, \<^verbatim>\<open>max-age=0\<close>.\<close>

definition bypass_directive :: "string \<Rightarrow> bool" where
  "bypass_directive part = (let directive = ToLower (TrimSpace part) in
     if directive = ''no-cache'' \<or> directive = ''no-store'' \<or> HasPrefix directive ''no-cache='' then True
     else HasPrefix directive ''max-age'' \<and> CHR ''='' \<in> set directive \<and>
       TrimSpace (takeWhile (\<lambda>c. c \<noteq> CHR ''='') directive) = ''max-age'' \<and>
       TrimSpace (tl (dropWhile (\<lambda>c. c \<noteq> CHR ''='') directive)) = ''0'')"

definition hasCacheBypassDirective :: "string list \<Rightarrow> bool" where
  "hasCacheBypassDirective cacheControls =
     list_ex (\<lambda>cc. list_ex bypass_directive (split_on CHR '','' cc)) cacheControls"

definition parseGalleryFolderID :: "string \<Rightarrow> int option" where
  "parseGalleryFolderID path =
     (if \<not> HasPrefix path ''/gallery/'' then None
      else let rest = takeWhile (\<lambda>c. c \<noteq> CHR ''/'') (TrimPrefix path ''/gallery/'') in
        if rest = [] then None else parse_int64 rest)"

record cache_request = http_request +
  rq_path :: string
  rq_rawQuery :: string
  rq_remoteAddr :: string
  rq_cookies :: "(string \<times> string) list"

definition getSessionIDForPreload :: "cache_config \<Rightarrow> cache_request \<Rightarrow> string" where
  "getSessionIDForPreload cfg r =
     (if cc_SessionCookieName cfg \<noteq> [] then
        (case map_of (rq_cookies r) (cc_SessionCookieName cfg) of
           Some v \<Rightarrow> if v \<noteq> [] then v else rq_remoteAddr r
         | None \<Rightarrow> rq_remoteAddr r)
      else rq_remoteAddr r)"

definition maybeTriggerGalleryPreload :: "cache_config \<Rightarrow> cache_request \<Rightarrow> (int \<times> string) option" where
  "maybeTriggerGalleryPreload cfg r =
     (if \<not> cc_OnGalleryCacheHit cfg then None
      else if cc_SkipPreloadWhenHeader cfg \<noteq> [] \<and> cc_SkipPreloadWhenValue cfg \<noteq> [] \<and>
        header_get (hq_headers r) (cc_SkipPreloadWhenHeader cfg) = cc_SkipPreloadWhenValue cfg then None
      else (case parseGalleryFolderID (rq_path r) of
          None \<Rightarrow> None
        | Some folderID \<Rightarrow> Some (folderID, getSessionIDForPreload cfg r)))"

datatype cache_path = Passed | Bypassed | Hit304 | Hit | Miss

record mw_result =
  mw_path :: cache_path
  mw_response :: http_response
  mw_submit :: "cache_entry option"
  mw_preload :: "(int \<times> string) option"

definition null_string :: "string \<Rightarrow> string option" where
  "null_string s = (if s = [] then None else Some s)"

definition request_key :: "cache_request \<Rightarrow> string" where
  "request_key r = NewCacheKey (NewCacheKeyForRequest (hq_method r) (rq_path r) (rq_rawQuery r)
     (header_get (hq_headers r) ''Hx-Request'') (header_get (hq_headers r) ''Hx-Target''))"

definition request_query :: "cache_request \<Rightarrow> string" where
  "request_query r = NormalizeCacheQuery (rq_path r) (rq_rawQuery r)"

definition serve_hit :: "cache_request \<Rightarrow> headers \<Rightarrow> cache_entry \<Rightarrow> cache_path \<times> http_response" where
  "serve_hit r hs e =
     (let validators = put_opt ''Vary'' (ce_Vary e) \<circ> put_opt ''Last-Modified'' (ce_LastModified e) \<circ>
            put_opt ''Etag'' (ce_ETag e) \<circ> put_opt ''Cache-Control'' (ce_CacheControl e) in
      if ce_ETag e \<noteq> None \<and> ce_ETag e = Some (header_get (hq_headers r) ''If-None-Match'')
      then (Hit304, \<lparr>hr_status = 304, hr_header = put_header ''X-Cache'' ''HIT'' (validators hs), hr_body = []\<rparr>)
      else (Hit, \<lparr>hr_status = ce_Status e,
        hr_header = put_header ''X-Cache'' ''HIT'' (validators (put_opt ''Content-Type'' (ce_ContentType e) hs)),
        hr_body = ce_Body e\<rparr>))"

definition store_eligible :: "cache_config \<Rightarrow> string \<Rightarrow> capture \<Rightarrow> bool" where
  "store_eligible cfg path w =
     (let cacheControl = header_get (cp_header w) ''Cache-Control''; setCookie = header_get (cp_header w) ''Set-Cookie'' in
      CanCacheResponse (cp_status w) cacheControl setCookie \<or>
      (cp_status w = 200 \<and> Contains cacheControl ''no-store'' \<and> IsCacheablePath cfg path \<and> setCookie = []))"

definition build_entry :: "cache_config \<Rightarrow> int \<Rightarrow> cache_request \<Rightarrow> capture \<Rightarrow> cache_entry" where
  "build_entry cfg now r w =
     (let h = header_get (cp_header w) in
      \<lparr>ce_Key = request_key r, ce_Method = hq_method r, ce_Path = rq_path r,
       ce_QueryString = null_string (request_query r), ce_Status = cp_status w,
       ce_ContentType = null_string (h ''Content-Type''), ce_CacheControl = null_string (h ''Cache-Control''),
       ce_ETag = null_string (h ''Etag''), ce_LastModified = null_string (h ''Last-Modified''),
       ce_Vary = null_string (h ''Vary''), ce_Body = cp_body w, ce_ContentLength = Some (go_len (cp_body w)),
       ce_CreatedAt = now,
       ce_ExpiresAt = (if cc_DefaultTTL cfg > 0 then Some (now + cc_DefaultTTL cfg div Second) else None)\<rparr>)"

text \<open>What the client gets of a captured response: net/http answers 200 for a handler that writes
  nothing.\<close>

definition client_response :: "capture \<Rightarrow> http_response" where
  "client_response w = (case cp_sent w of
       None \<Rightarrow> \<lparr>hr_status = 200, hr_header = cp_header w, hr_body = []\<rparr>
     | Some (st, hs) \<Rightarrow> \<lparr>hr_status = st, hr_header = hs, hr_body = cp_out w\<rparr>)"

definition serve_miss :: "cache_config \<Rightarrow> int \<Rightarrow> cache_request \<Rightarrow> headers \<Rightarrow> capture_op list \<Rightarrow> mw_result" where
  "serve_miss cfg now r hs calls =
     (let w = serve calls (getCacheCapturingWriter (put_header ''X-Cache'' ''MISS'' hs)) in
      \<lparr>mw_path = Miss, mw_response = client_response w,
       mw_submit = (if \<not> store_eligible cfg (rq_path r) w then None
         else if go_len (cp_body w) > cc_MaxEntrySize cfg then None
         else Some (build_entry cfg now r w)),
       mw_preload = None\<rparr>)"

definition Middleware ::
  "cache_config \<Rightarrow> registry \<Rightarrow> bool \<Rightarrow> int \<Rightarrow> headers \<Rightarrow> (headers \<Rightarrow> http_response) \<Rightarrow> capture_op list \<Rightarrow>
     cache_request \<Rightarrow> cache_table \<Rightarrow> mw_result" where
  "Middleware cfg reg conn_ok now hs direct calls r t =
     (if hq_method r \<noteq> ''GET'' \<and> hq_method r \<noteq> ''HEAD'' then \<lparr>mw_path = Passed, mw_response = direct hs, mw_submit = None, mw_preload = None\<rparr>
      else if \<not> IsCacheablePath cfg (rq_path r) then \<lparr>mw_path = Passed, mw_response = direct hs, mw_submit = None, mw_preload = None\<rparr>
      else if hasCacheBypassDirective (case map_of (hq_headers r) ''Cache-Control'' of None \<Rightarrow> [] | Some vs \<Rightarrow> vs)
      then \<lparr>mw_path = Bypassed, mw_response = direct (put_header ''X-Cache'' ''BYPASS'' hs), mw_submit = None, mw_preload = None\<rparr>
      else (case GetCacheEntry reg conn_ok now (request_key r) t of
          Inl _ \<Rightarrow> serve_miss cfg now r hs calls
        | Inr e \<Rightarrow> (case serve_hit r hs e of (p, resp) \<Rightarrow>
            \<lparr>mw_path = p, mw_response = resp, mw_submit = None, mw_preload = maybeTriggerGalleryPreload cfg r\<rparr>)))"

end
