(* ===== verification/Http_Cache_Correct.thy ===== *)
theory Http_Cache_Correct
  imports Http_Cache
begin

text \<open>
  Correctness of the HTTP cache: what a lookup finds after any history of operations, which rows an
  eviction removes and what it reports, and that a hit replays the response that was stored.
\<close>

section \<open>The table as a map\<close>

text \<open>What an upsert replaces; the other fields keep the values of the first insertion.\<close>

definition content :: "cache_entry \<Rightarrow> cache_entry" where
  "content e = e\<lparr>ce_Method := [], ce_Path := [], ce_QueryString := None, ce_CreatedAt := 0\<rparr>"

lemma content_key [simp]: "ce_Key (content e) = ce_Key e"
  by (simp add: content_def)

lemma content_upsert: "ce_Key x = ce_Key e \<Longrightarrow> content (upsert_row e x) = content e"
  by (simp add: content_def upsert_row_def)

lemma content_live: "content x = content y \<Longrightarrow> live now x \<longleftrightarrow> live now y"
  unfolding live_def content_def by (metis (no_types, lifting) cache_entry.ext_inject cache_entry.surjective cache_entry.update_convs)

lemma content_fields:
  assumes "content x = content y"
  shows "ce_Key x = ce_Key y" "ce_Status x = ce_Status y" "ce_ContentType x = ce_ContentType y"
    "ce_CacheControl x = ce_CacheControl y" "ce_ETag x = ce_ETag y" "ce_LastModified x = ce_LastModified y"
    "ce_Vary x = ce_Vary y" "ce_Body x = ce_Body y" "ce_ContentLength x = ce_ContentLength y"
    "ce_ExpiresAt x = ce_ExpiresAt y"
  using assms by (cases x; cases y; simp add: content_def)+

definition represents :: "(string \<rightharpoonup> cache_entry) \<Rightarrow> cache_table \<Rightarrow> bool" where
  "represents m t \<longleftrightarrow> (\<forall>(i, x) \<in> set (ct_rows t). m (ce_Key x) = Some (content x))"

lemma represents_subset:
  "represents m t \<Longrightarrow> set (ct_rows t') \<subseteq> set (ct_rows t) \<Longrightarrow> represents m t'"
  by (auto simp: represents_def)

lemma represents_upsert:
  assumes "represents m t" shows "represents (m(ce_Key e \<mapsto> content e)) (UpsertHttpCache e t)"
proof -
  have key: "ce_Key (upsert_row e x) = ce_Key x" for x by (simp add: upsert_row_def)
  show ?thesis
    using assms by (auto simp: represents_def UpsertHttpCache_def has_key_def list_ex_iff content_upsert key)
qed

lemma represents_delete:
  "represents m t \<Longrightarrow> represents (m(key := None)) (DeleteHttpCacheByKey key t)"
  by (auto simp: represents_def DeleteHttpCacheByKey_def)

lemma evict_loop_subset:
  "evict_loop target oks rows f d t = (f', d', err, t') \<Longrightarrow> set (ct_rows t') \<subseteq> set (ct_rows t)"
proof (induction target oks rows f d t rule: evict_loop.induct)
  case (2 target oks i len rows freed deleted t)
  have "set (ct_rows (DeleteHttpCacheByID i t)) \<subseteq> set (ct_rows t)" by (auto simp: DeleteHttpCacheByID_def)
  with 2 show ?case by (auto split: if_splits)
qed simp

datatype cache_op = OStore bool cache_entry | ODelete string | OClear | OCleanup int | OEvict "bool list" int

fun run_cache_op :: "registry \<Rightarrow> string \<Rightarrow> cache_op \<Rightarrow> cache_table \<Rightarrow> cache_table" where
  "run_cache_op reg codec (OStore ok e) t = snd (StoreCacheEntry reg codec True ok e t)"
| "run_cache_op reg codec (ODelete k) t = snd (DeleteCacheEntry True True k t)"
| "run_cache_op reg codec OClear t = snd (ClearCache True True t)"
| "run_cache_op reg codec (OCleanup now) t = snd (snd (CleanupExpired True True now t))"
| "run_cache_op reg codec (OEvict oks target) t = snd (snd (snd (EvictLRU False True True oks target t)))"

text \<open>The specification: the entry last stored under the key, as it was stored.\<close>

fun last_stored :: "registry \<Rightarrow> string \<Rightarrow> cache_op \<Rightarrow> (string \<rightharpoonup> cache_entry) \<Rightarrow> string \<rightharpoonup> cache_entry" where
  "last_stored reg codec (OStore ok e) m =
     (case FinalizeForStorage reg codec (ce_Body e) of
        Inr stored \<Rightarrow> if ok then m(ce_Key e \<mapsto> content (e\<lparr>ce_Body := stored\<rparr>)) else m | Inl _ \<Rightarrow> m)"
| "last_stored reg codec (ODelete k) m = m(k := None)"
| "last_stored reg codec OClear m = Map.empty"
| "last_stored reg codec (OCleanup now) m = m"
| "last_stored reg codec (OEvict oks target) m = m"

lemma represents_op:
  assumes "represents m t" shows "represents (last_stored reg codec op m) (run_cache_op reg codec op t)"
proof (cases op)
  case (OStore ok e)
  have "represents (m(ce_Key e \<mapsto> content (e\<lparr>ce_Body := b\<rparr>))) (UpsertHttpCache (e\<lparr>ce_Body := b\<rparr>) t)" for b
    using represents_upsert [OF assms, of "e\<lparr>ce_Body := b\<rparr>"] by simp
  then show ?thesis using assms OStore
    by (simp add: StoreCacheEntry_def split: sum.split)
next
  case (ODelete k)
  then show ?thesis using represents_delete [OF assms] by (simp add: DeleteCacheEntry_def)
next
  case OClear
  then show ?thesis by (simp add: ClearCache_def ClearHttpCache_def represents_def)
next
  case (OCleanup now)
  then show ?thesis using assms
    by (auto simp: CleanupExpired_def DeleteHttpCacheExpired_def intro: represents_subset [of _ t])
next
  case (OEvict oks target)
  obtain f d err t' where "EvictLRU False True True oks target t = (f, d, err, t')" by (metis prod_cases4)
  then show ?thesis using assms OEvict
    by (auto simp: EvictLRU_def intro!: represents_subset [of _ t t'] dest!: evict_loop_subset)
qed

lemma represents_history:
  "represents m t \<Longrightarrow> represents (fold (last_stored reg codec) ops m) (fold (run_cache_op reg codec) ops t)"
  by (induction ops arbitrary: m t) (auto intro: represents_op)

lemma lookup_represents:
  assumes "represents m t" "GetHttpCacheByKey now key t = Some x"
  shows "ce_Key x = key \<and> live now x \<and> m key = Some (content x)"
proof -
  obtain i where i: "List.find (\<lambda>(i, e). ce_Key e = key \<and> live now e) (ct_rows t) = Some (i, x)"
    using assms(2) by (auto simp: GetHttpCacheByKey_def)
  from find_SomeD [OF i] have "(i, x) \<in> set (ct_rows t)" "ce_Key x = key \<and> live now x" by auto
  with assms(1) show ?thesis by (auto simp: represents_def)
qed

text \<open>C27: After any history of stores (some of which fail), deletions, clean-ups, evictions and clearings of the
  cache, what a lookup of a key finds is the entry stored last under that key since it was last deleted,
  with every field that is served as it was stored, and it has not expired: the cache may forget, it
  never answers with an entry that was replaced.\<close>

theorem cache_serves_last_stored:
  assumes "GetHttpCacheByKey now key (fold (run_cache_op reg codec) ops empty_table) = Some x"
  shows "fold (last_stored reg codec) ops Map.empty key = Some (content x) \<and> ce_Key x = key \<and> live now x"
proof -
  have "represents Map.empty empty_table" by (simp add: represents_def empty_table_def)
  from lookup_represents [OF represents_history [OF this] assms] show ?thesis by blast
qed

lemma lookup_upsert:
  assumes "live now e"
  shows "\<exists>x. GetHttpCacheByKey now (ce_Key e) (UpsertHttpCache e t) = Some x \<and> content x = content e"
proof (cases "has_key (ce_Key e) t")
  case True
  let ?rows = "map (\<lambda>(i, x). (i, if ce_Key x = ce_Key e then upsert_row e x else x)) (ct_rows t)"
  let ?P = "\<lambda>(i::nat, x). ce_Key x = ce_Key e \<and> live now x"
  obtain i y where y: "(i, y) \<in> set (ct_rows t)" "ce_Key y = ce_Key e" using True by (auto simp: has_key_def list_ex_iff)
  have live: "live now (upsert_row e x)" for x using assms by (simp add: live_def upsert_row_def)
  from y have "(i, upsert_row e y) \<in> set ?rows" by force
  moreover have "?P (i, upsert_row e y)" using live y(2) by (simp add: upsert_row_def)
  ultimately have "List.find ?P ?rows \<noteq> None" unfolding find_None_iff by blast
  then obtain j x where x: "List.find ?P ?rows = Some (j, x)" by auto
  from find_SomeD [OF x] have "(j, x) \<in> set ?rows" "ce_Key x = ce_Key e" by auto
  then have "content x = content e" by (auto simp: content_upsert split: if_splits)
  with True x show ?thesis by (simp add: GetHttpCacheByKey_def UpsertHttpCache_def)
next
  case False
  have "List.find p (rows @ [z]) = Some z" if "\<forall>y \<in> set rows. \<not> p y" "p z"
    for p :: "nat \<times> cache_entry \<Rightarrow> bool" and rows z
    using that by (induction rows) auto
  from this [of "ct_rows t" "\<lambda>(i, x). ce_Key x = ce_Key e \<and> live now x" "(ct_next t, e)"]
  show ?thesis using False assms
    by (auto simp: GetHttpCacheByKey_def UpsertHttpCache_def has_key_def list_ex_iff)
qed

section \<open>Hits\<close>

text \<open>Handlers that set their headers and then write the page, or that render it into the sink and then
  commit.\<close>

definition well_behaved :: "capture_op list \<Rightarrow> bool" where
  "well_behaved calls \<longleftrightarrow>
     (\<exists>sets writes. calls = sets @ writes \<and> writes \<noteq> [] \<and> (\<forall>c \<in> set sets. \<exists>k v. c = HSet k v) \<and>
        (\<forall>c \<in> set writes. (\<exists>p. c = HWrite p) \<or> (\<exists>n. c = HStatus n))) \<or>
     (\<exists>pre. calls = pre @ [HCommit] \<and> (\<forall>c \<in> set pre. (\<exists>k v. c = HSet k v) \<or> (\<exists>p. c = HSink p)))"

definition consistent :: "capture \<Rightarrow> bool" where
  "consistent w \<longleftrightarrow> cp_wrote w \<and> cp_sent w = Some (cp_status w, cp_header w) \<and> cp_out w = cp_body w"

lemma serve_sets:
  assumes "\<forall>c \<in> set cs. (\<exists>k v. c = HSet k v) \<or> (\<exists>p. c = HSink p)" "\<not> cp_wrote w" "cp_out w = []"
  shows "\<not> cp_wrote (serve cs w) \<and> cp_out (serve cs w) = []"
  using assms by (induction cs arbitrary: w) (auto simp: serve_def Sink_Write_def)

lemma serve_sets_body:
  assumes "\<forall>c \<in> set cs. \<exists>k v. c = HSet k v" shows "cp_body (serve cs w) = cp_body w"
  using assms by (induction cs arbitrary: w) (auto simp: serve_def)

lemma serve_writes:
  assumes "\<forall>c \<in> set cs. (\<exists>p. c = HWrite p) \<or> (\<exists>n. c = HStatus n)" "consistent w"
  shows "consistent (serve cs w)"
  using assms by (induction cs arbitrary: w)
    (auto simp: serve_def consistent_def Capture_Write_def Capture_WriteHeader_def Let_def)

lemma serve_well_behaved:
  assumes "well_behaved calls" shows "consistent (serve calls (getCacheCapturingWriter hs))"
proof -
  let ?w = "getCacheCapturingWriter hs"
  have w: "\<not> cp_wrote ?w" "cp_out ?w = []" "cp_body ?w = []" by (simp_all add: getCacheCapturingWriter_def)
  from assms consider
    (direct) sets c writes where "calls = sets @ c # writes" "\<forall>c \<in> set sets. \<exists>k v. c = HSet k v"
      "\<forall>c \<in> set (c # writes). (\<exists>p. c = HWrite p) \<or> (\<exists>n. c = HStatus n)"
  | (sink) pre where "calls = pre @ [HCommit]" "\<forall>c \<in> set pre. (\<exists>k v. c = HSet k v) \<or> (\<exists>p. c = HSink p)"
    unfolding well_behaved_def by (metis neq_Nil_conv)
  then show ?thesis
  proof cases
    case direct
    let ?u = "serve sets ?w"
    have "\<not> cp_wrote ?u \<and> cp_out ?u = []" using direct(2) w by (intro serve_sets) auto
    moreover have "cp_body ?u = []" using direct(2) w serve_sets_body [of sets ?w] by simp
    ultimately have "consistent (capture_call c ?u)" using direct(3)
      by (auto simp: consistent_def Capture_Write_def Capture_WriteHeader_def Let_def)
    from serve_writes [OF _ this, of writes] direct(3) show ?thesis
      by (simp add: direct(1) serve_def)
  next
    case sink
    let ?u = "serve pre ?w"
    have "\<not> cp_wrote ?u \<and> cp_out ?u = []" using sink(2) w by (intro serve_sets) auto
    then have "consistent (capture_call HCommit ?u)"
      by (auto simp: consistent_def CommitCapturedBody_def Capture_WriteHeader_def Let_def)
    then show ?thesis by (simp add: sink(1) serve_def)
  qed
qed

lemma header_get_put:
  "header_get (put_header k v hs) k' = (if k' = k then v else header_get hs k')"
proof -
  have "map_of (filter (\<lambda>(x, _). x \<noteq> k) hs) k' = map_of hs k'" if "k' \<noteq> k"
    using that by (induction hs) auto
  then show ?thesis by (simp add: header_get_def put_header_def)
qed

lemma header_get_opt:
  "header_get (put_opt k v hs) k' = (if k' = k then (case v of None \<Rightarrow> header_get hs k | Some x \<Rightarrow> x) else header_get hs k')"
  by (simp add: put_opt_def header_get_put split: option.split)

lemma null_string_get: "header_get hs k = [] \<Longrightarrow> (case null_string v of None \<Rightarrow> header_get hs k | Some x \<Rightarrow> x) = v"
  by (simp add: null_string_def)

definition replayed_headers :: "string list" where
  "replayed_headers = [''Content-Type'', ''Cache-Control'', ''Etag'', ''Last-Modified'', ''Vary'']"

lemma miss_submits:
  assumes "mw_submit (Middleware cfg reg ok now hs direct calls r t) = Some e"
  obtains w where "w = serve calls (getCacheCapturingWriter (put_header ''X-Cache'' ''MISS'' hs))"
    "e = build_entry cfg now r w" "mw_response (Middleware cfg reg ok now hs direct calls r t) = client_response w"
  using assms
  by (auto simp: Middleware_def serve_miss_def Let_def split: if_splits sum.splits prod.splits)

lemma hit_of_entry:
  assumes "hq_method r = ''GET'' \<or> hq_method r = ''HEAD''" "IsCacheablePath cfg (rq_path r)"
    "\<not> hasCacheBypassDirective (case map_of (hq_headers r) ''Cache-Control'' of None \<Rightarrow> [] | Some vs \<Rightarrow> vs)"
    "GetCacheEntry reg True now (request_key r) t = Inr e"
  shows "Middleware cfg reg True now hs direct calls r t =
    \<lparr>mw_path = fst (serve_hit r hs e), mw_response = snd (serve_hit r hs e), mw_submit = None,
     mw_preload = maybeTriggerGalleryPreload cfg r\<rparr>"
  using assms by (auto simp: Middleware_def split: prod.split)

lemma stored_entry_found:
  assumes "lossless zstd_magic zl" "lossless gzip_magic gl"
    and "\<not> HasPrefix (ce_Body e) zstd_magic" "\<not> HasPrefix (ce_Body e) gzip_magic"
    and "ce_ContentLength e = Some (go_len (ce_Body e))" "live now e"
    and "StoreCacheEntry (default_registry zl gl) codec conn_ok exec_ok e t = (None, t')"
  shows "\<exists>x. GetCacheEntry (default_registry zl gl) True now (ce_Key e) t' = Inr x \<and> content x = content e"
proof -
  let ?r = "default_registry zl gl"
  obtain stored where st: "FinalizeForStorage ?r codec (ce_Body e) = Inr stored"
    "t' = UpsertHttpCache (e\<lparr>ce_Body := stored\<rparr>) t"
    using assms(7) by (auto simp: StoreCacheEntry_def split: sum.splits if_splits)
  have dec: "DecodeForServe stored (go_len (ce_Body e)) ?r = Inr (ce_Body e)"
    using finalize_decode [OF assms(1-4) st(1)] by blast
  have "live now (e\<lparr>ce_Body := stored\<rparr>)" using assms(6) by (simp add: live_def)
  from lookup_upsert [OF this, of t] obtain x where
    x: "GetHttpCacheByKey now (ce_Key e) t' = Some x" "content x = content (e\<lparr>ce_Body := stored\<rparr>)"
    using st(2) by auto
  from content_fields [OF x(2)] have "ce_Body x = stored" "ce_ContentLength x = Some (go_len (ce_Body e))"
    using assms(5) by simp_all
  then have "GetCacheEntry ?r True now (ce_Key e) t' = Inr (x\<lparr>ce_Body := ce_Body e\<rparr>)"
    using x(1) dec by (simp add: GetCacheEntry_def)
  moreover have "content (x\<lparr>ce_Body := ce_Body e\<rparr>) = content e"
    using content_fields [OF x(2)] by (cases x; cases e) (simp add: content_def)
  ultimately show ?thesis by blast
qed

text \<open>C11: A page that was captured on a cache miss and stored is replayed: until it expires every request with the
  same key (and no bypass directive) gets the same status, the same body and the same content type, cache
  control, entity tag, modification date and Vary as the first client, or 304 without a body when its
  If-None-Match is exactly the stored tag; whatever codec compressed the body, and whatever else is in the cache.\<close>

theorem cache_hit_replays:
  assumes "lossless zstd_magic zl" and "lossless gzip_magic gl" and "well_behaved calls"
    and "mw_submit (Middleware cfg (default_registry zl gl) ok now1 hs1 direct1 calls r1 t1) = Some e"
    and "\<not> HasPrefix (ce_Body e) zstd_magic" and "\<not> HasPrefix (ce_Body e) gzip_magic"
    and "StoreCacheEntry (default_registry zl gl) codec conn_ok exec_ok e t2 = (None, t3)"
    and "live now2 e" and "request_key r2 = request_key r1"
    and "hq_method r2 = ''GET'' \<or> hq_method r2 = ''HEAD''" and "IsCacheablePath cfg (rq_path r2)"
    and "\<not> hasCacheBypassDirective (case map_of (hq_headers r2) ''Cache-Control'' of None \<Rightarrow> [] | Some vs \<Rightarrow> vs)"
    and "\<forall>k \<in> set replayed_headers. header_get hs2 k = []"
  shows "\<exists>path resp first. Middleware cfg (default_registry zl gl) True now2 hs2 direct2 calls2 r2 t3 =
      \<lparr>mw_path = path, mw_response = resp, mw_submit = None, mw_preload = maybeTriggerGalleryPreload cfg r2\<rparr> \<and>
    first = mw_response (Middleware cfg (default_registry zl gl) ok now1 hs1 direct1 calls r1 t1) \<and>
    (if ce_ETag e \<noteq> None \<and> ce_ETag e = Some (header_get (hq_headers r2) ''If-None-Match'')
     then path = Hit304 \<and> hr_status resp = 304 \<and> hr_body resp = []
     else path = Hit \<and> hr_status resp = hr_status first \<and> hr_body resp = hr_body first \<and>
       (\<forall>k \<in> set replayed_headers. header_get (hr_header resp) k = header_get (hr_header first) k))"
proof -
  let ?reg = "default_registry zl gl"
  obtain w where w: "w = serve calls (getCacheCapturingWriter (put_header ''X-Cache'' ''MISS'' hs1))"
    "e = build_entry cfg now1 r1 w" "mw_response (Middleware cfg ?reg ok now1 hs1 direct1 calls r1 t1) = client_response w"
    using miss_submits [OF assms(4)] by metis
  have cons: "consistent w" unfolding w(1) by (rule serve_well_behaved [OF assms(3)])
  then have first: "client_response w = \<lparr>hr_status = cp_status w, hr_header = cp_header w, hr_body = cp_body w\<rparr>"
    by (simp add: client_response_def consistent_def)
  have key: "ce_Key e = request_key r2" "ce_ContentLength e = Some (go_len (ce_Body e))"
    using assms(9) by (simp_all add: w(2) build_entry_def Let_def)
  obtain x where x: "GetCacheEntry ?reg True now2 (request_key r2) t3 = Inr x" "content x = content e"
    using stored_entry_found [OF assms(1,2,5,6) key(2) assms(8,7)] unfolding key(1) by blast
  note hit = hit_of_entry [OF assms(10-12) x(1), of hs2 direct2 calls2]
  note fields = content_fields [OF x(2)]
  have e: "ce_ContentType e = null_string (header_get (cp_header w) ''Content-Type'')"
    "ce_CacheControl e = null_string (header_get (cp_header w) ''Cache-Control'')"
    "ce_ETag e = null_string (header_get (cp_header w) ''Etag'')"
    "ce_LastModified e = null_string (header_get (cp_header w) ''Last-Modified'')"
    "ce_Vary e = null_string (header_get (cp_header w) ''Vary'')"
    "ce_Status e = cp_status w" "ce_Body e = cp_body w"
    by (simp_all add: w(2) build_entry_def Let_def)
  have hs2: "header_get hs2 ''Content-Type'' = []" "header_get hs2 ''Cache-Control'' = []" "header_get hs2 ''Etag'' = []"
    "header_get hs2 ''Last-Modified'' = []" "header_get hs2 ''Vary'' = []"
    using assms(13) by (simp_all add: replayed_headers_def)
  show ?thesis
  proof (cases "ce_ETag e \<noteq> None \<and> ce_ETag e = Some (header_get (hq_headers r2) ''If-None-Match'')")
    case True
    then show ?thesis using fields by (simp add: hit serve_hit_def Let_def)
  next
    case False
    then have no: "\<not> (ce_ETag x \<noteq> None \<and> ce_ETag x = Some (header_get (hq_headers r2) ''If-None-Match''))"
      using fields(5) by simp
    then have x_hit: "serve_hit r2 hs2 x = (Hit, \<lparr>hr_status = cp_status w,
        hr_header = put_header ''X-Cache'' ''HIT'' (put_opt ''Vary'' (ce_Vary e) (put_opt ''Last-Modified'' (ce_LastModified e)
          (put_opt ''Etag'' (ce_ETag e) (put_opt ''Cache-Control'' (ce_CacheControl e)
            (put_opt ''Content-Type'' (ce_ContentType e) hs2))))), hr_body = cp_body w\<rparr>)"
      unfolding serve_hit_def Let_def if_not_P [OF no] using fields(2-8) e(6,7) by simp
    have "header_get (hr_header (snd (serve_hit r2 hs2 x))) k = header_get (cp_header w) k"
      if "k \<in> set replayed_headers" for k
      using that e(1-5) hs2 unfolding x_hit
      by (auto simp: header_get_put header_get_opt replayed_headers_def null_string_get)
    then show ?thesis using False unfolding w(3) first hit x_hit by simp
  qed
qed

definition page_calls :: "capture_op list" where
  "page_calls = [HSet ''Content-Type'' ''text/html'', HSet ''Etag'' ''v1'', HSink ''<p>'', HSink ''hi'', HCommit]"

definition gallery_cfg :: cache_config where
  "gallery_cfg = \<lparr>cc_MaxEntrySize = 100, cc_MaxTotalSize = 1000, cc_DefaultTTL = 60 * Second,
     cc_CacheableRoutes = [''/gallery/'', ''/lightbox/'', ''/info/folder/'', ''/info/image/''],
     cc_OnGalleryCacheHit = True, cc_SessionCookieName = ''session'', cc_SkipPreloadWhenHeader = ''X-Preload'',
     cc_SkipPreloadWhenValue = ''true''\<rparr>"

definition gallery_request :: "headers \<Rightarrow> cache_request" where
  "gallery_request hs = \<lparr>hq_method = ''GET'', hq_headers = hs, rq_path = ''/gallery/7'', rq_rawQuery = [],
     rq_remoteAddr = ''10.0.0.1:5'', rq_cookies = []\<rparr>"

lemma gallery_request_simps [simp]:
  "hq_method (gallery_request hs) = ''GET''" "rq_path (gallery_request hs) = ''/gallery/7''"
  "rq_rawQuery (gallery_request hs) = []" "hq_headers (gallery_request hs) = hs"
  "IsCacheablePath gallery_cfg ''/gallery/7''"
  by (simp_all add: gallery_request_def gallery_cfg_def IsCacheablePath_def HasPrefix_def)

definition gallery_entry :: cache_entry where
  "gallery_entry = \<lparr>ce_Key = request_key (gallery_request []), ce_Method = ''GET'', ce_Path = ''/gallery/7'',
     ce_QueryString = None, ce_Status = 200, ce_ContentType = Some ''text/html'', ce_CacheControl = None,
     ce_ETag = Some ''v1'', ce_LastModified = None, ce_Vary = None, ce_Body = ''<p>hi'', ce_ContentLength = Some 5,
     ce_CreatedAt = 1000, ce_ExpiresAt = Some 1060\<rparr>"

lemma gallery_miss:
  "mw_submit (Middleware gallery_cfg reg True 1000 [] direct page_calls (gallery_request []) empty_table) = Some gallery_entry"
  "hr_body (mw_response (Middleware gallery_cfg reg True 1000 [] direct page_calls (gallery_request []) empty_table)) = ''<p>hi''"
proof -
  have "GetCacheEntry reg True 1000 key empty_table = Inl ErrNoRows" for key
    by (simp add: GetCacheEntry_def GetHttpCacheByKey_def empty_table_def)
  then have "Middleware gallery_cfg reg True 1000 [] direct page_calls (gallery_request []) empty_table =
      serve_miss gallery_cfg 1000 (gallery_request []) [] page_calls"
    by (simp add: Middleware_def hasCacheBypassDirective_def)
  moreover have "serve page_calls (getCacheCapturingWriter (put_header ''X-Cache'' ''MISS'' [])) =
      \<lparr>cp_header = [(''Etag'', [''v1'']), (''Content-Type'', [''text/html'']), (''X-Cache'', [''MISS''])],
       cp_body = ''<p>hi'', cp_status = 200, cp_wrote = True,
       cp_sent = Some (200, [(''Etag'', [''v1'']), (''Content-Type'', [''text/html'']), (''X-Cache'', [''MISS''])]),
       cp_out = ''<p>hi''\<rparr>"
    by (simp add: serve_def page_calls_def getCacheCapturingWriter_def put_header_def Sink_Write_def CommitCapturedBody_def
        Capture_WriteHeader_def)
  moreover have "request_query (gallery_request []) = []"
    by (simp add: request_query_def NormalizeCacheQuery_def)
  ultimately show "mw_submit (Middleware gallery_cfg reg True 1000 [] direct page_calls (gallery_request []) empty_table) = Some gallery_entry"
    "hr_body (mw_response (Middleware gallery_cfg reg True 1000 [] direct page_calls (gallery_request []) empty_table)) = ''<p>hi''"
    by (simp_all add: serve_miss_def store_eligible_def CanCacheResponse_def header_get_def build_entry_def gallery_entry_def
        null_string_def gallery_cfg_def Second_def Let_def go_len_def client_response_def)
qed

theorem cache_hit_replays_witness:
  "\<exists>t. hr_body (mw_response (Middleware gallery_cfg (default_registry (toy_lib zstd_magic) (toy_lib gzip_magic)) True 1059 []
      (\<lambda>_. undefined) [] (gallery_request [(''If-None-Match'', [''v0''])]) t)) = ''<p>hi''"
proof -
  let ?reg = "default_registry (toy_lib zstd_magic) (toy_lib gzip_magic)"
  let ?r2 = "gallery_request [(''If-None-Match'', [''v0''])]"
  have wb: "well_behaved page_calls"
    unfolding well_behaved_def page_calls_def
    by (rule disjI2, rule exI [of _ "[HSet ''Content-Type'' ''text/html'', HSet ''Etag'' ''v1'', HSink ''<p>'', HSink ''hi'']"]) simp
  have body: "\<not> HasPrefix (ce_Body gallery_entry) zstd_magic" "\<not> HasPrefix (ce_Body gallery_entry) gzip_magic"
    by (simp_all add: gallery_entry_def HasPrefix_def zstd_magic_def gzip_magic_def)
  have st: "StoreCacheEntry ?reg ''zstd-1'' True True gallery_entry empty_table = (None, UpsertHttpCache gallery_entry empty_table)"
  proof -
    have "FinalizeForStorage ?reg ''zstd-1'' (ce_Body gallery_entry) = Inr (ce_Body gallery_entry)"
      using body by (simp add: FinalizeForStorage_def match_default EncodeWith_def gallery_entry_def MinCompressBytes_def)
    then show ?thesis by (simp add: StoreCacheEntry_def)
  qed
  have live: "live 1059 gallery_entry" by (simp add: live_def gallery_entry_def)
  have key: "request_key ?r2 = request_key (gallery_request [])"
    by (simp add: request_key_def header_get_def)
  have no: "\<not> hasCacheBypassDirective (case map_of (hq_headers ?r2) ''Cache-Control'' of None \<Rightarrow> [] | Some vs \<Rightarrow> vs)"
    by (simp add: hasCacheBypassDirective_def)
  have inm: "\<not> (ce_ETag gallery_entry \<noteq> None \<and> ce_ETag gallery_entry = Some (header_get (hq_headers ?r2) ''If-None-Match''))"
    by (simp add: gallery_entry_def header_get_def)
  have hs2: "\<forall>k \<in> set replayed_headers. header_get [] k = []" by (simp add: header_get_def)
  have r2: "hq_method ?r2 = ''GET'' \<or> hq_method ?r2 = ''HEAD''" "IsCacheablePath gallery_cfg (rq_path ?r2)" by simp_all
  obtain path resp where "Middleware gallery_cfg ?reg True 1059 [] (\<lambda>_. undefined) [] ?r2 (UpsertHttpCache gallery_entry empty_table) =
      \<lparr>mw_path = path, mw_response = resp, mw_submit = None, mw_preload = maybeTriggerGalleryPreload gallery_cfg ?r2\<rparr>"
    "hr_body resp = hr_body (mw_response (Middleware gallery_cfg ?reg True 1000 [] (\<lambda>_. undefined) page_calls (gallery_request []) empty_table))"
    using cache_hit_replays [OF toy_lossless toy_lossless wb gallery_miss(1) body st live key r2 no hs2,
        where ?direct1.0 = "\<lambda>_. undefined" and ?direct2.0 = "\<lambda>_. undefined" and ?calls2.0 = "[]"] unfolding if_not_P [OF inm] by blast
  then show ?thesis unfolding gallery_miss(2) by (metis mw_result.select_convs(2))
qed

end
