(* ===== verification/Cache_Accounting.thy ===== *)
theory Cache_Accounting
  imports Http_Cache_Correct "HOL-Library.Multiset"
begin

text \<open>
  The accounting of the HTTP cache in the server (\<^verbatim>\<open>internal/server/infrastructure_cache.go\<close>,
  \<^verbatim>\<open>infrastructure_cache_calibration.go\<close>, \<^verbatim>\<open>infrastructure_batcher.go\<close>): the counters that the
  batcher's callback adds to, eviction when they exceed the limit, invalidation, the clean-up of expired rows and
  recalibration, as steps of concurrent goroutines.
\<close>

section \<open>What an eviction removes\<close>

definition table_wf :: "cache_table \<Rightarrow> bool" where
  "table_wf t \<longleftrightarrow> distinct (map fst (ct_rows t)) \<and> distinct (map (\<lambda>x. ce_Key (snd x)) (ct_rows t)) \<and>
     (\<forall>i \<in> fst ` set (ct_rows t). i < ct_next t)"

lemma table_wf_filter: "table_wf t \<Longrightarrow> table_wf (t\<lparr>ct_rows := filter P (ct_rows t)\<rparr>)"
  by (auto simp: table_wf_def distinct_map_filter)

lemma map_ids: "map fst (map (\<lambda>(i, x). (i, f x)) rows) = map fst rows"
  by (induction rows) auto

lemma map_keys: "map (\<lambda>x. ce_Key (snd x)) (map (\<lambda>(i, x). (i, if ce_Key x = k then upsert_row e x else x)) rows) =
    map (\<lambda>x. ce_Key (snd x)) rows"
  by (induction rows) (auto simp: upsert_row_def)

lemma table_wf_upsert:
  assumes "table_wf t" shows "table_wf (UpsertHttpCache e t)"
proof (cases "has_key (ce_Key e) t")
  case True
  let ?rows = "map (\<lambda>(i, x). (i, if ce_Key x = ce_Key e then upsert_row e x else x)) (ct_rows t)"
  have ids: "map fst ?rows = map fst (ct_rows t)" by (rule map_ids)
  have s: "fst ` set ?rows = fst ` set (ct_rows t)" using arg_cong [OF ids, of set] by (simp only: list.set_map)
  have rows: "ct_rows (UpsertHttpCache e t) = ?rows" "ct_next (UpsertHttpCache e t) = ct_next t"
    using True by (simp_all add: UpsertHttpCache_def)
  show ?thesis using assms unfolding table_wf_def rows ids s map_keys .
next
  case False
  then have "ce_Key e \<notin> set (map (\<lambda>x. ce_Key (snd x)) (ct_rows t))" by (auto simp: has_key_def list_ex_iff)
  then show ?thesis using False assms by (auto simp: table_wf_def UpsertHttpCache_def less_Suc_eq)
qed

lemma evict_loop_spec:
  assumes "evict_loop target oks rows f d t = (f', d', err, t')"
  shows "\<exists>n \<le> length rows. d' = d + int n \<and> f' = f + sum_list (map snd (take n rows)) \<and>
    ct_rows t' = filter (\<lambda>(i, e). i \<notin> fst ` set (take n rows)) (ct_rows t) \<and> ct_next t' = ct_next t \<and>
    (err = None \<longrightarrow> f' \<ge> target \<or> n = length rows) \<and> (\<forall>m < n. f + sum_list (map snd (take m rows)) < target)"
  using assms
proof (induction target oks rows f d t rule: evict_loop.induct)
  case (1 target oks freed deleted t)
  then show ?case by (auto intro: filter_True [symmetric])
next
  case (2 target oks i len rows freed deleted t)
  let ?ok = "case oks of [] \<Rightarrow> True | ok # _ \<Rightarrow> ok"
  show ?case
  proof (cases "freed < target \<and> ?ok")
    case True
    then have run: "evict_loop target (tl oks) rows (freed + len) (deleted + 1) (DeleteHttpCacheByID i t) = (f', d', err, t')"
      using "2.prems" by (simp add: not_le)
    have "\<not> freed \<ge> target" "?ok" using True by (simp_all add: not_le)
    from "2.IH" [OF this run] obtain n where n: "n \<le> length rows" "d' = deleted + 1 + int n"
      "f' = freed + len + sum_list (map snd (take n rows))"
      "ct_rows t' = filter (\<lambda>(i, e). i \<notin> fst ` set (take n rows)) (ct_rows (DeleteHttpCacheByID i t))"
      "ct_next t' = ct_next (DeleteHttpCacheByID i t)"
      "err = None \<longrightarrow> f' \<ge> target \<or> n = length rows" "\<forall>m < n. freed + len + sum_list (map snd (take m rows)) < target"
      by blast
    have "freed + sum_list (map snd (take m ((i, len) # rows))) < target" if "m < Suc n" for m
      using that n(7) True by (cases m) auto
    then show ?thesis using n(1-6)
      by (intro exI [of _ "Suc n"]) (auto simp: DeleteHttpCacheByID_def intro!: filter_cong)
  next
    case False
    then have "f' = freed" "d' = deleted" "t' = t" "err = None \<longrightarrow> freed \<ge> target"
      using "2.prems" by (auto split: if_splits)
    then show ?thesis by (intro exI [of _ 0]) (auto intro: filter_True [symmetric])
  qed
qed

definition body_len :: "nat \<times> cache_entry \<Rightarrow> int" where
  "body_len x = go_len (ce_Body (snd x))"

lemma size_sum: "GetHttpCacheSizeBytes t = sum_list (map body_len (ct_rows t))"
proof -
  have "sum_list (map (\<lambda>(i, e). go_len (ce_Body e)) rows) = sum_list (map body_len rows)" for rows
    by (induction rows) (auto simp: body_len_def)
  then show ?thesis by (simp add: GetHttpCacheSizeBytes_def)
qed

definition oldest_rows :: "cache_table \<Rightarrow> (nat \<times> cache_entry) list" where
  "oldest_rows t = sort_key (\<lambda>(i, e). ce_CreatedAt e) (ct_rows t)"

lemma oldest_created: "GetHttpCacheOldestCreated n t = map (\<lambda>x. (fst x, body_len x)) (take n (oldest_rows t))"
  by (simp add: GetHttpCacheOldestCreated_def oldest_rows_def take_map body_len_def case_prod_beta)

lemma take_ids:
  assumes "distinct (map fst xs)" shows "filter (\<lambda>x. fst x \<in> fst ` set (take n xs)) xs = take n xs"
    "filter (\<lambda>x. fst x \<notin> fst ` set (take n xs)) xs = drop n xs"
proof -
  have d: "fst ` set (take n xs) \<inter> fst ` set (drop n xs) = {}"
    using assms by (metis append_take_drop_id distinct_append list.set_map map_append)
  have "filter (\<lambda>x. fst x \<in> fst ` set (take n xs)) (take n xs @ drop n xs) = take n xs"
    using d by (subst filter_append) (auto intro!: filter_True filter_False simp: disjoint_iff)
  then show "filter (\<lambda>x. fst x \<in> fst ` set (take n xs)) xs = take n xs" by simp
  have "filter (\<lambda>x. fst x \<notin> fst ` set (take n xs)) (take n xs @ drop n xs) = drop n xs"
    using d by (subst filter_append) (auto intro!: filter_True filter_False simp: disjoint_iff)
  then show "filter (\<lambda>x. fst x \<notin> fst ` set (take n xs)) xs = drop n xs" by simp
qed

lemma EvictLRU_spec:
  assumes "table_wf t" "EvictLRU canceled conn_ok query_ok oks target t = (freed, deleted, err, t')"
  shows "\<exists>n \<le> 1000. mset (ct_rows t') = mset (drop n (oldest_rows t)) \<and> set (ct_rows t') \<subseteq> set (ct_rows t) \<and>
    deleted = int n \<and> n \<le> length (ct_rows t) \<and> freed = sum_list (map body_len (take n (oldest_rows t))) \<and> table_wf t' \<and>
    (err = None \<longrightarrow> freed \<ge> target \<or> n = min 1000 (length (ct_rows t))) \<and>
    (\<forall>m < n. sum_list (map body_len (take m (oldest_rows t))) < target)"
proof (cases "\<not> canceled \<and> conn_ok \<and> query_ok")
  case True
  let ?L = "GetHttpCacheOldestCreated 1000 t"
  have run: "evict_loop target oks ?L 0 0 t = (freed, deleted, err, t')"
    using True assms(2) by (simp add: EvictLRU_def)
  have len: "length ?L = min 1000 (length (ct_rows t))" by (simp add: oldest_created oldest_rows_def)
  from evict_loop_spec [OF run] obtain n where n: "n \<le> length ?L" "deleted = int n" "freed = sum_list (map snd (take n ?L))"
    "ct_rows t' = filter (\<lambda>(i, e). i \<notin> fst ` set (take n ?L)) (ct_rows t)" "ct_next t' = ct_next t"
    "err = None \<longrightarrow> freed \<ge> target \<or> n = length ?L" "\<forall>m < n. sum_list (map snd (take m ?L)) < target"
    by auto
  have take: "map snd (take m ?L) = map body_len (take m (oldest_rows t))" if "m \<le> n" for m
  proof -
    have "m \<le> 1000" using that n(1) len by simp
    then show ?thesis by (simp add: oldest_created take_map comp_def min_absorb1)
  qed
  have ids: "fst ` set (take n ?L) = fst ` set (take n (oldest_rows t))"
  proof -
    have "n \<le> 1000" using n(1) len by simp
    then show ?thesis by (simp add: oldest_created take_map image_image min_absorb1)
  qed
  have perm: "mset (oldest_rows t) = mset (ct_rows t)" by (simp add: oldest_rows_def)
  have "distinct (map fst (oldest_rows t))"
    using assms(1) perm by (metis mset_map table_wf_def mset_eq_imp_distinct_iff)
  note ti = take_ids [OF this, of n]
  have rows: "ct_rows t' = filter (\<lambda>x. fst x \<notin> fst ` set (take n (oldest_rows t))) (ct_rows t)"
    using n(4) unfolding ids by (simp only: case_prod_unfold)
  then have "mset (ct_rows t') = mset (filter (\<lambda>x. fst x \<notin> fst ` set (take n (oldest_rows t))) (oldest_rows t))"
    by (simp add: mset_filter perm)
  then have "mset (ct_rows t') = mset (drop n (oldest_rows t))" by (simp only: ti(2))
  moreover have "table_wf t'" using table_wf_filter [OF assms(1)] rows n(5) by (cases t; cases t') simp
  moreover have "\<forall>m < n. sum_list (map body_len (take m (oldest_rows t))) < target"
    using n(7) take by (metis less_imp_le_nat)
  ultimately show ?thesis using n(1-3,6) take [of n] rows len by auto
next
  case False
  then have "freed = 0" "deleted = 0" "t' = t" "err \<noteq> None" using assms(2) by (auto simp: EvictLRU_def split: if_splits)
  then show ?thesis using assms(1) by (intro exI [of _ 0]) (auto simp: oldest_rows_def)
qed

lemma evict_accounts:
  assumes "table_wf t" and "EvictLRU canceled conn_ok query_ok oks target t = (freed, deleted, err, t')"
  shows "GetHttpCacheSizeBytes t' = GetHttpCacheSizeBytes t - freed \<and>
    CountHttpCacheEntries t' = CountHttpCacheEntries t - deleted \<and>
    (err = None \<longrightarrow> freed \<ge> target \<or> deleted = min 1000 (CountHttpCacheEntries t)) \<and>
    (\<forall>x \<in> set (ct_rows t) - set (ct_rows t'). \<forall>y \<in> set (ct_rows t'). ce_CreatedAt (snd x) \<le> ce_CreatedAt (snd y)) \<and>
    (0 < deleted \<longrightarrow> (\<exists>x \<in> set (ct_rows t) - set (ct_rows t'). freed - body_len x < target))"
proof -
  let ?S = "oldest_rows t"
  obtain n where n: "mset (ct_rows t') = mset (drop n ?S)" "deleted = int n" "n \<le> length (ct_rows t)"
    "freed = sum_list (map body_len (take n ?S))"
    "err = None \<longrightarrow> freed \<ge> target \<or> n = min 1000 (length (ct_rows t))"
    "\<forall>m < n. sum_list (map body_len (take m ?S)) < target"
    using EvictLRU_spec [OF assms] by blast
  have S: "mset ?S = mset (ct_rows t)" "length ?S = length (ct_rows t)" "sorted (map (\<lambda>(i, e). ce_CreatedAt e) ?S)"
    by (simp_all add: oldest_rows_def)
  have sums: "mset xs = mset ys \<Longrightarrow> sum_list (map body_len xs) = sum_list (map body_len ys)" for xs ys
    by (metis mset_map sum_mset_sum_list)
  have "sum_list (map body_len ?S) = sum_list (map body_len (take n ?S)) + sum_list (map body_len (drop n ?S))"
    by (metis append_take_drop_id map_append sum_list_append)
  then have size: "GetHttpCacheSizeBytes t' = GetHttpCacheSizeBytes t - freed"
    using sums [OF S(1)] sums [OF n(1)] n(4) by (simp add: size_sum)
  have len: "length (ct_rows t') = length (ct_rows t) - n" using n(1) S(2) by (metis length_drop size_mset)
  have sets: "set (ct_rows t') = set (drop n ?S)" "set (ct_rows t) = set ?S"
    using n(1) S(1) by (metis set_mset_mset)+
  have "distinct ?S" using assms(1) S(1) by (metis distinct_map mset_eq_imp_distinct_iff table_wf_def)
  then have gone: "set (ct_rows t) - set (ct_rows t') = set (take n ?S)"
    unfolding sets using set_take_disj_set_drop_if_distinct [of ?S n n]
    by (metis Diff_cancel Diff_triv Un_Diff append_take_drop_id le_refl set_append sup_bot.right_neutral)
  have sorted: "\<forall>x \<in> set (take n ?S). \<forall>y \<in> set (drop n ?S). ce_CreatedAt (snd x) \<le> ce_CreatedAt (snd y)"
  proof -
    have "sorted (map (\<lambda>(i, e). ce_CreatedAt e) (take n ?S @ drop n ?S))" using S(3) by simp
    then show ?thesis by (fastforce simp: sorted_append simp del: append_take_drop_id)
  qed
  have last: "\<exists>x \<in> set (take n ?S). freed - body_len x < target" if pos: "0 < n"
  proof -
    obtain m where m: "n = Suc m" using pos by (cases n) auto
    then have lt: "m < length ?S" using n(3) S(2) by simp
    then have "take n ?S = take m ?S @ [?S ! m]" by (simp add: m take_Suc_conv_app_nth)
    then show ?thesis using n(4,6) m by force
  qed
  show ?thesis
    using size len n(2,3,5) gone sorted last sets by (auto simp: CountHttpCacheEntries_def go_len_def of_nat_diff)
qed

lemma evict_loop_no_error: "evict_loop target [] rows f d t = (f', d', err, t') \<Longrightarrow> err = None"
  by (induction rows arbitrary: f d t) (auto split: if_splits)

text \<open>Whatever deletion fails, an eviction reports exactly the bytes and rows it has removed; without an
  error it has reached the target or removed a thousand rows or all of them; no row that is kept is older
  than one that was removed, and it stops as soon as the target is reached.\<close>

theorem evict_oldest_first:
  assumes "table_wf t" and "EvictLRU canceled conn_ok query_ok oks target t = (freed, deleted, err, t')"
  shows "GetHttpCacheSizeBytes t' = GetHttpCacheSizeBytes t - freed \<and>
    CountHttpCacheEntries t' = CountHttpCacheEntries t - deleted \<and>
    (err = None \<longrightarrow> freed \<ge> target \<or> deleted = min 1000 (CountHttpCacheEntries t)) \<and>
    (\<forall>x \<in> set (ct_rows t) - set (ct_rows t'). \<forall>y \<in> set (ct_rows t'). ce_CreatedAt (snd x) \<le> ce_CreatedAt (snd y)) \<and>
    (0 < deleted \<longrightarrow> (\<exists>x \<in> set (ct_rows t) - set (ct_rows t'). freed - body_len x < target))"
  by (rule evict_accounts [OF assms])

section \<open>The counters\<close>

datatype batched_write = BWFile | BWCache cache_entry | BWIndex

definition cache_entries :: "batched_write list \<Rightarrow> cache_entry list" where
  "cache_entries batch = List.map_filter (\<lambda>w. case w of BWCache e \<Rightarrow> Some e | _ \<Rightarrow> None) batch"

definition is_gallery :: "cache_entry \<Rightarrow> bool" where
  "is_gallery e \<longleftrightarrow> HasPrefix (ce_Path e) ''/gallery/''"

fun store_all ::
  "registry \<Rightarrow> string \<Rightarrow> bool list \<Rightarrow> cache_entry list \<Rightarrow> cache_table \<Rightarrow> (cache_entry list \<times> cache_table) option" where
  "store_all reg codec oks [] t = Some ([], t)"
| "store_all reg codec oks (e # es) t =
     (case StoreCacheEntryInTx reg codec (case oks of [] \<Rightarrow> True | ok # _ \<Rightarrow> ok) e t of
        (Inl _, _) \<Rightarrow> None
      | (Inr e', t1) \<Rightarrow> map_option (\<lambda>(es', t2). (e' # es', t2)) (store_all reg codec (tl oks) es t1))"

text \<open>The cache part of \<^verbatim>\<open>flushBatchedWrites\<close> in its transaction; the other writes succeed or not.
  It gives the entries with the bodies as they are stored.\<close>

definition flushBatchedWrites ::
  "registry \<Rightarrow> string \<Rightarrow> bool \<Rightarrow> bool list \<Rightarrow> batched_write list \<Rightarrow> cache_table \<Rightarrow> (cache_entry list \<times> cache_table) option" where
  "flushBatchedWrites reg codec others_ok oks batch t =
     (if \<not> others_ok then None
      else store_all reg codec oks (filter is_gallery (cache_entries batch) @
        filter (\<lambda>e. \<not> is_gallery e) (cache_entries batch)) t)"

text \<open>The place of the batcher's goroutine in its callbacks.\<close>

datatype batch_pc = BIdle | BCommitted int int | BAdded | BLoaded int | BEvicted int int | BFailed | BResync int int

record infra =
  in_table :: cache_table
  in_cacheSizeBytes :: int
  in_cacheEntryCount :: int
  in_pc :: batch_pc

datatype infra_action = AFlush bool "bool list" "batched_write list" | ACount | ALoad | AEvict bool bool bool "bool list"
  | ASubtract | AQuery bool bool | AStore | ACleanup bool bool int | ARotate | AReset

definition OnSuccess_count :: "infra \<Rightarrow> infra" where
  "OnSuccess_count s = (case in_pc s of
     BCommitted totalAdded entriesAdded \<Rightarrow>
       let s1 = (if totalAdded > 0 then s\<lparr>in_cacheSizeBytes := in_cacheSizeBytes s + totalAdded\<rparr> else s);
           s2 = (if entriesAdded > 0 then s1\<lparr>in_cacheEntryCount := in_cacheEntryCount s1 + entriesAdded\<rparr> else s1)
       in s2\<lparr>in_pc := (if entriesAdded > 0 then BAdded else BIdle)\<rparr>
   | _ \<Rightarrow> s)"

definition maybeEvict_load :: "int \<Rightarrow> infra \<Rightarrow> infra" where
  "maybeEvict_load maxTotal s =
     (if maxTotal \<le> 0 then s\<lparr>in_pc := BIdle\<rparr>
      else let currentSize = in_cacheSizeBytes s in
        if currentSize > maxTotal then s\<lparr>in_pc := BLoaded currentSize\<rparr> else s\<lparr>in_pc := BIdle\<rparr>)"

definition maybeEvict_evict :: "int \<Rightarrow> bool \<Rightarrow> bool \<Rightarrow> bool \<Rightarrow> bool list \<Rightarrow> int \<Rightarrow> infra \<Rightarrow> infra" where
  "maybeEvict_evict maxTotal canceled conn_ok query_ok oks currentSize s =
     (let targetFree = currentSize - maxTotal + maxTotal div 10 in
      case EvictLRU canceled conn_ok query_ok oks targetFree (in_table s) of
        (freed, deleted, _, t) \<Rightarrow> s\<lparr>in_table := t, in_pc := BEvicted freed deleted\<rparr>)"

definition maybeEvict_subtract :: "int \<Rightarrow> int \<Rightarrow> infra \<Rightarrow> infra" where
  "maybeEvict_subtract freed deleted s =
     (let s1 = (if freed > 0 then s\<lparr>in_cacheSizeBytes := in_cacheSizeBytes s - freed\<rparr> else s);
          s2 = (if deleted > 0 then s1\<lparr>in_cacheEntryCount := in_cacheEntryCount s1 - deleted\<rparr> else s1)
      in s2\<lparr>in_pc := BIdle\<rparr>)"

definition resync_query :: "bool \<Rightarrow> bool \<Rightarrow> infra \<Rightarrow> infra" where
  "resync_query size_ok count_ok s =
     (case GetCacheSizeBytes False True size_ok (in_table s) of
        Inl _ \<Rightarrow> s\<lparr>in_pc := BIdle\<rparr>
      | Inr sz \<Rightarrow> s\<lparr>in_pc := BResync sz
          (case CountCacheEntries True count_ok (in_table s) of Inl _ \<Rightarrow> 0 | Inr cnt \<Rightarrow> cnt)\<rparr>)"

fun infra_act :: "registry \<Rightarrow> string \<Rightarrow> int \<Rightarrow> infra_action \<Rightarrow> infra \<Rightarrow> infra option" where
  "infra_act reg codec maxTotal (AFlush others_ok oks batch) s =
     (if in_pc s \<noteq> BIdle then None
      else (case flushBatchedWrites reg codec others_ok oks batch (in_table s) of
          None \<Rightarrow> Some (s\<lparr>in_pc := (if cache_entries batch \<noteq> [] then BFailed else BIdle)\<rparr>)
        | Some (es, t) \<Rightarrow> Some (s\<lparr>in_table := t,
            in_pc := BCommitted (sum_list (map (\<lambda>e. go_len (ce_Body e)) es)) (go_len es)\<rparr>)))"
| "infra_act reg codec maxTotal ACount s =
     (case in_pc s of BCommitted _ _ \<Rightarrow> Some (OnSuccess_count s) | _ \<Rightarrow> None)"
| "infra_act reg codec maxTotal ALoad s =
     (case in_pc s of BAdded \<Rightarrow> Some (maybeEvict_load maxTotal s) | _ \<Rightarrow> None)"
| "infra_act reg codec maxTotal (AEvict canceled conn_ok query_ok oks) s =
     (case in_pc s of BLoaded cur \<Rightarrow> Some (maybeEvict_evict maxTotal canceled conn_ok query_ok oks cur s) | _ \<Rightarrow> None)"
| "infra_act reg codec maxTotal ASubtract s =
     (case in_pc s of BEvicted freed deleted \<Rightarrow> Some (maybeEvict_subtract freed deleted s) | _ \<Rightarrow> None)"
| "infra_act reg codec maxTotal (AQuery size_ok count_ok) s =
     (if in_pc s = BFailed then Some (resync_query size_ok count_ok s) else None)"
| "infra_act reg codec maxTotal AStore s =
     (case in_pc s of
        BResync sz cnt \<Rightarrow> Some (s\<lparr>in_cacheSizeBytes := sz, in_cacheEntryCount := cnt, in_pc := BIdle\<rparr>)
      | _ \<Rightarrow> None)"
| "infra_act reg codec maxTotal (ACleanup conn_ok exec_ok now) s =
     Some (s\<lparr>in_table := snd (snd (CleanupExpired conn_ok exec_ok now (in_table s)))\<rparr>)"
| "infra_act reg codec maxTotal ARotate s = Some (s\<lparr>in_table := empty_table\<rparr>)"
| "infra_act reg codec maxTotal AReset s = Some (s\<lparr>in_cacheSizeBytes := 0, in_cacheEntryCount := 0\<rparr>)"

fun infra_run :: "registry \<Rightarrow> string \<Rightarrow> int \<Rightarrow> infra_action list \<Rightarrow> infra \<Rightarrow> infra option" where
  "infra_run reg codec maxTotal [] s = Some s"
| "infra_run reg codec maxTotal (a # as) s =
     (case infra_act reg codec maxTotal a s of None \<Rightarrow> None | Some s1 \<Rightarrow> infra_run reg codec maxTotal as s1)"

section \<open>The counter covers the table\<close>

lemma size_nonneg: "0 \<le> GetHttpCacheSizeBytes t"
  by (auto simp: size_sum body_len_def intro!: sum_list_nonneg)

lemma size_subset:
  "GetHttpCacheSizeBytes (t\<lparr>ct_rows := filter P (ct_rows t)\<rparr>) \<le> GetHttpCacheSizeBytes t"
proof -
  have "sum_list (map body_len (filter P rows)) \<le> sum_list (map body_len rows)" for rows
    by (induction rows) (auto simp: body_len_def intro: add_increasing)
  then show ?thesis by (simp add: size_sum)
qed

lemma size_upsert:
  assumes "table_wf t"
  shows "GetHttpCacheSizeBytes (UpsertHttpCache e t) \<le> GetHttpCacheSizeBytes t + go_len (ce_Body e)"
proof -
  let ?f = "\<lambda>(i::nat, x). (i, if ce_Key x = ce_Key e then upsert_row e x else x)"
  have "sum_list (map body_len (map ?f rows)) \<le> sum_list (map body_len rows) + go_len (ce_Body e)"
    if "distinct (map (\<lambda>x. ce_Key (snd x)) rows)" for rows
    using that
  proof (induction rows)
    case (Cons r rows)
    obtain i x where r: "r = (i, x)" by fastforce
    show ?case
    proof (cases "ce_Key x = ce_Key e")
      case True
      then have "map ?f rows = rows" using Cons.prems r by (intro map_idI) force
      then show ?thesis using True r by (simp add: body_len_def upsert_row_def)
    next
      case False
      then show ?thesis using Cons r by simp
    qed
  qed simp
  moreover have "distinct (map (\<lambda>x. ce_Key (snd x)) (ct_rows t))" using assms by (simp add: table_wf_def)
  ultimately show ?thesis by (simp add: UpsertHttpCache_def size_sum body_len_def)
qed

lemma store_all_size:
  assumes "store_all reg codec oks es t = Some (es', t')" "table_wf t"
  shows "GetHttpCacheSizeBytes t' \<le> GetHttpCacheSizeBytes t + sum_list (map (\<lambda>e. go_len (ce_Body e)) es') \<and>
    table_wf t' \<and> length es' = length es"
  using assms
proof (induction es arbitrary: oks t es' t')
  case (Cons e es)
  obtain e' t1 es2 where step: "StoreCacheEntryInTx reg codec (case oks of [] \<Rightarrow> True | ok # _ \<Rightarrow> ok) e t = (Inr e', t1)"
    "store_all reg codec (tl oks) es t1 = Some (es2, t')" "es' = e' # es2"
    using Cons.prems(1) by (auto split: sum.splits prod.splits)
  then have t1: "t1 = UpsertHttpCache e' t"
    by (auto simp: StoreCacheEntryInTx_def Let_def split: sum.splits if_splits)
  with Cons.prems(2) have "table_wf t1" by (simp add: table_wf_upsert)
  from Cons.IH [OF step(2) this] size_upsert [OF Cons.prems(2), of e'] show ?case
    by (simp add: step(3) t1)
qed simp

lemma flush_size:
  assumes "flushBatchedWrites reg codec others_ok oks batch t = Some (es, t')" "table_wf t"
  shows "GetHttpCacheSizeBytes t' \<le> GetHttpCacheSizeBytes t + sum_list (map (\<lambda>e. go_len (ce_Body e)) es) \<and> table_wf t' \<and>
    (es = [] \<longleftrightarrow> cache_entries batch = [])"
proof -
  let ?xs = "filter is_gallery (cache_entries batch) @ filter (\<lambda>e. \<not> is_gallery e) (cache_entries batch)"
  have "length ?xs = length (cache_entries batch)" by (simp add: sum_length_filter_compl)
  then show ?thesis using assms store_all_size [of reg codec oks ?xs t es t']
    by (auto simp: flushBatchedWrites_def split: if_splits)
qed

definition covered :: "infra \<Rightarrow> bool" where
  "covered s \<longleftrightarrow> table_wf (in_table s) \<and> (let sz = GetHttpCacheSizeBytes (in_table s); c = in_cacheSizeBytes s in
     case in_pc s of
       BCommitted tot n \<Rightarrow> sz \<le> c + tot \<and> 0 \<le> tot \<and> (n \<le> 0 \<longrightarrow> tot = 0)
     | BLoaded cur \<Rightarrow> sz \<le> c \<and> sz \<le> cur
     | BEvicted freed deleted \<Rightarrow> sz \<le> c - freed \<and> 0 \<le> freed
     | BResync sz' n \<Rightarrow> sz \<le> sz' \<and> sz \<le> c
     | _ \<Rightarrow> sz \<le> c)"

text \<open>The schedules in which an invalidation is not interrupted and does not fall between an eviction and
  the subtraction of what it freed.\<close>

fun orderly :: "bool \<Rightarrow> infra_action list \<Rightarrow> bool" where
  "orderly ev [] = True"
| "orderly ev (ARotate # as) = (case as of AReset # as' \<Rightarrow> \<not> ev \<and> orderly False as' | _ \<Rightarrow> False)"
| "orderly ev (AReset # as) = False"
| "orderly ev (AEvict _ _ _ _ # as) = orderly True as"
| "orderly ev (ASubtract # as) = orderly False as"
| "orderly ev (_ # as) = orderly ev as"

definition evicting :: "infra \<Rightarrow> bool" where
  "evicting s \<longleftrightarrow> (case in_pc s of BEvicted _ _ \<Rightarrow> True | _ \<Rightarrow> False)"

lemma covered_act:
  assumes "infra_act reg codec maxTotal a s = Some s'" "covered s" "a \<noteq> ARotate" "a \<noteq> AReset"
  shows "covered s'"
proof (cases a)
  case (AFlush others_ok oks batch)
  then have idle: "in_pc s = BIdle" using assms(1) by (auto split: if_splits)
  show ?thesis
  proof (cases "flushBatchedWrites reg codec others_ok oks batch (in_table s)")
    case None
    then show ?thesis using assms(1,2) AFlush idle by (auto simp: covered_def split: if_splits)
  next
    case (Some r)
    obtain es t where r: "r = (es, t)" by fastforce
    have "0 \<le> sum_list (map (\<lambda>e. go_len (ce_Body e)) es)" by (auto intro!: sum_list_nonneg)
    moreover have "go_len es \<le> 0 \<Longrightarrow> es = []" by (cases es) (auto simp: go_len_def)
    ultimately show ?thesis using assms(1,2) AFlush idle Some r flush_size [OF Some [unfolded r]]
      by (auto simp: covered_def Let_def)
  qed
next
  case ACount
  then show ?thesis using assms(1,2)
    by (auto simp: covered_def OnSuccess_count_def Let_def split: batch_pc.splits if_splits)
next
  case ALoad
  then show ?thesis using assms(1,2)
    by (auto simp: covered_def maybeEvict_load_def Let_def split: batch_pc.splits if_splits)
next
  case (AEvict canceled conn_ok query_ok oks)
  then obtain cur where pc: "in_pc s = BLoaded cur" using assms(1) by (auto split: batch_pc.splits)
  let ?target = "cur - maxTotal + maxTotal div 10"
  obtain f d err t where ev: "EvictLRU canceled conn_ok query_ok oks ?target (in_table s) = (f, d, err, t)"
    by (metis prod_cases4)
  have wf: "table_wf (in_table s)" using assms(2) by (simp add: covered_def)
  have s': "s' = s\<lparr>in_table := t, in_pc := BEvicted f d\<rparr>"
    using assms(1) AEvict pc ev by (simp add: maybeEvict_evict_def Let_def)
  obtain n where n: "table_wf t" "f = sum_list (map body_len (take n (oldest_rows (in_table s))))"
    using EvictLRU_spec [OF wf ev] by blast
  have "0 \<le> f" unfolding n(2) by (auto simp: body_len_def intro!: sum_list_nonneg)
  moreover have "GetHttpCacheSizeBytes t = GetHttpCacheSizeBytes (in_table s) - f"
    using evict_accounts [OF wf ev] by simp
  ultimately show ?thesis using assms(2) pc n(1) by (simp add: s' covered_def Let_def)
next
  case ASubtract
  then show ?thesis using assms(1,2)
    by (auto simp: covered_def maybeEvict_subtract_def Let_def split: batch_pc.splits if_splits)
next
  case (AQuery size_ok count_ok)
  then show ?thesis using assms(1,2)
    by (auto simp: covered_def resync_query_def GetCacheSizeBytes_def Let_def split: if_splits sum.splits)
next
  case AStore
  then show ?thesis using assms(1,2) by (auto simp: covered_def Let_def split: batch_pc.splits)
next
  case (ACleanup conn_ok exec_ok now)
  have "table_wf (DeleteHttpCacheExpired now t) \<and> GetHttpCacheSizeBytes (DeleteHttpCacheExpired now t) \<le> GetHttpCacheSizeBytes t"
    if "table_wf t" for t
    using table_wf_filter [OF that] size_subset unfolding DeleteHttpCacheExpired_def by blast
  then have "table_wf (in_table s') \<and> GetHttpCacheSizeBytes (in_table s') \<le> GetHttpCacheSizeBytes (in_table s)"
    "in_pc s' = in_pc s" "in_cacheSizeBytes s' = in_cacheSizeBytes s"
    using assms(1,2) ACleanup by (auto simp: CleanupExpired_def covered_def)
  then show ?thesis using assms(2) by (auto simp: covered_def Let_def split: batch_pc.splits)
qed (use assms in auto)

lemma covered_invalidate:
  assumes "covered s" "\<not> evicting s"
  shows "covered (s\<lparr>in_table := empty_table, in_cacheSizeBytes := 0, in_cacheEntryCount := 0\<rparr>)"
proof -
  have "table_wf empty_table" "GetHttpCacheSizeBytes empty_table = 0"
    by (simp_all add: table_wf_def empty_table_def GetHttpCacheSizeBytes_def)
  then show ?thesis using assms size_nonneg [of "in_table s"]
    by (auto simp: covered_def evicting_def Let_def split: batch_pc.splits)
qed

lemma act_evicting:
  assumes "infra_act reg codec maxTotal a s = Some s'" "a \<noteq> ARotate" "a \<noteq> AReset"
  shows "evicting s' \<longleftrightarrow> (case a of AEvict _ _ _ _ \<Rightarrow> True | ASubtract \<Rightarrow> False | _ \<Rightarrow> evicting s)"
proof (cases a)
  case (AEvict canceled conn_ok query_ok oks)
  then show ?thesis using assms(1)
    by (auto simp: evicting_def maybeEvict_evict_def Let_def split: batch_pc.splits prod.splits)
qed (use assms in \<open>auto simp: evicting_def OnSuccess_count_def maybeEvict_load_def maybeEvict_subtract_def
      resync_query_def Let_def split: batch_pc.splits if_splits sum.splits option.splits\<close>)

lemma orderly_act:
  assumes "infra_act reg codec maxTotal a s = Some s'" "a \<noteq> ARotate" "a \<noteq> AReset"
  shows "orderly (evicting s) (a # as) \<longleftrightarrow> orderly (evicting s') as"
  using act_evicting [OF assms] assms(2,3) by (cases a) simp_all

lemma covered_run:
  assumes "infra_run reg codec maxTotal as s = Some s'" "covered s" "orderly (evicting s) as"
  shows "covered s'"
  using assms
proof (induction as arbitrary: s rule: length_induct)
  case (1 as)
  show ?case
  proof (cases as)
    case Nil
    then show ?thesis using "1.prems" by simp
  next
    case (Cons a rest)
    show ?thesis
    proof (cases "a = ARotate \<or> a = AReset")
      case True
      then obtain as' where as: "as = ARotate # AReset # as'" "\<not> evicting s" "orderly False as'"
        using "1.prems"(3) Cons by (auto split: list.splits infra_action.splits)
      let ?t = "s\<lparr>in_table := empty_table, in_cacheSizeBytes := 0, in_cacheEntryCount := 0\<rparr>"
      have "covered ?t" by (rule covered_invalidate [OF "1.prems"(2) as(2)])
      moreover have "evicting ?t = False" using as(2) by (simp add: evicting_def)
      moreover have "infra_run reg codec maxTotal as' ?t = Some s'" using "1.prems"(1) as(1) by simp
      ultimately show ?thesis using "1.IH" [rule_format, of as' ?t] as by simp
    next
      case False
      then obtain s1 where s1: "infra_act reg codec maxTotal a s = Some s1" "infra_run reg codec maxTotal rest s1 = Some s'"
        using "1.prems"(1) Cons by (auto simp del: infra_act.simps split: option.splits)
      have "covered s1" using covered_act [OF s1(1) "1.prems"(2)] False by blast
      moreover have "orderly (evicting s1) rest" using orderly_act [OF s1(1)] "1.prems"(3) Cons False by blast
      ultimately show ?thesis using "1.IH" s1(2) Cons by auto
    qed
  qed
qed

text \<open>The state after start or calibration.\<close>

definition calibrated :: "infra \<Rightarrow> bool" where
  "calibrated s \<longleftrightarrow> table_wf (in_table s) \<and> in_cacheSizeBytes s = GetHttpCacheSizeBytes (in_table s) \<and> in_pc s = BIdle"

text \<open>C14: In every interleaving of flushes, their counting and eviction, failed batches with their
  recalibration, clean-ups and invalidations (these not cutting into an eviction), the size counter is at
  least the size of the stored bodies, so that the cache stays within its limit: after a batch that
  finds the counter within the limit, and after an eviction without an error that did not stop at its
  thousand rows, the bodies take at most MaxTotalSize bytes.\<close>

theorem cache_size_bounded:
  assumes "calibrated s0" and "orderly False as" and "infra_run reg codec maxTotal as s0 = Some s" and "0 < maxTotal"
  shows "(in_pc s = BIdle \<longrightarrow> GetHttpCacheSizeBytes (in_table s) \<le> in_cacheSizeBytes s) \<and>
    (\<forall>s'. infra_act reg codec maxTotal ALoad s = Some s' \<and> in_pc s' = BIdle \<longrightarrow>
       GetHttpCacheSizeBytes (in_table s') \<le> maxTotal) \<and>
    (\<forall>s' oks freed deleted. infra_act reg codec maxTotal (AEvict False True True []) s = Some s' \<and>
       in_pc s' = BEvicted freed deleted \<and> deleted < 1000 \<longrightarrow> GetHttpCacheSizeBytes (in_table s') \<le> maxTotal)"
proof -
  have "covered s0" "\<not> evicting s0" using assms(1) by (simp_all add: calibrated_def covered_def evicting_def)
  with covered_run [OF assms(3)] assms(2) have cov: "covered s" by simp
  have "GetHttpCacheSizeBytes (in_table s') \<le> maxTotal"
    if load: "infra_act reg codec maxTotal ALoad s = Some s'" "in_pc s' = BIdle" for s'
    using load cov assms(4)
    by (auto simp: maybeEvict_load_def covered_def Let_def split: batch_pc.splits if_splits)
  moreover have "GetHttpCacheSizeBytes (in_table s') \<le> maxTotal"
    if ev: "infra_act reg codec maxTotal (AEvict False True True []) s = Some s'" "in_pc s' = BEvicted freed deleted"
      "deleted < 1000" for s' freed deleted
  proof -
    obtain cur where pc: "in_pc s = BLoaded cur" using ev(1) by (auto split: batch_pc.splits)
    obtain f d err t where e: "EvictLRU False True True [] (cur - maxTotal + maxTotal div 10) (in_table s) = (f, d, err, t)"
      by (metis prod_cases4)
    have s': "s' = s\<lparr>in_table := t, in_pc := BEvicted f d\<rparr>" using ev(1) pc e by (simp add: maybeEvict_evict_def Let_def)
    with ev(2,3) have d: "d < 1000" by simp
    have noerr: "err = None" using e evict_loop_no_error by (simp add: EvictLRU_def)
    have wf: "table_wf (in_table s)" and cur: "GetHttpCacheSizeBytes (in_table s) \<le> cur"
      using cov pc by (simp_all add: covered_def Let_def)
    from evict_accounts [OF wf e] noerr d
    have "GetHttpCacheSizeBytes t = GetHttpCacheSizeBytes (in_table s) - f"
      "f \<ge> cur - maxTotal + maxTotal div 10 \<or> CountHttpCacheEntries t = 0" by auto
    moreover have "CountHttpCacheEntries t = 0 \<Longrightarrow> GetHttpCacheSizeBytes t = 0"
      by (simp add: CountHttpCacheEntries_def GetHttpCacheSizeBytes_def go_len_def)
    moreover have "0 \<le> maxTotal div 10" using assms(4) by simp
    ultimately show ?thesis using cur assms(4) s' by auto
  qed
  ultimately show ?thesis using cov by (auto simp: covered_def Let_def)
qed

section \<open>Drift and a race\<close>

definition blob :: "char \<Rightarrow> int \<Rightarrow> cache_entry" where
  "blob k expires = \<lparr>ce_Key = [k], ce_Method = ''GET'', ce_Path = ''/gallery/1'', ce_QueryString = None, ce_Status = 200,
     ce_ContentType = None, ce_CacheControl = None, ce_ETag = None, ce_LastModified = None, ce_Vary = None,
     ce_Body = ''0123456789'', ce_ContentLength = Some 10, ce_CreatedAt = 1, ce_ExpiresAt = Some expires\<rparr>"

abbreviation toy_reg :: registry where
  "toy_reg \<equiv> default_registry (toy_lib zstd_magic) (toy_lib gzip_magic)"

definition fresh_infra :: infra where
  "fresh_infra = \<lparr>in_table = empty_table, in_cacheSizeBytes = 0, in_cacheEntryCount = 0, in_pc = BIdle\<rparr>"

lemma store_blob [simp]: "StoreCacheEntryInTx toy_reg ''identity'' True (blob k x) t = (Inr (blob k x), UpsertHttpCache (blob k x) t)"
proof -
  have "FinalizeForStorage toy_reg ''identity'' (ce_Body (blob k x)) = Inr (ce_Body (blob k x))"
    by (simp add: FinalizeForStorage_def match_default EncodeWith_def blob_def HasPrefix_def zstd_magic_def gzip_magic_def)
  then show ?thesis by (simp add: StoreCacheEntryInTx_def Let_def)
qed

lemma blob_simps [simp]: "ce_Key (blob k x) = [k]" "ce_CreatedAt (blob k x) = 1" "go_len (ce_Body (blob k x)) = 10"
  "is_gallery (blob k x)" "live now (blob k x) \<longleftrightarrow> x > now"
  by (simp_all add: blob_def go_len_def is_gallery_def HasPrefix_def live_def)

lemmas infra_eval = flushBatchedWrites_def cache_entries_def UpsertHttpCache_def has_key_def
  OnSuccess_count_def maybeEvict_load_def maybeEvict_evict_def maybeEvict_subtract_def EvictLRU_def
  GetHttpCacheOldestCreated_def DeleteHttpCacheByID_def CleanupExpired_def DeleteHttpCacheExpired_def
  GetHttpCacheSizeBytes_def fresh_infra_def empty_table_def map_filter_simps Let_def

text \<open>Rows that the clean-up deletes when they expire are never subtracted from the counter: after one
  expired page of ten bytes a cache that is filled exactly to its limit of twenty bytes with valid pages is
  emptied by the next eviction check, and the counter keeps the ten bytes.\<close>

theorem cache_counter_drift:
  "\<exists>s. infra_run toy_reg ''identity'' 20
      [AFlush True [] [BWCache (blob (CHR ''a'') 60)], ACount, ALoad, ACleanup True True 60,
       AFlush True [] [BWCache (blob (CHR ''b'') 99), BWCache (blob (CHR ''c'') 99)], ACount] fresh_infra = Some s \<and>
    GetHttpCacheSizeBytes (in_table s) = 20 \<and> list_all (\<lambda>x. live 60 (snd x)) (ct_rows (in_table s)) \<and>
    (\<exists>s'. infra_run toy_reg ''identity'' 20 [ALoad, AEvict False True True [], ASubtract] s = Some s' \<and>
       ct_rows (in_table s') = [] \<and> in_cacheSizeBytes s' = 10 \<and> in_cacheEntryCount s' = 1)"
  by (simp add: infra_eval)

text \<open>When an invalidation falls between the deletions of an eviction and the subtraction of what they
  freed, the counters become negative, and from then on the cache grows beyond its limit: with a limit of twenty
  bytes forty are stored and the check sees nothing to evict.\<close>

theorem cache_invalidate_race:
  "\<exists>s. infra_run toy_reg ''identity'' 20
      [AFlush True [] (map (\<lambda>k. BWCache (blob k 99)) ''abc''), ACount, ALoad, AEvict False True True [],
       ARotate, AReset, ASubtract] fresh_infra = Some s \<and>
    in_cacheSizeBytes s = -20 \<and> in_cacheEntryCount s = -2 \<and> ct_rows (in_table s) = [] \<and>
    (\<exists>s'. infra_run toy_reg ''identity'' 20
        [AFlush True [] (map (\<lambda>k. BWCache (blob k 99)) ''defg''), ACount, ALoad] s = Some s' \<and>
       in_pc s' = BIdle \<and> GetHttpCacheSizeBytes (in_table s') = 40)"
  by (simp add: infra_eval)

theorem cache_size_bounded_witness:
  "\<exists>s s' freed deleted. infra_run toy_reg ''identity'' 20
      [AFlush True [] (map (\<lambda>k. BWCache (blob k 99)) ''abc''), ACount, ALoad] fresh_infra = Some s \<and>
    infra_act toy_reg ''identity'' 20 (AEvict False True True []) s = Some s' \<and> in_pc s' = BEvicted freed deleted \<and>
    GetHttpCacheSizeBytes (in_table s') \<le> 20"
proof -
  let ?as = "[AFlush True [] (map (\<lambda>k. BWCache (blob k 99)) ''abc''), ACount, ALoad]"
  have cal: "calibrated fresh_infra" by (simp add: calibrated_def fresh_infra_def empty_table_def table_wf_def GetHttpCacheSizeBytes_def)
  obtain s where s: "infra_run toy_reg ''identity'' 20 ?as fresh_infra = Some s"
    and ev: "\<exists>s'. infra_act toy_reg ''identity'' 20 (AEvict False True True []) s = Some s' \<and> in_pc s' = BEvicted 20 2"
    by (simp add: infra_eval)
  have "orderly False ?as" "(0::int) < 20" by simp_all
  from cache_size_bounded [OF cal this(1) s this(2)] ev have
    "\<exists>s'. infra_act toy_reg ''identity'' 20 (AEvict False True True []) s = Some s' \<and> in_pc s' = BEvicted 20 2 \<and>
      GetHttpCacheSizeBytes (in_table s') \<le> 20" by force
  with s show ?thesis by blast
qed

theorem evict_oldest_first_witness:
  "GetHttpCacheSizeBytes (\<lparr>ct_rows = [(2, blob (CHR ''b'') 9)], ct_next = 3\<rparr>) =
   GetHttpCacheSizeBytes (\<lparr>ct_rows = [(1, blob (CHR ''a'') 9), (2, blob (CHR ''b'') 9)], ct_next = 3\<rparr>) - 10"
proof -
  let ?t = "\<lparr>ct_rows = [(1, blob (CHR ''a'') 9), (2, blob (CHR ''b'') 9)], ct_next = 3\<rparr>"
  have "table_wf ?t" by (simp add: table_wf_def)
  moreover have "EvictLRU False True True [] 5 ?t = (10, 1, None, \<lparr>ct_rows = [(2, blob (CHR ''b'') 9)], ct_next = 3\<rparr>)"
    by (simp add: infra_eval)
  ultimately show ?thesis using evict_oldest_first [of ?t False True True "[]" 5] by blast
qed

theorem cache_serves_last_stored_witness:
  "GetHttpCacheByKey 5 ''k'' (fold (run_cache_op toy_reg ''identity'')
     [OStore True (blob (CHR ''k'') 9), OCleanup 3] empty_table) = Some (blob (CHR ''k'') 9) \<and>
   fold (last_stored toy_reg ''identity'') [OStore True (blob (CHR ''k'') 9), OCleanup 3] Map.empty ''k'' =
     Some (content (blob (CHR ''k'') 9))"
proof -
  have "FinalizeForStorage toy_reg ''identity'' (ce_Body (blob k x)) = Inr (ce_Body (blob k x))" for k x
    by (simp add: FinalizeForStorage_def match_default EncodeWith_def blob_def HasPrefix_def zstd_magic_def gzip_magic_def)
  then have look: "GetHttpCacheByKey 5 ''k'' (fold (run_cache_op toy_reg ''identity'')
     [OStore True (blob (CHR ''k'') 9), OCleanup 3] empty_table) = Some (blob (CHR ''k'') 9)"
    by (simp add: infra_eval StoreCacheEntry_def GetHttpCacheByKey_def)
  from cache_serves_last_stored [OF this] look show ?thesis by blast
qed

end
