(* ===== verification/Walk_Protocol.thy ===== *)
theory Walk_Protocol
  imports Prelude "HOL-Library.Multiset"
begin

text \<open>
  The goroutines of \<^verbatim>\<open>ParallelWalk\<close> (\<^verbatim>\<open>internal/parallelwalkdir/parallelwalkdir.go\<close>): the workers that read
  directories from the channel \<^verbatim>\<open>dirCh\<close>, the feeder that moves them there from the schedule queue, and the
  coordinator that decides when the walk is over.  A step is one atomic access of one goroutine; what
  processing a directory does to the set of visited directories and which directories it schedules
  is a parameter, given in \<^theory_text>\<open>Walk_Dir\<close>.  The schedule queue is the list that
  \<^theory_text>\<open>Queue_Correct\<close> shows the circular buffer to be.  The coordinator asleep on \<^verbatim>\<open>idleCond\<close> may look at its
  condition again at any time, which covers every broadcast.
\<close>

section \<open>State\<close>

text \<open>Where the feeder is: before the test of \<^verbatim>\<open>stopFeeder\<close>, before and inside \<^verbatim>\<open>DequeueWait\<close>, with a
  directory before the second test, before \<^verbatim>\<open>feeding.Add\<close>, before \<^verbatim>\<open>pending.Add\<close>, before the send, after it.\<close>

datatype 'w feeder_pc = FTop | FEnter | FSleep nat bool | FGot 'w | FFeed 'w | FAdd 'w | FSend 'w | FSent | FDrop 'w | FDone

datatype 'w worker_pc = WIdle | WGot 'w | WRun 'w | WSched 'w "'w list" | WStop 'w 'w "'w list" | WPush 'w 'w "'w list"
  | WEnded 'w | WExit

datatype coord_pc = CPush | CLoop | CIdle0 | CIdle1 | CIdle2 | CSleep | CLock1 | CWait1 | CQuiet0 | CQuiet1 | CQuiet2
  | CAfter | CDropQueued | CStop | CBroadcast | CFeederWait | CLock2 | CWait2 | CClose | CWorkerWait | CDone

record ('w, 'v) walk =
  wa_queue :: "'w list"
  wa_epoch :: nat
  wa_feeder :: "'w feeder_pc"
  wa_dirCh :: "'w list"
  wa_cap :: nat
  wa_closed :: bool
  wa_workers :: "'w worker_pc list"
  wa_processing :: int
  wa_feeding :: int
  wa_pending :: int
  wa_stopFeeder :: bool
  wa_coord :: coord_pc
  wa_cancelled :: bool
  wa_visited :: 'v
  wa_scheduled :: "'w multiset"
  wa_processed :: "'w list"
  wa_dropped :: "'w list"

definition walk_init :: "nat \<Rightarrow> nat \<Rightarrow> 'v \<Rightarrow> ('w, 'v) walk" where
  "walk_init n dirChCap v = \<lparr>wa_queue = [], wa_epoch = 0, wa_feeder = FTop, wa_dirCh = [], wa_cap = dirChCap, wa_closed = False,
     wa_workers = replicate n WIdle, wa_processing = 0, wa_feeding = 0, wa_pending = 0, wa_stopFeeder = False,
     wa_coord = CPush, wa_cancelled = False, wa_visited = v, wa_scheduled = {#}, wa_processed = [], wa_dropped = []\<rparr>"

definition notify_feeder :: "'w feeder_pc \<Rightarrow> 'w feeder_pc" where
  "notify_feeder f = (case f of FSleep e _ \<Rightarrow> FSleep e True | _ \<Rightarrow> f)"

definition enqueue :: "'w \<Rightarrow> ('w, 'v) walk \<Rightarrow> ('w, 'v) walk" where
  "enqueue w s = s\<lparr>wa_queue := wa_queue s @ [w], wa_feeder := notify_feeder (wa_feeder s)\<rparr>"

definition drop_work :: "'w \<Rightarrow> ('w, 'v) walk \<Rightarrow> ('w, 'v) walk" where
  "drop_work w s = s\<lparr>wa_dropped := w # wa_dropped s\<rparr>"

section \<open>Goroutines\<close>

text \<open>\<^verbatim>\<open>DequeueWait\<close> under the queue's mutex: the front item, or asleep with the current epoch; a
  sleeper that is woken on an empty queue returns \<^verbatim>\<open>ErrEmptyQueue\<close> when the epoch has moved on.\<close>

definition feeder_dequeue :: "nat option \<Rightarrow> ('w, 'v) walk \<Rightarrow> ('w, 'v) walk" where
  "feeder_dequeue ep s = (case wa_queue s of
       w # ws \<Rightarrow> s\<lparr>wa_queue := ws, wa_feeder := FGot w\<rparr>
     | [] \<Rightarrow> if wa_cancelled s then s\<lparr>wa_feeder := FDone\<rparr>
            else if ep \<noteq> None \<and> ep \<noteq> Some (wa_epoch s)
            then s\<lparr>wa_feeder := (if wa_stopFeeder s then FDone else FTop)\<rparr>
            else s\<lparr>wa_feeder := FSleep (wa_epoch s) False\<rparr>)"

definition feeder_step :: "bool \<Rightarrow> ('w, 'v) walk \<Rightarrow> ('w, 'v) walk option" where
  "feeder_step done_branch s = (case wa_feeder s of
       FTop \<Rightarrow> Some (s\<lparr>wa_feeder := (if wa_stopFeeder s then FDone else FEnter)\<rparr>)
     | FEnter \<Rightarrow> Some (feeder_dequeue None s)
     | FSleep e notified \<Rightarrow> if notified then Some (feeder_dequeue (Some e) s) else None
     | FGot w \<Rightarrow> if wa_stopFeeder s then Some (drop_work w (s\<lparr>wa_feeder := FDone\<rparr>)) else Some (s\<lparr>wa_feeder := FFeed w\<rparr>)
     | FFeed w \<Rightarrow> Some (s\<lparr>wa_feeding := wa_feeding s + 1, wa_feeder := FAdd w\<rparr>)
     | FAdd w \<Rightarrow> if wa_coord s = CWait1 \<or> wa_coord s = CWait2 then None
               else Some (s\<lparr>wa_pending := wa_pending s + 1, wa_feeder := FSend w\<rparr>)
     | FSend w \<Rightarrow> if done_branch then
                  (if wa_cancelled s then Some (s\<lparr>wa_feeding := wa_feeding s - 1, wa_feeder := FDrop w\<rparr>) else None)
                else if length (wa_dirCh s) < wa_cap s then Some (s\<lparr>wa_dirCh := wa_dirCh s @ [w], wa_feeder := FSent\<rparr>)
                else None
     | FSent \<Rightarrow> Some (s\<lparr>wa_feeding := wa_feeding s - 1, wa_feeder := FTop\<rparr>)
     | FDrop w \<Rightarrow> Some (drop_work w (s\<lparr>wa_pending := wa_pending s - 1, wa_feeder := FDone\<rparr>))
     | FDone \<Rightarrow> None)"

definition set_worker :: "nat \<Rightarrow> 'w worker_pc \<Rightarrow> ('w, 'v) walk \<Rightarrow> ('w, 'v) walk" where
  "set_worker i p s = s\<lparr>wa_workers := (wa_workers s)[i := p]\<rparr>"

definition worker_step :: "('w \<Rightarrow> 'v \<Rightarrow> 'v \<times> 'w list) \<Rightarrow> nat \<Rightarrow> ('w, 'v) walk \<Rightarrow> ('w, 'v) walk option" where
  "worker_step visit i s = (if i \<ge> length (wa_workers s) then None else case wa_workers s ! i of
       WIdle \<Rightarrow> (case wa_dirCh s of
           w # ws \<Rightarrow> Some (set_worker i (WGot w) (s\<lparr>wa_dirCh := ws\<rparr>))
         | [] \<Rightarrow> if wa_closed s then Some (set_worker i WExit s) else None)
     | WGot w \<Rightarrow> Some (set_worker i (WRun w) (s\<lparr>wa_processing := wa_processing s + 1\<rparr>))
     | WRun w \<Rightarrow> if wa_cancelled s then Some (set_worker i (WSched w []) s)
               else (case visit w (wa_visited s) of
                   (v, ws) \<Rightarrow> Some (set_worker i (WSched w ws)
                     (s\<lparr>wa_visited := v, wa_scheduled := wa_scheduled s + mset ws\<rparr>)))
     | WSched w [] \<Rightarrow> Some (set_worker i (WEnded w) (s\<lparr>wa_processing := wa_processing s - 1, wa_processed := w # wa_processed s\<rparr>))
     | WSched w (x # ws) \<Rightarrow> if wa_cancelled s then Some (drop_work x (set_worker i (WSched w ws) s))
                          else Some (set_worker i (WStop w x ws) s)
     | WStop w x ws \<Rightarrow> if wa_stopFeeder s then Some (drop_work x (set_worker i (WSched w ws) s))
                     else Some (set_worker i (WPush w x ws) s)
     | WPush w x ws \<Rightarrow> Some (enqueue x (set_worker i (WSched w ws) s))
     | WEnded w \<Rightarrow> Some (set_worker i WIdle (s\<lparr>wa_pending := wa_pending s - 1\<rparr>))
     | WExit \<Rightarrow> None)"

definition coord_step :: "'w \<Rightarrow> ('w, 'v) walk \<Rightarrow> ('w, 'v) walk option" where
  "coord_step root s = (case wa_coord s of
       CPush \<Rightarrow> Some (enqueue root (s\<lparr>wa_scheduled := {#root#}, wa_coord := CLoop\<rparr>))
     | CLoop \<Rightarrow> Some (s\<lparr>wa_coord := (if wa_cancelled s then CAfter else CIdle0)\<rparr>)
     | CIdle0 \<Rightarrow> Some (s\<lparr>wa_coord := (if wa_queue s \<noteq> [] then (if wa_cancelled s then CAfter else CSleep) else CIdle1)\<rparr>)
     | CIdle1 \<Rightarrow> Some (s\<lparr>wa_coord := (if wa_processing s \<noteq> 0 then (if wa_cancelled s then CAfter else CSleep) else CIdle2)\<rparr>)
     | CIdle2 \<Rightarrow> Some (s\<lparr>wa_coord := (if wa_feeding s \<noteq> 0 then (if wa_cancelled s then CAfter else CSleep)
                                      else if wa_cancelled s then CAfter else CLock1)\<rparr>)
     | CSleep \<Rightarrow> Some (s\<lparr>wa_coord := CIdle0\<rparr>)
     | CLock1 \<Rightarrow> Some (s\<lparr>wa_coord := CWait1\<rparr>)
     | CWait1 \<Rightarrow> if wa_pending s = 0 then Some (s\<lparr>wa_coord := CQuiet0\<rparr>) else None
     | CQuiet0 \<Rightarrow> Some (s\<lparr>wa_coord := (if wa_queue s = [] then CQuiet1 else CLoop)\<rparr>)
     | CQuiet1 \<Rightarrow> Some (s\<lparr>wa_coord := (if wa_processing s = 0 then CQuiet2 else CLoop)\<rparr>)
     | CQuiet2 \<Rightarrow> Some (s\<lparr>wa_coord := (if wa_feeding s = 0 then CAfter else CLoop)\<rparr>)
     | CAfter \<Rightarrow> Some (s\<lparr>wa_coord := (if wa_cancelled s then CDropQueued else CStop)\<rparr>)
     | CDropQueued \<Rightarrow> (case wa_queue s of
           [] \<Rightarrow> Some (s\<lparr>wa_coord := CStop\<rparr>)
         | w # ws \<Rightarrow> Some (drop_work w (s\<lparr>wa_queue := ws, wa_feeder := notify_feeder (wa_feeder s)\<rparr>)))
     | CStop \<Rightarrow> Some (s\<lparr>wa_stopFeeder := True, wa_coord := CBroadcast\<rparr>)
     | CBroadcast \<Rightarrow> Some (s\<lparr>wa_epoch := wa_epoch s + 1, wa_feeder := notify_feeder (wa_feeder s), wa_coord := CFeederWait\<rparr>)
     | CFeederWait \<Rightarrow> if wa_feeder s = FDone then Some (s\<lparr>wa_coord := CLock2\<rparr>) else None
     | CLock2 \<Rightarrow> Some (s\<lparr>wa_coord := CWait2\<rparr>)
     | CWait2 \<Rightarrow> if wa_pending s = 0 then Some (s\<lparr>wa_coord := CClose\<rparr>) else None
     | CClose \<Rightarrow> Some (s\<lparr>wa_closed := True, wa_coord := CWorkerWait\<rparr>)
     | CWorkerWait \<Rightarrow> if list_all (\<lambda>p. p = WExit) (wa_workers s) then Some (s\<lparr>wa_coord := CDone\<rparr>) else None
     | CDone \<Rightarrow> None)"

text \<open>Cancelling the context wakes a sleeping feeder through its \<^verbatim>\<open>AfterFunc\<close>.\<close>

datatype walk_action = GFeeder bool | GWorker nat | GCoord | GCancel

fun walk_act :: "('w \<Rightarrow> 'v \<Rightarrow> 'v \<times> 'w list) \<Rightarrow> 'w \<Rightarrow> walk_action \<Rightarrow> ('w, 'v) walk \<Rightarrow> ('w, 'v) walk option" where
  "walk_act visit root (GFeeder b) s = feeder_step b s"
| "walk_act visit root (GWorker i) s = worker_step visit i s"
| "walk_act visit root GCoord s = coord_step root s"
| "walk_act visit root GCancel s = Some (s\<lparr>wa_cancelled := True, wa_feeder := notify_feeder (wa_feeder s)\<rparr>)"

fun walk_run :: "('w \<Rightarrow> 'v \<Rightarrow> 'v \<times> 'w list) \<Rightarrow> 'w \<Rightarrow> walk_action list \<Rightarrow> ('w, 'v) walk \<Rightarrow> ('w, 'v) walk option" where
  "walk_run visit root [] s = Some s"
| "walk_run visit root (a # as) s =
     (case walk_act visit root a s of None \<Rightarrow> None | Some t \<Rightarrow> walk_run visit root as t)"

section \<open>Accounting\<close>

definition feeder_works :: "'w feeder_pc \<Rightarrow> 'w multiset" where
  "feeder_works f = (case f of FGot w \<Rightarrow> {#w#} | FFeed w \<Rightarrow> {#w#} | FAdd w \<Rightarrow> {#w#} | FSend w \<Rightarrow> {#w#} | FDrop w \<Rightarrow> {#w#} | _ \<Rightarrow> {#})"

definition feeder_pending :: "'w feeder_pc \<Rightarrow> int" where
  "feeder_pending f = (case f of FSend w \<Rightarrow> 1 | FDrop w \<Rightarrow> 1 | _ \<Rightarrow> 0)"

definition feeder_feeding :: "'w feeder_pc \<Rightarrow> int" where
  "feeder_feeding f = (case f of FAdd w \<Rightarrow> 1 | FSend w \<Rightarrow> 1 | FSent \<Rightarrow> 1 | _ \<Rightarrow> 0)"

definition worker_works :: "'w worker_pc \<Rightarrow> 'w multiset" where
  "worker_works p = (case p of WGot w \<Rightarrow> {#w#} | WRun w \<Rightarrow> {#w#} | WSched w ws \<Rightarrow> add_mset w (mset ws)
     | WStop w x ws \<Rightarrow> add_mset w (add_mset x (mset ws)) | WPush w x ws \<Rightarrow> add_mset w (add_mset x (mset ws)) | _ \<Rightarrow> {#})"

definition worker_pending :: "'w worker_pc \<Rightarrow> int" where
  "worker_pending p = (case p of WIdle \<Rightarrow> 0 | WExit \<Rightarrow> 0 | _ \<Rightarrow> 1)"

definition worker_processing :: "'w worker_pc \<Rightarrow> int" where
  "worker_processing p = (case p of WRun _ \<Rightarrow> 1 | WSched _ _ \<Rightarrow> 1 | WStop _ _ _ \<Rightarrow> 1 | WPush _ _ _ \<Rightarrow> 1 | _ \<Rightarrow> 0)"

definition after_feeder :: "coord_pc \<Rightarrow> bool" where
  "after_feeder c \<longleftrightarrow> c \<in> {CLock2, CWait2, CClose, CWorkerWait, CDone}"

definition after_wait :: "coord_pc \<Rightarrow> bool" where
  "after_wait c \<longleftrightarrow> c \<in> {CClose, CWorkerWait, CDone}"

definition walk_counts :: "('w, 'v) walk \<Rightarrow> bool" where
  "walk_counts s \<longleftrightarrow>
     wa_scheduled s = mset (wa_queue s) + feeder_works (wa_feeder s) + mset (wa_dirCh s) +
       sum_list (map worker_works (wa_workers s)) + mset (wa_processed s) + mset (wa_dropped s) \<and>
     wa_pending s = feeder_pending (wa_feeder s) + int (length (wa_dirCh s)) + sum_list (map worker_pending (wa_workers s)) \<and>
     wa_processing s = sum_list (map worker_processing (wa_workers s)) \<and>
     wa_feeding s = feeder_feeding (wa_feeder s)"

definition walk_control :: "('w, 'v) walk \<Rightarrow> bool" where
  "walk_control s \<longleftrightarrow>
     (after_feeder (wa_coord s) \<longrightarrow> wa_feeder s = FDone) \<and>
     (after_wait (wa_coord s) \<longrightarrow> wa_pending s = 0) \<and>
     (wa_coord s = CDone \<longrightarrow> list_all (\<lambda>p. p = WExit) (wa_workers s)) \<and>
     (WExit \<in> set (wa_workers s) \<longrightarrow> wa_closed s) \<and>
     (wa_closed s \<longrightarrow> after_wait (wa_coord s)) \<and>
     (wa_coord s = CPush \<longrightarrow> wa_scheduled s = {#})"

definition walk_inv :: "('w, 'v) walk \<Rightarrow> bool" where
  "walk_inv s \<longleftrightarrow> walk_counts s \<and> walk_control s"

lemma sum_list_change:
  fixes f :: "'a \<Rightarrow> 'b::comm_monoid_add"
  assumes "i < length xs"
  shows "\<exists>r. sum_list (map f xs) = f (xs ! i) + r \<and> (\<forall>p. sum_list (map f (xs[i := p])) = f p + r)"
proof -
  let ?r = "sum_list (map f (take i xs)) + sum_list (map f (drop (Suc i) xs))"
  have "sum_list (map f (take i xs @ xs ! i # drop (Suc i) xs)) = f (xs ! i) + ?r"
    by (simp add: ac_simps)
  then have "sum_list (map f xs) = f (xs ! i) + ?r" using assms by (simp add: id_take_nth_drop [symmetric])
  moreover have "sum_list (map f (xs[i := p])) = f p + ?r" for p
    using assms by (simp add: upd_conv_take_nth_drop ac_simps)
  ultimately show ?thesis by blast
qed

lemma notify_works [simp]:
  "feeder_works (notify_feeder f) = feeder_works f" "feeder_pending (notify_feeder f) = feeder_pending f"
  "feeder_feeding (notify_feeder f) = feeder_feeding f" "notify_feeder f = FDone \<longleftrightarrow> f = FDone"
  by (cases f; simp add: notify_feeder_def feeder_works_def feeder_pending_def feeder_feeding_def)+

lemma walk_inv_init: "walk_inv (walk_init n c v)"
  by (induction n) (auto simp: walk_inv_def walk_counts_def walk_control_def walk_init_def feeder_works_def feeder_pending_def feeder_feeding_def
      worker_works_def worker_pending_def worker_processing_def after_feeder_def after_wait_def)

lemma feeder_counts [simp]:
  "feeder_works FTop = {#}" "feeder_works FEnter = {#}" "feeder_works (FSleep e n) = {#}" "feeder_works (FGot w) = {#w#}"
  "feeder_works (FFeed w) = {#w#}" "feeder_works (FAdd w) = {#w#}" "feeder_works (FSend w) = {#w#}"
  "feeder_works FSent = {#}" "feeder_works (FDrop w) = {#w#}" "feeder_works FDone = {#}"
  "feeder_pending FTop = 0" "feeder_pending FEnter = 0" "feeder_pending (FSleep e n) = 0" "feeder_pending (FGot w) = 0"
  "feeder_pending (FFeed w) = 0" "feeder_pending (FAdd w) = 0" "feeder_pending (FSend w) = 1"
  "feeder_pending FSent = 0" "feeder_pending (FDrop w) = 1" "feeder_pending FDone = 0"
  "feeder_feeding FTop = 0" "feeder_feeding FEnter = 0" "feeder_feeding (FSleep e n) = 0" "feeder_feeding (FGot w) = 0"
  "feeder_feeding (FFeed w) = 0" "feeder_feeding (FAdd w) = 1" "feeder_feeding (FSend w) = 1"
  "feeder_feeding FSent = 1" "feeder_feeding (FDrop w) = 0" "feeder_feeding FDone = 0"
  by (simp_all add: feeder_works_def feeder_pending_def feeder_feeding_def)

lemma worker_counts [simp]:
  "worker_works WIdle = {#}" "worker_works (WGot w) = {#w#}" "worker_works (WRun w) = {#w#}"
  "worker_works (WSched w ws) = add_mset w (mset ws)" "worker_works (WStop w x ws) = add_mset w (add_mset x (mset ws))"
  "worker_works (WPush w x ws) = add_mset w (add_mset x (mset ws))" "worker_works (WEnded w) = {#}" "worker_works WExit = {#}"
  "worker_pending WIdle = 0" "worker_pending (WGot w) = 1" "worker_pending (WRun w) = 1" "worker_pending (WSched w ws) = 1"
  "worker_pending (WStop w x ws) = 1" "worker_pending (WPush w x ws) = 1" "worker_pending (WEnded w) = 1" "worker_pending WExit = 0"
  "worker_processing WIdle = 0" "worker_processing (WGot w) = 0" "worker_processing (WRun w) = 1" "worker_processing (WSched w ws) = 1"
  "worker_processing (WStop w x ws) = 1" "worker_processing (WPush w x ws) = 1" "worker_processing (WEnded w) = 0" "worker_processing WExit = 0"
  by (simp_all add: worker_works_def worker_pending_def worker_processing_def)

lemma after_wait_feeder: "\<not> after_feeder c \<Longrightarrow> \<not> after_wait c"
  by (auto simp: after_wait_def after_feeder_def)

lemma control_feeder:
  assumes "walk_control s" "wa_feeder s \<noteq> FDone"
  shows "\<not> after_feeder (wa_coord s)" "\<not> after_wait (wa_coord s)" "\<not> wa_closed s" "WExit \<notin> set (wa_workers s)" "wa_coord s \<noteq> CDone"
  using assms after_wait_feeder [of "wa_coord s"] by (auto simp: walk_control_def after_feeder_def)

lemma control_change:
  assumes "walk_control s" "wa_feeder s \<noteq> FDone" "wa_coord t = wa_coord s" "wa_closed t = wa_closed s"
    "wa_workers t = wa_workers s" "wa_scheduled t = wa_scheduled s"
  shows "walk_control t"
  using control_feeder [OF assms(1,2)] assms by (simp add: walk_control_def)

lemma feeder_dequeue_counts:
  assumes "walk_counts s" "feeder_works (wa_feeder s) = {#}" "feeder_pending (wa_feeder s) = 0"
    "feeder_feeding (wa_feeder s) = 0"
  shows "walk_counts (feeder_dequeue ep s)"
  using assms by (cases "wa_queue s") (simp_all add: walk_counts_def feeder_dequeue_def)

lemma feeder_counts_step:
  assumes "walk_counts s" "feeder_step b s = Some t" shows "walk_counts t"
proof (cases "wa_feeder s")
  case FEnter
  then show ?thesis using assms feeder_dequeue_counts [OF assms(1), of None] by (simp add: feeder_step_def)
next
  case (FSleep e n)
  then show ?thesis using assms feeder_dequeue_counts [OF assms(1), of "Some e"] by (simp add: feeder_step_def split: if_splits)
next
  case (FGot w)
  then show ?thesis using assms by (cases "wa_stopFeeder s") (auto simp: feeder_step_def walk_counts_def drop_work_def)
next
  case (FAdd w)
  then show ?thesis using assms by (auto simp: feeder_step_def walk_counts_def split: if_splits)
next
  case (FSend w)
  then show ?thesis using assms by (cases b) (auto simp: feeder_step_def walk_counts_def split: if_splits)
qed (use assms in \<open>auto simp: feeder_step_def walk_counts_def drop_work_def\<close>)

lemma feeder_dequeue_frame:
  "wa_coord (feeder_dequeue ep s) = wa_coord s" "wa_closed (feeder_dequeue ep s) = wa_closed s"
  "wa_workers (feeder_dequeue ep s) = wa_workers s" "wa_scheduled (feeder_dequeue ep s) = wa_scheduled s"
  by (simp_all add: feeder_dequeue_def split: list.split)

lemma feeder_frame:
  assumes "feeder_step b s = Some t"
  shows "wa_coord t = wa_coord s" "wa_closed t = wa_closed s" "wa_workers t = wa_workers s"
    "wa_scheduled t = wa_scheduled s" "wa_feeder s \<noteq> FDone"
  using assms by (cases "wa_feeder s"; auto simp: feeder_step_def drop_work_def feeder_dequeue_frame split: if_splits)+

lemma feeder_inv:
  assumes "walk_inv s" "feeder_step b s = Some t" shows "walk_inv t"
  using assms feeder_counts_step [OF _ assms(2)] control_change [of s t] feeder_frame [OF assms(2)]
  by (simp add: walk_inv_def)

lemma coord_counts:
  assumes "walk_counts s" "walk_control s" "coord_step root s = Some t" shows "walk_counts t"
proof (cases "wa_coord s")
  case CPush
  then have "wa_scheduled s = {#}" using assms(2) by (simp add: walk_control_def)
  then show ?thesis using assms(1,3) CPush by (auto simp: coord_step_def enqueue_def walk_counts_def)
next
  case CDropQueued
  then show ?thesis using assms(1,3) by (cases "wa_queue s") (auto simp: coord_step_def drop_work_def walk_counts_def)
qed (use assms(1,3) in \<open>auto simp: coord_step_def walk_counts_def split: if_splits\<close>)

lemma coord_control:
  assumes "walk_control s" "coord_step root s = Some t" shows "walk_control t"
proof (cases "wa_coord s")
  case CPush
  then show ?thesis using assms
    by (auto simp: coord_step_def enqueue_def walk_control_def after_feeder_def after_wait_def)
next
  case CDropQueued
  then show ?thesis using assms
    by (cases "wa_queue s") (auto simp: coord_step_def drop_work_def walk_control_def after_feeder_def after_wait_def)
qed (use assms in \<open>auto simp: coord_step_def walk_control_def after_feeder_def after_wait_def split: if_splits\<close>)

lemma worker_counts_step:
  assumes cnt: "walk_counts s" and step: "worker_step visit i s = Some t" shows "walk_counts t"
proof -
  have i: "i < length (wa_workers s)" using step by (simp add: worker_step_def split: if_splits)
  obtain r1 where r1: "sum_list (map worker_works (wa_workers s)) = worker_works (wa_workers s ! i) + r1"
    "\<And>p. sum_list (map worker_works ((wa_workers s)[i := p])) = worker_works p + r1"
    using sum_list_change [OF i, of worker_works] by blast
  obtain r2 where r2: "sum_list (map worker_pending (wa_workers s)) = worker_pending (wa_workers s ! i) + r2"
    "\<And>p. sum_list (map worker_pending ((wa_workers s)[i := p])) = worker_pending p + r2"
    using sum_list_change [OF i, of worker_pending] by blast
  obtain r3 where r3: "sum_list (map worker_processing (wa_workers s)) = worker_processing (wa_workers s ! i) + r3"
    "\<And>p. sum_list (map worker_processing ((wa_workers s)[i := p])) = worker_processing p + r3"
    using sum_list_change [OF i, of worker_processing] by blast
  note defs = worker_step_def set_worker_def drop_work_def enqueue_def walk_counts_def
  show ?thesis
  proof (cases "wa_workers s ! i")
    case WIdle
    then show ?thesis using cnt step i r1 r2 r3 by (cases "wa_dirCh s") (auto simp: defs split: if_splits)
  next
    case (WRun w)
    then show ?thesis using cnt step i r1 r2 r3
      by (cases "visit w (wa_visited s)") (auto simp: defs ac_simps split: if_splits)
  next
    case (WSched w ws)
    then show ?thesis using cnt step i r1 r2 r3 by (cases ws) (auto simp: defs split: if_splits)
  next
    case (WStop w x ws)
    then show ?thesis using cnt step i r1 r2 r3 by (auto simp: defs split: if_splits)
  qed (use cnt step i r1 r2 r3 in \<open>auto simp: defs\<close>)
qed

lemma sum_list_zero_members:
  fixes f :: "'a \<Rightarrow> int"
  assumes "sum_list (map f xs) \<le> 0" "\<forall>x \<in> set xs. 0 \<le> f x" shows "\<forall>x \<in> set xs. f x = 0"
  using assms
proof (induction xs)
  case (Cons x xs)
  then have "0 \<le> sum_list (map f xs)" by (auto intro!: sum_list_nonneg)
  with Cons show ?case by force
qed simp

lemma no_pending:
  assumes "walk_counts s" "wa_pending s = 0"
  shows "wa_dirCh s = []" "\<forall>p \<in> set (wa_workers s). p = WIdle \<or> p = WExit" "feeder_pending (wa_feeder s) = 0"
proof -
  have nn: "0 \<le> worker_pending p" for p :: "'a worker_pc" by (cases p) simp_all
  then have s: "0 \<le> sum_list (map worker_pending (wa_workers s))" by (auto intro!: sum_list_nonneg)
  have f: "0 \<le> feeder_pending (wa_feeder s)" by (cases "wa_feeder s") simp_all
  have sum: "feeder_pending (wa_feeder s) + int (length (wa_dirCh s)) + sum_list (map worker_pending (wa_workers s)) = 0"
    using assms by (simp add: walk_counts_def)
  then have "int (length (wa_dirCh s)) = 0" using s f by linarith
  then show "wa_dirCh s = []" by simp
  show "feeder_pending (wa_feeder s) = 0" using sum s f by linarith
  have "sum_list (map worker_pending (wa_workers s)) \<le> 0" using f assms by (auto simp: walk_counts_def)
  from sum_list_zero_members [OF this] nn have "\<forall>p \<in> set (wa_workers s). worker_pending p = 0" by blast
  moreover have "worker_pending p = 0 \<Longrightarrow> p = WIdle \<or> p = WExit" for p :: "'a worker_pc" by (cases p) simp_all
  ultimately show "\<forall>p \<in> set (wa_workers s). p = WIdle \<or> p = WExit" by blast
qed

lemma worker_frame:
  assumes "worker_step visit i s = Some t"
  shows "wa_coord t = wa_coord s" "wa_feeder t = FDone \<longleftrightarrow> wa_feeder s = FDone" "wa_closed t = wa_closed s"
    "wa_workers t = (wa_workers s)[i := wa_workers t ! i]" "i < length (wa_workers s)" "wa_workers s ! i \<noteq> WExit"
    "wa_workers t ! i = WExit \<Longrightarrow> wa_closed s"
    "wa_workers s ! i = WIdle \<Longrightarrow> wa_pending t = wa_pending s"
    "wa_workers s ! i = WIdle \<or> wa_scheduled s = {#} \<and> walk_counts s \<Longrightarrow> wa_scheduled t = wa_scheduled s"
proof -
  have i: "i < length (wa_workers s)" using assms by (simp add: worker_step_def split: if_splits)
  note defs = worker_step_def set_worker_def drop_work_def enqueue_def
  show "i < length (wa_workers s)" by fact
  show "wa_coord t = wa_coord s" "wa_feeder t = FDone \<longleftrightarrow> wa_feeder s = FDone" "wa_closed t = wa_closed s"
    "wa_workers t = (wa_workers s)[i := wa_workers t ! i]" "wa_workers s ! i \<noteq> WExit"
    "wa_workers t ! i = WExit \<Longrightarrow> wa_closed s" "wa_workers s ! i = WIdle \<Longrightarrow> wa_pending t = wa_pending s"
    using assms i by (auto simp: defs split: worker_pc.splits list.splits if_splits prod.splits)
  assume idle: "wa_workers s ! i = WIdle \<or> wa_scheduled s = {#} \<and> walk_counts s"
  have "wa_workers s ! i \<noteq> WRun w" for w
  proof
    assume run: "wa_workers s ! i = WRun w"
    with idle have "sum_list (map worker_works (wa_workers s)) = {#}" by (auto simp: walk_counts_def)
    with sum_list_change [OF i, of worker_works] run show False by auto
  qed
  then show "wa_scheduled t = wa_scheduled s"
    using assms i by (auto simp: defs split: worker_pc.splits list.splits if_splits prod.splits)
qed

lemma worker_control:
  assumes cnt: "walk_counts s" and ctl: "walk_control s" and step: "worker_step visit i s = Some t"
  shows "walk_control t"
proof -
  note fr = worker_frame [OF step]
  have idle: "wa_workers s ! i = WIdle" if "after_wait (wa_coord s)"
    using that ctl no_pending(2) [OF cnt] fr(5,6) nth_mem by (fastforce simp: walk_control_def)
  have "WExit \<in> set (wa_workers t) \<Longrightarrow> WExit \<in> set (wa_workers s) \<or> wa_workers t ! i = WExit"
    using set_update_subset_insert [of "wa_workers s" i "wa_workers t ! i"] fr(4) by auto
  moreover have "\<not> (wa_coord s = CDone)"
    using ctl fr(5,6) by (auto simp: walk_control_def list_all_length)
  ultimately show ?thesis using ctl fr(1-3,7-9) idle cnt by (auto simp: walk_control_def)
qed

lemma act_inv:
  assumes "walk_inv s" "walk_act visit root a s = Some t" shows "walk_inv t"
proof (cases a)
  case (GFeeder b)
  then show ?thesis using assms feeder_inv by auto
next
  case (GWorker i)
  then show ?thesis using assms worker_counts_step worker_control by (fastforce simp: walk_inv_def)
next
  case GCoord
  then show ?thesis using assms coord_counts coord_control by (fastforce simp: walk_inv_def)
next
  case GCancel
  then show ?thesis using assms by (auto simp: walk_inv_def walk_counts_def walk_control_def)
qed

lemma run_inv:
  "walk_inv s \<Longrightarrow> walk_run visit root as s = Some t \<Longrightarrow> walk_inv t"
  by (induction as arbitrary: s) (auto split: option.splits simp del: walk_act.simps dest: act_inv)

section \<open>What a finished walk has done\<close>

definition worker_visited :: "'w worker_pc \<Rightarrow> 'w multiset" where
  "worker_visited p = (case p of WSched w ws \<Rightarrow> {#w#} | WStop w x ws \<Rightarrow> {#w#} | WPush w x ws \<Rightarrow> {#w#} | _ \<Rightarrow> {#})"

lemma worker_visited_simps [simp]:
  "worker_visited WIdle = {#}" "worker_visited (WGot w) = {#}" "worker_visited (WRun w) = {#}"
  "worker_visited (WSched w ws) = {#w#}" "worker_visited (WStop w x ws) = {#w#}" "worker_visited (WPush w x ws) = {#w#}"
  "worker_visited (WEnded w) = {#}" "worker_visited WExit = {#}"
  by (simp_all add: worker_visited_def)

definition visited_works :: "('w, 'v) walk \<Rightarrow> 'w multiset" where
  "visited_works s = mset (wa_processed s) + sum_list (map worker_visited (wa_workers s))"

definition children :: "('w \<Rightarrow> 'w list) \<Rightarrow> 'w multiset \<Rightarrow> 'w multiset" where
  "children kids M = (\<Sum>w \<in># M. mset (kids w))"

definition all_scheduled :: "('w \<Rightarrow> 'w list) \<Rightarrow> 'w \<Rightarrow> ('w, 'v) walk \<Rightarrow> bool" where
  "all_scheduled kids root s \<longleftrightarrow> wa_cancelled s \<or>
     (if wa_coord s = CPush then visited_works s = {#}
      else wa_scheduled s = {#root#} + children kids (visited_works s))"

lemma worker_scheduled:
  assumes "all_scheduled kids root s" "worker_step visit i s = Some t" "\<forall>w v. snd (visit w v) = kids w"
    "walk_inv s"
  shows "all_scheduled kids root t"
proof -
  have i: "i < length (wa_workers s)" using worker_frame(5) [OF assms(2)] .
  obtain r where r: "sum_list (map worker_visited (wa_workers s)) = worker_visited (wa_workers s ! i) + r"
    "\<And>p. sum_list (map worker_visited ((wa_workers s)[i := p])) = worker_visited p + r"
    using sum_list_change [OF i, of worker_visited] by blast
  have push: "wa_coord s \<noteq> CPush" if "wa_workers s ! i = WRun w" for w
  proof
    assume "wa_coord s = CPush"
    then have "sum_list (map worker_works (wa_workers s)) = {#}"
      using assms(4) by (auto simp: walk_inv_def walk_control_def walk_counts_def)
    with sum_list_change [OF i, of worker_works] that show False by auto
  qed
  note defs = worker_step_def set_worker_def drop_work_def enqueue_def all_scheduled_def visited_works_def
  show ?thesis
  proof (cases "wa_workers s ! i")
    case WIdle
    then show ?thesis using assms(1,2) i r by (cases "wa_dirCh s") (auto simp: defs split: if_splits)
  next
    case (WRun w)
    obtain v where v: "visit w (wa_visited s) = (v, kids w)" using assms(3) by (metis prod.collapse)
    then show ?thesis using assms(1,2) i r WRun push [OF WRun]
      by (auto simp: defs children_def split: if_splits)
  next
    case (WSched w ws)
    then show ?thesis using assms(1,2) i r by (cases ws) (auto simp: defs split: if_splits)
  next
    case (WStop w x ws)
    then show ?thesis using assms(1,2) i r by (auto simp: defs split: if_splits)
  qed (use assms(1,2) i r in \<open>auto simp: defs\<close>)
qed

lemma coord_scheduled:
  assumes "all_scheduled kids root s" "coord_step root s = Some t" shows "all_scheduled kids root t"
proof -
  have frame: "wa_processed t = wa_processed s" "wa_workers t = wa_workers s" "wa_cancelled t = wa_cancelled s"
    "wa_coord t \<noteq> CPush" "wa_coord s = CPush \<Longrightarrow> wa_scheduled t = {#root#}" "wa_coord s \<noteq> CPush \<Longrightarrow> wa_scheduled t = wa_scheduled s"
    using assms(2) by (auto simp: coord_step_def enqueue_def drop_work_def split: coord_pc.splits if_splits list.splits)
  then have vw: "visited_works t = visited_works s" by (simp add: visited_works_def)
  have "children kids {#} = {#}" by (simp add: children_def)
  then show ?thesis using assms(1) frame unfolding all_scheduled_def vw by (cases "wa_coord s = CPush") auto
qed

lemma feeder_scheduled:
  assumes "all_scheduled kids root s" "feeder_step b s = Some t" shows "all_scheduled kids root t"
proof -
  have "wa_processed (feeder_dequeue ep s) = wa_processed s" "wa_cancelled (feeder_dequeue ep s) = wa_cancelled s" for ep
    by (simp_all add: feeder_dequeue_def split: list.split)
  then have "wa_processed t = wa_processed s" "wa_cancelled t = wa_cancelled s"
    using assms(2) by (cases "wa_feeder s"; auto simp: feeder_step_def drop_work_def split: if_splits)+
  moreover from this have "visited_works t = visited_works s"
    using feeder_frame [OF assms(2)] by (simp add: visited_works_def)
  ultimately show ?thesis using assms(1) feeder_frame [OF assms(2)] unfolding all_scheduled_def by metis
qed

lemma run_scheduled:
  assumes "walk_run visit root as s = Some t" "all_scheduled kids root s" "walk_inv s" "\<forall>w v. snd (visit w v) = kids w"
  shows "all_scheduled kids root t"
  using assms
proof (induction as arbitrary: s)
  case (Cons a as)
  then obtain u where u: "walk_act visit root a s = Some u" "walk_run visit root as u = Some t"
    by (auto simp del: walk_act.simps split: option.splits)
  have "all_scheduled kids root u"
    using u(1) Cons.prems(2-4) worker_scheduled coord_scheduled feeder_scheduled
    by (cases a) (auto simp: all_scheduled_def [of kids root "s\<lparr>wa_cancelled := True, wa_feeder := f\<rparr>" for f])
  with Cons.IH [OF u(2)] act_inv [OF Cons.prems(3) u(1)] Cons.prems(4) show ?case by blast
qed simp

lemma exits_sum:
  assumes "list_all (\<lambda>p. p = WExit) ps" "f WExit = 0" shows "sum_list (map f ps) = (0::'b::comm_monoid_add)"
  using assms by (induction ps) auto

text \<open>C4: In every interleaving of the goroutines of a walk, with any directories and any moment of cancellation, the
  wait group never becomes negative and the channel is closed only when the feeder has ended (so that no send
  can panic); and when the result channels are closed every goroutine has ended, the three counters are
  zero, and every directory that was scheduled was processed, was dropped, or is left in the schedule queue.\<close>

theorem walk_ends_clean:
  assumes "walk_run visit root as (walk_init n dirChCap v) = Some s"
  shows "0 \<le> wa_pending s \<and> (wa_closed s \<longrightarrow> wa_feeder s = FDone \<and> wa_pending s = 0) \<and>
    (wa_coord s = CDone \<longrightarrow> wa_feeder s = FDone \<and> list_all (\<lambda>p. p = WExit) (wa_workers s) \<and> wa_dirCh s = [] \<and>
       wa_pending s = 0 \<and> wa_processing s = 0 \<and> wa_feeding s = 0 \<and>
       wa_scheduled s = mset (wa_processed s) + mset (wa_dropped s) + mset (wa_queue s))"
proof -
  have inv: "walk_counts s" "walk_control s" using run_inv [OF walk_inv_init assms] by (simp_all add: walk_inv_def)
  have nn: "0 \<le> worker_pending p" for p :: "'a worker_pc" by (cases p) simp_all
  have "0 \<le> feeder_pending (wa_feeder s)" by (cases "wa_feeder s") simp_all
  moreover have "0 \<le> sum_list (map worker_pending (wa_workers s))" using nn by (auto intro!: sum_list_nonneg)
  ultimately have "0 \<le> wa_pending s" using inv(1) by (simp add: walk_counts_def)
  moreover have "wa_closed s \<longrightarrow> wa_feeder s = FDone \<and> wa_pending s = 0"
    using inv(2) after_wait_feeder [of "wa_coord s"] by (auto simp: walk_control_def)
  moreover have "wa_feeder s = FDone \<and> list_all (\<lambda>p. p = WExit) (wa_workers s) \<and> wa_dirCh s = [] \<and> wa_pending s = 0 \<and>
      wa_processing s = 0 \<and> wa_feeding s = 0 \<and>
      wa_scheduled s = mset (wa_processed s) + mset (wa_dropped s) + mset (wa_queue s)" if "wa_coord s = CDone"
  proof -
    have fd: "wa_feeder s = FDone" "wa_pending s = 0" "list_all (\<lambda>p. p = WExit) (wa_workers s)"
      using that inv(2) by (auto simp: walk_control_def after_feeder_def after_wait_def)
    have "sum_list (map worker_works (wa_workers s)) = {#}" "sum_list (map worker_processing (wa_workers s)) = 0"
      using exits_sum [OF fd(3), of worker_works] exits_sum [OF fd(3), of worker_processing] by simp_all
    then show ?thesis using fd no_pending(1) [OF inv(1) fd(2)] inv(1) by (simp add: walk_counts_def)
  qed
  ultimately show ?thesis by blast
qed

inductive below :: "('w \<Rightarrow> 'w list) \<Rightarrow> 'w \<Rightarrow> 'w \<Rightarrow> bool" for kids root where
  here: "below kids root root"
| kid: "below kids root w \<Longrightarrow> x \<in> set (kids w) \<Longrightarrow> below kids root x"

lemma below_closed:
  assumes "below kids root w" "M = {#root#} + children kids M" shows "w \<in># M"
  using assms(1)
proof (induction rule: below.induct)
  case here
  have "root \<in># {#root#} + children kids M" by simp
  then show ?case unfolding assms(2) [symmetric] .
next
  case (kid w x)
  then have "x \<in># children kids M" by (auto simp: children_def)
  then have "x \<in># {#root#} + children kids M" by simp
  then show ?case unfolding assms(2) [symmetric] .
qed

text \<open>C20: A walk over a tree that ends without having been cancelled and in which no directory was dropped or left
  behind has processed every directory of the tree, as often as it occurs in it.\<close>

theorem walk_complete:
  assumes "walk_run visit root as (walk_init n dirChCap v) = Some s" and "wa_coord s = CDone" and "\<not> wa_cancelled s"
    and "wa_dropped s = []" and "wa_queue s = []" and "\<forall>w v. snd (visit w v) = kids w"
  shows "mset (wa_processed s) = {#root#} + children kids (mset (wa_processed s)) \<and>
    (below kids root w \<longrightarrow> w \<in> set (wa_processed s))"
proof -
  have inv: "walk_inv s" using run_inv [OF walk_inv_init assms(1)] .
  have "visited_works (walk_init n dirChCap v) = {#}"
    by (induction n) (auto simp: visited_works_def walk_init_def worker_visited_def)
  then have "all_scheduled kids root (walk_init n dirChCap v)" by (simp add: all_scheduled_def walk_init_def)
  from run_scheduled [OF assms(1) this walk_inv_init assms(6)] assms(2,3)
  have sch: "wa_scheduled s = {#root#} + children kids (visited_works s)" by (simp add: all_scheduled_def)
  have ex: "list_all (\<lambda>p. p = WExit) (wa_workers s)" "wa_pending s = 0" "wa_feeder s = FDone"
    using inv assms(2) by (auto simp: walk_inv_def walk_control_def after_feeder_def after_wait_def)
  have sums: "sum_list (map worker_works (wa_workers s)) = {#}" "sum_list (map worker_visited (wa_workers s)) = {#}"
    using exits_sum [OF ex(1), of worker_works] exits_sum [OF ex(1), of worker_visited] by simp_all
  have cnt: "walk_counts s" using inv by (simp add: walk_inv_def)
  have vw: "visited_works s = mset (wa_processed s)" using sums(2) by (simp add: visited_works_def)
  have "wa_scheduled s = mset (wa_queue s) + feeder_works (wa_feeder s) + mset (wa_dirCh s) +
      sum_list (map worker_works (wa_workers s)) + mset (wa_processed s) + mset (wa_dropped s)"
    using cnt by (simp only: walk_counts_def)
  then have sc: "wa_scheduled s = mset (wa_processed s)"
    by (simp add: sums(1) no_pending(1) [OF cnt ex(2)] assms(4,5) ex(3))
  have eq: "mset (wa_processed s) = {#root#} + children kids (mset (wa_processed s))"
    by (rule sch [unfolded vw sc])
  have "w \<in> set (wa_processed s)" if b: "below kids root w"
    using below_closed [OF b eq] by simp
  with eq show ?thesis by blast
qed

section \<open>A lost root and a feeder that is never woken\<close>

lemma walk_run_append:
  "walk_run visit root (as @ bs) s = (case walk_run visit root as s of None \<Rightarrow> None | Some t \<Rightarrow> walk_run visit root bs t)"
  by (induction as arbitrary: s) (auto simp del: walk_act.simps split: option.split)

lemma workers_exit:
  assumes "wa_closed s" "wa_dirCh s = []" "wa_workers s = replicate k WExit @ replicate m WIdle"
  shows "walk_run visit root (map GWorker [k..<k + m]) s = Some (s\<lparr>wa_workers := replicate (k + m) WExit\<rparr>)"
  using assms
proof (induction m arbitrary: k s)
  case (Suc m)
  let ?t = "s\<lparr>wa_workers := replicate (Suc k) WExit @ replicate m WIdle\<rparr>"
  have "worker_step visit k s = Some ?t"
    using Suc.prems by (simp add: worker_step_def set_worker_def list_update_append nth_append replicate_append_same)
  moreover have "walk_run visit root (map GWorker [Suc k..<Suc k + m]) ?t = Some (?t\<lparr>wa_workers := replicate (Suc k + m) WExit\<rparr>)"
    by (rule Suc.IH) (use Suc.prems in simp_all)
  moreover have "[k..<k + Suc m] = k # [Suc k..<Suc k + m]" by (simp add: upt_conv_Cons del: upt_Suc)
  ultimately show ?case by (simp del: upt_Suc replicate.simps)
qed simp

lemmas walk_eval = walk_init_def coord_step_def feeder_step_def worker_step_def enqueue_def drop_work_def notify_feeder_def
  feeder_dequeue_def set_worker_def

definition lost_run :: "walk_action list" where
  "lost_run = GCoord # GFeeder False # GFeeder False # replicate 12 GCoord @ GFeeder False # replicate 4 GCoord"

lemma lost_run_state:
  "walk_run visit root lost_run (walk_init n dirChCap v) =
     Some ((walk_init n dirChCap v)\<lparr>wa_scheduled := {#root#}, wa_dropped := [root], wa_feeder := FDone, wa_epoch := 1,
       wa_stopFeeder := True, wa_closed := True, wa_coord := CWorkerWait\<rparr>)"
  by (simp add: lost_run_def walk_eval numeral_eq_Suc)

text \<open>The coordinator can look between the moment the feeder has taken a directory from the schedule queue and the
  moment it announces it in the feeding counter: the queue is empty and all counters are zero, the
  coordinator stops the walk, and the feeder drops the directory.  With any number of workers this can happen to
  the root itself: the walk ends normally and has processed nothing.\<close>

theorem walk_root_lost:
  "\<exists>as s. walk_run visit root as (walk_init n dirChCap v) = Some s \<and> wa_coord s = CDone \<and> \<not> wa_cancelled s \<and>
     wa_processed s = [] \<and> wa_dropped s = [root]"
proof -
  let ?s = "(walk_init n dirChCap v)\<lparr>wa_scheduled := {#root#}, wa_dropped := [root], wa_feeder := FDone, wa_epoch := 1,
       wa_stopFeeder := True, wa_closed := True, wa_coord := CWorkerWait\<rparr>"
  let ?t = "?s\<lparr>wa_workers := replicate n WExit\<rparr>"
  have "walk_run visit root (map GWorker [0..<n]) ?s = Some ?t"
    using workers_exit [of ?s 0 n visit root] by (simp add: walk_init_def)
  moreover have "coord_step root ?t = Some (?t\<lparr>wa_coord := CDone\<rparr>)" by (simp add: coord_step_def list_all_iff)
  ultimately have "walk_run visit root (lost_run @ map GWorker [0..<n] @ [GCoord]) (walk_init n dirChCap v) = Some (?t\<lparr>wa_coord := CDone\<rparr>)"
    by (simp only: walk_run_append lost_run_state option.case walk_run.simps walk_act.simps)
  then show ?thesis by (intro exI conjI) (assumption, simp_all add: walk_init_def)
qed

text \<open>The test of \<^verbatim>\<open>stopFeeder\<close> and the call of \<^verbatim>\<open>DequeueWait\<close> are separate: when the coordinator
  stops the walk and broadcasts between them, the feeder goes to sleep afterwards with the new epoch and is never
  woken.  Every directory has been processed, nothing was cancelled, and no goroutine can take a step: the
  result channels are never closed.\<close>

theorem walk_feeder_hangs:
  "\<exists>as s. walk_run (\<lambda>w v. (v, [])) root as (walk_init (Suc m) (Suc c) v) = Some s \<and> wa_processed s = [root] \<and>
     \<not> wa_cancelled s \<and> wa_coord s \<noteq> CDone \<and>
     (\<forall>b i. feeder_step b s = None \<and> worker_step (\<lambda>w v. (v, [])) i s = None \<and> coord_step root s = None)"
proof -
  let ?as = "GCoord # replicate 8 (GFeeder False) @ replicate 5 (GWorker 0) @ replicate 12 GCoord @ [GFeeder False]"
  let ?s = "(walk_init (Suc m) (Suc c) v)\<lparr>wa_scheduled := {#root#}, wa_processed := [root], wa_epoch := 1,
       wa_feeder := FSleep 1 False, wa_stopFeeder := True, wa_coord := CFeederWait\<rparr>"
  have "walk_run (\<lambda>w v. (v, [])) root ?as (walk_init (Suc m) (Suc c) v) = Some ?s"
    by (simp add: walk_eval numeral_eq_Suc)
  moreover have "feeder_step b ?s = None" "coord_step root ?s = None" for b
    by (simp_all add: walk_eval)
  moreover have "worker_step (\<lambda>w v. (v, [])) i ?s = None" for i
    by (simp add: walk_eval nth_Cons del: replicate.simps split: nat.split)
  ultimately show ?thesis by (intro exI [of _ ?as] exI [of _ ?s]) (simp add: walk_init_def)
qed

definition two_kids :: "nat \<Rightarrow> nat list" where
  "two_kids w = (if w = 0 then [1, 2] else [])"

definition full_run :: "walk_action list" where
  "full_run = GCoord # replicate 8 (GFeeder False) @ replicate 11 (GWorker 0) @
     replicate 14 (GFeeder False) @ concat (replicate 2 (replicate 5 (GWorker 0))) @ replicate 11 GCoord @
     GFeeder False # GCoord # GFeeder False # replicate 4 GCoord @ [GWorker 0, GCoord]"

theorem walk_complete_witness:
  "\<exists>s. walk_run (\<lambda>w v. (v, two_kids w)) 0 full_run (walk_init 1 4 ()) = Some s \<and> 2 \<in> set (wa_processed s)"
proof -
  obtain s where s: "walk_run (\<lambda>w v. (v, two_kids w)) 0 full_run (walk_init 1 4 ()) = Some s"
    "wa_coord s = CDone" "\<not> wa_cancelled s" "wa_dropped s = []" "wa_queue s = []"
    by (simp add: full_run_def walk_eval two_kids_def numeral_eq_Suc)
  have "below two_kids 0 2" by (rule below.kid [OF below.here]) (simp add: two_kids_def)
  with walk_complete [OF s, of two_kids 2] s(1) show ?thesis by auto
qed

theorem walk_ends_clean_witness:
  "\<exists>s. walk_run (\<lambda>w v. (v, two_kids w)) 0 full_run (walk_init 1 4 ()) = Some s \<and> wa_coord s = CDone \<and>
     wa_scheduled s = mset (wa_processed s)"
proof -
  obtain s where s: "walk_run (\<lambda>w v. (v, two_kids w)) 0 full_run (walk_init 1 4 ()) = Some s"
    "wa_coord s = CDone" "wa_dropped s = []" "wa_queue s = []"
    by (simp add: full_run_def walk_eval two_kids_def numeral_eq_Suc)
  with walk_ends_clean [OF s(1)] show ?thesis by auto
qed

end
