(* ===== verification/Walk_Dir.thy ===== *)
theory Walk_Dir
  imports Go_Text
begin

text \<open>
  One directory of a walk (\<^verbatim>\<open>internal/parallelwalkdir\<close>): the FNV-1a hash of paths, the filters, and
  \<^verbatim>\<open>processDir\<close> with its symlink-loop guard.  The operating system answers by the functions of
  \<^term>\<open>fs_env\<close>; a directory is read in one piece, as the loop that grows the buffers does, and the limit on
  reported files (benchmarks only) and cancellation are left out here.
\<close>

section \<open>Path hashes\<close>

record path_hash =
  ph_Hi :: "64 word"
  ph_Lo :: "64 word"

definition offset128Higher :: "64 word" where "offset128Higher = 0x6c62272e07bb0142"
definition offset128Lower :: "64 word" where "offset128Lower = 0x62b821756295c58d"
definition prime128Lower :: "64 word" where "prime128Lower = 0x13b"
definition prime128Shift :: nat where "prime128Shift = 24"

text \<open>\<^verbatim>\<open>bits.Mul64\<close>: the high and the low word of the full product.\<close>

definition Mul64 :: "64 word \<Rightarrow> 64 word \<Rightarrow> 64 word \<times> 64 word" where
  "Mul64 x y = (word_of_nat (unat x * unat y div 2 ^ 64), x * y)"

definition hash_byte :: "char \<Rightarrow> path_hash \<Rightarrow> path_hash" where
  "hash_byte c h = (let s1 = ph_Lo h XOR of_char c; (m0, m1) = Mul64 prime128Lower s1;
     s0 = m0 + (push_bit prime128Shift s1 + prime128Lower * ph_Hi h)
     in \<lparr>ph_Hi = s0, ph_Lo = m1\<rparr>)"

definition HashPathBytes :: "string \<Rightarrow> path_hash" where
  "HashPathBytes path = fold hash_byte path \<lparr>ph_Hi = offset128Higher, ph_Lo = offset128Lower\<rparr>"

section \<open>Names and suffixes\<close>

fun hasASCIISuffixFold_at :: "string \<Rightarrow> string \<Rightarrow> bool" where
  "hasASCIISuffixFold_at [] [] = True"
| "hasASCIISuffixFold_at (a # as) (b # bs) = (to_lower a = b \<and> hasASCIISuffixFold_at as bs)"
| "hasASCIISuffixFold_at _ _ = False"

definition hasASCIISuffixFoldBytes :: "string \<Rightarrow> string \<Rightarrow> bool" where
  "hasASCIISuffixFoldBytes name suffix =
     (if suffix = [] \<or> length name < length suffix then False
      else hasASCIISuffixFold_at (drop (length name - length suffix) name) suffix)"

definition matchBasenameWithSuffixes :: "string \<Rightarrow> string list \<Rightarrow> bool" where
  "matchBasenameWithSuffixes name suffixes = list_ex (hasASCIISuffixFoldBytes name) suffixes"

definition basenameInBuf :: "string \<Rightarrow> string" where
  "basenameInBuf path = rev (takeWhile (\<lambda>c. c \<noteq> CHR ''/'') (rev path))"

text \<open>The buffers for paths have 64 KiB.\<close>

definition initialReadDirNameBytes :: nat where "initialReadDirNameBytes = 65536"

definition writePathBytes :: "string \<Rightarrow> bool" where
  "writePathBytes path \<longleftrightarrow> path \<noteq> [] \<and> length path < initialReadDirNameBytes"

definition appendPathSegment :: "string \<Rightarrow> string \<Rightarrow> string option" where
  "appendPathSegment base name =
     (if name = [] then Some base
      else if length base + 1 + length name > initialReadDirNameBytes then None
      else Some (base @ CHR ''/'' # name))"

section \<open>The walker\<close>

record file_info =
  fi_isDir :: bool
  fi_symlink :: bool
  fi_size :: int
  fi_mtime :: int

datatype entry_type = EDir | ESymlink | EFile

record fs_env =
  fe_lstat :: "string \<Rightarrow> file_info option"
  fe_stat :: "string \<Rightarrow> file_info option"
  fe_evalSymlinks :: "string \<Rightarrow> string option"
  fe_readDir :: "string \<Rightarrow> (string \<times> entry_type) list option"
  fe_info :: "string \<Rightarrow> string \<Rightarrow> file_info option"

record dirent_state =
  ds_InvalidPathValid :: bool
  ds_InvalidMtime :: int
  ds_InvalidSize :: int
  ds_FileIDValid :: bool
  ds_FileMtime :: "int option"
  ds_FileSize :: "int option"
  ds_FileMD5Valid :: bool

text \<open>The options of a walker; the catalogue may fail to load, and its check may fail.\<close>

record walker =
  wl_includeRegex :: "(string \<Rightarrow> bool) option"
  wl_basenameInclude :: "(string \<Rightarrow> bool) option"
  wl_excludeRegex :: "(string \<Rightarrow> bool) option"
  wl_sizeNotZero :: bool
  wl_validationFunc :: "(string \<Rightarrow> file_info option \<Rightarrow> bool) option"
  wl_getDirEntMap :: "(string \<Rightarrow> (path_hash \<rightharpoonup> dirent_state) option) option"
  wl_checkIfFileModified :: "(string \<Rightarrow> file_info \<Rightarrow> dirent_state option \<Rightarrow> bool option) option"

definition NewWalker :: "walker \<Rightarrow> walker option" where
  "NewWalker w =
     (if wl_validationFunc w \<noteq> None \<and> (wl_includeRegex w \<noteq> None \<or> wl_basenameInclude w \<noteq> None \<or> wl_sizeNotZero w) then None
      else if wl_includeRegex w \<noteq> None \<and> wl_basenameInclude w \<noteq> None then None
      else if (wl_getDirEntMap w \<noteq> None) \<noteq> (wl_checkIfFileModified w \<noteq> None) then None
      else if wl_getDirEntMap w \<noteq> None \<and> (wl_includeRegex w \<noteq> None \<or> wl_validationFunc w \<noteq> None \<or>
        wl_basenameInclude w = None \<or> \<not> wl_sizeNotZero w) then None
      else Some w)"

definition usesIncludeFilter :: "walker \<Rightarrow> bool" where
  "usesIncludeFilter w \<longleftrightarrow> wl_includeRegex w \<noteq> None \<or> wl_basenameInclude w \<noteq> None"

definition includeBasenameMatchesBytes :: "walker \<Rightarrow> string \<Rightarrow> bool" where
  "includeBasenameMatchesBytes w name = (case wl_basenameInclude w of
       Some f \<Rightarrow> f name
     | None \<Rightarrow> (case wl_includeRegex w of None \<Rightarrow> True | Some f \<Rightarrow> f name))"

datatype walk_event = Reported string int int | WalkErr string string | NilInfo

definition sendReported :: "string \<Rightarrow> file_info option \<Rightarrow> walk_event list" where
  "sendReported path info = (case info of None \<Rightarrow> [NilInfo] | Some i \<Rightarrow> [Reported path (fi_mtime i) (fi_size i)])"

definition filterAndReportFile ::
  "walker \<Rightarrow> string \<Rightarrow> file_info option \<Rightarrow> bool \<Rightarrow> (path_hash \<rightharpoonup> dirent_state) \<Rightarrow> string \<Rightarrow> walk_event list" where
  "filterAndReportFile w path info includeMatched entMap catalogBasename = (case wl_validationFunc w of
       Some vf \<Rightarrow> if vf path info then sendReported path info else []
     | None \<Rightarrow>
         if \<not> includeMatched \<and> usesIncludeFilter w \<and> \<not> includeBasenameMatchesBytes w (basenameInBuf path) then []
         else (case info of
             None \<Rightarrow> []
           | Some i \<Rightarrow>
               if wl_sizeNotZero w \<and> fi_size i = 0 then []
               else (case wl_checkIfFileModified w of
                   None \<Rightarrow> sendReported path info
                 | Some check \<Rightarrow> (case check catalogBasename i (entMap (HashPathBytes catalogBasename)) of
                     None \<Rightarrow> [WalkErr ''CheckIfFileModified'' path]
                   | Some modified \<Rightarrow> if modified then sendReported path info else []))))"

record dir_work =
  dw_current :: string
  dw_reported :: string
  dw_visitKey :: path_hash

definition dirWorkFromBufs :: "string \<Rightarrow> string \<Rightarrow> dir_work" where
  "dirWorkFromBufs current reported = \<lparr>dw_current = current, dw_reported = reported, dw_visitKey = HashPathBytes current\<rparr>"

definition evalDirRealPath :: "fs_env \<Rightarrow> dir_work \<Rightarrow> (path_hash \<times> bool) option" where
  "evalDirRealPath fs work =
     (let canonical = (case fe_evalSymlinks fs (dw_current work) of
            None \<Rightarrow> None | Some c \<Rightarrow> Some (HashPathBytes c, dw_current work \<noteq> c)) in
      if dw_current work \<noteq> dw_reported work then canonical
      else (case fe_lstat fs (dw_current work) of
          Some info \<Rightarrow> if \<not> fi_symlink info then Some (dw_visitKey work, False) else canonical
        | None \<Rightarrow> canonical))"

definition excluded :: "walker \<Rightarrow> string \<Rightarrow> bool" where
  "excluded w path = (case wl_excludeRegex w of None \<Rightarrow> False | Some f \<Rightarrow> f path)"

definition process_entry ::
  "fs_env \<Rightarrow> walker \<Rightarrow> dir_work \<Rightarrow> (path_hash \<rightharpoonup> dirent_state) \<Rightarrow> string \<times> entry_type \<Rightarrow> walk_event list \<times> dir_work list" where
  "process_entry fs w work entMap e = (case e of (name, type) \<Rightarrow>
     (case appendPathSegment (dw_current work) name of
        None \<Rightarrow> ([WalkErr ''Stat'' []], [])
      | Some path \<Rightarrow>
          (case (if dw_current work \<noteq> dw_reported work then appendPathSegment (dw_reported work) name else Some path) of
             None \<Rightarrow> ([WalkErr ''Stat'' path], [])
           | Some reported \<Rightarrow>
               if excluded w reported then ([], [])
               else if type = ESymlink then
                 (case fe_stat fs path of
                    Some info \<Rightarrow> if fi_isDir info then ([], [dirWorkFromBufs path reported])
                               else (filterAndReportFile w reported (Some info) False entMap name, [])
                  | None \<Rightarrow> (filterAndReportFile w reported None False entMap name, []))
               else if type = EDir then ([], [dirWorkFromBufs path reported])
               else if usesIncludeFilter w \<and> \<not> includeBasenameMatchesBytes w name then ([], [])
               else (case fe_info fs (dw_current work) name of
                   None \<Rightarrow> ([WalkErr ''Stat'' path], [])
                 | Some info \<Rightarrow> (filterAndReportFile w reported (Some info) True entMap name, [])))))"

text \<open>A catalogue exists only together with its check.\<close>

definition load_catalog :: "walker \<Rightarrow> string \<Rightarrow> (path_hash \<rightharpoonup> dirent_state) option" where
  "load_catalog w dir = (case wl_getDirEntMap w of None \<Rightarrow> Some Map.empty | Some f \<Rightarrow> f dir)"

definition read_entries ::
  "fs_env \<Rightarrow> walker \<Rightarrow> dir_work \<Rightarrow> (path_hash \<rightharpoonup> dirent_state) \<Rightarrow> walk_event list \<times> dir_work list" where
  "read_entries fs w work entMap = (case fe_readDir fs (dw_current work) of
       None \<Rightarrow> (case fe_lstat fs (dw_current work) of
           Some info \<Rightarrow> if \<not> fi_isDir info
             then (filterAndReportFile w (dw_reported work) (Some info) False entMap (basenameInBuf (dw_reported work)), [])
             else ([WalkErr ''ReadDir'' (dw_current work)], [])
         | None \<Rightarrow> ([WalkErr ''ReadDir'' (dw_current work)], []))
     | Some entries \<Rightarrow> (let rs = map (process_entry fs w work entMap) entries in (concat (map fst rs), concat (map snd rs))))"

definition processDir ::
  "fs_env \<Rightarrow> walker \<Rightarrow> dir_work \<Rightarrow> path_hash set \<Rightarrow> path_hash set \<times> walk_event list \<times> dir_work list" where
  "processDir fs w work visited =
     (if \<not> writePathBytes (dw_current work) \<or> \<not> writePathBytes (dw_reported work)
      then (visited, [WalkErr ''ReadDir'' (dw_current work)], [])
      else (case evalDirRealPath fs work of
          None \<Rightarrow> (visited, [WalkErr ''EvalSymlinks'' (dw_current work)], [])
        | Some (visitHash, loopGuard) \<Rightarrow>
            if loopGuard \<and> visitHash \<in> visited then (visited, [], [])
            else let visited' = insert visitHash visited in
              if excluded w (dw_reported work) then (visited', [], [])
              else (case load_catalog w (dw_reported work) of
                  None \<Rightarrow> (visited', [WalkErr ''Catalog'' (dw_reported work)], [])
                | Some entMap \<Rightarrow> (case read_entries fs w work entMap of (evs, ws) \<Rightarrow> (visited', evs, ws)))))"

section \<open>The hash is FNV-1a\<close>

definition ph_val :: "path_hash \<Rightarrow> nat" where
  "ph_val h = unat (ph_Hi h) * 2 ^ 64 + unat (ph_Lo h)"

definition fnv_prime :: nat where "fnv_prime = 2 ^ 88 + 0x13b"
definition fnv_offset :: nat where "fnv_offset = 0x6c62272e07bb014262b821756295c58d"

definition fnv1a_128 :: "string \<Rightarrow> nat" where
  "fnv1a_128 path = foldl (\<lambda>h c. ((h XOR of_char c) * fnv_prime) mod 2 ^ 128) fnv_offset path"

lemma char_less: "of_char c < (256::nat)"
  by (metis mod_less_divisor of_char_mod_256 zero_less_numeral)

lemma bit_halves:
  assumes "lo < 2 ^ 64" shows "bit (hi * 2 ^ 64 + lo :: nat) n \<longleftrightarrow> (if n < 64 then bit lo n else bit hi (n - 64))"
proof (cases "n < 64")
  case True
  have "take_bit 64 (hi * 2 ^ 64 + lo) = lo" using assms by (simp add: take_bit_eq_mod)
  then show ?thesis using True by (metis bit_take_bit_iff)
next
  case False
  have "drop_bit 64 (hi * 2 ^ 64 + lo) = hi" using assms by (simp add: drop_bit_eq_div)
  then have "bit (hi * 2 ^ 64 + lo) (64 + (n - 64)) \<longleftrightarrow> bit hi (n - 64)" by (metis bit_drop_bit_eq comp_apply)
  then show ?thesis using False by simp
qed

lemma xor_low:
  assumes "lo < 2 ^ 64" "c < 2 ^ 64" shows "(hi * 2 ^ 64 + lo) XOR c = hi * 2 ^ 64 + (lo XOR c :: nat)"
proof (rule bit_eqI)
  fix n
  have "take_bit 64 lo = lo" "take_bit 64 c = c" using assms by (simp_all add: take_bit_nat_eq_self)
  then have lt: "lo XOR c < 2 ^ 64" by (metis take_bit_xor take_bit_nat_less_exp)
  have "\<not> bit c n" if "\<not> n < 64" using assms(2) that by (metis bit_take_bit_iff take_bit_nat_eq_self)
  then show "bit ((hi * 2 ^ 64 + lo) XOR c) n \<longleftrightarrow> bit (hi * 2 ^ 64 + (lo XOR c)) n"
    unfolding bit_xor_iff bit_halves [OF assms(1)] bit_halves [OF lt] by auto
qed

lemma two_digits: "a < M \<Longrightarrow> b < M \<Longrightarrow> a * M + b < M * (M::nat)"
proof -
  assume ab: "a < M" "b < M"
  have "a * M + b < (a + 1) * M" using ab(2) by simp
  also have "\<dots> \<le> M * M" using ab(1) by (intro mult_le_mono1) simp
  finally show ?thesis .
qed

lemma mul_halves_gen:
  fixes M :: nat
  assumes "0 < M"
  shows "((hi * M + l) * (k * M + p)) mod (M * M) = ((l * p div M + l * k + p * hi) mod M) * M + l * p mod M"
proof -
  define s where "s = l * p div M + l * k + p * hi"
  have lp: "l * p = (l * p div M) * M + l * p mod M" by simp
  have "(hi * M + l) * (k * M + p) = hi * k * (M * M) + ((l * k + p * hi) * M + l * p)"
    by (simp add: algebra_simps)
  also have "(l * k + p * hi) * M + l * p = (l * k + p * hi) * M + ((l * p div M) * M + l * p mod M)"
    by (simp only: lp [symmetric])
  also have "\<dots> = s * M + l * p mod M" by (simp add: s_def algebra_simps)
  also have "s * M + l * p mod M = ((s div M) * M + s mod M) * M + l * p mod M" by simp
  also have "\<dots> = (s div M) * (M * M) + ((s mod M) * M + l * p mod M)" by (simp only: add_mult_distrib mult.assoc add.assoc)
  finally have eq: "(hi * M + l) * (k * M + p) = hi * k * (M * M) + ((s div M) * (M * M) + ((s mod M) * M + l * p mod M))" .
  have "(s mod M) * M + l * p mod M < M * M" using assms by (intro two_digits) simp_all
  then show ?thesis unfolding eq s_def [symmetric] by (simp only: mod_mult_self3 mod_less)
qed

lemma mul_halves:
  "((hi * 2 ^ 64 + l) * (2 ^ 88 + 0x13b)) mod 2 ^ 128 =
    ((l * 0x13b div 2 ^ 64 + l * 2 ^ 24 + 0x13b * hi) mod 2 ^ 64) * 2 ^ 64 + l * 0x13b mod (2 ^ 64 :: nat)"
  using mul_halves_gen [of "2 ^ 64" hi l "2 ^ 24" "0x13b"] by simp

lemma unat_s0:
  "unat (word_of_nat a + (push_bit 24 (word_of_nat l) + word_of_nat p * word_of_nat hi) :: 64 word) =
     (a + l * 2 ^ 24 + p * hi) mod 2 ^ 64"
proof -
  have "word_of_nat a + (push_bit 24 (word_of_nat l) + word_of_nat p * word_of_nat hi) =
      (word_of_nat (a + l * 2 ^ 24 + p * hi) :: 64 word)"
    by (simp add: push_bit_eq_mult)
  moreover have "unat (word_of_nat n :: 64 word) = n mod 2 ^ 64" for n by (simp add: unat_of_nat)
  ultimately show ?thesis by presburger
qed

lemma hash_byte_val: "ph_val (hash_byte c h) = ((ph_val h XOR of_char c) * fnv_prime) mod 2 ^ 128"
proof -
  let ?l = "ph_Lo h XOR of_char c"
  have c: "of_char c < (2 ^ 64 :: nat)" by (rule less_trans [OF char_less]) simp
  have lo: "unat (ph_Lo h) < 2 ^ 64" using unsigned_less [of "ph_Lo h"] by simp
  have "(of_char c :: 64 word) = word_of_nat (of_char c)" by (simp only: of_nat_of_char)
  moreover have "unat (word_of_nat (of_char c) :: 64 word) = of_char c mod 2 ^ 64" by (simp add: unat_of_nat)
  ultimately have "unat (of_char c :: 64 word) = of_char c" using c by (simp only: mod_less)
  then have l: "unat ?l = unat (ph_Lo h) XOR of_char c" by (simp add: unsigned_xor_eq)
  have p: "unat prime128Lower = 0x13b" by (simp add: prime128Lower_def)
  have "unat (ph_Lo (hash_byte c h)) = unat ?l * 0x13b mod 2 ^ 64"
    using p by (simp add: hash_byte_def Mul64_def Let_def unat_word_ariths mult.commute)
  moreover have "unat (ph_Hi (hash_byte c h)) = (unat ?l * 0x13b div 2 ^ 64 + unat ?l * 2 ^ 24 + 0x13b * unat (ph_Hi h)) mod 2 ^ 64"
    using p unat_s0 [of "unat ?l * 0x13b div 2 ^ 64" "unat ?l" "0x13b" "unat (ph_Hi h)"]
    by (simp add: hash_byte_def Mul64_def Let_def prime128Shift_def mult.commute prime128Lower_def)
  ultimately have "ph_val (hash_byte c h) = ((unat (ph_Hi h) * 2 ^ 64 + unat ?l) * (2 ^ 88 + 0x13b)) mod 2 ^ 128"
    by (simp only: ph_val_def mul_halves)
  moreover have "ph_val h XOR of_char c = unat (ph_Hi h) * 2 ^ 64 + unat ?l"
    unfolding ph_val_def l by (rule xor_low [OF lo c])
  ultimately show ?thesis by (simp only: fnv_prime_def)
qed

text \<open>The hash of the walker, computed on two 64-bit words with carries lost on purpose, is the 128-bit FNV-1a
  hash of the path: its value is that of the reference computation on integers modulo 2 to the 128.\<close>

theorem path_hash_is_fnv1a:
  "ph_val (HashPathBytes path) = fnv1a_128 path"
proof -
  have "ph_val (fold hash_byte path h) = foldl (\<lambda>h c. ((h XOR of_char c) * fnv_prime) mod 2 ^ 128) (ph_val h) path" for h
    by (induction path arbitrary: h) (simp_all only: fold_simps foldl.simps hash_byte_val)
  moreover have "ph_val \<lparr>ph_Hi = offset128Higher, ph_Lo = offset128Lower\<rparr> = fnv_offset"
    by (simp add: ph_val_def offset128Higher_def offset128Lower_def fnv_offset_def)
  ultimately show ?thesis by (simp only: HashPathBytes_def fnv1a_128_def)
qed

section \<open>The loop guard\<close>

definition readable_paths :: "dir_work \<Rightarrow> bool" where
  "readable_paths work \<longleftrightarrow> writePathBytes (dw_current work) \<and> writePathBytes (dw_reported work)"

text \<open>The canonical hashes of the directories reached under another name whose entries are read, in the order
  in which the workers take the lock.\<close>

fun guarded_hashes :: "fs_env \<Rightarrow> walker \<Rightarrow> dir_work list \<Rightarrow> path_hash set \<Rightarrow> path_hash list" where
  "guarded_hashes fs w [] visited = []"
| "guarded_hashes fs w (work # works) visited =
     (case evalDirRealPath fs work of
        Some (h, True) \<Rightarrow> if readable_paths work \<and> h \<notin> visited then [h] else []
      | _ \<Rightarrow> []) @ guarded_hashes fs w works (fst (processDir fs w work visited))"

lemma processDir_visited:
  "fst (processDir fs w work visited) = (case evalDirRealPath fs work of
     None \<Rightarrow> visited | Some (h, g) \<Rightarrow> if readable_paths work then insert h visited else visited)"
  by (auto simp: processDir_def readable_paths_def Let_def split: option.split prod.split)

text \<open>In whatever order the directories of a walk are processed, directories reached under another name than
  their canonical one (through symbolic links) are read at most once for each canonical path, and not at all when that
  path was visited before: links that form cycles cannot keep a walk going.\<close>

theorem walk_symlinks_once:
  "distinct (guarded_hashes fs w works visited) \<and> set (guarded_hashes fs w works visited) \<inter> visited = {}"
proof (induction works arbitrary: visited)
  case (Cons work works)
  let ?v = "fst (processDir fs w work visited)"
  have IH: "distinct (guarded_hashes fs w works ?v)" "set (guarded_hashes fs w works ?v) \<inter> ?v = {}"
    using Cons.IH [of ?v] by blast+
  moreover have "visited \<subseteq> ?v" by (auto simp: processDir_visited split: option.split)
  moreover have "h \<in> ?v" if "evalDirRealPath fs work = Some (h, True)" "readable_paths work" for h
    using that by (simp add: processDir_visited)
  moreover obtain xs where xs: "guarded_hashes fs w (work # works) visited = xs @ guarded_hashes fs w works ?v"
    "xs = [] \<or> (\<exists>h. xs = [h] \<and> evalDirRealPath fs work = Some (h, True) \<and> readable_paths work \<and> h \<notin> visited)"
    by (cases "evalDirRealPath fs work") (auto split: bool.splits)
  ultimately show ?case unfolding xs(1) by auto
qed simp

section \<open>What is reported\<close>

definition discovery_walker ::
  "string list \<Rightarrow> (string \<Rightarrow> (path_hash \<rightharpoonup> dirent_state) option) \<Rightarrow>
     (string \<Rightarrow> file_info \<Rightarrow> dirent_state option \<Rightarrow> bool option) \<Rightarrow> walker" where
  "discovery_walker suffixes getMap check = \<lparr>wl_includeRegex = None,
     wl_basenameInclude = Some (\<lambda>n. matchBasenameWithSuffixes n suffixes), wl_excludeRegex = None,
     wl_sizeNotZero = True, wl_validationFunc = None, wl_getDirEntMap = Some getMap, wl_checkIfFileModified = Some check\<rparr>"

lemma suffix_at: "length a = length b \<Longrightarrow> hasASCIISuffixFold_at a b \<longleftrightarrow> map to_lower a = b"
  by (induction a b rule: hasASCIISuffixFold_at.induct) auto

lemma hasASCIISuffixFold_iff:
  "hasASCIISuffixFoldBytes name suf \<longleftrightarrow> suf \<noteq> [] \<and> HasSuffix (ToLower name) suf"
  by (auto simp: hasASCIISuffixFoldBytes_def HasSuffix_def ToLower_def suffix_at drop_map)

text \<open>The file that an entry of a directory is, if it is one: for a symbolic link its target.\<close>

definition entry_file :: "fs_env \<Rightarrow> string \<Rightarrow> string \<times> entry_type \<Rightarrow> file_info option" where
  "entry_file fs dir e = (case e of (name, type) \<Rightarrow>
     (case type of
        EDir \<Rightarrow> None
      | EFile \<Rightarrow> fe_info fs dir name
      | ESymlink \<Rightarrow> (case fe_stat fs (dir @ CHR ''/'' # name) of
            None \<Rightarrow> None | Some i \<Rightarrow> if fi_isDir i then None else Some i)))"

definition entry_is_dir :: "fs_env \<Rightarrow> string \<Rightarrow> string \<times> entry_type \<Rightarrow> bool" where
  "entry_is_dir fs dir e = (case e of (name, type) \<Rightarrow> type = EDir \<or>
     (type = ESymlink \<and> (\<exists>i. fe_stat fs (dir @ CHR ''/'' # name) = Some i \<and> fi_isDir i)))"

definition wanted ::
  "string list \<Rightarrow> (string \<Rightarrow> file_info \<Rightarrow> dirent_state option \<Rightarrow> bool option) \<Rightarrow> (path_hash \<rightharpoonup> dirent_state) \<Rightarrow> string \<Rightarrow> file_info \<Rightarrow> bool" where
  "wanted suffixes check entMap name i \<longleftrightarrow> (\<exists>suf \<in> set suffixes. suf \<noteq> [] \<and> HasSuffix (ToLower name) suf) \<and>
     fi_size i \<noteq> 0 \<and> check name i (entMap (HashPathBytes name)) = Some True"

lemma matchBasename_iff:
  "matchBasenameWithSuffixes name suffixes \<longleftrightarrow> (\<exists>suf \<in> set suffixes. suf \<noteq> [] \<and> HasSuffix (ToLower name) suf)"
  by (auto simp: matchBasenameWithSuffixes_def list_ex_iff hasASCIISuffixFold_iff)

lemma basename_of_path: "CHR ''/'' \<notin> set name \<Longrightarrow> basenameInBuf (dir @ CHR ''/'' # name) = name"
proof -
  assume "CHR ''/'' \<notin> set name"
  then have "takeWhile (\<lambda>c. c \<noteq> CHR ''/'') (rev name @ CHR ''/'' # rev dir) = rev name"
    by (subst takeWhile_append2) auto
  then show ?thesis by (simp add: basenameInBuf_def)
qed

lemma process_entry_discovery:
  assumes "name \<noteq> []" "length dir + 1 + length name \<le> initialReadDirNameBytes" "CHR ''/'' \<notin> set name"
    "dw_current work = dir" "dw_reported work = dir"
  shows "process_entry fs (discovery_walker suffixes getMap check) work entMap (name, ty) =
    (if entry_is_dir fs dir (name, ty) then ([], [dirWorkFromBufs (dir @ CHR ''/'' # name) (dir @ CHR ''/'' # name)])
     else (case entry_file fs dir (name, ty) of
         None \<Rightarrow> (if ty = EFile \<and> matchBasenameWithSuffixes name suffixes then [WalkErr ''Stat'' (dir @ CHR ''/'' # name)] else [], [])
       | Some i \<Rightarrow> (if \<not> matchBasenameWithSuffixes name suffixes \<or> fi_size i = 0 then []
            else (case check name i (entMap (HashPathBytes name)) of
                None \<Rightarrow> [WalkErr ''CheckIfFileModified'' (dir @ CHR ''/'' # name)]
              | Some m \<Rightarrow> if m then [Reported (dir @ CHR ''/'' # name) (fi_mtime i) (fi_size i)] else []), [])))"
  using assms basename_of_path [OF assms(3), of dir]
  by (cases ty) (auto simp: process_entry_def appendPathSegment_def discovery_walker_def excluded_def entry_is_dir_def
      entry_file_def filterAndReportFile_def usesIncludeFilter_def includeBasenameMatchesBytes_def sendReported_def
      split: option.splits)

text \<open>C19: Of a directory that discovery reads, exactly those files (also behind symbolic links) are reported whose names
  end in one of the image suffixes in any case, that are not empty, and that the catalogue says were modified,
  with the size and time of their data; exactly the directories (also behind links) are scheduled;
  and no missing file information is ever dereferenced.\<close>

theorem walk_dir_reports:
  assumes "processDir fs (discovery_walker suffixes getMap check) work visited = (v, evs, ws)"
    and "dw_current work = dir" and "dw_reported work = dir" and "writePathBytes dir"
    and "evalDirRealPath fs work = Some (h, g)" and "\<not> (g \<and> h \<in> visited)" and "getMap dir = Some entMap"
    and "fe_readDir fs dir = Some entries"
    and "\<forall>(name, ty) \<in> set entries. name \<noteq> [] \<and> length dir + 1 + length name \<le> initialReadDirNameBytes \<and> CHR ''/'' \<notin> set name"
  shows "(Reported p m n \<in> set evs \<longleftrightarrow> (\<exists>name ty i. (name, ty) \<in> set entries \<and> p = dir @ CHR ''/'' # name \<and>
      entry_file fs dir (name, ty) = Some i \<and> wanted suffixes check entMap name i \<and> m = fi_mtime i \<and> n = fi_size i)) \<and>
    set ws = {dirWorkFromBufs (dir @ CHR ''/'' # name) (dir @ CHR ''/'' # name) |name ty.
      (name, ty) \<in> set entries \<and> entry_is_dir fs dir (name, ty)} \<and> NilInfo \<notin> set evs"
proof -
  let ?w = "discovery_walker suffixes getMap check"
  let ?res = "map (process_entry fs ?w work entMap) entries"
  have res: "evs = concat (map fst ?res)" "ws = concat (map snd ?res)"
    using assms(1-8) by (auto simp: processDir_def load_catalog_def excluded_def read_entries_def discovery_walker_def Let_def
        split: if_splits)
  have pe: "process_entry fs ?w work entMap (name, ty) =
    (if entry_is_dir fs dir (name, ty) then ([], [dirWorkFromBufs (dir @ CHR ''/'' # name) (dir @ CHR ''/'' # name)])
     else (case entry_file fs dir (name, ty) of
         None \<Rightarrow> (if ty = EFile \<and> matchBasenameWithSuffixes name suffixes then [WalkErr ''Stat'' (dir @ CHR ''/'' # name)] else [], [])
       | Some i \<Rightarrow> (if \<not> matchBasenameWithSuffixes name suffixes \<or> fi_size i = 0 then []
            else (case check name i (entMap (HashPathBytes name)) of
                None \<Rightarrow> [WalkErr ''CheckIfFileModified'' (dir @ CHR ''/'' # name)]
              | Some m \<Rightarrow> if m then [Reported (dir @ CHR ''/'' # name) (fi_mtime i) (fi_size i)] else []), [])))"
    if "(name, ty) \<in> set entries" for name ty
    using assms(9) that by (intro process_entry_discovery [OF _ _ _ assms(2,3)]) auto
  have dir_file: "entry_is_dir fs dir e \<Longrightarrow> entry_file fs dir e = None" for e
    by (auto simp: entry_is_dir_def entry_file_def split: prod.splits)
  have one: "Reported p m n \<in> set (fst (process_entry fs ?w work entMap (name, ty))) \<longleftrightarrow>
      (\<exists>i. p = dir @ CHR ''/'' # name \<and> entry_file fs dir (name, ty) = Some i \<and> wanted suffixes check entMap name i \<and>
        m = fi_mtime i \<and> n = fi_size i)" "NilInfo \<notin> set (fst (process_entry fs ?w work entMap (name, ty)))"
    "set (snd (process_entry fs ?w work entMap (name, ty))) =
      (if entry_is_dir fs dir (name, ty) then {dirWorkFromBufs (dir @ CHR ''/'' # name) (dir @ CHR ''/'' # name)} else {})"
    if "(name, ty) \<in> set entries" for name ty
    using pe [OF that] dir_file [of "(name, ty)"] by (auto simp: wanted_def matchBasename_iff split: option.splits)
  have "Reported p m n \<in> set evs \<longleftrightarrow>
      (\<exists>name ty. (name, ty) \<in> set entries \<and> Reported p m n \<in> set (fst (process_entry fs ?w work entMap (name, ty))))"
    unfolding res by auto
  also have "\<dots> \<longleftrightarrow> (\<exists>name ty i. (name, ty) \<in> set entries \<and> p = dir @ CHR ''/'' # name \<and>
      entry_file fs dir (name, ty) = Some i \<and> wanted suffixes check entMap name i \<and> m = fi_mtime i \<and> n = fi_size i)"
    using one(1) by blast
  finally have reports: "Reported p m n \<in> set evs \<longleftrightarrow> (\<exists>name ty i. (name, ty) \<in> set entries \<and> p = dir @ CHR ''/'' # name \<and>
      entry_file fs dir (name, ty) = Some i \<and> wanted suffixes check entMap name i \<and> m = fi_mtime i \<and> n = fi_size i)" .
  have no_nil: "NilInfo \<notin> set evs" unfolding res using one(2) by auto
  have "x \<in> set ws \<longleftrightarrow> (\<exists>name ty. (name, ty) \<in> set entries \<and> x \<in> set (snd (process_entry fs ?w work entMap (name, ty))))" for x
    unfolding res by auto
  also have "\<dots> x \<longleftrightarrow> (\<exists>name ty. (name, ty) \<in> set entries \<and> entry_is_dir fs dir (name, ty) \<and>
      x = dirWorkFromBufs (dir @ CHR ''/'' # name) (dir @ CHR ''/'' # name))" for x
    using one(3) by (metis empty_iff singleton_iff)
  finally have "set ws = {dirWorkFromBufs (dir @ CHR ''/'' # name) (dir @ CHR ''/'' # name) |name ty.
      (name, ty) \<in> set entries \<and> entry_is_dir fs dir (name, ty)}" by blast
  with reports no_nil show ?thesis by blast
qed

definition sample_fs :: fs_env where
  "sample_fs = \<lparr>fe_lstat = (\<lambda>_. Some \<lparr>fi_isDir = True, fi_symlink = False, fi_size = 0, fi_mtime = 0\<rparr>), fe_stat = (\<lambda>_. None),
     fe_evalSymlinks = (\<lambda>_. None), fe_readDir = (\<lambda>_. Some [(''A.JPG'', EFile), (''b'', EDir)]),
     fe_info = (\<lambda>_ _. Some \<lparr>fi_isDir = False, fi_symlink = False, fi_size = 7, fi_mtime = 5\<rparr>)\<rparr>"

theorem walk_dir_reports_witness:
  "\<exists>evs ws. snd (processDir sample_fs (discovery_walker [''.jpg''] (\<lambda>_. Some Map.empty) (\<lambda>_ _ _. Some True))
      (dirWorkFromBufs ''/r'' ''/r'') {}) = (evs, ws) \<and> Reported ''/r/A.JPG'' 5 7 \<in> set evs \<and>
    set ws = {dirWorkFromBufs ''/r/b'' ''/r/b''}"
proof -
  let ?work = "dirWorkFromBufs ''/r'' ''/r''" and ?check = "\<lambda>_ _ _. Some True"
  let ?w = "discovery_walker [''.jpg''] (\<lambda>_. Some Map.empty) ?check"
  obtain v evs ws where p: "processDir sample_fs ?w ?work {} = (v, evs, ws)" by (metis prod_cases3)
  have d: "dw_current ?work = ''/r''" "dw_reported ?work = ''/r''" by (simp_all add: dirWorkFromBufs_def)
  have wp: "writePathBytes ''/r''" by (simp add: writePathBytes_def initialReadDirNameBytes_def)
  have ev: "evalDirRealPath sample_fs ?work = Some (HashPathBytes ''/r'', False)"
    by (simp add: evalDirRealPath_def sample_fs_def dirWorkFromBufs_def)
  have no: "\<not> (False \<and> HashPathBytes ''/r'' \<in> {})" by simp
  have map: "(\<lambda>_. Some Map.empty) ''/r'' = Some Map.empty" by simp
  have rd: "fe_readDir sample_fs ''/r'' = Some [(''A.JPG'', EFile), (''b'', EDir)]" by (simp add: sample_fs_def)
  have names: "\<forall>(name, ty) \<in> set [(''A.JPG'', EFile), (''b'', EDir)]. name \<noteq> [] \<and>
      length ''/r'' + 1 + length name \<le> initialReadDirNameBytes \<and> CHR ''/'' \<notin> set name"
    by (simp add: initialReadDirNameBytes_def)
  have suf: "HasSuffix (ToLower ''A.JPG'') ''.jpg''" by code_simp
  note r = walk_dir_reports [OF p d wp ev no map rd names]
  have "Reported ''/r/A.JPG'' 5 7 \<in> set evs"
    using r suf by (auto simp: entry_file_def sample_fs_def wanted_def)
  moreover have "set ws = {dirWorkFromBufs ''/r/b'' ''/r/b''}"
    using r by (auto simp: entry_is_dir_def)
  ultimately show ?thesis using p by auto
qed

end
