(* ===== verification/Go_Duration.thy ===== *)
theory Go_Duration
  imports Go_Text
begin

text \<open>
  \<^verbatim>\<open>time.Duration\<close>: \<^verbatim>\<open>String\<close> and \<^verbatim>\<open>ParseDuration\<close>, which the configuration uses to store its
  durations as text. A duration is an \<^verbatim>\<open>int64\<close> number of nanoseconds. \<^verbatim>\<open>ParseDuration\<close> multiplies
  the fraction of a unit in \<^verbatim>\<open>float64\<close>; the multiplication is modelled with its two roundings to
  53 bits. The round trip is proved for every duration.
\<close>

section \<open>float64 arithmetic on positive numbers\<close>

text \<open>A pair \<^term>\<open>(m, e)\<close> stands for the number \<^term>\<open>m * 2 ^ e\<close>. \<^term>\<open>f64 a b\<close> is the
  \<^verbatim>\<open>float64\<close> nearest to \<^term>\<open>a / b\<close>, ties to even; the numbers at hand are far from the limits of
  the exponent.\<close>

fun bit_len :: "nat \<Rightarrow> nat" where
  "bit_len n = (if n = 0 then 0 else Suc (bit_len (n div 2)))"

declare bit_len.simps [simp del]

definition div_even :: "nat \<Rightarrow> nat \<Rightarrow> nat" where
  "div_even a b = (let q = a div b; r = a mod b
     in if 2 * r < b \<or> 2 * r = b \<and> even q then q else q + 1)"

definition scaled :: "nat \<Rightarrow> nat \<Rightarrow> int \<Rightarrow> nat" where
  "scaled a b e = (if 0 \<le> e then div_even a (b * 2 ^ nat e) else div_even (a * 2 ^ nat (- e)) b)"

definition f64 :: "nat \<Rightarrow> nat \<Rightarrow> nat \<times> int" where
  "f64 a b =
     (if a = 0 then (0, 0)
      else let e0 = int (bit_len a) - int (bit_len b) - 53;
               e = (if 0 \<le> e0 \<and> b * 2 ^ nat (e0 + 53) \<le> a
                      \<or> e0 < 0 \<and> b * 2 ^ 53 \<le> a * 2 ^ nat (- e0) then e0 + 1 else e0)
           in (scaled a b e, e))"

definition f64_mul :: "nat \<times> int \<Rightarrow> nat \<times> int \<Rightarrow> nat \<times> int" where
  "f64_mul x y = (let (m, e) = x; (n, f) = y; g = e + f
     in if 0 \<le> g then f64 (m * n * 2 ^ nat g) 1 else f64 (m * n) (2 ^ nat (- g)))"

definition f64_trunc :: "nat \<times> int \<Rightarrow> nat" where
  "f64_trunc x = (let (m, e) = x in if 0 \<le> e then m * 2 ^ nat e else m div 2 ^ nat (- e))"

text \<open>\<^verbatim>\<open>uint64(float64(f) * (float64(unit) / scale))\<close>\<close>

definition frac_nanos :: "nat \<Rightarrow> nat \<Rightarrow> nat \<Rightarrow> nat" where
  "frac_nanos f unit sc = f64_trunc (f64_mul (f64 f 1) (f64 unit sc))"

definition f64_is :: "nat \<times> int \<Rightarrow> nat \<Rightarrow> bool" where
  "f64_is x n \<longleftrightarrow> (case x of (m, e) \<Rightarrow> e \<le> 0 \<and> m = n * 2 ^ nat (- e))"

lemma bit_len_bounds:
  "0 < n \<Longrightarrow> 2 ^ (bit_len n - 1) \<le> n \<and> n < 2 ^ bit_len n"
proof (induction n rule: bit_len.induct)
  case (1 n)
  show ?case
  proof (cases "n = 1")
    case True
    then show ?thesis by (simp add: bit_len.simps)
  next
    case False
    then have "0 < n div 2" using "1.prems" by simp
    then have IH: "2 ^ (bit_len (n div 2) - 1) \<le> n div 2" "n div 2 < 2 ^ bit_len (n div 2)"
      using "1.IH" "1.prems" by auto
    have "bit_len (n div 2) \<noteq> 0" using \<open>0 < n div 2\<close> by (simp add: bit_len.simps [of "n div 2"])
    then have "(2::nat) ^ bit_len (n div 2) = 2 * 2 ^ (bit_len (n div 2) - 1)"
      by (cases "bit_len (n div 2)") auto
    moreover have bl: "bit_len n = Suc (bit_len (n div 2))" using "1.prems" by (simp add: bit_len.simps [of n])
    moreover have "2 * (n div 2) \<le> n" "n < 2 * (n div 2) + 2" by linarith+
    ultimately show ?thesis using IH unfolding bl diff_Suc_1 power_Suc by linarith
  qed
qed

lemma div_even_exact: "0 < b \<Longrightarrow> div_even (n * b) b = n"
  by (simp add: div_even_def)

lemma f64_exact:
  assumes "0 < b" "n < 2 ^ 53"
  shows "f64_is (f64 (n * b) b) n"
proof (cases "n = 0")
  case True
  then show ?thesis by (simp add: f64_def f64_is_def)
next
  case False
  let ?a = "n * b"
  have a0: "0 < ?a" using False assms by simp
  define e0 where "e0 = int (bit_len ?a) - int (bit_len b) - 53"
  define e where "e = (if 0 \<le> e0 \<and> b * 2 ^ nat (e0 + 53) \<le> ?a
                      \<or> e0 < 0 \<and> b * 2 ^ 53 \<le> ?a * 2 ^ nat (- e0) then e0 + 1 else e0)"
  have f: "f64 ?a b = (scaled ?a b e, e)"
    using a0 by (simp add: f64_def e_def e0_def Let_def)
  have small: "?a < b * 2 ^ 53" using assms by (simp add: mult.commute)
  have "bit_len ?a \<le> bit_len b + 53"
  proof (rule ccontr)
    assume "\<not> ?thesis"
    then have "bit_len b + 53 \<le> bit_len ?a - 1" by simp
    then have "(2::nat) ^ (bit_len b + 53) \<le> 2 ^ (bit_len ?a - 1)" by (intro power_increasing) auto
    also have "\<dots> \<le> ?a" using bit_len_bounds [OF a0] by simp
    also have "\<dots> < b * 2 ^ 53" by (rule small)
    also have "\<dots> \<le> 2 ^ bit_len b * 2 ^ 53"
      using bit_len_bounds [OF assms(1)] by (intro mult_right_mono) auto
    finally show False by (simp add: power_add)
  qed
  then have e00: "e0 \<le> 0" by (simp add: e0_def)
  have "e \<le> 0"
  proof (cases "e0 = 0")
    case True
    with small have "e = 0" by (simp add: e_def)
    then show ?thesis by simp
  next
    case F: False
    with e00 show ?thesis by (simp add: e_def)
  qed
  have "scaled ?a b e = n * 2 ^ nat (- e)"
  proof (cases "0 \<le> e")
    case True
    with \<open>e \<le> 0\<close> have "e = 0" by simp
    then show ?thesis using div_even_exact [OF assms(1), of n] by (simp add: scaled_def)
  next
    case F: False
    have "n * b * 2 ^ nat (- e) = n * 2 ^ nat (- e) * b" by simp
    then show ?thesis using div_even_exact [OF assms(1), of "n * 2 ^ nat (- e)"] F
      by (simp only: scaled_def if_False)
  qed
  with f \<open>e \<le> 0\<close> show ?thesis by (simp add: f64_is_def)
qed

lemma f64_mul_exact:
  assumes x: "f64_is x m" and y: "f64_is y n" and mn: "m * n < 2 ^ 53"
  shows "f64_is (f64_mul x y) (m * n)"
proof -
  obtain a e where xe: "x = (a, e)" by force
  obtain b f where yf: "y = (b, f)" by force
  have e: "e \<le> 0" "a = m * 2 ^ nat (- e)" and f: "f \<le> 0" "b = n * 2 ^ nat (- f)"
    using x y by (auto simp: f64_is_def xe yf)
  have sum: "nat (- (e + f)) = nat (- e) + nat (- f)" using e(1) f(1) by simp
  have ab: "a * b = m * n * 2 ^ nat (- (e + f))"
    by (simp only: sum power_add e(2) f(2)) (simp add: ac_simps)
  show ?thesis
  proof (cases "e + f = 0")
    case True
    then have "f64_mul x y = f64 (m * n * 1) 1" using ab by (simp add: f64_mul_def xe yf)
    with f64_exact [of 1 "m * n"] mn show ?thesis by simp
  next
    case False
    with e f have neg: "\<not> 0 \<le> e + f" by simp
    have "f64_mul x y = f64 (m * n * 2 ^ nat (- (e + f))) (2 ^ nat (- (e + f)))"
      using neg by (simp only: f64_mul_def xe yf prod.case Let_def if_False ab)
    with f64_exact [of "2 ^ nat (- (e + f))" "m * n"] mn show ?thesis by simp
  qed
qed

lemma f64_trunc_exact: "f64_is x n \<Longrightarrow> f64_trunc x = n"
  by (cases x) (auto simp: f64_is_def f64_trunc_def)

lemma frac_nanos_exact:
  assumes "0 < sc" "f * k < 2 ^ 53" "0 < f" "0 < k"
  shows "frac_nanos f (k * sc) sc = f * k"
proof -
  have le: "f \<le> f * k" "k \<le> f * k" using assms(3,4) by auto
  have "f64_is (f64 (f * 1) 1) f" by (rule f64_exact) (use le assms(2) in linarith)+
  moreover have "f64_is (f64 (k * sc) sc) k" by (rule f64_exact) (use le assms(1,2) in linarith)+
  ultimately have "f64_is (f64_mul (f64 f 1) (f64 (k * sc) sc)) (f * k)"
    using assms(2) by (intro f64_mul_exact) simp_all
  then show ?thesis unfolding frac_nanos_def by (rule f64_trunc_exact)
qed

section \<open>Formatting\<close>

text \<open>\<^verbatim>\<open>fmtFrac\<close>: the last \<^term>\<open>prec\<close> digits of a number as a fraction without trailing
  zeros, and the rest of the number.\<close>

fun fmtFrac_loop :: "nat \<Rightarrow> nat \<Rightarrow> bool \<Rightarrow> string \<Rightarrow> string \<times> bool \<times> nat" where
  "fmtFrac_loop 0 v pr acc = (acc, pr, v)"
| "fmtFrac_loop (Suc k) v pr acc =
     (let digit = v mod 10; pr' = (pr \<or> digit \<noteq> 0)
      in fmtFrac_loop k (v div 10) pr' (if pr' then digit_char digit # acc else acc))"

definition fmtFrac :: "nat \<Rightarrow> nat \<Rightarrow> string \<times> nat" where
  "fmtFrac v prec = (case fmtFrac_loop prec v False [] of
     (s, pr, u) \<Rightarrow> (if pr then CHR ''.'' # s else s, u))"

definition micro :: string where "micro = [CHR 0xC2, CHR 0xB5]"

definition fmt_seconds :: "nat \<Rightarrow> string" where
  "fmt_seconds u =
     (let (frac, secs) = fmtFrac u 9; mins = secs div 60; hours = mins div 60
      in (if mins > 0 then (if hours > 0 then dec_of_nat hours @ ''h'' else '''')
            @ dec_of_nat (mins mod 60) @ ''m'' else '''')
         @ dec_of_nat (secs mod 60) @ frac @ ''s'')"

definition fmt_small :: "nat \<Rightarrow> string" where
  "fmt_small u =
     (let (prec, unit) = (if u < 1000 then (0, ''n'') else if u < 1000000 then (3, micro) else (6, ''m''));
          (frac, n) = fmtFrac u prec
      in dec_of_nat n @ frac @ unit @ ''s'')"

definition Duration_String :: "int \<Rightarrow> string" where
  "Duration_String d =
     (let u = nat \<bar>d\<bar>
      in if u = 0 then ''0s''
         else (if d < 0 then ''-'' else '''')
           @ (if u < 1000000000 then fmt_small u else fmt_seconds u))"

section \<open>Parsing\<close>

definition two63 :: nat where "two63 = 9223372036854775808"

fun leadingInt :: "nat \<Rightarrow> string \<Rightarrow> (nat \<times> string) option" where
  "leadingInt x [] = Some (x, [])"
| "leadingInt x (c # s) =
     (if \<not> is_digit c then Some (x, c # s)
      else if x > two63 div 10 then None
      else let y = x * 10 + digit_val c in if y > two63 then None else leadingInt y s)"

fun leadingFraction :: "nat \<Rightarrow> nat \<Rightarrow> bool \<Rightarrow> string \<Rightarrow> nat \<times> nat \<times> string" where
  "leadingFraction x sc ov [] = (x, sc, [])"
| "leadingFraction x sc ov (c # s) =
     (if \<not> is_digit c then (x, sc, c # s)
      else if ov \<or> x > (two63 - 1) div 10 then leadingFraction x sc True s
      else let y = x * 10 + digit_val c
           in if y > two63 then leadingFraction x sc True s else leadingFraction y (sc * 10) False s)"

definition unitMap :: "(string \<times> nat) list" where
  "unitMap = [(''ns'', 1), (''us'', 1000), (micro @ ''s'', 1000), ([CHR 0xCE, CHR 0xBC] @ ''s'', 1000),
     (''ms'', 1000000), (''s'', 1000000000), (''m'', 60000000000), (''h'', 3600000000000)]"

definition unit_char :: "char \<Rightarrow> bool" where
  "unit_char c \<longleftrightarrow> c \<noteq> CHR ''.'' \<and> \<not> is_digit c"

text \<open>One round of the loop: a number with an optional fraction and its unit. The result is the
  number of nanoseconds and the rest of the text.\<close>

definition parse_component :: "string \<Rightarrow> (nat \<times> string) option" where
  "parse_component s =
     (if s = [] \<or> unit_char (hd s) then None
      else case leadingInt 0 s of
        None \<Rightarrow> None
      | Some (v, s1) \<Rightarrow>
          (let pre = (length s1 \<noteq> length s);
               (f, sc, s2) = (case s1 of [] \<Rightarrow> (0, 1, s1)
                 | c # r \<Rightarrow> if c = CHR ''.'' then leadingFraction 0 1 False r else (0, 1, s1));
               post = (s1 \<noteq> [] \<and> hd s1 = CHR ''.'' \<and> length s2 \<noteq> length (tl s1));
               u = takeWhile unit_char s2; s3 = dropWhile unit_char s2
           in if \<not> pre \<and> \<not> post \<or> u = [] then None
              else case map_of unitMap u of
                None \<Rightarrow> None
              | Some unit \<Rightarrow>
                  if v > two63 div unit then None
                  else let w = v * unit + (if f > 0 then frac_nanos f unit sc else 0)
                       in if f > 0 \<and> w > two63 then None else Some (w, s3)))"

lemma leadingInt_length: "leadingInt x s = Some (v, r) \<Longrightarrow> length r \<le> length s"
  by (induction x s arbitrary: v r rule: leadingInt.induct)
     (auto split: if_splits simp: Let_def le_SucI)

lemma leadingFraction_length: "leadingFraction x sc ov s = (f, sc', r) \<Longrightarrow> length r \<le> length s"
  by (induction x sc ov s arbitrary: f sc' r rule: leadingFraction.induct)
     (auto split: if_splits simp: Let_def le_SucI)

lemma dropWhile_length_less: "takeWhile P s \<noteq> [] \<Longrightarrow> length (dropWhile P s) < length s"
  by (cases s) (auto split: if_splits simp: length_dropWhile_le less_Suc_eq_le)

lemma parse_component_length: "parse_component s = Some (w, r) \<Longrightarrow> length r < length s"
proof -
  assume a: "parse_component s = Some (w, r)"
  obtain v s1 where L: "leadingInt 0 s = Some (v, s1)"
    using a by (auto simp: parse_component_def split: if_splits option.splits)
  define x where "x = (case s1 of [] \<Rightarrow> (0, 1, s1)
      | c # r \<Rightarrow> if c = CHR ''.'' then leadingFraction 0 1 False r else (0, 1, s1))"
  obtain f sc s2 where X: "x = (f, sc, s2)" by (metis prod_cases3)
  have "length s2 \<le> length s1"
    using X by (auto simp: x_def split: list.splits if_splits intro: le_SucI dest!: leadingFraction_length)
  moreover have "length s1 \<le> length s" using L by (rule leadingInt_length)
  moreover have "takeWhile unit_char s2 \<noteq> [] \<and> r = dropWhile unit_char s2"
    using a L X unfolding x_def
    by (auto simp: parse_component_def Let_def split: if_splits option.splits)
  ultimately show ?thesis using dropWhile_length_less [of unit_char s2] by auto
qed

function parse_components :: "nat \<Rightarrow> string \<Rightarrow> nat option" where
  "parse_components d s =
     (if s = [] then Some d
      else case parse_component s of
        None \<Rightarrow> None
      | Some (w, r) \<Rightarrow> let d' = (d + w) mod 2 ^ 64 in if d' > two63 then None else parse_components d' r)"
  by pat_completeness auto
termination by (relation "measure (\<lambda>(d, s). length s)") (auto dest: parse_component_length)

declare parse_components.simps [simp del]

definition ParseDuration :: "string \<Rightarrow> int option" where
  "ParseDuration s =
     (let (neg, r) = (case s of [] \<Rightarrow> (False, s)
        | c # r \<Rightarrow> if c = CHR ''-'' \<or> c = CHR ''+'' then (c = CHR ''-'', r) else (False, s))
      in if r = ''0'' then Some 0 else if r = [] then None
         else case parse_components 0 r of
           None \<Rightarrow> None
         | Some d \<Rightarrow> if neg then Some (- int d) else if d > two63 - 1 then None else Some (int d))"

section \<open>The round trip\<close>

lemma nat_of_dec_Cons: "nat_of_dec (c # s) = digit_val c * 10 ^ length s + nat_of_dec s"
proof -
  have "foldl (\<lambda>a c. a * 10 + digit_val c) x s = x * 10 ^ length s + nat_of_dec s" for x
    unfolding nat_of_dec_def
  proof (induction s arbitrary: x)
    case (Cons y s)
    have "foldl (\<lambda>a c. a * 10 + digit_val c) x (y # s)
        = (x * 10 + digit_val y) * 10 ^ length s + foldl (\<lambda>a c. a * 10 + digit_val c) 0 s"
      using Cons [of "x * 10 + digit_val y"] by simp
    moreover have "foldl (\<lambda>a c. a * 10 + digit_val c) 0 (y # s)
        = digit_val y * 10 ^ length s + foldl (\<lambda>a c. a * 10 + digit_val c) 0 s"
      using Cons [of "digit_val y"] by simp
    ultimately show ?case by (simp add: algebra_simps)
  qed simp
  from this [of "digit_val c"] show ?thesis by (simp add: nat_of_dec_def)
qed

lemma digit_val_le: "is_digit c \<Longrightarrow> digit_val c \<le> 9"
  unfolding is_digit_def digit_val_def by linarith

lemma nat_of_dec_less: "list_all is_digit s \<Longrightarrow> nat_of_dec s < 10 ^ length s"
proof (induction s)
  case (Cons c s)
  then have "nat_of_dec s < 10 ^ length s" "digit_val c \<le> 9" by (simp_all add: digit_val_le)
  moreover have "digit_val c * 10 ^ length s \<le> 9 * 10 ^ length s"
    using \<open>digit_val c \<le> 9\<close> by (rule mult_right_mono) simp
  ultimately show ?case unfolding nat_of_dec_Cons length_Cons power_Suc by linarith
qed (simp add: nat_of_dec_def)

definition no_digit :: "string \<Rightarrow> bool" where
  "no_digit r \<longleftrightarrow> r = [] \<or> \<not> is_digit (hd r)"

lemma leadingInt_digits:
  "list_all is_digit ds \<Longrightarrow> no_digit r \<Longrightarrow> x * 10 ^ length ds + nat_of_dec ds \<le> two63 \<Longrightarrow>
   leadingInt x (ds @ r) = Some (x * 10 ^ length ds + nat_of_dec ds, r)"
proof (induction ds arbitrary: x)
  case Nil
  then show ?case by (cases r) (auto simp: no_digit_def nat_of_dec_def)
next
  case (Cons c ds)
  have eq: "x * 10 ^ length (c # ds) + nat_of_dec (c # ds)
      = (x * 10 + digit_val c) * 10 ^ length ds + nat_of_dec ds"
    by (simp add: nat_of_dec_Cons algebra_simps)
  define y where "y = x * 10 + digit_val c"
  have "y \<le> y * 10 ^ length ds + nat_of_dec ds" by (simp add: trans_le_add1)
  then have y: "x * 10 + digit_val c \<le> two63" using Cons.prems(3) eq by (simp add: y_def)
  then have "\<not> x > two63 div 10" by (simp add: two63_def)
  with y Cons.prems Cons.IH [of "x * 10 + digit_val c"] eq show ?case by simp
qed

lemma leadingInt_dec: "no_digit r \<Longrightarrow> n \<le> two63 \<Longrightarrow> leadingInt 0 (dec_of_nat n @ r) = Some (n, r)"
  using leadingInt_digits [OF dec_of_nat_digits, of r 0 n] by simp

lemma leadingFraction_digits:
  "list_all is_digit ds \<Longrightarrow> no_digit r \<Longrightarrow> x < 10 ^ (9 - length ds) \<Longrightarrow> length ds \<le> 9 \<Longrightarrow>
   leadingFraction x sc False (ds @ r) = (x * 10 ^ length ds + nat_of_dec ds, sc * 10 ^ length ds, r)"
proof (induction ds arbitrary: x sc)
  case Nil
  then show ?case by (cases r) (auto simp: no_digit_def nat_of_dec_def)
next
  case (Cons c ds)
  have eq: "x * 10 ^ length (c # ds) + nat_of_dec (c # ds)
      = (x * 10 + digit_val c) * 10 ^ length ds + nat_of_dec ds"
    by (simp add: nat_of_dec_Cons algebra_simps)
  have "9 - length ds = Suc (9 - length (c # ds))" using Cons.prems(4) by simp
  moreover have "x + 1 \<le> 10 ^ (9 - length (c # ds))" using Cons.prems(3) by simp
  moreover have "digit_val c \<le> 9" using Cons.prems(1) by (simp add: digit_val_le)
  ultimately have lt: "x * 10 + digit_val c < 10 ^ (9 - length ds)" by simp
  also have "(10::nat) ^ (9 - length ds) \<le> 10 ^ 9" by (rule power_increasing) simp_all
  finally have "x * 10 + digit_val c < 10 ^ 9" .
  then have "\<not> x > (two63 - 1) div 10" "\<not> x * 10 + digit_val c > two63" by (simp_all add: two63_def)
  with Cons.prems Cons.IH [of "x * 10 + digit_val c" "sc * 10"] eq lt show ?case by (simp add: ac_simps)
qed

fun low_digits :: "nat \<Rightarrow> nat \<Rightarrow> string" where
  "low_digits 0 v = []"
| "low_digits (Suc k) v = low_digits k (v div 10) @ [digit_char (v mod 10)]"

lemma low_digits_props:
  "length (low_digits k v) = k" "list_all is_digit (low_digits k v)"
  "nat_of_dec (low_digits k v) = v mod 10 ^ k"
proof (induction k arbitrary: v)
  case (Suc k)
  case 3
  have "v mod 10 ^ Suc k = (v div 10 mod 10 ^ k) * 10 + v mod 10"
    by (simp add: mod_mult2_eq mult.commute)
  with Suc.IH(3) [of "v div 10"] show ?case by (simp add: nat_of_dec_snoc)
qed (simp_all add: nat_of_dec_def)

lemma fmtFrac_loop_True: "fmtFrac_loop k v True acc = (low_digits k v @ acc, True, v div 10 ^ k)"
  by (induction k arbitrary: v acc) (simp_all add: Let_def div_mult2_eq)

text \<open>A fraction text of at most \<^term>\<open>p\<close> digits stands for \<^term>\<open>m / 10 ^ p\<close>.\<close>

definition frac_text :: "string \<Rightarrow> nat \<Rightarrow> nat \<Rightarrow> bool" where
  "frac_text s p m \<longleftrightarrow> s = [] \<and> m = 0 \<or> 0 < m \<and> (\<exists>ds. s = CHR ''.'' # ds \<and> ds \<noteq> [] \<and> list_all is_digit ds
     \<and> length ds \<le> p \<and> nat_of_dec ds * 10 ^ (p - length ds) = m)"

lemma fmtFrac_loop_False:
  "fmtFrac_loop k v False [] =
     (if v mod 10 ^ k = 0 then ([], False, v div 10 ^ k) else (fst (fmtFrac_loop k v False []), True, v div 10 ^ k))
   \<and> (v mod 10 ^ k \<noteq> 0 \<longrightarrow> frac_text (CHR ''.'' # fst (fmtFrac_loop k v False [])) k (v mod 10 ^ k))"
proof (induction k arbitrary: v)
  case (Suc k)
  have m: "v mod 10 ^ Suc k = (v div 10 mod 10 ^ k) * 10 + v mod 10"
    by (simp add: mod_mult2_eq mult.commute)
  have d: "v div 10 ^ Suc k = v div 10 div 10 ^ k" by (simp add: div_mult2_eq)
  show ?case
  proof (cases "v mod 10 = 0")
    case True
    have e: "fmtFrac_loop (Suc k) v False [] = fmtFrac_loop k (v div 10) False []"
      using True by (simp add: Let_def)
    have z: "v mod 10 ^ Suc k = 0 \<longleftrightarrow> v div 10 mod 10 ^ k = 0" using m True by simp
    have f: "frac_text s (Suc k) (v mod 10 ^ Suc k)" if "frac_text s k (v div 10 mod 10 ^ k)" for s
      using that True unfolding m frac_text_def by (auto simp: Suc_diff_le)
    show ?thesis using Suc.IH [of "v div 10"] f unfolding e d z by simp
  next
    case False
    have e: "fmtFrac_loop (Suc k) v False [] = (low_digits (Suc k) v, True, v div 10 ^ Suc k)"
      using False by (simp add: Let_def fmtFrac_loop_True div_mult2_eq)
    have nz: "v mod 10 ^ Suc k \<noteq> 0" using m False by simp
    moreover have "low_digits (Suc k) v \<noteq> []" by simp
    ultimately have "frac_text (CHR ''.'' # low_digits (Suc k) v) (Suc k) (v mod 10 ^ Suc k)"
      unfolding frac_text_def using low_digits_props [of "Suc k" v] by (simp del: low_digits.simps)
    with e nz show ?thesis by (simp del: low_digits.simps fmtFrac_loop.simps)
  qed
qed simp

lemma fmtFrac_spec: "snd (fmtFrac v p) = v div 10 ^ p" "frac_text (fst (fmtFrac v p)) p (v mod 10 ^ p)"
proof -
  note L = fmtFrac_loop_False [of p v]
  obtain s pr u where e: "fmtFrac_loop p v False [] = (s, pr, u)" by (metis prod_cases3)
  show "snd (fmtFrac v p) = v div 10 ^ p"
    using L unfolding e by (cases "v mod 10 ^ p = 0") (auto simp: fmtFrac_def e)
  show "frac_text (fst (fmtFrac v p)) p (v mod 10 ^ p)"
    using L unfolding e by (cases "v mod 10 ^ p = 0") (auto simp: fmtFrac_def e frac_text_def)
qed

lemma unit_char_digit: "is_digit c \<Longrightarrow> \<not> unit_char c"
  by (simp add: unit_char_def)

lemma take_unit:
  assumes "list_all unit_char u" "r = [] \<or> is_digit (hd r)"
  shows "takeWhile unit_char (u @ r) = u" "dropWhile unit_char (u @ r) = r"
  using assms by (induction u) (cases r; auto simp: unit_char_digit)+

lemma parse_component_text:
  assumes unit: "map_of unitMap u = Some (K * 10 ^ p)" "list_all unit_char u" "u \<noteq> []" "0 < K"
    and r: "r = [] \<or> is_digit (hd r)" and p: "p \<le> 9" "K * 10 ^ p < 2 ^ 53"
    and frac: "frac_text frac p m" "m < 10 ^ p" and small: "n * (K * 10 ^ p) + m * K \<le> two63"
  shows "parse_component (dec_of_nat n @ frac @ u @ r) = Some (n * (K * 10 ^ p) + m * K, r)"
proof -
  let ?s = "dec_of_nat n @ frac @ u @ r"
  let ?U = "K * 10 ^ p"
  have U: "0 < ?U" using unit(4) by simp
  have nU: "n \<le> two63 div ?U" using small U by (simp add: less_eq_div_iff_mult_less_eq)
  then have n63: "n \<le> two63" using U by (meson div_le_dividend le_trans)
  have hd: "is_digit (hd ?s)" "?s \<noteq> []"
    using dec_of_nat_digits [of n] by (cases "dec_of_nat n"; simp)+
  have dot: "\<not> is_digit CHR ''.''" by (simp add: is_digit_def)
  have hdu: "\<not> is_digit (hd u)" "hd u \<noteq> CHR ''.''" using unit(2,3) by (cases u; simp add: unit_char_def)+
  have nd: "no_digit (frac @ u @ r)"
    using frac(1) hdu unit(3) dot by (auto simp: frac_text_def no_digit_def hd_append)
  have L: "leadingInt 0 ?s = Some (n, frac @ u @ r)" by (rule leadingInt_dec [OF nd n63])
  have pre: "length (frac @ u @ r) \<noteq> length ?s" by simp
  show ?thesis
  proof (cases "frac = []")
    case True
    with frac(1) have "m = 0" by (auto simp: frac_text_def)
    obtain c u' where u: "u = c # u'" "c \<noteq> CHR ''.''" using hdu unit(3) by (cases u) auto
    show ?thesis
      using L hd True \<open>m = 0\<close> unit take_unit [OF unit(2) r] nU u pre unit_char_digit
      by (simp add: parse_component_def Let_def)
  next
    case False
    then obtain ds where ds: "frac = CHR ''.'' # ds" "ds \<noteq> []" "list_all is_digit ds"
      "length ds \<le> p" "nat_of_dec ds * 10 ^ (p - length ds) = m" and m0: "0 < m"
      using frac(1) by (auto simp: frac_text_def)
    have ndu: "no_digit (u @ r)" using hdu unit(3) by (simp add: no_digit_def)
    have F: "leadingFraction 0 1 False (ds @ u @ r) = (nat_of_dec ds, 10 ^ length ds, u @ r)"
      using leadingFraction_digits [OF ds(3) ndu, of 0 1] ds(4) p by simp
    have f0: "0 < nat_of_dec ds" using m0 ds(5) by (cases "nat_of_dec ds") auto
    define k where "k = K * 10 ^ (p - length ds)"
    have kU: "?U = k * 10 ^ length ds" using ds(4) by (simp add: k_def flip: power_add)
    have fk: "nat_of_dec ds * k = m * K" using ds(5) by (simp add: k_def flip: ds(5))
    have "m * K \<le> ?U" using frac(2) by (simp add: mult.commute)
    with fk p have "nat_of_dec ds * k < 2 ^ 53" by linarith
    then have "frac_nanos (nat_of_dec ds) ?U (10 ^ length ds) = m * K"
      unfolding kU fk [symmetric] using f0 unit(4) by (intro frac_nanos_exact) (simp_all add: k_def)
    then show ?thesis
      using L hd ds(1) F f0 unit take_unit [OF unit(2) r] nU small pre unit_char_digit
      by (simp add: parse_component_def Let_def)
  qed
qed

lemma parse_components_step:
  "parse_component s = Some (w, r) \<Longrightarrow> d + w \<le> two63 \<Longrightarrow>
   parse_components d s = parse_components (d + w) r"
  by (subst parse_components.simps)
     (auto simp: two63_def Let_def parse_component_def split: if_splits option.splits)

lemma parse_components_Nil [simp]: "parse_components d [] = Some d"
  by (subst parse_components.simps) simp

lemma int_part:
  assumes "map_of unitMap u = Some K" "list_all unit_char u" "u \<noteq> []" "0 < K" "K < 2 ^ 53"
    and "r = [] \<or> is_digit (hd r)" "d + n * K \<le> two63"
  shows "parse_components d (dec_of_nat n @ u @ r) = parse_components (d + n * K) r"
proof (rule parse_components_step)
  show "parse_component (dec_of_nat n @ u @ r) = Some (n * K, r)"
    using parse_component_text [of u K 0 r "[]" 0 n] assms by (simp add: frac_text_def)
qed (use assms in simp)

lemma hd_dec [simp]: "is_digit (hd (dec_of_nat n @ s))" "is_digit (hd (dec_of_nat n))"
  using dec_of_nat_digits [of n] by (cases "dec_of_nat n"; simp)+

lemma units [simp]:
  "map_of unitMap ''s'' = Some 1000000000" "map_of unitMap ''m'' = Some 60000000000"
  "map_of unitMap ''h'' = Some 3600000000000" "map_of unitMap ''ms'' = Some 1000000"
  "map_of unitMap ''ns'' = Some 1" "map_of unitMap (micro @ ''s'') = Some 1000"
  by (simp_all add: unitMap_def micro_def)

lemma unit_char_letters [simp]: "unit_char CHR ''s''" "unit_char CHR ''m''" "unit_char CHR ''h''"
  "unit_char CHR ''n''" "list_all unit_char micro"
  by (simp_all add: unit_char_def is_digit_def micro_def)

lemma dec_zero: "dec_of_nat 0 = ''0''"
  by code_simp

lemma unit_chars [simp]: "list_all unit_char ''s''" "list_all unit_char ''m''" "list_all unit_char ''h''"
  "list_all unit_char ''ms''" "list_all unit_char ''ns''" "list_all unit_char (micro @ ''s'')"
  by (simp_all add: unit_char_def is_digit_def micro_def)

lemma pow9: "(10::nat) ^ 9 = 1000000000"
  by simp

lemma parse_fmt_seconds:
  assumes "u \<le> two63"
  shows "parse_components 0 (fmt_seconds u) = Some u"
proof -
  obtain frac secs where F: "fmtFrac u 9 = (frac, secs)" by force
  then have secs: "secs = u div 10 ^ 9" and frac: "frac_text frac 9 (u mod 10 ^ 9)"
    using fmtFrac_spec [of u 9] by simp_all
  define mins where "mins = secs div 60"
  define hours where "hours = mins div 60"
  let ?last = "dec_of_nat (secs mod 60) @ frac @ ''s''"
  have u: "u = hours * 3600000000000 + (mins mod 60) * 60000000000 + (secs mod 60) * 1000000000 + u mod 10 ^ 9"
  proof -
    have "u = secs * 1000000000 + u mod 10 ^ 9" unfolding secs by (metis (no_types) div_mult_mod_eq pow9)
    moreover have "secs = mins * 60 + secs mod 60" "mins = hours * 60 + mins mod 60"
      by (simp_all add: mins_def hours_def)
    ultimately show ?thesis by linarith
  qed
  have last: "parse_components d ?last = Some (d + ((secs mod 60) * 1000000000 + u mod 10 ^ 9))"
    if "d + ((secs mod 60) * 1000000000 + u mod 10 ^ 9) \<le> two63" for d
  proof -
    have "parse_component (dec_of_nat (secs mod 60) @ frac @ ''s'' @ [])
        = Some ((secs mod 60) * (1 * 10 ^ 9) + u mod 10 ^ 9 * 1, [])"
      by (rule parse_component_text) (use frac that in simp_all)
    then have "parse_components d ?last = parse_components (d + ((secs mod 60) * 1000000000 + u mod 10 ^ 9)) []"
      using that by (intro parse_components_step) simp_all
    then show ?thesis by simp
  qed
  have shape: "fmt_seconds u = (if mins > 0 then (if hours > 0 then dec_of_nat hours @ ''h'' else '''')
            @ dec_of_nat (mins mod 60) @ ''m'' else '''') @ ?last"
    by (simp add: fmt_seconds_def F mins_def hours_def Let_def)
  consider "mins = 0" | "0 < mins" "hours = 0" | "0 < hours" "0 < mins" by (auto simp: hours_def)
  then show ?thesis
  proof cases
    case 1
    then show ?thesis using last [of 0] u assms shape by (simp add: hours_def)
  next
    case 2
    have "parse_components 0 (dec_of_nat (mins mod 60) @ ''m'' @ ?last)
        = parse_components (0 + (mins mod 60) * 60000000000) ?last"
      using u assms by (intro int_part) simp_all
    then show ?thesis using 2 last [of "(mins mod 60) * 60000000000"] u assms shape by simp
  next
    case 3
    let ?r = "dec_of_nat (mins mod 60) @ ''m'' @ ?last"
    have "parse_components 0 (dec_of_nat hours @ ''h'' @ ?r) = parse_components (0 + hours * 3600000000000) ?r"
      using u assms by (intro int_part) simp_all
    also have "\<dots> = parse_components (0 + hours * 3600000000000 + (mins mod 60) * 60000000000) ?last"
      using u assms by (intro int_part) simp_all
    also have "\<dots> = Some u"
      using last [of "0 + hours * 3600000000000 + (mins mod 60) * 60000000000"] u assms by simp
    finally show ?thesis using 3 shape by simp
  qed
qed

lemma parse_fmt_small:
  assumes "u < 1000000000"
  shows "parse_components 0 (fmt_small u) = Some u"
proof -
  have gen: "parse_components 0 (dec_of_nat n @ frac @ unit @ []) = Some u"
    if F: "fmtFrac u p = (frac, n)" and U: "map_of unitMap unit = Some (1 * 10 ^ p)"
      "list_all unit_char unit" "unit \<noteq> []" "p \<le> 9" for p unit frac n
  proof -
    have n: "n = u div 10 ^ p" and frac: "frac_text frac p (u mod 10 ^ p)"
      using fmtFrac_spec [of u p] F by simp_all
    have "(10::nat) ^ p \<le> 10 ^ 9" using U(4) by (intro power_increasing) simp_all
    moreover have "n * (1 * 10 ^ p) + u mod 10 ^ p * 1 = u" by (simp only: n mult_1 mult_1_right div_mult_mod_eq)
    ultimately have "parse_component (dec_of_nat n @ frac @ unit @ []) = Some (u, [])"
      using parse_component_text [of unit 1 p "[]" frac "u mod 10 ^ p" n] U frac assms
      by (simp add: two63_def)
    then have "parse_components 0 (dec_of_nat n @ frac @ unit @ []) = parse_components (0 + u) []"
      using assms by (intro parse_components_step) (simp_all add: two63_def)
    then show ?thesis by simp
  qed
  obtain f0 n0 where F0: "fmtFrac u 0 = (f0, n0)" by force
  obtain f3 n3 where F3: "fmtFrac u 3 = (f3, n3)" by force
  obtain f6 n6 where F6: "fmtFrac u 6 = (f6, n6)" by force
  have "micro @ ''s'' \<noteq> []" by (simp add: micro_def)
  then show ?thesis
    using gen [OF F0, of "''ns''"] gen [OF F3, of "micro @ ''s''"] gen [OF F6, of "''ms''"]
    by (simp add: fmt_small_def F0 F3 F6)
qed

lemma fmt_hd: "fmt_small u \<noteq> []" "fmt_seconds u \<noteq> []" "is_digit (hd (fmt_small u))"
  "is_digit (hd (fmt_seconds u))"
  by (auto simp: fmt_small_def fmt_seconds_def Let_def split: prod.split)

lemma fmt_not_zero: "fmt_small u \<noteq> ''0''" "fmt_seconds u \<noteq> ''0''"
proof -
  have "last (fmt_small u) = CHR ''s''" "last (fmt_seconds u) = CHR ''s''"
    by (auto simp: fmt_small_def fmt_seconds_def Let_def split: prod.split)
  then show "fmt_small u \<noteq> ''0''" "fmt_seconds u \<noteq> ''0''" by auto
qed

lemma ParseDuration_String: "i64_range d \<Longrightarrow> ParseDuration (Duration_String d) = Some d"
proof -
  assume d: "i64_range d"
  define u where "u = nat \<bar>d\<bar>"
  define s where "s = (if u < 1000000000 then fmt_small u else fmt_seconds u)"
  have u63: "u \<le> two63" "d \<ge> 0 \<longrightarrow> u < two63" using d by (auto simp: i64_range_def u_def two63_def)
  have p: "parse_components 0 s = Some u"
    using parse_fmt_small parse_fmt_seconds u63 by (simp add: s_def)
  have s: "s \<noteq> []" "is_digit (hd s)" "s \<noteq> ''0''" using fmt_hd fmt_not_zero by (simp_all add: s_def)
  then have h: "hd s \<noteq> CHR ''-''" "hd s \<noteq> CHR ''+''" by (auto simp: is_digit_def)
  consider "d = 0" | "d < 0" | "0 < d" by linarith
  then show ?thesis
  proof cases
    case 1
    have "parse_component ''0s'' = Some (0, [])"
      using parse_component_text [of "''s''" 1 9 "[]" "[]" 0 0]
      by (simp add: frac_text_def dec_zero)
    then have "parse_components 0 ''0s'' = Some 0" using parse_components_step [of "''0s''" 0 "[]" 0] by simp
    with 1 show ?thesis by (simp add: Duration_String_def ParseDuration_def two63_def)
  next
    case 2
    then have "Duration_String d = CHR ''-'' # s"
      by (simp add: Duration_String_def Let_def s_def u_def)
    with 2 p s show ?thesis by (simp add: ParseDuration_def u_def)
  next
    case 3
    then have "Duration_String d = s" by (simp add: Duration_String_def Let_def s_def u_def)
    moreover obtain c r where "s = c # r" using s by (cases s) auto
    ultimately show ?thesis using 3 p s h u63 by (simp add: ParseDuration_def u_def)
  qed
qed

end
