(* ===== verification/Go_Json.thy ===== *)
theory Go_Json
  imports Go_Text
begin

text \<open>
  \<^verbatim>\<open>encoding/json\<close> as the configuration uses it for its list of themes: \<^verbatim>\<open>Marshal\<close> and
  \<^verbatim>\<open>Unmarshal\<close> of a \<^verbatim>\<open>[]string\<close>, on byte strings with UTF-8. Every element of another type than a
  string or null makes \<^verbatim>\<open>Unmarshal\<close> fail, so that no other JSON value needs to be parsed. The round
  trip is proved for valid UTF-8.
\<close>

section \<open>UTF-8\<close>

definition between :: "nat \<Rightarrow> char \<Rightarrow> nat \<Rightarrow> bool" where
  "between a c b \<longleftrightarrow> a \<le> of_char c \<and> of_char c \<le> b"

text \<open>The length of the rune at the start of a string, zero when there is no valid one
  (\<^verbatim>\<open>utf8.DecodeRune\<close>).\<close>

definition lead_byte :: "nat \<Rightarrow> nat \<times> nat \<times> nat" where
  "lead_byte x =
     (if x < 128 then (1, 0, 0)
      else if 194 \<le> x \<and> x \<le> 223 then (2, 128, 191)
      else if 224 \<le> x \<and> x \<le> 239 then (3, if x = 224 then 160 else 128, if x = 237 then 159 else 191)
      else if 240 \<le> x \<and> x \<le> 244 then (4, if x = 240 then 144 else 128, if x = 244 then 143 else 191)
      else (0, 0, 0))"

fun rune_len :: "string \<Rightarrow> nat" where
  "rune_len [] = 0"
| "rune_len (a # r) =
     (case lead_byte (of_char a) of (n, lo, hi) \<Rightarrow>
        if n \<le> 1 then n
        else case take (n - 1) r of
          [] \<Rightarrow> 0
        | b # cs \<Rightarrow> if length (b # cs) = n - 1 \<and> between lo b hi \<and> list_all (\<lambda>c. between 128 c 191) cs
                    then n else 0)"

lemma rune_len_le: "rune_len s \<le> length s"
  by (cases s) (auto split: list.splits prod.splits dest: arg_cong [where f = length])

lemma rune_len_take: "0 < rune_len s \<Longrightarrow> rune_len (take (rune_len s) s @ t) = rune_len s"
proof (cases s)
  case (Cons a r)
  assume pos: "0 < rune_len s"
  obtain n lo hi where L: "lead_byte (of_char a) = (n, lo, hi)" by (metis prod_cases3)
  show ?thesis
  proof (cases "n \<le> 1")
    case True
    then show ?thesis using pos L Cons by (cases n) auto
  next
    case False
    then have e: "rune_len s = n" and len: "length (take (n - 1) r) = n - 1"
      using pos L Cons by (auto split: list.splits if_splits dest: arg_cong [where f = length])
    have "take (n - 1) (take (n - 1) r @ t) = take (n - 1) r" using len by simp
    moreover have "take n s = a # take (n - 1) r" using False Cons by (cases n) auto
    ultimately have "rune_len (take n s @ t) = rune_len s"
      unfolding Cons by (simp only: append_Cons rune_len.simps L prod.case)
    then show ?thesis using e by simp
  qed
qed simp

lemma rune_len_ascii: "of_char c < (128::nat) \<Longrightarrow> rune_len (c # s) = 1"
  by (simp add: lead_byte_def)

text \<open>The bytes of a rune (\<^verbatim>\<open>utf8.AppendRune\<close>); surrogates and numbers out of range become
  \<^verbatim>\<open>U+FFFD\<close>.\<close>

definition rune_error :: string where "rune_error = [CHR 0xEF, CHR 0xBF, CHR 0xBD]"

definition encode_rune :: "nat \<Rightarrow> string" where
  "encode_rune r =
     (if r < 128 then [char_of r]
      else if r < 2048 then [char_of (192 + r div 64), char_of (128 + r mod 64)]
      else if 55296 \<le> r \<and> r \<le> 57343 \<or> 1114111 < r then rune_error
      else if r < 65536 then
        [char_of (224 + r div 4096), char_of (128 + r div 64 mod 64), char_of (128 + r mod 64)]
      else [char_of (240 + r div 262144), char_of (128 + r div 4096 mod 64),
            char_of (128 + r div 64 mod 64), char_of (128 + r mod 64)])"

function valid_utf8 :: "string \<Rightarrow> bool" where
  "valid_utf8 s =
     (if s = [] then True else if rune_len s = 0 then False else valid_utf8 (drop (rune_len s) s))"
  by pat_completeness auto
termination by (relation "measure length") (auto simp: rune_len_le intro: diff_less)

declare valid_utf8.simps [simp del]

lemma valid_Nil [simp]: "valid_utf8 []"
  by (subst valid_utf8.simps) simp

lemma valid_rune_append: "0 < rune_len s \<Longrightarrow> valid_utf8 (take (rune_len s) s @ t) = valid_utf8 t"
  using rune_len_le [of s] by (subst valid_utf8.simps) (auto simp: rune_len_take min_def)

definition rune_bytes :: "string \<Rightarrow> bool" where
  "rune_bytes b \<longleftrightarrow> 0 < rune_len b \<and> rune_len b = length b"

lemma valid_rune_bytes: "rune_bytes b \<Longrightarrow> valid_utf8 (b @ t) = valid_utf8 t"
  using valid_rune_append [of b t] unfolding rune_bytes_def by (metis order.refl take_all)

lemma rune_bytes_take: "0 < rune_len s \<Longrightarrow> rune_bytes (take (rune_len s) s)"
  using rune_len_take [of s "[]"] rune_len_le [of s] by (simp add: rune_bytes_def min_def)

lemma byte_val: "n < 256 \<Longrightarrow> (of_char (char_of n) :: nat) = n"
  by simp

lemma rune_bytes_2: "194 \<le> x \<Longrightarrow> x \<le> 223 \<Longrightarrow> y < 64 \<Longrightarrow> rune_bytes [char_of x, char_of (128 + y)]"
  for x y :: nat
  by (simp add: rune_bytes_def lead_byte_def between_def)

lemma rune_bytes_3:
  "h < 16 \<Longrightarrow> k < 64 \<Longrightarrow> y < 64 \<Longrightarrow> (h = 0 \<Longrightarrow> 32 \<le> k) \<Longrightarrow> (h = 13 \<Longrightarrow> k \<le> 31) \<Longrightarrow>
   rune_bytes [char_of (224 + h), char_of (128 + k), char_of (128 + y)]" for h k y :: nat
  by (simp add: rune_bytes_def lead_byte_def between_def)

lemma rune_bytes_4:
  "h \<le> 4 \<Longrightarrow> k < 64 \<Longrightarrow> y < 64 \<Longrightarrow> z < 64 \<Longrightarrow> (h = 0 \<Longrightarrow> 16 \<le> k) \<Longrightarrow> (h = 4 \<Longrightarrow> k \<le> 15) \<Longrightarrow>
   rune_bytes [char_of (240 + h), char_of (128 + k), char_of (128 + y), char_of (128 + z)]"
  for h k y z :: nat
  by (simp add: rune_bytes_def lead_byte_def between_def)

lemma rune_bytes_encode: "rune_bytes (encode_rune r)"
proof -
  consider "r < 128" | "128 \<le> r" "r < 2048" | "55296 \<le> r \<and> r \<le> 57343 \<or> 1114111 < r"
    | "2048 \<le> r" "r < 65536" "\<not> (55296 \<le> r \<and> r \<le> 57343)" | "65536 \<le> r" "r \<le> 1114111"
    by linarith
  then show ?thesis
  proof cases
    case 1
    then show ?thesis by (simp add: rune_bytes_def encode_rune_def lead_byte_def)
  next
    case 2
    then have "194 \<le> 192 + r div 64" "192 + r div 64 \<le> 223" by linarith+
    then have "rune_bytes [char_of (192 + r div 64), char_of (128 + r mod 64)]"
      by (rule rune_bytes_2) simp
    then show ?thesis using 2 by (simp only: encode_rune_def if_False if_True not_less [symmetric])
  next
    case 3
    then have "encode_rune r = rune_error" by (auto simp: encode_rune_def)
    then show ?thesis by (simp add: rune_bytes_def rune_error_def between_def lead_byte_def)
  next
    case 4
    define h where "h = r div 4096"
    define k where "k = r div 64 mod 64"
    define y where "y = r mod 64"
    have "h = r div 64 div 64" by (simp add: h_def div_mult2_eq [symmetric])
    then have r: "r = h * 4096 + k * 64 + y"
      using div_mult_mod_eq [of r 64] div_mult_mod_eq [of "r div 64" 64] unfolding k_def y_def by linarith
    have ky: "k < 64" "y < 64" by (simp_all add: k_def y_def)
    with 4 r have "h < 16" "h = 0 \<Longrightarrow> 32 \<le> k" "h = 13 \<Longrightarrow> k \<le> 31" by linarith+
    with ky have "rune_bytes [char_of (224 + h), char_of (128 + k), char_of (128 + y)]"
      by (intro rune_bytes_3)
    then have "rune_bytes [char_of (224 + r div 4096), char_of (128 + r div 64 mod 64), char_of (128 + r mod 64)]"
      by (simp only: h_def k_def y_def)
    moreover have "\<not> r < 128" "\<not> r < 2048" "\<not> (55296 \<le> r \<and> r \<le> 57343 \<or> 1114111 < r)" using 4 by auto
    ultimately show ?thesis using 4 by (simp only: encode_rune_def if_False if_True)
  next
    case 5
    define h where "h = r div 262144"
    define k where "k = r div 4096 mod 64"
    have "h = r div 4096 div 64" by (simp add: h_def div_mult2_eq [symmetric])
    then have r: "r = h * 262144 + k * 4096 + r mod 4096"
      using div_mult_mod_eq [of r 4096] div_mult_mod_eq [of "r div 4096" 64] unfolding k_def by linarith
    have k: "k < 64" "r mod 4096 < 4096" by (simp_all add: k_def)
    with 5 r have "h \<le> 4" "h = 0 \<Longrightarrow> 16 \<le> k" "h = 4 \<Longrightarrow> k \<le> 15" by linarith+
    with k have "rune_bytes [char_of (240 + h), char_of (128 + k),
        char_of (128 + r div 64 mod 64), char_of (128 + r mod 64)]"
      by (intro rune_bytes_4) simp_all
    then have "rune_bytes [char_of (240 + r div 262144), char_of (128 + r div 4096 mod 64),
        char_of (128 + r div 64 mod 64), char_of (128 + r mod 64)]"
      by (simp only: h_def k_def)
    moreover have "\<not> r < 128" "\<not> r < 2048" "\<not> (55296 \<le> r \<and> r \<le> 57343 \<or> 1114111 < r)"
      "\<not> r < 65536" using 5 by auto
    ultimately show ?thesis by (simp only: encode_rune_def if_False if_True)
  qed
qed

section \<open>Marshal\<close>

definition quote :: char where "quote = CHR 0x22"
definition backslash :: char where "backslash = CHR 0x5C"

definition hex_lower :: "nat \<Rightarrow> char" where
  "hex_lower n = (if n < 10 then char_of (48 + n) else char_of (87 + n))"

definition u_escape :: "nat \<Rightarrow> string" where
  "u_escape n = [backslash, CHR ''u'', hex_lower (n div 4096), hex_lower (n div 256 mod 16),
     hex_lower (n div 16 mod 16), hex_lower (n mod 16)]"

text \<open>One byte below 128, with HTML escaping.\<close>

definition escape_byte :: "char \<Rightarrow> string" where
  "escape_byte c =
     (let x = of_char c :: nat in
      if c = backslash \<or> c = quote then [backslash, c]
      else if x = 8 then [backslash, CHR ''b''] else if x = 12 then [backslash, CHR ''f'']
      else if x = 10 then [backslash, CHR ''n''] else if x = 13 then [backslash, CHR ''r'']
      else if x = 9 then [backslash, CHR ''t'']
      else if x < 32 \<or> c = CHR ''<'' \<or> c = CHR ''>'' \<or> c = CHR ''&'' then u_escape x
      else [c])"

definition line_sep :: "string list" where
  "line_sep = [[CHR 0xE2, CHR 0x80, CHR 0xA8], [CHR 0xE2, CHR 0x80, CHR 0xA9]]"

definition escape_rune :: "string \<Rightarrow> string" where
  "escape_rune b =
     (case b of
        [] \<Rightarrow> []
      | c # _ \<Rightarrow> if of_char c < (128 :: nat) then escape_byte c
                else if b = line_sep ! 0 then u_escape 8232
                else if b = line_sep ! 1 then u_escape 8233
                else b)"

function escape_text :: "string \<Rightarrow> string" where
  "escape_text s =
     (if s = [] then []
      else if rune_len s = 0 then u_escape 65533 @ escape_text (tl s)
      else escape_rune (take (rune_len s) s) @ escape_text (drop (rune_len s) s))"
  by pat_completeness auto
termination by (relation "measure length") (auto simp: rune_len_le intro: diff_less)

declare escape_text.simps [simp del]

definition json_string :: "string \<Rightarrow> string" where
  "json_string s = quote # escape_text s @ [quote]"

fun json_elems :: "string list \<Rightarrow> string" where
  "json_elems [] = []"
| "json_elems [x] = json_string x"
| "json_elems (x # y # xs) = json_string x @ CHR '','' # json_elems (y # xs)"

definition json_Marshal :: "string list \<Rightarrow> string" where
  "json_Marshal xs = CHR ''['' # json_elems xs @ '']''"

section \<open>Unmarshal\<close>

definition hex_digit_val :: "char \<Rightarrow> nat option" where
  "hex_digit_val c = (let x = of_char c :: nat in
     if 48 \<le> x \<and> x \<le> 57 then Some (x - 48) else if 97 \<le> x \<and> x \<le> 102 then Some (x - 87)
     else if 65 \<le> x \<and> x \<le> 70 then Some (x - 55) else None)"

definition hex4 :: "string \<Rightarrow> (nat \<times> string) option" where
  "hex4 s = (case s of
     a # b # c # d # r \<Rightarrow>
       (case (hex_digit_val a, hex_digit_val b, hex_digit_val c, hex_digit_val d) of
          (Some w, Some x, Some y, Some z) \<Rightarrow> Some (w * 4096 + x * 256 + y * 16 + z, r)
        | _ \<Rightarrow> None)
   | _ \<Rightarrow> None)"

definition low_surrogate :: "string \<Rightarrow> (nat \<times> string) option" where
  "low_surrogate s = (case s of
     b # u # r \<Rightarrow> if b = backslash \<and> u = CHR ''u'' then
         (case hex4 r of
            Some (n, r') \<Rightarrow> if 56320 \<le> n \<and> n \<le> 57343 then Some (n, r') else None
          | None \<Rightarrow> None)
       else None
   | _ \<Rightarrow> None)"

text \<open>An escape sequence after its backslash: the bytes it stands for and the rest.\<close>

definition unescape :: "string \<Rightarrow> (string \<times> string) option" where
  "unescape s = (case s of
     [] \<Rightarrow> None
   | e # r \<Rightarrow>
       if e = backslash \<or> e = quote \<or> e = CHR ''/'' then Some ([e], r)
       else if e = CHR ''b'' then Some ([CHR 0x08], r) else if e = CHR ''f'' then Some ([CHR 0x0C], r)
       else if e = CHR ''n'' then Some ([CHR 0x0A], r) else if e = CHR ''r'' then Some ([CHR 0x0D], r)
       else if e = CHR ''t'' then Some ([CHR 0x09], r)
       else if e = CHR ''u'' then
         (case hex4 r of
            None \<Rightarrow> None
          | Some (n, r') \<Rightarrow>
              if 55296 \<le> n \<and> n \<le> 56319 then
                (case low_surrogate r' of
                   Some (m, r2) \<Rightarrow> Some (encode_rune (65536 + (n - 55296) * 1024 + (m - 56320)), r2)
                 | None \<Rightarrow> Some (rune_error, r'))
              else Some (encode_rune n, r'))
       else None)"

lemma hex4_length: "hex4 s = Some (n, r) \<Longrightarrow> length r < length s"
  by (auto simp: hex4_def split: list.splits option.splits)

lemma low_surrogate_length: "low_surrogate s = Some (n, r) \<Longrightarrow> length r < length s"
  by (auto simp: low_surrogate_def split: list.splits option.splits if_splits dest: hex4_length)

lemma unescape_length: "unescape s = Some (b, r) \<Longrightarrow> length r < length s"
  by (auto simp: unescape_def split: list.splits if_splits option.splits
      dest!: hex4_length low_surrogate_length)

text \<open>A string after its opening quote: the decoded bytes and the rest after the closing quote.\<close>

function unquote :: "string \<Rightarrow> (string \<times> string) option" where
  "unquote s =
     (if s = [] then None
      else let c = hd s in
        if c = quote then Some ([], tl s)
        else if of_char c < (32 :: nat) then None
        else if c = backslash then
          (case unescape (tl s) of
             None \<Rightarrow> None
           | Some (b, r) \<Rightarrow> (case unquote r of None \<Rightarrow> None | Some (x, r') \<Rightarrow> Some (b @ x, r')))
        else if rune_len s = 0 then
          (case unquote (tl s) of None \<Rightarrow> None | Some (x, r') \<Rightarrow> Some (rune_error @ x, r'))
        else (case unquote (drop (rune_len s) s) of
            None \<Rightarrow> None | Some (x, r') \<Rightarrow> Some (take (rune_len s) s @ x, r')))"
  by pat_completeness auto
termination
  by (relation "measure length")
     (auto simp: rune_len_le intro: diff_less dest!: unescape_length)

declare unquote.simps [simp del]

text \<open>White space, elements and the array. An element is a string or null, which leaves the
  empty string.\<close>

definition json_space :: "char \<Rightarrow> bool" where
  "json_space c \<longleftrightarrow> c = CHR '' '' \<or> of_char c \<in> {9, 10, 13 :: nat}"

definition skip :: "string \<Rightarrow> string" where
  "skip s = dropWhile json_space s"

definition json_elem :: "string \<Rightarrow> (string \<times> string) option" where
  "json_elem s = (case s of
     [] \<Rightarrow> None
   | c # r \<Rightarrow> if c = quote then unquote r
             else if HasPrefix s ''null'' then Some ([], drop 4 s) else None)"

lemma rune_bytes_error: "rune_bytes rune_error"
  by (simp add: rune_bytes_def rune_error_def lead_byte_def between_def)

lemma unescape_rune: "unescape s = Some (b, r) \<Longrightarrow> rune_bytes b"
  by (auto simp: unescape_def rune_bytes_encode rune_bytes_error rune_bytes_def [of "[_]"] lead_byte_def
      quote_def backslash_def
      split: list.splits if_splits option.splits)

lemma unquote_props: "unquote s = Some (x, r) \<Longrightarrow> length r < length s \<and> valid_utf8 x"
proof (induction s arbitrary: x r rule: unquote.induct)
  case (1 s)
  note u = unquote.simps [of s]
  have s0: "s \<noteq> []" using "1.prems" by (simp add: u split: if_splits)
  then have len: "length (tl s) < length s" by simp
  show ?case
  proof (cases "hd s = quote \<or> of_char (hd s) < (32 :: nat)")
    case True
    with "1.prems" len show ?thesis by (auto simp: u Let_def split: if_splits)
  next
    case F: False
    consider (esc) "hd s = backslash" | (bad) "hd s \<noteq> backslash" "rune_len s = 0"
      | (rune) "hd s \<noteq> backslash" "0 < rune_len s" by auto
    then show ?thesis
    proof cases
      case esc
      obtain b t y where E: "unescape (tl s) = Some (b, t)" "unquote t = Some (y, r)" and x: "x = b @ y"
        using "1.prems" F s0 esc by (auto simp: u Let_def split: option.splits)
      have "length r < length t \<and> valid_utf8 y" by (rule "1.IH"(1) [OF s0 refl _ _ esc E(1) refl E(2)]) (use F in auto)
      then show ?thesis using unescape_length [OF E(1)] len x valid_rune_bytes [OF unescape_rune [OF E(1)]]
        by simp
    next
      case bad
      obtain y where E: "unquote (tl s) = Some (y, r)" and x: "x = rune_error @ y"
        using "1.prems" F s0 bad by (auto simp: u Let_def split: option.splits)
      have "length r < length (tl s) \<and> valid_utf8 y" by (rule "1.IH"(2) [OF s0 refl _ _ bad E]) (use F in auto)
      then show ?thesis using len x valid_rune_bytes [OF rune_bytes_error] by simp
    next
      case rune
      obtain y where E: "unquote (drop (rune_len s) s) = Some (y, r)" and x: "x = take (rune_len s) s @ y"
        using "1.prems" F s0 rune by (auto simp: u Let_def split: option.splits)
      have "length r < length (drop (rune_len s) s) \<and> valid_utf8 y"
        by (rule "1.IH"(3) [OF s0 refl _ _ rune(1) _ E]) (use F rune in auto)
      then show ?thesis using x valid_rune_append [OF rune(2)] by auto
    qed
  qed
qed

lemma json_elem_props: "json_elem s = Some (x, r) \<Longrightarrow> length r < length s \<and> valid_utf8 x"
  by (auto simp: json_elem_def split: list.splits if_splits dest: unquote_props)

lemma skip_length: "length (skip s) \<le> length s"
  by (simp add: skip_def length_dropWhile_le)

function json_rest :: "string \<Rightarrow> (string list \<times> string) option" where
  "json_rest s =
     (case json_elem (skip s) of
        None \<Rightarrow> None
      | Some (x, r) \<Rightarrow>
          (case skip r of
             [] \<Rightarrow> None
           | c # r' \<Rightarrow>
               if c = CHR '']'' then Some ([x], r')
               else if c = CHR '','' then
                 (case json_rest r' of None \<Rightarrow> None | Some (xs, r2) \<Rightarrow> Some (x # xs, r2))
               else None))"
  by pat_completeness auto
termination
proof (relation "measure length")
  fix s p x r c r'
  assume "json_elem (skip s) = Some p" "(x, r) = p" "skip r = c # r'"
  then have "length r < length (skip s)" "Suc (length r') \<le> length r"
    using json_elem_props skip_length [of r] by (auto simp: eq_commute)
  then show "(r', s) \<in> measure length" using skip_length [of s] by simp
qed simp

declare json_rest.simps [simp del]

definition json_Unmarshal :: "string \<Rightarrow> string list option" where
  "json_Unmarshal s =
     (let t = skip s in
      if HasPrefix t ''null'' \<and> skip (drop 4 t) = [] then Some []
      else case t of
        [] \<Rightarrow> None
      | c # r \<Rightarrow>
          if c \<noteq> CHR ''['' then None
          else (case skip r of
              [] \<Rightarrow> None
            | d # r' \<Rightarrow>
                if d = CHR '']'' then (if skip r' = [] then Some [] else None)
                else (case json_rest r of
                    None \<Rightarrow> None
                  | Some (xs, r2) \<Rightarrow> if skip r2 = [] then Some xs else None)))"

section \<open>The round trip\<close>

definition prepend :: "string \<Rightarrow> (string \<times> string) option \<Rightarrow> (string \<times> string) option" where
  "prepend b p = (case p of None \<Rightarrow> None | Some (x, r) \<Rightarrow> Some (b @ x, r))"

lemma prepend_Some [simp]: "prepend b (Some (x, r)) = Some (b @ x, r)"
  by (simp add: prepend_def)

lemma unquote_rune:
  assumes b: "rune_bytes b" and hd: "hd b \<noteq> quote" "hd b \<noteq> backslash" "32 \<le> (of_char (hd b) :: nat)"
  shows "unquote (b @ t) = prepend b (unquote t)"
proof -
  have n: "rune_len (b @ t) = length b"
    using rune_len_take [of b t] b unfolding rune_bytes_def by (metis order_refl take_all)
  have ne: "b \<noteq> []" using b by (auto simp: rune_bytes_def)
  then have "unquote (b @ t) = (case unquote (drop (rune_len (b @ t)) (b @ t)) of
      None \<Rightarrow> None | Some (x, r') \<Rightarrow> Some (take (rune_len (b @ t)) (b @ t) @ x, r'))"
    using hd n by (simp add: unquote.simps [of "b @ t"] Let_def)
  then show ?thesis unfolding n by (simp add: prepend_def split: option.split)
qed

lemma hex_lower_val: "n < 16 \<Longrightarrow> hex_digit_val (hex_lower n) = Some n"
  by (auto simp: hex_digit_val_def hex_lower_def Let_def)

lemma hex4_escape:
  assumes "n < 65536"
  shows "hex4 (drop 2 (u_escape n) @ t) = Some (n, t)"
proof -
  have "n = n div 4096 * 4096 + n div 256 mod 16 * 256 + n div 16 mod 16 * 16 + n mod 16"
  proof -
    have "n div 256 = n div 16 div 16" "n div 4096 = n div 256 div 16" by (simp_all flip: div_mult2_eq)
    then show ?thesis
      using div_mult_mod_eq [of n 16] div_mult_mod_eq [of "n div 16" 16] div_mult_mod_eq [of "n div 256" 16]
      by linarith
  qed
  moreover have "n div 4096 < 16" using assms by simp
  ultimately show ?thesis by (simp add: hex4_def u_escape_def hex_lower_val)
qed

lemma unquote_escape:
  assumes "u = backslash # e" "unescape (e @ t) = Some (b, t)"
  shows "unquote (u @ t) = prepend b (unquote t)"
  using assms(2) unfolding assms(1) append_Cons
  by (simp add: unquote.simps [of "backslash # e @ t"] Let_def prepend_def)
     (simp add: quote_def backslash_def)

lemma unquote_u_escape:
  assumes "n < 65536" "\<not> (55296 \<le> n \<and> n \<le> 57343)"
  shows "unquote (u_escape n @ t) = prepend (encode_rune n) (unquote t)"
proof (rule unquote_escape)
  show "u_escape n = backslash # drop 1 (u_escape n)" by (simp add: u_escape_def)
  have "drop 1 (u_escape n) @ t = CHR ''u'' # (drop 2 (u_escape n) @ t)" by (simp add: u_escape_def)
  then show "unescape (drop 1 (u_escape n) @ t) = Some (encode_rune n, t)"
    using hex4_escape [OF assms(1), of t] assms(2) by (auto simp: unescape_def backslash_def quote_def)
qed

lemma unquote_escape_byte:
  assumes c: "of_char c < (128 :: nat)"
  shows "unquote (escape_byte c @ t) = prepend [c] (unquote t)"
proof -
  let ?x = "of_char c :: nat"
  have bk: "c = char_of ?x" by simp
  have enc: "encode_rune ?x = [c]" using c by (simp add: encode_rune_def)
  consider (plain) "c = backslash \<or> c = quote"
    | (short) "?x \<in> {8, 9, 10, 12, 13}" "c \<noteq> backslash" "c \<noteq> quote"
    | (uni) "escape_byte c = u_escape ?x"
    | (self) "escape_byte c = [c]" "c \<noteq> backslash" "c \<noteq> quote" "32 \<le> ?x"
  proof -
    have "c = backslash \<or> c = quote \<or> ?x \<in> {8, 9, 10, 12, 13} \<or> escape_byte c = u_escape ?x
        \<or> escape_byte c = [c] \<and> 32 \<le> ?x"
      by (simp add: escape_byte_def Let_def)
    then show thesis using that by blast
  qed
  then show ?thesis
  proof cases
    case plain
    then have e: "escape_byte c = backslash # [c]" by (simp add: escape_byte_def)
    show ?thesis by (rule unquote_escape [OF e]) (use plain in \<open>auto simp: unescape_def\<close>)
  next
    case short
    then have "c = CHR 0x08 \<or> c = CHR 0x09 \<or> c = CHR 0x0A \<or> c = CHR 0x0C \<or> c = CHR 0x0D"
      using bk by (auto simp: char_of_def bit_Suc_0_iff)
    then obtain e where e: "escape_byte c = backslash # [e]" "unescape ([e] @ t) = Some ([c], t)"
      by (auto simp: escape_byte_def unescape_def quote_def backslash_def)
    show ?thesis by (rule unquote_escape [OF e])
  next
    case uni
    then show ?thesis using unquote_u_escape [of ?x t] c enc by simp
  next
    case self
    then show ?thesis using unquote_rune [of "[c]" t] c by (simp add: rune_bytes_def lead_byte_def)
  qed
qed

lemma rune_bytes_ascii: "rune_bytes b \<Longrightarrow> of_char (hd b) < (128 :: nat) \<Longrightarrow> b = [hd b]"
  by (cases b) (auto simp: rune_bytes_def lead_byte_def)

lemma rune_bytes_ne: "rune_bytes b \<Longrightarrow> b \<noteq> []"
  by (auto simp: rune_bytes_def)

lemma unquote_escape_rune:
  assumes b: "rune_bytes b"
  shows "unquote (escape_rune b @ t) = prepend b (unquote t)"
proof (cases "of_char (hd b) < (128 :: nat)")
  case True
  with b rune_bytes_ascii have "b = [hd b]" by blast
  then show ?thesis using unquote_escape_byte [OF True, of t] True
    by (cases b) (auto simp: escape_rune_def)
next
  case False
  have ne: "b \<noteq> []" using b by (rule rune_bytes_ne)
  have "encode_rune 8232 = line_sep ! 0" "encode_rune 8233 = line_sep ! 1"
    by (simp_all add: encode_rune_def line_sep_def char_of_def bit_Suc_0_iff)
  moreover have "unquote (b @ t) = prepend b (unquote t)"
    by (rule unquote_rune [OF b]) (use False in \<open>auto simp: quote_def backslash_def\<close>)
  ultimately show ?thesis using False ne unquote_u_escape [of 8232 t] unquote_u_escape [of 8233 t]
    by (cases b) (auto simp: escape_rune_def)
qed

lemma unquote_escape_text: "valid_utf8 s \<Longrightarrow> unquote (escape_text s @ quote # t) = Some (s, t)"
proof (induction s rule: valid_utf8.induct)
  case (1 s)
  show ?case
  proof (cases "s = []")
    case True
    then show ?thesis by (simp add: escape_text.simps unquote.simps [of "quote # t"])
  next
    case False
    then have n: "0 < rune_len s" and v: "valid_utf8 (drop (rune_len s) s)"
      using "1.prems" by (auto simp: valid_utf8.simps [of s] split: if_splits)
    have "escape_text s @ quote # t
        = escape_rune (take (rune_len s) s) @ escape_text (drop (rune_len s) s) @ quote # t"
      using False n by (simp add: escape_text.simps [of s])
    moreover have "unquote (escape_text (drop (rune_len s) s) @ quote # t) = Some (drop (rune_len s) s, t)"
      using "1.IH" False n v by simp
    ultimately show ?thesis using unquote_escape_rune [OF rune_bytes_take [OF n]] by simp
  qed
qed

lemma json_elem_string:
  "valid_utf8 s \<Longrightarrow> json_elem (skip (json_string s @ t)) = Some (s, t)"
  using unquote_escape_text [of s t]
  by (simp add: json_string_def skip_def json_elem_def json_space_def quote_def)

lemma json_rest_elems:
  "list_all valid_utf8 xs \<Longrightarrow> xs \<noteq> [] \<Longrightarrow> json_rest (json_elems xs @ CHR '']'' # t) = Some (xs, t)"
proof (induction xs rule: json_elems.induct)
  case (2 x)
  then show ?case using json_elem_string [of x "CHR '']'' # t"]
    by (simp add: json_rest.simps [of "json_string x @ CHR '']'' # t"] skip_def [of "CHR '']'' # t"] json_space_def)
next
  case (3 x y xs)
  let ?r = "json_elems (y # xs) @ CHR '']'' # t"
  have "json_elem (skip (json_string x @ CHR '','' # ?r)) = Some (x, CHR '','' # ?r)"
    using 3 by (intro json_elem_string) simp
  with 3 show ?case
    by (simp add: json_rest.simps [of "json_string x @ CHR '','' # ?r"] skip_def [of "CHR '','' # ?r"] json_space_def)
qed simp

lemma json_roundtrip:
  assumes "list_all valid_utf8 xs"
  shows "json_Unmarshal (json_Marshal xs) = Some xs"
proof (cases xs)
  case Nil
  then show ?thesis by (simp add: json_Unmarshal_def json_Marshal_def skip_def json_space_def HasPrefix_def)
next
  case (Cons y ys)
  let ?s = "json_elems xs @ '']''"
  obtain r where r: "?s = quote # r" using Cons by (cases ys) (auto simp: json_string_def)
  have "json_rest ?s = Some (xs, [])" using json_rest_elems [OF assms, of "[]"] Cons by simp
  moreover have "skip ?s = ?s" using r by (simp add: skip_def json_space_def quote_def)
  moreover have "json_Marshal xs = CHR ''['' # ?s" by (simp add: json_Marshal_def)
  ultimately show ?thesis using r
    by (simp add: json_Unmarshal_def skip_def [of "CHR ''['' # _"] json_space_def HasPrefix_def quote_def skip_def [of "[]"])
qed

lemma json_rest_valid: "json_rest s = Some (xs, r) \<Longrightarrow> list_all valid_utf8 xs"
proof (induction s arbitrary: xs r rule: json_rest.induct)
  case (1 s)
  obtain x t where E: "json_elem (skip s) = Some (x, t)"
    using "1.prems" by (auto simp: json_rest.simps [of s] split: option.splits)
  have v: "valid_utf8 x" using json_elem_props [OF E] by simp
  obtain c r' where K: "skip t = c # r'"
    using "1.prems" E by (auto simp: json_rest.simps [of s] split: list.splits)
  show ?case
  proof (cases "c = CHR '']''")
    case True
    with "1.prems" E K v show ?thesis by (auto simp: json_rest.simps [of s])
  next
    case False
    then obtain ys where "json_rest r' = Some (ys, r)" "xs = x # ys" "c = CHR '',''"
      using "1.prems" E K by (auto simp: json_rest.simps [of s] split: if_splits option.splits)
    then show ?thesis using "1.IH" [OF E refl K False] v by simp
  qed
qed

lemma json_Unmarshal_valid: "json_Unmarshal s = Some xs \<Longrightarrow> list_all valid_utf8 xs"
  by (auto simp: json_Unmarshal_def Let_def split: if_splits list.splits option.splits
      dest: json_rest_valid)

end
