(* ===== verification/Config_Fields.thy ===== *)
theory Config_Fields
  imports Go_Duration Go_Json Body_Codec "HOL-Library.List_Lexorder" "HOL-Library.Char_ord"
begin

text \<open>
  The configuration (\<^verbatim>\<open>internal/server/config/config.go, fields.go\<close>): the record of all settings and
  the table of its fields. Every operation of the package walks this table: a field has its keys in
  the database and in YAML, parses and validates text, formats its value for both stores and copies
  it between configurations.
\<close>

section \<open>The configuration record\<close>

record config =
  ListenerAddress :: string
  ListenerPort :: int
  LogDirectory :: string
  LogLevel :: string
  LogRollover :: string
  LogRetentionCount :: int
  SiteName :: string
  Themes :: "string list"
  CurrentTheme :: string
  ImageDirectory :: string
  ETagVersion :: string
  SessionMaxAge :: int
  SessionHttpOnly :: bool
  SessionSecure :: bool
  SessionSameSite :: string
  EnableHTTPCache :: bool
  CacheMaxSize :: int
  CacheMaxTime :: int
  CacheMaxEntrySize :: int
  CacheCleanupInterval :: int
  DBMaxPoolSize :: int
  DBMinIdleConnections :: int
  DBOptimizeInterval :: int
  WorkerPoolMax :: int
  WorkerPoolMinIdle :: int
  WorkerPoolMaxIdleTime :: int
  DBPoolMonitorInterval :: int
  QueueSize :: int
  EnableCachePreload :: bool
  MaxHTTPCacheEntryInsertPerTransaction :: int
  HTTPCacheBodyCodec :: string
  DQueMaxDiskBytes :: int
  RunFileDiscovery :: bool
  RestartAfterDiscovery :: bool
  LockoutDuration :: int
  LockoutThreshold :: int
  LoginRateLimitPerIP :: int
  HelpText :: "string \<Rightarrow> string option"
  ExampleValues :: "string \<Rightarrow> string option"

definition DefaultDQueMaxDiskBytes :: int where "DefaultDQueMaxDiskBytes = 50 * 1024 * 1024 * 1024"

abbreviation seconds :: "int \<Rightarrow> int" where "seconds n \<equiv> n * 1000000000"

text \<open>\<^verbatim>\<open>DefaultConfig\<close> reads the date; \<^term>\<open>today\<close> is the date as eight digits.\<close>

definition DefaultConfig :: "string \<Rightarrow> config" where
  "DefaultConfig today =
     \<lparr>ListenerAddress = ''0.0.0.0'', ListenerPort = 8081,
      LogDirectory = [], LogLevel = ''info'', LogRollover = ''weekly'', LogRetentionCount = 7,
      SiteName = ''SFPG Gallery'', Themes = [''dark'', ''light''], CurrentTheme = ''dark'',
      ImageDirectory = [], ETagVersion = today @ ''-01'',
      SessionMaxAge = 7 * 24 * 3600, SessionHttpOnly = True, SessionSecure = True,
      SessionSameSite = ''Lax'', EnableHTTPCache = True, CacheMaxSize = 500 * 1024 * 1024,
      CacheMaxTime = seconds (30 * 24 * 3600), CacheMaxEntrySize = 10 * 1024 * 1024,
      CacheCleanupInterval = seconds 300, DBMaxPoolSize = 100, DBMinIdleConnections = 10,
      DBOptimizeInterval = seconds 3600, WorkerPoolMax = 0, WorkerPoolMinIdle = 0,
      WorkerPoolMaxIdleTime = seconds 10, DBPoolMonitorInterval = seconds 60, QueueSize = 10000,
      EnableCachePreload = True, MaxHTTPCacheEntryInsertPerTransaction = 10,
      HTTPCacheBodyCodec = ''zstd-1'', DQueMaxDiskBytes = DefaultDQueMaxDiskBytes,
      RunFileDiscovery = True, RestartAfterDiscovery = False,
      LockoutDuration = 3600, LockoutThreshold = 3, LoginRateLimitPerIP = 10,
      HelpText = Map.empty, ExampleValues = Map.empty\<rparr>"

section \<open>Errors and parsers\<close>

datatype setting_error =
    Invalid string string
  | AtLeast string int int
  | NonNegative string int
  | PortRange int
  | NotOneOf string string
  | BadCodec codec_error
  | IdleExceedsPool int int
  | MinIdleExceedsMax int int
  | NullValue
  | BadSequence
  | UnsupportedValue
  | YamlKey string setting_error

definition ParseBool :: "string \<Rightarrow> bool option" where
  "ParseBool s =
     (if s \<in> {''1'', ''t'', ''T'', ''TRUE'', ''true'', ''True''} then Some True
      else if s \<in> {''0'', ''f'', ''F'', ''FALSE'', ''false'', ''False''} then Some False
      else None)"

definition FormatBool :: "bool \<Rightarrow> string" where
  "FormatBool b = (if b then ''true'' else ''false'')"

text \<open>\<^verbatim>\<open>strconv.Itoa\<close> and \<^verbatim>\<open>strconv.FormatInt\<close>; \<^verbatim>\<open>Atoi\<close> is \<^const>\<open>parse_int64\<close>.\<close>

definition Itoa :: "int \<Rightarrow> string" where
  "Itoa n = (if n < 0 then CHR ''-'' # dec_of_nat (nat (- n)) else dec_of_nat (nat n))"

definition parseBoolNamed :: "string \<Rightarrow> string \<Rightarrow> setting_error + bool" where
  "parseBoolNamed name v = (case ParseBool v of None \<Rightarrow> Inl (Invalid name v) | Some b \<Rightarrow> Inr b)"

definition parseIntNamed :: "string \<Rightarrow> string \<Rightarrow> setting_error + int" where
  "parseIntNamed name v = (case parse_int64 v of None \<Rightarrow> Inl (Invalid name v) | Some n \<Rightarrow> Inr n)"

definition parseIntMin :: "string \<Rightarrow> string \<Rightarrow> int \<Rightarrow> string \<Rightarrow> setting_error + int" where
  "parseIntMin parseName valName minimum v =
     (case parse_int64 v of
        None \<Rightarrow> Inl (Invalid parseName v)
      | Some n \<Rightarrow> if n < minimum then Inl (AtLeast valName minimum n) else Inr n)"

definition parseIntNonNeg :: "string \<Rightarrow> string \<Rightarrow> string \<Rightarrow> setting_error + int" where
  "parseIntNonNeg parseName valName v =
     (case parse_int64 v of
        None \<Rightarrow> Inl (Invalid parseName v)
      | Some n \<Rightarrow> if n < 0 then Inl (NonNegative valName n) else Inr n)"

definition parsePort :: "string \<Rightarrow> setting_error + int" where
  "parsePort v =
     (case parse_int64 v of
        None \<Rightarrow> Inl (Invalid ''port value'' v)
      | Some n \<Rightarrow> if n < 1 \<or> n > 65535 then Inl (PortRange n) else Inr n)"

definition parseInt64NonNeg :: "string \<Rightarrow> string \<Rightarrow> setting_error + int" where
  "parseInt64NonNeg name v =
     (case parse_int64 v of
        None \<Rightarrow> Inl (Invalid name v)
      | Some n \<Rightarrow> if n < 0 then Inl (NonNegative name n) else Inr n)"

definition parseDurationNamed :: "string \<Rightarrow> string \<Rightarrow> setting_error + int" where
  "parseDurationNamed friendlyName v =
     (case ParseDuration v of None \<Rightarrow> Inl (Invalid friendlyName v) | Some d \<Rightarrow> Inr d)"

definition validateHTTPCacheBodyCodec :: "registry \<Rightarrow> string \<Rightarrow> setting_error + string" where
  "validateHTTPCacheBodyCodec reg v =
     (case ValidateWriteCodecID reg v of Some e \<Rightarrow> Inl (BadCodec e) | None \<Rightarrow> Inr v)"

definition validateOneOfNamed :: "string \<Rightarrow> string list \<Rightarrow> string \<Rightarrow> setting_error + string" where
  "validateOneOfNamed name allowed v =
     (if ToLower v \<in> set (map ToLower allowed) then Inr v else Inl (NotOneOf name v))"

definition validateOneOfExactNamed :: "string \<Rightarrow> string list \<Rightarrow> string \<Rightarrow> setting_error + string" where
  "validateOneOfExactNamed name allowed v =
     (if v \<in> set allowed then Inr v else Inl (NotOneOf name v))"

definition parseDBPoolMonitorInterval :: "string \<Rightarrow> setting_error + int" where
  "parseDBPoolMonitorInterval v =
     (case ParseDuration v of
        None \<Rightarrow> Inl (Invalid ''db pool monitor interval'' v)
      | Some d \<Rightarrow> if d < 0 then Inl (NonNegative ''db pool monitor interval'' d) else Inr d)"

section \<open>The field table\<close>

text \<open>A decoded YAML value. Values the configuration cannot use (floats, mappings) carry their JSON
  form, which exists unless \<^verbatim>\<open>json.Marshal\<close> rejects them.\<close>

datatype yaml = YNull | YStr string | YInt int | YBool bool | YSeq "yaml list" | YOther "string option"

text \<open>A typed field: \<^term>\<open>f_get\<close> and \<^term>\<open>f_put\<close> are reading and writing through the pointer
  \<^verbatim>\<open>ptr\<close>, \<^term>\<open>f_yaml\<close> is \<^verbatim>\<open>yamlFmt\<close> or the raw value, \<^term>\<open>f_zero\<close> the zero value of the
  type.\<close>

record 'a field =
  f_dbKey :: string
  f_yamlKey :: string
  f_get :: "config \<Rightarrow> 'a"
  f_put :: "'a \<Rightarrow> config \<Rightarrow> config"
  f_parse :: "string \<Rightarrow> setting_error + 'a"
  f_format :: "'a \<Rightarrow> string"
  f_yaml :: "'a \<Rightarrow> yaml"
  f_zero :: 'a
  f_zeroNever :: bool
  f_restart :: bool
  f_isCheckbox :: bool

record config_field =
  dbKey :: string
  yamlKey :: string
  set_field :: "config \<Rightarrow> string \<Rightarrow> setting_error + config"
  getDB :: "config \<Rightarrow> string"
  getYAML :: "config \<Rightarrow> yaml"
  isZero :: "config \<Rightarrow> bool"
  restart :: bool
  setFrom :: "config \<Rightarrow> config \<Rightarrow> config"
  IsCheckbox :: bool

definition field_set :: "'a field \<Rightarrow> config \<Rightarrow> string \<Rightarrow> setting_error + config" where
  "field_set f c v = (case f_parse f v of Inl e \<Rightarrow> Inl e | Inr x \<Rightarrow> Inr (f_put f x c))"

definition field_isZero :: "'a field \<Rightarrow> config \<Rightarrow> bool" where
  "field_isZero f c \<longleftrightarrow> \<not> f_zeroNever f \<and> f_get f c = f_zero f"

definition toConfigField :: "'a field \<Rightarrow> config_field" where
  "toConfigField f =
     \<lparr>dbKey = f_dbKey f, yamlKey = f_yamlKey f, set_field = field_set f,
      getDB = (\<lambda>c. f_format f (f_get f c)), getYAML = (\<lambda>c. f_yaml f (f_get f c)),
      isZero = field_isZero f, restart = f_restart f,
      setFrom = (\<lambda>dst src. f_put f (f_get f src) dst), IsCheckbox = f_isCheckbox f\<rparr>"

definition stringField ::
  "string \<Rightarrow> string \<Rightarrow> (config \<Rightarrow> string) \<Rightarrow> (string \<Rightarrow> config \<Rightarrow> config) \<Rightarrow>
   (string \<Rightarrow> setting_error + string) \<Rightarrow> bool \<Rightarrow> string field" where
  "stringField key ykey get put validate rs =
     \<lparr>f_dbKey = key, f_yamlKey = ykey, f_get = get, f_put = put, f_parse = validate,
      f_format = (\<lambda>v. v), f_yaml = YStr, f_zero = [], f_zeroNever = False, f_restart = rs,
      f_isCheckbox = False\<rparr>"

definition intField ::
  "string \<Rightarrow> string \<Rightarrow> (config \<Rightarrow> int) \<Rightarrow> (int \<Rightarrow> config \<Rightarrow> config) \<Rightarrow>
   (string \<Rightarrow> setting_error + int) \<Rightarrow> bool \<Rightarrow> int field" where
  "intField key ykey get put parse rs =
     \<lparr>f_dbKey = key, f_yamlKey = ykey, f_get = get, f_put = put, f_parse = parse,
      f_format = Itoa, f_yaml = YInt, f_zero = 0, f_zeroNever = False, f_restart = rs,
      f_isCheckbox = False\<rparr>"

definition boolField ::
  "string \<Rightarrow> string \<Rightarrow> string \<Rightarrow> (config \<Rightarrow> bool) \<Rightarrow> (bool \<Rightarrow> config \<Rightarrow> config) \<Rightarrow> bool \<Rightarrow> bool \<Rightarrow>
   bool field" where
  "boolField key ykey name get put rs checkbox =
     \<lparr>f_dbKey = key, f_yamlKey = ykey, f_get = get, f_put = put, f_parse = parseBoolNamed name,
      f_format = FormatBool, f_yaml = YBool, f_zero = False, f_zeroNever = True, f_restart = rs,
      f_isCheckbox = checkbox\<rparr>"

definition int64Field ::
  "string \<Rightarrow> string \<Rightarrow> (config \<Rightarrow> int) \<Rightarrow> (int \<Rightarrow> config \<Rightarrow> config) \<Rightarrow>
   (string \<Rightarrow> setting_error + int) \<Rightarrow> bool \<Rightarrow> int field" where
  "int64Field key ykey get put parse rs =
     \<lparr>f_dbKey = key, f_yamlKey = ykey, f_get = get, f_put = put, f_parse = parse,
      f_format = Itoa, f_yaml = YInt, f_zero = 0, f_zeroNever = False, f_restart = rs,
      f_isCheckbox = False\<rparr>"

definition int64FieldZeroNever ::
  "string \<Rightarrow> string \<Rightarrow> (config \<Rightarrow> int) \<Rightarrow> (int \<Rightarrow> config \<Rightarrow> config) \<Rightarrow>
   (string \<Rightarrow> setting_error + int) \<Rightarrow> bool \<Rightarrow> int field" where
  "int64FieldZeroNever key ykey get put parse rs =
     (int64Field key ykey get put parse rs)\<lparr>f_zeroNever := True\<rparr>"

definition durationField ::
  "string \<Rightarrow> string \<Rightarrow> string \<Rightarrow> (config \<Rightarrow> int) \<Rightarrow> (int \<Rightarrow> config \<Rightarrow> config) \<Rightarrow> bool \<Rightarrow> int field" where
  "durationField key ykey friendlyName get put rs =
     \<lparr>f_dbKey = key, f_yamlKey = ykey, f_get = get, f_put = put,
      f_parse = parseDurationNamed friendlyName, f_format = Duration_String,
      f_yaml = (\<lambda>d. YStr (Duration_String d)), f_zero = 0, f_zeroNever = False, f_restart = rs,
      f_isCheckbox = False\<rparr>"

definition monitorField :: config_field where
  "monitorField =
     \<lparr>dbKey = ''db_pool_monitor_interval'', yamlKey = ''db-pool-monitor-interval'',
      set_field = (\<lambda>c v. case parseDBPoolMonitorInterval v of
          Inl e \<Rightarrow> Inl e | Inr d \<Rightarrow> Inr (c\<lparr>DBPoolMonitorInterval := d\<rparr>)),
      getDB = (\<lambda>c. Duration_String (DBPoolMonitorInterval c)),
      getYAML = (\<lambda>c. YStr (Duration_String (DBPoolMonitorInterval c))),
      isZero = (\<lambda>c. DBPoolMonitorInterval c = 0), restart = True,
      setFrom = (\<lambda>dst src. dst\<lparr>DBPoolMonitorInterval := DBPoolMonitorInterval src\<rparr>),
      IsCheckbox = False\<rparr>"

definition themesField :: config_field where
  "themesField =
     \<lparr>dbKey = ''themes'', yamlKey = ''themes'',
      set_field = (\<lambda>c v. case json_Unmarshal v of
          None \<Rightarrow> Inl (Invalid ''themes JSON'' v) | Some ts \<Rightarrow> Inr (c\<lparr>Themes := ts\<rparr>)),
      getDB = (\<lambda>c. json_Marshal (sort (Themes c))),
      getYAML = (\<lambda>c. YSeq (map YStr (Themes c))),
      isZero = (\<lambda>c. Themes c = []), restart = False,
      setFrom = (\<lambda>dst src. dst\<lparr>Themes := Themes src\<rparr>), IsCheckbox = False\<rparr>"

definition all_fields :: "registry \<Rightarrow> config_field list" where
  "all_fields reg =
    [toConfigField (stringField ''listener_address'' ''listener-address'' ListenerAddress (\<lambda>v. ListenerAddress_update (\<lambda>_. v)) Inr True),
     toConfigField (stringField ''log_directory'' ''log-directory'' LogDirectory (\<lambda>v. LogDirectory_update (\<lambda>_. v)) Inr True),
     toConfigField (stringField ''log_level'' ''log-level'' LogLevel (\<lambda>v. LogLevel_update (\<lambda>_. v)) (validateOneOfNamed ''log level'' [''debug'', ''info'', ''warn'', ''error'']) False),
     toConfigField (stringField ''log_rollover'' ''log-rollover'' LogRollover (\<lambda>v. LogRollover_update (\<lambda>_. v)) (validateOneOfNamed ''log rollover'' [''daily'', ''weekly'', ''monthly'']) True),
     toConfigField (stringField ''site_name'' ''site-name'' SiteName (\<lambda>v. SiteName_update (\<lambda>_. v)) Inr False),
     toConfigField (stringField ''current_theme'' ''current-theme'' CurrentTheme (\<lambda>v. CurrentTheme_update (\<lambda>_. v)) Inr False),
     toConfigField (stringField ''image_directory'' ''image-directory'' ImageDirectory (\<lambda>v. ImageDirectory_update (\<lambda>_. v)) Inr True),
     toConfigField (stringField ''etag_version'' ''etag-version'' ETagVersion (\<lambda>v. ETagVersion_update (\<lambda>_. v)) Inr False),
     toConfigField (stringField ''http_cache_body_codec'' ''http-cache-body-codec'' HTTPCacheBodyCodec (\<lambda>v. HTTPCacheBodyCodec_update (\<lambda>_. v)) (validateHTTPCacheBodyCodec reg) False),
     toConfigField (stringField ''session_same_site'' ''session-same-site'' SessionSameSite (\<lambda>v. SessionSameSite_update (\<lambda>_. v)) (validateOneOfExactNamed ''session same-site'' [''Lax'', ''Strict'', ''None'']) True),
     toConfigField (intField ''listener_port'' ''listener-port'' ListenerPort (\<lambda>v. ListenerPort_update (\<lambda>_. v)) parsePort True),
     toConfigField (intField ''log_retention_count'' ''log-retention-count'' LogRetentionCount (\<lambda>v. LogRetentionCount_update (\<lambda>_. v)) (parseIntMin ''log retention count'' ''log retention count'' 1) True),
     toConfigField (intField ''session_max_age'' ''session-max-age'' SessionMaxAge (\<lambda>v. SessionMaxAge_update (\<lambda>_. v)) (parseIntNamed ''session max age'') True),
     toConfigField (intField ''db_max_pool_size'' ''db-max-pool-size'' DBMaxPoolSize (\<lambda>v. DBMaxPoolSize_update (\<lambda>_. v)) (parseIntMin ''db max pool size'' ''database max pool size'' 1) True),
     toConfigField (intField ''db_min_idle_connections'' ''db-min-idle-connections'' DBMinIdleConnections (\<lambda>v. DBMinIdleConnections_update (\<lambda>_. v)) (parseIntNonNeg ''db min idle connections'' ''database min idle connections'') True),
     toConfigField (intField ''worker_pool_max'' ''worker-pool-max'' WorkerPoolMax (\<lambda>v. WorkerPoolMax_update (\<lambda>_. v)) (parseIntNonNeg ''worker pool max'' ''worker pool max'') True),
     toConfigField (intField ''worker_pool_min_idle'' ''worker-pool-min-idle'' WorkerPoolMinIdle (\<lambda>v. WorkerPoolMinIdle_update (\<lambda>_. v)) (parseIntNonNeg ''worker pool min idle'' ''worker pool min idle'') True),
     toConfigField (intField ''queue_size'' ''queue-size'' QueueSize (\<lambda>v. QueueSize_update (\<lambda>_. v)) (parseIntMin ''queue size'' ''queue size'' 1) True),
     toConfigField (intField ''max_http_cache_entry_insert_per_transaction'' ''max-http-cache-entry-insert-per-transaction'' MaxHTTPCacheEntryInsertPerTransaction (\<lambda>v. MaxHTTPCacheEntryInsertPerTransaction_update (\<lambda>_. v)) (parseIntNamed ''max http cache entry insert per transaction'') False),
     toConfigField (intField ''lockout_duration'' ''lockout-duration'' LockoutDuration (\<lambda>v. LockoutDuration_update (\<lambda>_. v)) (parseIntNamed ''lockout duration'') False),
     toConfigField (intField ''lockout_threshold'' ''lockout-threshold'' LockoutThreshold (\<lambda>v. LockoutThreshold_update (\<lambda>_. v)) (parseIntMin ''lockout threshold'' ''lockout threshold'' 1) False),
     toConfigField (intField ''login_rate_limit_per_ip'' ''login-rate-limit-per-ip'' LoginRateLimitPerIP (\<lambda>v. LoginRateLimitPerIP_update (\<lambda>_. v)) (parseIntNonNeg ''login rate limit per IP'' ''login rate limit per IP'') False),
     toConfigField (boolField ''session_http_only'' ''session-http-only'' ''session http only'' SessionHttpOnly (\<lambda>v. SessionHttpOnly_update (\<lambda>_. v)) True True),
     toConfigField (boolField ''session_secure'' ''session-secure'' ''session secure'' SessionSecure (\<lambda>v. SessionSecure_update (\<lambda>_. v)) True True),
     toConfigField (boolField ''enable_http_cache'' ''http-cache'' ''http cache enable'' EnableHTTPCache (\<lambda>v. EnableHTTPCache_update (\<lambda>_. v)) True True),
     toConfigField (boolField ''enable_cache_preload'' ''enable-cache-preload'' ''enable cache preload'' EnableCachePreload (\<lambda>v. EnableCachePreload_update (\<lambda>_. v)) False True),
     toConfigField (boolField ''run_file_discovery'' ''discover'' ''run file discovery'' RunFileDiscovery (\<lambda>v. RunFileDiscovery_update (\<lambda>_. v)) False True),
     toConfigField (boolField ''restart_after_discovery'' ''restart-after-discovery'' ''restart after discovery'' RestartAfterDiscovery (\<lambda>v. RestartAfterDiscovery_update (\<lambda>_. v)) False True),
     toConfigField (int64Field ''cache_max_size'' ''cache-max-size'' CacheMaxSize (\<lambda>v. CacheMaxSize_update (\<lambda>_. v)) (parseInt64NonNeg ''cache max size'') True),
     toConfigField (int64Field ''cache_max_entry_size'' ''cache-max-entry-size'' CacheMaxEntrySize (\<lambda>v. CacheMaxEntrySize_update (\<lambda>_. v)) (parseInt64NonNeg ''cache max entry size'') True),
     toConfigField (int64FieldZeroNever ''dque_max_disk_bytes'' ''dque-max-disk-bytes'' DQueMaxDiskBytes (\<lambda>v. DQueMaxDiskBytes_update (\<lambda>_. v)) (parseInt64NonNeg ''dque max disk bytes'') False),
     toConfigField (durationField ''cache_max_time'' ''cache-max-time'' ''cache max time'' CacheMaxTime (\<lambda>v. CacheMaxTime_update (\<lambda>_. v)) True),
     toConfigField (durationField ''cache_cleanup_interval'' ''cache-cleanup-interval'' ''cache cleanup interval'' CacheCleanupInterval (\<lambda>v. CacheCleanupInterval_update (\<lambda>_. v)) True),
     toConfigField (durationField ''db_optimize_interval'' ''db-optimize-interval'' ''db optimize interval'' DBOptimizeInterval (\<lambda>v. DBOptimizeInterval_update (\<lambda>_. v)) True),
     toConfigField (durationField ''worker_pool_max_idle_time'' ''worker-pool-max-idle-time'' ''worker pool max idle time'' WorkerPoolMaxIdleTime (\<lambda>v. WorkerPoolMaxIdleTime_update (\<lambda>_. v)) True),
     monitorField,
     themesField]"
end
