(* ===== verification/Getopt.thy ===== *)
theory Getopt
  imports Go_Text
begin

text \<open>
  Command line and environment (\<^verbatim>\<open>internal/getopt/opt.go\<close>). An option remembers whether it was set:
  \<^verbatim>\<open>OptInt\<close>, \<^verbatim>\<open>OptBool\<close> and \<^verbatim>\<open>OptString\<close> are options of HOL. The environment is a function from
  names to values (empty when unset), the command line the flags the \<^verbatim>\<open>flag\<close> package visits, with
  their parsed values. \<^verbatim>\<open>usageExit\<close> and \<^verbatim>\<open>osExit\<close> end the process: they are the left branch.
\<close>

section \<open>Options\<close>

record opt =
  o_Port :: "int option"
  o_RunFileDiscovery :: "bool option"
  o_DebugDelayMS :: "int option"
  o_Profile :: "string option"
  o_EnableHTTPCache :: "bool option"
  o_EnableCachePreload :: "bool option"
  o_SessionSecret :: "string option"
  o_SessionSecure :: "bool option"
  o_SessionHttpOnly :: "bool option"
  o_SessionMaxAge :: "int option"
  o_SessionSameSite :: "string option"
  o_LoginRateLimitPerIP :: "int option"
  o_UnlockAccount :: "string option"
  o_RestoreLastKnownGood :: "bool option"
  o_IncrementETag :: "bool option"
  o_CacheBatchLoad :: "bool option"
  o_LogLevel :: "string option"

definition defaultOpt :: opt where
  "defaultOpt = \<lparr>o_Port = None, o_RunFileDiscovery = None, o_DebugDelayMS = None, o_Profile = None,
     o_EnableHTTPCache = None, o_EnableCachePreload = None, o_SessionSecret = None,
     o_SessionSecure = None, o_SessionHttpOnly = None, o_SessionMaxAge = None,
     o_SessionSameSite = None, o_LoginRateLimitPerIP = None, o_UnlockAccount = None,
     o_RestoreLastKnownGood = None, o_IncrementETag = None, o_CacheBatchLoad = None,
     o_LogLevel = None\<rparr>"

datatype opt_error = BadEnv string | BadPort | SecretMissing | SecretTooShort | BadLogLevel

section \<open>Environment variables\<close>

definition parseBoolEnv :: "string \<Rightarrow> bool option" where
  "parseBoolEnv v =
     (let s = TrimSpace (ToLower v) in
      if s \<in> {''1'', ''true'', ''t'', ''yes'', ''y''} then Some True
      else if s \<in> {''0'', ''false'', ''f'', ''no'', ''n''} then Some False
      else None)"

definition validateLogLevel :: "string \<Rightarrow> bool" where
  "validateLogLevel level \<longleftrightarrow> level \<in> {''debug'', ''info'', ''warn'', ''error''}"

type_synonym env = "string \<Rightarrow> string"

text \<open>One variable: nothing when it is blank, an exit when its value cannot be parsed.\<close>

definition env_var ::
  "env \<Rightarrow> string \<Rightarrow> (string \<Rightarrow> 'a option) \<Rightarrow> ('a \<Rightarrow> opt \<Rightarrow> opt) \<Rightarrow> opt_error + opt \<Rightarrow> opt_error + opt" where
  "env_var env name parse put r =
     (case r of
        Inl e \<Rightarrow> Inl e
      | Inr opt \<Rightarrow>
          (let v = TrimSpace (env name) in
           if v = [] then Inr opt
           else case parse v of None \<Rightarrow> Inl (BadEnv name) | Some x \<Rightarrow> Inr (put x opt)))"

definition parse_level :: "string \<Rightarrow> string option" where
  "parse_level v = (if validateLogLevel (ToLower v) then Some (ToLower v) else None)"

definition applyEnvVars :: "env \<Rightarrow> opt \<Rightarrow> opt_error + opt" where
  "applyEnvVars env opt =
     (let int = parse_int64; bool = parseBoolEnv; str = Some :: string \<Rightarrow> string option in
      env_var env ''SFG_LOG_LEVEL'' parse_level (\<lambda>x. o_LogLevel_update (\<lambda>_. Some x))
     (env_var env ''SFG_RESTORE_LAST_KNOWN_GOOD'' bool (\<lambda>x. o_RestoreLastKnownGood_update (\<lambda>_. Some x))
     (env_var env ''SFG_UNLOCK_ACCOUNT'' str (\<lambda>x. o_UnlockAccount_update (\<lambda>_. Some x))
     (env_var env ''SEPG_LOGIN_RATE_LIMIT_PER_IP'' int (\<lambda>x. o_LoginRateLimitPerIP_update (\<lambda>_. Some x))
     (env_var env ''SEPG_SESSION_SAMESITE'' str (\<lambda>x. o_SessionSameSite_update (\<lambda>_. Some x))
     (env_var env ''SEPG_SESSION_MAX_AGE'' int (\<lambda>x. o_SessionMaxAge_update (\<lambda>_. Some x))
     (env_var env ''SEPG_SESSION_HTTPONLY'' bool (\<lambda>x. o_SessionHttpOnly_update (\<lambda>_. Some x))
     (env_var env ''SEPG_SESSION_SECURE'' bool (\<lambda>x. o_SessionSecure_update (\<lambda>_. Some x))
     (env_var env ''SEPG_SESSION_SECRET'' str (\<lambda>x. o_SessionSecret_update (\<lambda>_. Some x))
     (env_var env ''SFG_CACHE_PRELOAD'' bool (\<lambda>x. o_EnableCachePreload_update (\<lambda>_. Some x))
     (env_var env ''SFG_HTTP_CACHE'' bool (\<lambda>x. o_EnableHTTPCache_update (\<lambda>_. Some x))
     (env_var env ''SFG_PROFILE'' str (\<lambda>x. o_Profile_update (\<lambda>_. Some x))
     (env_var env ''SFG_DEBUG_DELAY_MS'' int (\<lambda>x. o_DebugDelayMS_update (\<lambda>_. Some x))
     (env_var env ''SFG_DISCOVER'' bool (\<lambda>x. o_RunFileDiscovery_update (\<lambda>_. Some x))
     (env_var env ''SFG_PORT'' int (\<lambda>x. o_Port_update (\<lambda>_. Some x))
       (Inr opt))))))))))))))))"

section \<open>Flags\<close>

datatype flag_value = FInt int | FBool bool | FStr string

text \<open>The flags set on the command line, as \<^verbatim>\<open>fs.Visit\<close> presents them, with the type they were
  registered with.\<close>

definition flag_type_ok :: "string \<times> flag_value \<Rightarrow> bool" where
  "flag_type_ok f = (case f of (name, v) \<Rightarrow>
     (case v of
        FInt _ \<Rightarrow> name \<in> {''port'', ''debug-delay-ms''}
      | FBool _ \<Rightarrow> name \<in> {''discover'', ''restore-last-known-good'', ''http-cache'', ''cache-preload'',
          ''increment-etag'', ''cache-batch-load''}
      | FStr _ \<Rightarrow> name \<in> {''profile'', ''unlock-account'', ''log-level''}))"

definition apply_flag :: "string \<times> flag_value \<Rightarrow> opt \<Rightarrow> opt" where
  "apply_flag f opt = (case f of (name, v) \<Rightarrow>
     (case v of
        FInt n \<Rightarrow>
          if name = ''port'' then opt\<lparr>o_Port := Some n\<rparr>
          else if name = ''debug-delay-ms'' then opt\<lparr>o_DebugDelayMS := Some n\<rparr> else opt
      | FBool b \<Rightarrow>
          if name = ''discover'' then opt\<lparr>o_RunFileDiscovery := Some b\<rparr>
          else if name = ''restore-last-known-good'' then opt\<lparr>o_RestoreLastKnownGood := Some b\<rparr>
          else if name = ''http-cache'' then opt\<lparr>o_EnableHTTPCache := Some b\<rparr>
          else if name = ''cache-preload'' then opt\<lparr>o_EnableCachePreload := Some b\<rparr>
          else if name = ''increment-etag'' then opt\<lparr>o_IncrementETag := Some b\<rparr>
          else if name = ''cache-batch-load'' then opt\<lparr>o_CacheBatchLoad := Some b\<rparr> else opt
      | FStr s \<Rightarrow>
          if name = ''profile'' then opt\<lparr>o_Profile := Some s\<rparr>
          else if name = ''unlock-account'' then opt\<lparr>o_UnlockAccount := Some s\<rparr>
          else if name = ''log-level'' then opt\<lparr>o_LogLevel := Some s\<rparr> else opt))"

definition applyCLIFlagVisit :: "(string \<times> flag_value) list \<Rightarrow> opt \<Rightarrow> opt" where
  "applyCLIFlagVisit fs opt = fold apply_flag fs opt"

section \<open>Validation\<close>

definition unlocking :: "opt \<Rightarrow> bool" where
  "unlocking opt \<longleftrightarrow> o_UnlockAccount opt \<noteq> None \<and> o_UnlockAccount opt \<noteq> Some []"

definition validateOpt :: "opt \<Rightarrow> opt_error + opt" where
  "validateOpt opt =
     (if \<not> unlocking opt \<and> (case o_Port opt of None \<Rightarrow> False | Some p \<Rightarrow> p < 1 \<or> p > 65535)
      then Inl BadPort
      else let opt1 = (case o_DebugDelayMS opt of
                 None \<Rightarrow> opt | Some d \<Rightarrow> if d < 0 then opt\<lparr>o_DebugDelayMS := Some 0\<rparr> else opt)
      in if \<not> unlocking opt1 \<and> (o_SessionSecret opt1 = None \<or> o_SessionSecret opt1 = Some [])
      then Inl SecretMissing
      else if \<not> unlocking opt1 \<and> (case o_SessionSecret opt1 of None \<Rightarrow> False | Some s \<Rightarrow> length s < 32)
      then Inl SecretTooShort
      else case o_LogLevel opt1 of
          None \<Rightarrow> Inr opt1
        | Some l \<Rightarrow>
            (let level = ToLower (TrimSpace l) in
             if validateLogLevel level then Inr (opt1\<lparr>o_LogLevel := Some level\<rparr>) else Inl BadLogLevel))"

definition Parse :: "env \<Rightarrow> (string \<times> flag_value) list \<Rightarrow> opt_error + opt" where
  "Parse env fs =
     (case applyEnvVars env defaultOpt of
        Inl e \<Rightarrow> Inl e
      | Inr opt \<Rightarrow> validateOpt (applyCLIFlagVisit fs opt))"

end
