(* ===== verification/Config_Store.thy ===== *)
theory Config_Store
  imports Config_Fields Getopt
begin

text \<open>
  Loading, saving and changing the configuration (\<^verbatim>\<open>internal/server/config\<close>): the rows of the
  database, YAML files, options, merging of defaults, validation, export and import, the last known
  good configuration, the ETag version and the configuration manager. The operations take the field
  table as an argument; \<^verbatim>\<open>gopkg.in/yaml.v3\<close> is a parameter.
\<close>

section \<open>Database\<close>

record config_row =
  row_Key :: string
  row_Value :: string
  row_HelpText :: "string option"
  row_ExampleValue :: "string option"

text \<open>The config table, with the outcomes of the next statements; statements succeed when the list
  is exhausted.\<close>

record config_db =
  db_rows :: "config_row list"
  db_faults :: "bool list"

datatype store_error = DbError | NotFound | BadYAML | SecretInYAML | NilConfig
  | Rejected setting_error | NotPersisted store_error

fun upsert_config_row :: "string \<Rightarrow> string \<Rightarrow> config_row list \<Rightarrow> config_row list" where
  "upsert_config_row k v [] = [\<lparr>row_Key = k, row_Value = v, row_HelpText = None, row_ExampleValue = None\<rparr>]"
| "upsert_config_row k v (r # rs) =
     (if row_Key r = k then r\<lparr>row_Value := v\<rparr> # rs else r # upsert_config_row k v rs)"

definition UpsertConfigValueOnly :: "string \<Rightarrow> string \<Rightarrow> config_db \<Rightarrow> store_error option \<times> config_db" where
  "UpsertConfigValueOnly k v db =
     (case db_faults db of
        True # fs \<Rightarrow> (Some DbError, db\<lparr>db_faults := fs\<rparr>)
      | fs \<Rightarrow> (None, \<lparr>db_rows = upsert_config_row k v (db_rows db), db_faults = tl fs\<rparr>))"

definition find_row :: "string \<Rightarrow> config_row list \<Rightarrow> config_row option" where
  "find_row k rows = find (\<lambda>r. row_Key r = k) rows"

section \<open>Setting values\<close>

definition SetValueFromString :: "config_field list \<Rightarrow> string \<Rightarrow> string \<Rightarrow> config \<Rightarrow> setting_error + config" where
  "SetValueFromString fs key v c =
     (case find (\<lambda>f. dbKey f = key) fs of None \<Rightarrow> Inr c | Some f \<Rightarrow> set_field f c v)"

definition ValidateSetting :: "config_field list \<Rightarrow> string \<Rightarrow> string \<Rightarrow> config \<Rightarrow> setting_error option" where
  "ValidateSetting fs key v c =
     (case find (\<lambda>f. dbKey f = key) fs of
        None \<Rightarrow> None
      | Some f \<Rightarrow> (case set_field f c v of Inl e \<Rightarrow> Some e | Inr _ \<Rightarrow> None))"

definition special_keys :: "string list" where
  "special_keys = [''user'', ''password'', ''LastKnownGoodConfig'']"

definition load_metadata :: "config_row \<Rightarrow> config \<Rightarrow> config" where
  "load_metadata r c =
     (let c1 = (case row_HelpText r of
            None \<Rightarrow> c | Some h \<Rightarrow> c\<lparr>HelpText := (HelpText c)(row_Key r \<mapsto> h)\<rparr>)
      in case row_ExampleValue r of
            None \<Rightarrow> c1 | Some x \<Rightarrow> c1\<lparr>ExampleValues := (ExampleValues c1)(row_Key r \<mapsto> x)\<rparr>)"

definition load_row :: "config_field list \<Rightarrow> config_row \<Rightarrow> config \<Rightarrow> config" where
  "load_row fs r c =
     (let c1 = load_metadata r c
      in if row_Key r \<in> set special_keys then c1
         else case SetValueFromString fs (row_Key r) (row_Value r) c1 of Inl _ \<Rightarrow> c1 | Inr c2 \<Rightarrow> c2)"

definition LoadFromDatabase :: "config_field list \<Rightarrow> config_row list option \<Rightarrow> config \<Rightarrow> store_error + config" where
  "LoadFromDatabase fs rows c =
     (case rows of
        None \<Rightarrow> Inl DbError
      | Some rs \<Rightarrow>
          Inr (fold (load_row fs) rs
            (if rs = [] then c else c\<lparr>HelpText := Map.empty, ExampleValues := Map.empty\<rparr>)))"

definition ToMap :: "config_field list \<Rightarrow> config \<Rightarrow> (string \<times> string) list" where
  "ToMap fs c = map (\<lambda>f. (dbKey f, getDB f c)) fs"

section \<open>YAML\<close>

text \<open>\<^verbatim>\<open>yaml.Marshal\<close> and \<^verbatim>\<open>yaml.Unmarshal\<close> of a mapping. A Go map is ranged over in an arbitrary
  order: \<^term>\<open>yl_range\<close> is that order for the decoded mapping.\<close>

record yaml_lib =
  yl_marshal :: "(string \<times> yaml) list \<Rightarrow> string option"
  yl_unmarshal :: "string \<Rightarrow> (string \<times> yaml) list option"
  yl_range :: "(string \<times> yaml) list \<Rightarrow> (string \<times> yaml) list"

fun join_comma :: "string list \<Rightarrow> string" where
  "join_comma [] = []"
| "join_comma [x] = x"
| "join_comma (x # y # xs) = x @ CHR '','' # join_comma (y # xs)"

text \<open>\<^verbatim>\<open>json.Marshal\<close> of a decoded value.\<close>

fun json_value :: "yaml \<Rightarrow> string option" and json_values :: "yaml list \<Rightarrow> string list option" where
  "json_value YNull = Some ''null''"
| "json_value (YStr s) = Some (json_string s)"
| "json_value (YInt n) = Some (Itoa n)"
| "json_value (YBool b) = Some (FormatBool b)"
| "json_value (YOther j) = j"
| "json_value (YSeq ys) =
     (case json_values ys of
        None \<Rightarrow> None | Some ts \<Rightarrow> Some (CHR ''['' # join_comma ts @ '']''))"
| "json_values [] = Some []"
| "json_values (y # ys) =
     (case json_value y of
        None \<Rightarrow> None
      | Some t \<Rightarrow> (case json_values ys of None \<Rightarrow> None | Some ts \<Rightarrow> Some (t # ts)))"

definition yamlValueToSetString :: "yaml \<Rightarrow> setting_error + string" where
  "yamlValueToSetString v = (case v of
       YNull \<Rightarrow> Inl NullValue
     | YStr s \<Rightarrow> Inr s
     | YInt n \<Rightarrow> Inr (Itoa n)
     | YBool b \<Rightarrow> Inr (FormatBool b)
     | YSeq ys \<Rightarrow> (case json_value (YSeq ys) of None \<Rightarrow> Inl BadSequence | Some t \<Rightarrow> Inr t)
     | YOther _ \<Rightarrow> Inl UnsupportedValue)"

text \<open>The configuration is changed in place: an error leaves the values set before it.\<close>

fun applyYAMLValues ::
  "config_field list \<Rightarrow> (string \<times> yaml) list \<Rightarrow> config \<Rightarrow> setting_error option \<times> config" where
  "applyYAMLValues fs [] c = (None, c)"
| "applyYAMLValues fs ((k, v) # raw) c =
     (case find (\<lambda>f. yamlKey f = k) fs of
        None \<Rightarrow> applyYAMLValues fs raw c
      | Some f \<Rightarrow>
          (case yamlValueToSetString v of
             Inl e \<Rightarrow> (Some (YamlKey k e), c)
           | Inr s \<Rightarrow>
               (case set_field f c s of
                  Inl e \<Rightarrow> (Some (YamlKey k e), c)
                | Inr c' \<Rightarrow> applyYAMLValues fs raw c')))"

datatype config_file = Missing | Unreadable | Content string

definition load_file :: "config_field list \<Rightarrow> yaml_lib \<Rightarrow> config_file \<Rightarrow> config \<Rightarrow> config" where
  "load_file fs Y file c = (case file of
       Missing \<Rightarrow> c
     | Unreadable \<Rightarrow> c
     | Content text \<Rightarrow>
         (case yl_unmarshal Y text of
            None \<Rightarrow> c
          | Some raw \<Rightarrow> snd (applyYAMLValues fs (yl_range Y raw) c)))"

text \<open>The files in the order of \<^verbatim>\<open>FindConfigFiles\<close>, highest precedence first; the last one is
  loaded first.\<close>

definition LoadFromYAML :: "config_field list \<Rightarrow> yaml_lib \<Rightarrow> config_file list \<Rightarrow> config \<Rightarrow> config" where
  "LoadFromYAML fs Y files c = fold (load_file fs Y) (rev files) c"

definition ExportToYAML :: "config_field list \<Rightarrow> yaml_lib \<Rightarrow> config \<Rightarrow> string option" where
  "ExportToYAML fs Y c = yl_marshal Y (map (\<lambda>f. (yamlKey f, getYAML f c)) fs)"

section \<open>Saving\<close>

text \<open>The loop over the map of values stops at the first error; \<^term>\<open>kvs\<close> is the order in which Go
  ranges over the map.\<close>

fun upsert_all :: "(string \<times> string) list \<Rightarrow> config_db \<Rightarrow> store_error option \<times> config_db" where
  "upsert_all [] db = (None, db)"
| "upsert_all ((k, v) # kvs) db =
     (case UpsertConfigValueOnly k v db of
        (Some e, db') \<Rightarrow> (Some e, db')
      | (None, db') \<Rightarrow> upsert_all kvs db')"

definition SaveToDatabase ::
  "config_field list \<Rightarrow> yaml_lib \<Rightarrow> ((string \<times> string) list \<Rightarrow> (string \<times> string) list) \<Rightarrow> config \<Rightarrow>
   config_db \<Rightarrow> store_error option \<times> config_db" where
  "SaveToDatabase fs Y ord c db =
     (case upsert_all (ord (ToMap fs c)) db of
        (Some e, db') \<Rightarrow> (Some e, db')
      | (None, db') \<Rightarrow>
          (case ExportToYAML fs Y c of
             None \<Rightarrow> (None, db')
           | Some y \<Rightarrow> (None, snd (UpsertConfigValueOnly ''LastKnownGoodConfig'' y db'))))"

section \<open>Options\<close>

definition cliRoutes :: "(string \<times> (opt \<Rightarrow> string option)) list" where
  "cliRoutes =
     [(''listener_port'', \<lambda>p. map_option Itoa (o_Port p)),
      (''enable_http_cache'', \<lambda>p. map_option FormatBool (o_EnableHTTPCache p)),
      (''enable_cache_preload'', \<lambda>p. map_option FormatBool (o_EnableCachePreload p)),
      (''run_file_discovery'', \<lambda>p. map_option FormatBool (o_RunFileDiscovery p)),
      (''session_secure'', \<lambda>p. map_option FormatBool (o_SessionSecure p)),
      (''session_http_only'', \<lambda>p. map_option FormatBool (o_SessionHttpOnly p)),
      (''session_max_age'', \<lambda>p. map_option Itoa (o_SessionMaxAge p)),
      (''session_same_site'', o_SessionSameSite),
      (''login_rate_limit_per_ip'', \<lambda>p. map_option Itoa (o_LoginRateLimitPerIP p)),
      (''log_level'', o_LogLevel)]"

definition apply_route ::
  "config_field list \<Rightarrow> opt \<Rightarrow> string list \<Rightarrow> string \<times> (opt \<Rightarrow> string option) \<Rightarrow> config \<Rightarrow> config" where
  "apply_route fs opt exclude r c =
     (if fst r \<in> set exclude then c
      else case snd r opt of
        None \<Rightarrow> c
      | Some v \<Rightarrow>
          (case find (\<lambda>f. dbKey f = fst r) fs of
             None \<Rightarrow> c
           | Some f \<Rightarrow> (case set_field f c v of Inl _ \<Rightarrow> c | Inr c' \<Rightarrow> c')))"

definition LoadFromOptExcluding :: "config_field list \<Rightarrow> opt \<Rightarrow> string list \<Rightarrow> config \<Rightarrow> config" where
  "LoadFromOptExcluding fs opt exclude c = fold (apply_route fs opt exclude) cliRoutes c"

definition LoadFromOpt :: "config_field list \<Rightarrow> opt \<Rightarrow> config \<Rightarrow> config" where
  "LoadFromOpt fs opt c = LoadFromOptExcluding fs opt [] c"

section \<open>Whole configurations\<close>

definition MergeDefaults :: "config_field list \<Rightarrow> config \<Rightarrow> config \<Rightarrow> config" where
  "MergeDefaults fs defaults c = fold (\<lambda>f c. if isZero f c then setFrom f c defaults else c) fs c"

definition RecoverFromCorruption :: "config_field list \<Rightarrow> config option \<Rightarrow> config \<Rightarrow> config" where
  "RecoverFromCorruption fs defaults c =
     (case defaults of None \<Rightarrow> c | Some d \<Rightarrow> fold (\<lambda>f c. setFrom f c d) fs c)"

definition IdentifyChanges :: "config_field list \<Rightarrow> config \<Rightarrow> config \<Rightarrow> string list" where
  "IdentifyChanges fs c other = map yamlKey (filter (\<lambda>f. getDB f c \<noteq> getDB f other) fs)"

definition restartRequiredKeys :: "config_field list \<Rightarrow> config \<Rightarrow> config \<Rightarrow> string list" where
  "restartRequiredKeys fs current candidate =
     map dbKey (filter (\<lambda>f. getDB f current \<noteq> getDB f candidate) (filter restart fs))"

definition Validate :: "config \<Rightarrow> setting_error option" where
  "Validate c =
     (if ListenerPort c < 1 \<or> ListenerPort c > 65535 then Some (PortRange (ListenerPort c))
      else if ToLower (LogLevel c) \<notin> {''debug'', ''info'', ''warn'', ''error''}
      then Some (NotOneOf ''log level'' (LogLevel c))
      else if ToLower (LogRollover c) \<notin> {''daily'', ''weekly'', ''monthly''}
      then Some (NotOneOf ''log rollover'' (LogRollover c))
      else if LogRetentionCount c < 1 then Some (AtLeast ''log retention count'' 1 (LogRetentionCount c))
      else if SessionSameSite c \<notin> {''Lax'', ''Strict'', ''None''}
      then Some (NotOneOf ''session same-site'' (SessionSameSite c))
      else if CacheMaxSize c < 0 then Some (NonNegative ''cache max size'' (CacheMaxSize c))
      else if CacheMaxEntrySize c < 0 then Some (NonNegative ''cache max entry size'' (CacheMaxEntrySize c))
      else if DBMaxPoolSize c < 1 then Some (AtLeast ''database max pool size'' 1 (DBMaxPoolSize c))
      else if DBMinIdleConnections c < 0
      then Some (NonNegative ''database min idle connections'' (DBMinIdleConnections c))
      else if DBMinIdleConnections c > DBMaxPoolSize c
      then Some (IdleExceedsPool (DBMinIdleConnections c) (DBMaxPoolSize c))
      else if DBPoolMonitorInterval c < 0
      then Some (NonNegative ''db pool monitor interval'' (DBPoolMonitorInterval c))
      else if WorkerPoolMax c < 0 then Some (NonNegative ''worker pool max'' (WorkerPoolMax c))
      else if WorkerPoolMinIdle c < 0 then Some (NonNegative ''worker pool min idle'' (WorkerPoolMinIdle c))
      else if WorkerPoolMax c > 0 \<and> WorkerPoolMinIdle c > 0 \<and> WorkerPoolMinIdle c > WorkerPoolMax c
      then Some (MinIdleExceedsMax (WorkerPoolMinIdle c) (WorkerPoolMax c))
      else if QueueSize c < 1 then Some (AtLeast ''queue size'' 1 (QueueSize c))
      else None)"

definition ValidateGuardrails :: "config option \<Rightarrow> string list" where
  "ValidateGuardrails oc = (case oc of None \<Rightarrow> [] | Some c \<Rightarrow>
     (if DBMinIdleConnections c > DBMaxPoolSize c then [''db_min_idle_gt_db_max_pool''] else [])
     @ (if WorkerPoolMax c > 0 \<and> WorkerPoolMinIdle c > 0 \<and> WorkerPoolMinIdle c > WorkerPoolMax c
        then [''worker_pool_min_idle_gt_worker_pool_max''] else [])
     @ (if SessionSameSite c = ''None'' \<and> \<not> SessionSecure c
        then [''session_samesite_none_without_secure''] else [])
     @ (if EnableHTTPCache c \<and> CacheMaxSize c = 0
        then [''http_cache_enabled_with_zero_max_size''] else [])
     @ (if EnableHTTPCache c \<and> CacheMaxSize c > 0 \<and> CacheMaxEntrySize c > CacheMaxSize c
        then [''cache_entry_size_exceeds_cache_size''] else []))"

end
