(* ===== verification/Go_Path.thy ===== *)
theory Go_Path
  imports Go_Text
begin

text \<open>
  Go's \<^verbatim>\<open>path/filepath\<close> on Unix, as far as the program uses it: cleaning, joining and splitting of
  paths. A path is well-formed for the gallery when it consists of proper components.
\<close>

section \<open>Cleaning\<close>

text \<open>Components are read from the left; \<^term>\<open>stack\<close> holds the kept ones, last first.\<close>

fun clean_components :: "bool \<Rightarrow> string list \<Rightarrow> string list \<Rightarrow> string list" where
  "clean_components rooted stack [] = rev stack"
| "clean_components rooted stack (c # cs) =
     (if c = [] \<or> c = ''.'' then clean_components rooted stack cs
      else if c = ''..'' then
        (case stack of
           [] \<Rightarrow> clean_components rooted (if rooted then [] else [''..'']) cs
         | t # ts \<Rightarrow> clean_components rooted (if t = ''..'' then ''..'' # stack else ts) cs)
      else clean_components rooted (c # stack) cs)"

fun join_slash :: "string list \<Rightarrow> string" where
  "join_slash [] = []"
| "join_slash [x] = x"
| "join_slash (x # y # xs) = x @ CHR ''/'' # join_slash (y # xs)"

definition rooted :: "string \<Rightarrow> bool" where
  "rooted p \<longleftrightarrow> (case p of [] \<Rightarrow> False | c # _ \<Rightarrow> c = CHR ''/'')"

definition Clean :: "string \<Rightarrow> string" where
  "Clean p =
     (let body = join_slash (clean_components (rooted p) [] (split_on CHR ''/'' p))
      in if rooted p then CHR ''/'' # body else if body = [] then ''.'' else body)"

text \<open>\<^verbatim>\<open>filepath.Join\<close> of a directory and a name.\<close>

definition Join2 :: "string \<Rightarrow> string \<Rightarrow> string" where
  "Join2 dir name =
     (if dir = [] then (if name = [] then [] else Clean name) else Clean (dir @ CHR ''/'' # name))"

section \<open>Splitting\<close>

text \<open>\<^verbatim>\<open>filepath.Dir\<close> cleans what precedes the last slash, the slash included; \<^verbatim>\<open>filepath.Base\<close> is
  what follows it after trailing slashes are dropped.\<close>

definition upto_slash :: "string \<Rightarrow> string" where
  "upto_slash p = rev (dropWhile (\<lambda>c. c \<noteq> CHR ''/'') (rev p))"

definition Dir :: "string \<Rightarrow> string" where
  "Dir p = Clean (upto_slash p)"

definition Base :: "string \<Rightarrow> string" where
  "Base p =
     (if p = [] then ''.''
      else let q = rev (dropWhile (\<lambda>c. c = CHR ''/'') (rev p)) in
        if q = [] then ''/'' else rev (takeWhile (\<lambda>c. c \<noteq> CHR ''/'') (rev q)))"

section \<open>Paths made of proper components\<close>

definition component :: "string \<Rightarrow> bool" where
  "component c \<longleftrightarrow> c \<noteq> [] \<and> c \<noteq> ''.'' \<and> c \<noteq> ''..'' \<and> CHR ''/'' \<notin> set c"

lemma split_join: "list_all component cs \<Longrightarrow> cs \<noteq> [] \<Longrightarrow> split_on CHR ''/'' (join_slash cs) = cs"
proof (induction cs rule: join_slash.induct)
  case (3 x y xs)
  have "split_on CHR ''/'' (x @ CHR ''/'' # r) = x # split_on CHR ''/'' r" if "CHR ''/'' \<notin> set x" for r
    using that by (induction x) auto
  with 3 show ?case by (simp add: component_def)
qed (simp_all add: component_def split_on_no_sep)

lemma clean_id: "list_all component cs \<Longrightarrow> clean_components b stack cs = rev stack @ cs"
  by (induction cs arbitrary: stack) (simp_all add: component_def)

lemma join_head:
  assumes "list_all component cs" "cs \<noteq> []"
  shows "join_slash cs \<noteq> []" "\<not> rooted (join_slash cs)"
proof -
  obtain c r ds where cs: "cs = (c # r) # ds" "c \<noteq> CHR ''/''"
    using assms by (cases cs; cases "hd cs") (auto simp: component_def)
  then have "\<exists>q. join_slash cs = c # q" by (cases ds) auto
  with cs(2) show "join_slash cs \<noteq> []" "\<not> rooted (join_slash cs)" by (auto simp: rooted_def)
qed

lemma Clean_join:
  assumes "list_all component cs"
  shows "Clean (join_slash cs) = (if cs = [] then ''.'' else join_slash cs)"
proof (cases "cs = []")
  case True
  then show ?thesis by (simp add: Clean_def rooted_def)
next
  case False
  then show ?thesis using join_head [OF assms False] split_join [OF assms False] clean_id [OF assms]
    by (simp add: Clean_def)
qed

lemma join_snoc: "cs \<noteq> [] \<Longrightarrow> join_slash (cs @ [x]) = join_slash cs @ CHR ''/'' # x"
  by (induction cs rule: join_slash.induct) auto

lemma join_append: "as \<noteq> [] \<Longrightarrow> bs \<noteq> [] \<Longrightarrow> join_slash (as @ bs) = join_slash as @ CHR ''/'' # join_slash bs"
proof (induction as rule: join_slash.induct)
  case (2 x)
  then show ?case by (cases bs) auto
qed auto

lemma Clean_join_slash:
  assumes "list_all component cs" "cs \<noteq> []"
  shows "Clean (join_slash cs @ ''/'') = join_slash cs"
proof -
  have "split_on CHR ''/'' (p @ ''/'') = split_on CHR ''/'' p @ [[]]" for p
    by (induction p) (auto split: list.split)
  then have s: "split_on CHR ''/'' (join_slash cs @ ''/'') = cs @ [[]]" using split_join [OF assms] by simp
  have c: "clean_components b stack (cs @ [[]]) = rev stack @ cs" for b stack
    using assms(1) by (induction cs arbitrary: stack) (simp_all add: component_def)
  have r: "\<not> rooted (join_slash cs @ ''/'')"
    using join_head [OF assms] by (cases "join_slash cs") (simp_all add: rooted_def)
  then show ?thesis using join_head [OF assms] s c [of False "[]"] by (simp add: Clean_def)
qed

lemma upto_join: "component x \<Longrightarrow> upto_slash (join_slash (cs @ [x])) = (if cs = [] then [] else join_slash cs @ ''/'')"
proof -
  assume x: "component x"
  have d: "dropWhile (\<lambda>c. c \<noteq> CHR ''/'') (rev x @ r) = dropWhile (\<lambda>c. c \<noteq> CHR ''/'') r" for r
    using x by (simp add: component_def dropWhile_append)
  show ?thesis
  proof (cases "cs = []")
    case True
    then show ?thesis using d [of "[]"] by (simp add: upto_slash_def)
  next
    case False
    then show ?thesis using d [of "CHR ''/'' # rev (join_slash cs)"] by (simp add: upto_slash_def join_snoc)
  qed
qed

lemma Dir_join:
  assumes "list_all component (cs @ [x])"
  shows "Dir (join_slash (cs @ [x])) = (if cs = [] then ''.'' else join_slash cs)"
proof (cases "cs = []")
  case True
  then show ?thesis using assms upto_join [of x cs] by (simp add: Dir_def Clean_def rooted_def)
next
  case False
  then show ?thesis using assms upto_join [of x cs] Clean_join_slash [of cs] by (simp add: Dir_def)
qed

lemma Base_last:
  assumes "rev p = a # r" "a \<noteq> CHR ''/''"
  shows "Base p = rev (takeWhile (\<lambda>c. c \<noteq> CHR ''/'') (rev p))"
proof -
  have "dropWhile (\<lambda>c. c = CHR ''/'') (rev p) = rev p" using assms by simp
  moreover have "p \<noteq> []" using assms(1) by auto
  ultimately show ?thesis by (simp add: Base_def)
qed

lemma Base_join:
  assumes "list_all component (cs @ [x])"
  shows "Base (join_slash (cs @ [x])) = x"
proof -
  have x: "x \<noteq> []" "CHR ''/'' \<notin> set x" using assms by (simp_all add: component_def)
  then obtain y b where y: "x = y @ [b]" using rev_exhaust by blast
  define q where "q = (if cs = [] then [] else CHR ''/'' # rev (join_slash cs))"
  have p: "rev (join_slash (cs @ [x])) = rev x @ q" by (simp add: q_def join_snoc)
  have t: "takeWhile (\<lambda>c. c \<noteq> CHR ''/'') (rev x @ q) = rev x"
    by (subst takeWhile_append2) (use x in \<open>auto simp: q_def\<close>)
  have e: "rev (join_slash (cs @ [x])) = b # (rev y @ q)" unfolding p by (simp add: y)
  have "b \<noteq> CHR ''/''" using x(2) y by auto
  from Base_last [OF e this] have "Base (join_slash (cs @ [x])) = rev (takeWhile (\<lambda>c. c \<noteq> CHR ''/'') (rev (join_slash (cs @ [x]))))" .
  then show ?thesis by (simp only: p t rev_rev_ident)
qed

end
