(* ===== verification/Config_Apply.thy ===== *)
theory Config_Apply
  imports Config_Store Go_Path
begin

text \<open>
  Changing the running configuration: normalisation of paths, import and export, applying a
  candidate, the last known good configuration, the ETag version, the start-up sequence
  (\<^verbatim>\<open>apply.go, exporter.go, etag.go, app.go, bootstrap.go, service.go, config_manager.go\<close>) and the form
  handler \<^verbatim>\<open>ConfigPost\<close> of \<^verbatim>\<open>internal/server/handlers/config_handlers.go\<close>.
\<close>

section \<open>Paths\<close>

definition normalizePath :: "string \<Rightarrow> string" where
  "normalizePath path = (let trimmed = TrimSpace path in if trimmed = [] then [] else Clean trimmed)"

text \<open>The result; the copy shares the array of \<^verbatim>\<open>Themes\<close> with the candidate, so that its loop also
  trims the themes of the candidate and of every other configuration with the same array, such as
  the running one a form was applied to: \<^verbatim>\<open>trim_shared_themes\<close> is the effect on these.\<close>

definition trim_shared_themes :: "config \<Rightarrow> config" where
  "trim_shared_themes c = c\<lparr>Themes := map TrimSpace (Themes c)\<rparr>"

definition normalizeConfigCandidate :: "config \<Rightarrow> config" where
  "normalizeConfigCandidate c =
     c\<lparr>ListenerAddress := TrimSpace (ListenerAddress c), LogDirectory := normalizePath (LogDirectory c),
       LogLevel := TrimSpace (LogLevel c), LogRollover := TrimSpace (LogRollover c),
       SiteName := TrimSpace (SiteName c), CurrentTheme := TrimSpace (CurrentTheme c),
       ImageDirectory := normalizePath (ImageDirectory c),
       SessionSameSite := TrimSpace (SessionSameSite c), Themes := map TrimSpace (Themes c)\<rparr>"

section \<open>Import and export\<close>

definition BuildImportedConfig ::
  "config_field list \<Rightarrow> yaml_lib \<Rightarrow> config option \<Rightarrow> string \<Rightarrow> store_error + config" where
  "BuildImportedConfig fs Y base text =
     (case base of
        None \<Rightarrow> Inl NilConfig
      | Some b \<Rightarrow>
          (case yl_unmarshal Y text of
             None \<Rightarrow> Inl BadYAML
           | Some raw \<Rightarrow>
               if ''session-secret'' \<in> fst ` set raw then Inl SecretInYAML
               else case applyYAMLValues fs (yl_range Y raw) b of
                   (Some e, _) \<Rightarrow> Inl (Rejected e)
                 | (None, c) \<Rightarrow> Inr (normalizeConfigCandidate c)))"

text \<open>\<^verbatim>\<open>ImportFromYAML\<close> replaces the configuration before it is validated.\<close>

definition ImportFromYAML ::
  "config_field list \<Rightarrow> yaml_lib \<Rightarrow> ((string \<times> string) list \<Rightarrow> (string \<times> string) list) \<Rightarrow> string \<Rightarrow>
   config \<Rightarrow> config_db \<Rightarrow> store_error option \<times> config \<times> config_db" where
  "ImportFromYAML fs Y ord text c db =
     (case BuildImportedConfig fs Y (Some c) text of
        Inl e \<Rightarrow> (Some e, c, db)
      | Inr c' \<Rightarrow>
          (case Validate c' of
             Some e \<Rightarrow> (Some (Rejected e), c', db)
           | None \<Rightarrow> (case SaveToDatabase fs Y ord c' db of (r, db') \<Rightarrow> (r, c', db'))))"

record apply_result =
  ar_Config :: config
  ar_RestartRequired :: bool
  ar_RestartRequiredKeys :: "string list"

definition ApplyConfig ::
  "config_field list \<Rightarrow> yaml_lib \<Rightarrow> ((string \<times> string) list \<Rightarrow> (string \<times> string) list) \<Rightarrow>
   config option \<Rightarrow> config option \<Rightarrow> config_db \<Rightarrow> (store_error + apply_result) \<times> config_db" where
  "ApplyConfig fs Y ord current candidate db =
     (case (current, candidate) of
        (Some cur, Some cand) \<Rightarrow>
          (let normalized = normalizeConfigCandidate cand in
           case Validate normalized of
             Some e \<Rightarrow> (Inl (Rejected e), db)
           | None \<Rightarrow>
               (let keys = restartRequiredKeys fs cur normalized in
                case SaveToDatabase fs Y ord normalized db of
                  (Some e, db') \<Rightarrow> (Inl (NotPersisted e), db')
                | (None, db') \<Rightarrow>
                    (Inr \<lparr>ar_Config = normalized, ar_RestartRequired = (keys \<noteq> []),
                       ar_RestartRequiredKeys = keys\<rparr>, db')))
      | _ \<Rightarrow> (Inl NilConfig, db))"

definition RestoreLastKnownGood ::
  "config_field list \<Rightarrow> yaml_lib \<Rightarrow> string \<Rightarrow> config_row list option \<Rightarrow> store_error + config" where
  "RestoreLastKnownGood fs Y today rows =
     (case rows of
        None \<Rightarrow> Inl DbError
      | Some rs \<Rightarrow>
          (case find_row ''LastKnownGoodConfig'' rs of
             None \<Rightarrow> Inl NotFound
           | Some r \<Rightarrow>
               if row_Value r = [] then Inl NotFound
               else case yl_unmarshal Y (row_Value r) of
                   None \<Rightarrow> Inl BadYAML
                 | Some raw \<Rightarrow>
                     (case applyYAMLValues fs (yl_range Y raw) (DefaultConfig today) of
                        (Some e, _) \<Rightarrow> Inl (Rejected e)
                      | (None, c) \<Rightarrow>
                          (case Validate c of Some e \<Rightarrow> Inl (Rejected e) | None \<Rightarrow> Inr c))))"

record config_diff =
  cd_CurrentYAML :: string
  cd_NewYAML :: string
  cd_Changes :: "string list"

definition GetLastKnownGoodDiff ::
  "config_field list \<Rightarrow> yaml_lib \<Rightarrow> string \<Rightarrow> config_row list option \<Rightarrow> config \<Rightarrow>
   store_error + config_diff" where
  "GetLastKnownGoodDiff fs Y today rows c =
     (case ExportToYAML fs Y c of
        None \<Rightarrow> Inl BadYAML
      | Some cur \<Rightarrow>
          (case RestoreLastKnownGood fs Y today rows of
             Inl e \<Rightarrow> Inl e
           | Inr r \<Rightarrow>
               (case ExportToYAML fs Y r of
                  None \<Rightarrow> Inl BadYAML
                | Some new \<Rightarrow>
                    Inr \<lparr>cd_CurrentYAML = cur, cd_NewYAML = new, cd_Changes = IdentifyChanges fs c r\<rparr>)))"

definition PreviewImport ::
  "config_field list \<Rightarrow> yaml_lib \<Rightarrow> string \<Rightarrow> config_file list \<Rightarrow> string \<Rightarrow> config \<Rightarrow>
   store_error + config_diff" where
  "PreviewImport fs Y today files text c =
     (case yl_unmarshal Y text of
        None \<Rightarrow> Inl BadYAML
      | Some raw \<Rightarrow>
          if ''session-secret'' \<in> fst ` set raw then Inl SecretInYAML
          else case ExportToYAML fs Y c of
              None \<Rightarrow> Inl BadYAML
            | Some cur \<Rightarrow>
                (case applyYAMLValues fs (yl_range Y raw) (LoadFromYAML fs Y files (DefaultConfig today)) of
                   (Some e, _) \<Rightarrow> Inl (Rejected e)
                 | (None, t) \<Rightarrow>
                     (case ExportToYAML fs Y t of
                        None \<Rightarrow> Inl BadYAML
                      | Some new \<Rightarrow>
                          Inr \<lparr>cd_CurrentYAML = cur, cd_NewYAML = new, cd_Changes = IdentifyChanges fs c t\<rparr>)))"

section \<open>The ETag version\<close>

text \<open>\<^verbatim>\<open>^(v?)(\d{8})-(\d{2})$\<close>\<close>

definition parseETagVersion :: "string \<Rightarrow> (string \<times> string \<times> nat) option" where
  "parseETagVersion etag =
     (let (prefix, r) = (case etag of [] \<Rightarrow> ([], etag) | c # r \<Rightarrow> if c = CHR ''v'' then ([c], r) else ([], etag));
          date = take 8 r; dash = take 1 (drop 8 r); num = drop 9 r
      in if length r = 11 \<and> list_all is_digit date \<and> dash = ''-'' \<and> list_all is_digit num
         then Some (prefix, date, nat_of_dec num) else None)"

definition IncrementETagVersion :: "string \<Rightarrow> string \<Rightarrow> string" where
  "IncrementETagVersion today current =
     (case parseETagVersion current of
        None \<Rightarrow> (if current \<noteq> [] \<and> hd current = CHR ''v'' then ''v'' else []) @ today @ ''-01''
      | Some (prefix, date, number) \<Rightarrow>
          if date < today then prefix @ today @ ''-01''
          else if date = today then prefix @ date @ ''-'' @ zero_padded 2 (number + 1)
          else prefix @ today @ ''-01'')"

text \<open>\<^verbatim>\<open>configService.Load\<close> and \<^verbatim>\<open>configService.IncrementETag\<close>, with the database the connection
  pools give.\<close>

definition service_Load :: "config_field list \<Rightarrow> string \<Rightarrow> config_row list option \<Rightarrow> store_error + config" where
  "service_Load fs today rows = LoadFromDatabase fs rows (DefaultConfig today)"

definition service_Export ::
  "config_field list \<Rightarrow> yaml_lib \<Rightarrow> string \<Rightarrow> config_row list option \<Rightarrow> store_error + string" where
  "service_Export fs Y today rows =
     (case service_Load fs today rows of
        Inl e \<Rightarrow> Inl e
      | Inr c \<Rightarrow> (case ExportToYAML fs Y c of None \<Rightarrow> Inl BadYAML | Some y \<Rightarrow> Inr y))"

definition service_Import ::
  "config_field list \<Rightarrow> yaml_lib \<Rightarrow> ((string \<times> string) list \<Rightarrow> (string \<times> string) list) \<Rightarrow> string \<Rightarrow> string \<Rightarrow>
   config_db \<Rightarrow> store_error option \<times> config_db" where
  "service_Import fs Y ord today text db =
     (case service_Load fs today (Some (db_rows db)) of
        Inl e \<Rightarrow> (Some e, db)
      | Inr c \<Rightarrow> (case ImportFromYAML fs Y ord text c db of (r, _, db') \<Rightarrow> (r, db')))"

definition GetConfigValue :: "string \<Rightarrow> config_row list \<Rightarrow> store_error + string" where
  "GetConfigValue key rows =
     (case find_row key rows of None \<Rightarrow> Inl NotFound | Some r \<Rightarrow> Inr (row_Value r))"

definition IncrementETag ::
  "config_field list \<Rightarrow> yaml_lib \<Rightarrow> ((string \<times> string) list \<Rightarrow> (string \<times> string) list) \<Rightarrow> string \<Rightarrow>
   config_db \<Rightarrow> (store_error + string) \<times> config_db" where
  "IncrementETag fs Y ord today db =
     (case service_Load fs today (Some (db_rows db)) of
        Inl e \<Rightarrow> (Inl e, db)
      | Inr c \<Rightarrow>
          (let newETag = IncrementETagVersion today (ETagVersion c);
               c' = c\<lparr>ETagVersion := newETag\<rparr> in
           case Validate c' of
             Some e \<Rightarrow> (Inl (Rejected e), db)
           | None \<Rightarrow>
               (case SaveToDatabase fs Y ord c' db of
                  (Some e, db') \<Rightarrow> (Inl e, db')
                | (None, db') \<Rightarrow> (Inr newETag, db'))))"

section \<open>Start-up\<close>

text \<open>The precedence defaults, database, YAML files, options. \<^term>\<open>store\<close> is None when there is no
  database, and the rows None when the query fails.\<close>

definition Load ::
  "config_field list \<Rightarrow> yaml_lib \<Rightarrow> string \<Rightarrow> string \<Rightarrow> config_row list option option \<Rightarrow> config_file list \<Rightarrow>
   opt \<Rightarrow> config" where
  "Load fs Y today rootDir store files opt =
     (let c1 = (case store of
            None \<Rightarrow> DefaultConfig today
          | Some rows \<Rightarrow>
              (case service_Load fs today rows of
                 Inl _ \<Rightarrow> DefaultConfig today
               | Inr c \<Rightarrow> MergeDefaults fs (DefaultConfig today) c));
          c2 = LoadFromYAML fs Y files c1;
          c3 = LoadFromOpt fs opt c2;
          c4 = MergeDefaults fs (DefaultConfig today) c3
      in if ImageDirectory c4 = [] \<and> rootDir \<noteq> []
         then c4\<lparr>ImageDirectory := Join2 rootDir ''Images''\<rparr> else c4)"

fun insert_missing :: "(string \<times> string) list \<Rightarrow> config_db \<Rightarrow> store_error option \<times> config_db" where
  "insert_missing [] db = (None, db)"
| "insert_missing ((k, v) # kvs) db =
     (case db_faults db of
        True # fs \<Rightarrow> (Some DbError, db\<lparr>db_faults := fs\<rparr>)
      | fs \<Rightarrow> insert_missing kvs
          \<lparr>db_rows = (if find_row k (db_rows db) = None then upsert_config_row k v (db_rows db) else db_rows db),
           db_faults = tl fs\<rparr>)"

fun upsert_defaults :: "(string \<times> string) list \<Rightarrow> config_db \<Rightarrow> store_error option \<times> config_db" where
  "upsert_defaults [] db = (None, db)"
| "upsert_defaults ((k, v) # kvs) db =
     (let cur = find_row k (db_rows db);
          missing = (cur = None);
          emptyCritical = ((case cur of None \<Rightarrow> [] | Some r \<Rightarrow> row_Value r) = []
            \<and> (k = ''image_directory'' \<or> k = ''log_directory''))
      in if k = ''user'' \<or> k = ''password'' \<or> \<not> missing \<and> \<not> emptyCritical then upsert_defaults kvs db
         else case UpsertConfigValueOnly k v db of
             (Some e, db') \<Rightarrow> (Some e, db')
           | (None, db') \<Rightarrow> upsert_defaults kvs db')"

text \<open>\<^verbatim>\<open>EnsureBootstrapDefaults\<close>; \<^term>\<open>hash\<close> is the bcrypt hash of the initial password, \<^term>\<open>ord\<close>
  the order in which maps are ranged over.\<close>

definition EnsureBootstrapDefaults ::
  "config_field list \<Rightarrow> ((string \<times> string) list \<Rightarrow> (string \<times> string) list) \<Rightarrow> string option \<Rightarrow> string \<Rightarrow>
   string \<Rightarrow> config_db \<Rightarrow> store_error option \<times> config_db" where
  "EnsureBootstrapDefaults fs ord hash today rootDir db =
     (let admin = (\<lambda>h. [(''user'', ''admin''), (''password'', h),
            (''log_directory'', Join2 rootDir ''logs''), (''log_level'', ''info''),
            (''log_rollover'', ''weekly''), (''log_retention_count'', ''7'')]);
          first = (if find_row ''user'' (db_rows db) \<noteq> None then (None, db)
            else case hash of None \<Rightarrow> (Some DbError, db) | Some h \<Rightarrow> insert_missing (ord (admin h)) db);
          c0 = DefaultConfig today;
          c = (if rootDir = [] then c0
               else c0\<lparr>LogDirectory := Join2 rootDir ''logs'', ImageDirectory := Join2 rootDir ''Images''\<rparr>)
      in case first of
           (Some e, db') \<Rightarrow> (Some e, db')
         | (None, db') \<Rightarrow> upsert_defaults (ord (ToMap fs c)) db')"

section \<open>The configuration manager\<close>

definition GetETagVersion :: "string \<Rightarrow> config option \<Rightarrow> string" where
  "GetETagVersion today m =
     (let v = (case m of None \<Rightarrow> [] | Some c \<Rightarrow> ETagVersion c)
      in if v = [] then ETagVersion (DefaultConfig today) else v)"

definition UpdateConfigWithPrecedence :: "config_field list \<Rightarrow> opt \<Rightarrow> string list \<Rightarrow> config \<Rightarrow> config" where
  "UpdateConfigWithPrecedence fs opt changedFields c = LoadFromOptExcluding fs opt changedFields c"

section \<open>The settings form\<close>

text \<open>A submitted form: names with their values. One field of the loop over \<^verbatim>\<open>Fields()\<close>.\<close>

type_synonym form = "(string \<times> string list) list"

definition form_value :: "form \<Rightarrow> config_field \<Rightarrow> bool \<Rightarrow> string option" where
  "form_value form f hasConfigFields =
     (case map_of form (dbKey f) of
        None \<Rightarrow> (if IsCheckbox f \<and> hasConfigFields then Some ''false'' else None)
      | Some vs \<Rightarrow>
          (let v = (if dbKey f = ''themes'' then json_Marshal vs
                    else case vs of [] \<Rightarrow> [] | x # _ \<Rightarrow> x)
           in Some (if IsCheckbox f then (if v = ''on'' then ''true'' else ''false'') else v)))"

definition apply_form_field ::
  "form \<Rightarrow> bool \<Rightarrow> config_field \<Rightarrow> (string \<times> setting_error) list \<times> config \<Rightarrow>
   (string \<times> setting_error) list \<times> config" where
  "apply_form_field form has f s = (case s of (errs, c) \<Rightarrow>
     (case form_value form f has of
        None \<Rightarrow> (errs, c)
      | Some v \<Rightarrow>
          (case set_field f c v of
             Inl e \<Rightarrow> (errs @ [(dbKey f, e)], c)
           | Inr c' \<Rightarrow> (errs, c'))))"

definition apply_form :: "config_field list \<Rightarrow> form \<Rightarrow> config \<Rightarrow> (string \<times> setting_error) list \<times> config" where
  "apply_form fs form c =
     (let has = list_ex (\<lambda>f. map_of form (dbKey f) \<noteq> None) fs
      in fold (apply_form_field form has) fs ([], c))"

datatype post_outcome = PostInvalid "string list" | PostDbError | PostSaved apply_result

text \<open>\<^verbatim>\<open>ConfigPost\<close> after the credentials: \<^term>\<open>cred_errors\<close> are the fields they were rejected for,
  \<^term>\<open>dir_ok\<close> is \<^verbatim>\<open>ValidateImageDirectory\<close>. The third component is the running configuration.\<close>

definition ConfigPost ::
  "config_field list \<Rightarrow> yaml_lib \<Rightarrow> ((string \<times> string) list \<Rightarrow> (string \<times> string) list) \<Rightarrow> opt \<Rightarrow>
   (string \<Rightarrow> bool) \<Rightarrow> string list \<Rightarrow> config \<Rightarrow> form \<Rightarrow> config_db \<Rightarrow> config \<Rightarrow>
   post_outcome \<times> config_db \<times> config" where
  "ConfigPost fs Y ord opt dir_ok cred_errors oldConfig form db running =
     (let (errs, new) = apply_form fs form oldConfig;
          dir = ImageDirectory new;
          dir_bad = (dir \<noteq> ImageDirectory oldConfig \<and> dir \<noteq> []
            \<and> (HasPrefix (Clean dir) ''..'' \<or> \<not> dir_ok dir));
          keys = cred_errors @ map fst errs @ (if dir_bad then [''image_directory''] else [])
      in if keys \<noteq> [] then (PostInvalid keys, db, running)
         else case ApplyConfig fs Y ord (Some oldConfig) (Some new) db of
             (Inl (Rejected e), db') \<Rightarrow> (PostInvalid [''_global''], db', running)
           | (Inl _, db') \<Rightarrow> (PostDbError, db', running)
           | (Inr r, db') \<Rightarrow>
               (PostSaved r, db',
                UpdateConfigWithPrecedence fs opt (ar_RestartRequiredKeys r) (ar_Config r)))"

definition UpdateThemes ::
  "config_field list \<Rightarrow> yaml_lib \<Rightarrow> ((string \<times> string) list \<Rightarrow> (string \<times> string) list) \<Rightarrow>
   config \<Rightarrow> form \<Rightarrow> config_db \<Rightarrow> (store_error + apply_result) \<times> config_db" where
  "UpdateThemes fs Y ord oldConfig form db =
     (let new = (case map_of form ''themes'' of
            None \<Rightarrow> oldConfig
          | Some themes \<Rightarrow>
              if themes = [] then oldConfig
              else oldConfig\<lparr>Themes := themes,
                CurrentTheme := (if CurrentTheme oldConfig \<noteq> [] \<and> CurrentTheme oldConfig \<notin> set themes
                  then hd themes else CurrentTheme oldConfig)\<rparr>)
      in ApplyConfig fs Y ord (Some oldConfig) (Some new) db)"


section \<open>The other handlers\<close>

text \<open>Applying the outcome of a handler to the running configuration.\<close>

definition after_apply ::
  "config_field list \<Rightarrow> opt \<Rightarrow> config \<Rightarrow> (store_error + apply_result) \<times> config_db \<Rightarrow>
   post_outcome \<times> config_db \<times> config" where
  "after_apply fs opt running r = (case r of
       (Inl (Rejected e), db') \<Rightarrow> (PostInvalid [''_global''], db', running)
     | (Inl _, db') \<Rightarrow> (PostDbError, db', running)
     | (Inr a, db') \<Rightarrow>
         (PostSaved a, db', UpdateConfigWithPrecedence fs opt (ar_RestartRequiredKeys a) (ar_Config a)))"

text \<open>\<^verbatim>\<open>ImportConfigPreviewHandler\<close> and \<^verbatim>\<open>ImportConfigCommitHandler\<close> with the text of the form; the
  template of the preview shows both exported configurations.\<close>

definition ImportConfigPreviewHandler ::
  "config_field list \<Rightarrow> yaml_lib \<Rightarrow> string \<Rightarrow> config_file list \<Rightarrow> string \<Rightarrow> config_db \<Rightarrow>
   store_error + config_diff" where
  "ImportConfigPreviewHandler fs Y today files text db =
     (if text = [] then Inl NotFound
      else case service_Load fs today (Some (db_rows db)) of
          Inl e \<Rightarrow> Inl e
        | Inr c \<Rightarrow> PreviewImport fs Y today files text c)"

definition ImportConfigCommitHandler ::
  "config_field list \<Rightarrow> yaml_lib \<Rightarrow> ((string \<times> string) list \<Rightarrow> (string \<times> string) list) \<Rightarrow> opt \<Rightarrow> string \<Rightarrow>
   string \<Rightarrow> config_db \<Rightarrow> config \<Rightarrow> post_outcome \<times> config_db \<times> config" where
  "ImportConfigCommitHandler fs Y ord opt today text db running =
     (if text = [] then (PostInvalid [''_global''], db, running)
      else case service_Load fs today (Some (db_rows db)) of
          Inl e \<Rightarrow> (PostDbError, db, running)
        | Inr old \<Rightarrow>
            (case BuildImportedConfig fs Y (Some old) text of
               Inl e \<Rightarrow> (PostInvalid [''_global''], db, running)
             | Inr imported \<Rightarrow>
                 after_apply fs opt running (ApplyConfig fs Y ord (Some old) (Some imported) db)))"

text \<open>The commit action of \<^verbatim>\<open>RestoreLastKnownGoodHandler\<close>.\<close>

definition RestoreCommit ::
  "config_field list \<Rightarrow> yaml_lib \<Rightarrow> ((string \<times> string) list \<Rightarrow> (string \<times> string) list) \<Rightarrow> opt \<Rightarrow> string \<Rightarrow>
   config_db \<Rightarrow> config \<Rightarrow> post_outcome \<times> config_db \<times> config" where
  "RestoreCommit fs Y ord opt today db running =
     (case service_Load fs today (Some (db_rows db)) of
        Inl e \<Rightarrow> (PostDbError, db, running)
      | Inr current \<Rightarrow>
          (case RestoreLastKnownGood fs Y today (Some (db_rows db)) of
             Inl e \<Rightarrow> (PostInvalid [''_global''], db, running)
           | Inr restored \<Rightarrow>
               after_apply fs opt running (ApplyConfig fs Y ord (Some current) (Some restored) db)))"

text \<open>\<^verbatim>\<open>ConfigIncrementETag\<close>: the response is the new version.\<close>

definition ConfigIncrementETag ::
  "config_field list \<Rightarrow> yaml_lib \<Rightarrow> ((string \<times> string) list \<Rightarrow> (string \<times> string) list) \<Rightarrow> opt \<Rightarrow> string \<Rightarrow>
   config_db \<Rightarrow> config \<Rightarrow> string option \<times> config_db \<times> config" where
  "ConfigIncrementETag fs Y ord opt today db running =
     (case IncrementETag fs Y ord today db of
        (Inl e, db') \<Rightarrow> (None, db', running)
      | (Inr v, db') \<Rightarrow>
          (case service_Load fs today (Some (db_rows db')) of
             Inl e \<Rightarrow> (None, db', running)
           | Inr c \<Rightarrow> (let c' = UpdateConfigWithPrecedence fs opt [] c in (Some (ETagVersion c'), db', c'))))"

end
