(* ===== verification/Config_Laws.thy ===== *)
theory Config_Laws
  imports Config_Apply
begin

text \<open>
  The laws of the field table. A configuration is viewed as a map from database keys to values; every
  operation of the package is an update of this map. The locale \<^verbatim>\<open>settings_table\<close> states what a
  table of fields has to satisfy and derives the behaviour of the operations; the table of the code
  is its interpretation.
\<close>

section \<open>A configuration as a map\<close>

definition settings :: "config_field list \<Rightarrow> config \<Rightarrow> (string \<times> yaml) list" where
  "settings fs c = map (\<lambda>f. (dbKey f, getYAML f c)) fs"

definition view :: "config_field list \<Rightarrow> config \<Rightarrow> string \<Rightarrow> yaml option" where
  "view fs c = map_of (settings fs c)"

definition metadata :: "config \<Rightarrow> (string \<Rightarrow> string option) \<times> (string \<Rightarrow> string option)" where
  "metadata c = (HelpText c, ExampleValues c)"

text \<open>What one field of a table does: setting changes the value under its key only, the outcome
  depends on the text alone, copying takes over the value, and what is stored is determined by the
  value.\<close>

definition set_law :: "config_field list \<Rightarrow> config_field \<Rightarrow> bool" where
  "set_law fs f \<longleftrightarrow> (\<forall>c v c'. set_field f c v = Inr c' \<longrightarrow>
     view fs c' = (view fs c)(dbKey f \<mapsto> getYAML f c') \<and> metadata c' = metadata c)"

definition text_law :: "config_field \<Rightarrow> bool" where
  "text_law f \<longleftrightarrow> (\<forall>c d v. (case set_field f c v of
       Inl e \<Rightarrow> set_field f d v = Inl e
     | Inr c' \<Rightarrow> \<exists>d'. set_field f d v = Inr d' \<and> getYAML f d' = getYAML f c'))"

definition copy_law :: "config_field list \<Rightarrow> config_field \<Rightarrow> bool" where
  "copy_law fs f \<longleftrightarrow> (\<forall>c d. view fs (setFrom f c d) = (view fs c)(dbKey f \<mapsto> getYAML f d)
     \<and> metadata (setFrom f c d) = metadata c)"

definition value_law :: "config_field \<Rightarrow> bool" where
  "value_law f \<longleftrightarrow> (\<forall>c d. getYAML f c = getYAML f d \<longrightarrow> getDB f c = getDB f d \<and> (isZero f c \<longleftrightarrow> isZero f d))"

lemma Duration_String_inj:
  "i64_range d \<Longrightarrow> i64_range e \<Longrightarrow> Duration_String d = Duration_String e \<longleftrightarrow> d = e"
  by (metis ParseDuration_String option.inject)

lemma Duration_String_zero: "Duration_String d = ''0s'' \<longleftrightarrow> d = 0"
proof
  assume a: "Duration_String d = ''0s''"
  show "d = 0"
  proof (rule ccontr)
    assume d: "d \<noteq> 0"
    define u where "u = nat \<bar>d\<bar>"
    have nonneg: "\<not> d < 0" using a d by (auto simp: Duration_String_def Let_def)
    have small: "fmt_small u \<noteq> ''0s''"
    proof
      assume s: "fmt_small u = ''0s''"
      have "3 \<le> length (fmt_small u)"
        using dec_of_nat_nonempty
        by (auto simp: fmt_small_def micro_def Let_def Suc_le_eq split: prod.split)
      with s show False by simp
    qed
    have big: "fmt_seconds u \<noteq> ''0s''" if "1000000000 \<le> u"
    proof
      assume s: "fmt_seconds u = ''0s''"
      obtain frac secs where F: "fmtFrac u 9 = (frac, secs)" by force
      then have secs: "0 < secs" using fmtFrac_spec(1) [of u 9] that by simp
      let ?last = "dec_of_nat (secs mod 60) @ frac @ ''s''"
      show False
      proof (cases "secs div 60 = 0")
        case True
        then have "dec_of_nat secs @ frac @ ''s'' = ''0s''"
          using s F by (simp add: fmt_seconds_def Let_def)
        then have e: "dec_of_nat secs @ frac = ''0''"
          by (metis append.assoc append1_eq_conv append_Cons append_Nil)
        then have "dec_of_nat secs = ''0''" by (cases "dec_of_nat secs") auto
        then show False using secs dec_zero dec_of_nat_inject by (metis less_numeral_extra(3))
      next
        case False
        have "2 \<le> length (dec_of_nat (secs div 60 mod 60) @ ''m'')" by (simp add: Suc_le_eq)
        moreover have "2 \<le> length ?last" by (simp add: Suc_le_eq)
        ultimately have "4 \<le> length (fmt_seconds u)"
          using False F by (auto simp: fmt_seconds_def Let_def)
        with s show False by simp
      qed
    qed
    show False using a nonneg d small big
      by (auto simp: Duration_String_def Let_def u_def split: if_splits)
  qed
qed (simp add: Duration_String_def)

section \<open>The interface of a field table\<close>

lemma map_of_table: "distinct (map k xs) \<Longrightarrow> x \<in> set xs \<Longrightarrow> map_of (map (\<lambda>x. (k x, v x)) xs) (k x) = Some (v x)"
  by (induction xs) (auto simp: rev_image_eqI)

lemma find_distinct: "x \<in> set xs \<Longrightarrow> distinct (map k xs) \<Longrightarrow> find (\<lambda>y. k y = k x) xs = Some x"
  by (induction xs) (auto simp: rev_image_eqI)

lemma find_keyD: "find (\<lambda>y. k y = a) xs = Some x \<Longrightarrow> x \<in> set xs \<and> k x = a"
  by (induction xs) (auto split: if_splits)

lemma find_NoneD: "find (\<lambda>y. k y = a) xs = None \<Longrightarrow> x \<in> set xs \<Longrightarrow> k x \<noteq> a"
  by (induction xs) (auto split: if_splits)

lemma find_none: "a \<notin> k ` set xs \<Longrightarrow> find (\<lambda>y. k y = a) xs = None"
  by (induction xs) auto

lemma dom_map_of_table: "dom (map_of (map (\<lambda>x. (k x, v x)) xs)) = k ` set xs"
  by (simp add: dom_map_of_conv_image_fst image_image)

text \<open>The value a text denotes for a field, read off any configuration.\<close>

definition denotes :: "config_field \<Rightarrow> string \<Rightarrow> yaml option" where
  "denotes f v = (case set_field f (DefaultConfig []) v of Inl _ \<Rightarrow> None | Inr c \<Rightarrow> Some (getYAML f c))"

text \<open>The value of a field after its text was tried: unchanged when the text is rejected.\<close>

definition tried :: "config_field \<Rightarrow> string \<Rightarrow> yaml \<Rightarrow> yaml" where
  "tried f v y = (case denotes f v of None \<Rightarrow> y | Some y' \<Rightarrow> y')"

text \<open>A field that does not read the help texts, which \<^term>\<open>load_row\<close> fills in passing.\<close>

definition blind :: "config_field \<Rightarrow> bool" where
  "blind g \<longleftrightarrow> (\<forall>c h. getYAML g (c\<lparr>HelpText := h\<rparr>) = getYAML g c \<and> getYAML g (c\<lparr>ExampleValues := h\<rparr>) = getYAML g c)"

text \<open>The value of a field after an optional text.\<close>

definition taken :: "config_field \<Rightarrow> string option \<Rightarrow> yaml \<Rightarrow> yaml" where
  "taken g t y = (case t of None \<Rightarrow> y | Some v \<Rightarrow> tried g v y)"

definition row_text :: "string \<Rightarrow> config_row list \<Rightarrow> string option" where
  "row_text k rs = map_option row_Value (find_row k rs)"

definition route_text :: "opt \<Rightarrow> string list \<Rightarrow> (string \<times> (opt \<Rightarrow> string option)) list \<Rightarrow> string \<Rightarrow> string option" where
  "route_text opt ex rs k = (if k \<in> set ex then None
     else case map_of rs k of None \<Rightarrow> None | Some get \<Rightarrow> get opt)"

definition yaml_text :: "(string \<times> yaml) list \<Rightarrow> string \<Rightarrow> string option" where
  "yaml_text raw k = (case map_of raw k of None \<Rightarrow> None
     | Some y \<Rightarrow> (case yamlValueToSetString y of Inl _ \<Rightarrow> None | Inr v \<Rightarrow> Some v))"

definition loaded :: "config_field list \<Rightarrow> config_row list \<Rightarrow> config \<Rightarrow> config" where
  "loaded fs rs c = fold (load_row fs) rs
     (if rs = [] then c else c\<lparr>HelpText := Map.empty, ExampleValues := Map.empty\<rparr>)"

lemma LoadFromDatabase_loaded: "LoadFromDatabase fs (Some rs) c = Inr (loaded fs rs c)"
  by (simp add: LoadFromDatabase_def loaded_def)

lemma taken_simps [simp]: "taken g None y = y" "taken g (Some v) y = tried g v y"
  by (simp_all add: taken_def)

lemma apply_route_Set:
  "apply_route fs opt ex r c = (if fst r \<in> set ex then c
     else case snd r opt of None \<Rightarrow> c
       | Some v \<Rightarrow> (case SetValueFromString fs (fst r) v c of Inl _ \<Rightarrow> c | Inr c' \<Rightarrow> c'))"
  by (simp add: apply_route_def SetValueFromString_def split: option.split)

locale settings_table =
  fixes fs :: "config_field list"
  assumes keys: "distinct (map dbKey fs)"
    and yaml_keys: "distinct (map yamlKey fs)"
    and setting: "f \<in> set fs \<Longrightarrow> set_law fs f"
    and outcome: "f \<in> set fs \<Longrightarrow> text_law f"
    and copying: "f \<in> set fs \<Longrightarrow> copy_law fs f"
    and valued: "f \<in> set fs \<Longrightarrow> value_law f"
    and unread: "f \<in> set fs \<Longrightarrow> blind f"
    and ordinary: "f \<in> set fs \<Longrightarrow> dbKey f \<notin> set special_keys"
begin

lemma view_key: "f \<in> set fs \<Longrightarrow> view fs c (dbKey f) = Some (getYAML f c)"
  using map_of_table [OF keys] by (simp add: view_def settings_def)

lemma view_dom: "dom (view fs c) = dbKey ` set fs"
  unfolding view_def settings_def by (rule dom_map_of_table)

lemma key_inject: "f \<in> set fs \<Longrightarrow> g \<in> set fs \<Longrightarrow> dbKey f = dbKey g \<longleftrightarrow> f = g"
  using keys inj_on_eq_iff [of dbKey "set fs" f g] by (simp add: distinct_map)

lemma find_key: "f \<in> set fs \<Longrightarrow> find (\<lambda>g. dbKey g = dbKey f) fs = Some f"
  by (rule find_distinct [OF _ keys])

lemma find_yaml_key: "f \<in> set fs \<Longrightarrow> find (\<lambda>g. yamlKey g = yamlKey f) fs = Some f"
  by (rule find_distinct [OF _ yaml_keys])

lemma set_field_cases:
  assumes "f \<in> set fs"
  obtains e where "set_field f c v = Inl e" "denotes f v = None"
  | c' y where "set_field f c v = Inr c'" "denotes f v = Some y"
      "view fs c' = (view fs c)(dbKey f \<mapsto> y)" "metadata c' = metadata c"
proof -
  have T: "case set_field f c v of Inl e \<Rightarrow> set_field f (DefaultConfig []) v = Inl e
     | Inr c' \<Rightarrow> \<exists>d'. set_field f (DefaultConfig []) v = Inr d' \<and> getYAML f d' = getYAML f c'"
    using outcome [OF assms] unfolding text_law_def by blast
  show ?thesis
  proof (cases "set_field f c v")
    case (Inl e)
    then show ?thesis using that(1) T by (simp add: denotes_def)
  next
    case (Inr c')
    then obtain d' where "set_field f (DefaultConfig []) v = Inr d'" "getYAML f d' = getYAML f c'"
      using T by auto
    moreover have "view fs c' = (view fs c)(dbKey f \<mapsto> getYAML f c')" "metadata c' = metadata c"
      using setting [OF assms] Inr unfolding set_law_def by blast+
    ultimately show ?thesis using that(2) Inr by (simp add: denotes_def)
  qed
qed

lemma set_value:
  assumes "f \<in> set fs" "g \<in> set fs" "set_field f c v = Inr c'"
  shows "getYAML g c' = (if g = f then tried f v (getYAML g c) else getYAML g c)"
    "metadata c' = metadata c" "denotes f v \<noteq> None"
proof -
  have c: "\<exists>y. denotes f v = Some y \<and> view fs c' = (view fs c)(dbKey f \<mapsto> y) \<and> metadata c' = metadata c"
    using assms(3) by (cases rule: set_field_cases [OF assms(1), of c v]) auto
  then obtain y where y: "denotes f v = Some y" "view fs c' = (view fs c)(dbKey f \<mapsto> y)"
    "metadata c' = metadata c" by blast
  have "Some (getYAML g c') = ((view fs c)(dbKey f \<mapsto> y)) (dbKey g)"
    using view_key [OF assms(2), of c'] y(2) by simp
  then show "getYAML g c' = (if g = f then tried f v (getYAML g c) else getYAML g c)"
    using y(1) view_key [OF assms(2), of c] key_inject [OF assms(2,1)] by (simp add: tried_def split: if_splits)
  show "metadata c' = metadata c" "denotes f v \<noteq> None" using y by simp_all
qed

lemma set_rejects: "f \<in> set fs \<Longrightarrow> set_field f c v = Inl e \<Longrightarrow> denotes f v = None"
  by (cases rule: set_field_cases [of f c v]) auto

lemma copy_value:
  assumes "f \<in> set fs" "g \<in> set fs"
  shows "getYAML g (setFrom f c d) = (if g = f then getYAML f d else getYAML g c)"
    "metadata (setFrom f c d) = metadata c"
proof -
  have v: "view fs (setFrom f c d) = (view fs c)(dbKey f \<mapsto> getYAML f d)"
    and m: "metadata (setFrom f c d) = metadata c"
    using copying [OF assms(1)] unfolding copy_law_def by blast+
  show "metadata (setFrom f c d) = metadata c" by (rule m)
  have "Some (getYAML g (setFrom f c d)) = ((view fs c)(dbKey f \<mapsto> getYAML f d)) (dbKey g)"
    using view_key [OF assms(2), of "setFrom f c d"] v by simp
  then show "getYAML g (setFrom f c d) = (if g = f then getYAML f d else getYAML g c)"
    using view_key [OF assms(2), of c] key_inject [OF assms(2,1)] by (simp split: if_splits)
qed

lemma same_value:
  "f \<in> set fs \<Longrightarrow> getYAML f c = getYAML f d \<Longrightarrow> getDB f c = getDB f d \<and> (isZero f c \<longleftrightarrow> isZero f d)"
  using valued unfolding value_law_def by blast

text \<open>Rows of the database.\<close>

lemma SetValueFromString_value:
  assumes "g \<in> set fs" "SetValueFromString fs k v c = Inr c'"
  shows "getYAML g c' = (if dbKey g = k then tried g v (getYAML g c) else getYAML g c)"
proof (cases "find (\<lambda>f. dbKey f = k) fs")
  case None
  have "dbKey g \<noteq> k" using find_NoneD [of dbKey, OF None assms(1)] by simp
  with None assms(2) show ?thesis by (simp add: SetValueFromString_def)
next
  case (Some f)
  have f: "f \<in> set fs" "dbKey f = k" using find_keyD [of dbKey, OF Some] by simp_all
  then have "set_field f c v = Inr c'" using assms(2) Some by (simp add: SetValueFromString_def)
  from set_value(1) [OF f(1) assms(1) this] f key_inject [OF assms(1) f(1)] show ?thesis by (cases "g = f") simp_all
qed

lemma SetValueFromString_rejects:
  assumes "g \<in> set fs" "SetValueFromString fs k v c = Inl e"
  shows "dbKey g = k \<Longrightarrow> denotes g v = None"
proof (cases "find (\<lambda>f. dbKey f = k) fs")
  case None
  with assms(2) show "denotes g v = None" by (simp add: SetValueFromString_def)
next
  case (Some f)
  assume k: "dbKey g = k"
  have f: "f \<in> set fs" "dbKey f = k" using find_keyD [of dbKey, OF Some] by simp_all
  then have "f = g" using k key_inject [OF f(1) assms(1)] by simp
  then show "denotes g v = None"
    using assms(2) Some set_rejects [OF f(1)] by (simp add: SetValueFromString_def)
qed

lemma blind_simps:
  assumes "g \<in> set fs"
  shows "getYAML g (c\<lparr>HelpText := h\<rparr>) = getYAML g c" "getYAML g (c\<lparr>ExampleValues := h\<rparr>) = getYAML g c"
  using unread [OF assms] unfolding blind_def by blast+

lemma load_row_value:
  assumes g: "g \<in> set fs"
  shows "getYAML g (load_row fs r c) = (if row_Key r = dbKey g then tried g (row_Value r) (getYAML g c) else getYAML g c)"
proof -
  define c2 where "c2 = load_metadata r c"
  have same: "getYAML g c2 = getYAML g c"
    unfolding c2_def load_metadata_def Let_def by (simp add: blind_simps [OF g] split: option.split)
  have step: "load_row fs r c = (if row_Key r \<in> set special_keys then c2
         else case SetValueFromString fs (row_Key r) (row_Value r) c2 of Inl _ \<Rightarrow> c2 | Inr c3 \<Rightarrow> c3)"
    unfolding load_row_def c2_def Let_def ..
  show ?thesis
  proof (cases "row_Key r \<in> set special_keys")
    case True
    then have "row_Key r \<noteq> dbKey g" using ordinary [OF g] by (cases "row_Key r = dbKey g") simp_all
    with True step same show ?thesis by simp
  next
    case False
    show ?thesis
    proof (cases "SetValueFromString fs (row_Key r) (row_Value r) c2")
      case (Inl e)
      then show ?thesis
        using step False same SetValueFromString_rejects [OF g Inl] by (simp add: tried_def)
    next
      case (Inr c3)
      then have "load_row fs r c = c3" using step False by simp
      then show ?thesis using same SetValueFromString_value [OF g Inr] by (cases "dbKey g = row_Key r") simp_all
    qed
  qed
qed

lemma load_rows_value:
  assumes g: "g \<in> set fs"
  shows "distinct (map row_Key rs) \<Longrightarrow>
    getYAML g (fold (load_row fs) rs c) = taken g (row_text (dbKey g) rs) (getYAML g c)"
proof (induction rs arbitrary: c)
  case (Cons r rs)
  show ?case
  proof (cases "row_Key r = dbKey g")
    case True
    have "find_row (dbKey g) rs = None"
      unfolding find_row_def using Cons.prems True by (intro find_none) simp
    with True Cons load_row_value [OF g, of r c] show ?thesis by (simp add: row_text_def find_row_def)
  next
    case False
    with Cons load_row_value [OF g, of r c] show ?thesis by (simp add: row_text_def find_row_def)
  qed
qed (simp add: row_text_def find_row_def)

lemma loaded_value:
  assumes g: "g \<in> set fs" and rs: "distinct (map row_Key rs)"
  shows "getYAML g (loaded fs rs c) = taken g (row_text (dbKey g) rs) (getYAML g c)"
  unfolding loaded_def load_rows_value [OF g rs] by (simp add: blind_simps [OF g])

text \<open>Options.\<close>

lemma apply_route_value:
  assumes g: "g \<in> set fs"
  shows "getYAML g (apply_route fs opt ex r c) =
    (if fst r = dbKey g \<and> fst r \<notin> set ex then taken g (snd r opt) (getYAML g c) else getYAML g c)"
proof (cases "fst r \<in> set ex \<or> snd r opt = None")
  case True
  then show ?thesis by (cases "fst r \<in> set ex") (simp_all add: apply_route_def)
next
  case False
  then obtain v where v: "snd r opt = Some v" "fst r \<notin> set ex" by auto
  have A: "apply_route fs opt ex r c = (case SetValueFromString fs (fst r) v c of Inl _ \<Rightarrow> c | Inr c' \<Rightarrow> c')"
    using v by (simp add: apply_route_Set)
  show ?thesis
  proof (cases "SetValueFromString fs (fst r) v c")
    case (Inl e)
    then show ?thesis using A v SetValueFromString_rejects [OF g Inl] by (simp add: tried_def)
  next
    case (Inr c')
    then have "apply_route fs opt ex r c = c'" using A by simp
    then show ?thesis using v SetValueFromString_value [OF g Inr] by (cases "dbKey g = fst r") simp_all
  qed
qed

lemma apply_routes_value:
  assumes g: "g \<in> set fs"
  shows "distinct (map fst rs) \<Longrightarrow>
    getYAML g (fold (apply_route fs opt ex) rs c) = taken g (route_text opt ex rs (dbKey g)) (getYAML g c)"
proof (induction rs arbitrary: c)
  case (Cons r rs)
  obtain k get where r: "r = (k, get)" by force
  show ?case
  proof (cases "k = dbKey g")
    case True
    then have "map_of rs (dbKey g) = None" using Cons.prems r by (simp add: map_of_eq_None_iff)
    with True Cons r apply_route_value [OF g, of opt ex r c] show ?thesis by (simp add: route_text_def)
  next
    case False
    with Cons r apply_route_value [OF g, of opt ex r c] show ?thesis by (simp add: route_text_def)
  qed
qed (simp add: route_text_def)

text \<open>YAML values.\<close>

lemma applyYAMLValues_value:
  assumes g: "g \<in> set fs"
  shows "distinct (map fst raw) \<Longrightarrow> applyYAMLValues fs raw c = (None, c') \<Longrightarrow>
    getYAML g c' = taken g (yaml_text raw (yamlKey g)) (getYAML g c)"
proof (induction raw arbitrary: c)
  case (Cons kv raw)
  obtain k v where kv: "kv = (k, v)" by force
  show ?case
  proof (cases "find (\<lambda>f. yamlKey f = k) fs")
    case None
    then have "yamlKey g \<noteq> k" using find_NoneD [of yamlKey, OF None g] by simp
    with None Cons kv show ?thesis by (simp add: yaml_text_def)
  next
    case (Some f)
    have f: "f \<in> set fs" "yamlKey f = k" using find_keyD [of yamlKey, OF Some] by simp_all
    obtain s c1 where s: "yamlValueToSetString v = Inr s" "set_field f c s = Inr c1"
      "applyYAMLValues fs raw c1 = (None, c')"
      using Cons.prems(2) kv Some by (simp split: sum.splits)
    have IH: "getYAML g c' = taken g (yaml_text raw (yamlKey g)) (getYAML g c1)"
      using Cons.IH [OF _ s(3)] Cons.prems(1) by simp
    show ?thesis
    proof (cases "yamlKey g = k")
      case True
      then have "g = f" using find_yaml_key [OF g] Some by simp
      moreover have "map_of raw k = None" using Cons.prems(1) kv by (simp add: map_of_eq_None_iff)
      ultimately show ?thesis using IH set_value(1) [OF f(1) g s(2)] s(1) kv f(2) by (simp add: yaml_text_def)
    next
      case False
      then have "g \<noteq> f" using f(2) by (cases "g = f") simp_all
      then show ?thesis using IH set_value(1) [OF f(1) g s(2)] kv False by (simp add: yaml_text_def)
    qed
  qed
qed (simp add: yaml_text_def)

text \<open>Defaults.\<close>

lemma merge_value:
  assumes g: "g \<in> set fs"
  shows "set ms \<subseteq> set fs \<Longrightarrow> distinct (map dbKey ms) \<Longrightarrow>
    getYAML g (fold (\<lambda>f c. if isZero f c then setFrom f c d else c) ms c)
      = (if g \<in> set ms \<and> isZero g c then getYAML g d else getYAML g c)"
proof (induction ms arbitrary: c)
  case (Cons f ms)
  let ?c = "if isZero f c then setFrom f c d else c"
  have f: "f \<in> set fs" using Cons.prems by simp
  have other: "getYAML g ?c = getYAML g c \<and> (isZero g ?c \<longleftrightarrow> isZero g c)" if "g \<noteq> f"
    using copy_value(1) [OF f g, of c d] that same_value [OF g, of ?c c] by simp
  have self: "getYAML g ?c = (if isZero g c then getYAML g d else getYAML g c)" if "g = f"
    using copy_value(1) [OF f g, of c d] that by simp
  have "g \<notin> set ms" if "g = f" using Cons.prems(2) that by auto
  with Cons.IH [of ?c] Cons.prems other self show ?case by (cases "g = f") auto
qed simp

lemma MergeDefaults_value:
  assumes "g \<in> set fs"
  shows "getYAML g (MergeDefaults fs d c) = (if isZero g c then getYAML g d else getYAML g c)"
  unfolding MergeDefaults_def using merge_value [OF assms, of fs d c] keys assms by simp

end


section \<open>The table of the code\<close>

text \<open>A typed field writes through its own pointer only.\<close>

definition put_at :: "string \<Rightarrow> yaml \<Rightarrow> (string \<times> yaml) list \<Rightarrow> (string \<times> yaml) list" where
  "put_at k y s = map (\<lambda>(k', z). (k', if k' = k then y else z)) s"

lemma map_of_put_at: "k \<in> fst ` set s \<Longrightarrow> map_of (put_at k y s) = (map_of s)(k \<mapsto> y)"
proof -
  have "map_of (put_at k y s) j = (if j = k then map_option (\<lambda>_. y) (map_of s j) else map_of s j)" for j
    by (induction s) (auto simp: put_at_def)
  moreover assume "k \<in> fst ` set s"
  then obtain z where "map_of s k = Some z" by (metis map_of_eq_None_iff not_None_eq)
  ultimately show ?thesis by (auto simp: fun_eq_iff)
qed

definition framed :: "config_field list \<Rightarrow> 'a field \<Rightarrow> bool" where
  "framed fs f \<longleftrightarrow>
     (\<forall>x c. settings fs (f_put f x c) = put_at (f_dbKey f) (f_yaml f x) (settings fs c)
        \<and> f_get f (f_put f x c) = x \<and> metadata (f_put f x c) = metadata c)
     \<and> (\<forall>x y. f_yaml f x = f_yaml f y \<longrightarrow> f_format f x = f_format f y \<and> (x = f_zero f \<longleftrightarrow> y = f_zero f))
     \<and> (\<forall>c h. f_get f (c\<lparr>HelpText := h\<rparr>) = f_get f c \<and> f_get f (c\<lparr>ExampleValues := h\<rparr>) = f_get f c)"

definition lawful :: "config_field list \<Rightarrow> config_field \<Rightarrow> bool" where
  "lawful fs f \<longleftrightarrow> set_law fs f \<and> text_law f \<and> copy_law fs f \<and> value_law f \<and> blind f"

lemma framed_lawful:
  assumes F: "framed fs f" and k: "f_dbKey f \<in> fst ` set (settings fs undefined)"
  shows "lawful fs (toConfigField f)"
proof -
  have keys: "fst ` set (settings fs c) = fst ` set (settings fs undefined)" for c
    by (simp add: settings_def image_image)
  have put: "settings fs (f_put f x c) = put_at (f_dbKey f) (f_yaml f x) (settings fs c)"
    "f_get f (f_put f x c) = x" "metadata (f_put f x c) = metadata c" for x c
    using F unfolding framed_def by blast+
  have val: "f_format f x = f_format f y \<and> (x = f_zero f \<longleftrightarrow> y = f_zero f)" if "f_yaml f x = f_yaml f y" for x y
    using F that unfolding framed_def by blast
  have hlp: "f_get f (c\<lparr>HelpText := h\<rparr>) = f_get f c" "f_get f (c\<lparr>ExampleValues := h\<rparr>) = f_get f c" for c h
    using F unfolding framed_def by blast+
  have view: "view fs (f_put f x c) = (view fs c)(f_dbKey f \<mapsto> f_yaml f x)" for x c
    unfolding view_def put by (rule map_of_put_at) (subst keys, rule k)
  have "value_law (toConfigField f)"
    unfolding value_law_def toConfigField_def field_isZero_def config_field.simps
    by (intro allI impI) (drule val, simp)
  moreover have "set_law fs (toConfigField f)" "copy_law fs (toConfigField f)" "text_law (toConfigField f)"
    "blind (toConfigField f)"
    unfolding set_law_def text_law_def copy_law_def blind_def toConfigField_def field_set_def config_field.simps
    by (intro allI conjI; auto simp: view put hlp split: sum.split)+
  ultimately show ?thesis by (simp add: lawful_def)
qed

lemmas field_kinds = stringField_def intField_def boolField_def int64Field_def int64FieldZeroNever_def
  durationField_def

lemma settings_fields: "settings (all_fields reg) c =
  [(''listener_address'', YStr (ListenerAddress c)),
   (''log_directory'', YStr (LogDirectory c)),
   (''log_level'', YStr (LogLevel c)),
   (''log_rollover'', YStr (LogRollover c)),
   (''site_name'', YStr (SiteName c)),
   (''current_theme'', YStr (CurrentTheme c)),
   (''image_directory'', YStr (ImageDirectory c)),
   (''etag_version'', YStr (ETagVersion c)),
   (''http_cache_body_codec'', YStr (HTTPCacheBodyCodec c)),
   (''session_same_site'', YStr (SessionSameSite c)),
   (''listener_port'', YInt (ListenerPort c)),
   (''log_retention_count'', YInt (LogRetentionCount c)),
   (''session_max_age'', YInt (SessionMaxAge c)),
   (''db_max_pool_size'', YInt (DBMaxPoolSize c)),
   (''db_min_idle_connections'', YInt (DBMinIdleConnections c)),
   (''worker_pool_max'', YInt (WorkerPoolMax c)),
   (''worker_pool_min_idle'', YInt (WorkerPoolMinIdle c)),
   (''queue_size'', YInt (QueueSize c)),
   (''max_http_cache_entry_insert_per_transaction'', YInt (MaxHTTPCacheEntryInsertPerTransaction c)),
   (''lockout_duration'', YInt (LockoutDuration c)),
   (''lockout_threshold'', YInt (LockoutThreshold c)),
   (''login_rate_limit_per_ip'', YInt (LoginRateLimitPerIP c)),
   (''session_http_only'', YBool (SessionHttpOnly c)),
   (''session_secure'', YBool (SessionSecure c)),
   (''enable_http_cache'', YBool (EnableHTTPCache c)),
   (''enable_cache_preload'', YBool (EnableCachePreload c)),
   (''run_file_discovery'', YBool (RunFileDiscovery c)),
   (''restart_after_discovery'', YBool (RestartAfterDiscovery c)),
   (''cache_max_size'', YInt (CacheMaxSize c)),
   (''cache_max_entry_size'', YInt (CacheMaxEntrySize c)),
   (''dque_max_disk_bytes'', YInt (DQueMaxDiskBytes c)),
   (''cache_max_time'', YStr (Duration_String (CacheMaxTime c))),
   (''cache_cleanup_interval'', YStr (Duration_String (CacheCleanupInterval c))),
   (''db_optimize_interval'', YStr (Duration_String (DBOptimizeInterval c))),
   (''worker_pool_max_idle_time'', YStr (Duration_String (WorkerPoolMaxIdleTime c))),
   (''db_pool_monitor_interval'', YStr (Duration_String (DBPoolMonitorInterval c))),
   (''themes'', YSeq (map YStr (Themes c)))]"
  by (simp add: settings_def all_fields_def toConfigField_def field_kinds monitorField_def themesField_def)

lemma put_monitor: "settings (all_fields reg) (c\<lparr>DBPoolMonitorInterval := d\<rparr>)
    = put_at ''db_pool_monitor_interval'' (YStr (Duration_String d)) (settings (all_fields reg) c)"
  by (simp add: settings_fields put_at_def)

lemma put_themes: "settings (all_fields reg) (c\<lparr>Themes := ts\<rparr>)
    = put_at ''themes'' (YSeq (map YStr ts)) (settings (all_fields reg) c)"
  by (simp add: settings_fields put_at_def)

lemma yseq_inject: "map YStr xs = map YStr ys \<longleftrightarrow> xs = ys"
  by (simp add: inj_map_eq_map inj_def)

lemma view_put:
  "view (all_fields reg) (c\<lparr>DBPoolMonitorInterval := d\<rparr>)
    = (view (all_fields reg) c)(''db_pool_monitor_interval'' \<mapsto> YStr (Duration_String d))"
  "view (all_fields reg) (c\<lparr>Themes := ts\<rparr>) = (view (all_fields reg) c)(''themes'' \<mapsto> YSeq (map YStr ts))"
  unfolding view_def put_monitor put_themes by (intro map_of_put_at; simp add: settings_fields)+

lemma lawful_monitor: "lawful (all_fields reg) monitorField"
proof -
  have z: "Duration_String d = Duration_String e \<Longrightarrow> (d = 0) = (e = 0)" for d e
    using Duration_String_zero [of d] Duration_String_zero [of e] by (simp add: Duration_String_def)
  have "value_law monitorField"
    unfolding value_law_def monitorField_def config_field.simps yaml.inject by (intro allI impI conjI z) simp_all
  moreover have "set_law (all_fields reg) monitorField" "copy_law (all_fields reg) monitorField"
    "text_law monitorField" "blind monitorField"
    unfolding set_law_def text_law_def copy_law_def blind_def monitorField_def metadata_def config_field.simps
    by (intro allI conjI; auto simp: view_put split: sum.split)+
  ultimately show ?thesis by (simp add: lawful_def)
qed

lemma lawful_themes: "lawful (all_fields reg) themesField"
  unfolding lawful_def set_law_def text_law_def copy_law_def value_law_def blind_def themesField_def
    metadata_def config_field.simps
  by (intro conjI allI) (auto simp: view_put yseq_inject split: option.split)


lemma duration_value: "Duration_String d = Duration_String e \<Longrightarrow> (d = 0) = (e = 0)"
  using Duration_String_zero [of d] Duration_String_zero [of e] by (simp add: Duration_String_def)

text \<open>The laws of a pointer, and the lawfulness of each kind of field over such a pointer.\<close>

definition pointer :: "config_field list \<Rightarrow> string \<Rightarrow> ('a \<Rightarrow> yaml) \<Rightarrow> (config \<Rightarrow> 'a) \<Rightarrow> ('a \<Rightarrow> config \<Rightarrow> config) \<Rightarrow> bool" where
  "pointer fs k emb get put \<longleftrightarrow> k \<in> fst ` set (settings fs undefined) \<and>
     (\<forall>x c. settings fs (put x c) = put_at k (emb x) (settings fs c)
        \<and> get (put x c) = x \<and> metadata (put x c) = metadata c)
     \<and> (\<forall>c h. get (c\<lparr>HelpText := h\<rparr>) = get c \<and> get (c\<lparr>ExampleValues := h\<rparr>) = get c)"

lemma lawful_kinds:
  "pointer fs k YStr get put \<Longrightarrow> lawful fs (toConfigField (stringField k yk get put check rs))"
  "pointer fs k YInt get' put' \<Longrightarrow> lawful fs (toConfigField (intField k yk get' put' parse rs))"
  "pointer fs k YInt get' put' \<Longrightarrow> lawful fs (toConfigField (int64Field k yk get' put' parse rs))"
  "pointer fs k YInt get' put' \<Longrightarrow> lawful fs (toConfigField (int64FieldZeroNever k yk get' put' parse rs))"
  "pointer fs k YBool getb putb \<Longrightarrow> lawful fs (toConfigField (boolField k yk name getb putb rs cb))"
  "pointer fs k (\<lambda>d. YStr (Duration_String d)) get' put' \<Longrightarrow>
     lawful fs (toConfigField (durationField k yk name get' put' rs))"
  unfolding pointer_def
  by (rule framed_lawful; simp add: framed_def field_kinds; blast intro: duration_value [THEN iffD1] duration_value [THEN iffD2])+

lemma pointers_1:
  "pointer (all_fields reg) ''listener_address'' YStr ListenerAddress (\<lambda>v. ListenerAddress_update (\<lambda>_. v))"
  "pointer (all_fields reg) ''log_directory'' YStr LogDirectory (\<lambda>v. LogDirectory_update (\<lambda>_. v))"
  "pointer (all_fields reg) ''log_level'' YStr LogLevel (\<lambda>v. LogLevel_update (\<lambda>_. v))"
  "pointer (all_fields reg) ''log_rollover'' YStr LogRollover (\<lambda>v. LogRollover_update (\<lambda>_. v))"
  "pointer (all_fields reg) ''site_name'' YStr SiteName (\<lambda>v. SiteName_update (\<lambda>_. v))"
  "pointer (all_fields reg) ''current_theme'' YStr CurrentTheme (\<lambda>v. CurrentTheme_update (\<lambda>_. v))"
  "pointer (all_fields reg) ''image_directory'' YStr ImageDirectory (\<lambda>v. ImageDirectory_update (\<lambda>_. v))"
  unfolding pointer_def by (intro conjI allI impI; simp add: settings_fields put_at_def metadata_def)+

lemma pointers_2:
  "pointer (all_fields reg) ''etag_version'' YStr ETagVersion (\<lambda>v. ETagVersion_update (\<lambda>_. v))"
  "pointer (all_fields reg) ''http_cache_body_codec'' YStr HTTPCacheBodyCodec (\<lambda>v. HTTPCacheBodyCodec_update (\<lambda>_. v))"
  "pointer (all_fields reg) ''session_same_site'' YStr SessionSameSite (\<lambda>v. SessionSameSite_update (\<lambda>_. v))"
  "pointer (all_fields reg) ''listener_port'' YInt ListenerPort (\<lambda>v. ListenerPort_update (\<lambda>_. v))"
  "pointer (all_fields reg) ''log_retention_count'' YInt LogRetentionCount (\<lambda>v. LogRetentionCount_update (\<lambda>_. v))"
  "pointer (all_fields reg) ''session_max_age'' YInt SessionMaxAge (\<lambda>v. SessionMaxAge_update (\<lambda>_. v))"
  "pointer (all_fields reg) ''db_max_pool_size'' YInt DBMaxPoolSize (\<lambda>v. DBMaxPoolSize_update (\<lambda>_. v))"
  unfolding pointer_def by (intro conjI allI impI; simp add: settings_fields put_at_def metadata_def)+

lemma pointers_3:
  "pointer (all_fields reg) ''db_min_idle_connections'' YInt DBMinIdleConnections (\<lambda>v. DBMinIdleConnections_update (\<lambda>_. v))"
  "pointer (all_fields reg) ''worker_pool_max'' YInt WorkerPoolMax (\<lambda>v. WorkerPoolMax_update (\<lambda>_. v))"
  "pointer (all_fields reg) ''worker_pool_min_idle'' YInt WorkerPoolMinIdle (\<lambda>v. WorkerPoolMinIdle_update (\<lambda>_. v))"
  "pointer (all_fields reg) ''queue_size'' YInt QueueSize (\<lambda>v. QueueSize_update (\<lambda>_. v))"
  "pointer (all_fields reg) ''max_http_cache_entry_insert_per_transaction'' YInt MaxHTTPCacheEntryInsertPerTransaction (\<lambda>v. MaxHTTPCacheEntryInsertPerTransaction_update (\<lambda>_. v))"
  "pointer (all_fields reg) ''lockout_duration'' YInt LockoutDuration (\<lambda>v. LockoutDuration_update (\<lambda>_. v))"
  "pointer (all_fields reg) ''lockout_threshold'' YInt LockoutThreshold (\<lambda>v. LockoutThreshold_update (\<lambda>_. v))"
  unfolding pointer_def by (intro conjI allI impI; simp add: settings_fields put_at_def metadata_def)+

lemma pointers_4:
  "pointer (all_fields reg) ''login_rate_limit_per_ip'' YInt LoginRateLimitPerIP (\<lambda>v. LoginRateLimitPerIP_update (\<lambda>_. v))"
  "pointer (all_fields reg) ''session_http_only'' YBool SessionHttpOnly (\<lambda>v. SessionHttpOnly_update (\<lambda>_. v))"
  "pointer (all_fields reg) ''session_secure'' YBool SessionSecure (\<lambda>v. SessionSecure_update (\<lambda>_. v))"
  "pointer (all_fields reg) ''enable_http_cache'' YBool EnableHTTPCache (\<lambda>v. EnableHTTPCache_update (\<lambda>_. v))"
  "pointer (all_fields reg) ''enable_cache_preload'' YBool EnableCachePreload (\<lambda>v. EnableCachePreload_update (\<lambda>_. v))"
  "pointer (all_fields reg) ''run_file_discovery'' YBool RunFileDiscovery (\<lambda>v. RunFileDiscovery_update (\<lambda>_. v))"
  "pointer (all_fields reg) ''restart_after_discovery'' YBool RestartAfterDiscovery (\<lambda>v. RestartAfterDiscovery_update (\<lambda>_. v))"
  unfolding pointer_def by (intro conjI allI impI; simp add: settings_fields put_at_def metadata_def)+

lemma pointers_5:
  "pointer (all_fields reg) ''cache_max_size'' YInt CacheMaxSize (\<lambda>v. CacheMaxSize_update (\<lambda>_. v))"
  "pointer (all_fields reg) ''cache_max_entry_size'' YInt CacheMaxEntrySize (\<lambda>v. CacheMaxEntrySize_update (\<lambda>_. v))"
  "pointer (all_fields reg) ''dque_max_disk_bytes'' YInt DQueMaxDiskBytes (\<lambda>v. DQueMaxDiskBytes_update (\<lambda>_. v))"
  "pointer (all_fields reg) ''cache_max_time'' (\<lambda>d. YStr (Duration_String d)) CacheMaxTime (\<lambda>v. CacheMaxTime_update (\<lambda>_. v))"
  "pointer (all_fields reg) ''cache_cleanup_interval'' (\<lambda>d. YStr (Duration_String d)) CacheCleanupInterval (\<lambda>v. CacheCleanupInterval_update (\<lambda>_. v))"
  "pointer (all_fields reg) ''db_optimize_interval'' (\<lambda>d. YStr (Duration_String d)) DBOptimizeInterval (\<lambda>v. DBOptimizeInterval_update (\<lambda>_. v))"
  "pointer (all_fields reg) ''worker_pool_max_idle_time'' (\<lambda>d. YStr (Duration_String d)) WorkerPoolMaxIdleTime (\<lambda>v. WorkerPoolMaxIdleTime_update (\<lambda>_. v))"
  unfolding pointer_def by (intro conjI allI impI; simp add: settings_fields put_at_def metadata_def)+

lemmas pointers = pointers_1 pointers_2 pointers_3 pointers_4 pointers_5

lemma fields_lawful:
  assumes "fs = all_fields reg"
  shows "list_all (lawful fs) (all_fields reg)"
  unfolding all_fields_def list.pred_inject
  by (intro conjI lawful_kinds pointers [of reg, folded assms] lawful_monitor [of reg, folded assms]
      lawful_themes [of reg, folded assms] TrueI list.pred_inject(1))

lemma settings_keys: "map fst (settings fs c) = map dbKey fs"
  by (simp add: settings_def comp_def)

lemma fields_keys: "distinct (map dbKey (all_fields reg))"
  unfolding settings_keys [of "all_fields reg" undefined, symmetric] settings_fields by simp

lemma fields_yaml_keys: "distinct (map yamlKey (all_fields reg))"
  unfolding all_fields_def by (simp add: toConfigField_def field_kinds monitorField_def themesField_def)

lemma fields_ordinary: "list_all (\<lambda>k. k \<notin> set special_keys) (map dbKey (all_fields reg))"
  unfolding settings_keys [of "all_fields reg" undefined, symmetric] settings_fields by (simp add: special_keys_def)

interpretation tab: settings_table "all_fields reg" for reg
proof
  show "distinct (map dbKey (all_fields reg))" by (rule fields_keys)
  show "distinct (map yamlKey (all_fields reg))" by (rule fields_yaml_keys)
  fix f
  assume f: "f \<in> set (all_fields reg)"
  then have "lawful (all_fields reg) f" using fields_lawful [OF refl, of reg] by (simp add: list_all_iff)
  then show "set_law (all_fields reg) f" "text_law f" "copy_law (all_fields reg) f" "value_law f" "blind f"
    by (simp_all add: lawful_def)
  show "dbKey f \<notin> set special_keys" using fields_ordinary [of reg] f by (simp add: list_all_iff)
qed

end
