(* ===== verification/Config_Correct.thy ===== *)
theory Config_Correct
  imports Config_Laws "HOL-Library.Multiset"
begin

text \<open>
  Correctness of the configuration: the type invariant of loaded configurations, the round trips
  through the database and through YAML, the precedence of the sources, what applying a candidate
  does, and where explicit zeros, runtime changes and the ETag version get lost.
\<close>

section \<open>The type invariant\<close>

text \<open>What the setters guarantee of the single values. A configuration all of whose values were set
  by the table satisfies it.\<close>

definition any_value :: "'a \<Rightarrow> bool" where "any_value x \<longleftrightarrow> True"

definition at_least :: "int \<Rightarrow> int \<Rightarrow> bool" where
  "at_least m n \<longleftrightarrow> i64_range n \<and> m \<le> n"

definition one_of :: "string list \<Rightarrow> string \<Rightarrow> bool" where
  "one_of allowed s \<longleftrightarrow> ToLower s \<in> set (map ToLower allowed)"

definition config_ok :: "registry \<Rightarrow> config \<Rightarrow> bool" where
  "config_ok reg c \<longleftrightarrow>
     (one_of [''debug'', ''info'', ''warn'', ''error'']) (LogLevel c)
     \<and> (one_of [''daily'', ''weekly'', ''monthly'']) (LogRollover c)
     \<and> (\<lambda>s. ValidateWriteCodecID reg s = None) (HTTPCacheBodyCodec c)
     \<and> (\<lambda>s. s \<in> set [''Lax'', ''Strict'', ''None'']) (SessionSameSite c)
     \<and> (\<lambda>n. 1 \<le> n \<and> n \<le> 65535) (ListenerPort c)
     \<and> (at_least 1) (LogRetentionCount c)
     \<and> i64_range (SessionMaxAge c)
     \<and> (at_least 1) (DBMaxPoolSize c)
     \<and> (at_least 0) (DBMinIdleConnections c)
     \<and> (at_least 0) (WorkerPoolMax c)
     \<and> (at_least 0) (WorkerPoolMinIdle c)
     \<and> (at_least 1) (QueueSize c)
     \<and> i64_range (MaxHTTPCacheEntryInsertPerTransaction c)
     \<and> i64_range (LockoutDuration c)
     \<and> (at_least 1) (LockoutThreshold c)
     \<and> (at_least 0) (LoginRateLimitPerIP c)
     \<and> (at_least 0) (CacheMaxSize c)
     \<and> (at_least 0) (CacheMaxEntrySize c)
     \<and> (at_least 0) (DQueMaxDiskBytes c)
     \<and> i64_range (CacheMaxTime c)
     \<and> i64_range (CacheCleanupInterval c)
     \<and> i64_range (DBOptimizeInterval c)
     \<and> i64_range (WorkerPoolMaxIdleTime c)
     \<and> (at_least 0) (DBPoolMonitorInterval c)
     \<and> (list_all valid_utf8) (Themes c)"

text \<open>The configuration as it is read back from the database: the themes are stored sorted.\<close>

definition sorted_themes :: "config \<Rightarrow> config" where
  "sorted_themes c = c\<lparr>Themes := sort (Themes c)\<rparr>"

text \<open>A pointer whose values satisfy \<^term>\<open>P\<close> in every well-typed configuration.\<close>

definition guarded :: "registry \<Rightarrow> ('a \<Rightarrow> bool) \<Rightarrow> (config \<Rightarrow> 'a) \<Rightarrow> ('a \<Rightarrow> config \<Rightarrow> config) \<Rightarrow> bool" where
  "guarded reg P get put \<longleftrightarrow>
     (\<forall>c. config_ok reg c \<longrightarrow> P (get c))
     \<and> (\<forall>c x. config_ok reg c \<longrightarrow> P x \<longrightarrow> config_ok reg (put x c))
     \<and> (\<forall>c x. get (put x c) = x) \<and> (\<forall>c. get (sorted_themes c) = get c)"

lemma guards_1:
  "guarded reg any_value ListenerAddress (\<lambda>v. ListenerAddress_update (\<lambda>_. v))"
  "guarded reg any_value LogDirectory (\<lambda>v. LogDirectory_update (\<lambda>_. v))"
  "guarded reg (one_of [''debug'', ''info'', ''warn'', ''error'']) LogLevel (\<lambda>v. LogLevel_update (\<lambda>_. v))"
  "guarded reg (one_of [''daily'', ''weekly'', ''monthly'']) LogRollover (\<lambda>v. LogRollover_update (\<lambda>_. v))"
  "guarded reg any_value SiteName (\<lambda>v. SiteName_update (\<lambda>_. v))"
  "guarded reg any_value CurrentTheme (\<lambda>v. CurrentTheme_update (\<lambda>_. v))"
  "guarded reg any_value ImageDirectory (\<lambda>v. ImageDirectory_update (\<lambda>_. v))"
  "guarded reg any_value ETagVersion (\<lambda>v. ETagVersion_update (\<lambda>_. v))"
  "guarded reg (\<lambda>s. ValidateWriteCodecID reg s = None) HTTPCacheBodyCodec (\<lambda>v. HTTPCacheBodyCodec_update (\<lambda>_. v))"
  unfolding guarded_def config_ok_def sorted_themes_def by (intro conjI allI impI; simp add: any_value_def)+

lemma guards_2:
  "guarded reg (\<lambda>s. s \<in> set [''Lax'', ''Strict'', ''None'']) SessionSameSite (\<lambda>v. SessionSameSite_update (\<lambda>_. v))"
  "guarded reg (\<lambda>n. 1 \<le> n \<and> n \<le> 65535) ListenerPort (\<lambda>v. ListenerPort_update (\<lambda>_. v))"
  "guarded reg (at_least 1) LogRetentionCount (\<lambda>v. LogRetentionCount_update (\<lambda>_. v))"
  "guarded reg i64_range SessionMaxAge (\<lambda>v. SessionMaxAge_update (\<lambda>_. v))"
  "guarded reg (at_least 1) DBMaxPoolSize (\<lambda>v. DBMaxPoolSize_update (\<lambda>_. v))"
  "guarded reg (at_least 0) DBMinIdleConnections (\<lambda>v. DBMinIdleConnections_update (\<lambda>_. v))"
  "guarded reg (at_least 0) WorkerPoolMax (\<lambda>v. WorkerPoolMax_update (\<lambda>_. v))"
  "guarded reg (at_least 0) WorkerPoolMinIdle (\<lambda>v. WorkerPoolMinIdle_update (\<lambda>_. v))"
  "guarded reg (at_least 1) QueueSize (\<lambda>v. QueueSize_update (\<lambda>_. v))"
  unfolding guarded_def config_ok_def sorted_themes_def by (intro conjI allI impI; simp add: any_value_def)+

lemma guards_3:
  "guarded reg i64_range MaxHTTPCacheEntryInsertPerTransaction (\<lambda>v. MaxHTTPCacheEntryInsertPerTransaction_update (\<lambda>_. v))"
  "guarded reg i64_range LockoutDuration (\<lambda>v. LockoutDuration_update (\<lambda>_. v))"
  "guarded reg (at_least 1) LockoutThreshold (\<lambda>v. LockoutThreshold_update (\<lambda>_. v))"
  "guarded reg (at_least 0) LoginRateLimitPerIP (\<lambda>v. LoginRateLimitPerIP_update (\<lambda>_. v))"
  "guarded reg any_value SessionHttpOnly (\<lambda>v. SessionHttpOnly_update (\<lambda>_. v))"
  "guarded reg any_value SessionSecure (\<lambda>v. SessionSecure_update (\<lambda>_. v))"
  "guarded reg any_value EnableHTTPCache (\<lambda>v. EnableHTTPCache_update (\<lambda>_. v))"
  "guarded reg any_value EnableCachePreload (\<lambda>v. EnableCachePreload_update (\<lambda>_. v))"
  "guarded reg any_value RunFileDiscovery (\<lambda>v. RunFileDiscovery_update (\<lambda>_. v))"
  unfolding guarded_def config_ok_def sorted_themes_def by (intro conjI allI impI; simp add: any_value_def)+

lemma guards_4:
  "guarded reg any_value RestartAfterDiscovery (\<lambda>v. RestartAfterDiscovery_update (\<lambda>_. v))"
  "guarded reg (at_least 0) CacheMaxSize (\<lambda>v. CacheMaxSize_update (\<lambda>_. v))"
  "guarded reg (at_least 0) CacheMaxEntrySize (\<lambda>v. CacheMaxEntrySize_update (\<lambda>_. v))"
  "guarded reg (at_least 0) DQueMaxDiskBytes (\<lambda>v. DQueMaxDiskBytes_update (\<lambda>_. v))"
  "guarded reg i64_range CacheMaxTime (\<lambda>v. CacheMaxTime_update (\<lambda>_. v))"
  "guarded reg i64_range CacheCleanupInterval (\<lambda>v. CacheCleanupInterval_update (\<lambda>_. v))"
  "guarded reg i64_range DBOptimizeInterval (\<lambda>v. DBOptimizeInterval_update (\<lambda>_. v))"
  "guarded reg i64_range WorkerPoolMaxIdleTime (\<lambda>v. WorkerPoolMaxIdleTime_update (\<lambda>_. v))"
  unfolding guarded_def config_ok_def sorted_themes_def by (intro conjI allI impI; simp add: any_value_def)+

lemmas guards = guards_1 guards_2 guards_3 guards_4

text \<open>What soundness of a field means: it keeps the invariant, and what it writes to the database or
  to YAML is accepted again with the value it stands for.\<close>

definition sound_field :: "registry \<Rightarrow> config_field \<Rightarrow> bool" where
  "sound_field reg f \<longleftrightarrow>
     (\<forall>c v c'. config_ok reg c \<longrightarrow> set_field f c v = Inr c' \<longrightarrow> config_ok reg c')
     \<and> (\<forall>c d. config_ok reg c \<longrightarrow> config_ok reg d \<longrightarrow> config_ok reg (setFrom f c d))
     \<and> (\<forall>c. config_ok reg c \<longrightarrow> denotes f (getDB f c) = Some (getYAML f (sorted_themes c)))
     \<and> (\<forall>c. config_ok reg c \<longrightarrow> (case yamlValueToSetString (getYAML f c) of
           Inl _ \<Rightarrow> False | Inr s \<Rightarrow> denotes f s = Some (getYAML f c)))"

definition sound_parse :: "('a \<Rightarrow> bool) \<Rightarrow> 'a field \<Rightarrow> bool" where
  "sound_parse P f \<longleftrightarrow>
     (\<forall>v x. f_parse f v = Inr x \<longrightarrow> P x)
     \<and> (\<forall>x. P x \<longrightarrow> f_parse f (f_format f x) = Inr x)
     \<and> (\<forall>x. P x \<longrightarrow> (case yamlValueToSetString (f_yaml f x) of Inl _ \<Rightarrow> False | Inr s \<Rightarrow> f_parse f s = Inr x))"

lemma sound_typed:
  assumes G: "guarded reg P (f_get f) (f_put f)" and S: "sound_parse P f"
  shows "sound_field reg (toConfigField f)"
proof -
  have g: "P (f_get f c)" "P x \<Longrightarrow> config_ok reg (f_put f x c)" if "config_ok reg c" for c x
    using G that unfolding guarded_def by blast+
  have gp: "f_get f (f_put f x c) = x" "f_get f (sorted_themes c) = f_get f c" for x c
    using G unfolding guarded_def by blast+
  have s: "f_parse f v = Inr x \<Longrightarrow> P x" "P x \<Longrightarrow> f_parse f (f_format f x) = Inr x"
    "P x \<Longrightarrow> (case yamlValueToSetString (f_yaml f x) of Inl _ \<Rightarrow> False | Inr s \<Rightarrow> f_parse f s = Inr x)" for v x
    using S unfolding sound_parse_def by blast+
  have d: "denotes (toConfigField f) v = Some (f_yaml f x)" if "f_parse f v = Inr x" for v x
    using that by (simp add: denotes_def toConfigField_def field_set_def gp)
  have "config_ok reg c'" if "config_ok reg c" "set_field (toConfigField f) c v = Inr c'" for c v c'
    using that g s by (auto simp: toConfigField_def field_set_def split: sum.splits)
  moreover have "config_ok reg (setFrom (toConfigField f) c d)" if "config_ok reg c" "config_ok reg d" for c d
    using that g by (simp add: toConfigField_def)
  moreover have "denotes (toConfigField f) (getDB (toConfigField f) c) = Some (getYAML (toConfigField f) (sorted_themes c))"
    if "config_ok reg c" for c
    using d [OF s(2) [OF g(1) [OF that]]] by (simp add: toConfigField_def gp)
  moreover have "case yamlValueToSetString (getYAML (toConfigField f) c) of Inl _ \<Rightarrow> False
      | Inr s \<Rightarrow> denotes (toConfigField f) s = Some (getYAML (toConfigField f) c)" if "config_ok reg c" for c
    using s(3) [OF g(1) [OF that]] d by (simp add: toConfigField_def split: sum.splits)
  ultimately show ?thesis unfolding sound_field_def by blast
qed

lemma Itoa_roundtrip: "i64_range n \<Longrightarrow> parse_int64 (Itoa n) = Some n"
proof -
  assume n: "i64_range n"
  show ?thesis
  proof (cases "n < 0")
    case True
    then show ?thesis using n dec_of_nat_digits [of "nat (- n)"] by (simp add: Itoa_def parse_int64_def)
  next
    case False
    obtain c s where s: "dec_of_nat (nat n) = c # s" by (cases "dec_of_nat (nat n)") auto
    then have "is_digit c" "list_all is_digit (c # s)" using dec_of_nat_digits [of "nat n"] by simp_all
    moreover from this have "c \<noteq> CHR ''-''" "c \<noteq> CHR ''+''" by (auto simp: is_digit_def)
    moreover have "nat_of_dec (c # s) = nat n" using nat_of_dec_of_nat [of "nat n"] s by simp
    ultimately show ?thesis using False n s by (simp add: Itoa_def parse_int64_def)
  qed
qed

lemma parse_int64_range: "parse_int64 s = Some n \<Longrightarrow> i64_range n"
  by (auto simp: parse_int64_def Let_def split: prod.splits if_splits)

lemma parse_components_le: "parse_components d s = Some r \<Longrightarrow> d \<le> two63 \<Longrightarrow> r \<le> two63"
proof (induction d s rule: parse_components.induct)
  case (1 d s)
  then show ?case
    by (auto simp: parse_components.simps [of d s] Let_def split: if_splits option.splits)
qed

lemma ParseDuration_range: "ParseDuration s = Some d \<Longrightarrow> i64_range d"
  using parse_components_le [of 0]
  by (auto simp: ParseDuration_def Let_def i64_range_def two63_def split: prod.splits if_splits option.splits)

lemmas parse_defs = parseIntNamed_def parseIntMin_def parseIntNonNeg_def parsePort_def
  parseInt64NonNeg_def parseDurationNamed_def parseBoolNamed_def validateOneOfNamed_def
  validateOneOfExactNamed_def validateHTTPCacheBodyCodec_def

lemma port_range: "1 \<le> n \<Longrightarrow> n \<le> 65535 \<Longrightarrow> i64_range n"
  by (simp add: i64_range_def)

lemma ParseBool_Format: "ParseBool (FormatBool b) = Some b"
  by (simp add: ParseBool_def FormatBool_def)

lemma sound_parses:
  "sound_parse any_value (stringField k yk get put Inr rs)"
  "sound_parse (one_of allowed) (stringField k yk get put (validateOneOfNamed name allowed) rs)"
  "sound_parse (\<lambda>s. s \<in> set allowed) (stringField k yk get put (validateOneOfExactNamed name allowed) rs)"
  "sound_parse (\<lambda>s. ValidateWriteCodecID reg s = None)
     (stringField k yk get put (validateHTTPCacheBodyCodec reg) rs)"
  "sound_parse i64_range (intField k yk geti puti (parseIntNamed name) rs)"
  "sound_parse (at_least m) (intField k yk geti puti (parseIntMin name vname m) rs)"
  "sound_parse (at_least 0) (intField k yk geti puti (parseIntNonNeg name vname) rs)"
  "sound_parse (\<lambda>n. 1 \<le> n \<and> n \<le> 65535) (intField k yk geti puti parsePort rs)"
  "sound_parse any_value (boolField k yk name getb putb rs cb)"
  "sound_parse (at_least 0) (int64Field k yk geti puti (parseInt64NonNeg name) rs)"
  "sound_parse (at_least 0) (int64FieldZeroNever k yk geti puti (parseInt64NonNeg name) rs)"
  "sound_parse i64_range (durationField k yk name geti puti rs)"
  unfolding sound_parse_def field_kinds
  by (auto simp: any_value_def one_of_def at_least_def yamlValueToSetString_def parse_defs Itoa_roundtrip
      ParseBool_Format ParseDuration_String port_range
      split: option.splits if_splits dest: parse_int64_range ParseDuration_range)

lemma concat_json: "json_values (map YStr ss) = Some (map json_string ss)"
  by (induction ss) simp_all

lemma join_comma_elems: "join_comma (map json_string ss) = json_elems ss"
  by (induction ss rule: json_elems.induct) simp_all

lemma yaml_themes: "yamlValueToSetString (YSeq (map YStr ss)) = Inr (json_Marshal ss)"
  by (simp add: yamlValueToSetString_def concat_json join_comma_elems json_Marshal_def)

lemma guards_special:
  "config_ok reg c \<Longrightarrow> at_least 0 (DBPoolMonitorInterval c)"
  "config_ok reg c \<Longrightarrow> at_least 0 d \<Longrightarrow> config_ok reg (c\<lparr>DBPoolMonitorInterval := d\<rparr>)"
  "config_ok reg c \<Longrightarrow> list_all valid_utf8 (Themes c)"
  "config_ok reg c \<Longrightarrow> list_all valid_utf8 ts \<Longrightarrow> config_ok reg (c\<lparr>Themes := ts\<rparr>)"
  unfolding config_ok_def by simp_all

lemma sound_monitor: "sound_field reg monitorField"
proof -
  have r: "parseDBPoolMonitorInterval (Duration_String d) = Inr d" if "at_least 0 d" for d
    using that by (simp add: parseDBPoolMonitorInterval_def at_least_def ParseDuration_String)
  have p: "at_least 0 d" if "parseDBPoolMonitorInterval v = Inr d" for v d
    using that by (auto simp: parseDBPoolMonitorInterval_def at_least_def split: option.splits if_splits
      dest: ParseDuration_range)
  show ?thesis
    unfolding sound_field_def monitorField_def config_field.simps denotes_def yamlValueToSetString_def yaml.case
    by (intro conjI allI impI)
      (auto simp: r guards_special sorted_themes_def split: sum.splits dest: p)
qed

lemma sound_themes: "sound_field reg themesField"
proof -
  have v: "list_all valid_utf8 (Themes c)" if "config_ok reg c" for c
    using that by (rule guards_special(3))
  have vs: "list_all valid_utf8 (sort (Themes c))" if "config_ok reg c" for c
    using v [OF that] by (simp add: list_all_iff)
  show ?thesis
    unfolding sound_field_def themesField_def config_field.simps denotes_def yaml_themes
    by (intro conjI allI impI)
      (auto simp: json_roundtrip v vs sorted_themes_def split: option.splits
        dest!: json_Unmarshal_valid intro: guards_special(4))
qed

lemma sound_kinds:
  "guarded reg any_value get put \<Longrightarrow> sound_field reg (toConfigField (stringField k yk get put Inr rs))"
  "guarded reg (one_of allowed) get put \<Longrightarrow>
     sound_field reg (toConfigField (stringField k yk get put (validateOneOfNamed name allowed) rs))"
  "guarded reg (\<lambda>s. s \<in> set allowed) get put \<Longrightarrow>
     sound_field reg (toConfigField (stringField k yk get put (validateOneOfExactNamed name allowed) rs))"
  "guarded reg (\<lambda>s. ValidateWriteCodecID reg s = None) get put \<Longrightarrow>
     sound_field reg (toConfigField (stringField k yk get put (validateHTTPCacheBodyCodec reg) rs))"
  "guarded reg i64_range geti puti \<Longrightarrow> sound_field reg (toConfigField (intField k yk geti puti (parseIntNamed name) rs))"
  "guarded reg (at_least m) geti puti \<Longrightarrow>
     sound_field reg (toConfigField (intField k yk geti puti (parseIntMin name vname m) rs))"
  "guarded reg (at_least 0) geti puti \<Longrightarrow>
     sound_field reg (toConfigField (intField k yk geti puti (parseIntNonNeg name vname) rs))"
  "guarded reg (\<lambda>n. 1 \<le> n \<and> n \<le> 65535) geti puti \<Longrightarrow>
     sound_field reg (toConfigField (intField k yk geti puti parsePort rs))"
  "guarded reg any_value getb putb \<Longrightarrow> sound_field reg (toConfigField (boolField k yk name getb putb rs cb))"
  "guarded reg (at_least 0) geti puti \<Longrightarrow>
     sound_field reg (toConfigField (int64Field k yk geti puti (parseInt64NonNeg name) rs))"
  "guarded reg (at_least 0) geti puti \<Longrightarrow>
     sound_field reg (toConfigField (int64FieldZeroNever k yk geti puti (parseInt64NonNeg name) rs))"
  "guarded reg i64_range geti puti \<Longrightarrow> sound_field reg (toConfigField (durationField k yk name geti puti rs))"
  by (rule sound_typed, simp add: field_kinds, rule sound_parses)+

lemma fields_sound: "list_all (sound_field reg) (all_fields reg)"
  unfolding all_fields_def list.pred_inject
  by (intro conjI sound_monitor sound_themes TrueI list.pred_inject(1) sound_kinds guards)

lemma field_sound: "f \<in> set (all_fields reg) \<Longrightarrow> sound_field reg f"
  using fields_sound by (simp add: list_all_iff)

section \<open>Every operation keeps the invariant\<close>

lemma ok_set: "f \<in> set (all_fields reg) \<Longrightarrow> config_ok reg c \<Longrightarrow> set_field f c v = Inr c' \<Longrightarrow> config_ok reg c'"
  using field_sound unfolding sound_field_def by blast

lemma ok_copy: "f \<in> set (all_fields reg) \<Longrightarrow> config_ok reg c \<Longrightarrow> config_ok reg d \<Longrightarrow> config_ok reg (setFrom f c d)"
  using field_sound unfolding sound_field_def by blast

lemma ok_metadata: "config_ok reg (c\<lparr>HelpText := h\<rparr>) = config_ok reg c"
  "config_ok reg (c\<lparr>ExampleValues := h\<rparr>) = config_ok reg c"
  by (simp_all add: config_ok_def)

lemma ok_default:
  "ValidateWriteCodecID reg ''zstd-1'' = None \<Longrightarrow> config_ok reg (DefaultConfig today)"
  by (simp add: config_ok_def DefaultConfig_def at_least_def one_of_def i64_range_def
      DefaultDQueMaxDiskBytes_def valid_utf8.simps lead_byte_def ToLower_def to_lower_def)

lemma ok_SetValue: "config_ok reg c \<Longrightarrow> SetValueFromString (all_fields reg) k v c = Inr c' \<Longrightarrow> config_ok reg c'"
  using find_keyD [of dbKey k "all_fields reg"] ok_set
  by (auto simp: SetValueFromString_def split: option.splits)

lemma ok_load_row:
  assumes "config_ok reg c"
  shows "config_ok reg (load_row (all_fields reg) r c)"
proof -
  have "config_ok reg (load_metadata r c)"
    unfolding load_metadata_def Let_def using assms by (simp add: ok_metadata split: option.split)
  from ok_SetValue [OF this] this show ?thesis unfolding load_row_def Let_def by (simp split: sum.split)
qed

lemma fold_keeps: "(\<And>x c. x \<in> set xs \<Longrightarrow> P c \<Longrightarrow> P (g x c)) \<Longrightarrow> P c \<Longrightarrow> P (fold g xs c)"
  by (induction xs arbitrary: c) auto

lemma ok_loaded: "config_ok reg c \<Longrightarrow> config_ok reg (loaded (all_fields reg) rs c)"
  unfolding loaded_def by (rule fold_keeps) (simp_all add: ok_load_row ok_metadata)

lemma ok_applyYAML: "config_ok reg c \<Longrightarrow> config_ok reg (snd (applyYAMLValues (all_fields reg) raw c))"
proof (induction raw arbitrary: c)
  case (Cons kv raw)
  then show ?case
    using find_keyD [of yamlKey "fst kv" "all_fields reg"] ok_set
    by (cases kv) (auto split: option.split sum.split)
qed simp

lemma ok_load_file: "config_ok reg c \<Longrightarrow> config_ok reg (load_file (all_fields reg) Y file c)"
  unfolding load_file_def by (simp add: ok_applyYAML split: config_file.split option.split)

lemma ok_LoadFromYAML: "config_ok reg c \<Longrightarrow> config_ok reg (LoadFromYAML (all_fields reg) Y files c)"
  unfolding LoadFromYAML_def by (rule fold_keeps) (simp_all add: ok_load_file)

lemma ok_apply_route: "config_ok reg c \<Longrightarrow> config_ok reg (apply_route (all_fields reg) opt ex r c)"
  using ok_SetValue by (simp add: apply_route_Set split: option.split sum.split)

lemma ok_LoadFromOpt: "config_ok reg c \<Longrightarrow> config_ok reg (LoadFromOptExcluding (all_fields reg) opt ex c)"
  unfolding LoadFromOptExcluding_def by (rule fold_keeps) (simp_all add: ok_apply_route)

lemma ok_MergeDefaults:
  "config_ok reg c \<Longrightarrow> config_ok reg d \<Longrightarrow> config_ok reg (MergeDefaults (all_fields reg) d c)"
  unfolding MergeDefaults_def by (rule fold_keeps) (simp_all add: ok_copy)

lemma ok_image: "config_ok reg (c\<lparr>ImageDirectory := p\<rparr>) = config_ok reg c"
  by (simp add: config_ok_def)

lemma ok_Load:
  assumes "ValidateWriteCodecID reg ''zstd-1'' = None"
  shows "config_ok reg (Load (all_fields reg) Y today rootDir store files opt)"
proof -
  note d = ok_default [OF assms, of today]
  have "config_ok reg (case service_Load (all_fields reg) today rows of
      Inl e \<Rightarrow> DefaultConfig today | Inr c \<Rightarrow> MergeDefaults (all_fields reg) (DefaultConfig today) c)" for rows
    using d by (cases rows)
      (simp_all add: service_Load_def LoadFromDatabase_loaded ok_loaded ok_MergeDefaults, simp add: LoadFromDatabase_def)
  then show ?thesis unfolding Load_def Let_def LoadFromOpt_def
    using d by (simp add: ok_image ok_LoadFromYAML ok_LoadFromOpt ok_MergeDefaults split: option.split)
qed

text \<open>Of the checks of \<^verbatim>\<open>Validate\<close> only the two that compare settings can fail on a well-typed
  configuration.\<close>

definition cross_check :: "setting_error option \<Rightarrow> bool" where
  "cross_check r = (case r of
       None \<Rightarrow> True
     | Some e \<Rightarrow> (case e of IdleExceedsPool _ _ \<Rightarrow> True | MinIdleExceedsMax _ _ \<Rightarrow> True | _ \<Rightarrow> False))"

lemma ok_Validate: "config_ok reg c \<Longrightarrow> cross_check (Validate c)"
  unfolding config_ok_def Validate_def
  by (simp add: cross_check_def at_least_def one_of_def ToLower_def to_lower_def)

text \<open>C7: whatever the database, the YAML files and the options hold, the configuration the server
  starts with has every setting in its range, and the only complaints \<^verbatim>\<open>Validate\<close> can have are the two
  relations between pool sizes.\<close>

theorem config_type_sound:
  assumes "ValidateWriteCodecID reg ''zstd-1'' = None"
  shows "config_ok reg (Load (all_fields reg) Y today rootDir store files opt)
    \<and> cross_check (Validate (Load (all_fields reg) Y today rootDir store files opt))"
  using ok_Load [OF assms] ok_Validate by blast

section \<open>Through the database and back\<close>

definition plain :: "config \<Rightarrow> config" where
  "plain c = c\<lparr>HelpText := Map.empty, ExampleValues := Map.empty\<rparr>"

lemma durations_ok:
  assumes "config_ok reg c"
  shows "i64_range (CacheMaxTime c)" "i64_range (CacheCleanupInterval c)" "i64_range (DBOptimizeInterval c)"
    "i64_range (WorkerPoolMaxIdleTime c)" "i64_range (DBPoolMonitorInterval c)"
  using assms by (simp_all add: config_ok_def at_least_def)

lemma config_ext:
  assumes c: "config_ok reg c" and d: "config_ok reg d"
    and e: "settings (all_fields reg) c = settings (all_fields reg) d"
  shows "plain c = plain d"
  using e durations_ok [OF c] durations_ok [OF d]
  by (cases c; cases d) (simp add: settings_fields plain_def Duration_String_inj yseq_inject)

lemma settings_eqI:
  "(\<And>f. f \<in> set fs \<Longrightarrow> getYAML f c = getYAML f d) \<Longrightarrow> settings fs c = settings fs d"
  by (simp add: settings_def)

lemma ok_sorted: "config_ok reg c \<Longrightarrow> config_ok reg (sorted_themes c)"
  using guards_special(3) [of reg c] unfolding sorted_themes_def
  by (intro guards_special(4)) (simp_all add: list_all_iff)

lemma row_text_upsert: "row_text k (upsert_config_row k' v rs) = (if k = k' then Some v else row_text k rs)"
  by (induction rs) (auto simp: row_text_def find_row_def)

lemma upsert_keys: "row_Key ` set (upsert_config_row k v rs) = insert k (row_Key ` set rs)"
  by (induction rs) auto

lemma upsert_distinct: "distinct (map row_Key rs) \<Longrightarrow> distinct (map row_Key (upsert_config_row k v rs))"
  by (induction rs) (auto simp: upsert_keys simp del: image_insert)

lemma upsert_ok: "db_faults db = [] \<Longrightarrow>
  UpsertConfigValueOnly k v db = (None, db\<lparr>db_rows := upsert_config_row k v (db_rows db)\<rparr>)"
  by (cases db) (simp add: UpsertConfigValueOnly_def)

lemma upsert_all_ok:
  "db_faults db = [] \<Longrightarrow> distinct (map fst kvs) \<Longrightarrow> distinct (map row_Key (db_rows db)) \<Longrightarrow>
   \<exists>rs. upsert_all kvs db = (None, db\<lparr>db_rows := rs\<rparr>) \<and> distinct (map row_Key rs)
     \<and> (\<forall>k. row_text k rs = (case map_of kvs k of None \<Rightarrow> row_text k (db_rows db) | Some v \<Rightarrow> Some v))"
proof (induction kvs arbitrary: db)
  case (Cons kv kvs)
  obtain k v where kv: "kv = (k, v)" by force
  let ?db = "db\<lparr>db_rows := upsert_config_row k v (db_rows db)\<rparr>"
  obtain rs where rs: "upsert_all kvs ?db = (None, ?db\<lparr>db_rows := rs\<rparr>)" "distinct (map row_Key rs)"
    "\<forall>k. row_text k rs = (case map_of kvs k of None \<Rightarrow> row_text k (db_rows ?db) | Some v \<Rightarrow> Some v)"
    using Cons.IH [of ?db] Cons.prems upsert_distinct by auto
  have "map_of kvs k = None" using Cons.prems(2) kv by (simp add: map_of_eq_None_iff)
  then have "\<forall>j. row_text j rs = (case map_of (kv # kvs) j of None \<Rightarrow> row_text j (db_rows db) | Some v \<Rightarrow> Some v)"
    using rs(3) kv by (auto simp: row_text_upsert split: option.split)
  then show ?case using rs(1,2) kv upsert_ok [OF Cons.prems(1)] by auto
next
  case Nil
  then show ?case by (intro exI [of _ "db_rows db"]) simp
qed

text \<open>The order in which Go ranges over a map visits every entry once.\<close>

definition range_order :: "((string \<times> 'a) list \<Rightarrow> (string \<times> 'a) list) \<Rightarrow> bool" where
  "range_order ord \<longleftrightarrow> (\<forall>kvs. mset (ord kvs) = mset kvs)"

lemma range_order_map_of:
  assumes "range_order ord" "distinct (map fst kvs)"
  shows "distinct (map fst (ord kvs))" "map_of (ord kvs) = map_of kvs"
proof -
  have m: "mset (ord kvs) = mset kvs" using assms(1) by (simp add: range_order_def)
  then have "mset (map fst (ord kvs)) = mset (map fst kvs)" by simp
  then show d: "distinct (map fst (ord kvs))" using assms(2) by (metis mset_eq_imp_distinct_iff)
  show "map_of (ord kvs) = map_of kvs"
    using map_of_inject_set [OF d assms(2)] m by (metis set_mset_mset)
qed

lemma ToMap_keys: "map fst (ToMap fs c) = map dbKey fs"
  by (simp add: ToMap_def comp_def)

lemma ToMap_value: "f \<in> set (all_fields reg) \<Longrightarrow> map_of (ToMap (all_fields reg) c) (dbKey f) = Some (getDB f c)"
  unfolding ToMap_def by (rule map_of_table [OF fields_keys])

lemma SaveToDatabase_rows:
  assumes ord: "range_order ord" and db: "db_faults db = []" "distinct (map row_Key (db_rows db))"
  obtains rs where "SaveToDatabase (all_fields reg) Y ord c db = (None, db\<lparr>db_rows := rs\<rparr>)"
    "distinct (map row_Key rs)" "\<And>f. f \<in> set (all_fields reg) \<Longrightarrow> row_text (dbKey f) rs = Some (getDB f c)"
    "\<And>y. ExportToYAML (all_fields reg) Y c = Some y \<Longrightarrow> row_text ''LastKnownGoodConfig'' rs = Some y"
proof -
  let ?fs = "all_fields reg"
  have d: "distinct (map fst (ToMap ?fs c))" using fields_keys by (simp add: ToMap_keys)
  obtain rs where rs: "upsert_all (ord (ToMap ?fs c)) db = (None, db\<lparr>db_rows := rs\<rparr>)" "distinct (map row_Key rs)"
    "\<forall>k. row_text k rs = (case map_of (ToMap ?fs c) k of None \<Rightarrow> row_text k (db_rows db) | Some v \<Rightarrow> Some v)"
    using upsert_all_ok [OF db(1) range_order_map_of(1) [OF ord d] db(2)] range_order_map_of(2) [OF ord d]
    by auto
  have stored: "row_text (dbKey f) rs = Some (getDB f c)" if "f \<in> set ?fs" for f
    using rs(3) ToMap_value [OF that] by simp
  have special: "dbKey f \<noteq> ''LastKnownGoodConfig''" if "f \<in> set ?fs" for f
    using tab.ordinary [OF that] by (auto simp: special_keys_def)
  show ?thesis
  proof (cases "ExportToYAML ?fs Y c")
    case None
    then show ?thesis using that [of rs] rs stored by (simp add: SaveToDatabase_def)
  next
    case (Some y)
    let ?rs = "upsert_config_row ''LastKnownGoodConfig'' y rs"
    have "SaveToDatabase ?fs Y ord c db = (None, db\<lparr>db_rows := ?rs\<rparr>)"
      using rs(1) Some db(1) by (simp add: SaveToDatabase_def upsert_ok)
    moreover have "row_text (dbKey f) ?rs = Some (getDB f c)" if "f \<in> set ?fs" for f
      using stored [OF that] special [OF that] by (simp add: row_text_upsert)
    ultimately show ?thesis using that [of ?rs] rs(2) Some by (simp add: upsert_distinct row_text_upsert)
  qed
qed

lemma loaded_rows:
  assumes ok: "config_ok reg c" "config_ok reg d" and rs: "distinct (map row_Key rs)"
    and stored: "\<And>f. f \<in> set (all_fields reg) \<Longrightarrow> row_text (dbKey f) rs = Some (getDB f c)"
  shows "plain (loaded (all_fields reg) rs d) = plain (sorted_themes c)"
proof (rule config_ext)
  show "config_ok reg (loaded (all_fields reg) rs d)" by (rule ok_loaded [OF ok(2)])
  show "config_ok reg (sorted_themes c)" by (rule ok_sorted [OF ok(1)])
  show "settings (all_fields reg) (loaded (all_fields reg) rs d) = settings (all_fields reg) (sorted_themes c)"
  proof (rule settings_eqI)
    fix f
    assume f: "f \<in> set (all_fields reg)"
    have "denotes f (getDB f c) = Some (getYAML f (sorted_themes c))"
      using field_sound [OF f] ok(1) unfolding sound_field_def by blast
    then show "getYAML f (loaded (all_fields reg) rs d) = getYAML f (sorted_themes c)"
      using tab.loaded_value [OF f rs, of d] stored [OF f] by (simp add: tried_def)
  qed
qed

text \<open>C6: what is saved is what is loaded. After \<^verbatim>\<open>SaveToDatabase\<close> of a well-typed configuration,
  \<^verbatim>\<open>Load\<close> of the configuration service returns it, whatever the database held before and in
  whichever order the map of values was written; only the themes come back sorted. Durations, the
  list of themes, numbers and flags all pass through their text form.\<close>

theorem config_save_load:
  assumes "config_ok reg c" "ValidateWriteCodecID reg ''zstd-1'' = None" "range_order ord"
    "db_faults db = []" "distinct (map row_Key (db_rows db))"
  shows "case SaveToDatabase (all_fields reg) Y ord c db of (r, db') \<Rightarrow> r = None
    \<and> map_sum id plain (service_Load (all_fields reg) today (Some (db_rows db'))) = Inr (plain (sorted_themes c))"
proof -
  obtain rs where rs: "SaveToDatabase (all_fields reg) Y ord c db = (None, db\<lparr>db_rows := rs\<rparr>)"
    "distinct (map row_Key rs)" "\<And>f. f \<in> set (all_fields reg) \<Longrightarrow> row_text (dbKey f) rs = Some (getDB f c)"
    using SaveToDatabase_rows [OF assms(3-5), of reg Y c] by metis
  then show ?thesis
    using loaded_rows [OF assms(1) ok_default [OF assms(2), of today] rs(2,3)]
    by (simp add: service_Load_def LoadFromDatabase_loaded)
qed

section \<open>Through YAML and back\<close>

definition yaml_map :: "config_field list \<Rightarrow> config \<Rightarrow> (string \<times> yaml) list" where
  "yaml_map fs c = map (\<lambda>f. (yamlKey f, getYAML f c)) fs"

text \<open>What is used of the YAML library: it reads back the document of one configuration.\<close>

definition yaml_lossless :: "yaml_lib \<Rightarrow> config_field list \<Rightarrow> config \<Rightarrow> bool" where
  "yaml_lossless Y fs c \<longleftrightarrow> range_order (yl_range Y) \<and>
     (case yl_marshal Y (yaml_map fs c) of
        None \<Rightarrow> False | Some text \<Rightarrow> text \<noteq> [] \<and> yl_unmarshal Y text = Some (yaml_map fs c))"

lemma yaml_map_keys: "map fst (yaml_map fs c) = map yamlKey fs"
  by (simp add: yaml_map_def comp_def)

lemma apply_valid:
  assumes "\<And>k y f. (k, y) \<in> set raw \<Longrightarrow> find (\<lambda>f. yamlKey f = k) fs = Some f \<Longrightarrow>
      \<exists>s. yamlValueToSetString y = Inr s \<and> (\<forall>c. \<exists>c'. set_field f c s = Inr c')"
  shows "fst (applyYAMLValues fs raw c) = None"
  using assms
proof (induction raw arbitrary: c)
  case (Cons kv raw)
  obtain k y where kv: "kv = (k, y)" by force
  have IH: "fst (applyYAMLValues fs raw c) = None" for c
    by (rule Cons.IH, rule Cons.prems) auto
  show ?case
  proof (cases "find (\<lambda>f. yamlKey f = k) fs")
    case None
    with IH kv show ?thesis by simp
  next
    case (Some f)
    then obtain s where s: "yamlValueToSetString y = Inr s" "\<forall>c. \<exists>c'. set_field f c s = Inr c'"
      using Cons.prems [of k y f] kv by auto
    then obtain c' where "set_field f c s = Inr c'" by blast
    with IH kv Some s show ?thesis by simp
  qed
qed simp

lemma denotes_accepts:
  assumes "f \<in> set (all_fields reg)" "denotes f s = Some y"
  shows "\<exists>c'. set_field f c s = Inr c'"
  by (cases rule: tab.set_field_cases [OF assms(1), of c s]) (use assms(2) in auto)

lemma yaml_apply:
  assumes ok: "config_ok reg c" "config_ok reg d" and ord: "range_order ord"
  obtains c' where "applyYAMLValues (all_fields reg) (ord (yaml_map (all_fields reg) c)) d = (None, c')"
    "plain c' = plain c"
proof -
  let ?fs = "all_fields reg"
  let ?raw = "ord (yaml_map ?fs c)"
  have dist: "distinct (map fst (yaml_map ?fs c))" using fields_yaml_keys by (simp add: yaml_map_keys)
  note R = range_order_map_of [OF ord dist]
  have repr: "\<exists>s. yamlValueToSetString (getYAML f c) = Inr s \<and> denotes f s = Some (getYAML f c)"
    if "f \<in> set ?fs" for f
  proof -
    have "case yamlValueToSetString (getYAML f c) of Inl _ \<Rightarrow> False | Inr s \<Rightarrow> denotes f s = Some (getYAML f c)"
      using field_sound [OF that] ok(1) unfolding sound_field_def by blast
    then show ?thesis by (cases "yamlValueToSetString (getYAML f c)") simp_all
  qed
  have look: "map_of ?raw (yamlKey f) = Some (getYAML f c)" if "f \<in> set ?fs" for f
    using map_of_table [OF fields_yaml_keys that, of "\<lambda>f. getYAML f c"] R(2) by (simp add: yaml_map_def)
  have none: "fst (applyYAMLValues ?fs ?raw d) = None"
  proof (rule apply_valid)
    fix k y f
    assume "(k, y) \<in> set ?raw" and find: "find (\<lambda>f. yamlKey f = k) ?fs = Some f"
    then have "map_of ?raw k = Some y" using R(1) by simp
    moreover have f: "f \<in> set ?fs" "yamlKey f = k" using find_keyD [of yamlKey, OF find] by simp_all
    ultimately have "y = getYAML f c" using look [OF f(1)] by simp
    then show "\<exists>s. yamlValueToSetString y = Inr s \<and> (\<forall>c. \<exists>c'. set_field f c s = Inr c')"
      using repr [OF f(1)] denotes_accepts [OF f(1)] by blast
  qed
  define c' where "c' = snd (applyYAMLValues ?fs ?raw d)"
  have A: "applyYAMLValues ?fs ?raw d = (None, c')" using none by (simp add: c'_def prod_eq_iff)
  have "plain c' = plain c"
  proof (rule config_ext)
    show "config_ok reg c'" unfolding c'_def by (rule ok_applyYAML [OF ok(2)])
    show "settings ?fs c' = settings ?fs c"
    proof (rule settings_eqI)
      fix f assume f: "f \<in> set ?fs"
      from repr [OF f] look [OF f] tab.applyYAMLValues_value [OF f R(1) A]
      show "getYAML f c' = getYAML f c" by (auto simp: yaml_text_def tried_def)
    qed
  qed (rule ok(1))
  with A show ?thesis by (rule that)
qed

lemma Validate_plain: "plain c = plain d \<Longrightarrow> Validate c = Validate d"
proof -
  have "Validate (plain x) = Validate x" for x by (simp add: Validate_def plain_def)
  then show "plain c = plain d \<Longrightarrow> Validate c = Validate d" by metis
qed

lemma getDB_plain:
  assumes "f \<in> set (all_fields reg)" "plain c = plain d"
  shows "getDB f c = getDB f d"
proof -
  have "getYAML f (plain x) = getYAML f x" for x
    unfolding plain_def by (simp add: tab.blind_simps [OF assms(1)])
  then have "getYAML f c = getYAML f d" using assms(2) by metis
  then show ?thesis using tab.same_value [OF assms(1)] by blast
qed

lemma IdentifyChanges_plain: "plain c = plain d \<Longrightarrow> IdentifyChanges (all_fields reg) c d = []"
  unfolding IdentifyChanges_def by (subst filter_False) (use getDB_plain in \<open>blast, simp\<close>)

text \<open>the last known good configuration is the one that was saved last. Right after any
  successful save of a configuration that passes \<^verbatim>\<open>Validate\<close>, restoring yields exactly this
  configuration and the difference to it is empty: restoring never leads back to an earlier state.\<close>

theorem last_known_good_is_last_saved:
  assumes "config_ok reg c" "ValidateWriteCodecID reg ''zstd-1'' = None" "range_order ord"
    "db_faults db = []" "distinct (map row_Key (db_rows db))"
    "yaml_lossless Y (all_fields reg) c" "Validate c = None"
  shows "case SaveToDatabase (all_fields reg) Y ord c db of (r, db') \<Rightarrow>
    (case RestoreLastKnownGood (all_fields reg) Y today (Some (db_rows db')) of
       Inl e \<Rightarrow> False
     | Inr g \<Rightarrow> plain g = plain c \<and> IdentifyChanges (all_fields reg) c g = [])"
proof -
  let ?fs = "all_fields reg"
  obtain y where y: "yl_marshal Y (yaml_map ?fs c) = Some y" "y \<noteq> []"
    "yl_unmarshal Y y = Some (yaml_map ?fs c)" and ord: "range_order (yl_range Y)"
  proof -
    have a: "range_order (yl_range Y)" "case yl_marshal Y (yaml_map ?fs c) of None \<Rightarrow> False
        | Some text \<Rightarrow> text \<noteq> [] \<and> yl_unmarshal Y text = Some (yaml_map ?fs c)"
      using assms(6) unfolding yaml_lossless_def by blast+
    show thesis by (cases "yl_marshal Y (yaml_map ?fs c)") (use a that in simp_all)
  qed
  then have E: "ExportToYAML ?fs Y c = Some y" by (simp add: ExportToYAML_def yaml_map_def)
  obtain rs where rs: "SaveToDatabase ?fs Y ord c db = (None, db\<lparr>db_rows := rs\<rparr>)"
    "row_text ''LastKnownGoodConfig'' rs = Some y"
  proof (rule SaveToDatabase_rows [OF assms(3-5), of reg Y c])
    fix rs
    assume "SaveToDatabase ?fs Y ord c db = (None, db\<lparr>db_rows := rs\<rparr>)"
      "\<And>y. ExportToYAML ?fs Y c = Some y \<Longrightarrow> row_text ''LastKnownGoodConfig'' rs = Some y"
    then show thesis using that [of rs] E by simp
  qed
  then obtain row where row: "find_row ''LastKnownGoodConfig'' rs = Some row" "row_Value row = y"
    by (auto simp: row_text_def)
  obtain g where g: "applyYAMLValues ?fs (yl_range Y (yaml_map ?fs c)) (DefaultConfig today) = (None, g)"
    "plain g = plain c"
    by (rule yaml_apply [OF assms(1) ok_default [OF assms(2)] ord])
  have "RestoreLastKnownGood ?fs Y today (Some rs) = Inr g"
    using row y g Validate_plain [OF g(2)] assms(7) by (simp add: RestoreLastKnownGood_def)
  then show ?thesis using rs(1) g(2) IdentifyChanges_plain [OF g(2) [symmetric]] by simp
qed

section \<open>Precedence\<close>

text \<open>The texts the sources offer for a field, highest precedence first: option, YAML files in the
  order of \<^verbatim>\<open>FindConfigFiles\<close>, database row.\<close>

definition file_text :: "yaml_lib \<Rightarrow> config_field \<Rightarrow> config_file \<Rightarrow> string list" where
  "file_text Y f file = (case file of
       Content text \<Rightarrow>
         (case yl_unmarshal Y text of
            None \<Rightarrow> [] | Some raw \<Rightarrow> (case yaml_text raw (yamlKey f) of None \<Rightarrow> [] | Some s \<Rightarrow> [s]))
     | _ \<Rightarrow> [])"

definition offered :: "yaml_lib \<Rightarrow> config_row list \<Rightarrow> config_file list \<Rightarrow> opt \<Rightarrow> config_field \<Rightarrow> string list" where
  "offered Y rows files opt f =
     (case route_text opt [] cliRoutes (dbKey f) of None \<Rightarrow> [] | Some s \<Rightarrow> [s])
     @ concat (map (file_text Y f) files)
     @ (case row_text (dbKey f) rows of None \<Rightarrow> [] | Some s \<Rightarrow> [s])"

text \<open>The first acceptable text decides; zero values give way to the default.\<close>

definition resolved :: "string \<Rightarrow> config_field \<Rightarrow> string list \<Rightarrow> yaml" where
  "resolved today f texts =
     (case find (\<lambda>s. denotes f s \<noteq> None) texts of
        None \<Rightarrow> getYAML f (DefaultConfig today)
      | Some s \<Rightarrow>
          (case set_field f (DefaultConfig today) s of
             Inl _ \<Rightarrow> getYAML f (DefaultConfig today)
           | Inr c \<Rightarrow> if isZero f c then getYAML f (DefaultConfig today) else getYAML f c))"

text \<open>A YAML document without errors: distinct keys, and every key of the table has a value its field
  accepts.\<close>

definition valid_doc :: "config_field list \<Rightarrow> yaml_lib \<Rightarrow> config_file \<Rightarrow> bool" where
  "valid_doc fs Y file = (case file of
       Content text \<Rightarrow>
         (case yl_unmarshal Y text of
            None \<Rightarrow> True
          | Some raw \<Rightarrow> distinct (map fst raw) \<and>
              list_all (\<lambda>(k, y). case find (\<lambda>f. yamlKey f = k) fs of
                  None \<Rightarrow> True
                | Some f \<Rightarrow> (case yamlValueToSetString y of Inl _ \<Rightarrow> False | Inr s \<Rightarrow> denotes f s \<noteq> None)) raw)
     | _ \<Rightarrow> True)"

definition pick :: "config_field \<Rightarrow> string list \<Rightarrow> yaml \<Rightarrow> yaml" where
  "pick f texts y = (case find (\<lambda>s. denotes f s \<noteq> None) texts of None \<Rightarrow> y | Some s \<Rightarrow> tried f s y)"

lemma pick_append: "pick f (xs @ ys) y = pick f xs (pick f ys y)"
  by (induction xs) (auto simp: pick_def tried_def split: option.split)

lemma taken_pick: "taken f t y = pick f (case t of None \<Rightarrow> [] | Some s \<Rightarrow> [s]) y"
  by (cases t) (simp_all add: pick_def tried_def)

lemma doc_applies:
  assumes ord: "range_order (yl_range Y)" and doc: "valid_doc (all_fields reg) Y (Content text)"
    and raw: "yl_unmarshal Y text = Some raw"
  obtains c' where "applyYAMLValues (all_fields reg) (yl_range Y raw) c = (None, c')"
    "\<And>f. f \<in> set (all_fields reg) \<Longrightarrow> getYAML f c' = taken f (yaml_text raw (yamlKey f)) (getYAML f c)"
proof -
  let ?fs = "all_fields reg"
  have d: "distinct (map fst raw)" and ok: "list_all (\<lambda>(k, y). case find (\<lambda>f. yamlKey f = k) ?fs of
        None \<Rightarrow> True
      | Some f \<Rightarrow> (case yamlValueToSetString y of Inl _ \<Rightarrow> False | Inr s \<Rightarrow> denotes f s \<noteq> None)) raw"
    using doc raw by (simp_all add: valid_doc_def)
  note R = range_order_map_of [OF ord d]
  have same: "set (yl_range Y raw) = set raw"
    using ord by (metis range_order_def set_mset_mset)
  have "fst (applyYAMLValues ?fs (yl_range Y raw) c) = None"
  proof (rule apply_valid)
    fix k y f
    assume "(k, y) \<in> set (yl_range Y raw)" and find: "find (\<lambda>f. yamlKey f = k) ?fs = Some f"
    then have "case yamlValueToSetString y of Inl _ \<Rightarrow> False | Inr s \<Rightarrow> denotes f s \<noteq> None"
      using ok same by (simp add: list_all_iff) (metis case_prodD option.simps(5))
    then obtain s v where "yamlValueToSetString y = Inr s" "denotes f s = Some v"
      by (cases "yamlValueToSetString y") auto
    then show "\<exists>s. yamlValueToSetString y = Inr s \<and> (\<forall>c. \<exists>c'. set_field f c s = Inr c')"
      using denotes_accepts [of f reg s v] find_keyD [of yamlKey, OF find] by blast
  qed
  then have A: "applyYAMLValues ?fs (yl_range Y raw) c = (None, snd (applyYAMLValues ?fs (yl_range Y raw) c))"
    by (simp add: prod_eq_iff)
  have "getYAML f (snd (applyYAMLValues ?fs (yl_range Y raw) c)) = taken f (yaml_text raw (yamlKey f)) (getYAML f c)"
    if "f \<in> set ?fs" for f
    using tab.applyYAMLValues_value [OF that R(1) A] R(2) by (simp add: yaml_text_def)
  with A show thesis by (rule that)
qed

lemma load_file_value:
  assumes f: "f \<in> set (all_fields reg)" and ord: "range_order (yl_range Y)"
    and doc: "valid_doc (all_fields reg) Y fl"
  shows "getYAML f (load_file (all_fields reg) Y fl c) = pick f (file_text Y f fl) (getYAML f c)"
proof (cases fl)
  case (Content cont)
  show ?thesis
  proof (cases "yl_unmarshal Y cont")
    case None
    with Content show ?thesis by (simp add: load_file_def file_text_def pick_def)
  next
    case (Some raw)
    obtain c' where "applyYAMLValues (all_fields reg) (yl_range Y raw) c = (None, c')"
      "getYAML f c' = taken f (yaml_text raw (yamlKey f)) (getYAML f c)"
      using doc_applies [OF ord doc [unfolded Content] Some, of c] f by metis
    with Some show ?thesis by (simp add: Content load_file_def file_text_def taken_pick)
  qed
qed (simp_all add: load_file_def file_text_def pick_def)

lemma LoadFromYAML_value:
  assumes f: "f \<in> set (all_fields reg)" and ord: "range_order (yl_range Y)"
  shows "list_all (valid_doc (all_fields reg) Y) files \<Longrightarrow>
    getYAML f (LoadFromYAML (all_fields reg) Y files c) = pick f (concat (map (file_text Y f) files)) (getYAML f c)"
proof (induction files)
  case (Cons fl files)
  have "LoadFromYAML (all_fields reg) Y (fl # files) c
      = load_file (all_fields reg) Y fl (LoadFromYAML (all_fields reg) Y files c)"
    by (simp add: LoadFromYAML_def)
  with Cons show ?case by (simp add: load_file_value [OF f ord] pick_append)
qed (simp add: LoadFromYAML_def pick_def)

lemma image_value:
  assumes f: "f \<in> set (all_fields reg)" "dbKey f \<noteq> ''image_directory''"
  shows "getYAML f (c\<lparr>ImageDirectory := p\<rparr>) = getYAML f c"
proof -
  have P: "pointer (all_fields reg) ''image_directory'' YStr ImageDirectory (\<lambda>v. ImageDirectory_update (\<lambda>_. v))"
    by (rule pointers)
  have k: "''image_directory'' \<in> fst ` set (settings (all_fields reg) c)"
    by (simp add: settings_fields)
  have s: "settings (all_fields reg) (c\<lparr>ImageDirectory := p\<rparr>)
      = put_at ''image_directory'' (YStr p) (settings (all_fields reg) c)"
    using P unfolding pointer_def by blast
  have "view (all_fields reg) (c\<lparr>ImageDirectory := p\<rparr>) = (view (all_fields reg) c)(''image_directory'' \<mapsto> YStr p)"
    unfolding view_def s by (rule map_of_put_at [OF k])
  then have "Some (getYAML f (c\<lparr>ImageDirectory := p\<rparr>)) = Some (getYAML f c)"
    using tab.view_key [OF f(1), of "c\<lparr>ImageDirectory := p\<rparr>"] tab.view_key [OF f(1), of c] f(2) by simp
  then show ?thesis by simp
qed

lemma routes_distinct: "distinct (map fst cliRoutes)"
  by (simp add: cliRoutes_def)

lemma LoadFromOpt_value:
  "f \<in> set (all_fields reg) \<Longrightarrow> getYAML f (LoadFromOptExcluding (all_fields reg) opt ex c)
     = taken f (route_text opt ex cliRoutes (dbKey f)) (getYAML f c)"
  unfolding LoadFromOptExcluding_def by (rule tab.apply_routes_value [OF _ routes_distinct])

lemma pick_cases:
  obtains "find (\<lambda>s. denotes f s \<noteq> None) texts = None" "\<And>y. pick f texts y = y"
  | s v where "find (\<lambda>s. denotes f s \<noteq> None) texts = Some s" "denotes f s = Some v" "\<And>y. pick f texts y = v"
proof (cases "find (\<lambda>s. denotes f s \<noteq> None) texts")
  case None
  then show ?thesis using that(1) by (simp add: pick_def)
next
  case (Some s)
  then have "denotes f s \<noteq> None" by (auto simp: find_Some_iff)
  then show ?thesis using that(2) Some by (auto simp: pick_def tried_def)
qed

text \<open>The precedence of the sources, zero values included: the default takes the place of a missing
  value, and also of a value that counts as zero.\<close>

lemma load_resolves:
  assumes f: "f \<in> set (all_fields reg)" "dbKey f \<noteq> ''image_directory''"
    and ord: "range_order (yl_range Y)" and docs: "list_all (valid_doc (all_fields reg) Y) files"
    and rows: "distinct (map row_Key rows)"
  shows "getYAML f (Load (all_fields reg) Y today rootDir (Some (Some rows)) files opt)
    = resolved today f (offered Y rows files opt f)"
proof -
  let ?fs = "all_fields reg" and ?d = "DefaultConfig today"
  let ?rowt = "case row_text (dbKey f) rows of None \<Rightarrow> [] | Some s \<Rightarrow> [s]"
  let ?hight = "(case route_text opt [] cliRoutes (dbKey f) of None \<Rightarrow> [] | Some s \<Rightarrow> [s])
      @ concat (map (file_text Y f) files)"
  define c0 where "c0 = loaded ?fs rows ?d"
  define c1 where "c1 = MergeDefaults ?fs ?d c0"
  define c3 where "c3 = LoadFromOpt ?fs opt (LoadFromYAML ?fs Y files c1)"
  have v0: "getYAML f c0 = pick f ?rowt (getYAML f ?d)"
    unfolding c0_def tab.loaded_value [OF f(1) rows] by (rule taken_pick)
  have v1: "getYAML f c1 = (if isZero f c0 then getYAML f ?d else getYAML f c0)"
    unfolding c1_def by (rule tab.MergeDefaults_value [OF f(1)])
  have v3: "getYAML f c3 = pick f ?hight (getYAML f c1)"
    unfolding c3_def LoadFromOpt_def LoadFromOpt_value [OF f(1)] LoadFromYAML_value [OF f(1) ord docs]
      taken_pick pick_append ..
  have L: "Load ?fs Y today rootDir (Some (Some rows)) files opt =
      (let c4 = MergeDefaults ?fs ?d c3 in if ImageDirectory c4 = [] \<and> rootDir \<noteq> []
         then c4\<lparr>ImageDirectory := Join2 rootDir ''Images''\<rparr> else c4)"
    by (simp add: Load_def service_Load_def LoadFromDatabase_loaded c3_def c1_def c0_def)
  have v4: "getYAML f (Load ?fs Y today rootDir (Some (Some rows)) files opt)
      = (if isZero f c3 then getYAML f ?d else getYAML f c3)"
    unfolding L Let_def by (simp add: image_value [OF f] tab.MergeDefaults_value [OF f(1)])
  have set: "\<exists>c. set_field f ?d s = Inr c \<and> getYAML f c = v" if "denotes f s = Some v" for s v
    by (cases rule: tab.set_field_cases [OF f(1), of ?d s])
      (use that tab.set_value(1) [OF f(1) f(1), of ?d s] in \<open>auto simp: tried_def\<close>)
  have zero: "isZero f c = isZero f c'" if "getYAML f c = getYAML f c'" for c c'
    using tab.same_value [OF f(1) that] by blast
  have look: "find (\<lambda>s. denotes f s \<noteq> None) (offered Y rows files opt f)
      = (case find (\<lambda>s. denotes f s \<noteq> None) ?hight of
           None \<Rightarrow> find (\<lambda>s. denotes f s \<noteq> None) ?rowt | Some x \<Rightarrow> Some x)"
    unfolding offered_def append_assoc [symmetric] by (rule find_append)
  show ?thesis
  proof (cases rule: pick_cases [of f ?hight])
    case 1
    note high = 1
    show ?thesis
    proof (cases rule: pick_cases [of f ?rowt])
      case 1
      then have "getYAML f c3 = getYAML f ?d" using v0 v1 v3 high(2) by simp
      then show ?thesis unfolding v4 resolved_def look using 1(1) high(1) by simp
    next
      case (2 s v)
      then obtain c where c: "set_field f ?d s = Inr c" "getYAML f c = v" using set by blast
      then have z: "isZero f c0 = isZero f c" using zero v0 2(3) by simp
      have "getYAML f c3 = (if isZero f c then getYAML f ?d else v)"
        using v0 v1 v3 high(2) 2(3) z by simp
      then have "(if isZero f c3 then getYAML f ?d else getYAML f c3) = (if isZero f c then getYAML f ?d else v)"
        using zero [of c3 c] c(2) by simp
      then show ?thesis unfolding v4 resolved_def look using 2(1) high(1) c by simp
    qed
  next
    case (2 s v)
    then obtain c where c: "set_field f ?d s = Inr c" "getYAML f c = v" using set by blast
    then have "getYAML f c3 = v" "isZero f c3 = isZero f c" using v3 2(3) zero [of c3 c] by simp_all
    then show ?thesis unfolding v4 resolved_def look using 2(1) c by simp
  qed
qed

text \<open>A text that stands for a zero value, which \<^verbatim>\<open>MergeDefaults\<close> takes for a missing one.\<close>

definition zero_text :: "string \<Rightarrow> config_field \<Rightarrow> string \<Rightarrow> bool" where
  "zero_text today f s = (case set_field f (DefaultConfig today) s of Inl _ \<Rightarrow> False | Inr c \<Rightarrow> isZero f c)"

text \<open>C12: the precedence of the sources. For every setting but the image directory, when the YAML
  documents are free of errors, the value the server starts with is the one the first acceptable
  text among option, YAML files (executable directory before platform directory) and database row
  stands for, and the default when there is no acceptable text. Zero values are excepted: the merge
  with the defaults takes them for missing ones, also where the documentation gives them a meaning.\<close>

theorem config_precedence:
  assumes "f \<in> set (all_fields reg)" "dbKey f \<noteq> ''image_directory''" "range_order (yl_range Y)"
    and "list_all (valid_doc (all_fields reg) Y) files" "distinct (map row_Key rows)"
    and first: "find (\<lambda>s. denotes f s \<noteq> None) (offered Y rows files opt f) = first"
    and nz: "case first of None \<Rightarrow> True | Some s \<Rightarrow> \<not> zero_text today f s"
  shows "Some (getYAML f (Load (all_fields reg) Y today rootDir (Some (Some rows)) files opt))
    = (case first of None \<Rightarrow> Some (getYAML f (DefaultConfig today)) | Some s \<Rightarrow> denotes f s)"
proof (cases first)
  case None
  then show ?thesis using load_resolves [OF assms(1-5)] first by (simp add: resolved_def)
next
  case (Some s)
  then obtain v where v: "denotes f s = Some v" using first by (auto simp: find_Some_iff)
  have "\<exists>c. set_field f (DefaultConfig today) s = Inr c \<and> getYAML f c = v"
    by (cases rule: tab.set_field_cases [OF assms(1), of "DefaultConfig today" s])
      (use v tab.set_value(1) [OF assms(1,1), of "DefaultConfig today" s] in \<open>auto simp: tried_def\<close>)
  with v show ?thesis using load_resolves [OF assms(1-5)] first nz Some by (auto simp: resolved_def zero_text_def)
qed

lemma MergeDefaults_nonzero:
  "list_all (\<lambda>f. isZero f (MergeDefaults (all_fields reg) d c) \<longrightarrow> isZero f d) (all_fields reg)"
proof -
  have "isZero f d" if f: "f \<in> set (all_fields reg)" and z: "isZero f (MergeDefaults (all_fields reg) d c)" for f
  proof (cases "isZero f c")
    case True
    then have "getYAML f (MergeDefaults (all_fields reg) d c) = getYAML f d"
      by (simp add: tab.MergeDefaults_value [OF f])
    with z show ?thesis using tab.same_value [OF f] by blast
  next
    case False
    then have "getYAML f (MergeDefaults (all_fields reg) d c) = getYAML f c"
      by (simp add: tab.MergeDefaults_value [OF f])
    with z False show ?thesis using tab.same_value [OF f] by blast
  qed
  then show ?thesis unfolding list_all_iff by blast
qed

lemma nonzero_values:
  assumes "list_all (\<lambda>f. isZero f c \<longrightarrow> isZero f (DefaultConfig today)) (all_fields reg)"
  shows "LoginRateLimitPerIP c \<noteq> 0" "LockoutDuration c \<noteq> 0" "SessionMaxAge c \<noteq> 0" "CacheMaxSize c \<noteq> 0"
    "CacheMaxEntrySize c \<noteq> 0" "CacheMaxTime c \<noteq> 0" "CacheCleanupInterval c \<noteq> 0"
    "DBMinIdleConnections c \<noteq> 0" "DBOptimizeInterval c \<noteq> 0" "DBPoolMonitorInterval c \<noteq> 0"
  using assms
  by (simp_all add: all_fields_def toConfigField_def field_isZero_def field_kinds monitorField_def DefaultConfig_def)

text \<open>an explicit zero never survives the start. Whatever the sources say, the server does not
  start with a login rate limit of zero, the documented way to switch the limit off, nor with a zero
  lockout, session age, cache size, cache expiry, cleanup, optimisation or monitoring interval or
  without idle connections.\<close>

theorem config_zero_lost:
  "let c = Load (all_fields reg) Y today rootDir store files opt in
     LoginRateLimitPerIP c \<noteq> 0 \<and> LockoutDuration c \<noteq> 0 \<and> SessionMaxAge c \<noteq> 0 \<and> CacheMaxSize c \<noteq> 0
     \<and> CacheMaxEntrySize c \<noteq> 0 \<and> CacheMaxTime c \<noteq> 0 \<and> CacheCleanupInterval c \<noteq> 0
     \<and> DBMinIdleConnections c \<noteq> 0 \<and> DBOptimizeInterval c \<noteq> 0 \<and> DBPoolMonitorInterval c \<noteq> 0"
proof -
  obtain c p where c: "Load (all_fields reg) Y today rootDir store files opt
      = (if p then (MergeDefaults (all_fields reg) (DefaultConfig today) c)\<lparr>ImageDirectory := Join2 rootDir ''Images''\<rparr>
         else MergeDefaults (all_fields reg) (DefaultConfig today) c)"
    unfolding Load_def Let_def by metis
  show ?thesis unfolding c Let_def
    using nonzero_values [OF MergeDefaults_nonzero [of reg "DefaultConfig today" c]] by simp
qed

section \<open>Applying a candidate\<close>

text \<open>What \<^verbatim>\<open>Validate\<close> leaves unchecked: the codec, three settings whose ranges only the parsers
  check, the encoding of the themes; and that integers are machine integers.\<close>

definition config_typed :: "registry \<Rightarrow> config \<Rightarrow> bool" where
  "config_typed reg c \<longleftrightarrow> ValidateWriteCodecID reg (HTTPCacheBodyCodec c) = None
     \<and> at_least 1 (LockoutThreshold c) \<and> at_least 0 (LoginRateLimitPerIP c) \<and> at_least 0 (DQueMaxDiskBytes c)
     \<and> list_all valid_utf8 (Themes c)
     \<and> list_all (\<lambda>get. i64_range (get c)) [LogRetentionCount, SessionMaxAge, DBMaxPoolSize, DBMinIdleConnections,
         WorkerPoolMax, WorkerPoolMinIdle, QueueSize, MaxHTTPCacheEntryInsertPerTransaction, LockoutDuration,
         CacheMaxSize, CacheMaxEntrySize, CacheMaxTime, CacheCleanupInterval, DBOptimizeInterval,
         WorkerPoolMaxIdleTime, DBPoolMonitorInterval]"

lemma Validate_ok: "config_typed reg c \<Longrightarrow> Validate c = None \<Longrightarrow> config_ok reg c"
  by (auto simp: config_typed_def config_ok_def Validate_def at_least_def one_of_def ToLower_def to_lower_def
      split: if_splits)

text \<open>The writes of a candidate with an arbitrary script of failures.\<close>

lemma upsert_all_effect:
  "upsert_all kvs db = (r, db') \<Longrightarrow> distinct (map fst kvs) \<Longrightarrow> distinct (map row_Key (db_rows db)) \<Longrightarrow>
   distinct (map row_Key (db_rows db'))
   \<and> (if r = None then \<forall>k. row_text k (db_rows db') = (case map_of kvs k of None \<Rightarrow> row_text k (db_rows db) | Some v \<Rightarrow> Some v)
      else True \<in> set (db_faults db)
        \<and> (\<forall>k. row_text k (db_rows db') = row_text k (db_rows db)
          \<or> (\<exists>v. map_of kvs k = Some v \<and> row_text k (db_rows db') = Some v)))"
proof (induction kvs arbitrary: db)
  case (Cons kv kvs)
  obtain k v where kv: "kv = (k, v)" by force
  obtain r1 db1 where u: "UpsertConfigValueOnly k v db = (r1, db1)" by force
  show ?case
  proof (cases r1)
    case None
    have db1: "db_rows db1 = upsert_config_row k v (db_rows db)" "set (db_faults db1) \<subseteq> set (db_faults db)"
      using u None by (auto simp: UpsertConfigValueOnly_def split: list.splits bool.splits)
    have all: "upsert_all kvs db1 = (r, db')" using Cons.prems(1) kv u None by simp
    have d: "distinct (map row_Key (db_rows db1))" using Cons.prems(3) db1(1) by (simp add: upsert_distinct)
    have k: "map_of kvs k = None" "distinct (map fst kvs)" using Cons.prems(2) kv by (simp_all add: map_of_eq_None_iff)
    show ?thesis using Cons.IH [OF all k(2) d] db1 k(1) by (auto simp: kv row_text_upsert split: option.splits if_splits)
  next
    case (Some e)
    then have "db_rows db' = db_rows db" "r = Some e" "True \<in> set (db_faults db)"
      using u Cons.prems(1) kv by (auto simp: UpsertConfigValueOnly_def split: list.splits bool.splits)
    then show ?thesis using Cons.prems(3) by simp
  qed
qed simp

lemma SaveToDatabase_effect:
  assumes ord: "range_order ord" and d: "distinct (map row_Key (db_rows db))"
    and s: "SaveToDatabase (all_fields reg) Y ord c db = (r, db')"
  shows "distinct (map row_Key (db_rows db'))"
    and "r = None \<Longrightarrow> f \<in> set (all_fields reg) \<Longrightarrow> row_text (dbKey f) (db_rows db') = Some (getDB f c)"
    and "r \<noteq> None \<Longrightarrow> True \<in> set (db_faults db) \<and> (\<forall>k. row_text k (db_rows db') = row_text k (db_rows db)
      \<or> (\<exists>v. map_of (ToMap (all_fields reg) c) k = Some v \<and> row_text k (db_rows db') = Some v))"
proof -
  let ?fs = "all_fields reg"
  have k: "distinct (map fst (ToMap ?fs c))" using fields_keys by (simp add: ToMap_keys)
  obtain r1 db1 where u: "upsert_all (ord (ToMap ?fs c)) db = (r1, db1)" by force
  note eff = upsert_all_effect [OF u range_order_map_of(1) [OF ord k] d, unfolded range_order_map_of(2) [OF ord k]]
  have last: "r = None" "db_rows db' = db_rows db1 \<or> (\<exists>y. db_rows db' = upsert_config_row ''LastKnownGoodConfig'' y (db_rows db1))"
    if "r1 = None" using s u that
    by (auto simp: SaveToDatabase_def UpsertConfigValueOnly_def split: option.splits list.splits bool.splits)
  have fail: "r = r1" "db' = db1" if "r1 \<noteq> None" using s u that by (auto simp: SaveToDatabase_def)
  show "distinct (map row_Key (db_rows db'))"
    using eff last(2) fail(2) by (cases r1) (auto simp: upsert_distinct)
  show "row_text (dbKey f) (db_rows db') = Some (getDB f c)" if "r = None" "f \<in> set ?fs"
  proof -
    have "r1 = None" using fail(1) that(1) by blast
    moreover from this have "row_text (dbKey f) (db_rows db1) = Some (getDB f c)" using eff ToMap_value [OF that(2)] by simp
    moreover have "dbKey f \<noteq> ''LastKnownGoodConfig''" using tab.ordinary [OF that(2)] by (auto simp: special_keys_def)
    ultimately show ?thesis using last(2) by (auto simp: row_text_upsert)
  qed
  show "True \<in> set (db_faults db) \<and> (\<forall>k. row_text k (db_rows db') = row_text k (db_rows db)
      \<or> (\<exists>v. map_of (ToMap ?fs c) k = Some v \<and> row_text k (db_rows db') = Some v))" if "r \<noteq> None"
  proof -
    have "r1 \<noteq> None" using last(1) that by blast
    with eff fail(2) show ?thesis by simp
  qed
qed

text \<open>The running configuration may share its themes with the candidate; none of this matters for the
  outcome, because a change of themes does not ask for a restart.\<close>

lemma restart_keys_shared: "restartRequiredKeys (all_fields reg) (trim_shared_themes cur) c = restartRequiredKeys (all_fields reg) cur c"
proof -
  have "getDB f (trim_shared_themes cur) = getDB f cur" if "f \<in> set (all_fields reg)" "restart f" for f
    using that by (auto simp: trim_shared_themes_def all_fields_def toConfigField_def field_kinds monitorField_def themesField_def)
  then show ?thesis unfolding restartRequiredKeys_def
    by (intro arg_cong [of _ _ "map dbKey"] filter_cong refl) auto
qed

lemma apply_shared: "ApplyConfig (all_fields reg) Y ord (Some (trim_shared_themes cur)) cand db
    = ApplyConfig (all_fields reg) Y ord (Some cur) cand db"
  by (cases cand) (simp_all only: ApplyConfig_def restart_keys_shared prod.case option.case)

text \<open>C22: applying a candidate, whatever writes fail. A candidate that fails validation changes
  nothing. When a write fails, every row of the table is the old one or the candidate's (the writes
  are no transaction). Otherwise the normalised candidate is what the database now gives back, and a
  restart is asked for exactly when a setting that needs one is stored differently. The candidate is
  one whose codec is known, whose themes are UTF-8, whose three settings that only the parsers check
  are in range and whose integers fit in 64 bits; every other range is \<^verbatim>\<open>Validate\<close>'s to check.\<close>

theorem apply_config_outcome:
  assumes "config_typed reg (normalizeConfigCandidate cand)" "ValidateWriteCodecID reg ''zstd-1'' = None"
    "range_order ord" "distinct (map row_Key (db_rows db))"
  shows "case ApplyConfig (all_fields reg) Y ord (Some cur) (Some cand) db of
      (Inl (Rejected e), db') \<Rightarrow> db' = db \<and> Validate (normalizeConfigCandidate cand) = Some e
    | (Inl e, db') \<Rightarrow> Validate (normalizeConfigCandidate cand) = None \<and> True \<in> set (db_faults db)
        \<and> (\<forall>k. row_text k (db_rows db') = row_text k (db_rows db)
            \<or> (\<exists>v. map_of (ToMap (all_fields reg) (normalizeConfigCandidate cand)) k = Some v
                \<and> row_text k (db_rows db') = Some v))
    | (Inr r, db') \<Rightarrow> Validate (ar_Config r) = None \<and> ar_Config r = normalizeConfigCandidate cand
        \<and> map_sum id plain (service_Load (all_fields reg) today (Some (db_rows db')))
            = Inr (plain (sorted_themes (ar_Config r)))
        \<and> (ar_RestartRequired r \<longleftrightarrow> list_ex (\<lambda>f. restart f \<and> getDB f cur \<noteq> getDB f (ar_Config r)) (all_fields reg))"
proof (cases "Validate (normalizeConfigCandidate cand)")
  case (Some e)
  then show ?thesis by (simp add: ApplyConfig_def Let_def)
next
  case None
  let ?n = "normalizeConfigCandidate cand"
  obtain r db' where s: "SaveToDatabase (all_fields reg) Y ord ?n db = (r, db')" by force
  note eff = SaveToDatabase_effect [OF assms(3,4) s]
  have keys: "restartRequiredKeys (all_fields reg) cur ?n \<noteq> []
      \<longleftrightarrow> list_ex (\<lambda>f. restart f \<and> getDB f cur \<noteq> getDB f ?n) (all_fields reg)"
    unfolding restartRequiredKeys_def list_ex_iff by (auto simp: filter_empty_conv)
  show ?thesis
  proof (cases r)
    case r: None
    show ?thesis
      using None s r loaded_rows [OF Validate_ok [OF assms(1) None] ok_default [OF assms(2), of today] eff(1) eff(2) [OF r]] keys
      by (simp add: ApplyConfig_def Let_def service_Load_def LoadFromDatabase_loaded)
  next
    case (Some e)
    then show ?thesis using None s eff(3) by (simp add: ApplyConfig_def Let_def)
  qed
qed

end
