(* ===== verification/Config_Behaviour.thy ===== *)
theory Config_Behaviour
  imports Config_Correct
begin

text \<open>
  The configuration at work: what the settings form changes of the running configuration when an
  option was given, the ETag version over a day, the defaults inserted at the first start, the
  options, and the witnesses of the configuration's properties.
\<close>

section \<open>Options and the settings form\<close>

lemma restart_keys_restart:
  assumes f: "f \<in> set (all_fields reg)" "\<not> restart f"
  shows "dbKey f \<notin> set (restartRequiredKeys (all_fields reg) c d)"
proof
  assume "dbKey f \<in> set (restartRequiredKeys (all_fields reg) c d)"
  then obtain g where g: "g \<in> set (all_fields reg)" "restart g" "dbKey g = dbKey f"
    unfolding restartRequiredKeys_def by auto
  then have "g = f" using fields_keys f(1) by (metis distinct_map inj_onD)
  with g f show False by simp
qed

lemma ApplyConfig_saved:
  assumes "ApplyConfig fs Y ord (Some cur) (Some cand) db = (Inr r, db')"
  shows "ar_RestartRequiredKeys r = restartRequiredKeys fs cur (ar_Config r)"
    and "ar_Config r = normalizeConfigCandidate cand"
    and "SaveToDatabase fs Y ord (ar_Config r) db = (None, db')"
proof -
  let ?n = "normalizeConfigCandidate cand"
  have v: "Validate ?n = None"
    using assms by (cases "Validate ?n") (simp_all add: ApplyConfig_def Let_def)
  have s: "SaveToDatabase fs Y ord ?n db = (None, snd (SaveToDatabase fs Y ord ?n db))"
    using assms v by (cases "SaveToDatabase fs Y ord ?n db"; cases "fst (SaveToDatabase fs Y ord ?n db)")
      (simp_all add: ApplyConfig_def Let_def)
  have r: "r = \<lparr>ar_Config = ?n, ar_RestartRequired = (restartRequiredKeys fs cur ?n \<noteq> []),
      ar_RestartRequiredKeys = restartRequiredKeys fs cur ?n\<rparr> \<and> db' = snd (SaveToDatabase fs Y ord ?n db)"
    using assms v by (simp add: ApplyConfig_def Let_def, subst (asm) s, simp)
  show "ar_Config r = ?n" "ar_RestartRequiredKeys r = restartRequiredKeys fs cur (ar_Config r)"
    using r by simp_all
  show "SaveToDatabase fs Y ord (ar_Config r) db = (None, db')" using r s by simp
qed

lemma ConfigPost_saved:
  assumes "ConfigPost fs Y ord opt dir_ok ce old form db running = (PostSaved r, db', run')"
  shows "ApplyConfig fs Y ord (Some old) (Some (snd (apply_form fs form old))) db = (Inr r, db')"
    and "run' = UpdateConfigWithPrecedence fs opt (ar_RestartRequiredKeys r) (ar_Config r)"
  using assms by (auto simp: ConfigPost_def Let_def split: prod.splits if_splits sum.splits store_error.splits)

text \<open>an option wins over every later submission. For a setting that needs no restart, such as
  the log level, the login rate limit or the discovery flag, the value after a successful submission
  of the settings form is the one the option gave, whatever was submitted and stored; the stored
  value is the submitted one.\<close>

theorem config_post_option_wins:
  assumes "f \<in> set (all_fields reg)" "\<not> restart f"
    "route_text opt [] cliRoutes (dbKey f) = Some s" "denotes f s = Some y"
  shows "case ConfigPost (all_fields reg) Y ord opt dir_ok ce old form db running of
      (PostSaved r, db', running') \<Rightarrow> getYAML f running' = y
        \<and> getDB f (ar_Config r) = getDB f (normalizeConfigCandidate (snd (apply_form (all_fields reg) form old)))
    | (_, db', running') \<Rightarrow> running' = running"
proof -
  obtain out db' run' where P: "ConfigPost (all_fields reg) Y ord opt dir_ok ce old form db running = (out, db', run')"
    by (metis prod_cases3)
  show ?thesis
  proof (cases out)
    case (PostSaved r)
    note S = ConfigPost_saved [OF P [unfolded PostSaved]]
    note A = ApplyConfig_saved [OF S(1)]
    have "route_text opt (ar_RestartRequiredKeys r) cliRoutes (dbKey f) = Some s"
      using assms(3) restart_keys_restart [OF assms(1,2)] by (simp add: A(1) route_text_def)
    then have "getYAML f run' = y"
      unfolding S(2) UpdateConfigWithPrecedence_def LoadFromOpt_value [OF assms(1)]
      by (simp add: taken_def tried_def assms(4))
    then show ?thesis using P PostSaved A(2) by simp
  qed (use P in \<open>auto simp: ConfigPost_def Let_def split: prod.splits if_splits sum.splits store_error.splits\<close>)
qed


section \<open>The ETag version\<close>

definition is_date :: "string \<Rightarrow> bool" where
  "is_date d \<longleftrightarrow> length d = 8 \<and> list_all is_digit d"

lemma dec_length:
  "n < 10 \<Longrightarrow> length (dec_of_nat n) = 1"
  "10 \<le> n \<Longrightarrow> n < 100 \<Longrightarrow> length (dec_of_nat n) = 2"
  "100 \<le> n \<Longrightarrow> n < 1000 \<Longrightarrow> length (dec_of_nat n) = 3"
proof -
  have d: "length (dec_of_nat n) = (if n < 10 then 1 else Suc (length (dec_of_nat (n div 10))))" for n
    by (simp add: dec_of_nat.simps [of n])
  show one: "n < 10 \<Longrightarrow> length (dec_of_nat n) = 1" for n by (simp add: d)
  show two: "10 \<le> n \<Longrightarrow> n < 100 \<Longrightarrow> length (dec_of_nat n) = 2" for n by (simp add: d [of n] one)
  show "100 \<le> n \<Longrightarrow> n < 1000 \<Longrightarrow> length (dec_of_nat n) = 3"
    using two [of "n div 10"] by (simp add: d [of n])
qed

lemma padded_length:
  "n < 100 \<Longrightarrow> length (zero_padded 2 n) = 2" "length (zero_padded 2 100) = 3"
  by (cases "n < 10") (simp_all add: zero_padded_def dec_length)

lemma parse_etag:
  assumes "is_date d" "list_all is_digit v"
  shows "parseETagVersion (d @ CHR ''-'' # v) = (if length v = 2 then Some ([], d, nat_of_dec v) else None)"
proof -
  obtain c r where d: "d = c # r" using assms(1) by (cases d) (auto simp: is_date_def)
  then have "is_digit c" using assms(1) by (simp add: is_date_def)
  then have "c \<noteq> CHR ''v''" by (auto simp: is_digit_def)
  moreover have "length d = 8" "list_all is_digit d" using assms(1) by (simp_all add: is_date_def)
  ultimately show ?thesis using assms(2) d by (simp add: parseETagVersion_def)
qed

lemma increment_same_day:
  assumes "is_date today"
  shows "n < 100 \<Longrightarrow> IncrementETagVersion today (today @ ''-'' @ zero_padded 2 n) = today @ ''-'' @ zero_padded 2 (n + 1)"
    and "IncrementETagVersion today (today @ ''-'' @ zero_padded 2 100) = today @ ''-01''"
proof -
  have h: "hd (today @ xs) \<noteq> CHR ''v''" for xs
    using assms by (cases today) (auto simp: is_date_def is_digit_def)
  show "IncrementETagVersion today (today @ ''-'' @ zero_padded 2 n) = today @ ''-'' @ zero_padded 2 (n + 1)"
    if "n < 100"
    using parse_etag [OF assms zero_padded_props(1), of 2 n] that
    by (simp add: IncrementETagVersion_def padded_length zero_padded_props)
  show "IncrementETagVersion today (today @ ''-'' @ zero_padded 2 100) = today @ ''-01''"
    using parse_etag [OF assms zero_padded_props(1), of 2 100] h [of "CHR ''-'' # zero_padded 2 100"]
    by (simp add: IncrementETagVersion_def padded_length)
qed

lemma padded_one: "zero_padded 2 (Suc 0) = ''01''"
  by (simp add: zero_padded_def dec_of_nat.simps digit_char_def char_of_def bit_Suc_0_iff)

text \<open>the ETag version within a day. Counting from the first version of the day, the n-th
  increment yields number \<^term>\<open>n mod 100 + 1\<close>: the versions count up to 100, which the parser does
  not accept back, and then start again at 01, so that the clients' caches see a version they have
  already stored.\<close>

theorem etag_version_cycle:
  assumes "is_date today"
  shows "(IncrementETagVersion today ^^ n) (today @ ''-01'') = today @ ''-'' @ zero_padded 2 (n mod 100 + 1)"
proof (induction n)
  case 0
  show ?case by (simp add: padded_one)
next
  case (Suc n)
  have "n mod 100 < 100" by simp
  then consider "n mod 100 + 1 < 100" "Suc n mod 100 = n mod 100 + 1" | "n mod 100 + 1 = 100" "Suc n mod 100 = 0"
    by (cases "n mod 100 = 99") (simp_all add: mod_Suc)
  then show ?case
    by cases (use Suc.IH increment_same_day [OF assms] in \<open>simp_all add: padded_one\<close>)
qed

lemma etag_version_cycle_witness:
  "(IncrementETagVersion ''20250102'' ^^ 100) ''20250102-01'' = ''20250102-01''"
proof -
  have "is_date ''20250102''" by (simp add: is_date_def is_digit_def)
  from etag_version_cycle [OF this, of 100] show ?thesis by (simp add: padded_one)
qed


section \<open>The defaults of the first start\<close>

lemma find_row_text: "find_row k rs = None \<longleftrightarrow> row_text k rs = None"
  "(case find_row k rs of None \<Rightarrow> [] | Some r \<Rightarrow> row_Value r) = (case row_text k rs of None \<Rightarrow> [] | Some v \<Rightarrow> v)"
  by (simp_all add: row_text_def split: option.split)

definition kept :: "string \<Rightarrow> config_row list \<Rightarrow> config_row list \<Rightarrow> bool" where
  "kept k rs rs' \<longleftrightarrow> (case row_text k rs of
       None \<Rightarrow> True
     | Some v \<Rightarrow> v = [] \<and> k \<in> {''image_directory'', ''log_directory''} \<or> row_text k rs' = Some v)"

text \<open>An insertion of defaults keeps every set value, and never deletes a row.\<close>

definition only_adds :: "config_row list \<Rightarrow> config_row list \<Rightarrow> bool" where
  "only_adds rs rs' \<longleftrightarrow> (\<forall>k. kept k rs rs' \<and> (row_text k rs \<noteq> None \<longrightarrow> row_text k rs' \<noteq> None))"

lemma only_adds_refl [simp]: "only_adds rs rs"
  by (simp add: only_adds_def kept_def split: option.split)

lemma only_adds_trans:
  assumes "only_adds rs rs'" "only_adds rs' rs''"
  shows "only_adds rs rs''"
proof -
  have "kept k rs rs''" for k
    using assms by (cases "row_text k rs"; cases "row_text k rs'") (force simp: only_adds_def kept_def)+
  moreover have "row_text k rs \<noteq> None \<longrightarrow> row_text k rs'' \<noteq> None" for k
    using assms by (simp add: only_adds_def)
  ultimately show ?thesis by (simp add: only_adds_def)
qed

lemma only_adds_upsert:
  assumes "case row_text k rs of None \<Rightarrow> True | Some v \<Rightarrow> v = [] \<and> k \<in> {''image_directory'', ''log_directory''}"
  shows "only_adds rs (upsert_config_row k w rs)"
  using assms by (simp add: only_adds_def kept_def row_text_upsert split: option.splits)

lemma insert_missing_adds:
  "db_faults db = [] \<Longrightarrow> \<exists>rs. insert_missing kvs db = (None, db\<lparr>db_rows := rs\<rparr>) \<and> only_adds (db_rows db) rs
     \<and> (\<forall>k \<in> fst ` set kvs. row_text k rs \<noteq> None)"
proof (induction kvs arbitrary: db)
  case Nil
  then show ?case by (intro exI [of _ "db_rows db"]) simp
next
  case (Cons kv kvs)
  obtain k v where kv: "kv = (k, v)" by force
  let ?rs = "if find_row k (db_rows db) = None then upsert_config_row k v (db_rows db) else db_rows db"
  have a: "only_adds (db_rows db) ?rs" "row_text k ?rs \<noteq> None"
    by (auto intro: only_adds_upsert simp: row_text_upsert find_row_text split: option.split)
  obtain rs where rs: "insert_missing kvs (db\<lparr>db_rows := ?rs\<rparr>) = (None, db\<lparr>db_rows := rs\<rparr>)" "only_adds ?rs rs"
    "\<forall>k \<in> fst ` set kvs. row_text k rs \<noteq> None"
    using Cons.IH [of "db\<lparr>db_rows := ?rs\<rparr>"] Cons.prems by auto
  have eq: "\<lparr>db_rows = x, db_faults = []\<rparr> = db\<lparr>db_rows := x\<rparr>" for x using Cons.prems by (cases db) simp
  have "insert_missing (kv # kvs) db = (None, db\<lparr>db_rows := rs\<rparr>)"
    using rs(1) kv Cons.prems by (cases "find_row k (db_rows db)") (simp_all add: eq)
  moreover have "row_text k rs \<noteq> None" using a(2) rs(2) by (simp add: only_adds_def)
  ultimately show ?case using rs only_adds_trans [OF a(1) rs(2)] kv by (intro exI [of _ rs]) auto
qed

lemma upsert_defaults_adds:
  "db_faults db = [] \<Longrightarrow> \<exists>rs. upsert_defaults kvs db = (None, db\<lparr>db_rows := rs\<rparr>) \<and> only_adds (db_rows db) rs
     \<and> (\<forall>k \<in> fst ` set kvs - {''user'', ''password''}. row_text k rs \<noteq> None)"
proof (induction kvs arbitrary: db)
  case Nil
  then show ?case by (intro exI [of _ "db_rows db"]) simp
next
  case (Cons kv kvs)
  obtain k v where kv: "kv = (k, v)" by force
  let ?skip = "k = ''user'' \<or> k = ''password'' \<or> find_row k (db_rows db) \<noteq> None \<and>
    \<not> ((case find_row k (db_rows db) of None \<Rightarrow> [] | Some r \<Rightarrow> row_Value r) = []
       \<and> (k = ''image_directory'' \<or> k = ''log_directory''))"
  let ?rs = "if ?skip then db_rows db else upsert_config_row k v (db_rows db)"
  have a: "only_adds (db_rows db) ?rs"
    by (auto intro!: only_adds_upsert simp: find_row_text split: option.split)
  have b: "k \<notin> {''user'', ''password''} \<Longrightarrow> row_text k ?rs \<noteq> None"
    by (auto simp: row_text_upsert find_row_text)
  obtain rs where rs: "upsert_defaults kvs (db\<lparr>db_rows := ?rs\<rparr>) = (None, db\<lparr>db_rows := rs\<rparr>)" "only_adds ?rs rs"
    "\<forall>k \<in> fst ` set kvs - {''user'', ''password''}. row_text k rs \<noteq> None"
    using Cons.IH [of "db\<lparr>db_rows := ?rs\<rparr>"] Cons.prems by auto
  have "upsert_defaults (kv # kvs) db = (None, db\<lparr>db_rows := rs\<rparr>)"
  proof (cases ?skip)
    case True
    then show ?thesis using rs(1) kv by simp
  next
    case False
    have "?rs = upsert_config_row k v (db_rows db)" using False by (rule if_not_P)
    from rs(1) [unfolded this] show ?thesis using False kv upsert_ok [OF Cons.prems, of k v]
      by (cases "find_row k (db_rows db)") (simp_all add: Let_def)
  qed
  moreover have "k \<notin> {''user'', ''password''} \<Longrightarrow> row_text k rs \<noteq> None" using b rs(2) by (simp add: only_adds_def)
  ultimately show ?case using rs only_adds_trans [OF a rs(2)] kv by (intro exI [of _ rs]) auto
qed

text \<open>the first start. Without database errors, inserting the defaults succeeds exactly when
  the user exists or a password hash could be made; then every setting has a row, and no value that
  was stored is changed, except an empty image or log directory.\<close>

theorem bootstrap_keeps_settings:
  assumes "range_order ord" "db_faults db = []"
  shows "case EnsureBootstrapDefaults (all_fields reg) ord hash today rootDir db of (r, db') \<Rightarrow>
    (r = None \<longleftrightarrow> row_text ''user'' (db_rows db) \<noteq> None \<or> hash \<noteq> None)
    \<and> only_adds (db_rows db) (db_rows db')
    \<and> (r = None \<longrightarrow> list_all (\<lambda>k. row_text k (db_rows db') \<noteq> None) (''user'' # map dbKey (all_fields reg)))"
proof -
  let ?fs = "all_fields reg"
  let ?admin = "\<lambda>h. [(''user'', ''admin''), (''password'', h),
            (''log_directory'', Join2 rootDir ''logs''), (''log_level'', ''info''),
            (''log_rollover'', ''weekly''), (''log_retention_count'', ''7'')]"
  have keys: "fst ` set (ord kvs) = fst ` set kvs" for kvs :: "(string \<times> string) list"
    using assms(1) unfolding range_order_def by (metis set_mset_mset)
  have tail: "\<exists>rs. upsert_defaults (ord (ToMap ?fs c)) d = (None, d\<lparr>db_rows := rs\<rparr>) \<and> only_adds (db_rows d) rs
      \<and> list_all (\<lambda>k. row_text k rs \<noteq> None) (map dbKey ?fs)" if d: "db_faults d = []" for c d
  proof -
    obtain rs where rs: "upsert_defaults (ord (ToMap ?fs c)) d = (None, d\<lparr>db_rows := rs\<rparr>)" "only_adds (db_rows d) rs"
      "\<forall>k \<in> fst ` set (ord (ToMap ?fs c)) - {''user'', ''password''}. row_text k rs \<noteq> None"
      using upsert_defaults_adds [OF d, of "ord (ToMap ?fs c)"] by blast
    have "fst ` set (ord (ToMap ?fs c)) = dbKey ` set ?fs" unfolding keys by (simp add: ToMap_def image_image)
    moreover have "dbKey f \<notin> {''user'', ''password''}" if "f \<in> set ?fs" for f
      using tab.ordinary [OF that] by (auto simp: special_keys_def)
    ultimately have "row_text (dbKey f) rs \<noteq> None" if "f \<in> set ?fs" for f using rs(3) that by blast
    then show ?thesis using rs(1,2) by (intro exI [of _ rs]) (simp add: list_all_iff)
  qed
  show ?thesis
  proof (cases "row_text ''user'' (db_rows db)")
    case (Some u)
    then have nn: "find_row ''user'' (db_rows db) \<noteq> None" by (simp add: find_row_text)
    obtain c where E: "EnsureBootstrapDefaults ?fs ord hash today rootDir db = upsert_defaults (ord (ToMap ?fs c)) db"
      using nn by (simp add: EnsureBootstrapDefaults_def Let_def)
    obtain rs where rs: "upsert_defaults (ord (ToMap ?fs c)) db = (None, db\<lparr>db_rows := rs\<rparr>)" "only_adds (db_rows db) rs"
      "list_all (\<lambda>k. row_text k rs \<noteq> None) (map dbKey ?fs)" using tail [OF assms(2)] by blast
    have "row_text ''user'' rs \<noteq> None" using rs(2) Some unfolding only_adds_def by simp
    then show ?thesis using Some rs(2,3) unfolding E rs(1) by simp
  next
    case None
    then have nn: "find_row ''user'' (db_rows db) = None" by (simp add: find_row_text)
    show ?thesis
    proof (cases hash)
      case None
      then show ?thesis using nn \<open>row_text ''user'' (db_rows db) = None\<close>
        by (simp add: EnsureBootstrapDefaults_def Let_def)
    next
      case (Some h)
      obtain r1 where r1: "insert_missing (ord (?admin h)) db = (None, db\<lparr>db_rows := r1\<rparr>)" "only_adds (db_rows db) r1"
        "\<forall>k \<in> fst ` set (ord (?admin h)). row_text k r1 \<noteq> None"
        using insert_missing_adds [OF assms(2), of "ord (?admin h)"] by blast
      have u: "row_text ''user'' r1 \<noteq> None" using r1(3) unfolding keys by simp
      obtain c where E: "EnsureBootstrapDefaults ?fs ord hash today rootDir db
          = upsert_defaults (ord (ToMap ?fs c)) (db\<lparr>db_rows := r1\<rparr>)"
        using nn Some r1(1) by (simp add: EnsureBootstrapDefaults_def Let_def)
      obtain rs where rs: "upsert_defaults (ord (ToMap ?fs c)) (db\<lparr>db_rows := r1\<rparr>) = (None, (db\<lparr>db_rows := r1\<rparr>)\<lparr>db_rows := rs\<rparr>)"
        "only_adds (db_rows (db\<lparr>db_rows := r1\<rparr>)) rs" "list_all (\<lambda>k. row_text k rs \<noteq> None) (map dbKey ?fs)"
        using tail [of "db\<lparr>db_rows := r1\<rparr>" c] assms(2) by auto
      have a: "only_adds (db_rows db) rs" using only_adds_trans [OF r1(2)] rs(2) by simp
      have "row_text ''user'' rs \<noteq> None" using rs(2) u unfolding only_adds_def by simp
      then show ?thesis using Some a rs(3) unfolding E rs(1) by simp
    qed
  qed
qed


section \<open>The options\<close>

lemma env_var_Inr: "env_var env name parse put r = Inr opt' \<Longrightarrow> \<exists>opt. r = Inr opt"
  by (cases r) (simp_all add: env_var_def)

text \<open>the options the process runs with. Unless an account is to be unlocked, parsing succeeds
  only with a session secret of at least 32 bytes and a port, if one is given, between 1 and 65535;
  in every case the debug delay is not negative and a log level is one of the four names.\<close>

theorem parsed_options_valid:
  "case Parse env fs of
     Inl e \<Rightarrow> True
   | Inr opt \<Rightarrow>
       (unlocking opt \<or> (case o_SessionSecret opt of None \<Rightarrow> False | Some s \<Rightarrow> 32 \<le> length s)
          \<and> (case o_Port opt of None \<Rightarrow> True | Some p \<Rightarrow> 1 \<le> p \<and> p \<le> 65535))
       \<and> (case o_DebugDelayMS opt of None \<Rightarrow> True | Some d \<Rightarrow> 0 \<le> d)
       \<and> (case o_LogLevel opt of None \<Rightarrow> True | Some l \<Rightarrow> l \<in> {''debug'', ''info'', ''warn'', ''error''})"
proof -
  have v: "case validateOpt opt of
     Inl e \<Rightarrow> True
   | Inr opt \<Rightarrow>
       (unlocking opt \<or> (case o_SessionSecret opt of None \<Rightarrow> False | Some s \<Rightarrow> 32 \<le> length s)
          \<and> (case o_Port opt of None \<Rightarrow> True | Some p \<Rightarrow> 1 \<le> p \<and> p \<le> 65535))
       \<and> (case o_DebugDelayMS opt of None \<Rightarrow> True | Some d \<Rightarrow> 0 \<le> d)
       \<and> (case o_LogLevel opt of None \<Rightarrow> True | Some l \<Rightarrow> l \<in> {''debug'', ''info'', ''warn'', ''error''})" for opt
    by (auto simp: validateOpt_def Let_def unlocking_def validateLogLevel_def split: option.splits)
  show ?thesis
    using v unfolding Parse_def by (cases "applyEnvVars env defaultOpt") simp_all
qed


section \<open>Previewing and committing an import\<close>

lemma change_reported:
  assumes "f \<in> set (all_fields reg)"
  shows "yamlKey f \<in> set (IdentifyChanges (all_fields reg) c d) \<longleftrightarrow> getDB f c \<noteq> getDB f d"
proof
  assume "yamlKey f \<in> set (IdentifyChanges (all_fields reg) c d)"
  then obtain g where g: "g \<in> set (all_fields reg)" "getDB g c \<noteq> getDB g d" "yamlKey g = yamlKey f"
    unfolding IdentifyChanges_def by auto
  then have "g = f" using fields_yaml_keys assms by (metis distinct_map inj_onD)
  with g show "getDB f c \<noteq> getDB f d" by simp
next
  assume "getDB f c \<noteq> getDB f d"
  with assms show "yamlKey f \<in> set (IdentifyChanges (all_fields reg) c d)"
    unfolding IdentifyChanges_def by auto
qed

text \<open>what the preview of an import shows is not what its commit does. A setting the document
  does not mention is reported as changed exactly when it differs from the default, because the
  preview starts from the defaults; the commit starts from the stored configuration and leaves it.\<close>

theorem import_preview_differs:
  assumes f: "f \<in> set (all_fields reg)" "map_of raw (yamlKey f) = None"
    and ord: "range_order (yl_range Y)" and doc: "valid_doc (all_fields reg) Y (Content text)"
    and raw: "yl_unmarshal Y text = Some raw" "''session-secret'' \<notin> fst ` set raw"
  shows "(case PreviewImport (all_fields reg) Y today [] text c of
            Inl e \<Rightarrow> e = BadYAML
          | Inr d \<Rightarrow> yamlKey f \<in> set (cd_Changes d) \<longleftrightarrow> getDB f c \<noteq> getDB f (DefaultConfig today))
    \<and> (case BuildImportedConfig (all_fields reg) Y (Some c) text of
            Inl e \<Rightarrow> False
          | Inr c' \<Rightarrow> \<exists>x. c' = normalizeConfigCandidate x \<and> getDB f x = getDB f c)"
proof -
  let ?fs = "all_fields reg"
  obtain t where t: "applyYAMLValues ?fs (yl_range Y raw) (DefaultConfig today) = (None, t)"
    "\<And>f. f \<in> set ?fs \<Longrightarrow> getYAML f t = taken f (yaml_text raw (yamlKey f)) (getYAML f (DefaultConfig today))"
    using doc_applies [OF ord doc raw(1)] by blast
  obtain x where x: "applyYAMLValues ?fs (yl_range Y raw) c = (None, x)"
    "\<And>f. f \<in> set ?fs \<Longrightarrow> getYAML f x = taken f (yaml_text raw (yamlKey f)) (getYAML f c)"
    using doc_applies [OF ord doc raw(1)] by blast
  have y: "yaml_text raw (yamlKey f) = None" using f(2) by (simp add: yaml_text_def)
  have same: "getDB f t = getDB f (DefaultConfig today)" "getDB f x = getDB f c"
    using tab.same_value [OF f(1), of t "DefaultConfig today"] tab.same_value [OF f(1), of x c]
      t(2) [OF f(1)] x(2) [OF f(1)] unfolding y taken_def by simp_all
  have "BuildImportedConfig ?fs Y (Some c) text = Inr (normalizeConfigCandidate x)"
    using raw x(1) by (simp add: BuildImportedConfig_def)
  moreover have "PreviewImport ?fs Y today [] text c = Inl BadYAML \<or>
      (\<exists>d. PreviewImport ?fs Y today [] text c = Inr d \<and> cd_Changes d = IdentifyChanges ?fs c t)"
    using raw t(1) by (simp add: PreviewImport_def LoadFromYAML_def split: option.split)
  ultimately show ?thesis using same change_reported [OF f(1), of c t] by auto
qed

section \<open>Witnesses\<close>

text \<open>A registry with the two codecs, a YAML library that knows one document, and a configuration in
  which everything can be applied.\<close>

definition toy_registry :: registry where
  "toy_registry = default_registry (toy_lib zstd_magic) (toy_lib gzip_magic)"

abbreviation toy_fields :: "config_field list" where
  "toy_fields \<equiv> all_fields toy_registry"

definition toy_yaml :: yaml_lib where
  "toy_yaml = \<lparr>yl_marshal = (\<lambda>m. Some ''doc''),
     yl_unmarshal = (\<lambda>t. if t = ''doc'' then Some (yaml_map toy_fields (DefaultConfig ''20250102'')) else None),
     yl_range = id\<rparr>"

abbreviation toy_config :: config where
  "toy_config \<equiv> DefaultConfig ''20250102''"

abbreviation toy_db :: config_db where
  "toy_db \<equiv> \<lparr>db_rows = [\<lparr>row_Key = ''db_pool_monitor_interval'', row_Value = ''5m'', row_HelpText = None,
     row_ExampleValue = None\<rparr>], db_faults = []\<rparr>"

lemma toy_codec: "ValidateWriteCodecID toy_registry ''zstd-1'' = None"
  by (simp add: toy_registry_def ValidateWriteCodecID_def Lookup_def default_registry(3))

lemma toy_order: "range_order id" "range_order (yl_range toy_yaml)"
  by (simp_all add: range_order_def toy_yaml_def)

lemma toy_yaml_lossless: "yaml_lossless toy_yaml toy_fields toy_config"
  by (simp add: yaml_lossless_def toy_order, simp add: toy_yaml_def)

lemma toy_valid: "Validate toy_config = None"
  by (simp add: Validate_def DefaultConfig_def ToLower_def to_lower_def)

lemma toy_normalized: "normalizeConfigCandidate toy_config = toy_config"
  by (simp add: normalizeConfigCandidate_def DefaultConfig_def normalizePath_def TrimSpace_def is_space_def)


lemma config_type_sound_witness:
  "config_ok toy_registry (Load toy_fields toy_yaml ''20250102'' ''/srv'' (Some (Some (db_rows toy_db))) [] defaultOpt)"
  using config_type_sound [OF toy_codec] by blast

lemma config_save_load_witness:
  "case SaveToDatabase toy_fields toy_yaml id toy_config toy_db of (r, db') \<Rightarrow> r = None
     \<and> map_sum id plain (service_Load toy_fields ''20250103'' (Some (db_rows db'))) = Inr (plain (sorted_themes toy_config))"
  by (rule config_save_load [OF ok_default [OF toy_codec] toy_codec toy_order(1)]) simp_all

lemma last_known_good_is_last_saved_witness:
  "case SaveToDatabase toy_fields toy_yaml id toy_config toy_db of (r, db') \<Rightarrow>
    (case RestoreLastKnownGood toy_fields toy_yaml ''20250103'' (Some (db_rows db')) of
       Inl e \<Rightarrow> False
     | Inr g \<Rightarrow> plain g = plain toy_config \<and> IdentifyChanges toy_fields toy_config g = [])"
  by (rule last_known_good_is_last_saved [OF ok_default [OF toy_codec] toy_codec toy_order(1) _ _ toy_yaml_lossless toy_valid])
    simp_all

lemma toy_typed: "config_typed toy_registry toy_config"
  unfolding config_typed_def
  using ok_default [OF toy_codec, of "''20250102''"]
  by (simp add: config_ok_def at_least_def)

definition full_db :: config_db where
  "full_db = toy_db\<lparr>db_faults := [False, True]\<rparr>"

lemma full_rows [simp]: "db_rows full_db = db_rows toy_db" "distinct (map row_Key (db_rows full_db))"
  by (simp_all add: full_db_def)

text \<open>A candidate with port 0 is rejected, the default configuration is stored, and a full disk leaves
  a partial write.\<close>

lemma apply_config_outcome_witness:
  "ApplyConfig toy_fields toy_yaml id (Some toy_config) (Some (toy_config\<lparr>ListenerPort := 0\<rparr>)) toy_db
      = (Inl (Rejected (PortRange 0)), toy_db)
   \<and> (case ApplyConfig toy_fields toy_yaml id (Some toy_config) (Some toy_config) toy_db of
        (Inr r, db') \<Rightarrow> map_sum id plain (service_Load toy_fields ''20250103'' (Some (db_rows db')))
            = Inr (plain (sorted_themes toy_config)) \<and> \<not> ar_RestartRequired r
      | _ \<Rightarrow> False)
   \<and> (case ApplyConfig toy_fields toy_yaml id (Some toy_config) (Some toy_config) full_db of
        (Inl (NotPersisted e), db') \<Rightarrow> \<forall>k. row_text k (db_rows db') = row_text k (db_rows toy_db)
            \<or> (\<exists>v. map_of (ToMap toy_fields toy_config) k = Some v \<and> row_text k (db_rows db') = Some v)
      | _ \<Rightarrow> False)"
proof (intro conjI)
  let ?bad = "toy_config\<lparr>ListenerPort := 0\<rparr>"
  have bad: "normalizeConfigCandidate ?bad = ?bad" "Validate ?bad = Some (PortRange 0)"
    by (simp_all add: normalizeConfigCandidate_def Validate_def DefaultConfig_def normalizePath_def TrimSpace_def is_space_def)
  have typed: "config_typed toy_registry ?bad" using toy_typed by (simp add: config_typed_def)
  show "ApplyConfig toy_fields toy_yaml id (Some toy_config) (Some ?bad) toy_db = (Inl (Rejected (PortRange 0)), toy_db)"
    using apply_config_outcome [OF _ toy_codec toy_order(1), where cand = ?bad and db = toy_db and Y = toy_yaml and cur = toy_config] typed bad
    by (simp add: ApplyConfig_def)
  obtain r db' where e: "ApplyConfig toy_fields toy_yaml id (Some toy_config) (Some toy_config) toy_db = (Inr r, db')"
  proof (rule SaveToDatabase_rows [OF toy_order(1), where db = toy_db and reg = toy_registry and Y = toy_yaml and c = toy_config])
    fix rs assume "SaveToDatabase toy_fields toy_yaml id toy_config toy_db = (None, toy_db\<lparr>db_rows := rs\<rparr>)"
    then show thesis using that toy_valid by (simp add: ApplyConfig_def toy_normalized Let_def)
  qed simp_all
  have c: "ar_Config r = toy_config" using e by (auto simp: ApplyConfig_def toy_normalized Let_def toy_valid split: prod.splits option.splits)
  show "case ApplyConfig toy_fields toy_yaml id (Some toy_config) (Some toy_config) toy_db of
        (Inr r, db') \<Rightarrow> map_sum id plain (service_Load toy_fields ''20250103'' (Some (db_rows db')))
            = Inr (plain (sorted_themes toy_config)) \<and> \<not> ar_RestartRequired r
      | _ \<Rightarrow> False"
    using apply_config_outcome [OF _ toy_codec toy_order(1), where cand = toy_config and db = toy_db and Y = toy_yaml
        and cur = toy_config and today = "''20250103''"]
    by (simp add: e c toy_normalized toy_typed list_ex_iff)
  obtain x db2 where f: "ApplyConfig toy_fields toy_yaml id (Some toy_config) (Some toy_config) full_db = (Inl (NotPersisted x), db2)"
  proof -
    have "fst (SaveToDatabase toy_fields toy_yaml id toy_config full_db) = Some DbError"
      by (simp add: SaveToDatabase_def ToMap_def all_fields_def UpsertConfigValueOnly_def full_db_def)
    then show thesis using that toy_valid
      by (cases "SaveToDatabase toy_fields toy_yaml id toy_config full_db") (auto simp: ApplyConfig_def toy_normalized Let_def)
  qed
  show "case ApplyConfig toy_fields toy_yaml id (Some toy_config) (Some toy_config) full_db of
        (Inl (NotPersisted e), db') \<Rightarrow> \<forall>k. row_text k (db_rows db') = row_text k (db_rows toy_db)
            \<or> (\<exists>v. map_of (ToMap toy_fields toy_config) k = Some v \<and> row_text k (db_rows db') = Some v)
      | _ \<Rightarrow> False"
    using apply_config_outcome [OF _ toy_codec toy_order(1), where cand = toy_config and db = full_db and Y = toy_yaml
        and cur = toy_config]
    by (simp add: f toy_normalized toy_typed)
qed

lemma bootstrap_keeps_settings_witness:
  "case EnsureBootstrapDefaults toy_fields id (Some ''hash'') ''20250102'' ''/srv'' toy_db of (r, db') \<Rightarrow>
    (r = None \<longleftrightarrow> row_text ''user'' (db_rows toy_db) \<noteq> None \<or> Some ''hash'' \<noteq> None)
    \<and> only_adds (db_rows toy_db) (db_rows db')
    \<and> (r = None \<longrightarrow> list_all (\<lambda>k. row_text k (db_rows db') \<noteq> None) (''user'' # map dbKey toy_fields))"
  by (rule bootstrap_keeps_settings [OF toy_order(1)]) simp

text \<open>The option forces the login rate limit to 5 although the form submits 50.\<close>

definition rate_field :: config_field where
  "rate_field = toConfigField (intField ''login_rate_limit_per_ip'' ''login-rate-limit-per-ip''
     LoginRateLimitPerIP (\<lambda>v. LoginRateLimitPerIP_update (\<lambda>_. v))
     (parseIntNonNeg ''login rate limit per IP'' ''login rate limit per IP'') False)"

lemma rate_field: "rate_field \<in> set (all_fields reg)" "dbKey rate_field = ''login_rate_limit_per_ip''"
  "\<not> restart rate_field"
  by (simp_all add: all_fields_def rate_field_def toConfigField_def intField_def)

lemma rate_five: "denotes rate_field ''5'' = Some (YInt 5)"
  by (simp add: denotes_def rate_field_def toConfigField_def intField_def field_set_def parseIntNonNeg_def
      parseIntNamed_def parse_int64_def nat_of_dec_def is_digit_def digit_val_def i64_range_def)

text \<open>The option 5 wins over the row 7; without the option the row decides.\<close>

abbreviation rate_rows :: "config_row list" where
  "rate_rows \<equiv> [\<lparr>row_Key = ''login_rate_limit_per_ip'', row_Value = ''7'', row_HelpText = None, row_ExampleValue = None\<rparr>]"

lemma rate_seven: "denotes rate_field ''7'' = Some (YInt 7)"
  by (simp add: denotes_def rate_field_def toConfigField_def intField_def field_set_def parseIntNonNeg_def
      parseIntNamed_def parse_int64_def nat_of_dec_def is_digit_def digit_val_def i64_range_def)

lemma rate_not_zero: "\<not> zero_text today rate_field ''5''" "\<not> zero_text today rate_field ''7''"
  by (simp_all add: zero_text_def rate_field_def toConfigField_def intField_def field_set_def parseIntNonNeg_def
      parseIntNamed_def parse_int64_def nat_of_dec_def is_digit_def digit_val_def i64_range_def field_isZero_def)

lemma config_precedence_witness:
  "Some (getYAML rate_field (Load toy_fields toy_yaml ''20250102'' ''/srv'' (Some (Some rate_rows)) [Missing]
      (defaultOpt\<lparr>o_LoginRateLimitPerIP := Some 5\<rparr>))) = Some (YInt 5)
   \<and> Some (getYAML rate_field (Load toy_fields toy_yaml ''20250102'' ''/srv'' (Some (Some rate_rows)) [Missing] defaultOpt))
      = Some (YInt 7)"
proof
  have d: "list_all (valid_doc toy_fields toy_yaml) [Missing]" by (simp add: valid_doc_def)
  have r: "dbKey rate_field \<noteq> ''image_directory''" "distinct (map row_Key rate_rows)" by (simp_all add: rate_field(2))
  have five: "find (\<lambda>s. denotes rate_field s \<noteq> None)
      (offered toy_yaml rate_rows [Missing] (defaultOpt\<lparr>o_LoginRateLimitPerIP := Some 5\<rparr>) rate_field) = Some ''5''"
  proof -
    have "route_text (defaultOpt\<lparr>o_LoginRateLimitPerIP := Some 5\<rparr>) [] cliRoutes (dbKey rate_field) = Some ''5''"
      by (simp add: route_text_def cliRoutes_def rate_field(2) Itoa_def dec_of_nat.simps digit_char_def) code_simp
    then show ?thesis by (simp add: offered_def rate_five)
  qed
  show "Some (getYAML rate_field (Load toy_fields toy_yaml ''20250102'' ''/srv'' (Some (Some rate_rows)) [Missing]
      (defaultOpt\<lparr>o_LoginRateLimitPerIP := Some 5\<rparr>))) = Some (YInt 5)"
    using config_precedence [OF rate_field(1) r(1) toy_order(2) d r(2) five] rate_not_zero by (simp add: rate_five)
  have seven: "find (\<lambda>s. denotes rate_field s \<noteq> None) (offered toy_yaml rate_rows [Missing] defaultOpt rate_field) = Some ''7''"
    by (simp add: offered_def route_text_def cliRoutes_def rate_field(2) row_text_def find_row_def file_text_def defaultOpt_def rate_seven)
  show "Some (getYAML rate_field (Load toy_fields toy_yaml ''20250102'' ''/srv'' (Some (Some rate_rows)) [Missing] defaultOpt))
      = Some (YInt 7)"
    using config_precedence [OF rate_field(1) r(1) toy_order(2) d r(2) seven] rate_not_zero by (simp add: rate_seven)
qed

lemma config_post_option_wins_witness:
  "case ConfigPost toy_fields toy_yaml id (defaultOpt\<lparr>o_LoginRateLimitPerIP := Some 5\<rparr>) (\<lambda>d. True) [] toy_config
      [(''login_rate_limit_per_ip'', [''50''])] toy_db toy_config of
      (PostSaved r, db', running') \<Rightarrow> getYAML rate_field running' = YInt 5
        \<and> getDB rate_field (ar_Config r) = getDB rate_field (normalizeConfigCandidate
            (snd (apply_form toy_fields [(''login_rate_limit_per_ip'', [''50''])] toy_config)))
    | (_, db', running') \<Rightarrow> running' = toy_config"
  by (rule config_post_option_wins [OF rate_field(1,3) _ rate_five])
    (simp add: route_text_def cliRoutes_def rate_field(2) Itoa_def dec_of_nat.simps digit_char_def
      char_of_def bit_Suc_0_iff)


lemma import_preview_differs_witness:
  "(case PreviewImport toy_fields (toy_yaml\<lparr>yl_unmarshal := \<lambda>t. Some []\<rparr>) ''20250102'' [] ''{}'' toy_config of
            Inl e \<Rightarrow> e = BadYAML
          | Inr d \<Rightarrow> yamlKey rate_field \<in> set (cd_Changes d) \<longleftrightarrow> getDB rate_field toy_config \<noteq> getDB rate_field toy_config)
    \<and> (case BuildImportedConfig toy_fields (toy_yaml\<lparr>yl_unmarshal := \<lambda>t. Some []\<rparr>) (Some toy_config) ''{}'' of
            Inl e \<Rightarrow> False
          | Inr c' \<Rightarrow> \<exists>x. c' = normalizeConfigCandidate x \<and> getDB rate_field x = getDB rate_field toy_config)"
  by (rule import_preview_differs [OF rate_field(1), where raw = "[]"])
    (simp_all add: valid_doc_def range_order_def toy_yaml_def)

end
