(* ===== verification/Folder_Index.thy ===== *)
theory Folder_Index
  imports Prelude "HOL-Library.List_Lexorder" "HOL-Library.Char_ord" "HOL-Library.Product_Lexorder"
    "HOL-Library.Multiset"
begin

text \<open>
  The navigation table of the gallery: \<^verbatim>\<open>RebuildFileFolderIndex\<close> of
  \<^verbatim>\<open>internal/server/files/folder_index.go\<close> with the protocol of
  \<^verbatim>\<open>internal/server/folder_index_protocol.go\<close> between the rebuild and the write batcher. The
  reference is the window query with which migration 020 filled the table first.
\<close>

section \<open>Files and rows\<close>

text \<open>The columns of \<^verbatim>\<open>files\<close> the rebuild reads.\<close>

record file_row =
  fl_id :: int
  fl_folder :: "int option"
  fl_name :: string

record index_row =
  FileID :: int
  FolderID :: int
  ImageIndex :: int
  ImageCount :: int
  PrevID :: "int option"
  NextID :: "int option"
  FirstID :: int
  LastID :: int
  Generation :: int

text \<open>\<^verbatim>\<open>QueryFilesForFolderIndexRebuild\<close>: the files with a folder, ordered by folder, name and id.\<close>

definition scan_key :: "file_row \<Rightarrow> int \<times> string \<times> int" where
  "scan_key f = (the (fl_folder f), fl_name f, fl_id f)"

definition scanned :: "file_row list \<Rightarrow> file_row list" where
  "scanned fs = sort_key scan_key (filter (\<lambda>f. fl_folder f \<noteq> None) fs)"

definition QueryFilesForFolderIndexRebuild :: "file_row list \<Rightarrow> (int \<times> int) list" where
  "QueryFilesForFolderIndexRebuild fs = map (\<lambda>f. (fl_id f, the (fl_folder f))) (scanned fs)"

section \<open>The rebuild in Go\<close>

text \<open>The rows of one folder, in the order they are submitted.\<close>

definition folder_row :: "int \<Rightarrow> int list \<Rightarrow> int \<Rightarrow> nat \<Rightarrow> index_row" where
  "folder_row folderID ids gen i =
     \<lparr>FileID = ids ! i, FolderID = folderID, ImageIndex = int i + 1, ImageCount = int (length ids),
      PrevID = (if 0 < i then Some (ids ! (i - 1)) else None),
      NextID = (if int i < int (length ids) - 1 then Some (ids ! (i + 1)) else None),
      FirstID = ids ! 0, LastID = ids ! (length ids - 1), Generation = gen\<rparr>"

definition writeFolder :: "int \<Rightarrow> int list \<Rightarrow> int \<Rightarrow> index_row list" where
  "writeFolder folderID ids gen = map (folder_row folderID ids gen) [0..<length ids]"

text \<open>The walk over the pairs: \<^term>\<open>cur\<close> and \<^term>\<open>ids\<close> are \<^verbatim>\<open>currentFolder\<close> and the ids collected
  for it.\<close>

fun group_pairs :: "int \<Rightarrow> int list \<Rightarrow> (int \<times> int) list \<Rightarrow> (int \<times> int list) list" where
  "group_pairs cur ids [] = (if ids \<noteq> [] then [(cur, ids)] else [])"
| "group_pairs cur ids ((file, folder) # ps) =
     (if folder \<noteq> cur \<and> ids \<noteq> [] then (cur, ids) # group_pairs folder [file] ps
      else group_pairs folder (ids @ [file]) ps)"

definition rebuild_rows :: "int \<Rightarrow> file_row list \<Rightarrow> index_row list" where
  "rebuild_rows gen fs =
     concat (map (\<lambda>(d, ids). writeFolder d ids gen) (group_pairs (-1) [] (QueryFilesForFolderIndexRebuild fs)))"

section \<open>The reference: the window query\<close>

text \<open>The window of a file: the ids of its folder by name and id.\<close>

definition window :: "file_row list \<Rightarrow> int \<Rightarrow> int list" where
  "window fs folder = map fl_id (sort_key (\<lambda>f. (fl_name f, fl_id f)) (filter (\<lambda>f. fl_folder f = Some folder) fs))"

definition row_number :: "int list \<Rightarrow> int \<Rightarrow> nat" where
  "row_number w i = length (takeWhile (\<lambda>j. j \<noteq> i) w) + 1"

definition window_row :: "int \<Rightarrow> file_row list \<Rightarrow> file_row \<Rightarrow> index_row" where
  "window_row gen fs f =
     (let folder = the (fl_folder f); w = window fs folder; n = row_number w (fl_id f) in
      \<lparr>FileID = fl_id f, FolderID = folder, ImageIndex = int n, ImageCount = int (length w),
       PrevID = (if 1 < n then Some (w ! (n - 2)) else None),
       NextID = (if n < length w then Some (w ! n) else None),
       FirstID = hd w, LastID = last w, Generation = gen\<rparr>)"

section \<open>Equivalence\<close>

lemma remdups_adj_sorted:
  "sorted (d # xs) \<Longrightarrow> remdups_adj (d # xs) = d # remdups_adj (filter (\<lambda>x. x \<noteq> d) xs)"
  for d :: int
proof (induction xs)
  case (Cons x xs)
  show ?case
  proof (cases "x = d")
    case False
    then have "filter (\<lambda>x. x \<noteq> d) xs = xs" using Cons.prems by (intro filter_True) auto
    then show ?thesis using False by simp
  qed (use Cons in simp)
qed simp

definition of_folder :: "(int \<times> int) list \<Rightarrow> int \<Rightarrow> int list" where
  "of_folder ps d = map fst (filter (\<lambda>p. snd p = d) ps)"

lemma group_pairs_open:
  "ids \<noteq> [] \<Longrightarrow> sorted (cur # map snd ps) \<Longrightarrow> group_pairs cur ids ps =
     (cur, ids @ of_folder ps cur)
     # map (\<lambda>d. (d, of_folder ps d)) (remdups_adj (filter (\<lambda>d. d \<noteq> cur) (map snd ps)))"
proof (induction ps arbitrary: cur ids)
  case (Cons p ps)
  obtain f d where p: "p = (f, d)" by force
  show ?case
  proof (cases "d = cur")
    case True
    let ?rest = "remdups_adj (filter (\<lambda>d. d \<noteq> cur) (map snd ps))"
    have "map (\<lambda>d. (d, of_folder ps d)) ?rest = map (\<lambda>d. (d, of_folder (p # ps) d)) ?rest"
      by (rule map_cong [OF refl]) (auto simp: p True of_folder_def)
    then show ?thesis using Cons.IH [of "ids @ [f]" cur] Cons.prems p True by (simp add: of_folder_def)
  next
    case False
    have le: "cur < d" "\<And>q. q \<in> set ps \<Longrightarrow> d \<le> snd q" using Cons.prems p False by auto
    then have ne: "snd q \<noteq> cur" if "q \<in> set ps" for q using le(2) [OF that] by linarith
    then have none: "of_folder (p # ps) cur = []"
      using p False by (auto simp: of_folder_def filter_empty_conv)
    have all: "filter (\<lambda>e. e \<noteq> cur) (map snd (p # ps)) = d # map snd ps"
      using ne p False by (auto intro!: filter_True)
    let ?rest = "remdups_adj (filter (\<lambda>e. e \<noteq> d) (map snd ps))"
    have "map (\<lambda>d. (d, of_folder ps d)) ?rest = map (\<lambda>d. (d, of_folder (p # ps) d)) ?rest"
      by (rule map_cong [OF refl]) (auto simp: p of_folder_def)
    moreover have "sorted (d # map snd ps)" using Cons.prems p by simp
    ultimately show ?thesis
      using Cons.IH [of "[f]" d] Cons.prems(1) p False
      unfolding none all remdups_adj_sorted [OF \<open>sorted (d # map snd ps)\<close>] by (simp add: of_folder_def)
  qed
qed (simp add: of_folder_def)

lemma group_pairs_sorted:
  assumes "sorted (map snd ps)"
  shows "group_pairs cur [] ps = map (\<lambda>d. (d, of_folder ps d)) (remdups_adj (map snd ps))"
proof (cases ps)
  case (Cons p qs)
  obtain f d where p: "p = (f, d)" by force
  have s: "sorted (d # map snd qs)" using assms Cons p by simp
  let ?rest = "remdups_adj (filter (\<lambda>e. e \<noteq> d) (map snd qs))"
  have "map (\<lambda>d. (d, of_folder qs d)) ?rest = map (\<lambda>d. (d, of_folder ps d)) ?rest"
    by (rule map_cong [OF refl]) (auto simp: Cons p of_folder_def)
  moreover have "group_pairs cur [] ps = group_pairs d [f] qs" using Cons p by simp
  ultimately show ?thesis
    using group_pairs_open [of "[f]" d qs] s remdups_adj_sorted [OF s] Cons p by (simp add: of_folder_def)
qed simp


text \<open>The scan, folder by folder, is the window of the folder.\<close>

lemma filter_sort_key: "filter P (sort_key k xs) = sort_key k (filter P xs)"
  by (simp add: filter_sort)

lemma sort_key_cong:
  assumes "\<And>x y. x \<in> set xs \<Longrightarrow> y \<in> set xs \<Longrightarrow> k x \<le> k y \<longleftrightarrow> k' x \<le> k' y"
  shows "sort_key k xs = sort_key k' xs"
  using assms
proof (induction xs)
  case (Cons x xs)
  have "insort_key k x (sort_key k' xs) = insort_key k' x (sort_key k' xs)"
  proof -
    have "insort_key k x ys = insort_key k' x ys" if "set ys \<subseteq> set (x # xs)" for ys
      using that Cons.prems by (induction ys) auto
    then show ?thesis by (metis set_sort set_subset_Cons)
  qed
  then show ?case using Cons by simp
qed simp

lemma window_scan:
  "of_folder (QueryFilesForFolderIndexRebuild fs) d = window fs d"
proof -
  have "of_folder (QueryFilesForFolderIndexRebuild fs) d
      = map fl_id (filter (\<lambda>f. the (fl_folder f) = d) (scanned fs))"
    by (simp add: of_folder_def QueryFilesForFolderIndexRebuild_def filter_map comp_def)
  also have "filter (\<lambda>f. the (fl_folder f) = d) (scanned fs)
      = sort_key scan_key (filter (\<lambda>f. fl_folder f = Some d) fs)"
    unfolding scanned_def filter_sort_key filter_filter
    by (rule arg_cong [where f = "sort_key scan_key"], rule filter_cong) auto
  also have "\<dots> = sort_key (\<lambda>f. (fl_name f, fl_id f)) (filter (\<lambda>f. fl_folder f = Some d) fs)"
    by (rule sort_key_cong) (auto simp: scan_key_def)
  finally show ?thesis by (simp add: window_def)
qed

lemma scanned_sorted: "sorted (map (\<lambda>f. the (fl_folder f)) (scanned fs))"
proof -
  have "sorted (map scan_key (scanned fs))" by (simp add: scanned_def)
  then have "sorted (map (fst \<circ> scan_key) (scanned fs))"
    by (simp add: sorted_map) (rule sorted_wrt_mono_rel, auto simp: less_eq_prod_def)
  then show ?thesis by (simp add: comp_def scan_key_def)
qed

text \<open>The row written for the file at a position of its folder is its window row.\<close>

lemma row_number_nth: "distinct w \<Longrightarrow> i < length w \<Longrightarrow> row_number w (w ! i) = i + 1"
proof (induction w arbitrary: i)
  case (Cons a w)
  then show ?case by (cases i) (auto simp: row_number_def)
qed simp

lemma folder_row_window:
  assumes "distinct (window fs d)" "i < length (window fs d)" "fl_folder f = Some d" "fl_id f = window fs d ! i"
  shows "folder_row d (window fs d) gen i = window_row gen fs f"
proof -
  have "row_number (window fs d) (fl_id f) = i + 1" using assms row_number_nth by simp
  moreover have "window fs d \<noteq> []" using assms(2) by auto
  ultimately show ?thesis using assms
    by (auto simp: folder_row_def window_row_def Let_def hd_conv_nth last_conv_nth)
qed

lemma window_files: "window fs d = map fl_id (filter (\<lambda>f. the (fl_folder f) = d) (scanned fs))"
  unfolding window_scan [symmetric]
  by (simp add: of_folder_def QueryFilesForFolderIndexRebuild_def filter_map comp_def)

lemma folder_rows:
  assumes "distinct (map fl_id fs)"
  shows "writeFolder d (window fs d) gen = map (window_row gen fs) (filter (\<lambda>f. the (fl_folder f) = d) (scanned fs))"
proof (rule nth_equalityI)
  show l: "length (writeFolder d (window fs d) gen)
      = length (map (window_row gen fs) (filter (\<lambda>f. the (fl_folder f) = d) (scanned fs)))"
    by (simp add: writeFolder_def window_files)
  fix i
  assume i: "i < length (writeFolder d (window fs d) gen)"
  let ?f = "filter (\<lambda>f. the (fl_folder f) = d) (scanned fs) ! i"
  have len: "i < length (window fs d)" "i < length (filter (\<lambda>f. the (fl_folder f) = d) (scanned fs))"
    using i l by (simp_all add: writeFolder_def)
  then have "?f \<in> set (filter (\<lambda>f. the (fl_folder f) = d) (scanned fs))" by (rule_tac nth_mem)
  then have "fl_folder ?f = Some d" by (auto simp: scanned_def)
  moreover have "distinct (window fs d)"
    using assms by (simp add: window_def distinct_map inj_on_def)
  moreover have "fl_id ?f = window fs d ! i" using len(2) by (simp add: window_files)
  ultimately have "folder_row d (window fs d) gen i = window_row gen fs ?f"
    using folder_row_window len(1) by blast
  then show "writeFolder d (window fs d) gen ! i
      = map (window_row gen fs) (filter (\<lambda>f. the (fl_folder f) = d) (scanned fs)) ! i"
    using len by (simp add: writeFolder_def)
qed

lemma sorted_split:
  fixes key :: "'a \<Rightarrow> int"
  assumes "sorted (d # map key xs)"
  shows "xs = filter (\<lambda>x. key x = d) xs @ filter (\<lambda>x. key x \<noteq> d) xs"
  using assms
proof (induction xs)
  case (Cons x xs)
  show ?case
  proof (cases "key x = d")
    case False
    then have "key y \<noteq> d" if "y \<in> set (x # xs)" for y using Cons.prems that by fastforce
    then have "filter (\<lambda>x. key x = d) (x # xs) = []" "filter (\<lambda>x. key x \<noteq> d) (x # xs) = x # xs"
      by (auto simp: filter_empty_conv filter_id_conv)
    then show ?thesis by simp
  qed (use Cons in simp)
qed simp

lemma concat_groups:
  fixes key :: "'a \<Rightarrow> int"
  shows "sorted (map key xs) \<Longrightarrow> concat (map (\<lambda>d. filter (\<lambda>x. key x = d) xs) (remdups_adj (map key xs))) = xs"
proof (induction "length xs" arbitrary: xs rule: less_induct)
  case less
  show ?case
  proof (cases xs)
    case (Cons x ys)
    let ?d = "key x"
    define r where "r = filter (\<lambda>y. key y \<noteq> ?d) xs"
    have s: "sorted (?d # map key ys)" using less.prems Cons by simp
    have adj: "remdups_adj (map key xs) = ?d # remdups_adj (map key r)"
      using remdups_adj_sorted [OF s] Cons by (simp add: r_def filter_map comp_def)
    have "filter (\<lambda>y. key y = e) xs = filter (\<lambda>y. key y = e) r" if "e \<in> set (map key r)" for e
      using that by (auto simp: r_def intro!: filter_cong)
    then have "concat (map (\<lambda>e. filter (\<lambda>y. key y = e) xs) (remdups_adj (map key r)))
        = concat (map (\<lambda>e. filter (\<lambda>y. key y = e) r) (remdups_adj (map key r)))"
      by (metis (no_types, lifting) map_cong remdups_adj_set)
    also have "\<dots> = r"
    proof (rule less.hyps)
      show "length r < length xs" using Cons length_filter_le [of _ ys] by (simp add: r_def less_Suc_eq_le)
      show "sorted (map key r)" using less.prems by (simp add: r_def sorted_filter)
    qed
    finally have "concat (map (\<lambda>d. filter (\<lambda>x. key x = d) xs) (remdups_adj (map key xs)))
        = filter (\<lambda>y. key y = ?d) xs @ r" by (simp add: adj)
    also have "\<dots> = xs" using sorted_split [of ?d key xs] less.prems Cons s by (simp add: r_def)
    finally show ?thesis .
  qed simp
qed

text \<open>C21: the rows the rebuild computes in one pass over the sorted files are the rows of the window
  query of the migration, for every file with a folder, in scan order.\<close>

theorem rebuild_is_window_query:
  assumes "distinct (map fl_id fs)"
  shows "rebuild_rows gen fs = map (window_row gen fs) (scanned fs)"
proof -
  let ?key = "\<lambda>f. the (fl_folder f)"
  have snds: "map snd (QueryFilesForFolderIndexRebuild fs) = map ?key (scanned fs)"
    by (simp add: QueryFilesForFolderIndexRebuild_def)
  have "group_pairs (-1) [] (QueryFilesForFolderIndexRebuild fs)
      = map (\<lambda>d. (d, window fs d)) (remdups_adj (map ?key (scanned fs)))"
    using group_pairs_sorted [of "QueryFilesForFolderIndexRebuild fs" "-1"] scanned_sorted
    by (simp add: snds window_scan)
  then have "rebuild_rows gen fs = concat (map (\<lambda>d. map (window_row gen fs) (filter (\<lambda>f. ?key f = d) (scanned fs)))
      (remdups_adj (map ?key (scanned fs))))"
    by (simp add: rebuild_rows_def comp_def folder_rows [OF assms])
  also have "\<dots> = map (window_row gen fs) (concat (map (\<lambda>d. filter (\<lambda>f. ?key f = d) (scanned fs))
      (remdups_adj (map ?key (scanned fs)))))"
    by (simp add: map_concat comp_def)
  finally show ?thesis by (simp add: concat_groups scanned_sorted)
qed

end
