(* ===== verification/Folder_Protocol.thy ===== *)
theory Folder_Protocol
  imports Folder_Index
begin

text \<open>
  The rebuild of the navigation table while the write batcher flushes: the protocol of
  \<^verbatim>\<open>internal/server/folder_index_protocol.go\<close>, the submission of rows in
  \<^verbatim>\<open>internal/server/batcher_wiring.go\<close>, and the interleaving of \<^verbatim>\<open>RebuildFileFolderIndex\<close> with the
  flushes. What a table swap does to the tables is one step here.
\<close>

section \<open>The protocol\<close>

record protocol =
  rebuildActive :: bool
  rebuildScanHeld :: bool
  generation :: int
  inflight :: int

text \<open>The union type of the batcher, with what the protocol looks at.\<close>

datatype batched = WFile | WCache | WIndex index_row

definition bumpGeneration :: "int \<Rightarrow> protocol \<Rightarrow> protocol" where
  "bumpGeneration now p =
     (let prev = generation p; next = (if now = 0 \<or> now = prev then prev + 1 else now)
      in p\<lparr>generation := next\<rparr>)"

definition inflightAdd :: "int \<Rightarrow> protocol \<Rightarrow> protocol" where
  "inflightAdd d p = p\<lparr>inflight := inflight p + d\<rparr>"

definition inflightSaturatingDecrement :: "protocol \<Rightarrow> protocol" where
  "inflightSaturatingDecrement p = (if inflight p > 0 then inflightAdd (-1) p else p)"

definition indexOnlyAndRebuildInactive :: "batched list \<Rightarrow> protocol \<Rightarrow> bool" where
  "indexOnlyAndRebuildInactive batch p \<longleftrightarrow>
     \<not> rebuildActive p \<and> list_all (\<lambda>b. case b of WIndex _ \<Rightarrow> True | _ \<Rightarrow> False) batch"

definition ShouldDropIndexOnlyBatch :: "batched list \<Rightarrow> protocol \<Rightarrow> bool" where
  "ShouldDropIndexOnlyBatch = indexOnlyAndRebuildInactive"

fun index_writes :: "batched list \<Rightarrow> index_row list" where
  "index_writes [] = []"
| "index_writes (b # bs) = (case b of WIndex r \<Rightarrow> r # index_writes bs | _ \<Rightarrow> index_writes bs)"

text \<open>The rows a flush inserts; \<^term>\<open>exists\<close> is the answer of \<^verbatim>\<open>FileFolderIndexNewExists\<close>, None its
  failure.\<close>

definition PrepareFolderIndexFlush :: "batched list \<Rightarrow> bool option \<Rightarrow> protocol \<Rightarrow> index_row list option" where
  "PrepareFolderIndexFlush batch exists p =
     (let writes = (if indexOnlyAndRebuildInactive batch p then [] else index_writes batch) in
      if writes = [] \<or> \<not> rebuildActive p then Some []
      else case exists of
          None \<Rightarrow> None
        | Some dest \<Rightarrow> if dest then Some (filter (\<lambda>r. Generation r = generation p) writes) else Some [])"

fun OnFolderIndexBatchSuccess :: "batched list \<Rightarrow> protocol \<Rightarrow> protocol" where
  "OnFolderIndexBatchSuccess [] p = p"
| "OnFolderIndexBatchSuccess (b # bs) p =
     (case b of
        WIndex r \<Rightarrow> OnFolderIndexBatchSuccess bs
          (if Generation r = generation p then inflightSaturatingDecrement p else p)
      | _ \<Rightarrow> OnFolderIndexBatchSuccess bs p)"

section \<open>Submitting a row\<close>

datatype submit_error = SubmitClosed | SubmitFull | SubmitQuota | SubmitOther

text \<open>\<^verbatim>\<open>SubmitFolderIndex\<close> after the first refusal \<^term>\<open>err\<close>: every tick shows the pending count, the
  time since the start and what a submission would answer. None is a loop that has not ended when
  the ticks are used up.\<close>

fun retry_loop :: "nat \<Rightarrow> submit_error \<Rightarrow> int \<Rightarrow> (int \<times> nat \<times> submit_error option) list \<Rightarrow> submit_error option option" where
  "retry_loop stall err prev [] = None"
| "retry_loop stall err prev ((cur, elapsed, answer) # ticks) =
     (if cur < prev then
        (case answer of
           None \<Rightarrow> Some None
         | Some e \<Rightarrow> if e = SubmitFull \<or> e = SubmitQuota then retry_loop stall err cur ticks else Some (Some e))
      else if stall \<le> elapsed then Some (Some err)
      else retry_loop stall err cur ticks)"

definition SubmitFolderIndex ::
  "nat \<Rightarrow> submit_error option \<Rightarrow> int \<Rightarrow> (int \<times> nat \<times> submit_error option) list \<Rightarrow> submit_error option option" where
  "SubmitFolderIndex stall first pending ticks =
     (case first of
        None \<Rightarrow> Some None
      | Some e \<Rightarrow> if e = SubmitFull \<or> e = SubmitQuota then retry_loop stall e pending ticks else Some (Some e))"

text \<open>The stall is measured from the first refusal, not from the last progress: as long as the count
  falls nothing ends the loop, and then a single tick without progress ends it.\<close>

lemma retry_gives_up_on_progress:
  assumes "list_all (\<lambda>(c, t, a). a = Some SubmitFull) ticks" "sorted_wrt (>) (prev # map fst ticks)"
    "stall \<le> t"
  shows "retry_loop stall SubmitFull prev (ticks @ [(last (prev # map fst ticks), t, a)]) = Some (Some SubmitFull)"
  using assms by (induction ticks arbitrary: prev) auto

section \<open>Rebuild and flushes\<close>

text \<open>The rebuild is idle, submitting the rest of the rows of a scan, or waiting.\<close>

datatype rebuild_phase = Idle | Populating "index_row list" | Waiting

text \<open>The flush of the single worker: the batch before and after its commit.\<close>

datatype flush_state = NoFlush | Prepared "batched list" | Committed "batched list"

text \<open>\<^term>\<open>todo\<close> is what the scan of the current rebuild asks for.\<close>

record index_sys =
  prot :: protocol
  phase :: rebuild_phase
  todo :: "index_row list"
  queued :: "batched list"
  flushing :: flush_state
  dest :: "index_row list option"
  live :: "index_row list"

definition start_rebuild :: "int \<Rightarrow> file_row list \<Rightarrow> index_sys \<Rightarrow> index_sys" where
  "start_rebuild now fs s =
     (let p = bumpGeneration now ((prot s)\<lparr>rebuildActive := True\<rparr>); rows = rebuild_rows (generation p) fs
      in s\<lparr>prot := p, phase := Populating rows, todo := rows, dest := Some []\<rparr>)"

definition end_rebuild :: "index_sys \<Rightarrow> index_sys" where
  "end_rebuild s = s\<lparr>prot := (prot s)\<lparr>rebuildActive := False\<rparr>, phase := Idle\<rparr>"

definition generations :: "batched list \<Rightarrow> int set" where
  "generations bs = Generation ` set (index_writes bs)"

fun flush_items :: "flush_state \<Rightarrow> batched list" where
  "flush_items NoFlush = []"
| "flush_items (Prepared b) = b"
| "flush_items (Committed b) = b"

text \<open>Steps. A rebuild starts with a generation no queued row has, which the clock provides; it can be
  given up at any time, by cancellation, a failed submission, a stalled wait or a failed swap. The
  worker takes any part of the queue; a flush that fails puts back a part of its batch, the rest
  being lost.\<close>

inductive index_step :: "index_sys \<Rightarrow> index_sys \<Rightarrow> bool" where
  Start: "phase s = Idle \<Longrightarrow> distinct (map fl_id fs) \<Longrightarrow>
    generation (bumpGeneration now (prot s)) \<notin> generations (queued s @ flush_items (flushing s)) \<Longrightarrow>
    index_step s (start_rebuild now fs s)"
| SubmitRow: "phase s = Populating (r # rs) \<Longrightarrow>
    index_step s (s\<lparr>prot := inflightAdd 1 (prot s), phase := Populating rs, queued := queued s @ [WIndex r]\<rparr>)"
| AllSubmitted: "phase s = Populating [] \<Longrightarrow> index_step s (s\<lparr>phase := Waiting\<rparr>)"
| GiveUp: "phase s \<noteq> Idle \<Longrightarrow> index_step s (end_rebuild s)"
| Swap: "phase s = Waiting \<Longrightarrow> inflight (prot s) = 0 \<Longrightarrow> dest s = Some d \<Longrightarrow>
    index_step s (end_rebuild (s\<lparr>live := d, dest := None\<rparr>))"
| OtherWrite: "b = WFile \<or> b = WCache \<Longrightarrow> index_step s (s\<lparr>queued := queued s @ [b]\<rparr>)"
| TakeBatch: "flushing s = NoFlush \<Longrightarrow> mset (queued s) = mset batch + mset rest \<Longrightarrow> batch \<noteq> [] \<Longrightarrow>
    index_step s (s\<lparr>queued := rest,
      flushing := (if ShouldDropIndexOnlyBatch batch (prot s) then Committed batch else Prepared batch)\<rparr>)"
| FlushDone: "flushing s = Prepared batch \<Longrightarrow>
    PrepareFolderIndexFlush batch (Some (dest s \<noteq> None)) (prot s) = Some rows \<Longrightarrow>
    index_step s (s\<lparr>dest := map_option (\<lambda>d. d @ rows) (dest s), flushing := Committed batch\<rparr>)"
| FlushFailed: "flushing s = Prepared batch \<Longrightarrow> mset kept \<subseteq># mset batch \<Longrightarrow>
    index_step s (s\<lparr>queued := queued s @ kept, flushing := NoFlush\<rparr>)"
| Succeeded: "flushing s = Committed batch \<Longrightarrow>
    index_step s (s\<lparr>prot := OnFolderIndexBatchSuccess batch (prot s), flushing := NoFlush\<rparr>)"

text \<open>At the start of the process the queue may hold rows of an earlier one.\<close>

definition index_init :: "index_sys \<Rightarrow> bool" where
  "index_init s \<longleftrightarrow> phase s = Idle \<and> inflight (prot s) = 0 \<and> \<not> rebuildActive (prot s) \<and> flushing s = NoFlush
     \<and> generation (prot s) \<notin> generations (queued s)"


section \<open>What a swap publishes\<close>

definition is_index :: "batched \<Rightarrow> bool" where
  "is_index b \<longleftrightarrow> (case b of WIndex _ \<Rightarrow> True | _ \<Rightarrow> False)"

definition row_of :: "batched \<Rightarrow> index_row" where
  "row_of b = (case b of WIndex r \<Rightarrow> r | _ \<Rightarrow> undefined)"

lemma index_writes_filter: "index_writes bs = map row_of (filter is_index bs)"
  by (induction bs) (auto simp: is_index_def row_of_def split: batched.split)

text \<open>The rows of a generation among the writes.\<close>

definition gen_rows :: "int \<Rightarrow> batched list \<Rightarrow> index_row multiset" where
  "gen_rows g bs = filter_mset (\<lambda>r. Generation r = g) (mset (index_writes bs))"

lemma rows_of_simps [simp]:
  "gen_rows g [] = {#}" "gen_rows g (xs @ ys) = gen_rows g xs + gen_rows g ys"
  "gen_rows g (WIndex r # bs) = (if Generation r = g then add_mset r (gen_rows g bs) else gen_rows g bs)"
  "gen_rows g (WFile # bs) = gen_rows g bs" "gen_rows g (WCache # bs) = gen_rows g bs"
  by (simp_all add: gen_rows_def index_writes_filter is_index_def row_of_def)

lemma rows_of_mset: "gen_rows g xs = filter_mset (\<lambda>r. Generation r = g) (image_mset row_of (filter_mset is_index (mset xs)))"
  by (simp add: gen_rows_def index_writes_filter)

lemma rows_of_split: "mset q = mset b + mset r \<Longrightarrow> gen_rows g q = gen_rows g b + gen_rows g r"
  by (simp add: rows_of_mset)

lemma rows_of_sub: "mset b \<subseteq># mset c \<Longrightarrow> gen_rows g b \<subseteq># gen_rows g c"
  unfolding rows_of_mset by (intro multiset_filter_mono image_mset_subseteq_mono)

lemma rows_of_fresh: "g \<notin> generations bs \<Longrightarrow> gen_rows g bs = {#}"
  by (auto simp: gen_rows_def generations_def filter_mset_eq_conv intro!: multiset_eqI)

lemma success_inflight:
  "int (size (gen_rows (generation p) batch)) \<le> inflight p \<Longrightarrow>
   OnFolderIndexBatchSuccess batch p = p\<lparr>inflight := inflight p - int (size (gen_rows (generation p) batch))\<rparr>"
proof (induction batch arbitrary: p)
  case (Cons b bs)
  show ?case
  proof (cases b)
    case (WIndex r)
    show ?thesis
    proof (cases "Generation r = generation p")
      case True
      have e: "gen_rows (generation p) (b # bs) = add_mset r (gen_rows (generation p) bs)"
        using WIndex True by (simp add: gen_rows_def)
      then have pos: "inflight p > 0" using Cons.prems by simp
      have "OnFolderIndexBatchSuccess (b # bs) p = OnFolderIndexBatchSuccess bs (p\<lparr>inflight := inflight p - 1\<rparr>)"
        using WIndex True pos by (simp add: inflightSaturatingDecrement_def inflightAdd_def)
      also have "\<dots> = p\<lparr>inflight := inflight p - int (size (gen_rows (generation p) (b # bs)))\<rparr>"
        using Cons.IH [of "p\<lparr>inflight := inflight p - 1\<rparr>"] Cons.prems e by simp
      finally show ?thesis .
    next
      case False
      then have "gen_rows (generation p) (b # bs) = gen_rows (generation p) bs" using WIndex by (simp add: gen_rows_def)
      then show ?thesis using Cons WIndex False by simp
    qed
  qed (use Cons in \<open>simp_all add: gen_rows_def\<close>)
qed simp

text \<open>The rows not yet committed, the count of uncommitted and unacknowledged rows, and the leak: what
  the count of rows in flight exceeds it by.\<close>

definition uncommitted :: "index_sys \<Rightarrow> batched list" where
  "uncommitted s = queued s @ (case flushing s of Prepared b \<Rightarrow> b | _ \<Rightarrow> [])"

definition index_counted :: "index_sys \<Rightarrow> int" where
  "index_counted s = int (size (gen_rows (generation (prot s)) (queued s @ flush_items (flushing s))))"

definition leak :: "index_sys \<Rightarrow> int" where
  "leak s = inflight (prot s) - index_counted s"

fun rest_rows :: "rebuild_phase \<Rightarrow> index_row list" where
  "rest_rows (Populating rs) = rs"
| "rest_rows _ = []"

text \<open>During a rebuild every row asked for is still to be submitted, uncommitted, in the new table or
  lost; lost rows are in the leak.\<close>

definition running_inv :: "index_sys \<Rightarrow> bool" where
  "running_inv s \<longleftrightarrow> rebuildActive (prot s)
     \<and> (\<exists>fs. distinct (map fl_id fs) \<and> todo s = rebuild_rows (generation (prot s)) fs)
     \<and> (\<exists>d lost. dest s = Some d \<and> int (size lost) \<le> leak s
         \<and> mset (todo s) = mset (rest_rows (phase s)) + mset d + gen_rows (generation (prot s)) (uncommitted s) + lost)"

definition published :: "index_row list \<Rightarrow> bool" where
  "published t \<longleftrightarrow> (\<exists>gen fs. distinct (map fl_id fs) \<and> mset t = mset (map (window_row gen fs) (scanned fs)))"

definition index_inv :: "index_sys \<Rightarrow> index_sys \<Rightarrow> bool" where
  "index_inv s0 s \<longleftrightarrow> 0 \<le> leak s \<and> (phase s \<noteq> Idle \<longrightarrow> running_inv s) \<and> (live s = live s0 \<or> published (live s))"

lemma rebuild_generation: "r \<in> set (rebuild_rows g fs) \<Longrightarrow> Generation r = g"
  by (auto simp: rebuild_rows_def writeFolder_def folder_row_def)

lemma rest_generation:
  assumes "running_inv s" "phase s = Populating (r # rs)"
  shows "Generation r = generation (prot s)"
proof -
  obtain fs d lost where "todo s = rebuild_rows (generation (prot s)) fs"
    "mset (todo s) = mset (rest_rows (phase s)) + mset d + gen_rows (generation (prot s)) (uncommitted s) + lost"
    using assms(1) unfolding running_inv_def by blast
  then have "r \<in># mset (rebuild_rows (generation (prot s)) fs)" using assms(2) by simp
  then show ?thesis using rebuild_generation by simp
qed

lemma running_inv_cong:
  assumes "running_inv s" "rebuildActive (prot t)" "generation (prot t) = generation (prot s)" "todo t = todo s"
    "dest t = dest s" "leak s \<le> leak t"
    "mset (rest_rows (phase t)) + gen_rows (generation (prot s)) (uncommitted t)
      = mset (rest_rows (phase s)) + gen_rows (generation (prot s)) (uncommitted s)"
  shows "running_inv t"
proof -
  obtain fs d lost where I: "distinct (map fl_id fs)" "todo s = rebuild_rows (generation (prot s)) fs" "dest s = Some d"
    "int (size lost) \<le> leak s"
    "mset (todo s) = mset (rest_rows (phase s)) + mset d + gen_rows (generation (prot s)) (uncommitted s) + lost"
    using assms(1) unfolding running_inv_def by blast
  have "mset (todo t) = (mset (rest_rows (phase s)) + gen_rows (generation (prot s)) (uncommitted s)) + mset d + lost"
    using I(5) assms(4) by (simp add: ac_simps)
  also have "\<dots> = mset (rest_rows (phase t)) + mset d + gen_rows (generation (prot t)) (uncommitted t) + lost"
    unfolding assms(7) [symmetric] assms(3) by (simp add: ac_simps)
  finally show ?thesis unfolding running_inv_def using I assms
    by (intro conjI exI [of _ fs] exI [of _ d] exI [of _ lost]) auto
qed


lemma bump_fresh: "rebuildActive (bumpGeneration now (p\<lparr>rebuildActive := a\<rparr>)) = a"
  "inflight (bumpGeneration now (p\<lparr>rebuildActive := a\<rparr>)) = inflight p"
  "generation (bumpGeneration now (p\<lparr>rebuildActive := a\<rparr>)) = generation (bumpGeneration now p)"
  by (simp_all add: bumpGeneration_def Let_def)

lemma index_step_inv:
  assumes "index_step s t" "index_inv s0 s"
  shows "index_inv s0 t"
  using assms(1)
proof cases
  case (Start fs now)
  let ?g = "generation (bumpGeneration now (prot s))"
  have fresh: "gen_rows ?g (queued s @ flush_items (flushing s)) = {#}"
    using Start(4) by (rule rows_of_fresh)
  then have q: "gen_rows ?g (queued s) = {#}" "gen_rows ?g (flush_items (flushing s)) = {#}" by simp_all
  have u: "gen_rows ?g (uncommitted s) = {#}"
    using q by (simp add: uncommitted_def split: flush_state.split) (metis flush_items.simps(2))
  have nn: "0 \<le> inflight (prot s)" using assms(2) by (simp add: index_inv_def leak_def index_counted_def)
  have lk: "leak t = inflight (prot s)"
    using q by (simp add: Start(1) start_rebuild_def Let_def leak_def index_counted_def bump_fresh)
  have "running_inv t"
    unfolding running_inv_def
  proof (intro conjI exI)
    show "distinct (map fl_id fs)" by (rule Start(3))
    show "todo t = rebuild_rows (generation (prot t)) fs" "rebuildActive (prot t)" "dest t = Some []"
      by (simp_all add: Start(1) start_rebuild_def Let_def bump_fresh)
    show "int (size {#}) \<le> leak t" using lk nn by simp
    show "mset (todo t) = mset (rest_rows (phase t)) + mset [] + gen_rows (generation (prot t)) (uncommitted t) + {#}"
      using u by (simp add: Start(1) start_rebuild_def Let_def bump_fresh uncommitted_def)
  qed
  then show ?thesis using lk nn assms(2) by (simp add: index_inv_def) (simp add: Start(1) start_rebuild_def Let_def)
next
  case (SubmitRow r rs)
  have run: "running_inv s" using assms(2) SubmitRow(2) by (simp add: index_inv_def)
  have g: "Generation r = generation (prot s)" by (rule rest_generation [OF run SubmitRow(2)])
  have lk: "leak t = leak s" using g by (simp add: SubmitRow(1) leak_def index_counted_def inflightAdd_def)
  have "running_inv t"
    by (rule running_inv_cong [OF run])
      (use run g lk SubmitRow(2) in \<open>simp_all add: SubmitRow(1) running_inv_def inflightAdd_def uncommitted_def\<close>)
  then show ?thesis using lk assms(2) by (simp add: index_inv_def) (simp add: SubmitRow(1))
next
  case AllSubmitted
  have run: "running_inv s" using assms(2) AllSubmitted(2) by (simp add: index_inv_def)
  have lk: "leak t = leak s" by (simp add: AllSubmitted(1) leak_def index_counted_def)
  have "running_inv t"
    by (rule running_inv_cong [OF run])
      (use run lk AllSubmitted(2) in \<open>simp_all add: AllSubmitted(1) running_inv_def uncommitted_def\<close>)
  then show ?thesis using lk assms(2) by (simp add: index_inv_def) (simp add: AllSubmitted(1))
next
  case GiveUp
  then show ?thesis using assms(2) by (simp add: index_inv_def end_rebuild_def leak_def index_counted_def)
next
  case (Swap d)
  have run: "running_inv s" using assms(2) Swap(2) by (simp add: index_inv_def)
  then obtain fs lost where I: "distinct (map fl_id fs)" "todo s = rebuild_rows (generation (prot s)) fs"
    "int (size lost) \<le> leak s"
    "mset (todo s) = mset d + gen_rows (generation (prot s)) (uncommitted s) + lost"
    using Swap(2,4) unfolding running_inv_def by auto
  have "0 \<le> leak s" "leak s = - index_counted s" "0 \<le> index_counted s"
    using assms(2) Swap(3) by (simp_all only: index_inv_def leak_def) (simp add: index_counted_def)
  then have z: "index_counted s = 0" "leak s = 0" by linarith+
  then have "gen_rows (generation (prot s)) (queued s @ flush_items (flushing s)) = {#}"
    by (simp only: index_counted_def of_nat_eq_0_iff size_eq_0_iff_empty)
  then have "gen_rows (generation (prot s)) (uncommitted s) = {#}"
    by (cases "flushing s") (simp_all add: uncommitted_def)
  moreover have "lost = {#}" using I(3) z(2) by simp
  ultimately have "mset d = mset (map (window_row (generation (prot s)) fs) (scanned fs))"
    using I(4) by (simp add: I(2) rebuild_is_window_query [OF I(1)])
  then have "published d" using I(1) unfolding published_def by blast
  then show ?thesis using assms(2) by (simp add: Swap(1) index_inv_def end_rebuild_def leak_def index_counted_def)
next
  case (OtherWrite b)
  have lk: "leak t = leak s" using OtherWrite(2) by (auto simp: OtherWrite(1) leak_def index_counted_def)
  have u: "gen_rows g (uncommitted t) = gen_rows g (uncommitted s)" for g
    using OtherWrite(2) by (auto simp: OtherWrite(1) uncommitted_def)
  have "running_inv t" if "running_inv s"
    by (rule running_inv_cong [OF that]) (use that lk u in \<open>simp_all add: OtherWrite(1) running_inv_def\<close>)
  then show ?thesis using lk assms(2) by (simp add: index_inv_def) (simp add: OtherWrite(1))
next
  case (TakeBatch batch rest)
  have sp: "gen_rows g (queued s) = gen_rows g batch + gen_rows g rest" for g
    by (rule rows_of_split [OF TakeBatch(3)])
  have lk: "leak t = leak s"
    using sp TakeBatch(2) by (simp add: TakeBatch(1) leak_def index_counted_def)
  have act: "\<not> ShouldDropIndexOnlyBatch batch (prot s)" if "running_inv s"
    using that by (simp add: running_inv_def ShouldDropIndexOnlyBatch_def indexOnlyAndRebuildInactive_def)
  have "running_inv t" if "running_inv s"
    by (rule running_inv_cong [OF that])
      (use that lk sp act [OF that] TakeBatch(2) in \<open>simp_all add: TakeBatch(1) running_inv_def uncommitted_def ac_simps\<close>)
  then show ?thesis using lk assms(2) by (simp add: index_inv_def) (simp add: TakeBatch(1))
next
  case (FlushDone batch rows)
  have lk: "leak t = leak s" using FlushDone(2) by (simp add: FlushDone(1) leak_def index_counted_def)
  have "running_inv t" if run: "running_inv s"
  proof -
    obtain fs d lost where I: "distinct (map fl_id fs)" "todo s = rebuild_rows (generation (prot s)) fs" "dest s = Some d"
      "int (size lost) \<le> leak s" "rebuildActive (prot s)"
      "mset (todo s) = mset (rest_rows (phase s)) + mset d + gen_rows (generation (prot s)) (uncommitted s) + lost"
      using run unfolding running_inv_def by blast
    have rows: "mset rows = gen_rows (generation (prot s)) batch"
      using FlushDone(3) I(3,5)
      by (auto simp: PrepareFolderIndexFlush_def Let_def gen_rows_def indexOnlyAndRebuildInactive_def mset_filter
        split: if_splits)
    show ?thesis
      unfolding running_inv_def
      by (intro conjI exI [of _ fs] exI [of _ "d @ rows"] exI [of _ lost])
        (use I lk rows FlushDone(2) in \<open>simp_all add: FlushDone(1) uncommitted_def ac_simps\<close>)
  qed
  then show ?thesis using lk assms(2) by (simp add: index_inv_def) (simp add: FlushDone(1))
next
  case (FlushFailed batch kept)
  let ?g = "generation (prot s)"
  have sub: "gen_rows ?g kept \<subseteq># gen_rows ?g batch" by (rule rows_of_sub [OF FlushFailed(3)])
  then have lk: "leak t = leak s + int (size (gen_rows ?g batch - gen_rows ?g kept))"
    using FlushFailed(2) size_mset_mono [OF sub]
    by (simp add: FlushFailed(1) leak_def index_counted_def size_Diff_submset)
  have "running_inv t" if run: "running_inv s"
  proof -
    obtain fs d lost where I: "distinct (map fl_id fs)" "todo s = rebuild_rows ?g fs" "dest s = Some d"
      "int (size lost) \<le> leak s" "rebuildActive (prot s)"
      "mset (todo s) = mset (rest_rows (phase s)) + mset d + gen_rows ?g (uncommitted s) + lost"
      using run unfolding running_inv_def by blast
    have "gen_rows ?g (uncommitted s) = gen_rows ?g (uncommitted t) + (gen_rows ?g batch - gen_rows ?g kept)"
      using FlushFailed(2) sub by (simp add: FlushFailed(1) uncommitted_def)
    then show ?thesis
      unfolding running_inv_def
      by (intro conjI exI [of _ fs] exI [of _ d] exI [of _ "lost + (gen_rows ?g batch - gen_rows ?g kept)"])
        (use I lk in \<open>simp_all add: FlushFailed(1) ac_simps\<close>)
  qed
  then show ?thesis using lk assms(2) by (simp add: index_inv_def) (simp add: FlushFailed(1))
next
  case (Succeeded batch)
  let ?g = "generation (prot s)"
  have le: "int (size (gen_rows ?g batch)) \<le> inflight (prot s)"
    using assms(2) Succeeded(2) by (simp add: index_inv_def leak_def index_counted_def)
  note p = success_inflight [OF le]
  have lk: "leak t = leak s" using Succeeded(2) by (simp add: Succeeded(1) p leak_def index_counted_def)
  have "running_inv t" if "running_inv s"
    by (rule running_inv_cong [OF that])
      (use that lk Succeeded(2) in \<open>simp_all add: Succeeded(1) p running_inv_def uncommitted_def\<close>)
  then show ?thesis using lk assms(2) by (simp add: index_inv_def) (simp add: Succeeded(1))
qed

lemma index_init_inv: "index_init s \<Longrightarrow> index_inv s s"
  by (simp add: index_init_def index_inv_def leak_def index_counted_def rows_of_fresh)



section \<open>A leak is for ever\<close>

lemma leak_step:
  assumes "index_step s t" "index_inv s0 s" "0 < leak s"
  shows "0 < leak t \<and> live t = live s"
proof -
  have inv: "index_inv s0 t" by (rule index_step_inv [OF assms(1,2)])
  show ?thesis
    using assms(1)
  proof cases
    case (Start fs now)
    have "leak t = inflight (prot s)"
      using rows_of_fresh [OF Start(4)] by (simp add: Start(1) start_rebuild_def Let_def leak_def index_counted_def bump_fresh)
    moreover have "0 < inflight (prot s)" using assms(3) by (simp add: leak_def index_counted_def)
    ultimately show ?thesis by (simp add: Start(1) start_rebuild_def Let_def)
  next
    case (SubmitRow r rs)
    have "running_inv s" using assms(2) SubmitRow(2) by (simp add: index_inv_def)
    then have "Generation r = generation (prot s)" using rest_generation SubmitRow(2) by blast
    then show ?thesis using assms(3) by (simp add: SubmitRow(1) leak_def index_counted_def inflightAdd_def)
  next
    case (Swap d)
    then show ?thesis using assms(3) by (simp add: leak_def index_counted_def)
  next
    case (OtherWrite b)
    then show ?thesis using assms(3) by (auto simp: leak_def index_counted_def)
  next
    case (TakeBatch batch rest)
    then show ?thesis using assms(3) rows_of_split [OF TakeBatch(3)] by (simp add: leak_def index_counted_def)
  next
    case (FlushFailed batch kept)
    then show ?thesis using assms(3) size_mset_mono [OF rows_of_sub [OF FlushFailed(3), of "generation (prot s)"]]
      by (simp add: leak_def index_counted_def)
  next
    case (Succeeded batch)
    have "int (size (gen_rows (generation (prot s)) batch)) \<le> inflight (prot s)"
      using assms(2) Succeeded(2) by (simp add: index_inv_def leak_def index_counted_def)
    then show ?thesis using assms(3) Succeeded(2) by (simp add: Succeeded(1) success_inflight leak_def index_counted_def)
  qed (use assms(3) in \<open>simp_all add: end_rebuild_def leak_def index_counted_def\<close>)
qed

lemma leak_steps:
  assumes "index_step\<^sup>*\<^sup>* s t" "index_inv s0 s" "0 < leak s"
  shows "live t = live s"
proof -
  have "index_inv s0 t \<and> 0 < leak t \<and> live t = live s" using assms(1)
  proof induction
    case (step t u)
    then show ?case using index_step_inv leak_step by metis
  qed (use assms(2,3) in simp)
  then show ?thesis by simp
qed

text \<open>A rebuild given up with a row in the queue, and the next one begun before the row is flushed.\<close>

definition one_row_file :: "file_row list" where
  "one_row_file = [\<lparr>fl_id = 7, fl_folder = Some 1, fl_name = ''a''\<rparr>]"

definition index_new :: index_sys where
  "index_new = \<lparr>prot = \<lparr>rebuildActive = False, rebuildScanHeld = False, generation = 0, inflight = 0\<rparr>, phase = Idle,
     todo = [], queued = [], flushing = NoFlush, dest = None, live = []\<rparr>"

lemma one_row: "rebuild_rows g one_row_file = [\<lparr>FileID = 7, FolderID = 1, ImageIndex = 1, ImageCount = 1, PrevID = None,
    NextID = None, FirstID = 7, LastID = 7, Generation = g\<rparr>]"
  by (simp add: one_row_file_def rebuild_rows_def QueryFilesForFolderIndexRebuild_def scanned_def writeFolder_def folder_row_def)

definition wedged :: index_sys where
  "wedged = start_rebuild 2 one_row_file (end_rebuild
     ((start_rebuild 1 one_row_file index_new)
       \<lparr>prot := inflightAdd 1 (prot (start_rebuild 1 one_row_file index_new)), phase := Populating [],
        queued := [WIndex (hd (rebuild_rows 1 one_row_file))]\<rparr>))"

lemma wedged_reachable: "index_step\<^sup>*\<^sup>* index_new wedged"
proof -
  let ?a = "start_rebuild 1 one_row_file index_new"
  let ?b = "?a\<lparr>prot := inflightAdd 1 (prot ?a), phase := Populating [], queued := queued ?a @ [WIndex (hd (rebuild_rows 1 one_row_file))]\<rparr>"
  have d: "distinct (map fl_id one_row_file)" by (simp add: one_row_file_def)
  have s1: "index_step index_new ?a"
    by (rule Start) (simp_all add: d index_new_def generations_def)
  have s2: "index_step ?a ?b"
    by (rule SubmitRow) (simp add: start_rebuild_def Let_def one_row index_new_def bumpGeneration_def)
  have s3: "index_step ?b (end_rebuild ?b)" by (rule GiveUp) simp
  have s4: "index_step (end_rebuild ?b) (start_rebuild 2 one_row_file (end_rebuild ?b))"
    by (rule Start)
      (simp_all add: d end_rebuild_def start_rebuild_def Let_def one_row index_new_def bumpGeneration_def
        inflightAdd_def generations_def)
  have w: "wedged = start_rebuild 2 one_row_file (end_rebuild ?b)"
    by (simp add: wedged_def start_rebuild_def Let_def index_new_def)
  show ?thesis unfolding w using s1 s2 s3 s4 by (meson converse_rtranclp_into_rtranclp rtranclp.rtrancl_refl)
qed



text \<open>One complete rebuild, from the empty table to the published one.\<close>

lemma complete_rebuild:
  fixes r p1
  defines "r \<equiv> hd (rebuild_rows 1 one_row_file)"
  defines "p1 \<equiv> \<lparr>rebuildActive = True, rebuildScanHeld = False, generation = 1, inflight = 1\<rparr>"
  shows "index_step\<^sup>*\<^sup>* index_new \<lparr>prot = \<lparr>rebuildActive = False, rebuildScanHeld = False, generation = 1, inflight = 0\<rparr>,
     phase = Idle, todo = [r], queued = [], flushing = NoFlush, dest = None, live = [r]\<rparr>"
proof -
  let ?S = "\<lambda>p ph q f d. \<lparr>prot = p, phase = ph, todo = [r], queued = q, flushing = f, dest = d, live = []\<rparr> :: index_sys"
  let ?p0 = "p1\<lparr>inflight := 0\<rparr>"
  have r: "rebuild_rows 1 one_row_file = [r]" "Generation r = 1" by (simp_all add: r_def one_row)
  have "start_rebuild 1 one_row_file index_new = ?S ?p0 (Populating [r]) [] NoFlush (Some [])"
    by (simp add: start_rebuild_def Let_def index_new_def bumpGeneration_def r p1_def)
  moreover have "index_step index_new (start_rebuild 1 one_row_file index_new)"
    by (rule Start) (simp_all add: one_row_file_def index_new_def generations_def)
  ultimately have s1: "index_step index_new (?S ?p0 (Populating [r]) [] NoFlush (Some []))" by simp
  have s2: "index_step (?S ?p0 (Populating [r]) [] NoFlush (Some [])) (?S p1 (Populating []) [WIndex r] NoFlush (Some []))"
    using SubmitRow [of "?S ?p0 (Populating [r]) [] NoFlush (Some [])" r "[]"]
    by (simp add: inflightAdd_def p1_def)
  have s3: "index_step (?S p1 (Populating []) [WIndex r] NoFlush (Some [])) (?S p1 Waiting [WIndex r] NoFlush (Some []))"
    using AllSubmitted [of "?S p1 (Populating []) [WIndex r] NoFlush (Some [])"] by simp
  have s4: "index_step (?S p1 Waiting [WIndex r] NoFlush (Some [])) (?S p1 Waiting [] (Prepared [WIndex r]) (Some []))"
    using TakeBatch [of "?S p1 Waiting [WIndex r] NoFlush (Some [])" "[WIndex r]" "[]"]
    by (simp add: ShouldDropIndexOnlyBatch_def indexOnlyAndRebuildInactive_def p1_def)
  have s5: "index_step (?S p1 Waiting [] (Prepared [WIndex r]) (Some [])) (?S p1 Waiting [] (Committed [WIndex r]) (Some [r]))"
    using FlushDone [of "?S p1 Waiting [] (Prepared [WIndex r]) (Some [])" "[WIndex r]" "[r]"]
    by (simp add: PrepareFolderIndexFlush_def indexOnlyAndRebuildInactive_def p1_def r)
  have s6: "index_step (?S p1 Waiting [] (Committed [WIndex r]) (Some [r])) (?S ?p0 Waiting [] NoFlush (Some [r]))"
    using Succeeded [of "?S p1 Waiting [] (Committed [WIndex r]) (Some [r])" "[WIndex r]"]
    by (simp add: inflightSaturatingDecrement_def inflightAdd_def p1_def r)
  have s7: "index_step (?S ?p0 Waiting [] NoFlush (Some [r])) \<lparr>prot = \<lparr>rebuildActive = False, rebuildScanHeld = False,
      generation = 1, inflight = 0\<rparr>, phase = Idle, todo = [r], queued = [], flushing = NoFlush, dest = None, live = [r]\<rparr>"
    using Swap [of "?S ?p0 Waiting [] NoFlush (Some [r])" "[r]"] by (simp add: end_rebuild_def p1_def)
  show ?thesis using s1 s2 s3 s4 s5 s6 s7
    by (meson converse_rtranclp_into_rtranclp rtranclp.rtrancl_refl)
qed


lemma rebuild_is_window_query_witness:
  "rebuild_rows 1 one_row_file = map (window_row 1 one_row_file) (scanned one_row_file)"
  by (rule rebuild_is_window_query) (simp add: one_row_file_def)

end
