(* ===== verification/Gallery_Db.thy ===== *)
theory Gallery_Db
  imports Go_Path
begin

text \<open>
  The tables of the gallery and the statements of \<^verbatim>\<open>sqlc/queries\<close> the import uses, with the
  constraints of the schema they can violate. A statement is a function on the database with a
  result; an outcome list makes statements fail for outside reasons.
\<close>

section \<open>Tables\<close>

record meta =
  m_size :: "int option"
  m_mtime :: "int option"
  m_md5 :: "string option"
  m_phash :: int
  m_width :: int
  m_height :: int
  m_mime :: string

record folder_rec =
  fo_id :: int
  fo_parent :: "int option"
  fo_path :: int
  fo_name :: string
  fo_mtime :: int
  fo_tile :: "int option"

record file_rec =
  fi_id :: int
  fi_folder :: "int option"
  fi_path :: int
  fi_name :: string
  fi_meta :: meta
  fi_created :: int
  fi_updated :: int

record thumb_rec =
  th_id :: int
  th_file :: int
  th_label :: string

record invalid_rec =
  iv_path :: string
  iv_mtime :: int
  iv_size :: int
  iv_reason :: string
  iv_folder :: int

text \<open>\<^term>\<open>blobs\<close> is the table of the attached thumbnail database, \<^term>\<open>exifs\<close> what is kept of the
  EXIF rows; \<^term>\<open>faults\<close> are the outcomes of the next statements, which succeed when it is empty.\<close>

record gallery =
  folder_paths :: "(int \<times> string) list"
  folders :: "folder_rec list"
  file_paths :: "(int \<times> string) list"
  files :: "file_rec list"
  thumbs :: "thumb_rec list"
  blobs :: "(int \<times> string) list"
  invalids :: "invalid_rec list"
  exifs :: "(int \<times> string) list"
  faults :: "bool list"

datatype db_error = NoRows | Constraint string | Failure

type_synonym 'a db = "gallery \<Rightarrow> (db_error + 'a) \<times> gallery"

definition stmt :: "'a db \<Rightarrow> 'a db" where
  "stmt f g = (case faults g of True # fs \<Rightarrow> (Inl Failure, g\<lparr>faults := fs\<rparr>) | fs \<Rightarrow> f (g\<lparr>faults := tl fs\<rparr>))"

definition andThen :: "'a db \<Rightarrow> ('a \<Rightarrow> 'b db) \<Rightarrow> 'b db" where
  "andThen m k g = (case m g of (Inl e, g') \<Rightarrow> (Inl e, g') | (Inr x, g') \<Rightarrow> k x g')"

definition returnDb :: "'a \<Rightarrow> 'a db" where
  "returnDb x g = (Inr x, g)"

definition failDb :: "db_error \<Rightarrow> 'a db" where
  "failDb e g = (Inl e, g)"

text \<open>An \<^verbatim>\<open>INTEGER PRIMARY KEY\<close> without \<^verbatim>\<open>AUTOINCREMENT\<close>.\<close>

definition next_id :: "int list \<Rightarrow> int" where
  "next_id ids = (if ids = [] then 1 else Max (set ids) + 1)"

lemma next_id_fresh: "next_id ids \<notin> set ids"
proof
  assume a: "next_id ids \<in> set ids"
  then have "next_id ids = Max (set ids) + 1" by (auto simp: next_id_def)
  moreover have "next_id ids \<le> Max (set ids)" using a by simp
  ultimately show False by simp
qed

section \<open>Paths\<close>

definition id_of_path :: "(int \<times> string) list \<Rightarrow> string \<Rightarrow> int option" where
  "id_of_path t p = map_option fst (find (\<lambda>r. snd r = p) t)"

definition UpsertFilePathReturningID :: "string \<Rightarrow> int db" where
  "UpsertFilePathReturningID p = stmt (\<lambda>g.
     case id_of_path (file_paths g) p of
       Some i \<Rightarrow> (Inr i, g)
     | None \<Rightarrow> (let i = next_id (map fst (file_paths g)) in (Inr i, g\<lparr>file_paths := file_paths g @ [(i, p)]\<rparr>)))"

definition UpsertFolderPathReturningID :: "string \<Rightarrow> int db" where
  "UpsertFolderPathReturningID p = stmt (\<lambda>g.
     case id_of_path (folder_paths g) p of
       Some i \<Rightarrow> (Inr i, g)
     | None \<Rightarrow> (let i = next_id (map fst (folder_paths g)) in (Inr i, g\<lparr>folder_paths := folder_paths g @ [(i, p)]\<rparr>)))"

section \<open>Folders\<close>

definition folder_at :: "gallery \<Rightarrow> string \<Rightarrow> folder_rec option" where
  "folder_at g p =
     (case id_of_path (folder_paths g) p of None \<Rightarrow> None | Some i \<Rightarrow> find (\<lambda>f. fo_path f = i) (folders g))"

definition found :: "'a option \<Rightarrow> db_error + 'a" where
  "found r = (case r of None \<Rightarrow> Inl NoRows | Some x \<Rightarrow> Inr x)"

definition GetFolderByPath :: "string \<Rightarrow> folder_rec db" where
  "GetFolderByPath p = stmt (\<lambda>g. (found (folder_at g p), g))"

definition GetFolderIDByPath :: "string \<Rightarrow> int db" where
  "GetFolderIDByPath p = stmt (\<lambda>g. (found (map_option fo_id (folder_at g p)), g))"

definition GetFolderByID :: "int \<Rightarrow> folder_rec db" where
  "GetFolderByID i = stmt (\<lambda>g. (found (find (\<lambda>f. fo_id f = i) (folders g)), g))"

definition has_folder :: "gallery \<Rightarrow> int \<Rightarrow> bool" where
  "has_folder g i \<longleftrightarrow> i \<in> fo_id ` set (folders g)"

text \<open>The conflict overwrites parent, name, time and tile.\<close>

definition UpsertFolderReturningFolder :: "int option \<Rightarrow> int \<Rightarrow> string \<Rightarrow> int \<Rightarrow> folder_rec db" where
  "UpsertFolderReturningFolder parent pathID name mtime = stmt (\<lambda>g.
     if (case parent of None \<Rightarrow> False | Some i \<Rightarrow> \<not> has_folder g i) \<or> pathID \<notin> fst ` set (folder_paths g)
     then (Inl (Constraint ''FOREIGN KEY''), g)
     else case find (\<lambda>f. fo_path f = pathID) (folders g) of
         Some f \<Rightarrow>
           (let f' = f\<lparr>fo_parent := parent, fo_name := name, fo_mtime := mtime, fo_tile := None\<rparr>
            in (Inr f', g\<lparr>folders := map (\<lambda>x. if fo_path x = pathID then f' else x) (folders g)\<rparr>))
       | None \<Rightarrow>
           (let f = \<lparr>fo_id = next_id (map fo_id (folders g)), fo_parent = parent, fo_path = pathID,
              fo_name = name, fo_mtime = mtime, fo_tile = None\<rparr>
            in (Inr f, g\<lparr>folders := folders g @ [f]\<rparr>)))"

definition UpdateFolderTileId :: "int \<Rightarrow> int \<Rightarrow> unit db" where
  "UpdateFolderTileId tile i = stmt (\<lambda>g.
     if tile \<notin> fi_id ` set (files g) then (Inl (Constraint ''FOREIGN KEY''), g)
     else (Inr (), g\<lparr>folders := map (\<lambda>f. if fo_id f = i then f\<lparr>fo_tile := Some tile\<rparr> else f) (folders g)\<rparr>))"

section \<open>Files\<close>

definition file_at :: "gallery \<Rightarrow> string \<Rightarrow> file_rec option" where
  "file_at g p =
     (case id_of_path (file_paths g) p of None \<Rightarrow> None | Some i \<Rightarrow> find (\<lambda>f. fi_path f = i) (files g))"

text \<open>The conflict on the path keeps the folder and the time of creation.\<close>

definition UpsertFileReturningFile :: "int \<Rightarrow> int \<Rightarrow> string \<Rightarrow> meta \<Rightarrow> int \<Rightarrow> file_rec db" where
  "UpsertFileReturningFile folder pathID name m now = stmt (\<lambda>g.
     if \<not> has_folder g folder \<or> pathID \<notin> fst ` set (file_paths g) then (Inl (Constraint ''FOREIGN KEY''), g)
     else case find (\<lambda>f. fi_path f = pathID) (files g) of
         Some f \<Rightarrow>
           (let f' = f\<lparr>fi_name := name, fi_meta := m, fi_updated := now\<rparr>
            in (Inr f', g\<lparr>files := map (\<lambda>x. if fi_path x = pathID then f' else x) (files g)\<rparr>))
       | None \<Rightarrow>
           (let f = \<lparr>fi_id = next_id (map fi_id (files g)), fi_folder = Some folder, fi_path = pathID,
              fi_name = name, fi_meta = m, fi_created = now, fi_updated = now\<rparr>
            in (Inr f, g\<lparr>files := files g @ [f]\<rparr>)))"

definition UpsertExif :: "int \<Rightarrow> string \<Rightarrow> unit db" where
  "UpsertExif i e = stmt (\<lambda>g. (Inr (), g\<lparr>exifs := (i, e) # exifs g\<rparr>))"

section \<open>Thumbnails\<close>

text \<open>The id is never given, so that the conflict clause on it cannot apply; the schema has
  \<^verbatim>\<open>UNIQUE(file_id, size_label)\<close>.\<close>

definition UpsertThumbnailReturningID :: "int \<Rightarrow> string \<Rightarrow> int db" where
  "UpsertThumbnailReturningID file label = stmt (\<lambda>g.
     if file \<notin> fi_id ` set (files g) then (Inl (Constraint ''FOREIGN KEY''), g)
     else if list_ex (\<lambda>t. th_file t = file \<and> th_label t = label) (thumbs g) then (Inl (Constraint ''UNIQUE''), g)
     else (let i = next_id (map th_id (thumbs g))
           in (Inr i, g\<lparr>thumbs := thumbs g @ [\<lparr>th_id = i, th_file = file, th_label = label\<rparr>]\<rparr>)))"

definition UpsertThumbnailBlob :: "int \<Rightarrow> string \<Rightarrow> unit db" where
  "UpsertThumbnailBlob i d = stmt (\<lambda>g. (Inr (), g\<lparr>blobs := (i, d) # filter (\<lambda>b. fst b \<noteq> i) (blobs g)\<rparr>))"

definition GetThumbnailExistsViewByID :: "int \<Rightarrow> bool db" where
  "GetThumbnailExistsViewByID i = stmt (\<lambda>g.
     (found (if list_ex (\<lambda>f. fi_id f = i) (files g) \<and> list_ex (\<lambda>t. th_file t = i) (thumbs g) then Some True else None), g))"

text \<open>The view joins the tile, which is the id of a file, with the id of a thumbnail.\<close>

definition GetFolderTileExistsViewByPath :: "string \<Rightarrow> bool db" where
  "GetFolderTileExistsViewByPath p = stmt (\<lambda>g.
     (found (case folder_at g p of
        None \<Rightarrow> None
      | Some f \<Rightarrow> (case fo_tile f of
            None \<Rightarrow> None
          | Some t \<Rightarrow> if list_ex (\<lambda>th. th_id th = t) (thumbs g) then Some True else None)), g))"

section \<open>Invalid files\<close>

definition DeleteInvalidFileByPath :: "string \<Rightarrow> unit db" where
  "DeleteInvalidFileByPath p = stmt (\<lambda>g. (Inr (), g\<lparr>invalids := filter (\<lambda>r. iv_path r \<noteq> p) (invalids g)\<rparr>))"

definition UpsertInvalidFile :: "string \<Rightarrow> int \<Rightarrow> int \<Rightarrow> string \<Rightarrow> int \<Rightarrow> unit db" where
  "UpsertInvalidFile p mtime sz reason folder = stmt (\<lambda>g.
     if \<not> has_folder g folder then (Inl (Constraint ''FOREIGN KEY''), g)
     else (Inr (), g\<lparr>invalids := \<lparr>iv_path = p, iv_mtime = mtime, iv_size = sz, iv_reason = reason, iv_folder = folder\<rparr>
             # filter (\<lambda>r. iv_path r \<noteq> p) (invalids g)\<rparr>))"

section \<open>Statements and their failures\<close>

definition tryDb :: "'a db \<Rightarrow> (db_error + 'a) db" where
  "tryDb m g = (case m g of (r, g') \<Rightarrow> (Inr r, g'))"

lemma stmt_cases:
  obtains fs where "stmt f g = (Inl Failure, g\<lparr>faults := fs\<rparr>)" | fs where "stmt f g = f (g\<lparr>faults := fs\<rparr>)"
  by (cases "faults g"; cases "hd (faults g)") (auto simp: stmt_def split: bool.splits)

lemma stmt_ok: "faults g = [] \<Longrightarrow> stmt f g = f g"
  by (cases g) (simp add: stmt_def)

lemma andThen_Inr:
  "andThen m k g = (Inr y, g') \<longleftrightarrow> (\<exists>x g1. m g = (Inr x, g1) \<and> k x g1 = (Inr y, g'))"
  by (auto simp: andThen_def split: prod.splits sum.splits)

section \<open>Integrity\<close>

text \<open>The keys of the schema.\<close>

definition keys_ok :: "gallery \<Rightarrow> bool" where
  "keys_ok g \<longleftrightarrow> distinct (map fst (folder_paths g)) \<and> distinct (map snd (folder_paths g))
     \<and> distinct (map fo_id (folders g)) \<and> distinct (map fo_path (folders g))
     \<and> fo_path ` set (folders g) \<subseteq> fst ` set (folder_paths g)
     \<and> distinct (map fst (file_paths g)) \<and> distinct (map snd (file_paths g))
     \<and> distinct (map fi_id (files g)) \<and> distinct (map fi_path (files g))
     \<and> fi_path ` set (files g) \<subseteq> fst ` set (file_paths g)"

definition is_folder :: "gallery \<Rightarrow> string \<Rightarrow> int \<Rightarrow> bool" where
  "is_folder g p i \<longleftrightarrow> (\<exists>f \<in> set (folders g). fo_id f = i \<and> (fo_path f, p) \<in> set (folder_paths g))"

definition parent_path :: "string \<Rightarrow> string" where
  "parent_path p = (let d = Dir p in if d = ''.'' then [] else d)"

text \<open>The shape of the tree: the root at the empty path has no parent, every other folder and every
  file is below the folder of the directory of its path, and is named by its last component.\<close>

definition folder_ok :: "gallery \<Rightarrow> folder_rec \<Rightarrow> string \<Rightarrow> bool" where
  "folder_ok g f p \<longleftrightarrow>
     (if p = [] then fo_parent f = None
      else fo_name f = Base p \<and> (\<exists>i. fo_parent f = Some i \<and> is_folder g (parent_path p) i))"

definition file_ok :: "gallery \<Rightarrow> file_rec \<Rightarrow> string \<Rightarrow> bool" where
  "file_ok g x p \<longleftrightarrow> fi_name x = Base p \<and> (\<exists>i. fi_folder x = Some i \<and> is_folder g (parent_path p) i)"

definition tree_ok :: "gallery \<Rightarrow> bool" where
  "tree_ok g \<longleftrightarrow> keys_ok g
     \<and> (\<forall>f \<in> set (folders g). \<forall>p. (fo_path f, p) \<in> set (folder_paths g) \<longrightarrow> folder_ok g f p)
     \<and> (\<forall>x \<in> set (files g). \<forall>p. (fi_path x, p) \<in> set (file_paths g) \<longrightarrow> file_ok g x p)"

lemma tree_keys: "tree_ok g \<Longrightarrow> keys_ok g"
  by (simp add: tree_ok_def)

lemma tree_folderD:
  "tree_ok g \<Longrightarrow> f \<in> set (folders g) \<Longrightarrow> (fo_path f, p) \<in> set (folder_paths g) \<Longrightarrow> folder_ok g f p"
  unfolding tree_ok_def by blast

lemma tree_fileD:
  "tree_ok g \<Longrightarrow> x \<in> set (files g) \<Longrightarrow> (fi_path x, p) \<in> set (file_paths g) \<Longrightarrow> file_ok g x p"
  unfolding tree_ok_def by blast

lemma find_NoneI: "List.find P xs = None \<longleftrightarrow> (\<forall>x \<in> set xs. \<not> P x)"
  by (induction xs) auto

lemma find_unique:
  assumes "distinct (map k xs)" "x \<in> set xs"
  shows "List.find (\<lambda>y. k y = k x) xs = Some x"
  using assms by (induction xs) auto

lemma id_of_path_iff:
  assumes "distinct (map snd t)"
  shows "id_of_path t p = Some i \<longleftrightarrow> (i, p) \<in> set t"
proof
  assume "id_of_path t p = Some i"
  then show "(i, p) \<in> set t" by (auto simp: id_of_path_def dest: find_SomeD)
next
  assume "(i, p) \<in> set t"
  from find_unique [OF assms this] show "id_of_path t p = Some i" by (simp add: id_of_path_def)
qed

lemma id_of_path_None: "id_of_path t p = None \<longleftrightarrow> p \<notin> snd ` set t"
  by (force simp: id_of_path_def find_NoneI)

text \<open>What the tree does not depend on: tiles, times and the other tables.\<close>

definition same_tree :: "gallery \<Rightarrow> gallery \<Rightarrow> bool" where
  "same_tree g g' \<longleftrightarrow> folder_paths g' = folder_paths g \<and> file_paths g' = file_paths g
     \<and> map (\<lambda>f. (fo_id f, fo_parent f, fo_path f, fo_name f)) (folders g')
       = map (\<lambda>f. (fo_id f, fo_parent f, fo_path f, fo_name f)) (folders g)
     \<and> files g' = files g"

lemma same_tree_refl [simp]: "same_tree g g" by (simp add: same_tree_def)

lemma same_tree_trans: "same_tree g g' \<Longrightarrow> same_tree g' g'' \<Longrightarrow> same_tree g g''"
  by (simp add: same_tree_def)

lemma same_tree_updates [simp]:
  "same_tree g (g'\<lparr>faults := fs\<rparr>) = same_tree g g'" "same_tree (g\<lparr>faults := fs\<rparr>) g' = same_tree g g'"
  "same_tree g (g'\<lparr>thumbs := ts\<rparr>) = same_tree g g'" "same_tree g (g'\<lparr>blobs := bs\<rparr>) = same_tree g g'"
  "same_tree g (g'\<lparr>invalids := iv\<rparr>) = same_tree g g'" "same_tree g (g'\<lparr>exifs := es\<rparr>) = same_tree g g'"
  by (simp_all add: same_tree_def)

lemma same_tree_folder:
  assumes "same_tree g g'" "f \<in> set (folders g)"
  obtains f' where "f' \<in> set (folders g')" "fo_id f' = fo_id f" "fo_parent f' = fo_parent f"
    "fo_path f' = fo_path f" "fo_name f' = fo_name f"
proof -
  have "(\<lambda>f. (fo_id f, fo_parent f, fo_path f, fo_name f)) f
      \<in> set (map (\<lambda>f. (fo_id f, fo_parent f, fo_path f, fo_name f)) (folders g'))"
    using assms unfolding same_tree_def by simp
  then show thesis using that by auto
qed

lemma same_tree_sym: "same_tree g g' \<Longrightarrow> same_tree g' g"
  by (simp add: same_tree_def)

lemma is_folder_same: "same_tree g g' \<Longrightarrow> is_folder g' p i = is_folder g p i"
proof -
  have *: "is_folder g' p i" if st: "same_tree g g'" and fo: "is_folder g p i" for g g'
  proof -
    obtain f where f: "f \<in> set (folders g)" "fo_id f = i" "(fo_path f, p) \<in> set (folder_paths g)"
      using fo unfolding is_folder_def by blast
    obtain f' where "f' \<in> set (folders g')" "fo_id f' = fo_id f" "fo_path f' = fo_path f"
      by (rule same_tree_folder [OF st f(1)])
    moreover have "folder_paths g' = folder_paths g" using st by (simp add: same_tree_def)
    ultimately show ?thesis using f unfolding is_folder_def by auto
  qed
  assume "same_tree g g'"
  then show ?thesis using * same_tree_sym by blast
qed

lemma map_same:
  assumes "map h xs = map h ys" "\<And>x. k x = u (h x)"
  shows "map k xs = map k ys"
proof -
  have "map k zs = map u (map h zs)" for zs by (simp add: assms(2))
  then show ?thesis by (simp only: assms(1))
qed

lemma keys_same: assumes "same_tree g g'" shows "keys_ok g' = keys_ok g"
proof -
  have m: "map (\<lambda>f. (fo_id f, fo_parent f, fo_path f, fo_name f)) (folders g')
      = map (\<lambda>f. (fo_id f, fo_parent f, fo_path f, fo_name f)) (folders g)"
    using assms by (simp add: same_tree_def)
  have "map fo_id (folders g') = map fo_id (folders g)" by (rule map_same [OF m, where u = fst]) simp
  moreover have p: "map fo_path (folders g') = map fo_path (folders g)"
    by (rule map_same [OF m, where u = "\<lambda>(a, b, c, d). c"]) simp
  moreover have "fo_path ` set (folders g') = fo_path ` set (folders g)"
    using arg_cong [OF p, of set] by simp
  ultimately show ?thesis using assms by (simp add: keys_ok_def same_tree_def)
qed

lemma tree_same: assumes "same_tree g g'" "tree_ok g" shows "tree_ok g'"
  unfolding tree_ok_def
proof (intro conjI ballI allI impI)
  show "keys_ok g'" using assms keys_same tree_keys by blast
next
  fix f p
  assume f: "f \<in> set (folders g')" and p: "(fo_path f, p) \<in> set (folder_paths g')"
  obtain h where h: "h \<in> set (folders g)" "fo_id h = fo_id f" "fo_parent h = fo_parent f"
    "fo_path h = fo_path f" "fo_name h = fo_name f"
    using same_tree_folder [OF same_tree_sym [OF assms(1)] f] by metis
  have "(fo_path h, p) \<in> set (folder_paths g)" using p h assms(1) by (simp add: same_tree_def)
  from tree_folderD [OF assms(2) h(1) this]
  show "folder_ok g' f p" using h is_folder_same [OF assms(1)] by (cases "p = []") (simp_all add: folder_ok_def)
next
  fix x p
  assume "x \<in> set (files g')" "(fi_path x, p) \<in> set (file_paths g')"
  then have "x \<in> set (files g)" "(fi_path x, p) \<in> set (file_paths g)" using assms(1) by (simp_all add: same_tree_def)
  from tree_fileD [OF assms(2) this]
  show "file_ok g' x p" using is_folder_same [OF assms(1)] by (simp add: file_ok_def)
qed

end
