(* ===== verification/Importer.thy ===== *)
theory Importer
  imports Gallery_Db
begin

text \<open>
  Importing one processed file: the \<^verbatim>\<open>Importer\<close> of \<^verbatim>\<open>internal/gallerylib/importer.go\<close> with its
  folder cache, and \<^verbatim>\<open>WriteFileInTx\<close> of \<^verbatim>\<open>internal/server/files/thumbnail.go\<close>, which the write batcher
  calls for every file of a batch inside one transaction.
\<close>

section \<open>The importer\<close>

text \<open>The batch-scoped state; \<^term>\<open>foldersCreated\<close> counts the calls of \<^verbatim>\<open>OnFolderCreated\<close>.\<close>

record importer =
  folderCache :: "string \<rightharpoonup> int"
  tiledDirs :: "string list"
  foldersCreated :: nat

definition newImporter :: importer where
  "newImporter = \<lparr>folderCache = Map.empty, tiledDirs = [], foldersCreated = 0\<rparr>"

definition IsDirTiled :: "importer \<Rightarrow> string \<Rightarrow> bool" where
  "IsDirTiled imp dir \<longleftrightarrow> dir \<in> set (tiledDirs imp)"

definition MarkDirTiled :: "string \<Rightarrow> importer \<Rightarrow> importer" where
  "MarkDirTiled dir imp = imp\<lparr>tiledDirs := dir # tiledDirs imp\<rparr>"

definition CreateRootFolderEntry :: "int \<Rightarrow> int db" where
  "CreateRootFolderEntry mtime =
     andThen (tryDb (GetFolderIDByPath [])) (\<lambda>r.
       case r of
         Inr i \<Rightarrow> returnDb i
       | Inl e \<Rightarrow>
           if e \<noteq> NoRows then failDb e
           else andThen (UpsertFolderPathReturningID []) (\<lambda>pathID.
             andThen (UpsertFolderReturningFolder None pathID ''Gallery'' mtime) (\<lambda>root.
               if fo_id root = 0 then GetFolderIDByPath [] else returnDb (fo_id root))))"

definition root_folder :: "int \<Rightarrow> importer \<Rightarrow> (importer \<times> int) db" where
  "root_folder now imp =
     (case folderCache imp [] of
        Some i \<Rightarrow> returnDb (imp, i)
      | None \<Rightarrow>
          andThen (tryDb (GetFolderIDByPath [])) (\<lambda>r.
            andThen (case r of
                Inr i \<Rightarrow> returnDb i
              | Inl e \<Rightarrow> if e = NoRows then CreateRootFolderEntry now else failDb e) (\<lambda>i.
              returnDb (imp\<lparr>folderCache := (folderCache imp)([] \<mapsto> i)\<rparr>, i))))"

text \<open>One component of the directory; \<^term>\<open>stat\<close> is the time the file system reports for a path, if
  any.\<close>

definition extend_path :: "string \<Rightarrow> string \<Rightarrow> string" where
  "extend_path accum p = (if accum = [] \<or> accum = ''/'' then accum @ p else accum @ CHR ''/'' # p)"

definition upsert_folder ::
  "(string \<Rightarrow> int option) \<Rightarrow> int \<Rightarrow> string \<Rightarrow> string \<Rightarrow> int \<Rightarrow> importer \<Rightarrow> (importer \<times> int) db" where
  "upsert_folder stat now accum p parent imp =
     (case folderCache imp accum of
        Some i \<Rightarrow> returnDb (imp, i)
      | None \<Rightarrow>
          andThen (tryDb (GetFolderByPath accum)) (\<lambda>r.
            andThen (case r of
                Inr f \<Rightarrow> returnDb (imp, fo_id f)
              | Inl e \<Rightarrow>
                  if e \<noteq> NoRows then failDb e
                  else andThen (UpsertFolderPathReturningID accum) (\<lambda>pathID.
                    andThen (UpsertFolderReturningFolder (Some parent) pathID p
                        (case stat accum of None \<Rightarrow> now | Some t \<Rightarrow> t)) (\<lambda>f.
                      returnDb (imp\<lparr>foldersCreated := foldersCreated imp + 1\<rparr>, fo_id f)))) (\<lambda>(imp', i).
              returnDb (imp'\<lparr>folderCache := (folderCache imp')(accum \<mapsto> i)\<rparr>, i))))"

fun upsert_folders ::
  "(string \<Rightarrow> int option) \<Rightarrow> int \<Rightarrow> string \<Rightarrow> string list \<Rightarrow> int \<Rightarrow> importer \<Rightarrow> (importer \<times> int) db" where
  "upsert_folders stat now accum [] parent imp = returnDb (imp, parent)"
| "upsert_folders stat now accum (p # ps) parent imp =
     (if p = [] then upsert_folders stat now accum ps parent imp
      else andThen (upsert_folder stat now (extend_path accum p) p parent imp) (\<lambda>(imp', i).
        upsert_folders stat now (extend_path accum p) ps i imp'))"

definition UpsertPathChain ::
  "(string \<Rightarrow> int option) \<Rightarrow> int \<Rightarrow> string \<Rightarrow> meta \<Rightarrow> importer \<Rightarrow> (importer \<times> file_rec) db" where
  "UpsertPathChain stat now path0 m imp =
     (let path = Clean path0; dir = Dir path in
      andThen (UpsertFilePathReturningID path) (\<lambda>fpID.
        andThen (root_folder now imp) (\<lambda>(imp1, root).
          andThen
            (if dir \<noteq> ''.'' \<and> dir \<noteq> ''/''
             then upsert_folders stat now (if HasPrefix (Clean dir) ''/'' then ''/'' else [])
                    (split_on CHR ''/'' (Clean dir)) root imp1
             else returnDb (imp1, root)) (\<lambda>(imp2, folder).
            andThen (UpsertFileReturningFile folder fpID (Base path) m now) (\<lambda>f. returnDb (imp2, f))))))"

section \<open>Folder tiles\<close>

text \<open>The chain of parents is followed until a folder has a tile. Every round sets a tile, so that the
  loop ends even if the parents formed a cycle.\<close>

definition untiled :: "gallery \<Rightarrow> nat" where
  "untiled g = length (filter (\<lambda>f. fo_tile f = None) (folders g))"

lemma GetFolderByID_frame:
  assumes "GetFolderByID i g = (r, g')"
  shows "folders g' = folders g" "files g' = files g" "same_tree g g'" "thumbs g' = thumbs g"
    "blobs g' = blobs g" "invalids g' = invalids g"
    and "r = Inr f \<Longrightarrow> f \<in> set (folders g) \<and> fo_id f = i"
  using assms by (cases rule: stmt_cases [of "\<lambda>g. (found (find (\<lambda>f. fo_id f = i) (folders g)), g)" g],
      auto simp: GetFolderByID_def found_def split: option.splits dest: find_SomeD)+

lemma UpdateFolderTileId_frame:
  assumes "UpdateFolderTileId t i g = (r, g')"
  shows "same_tree g g'" "files g' = files g" "thumbs g' = thumbs g" "blobs g' = blobs g" "invalids g' = invalids g"
    and "r = Inr u \<Longrightarrow> folders g' = map (\<lambda>f. if fo_id f = i then f\<lparr>fo_tile := Some t\<rparr> else f) (folders g)"
  using assms by (cases rule: stmt_cases [of "\<lambda>g. if t \<notin> fi_id ` set (files g) then (Inl (Constraint ''FOREIGN KEY''), g)
     else (Inr (), g\<lparr>folders := map (\<lambda>f. if fo_id f = i then f\<lparr>fo_tile := Some t\<rparr> else f) (folders g)\<rparr>)" g],
      auto simp: UpdateFolderTileId_def same_tree_def split: if_splits)+

lemma untiled_less:
  assumes "f \<in> set fs" "fo_id f = i" "fo_tile f = None"
  shows "length (filter (\<lambda>f. fo_tile f = None) (map (\<lambda>f. if fo_id f = i then f\<lparr>fo_tile := Some t\<rparr> else f) fs))
    < length (filter (\<lambda>f. fo_tile f = None) fs)"
  using assms
proof (induction fs)
  case (Cons x fs)
  have le: "length (filter (\<lambda>f. fo_tile f = None) (map (\<lambda>f. if fo_id f = i then f\<lparr>fo_tile := Some t\<rparr> else f) fs))
      \<le> length (filter (\<lambda>f. fo_tile f = None) fs)" for fs
    by (induction fs) auto
  show ?case
  proof (cases "x = f")
    case True
    then show ?thesis using Cons.prems le [of fs] by simp
  next
    case False
    then show ?thesis using Cons by auto
  qed
qed simp

lemma tile_set_untiled:
  assumes "GetFolderByID folder g = (Inr f, g1)" "fo_tile f = None" "UpdateFolderTileId tile folder g1 = (Inr u, g2)"
  shows "untiled g2 < untiled g"
  using GetFolderByID_frame(1) [OF assms(1)] GetFolderByID_frame(7) [OF assms(1) refl]
    UpdateFolderTileId_frame(6) [OF assms(3) refl] untiled_less [of f "folders g" folder tile] assms(2)
  by (simp add: untiled_def)

function UpdateFolderTileChain :: "int \<Rightarrow> int \<Rightarrow> unit db" where
  "UpdateFolderTileChain folder tile g =
     (case GetFolderByID folder g of
        (Inl e, g1) \<Rightarrow> (if e = NoRows then Inr () else Inl e, g1)
      | (Inr f, g1) \<Rightarrow>
          if fo_tile f \<noteq> None then (Inr (), g1)
          else case UpdateFolderTileId tile folder g1 of
              (Inl e, g2) \<Rightarrow> (Inl e, g2)
            | (Inr u, g2) \<Rightarrow>
                (case fo_parent f of None \<Rightarrow> (Inr (), g2) | Some p \<Rightarrow> UpdateFolderTileChain p tile g2))"
  by pat_completeness auto

termination
proof (relation "measure (\<lambda>(folder, tile, g). untiled g)")
  show "wf (measure (\<lambda>(folder, tile, g). untiled g))" by simp
next
  fix folder tile g x y b xa ya ba x2
  assume "(x, y) = GetFolderByID folder g" "x = Inr b" "\<not> fo_tile b \<noteq> None"
    "(xa, ya) = UpdateFolderTileId tile folder y" "xa = Inr ba" "fo_parent b = Some x2"
  then have "untiled ya < untiled g" using tile_set_untiled [of folder g b y tile ba ya] by simp
  then show "((x2, tile, ya), folder, tile, g) \<in> measure (\<lambda>(folder, tile, g). untiled g)" by simp
qed

declare UpdateFolderTileChain.simps [simp del]

section \<open>Writing a file\<close>

text \<open>What the batch carries of a processed file: path, data, thumbnail bytes (None without one), the
  camera of its EXIF block, and the flag \<^verbatim>\<open>Exists\<close>, which discovery leaves false.\<close>

record file_input =
  fw_path :: string
  fw_meta :: meta
  fw_thumb :: "string option"
  fw_camera :: "string option"
  fw_exists :: bool

definition fileExistedBeforeUpsert :: "file_rec \<Rightarrow> bool" where
  "fileExistedBeforeUpsert f \<longleftrightarrow> fi_created f < fi_updated f"

definition UpsertThumbnailTxOnly :: "int \<Rightarrow> string \<Rightarrow> int db" where
  "UpsertThumbnailTxOnly file thumb =
     andThen (UpsertThumbnailReturningID file ''m'') (\<lambda>i.
       andThen (UpsertThumbnailBlob i thumb) (\<lambda>_. returnDb i))"

definition has_thumb :: "file_input \<Rightarrow> bool" where
  "has_thumb f \<longleftrightarrow> fw_thumb f \<noteq> None \<and> fw_thumb f \<noteq> Some []"

text \<open>Errors of the invalid entry, of EXIF, of the checks and of the tiles are logged only.\<close>

definition needs_thumbnail :: "file_input \<Rightarrow> file_rec \<Rightarrow> bool db" where
  "needs_thumbnail f row =
     (if fw_exists f \<or> fileExistedBeforeUpsert row
      then andThen (tryDb (GetThumbnailExistsViewByID (fi_id row))) (\<lambda>r.
        returnDb (case r of Inr b \<Rightarrow> \<not> b | Inl _ \<Rightarrow> True))
      else returnDb True)"

definition tile_directory :: "importer \<Rightarrow> string \<Rightarrow> bool \<Rightarrow> file_rec \<Rightarrow> importer db" where
  "tile_directory imp dir wanted row =
     (if IsDirTiled imp dir then returnDb imp
      else andThen (tryDb (GetFolderTileExistsViewByPath dir)) (\<lambda>r.
        if wanted \<and> (case r of Inr b \<Rightarrow> \<not> b | Inl _ \<Rightarrow> True) then
          andThen (tryDb (UpdateFolderTileChain (case fi_folder row of None \<Rightarrow> 0 | Some i \<Rightarrow> i) (fi_id row))) (\<lambda>t.
            returnDb (case t of Inl _ \<Rightarrow> imp | Inr _ \<Rightarrow> MarkDirTiled dir imp))
        else returnDb imp))"

definition WriteFileInTx :: "(string \<Rightarrow> int option) \<Rightarrow> int \<Rightarrow> file_input \<Rightarrow> importer \<Rightarrow> importer db" where
  "WriteFileInTx stat now f imp =
     andThen (UpsertPathChain stat now (fw_path f) (fw_meta f) imp) (\<lambda>(imp1, row).
       andThen (tryDb (DeleteInvalidFileByPath (fw_path f))) (\<lambda>_.
         andThen (tryDb (case fw_camera f of None \<Rightarrow> returnDb () | Some c \<Rightarrow> UpsertExif (fi_id row) c)) (\<lambda>_.
           andThen (needs_thumbnail f row) (\<lambda>needs.
             andThen (if needs \<and> has_thumb f then andThen (UpsertThumbnailTxOnly (fi_id row) (the (fw_thumb f))) (\<lambda>_. returnDb ())
                      else returnDb ()) (\<lambda>_.
               tile_directory imp1 (Dir (fw_path f)) (needs \<and> has_thumb f) row)))))"

text \<open>The file writes of a batch, with one importer; \<^term>\<open>now\<close> is the time of each file.\<close>

fun write_files :: "(string \<Rightarrow> int option) \<Rightarrow> (int \<times> file_input) list \<Rightarrow> importer \<Rightarrow> importer db" where
  "write_files stat [] imp = returnDb imp"
| "write_files stat ((now, f) # fs) imp =
     andThen (WriteFileInTx stat now f imp) (\<lambda>imp'. write_files stat fs imp')"

text \<open>The transaction of a flush: its changes are kept only when it succeeds. The queue of outcomes
  moves on in any case.\<close>

definition flush_files :: "(string \<Rightarrow> int option) \<Rightarrow> (int \<times> file_input) list \<Rightarrow> gallery \<Rightarrow> db_error option \<times> gallery" where
  "flush_files stat fs g =
     (case write_files stat fs newImporter g of
        (Inl e, g') \<Rightarrow> (Some e, g\<lparr>faults := faults g'\<rparr>)
      | (Inr _, g') \<Rightarrow> (None, g'))"

end
