(* ===== verification/Importer_Correct.thy ===== *)
theory Importer_Correct
  imports Importer
begin

text \<open>
  The folder tree is kept: whatever is imported and whichever statements fail, every folder and file
  stays below the folder of the directory of its path, and the folder cache of a batch agrees with
  the tables. Then what an import stores, and what it does not: thumbnails of changed files, and
  batches that hold a new file twice.
\<close>

section \<open>Growth of the tree\<close>

definition grows :: "gallery \<Rightarrow> gallery \<Rightarrow> bool" where
  "grows g g' \<longleftrightarrow> (\<forall>p i. is_folder g p i \<longrightarrow> is_folder g' p i) \<and> set (file_paths g) \<subseteq> set (file_paths g')"

lemma grows_refl [simp]: "grows g g" by (simp add: grows_def)

lemma grows_trans: "grows g g' \<Longrightarrow> grows g' g'' \<Longrightarrow> grows g g''"
  unfolding grows_def by blast

lemma grows_faults [simp]: "grows g (g'\<lparr>faults := fs\<rparr>) = grows g g'" "grows (g\<lparr>faults := fs\<rparr>) g' = grows g g'"
  by (simp_all add: grows_def is_folder_def)

lemma tree_faults [simp]: "tree_ok (g\<lparr>faults := fs\<rparr>) = tree_ok g"
  using tree_same [of g "g\<lparr>faults := fs\<rparr>"] tree_same [of "g\<lparr>faults := fs\<rparr>" g] by auto

lemma is_folder_faults [simp]: "is_folder (g\<lparr>faults := fs\<rparr>) p i = is_folder g p i"
  by (simp add: is_folder_def)

lemma same_grows: "same_tree g g' \<Longrightarrow> grows g g'"
  by (simp add: grows_def is_folder_same) (simp add: same_tree_def)

lemma folder_ok_grows: "folder_ok g f p \<Longrightarrow> grows g g' \<Longrightarrow> folder_ok g' f p"
  by (auto simp: folder_ok_def grows_def split: if_splits)

lemma file_ok_grows: "file_ok g x p \<Longrightarrow> grows g g' \<Longrightarrow> file_ok g' x p"
  by (auto simp: file_ok_def grows_def)

lemma tree_okI:
  assumes "keys_ok g" "\<And>f p. f \<in> set (folders g) \<Longrightarrow> (fo_path f, p) \<in> set (folder_paths g) \<Longrightarrow> folder_ok g f p"
    "\<And>x p. x \<in> set (files g) \<Longrightarrow> (fi_path x, p) \<in> set (file_paths g) \<Longrightarrow> file_ok g x p"
  shows "tree_ok g"
  using assms unfolding tree_ok_def by blast

lemma append_folder_path:
  assumes t: "tree_ok g" and k: "k \<notin> fst ` set (folder_paths g)" "p \<notin> snd ` set (folder_paths g)"
  shows "tree_ok (g\<lparr>folder_paths := folder_paths g @ [(k, p)]\<rparr>)"
    and "is_folder (g\<lparr>folder_paths := folder_paths g @ [(k, p)]\<rparr>) q i = is_folder g q i"
proof -
  let ?g = "g\<lparr>folder_paths := folder_paths g @ [(k, p)]\<rparr>"
  note K = tree_keys [OF t]
  have sub: "fo_path f \<noteq> k" if "f \<in> set (folders g)" for f
    using K k that by (auto simp: keys_ok_def)
  show fol: "is_folder ?g q i = is_folder g q i" for q i
    using sub by (auto simp: is_folder_def)
  then have gr: "grows g ?g" by (simp add: grows_def)
  show "tree_ok ?g"
  proof (rule tree_okI)
    show "keys_ok ?g" using K k by (auto simp: keys_ok_def)
    show "folder_ok ?g f q" if "f \<in> set (folders ?g)" "(fo_path f, q) \<in> set (folder_paths ?g)" for f q
      using that sub folder_ok_grows [OF _ gr] tree_folderD [OF t] by auto
    show "file_ok ?g x q" if "x \<in> set (files ?g)" "(fi_path x, q) \<in> set (file_paths ?g)" for x q
      using that file_ok_grows [OF _ gr] tree_fileD [OF t] by auto
  qed
qed

lemma append_file_path:
  assumes t: "tree_ok g" and k: "k \<notin> fst ` set (file_paths g)" "p \<notin> snd ` set (file_paths g)"
  shows "tree_ok (g\<lparr>file_paths := file_paths g @ [(k, p)]\<rparr>)"
    and "is_folder (g\<lparr>file_paths := file_paths g @ [(k, p)]\<rparr>) q i = is_folder g q i"
proof -
  let ?g = "g\<lparr>file_paths := file_paths g @ [(k, p)]\<rparr>"
  note K = tree_keys [OF t]
  have sub: "fi_path x \<noteq> k" if "x \<in> set (files g)" for x
    using K k that by (auto simp: keys_ok_def)
  show fol: "is_folder ?g q i = is_folder g q i" for q i
    by (simp add: is_folder_def)
  then have gr: "grows g ?g" by (auto simp: grows_def)
  show "tree_ok ?g"
  proof (rule tree_okI)
    show "keys_ok ?g" using K k by (auto simp: keys_ok_def)
    show "folder_ok ?g f q" if "f \<in> set (folders ?g)" "(fo_path f, q) \<in> set (folder_paths ?g)" for f q
      using that folder_ok_grows [OF _ gr] tree_folderD [OF t] by auto
    show "file_ok ?g x q" if "x \<in> set (files ?g)" "(fi_path x, q) \<in> set (file_paths ?g)" for x q
      using that sub file_ok_grows [OF _ gr] tree_fileD [OF t] by auto
  qed
qed

lemma insert_folder:
  assumes t: "tree_ok g" and f: "(fo_path f, p) \<in> set (folder_paths g)" "fo_path f \<notin> fo_path ` set (folders g)"
    "fo_id f \<notin> fo_id ` set (folders g)" "folder_ok g f p"
  shows "tree_ok (g\<lparr>folders := folders g @ [f]\<rparr>)" "grows g (g\<lparr>folders := folders g @ [f]\<rparr>)"
    "is_folder (g\<lparr>folders := folders g @ [f]\<rparr>) p (fo_id f)"
proof -
  let ?g = "g\<lparr>folders := folders g @ [f]\<rparr>"
  note K = tree_keys [OF t]
  show gr: "grows g ?g" by (auto simp: grows_def is_folder_def)
  show "is_folder ?g p (fo_id f)" using f(1) by (auto simp: is_folder_def)
  have uni: "q = p" if "(fo_path f, q) \<in> set (folder_paths g)" for q
    using that f(1) K by (auto simp: keys_ok_def dest: eq_key_imp_eq_value)
  show "tree_ok ?g"
  proof (rule tree_okI)
    show "keys_ok ?g" using K f by (auto simp: keys_ok_def rev_image_eqI)
    show "folder_ok ?g h q" if "h \<in> set (folders ?g)" "(fo_path h, q) \<in> set (folder_paths ?g)" for h q
      using that uni f(4) folder_ok_grows [OF _ gr] tree_folderD [OF t] by auto
    show "file_ok ?g x q" if "x \<in> set (files ?g)" "(fi_path x, q) \<in> set (file_paths ?g)" for x q
      using that file_ok_grows [OF _ gr] tree_fileD [OF t] by auto
  qed
qed

lemma insert_file:
  assumes t: "tree_ok g" and x: "(fi_path x, p) \<in> set (file_paths g)" "fi_path x \<notin> fi_path ` set (files g)"
    "fi_id x \<notin> fi_id ` set (files g)" "file_ok g x p"
  shows "tree_ok (g\<lparr>files := files g @ [x]\<rparr>)"
proof -
  let ?g = "g\<lparr>files := files g @ [x]\<rparr>"
  note K = tree_keys [OF t]
  have gr: "grows g ?g" by (auto simp: grows_def is_folder_def)
  have uni: "q = p" if "(fi_path x, q) \<in> set (file_paths g)" for q
    using that x(1) K by (auto simp: keys_ok_def dest: eq_key_imp_eq_value)
  show "tree_ok ?g"
  proof (rule tree_okI)
    show "keys_ok ?g" using K x by (auto simp: keys_ok_def rev_image_eqI)
    show "folder_ok ?g h q" if "h \<in> set (folders ?g)" "(fo_path h, q) \<in> set (folder_paths ?g)" for h q
      using that folder_ok_grows [OF _ gr] tree_folderD [OF t] by auto
    show "file_ok ?g y q" if "y \<in> set (files ?g)" "(fi_path y, q) \<in> set (file_paths ?g)" for y q
      using that uni x(4) file_ok_grows [OF _ gr] tree_fileD [OF t] by auto
  qed
qed

lemma update_file:
  assumes t: "tree_ok g" and x: "x \<in> set (files g)" "(fi_path x, p) \<in> set (file_paths g)"
    "fi_id x' = fi_id x" "fi_path x' = fi_path x" "fi_folder x' = fi_folder x" "fi_name x' = Base p"
  shows "tree_ok (g\<lparr>files := map (\<lambda>y. if fi_path y = fi_path x then x' else y) (files g)\<rparr>)"
proof -
  let ?h = "\<lambda>y. if fi_path y = fi_path x then x' else y"
  let ?g = "g\<lparr>files := map ?h (files g)\<rparr>"
  note K = tree_keys [OF t]
  have one: "y = x" if "y \<in> set (files g)" "fi_path y = fi_path x" for y
    using that x(1) K unfolding keys_ok_def by (metis distinct_map inj_onD)
  have ids: "map fi_id (map ?h (files g)) = map fi_id (files g)" "map fi_path (map ?h (files g)) = map fi_path (files g)"
    using one x by auto
  have gr: "grows g ?g" by (auto simp: grows_def is_folder_def)
  have uni: "q = p" if "(fi_path x, q) \<in> set (file_paths g)" for q
    using that x(2) K by (auto simp: keys_ok_def dest: eq_key_imp_eq_value)
  have new: "file_ok ?g x' p" using tree_fileD [OF t x(1,2)] gr x by (auto simp: file_ok_def grows_def)
  show ?thesis
  proof (rule tree_okI)
    have f: "files ?g = map ?h (files g)" by simp
    have "fi_path ` set (files ?g) = fi_path ` set (files g)"
      using arg_cong [OF ids(2), of set] unfolding f by (simp only: set_map)
    moreover have "map fi_id (files ?g) = map fi_id (files g)" "map fi_path (files ?g) = map fi_path (files g)"
      using ids unfolding f by blast+
    moreover have "folders ?g = folders g" "folder_paths ?g = folder_paths g" "file_paths ?g = file_paths g"
      by simp_all
    ultimately show "keys_ok ?g" using K unfolding keys_ok_def by metis
    show "folder_ok ?g f q" if "f \<in> set (folders ?g)" "(fo_path f, q) \<in> set (folder_paths ?g)" for f q
      using that folder_ok_grows [OF _ gr] tree_folderD [OF t] by auto
    fix y q
    assume y: "y \<in> set (files ?g)" "(fi_path y, q) \<in> set (file_paths ?g)"
    then obtain z where z: "z \<in> set (files g)" "y = ?h z" by auto
    show "file_ok ?g y q"
    proof (cases "fi_path z = fi_path x")
      case True
      then show ?thesis using z y(2) x(4) new uni by simp
    next
      case False
      then show ?thesis using z y(2) file_ok_grows [OF tree_fileD [OF t z(1)] gr] by simp
    qed
  qed
qed


section \<open>Rules\<close>

text \<open>\<^term>\<open>ens P m Q\<close>: run in a well-formed tree in which \<^term>\<open>P\<close> holds, \<^term>\<open>m\<close> keeps the tree, also
  when it fails, and establishes \<^term>\<open>Q\<close> when it succeeds.\<close>

definition ens :: "(gallery \<Rightarrow> bool) \<Rightarrow> 'a db \<Rightarrow> ('a \<Rightarrow> gallery \<Rightarrow> bool) \<Rightarrow> bool" where
  "ens P m Q \<longleftrightarrow> (\<forall>g r g'. tree_ok g \<longrightarrow> P g \<longrightarrow> m g = (r, g') \<longrightarrow>
     tree_ok g' \<and> grows g g' \<and> (case r of Inl e \<Rightarrow> True | Inr x \<Rightarrow> Q x g'))"

lemma ensI:
  assumes "\<And>g r g'. tree_ok g \<Longrightarrow> P g \<Longrightarrow> m g = (r, g') \<Longrightarrow>
    tree_ok g' \<and> grows g g' \<and> (case r of Inl e \<Rightarrow> True | Inr x \<Rightarrow> Q x g')"
  shows "ens P m Q"
  using assms unfolding ens_def by blast

lemma ensD:
  "ens P m Q \<Longrightarrow> tree_ok g \<Longrightarrow> P g \<Longrightarrow> m g = (r, g') \<Longrightarrow>
    tree_ok g' \<and> grows g g' \<and> (case r of Inl e \<Rightarrow> True | Inr x \<Rightarrow> Q x g')"
  unfolding ens_def by blast

lemma ens_then:
  assumes "ens P m R" "\<And>x. ens (R x) (k x) Q"
  shows "ens P (andThen m k) Q"
proof (rule ensI)
  fix g r g'
  assume g: "tree_ok g" "P g" "andThen m k g = (r, g')"
  obtain r1 g1 where m: "m g = (r1, g1)" by force
  have 1: "tree_ok g1" "grows g g1" "case r1 of Inl e \<Rightarrow> True | Inr x \<Rightarrow> R x g1"
    using ensD [OF assms(1) g(1,2) m] by simp_all
  show "tree_ok g' \<and> grows g g' \<and> (case r of Inl e \<Rightarrow> True | Inr x \<Rightarrow> Q x g')"
  proof (cases r1)
    case (Inl e)
    then show ?thesis using 1 g(3) m by (auto simp: andThen_def)
  next
    case (Inr x)
    then have "k x g1 = (r, g')" "R x g1" using g(3) m 1(3) by (simp_all add: andThen_def)
    from ensD [OF assms(2) 1(1) this(2,1)] show ?thesis using grows_trans [OF 1(2)] by simp
  qed
qed

lemma ens_return: "(\<And>g. tree_ok g \<Longrightarrow> P g \<Longrightarrow> Q x g) \<Longrightarrow> ens P (returnDb x) Q"
  by (rule ensI) (auto simp: returnDb_def)

lemma ens_fail: "ens P (failDb e) Q"
  by (rule ensI) (auto simp: failDb_def)

lemma ens_conseq:
  "ens P m Q \<Longrightarrow> (\<And>g. tree_ok g \<Longrightarrow> P' g \<Longrightarrow> P g) \<Longrightarrow> (\<And>x g. tree_ok g \<Longrightarrow> Q x g \<Longrightarrow> Q' x g) \<Longrightarrow> ens P' m Q'"
  unfolding ens_def by (fastforce split: sum.splits)

lemma ens_frame:
  assumes "ens P m Q" "\<And>g g'. R g \<Longrightarrow> grows g g' \<Longrightarrow> R g'"
  shows "ens (\<lambda>g. P g \<and> R g) m (\<lambda>x g. Q x g \<and> R g)"
  using assms unfolding ens_def by (fastforce split: sum.splits)

lemma ens_try:
  "ens P m Q \<Longrightarrow> ens P (tryDb m) (\<lambda>r g. case r of Inl e \<Rightarrow> True | Inr x \<Rightarrow> Q x g)"
  unfolding ens_def tryDb_def by (auto split: prod.splits)

lemma ens_untry:
  assumes "ens P (tryDb m) Q" "\<And>x g. tree_ok g \<Longrightarrow> Q (Inr x) g \<Longrightarrow> R x g"
  shows "ens P m R"
proof (rule ensI)
  fix g r g'
  assume g: "tree_ok g" "P g" "m g = (r, g')"
  then have "tryDb m g = (Inr r, g')" by (simp add: tryDb_def)
  from ensD [OF assms(1) g(1,2) this]
  show "tree_ok g' \<and> grows g g' \<and> (case r of Inl e \<Rightarrow> True | Inr x \<Rightarrow> R x g')"
    using assms(2) by (cases r) auto
qed

lemma ens_same:
  "(\<And>g r g'. m g = (r, g') \<Longrightarrow> same_tree g g') \<Longrightarrow> ens P m (\<lambda>x g. True)"
  by (rule ensI) (auto dest: tree_same same_grows split: sum.split)

lemma ens_stmt:
  assumes "\<And>g r g'. tree_ok g \<Longrightarrow> P g \<Longrightarrow> f g = (r, g') \<Longrightarrow>
      tree_ok g' \<and> grows g g' \<and> (case r of Inl e \<Rightarrow> True | Inr x \<Rightarrow> Q x g')"
    and "\<And>g fs. P (g\<lparr>faults := fs\<rparr>) = P g"
  shows "ens P (stmt f) Q"
proof (rule ensI)
  fix g r g'
  assume g: "tree_ok g" "P g" "stmt f g = (r, g')"
  consider fs where "stmt f g = (Inl Failure, g\<lparr>faults := fs\<rparr>)" | fs where "stmt f g = f (g\<lparr>faults := fs\<rparr>)"
    by (rule stmt_cases)
  then show "tree_ok g' \<and> grows g g' \<and> (case r of Inl e \<Rightarrow> True | Inr x \<Rightarrow> Q x g')"
  proof cases
    case (1 fs)
    then have "r = Inl Failure" "g' = g\<lparr>faults := fs\<rparr>" using g(3) by simp_all
    then show ?thesis using g(1) by simp
  next
    case (2 fs)
    then show ?thesis using assms(1) [of "g\<lparr>faults := fs\<rparr>" r g'] g assms(2) by simp
  qed
qed

section \<open>The statements\<close>

lemma folder_at_iff:
  assumes "keys_ok g"
  shows "folder_at g p = Some f \<longleftrightarrow> f \<in> set (folders g) \<and> (fo_path f, p) \<in> set (folder_paths g)"
proof -
  have d: "distinct (map snd (folder_paths g))" "distinct (map fst (folder_paths g))" "distinct (map fo_path (folders g))"
    using assms by (simp_all add: keys_ok_def)
  show ?thesis
  proof
    assume "folder_at g p = Some f"
    then obtain k where k: "id_of_path (folder_paths g) p = Some k" "List.find (\<lambda>f. fo_path f = k) (folders g) = Some f"
      by (auto simp: folder_at_def split: option.splits)
    then show "f \<in> set (folders g) \<and> (fo_path f, p) \<in> set (folder_paths g)"
      using id_of_path_iff [OF d(1)] find_SomeD [OF k(2)] by simp
  next
    assume f: "f \<in> set (folders g) \<and> (fo_path f, p) \<in> set (folder_paths g)"
    then have "id_of_path (folder_paths g) p = Some (fo_path f)" using id_of_path_iff [OF d(1)] by simp
    moreover have "List.find (\<lambda>h. fo_path h = fo_path f) (folders g) = Some f"
      using find_unique [OF d(3)] f by blast
    ultimately show "folder_at g p = Some f" by (simp add: folder_at_def)
  qed
qed

lemma folder_at_faults [simp]: "folder_at (g\<lparr>faults := fs\<rparr>) p = folder_at g p"
  by (simp add: folder_at_def split: option.split)

lemma ens_query:
  assumes "\<And>g. tree_ok g \<Longrightarrow> Q (h g) g" "\<And>g. Q (Inl Failure) g"
  shows "ens P (tryDb (stmt (\<lambda>g. (h g, g)))) Q"
proof (rule ensI)
  fix g r g'
  assume g: "tree_ok g" "tryDb (stmt (\<lambda>g. (h g, g))) g = (r, g')"
  consider fs where "stmt (\<lambda>g. (h g, g)) g = (Inl Failure, g\<lparr>faults := fs\<rparr>)"
    | fs where "stmt (\<lambda>g. (h g, g)) g = (h (g\<lparr>faults := fs\<rparr>), g\<lparr>faults := fs\<rparr>)"
    by (rule stmt_cases [of "\<lambda>g. (h g, g)" g])
  then show "tree_ok g' \<and> grows g g' \<and> (case r of Inl e \<Rightarrow> True | Inr x \<Rightarrow> Q x g')"
  proof cases
    case (1 fs)
    then have "r = Inr (Inl Failure)" "g' = g\<lparr>faults := fs\<rparr>" using g(2) by (simp_all add: tryDb_def)
    then show ?thesis using g(1) assms(2) by simp
  next
    case (2 fs)
    have "r = Inr (h (g\<lparr>faults := fs\<rparr>))" "g' = g\<lparr>faults := fs\<rparr>" using g(2) unfolding tryDb_def 2 by auto
    then show ?thesis using g(1) assms(1) [of "g\<lparr>faults := fs\<rparr>"] by simp
  qed
qed

definition folder_answer :: "string \<Rightarrow> db_error + int \<Rightarrow> gallery \<Rightarrow> bool" where
  "folder_answer p r g \<longleftrightarrow> (case r of Inr i \<Rightarrow> is_folder g p i | Inl e \<Rightarrow> e = NoRows \<longrightarrow> folder_at g p = None)"

lemma ens_GetFolder:
  "ens P (tryDb (GetFolderByPath p)) (\<lambda>r g. folder_answer p (map_sum id fo_id r) g)"
  "ens P (tryDb (GetFolderIDByPath p)) (folder_answer p)"
proof -
  have a: "is_folder g p (fo_id f)" if "tree_ok g" "folder_at g p = Some f" for g f
    using folder_at_iff [OF tree_keys [OF that(1)]] that(2) by (auto simp: is_folder_def)
  show "ens P (tryDb (GetFolderByPath p)) (\<lambda>r g. folder_answer p (map_sum id fo_id r) g)"
    unfolding GetFolderByPath_def
    by (rule ens_query) (auto simp: folder_answer_def found_def a split: option.split)
  show "ens P (tryDb (GetFolderIDByPath p)) (folder_answer p)"
    unfolding GetFolderIDByPath_def
    by (rule ens_query) (auto simp: folder_answer_def found_def a split: option.split)
qed

lemma ens_UpsertFilePath: "ens P (UpsertFilePathReturningID p) (\<lambda>i g. (i, p) \<in> set (file_paths g))"
  unfolding UpsertFilePathReturningID_def
proof (rule ens_conseq [where P = "\<lambda>g. True", OF ens_stmt])
  fix g r g'
  assume t: "tree_ok g" and r: "(case id_of_path (file_paths g) p of Some i \<Rightarrow> (Inr i, g)
     | None \<Rightarrow> (let i = next_id (map fst (file_paths g)) in (Inr i, g\<lparr>file_paths := file_paths g @ [(i, p)]\<rparr>))) = (r, g')"
  have d: "distinct (map snd (file_paths g))" using tree_keys [OF t] by (simp add: keys_ok_def)
  show "tree_ok g' \<and> grows g g' \<and> (case r of Inl e \<Rightarrow> True | Inr i \<Rightarrow> (i, p) \<in> set (file_paths g'))"
  proof (cases "id_of_path (file_paths g) p")
    case None
    then have n: "p \<notin> snd ` set (file_paths g)" "next_id (map fst (file_paths g)) \<notin> fst ` set (file_paths g)"
      using next_id_fresh [of "map fst (file_paths g)"] by (simp_all add: id_of_path_None)
    show ?thesis using r None append_file_path [OF t n(2,1)] by (auto simp: Let_def grows_def)
  next
    case (Some i)
    then have "(i, p) \<in> set (file_paths g)" using id_of_path_iff [OF d] by simp
    then show ?thesis using r t unfolding Some by auto
  qed
qed simp_all

definition free_path :: "gallery \<Rightarrow> string \<Rightarrow> int \<Rightarrow> bool" where
  "free_path g p k \<longleftrightarrow> (k, p) \<in> set (folder_paths g) \<and> k \<notin> fo_path ` set (folders g)"

lemma ens_UpsertFolderPath:
  "ens (\<lambda>g. folder_at g p = None) (UpsertFolderPathReturningID p) (\<lambda>k g. free_path g p k)"
  unfolding UpsertFolderPathReturningID_def
proof (rule ens_stmt)
  fix g r g'
  assume t: "tree_ok g" and f: "folder_at g p = None" and r: "(case id_of_path (folder_paths g) p of Some i \<Rightarrow> (Inr i, g)
     | None \<Rightarrow> (let i = next_id (map fst (folder_paths g)) in (Inr i, g\<lparr>folder_paths := folder_paths g @ [(i, p)]\<rparr>))) = (r, g')"
  have K: "keys_ok g" by (rule tree_keys [OF t])
  have d: "distinct (map snd (folder_paths g))" using K by (simp add: keys_ok_def)
  have none: "fo_path h \<noteq> k" if "(k, p) \<in> set (folder_paths g)" "h \<in> set (folders g)" for h k
    using folder_at_iff [OF K, of p h] that f by auto
  show "tree_ok g' \<and> grows g g' \<and> (case r of Inl e \<Rightarrow> True | Inr k \<Rightarrow> free_path g' p k)"
  proof (cases "id_of_path (folder_paths g) p")
    case None
    let ?k = "next_id (map fst (folder_paths g))"
    have n: "p \<notin> snd ` set (folder_paths g)" "?k \<notin> fst ` set (folder_paths g)"
      using None next_id_fresh [of "map fst (folder_paths g)"] by (simp_all add: id_of_path_None)
    have "?k \<notin> fo_path ` set (folders g)" using n(2) K by (auto simp: keys_ok_def)
    then show ?thesis using r None append_folder_path [OF t n(2,1)] by (auto simp: Let_def grows_def free_path_def)
  next
    case (Some i)
    then have m: "(i, p) \<in> set (folder_paths g)" using id_of_path_iff [OF d] by simp
    then have "i \<notin> fo_path ` set (folders g)" using none by blast
    then show ?thesis using r t m unfolding Some by (auto simp: free_path_def)
  qed
qed simp

lemma ens_UpsertFolder:
  "ens (\<lambda>g. free_path g p k \<and> (if p = [] then parent = None
        else name = Base p \<and> (\<exists>i. parent = Some i \<and> is_folder g (parent_path p) i)))
     (UpsertFolderReturningFolder parent k name t) (\<lambda>f g. is_folder g p (fo_id f))"
  unfolding UpsertFolderReturningFolder_def
proof (rule ens_stmt)
  fix g r g'
  assume t: "tree_ok g" and P: "free_path g p k \<and> (if p = [] then parent = None
        else name = Base p \<and> (\<exists>i. parent = Some i \<and> is_folder g (parent_path p) i))"
    and r: "(if (case parent of None \<Rightarrow> False | Some i \<Rightarrow> \<not> has_folder g i) \<or> k \<notin> fst ` set (folder_paths g)
     then (Inl (Constraint ''FOREIGN KEY''), g)
     else case List.find (\<lambda>f. fo_path f = k) (folders g) of
         Some f \<Rightarrow>
           (let f' = f\<lparr>fo_parent := parent, fo_name := name, fo_mtime := t, fo_tile := None\<rparr>
            in (Inr f', g\<lparr>folders := map (\<lambda>x. if fo_path x = k then f' else x) (folders g)\<rparr>))
       | None \<Rightarrow>
           (let f = \<lparr>fo_id = next_id (map fo_id (folders g)), fo_parent = parent, fo_path = k,
              fo_name = name, fo_mtime = t, fo_tile = None\<rparr>
            in (Inr f, g\<lparr>folders := folders g @ [f]\<rparr>))) = (r, g')"
  let ?f = "\<lparr>fo_id = next_id (map fo_id (folders g)), fo_parent = parent, fo_path = k,
              fo_name = name, fo_mtime = t, fo_tile = None\<rparr>"
  have none: "List.find (\<lambda>f. fo_path f = k) (folders g) = None"
    using P by (auto simp: free_path_def find_NoneI)
  have h: "(fo_path ?f, p) \<in> set (folder_paths g)" "fo_path ?f \<notin> fo_path ` set (folders g)"
    "fo_id ?f \<notin> fo_id ` set (folders g)" "folder_ok g ?f p"
    using P next_id_fresh [of "map fo_id (folders g)"] by (simp_all add: free_path_def folder_ok_def)
  note ins = insert_folder [OF t h]
  show "tree_ok g' \<and> grows g g' \<and> (case r of Inl e \<Rightarrow> True | Inr f \<Rightarrow> is_folder g' p (fo_id f))"
    using r t ins unfolding none by (auto simp: Let_def split: if_splits)
qed (simp add: free_path_def)


text \<open>The file of a path that was just stored.\<close>

definition stored :: "gallery \<Rightarrow> string \<Rightarrow> meta \<Rightarrow> file_rec \<Rightarrow> bool" where
  "stored g p m x \<longleftrightarrow> x \<in> set (files g) \<and> (fi_path x, p) \<in> set (file_paths g) \<and> fi_meta x = m"

lemma ens_UpsertFile:
  "ens (\<lambda>g. (k, p) \<in> set (file_paths g) \<and> is_folder g (parent_path p) folder)
     (UpsertFileReturningFile folder k (Base p) m now) (\<lambda>x g. stored g p m x)"
  unfolding UpsertFileReturningFile_def
proof (rule ens_stmt)
  fix g r g'
  assume t: "tree_ok g" and P: "(k, p) \<in> set (file_paths g) \<and> is_folder g (parent_path p) folder"
    and r: "(if \<not> has_folder g folder \<or> k \<notin> fst ` set (file_paths g) then (Inl (Constraint ''FOREIGN KEY''), g)
     else case List.find (\<lambda>f. fi_path f = k) (files g) of
         Some f \<Rightarrow>
           (let f' = f\<lparr>fi_name := Base p, fi_meta := m, fi_updated := now\<rparr>
            in (Inr f', g\<lparr>files := map (\<lambda>x. if fi_path x = k then f' else x) (files g)\<rparr>))
       | None \<Rightarrow>
           (let f = \<lparr>fi_id = next_id (map fi_id (files g)), fi_folder = Some folder, fi_path = k,
              fi_name = Base p, fi_meta = m, fi_created = now, fi_updated = now\<rparr>
            in (Inr f, g\<lparr>files := files g @ [f]\<rparr>))) = (r, g')"
  show "tree_ok g' \<and> grows g g' \<and> (case r of Inl e \<Rightarrow> True | Inr x \<Rightarrow> stored g' p m x)"
  proof (cases "\<not> has_folder g folder \<or> k \<notin> fst ` set (file_paths g)")
    case True
    then have "r = Inl (Constraint ''FOREIGN KEY'') \<and> g' = g" using r by (simp split: if_splits)
    then show ?thesis using t by simp
  next
    case False
    show ?thesis
    proof (cases "List.find (\<lambda>f. fi_path f = k) (files g)")
      case None
      let ?f = "\<lparr>fi_id = next_id (map fi_id (files g)), fi_folder = Some folder, fi_path = k,
              fi_name = Base p, fi_meta = m, fi_created = now, fi_updated = now\<rparr>"
      have h: "(fi_path ?f, p) \<in> set (file_paths g)" "fi_path ?f \<notin> fi_path ` set (files g)"
        "fi_id ?f \<notin> fi_id ` set (files g)" "file_ok g ?f p"
        using P None next_id_fresh [of "map fi_id (files g)"] by (auto simp: find_NoneI file_ok_def)
      have "r = Inr ?f" "g' = g\<lparr>files := files g @ [?f]\<rparr>" using r False unfolding None by (auto simp: Let_def)
      then show ?thesis using insert_file [OF t h] P by (simp add: stored_def grows_def is_folder_def)
    next
      case (Some f)
      let ?f = "f\<lparr>fi_name := Base p, fi_meta := m, fi_updated := now\<rparr>"
      have f: "f \<in> set (files g)" "fi_path f = k" using find_SomeD [OF Some] by simp_all
      have "r = Inr ?f" "g' = g\<lparr>files := map (\<lambda>x. if fi_path x = k then ?f else x) (files g)\<rparr>"
        using r False unfolding Some by (auto simp: Let_def)
      then show ?thesis using update_file [OF t f(1), of p ?f] P f
        by (force simp: stored_def grows_def is_folder_def)
    qed
  qed
qed (simp add: is_folder_def)

section \<open>The folder cache and the chain of folders\<close>

definition cache_ok :: "importer \<Rightarrow> gallery \<Rightarrow> bool" where
  "cache_ok imp g \<longleftrightarrow> (\<forall>p i. folderCache imp p = Some i \<longrightarrow> is_folder g p i)"

lemma cache_grows: "cache_ok imp g \<Longrightarrow> grows g g' \<Longrightarrow> cache_ok imp g'"
  by (simp add: cache_ok_def grows_def)

lemma cache_add: "cache_ok imp g \<Longrightarrow> is_folder g p i \<Longrightarrow> cache_ok (imp\<lparr>folderCache := (folderCache imp)(p \<mapsto> i)\<rparr>) g"
  by (simp add: cache_ok_def)

lemma folder_grows: "is_folder g p i \<Longrightarrow> grows g g' \<Longrightarrow> is_folder g' p i"
  by (simp add: grows_def)

lemma ens_CreateRoot: "ens P (CreateRootFolderEntry t) (\<lambda>i g. is_folder g [] i)"
  unfolding CreateRootFolderEntry_def
proof (rule ens_then [OF ens_GetFolder(2)])
  fix r
  show "ens (folder_answer [] r) (case r of Inr i \<Rightarrow> returnDb i
       | Inl e \<Rightarrow> if e \<noteq> NoRows then failDb e
           else andThen (UpsertFolderPathReturningID []) (\<lambda>pathID.
             andThen (UpsertFolderReturningFolder None pathID ''Gallery'' t) (\<lambda>root.
               if fo_id root = 0 then GetFolderIDByPath [] else returnDb (fo_id root))))
       (\<lambda>i g. is_folder g [] i)"
  proof (cases r)
    case (Inr i)
    show ?thesis unfolding Inr sum.case by (rule ens_return) (simp add: folder_answer_def)
  next
    case (Inl e)
    show ?thesis
    proof (cases "e = NoRows")
      case True
      have last: "ens (\<lambda>g. is_folder g [] (fo_id f)) (if fo_id f = 0 then GetFolderIDByPath [] else returnDb (fo_id f))
          (\<lambda>i g. is_folder g [] i)" for f
      proof (cases "fo_id f = 0")
        case True
        have "ens (\<lambda>g. is_folder g [] (fo_id f)) (GetFolderIDByPath []) (\<lambda>i g. is_folder g [] i)"
          by (rule ens_untry [OF ens_GetFolder(2)]) (simp add: folder_answer_def)
        with True show ?thesis by simp
      qed (simp add: ens_return)
      have folder: "ens (\<lambda>g. free_path g [] k) (UpsertFolderReturningFolder None k n t) (\<lambda>f g. is_folder g [] (fo_id f))" for k n
        by (rule ens_conseq [OF ens_UpsertFolder [where p = "[]"]]) simp_all
      have path: "ens (folder_answer [] r) (UpsertFolderPathReturningID []) (\<lambda>k g. free_path g [] k)"
        by (rule ens_conseq [OF ens_UpsertFolderPath]) (simp_all add: Inl True folder_answer_def)
      have "ens (folder_answer [] r) (andThen (UpsertFolderPathReturningID []) (\<lambda>k.
          andThen (UpsertFolderReturningFolder None k ''Gallery'' t) (\<lambda>f.
            if fo_id f = 0 then GetFolderIDByPath [] else returnDb (fo_id f)))) (\<lambda>i g. is_folder g [] i)"
        by (rule ens_then [OF path ens_then [OF folder last]])
      then show ?thesis by (simp add: Inl True)
    qed (simp add: Inl ens_fail)
  qed
qed

lemma ens_root: "ens (cache_ok imp) (root_folder now imp) (\<lambda>(imp', i) g. cache_ok imp' g \<and> is_folder g [] i)"
proof (cases "folderCache imp []")
  case (Some i)
  then show ?thesis unfolding root_folder_def by (auto intro!: ens_return simp: cache_ok_def)
next
  case None
  have s: "cache_ok imp g'" if "cache_ok imp g" "grows g g'" for g g' using that by (rule cache_grows)
  have q: "ens (\<lambda>g. folder_answer [] r g \<and> cache_ok imp g)
      (case r of Inr i \<Rightarrow> returnDb i | Inl e \<Rightarrow> if e = NoRows then CreateRootFolderEntry now else failDb e)
      (\<lambda>i g. is_folder g [] i \<and> cache_ok imp g)" for r
    by (cases r)
      (auto intro!: ens_return ens_fail ens_frame [OF ens_CreateRoot s] simp: folder_answer_def)
  have k: "ens (\<lambda>g. folder_answer [] r g \<and> cache_ok imp g)
      (andThen (case r of Inr i \<Rightarrow> returnDb i | Inl e \<Rightarrow> if e = NoRows then CreateRootFolderEntry now else failDb e)
        (\<lambda>i. returnDb (imp\<lparr>folderCache := (folderCache imp)([] \<mapsto> i)\<rparr>, i)))
      (\<lambda>(imp', i) g. cache_ok imp' g \<and> is_folder g [] i)" for r
    by (rule ens_then [OF q], rule ens_return) (simp add: cache_add)
  have f: "ens (\<lambda>g. True \<and> cache_ok imp g) (tryDb (GetFolderIDByPath [])) (\<lambda>r g. folder_answer [] r g \<and> cache_ok imp g)"
    by (rule ens_frame [OF ens_GetFolder(2) s])
  have f': "ens (cache_ok imp) (tryDb (GetFolderIDByPath [])) (\<lambda>r g. folder_answer [] r g \<and> cache_ok imp g)"
    by (rule ens_conseq [OF f]) auto
  show ?thesis unfolding root_folder_def None option.case by (rule ens_then [OF f' k])
qed

lemma ens_upsert_folder:
  assumes "accum \<noteq> []" "p = Base accum"
  shows "ens (\<lambda>g. is_folder g (parent_path accum) parent \<and> cache_ok imp g) (upsert_folder stat now accum p parent imp)
    (\<lambda>(imp', i) g. cache_ok imp' g \<and> is_folder g accum i)"
proof (cases "folderCache imp accum")
  case (Some i)
  then show ?thesis unfolding upsert_folder_def by (auto intro!: ens_return simp: cache_ok_def)
next
  case None
  let ?K = "\<lambda>g. is_folder g (parent_path accum) parent \<and> cache_ok imp g"
  let ?create = "andThen (UpsertFolderPathReturningID accum) (\<lambda>pathID.
      andThen (UpsertFolderReturningFolder (Some parent) pathID p (case stat accum of None \<Rightarrow> now | Some t \<Rightarrow> t))
        (\<lambda>f. returnDb (imp\<lparr>foldersCreated := foldersCreated imp + 1\<rparr>, fo_id f)))"
  have s: "?K g'" if "?K g" "grows g g'" for g g' using that cache_grows folder_grows by blast
  have s2: "cache_ok imp g'" if "cache_ok imp g" "grows g g'" for g g' using that by (rule cache_grows)
  have q: "ens ?K (tryDb (GetFolderByPath accum)) (\<lambda>r g. folder_answer accum (map_sum id fo_id r) g \<and> ?K g)"
  proof -
    have "ens (\<lambda>g. True \<and> ?K g) (tryDb (GetFolderByPath accum))
        (\<lambda>r g. folder_answer accum (map_sum id fo_id r) g \<and> ?K g)"
      by (rule ens_frame [OF ens_GetFolder(1) s])
    then show ?thesis by simp
  qed
  have path: "ens (\<lambda>g. folder_at g accum = None \<and> ?K g) (UpsertFolderPathReturningID accum) (\<lambda>k g. free_path g accum k \<and> ?K g)"
    by (rule ens_frame [OF ens_UpsertFolderPath s])
  have folder: "ens (\<lambda>g. free_path g accum k \<and> ?K g) (UpsertFolderReturningFolder (Some parent) k p t)
      (\<lambda>f g. is_folder g accum (fo_id f) \<and> cache_ok imp g)" for k t
    by (rule ens_conseq [OF ens_frame [OF ens_UpsertFolder [where p = accum] s2]]) (use assms in \<open>auto\<close>)
  have create: "ens (\<lambda>g. folder_at g accum = None \<and> ?K g) ?create
      (\<lambda>(imp', i) g. folderCache imp' = folderCache imp \<and> cache_ok imp' g \<and> is_folder g accum i)"
    by (rule ens_then [OF path ens_then [OF folder ens_return]]) (simp add: cache_ok_def)
  have body: "ens (\<lambda>g. folder_answer accum (map_sum id fo_id r) g \<and> ?K g)
      (case r of Inr f \<Rightarrow> returnDb (imp, fo_id f) | Inl e \<Rightarrow> if e \<noteq> NoRows then failDb e else ?create)
      (\<lambda>(imp', i) g. folderCache imp' = folderCache imp \<and> cache_ok imp' g \<and> is_folder g accum i)" for r
  proof (cases r)
    case (Inl e)
    show ?thesis
    proof (cases "e = NoRows")
      case True
      have "ens (\<lambda>g. folder_answer accum (map_sum id fo_id r) g \<and> ?K g) ?create
          (\<lambda>(imp', i) g. folderCache imp' = folderCache imp \<and> cache_ok imp' g \<and> is_folder g accum i)"
        by (rule ens_conseq [OF create]) (simp_all add: Inl True folder_answer_def)
      then show ?thesis by (simp add: Inl True)
    qed (simp add: Inl ens_fail)
  next
    case (Inr f)
    show ?thesis unfolding Inr sum.case by (rule ens_return) (simp add: folder_answer_def)
  qed
  have fin: "ens ((\<lambda>(imp', i) g. folderCache imp' = folderCache imp \<and> cache_ok imp' g \<and> is_folder g accum i) x)
      (case x of (imp', i) \<Rightarrow> returnDb (imp'\<lparr>folderCache := (folderCache imp')(accum \<mapsto> i)\<rparr>, i))
      (\<lambda>(imp', i) g. cache_ok imp' g \<and> is_folder g accum i)" for x
    by (cases x) (auto intro!: ens_return simp: cache_ok_def split: if_splits)
  show ?thesis unfolding upsert_folder_def None option.case by (rule ens_then [OF q ens_then [OF body fin]])
qed

lemma extend_join:
  assumes "list_all component (cs @ [p])"
  shows "extend_path (join_slash cs) p = join_slash (cs @ [p])"
proof (cases "cs = []")
  case True
  then show ?thesis by (simp add: extend_path_def)
next
  case False
  have "list_all component cs" using assms by simp
  from join_head [OF this False] have "join_slash cs \<noteq> []" "join_slash cs \<noteq> ''/''" by (auto simp: rooted_def)
  then show ?thesis using False by (simp add: extend_path_def join_snoc)
qed

lemma parent_join:
  assumes "list_all component (cs @ [p])"
  shows "parent_path (join_slash (cs @ [p])) = join_slash cs"
proof (cases "cs = []")
  case True
  then show ?thesis using Dir_join [OF assms] by (simp add: parent_path_def)
next
  case False
  have c: "list_all component cs" using assms by simp
  have "join_slash cs \<noteq> ''.''"
  proof
    assume dot: "join_slash cs = ''.''"
    then have "split_on CHR ''/'' (join_slash cs) = [''.'']" by simp
    then have "cs = [''.'']" using split_join [OF c False] by simp
    then show False using c by (simp add: component_def)
  qed
  then show ?thesis using False Dir_join [OF assms] by (simp add: parent_path_def)
qed

lemma ens_upsert_folders:
  assumes "list_all component (cs @ ps)"
  shows "ens (\<lambda>g. is_folder g (join_slash cs) parent \<and> cache_ok imp g)
    (upsert_folders stat now (join_slash cs) ps parent imp)
    (\<lambda>(imp', i) g. cache_ok imp' g \<and> is_folder g (join_slash (cs @ ps)) i)"
  using assms
proof (induction ps arbitrary: cs parent imp)
  case Nil
  show ?case by (auto intro!: ens_return)
next
  case (Cons p ps)
  have c: "list_all component (cs @ [p])" using Cons.prems by simp
  then have p: "p \<noteq> []" by (simp add: component_def)
  have j: "join_slash (cs @ [p]) \<noteq> []" "Base (join_slash (cs @ [p])) = p"
    using join_head [OF c(1)] Base_join [OF c(1)] by simp_all
  have step: "ens (\<lambda>g. is_folder g (join_slash cs) parent \<and> cache_ok imp g)
      (upsert_folder stat now (join_slash (cs @ [p])) p parent imp)
      (\<lambda>(imp', i) g. cache_ok imp' g \<and> is_folder g (join_slash (cs @ [p])) i)"
    using ens_upsert_folder [OF j(1) j(2) [symmetric], of parent imp] unfolding parent_join [OF c(1)] .
  have rest: "ens ((\<lambda>(imp', i) g. cache_ok imp' g \<and> is_folder g (join_slash (cs @ [p])) i) x)
      (case x of (imp', i) \<Rightarrow> upsert_folders stat now (join_slash (cs @ [p])) ps i imp')
      (\<lambda>(imp', i) g. cache_ok imp' g \<and> is_folder g (join_slash (cs @ p # ps)) i)" for x
  proof (cases x)
    case (Pair imp' i)
    have "list_all component ((cs @ [p]) @ ps)" using Cons.prems by simp
    from Cons.IH [OF this, of i imp'] show ?thesis unfolding Pair
      by (simp add: conj_commute)
  qed
  show ?case using p by (simp add: extend_join [OF c]) (rule ens_then [OF step rest])
qed

section \<open>A whole file\<close>

definition proper_path :: "string \<Rightarrow> bool" where
  "proper_path p \<longleftrightarrow> p \<noteq> [] \<and> list_all component (split_on CHR ''/'' p)"

lemma proper_pathE:
  assumes "proper_path p"
  obtains cs n where "p = join_slash (cs @ [n])" "list_all component (cs @ [n])"
proof -
  have j: "join_slash (split_on CHR ''/'' q) = q" for q
  proof (induction q)
    case (Cons c q)
    have h: "join_slash ((c # w) # ws) = c # join_slash (w # ws)" for w ws by (cases ws) auto
    obtain w ws where "split_on CHR ''/'' q = w # ws" by (cases "split_on CHR ''/'' q") auto
    then show ?case using Cons by (cases "c = CHR ''/''") (simp_all add: h)
  qed simp
  have "split_on CHR ''/'' p \<noteq> []" by simp
  then obtain cs n where "split_on CHR ''/'' p = cs @ [n]" by (metis rev_exhaust)
  then show thesis using that [of cs n] j [of p] assms by (simp add: proper_path_def)
qed

lemma ens_UpsertPathChain:
  assumes "proper_path p"
  shows "ens (cache_ok imp) (UpsertPathChain stat now p m imp) (\<lambda>(imp', x) g. cache_ok imp' g \<and> stored g p m x)"
proof -
  obtain cs n where p: "p = join_slash (cs @ [n])" and c: "list_all component (cs @ [n])"
    using proper_pathE [OF assms] .
  have clean: "Clean p = p" "Base p = n" using Clean_join [OF c] Base_join [OF c] by (simp_all add: p)
  have par: "parent_path p = join_slash cs" using parent_join [OF c] by (simp add: p)
  have s: "(k, p) \<in> set (file_paths g') \<and> cache_ok imp' g'" if "(k, p) \<in> set (file_paths g) \<and> cache_ok imp' g" "grows g g'" for k imp' g g'
    using that cache_grows by (auto simp: grows_def)
  have s1: "(k, p) \<in> set (file_paths g')" if "(k, p) \<in> set (file_paths g)" "grows g g'" for k g g'
    using that by (auto simp: grows_def)
  have s2: "cache_ok imp' g'" if "cache_ok imp' g" "grows g g'" for imp' g g' using that by (rule cache_grows)
  have path: "ens (cache_ok imp) (UpsertFilePathReturningID p) (\<lambda>k g. cache_ok imp g \<and> (k, p) \<in> set (file_paths g))"
    by (rule ens_conseq [OF ens_frame [OF ens_UpsertFilePath [of "\<lambda>g. True"] s2 [of imp]]]) auto
  have root: "ens (\<lambda>g. cache_ok imp g \<and> (k, p) \<in> set (file_paths g)) (root_folder now imp)
      (\<lambda>x g. (\<lambda>(imp', i) g. cache_ok imp' g \<and> is_folder g [] i) x g \<and> (k, p) \<in> set (file_paths g))" for k
    by (rule ens_frame [OF ens_root s1])
  let ?chain = "\<lambda>imp1 root. if Dir p \<noteq> ''.'' \<and> Dir p \<noteq> ''/''
      then upsert_folders stat now (if HasPrefix (Clean (Dir p)) ''/'' then ''/'' else []) (split_on CHR ''/'' (Clean (Dir p))) root imp1
      else returnDb (imp1, root)"
  have chain: "ens (\<lambda>g. is_folder g [] root \<and> cache_ok imp1 g) (?chain imp1 root)
      (\<lambda>(imp', i) g. cache_ok imp' g \<and> is_folder g (parent_path p) i)" for imp1 root
  proof (cases "cs = []")
    case True
    then have d: "Dir p = ''.''" using Dir_join [OF c] by (simp add: p)
    have "ens (\<lambda>g. is_folder g [] root \<and> cache_ok imp1 g) (returnDb (imp1, root))
        (\<lambda>(imp', i) g. cache_ok imp' g \<and> is_folder g (parent_path p) i)"
      by (rule ens_return) (simp add: par True)
    then show ?thesis by (simp add: d)
  next
    case False
    have c': "list_all component cs" using c by simp
    have d: "Dir p = join_slash cs" using False Dir_join [OF c] by (simp add: p)
    have r: "\<not> rooted (join_slash cs)" "join_slash cs \<noteq> []" using join_head [OF c' False] by simp_all
    have dot: "join_slash cs \<noteq> ''.''"
      using par False by (metis d parent_path_def r(2))
    have "\<not> HasPrefix (join_slash cs) ''/''" "join_slash cs \<noteq> ''/''"
      using r by (cases "join_slash cs"; simp add: rooted_def HasPrefix_def)+
    moreover have "ens (\<lambda>g. is_folder g (join_slash []) root \<and> cache_ok imp1 g)
        (upsert_folders stat now (join_slash []) cs root imp1)
        (\<lambda>(imp', i) g. cache_ok imp' g \<and> is_folder g (join_slash ([] @ cs)) i)"
      by (rule ens_upsert_folders) (simp add: c')
    ultimately show ?thesis using d dot split_join [OF c' False] Clean_join [OF c'] False by (simp add: par)
  qed
  have chain': "ens (\<lambda>g. (\<lambda>(imp', i) g. cache_ok imp' g \<and> is_folder g [] i) x g \<and> (k, p) \<in> set (file_paths g))
      (case x of (imp1, root) \<Rightarrow> ?chain imp1 root)
      (\<lambda>x g. (\<lambda>(imp', i) g. cache_ok imp' g \<and> is_folder g (parent_path p) i) x g \<and> (k, p) \<in> set (file_paths g))" for x k
  proof (cases x)
    case (Pair imp1 root)
    show ?thesis unfolding Pair prod.case
      by (rule ens_conseq [OF ens_frame [OF chain s1]]) simp_all
  qed
  have upsert: "ens (\<lambda>g. (\<lambda>(imp', i) g. cache_ok imp' g \<and> is_folder g (parent_path p) i) x g \<and> (k, p) \<in> set (file_paths g))
      (case x of (imp2, folder) \<Rightarrow> andThen (UpsertFileReturningFile folder k (Base p) m now) (\<lambda>f. returnDb (imp2, f)))
      (\<lambda>(imp', x) g. cache_ok imp' g \<and> stored g p m x)" for x k
  proof (cases x)
    case (Pair imp2 folder)
    have "ens (\<lambda>g. ((k, p) \<in> set (file_paths g) \<and> is_folder g (parent_path p) folder) \<and> cache_ok imp2 g)
        (UpsertFileReturningFile folder k (Base p) m now) (\<lambda>x g. stored g p m x \<and> cache_ok imp2 g)"
      by (rule ens_frame [OF ens_UpsertFile s2])
    then have u: "ens (\<lambda>g. (cache_ok imp2 g \<and> is_folder g (parent_path p) folder) \<and> (k, p) \<in> set (file_paths g))
        (UpsertFileReturningFile folder k (Base p) m now) (\<lambda>x g. cache_ok imp2 g \<and> stored g p m x)"
      by (rule ens_conseq) simp_all
    show ?thesis unfolding Pair prod.case by (rule ens_then [OF u ens_return]) simp
  qed
  let ?store = "\<lambda>k (imp2, folder). andThen (UpsertFileReturningFile folder k (Base p) m now) (\<lambda>f. returnDb (imp2, f))"
  have rest: "ens (\<lambda>g. (\<lambda>(imp', i) g. cache_ok imp' g \<and> is_folder g [] i) x g \<and> (k, p) \<in> set (file_paths g))
      (case x of (imp1, root) \<Rightarrow> andThen (?chain imp1 root) (?store k))
      (\<lambda>(imp', x) g. cache_ok imp' g \<and> stored g p m x)" for x k
  proof (cases x)
    case (Pair imp1 root)
    show ?thesis using ens_then [OF chain' upsert, of x k] unfolding Pair prod.case .
  qed
  show ?thesis unfolding UpsertPathChain_def Let_def clean(1) by (rule ens_then [OF path ens_then [OF root rest]])
qed

end
