(* ===== verification/Import_Files.thy ===== *)
theory Import_Files
  imports Importer_Correct
begin

text \<open>
  What a batch of file writes does: it keeps the tree, stores the data of every file when it commits,
  never replaces a thumbnail, and cannot commit when it holds a new file twice within a second.
\<close>

section \<open>Relations a statement keeps\<close>

definition pres :: "(gallery \<Rightarrow> gallery \<Rightarrow> bool) \<Rightarrow> 'a db \<Rightarrow> bool" where
  "pres R m \<longleftrightarrow> (\<forall>g r g'. m g = (r, g') \<longrightarrow> R g g')"

definition db_preorder :: "(gallery \<Rightarrow> gallery \<Rightarrow> bool) \<Rightarrow> bool" where
  "db_preorder R \<longleftrightarrow> (\<forall>g. R g g) \<and> (\<forall>a b c. R a b \<longrightarrow> R b c \<longrightarrow> R a c) \<and> (\<forall>g. R g (g\<lparr>faults := tl (faults g)\<rparr>))"

lemma presI: "(\<And>g r g'. m g = (r, g') \<Longrightarrow> R g g') \<Longrightarrow> pres R m"
  by (simp add: pres_def)

lemma presD: "pres R m \<Longrightarrow> m g = (r, g') \<Longrightarrow> R g g'"
  by (simp add: pres_def)

lemma pres_return: "db_preorder R \<Longrightarrow> pres R (returnDb x)"
  by (simp add: pres_def db_preorder_def returnDb_def)

lemma pres_fail: "db_preorder R \<Longrightarrow> pres R (failDb e)"
  by (simp add: pres_def db_preorder_def failDb_def)

lemma pres_then:
  assumes "db_preorder R" "pres R m" "\<And>x. pres R (k x)"
  shows "pres R (andThen m k)"
proof (rule presI)
  fix g r g'
  assume e: "andThen m k g = (r, g')"
  obtain r1 g1 where m: "m g = (r1, g1)" by force
  have 1: "R g g1" by (rule presD [OF assms(2) m])
  show "R g g'"
  proof (cases r1)
    case (Inl e1)
    then show ?thesis using e m 1 by (simp add: andThen_def)
  next
    case (Inr x)
    then have "k x g1 = (r, g')" using e m by (simp add: andThen_def)
    from presD [OF assms(3) this] show ?thesis using 1 assms(1) unfolding db_preorder_def by blast
  qed
qed

lemma pres_try: "pres R m \<Longrightarrow> pres R (tryDb m)"
  unfolding pres_def tryDb_def by (auto split: prod.splits)

lemma stmt_takes_one:
  "stmt f g = (Inl Failure, g\<lparr>faults := tl (faults g)\<rparr>) \<or> stmt f g = f (g\<lparr>faults := tl (faults g)\<rparr>)"
  by (auto simp: stmt_def split: list.split bool.split)

lemma pres_stmt:
  assumes "db_preorder R" "\<And>g r g'. f g = (r, g') \<Longrightarrow> R g g'"
  shows "pres R (stmt f)"
proof (rule presI)
  fix g r g'
  assume e: "stmt f g = (r, g')"
  have p: "R g (g\<lparr>faults := tl (faults g)\<rparr>)" using assms(1) by (simp add: db_preorder_def)
  from stmt_takes_one [of f g] show "R g g'"
  proof
    assume "stmt f g = (Inl Failure, g\<lparr>faults := tl (faults g)\<rparr>)"
    then show ?thesis using e p by simp
  next
    assume "stmt f g = f (g\<lparr>faults := tl (faults g)\<rparr>)"
    then have "R (g\<lparr>faults := tl (faults g)\<rparr>) g'" using e assms(2) by metis
    then show ?thesis using p assms(1) unfolding db_preorder_def by blast
  qed
qed

text \<open>Five such relations: the tree, the files, the thumbnails, the thumbnails that were there, and
  the absence of faults together with the list of invalid files.\<close>

definition same_files :: "gallery \<Rightarrow> gallery \<Rightarrow> bool" where
  "same_files g g' \<longleftrightarrow> files g' = files g \<and> file_paths g' = file_paths g \<and> thumbs g' = thumbs g \<and> blobs g' = blobs g"

definition same_thumbs :: "gallery \<Rightarrow> gallery \<Rightarrow> bool" where
  "same_thumbs g g' \<longleftrightarrow> thumbs g' = thumbs g \<and> blobs g' = blobs g"

definition more_thumbs :: "gallery \<Rightarrow> gallery \<Rightarrow> bool" where
  "more_thumbs g g' \<longleftrightarrow> set (thumbs g) \<subseteq> set (thumbs g')"

definition calm :: "gallery \<Rightarrow> gallery \<Rightarrow> bool" where
  "calm g g' \<longleftrightarrow> (faults g = [] \<longrightarrow> faults g' = []) \<and> set (invalids g') \<subseteq> set (invalids g)"

lemma preorders: "db_preorder same_tree" "db_preorder same_files" "db_preorder same_thumbs" "db_preorder more_thumbs"
    "db_preorder calm"
  by (auto simp: db_preorder_def same_files_def same_thumbs_def more_thumbs_def calm_def intro: same_tree_trans)

lemma pres_weaken: "pres R m \<Longrightarrow> (\<And>g g'. R g g' \<Longrightarrow> S g g') \<Longrightarrow> pres S m"
  by (auto simp: pres_def)

lemma files_thumbs: "pres same_files m \<Longrightarrow> pres same_thumbs m"
  by (erule pres_weaken) (auto simp: same_files_def same_thumbs_def)

lemma thumbs_more: "pres same_thumbs m \<Longrightarrow> pres more_thumbs m"
  by (erule pres_weaken) (auto simp: more_thumbs_def same_thumbs_def)

lemmas files_rules = pres_return [OF preorders(2)] pres_fail [OF preorders(2)] pres_then [OF preorders(2)]
  pres_try [where R = same_files]

lemma pres_queries:
  "db_preorder R \<Longrightarrow> pres R (GetFolderByPath p)" "db_preorder R \<Longrightarrow> pres R (GetFolderIDByPath p)"
  "db_preorder R \<Longrightarrow> pres R (GetFolderByID i)" "db_preorder R \<Longrightarrow> pres R (GetThumbnailExistsViewByID i)"
  "db_preorder R \<Longrightarrow> pres R (GetFolderTileExistsViewByPath p)"
  unfolding GetFolderByPath_def GetFolderIDByPath_def GetFolderByID_def GetThumbnailExistsViewByID_def
    GetFolderTileExistsViewByPath_def
  by (rule pres_stmt, assumption, simp add: db_preorder_def)+

lemma pres_folder_writes:
  "pres same_files (UpsertFolderPathReturningID p)" "pres same_files (UpsertFolderReturningFolder pa k n t)"
  "pres same_files (UpdateFolderTileId t i)"
  unfolding UpsertFolderPathReturningID_def UpsertFolderReturningFolder_def UpdateFolderTileId_def
  by (rule pres_stmt [OF preorders(2)], auto simp: same_files_def Let_def split: option.splits if_splits)+

lemma pres_side_writes:
  "pres same_tree (DeleteInvalidFileByPath p)" "pres same_tree (UpsertExif i e)"
  "pres same_tree (UpsertThumbnailReturningID i l)" "pres same_tree (UpsertThumbnailBlob i d)"
  "pres same_tree (UpdateFolderTileId t i)"
  "pres same_thumbs (DeleteInvalidFileByPath p)" "pres same_thumbs (UpsertExif i e)"
  unfolding DeleteInvalidFileByPath_def UpsertExif_def UpsertThumbnailReturningID_def UpsertThumbnailBlob_def
    UpdateFolderTileId_def
  by (rule pres_stmt [OF preorders(1)] pres_stmt [OF preorders(3)],
      auto simp: same_tree_def same_thumbs_def Let_def split: if_splits)+

lemma pres_folder_chain:
  assumes "db_preorder R" "\<And>p. pres R (UpsertFolderPathReturningID p)"
    and "\<And>pa k n t. pres R (UpsertFolderReturningFolder pa k n t)"
  shows "pres R (root_folder now imp)" and "pres R (upsert_folders stat now accum ps parent imp')"
proof -
  note rules = pres_return [OF assms(1)] pres_fail [OF assms(1)] pres_then [OF assms(1)] pres_try [where R = R]
    pres_queries [OF assms(1)] assms(2,3)
  have c: "pres R (CreateRootFolderEntry t)" for t
    unfolding CreateRootFolderEntry_def
    by (intro rules conjI impI allI | simp split: sum.split if_split)+
  show "pres R (root_folder now imp)" unfolding root_folder_def
    by (auto split: option.split sum.split intro!: rules c)
  show "pres R (upsert_folders stat now accum ps parent imp')"
  proof (induction ps arbitrary: accum parent imp')
    case Nil
    then show ?case by (simp add: rules)
  next
    case (Cons p ps)
    have "pres R (upsert_folder stat now a q pa im)" for a q pa im
      unfolding upsert_folder_def
      by (auto split: option.split sum.split prod.split intro!: rules)
    then show ?case using Cons by (auto split: prod.split intro!: rules)
  qed
qed

lemmas pres_root = pres_folder_chain(1) [OF preorders(2) pres_folder_writes(1,2)]
  and pres_folders = pres_folder_chain(2) [OF preorders(2) pres_folder_writes(1,2)]

text \<open>The chain of tiles.\<close>

lemma pres_tiles:
  assumes "db_preorder R" "\<And>t i. pres R (UpdateFolderTileId t i)"
  shows "pres R (UpdateFolderTileChain folder tile)"
proof (rule presI)
  fix g r g'
  show "UpdateFolderTileChain folder tile g = (r, g') \<Longrightarrow> R g g'"
  proof (induction folder tile g rule: UpdateFolderTileChain.induct)
    case (1 folder tile g)
    obtain r1 g1 where f: "GetFolderByID folder g = (r1, g1)" by force
    have q: "R g g1" by (rule presD [OF pres_queries(3) [OF assms(1)] f])
    show ?case
    proof (cases r1)
      case (Inl e)
      then show ?thesis using 1(2) f q by (simp add: UpdateFolderTileChain.simps [of folder])
    next
      case (Inr fo)
      show ?thesis
      proof (cases "fo_tile fo = None")
        case False
        then show ?thesis using 1(2) f q Inr by (simp add: UpdateFolderTileChain.simps [of folder])
      next
        case True
        obtain r2 g2 where u: "UpdateFolderTileId tile folder g1 = (r2, g2)" by force
        have "R g1 g2" by (rule presD [OF assms(2) u])
        then have g2: "R g g2" using q assms(1) unfolding db_preorder_def by blast
        show ?thesis
        proof (cases r2)
          case (Inl e)
          then show ?thesis using 1(2) f u True g2 Inr by (simp add: UpdateFolderTileChain.simps [of folder])
        next
          case r2: (Inr y)
          show ?thesis
          proof (cases "fo_parent fo")
            case None
            then show ?thesis using 1(2) f u True g2 Inr r2 by (simp add: UpdateFolderTileChain.simps [of folder])
          next
            case (Some pa)
            then have "UpdateFolderTileChain pa tile g2 = (r, g')"
              using 1(2) f u True Inr r2 by (simp add: UpdateFolderTileChain.simps [of folder])
            with 1(1) [OF f [symmetric] Inr _ u [symmetric] r2 Some] True have "R g2 g'" by blast
            then show ?thesis using g2 assms(1) unfolding db_preorder_def by blast
          qed
        qed
      qed
    qed
  qed
qed

section \<open>What the chain of paths stores\<close>

lemma file_at_faults [simp]: "file_at (g\<lparr>faults := fs\<rparr>) p = file_at g p"
  by (simp add: file_at_def split: option.split)

lemma file_at_same: "same_files g g' \<Longrightarrow> file_at g' q = file_at g q"
  by (simp add: same_files_def file_at_def split: option.split)

lemma find_map_other:
  assumes "\<And>x. P (h x) = P x" "\<And>x. P x \<Longrightarrow> h x = x"
  shows "List.find P (map h xs) = List.find P xs"
  by (induction xs) (use assms in \<open>auto\<close>)

lemma stmt_Inr:
  assumes "stmt f g = (Inr x, g')"
  obtains fs where "f (g\<lparr>faults := fs\<rparr>) = (Inr x, g')"
  using assms by (metis Pair_inject stmt_cases sum.distinct(1))

lemma andThenE:
  assumes "andThen m k g = (Inr y, g')"
  obtains x g1 where "m g = (Inr x, g1)" "k x g1 = (Inr y, g')"
  using assms unfolding andThen_Inr by blast

lemma andThenE2:
  assumes "andThen m (\<lambda>(a, b). k a b) g = (Inr y, g')"
  obtains a b g1 where "m g = (Inr (a, b), g1)" "k a b g1 = (Inr y, g')"
proof (rule andThenE [OF assms])
  fix x g1
  assume "m g = (Inr x, g1)" "(case x of (a, b) \<Rightarrow> k a b) g1 = (Inr y, g')"
  then show thesis using that by (cases x) simp
qed

lemma path_inserted:
  assumes e: "UpsertFilePathReturningID p g = (Inr k, g1)" and K: "keys_ok g"
  shows "id_of_path (file_paths g1) p = Some k" "file_at g1 q = file_at g q" "files g1 = files g"
proof -
  obtain fs where s: "(case id_of_path (file_paths (g\<lparr>faults := fs\<rparr>)) p of Some i \<Rightarrow> (Inr i, g\<lparr>faults := fs\<rparr>)
     | None \<Rightarrow> (let i = next_id (map fst (file_paths (g\<lparr>faults := fs\<rparr>)))
         in (Inr i, (g\<lparr>faults := fs\<rparr>)\<lparr>file_paths := file_paths (g\<lparr>faults := fs\<rparr>) @ [(i, p)]\<rparr>))) = (Inr k :: db_error + int, g1)"
    by (rule stmt_Inr [OF e [unfolded UpsertFilePathReturningID_def]])
  show "id_of_path (file_paths g1) p = Some k"
    using s by (auto simp: id_of_path_def find_append Let_def split: option.splits)
  show "files g1 = files g" using s by (auto simp: Let_def split: option.splits)
  show "file_at g1 q = file_at g q"
  proof (cases "id_of_path (file_paths g) p")
    case (Some i)
    then show ?thesis using s by auto
  next
    case None
    let ?i = "next_id (map fst (file_paths g))"
    have g1: "g1 = g\<lparr>faults := fs, file_paths := file_paths g @ [(?i, p)]\<rparr>" using s None by (auto simp: Let_def)
    have "?i \<notin> fi_path ` set (files g)"
      using next_id_fresh [of "map fst (file_paths g)"] K by (auto simp: keys_ok_def)
    then have n: "List.find (\<lambda>x. fi_path x = ?i) (files g) = None" by (auto simp: find_NoneI image_iff)
    have "id_of_path (file_paths g1) q = (if q = p then Some ?i else id_of_path (file_paths g) q)"
      using None by (auto simp: g1 id_of_path_def find_append split: option.split)
    moreover have "files g1 = files g" by (simp add: g1)
    ultimately show ?thesis using None n by (simp add: file_at_def split: option.split)
  qed
qed

lemma file_upserted:
  assumes e: "UpsertFileReturningFile folder k n m now g = (Inr row, g')"
    and k: "id_of_path (file_paths g) p = Some k" and d: "distinct (map fst (file_paths g))"
  shows "file_at g' q = (if q = p then Some row else file_at g q)"
    and "fi_meta row = m" "fi_updated row = now"
    and "fi_created row = (case file_at g p of None \<Rightarrow> now | Some x \<Rightarrow> fi_created x)"
    and "file_at g p = Some x \<Longrightarrow> fi_id row = fi_id x"
    and "thumbs g' = thumbs g" "blobs g' = blobs g"
    and "file_at g p = None \<Longrightarrow> fi_id row \<notin> fi_id ` set (files g)"
proof -
  obtain fs where s: "(if \<not> has_folder (g\<lparr>faults := fs\<rparr>) folder \<or> k \<notin> fst ` set (file_paths (g\<lparr>faults := fs\<rparr>))
      then (Inl (Constraint ''FOREIGN KEY''), g\<lparr>faults := fs\<rparr>)
     else case List.find (\<lambda>f. fi_path f = k) (files (g\<lparr>faults := fs\<rparr>)) of
         Some f \<Rightarrow> (let f' = f\<lparr>fi_name := n, fi_meta := m, fi_updated := now\<rparr>
            in (Inr f', (g\<lparr>faults := fs\<rparr>)\<lparr>files := map (\<lambda>x. if fi_path x = k then f' else x) (files (g\<lparr>faults := fs\<rparr>))\<rparr>))
       | None \<Rightarrow> (let f = \<lparr>fi_id = next_id (map fi_id (files (g\<lparr>faults := fs\<rparr>))), fi_folder = Some folder, fi_path = k,
              fi_name = n, fi_meta = m, fi_created = now, fi_updated = now\<rparr>
            in (Inr f, (g\<lparr>faults := fs\<rparr>)\<lparr>files := files (g\<lparr>faults := fs\<rparr>) @ [f]\<rparr>))) = (Inr row, g')"
    by (rule stmt_Inr [OF e [unfolded UpsertFileReturningFile_def]])
  have other: "q \<noteq> p \<Longrightarrow> id_of_path (file_paths g) q \<noteq> Some k" for q
    using k d by (auto simp: id_of_path_def dest!: find_SomeD) (metis eq_key_imp_eq_value)
  have at: "file_at g p = List.find (\<lambda>f. fi_path f = k) (files g)" using k by (simp add: file_at_def)
  let ?f = "\<lparr>fi_id = next_id (map fi_id (files g)), fi_folder = Some folder, fi_path = k,
              fi_name = n, fi_meta = m, fi_created = now, fi_updated = now\<rparr>"
  have "(file_at g' q = (if q = p then Some row else file_at g q)) \<and> fi_meta row = m \<and> fi_updated row = now
      \<and> fi_created row = (case file_at g p of None \<Rightarrow> now | Some x \<Rightarrow> fi_created x)
      \<and> (file_at g p = Some x \<longrightarrow> fi_id row = fi_id x) \<and> thumbs g' = thumbs g \<and> blobs g' = blobs g
      \<and> (file_at g p = None \<longrightarrow> fi_id row \<notin> fi_id ` set (files g))" for q
  proof (cases "List.find (\<lambda>f. fi_path f = k) (files g)")
    case None
    then have r: "row = ?f" "g' = g\<lparr>faults := fs, files := files g @ [?f]\<rparr>"
      using s by (auto simp: Let_def split: if_splits)
    have "List.find (\<lambda>f. fi_path f = j) (files g @ [?f]) = List.find (\<lambda>f. fi_path f = j) (files g)" if "j \<noteq> k" for j
      using that by (simp add: find_append split: option.split)
    then have "file_at g' q = (if q = p then Some row else file_at g q)"
      using None k other [of q] by (auto simp: r file_at_def find_append split: option.split)
    then show ?thesis using None next_id_fresh [of "map fi_id (files g)"] by (simp add: r at)
  next
    case (Some f)
    let ?f = "f\<lparr>fi_name := n, fi_meta := m, fi_updated := now\<rparr>"
    let ?h = "\<lambda>x. if fi_path x = k then ?f else x"
    have f: "fi_path f = k" using find_SomeD [OF Some] by simp
    have r: "row = ?f" "g' = g\<lparr>faults := fs, files := map ?h (files g)\<rparr>"
      using s unfolding Some [symmetric] by (auto simp: Some Let_def split: if_splits)
    have o1: "List.find (\<lambda>x. fi_path x = j) (map ?h (files g)) = List.find (\<lambda>x. fi_path x = j) (files g)" if "j \<noteq> k" for j
      by (rule find_map_other) (use that f in auto)
    have o2: "List.find (\<lambda>x. fi_path x = k) (map ?h xs) = Some ?f" if "f \<in> set xs" for xs
      using that f by (induction xs) auto
    have "List.find (\<lambda>x. fi_path x = k) (map ?h (files g)) = Some ?f" using o2 find_SomeD [OF Some] by blast
    then have "file_at g' q = (if q = p then Some row else file_at g q)"
      using k other [of q] o1 by (auto simp: r file_at_def split: option.split)
    then show ?thesis using Some by (simp add: r at)
  qed
  then show "file_at g' q = (if q = p then Some row else file_at g q)"
    and "fi_meta row = m" "fi_updated row = now"
    and "fi_created row = (case file_at g p of None \<Rightarrow> now | Some x \<Rightarrow> fi_created x)"
    and "file_at g p = Some x \<Longrightarrow> fi_id row = fi_id x"
    and "thumbs g' = thumbs g" "blobs g' = blobs g"
    and "file_at g p = None \<Longrightarrow> fi_id row \<notin> fi_id ` set (files g)" by blast+
qed

lemma chain_steps:
  assumes "UpsertPathChain stat now p m imp g = (Inr (imp', row), g')" "Clean p = p"
  obtains k folder g1 g2 where "UpsertFilePathReturningID p g = (Inr k, g1)" "same_files g1 g2"
    "UpsertFileReturningFile folder k (Base p) m now g2 = (Inr row, g')"
proof -
  let ?chain = "\<lambda>imp1 root. if Dir p \<noteq> ''.'' \<and> Dir p \<noteq> ''/''
      then upsert_folders stat now (if HasPrefix (Clean (Dir p)) ''/'' then ''/'' else []) (split_on CHR ''/'' (Clean (Dir p))) root imp1
      else returnDb (imp1, root)"
  have e: "andThen (UpsertFilePathReturningID p) (\<lambda>k. andThen (root_folder now imp) (\<lambda>(imp1, root).
      andThen (?chain imp1 root) (\<lambda>(imp2, folder). andThen (UpsertFileReturningFile folder k (Base p) m now)
        (\<lambda>f. returnDb (imp2, f))))) g = (Inr (imp', row), g')"
    using assms by (simp add: UpsertPathChain_def Let_def)
  obtain k g1 where 1: "UpsertFilePathReturningID p g = (Inr k, g1)"
      "andThen (root_folder now imp) (\<lambda>(imp1, root).
        andThen (?chain imp1 root) (\<lambda>(imp2, folder). andThen (UpsertFileReturningFile folder k (Base p) m now)
        (\<lambda>f. returnDb (imp2, f)))) g1 = (Inr (imp', row), g')"
    by (rule andThenE [OF e])
  obtain imp1 root g2 where 2: "root_folder now imp g1 = (Inr (imp1, root), g2)"
      "andThen (?chain imp1 root) (\<lambda>(imp2, folder). andThen (UpsertFileReturningFile folder k (Base p) m now)
        (\<lambda>f. returnDb (imp2, f))) g2 = (Inr (imp', row), g')"
    by (rule andThenE2 [OF 1(2)])
  obtain imp2 folder g3 where 3: "?chain imp1 root g2 = (Inr (imp2, folder), g3)"
      "andThen (UpsertFileReturningFile folder k (Base p) m now) (\<lambda>f. returnDb (imp2, f)) g3 = (Inr (imp', row), g')"
    by (rule andThenE2 [OF 2(2)])
  obtain f g4 where 4: "UpsertFileReturningFile folder k (Base p) m now g3 = (Inr f, g4)"
      "returnDb (imp2, f) g4 = (Inr (imp', row), g')"
    by (rule andThenE [OF 3(2)])
  have "same_files g1 g2" by (rule presD [OF pres_root 2(1)])
  moreover have "pres same_files (?chain imp1 root)"
    by (auto intro: pres_folders files_rules)
  from presD [OF this 3(1)] have "same_files g2 g3" .
  ultimately have "same_files g1 g3" by (simp add: same_files_def)
  then show thesis using that 1(1) 4 by (auto simp: returnDb_def)
qed

lemma pres_path: "pres same_thumbs (UpsertFilePathReturningID p)"
  unfolding UpsertFilePathReturningID_def
  by (rule pres_stmt [OF preorders(3)]) (auto simp: same_thumbs_def Let_def split: option.splits)

lemma chain_effect:
  assumes e: "UpsertPathChain stat now p m imp g = (Inr (imp', row), g')" and c: "Clean p = p" and t: "tree_ok g"
  shows "file_at g' q = (if q = p then Some row else file_at g q)"
    and "fi_meta row = m" "fi_updated row = now"
    and "fi_created row = (case file_at g p of None \<Rightarrow> now | Some x \<Rightarrow> fi_created x)"
    and "file_at g p = Some x \<Longrightarrow> fi_id row = fi_id x"
    and "same_thumbs g g'"
    and "file_at g p = None \<Longrightarrow> fi_id row \<notin> fi_id ` set (files g)"
proof -
  obtain k folder g1 g2 where s: "UpsertFilePathReturningID p g = (Inr k, g1)" "same_files g1 g2"
    "UpsertFileReturningFile folder k (Base p) m now g2 = (Inr row, g')"
    by (rule chain_steps [OF e c])
  note K = tree_keys [OF t]
  have "tree_ok g1" using ensD [OF ens_UpsertFilePath [of "\<lambda>g. True"] t _ s(1)] by simp
  then have d: "distinct (map fst (file_paths g2))" using tree_keys [of g1] s(2) by (simp add: keys_ok_def same_files_def)
  have k: "id_of_path (file_paths g2) p = Some k" using path_inserted(1) [OF s(1) K] s(2) by (simp add: same_files_def)
  have f: "file_at g2 q = file_at g q" for q using path_inserted(2) [OF s(1) K] file_at_same [OF s(2)] by simp
  note u = file_upserted [OF s(3) k d]
  show "file_at g' q = (if q = p then Some row else file_at g q)" using u(1) f by simp
  show "fi_meta row = m" "fi_updated row = now" by (rule u(2), rule u(3))
  show "fi_created row = (case file_at g p of None \<Rightarrow> now | Some x \<Rightarrow> fi_created x)" using u(4) f by simp
  show "fi_id row = fi_id x" if "file_at g p = Some x" using u(5) [of x] f that by simp
  have "files g2 = files g" using path_inserted(3) [OF s(1) K] s(2) by (simp add: same_files_def)
  then show "fi_id row \<notin> fi_id ` set (files g)" if "file_at g p = None" using u(8) f that by simp
  have "same_thumbs g g1" by (rule presD [OF pres_path s(1)])
  then show "same_thumbs g g'" using s(2) u(6,7) by (simp add: same_thumbs_def same_files_def)
qed

section \<open>The rest of a file's write\<close>

definition file_rest :: "file_input \<Rightarrow> importer \<Rightarrow> file_rec \<Rightarrow> importer db" where
  "file_rest f imp row =
     andThen (tryDb (DeleteInvalidFileByPath (fw_path f))) (\<lambda>_.
       andThen (tryDb (case fw_camera f of None \<Rightarrow> returnDb () | Some c \<Rightarrow> UpsertExif (fi_id row) c)) (\<lambda>_.
         andThen (needs_thumbnail f row) (\<lambda>needs.
           andThen (if needs \<and> has_thumb f then andThen (UpsertThumbnailTxOnly (fi_id row) (the (fw_thumb f))) (\<lambda>_. returnDb ())
                    else returnDb ()) (\<lambda>_.
             tile_directory imp (Dir (fw_path f)) (needs \<and> has_thumb f) row))))"

lemma WriteFileInTx_rest:
  "WriteFileInTx stat now f imp =
     andThen (UpsertPathChain stat now (fw_path f) (fw_meta f) imp) (\<lambda>(imp1, row). file_rest f imp1 row)"
  by (simp add: WriteFileInTx_def file_rest_def)

lemma pres_parts:
  assumes "db_preorder R"
  shows "pres R (needs_thumbnail f row)"
    and "(\<And>t i. pres R (UpdateFolderTileId t i)) \<Longrightarrow> pres R (tile_directory imp dir w row)"
  using assms unfolding needs_thumbnail_def tile_directory_def
  by (auto intro!: pres_then pres_return pres_try pres_queries pres_tiles)

lemma pres_tile_id: "pres same_thumbs (UpdateFolderTileId t i)"
  by (rule files_thumbs [OF pres_folder_writes(3)])

lemma pres_rest:
  assumes R: "db_preorder R" and "\<And>p. pres R (DeleteInvalidFileByPath p)" "\<And>i e. pres R (UpsertExif i e)"
    "pres R (UpsertThumbnailTxOnly (fi_id row) (the (fw_thumb f)))" "\<And>t i. pres R (UpdateFolderTileId t i)"
  shows "pres R (file_rest f imp row)"
  unfolding file_rest_def
  by (intro pres_then [OF R] pres_try pres_parts [OF R] assms pres_return [OF R] conjI impI allI
      | simp split: option.split if_split)+

lemma pres_rest_tree: "pres same_tree (file_rest f imp row)"
proof (rule pres_rest [OF preorders(1) pres_side_writes(1,2) _ pres_side_writes(5)])
  show "pres same_tree (UpsertThumbnailTxOnly (fi_id row) (the (fw_thumb f)))"
    unfolding UpsertThumbnailTxOnly_def
    by (intro pres_then [OF preorders(1)] pres_side_writes pres_return [OF preorders(1)])
qed

text \<open>A file with a thumbnail keeps it.\<close>

definition has_row :: "gallery \<Rightarrow> int \<Rightarrow> bool" where
  "has_row g i \<longleftrightarrow> list_ex (\<lambda>t. th_file t = i \<and> th_label t = ''m'') (thumbs g)"

definition keeps_thumb :: "int \<Rightarrow> gallery \<Rightarrow> gallery \<Rightarrow> bool" where
  "keeps_thumb i g g' \<longleftrightarrow> (has_row g i \<longrightarrow> same_thumbs g g')"

lemma keeps_preorder: "db_preorder (keeps_thumb i)"
  by (auto simp: db_preorder_def keeps_thumb_def same_thumbs_def has_row_def)

lemma thumbs_keeps: "pres same_thumbs m \<Longrightarrow> pres (keeps_thumb i) m"
  by (erule pres_weaken) (simp add: keeps_thumb_def)

lemma pres_rest_keeps: "pres (keeps_thumb (fi_id row)) (file_rest f imp row)"
proof (rule pres_rest [OF keeps_preorder])
  let ?i = "fi_id row"
  show "pres (keeps_thumb ?i) (UpsertThumbnailTxOnly ?i (the (fw_thumb f)))"
  proof (rule presI)
    fix g r g'
    assume e: "UpsertThumbnailTxOnly ?i (the (fw_thumb f)) g = (r, g')"
    show "keeps_thumb ?i g g'"
    proof (cases "has_row g ?i")
      case True
      obtain r1 g1 where u: "UpsertThumbnailReturningID ?i ''m'' g = (r1, g1)" by force
      from u [unfolded UpsertThumbnailReturningID_def] have "\<exists>e1. r1 = Inl e1 \<and> same_thumbs g g1"
        by (cases rule: stmt_cases [of "\<lambda>g. if ?i \<notin> fi_id ` set (files g) then (Inl (Constraint ''FOREIGN KEY''), g)
            else if list_ex (\<lambda>t. th_file t = ?i \<and> th_label t = ''m'') (thumbs g) then (Inl (Constraint ''UNIQUE''), g)
            else (let i = next_id (map th_id (thumbs g))
              in (Inr i, g\<lparr>thumbs := thumbs g @ [\<lparr>th_id = i, th_file = ?i, th_label = ''m''\<rparr>]\<rparr>))" g])
          (use True in \<open>auto simp: has_row_def same_thumbs_def split: if_splits\<close>)
      then show ?thesis using e u by (auto simp: UpsertThumbnailTxOnly_def andThen_def keeps_thumb_def)
    qed (simp add: keeps_thumb_def)
  qed
qed (simp_all add: thumbs_keeps pres_side_writes pres_tile_id)

lemma pres_rest_more: "pres more_thumbs (file_rest f imp row)"
proof (rule pres_rest [OF preorders(4)])
  have b: "pres more_thumbs (UpsertThumbnailBlob i d)" for i d
    unfolding UpsertThumbnailBlob_def by (rule pres_stmt [OF preorders(4)]) (auto simp: more_thumbs_def)
  have r: "pres more_thumbs (UpsertThumbnailReturningID i l)" for i l
    unfolding UpsertThumbnailReturningID_def
    by (rule pres_stmt [OF preorders(4)]) (auto simp: more_thumbs_def Let_def split: if_splits)
  show "pres more_thumbs (UpsertThumbnailTxOnly (fi_id row) (the (fw_thumb f)))"
    unfolding UpsertThumbnailTxOnly_def by (intro pres_then [OF preorders(4)] r b pres_return [OF preorders(4)])
qed (simp_all add: thumbs_more pres_side_writes pres_tile_id)

lemma rest_cache:
  assumes "file_rest f imp row g = (Inr imp', g')"
  shows "folderCache imp' = folderCache imp"
proof -
  have c: "folderCache (case t of Inl _ \<Rightarrow> i | Inr _ \<Rightarrow> MarkDirTiled dir i) = folderCache i" for t :: "db_error + unit" and i dir
    by (cases t) (simp_all add: MarkDirTiled_def)
  have "folderCache i' = folderCache i" if "tile_directory i dir w row h = (Inr i', h')" for i i' dir w h h'
    using that c by (auto simp: tile_directory_def andThen_Inr returnDb_def split: if_splits)
  then show ?thesis using assms unfolding file_rest_def andThen_Inr by blast
qed

lemma rest_new_thumb:
  assumes e: "file_rest f imp row g = (Inr imp', g')" and f: "has_thumb f" "\<not> fw_exists f" "\<not> fileExistedBeforeUpsert row"
  shows "\<not> has_row g (fi_id row)" "has_row g' (fi_id row)"
proof -
  obtain r1 g1 where 1: "tryDb (DeleteInvalidFileByPath (fw_path f)) g = (Inr r1, g1)"
    "andThen (tryDb (case fw_camera f of None \<Rightarrow> returnDb () | Some c \<Rightarrow> UpsertExif (fi_id row) c)) (\<lambda>_.
         andThen (needs_thumbnail f row) (\<lambda>needs.
           andThen (if needs \<and> has_thumb f then andThen (UpsertThumbnailTxOnly (fi_id row) (the (fw_thumb f))) (\<lambda>_. returnDb ())
                    else returnDb ()) (\<lambda>_.
             tile_directory imp (Dir (fw_path f)) (needs \<and> has_thumb f) row))) g1 = (Inr imp', g')"
    by (rule andThenE [OF e [unfolded file_rest_def]])
  obtain r2 g2 where 2: "tryDb (case fw_camera f of None \<Rightarrow> returnDb () | Some c \<Rightarrow> UpsertExif (fi_id row) c) g1 = (Inr r2, g2)"
    "andThen (needs_thumbnail f row) (\<lambda>needs.
           andThen (if needs \<and> has_thumb f then andThen (UpsertThumbnailTxOnly (fi_id row) (the (fw_thumb f))) (\<lambda>_. returnDb ())
                    else returnDb ()) (\<lambda>_.
             tile_directory imp (Dir (fw_path f)) (needs \<and> has_thumb f) row)) g2 = (Inr imp', g')"
    by (rule andThenE [OF 1(2)])
  have 3: "andThen (andThen (UpsertThumbnailTxOnly (fi_id row) (the (fw_thumb f))) (\<lambda>_. returnDb ())) (\<lambda>_.
             tile_directory imp (Dir (fw_path f)) True row) g2 = (Inr imp', g')"
    using 2(2) f by (simp add: needs_thumbnail_def andThen_def returnDb_def)
  obtain x g3 where 4: "andThen (UpsertThumbnailTxOnly (fi_id row) (the (fw_thumb f))) (\<lambda>_. returnDb ()) g2 = (Inr x, g3)"
    "tile_directory imp (Dir (fw_path f)) True row g3 = (Inr imp', g')"
    by (rule andThenE [OF 3])
  have b: "thumbs h' = thumbs h" if "UpsertThumbnailBlob i d h = (r, h')" for i d h r h'
    using that by (auto simp: UpsertThumbnailBlob_def stmt_def split: list.splits bool.splits)
  obtain y g5 where 6: "UpsertThumbnailTxOnly (fi_id row) (the (fw_thumb f)) g2 = (Inr y, g5)" "returnDb () g5 = (Inr x, g3)"
    by (rule andThenE [OF 4(1)])
  obtain i g4 where 7: "UpsertThumbnailReturningID (fi_id row) ''m'' g2 = (Inr i, g4)"
    "andThen (UpsertThumbnailBlob i (the (fw_thumb f))) (\<lambda>_. returnDb i) g4 = (Inr y, g5)"
    by (rule andThenE [OF 6(1) [unfolded UpsertThumbnailTxOnly_def]])
  have "thumbs g3 = thumbs g4"
    by (rule andThenE [OF 7(2)]) (use 6(2) b in \<open>auto simp: returnDb_def\<close>)
  with 7(1) have 5: "UpsertThumbnailReturningID (fi_id row) ''m'' g2 = (Inr i, g4)" "thumbs g3 = thumbs g4" by simp_all
  have "\<not> has_row g2 (fi_id row) \<and> has_row g4 (fi_id row)"
    using 5(1) by (auto simp: UpsertThumbnailReturningID_def stmt_def has_row_def Let_def split: if_splits list.splits bool.splits)
  moreover have "same_thumbs g g1" by (rule presD [OF pres_try [OF pres_side_writes(6)] 1(1)])
  moreover have "pres same_thumbs (case fw_camera f of None \<Rightarrow> returnDb () | Some c \<Rightarrow> UpsertExif (fi_id row) c)"
    by (simp add: pres_side_writes pres_return [OF preorders(3)] split: option.split)
  from presD [OF pres_try [OF this] 2(1)] have "same_thumbs g1 g2" .
  moreover have "same_thumbs g3 g'"
    by (rule presD [OF pres_parts(2) [OF preorders(3) pres_tile_id] 4(2)])
  ultimately show "\<not> has_row g (fi_id row)" "has_row g' (fi_id row)"
    using 5(2) by (simp_all add: has_row_def same_thumbs_def)
qed

section \<open>A file, a batch, a history of batches\<close>

definition proper_writes :: "(int \<times> file_input) list \<Rightarrow> bool" where
  "proper_writes fs \<longleftrightarrow> list_all (\<lambda>(now, f). proper_path (fw_path f)) fs"

lemma proper_simps [simp]: "proper_writes []"
  "proper_writes ((now, f) # fs) \<longleftrightarrow> proper_path (fw_path f) \<and> proper_writes fs"
  "proper_writes (as @ bs) \<longleftrightarrow> proper_writes as \<and> proper_writes bs"
  by (simp_all add: proper_writes_def)

lemma ens_rest: "ens (cache_ok imp) (file_rest f imp row) (\<lambda>imp' g. cache_ok imp' g)"
proof (rule ensI)
  fix g r g'
  assume g: "tree_ok g" "cache_ok imp g" "file_rest f imp row g = (r, g')"
  have s: "same_tree g g'" by (rule presD [OF pres_rest_tree g(3)])
  have gr: "grows g g'" by (rule same_grows [OF s])
  have "cache_ok imp' g'" if "r = Inr imp'" for imp'
    using rest_cache [of f imp row g imp' g'] g(3) that cache_grows [OF g(2) gr] by (simp add: cache_ok_def)
  then show "tree_ok g' \<and> grows g g' \<and> (case r of Inl e \<Rightarrow> True | Inr imp' \<Rightarrow> cache_ok imp' g')"
    using tree_same [OF s g(1)] gr by (simp split: sum.split)
qed

lemma ens_WriteFile:
  assumes "proper_path (fw_path f)"
  shows "ens (cache_ok imp) (WriteFileInTx stat now f imp) (\<lambda>imp' g. cache_ok imp' g)"
  unfolding WriteFileInTx_rest
proof (rule ens_then [OF ens_UpsertPathChain [OF assms]])
  fix x :: "importer \<times> file_rec"
  obtain imp1 row where x: "x = (imp1, row)" by (cases x)
  have "ens (\<lambda>g. cache_ok imp1 g \<and> stored g (fw_path f) (fw_meta f) row) (file_rest f imp1 row) (\<lambda>imp' g. cache_ok imp' g)"
    by (rule ens_conseq [OF ens_rest]) simp_all
  then show "ens ((\<lambda>(imp', y) g. cache_ok imp' g \<and> stored g (fw_path f) (fw_meta f) y) x)
      (case x of (imp1, row) \<Rightarrow> file_rest f imp1 row) (\<lambda>imp' g. cache_ok imp' g)"
    by (simp add: x)
qed

lemma ens_write_files:
  "proper_writes fs \<Longrightarrow> ens (cache_ok imp) (write_files stat fs imp) (\<lambda>imp' g. cache_ok imp' g)"
proof (induction fs arbitrary: imp)
  case Nil
  show ?case by (simp add: ens_return)
next
  case (Cons x fs)
  obtain now f where x: "x = (now, f)" by (cases x)
  have "proper_path (fw_path f)" "proper_writes fs" using Cons.prems by (simp_all add: x)
  then show ?case using ens_then [OF ens_WriteFile Cons.IH] by (simp add: x)
qed

lemma new_importer_ok: "cache_ok newImporter g"
  by (simp add: cache_ok_def newImporter_def)

lemma flush_tree:
  assumes "tree_ok g" "proper_writes fs"
  shows "tree_ok (snd (flush_files stat fs g))"
proof -
  obtain r g' where w: "write_files stat fs newImporter g = (r, g')" by force
  have "tree_ok g'" using ensD [OF ens_write_files [OF assms(2)] assms(1) new_importer_ok w] by simp
  then show ?thesis using w assms(1) by (simp add: flush_files_def split: sum.split)
qed

text \<open>What one successful write does to the files.\<close>

lemma proper_Clean: "proper_path p \<Longrightarrow> Clean p = p"
  by (metis Clean_join proper_pathE snoc_eq_iff_butlast)

lemma file_written:
  assumes e: "WriteFileInTx stat now f imp g = (Inr imp', g')"
    and t: "tree_ok g" and c: "cache_ok imp g" and p: "proper_path (fw_path f)"
  obtains row g1 imp1 where "file_rest f imp1 row g1 = (Inr imp', g')" "same_thumbs g g1"
    "\<And>q. file_at g1 q = (if q = fw_path f then Some row else file_at g q)"
    "\<And>q. file_at g' q = (if q = fw_path f then Some row else file_at g q)"
    "fi_meta row = fw_meta f" "fi_updated row = now"
    "fi_created row = (case file_at g (fw_path f) of None \<Rightarrow> now | Some x \<Rightarrow> fi_created x)"
    "\<And>x. file_at g (fw_path f) = Some x \<Longrightarrow> fi_id row = fi_id x"
    "tree_ok g'" "cache_ok imp' g'" "more_thumbs g g'"
    "file_at g (fw_path f) = None \<Longrightarrow> fi_id row \<notin> fi_id ` set (files g)"
proof -
  obtain imp1 row g1 where s: "UpsertPathChain stat now (fw_path f) (fw_meta f) imp g = (Inr (imp1, row), g1)"
    "file_rest f imp1 row g1 = (Inr imp', g')"
    by (rule andThenE2 [OF e [unfolded WriteFileInTx_rest]])
  note eff = chain_effect [OF s(1) proper_Clean [OF p] t]
  have st: "same_tree g1 g'" by (rule presD [OF pres_rest_tree s(2)])
  then have at: "file_at g' q = file_at g1 q" for q by (simp add: same_tree_def file_at_def split: option.split)
  have "more_thumbs g1 g'" by (rule presD [OF pres_rest_more s(2)])
  then have m: "more_thumbs g g'" using eff(6) by (simp add: more_thumbs_def same_thumbs_def)
  have "tree_ok g' \<and> cache_ok imp' g'" using ensD [OF ens_WriteFile [OF p] t c e] by simp
  then show thesis using that [OF s(2) eff(6) eff(1) _ eff(2,3,4,5)] at eff(1,7) m by simp
qed

definition latest :: "(int \<times> file_input) list \<Rightarrow> string \<Rightarrow> meta option" where
  "latest fs p = map_of (rev (map (\<lambda>(now, f). (fw_path f, fw_meta f)) fs)) p"

lemma latest_simps: "latest [] p = None"
  "latest ((now, f) # fs) p = (case latest fs p of Some m \<Rightarrow> Some m | None \<Rightarrow> if p = fw_path f then Some (fw_meta f) else None)"
  by (auto simp: latest_def map_add_def split: option.split)

lemma files_effect:
  assumes "write_files stat fs imp g = (Inr imp', g')" "tree_ok g" "cache_ok imp g" "proper_writes fs"
  shows "case latest fs p of None \<Rightarrow> file_at g' p = file_at g p
    | Some m \<Rightarrow> \<exists>x. file_at g' p = Some x \<and> fi_meta x = m \<and> (\<forall>y. file_at g p = Some y \<longrightarrow> fi_id x = fi_id y)"
  using assms
proof (induction fs arbitrary: imp g)
  case Nil
  then show ?case by (simp add: returnDb_def latest_simps)
next
  case (Cons x fs)
  obtain now f where x: "x = (now, f)" by (cases x)
  have p: "proper_path (fw_path f)" "proper_writes fs" using Cons.prems by (simp_all add: x)
  obtain imp1 g1 where s: "WriteFileInTx stat now f imp g = (Inr imp1, g1)" "write_files stat fs imp1 g1 = (Inr imp', g')"
    by (rule andThenE [OF Cons.prems(1) [unfolded x write_files.simps]])
  show ?case
    by (rule file_written [OF s(1) Cons.prems(2,3) p(1)])
      (use Cons.IH [OF s(2) _ _ p(2)] in \<open>auto simp: x latest_simps split: option.splits if_splits\<close>)
qed

lemma files_written:
  assumes "write_files stat fs imp g = (Inr imp', g')" "tree_ok g" "cache_ok imp g" "proper_writes fs"
  shows "map_option fi_meta (file_at g' p) =
    (case latest fs p of Some m \<Rightarrow> Some m | None \<Rightarrow> map_option fi_meta (file_at g p))"
  using files_effect [OF assms, of p] by (auto split: option.splits)

text \<open>All the rows a path has, whatever their number and their folders.\<close>

definition file_rows :: "gallery \<Rightarrow> string \<Rightarrow> file_rec list" where
  "file_rows g p = filter (\<lambda>x. (fi_path x, p) \<in> set (file_paths g)) (files g)"

lemma filter_key:
  "distinct (map k xs) \<Longrightarrow> filter (\<lambda>x. k x = i) xs = (case List.find (\<lambda>x. k x = i) xs of None \<Rightarrow> [] | Some x \<Rightarrow> [x])"
proof (induction xs)
  case (Cons x xs)
  show ?case
  proof (cases "k x = i")
    case True
    then have "filter (\<lambda>x. k x = i) xs = []" using Cons.prems by (auto simp: filter_empty_conv image_iff)
    with True show ?thesis by simp
  qed (use Cons in simp)
qed simp

lemma file_rows_at:
  assumes "tree_ok g"
  shows "file_rows g p = (case file_at g p of None \<Rightarrow> [] | Some x \<Rightarrow> [x])"
proof -
  note K = tree_keys [OF assms, unfolded keys_ok_def]
  show ?thesis
  proof (cases "id_of_path (file_paths g) p")
    case None
    then have "(i, p) \<notin> set (file_paths g)" for i by (force simp: id_of_path_None)
    with None show ?thesis by (simp add: file_rows_def file_at_def)
  next
    case (Some i)
    then have "(j, p) \<in> set (file_paths g) \<longleftrightarrow> j = i" for j
      using id_of_path_iff [of "file_paths g" p j] K by auto
    with Some show ?thesis using filter_key [of fi_path "files g" i] K
      by (simp add: file_rows_def file_at_def)
  qed
qed

lemma file_at_parent:
  assumes "tree_ok g" "file_at g p = Some x"
  shows "fi_name x = Base p \<and> (\<exists>i. fi_folder x = Some i \<and> is_folder g (parent_path p) i)"
proof -
  have "x \<in> set (file_rows g p)" using assms by (simp add: file_rows_at)
  then show ?thesis using tree_fileD [OF assms(1)] by (auto simp: file_rows_def file_ok_def)
qed

section \<open>Faults and invalid entries\<close>

lemma calm_statements:
  "pres calm (UpsertFilePathReturningID p)" "pres calm (UpsertFolderPathReturningID p)"
  "pres calm (UpsertFolderReturningFolder pa k n now)" "pres calm (UpsertFileReturningFile fo k n m now)"
  "pres calm (UpdateFolderTileId t i)" "pres calm (DeleteInvalidFileByPath p)" "pres calm (UpsertExif i e)"
  "pres calm (UpsertThumbnailReturningID i l)" "pres calm (UpsertThumbnailBlob i d)"
  unfolding UpsertFilePathReturningID_def UpsertFolderPathReturningID_def UpsertFolderReturningFolder_def
    UpsertFileReturningFile_def UpdateFolderTileId_def DeleteInvalidFileByPath_def UpsertExif_def
    UpsertThumbnailReturningID_def UpsertThumbnailBlob_def
  by (rule pres_stmt [OF preorders(5)], auto simp: calm_def Let_def split: option.splits if_splits)+

lemmas calm_rules = pres_return [OF preorders(5)] pres_fail [OF preorders(5)] pres_then [OF preorders(5)]
  pres_try [where R = calm] pres_queries [OF preorders(5)] calm_statements
  pres_folder_chain [OF preorders(5) calm_statements(2,3)]

lemma calm_chain: "pres calm (UpsertPathChain stat now p m imp)"
  unfolding UpsertPathChain_def Let_def by (auto intro!: calm_rules split: prod.split)

lemma calm_rest: "pres calm (file_rest f imp row)"
  by (rule pres_rest [OF preorders(5) calm_statements(6,7) _ calm_statements(5)])
    (auto simp: UpsertThumbnailTxOnly_def intro!: calm_rules)

lemma calm_write: "pres calm (WriteFileInTx stat now f imp)"
  unfolding WriteFileInTx_rest by (auto intro!: calm_rules calm_chain calm_rest split: prod.split)

lemma calm_files: "pres calm (write_files stat fs imp)"
  by (induction fs arbitrary: imp) (auto intro!: calm_rules calm_write)

text \<open>The write of a file removes the invalid entry of its path, when no statement fails.\<close>

lemma entry_deleted:
  assumes e: "WriteFileInTx stat now f imp g = (Inr imp', g')" and g: "faults g = []"
  shows "fw_path f \<notin> iv_path ` set (invalids g')"
proof -
  obtain imp1 row g1 where s: "UpsertPathChain stat now (fw_path f) (fw_meta f) imp g = (Inr (imp1, row), g1)"
    "file_rest f imp1 row g1 = (Inr imp', g')"
    by (rule andThenE2 [OF e [unfolded WriteFileInTx_rest]])
  have g1: "faults g1 = []" using presD [OF calm_chain s(1)] g by (simp add: calm_def)
  obtain k where rest: "file_rest f imp1 row = andThen (tryDb (DeleteInvalidFileByPath (fw_path f))) (\<lambda>_. k)" "pres calm k"
  proof
    show "pres calm (andThen (tryDb (case fw_camera f of None \<Rightarrow> returnDb () | Some c \<Rightarrow> UpsertExif (fi_id row) c)) (\<lambda>_.
         andThen (needs_thumbnail f row) (\<lambda>needs.
           andThen (if needs \<and> has_thumb f then andThen (UpsertThumbnailTxOnly (fi_id row) (the (fw_thumb f))) (\<lambda>_. returnDb ())
                    else returnDb ()) (\<lambda>_.
             tile_directory imp1 (Dir (fw_path f)) (needs \<and> has_thumb f) row))))"
      by (auto simp: UpsertThumbnailTxOnly_def intro!: calm_rules pres_parts [OF preorders(5)] split: option.split)
  qed (simp add: file_rest_def)
  let ?g2 = "g1\<lparr>faults := [], invalids := filter (\<lambda>r. iv_path r \<noteq> fw_path f) (invalids g1)\<rparr>"
  have "k ?g2 = (Inr imp', g')"
    using s(2) g1 by (simp add: rest(1) andThen_def tryDb_def DeleteInvalidFileByPath_def stmt_def)
  from presD [OF rest(2) this] show ?thesis by (auto simp: calm_def)
qed

lemma batch_entries_deleted:
  assumes "write_files stat fs imp g = (Inr imp', g')" "faults g = []" "latest fs p \<noteq> None"
  shows "p \<notin> iv_path ` set (invalids g')"
  using assms
proof (induction fs arbitrary: imp g)
  case Nil
  then show ?case by (simp add: latest_simps)
next
  case (Cons x fs)
  obtain now f where x: "x = (now, f)" by (cases x)
  obtain imp1 g1 where s: "WriteFileInTx stat now f imp g = (Inr imp1, g1)" "write_files stat fs imp1 g1 = (Inr imp', g')"
    by (rule andThenE [OF Cons.prems(1) [unfolded x write_files.simps]])
  have g1: "faults g1 = []" using presD [OF calm_write s(1)] Cons.prems(2) by (simp add: calm_def)
  show ?case
  proof (cases "latest fs p")
    case None
    then have "p = fw_path f" using Cons.prems(3) by (simp add: x latest_simps split: if_splits)
    with entry_deleted [OF s(1) Cons.prems(2)] presD [OF calm_files s(2)] show ?thesis by (auto simp: calm_def)
  next
    case (Some m)
    with Cons.IH [OF s(2) g1] show ?thesis by simp
  qed
qed

section \<open>Properties\<close>

text \<open>C5: Whatever batches are flushed and whichever of their statements fail, the gallery stays a
  tree: every folder and every file is below the folder of the directory of its path, named by its
  last component, and keys are unique.\<close>

theorem import_keeps_tree:
  assumes "tree_ok g" "list_all proper_writes batches"
  shows "tree_ok (foldl (\<lambda>g fs. snd (flush_files stat fs g)) g batches)"
  using assms by (induction batches arbitrary: g) (simp_all add: flush_tree)

text \<open>C10: After a batch that commits, every path of the batch has exactly one row: named by the last
  component of the path, in the folder of the path's directory, with the data of the last write of
  that path, and with the key it had if the path was known before. The rows of every other path
  are the ones it had.\<close>

theorem import_stores_data:
  assumes "flush_files stat fs g = (None, g')" "tree_ok g" "proper_writes fs"
  shows "case latest fs p of
      None \<Rightarrow> file_rows g' p = file_rows g p
    | Some m \<Rightarrow> \<exists>x i. file_rows g' p = [x] \<and> fi_meta x = m \<and> fi_name x = Base p
        \<and> fi_folder x = Some i \<and> is_folder g' (parent_path p) i
        \<and> (\<forall>y \<in> set (file_rows g p). fi_id x = fi_id y)"
proof -
  obtain imp' where w: "write_files stat fs newImporter g = (Inr imp', g')"
    using assms(1) by (auto simp: flush_files_def split: prod.splits sum.splits)
  have t: "tree_ok g'" using flush_tree [OF assms(2,3)] assms(1) by (metis snd_conv)
  show ?thesis
    using files_effect [OF w assms(2) new_importer_ok assms(3), of p] file_at_parent [OF t, of p]
    by (auto simp: file_rows_at [OF t] file_rows_at [OF assms(2)] split: option.splits)
qed

text \<open>A file that has a thumbnail keeps that thumbnail and its bytes whatever is imported at its
  path: the thumbnail of a changed file is never renewed, although its data are.\<close>

theorem thumbnail_never_replaced:
  assumes "WriteFileInTx stat now f imp g = (r, g')" "tree_ok g" "cache_ok imp g" "proper_path (fw_path f)"
    and "file_at g (fw_path f) = Some x" "has_row g (fi_id x)"
  shows "thumbs g' = thumbs g \<and> blobs g' = blobs g"
proof -
  have chain: "pres same_thumbs (UpsertPathChain stat now p m imp)" for p m
  proof -
    have u: "pres same_thumbs (UpsertFileReturningFile a b c d e)" for a b c d e
      unfolding UpsertFileReturningFile_def
      by (rule pres_stmt [OF preorders(3)]) (auto simp: same_thumbs_def Let_def split: option.splits if_splits)
    show ?thesis unfolding UpsertPathChain_def Let_def
      by (auto intro!: pres_then [OF preorders(3)] pres_path files_thumbs [OF pres_root] files_thumbs [OF pres_folders]
          pres_return [OF preorders(3)] u split: prod.split)
  qed
  obtain r1 g1 where u: "UpsertPathChain stat now (fw_path f) (fw_meta f) imp g = (r1, g1)" by force
  have g1: "same_thumbs g g1" by (rule presD [OF chain u])
  show ?thesis
  proof (cases r1)
    case (Inl e)
    then have "g' = g1" using assms(1) u by (simp add: WriteFileInTx_rest andThen_def)
    then show ?thesis using g1 by (simp add: same_thumbs_def)
  next
    case (Inr y)
    obtain imp1 row where y: "y = (imp1, row)" by (cases y)
    have w: "file_rest f imp1 row g1 = (r, g')" using assms(1) u by (simp add: WriteFileInTx_rest andThen_def Inr y)
    have "fi_id row = fi_id x"
      by (rule chain_effect(5) [OF u [unfolded Inr y] proper_Clean [OF assms(4)] assms(2,5)])
    then have "has_row g1 (fi_id row)" using assms(6) g1 by (simp add: has_row_def same_thumbs_def)
    then have "same_thumbs g1 g'" using presD [OF pres_rest_keeps w] by (simp add: keeps_thumb_def)
    then show ?thesis using g1 by (simp add: same_thumbs_def)
  qed
qed

section \<open>A new file twice in a batch\<close>

lemma write_files_append:
  "write_files stat (as @ bs) imp g = andThen (write_files stat as imp) (\<lambda>imp'. write_files stat bs imp') g"
proof (induction as arbitrary: imp g)
  case Nil
  show ?case by (simp add: andThen_def returnDb_def)
next
  case (Cons x as)
  obtain now f where x: "x = (now, f)" by (cases x)
  show ?case using Cons by (simp add: x andThen_def split: prod.split sum.split)
qed

lemma others_written:
  assumes "write_files stat fs imp g = (Inr imp', g')" "tree_ok g" "cache_ok imp g" "proper_writes fs"
    and "p \<notin> (\<lambda>x. fw_path (snd x)) ` set fs"
  shows "file_at g' p = file_at g p \<and> more_thumbs g g' \<and> tree_ok g' \<and> cache_ok imp' g'"
  using assms
proof (induction fs arbitrary: imp g)
  case Nil
  then show ?case by (simp add: returnDb_def more_thumbs_def)
next
  case (Cons x fs)
  obtain now f where x: "x = (now, f)" by (cases x)
  have p: "proper_path (fw_path f)" "proper_writes fs" "fw_path f \<noteq> p" "p \<notin> (\<lambda>x. fw_path (snd x)) ` set fs"
    using Cons.prems by (auto simp: x)
  obtain imp1 g1 where s: "WriteFileInTx stat now f imp g = (Inr imp1, g1)" "write_files stat fs imp1 g1 = (Inr imp', g')"
    by (rule andThenE [OF Cons.prems(1) [unfolded x write_files.simps]])
  show ?case
    by (rule file_written [OF s(1) Cons.prems(2,3) p(1)])
      (use Cons.IH [OF s(2) _ _ p(2,4)] p(3) in \<open>auto simp: more_thumbs_def\<close>)
qed

lemma more_has_row: "more_thumbs g g' \<Longrightarrow> has_row g i \<Longrightarrow> has_row g' i"
  by (auto simp: more_thumbs_def has_row_def list_ex_iff)

text \<open>A batch that holds a new file twice, the second write in the same second as the first or
  earlier by the clock, always fails: both inserts want the thumbnail of the file. Nothing of the
  batch is kept.\<close>

theorem duplicate_new_file_fails:
  assumes "fs = as @ (t, f) # bs @ (t', f') # cs" "fw_path f' = fw_path f" "t' \<le> t"
    and "file_at g (fw_path f) = None" "fw_path f \<notin> (\<lambda>x. fw_path (snd x)) ` set (as @ bs)"
    and "has_thumb f" "has_thumb f'" "\<not> fw_exists f" "\<not> fw_exists f'" "tree_ok g" "proper_writes fs"
  shows "fst (flush_files stat fs g) \<noteq> None \<and> (\<exists>l. snd (flush_files stat fs g) = g\<lparr>faults := l\<rparr>)"
proof -
  let ?p = "fw_path f"
  have pr: "proper_writes as" "proper_path ?p" "proper_writes bs" "proper_writes cs" using assms(1,11) by simp_all
  have out: "?p \<notin> (\<lambda>x. fw_path (snd x)) ` set as" "?p \<notin> (\<lambda>x. fw_path (snd x)) ` set bs"
    using assms(5) by (simp_all add: image_Un)
  have "False" if w: "write_files stat fs newImporter g = (Inr imp', g')" for imp' g'
  proof -
    obtain imp1 g1 where 1: "write_files stat as newImporter g = (Inr imp1, g1)"
      "write_files stat ((t, f) # bs @ (t', f') # cs) imp1 g1 = (Inr imp', g')"
      using w unfolding assms(1) write_files_append andThen_Inr by blast
    have 11: "file_at g1 ?p = None" "tree_ok g1" "cache_ok imp1 g1"
      using others_written [OF 1(1) assms(10) new_importer_ok pr(1) out(1)] assms(4) by simp_all
    obtain imp2 g2 where 2: "WriteFileInTx stat t f imp1 g1 = (Inr imp2, g2)"
      "write_files stat (bs @ (t', f') # cs) imp2 g2 = (Inr imp', g')"
      by (rule andThenE [OF 1(2) [unfolded write_files.simps]])
    obtain row where 22: "file_at g2 ?p = Some row" "has_row g2 (fi_id row)" "fi_created row = t" "tree_ok g2" "cache_ok imp2 g2"
    proof (rule file_written [OF 2(1) 11(2,3) pr(2)])
      fix row h i
      assume r: "file_rest f i row h = (Inr imp2, g2)" "fi_updated row = t"
        "fi_created row = (case file_at g1 ?p of None \<Rightarrow> t | Some x \<Rightarrow> fi_created x)"
        "\<And>q. file_at g2 q = (if q = ?p then Some row else file_at g1 q)" "tree_ok g2" "cache_ok imp2 g2"
      have "\<not> fileExistedBeforeUpsert row" using r(2,3) 11(1) by (simp add: fileExistedBeforeUpsert_def)
      from rest_new_thumb(2) [OF r(1) assms(6,8) this] show thesis using that r 11(1) by simp
    qed
    obtain imp3 g3 where 3: "write_files stat bs imp2 g2 = (Inr imp3, g3)"
      "write_files stat ((t', f') # cs) imp3 g3 = (Inr imp', g')"
      using 2(2) unfolding write_files_append andThen_Inr by blast
    have 33: "file_at g3 ?p = Some row" "has_row g3 (fi_id row)" "tree_ok g3" "cache_ok imp3 g3"
      using others_written [OF 3(1) 22(4,5) pr(3) out(2)] 22(1) more_has_row [OF _ 22(2)] by auto
    obtain imp4 g4 where 4: "WriteFileInTx stat t' f' imp3 g3 = (Inr imp4, g4)"
      by (rule andThenE [OF 3(2) [unfolded write_files.simps]])
    have p': "proper_path (fw_path f')" using pr(2) assms(2) by simp
    show False
    proof (rule file_written [OF 4 33(3,4) p'])
      fix row' h i
      assume r: "file_rest f' i row' h = (Inr imp4, g4)" "same_thumbs g3 h" "fi_updated row' = t'"
        "fi_created row' = (case file_at g3 (fw_path f') of None \<Rightarrow> t' | Some x \<Rightarrow> fi_created x)"
        "\<And>x. file_at g3 (fw_path f') = Some x \<Longrightarrow> fi_id row' = fi_id x"
      have "\<not> fileExistedBeforeUpsert row'" using r(3,4) 33(1) 22(3) assms(2,3) by (simp add: fileExistedBeforeUpsert_def)
      from rest_new_thumb(1) [OF r(1) assms(7,9) this] have "\<not> has_row h (fi_id row)" using r(5) 33(1) assms(2) by simp
      then show False using r(2) 33(2) by (simp add: has_row_def same_thumbs_def)
    qed
  qed
  then show ?thesis by (auto simp: flush_files_def split: prod.split sum.split)
qed

section \<open>Examples\<close>

definition empty_gallery :: gallery where
  "empty_gallery = \<lparr>folder_paths = [], folders = [], file_paths = [], files = [], thumbs = [], blobs = [],
     invalids = [], exifs = [], faults = []\<rparr>"

definition a_file :: "int \<Rightarrow> string \<Rightarrow> file_input" where
  "a_file k thumb = \<lparr>fw_path = ''d/e/a'', fw_meta = \<lparr>m_size = Some k, m_mtime = Some k, m_md5 = Some ''h'', m_phash = 0,
     m_width = 1, m_height = 1, m_mime = ''image/jpeg''\<rparr>, fw_thumb = Some thumb, fw_camera = None, fw_exists = False\<rparr>"

definition one_file :: gallery where
  "one_file = snd (flush_files (\<lambda>p. None) [(10, a_file 1 ''t'')] empty_gallery)"

lemma empty_tree: "tree_ok empty_gallery"
  by (simp add: tree_ok_def keys_ok_def empty_gallery_def)

lemma a_proper: "proper_path (fw_path (a_file k t))"
  by (simp add: proper_path_def a_file_def component_def)

lemma one_file_tree: "tree_ok one_file"
  unfolding one_file_def by (rule flush_tree [OF empty_tree]) (simp add: a_proper)

lemma one_file_eval:
  "faults one_file = []" "map fi_id (files one_file) = [1]" "has_row one_file 1"
  "map_option fi_id (file_at one_file ''d/e/a'') = Some 1" "map snd (folder_paths one_file) = [[], ''d'', ''d/e'']"
  by code_simp+

theorem import_keeps_tree_witness:
  "tree_ok (foldl (\<lambda>g fs. snd (flush_files (\<lambda>p. None) fs g)) empty_gallery [[(10, a_file 1 ''t'')], [(20, a_file 2 ''u'')]])
    \<and> files one_file \<noteq> []"
proof
  show "tree_ok (foldl (\<lambda>g fs. snd (flush_files (\<lambda>p. None) fs g)) empty_gallery [[(10, a_file 1 ''t'')], [(20, a_file 2 ''u'')]])"
    by (rule import_keeps_tree [OF empty_tree]) (simp add: a_proper)
  show "files one_file \<noteq> []" using one_file_eval(2) by auto
qed

lemma one_file_flushed: "fst (flush_files (\<lambda>p. None) [(10, a_file 1 ''t'')] empty_gallery) = None"
  by code_simp

lemma one_file_other_folder: "file_rows one_file ''d/b'' = []" "file_rows empty_gallery p = []"
  by (simp add: file_rows_at [OF one_file_tree], code_simp) (simp add: file_rows_def empty_gallery_def)

theorem import_stores_data_witness:
  "(\<exists>x i. file_rows one_file ''d/e/a'' = [x] \<and> fi_meta x = fw_meta (a_file 1 ''t'') \<and> fi_name x = Base ''d/e/a''
      \<and> fi_folder x = Some i \<and> is_folder one_file (parent_path ''d/e/a'') i)
    \<and> file_rows one_file ''d/b'' = file_rows empty_gallery ''d/b''"
proof -
  have f: "flush_files (\<lambda>p. None) [(10, a_file 1 ''t'')] empty_gallery = (None, one_file)"
    using one_file_flushed by (simp add: one_file_def prod_eq_iff)
  have p: "fw_path (a_file 1 ''t'') = ''d/e/a''" by (simp add: a_file_def)
  have w: "proper_writes [(10, a_file 1 ''t'')]" by (simp add: a_proper)
  show ?thesis
    using import_stores_data [OF f empty_tree w, of "''d/e/a''"] import_stores_data [OF f empty_tree w, of "''d/b''"]
    by (auto simp: latest_simps p)
qed

lemma changed_file_written:
  "map_option fi_meta (file_at (snd (WriteFileInTx (\<lambda>p. None) 20 (a_file 2 ''u'') newImporter one_file)) ''d/e/a'')
    = Some (fw_meta (a_file 2 ''u''))"
  by code_simp

theorem thumbnail_never_replaced_witness:
  "thumbs (snd (WriteFileInTx (\<lambda>p. None) 20 (a_file 2 ''u'') newImporter one_file)) = thumbs one_file
    \<and> blobs (snd (WriteFileInTx (\<lambda>p. None) 20 (a_file 2 ''u'') newImporter one_file)) = blobs one_file
    \<and> map_option fi_meta (file_at (snd (WriteFileInTx (\<lambda>p. None) 20 (a_file 2 ''u'') newImporter one_file)) ''d/e/a'')
      = Some (fw_meta (a_file 2 ''u''))"
proof -
  obtain x where x: "file_at one_file (fw_path (a_file 2 ''u'')) = Some x" "fi_id x = 1"
    using one_file_eval(4) by (auto simp: a_file_def)
  have e: "WriteFileInTx (\<lambda>p. None) 20 (a_file 2 ''u'') newImporter one_file
      = (fst (WriteFileInTx (\<lambda>p. None) 20 (a_file 2 ''u'') newImporter one_file),
         snd (WriteFileInTx (\<lambda>p. None) 20 (a_file 2 ''u'') newImporter one_file))" by simp
  have "has_row one_file (fi_id x)" using one_file_eval(3) x(2) by simp
  from thumbnail_never_replaced [OF e one_file_tree new_importer_ok a_proper x(1) this]
  show ?thesis using changed_file_written by simp
qed

theorem duplicate_new_file_fails_witness:
  "fst (flush_files (\<lambda>p. None) [(10, a_file 1 ''t''), (10, a_file 2 ''u'')] empty_gallery) \<noteq> None"
proof -
  have "has_thumb (a_file k (c # s))" "\<not> fw_exists (a_file k s)" "fw_path (a_file k s) = ''d/e/a''" for k c s
    by (simp_all add: has_thumb_def a_file_def)
  moreover have "proper_path ''d/e/a''" using a_proper [of 1 "[]"] by (simp add: a_file_def)
  moreover have "file_at empty_gallery p = None" for p by (simp add: file_at_def id_of_path_def empty_gallery_def)
  ultimately show ?thesis
    using duplicate_new_file_fails [where as = "[]" and bs = "[]" and cs = "[]" and t = 10 and t' = 10
        and f = "a_file 1 ''t''" and f' = "a_file 2 ''u''" and stat = "\<lambda>p. None", OF refl _ _ _ _ _ _ _ _ empty_tree]
    by (simp add: a_proper)
qed

end
