(* ===== verification/Path_Util.thy ===== *)
theory Path_Util
  imports Go_Path
begin

text \<open>
  \<^verbatim>\<open>internal/server/pathutil/path.go\<close>: which file of the images directory a request path names, and which
  gallery path a file of the directory has. The working directory of the process is a parameter
  (absent when the system call fails).
\<close>

section \<open>Operations\<close>

definition Abs :: "string option \<Rightarrow> string \<Rightarrow> string option" where
  "Abs cwd p = (if rooted p then Some (Clean p) else case cwd of None \<Rightarrow> None | Some d \<Rightarrow> Some (Join2 d p))"

datatype path_error = ErrInvalidPath | ErrInvalidImagesDir | ErrPathTraversal

definition SafeImagePath :: "string option \<Rightarrow> string \<Rightarrow> string \<Rightarrow> path_error + string" where
  "SafeImagePath cwd imagesDir filePath =
     (if imagesDir = [] then Inl ErrInvalidImagesDir
      else case Abs cwd imagesDir of
          None \<Rightarrow> Inl ErrInvalidImagesDir
        | Some absImagesDir \<Rightarrow>
            (case Abs cwd (Join2 absImagesDir filePath) of
               None \<Rightarrow> Inl ErrInvalidPath
             | Some absPath \<Rightarrow>
                 (let prefix = (if HasSuffix absImagesDir ''/'' then absImagesDir else absImagesDir @ ''/'')
                  in if \<not> HasPrefix (absPath @ ''/'') prefix then Inl ErrPathTraversal else Inr absPath)))"

definition RemoveImagesDirPrefix :: "string \<Rightarrow> string \<Rightarrow> string option" where
  "RemoveImagesDirPrefix normalizedImagesDir path =
     (if HasPrefix path ''../'' \<or> Contains path ''/../'' then None
      else if normalizedImagesDir = [] then Some path
      else (let cleanDir = TrimSuffix normalizedImagesDir ''/'' in
        if rooted path \<and> path \<noteq> cleanDir \<and> \<not> HasPrefix path (cleanDir @ ''/'') then None
        else Some (TrimPrefix path (cleanDir @ ''/''))))"

section \<open>Absolute paths\<close>

text \<open>The absolute path with the given components.\<close>

definition abs_of :: "string list \<Rightarrow> string" where
  "abs_of cs = CHR ''/'' # join_slash cs"

lemma split_no_sep: "s \<in> set (split_on c p) \<Longrightarrow> c \<notin> set s"
  by (induction p arbitrary: s) (auto split: list.splits if_splits)

lemma clean_components_rooted:
  assumes "list_all component stack" "list_all (\<lambda>c. CHR ''/'' \<notin> set c) cs"
  shows "list_all component (clean_components True stack cs)"
  using assms
proof (induction cs arbitrary: stack)
  case (Cons c cs)
  show ?case
  proof (cases "c = [] \<or> c = ''.''")
    case False
    show ?thesis
    proof (cases "c = ''..''")
      case True
      then show ?thesis using Cons by (cases stack) (auto simp: component_def)
    next
      case no: False
      then have "component c" using False Cons.prems(2) by (simp add: component_def)
      then show ?thesis using Cons False no by simp
    qed
  qed (use Cons in auto)
qed (simp add: list_all_iff)

lemma Clean_rooted:
  assumes "rooted p"
  obtains cs where "Clean p = abs_of cs" "list_all component cs"
  using that [of "clean_components True [] (split_on CHR ''/'' p)"] assms split_no_sep
    clean_components_rooted [of "[]" "split_on CHR ''/'' p"]
  by (auto simp: Clean_def abs_of_def list_all_iff)

lemma rooted_append: "rooted p \<Longrightarrow> rooted (p @ q)"
  by (cases p) (simp_all add: rooted_def)

lemma rooted_abs [simp]: "rooted (abs_of cs)"
  by (simp add: rooted_def abs_of_def)

lemma Join2_rooted: "rooted d \<Longrightarrow> Join2 d n = Clean (d @ CHR ''/'' # n)" "rooted d \<Longrightarrow> rooted (Join2 d n)"
proof -
  assume d: "rooted d"
  then show j: "Join2 d n = Clean (d @ CHR ''/'' # n)" by (cases d) (simp_all add: Join2_def rooted_def)
  show "rooted (Join2 d n)" unfolding j
    by (rule Clean_rooted [OF rooted_append [OF d], of "CHR ''/'' # n"]) simp
qed

lemma Abs_cases:
  assumes "Abs (Some w) p = Some q" "rooted w"
  obtains cs where "q = abs_of cs" "list_all component cs"
proof (cases "rooted p")
  case True
  then show thesis using assms Clean_rooted [OF True] that by (auto simp: Abs_def)
next
  case False
  then have "q = Clean (w @ CHR ''/'' # p)" using assms by (simp add: Abs_def Join2_rooted)
  then show thesis using Clean_rooted [OF rooted_append [OF assms(2)]] that by metis
qed

section \<open>Prefixes of components\<close>

definition slashed :: "string list \<Rightarrow> string" where
  "slashed cs = concat (map (\<lambda>c. c @ ''/'') cs)"

lemma join_slashed: "cs \<noteq> [] \<Longrightarrow> join_slash cs @ ''/'' = slashed cs"
  by (induction cs rule: join_slash.induct) (auto simp: slashed_def)

lemma slashed_prefix:
  assumes "list_all component cs" "list_all component ds" "slashed ds = slashed cs @ r"
  shows "\<exists>rest. ds = cs @ rest"
  using assms
proof (induction cs arbitrary: ds)
  case (Cons c cs)
  have "slashed ds = c @ CHR ''/'' # (slashed cs @ r)" using Cons.prems(3) by (simp add: slashed_def)
  then obtain d ds' where ds: "ds = d # ds'" by (cases ds) (auto simp: slashed_def)
  then have e: "d @ CHR ''/'' # slashed ds' = c @ CHR ''/'' # (slashed cs @ r)"
    using Cons.prems(3) by (simp add: slashed_def)
  have no: "CHR ''/'' \<notin> set c" "CHR ''/'' \<notin> set d" using Cons.prems(1,2) ds by (simp_all add: component_def)
  have t: "takeWhile (\<lambda>x. x \<noteq> CHR ''/'') (a @ CHR ''/'' # b) = a" if "CHR ''/'' \<notin> set a" for a b
    by (subst takeWhile_append2) (use that in auto)
  have "d = c" using arg_cong [OF e, of "takeWhile (\<lambda>x. x \<noteq> CHR ''/'')"] t no by metis
  then show ?case using Cons.IH [of ds'] Cons.prems(1,2) e ds by auto
qed simp

lemma inside:
  assumes "list_all component cs" "list_all component ds"
    and "HasPrefix (abs_of ds @ ''/'') (if HasSuffix (abs_of cs) ''/'' then abs_of cs else abs_of cs @ ''/'')"
  shows "\<exists>rest. ds = cs @ rest"
proof (cases "cs = []")
  case False
  have "\<not> HasSuffix (abs_of cs) ''/''"
  proof
    assume s: "HasSuffix (abs_of cs) ''/''"
    obtain bs x where cs: "cs = bs @ [x]" using False by (cases cs rule: rev_cases) auto
    have x: "x \<noteq> []" "CHR ''/'' \<notin> set x" using assms(1) cs by (simp_all add: component_def)
    then obtain y b where y: "x = y @ [b]" by (cases x rule: rev_cases) auto
    have "\<exists>q. abs_of cs = q @ [b]" unfolding cs y by (cases "bs = []") (auto simp: abs_of_def join_snoc)
    then show False using s x(2) y by (auto simp: HasSuffix_def)
  qed
  then have p: "HasPrefix (join_slash ds @ ''/'') (join_slash cs @ ''/'')" using assms(3) by (simp add: abs_of_def HasPrefix_iff)
  show ?thesis
  proof (cases "ds = []")
    case True
    have "join_slash cs \<noteq> []" using join_head [OF assms(1) False] by simp
    then show ?thesis using p True by (cases "join_slash cs") (auto simp: HasPrefix_def)
  next
    case ds: False
    obtain r where "slashed ds = slashed cs @ r" using p by (auto simp: HasPrefix_iff join_slashed False ds)
    then show ?thesis by (rule slashed_prefix [OF assms(1,2)])
  qed
qed simp

text \<open>C26: A path that is served lies in the images directory: it is made of proper components, the
  first of which are those of the directory, whatever the request path contains.\<close>

theorem safe_path_inside:
  assumes "SafeImagePath (Some w) d f = Inr p" "rooted w"
  shows "\<exists>cs rest. Abs (Some w) d = Some (abs_of cs) \<and> p = abs_of (cs @ rest) \<and> list_all component (cs @ rest)"
proof -
  obtain a where a: "Abs (Some w) d = Some a" using assms by (auto simp: SafeImagePath_def split: if_splits option.splits)
  obtain cs where cs: "a = abs_of cs" "list_all component cs" by (rule Abs_cases [OF a assms(2)])
  have q: "Abs (Some w) (Join2 a f) = Some p"
    and h: "HasPrefix (p @ ''/'') (if HasSuffix a ''/'' then a else a @ ''/'')"
    using assms a by (auto simp: SafeImagePath_def Let_def split: if_splits option.splits)
  obtain ds where ds: "p = abs_of ds" "list_all component ds" by (rule Abs_cases [OF q assms(2)])
  obtain rest where "ds = cs @ rest" using inside [OF cs(2) ds(2)] h cs(1) ds(1) by blast
  then show ?thesis using a cs ds by blast
qed

theorem safe_path_inside_witness:
  "SafeImagePath (Some ''/home'') ''img/'' ''a/../b//c.jpg'' = Inr ''/home/img/b/c.jpg'' \<and>
   (\<exists>cs rest. Abs (Some ''/home'') ''img/'' = Some (abs_of cs) \<and> ''/home/img/b/c.jpg'' = abs_of (cs @ rest)
     \<and> list_all component (cs @ rest)) \<and>
   SafeImagePath (Some ''/home'') ''img'' ''../secret'' = Inl ErrPathTraversal"
proof (intro conjI)
  show e: "SafeImagePath (Some ''/home'') ''img/'' ''a/../b//c.jpg'' = Inr ''/home/img/b/c.jpg''" by code_simp
  show "\<exists>cs rest. Abs (Some ''/home'') ''img/'' = Some (abs_of cs) \<and> ''/home/img/b/c.jpg'' = abs_of (cs @ rest)
     \<and> list_all component (cs @ rest)"
    by (rule safe_path_inside [OF e]) (simp add: rooted_def)
  show "SafeImagePath (Some ''/home'') ''img'' ''../secret'' = Inl ErrPathTraversal" by code_simp
qed

text \<open>A file below the directory gets its path relative to it; the directory itself keeps its
  absolute path.\<close>

lemma split_append: "split_on c (l @ c # r) = split_on c l @ split_on c r"
  by (induction l) (auto split: list.split)

lemma no_traversal:
  assumes "list_all component cs"
  shows "\<not> Contains (abs_of cs) ''/../''" "\<not> HasPrefix (abs_of cs) ''../''"
proof -
  have no: "''..'' \<notin> set (split_on CHR ''/'' (abs_of cs))"
    using assms by (cases "cs = []") (auto simp: abs_of_def split_join component_def list_all_iff)
  show "\<not> Contains (abs_of cs) ''/../''"
  proof
    assume "Contains (abs_of cs) ''/../''"
    then obtain l r where "abs_of cs = l @ CHR ''/'' # ''..'' @ CHR ''/'' # r" by (auto simp: Contains_iff)
    then have "split_on CHR ''/'' (abs_of cs) = split_on CHR ''/'' l @ split_on CHR ''/'' (''..'' @ CHR ''/'' # r)"
      using split_append [of "CHR ''/''" l "''..'' @ CHR ''/'' # r"] by simp
    with no show False using split_append [of "CHR ''/''" "''..''" r] by auto
  qed
  show "\<not> HasPrefix (abs_of cs) ''../''" by (simp add: abs_of_def HasPrefix_def)
qed

lemma abs_no_slash:
  assumes "list_all component cs" "cs \<noteq> []"
  shows "TrimSuffix (abs_of cs) ''/'' = abs_of cs" "\<not> HasPrefix (abs_of cs) (abs_of cs @ ''/'')"
proof -
  obtain bs x where cs: "cs = bs @ [x]" using assms(2) by (cases cs rule: rev_cases) auto
  have x: "x \<noteq> []" "CHR ''/'' \<notin> set x" using assms(1) cs by (simp_all add: component_def)
  then obtain y b where y: "x = y @ [b]" by (cases x rule: rev_cases) auto
  have "\<exists>q. abs_of cs = q @ [b]" unfolding cs y by (cases "bs = []") (auto simp: abs_of_def join_snoc)
  then have "\<not> HasSuffix (abs_of cs) ''/''" using x(2) y by (auto simp: HasSuffix_def)
  then show "TrimSuffix (abs_of cs) ''/'' = abs_of cs" by (simp add: TrimSuffix_def)
  show "\<not> HasPrefix (abs_of cs) (abs_of cs @ ''/'')" by (simp add: HasPrefix_iff)
qed

lemma RemoveImagesDirPrefix_below:
  assumes "list_all component (cs @ rest)" "cs \<noteq> []" "rest \<noteq> []"
  shows "RemoveImagesDirPrefix (abs_of cs) (abs_of (cs @ rest)) = Some (join_slash rest)"
proof -
  have c: "list_all component cs" using assms(1) by simp
  have j: "abs_of (cs @ rest) = (abs_of cs @ ''/'') @ join_slash rest" using assms by (simp add: abs_of_def join_append)
  then have "HasPrefix (abs_of (cs @ rest)) (abs_of cs @ ''/'')" by (metis HasPrefix_append)
  moreover have "TrimPrefix (abs_of (cs @ rest)) (abs_of cs @ ''/'') = join_slash rest"
    unfolding j TrimPrefix_def by (simp add: HasPrefix_def)
  moreover have "abs_of cs \<noteq> []" by (simp add: abs_of_def)
  ultimately show ?thesis using no_traversal [OF assms(1)] abs_no_slash [OF c assms(2)]
    by (simp add: RemoveImagesDirPrefix_def Let_def)
qed

lemma RemoveImagesDirPrefix_root:
  assumes "list_all component cs" "cs \<noteq> []"
  shows "RemoveImagesDirPrefix (abs_of cs) (abs_of cs) = Some (abs_of cs)"
proof -
  have "abs_of cs \<noteq> []" by (simp add: abs_of_def)
  then show ?thesis using no_traversal [OF assms(1)] abs_no_slash [OF assms]
    by (simp add: RemoveImagesDirPrefix_def Let_def TrimPrefix_def)
qed

end
