(* ===== verification/Discovery.thy ===== *)
theory Discovery
  imports Import_Files Path_Util Walk_Dir
begin

text \<open>
  What a discovery walk asks the gallery (\<^verbatim>\<open>internal/server/files/discovery_*.go\<close>): the catalogue of a
  directory, the decision whether a file must be processed, and the form of a work item on disk.
\<close>

section \<open>Counters\<close>

record proc_stats =
  ps_TotalFound :: "64 word"
  ps_AlreadyExisting :: "64 word"
  ps_NewlyInserted :: "64 word"
  ps_SkippedInvalid :: "64 word"
  ps_InFlight :: "64 word"

definition ProcessingStats_Reset :: "proc_stats \<Rightarrow> proc_stats" where
  "ProcessingStats_Reset s = s\<lparr>ps_TotalFound := 0, ps_AlreadyExisting := 0, ps_NewlyInserted := 0,
     ps_SkippedInvalid := 0, ps_InFlight := 0\<rparr>"

section \<open>The decision\<close>

datatype walk_outcome = DiscoveryWalkProcess | DiscoveryWalkSkipUnchangedValid | DiscoveryWalkSkipUnchangedInvalid

record compare_input =
  ci_InCatalogMap :: bool
  ci_WalkMtime :: int
  ci_WalkSize :: int
  ci_InvalidPathValid :: bool
  ci_InvalidMtime :: int
  ci_InvalidSize :: int
  ci_FileIDValid :: bool
  ci_FileMtime :: "int option"
  ci_FileSize :: "int option"
  ci_FileMD5Valid :: bool

definition discoveryModificationDecision :: "compare_input \<Rightarrow> walk_outcome" where
  "discoveryModificationDecision i =
     (if \<not> ci_InCatalogMap i then DiscoveryWalkProcess
      else if ci_InvalidPathValid i \<and> ci_InvalidMtime i = ci_WalkMtime i \<and> ci_InvalidSize i = ci_WalkSize i
        then DiscoveryWalkSkipUnchangedInvalid
      else if ci_FileIDValid i \<and> ci_FileMtime i = Some (ci_WalkMtime i) \<and> ci_FileSize i = Some (ci_WalkSize i)
          \<and> ci_FileMD5Valid i
        then DiscoveryWalkSkipUnchangedValid
      else DiscoveryWalkProcess)"

text \<open>The zero state of a file that is not in the catalogue.\<close>

definition zero_dirent :: dirent_state where
  "zero_dirent = \<lparr>ds_InvalidPathValid = False, ds_InvalidMtime = 0, ds_InvalidSize = 0, ds_FileIDValid = False,
     ds_FileMtime = None, ds_FileSize = None, ds_FileMD5Valid = False\<rparr>"

definition count_outcome :: "walk_outcome \<Rightarrow> proc_stats \<Rightarrow> proc_stats" where
  "count_outcome out s =
     (let s1 = s\<lparr>ps_TotalFound := ps_TotalFound s + 1\<rparr> in
      case out of
        DiscoveryWalkSkipUnchangedValid \<Rightarrow> s1\<lparr>ps_AlreadyExisting := ps_AlreadyExisting s1 + 1\<rparr>
      | DiscoveryWalkSkipUnchangedInvalid \<Rightarrow> s1\<lparr>ps_SkippedInvalid := ps_SkippedInvalid s1 + 1\<rparr>
      | DiscoveryWalkProcess \<Rightarrow> s1)"

definition discoveryDirEntModifiedCore ::
  "proc_stats option \<Rightarrow> file_info option \<Rightarrow> dirent_state option \<Rightarrow> bool option \<times> proc_stats option" where
  "discoveryDirEntModifiedCore stats info entry =
     (case info of
        None \<Rightarrow> (None, stats)
      | Some i \<Rightarrow>
          (let st = (case entry of None \<Rightarrow> zero_dirent | Some d \<Rightarrow> d);
               out = discoveryModificationDecision
                 \<lparr>ci_InCatalogMap = (entry \<noteq> None), ci_WalkMtime = fi_mtime i, ci_WalkSize = fi_size i,
                   ci_InvalidPathValid = ds_InvalidPathValid st, ci_InvalidMtime = ds_InvalidMtime st,
                   ci_InvalidSize = ds_InvalidSize st, ci_FileIDValid = ds_FileIDValid st,
                   ci_FileMtime = ds_FileMtime st, ci_FileSize = ds_FileSize st, ci_FileMD5Valid = ds_FileMD5Valid st\<rparr>
           in (Some (out = DiscoveryWalkProcess), map_option (count_outcome out) stats)))"

text \<open>The check a walk is configured with, without its counters.\<close>

definition DiscoveryDirEntModified :: "string \<Rightarrow> file_info \<Rightarrow> dirent_state option \<Rightarrow> bool option" where
  "DiscoveryDirEntModified name i entry = fst (discoveryDirEntModifiedCore None (Some i) entry)"

section \<open>The catalogue of a directory\<close>

definition discoveryFileRowToDirEnt :: "file_rec \<Rightarrow> dirent_state" where
  "discoveryFileRowToDirEnt row = zero_dirent\<lparr>ds_FileIDValid := True, ds_FileMtime := m_mtime (fi_meta row),
     ds_FileSize := m_size (fi_meta row), ds_FileMD5Valid := (m_md5 (fi_meta row) \<noteq> None)\<rparr>"

definition mergeInvalidIntoDirEnt :: "dirent_state \<Rightarrow> invalid_rec \<Rightarrow> dirent_state" where
  "mergeInvalidIntoDirEnt st row = st\<lparr>ds_InvalidPathValid := True, ds_InvalidMtime := iv_mtime row,
     ds_InvalidSize := iv_size row\<rparr>"

definition discoveryInvalidRowToDirEnt :: "invalid_rec \<Rightarrow> dirent_state" where
  "discoveryInvalidRowToDirEnt row = mergeInvalidIntoDirEnt zero_dirent row"

definition add_invalid_row :: "(path_hash \<rightharpoonup> dirent_state) \<Rightarrow> invalid_rec \<Rightarrow> (path_hash \<rightharpoonup> dirent_state)" where
  "add_invalid_row m row =
     (let key = HashPathBytes (Base (iv_path row)) in
      case m key of
        Some existing \<Rightarrow> m(key \<mapsto> mergeInvalidIntoDirEnt existing row)
      | None \<Rightarrow> m(key \<mapsto> discoveryInvalidRowToDirEnt row))"

definition buildDirEntMapFromRows :: "file_rec list \<Rightarrow> invalid_rec list \<Rightarrow> (path_hash \<rightharpoonup> dirent_state)" where
  "buildDirEntMapFromRows fileRows invalidRows =
     foldl add_invalid_row
       (foldl (\<lambda>m row. m(HashPathBytes (fi_name row) \<mapsto> discoveryFileRowToDirEnt row)) Map.empty fileRows) invalidRows"

text \<open>A connection of the pool may not be had.\<close>

definition GetConn :: "unit db" where
  "GetConn = stmt (\<lambda>g. (Inr (), g))"

definition ListDiscoveryFilesByFolderID :: "int \<Rightarrow> file_rec list db" where
  "ListDiscoveryFilesByFolderID i = stmt (\<lambda>g. (Inr (filter (\<lambda>f. fi_folder f = Some i) (files g)), g))"

definition ListDiscoveryInvalidByFolderID :: "int \<Rightarrow> invalid_rec list db" where
  "ListDiscoveryInvalidByFolderID i = stmt (\<lambda>g. (Inr (filter (\<lambda>r. iv_folder r = i) (invalids g)), g))"

definition NewDiscoveryDirEntMapFunc :: "string \<Rightarrow> string \<Rightarrow> (path_hash \<rightharpoonup> dirent_state) db" where
  "NewDiscoveryDirEntMapFunc normalizedImagesDir reportedDir =
     (case RemoveImagesDirPrefix normalizedImagesDir reportedDir of
        None \<Rightarrow> failDb Failure
      | Some galleryDir \<Rightarrow>
          andThen GetConn (\<lambda>_.
            andThen (tryDb (GetFolderIDByPath galleryDir)) (\<lambda>r.
              case r of
                Inl e \<Rightarrow> if e = NoRows then returnDb Map.empty else failDb e
              | Inr i \<Rightarrow>
                  andThen (ListDiscoveryFilesByFolderID i) (\<lambda>fileRows.
                    andThen (ListDiscoveryInvalidByFolderID i) (\<lambda>invalidRows.
                      returnDb (buildDirEntMapFromRows fileRows invalidRows))))))"

section \<open>Work items on disk\<close>

record path_work =
  pw_Path :: string
  pw_MtimeUnix :: "64 word"
  pw_SizeBytes :: "64 word"

definition be_put :: "nat \<Rightarrow> nat \<Rightarrow> string" where
  "be_put n v = map (\<lambda>k. char_of (v div 256 ^ k)) (rev [0..<n])"

definition be_get :: "string \<Rightarrow> nat" where
  "be_get s = foldl (\<lambda>acc c. 256 * acc + of_char c) 0 s"

definition PathWork_GobEncode :: "path_work \<Rightarrow> string" where
  "PathWork_GobEncode w = be_put 8 (unat (pw_MtimeUnix w)) @ be_put 8 (unat (pw_SizeBytes w))
     @ be_put 4 (length (pw_Path w)) @ pw_Path w"

definition PathWork_GobDecode :: "string \<Rightarrow> path_work option" where
  "PathWork_GobDecode data =
     (if length data < 20 then None
      else (let pathLen = be_get (take 4 (drop 16 data)) in
        if length data < 20 + pathLen then None
        else Some \<lparr>pw_Path = take pathLen (drop 20 data), pw_MtimeUnix = word_of_nat (be_get (take 8 data)),
          pw_SizeBytes = word_of_nat (be_get (take 8 (drop 8 data)))\<rparr>))"

lemma length_be_put [simp]: "length (be_put n v) = n"
  by (simp add: be_put_def)

lemma be_get_Cons: "be_get (c # s) = of_char c * 256 ^ length s + be_get s"
proof -
  have "foldl (\<lambda>acc c. 256 * acc + of_char c) (a + b) s = a * 256 ^ length s + foldl (\<lambda>acc c. 256 * acc + of_char c) b s"
    for a b :: nat
    by (induction s arbitrary: a b) (simp_all add: algebra_simps)
  from this [of "of_char c" 0] show ?thesis by (simp add: be_get_def)
qed

lemma be_get_put: "be_get (be_put n v) = v mod 256 ^ n"
proof (induction n arbitrary: v)
  case (Suc n)
  have "be_put (Suc n) v = char_of (v div 256 ^ n) # be_put n v" by (simp add: be_put_def)
  then have "be_get (be_put (Suc n) v) = v div 256 ^ n mod 256 * 256 ^ n + be_get (be_put n v)"
    by (simp add: be_get_Cons)
  moreover have "v mod 256 ^ Suc n = 256 ^ n * (v div 256 ^ n mod 256) + v mod 256 ^ n"
    unfolding power_Suc2 by (rule mod_mult2_eq)
  ultimately show ?case using Suc.IH [of v] by (simp add: mult.commute)
qed (simp add: be_put_def be_get_def)

text \<open>A work item read back from its bytes is the item that was written, as long as the path has
  less than four gigabytes; bytes after the path are ignored, and anything shorter is refused.\<close>

theorem path_work_roundtrip:
  assumes "length (pw_Path w) < 2 ^ 32"
  shows "PathWork_GobDecode (PathWork_GobEncode w @ rest) = Some w \<and>
    (\<forall>k < length (PathWork_GobEncode w). PathWork_GobDecode (take k (PathWork_GobEncode w)) = None)"
proof
  let ?e = "PathWork_GobEncode w"
  have u: "unat x mod 256 ^ 8 = unat x" for x :: "64 word"
  proof -
    have "unat x < 2 ^ LENGTH(64)" by (rule unsigned_less)
    then show ?thesis by simp
  qed
  have l: "length (pw_Path w) mod 256 ^ 4 = length (pw_Path w)" using assms by simp
  have n: "length ?e = 20 + length (pw_Path w)" by (simp add: PathWork_GobEncode_def)
  have t: "take 8 (?e @ r) = be_put 8 (unat (pw_MtimeUnix w))" "take 8 (drop 8 (?e @ r)) = be_put 8 (unat (pw_SizeBytes w))"
    "take 4 (drop 16 (?e @ r)) = be_put 4 (length (pw_Path w))" "drop 20 (?e @ r) = pw_Path w @ r" for r
    by (simp_all add: PathWork_GobEncode_def)
  show "PathWork_GobDecode (?e @ rest) = Some w"
    using n by (simp only: PathWork_GobDecode_def t be_get_put u l Let_def) simp
  show "\<forall>k < length ?e. PathWork_GobDecode (take k ?e) = None"
  proof (intro allI impI)
    fix k assume k: "k < length ?e"
    show "PathWork_GobDecode (take k ?e) = None"
    proof (cases "k < 20")
      case False
      have "take 4 (drop 16 (take k ?e)) = take 4 (drop 16 ?e)"
        using False by (simp add: take_drop min_absorb1)
      also have "\<dots> = be_put 4 (length (pw_Path w))" using t(3) [of "[]"] by simp
      finally have "be_get (take 4 (drop 16 (take k ?e))) = length (pw_Path w)" by (simp only: be_get_put l)
      then show ?thesis using k n by (simp add: PathWork_GobDecode_def Let_def)
    qed (simp add: PathWork_GobDecode_def min_less_iff_disj)
  qed
qed

theorem path_work_roundtrip_witness:
  "PathWork_GobDecode (PathWork_GobEncode \<lparr>pw_Path = ''/g/a.jpg'', pw_MtimeUnix = 1700000000, pw_SizeBytes = 7\<rparr> @ [])
    = Some \<lparr>pw_Path = ''/g/a.jpg'', pw_MtimeUnix = 1700000000, pw_SizeBytes = 7\<rparr>"
  using path_work_roundtrip [of "\<lparr>pw_Path = ''/g/a.jpg'', pw_MtimeUnix = 1700000000, pw_SizeBytes = 7\<rparr>" "[]"] by simp

section \<open>What the catalogue holds\<close>

lemma files_fold_other:
  assumes "\<And>r. r \<in> set rows \<Longrightarrow> HashPathBytes (fi_name r) \<noteq> h"
  shows "foldl (\<lambda>m row. m(HashPathBytes (fi_name row) \<mapsto> discoveryFileRowToDirEnt row)) m rows h = m h"
  using assms by (induction rows arbitrary: m) auto

lemma files_fold_one:
  assumes "x \<in> set rows" "\<And>r. r \<in> set rows \<Longrightarrow> HashPathBytes (fi_name r) = HashPathBytes (fi_name x) \<Longrightarrow> r = x"
  shows "foldl (\<lambda>m row. m(HashPathBytes (fi_name row) \<mapsto> discoveryFileRowToDirEnt row)) m rows (HashPathBytes (fi_name x))
    = Some (discoveryFileRowToDirEnt x)"
  using assms
proof (induction rows arbitrary: m)
  case (Cons r rows)
  show ?case
  proof (cases "x \<in> set rows")
    case True
    then show ?thesis using Cons by simp
  next
    case False
    then have "r = x" "\<And>y. y \<in> set rows \<Longrightarrow> HashPathBytes (fi_name y) \<noteq> HashPathBytes (fi_name x)"
      using Cons.prems by auto
    then show ?thesis by (simp add: files_fold_other fun_upd_same del: fun_upd_apply)
  qed
qed simp

lemma invalid_fold_other:
  assumes "\<And>r. r \<in> set rows \<Longrightarrow> HashPathBytes (Base (iv_path r)) \<noteq> h"
  shows "foldl add_invalid_row m rows h = m h"
  using assms by (induction rows arbitrary: m) (auto simp: add_invalid_row_def Let_def split: option.splits)

lemma stmt_nofault [simp]: "faults g = [] \<Longrightarrow> stmt f g = f g"
  by (cases g) (simp add: stmt_def)

text \<open>The catalogue of a directory below the images directory.\<close>

lemma catalogue_below:
  assumes g: "faults g = []" and f: "folder_at g (join_slash cs) = Some fo"
    and c: "list_all component (ds @ cs)" "ds \<noteq> []" "cs \<noteq> []"
  shows "NewDiscoveryDirEntMapFunc (abs_of ds) (abs_of (ds @ cs)) g =
    (Inr (buildDirEntMapFromRows (filter (\<lambda>x. fi_folder x = Some (fo_id fo)) (files g))
      (filter (\<lambda>r. iv_folder r = fo_id fo) (invalids g))), g)"
  using g f RemoveImagesDirPrefix_below [OF c]
  by (simp add: NewDiscoveryDirEntMapFunc_def GetConn_def GetFolderIDByPath_def andThen_def tryDb_def found_def
      ListDiscoveryFilesByFolderID_def ListDiscoveryInvalidByFolderID_def returnDb_def)

lemma decision_of_file:
  assumes "m (HashPathBytes n) = Some (discoveryFileRowToDirEnt x)"
  shows "DiscoveryDirEntModified n i (m (HashPathBytes n)) =
    Some (\<not> (m_mtime (fi_meta x) = Some (fi_mtime i) \<and> m_size (fi_meta x) = Some (fi_size i) \<and> m_md5 (fi_meta x) \<noteq> None))"
  using assms by (simp add: DiscoveryDirEntModified_def discoveryDirEntModifiedCore_def discoveryModificationDecision_def
      discoveryFileRowToDirEnt_def zero_dirent_def Let_def)

lemma folder_at_is: "tree_ok g \<Longrightarrow> is_folder g p i \<Longrightarrow> \<exists>fo. folder_at g p = Some fo \<and> fo_id fo = i"
  unfolding is_folder_def using folder_at_iff [OF tree_keys] by blast

lemma file_at_in:
  assumes "tree_ok g" "file_at g p = Some x"
  shows "x \<in> set (files g)" "(fi_path x, p) \<in> set (file_paths g)"
proof -
  obtain k where k: "id_of_path (file_paths g) p = Some k" "List.find (\<lambda>f. fi_path f = k) (files g) = Some x"
    using assms(2) by (auto simp: file_at_def split: option.splits)
  have "distinct (map snd (file_paths g))" using tree_keys [OF assms(1)] by (simp add: keys_ok_def)
  then show "x \<in> set (files g)" "(fi_path x, p) \<in> set (file_paths g)"
    using k find_SomeD [OF k(2)] id_of_path_iff by auto
qed

text \<open>Rows of one folder lie in the directory of its path; without collisions a hash of a name
  determines the row.\<close>

lemma folder_path_unique:
  assumes "tree_ok g" "is_folder g p i" "is_folder g q i"
  shows "p = q"
proof -
  note K = tree_keys [OF assms(1), unfolded keys_ok_def]
  obtain f f' where f: "f \<in> set (folders g)" "fo_id f = i" "(fo_path f, p) \<in> set (folder_paths g)"
    "f' \<in> set (folders g)" "fo_id f' = i" "(fo_path f', q) \<in> set (folder_paths g)"
    using assms(2,3) by (auto simp: is_folder_def)
  moreover have "inj_on fo_id (set (folders g))" using K by (simp add: distinct_map)
  ultimately have "f = f'" by (simp add: inj_onD)
  moreover have "distinct (map fst (folder_paths g))" using K by simp
  ultimately show ?thesis using f(3,6) eq_key_imp_eq_value by metis
qed

lemma same_name_same_file:
  assumes t: "tree_ok g" and c: "list_all component (cs @ [n])" and x: "file_at g (join_slash (cs @ [n])) = Some x"
    and nc: "\<forall>q. file_rows g q \<noteq> [] \<and> parent_path q = join_slash cs \<and> HashPathBytes (Base q) = HashPathBytes n
      \<longrightarrow> q = join_slash (cs @ [n])"
    and y: "y \<in> set (files g)" "fi_folder y = fi_folder x" "HashPathBytes (fi_name y) = HashPathBytes n"
  shows "y = x"
proof -
  note K = tree_keys [OF t, unfolded keys_ok_def]
  obtain q where q: "(fi_path y, q) \<in> set (file_paths g)" using K y(1) by (auto simp: subset_iff image_iff)
  have fy: "file_ok g y q" by (rule tree_fileD [OF t y(1) q])
  obtain i where i: "fi_folder x = Some i" "is_folder g (parent_path (join_slash (cs @ [n]))) i"
    using file_at_parent [OF t x] by blast
  have "is_folder g (parent_path q) i" using fy i(1) y(2) by (auto simp: file_ok_def)
  from folder_path_unique [OF t this i(2)] have "parent_path q = join_slash cs" using parent_join [OF c] by simp
  moreover have rows: "y \<in> set (file_rows g q)" using y(1) q by (simp add: file_rows_def)
  moreover have "HashPathBytes (Base q) = HashPathBytes n" using fy y(3) by (simp add: file_ok_def)
  ultimately have "q = join_slash (cs @ [n])" using nc by force
  with rows x show ?thesis by (simp add: file_rows_at [OF t])
qed

text \<open>The catalogue of a directory below the images directory decides about a file that was imported
  as intended: a walk reports the file exactly when its time or size differ from the record or the
  record has no checksum (when no two files of the directory have the same hash of their names and no
  invalid entry is left under the name).\<close>

lemma catalogue_decides:
  assumes "tree_ok g" "faults g = []" "list_all component (ds @ cs @ [n])" "ds \<noteq> []" "cs \<noteq> []"
    and "file_at g (join_slash (cs @ [n])) = Some x"
    and "\<forall>y \<in> set (files g). fi_folder y = fi_folder x \<and> HashPathBytes (fi_name y) = HashPathBytes n \<longrightarrow> y = x"
    and "\<forall>r \<in> set (invalids g). HashPathBytes (Base (iv_path r)) \<noteq> HashPathBytes n"
  shows "\<exists>m. NewDiscoveryDirEntMapFunc (abs_of ds) (abs_of (ds @ cs)) g = (Inr m, g) \<and>
    (\<forall>i. DiscoveryDirEntModified n i (m (HashPathBytes n)) =
      Some (\<not> (m_mtime (fi_meta x) = Some (fi_mtime i) \<and> m_size (fi_meta x) = Some (fi_size i)
        \<and> m_md5 (fi_meta x) \<noteq> None)))"
proof -
  note x = file_at_in [OF assms(1,6)]
  have c: "list_all component (cs @ [n])" "list_all component (ds @ cs)" using assms(3) by simp_all
  have ok: "file_ok g x (join_slash (cs @ [n]))" by (rule tree_fileD [OF assms(1) x])
  obtain j where j: "fi_folder x = Some j" "is_folder g (join_slash cs) j" "fi_name x = n"
    using ok parent_join [OF c(1)] Base_join [OF c(1)] by (auto simp: file_ok_def)
  obtain fo where fo: "folder_at g (join_slash cs) = Some fo" "fo_id fo = j"
    using folder_at_is [OF assms(1) j(2)] by blast
  let ?rows = "filter (\<lambda>y. fi_folder y = Some (fo_id fo)) (files g)"
  let ?m = "buildDirEntMapFromRows ?rows (filter (\<lambda>r. iv_folder r = fo_id fo) (invalids g))"
  have in_rows: "x \<in> set ?rows" using x(1) j(1) fo(2) by simp
  have only: "r = x" if "r \<in> set ?rows" "HashPathBytes (fi_name r) = HashPathBytes (fi_name x)" for r
    using assms(7) that j fo(2) by simp
  have "?m (HashPathBytes n) = foldl (\<lambda>m row. m(HashPathBytes (fi_name row) \<mapsto> discoveryFileRowToDirEnt row)) Map.empty ?rows (HashPathBytes n)"
    unfolding buildDirEntMapFromRows_def by (rule invalid_fold_other) (use assms(8) in simp)
  then have "?m (HashPathBytes (fi_name x)) = Some (discoveryFileRowToDirEnt x)"
    using files_fold_one [OF in_rows only] by (simp only: j(3))
  then have "?m (HashPathBytes n) = Some (discoveryFileRowToDirEnt x)" by (simp add: j(3))
  from decision_of_file [where m = ?m and n = n, OF this] catalogue_below [OF assms(2) fo(1) c(2) assms(4,5)] show ?thesis by blast
qed


text \<open>A file that lies directly in the images directory is reported by every walk: the path of
  the directory itself is not made relative, no folder has an absolute path, and the empty catalogue
  that results takes every file for new.\<close>

theorem root_files_always_processed:
  assumes "faults g = []" "list_all component ds" "ds \<noteq> []" "\<forall>r \<in> set (folder_paths g). \<not> rooted (snd r)"
  shows "NewDiscoveryDirEntMapFunc (abs_of ds) (abs_of ds) g = (Inr Map.empty, g) \<and>
    DiscoveryDirEntModified n i (Map.empty (HashPathBytes n)) = Some True"
proof
  have "id_of_path (folder_paths g) (abs_of ds) = None"
    using assms(4) by (force simp: id_of_path_None)
  then have "folder_at g (abs_of ds) = None" by (simp add: folder_at_def)
  then show "NewDiscoveryDirEntMapFunc (abs_of ds) (abs_of ds) g = (Inr Map.empty, g)"
    using assms(1) RemoveImagesDirPrefix_root [OF assms(2,3)]
    by (simp add: NewDiscoveryDirEntMapFunc_def GetConn_def GetFolderIDByPath_def andThen_def tryDb_def found_def returnDb_def)
  show "DiscoveryDirEntModified n i (Map.empty (HashPathBytes n)) = Some True"
    by (simp add: DiscoveryDirEntModified_def discoveryDirEntModifiedCore_def discoveryModificationDecision_def Let_def)
qed

lemma one_file_rows: "file_rows one_file q \<noteq> [] \<Longrightarrow> q = ''d/e/a''"
proof -
  assume a: "file_rows one_file q \<noteq> []"
  have "map snd (file_paths one_file) = [''d/e/a'']" by code_simp
  then have "snd ` set (file_paths one_file) = {''d/e/a''}" by (metis image_set list.simps(15) empty_set)
  moreover from a have "q \<in> snd ` set (file_paths one_file)"
    by (force simp: file_rows_def filter_empty_conv)
  ultimately show ?thesis by simp
qed


theorem root_files_always_processed_witness:
  "NewDiscoveryDirEntMapFunc (abs_of [''img'']) (abs_of [''img'']) one_file = (Inr Map.empty, one_file)"
proof -
  have e: "faults one_file = []" "list_all (\<lambda>r. \<not> rooted (snd r)) (folder_paths one_file)" by code_simp+
  have "\<forall>r \<in> set (folder_paths one_file). \<not> rooted (snd r)" using e(2) by (simp add: list_all_iff)
  from root_files_always_processed [OF e(1) _ _ this, of "[''img'']"] show ?thesis by (simp add: component_def)
qed

end
