(* ===== verification/Import_Retry.thy ===== *)
theory Import_Retry
  imports Discovery
begin

text \<open>
  What a failed flush leaves in memory. The files of a batch are passed by reference: a write returns
  the thumbnail of its file to the pool and marks files that were there before, and the write batcher
  submits the same files again when the transaction was rolled back.
\<close>

section \<open>The files after a flush\<close>

definition file_after_write ::
  "(string \<Rightarrow> int option) \<Rightarrow> int \<Rightarrow> file_input \<Rightarrow> importer \<Rightarrow> gallery \<Rightarrow> file_input" where
  "file_after_write stat now f imp g =
     (case UpsertPathChain stat now (fw_path f) (fw_meta f) imp g of
        (Inl e, _) \<Rightarrow> f
      | (Inr (imp1, row), _) \<Rightarrow>
          (let f1 = f\<lparr>fw_exists := (fw_exists f \<or> fileExistedBeforeUpsert row)\<rparr> in
           case WriteFileInTx stat now f imp g of (Inl e, _) \<Rightarrow> f1 | (Inr _, _) \<Rightarrow> f1\<lparr>fw_thumb := None\<rparr>))"

fun batch_after ::
  "(string \<Rightarrow> int option) \<Rightarrow> (int \<times> file_input) list \<Rightarrow> importer \<Rightarrow> gallery \<Rightarrow> file_input list" where
  "batch_after stat [] imp g = []"
| "batch_after stat ((now, f) # fs) imp g =
     file_after_write stat now f imp g #
     (case WriteFileInTx stat now f imp g of (Inl e, _) \<Rightarrow> map snd fs | (Inr imp', g') \<Rightarrow> batch_after stat fs imp' g')"

text \<open>The batch flushed again, at other times.\<close>

definition retry_batch :: "(string \<Rightarrow> int option) \<Rightarrow> (int \<times> file_input) list \<Rightarrow> gallery \<Rightarrow> int list \<Rightarrow> (int \<times> file_input) list" where
  "retry_batch stat fs g ts = zip ts (batch_after stat fs newImporter g)"

lemma length_batch_after: "length (batch_after stat fs imp g) = length fs"
  by (induction stat fs imp g rule: batch_after.induct) (auto split: prod.split sum.split)

lemma file_after_same: "fw_path (file_after_write stat now f imp g) = fw_path f"
  "fw_meta (file_after_write stat now f imp g) = fw_meta f"
  by (auto simp: file_after_write_def Let_def split: prod.split sum.split)

lemma batch_after_paths: "map fw_path (batch_after stat fs imp g) = map (\<lambda>x. fw_path (snd x)) fs"
  by (induction stat fs imp g rule: batch_after.induct) (auto simp: file_after_same split: prod.split sum.split)

lemma file_after_written:
  assumes "WriteFileInTx stat now f imp g = (Inr imp', g')"
  shows "fw_thumb (file_after_write stat now f imp g) = None"
proof -
  have "andThen (UpsertPathChain stat now (fw_path f) (fw_meta f) imp) (\<lambda>(imp1, row). file_rest f imp1 row) g = (Inr imp', g')"
    using assms by (simp add: WriteFileInTx_rest)
  then show ?thesis by (rule andThenE2) (simp add: file_after_write_def assms Let_def)
qed

lemma batch_after_split:
  assumes "write_files stat (as @ [(t, f)]) imp g = (Inr imp1, g1)"
  shows "\<exists>as' f' bs'. batch_after stat (as @ (t, f) # bs) imp g = as' @ f' # bs' \<and> length as' = length as \<and>
    fw_thumb f' = None \<and> fw_path f' = fw_path f \<and> fw_meta f' = fw_meta f"
  using assms
proof (induction as arbitrary: imp g)
  case Nil
  obtain i g2 where w: "WriteFileInTx stat t f imp g = (Inr i, g2)"
    by (rule andThenE [OF Nil.prems [unfolded append_Nil write_files.simps]])
  show ?case
    by (rule exI [of _ "[]"]) (simp add: file_after_written [OF w] file_after_same)
next
  case (Cons x as)
  obtain now h where x: "x = (now, h)" by (cases x)
  obtain i g2 where w: "WriteFileInTx stat now h imp g = (Inr i, g2)" "write_files stat (as @ [(t, f)]) i g2 = (Inr imp1, g1)"
    by (rule andThenE [OF Cons.prems [unfolded x append_Cons write_files.simps]])
  from Cons.IH [OF w(2)] obtain as' f' bs' where
    "batch_after stat (as @ (t, f) # bs) i g2 = as' @ f' # bs'" "length as' = length as"
    "fw_thumb f' = None" "fw_path f' = fw_path f" "fw_meta f' = fw_meta f" by blast
  then show ?case
    by (intro exI [of _ "file_after_write stat now h imp g # as'"]) (auto simp: x w(1))
qed

section \<open>Files without thumbnails\<close>

definition no_thumb :: "gallery \<Rightarrow> int \<Rightarrow> bool" where
  "no_thumb g i \<longleftrightarrow> (\<forall>t \<in> set (thumbs g). th_file t \<noteq> i)"

definition stays_without :: "int \<Rightarrow> gallery \<Rightarrow> gallery \<Rightarrow> bool" where
  "stays_without i g g' \<longleftrightarrow> (no_thumb g i \<longrightarrow> no_thumb g' i)"

text \<open>The foreign key of the thumbnails, with the key of the files.\<close>

definition thumbs_ok :: "gallery \<Rightarrow> bool" where
  "thumbs_ok g \<longleftrightarrow> th_file ` set (thumbs g) \<subseteq> fi_id ` set (files g) \<and> distinct (map fi_path (files g))"

definition stays_ok :: "gallery \<Rightarrow> gallery \<Rightarrow> bool" where
  "stays_ok g g' \<longleftrightarrow> (thumbs_ok g \<longrightarrow> thumbs_ok g')"

lemma stays_preorder: "db_preorder (stays_without i)" "db_preorder stays_ok"
  by (auto simp: db_preorder_def stays_without_def no_thumb_def stays_ok_def thumbs_ok_def)

lemma thumbs_stays: "pres same_thumbs m \<Longrightarrow> pres (stays_without i) m"
  by (erule pres_weaken) (simp add: stays_without_def no_thumb_def same_thumbs_def)

lemma files_stays: "pres same_files m \<Longrightarrow> pres stays_ok m"
  by (erule pres_weaken) (simp add: stays_ok_def thumbs_ok_def same_files_def)

lemma rest_without:
  assumes "fi_id row \<noteq> i"
  shows "pres (stays_without i) (file_rest f imp row)"
proof (rule pres_rest [OF stays_preorder(1)])
  have b: "pres (stays_without i) (UpsertThumbnailBlob j d)" for j d
    unfolding UpsertThumbnailBlob_def by (rule pres_stmt [OF stays_preorder(1)]) (auto simp: stays_without_def no_thumb_def)
  have r: "pres (stays_without i) (UpsertThumbnailReturningID (fi_id row) l)" for l
    unfolding UpsertThumbnailReturningID_def
    by (rule pres_stmt [OF stays_preorder(1)])
      (use assms in \<open>auto simp: stays_without_def no_thumb_def Let_def split: if_splits\<close>)
  show "pres (stays_without i) (UpsertThumbnailTxOnly (fi_id row) (the (fw_thumb f)))"
    unfolding UpsertThumbnailTxOnly_def by (intro pres_then [OF stays_preorder(1)] r b pres_return [OF stays_preorder(1)])
qed (simp_all add: thumbs_stays pres_side_writes pres_tile_id)

lemma rest_nothumb:
  assumes "\<not> has_thumb f"
  shows "pres same_thumbs (file_rest f imp row)"
  unfolding file_rest_def
  by (intro pres_then [OF preorders(3)] pres_try pres_parts [OF preorders(3)] pres_side_writes pres_tile_id
      pres_return [OF preorders(3)] conjI impI allI | simp add: assms split: option.split if_split)+

lemma rest_ok: "pres stays_ok (file_rest f imp row)"
proof (rule pres_rest [OF stays_preorder(2)])
  show "pres stays_ok (DeleteInvalidFileByPath p)" "pres stays_ok (UpsertExif i e)" "pres stays_ok (UpdateFolderTileId t j)" for p i e t j
    unfolding DeleteInvalidFileByPath_def UpsertExif_def UpdateFolderTileId_def
    by (rule pres_stmt [OF stays_preorder(2)], auto simp: stays_ok_def thumbs_ok_def split: if_splits)+
  have b: "pres stays_ok (UpsertThumbnailBlob j d)" for j d
    unfolding UpsertThumbnailBlob_def by (rule pres_stmt [OF stays_preorder(2)]) (auto simp: stays_ok_def thumbs_ok_def)
  have r: "pres stays_ok (UpsertThumbnailReturningID j l)" for j l
    unfolding UpsertThumbnailReturningID_def
    by (rule pres_stmt [OF stays_preorder(2)]) (auto simp: stays_ok_def thumbs_ok_def Let_def split: if_splits)
  show "pres stays_ok (UpsertThumbnailTxOnly (fi_id row) (the (fw_thumb f)))"
    unfolding UpsertThumbnailTxOnly_def by (intro pres_then [OF stays_preorder(2)] r b pres_return [OF stays_preorder(2)])
qed

lemma file_upsert_ok: "pres stays_ok (UpsertFileReturningFile folder k n m now)"
  unfolding UpsertFileReturningFile_def
proof (rule pres_stmt [OF stays_preorder(2)])
  fix g :: gallery and r g'
  assume e: "(if \<not> has_folder g folder \<or> k \<notin> fst ` set (file_paths g) then (Inl (Constraint ''FOREIGN KEY''), g)
     else case List.find (\<lambda>f. fi_path f = k) (files g) of
         Some f \<Rightarrow> (let f' = f\<lparr>fi_name := n, fi_meta := m, fi_updated := now\<rparr>
            in (Inr f', g\<lparr>files := map (\<lambda>x. if fi_path x = k then f' else x) (files g)\<rparr>))
       | None \<Rightarrow> (let f = \<lparr>fi_id = next_id (map fi_id (files g)), fi_folder = Some folder, fi_path = k,
              fi_name = n, fi_meta = m, fi_created = now, fi_updated = now\<rparr>
            in (Inr f, g\<lparr>files := files g @ [f]\<rparr>))) = (r :: db_error + file_rec, g')"
  show "stays_ok g g'"
  proof (cases "\<not> has_folder g folder \<or> k \<notin> fst ` set (file_paths g)")
    case True
    then have "g' = g" using e by (simp split: if_splits)
    then show ?thesis by (simp add: stays_ok_def)
  next
    case False
    show ?thesis
    proof (cases "List.find (\<lambda>f. fi_path f = k) (files g)")
      case None
      let ?new = "\<lparr>fi_id = next_id (map fi_id (files g)), fi_folder = Some folder, fi_path = k,
              fi_name = n, fi_meta = m, fi_created = now, fi_updated = now\<rparr>"
      have g': "g' = g\<lparr>files := files g @ [?new]\<rparr>" using e False None by (auto simp: Let_def)
      have "k \<notin> fi_path ` set (files g)" using None by (auto simp: find_NoneI image_iff)
      then show ?thesis using g' by (auto simp: stays_ok_def thumbs_ok_def)
    next
      case (Some f)
      let ?f = "f\<lparr>fi_name := n, fi_meta := m, fi_updated := now\<rparr>"
      let ?h = "\<lambda>x. if fi_path x = k then ?f else x"
      have f: "fi_path f = k" "f \<in> set (files g)" using find_SomeD [OF Some] by simp_all
      have g': "g' = g\<lparr>files := map ?h (files g)\<rparr>" using e False by (simp add: Some Let_def)
      have paths: "map fi_path (map ?h (files g)) = map fi_path (files g)" using f(1) by simp
      have ids: "fi_id ` set (files g) \<subseteq> fi_id ` set (map ?h (files g))" if d: "distinct (map fi_path (files g))"
      proof
        fix i assume "i \<in> fi_id ` set (files g)"
        then obtain x where x: "x \<in> set (files g)" "fi_id x = i" by auto
        have hx: "fi_id (?h x) = i"
        proof (cases "fi_path x = k")
          case True
          then have "x = f" using d x(1) f by (metis distinct_map inj_onD)
          then show ?thesis using x(2) by simp
        qed (use x in simp)
        have "?h x \<in> set (map ?h (files g))" using x(1) by simp
        from image_eqI [where f = fi_id, OF hx [symmetric] this] show "i \<in> fi_id ` set (map ?h (files g))" .
      qed
      have f': "files g' = map ?h (files g)" "thumbs g' = thumbs g" by (simp_all add: g')
      show ?thesis unfolding stays_ok_def thumbs_ok_def f' paths using ids by blast
    qed
  qed
qed

lemma write_ok: "pres stays_ok (WriteFileInTx stat now f imp)"
proof -
  have p: "pres stays_ok (UpsertFilePathReturningID p)" for p
    unfolding UpsertFilePathReturningID_def
    by (rule pres_stmt [OF stays_preorder(2)]) (auto simp: stays_ok_def thumbs_ok_def Let_def split: option.splits)
  have "pres stays_ok (UpsertPathChain stat now p m imp)" for p m
    unfolding UpsertPathChain_def Let_def
    by (auto intro!: pres_then [OF stays_preorder(2)] p files_stays [OF pres_root] files_stays [OF pres_folders]
        pres_return [OF stays_preorder(2)] file_upsert_ok split: prod.split)
  then show ?thesis unfolding WriteFileInTx_rest
    by (auto intro!: pres_then [OF stays_preorder(2)] rest_ok split: prod.split)
qed

lemma writes_ok: "pres stays_ok (write_files stat fs imp)"
proof (induction fs arbitrary: imp)
  case Nil
  show ?case by (simp add: pres_return [OF stays_preorder(2)])
next
  case (Cons x fs)
  then show ?case by (cases x) (simp add: pres_then [OF stays_preorder(2)] write_ok)
qed

text \<open>Writes of other paths neither touch a file nor give it a thumbnail.\<close>

lemma file_ids:
  assumes "tree_ok g" "file_at g p = Some x" "file_at g q = Some y" "p \<noteq> q"
  shows "fi_id x \<noteq> fi_id y"
proof
  assume e: "fi_id x = fi_id y"
  note x = file_at_in [OF assms(1,2)] and y = file_at_in [OF assms(1,3)]
  have d: "distinct (map fi_id (files g))" "distinct (map fst (file_paths g))"
    using tree_keys [OF assms(1)] by (simp_all add: keys_ok_def)
  have "x = y" using d(1) x(1) y(1) e by (metis distinct_map inj_onD)
  then show False using x(2) y(2) assms(4) d(2) by (metis eq_key_imp_eq_value)
qed

lemma other_writes_without:
  assumes "write_files stat fs imp g = (Inr imp', g')" "tree_ok g" "cache_ok imp g" "proper_writes fs"
    and "p \<notin> (\<lambda>x. fw_path (snd x)) ` set fs" "file_at g p = Some x" "no_thumb g (fi_id x)"
  shows "file_at g' p = Some x \<and> no_thumb g' (fi_id x)"
  using assms
proof (induction fs arbitrary: imp g)
  case Nil
  then show ?case by (simp add: returnDb_def)
next
  case (Cons y fs)
  obtain now f where y: "y = (now, f)" by (cases y)
  have p: "proper_path (fw_path f)" "proper_writes fs" "fw_path f \<noteq> p" "p \<notin> (\<lambda>x. fw_path (snd x)) ` set fs"
    using Cons.prems by (auto simp: y)
  obtain imp1 g1 where s: "WriteFileInTx stat now f imp g = (Inr imp1, g1)" "write_files stat fs imp1 g1 = (Inr imp', g')"
    by (rule andThenE [OF Cons.prems(1) [unfolded y write_files.simps]])
  show ?case
  proof (rule file_written [OF s(1) Cons.prems(2,3) p(1)])
    fix row h i
    assume r: "file_rest f i row h = (Inr imp1, g1)" "same_thumbs g h"
      "\<And>q. file_at g1 q = (if q = fw_path f then Some row else file_at g q)" "tree_ok g1" "cache_ok imp1 g1"
    have at: "file_at g1 p = Some x" "file_at g1 (fw_path f) = Some row" using r(3) p(3) Cons.prems(6) by simp_all
    then have "fi_id row \<noteq> fi_id x" using file_ids [OF r(4) at(2,1) p(3)] by simp
    from presD [OF rest_without [OF this] r(1)] have "no_thumb g1 (fi_id x)"
      using Cons.prems(7) r(2) by (simp add: stays_without_def no_thumb_def same_thumbs_def)
    from Cons.IH [OF s(2) r(4,5) p(2,4) at(1) this] show ?thesis .
  qed
qed

lemma zip_paths: "length ts = length fs \<Longrightarrow> map (\<lambda>x. fw_path (snd x)) (zip ts fs) = map fw_path fs"
  by (induction ts fs rule: list_induct2) simp_all

lemma proper_writes_paths: "proper_writes fs \<longleftrightarrow> (\<forall>p \<in> (\<lambda>x. fw_path (snd x)) ` set fs. proper_path p)"
  by (auto simp: proper_writes_def list_all_iff)

text \<open>C38: When a flush fails after a new file was already written, the batch that is submitted again has
  lost the thumbnail of that file. If the second flush commits, the file is in the gallery with its
  data and without a thumbnail, and as discovery takes it for unchanged, it stays so.\<close>

theorem retry_loses_thumbnail:
  assumes "fs = as @ (t, f) # bs" "write_files stat (as @ [(t, f)]) newImporter g = (Inr imp1, g1)"
    and "flush_files stat fs g = (Some e, g')"
    and "length ts = length fs" "flush_files stat (retry_batch stat fs g ts) g' = (None, g'')"
    and "tree_ok g" "thumbs_ok g" "proper_writes fs" "file_at g (fw_path f) = None"
    and "fw_path f \<notin> (\<lambda>x. fw_path (snd x)) ` set (as @ bs)" "m_md5 (fw_meta f) \<noteq> None"
  shows "\<exists>x. file_at g'' (fw_path f) = Some x \<and> fi_meta x = fw_meta f \<and> no_thumb g'' (fi_id x) \<and>
    (\<forall>i. m_mtime (fw_meta f) = Some (fi_mtime i) \<and> m_size (fw_meta f) = Some (fi_size i) \<longrightarrow>
      DiscoveryDirEntModified n i (Some (discoveryFileRowToDirEnt x)) = Some False)"
proof -
  let ?p = "fw_path f"
  obtain as' f' bs' where b: "batch_after stat fs newImporter g = as' @ f' # bs'" "length as' = length as"
    "fw_thumb f' = None" "fw_path f' = ?p" "fw_meta f' = fw_meta f"
    using batch_after_split [OF assms(2), of bs] unfolding assms(1) by blast
  have lb: "length bs' = length bs" using arg_cong [OF b(1), of length] b(2) by (simp add: length_batch_after assms(1))
  obtain ta t' tb where ts: "ts = ta @ t' # tb" "length ta = length as'" "length tb = length bs'"
  proof
    show "ts = take (length as) ts @ ts ! length as # drop (Suc (length as)) ts"
      using assms(4) by (simp add: assms(1) id_take_nth_drop [symmetric])
  qed (use assms(4) b(2) lb in \<open>simp_all add: assms(1)\<close>)
  let ?A = "zip ta as'" and ?B = "zip tb bs'"
  have batch: "retry_batch stat fs g ts = ?A @ (t', f') # ?B" using ts by (simp add: retry_batch_def b(1))
  have "map fw_path (as' @ f' # bs') = map (\<lambda>x. fw_path (snd x)) (as @ (t, f) # bs)"
    using batch_after_paths [of stat fs newImporter g] unfolding b(1) unfolding assms(1) .
  then have paths: "map fw_path as' = map (\<lambda>x. fw_path (snd x)) as" "map fw_path bs' = map (\<lambda>x. fw_path (snd x)) bs"
    using b(2) by simp_all
  have mem: "(\<lambda>x. fw_path (snd x)) ` set ?A = (\<lambda>x. fw_path (snd x)) ` set as"
    "(\<lambda>x. fw_path (snd x)) ` set ?B = (\<lambda>x. fw_path (snd x)) ` set bs"
    using zip_paths [OF ts(2)] zip_paths [OF ts(3)] paths by (metis list.set_map)+
  have out: "?p \<notin> (\<lambda>x. fw_path (snd x)) ` set ?A" "?p \<notin> (\<lambda>x. fw_path (snd x)) ` set ?B"
    using assms(10) unfolding mem by (simp_all add: image_Un)
  have proper: "proper_writes ?A" "proper_path (fw_path f')" "proper_writes ?B"
    using assms(8) mem b(4) by (simp_all add: assms(1) proper_writes_paths)
  obtain l where g': "g' = g\<lparr>faults := l\<rparr>"
    using assms(3) by (auto simp: flush_files_def split: prod.splits sum.splits)
  have t0: "tree_ok g'" "file_at g' ?p = None" "thumbs_ok g'" using assms(6,7,9) by (simp_all add: g' thumbs_ok_def)
  obtain impe where w: "write_files stat (?A @ (t', f') # ?B) newImporter g' = (Inr impe, g'')"
    using assms(5) unfolding batch by (auto simp: flush_files_def split: prod.splits sum.splits)
  obtain impa ga where 1: "write_files stat ?A newImporter g' = (Inr impa, ga)"
    "write_files stat ((t', f') # ?B) impa ga = (Inr impe, g'')"
    using w unfolding write_files_append andThen_Inr by blast
  have a: "file_at ga ?p = None" "tree_ok ga" "cache_ok impa ga"
    using others_written [OF 1(1) t0(1) new_importer_ok proper(1) out(1)] t0(2) by simp_all
  have ka: "thumbs_ok ga" using presD [OF writes_ok 1(1)] t0(3) by (simp add: stays_ok_def)
  obtain impf gf where 2: "WriteFileInTx stat t' f' impa ga = (Inr impf, gf)" "write_files stat ?B impf gf = (Inr impe, g'')"
    by (rule andThenE [OF 1(2) [unfolded write_files.simps]])
  obtain x where x: "file_at gf ?p = Some x" "fi_meta x = fw_meta f" "no_thumb gf (fi_id x)" "tree_ok gf" "cache_ok impf gf"
  proof (rule file_written [OF 2(1) a(2,3) proper(2)])
    fix row h i
    assume r: "file_rest f' i row h = (Inr impf, gf)" "same_thumbs ga h"
      "\<And>q. file_at gf q = (if q = fw_path f' then Some row else file_at ga q)" "fi_meta row = fw_meta f'"
      "tree_ok gf" "cache_ok impf gf" "file_at ga (fw_path f') = None \<Longrightarrow> fi_id row \<notin> fi_id ` set (files ga)"
    have "fi_id row \<notin> fi_id ` set (files ga)" using r(7) a(1) b(4) by simp
    moreover have "th_file y \<in> fi_id ` set (files ga)" if "y \<in> set (thumbs ga)" for y
      using ka that by (simp add: thumbs_ok_def image_subset_iff)
    ultimately have "no_thumb ga (fi_id row)" unfolding no_thumb_def by metis
    moreover have "\<not> has_thumb f'" by (simp add: has_thumb_def b(3))
    from presD [OF rest_nothumb [OF this] r(1)] have "same_thumbs h gf" .
    ultimately have "no_thumb gf (fi_id row)" using r(2) by (simp add: no_thumb_def same_thumbs_def)
    then show thesis using that [of row] r(3-6) b(4,5) by simp
  qed
  have fin: "file_at g'' ?p = Some x \<and> no_thumb g'' (fi_id x)"
    by (rule other_writes_without [OF 2(2) x(4,5) proper(3) out(2) x(1,3)])
  have "DiscoveryDirEntModified n i (Some (discoveryFileRowToDirEnt x)) = Some False"
    if "m_mtime (fw_meta f) = Some (fi_mtime i)" "m_size (fw_meta f) = Some (fi_size i)" for i
    using decision_of_file [of "\<lambda>h. Some (discoveryFileRowToDirEnt x)" n x i] that assms(11) x(2) by simp
  then show ?thesis using fin x(2) by blast
qed

definition other_file :: file_input where
  "other_file = (a_file 3 ''v'')\<lparr>fw_path := ''d/e/b''\<rparr>"

text \<open>The first statement of the second file is the 23rd of the transaction.\<close>

definition failing_gallery :: gallery where
  "failing_gallery = empty_gallery\<lparr>faults := replicate 22 False @ [True]\<rparr>"

definition two_writes :: "(int \<times> file_input) list" where
  "two_writes = [(10, a_file 1 ''t''), (10, other_file)]"

definition after_retry :: gallery where
  "after_retry = snd (flush_files (\<lambda>p. None) (retry_batch (\<lambda>p. None) two_writes failing_gallery [20, 20])
     (snd (flush_files (\<lambda>p. None) two_writes failing_gallery)))"

lemma retry_eval:
  "\<not> isl (fst (write_files (\<lambda>p. None) [(10, a_file 1 ''t'')] newImporter failing_gallery))"
  "fst (flush_files (\<lambda>p. None) two_writes failing_gallery) = Some Failure"
  "fst (flush_files (\<lambda>p. None) (retry_batch (\<lambda>p. None) two_writes failing_gallery [20, 20])
     (snd (flush_files (\<lambda>p. None) two_writes failing_gallery))) = None"
  "map fi_id (files after_retry) = [1, 2]" "map th_file (thumbs after_retry) = [2]"
  by code_simp+

theorem retry_loses_thumbnail_witness:
  "\<exists>x. file_at after_retry ''d/e/a'' = Some x \<and> no_thumb after_retry (fi_id x) \<and>
    DiscoveryDirEntModified ''a'' \<lparr>fi_isDir = False, fi_symlink = False, fi_size = 1, fi_mtime = 1\<rparr>
      (Some (discoveryFileRowToDirEnt x)) = Some False"
proof -
  obtain imp1 g1 where w: "write_files (\<lambda>p. None) ([] @ [(10, a_file 1 ''t'')]) newImporter failing_gallery = (Inr imp1, g1)"
    using retry_eval(1) by (cases "write_files (\<lambda>p. None) [(10, a_file 1 ''t'')] newImporter failing_gallery")
      (auto simp: isl_def split: sum.splits; metis sum.exhaust_sel)
  have f: "flush_files (\<lambda>p. None) two_writes failing_gallery
      = (Some Failure, snd (flush_files (\<lambda>p. None) two_writes failing_gallery))"
    using retry_eval(2) by (simp add: prod_eq_iff)
  have r: "flush_files (\<lambda>p. None) (retry_batch (\<lambda>p. None) two_writes failing_gallery [20, 20])
     (snd (flush_files (\<lambda>p. None) two_writes failing_gallery)) = (None, after_retry)"
    using retry_eval(3) by (simp add: prod_eq_iff after_retry_def)
  have p: "fw_path (a_file k s) = ''d/e/a''" "fw_path other_file = ''d/e/b''" for k s by (simp_all add: a_file_def other_file_def)
  have t: "tree_ok failing_gallery" using empty_tree by (simp add: failing_gallery_def)
  have k: "thumbs_ok failing_gallery" by (simp add: failing_gallery_def thumbs_ok_def empty_gallery_def)
  have ok: "proper_writes two_writes" by (simp add: two_writes_def p proper_path_def component_def)
  have n: "file_at failing_gallery q = None" for q by (simp add: failing_gallery_def file_at_def id_of_path_def empty_gallery_def)
  have "\<exists>x. file_at after_retry (fw_path (a_file 1 ''t'')) = Some x \<and> fi_meta x = fw_meta (a_file 1 ''t'') \<and>
      no_thumb after_retry (fi_id x) \<and>
      (\<forall>i. m_mtime (fw_meta (a_file 1 ''t'')) = Some (fi_mtime i) \<and> m_size (fw_meta (a_file 1 ''t'')) = Some (fi_size i) \<longrightarrow>
        DiscoveryDirEntModified ''a'' i (Some (discoveryFileRowToDirEnt x)) = Some False)"
    by (rule retry_loses_thumbnail [OF _ w f _ r t k ok n, where bs = "[(10, other_file)]"])
      (simp_all add: two_writes_def p, simp add: a_file_def)
  then show ?thesis by (auto simp: p) (auto simp: a_file_def)
qed

end
