(* ===== verification/Workerpool.thy ===== *)
theory Workerpool
  imports Go_Text "HOL-Library.Word"
begin

text \<open>
  The pool of discovery workers (\<^verbatim>\<open>internal/workerpool/workerpool.go\<close>): its counters, the decision to
  start and to stop a worker, and the goroutines that take these decisions concurrently.
\<close>

section \<open>The pool\<close>

record pool_stats =
  pl_RunningWorkers :: int
  pl_SubmittedTasks :: "64 word"
  pl_WaitingTasks :: "64 word"
  pl_SuccessfulTasks :: "64 word"
  pl_FailedTasks :: "64 word"
  pl_CompletedTasks :: "64 word"
  pl_DroppedTasks :: "64 word"
  pl_timeLastSubmit :: int
  pl_timeLastComplete :: int

record worker_pool =
  pl_MaxWorkers :: int
  pl_MinWorkers :: int
  pl_MaxIdleTime :: int
  pl_Stats :: pool_stats

definition AddSubmitted :: "int \<Rightarrow> pool_stats \<Rightarrow> pool_stats" where
  "AddSubmitted now s = s\<lparr>pl_SubmittedTasks := pl_SubmittedTasks s + 1, pl_timeLastSubmit := now\<rparr>"

definition AddCompleted :: "int \<Rightarrow> pool_stats \<Rightarrow> pool_stats" where
  "AddCompleted now s = s\<lparr>pl_CompletedTasks := pl_CompletedTasks s + 1, pl_timeLastComplete := now\<rparr>"

definition AddFailed :: "pool_stats \<Rightarrow> pool_stats" where
  "AddFailed s = s\<lparr>pl_FailedTasks := pl_FailedTasks s + 1\<rparr>"

definition AddSuccessful :: "pool_stats \<Rightarrow> pool_stats" where
  "AddSuccessful s = s\<lparr>pl_SuccessfulTasks := pl_SuccessfulTasks s + 1\<rparr>"

definition getMinMaxPoolWorkers :: "int \<Rightarrow> int \<Rightarrow> int \<Rightarrow> int \<times> int" where
  "getMinMaxPoolWorkers numCPU minPoolWorkers maxPoolWorkers =
     (minPoolWorkers,
      if maxPoolWorkers = 0 then (if numCPU > 4 then numCPU - 2 else if numCPU > 2 \<and> numCPU \<le> 4 then 2 else 1)
      else maxPoolWorkers)"

definition empty_stats :: pool_stats where
  "empty_stats = \<lparr>pl_RunningWorkers = 0, pl_SubmittedTasks = 0, pl_WaitingTasks = 0, pl_SuccessfulTasks = 0,
     pl_FailedTasks = 0, pl_CompletedTasks = 0, pl_DroppedTasks = 0, pl_timeLastSubmit = 0, pl_timeLastComplete = 0\<rparr>"

definition NewPool :: "int \<Rightarrow> int \<Rightarrow> int \<Rightarrow> int \<Rightarrow> int \<Rightarrow> worker_pool" where
  "NewPool numCPU now maxWorkers minWorkers maxIdleTime =
     (let (mi, ma) = (if maxWorkers \<le> 0 then getMinMaxPoolWorkers numCPU minWorkers maxWorkers else (minWorkers, maxWorkers))
      in \<lparr>pl_MaxWorkers = ma, pl_MinWorkers = mi, pl_MaxIdleTime = maxIdleTime,
        pl_Stats = AddCompleted now (AddSubmitted now empty_stats)\<rparr>)"

definition shouldScaleUp :: "int \<Rightarrow> int \<Rightarrow> int \<Rightarrow> bool" where
  "shouldScaleUp queueLength runningWorkers maxWorkers \<longleftrightarrow> queueLength > runningWorkers \<and> runningWorkers < maxWorkers"

definition TimeSinceLastCompletion :: "int \<Rightarrow> worker_pool \<Rightarrow> int" where
  "TimeSinceLastCompletion now p =
     (if pl_timeLastComplete (pl_Stats p) = 0 then 0 else now - pl_timeLastComplete (pl_Stats p))"

definition ShouldIStop :: "int \<Rightarrow> int \<Rightarrow> worker_pool \<Rightarrow> bool" where
  "ShouldIStop now queueLength p =
     (if pl_RunningWorkers (pl_Stats p) \<le> pl_MinWorkers p then False
      else if queueLength > pl_RunningWorkers (pl_Stats p) then False
      else if TimeSinceLastCompletion now p < pl_MaxIdleTime p then False
      else True)"

record stats_snapshot =
  sn_stats :: pool_stats
  sn_MaxWorkers :: int
  sn_MinWorkers :: int

definition Pool_GetStats :: "worker_pool \<Rightarrow> stats_snapshot" where
  "Pool_GetStats p = \<lparr>sn_stats = pl_Stats p, sn_MaxWorkers = pl_MaxWorkers p, sn_MinWorkers = pl_MinWorkers p\<rparr>"

section \<open>The goroutines\<close>

text \<open>A worker runs until it returns, for whatever reason; its deferred decrement comes after that.
  The starting goroutine, later the monitor, counts a worker after it has started it.\<close>

datatype worker_state = Working | Returned

record pool_sys =
  sy_pool :: worker_pool
  sy_starting :: nat
  sy_uncounted :: bool
  sy_workers :: "worker_state list"

definition add_running :: "int \<Rightarrow> pool_sys \<Rightarrow> pool_sys" where
  "add_running d s = s\<lparr>sy_pool := (sy_pool s)\<lparr>pl_Stats := (pl_Stats (sy_pool s))
     \<lparr>pl_RunningWorkers := pl_RunningWorkers (pl_Stats (sy_pool s)) + d\<rparr>\<rparr>\<rparr>"

definition StartWorkerPool :: "worker_pool \<Rightarrow> pool_sys" where
  "StartWorkerPool p = \<lparr>sy_pool = p, sy_starting = nat (pl_MinWorkers p), sy_uncounted = False, sy_workers = []\<rparr>"

text \<open>Completions and the length of the queue are the environment's: they are chosen anew in every step.\<close>

inductive pool_step :: "pool_sys \<Rightarrow> pool_sys \<Rightarrow> bool" where
  start: "sy_starting s = Suc k \<Longrightarrow> \<not> sy_uncounted s \<Longrightarrow>
    pool_step s (s\<lparr>sy_starting := k, sy_uncounted := True, sy_workers := sy_workers s @ [Working]\<rparr>)"
| count: "sy_uncounted s \<Longrightarrow> pool_step s (add_running 1 (s\<lparr>sy_uncounted := False\<rparr>))"
| MonitorPool: "sy_starting s = 0 \<Longrightarrow> \<not> sy_uncounted s \<Longrightarrow>
    shouldScaleUp queueLength (pl_RunningWorkers (pl_Stats (sy_pool s))) (pl_MaxWorkers (sy_pool s)) \<Longrightarrow>
    pool_step s (s\<lparr>sy_uncounted := True, sy_workers := sy_workers s @ [Working]\<rparr>)"
| stop: "i < length (sy_workers s) \<Longrightarrow> sy_workers s ! i = Working \<Longrightarrow> ShouldIStop now (queueLength + 1) (sy_pool s) \<Longrightarrow>
    pool_step s (s\<lparr>sy_workers := (sy_workers s)[i := Returned]\<rparr>)"
| leave: "i < length (sy_workers s) \<Longrightarrow> sy_workers s ! i = Working \<Longrightarrow>
    pool_step s (s\<lparr>sy_workers := (sy_workers s)[i := Returned]\<rparr>)"
| uncount: "sy_workers s = as @ Returned # bs \<Longrightarrow> pool_step s (add_running (- 1) (s\<lparr>sy_workers := as @ bs\<rparr>))"
| complete: "pool_step s (s\<lparr>sy_pool := (sy_pool s)\<lparr>pl_Stats := AddCompleted now (pl_Stats (sy_pool s))\<rparr>\<rparr>)"

abbreviation pool_steps :: "pool_sys \<Rightarrow> pool_sys \<Rightarrow> bool" where
  "pool_steps \<equiv> pool_step\<^sup>*\<^sup>*"

text \<open>While nobody is being counted, the counter is the number of goroutines; and there is never room for
  more than the larger of the two limits.\<close>

definition pool_inv :: "worker_pool \<Rightarrow> pool_sys \<Rightarrow> bool" where
  "pool_inv p s \<longleftrightarrow>
     pl_MaxWorkers (sy_pool s) = pl_MaxWorkers p \<and> pl_MinWorkers (sy_pool s) = pl_MinWorkers p
   \<and> pl_RunningWorkers (pl_Stats (sy_pool s)) + (if sy_uncounted s then 1 else 0) = int (length (sy_workers s))
   \<and> int (length (sy_workers s)) + int (sy_starting s) \<le> max 0 (max (pl_MinWorkers p) (pl_MaxWorkers p))"

lemma pool_inv_step:
  assumes "pool_step s s'" "pool_inv p s"
  shows "pool_inv p s'"
  using assms
  by (induction rule: pool_step.induct)
    (auto simp: pool_inv_def add_running_def shouldScaleUp_def AddCompleted_def split: if_splits)

text \<open>C31: However the goroutines are scheduled, there are never more workers than the larger of the two
  limits, and when no worker is just being started the counter of running workers is exact.\<close>

theorem workers_bounded:
  assumes "pl_RunningWorkers (pl_Stats p) = 0" "pool_steps (StartWorkerPool p) s"
  shows "int (length (sy_workers s)) \<le> max 0 (max (pl_MinWorkers p) (pl_MaxWorkers p)) \<and>
    (\<not> sy_uncounted s \<longrightarrow> pl_RunningWorkers (pl_Stats (sy_pool s)) = int (length (sy_workers s)))"
proof -
  have "pool_inv p (StartWorkerPool p)" using assms(1) by (simp add: pool_inv_def StartWorkerPool_def)
  with assms(2) have "pool_inv p s" by (induction rule: rtranclp_induct) (blast intro: pool_inv_step)+
  then show ?thesis by (auto simp: pool_inv_def)
qed

section \<open>A race between two workers\<close>

definition pool_1_2 :: worker_pool where
  "pool_1_2 = NewPool 8 1 2 1 0"

definition pool_at :: "int \<Rightarrow> nat \<Rightarrow> bool \<Rightarrow> worker_state list \<Rightarrow> pool_sys" where
  "pool_at r k u ws = \<lparr>sy_pool = pool_1_2\<lparr>pl_Stats := (pl_Stats pool_1_2)\<lparr>pl_RunningWorkers := r\<rparr>\<rparr>,
     sy_starting = k, sy_uncounted = u, sy_workers = ws\<rparr>"

lemma pool_1_2_simps: "pl_MinWorkers pool_1_2 = 1" "pl_MaxWorkers pool_1_2 = 2" "pl_MaxIdleTime pool_1_2 = 0"
    "pl_RunningWorkers (pl_Stats pool_1_2) = 0" "pl_timeLastComplete (pl_Stats pool_1_2) = 1"
  by (simp_all add: pool_1_2_def NewPool_def AddCompleted_def AddSubmitted_def empty_stats_def)

lemma two_workers: "pool_steps (StartWorkerPool pool_1_2) (pool_at 2 0 False [Working, Working])"
proof -
  have 0: "StartWorkerPool pool_1_2 = pool_at 0 1 False []" by (simp add: StartWorkerPool_def pool_at_def pool_1_2_simps)
  have 1: "pool_step (pool_at 0 1 False []) (pool_at 0 0 True [Working])"
    using pool_step.start [of "pool_at 0 1 False []" 0] by (simp add: pool_at_def)
  have 2: "pool_step (pool_at 0 0 True [Working]) (pool_at 1 0 False [Working])"
    using pool_step.count [of "pool_at 0 0 True [Working]"] by (simp add: add_running_def pool_at_def)
  have 3: "pool_step (pool_at 1 0 False [Working]) (pool_at 1 0 True [Working, Working])"
    using pool_step.MonitorPool [of "pool_at 1 0 False [Working]" 5] by (simp add: shouldScaleUp_def pool_at_def pool_1_2_simps)
  have 4: "pool_step (pool_at 1 0 True [Working, Working]) (pool_at 2 0 False [Working, Working])"
    using pool_step.count [of "pool_at 1 0 True [Working, Working]"] by (simp add: add_running_def pool_at_def)
  show ?thesis unfolding 0 using 1 2 3 4 by (meson converse_rtranclp_into_rtranclp rtranclp.rtrancl_refl)
qed

text \<open>The lower limit is not kept: two workers that see one worker more than the minimum both stop,
  and then none is left although one is wanted; with an empty queue none is started again.\<close>

theorem minimum_not_kept:
  "\<exists>s. pool_steps (StartWorkerPool pool_1_2) s \<and> pl_MinWorkers (sy_pool s) = 1 \<and> sy_starting s = 0 \<and>
    sy_workers s = [] \<and> \<not> sy_uncounted s \<and> pl_RunningWorkers (pl_Stats (sy_pool s)) = 0 \<and>
    \<not> shouldScaleUp 0 (pl_RunningWorkers (pl_Stats (sy_pool s))) (pl_MaxWorkers (sy_pool s))"
proof -
  have stop: "ShouldIStop 1 1 (sy_pool (pool_at 2 0 False ws))" for ws
    by (simp add: ShouldIStop_def TimeSinceLastCompletion_def pool_at_def pool_1_2_simps)
  have 5: "pool_step (pool_at 2 0 False [Working, Working]) (pool_at 2 0 False [Returned, Working])"
    using pool_step.stop [of 0 "pool_at 2 0 False [Working, Working]" 1 0] stop by (simp add: pool_at_def)
  have 6: "pool_step (pool_at 2 0 False [Returned, Working]) (pool_at 2 0 False [Returned, Returned])"
    using pool_step.stop [of 1 "pool_at 2 0 False [Returned, Working]" 1 0] stop by (simp add: pool_at_def)
  have 7: "pool_step (pool_at 2 0 False [Returned, Returned]) (pool_at 1 0 False [Returned])"
    using pool_step.uncount [of "pool_at 2 0 False [Returned, Returned]" "[]" "[Returned]"] by (simp add: add_running_def pool_at_def)
  have 8: "pool_step (pool_at 1 0 False [Returned]) (pool_at 0 0 False [])"
    using pool_step.uncount [of "pool_at 1 0 False [Returned]" "[]" "[]"] by (simp add: add_running_def pool_at_def)
  have "pool_steps (StartWorkerPool pool_1_2) (pool_at 0 0 False [])"
    using two_workers 5 6 7 8 by (meson rtranclp.rtrancl_into_rtrancl)
  then show ?thesis by (intro exI [of _ "pool_at 0 0 False []"]) (simp add: shouldScaleUp_def pool_at_def pool_1_2_simps)
qed

theorem workers_bounded_witness:
  "pool_steps (StartWorkerPool pool_1_2) (pool_at 2 0 False [Working, Working]) \<and>
    int (length (sy_workers (pool_at 2 0 False [Working, Working]))) \<le> 2"
  using two_workers workers_bounded [OF _ two_workers] by (simp add: pool_1_2_simps)

end
