(* ===== verification/Discovery_Worker.thy ===== *)
theory Discovery_Worker
  imports Discovery Workerpool
begin

text \<open>
  The workers of a discovery run (\<^verbatim>\<open>internal/server/files/processor.go\<close>, \<^verbatim>\<open>service.go\<close>, \<^verbatim>\<open>walker.go\<close>): a file
  is read, its data and thumbnail are made, and it is submitted for writing, or it is recorded as
  invalid. The operating system and the image libraries answer through the functions of a record.
\<close>

section \<open>Reading a file\<close>

text \<open>A failing call answers with the text of its error.\<close>

record image_env =
  ie_open :: "string \<Rightarrow> string option"
  ie_readAtLeast :: "string \<Rightarrow> int \<Rightarrow> string + string"
  ie_seek :: "string \<Rightarrow> string option"
  ie_DetectContentType :: "string \<Rightarrow> string"
  ie_ExtractExifData :: "string \<Rightarrow> string + string option"
  ie_DecodeConfig :: "string \<Rightarrow> string + int \<times> int"
  ie_seekBeforeThumbnail :: "string \<Rightarrow> string option"
  ie_GenerateThumbnail :: "string \<Rightarrow> int \<Rightarrow> int \<Rightarrow> string + string \<times> string option \<times> int"
  ie_Stat :: "string \<Rightarrow> (int \<times> int) option"
  ie_quote :: "string \<Rightarrow> string"
  ie_cancelled :: bool

fun jpeg_marker_after :: "string \<Rightarrow> bool" where
  "jpeg_marker_after (a # b # s) =
     (if a = CHR 0xFF \<and> b \<noteq> CHR 0x00 \<and> b \<noteq> CHR 0xFF \<and> b \<noteq> CHR 0xD8 then True else jpeg_marker_after (b # s))"
| "jpeg_marker_after _ = False"

definition ValidateJpegMarkers :: "string \<Rightarrow> bool" where
  "ValidateJpegMarkers buf =
     (case buf of
        a # b # s \<Rightarrow> if a \<noteq> CHR 0xFF \<or> b \<noteq> CHR 0xD8 then False else jpeg_marker_after s
      | _ \<Rightarrow> False)"

text \<open>At most eight kilobytes are read; an end of file is no error. The result is the type and whether
  a JPEG file has valid markers.\<close>

definition DetectMimeType :: "image_env \<Rightarrow> string \<Rightarrow> int \<Rightarrow> string + string \<times> bool" where
  "DetectMimeType E full sz =
     (let l = (if sz < 8192 then sz else 8192) in
      case ie_readAtLeast E full l of
        Inl e \<Rightarrow> Inl (''failed to read file for MIME type detection: '' @ e)
      | Inr buf \<Rightarrow>
          (let mime = ie_DetectContentType E buf in
           case ie_seek E full of
             Some e \<Rightarrow> Inl (''failed to seek to beginning of file: '' @ e)
           | None \<Rightarrow> Inr (mime, mime = ''image/jpeg'' \<and> ValidateJpegMarkers buf)))"

definition processFileContents :: "image_env \<Rightarrow> string \<Rightarrow> file_input \<Rightarrow> string + file_input" where
  "processFileContents E imagesDir f =
     (let full = Join2 imagesDir (fw_path f) in
      case ie_open E full of
        Some e \<Rightarrow> Inl (''failed to open file '' @ ie_quote E (fw_path f) @ '': '' @ e)
      | None \<Rightarrow>
        (case DetectMimeType E full (case m_size (fw_meta f) of None \<Rightarrow> 0 | Some n \<Rightarrow> n) of
           Inl e \<Rightarrow> Inl (''failed to detect MIME type: '' @ e)
         | Inr (mime, markers) \<Rightarrow>
             if length mime < 5 \<or> take 5 mime \<noteq> ''image'' then Inl (''non-image file: '' @ mime)
             else if mime = ''image/jpeg'' \<and> \<not> markers then Inl (''invalid JPEG markers: '' @ fw_path f)
             else (case ie_ExtractExifData E full of
                 Inl e \<Rightarrow> Inl (''failed to extract EXIF data: '' @ e)
               | Inr camera \<Rightarrow>
                 (case ie_DecodeConfig E full of
                    Inl e \<Rightarrow> Inl (''failed to decode image config: '' @ e)
                  | Inr (w, h) \<Rightarrow>
                    (case ie_seekBeforeThumbnail E full of
                       Some e \<Rightarrow> Inl (''failed to seek to beginning of file: '' @ e)
                     | None \<Rightarrow>
                       (case ie_GenerateThumbnail E full w h of
                          Inl e \<Rightarrow> Inl (''failed to generate thumbnail: '' @ e)
                        | Inr (thumb, md5, phash) \<Rightarrow>
                            Inr (f\<lparr>fw_meta := (fw_meta f)\<lparr>m_md5 := md5, m_phash := phash, m_width := w, m_height := h, m_mime := mime\<rparr>,
                              fw_thumb := Some thumb, fw_camera := camera\<rparr>)))))))"

definition processDiscoveryWorkerFile :: "image_env \<Rightarrow> string \<Rightarrow> file_input \<Rightarrow> string + file_input" where
  "processDiscoveryWorkerFile E imagesDir f =
     (if m_mtime (fw_meta f) = None \<or> m_size (fw_meta f) = None
      then Inl ''file walk metadata missing: mtime and size required''
      else processFileContents E imagesDir (f\<lparr>fw_exists := False\<rparr>))"

definition ProcessDiscoveryFile :: "image_env \<Rightarrow> string \<Rightarrow> file_input \<Rightarrow> string + file_input" where
  "ProcessDiscoveryFile E imagesDir f =
     (if fw_path f = [] then Inl ''empty path''
      else if ie_cancelled E then Inl ''context canceled''
      else if m_mtime (fw_meta f) = None \<or> m_size (fw_meta f) = None
        then Inl ''file walk metadata missing: mtime and size required''
      else processDiscoveryWorkerFile E imagesDir f)"

section \<open>Invalid files\<close>

definition categorizeProcessError :: "string \<Rightarrow> string" where
  "categorizeProcessError s =
     (if Contains s ''non-image'' then ''non-image''
      else if Contains s ''invalid JPEG markers'' then ''jpeg-markers''
      else if Contains s ''decode'' \<or> Contains s ''DecodeConfig'' then ''decode''
      else if Contains s ''thumbnail'' then ''thumbnail''
      else if Contains s ''EXIF'' \<or> Contains s ''exif'' then ''exif''
      else if Contains s ''open'' \<or> Contains s ''Open'' then ''open''
      else ''unknown'')"

definition galleryParentDirForFile :: "string \<Rightarrow> string" where
  "galleryParentDirForFile galleryPath =
     (let dir = Dir galleryPath in if dir = ''.'' then [] else TrimPrefix dir ''/'')"

definition folderIDForInvalidGalleryPath :: "string \<Rightarrow> int db" where
  "folderIDForInvalidGalleryPath galleryPath =
     andThen GetConn (\<lambda>_. GetFolderIDByPath (galleryParentDirForFile galleryPath))"

definition RecordInvalidFile :: "string \<Rightarrow> int \<Rightarrow> int \<Rightarrow> string \<Rightarrow> int \<Rightarrow> unit db" where
  "RecordInvalidFile path mtime sz reason folder =
     andThen GetConn (\<lambda>_. UpsertInvalidFile path mtime sz reason folder)"

definition recordInvalidFileFromPath :: "image_env \<Rightarrow> string \<Rightarrow> string \<Rightarrow> string \<Rightarrow> unit db" where
  "recordInvalidFileFromPath E fullPath path err =
     (case ie_Stat E fullPath of
        None \<Rightarrow> failDb Failure
      | Some (mtime, sz) \<Rightarrow>
          andThen (folderIDForInvalidGalleryPath path) (\<lambda>folder.
            RecordInvalidFile path mtime sz (categorizeProcessError err) folder))"

section \<open>The loop of a worker\<close>

text \<open>What a worker changes: the counters of the run and of the pool, the gallery, the files submitted
  to the write batcher, and the sizes reported as inserted.\<close>

record worker_sys =
  wk_stats :: "proc_stats option"
  wk_pool :: pool_stats
  wk_db :: gallery
  wk_sent :: "file_input list"
  wk_inserted :: "int list"

definition on_stats :: "(proc_stats \<Rightarrow> proc_stats) \<Rightarrow> worker_sys \<Rightarrow> worker_sys" where
  "on_stats f w = w\<lparr>wk_stats := map_option f (wk_stats w)\<rparr>"

definition on_pool :: "(pool_stats \<Rightarrow> pool_stats) \<Rightarrow> worker_sys \<Rightarrow> worker_sys" where
  "on_pool f w = w\<lparr>wk_pool := f (wk_pool w)\<rparr>"

definition inflight :: "64 word \<Rightarrow> worker_sys \<Rightarrow> worker_sys" where
  "inflight d = on_stats (\<lambda>s. s\<lparr>ps_InFlight := ps_InFlight s + d\<rparr>)"

definition file_of_work :: "string \<Rightarrow> path_work \<Rightarrow> file_input" where
  "file_of_work path work = \<lparr>fw_path = path, fw_meta = \<lparr>m_size = Some (sint (pw_SizeBytes work)),
     m_mtime = Some (sint (pw_MtimeUnix work)), m_md5 = None, m_phash = 0, m_width = 0, m_height = 0, m_mime = []\<rparr>,
     fw_thumb = None, fw_camera = None, fw_exists = False\<rparr>"

text \<open>One dequeued item, from the count of items in flight to the completion. The outcome of the
  submission is given.\<close>

definition process_item :: "image_env \<Rightarrow> string \<Rightarrow> bool \<Rightarrow> int \<Rightarrow> path_work \<Rightarrow> worker_sys \<Rightarrow> worker_sys" where
  "process_item E imagesDir submitFails now work w0 =
     (let w = inflight 1 w0 in
      case RemoveImagesDirPrefix imagesDir (pw_Path work) of
        None \<Rightarrow> on_pool (AddCompleted now \<circ> AddFailed) (inflight (- 1) w)
      | Some path \<Rightarrow>
          (case ProcessDiscoveryFile E imagesDir (file_of_work path work) of
             Inl err \<Rightarrow>
               (let w1 = inflight (- 1) w;
                    (r, g) = recordInvalidFileFromPath E (pw_Path work) path err (wk_db w1);
                    w2 = w1\<lparr>wk_db := g\<rparr>;
                    w3 = (case r of Inl _ \<Rightarrow> w2 | Inr _ \<Rightarrow> on_stats (\<lambda>s. s\<lparr>ps_SkippedInvalid := ps_SkippedInvalid s + 1\<rparr>) w2)
                in on_pool (AddCompleted now \<circ> AddFailed) w3)
           | Inr f \<Rightarrow>
               (let w1 = on_stats (\<lambda>s. s\<lparr>ps_NewlyInserted := ps_NewlyInserted s + 1\<rparr>) w;
                    w2 = (if submitFails then on_pool AddFailed w1
                          else on_pool AddSuccessful (w1\<lparr>wk_sent := wk_sent w1 @ [f],
                            wk_inserted := wk_inserted w1 @ (case m_size (fw_meta f) of None \<Rightarrow> [] | Some n \<Rightarrow> [n])\<rparr>))
                in on_pool (AddCompleted now) (inflight (- 1) w2))))"

text \<open>The answers a worker can get in its rounds: the context is done, it should stop, or what the queue
  returns.\<close>

datatype round = Cancelled | StopNow | Emptied | ClosedQueue | DequeueError | Item path_work image_env bool

fun runPoolWorkerWithProcessor :: "string \<Rightarrow> int \<Rightarrow> round list \<Rightarrow> worker_sys \<Rightarrow> worker_sys" where
  "runPoolWorkerWithProcessor imagesDir now [] w = w"
| "runPoolWorkerWithProcessor imagesDir now (r # rs) w =
     (case r of
        Cancelled \<Rightarrow> w
      | StopNow \<Rightarrow> w
      | Emptied \<Rightarrow> runPoolWorkerWithProcessor imagesDir now rs (on_pool (AddSubmitted now) w)
      | ClosedQueue \<Rightarrow> on_pool (AddSubmitted now) w
      | DequeueError \<Rightarrow> on_pool (AddSubmitted now) w
      | Item work E submitFails \<Rightarrow>
          runPoolWorkerWithProcessor imagesDir now rs
            (process_item E imagesDir submitFails now work (on_pool (AddSubmitted now) w)))"

section \<open>The walk's side of the queue\<close>

text \<open>The answers of the queue to the attempts of one item; between two attempts the context may be
  cancelled.\<close>

datatype attempt = Accepted | QueueFull bool | Refused

fun enqueueWithBackpressure :: "attempt list \<Rightarrow> (string option \<times> attempt list) option" where
  "enqueueWithBackpressure [] = None"
| "enqueueWithBackpressure (a # as) =
     (case a of
        Accepted \<Rightarrow> Some (None, as)
      | QueueFull cancelled \<Rightarrow> if cancelled then Some (Some ''context canceled'', as) else enqueueWithBackpressure as
      | Refused \<Rightarrow> Some (Some ''queue refused'', as))"

definition work_of_report :: "string \<Rightarrow> int \<Rightarrow> int \<Rightarrow> path_work" where
  "work_of_report path mtime sz = \<lparr>pw_Path = path, pw_MtimeUnix = word_of_int mtime, pw_SizeBytes = word_of_int sz\<rparr>"

text \<open>The reported files are enqueued in order; after a failure the rest is only drained. The result
  is the error, the enqueued items and the drained reports.\<close>

fun enqueue_reports :: "attempt list \<Rightarrow> (string \<times> int \<times> int) list \<Rightarrow> string option \<times> path_work list \<times> (string \<times> int \<times> int) list" where
  "enqueue_reports as [] = (None, [], [])"
| "enqueue_reports as ((p, m, n) # rs) =
     (case enqueueWithBackpressure as of
        None \<Rightarrow> (Some ''context canceled'', [], rs)
      | Some (Some e, _) \<Rightarrow> (Some e, [], rs)
      | Some (None, as') \<Rightarrow> (case enqueue_reports as' rs of (e, ws, ds) \<Rightarrow> (e, work_of_report p m n # ws, ds)))"

section \<open>Accounting\<close>

lemma on_simps [simp]:
  "wk_pool (on_stats f w) = wk_pool w" "wk_db (on_stats f w) = wk_db w" "wk_sent (on_stats f w) = wk_sent w"
  "wk_inserted (on_stats f w) = wk_inserted w" "wk_stats (on_stats f w) = map_option f (wk_stats w)"
  "wk_stats (on_pool h w) = wk_stats w" "wk_db (on_pool h w) = wk_db w" "wk_sent (on_pool h w) = wk_sent w"
  "wk_inserted (on_pool h w) = wk_inserted w" "wk_pool (on_pool h w) = h (wk_pool w)"
  by (simp_all add: on_stats_def on_pool_def)

lemma inflight_simps [simp]:
  "wk_pool (inflight d w) = wk_pool w" "wk_db (inflight d w) = wk_db w" "wk_sent (inflight d w) = wk_sent w"
  "wk_inserted (inflight d w) = wk_inserted w"
  "wk_stats (inflight d w) = map_option (\<lambda>s. s\<lparr>ps_InFlight := ps_InFlight s + d\<rparr>) (wk_stats w)"
  by (simp_all add: inflight_def)

text \<open>What rounds change, with the number of items and of items that were sent.\<close>

definition accounts :: "nat \<Rightarrow> nat \<Rightarrow> worker_sys \<Rightarrow> worker_sys \<Rightarrow> bool" where
  "accounts n k w w' \<longleftrightarrow>
     (\<forall>s. wk_stats w = Some s \<longrightarrow> (\<exists>s'. wk_stats w' = Some s' \<and> ps_InFlight s' = ps_InFlight s \<and>
        ps_TotalFound s' = ps_TotalFound s \<and> ps_AlreadyExisting s' = ps_AlreadyExisting s))
   \<and> pl_CompletedTasks (wk_pool w') = pl_CompletedTasks (wk_pool w) + of_nat n
   \<and> pl_SuccessfulTasks (wk_pool w') = pl_SuccessfulTasks (wk_pool w) + of_nat k
   \<and> pl_FailedTasks (wk_pool w') = pl_FailedTasks (wk_pool w) + of_nat (n - k)
   \<and> k \<le> n \<and> length (wk_sent w') = length (wk_sent w) + k"

lemma accounts_refl: "accounts 0 0 w (on_pool (AddSubmitted now) w)" "accounts 0 0 w w"
  by (simp_all add: accounts_def AddSubmitted_def)

lemma accounts_trans:
  assumes "accounts n k a b" "accounts m l b c"
  shows "accounts (n + m) (k + l) a c"
proof -
  have s: "\<exists>s'. wk_stats c = Some s' \<and> ps_InFlight s' = ps_InFlight s \<and> ps_TotalFound s' = ps_TotalFound s
      \<and> ps_AlreadyExisting s' = ps_AlreadyExisting s" if "wk_stats a = Some s" for s
    using assms that unfolding accounts_def by fastforce
  have "k \<le> n" "l \<le> m" using assms by (simp_all add: accounts_def)
  then have "n + m - (k + l) = (n - k) + (m - l)" by simp
  then show ?thesis using assms s unfolding accounts_def by simp
qed

lemma item_accounts: "\<exists>k. accounts 1 k w (process_item E imagesDir submitFails now work w)"
proof (cases "RemoveImagesDirPrefix imagesDir (pw_Path work)")
  case None
  then show ?thesis
    by (intro exI [of _ 0]) (simp add: process_item_def accounts_def AddCompleted_def AddFailed_def Let_def)
next
  case path: (Some path)
  show ?thesis
  proof (cases "ProcessDiscoveryFile E imagesDir (file_of_work path work)")
    case (Inl err)
    obtain r g where rec: "recordInvalidFileFromPath E (pw_Path work) path err (wk_db w) = (r, g)" by force
    show ?thesis
      by (intro exI [of _ 0], cases r)
        (simp_all add: process_item_def path Inl rec accounts_def AddCompleted_def AddFailed_def Let_def)
  next
    case (Inr f)
    show ?thesis
      by (intro exI [of _ "if submitFails then 0 else 1"])
        (simp add: process_item_def path Inr accounts_def AddCompleted_def AddFailed_def AddSuccessful_def Let_def)
  qed
qed

definition items_before_end :: "round list \<Rightarrow> nat" where
  "items_before_end rs = length (filter (\<lambda>r. case r of Item _ _ _ \<Rightarrow> True | _ \<Rightarrow> False)
     (takeWhile (\<lambda>r. case r of Item _ _ _ \<Rightarrow> True | Emptied \<Rightarrow> True | _ \<Rightarrow> False) rs))"

text \<open>A worker accounts for every item it takes: afterwards as many items are in flight as before,
  each item is completed once and is either submitted for writing or counted as failed, never both,
  and the counters of the walk are not touched.\<close>

theorem worker_accounts_items:
  "\<exists>k. accounts (items_before_end rs) k w (runPoolWorkerWithProcessor imagesDir now rs w)"
proof (induction rs arbitrary: w)
  case Nil
  show ?case by (intro exI [of _ 0]) (simp add: items_before_end_def accounts_refl)
next
  case (Cons r rs)
  show ?case
  proof (cases r)
    case Emptied
    from Cons.IH obtain k where
      "accounts (items_before_end rs) k (on_pool (AddSubmitted now) w)
         (runPoolWorkerWithProcessor imagesDir now rs (on_pool (AddSubmitted now) w))" by blast
    from accounts_trans [OF accounts_refl(1) this] show ?thesis
      by (auto simp: Emptied items_before_end_def)
  next
    case (Item work E sf)
    let ?w1 = "on_pool (AddSubmitted now) w"
    let ?w2 = "process_item E imagesDir sf now work ?w1"
    obtain k where k: "accounts 1 k ?w1 ?w2" using item_accounts by blast
    obtain l where l: "accounts (items_before_end rs) l ?w2 (runPoolWorkerWithProcessor imagesDir now rs ?w2)"
      using Cons.IH by blast
    from accounts_trans [OF accounts_trans [OF accounts_refl(1) k] l] show ?thesis
      by (intro exI [of _ "k + l"]) (simp add: Item items_before_end_def)
  qed (intro exI [of _ 0], simp add: items_before_end_def accounts_refl)+
qed

section \<open>Invalid files in later walks\<close>

lemma galleryParentDir_join:
  assumes "list_all component (cs @ [n])"
  shows "galleryParentDirForFile (join_slash (cs @ [n])) = join_slash cs"
proof -
  have p: "parent_path (join_slash (cs @ [n])) = join_slash cs" by (rule parent_join [OF assms])
  show ?thesis
  proof (cases "cs = []")
    case True
    then show ?thesis using Dir_join [OF assms] by (simp add: galleryParentDirForFile_def)
  next
    case False
    have c: "list_all component cs" using assms by simp
    have "\<not> HasPrefix (join_slash cs) ''/''"
      using join_head [OF c False] by (cases "join_slash cs") (simp_all add: rooted_def HasPrefix_def)
    moreover have "join_slash cs \<noteq> []" using join_head [OF c False] by simp
    ultimately show ?thesis using p Dir_join [OF assms] False
      by (auto simp: galleryParentDirForFile_def parent_path_def TrimPrefix_def Let_def split: if_splits)
  qed
qed

lemma folder_in:
  assumes "folder_at g p = Some fo"
  shows "has_folder g (fo_id fo)"
  using assms by (auto simp: folder_at_def has_folder_def split: option.splits dest: find_SomeD)

text \<open>A file that cannot be processed, in a directory that has a folder, is recorded, and the walks that
  follow leave it out as long as its time and size stay what they were (when no other invalid file of
  the same name hash is known).\<close>

theorem invalid_file_skipped:
  assumes "faults g = []" "list_all component (ds @ cs @ [n])" "ds \<noteq> []" "cs \<noteq> []"
    and "folder_at g (join_slash cs) = Some fo" "ie_Stat E full = Some (fi_mtime i, fi_size i)"
    and "\<forall>r \<in> set (invalids g). HashPathBytes (Base (iv_path r)) = HashPathBytes n \<longrightarrow> iv_path r = join_slash (cs @ [n])"
  shows "\<exists>g' m. recordInvalidFileFromPath E full (join_slash (cs @ [n])) err g = (Inr (), g') \<and>
    NewDiscoveryDirEntMapFunc (abs_of ds) (abs_of (ds @ cs)) g' = (Inr m, g') \<and>
    DiscoveryDirEntModified n i (m (HashPathBytes n)) = Some False"
proof -
  let ?p = "join_slash (cs @ [n])"
  have c: "list_all component (cs @ [n])" "list_all component (ds @ cs)" using assms(2) by simp_all
  let ?row = "\<lparr>iv_path = ?p, iv_mtime = fi_mtime i, iv_size = fi_size i, iv_reason = categorizeProcessError err,
    iv_folder = fo_id fo\<rparr>"
  let ?rest = "filter (\<lambda>r. iv_path r \<noteq> ?p) (invalids g)"
  let ?g = "g\<lparr>invalids := ?row # ?rest\<rparr>"
  have rec: "recordInvalidFileFromPath E full ?p err g = (Inr (), ?g)"
    using assms(1,5,6) folder_in [OF assms(5)] galleryParentDir_join [OF c(1)]
    by (simp add: recordInvalidFileFromPath_def folderIDForInvalidGalleryPath_def RecordInvalidFile_def GetConn_def
        GetFolderIDByPath_def UpsertInvalidFile_def andThen_def found_def)
  have f: "faults ?g = []" "folder_at ?g (join_slash cs) = Some fo"
    using assms(1,5) by (simp_all add: folder_at_def split: option.splits)
  let ?files = "foldl (\<lambda>m row. m(HashPathBytes (fi_name row) \<mapsto> discoveryFileRowToDirEnt row)) Map.empty
    (filter (\<lambda>x. fi_folder x = Some (fo_id fo)) (files ?g))"
  let ?m = "buildDirEntMapFromRows (filter (\<lambda>x. fi_folder x = Some (fo_id fo)) (files ?g))
    (filter (\<lambda>r. iv_folder r = fo_id fo) (invalids ?g))"
  have cat: "NewDiscoveryDirEntMapFunc (abs_of ds) (abs_of (ds @ cs)) ?g = (Inr ?m, ?g)"
    by (rule catalogue_below [OF f c(2) assms(3,4)])
  have list: "filter (\<lambda>r. iv_folder r = fo_id fo) (invalids ?g) = ?row # filter (\<lambda>r. iv_folder r = fo_id fo) ?rest" by simp
  have other: "HashPathBytes (Base (iv_path r)) \<noteq> HashPathBytes n"
    if "r \<in> set (filter (\<lambda>r. iv_folder r = fo_id fo) ?rest)" for r
  proof -
    have "r \<in> set (invalids g)" "iv_path r \<noteq> join_slash (cs @ [n])" using that by simp_all
    then show ?thesis using assms(7) by blast
  qed
  have "?m (HashPathBytes n) = add_invalid_row ?files ?row (HashPathBytes n)"
    unfolding buildDirEntMapFromRows_def list foldl.simps by (rule invalid_fold_other [OF other])
  then obtain st where "?m (HashPathBytes n) = Some (mergeInvalidIntoDirEnt st ?row)"
    using Base_join [OF c(1)] by (cases "?files (HashPathBytes n)")
      (auto simp: add_invalid_row_def discoveryInvalidRowToDirEnt_def)
  then have "DiscoveryDirEntModified n i (?m (HashPathBytes n)) = Some False"
    by (simp add: DiscoveryDirEntModified_def discoveryDirEntModifiedCore_def discoveryModificationDecision_def
        mergeInvalidIntoDirEnt_def Let_def)
  with rec cat show ?thesis by (intro exI conjI)
qed

text \<open>A file that cannot be processed, in a directory that has no folder yet because none of its
  files could be imported, is not recorded at all, and every walk reports it again.\<close>

theorem invalid_in_new_folder_repeated:
  assumes "faults (wk_db w) = []" "list_all component (ds @ cs @ [n])" "ds \<noteq> []" "cs \<noteq> []"
    and "pw_Path work = abs_of (ds @ cs @ [n])" "folder_at (wk_db w) (join_slash cs) = None"
    and "ProcessDiscoveryFile E (abs_of ds) (file_of_work (join_slash (cs @ [n])) work) = Inl err"
  shows "wk_db (process_item E (abs_of ds) submitFails now work w) = wk_db w \<and>
    wk_sent (process_item E (abs_of ds) submitFails now work w) = wk_sent w \<and>
    (\<exists>m. NewDiscoveryDirEntMapFunc (abs_of ds) (abs_of (ds @ cs)) (wk_db w) = (Inr m, wk_db w) \<and>
      DiscoveryDirEntModified n i (m (HashPathBytes n)) = Some True)"
proof -
  have c: "list_all component (cs @ [n])" "list_all component (ds @ cs)" using assms(2) by simp_all
  have pre: "RemoveImagesDirPrefix (abs_of ds) (pw_Path work) = Some (join_slash (cs @ [n]))"
    using RemoveImagesDirPrefix_below [of ds "cs @ [n]"] assms(2,3,5) by simp
  have "\<exists>e. recordInvalidFileFromPath E (pw_Path work) (join_slash (cs @ [n])) err (wk_db w) = (Inl e, wk_db w)"
    using assms(1,6) galleryParentDir_join [OF c(1)]
    by (auto simp: recordInvalidFileFromPath_def folderIDForInvalidGalleryPath_def GetConn_def GetFolderIDByPath_def
        andThen_def found_def failDb_def split: option.split)
  then have "wk_db (process_item E (abs_of ds) submitFails now work w) = wk_db w"
    "wk_sent (process_item E (abs_of ds) submitFails now work w) = wk_sent w"
    by (auto simp: process_item_def pre assms(7) Let_def)
  moreover have "NewDiscoveryDirEntMapFunc (abs_of ds) (abs_of (ds @ cs)) (wk_db w) = (Inr Map.empty, wk_db w)"
    using assms(1,6) RemoveImagesDirPrefix_below [OF c(2) assms(3,4)]
    by (simp add: NewDiscoveryDirEntMapFunc_def GetConn_def GetFolderIDByPath_def andThen_def tryDb_def found_def returnDb_def)
  moreover have "DiscoveryDirEntModified n i None = Some True"
    by (simp add: DiscoveryDirEntModified_def discoveryDirEntModifiedCore_def discoveryModificationDecision_def Let_def)
  ultimately show ?thesis by auto
qed

section \<open>Examples\<close>

definition broken_image :: image_env where
  "broken_image = \<lparr>ie_open = (\<lambda>p. Some ''permission denied''), ie_readAtLeast = (\<lambda>p n. Inr []), ie_seek = (\<lambda>p. None),
     ie_DetectContentType = (\<lambda>b. ''image/png''), ie_ExtractExifData = (\<lambda>p. Inr None), ie_DecodeConfig = (\<lambda>p. Inr (1, 1)),
     ie_seekBeforeThumbnail = (\<lambda>p. None), ie_GenerateThumbnail = (\<lambda>p w h. Inr (''t'', None, 0)),
     ie_Stat = (\<lambda>p. Some (5, 6)), ie_quote = (\<lambda>s. s), ie_cancelled = False\<rparr>"

definition idle_worker :: "gallery \<Rightarrow> worker_sys" where
  "idle_worker g = \<lparr>wk_stats = None, wk_pool = empty_stats, wk_db = g, wk_sent = [], wk_inserted = []\<rparr>"

definition broken_work :: path_work where
  "broken_work = \<lparr>pw_Path = ''/img/d/e/x'', pw_MtimeUnix = 5, pw_SizeBytes = 6\<rparr>"

theorem invalid_file_skipped_witness:
  "\<exists>g' m. recordInvalidFileFromPath broken_image ''/img/d/e/x'' ''d/e/x'' ''failed to open'' one_file = (Inr (), g') \<and>
    NewDiscoveryDirEntMapFunc (abs_of [''img'']) (abs_of ([''img''] @ [''d'', ''e''])) g' = (Inr m, g') \<and>
    DiscoveryDirEntModified ''x'' \<lparr>fi_isDir = False, fi_symlink = False, fi_size = 6, fi_mtime = 5\<rparr> (m (HashPathBytes ''x'')) = Some False"
proof -
  have e: "folder_at one_file ''d/e'' \<noteq> None" "invalids one_file = []" "faults one_file = []" by code_simp+
  obtain fo where fo: "folder_at one_file ''d/e'' = Some fo" using e(1) by auto
  have c: "list_all component ([''img''] @ [''d'', ''e''] @ [''x''])" by (simp add: component_def)
  show ?thesis
    using invalid_file_skipped [OF e(3) c, of fo broken_image "''/img/d/e/x''"
        "\<lparr>fi_isDir = False, fi_symlink = False, fi_size = 6, fi_mtime = 5\<rparr>" "''failed to open''"] fo e(2)
    by (simp add: broken_image_def)
qed

theorem invalid_in_new_folder_repeated_witness:
  "wk_db (process_item broken_image (abs_of [''img'']) False 1 broken_work (idle_worker empty_gallery)) = empty_gallery"
proof -
  have g: "faults (wk_db (idle_worker empty_gallery)) = []" by (simp add: idle_worker_def empty_gallery_def)
  have c: "list_all component ([''img''] @ [''d'', ''e''] @ [''x''])" by (simp add: component_def)
  have n: "folder_at (wk_db (idle_worker empty_gallery)) (join_slash [''d'', ''e'']) = None"
    by (simp add: idle_worker_def empty_gallery_def folder_at_def id_of_path_def)
  have p: "pw_Path broken_work = abs_of ([''img''] @ [''d'', ''e''] @ [''x''])" by (simp add: broken_work_def abs_of_def)
  have "\<exists>err. ProcessDiscoveryFile broken_image (abs_of [''img'']) (file_of_work (join_slash ([''d'', ''e''] @ [''x''])) broken_work) = Inl err"
    by (simp add: ProcessDiscoveryFile_def processDiscoveryWorkerFile_def processFileContents_def file_of_work_def broken_image_def Let_def)
  then obtain err where "ProcessDiscoveryFile broken_image (abs_of [''img''])
      (file_of_work (join_slash ([''d'', ''e''] @ [''x''])) broken_work) = Inl err" ..
  from invalid_in_new_folder_repeated [OF g c _ _ p n this, of False 1] show ?thesis by (simp add: idle_worker_def)
qed

end
