(* ===== verification/Table_Swap.thy ===== *)
theory Table_Swap
  imports Go_Text
begin

text \<open>
  Replacing a table by a freshly built one (\<^verbatim>\<open>internal/tableswap\<close>): the text of its schema is rewritten,
  its indexes are copied under free names, and two renames in one transaction put the new table in
  place. What SQLite makes of the text of a statement is a parameter.
\<close>

section \<open>Names\<close>

definition destName :: "string \<Rightarrow> string" where
  "destName name = name @ ''_new''"

definition staleName :: "string \<Rightarrow> string" where
  "staleName name = name @ ''_to_be_dropped''"

definition isDigits :: "string \<Rightarrow> bool" where
  "isDigits s \<longleftrightarrow> s \<noteq> [] \<and> list_all is_digit s"

definition stripIndexSuffix :: "string \<Rightarrow> string" where
  "stripIndexSuffix name =
     (let after = rev (takeWhile (\<lambda>c. c \<noteq> CHR ''_'') (rev name)) in
      if CHR ''_'' \<in> set name \<and> isDigits after then take (length name - length after - 1) name else name)"

definition candidate :: "string \<Rightarrow> nat \<Rightarrow> string" where
  "candidate base i = base @ CHR ''_'' # dec_of_nat i"

text \<open>The loop over the suffixes; the first argument bounds the number of rounds.\<close>

fun suffix_loop :: "nat \<Rightarrow> string \<Rightarrow> string list \<Rightarrow> nat \<Rightarrow> string option" where
  "suffix_loop 0 base existing i = None"
| "suffix_loop (Suc k) base existing i =
     (if candidate base i \<notin> set existing then Some (candidate base i) else suffix_loop k base existing (Suc i))"

definition allocateIndexName :: "string \<Rightarrow> string list \<Rightarrow> string option" where
  "allocateIndexName active existing =
     (let base = stripIndexSuffix active in
      if base \<notin> set existing then Some base else suffix_loop (Suc (length existing)) base existing 1)"

section \<open>Rewriting an identifier\<close>

definition is_word :: "char \<Rightarrow> bool" where
  "is_word c \<longleftrightarrow> (let n = of_char c :: nat in (48 \<le> n \<and> n \<le> 57) \<or> (65 \<le> n \<and> n \<le> 90) \<or> n = 95 \<or> (97 \<le> n \<and> n \<le> 122))"

text \<open>A word boundary lies between a word character and something else.\<close>

definition boundary :: "char option \<Rightarrow> char option \<Rightarrow> bool" where
  "boundary a b \<longleftrightarrow> (case a of None \<Rightarrow> False | Some c \<Rightarrow> is_word c) \<noteq> (case b of None \<Rightarrow> False | Some c \<Rightarrow> is_word c)"

definition head_opt :: "string \<Rightarrow> char option" where
  "head_opt s = (case s of [] \<Rightarrow> None | c # _ \<Rightarrow> Some c)"

definition matches_at :: "char option \<Rightarrow> string \<Rightarrow> string \<Rightarrow> bool" where
  "matches_at prev name s \<longleftrightarrow> name \<noteq> [] \<and> HasPrefix s name \<and> boundary prev (head_opt s)
     \<and> boundary (Some (last name)) (head_opt (drop (length name) s))"

function rewrite_from :: "char option \<Rightarrow> string \<Rightarrow> string \<Rightarrow> string \<Rightarrow> string" where
  "rewrite_from prev name to [] = []"
| "rewrite_from prev name to (c # s) =
     (if matches_at prev name (c # s)
      then to @ rewrite_from (Some (last name)) name to (drop (length name) (c # s))
      else c # rewrite_from (Some c) name to s)"
  by pat_completeness auto

termination
  by (relation "measure (\<lambda>(p, n, t, s). length s)") (auto simp: matches_at_def)

definition rewriteIdentifier :: "string \<Rightarrow> string \<Rightarrow> string \<Rightarrow> string" where
  "rewriteIdentifier query name to = rewrite_from None name to query"

section \<open>The database\<close>

text \<open>What SQLite reads from the text of a statement, and the text it keeps of a table after a rename.\<close>

record sq_engine =
  created_table :: "string \<Rightarrow> string option"
  created_index :: "string \<Rightarrow> (string \<times> string) option"
  renamed_sql :: "string \<Rightarrow> string \<Rightarrow> string \<Rightarrow> string"

record 'r sq_table =
  tb_name :: string
  tb_sql :: string
  tb_rows :: "'r list"

record sq_index =
  ix_name :: string
  ix_table :: string
  ix_sql :: string

record 'r sq_db =
  sq_tables :: "'r sq_table list"
  sq_indexes :: "sq_index list"
  sq_temp_store :: int
  sq_faults :: "bool list"

type_synonym ('r, 'a) sq = "'r sq_db \<Rightarrow> (string + 'a) \<times> 'r sq_db"

definition sq_then :: "('r, 'a) sq \<Rightarrow> ('a \<Rightarrow> ('r, 'b) sq) \<Rightarrow> ('r, 'b) sq" where
  "sq_then m k d = (case m d of (Inl e, d') \<Rightarrow> (Inl e, d') | (Inr x, d') \<Rightarrow> k x d')"

text \<open>A statement fails for an outside reason when the next outcome says so.\<close>

definition sq_stmt :: "('r, 'a) sq \<Rightarrow> ('r, 'a) sq" where
  "sq_stmt f d =
     (case sq_faults d of
        [] \<Rightarrow> f d
      | b # fs \<Rightarrow> if b then (Inl ''failed'', d\<lparr>sq_faults := fs\<rparr>) else f (d\<lparr>sq_faults := fs\<rparr>))"

definition find_table :: "string \<Rightarrow> 'r sq_db \<Rightarrow> 'r sq_table option" where
  "find_table n d = List.find (\<lambda>t. tb_name t = n) (sq_tables d)"

definition drop_if_exists :: "string \<Rightarrow> ('r, unit) sq" where
  "drop_if_exists n = sq_stmt (\<lambda>d. (Inr (), d\<lparr>sq_tables := filter (\<lambda>t. tb_name t \<noteq> n) (sq_tables d),
     sq_indexes := filter (\<lambda>i. ix_table i \<noteq> n) (sq_indexes d)\<rparr>))"

definition rename_table :: "sq_engine \<Rightarrow> string \<Rightarrow> string \<Rightarrow> ('r, unit) sq" where
  "rename_table E a b = sq_stmt (\<lambda>d.
     if find_table a d = None then (Inl ''no such table'', d)
     else if find_table b d \<noteq> None then (Inl ''there is already another table or index with this name'', d)
     else (Inr (), d\<lparr>sq_tables := map (\<lambda>t. if tb_name t = a then t\<lparr>tb_name := b, tb_sql := renamed_sql E a b (tb_sql t)\<rparr> else t) (sq_tables d),
       sq_indexes := map (\<lambda>i. if ix_table i = a then i\<lparr>ix_table := b, ix_sql := renamed_sql E a b (ix_sql i)\<rparr> else i) (sq_indexes d)\<rparr>))"

definition create_table :: "sq_engine \<Rightarrow> string \<Rightarrow> ('r, unit) sq" where
  "create_table E sql = sq_stmt (\<lambda>d. case created_table E sql of
     None \<Rightarrow> (Inl ''syntax error'', d)
   | Some n \<Rightarrow> if find_table n d \<noteq> None then (Inl ''table already exists'', d)
       else (Inr (), d\<lparr>sq_tables := sq_tables d @ [\<lparr>tb_name = n, tb_sql = sql, tb_rows = []\<rparr>]\<rparr>))"

definition create_index :: "sq_engine \<Rightarrow> string \<Rightarrow> ('r, unit) sq" where
  "create_index E sql = sq_stmt (\<lambda>d. case created_index E sql of
     None \<Rightarrow> (Inl ''syntax error'', d)
   | Some (n, t) \<Rightarrow> if n \<in> ix_name ` set (sq_indexes d) then (Inl ''index already exists'', d)
       else if find_table t d = None then (Inl ''no such table'', d)
       else (Inr (), d\<lparr>sq_indexes := sq_indexes d @ [\<lparr>ix_name = n, ix_table = t, ix_sql = sql\<rparr>]\<rparr>))"

text \<open>A transaction: whatever fails after its begin, also the commit, takes every change back.\<close>

definition in_tx :: "('r, 'a) sq \<Rightarrow> ('r, 'a) sq" where
  "in_tx m d =
     (case sq_stmt (\<lambda>d. (Inr (), d)) d of
        (Inl e, d1) \<Rightarrow> (Inl e, d1)
      | (Inr u, d1) \<Rightarrow>
          (case m d1 of
             (Inl e, d2) \<Rightarrow> (Inl e, d1\<lparr>sq_faults := sq_faults d2\<rparr>)
           | (Inr x, d2) \<Rightarrow>
               (case sq_stmt (\<lambda>d. (Inr (), d)) d2 of
                  (Inl e, d3) \<Rightarrow> (Inl e, d1\<lparr>sq_faults := sq_faults d3\<rparr>)
                | (Inr u, d3) \<Rightarrow> (Inr x, d3))))"

section \<open>Building the new table\<close>

definition CloneEmpty :: "sq_engine \<Rightarrow> string \<Rightarrow> ('r, unit) sq" where
  "CloneEmpty E active = in_tx
     (sq_then (drop_if_exists (destName active)) (\<lambda>_.
       sq_then (sq_stmt (\<lambda>d. (case find_table active d of
             None \<Rightarrow> Inl ''active table does not exist'' | Some t \<Rightarrow> Inr (tb_sql t), d))) (\<lambda>sql.
         create_table E (rewriteIdentifier sql active (destName active)))))"

fun copy_indexes :: "sq_engine \<Rightarrow> string \<Rightarrow> string list \<Rightarrow> sq_index list \<Rightarrow> ('r, unit) sq" where
  "copy_indexes E active occupancy [] d = (Inr (), d)"
| "copy_indexes E active occupancy (x # xs) d =
     (case allocateIndexName (ix_name x) occupancy of
        None \<Rightarrow> (Inl ''unreachable'', d)
      | Some newName \<Rightarrow>
          sq_then (create_index E (rewriteIdentifier (rewriteIdentifier (ix_sql x) (ix_name x) newName) active (destName active)))
            (\<lambda>_. copy_indexes E active (newName # occupancy) xs) d)"

text \<open>Indexes that SQLite makes itself have no text and are left out of the model's list. The copies
  are made in a transaction; the setting for temporary files is put back whatever happens.\<close>

definition copy_all_indexes :: "sq_engine \<Rightarrow> string \<Rightarrow> ('r, unit) sq" where
  "copy_all_indexes E active = in_tx
     (sq_then (sq_stmt (\<lambda>d. (if find_table (destName active) d = None then Inl ''destination table does not exist'' else Inr (), d))) (\<lambda>_.
       sq_then (sq_stmt (\<lambda>d. (Inr (map ix_name (sq_indexes d)), d))) (\<lambda>occupancy.
         sq_then (sq_stmt (\<lambda>d. (Inr (filter (\<lambda>i. ix_table i = active) (sq_indexes d)), d))) (\<lambda>copySet.
           copy_indexes E active occupancy copySet))))"

definition set_temp_store :: "int \<Rightarrow> ('r, unit) sq" where
  "set_temp_store v = sq_stmt (\<lambda>d. (Inr (), d\<lparr>sq_temp_store := v\<rparr>))"

definition CreateIndexes :: "sq_engine \<Rightarrow> string \<Rightarrow> ('r, unit) sq" where
  "CreateIndexes E active =
     sq_then (sq_stmt (\<lambda>d. (Inr (sq_temp_store d), d))) (\<lambda>saved.
       sq_then (set_temp_store 1) (\<lambda>_ d.
         (case copy_all_indexes E active d of
            (r, d1) \<Rightarrow> (case set_temp_store saved d1 of
               (Inl e, d2) \<Rightarrow> (case r of Inl e0 \<Rightarrow> Inl e0 | Inr u \<Rightarrow> Inl ''restore temp_store'', d2)
             | (Inr u, d2) \<Rightarrow> (r, d2)))))"

section \<open>The cutover\<close>

datatype stale_drop = StaleDropSync | StaleDropSkip | StaleDropHold

text \<open>The leased connection: what it sees of the database, the state its open transaction goes back to,
  whether \<^verbatim>\<open>putOnce\<close> has fired, how often \<^verbatim>\<open>put\<close> was called, and whether it was called while a
  transaction was open.\<close>

record 'r lease =
  ls_db :: "'r sq_db"
  ls_tx :: "'r sq_db option"
  ls_fired :: bool
  ls_puts :: nat
  ls_early :: bool

definition new_lease :: "'r sq_db \<Rightarrow> 'r lease" where
  "new_lease d = \<lparr>ls_db = d, ls_tx = None, ls_fired = False, ls_puts = 0, ls_early = False\<rparr>"

definition put_once :: "'r lease \<Rightarrow> 'r lease" where
  "put_once l = (if ls_fired l then l
     else l\<lparr>ls_fired := True, ls_puts := ls_puts l + 1, ls_early := ls_early l \<or> ls_tx l \<noteq> None\<rparr>)"

definition begin_tx :: "'r lease \<Rightarrow> string option \<times> 'r lease" where
  "begin_tx l = (case sq_stmt (\<lambda>d. (Inr (), d)) (ls_db l) of
       (Inl e, d) \<Rightarrow> (Some e, l\<lparr>ls_db := d\<rparr>)
     | (Inr u, d) \<Rightarrow> (None, l\<lparr>ls_db := d, ls_tx := Some d\<rparr>))"

definition exec_tx :: "('r, unit) sq \<Rightarrow> 'r lease \<Rightarrow> string option \<times> 'r lease" where
  "exec_tx m l = (case m (ls_db l) of
       (Inl e, d) \<Rightarrow> (Some e, l\<lparr>ls_db := d\<rparr>)
     | (Inr u, d) \<Rightarrow> (None, l\<lparr>ls_db := d\<rparr>))"

text \<open>\<^verbatim>\<open>Rollback\<close> of a transaction that is over does nothing (\<^verbatim>\<open>ErrTxDone\<close>); a \<^verbatim>\<open>Commit\<close> that fails
  is taken back by the driver.\<close>

definition rollback_tx :: "'r lease \<Rightarrow> 'r lease" where
  "rollback_tx l = (case ls_tx l of
       None \<Rightarrow> l
     | Some d \<Rightarrow> l\<lparr>ls_db := d\<lparr>sq_faults := sq_faults (ls_db l)\<rparr>, ls_tx := None\<rparr>)"

definition commit_tx :: "'r lease \<Rightarrow> string option \<times> 'r lease" where
  "commit_tx l = (case sq_stmt (\<lambda>d. (Inr (), d)) (ls_db l) of
       (Inl e, d) \<Rightarrow> (Some e, rollback_tx (l\<lparr>ls_db := d\<rparr>))
     | (Inr u, d) \<Rightarrow> (None, l\<lparr>ls_db := d, ls_tx := None\<rparr>))"

text \<open>The drop of the old table after the commit; its failure is only logged. The deferred
  \<^verbatim>\<open>Rollback\<close> runs after the \<^verbatim>\<open>put\<close> of every exit.\<close>

definition dropStale :: "string \<Rightarrow> 'r lease \<Rightarrow> 'r lease" where
  "dropStale stale l =
     (case begin_tx l of
        (Some e, l1) \<Rightarrow> put_once l1
      | (None, l1) \<Rightarrow> rollback_tx
          (case exec_tx (drop_if_exists stale) l1 of
             (Some e, l2) \<Rightarrow> put_once l2
           | (None, l2) \<Rightarrow>
               (case commit_tx l2 of
                  (Some e, l3) \<Rightarrow> put_once l3
                | (None, l3) \<Rightarrow> put_once l3)))"

text \<open>The last component is the table that a spawned worker (\<^verbatim>\<open>staleDropHold\<close>) will drop with
  \<^const>\<open>dropStale\<close> after \<^verbatim>\<open>Swap\<close> has returned.\<close>

definition Swap :: "sq_engine \<Rightarrow> stale_drop \<Rightarrow> string \<Rightarrow> 'r lease \<Rightarrow> (string + unit) \<times> 'r lease \<times> string option" where
  "Swap E mode active l =
     (case begin_tx l of
        (Some e, l1) \<Rightarrow> (Inl e, put_once l1, None)
      | (None, l1) \<Rightarrow>
     (case exec_tx (drop_if_exists (staleName active)) l1 of
        (Some e, l2) \<Rightarrow> (Inl e, put_once (rollback_tx l2), None)
      | (None, l2) \<Rightarrow>
     (case exec_tx (rename_table E active (staleName active)) l2 of
        (Some e, l3) \<Rightarrow> (Inl e, put_once (rollback_tx l3), None)
      | (None, l3) \<Rightarrow>
     (case exec_tx (rename_table E (destName active) active) l3 of
        (Some e, l4) \<Rightarrow> (Inl e, put_once (rollback_tx l4), None)
      | (None, l4) \<Rightarrow>
     (case commit_tx l4 of
        (Some e, l5) \<Rightarrow> (Inl e, put_once (rollback_tx l5), None)
      | (None, l5) \<Rightarrow>
          (case mode of
             StaleDropSkip \<Rightarrow> (Inr (), put_once l5, None)
           | StaleDropHold \<Rightarrow> (Inr (), l5, Some (staleName active))
           | StaleDropSync \<Rightarrow> (Inr (), dropStale (staleName active) l5, None)))))))"

section \<open>Free names\<close>

lemma candidate_inject: "candidate base i = candidate base j \<longleftrightarrow> i = j"
  by (simp add: candidate_def)

lemma suffix_loop_None:
  "suffix_loop k base existing i = None \<Longrightarrow> candidate base ` {i ..< i + k} \<subseteq> set existing"
proof (induction k arbitrary: i)
  case (Suc k)
  then have "candidate base i \<in> set existing" "suffix_loop k base existing (Suc i) = None"
    by (simp_all split: if_splits)
  with Suc.IH [of "Suc i"] have "candidate base i \<in> set existing" "candidate base ` {Suc i ..< Suc i + k} \<subseteq> set existing"
    by simp_all
  moreover have "{i ..< i + Suc k} = insert i {Suc i ..< Suc i + k}" by auto
  ultimately show ?case by simp
qed simp

lemma suffix_loop_Some:
  "suffix_loop k base existing i = Some n \<Longrightarrow>
     \<exists>j. n = candidate base j \<and> i \<le> j \<and> n \<notin> set existing \<and> (\<forall>l. i \<le> l \<and> l < j \<longrightarrow> candidate base l \<in> set existing)"
proof (induction k arbitrary: i)
  case (Suc k)
  show ?case
  proof (cases "candidate base i \<in> set existing")
    case True
    then obtain j where j: "n = candidate base j" "Suc i \<le> j" "n \<notin> set existing"
      "\<forall>l. Suc i \<le> l \<and> l < j \<longrightarrow> candidate base l \<in> set existing"
      using Suc.IH [of "Suc i"] Suc.prems by auto
    have "candidate base l \<in> set existing" if "i \<le> l" "l < j" for l
      using that j(4) True by (cases "l = i") auto
    with j show ?thesis by (intro exI [of _ j]) auto
  qed (use Suc.prems in auto)
qed simp

text \<open>The search for the name of an index always ends with a name that is free: the base name, or
  the first suffix that no other index has. As many rounds as there are names, and one, are enough.\<close>

theorem allocateIndexName_free:
  "\<exists>n. allocateIndexName active existing = Some n \<and> n \<notin> set existing \<and>
    (n = stripIndexSuffix active \<or>
     (\<exists>j. n = candidate (stripIndexSuffix active) j \<and> 1 \<le> j \<and> j \<le> Suc (length existing)))"
proof (cases "stripIndexSuffix active \<in> set existing")
  case False
  then show ?thesis by (simp add: allocateIndexName_def)
next
  case True
  let ?b = "stripIndexSuffix active" and ?k = "Suc (length existing)"
  have card: "card (candidate ?b ` {1 ..< 1 + k}) = k" for k
    by (subst card_image) (auto simp: inj_on_def candidate_inject)
  show ?thesis
  proof (cases "suffix_loop ?k ?b existing 1")
    case None
    have "card (candidate ?b ` {1 ..< 1 + ?k}) \<le> card (set existing)"
      by (rule card_mono [OF finite_set suffix_loop_None [OF None]])
    then show ?thesis using card [of ?k] card_length [of existing] by simp
  next
    case (Some n)
    from suffix_loop_Some [OF this] obtain j where j: "n = candidate ?b j" "1 \<le> j" "n \<notin> set existing"
      "\<forall>l. 1 \<le> l \<and> l < j \<longrightarrow> candidate ?b l \<in> set existing" by auto
    have "candidate ?b ` {1 ..< 1 + (j - 1)} \<subseteq> set existing" using j(4) by auto
    then have "j - 1 \<le> length existing"
      using card [of "j - 1"] card_mono [OF finite_set, of "candidate ?b ` {1 ..< 1 + (j - 1)}" existing] card_length [of existing]
      by linarith
    then show ?thesis using True Some j by (auto simp: allocateIndexName_def Let_def intro!: exI [of _ j])
  qed
qed

section \<open>Rewriting is by words\<close>

text \<open>The reference: the text is cut into words and what is between them.\<close>

function subst_words :: "string \<Rightarrow> string \<Rightarrow> string \<Rightarrow> string" where
  "subst_words name to [] = []"
| "subst_words name to (c # s) =
     (if is_word c
      then (let w = takeWhile is_word (c # s) in (if w = name then to else w) @ subst_words name to (dropWhile is_word (c # s)))
      else c # subst_words name to s)"
  by pat_completeness auto

termination
proof (relation "measure (\<lambda>(n, t, s). length s)")
  fix name to :: string and c s x
  assume "is_word c" "x = takeWhile is_word (c # s)"
  then show "((name, to, dropWhile is_word (c # s)), name, to, c # s) \<in> measure (\<lambda>(n, t, s). length s)"
    using length_dropWhile_le [of is_word s] by simp
qed auto

lemma rewrite_inside:
  assumes "list_all is_word w" "rest = [] \<or> \<not> is_word (hd rest)" "name \<noteq> []" "list_all is_word name" "is_word p"
  shows "rewrite_from (Some p) name to (w @ rest) =
    w @ (case rest of [] \<Rightarrow> [] | d # r \<Rightarrow> d # rewrite_from (Some d) name to r)"
  using assms(1,5)
proof (induction w arbitrary: p)
  case Nil
  have "\<not> matches_at q name (d # r)" if "\<not> is_word d" for q d r
    using assms(3,4) that by (cases name) (auto simp: matches_at_def HasPrefix_def)
  then show ?case using assms(2) by (cases rest) auto
next
  case (Cons c w)
  then have "\<not> matches_at (Some p) name (c # w @ rest)" by (simp add: matches_at_def boundary_def head_opt_def)
  then show ?case using Cons by simp
qed

text \<open>Rewriting an identifier replaces exactly the words of the text that are the identifier, and
  leaves every longer word and everything between the words as it is.\<close>

theorem rewriteIdentifier_words:
  assumes "name \<noteq> []" "list_all is_word name"
  shows "rewriteIdentifier query name to = subst_words name to query"
proof -
  have step: "rewrite_from p name to s = subst_words name to s" if "case p of None \<Rightarrow> True | Some q \<Rightarrow> \<not> is_word q" for p s
    using that
  proof (induction "length s" arbitrary: s p rule: less_induct)
    case less
    show ?case
    proof (cases s)
      case (Cons c r)
      have next_part: "(case rest of [] \<Rightarrow> [] | d # q \<Rightarrow> d # rewrite_from (Some d) name to q) = subst_words name to rest"
        if rest: "rest = [] \<or> \<not> is_word (hd rest)" "length rest < length s \<or> rest = s" "\<not> is_word c" for rest
        using rest less.hyps by (cases rest) (auto simp: Cons)
      show ?thesis
      proof (cases "is_word c")
        case False
        have "\<not> matches_at p name (c # r)"
          using assms False by (cases name) (auto simp: matches_at_def HasPrefix_def)
        then show ?thesis using False less.hyps [of r "Some c"] by (simp add: Cons)
      next
        case True
        define w where "w = takeWhile is_word (c # r)"
        define rest where "rest = dropWhile is_word (c # r)"
        have sw: "c # r = w @ rest" by (simp add: w_def rest_def)
        have w: "list_all is_word w" "w \<noteq> []" using True by (auto simp: w_def list_all_iff dest: set_takeWhileD)
        have rest: "rest = [] \<or> \<not> is_word (hd rest)" unfolding rest_def by (metis hd_dropWhile)
        have shorter: "length rest < length s" using w(2) arg_cong [OF sw, of length] by (cases w) (simp_all add: Cons)
        have tail: "(case rest of [] \<Rightarrow> [] | d # q \<Rightarrow> d # rewrite_from (Some d) name to q) = subst_words name to rest"
        proof (cases rest)
          case (Cons d q)
          have "length q < length s" using shorter Cons by simp
          from less.hyps [OF this, of "Some d"] rest Cons show ?thesis by simp
        qed simp
        have m: "matches_at p name (c # r) \<longleftrightarrow> w = name"
        proof
          assume a: "matches_at p name (c # r)"
          then obtain t where t: "c # r = name @ t" by (auto simp: matches_at_def HasPrefix_iff)
          have "boundary (Some (last name)) (head_opt t)" using a t by (simp add: matches_at_def)
          moreover have "is_word (last name)" using assms by (simp add: list_all_iff)
          ultimately have "t = [] \<or> \<not> is_word (hd t)" by (cases t) (auto simp: boundary_def head_opt_def)
          then have "takeWhile is_word (name @ t) = name" using assms(2)
            by (cases t) (auto simp: list_all_iff takeWhile_append)
          then show "w = name" by (simp add: w_def t)
        next
          assume "w = name"
          then have s: "c # r = name @ rest" using sw by simp
          have "is_word (last name)" using assms by (simp add: list_all_iff)
          then have "boundary (Some (last name)) (head_opt rest)"
            using rest by (cases rest) (auto simp: boundary_def head_opt_def)
          moreover have "boundary p (head_opt (c # r))"
            using True less.prems by (auto simp: boundary_def head_opt_def split: option.splits)
          ultimately show "matches_at p name (c # r)" unfolding matches_at_def using assms(1) s by simp
        qed
        show ?thesis
        proof (cases "w = name")
          case True
          have d: "drop (length name) (c # r) = rest" using sw True by simp
          have "rewrite_from p name to (c # r) = to @ rewrite_from (Some (last name)) name to rest"
            using m True by (simp only: rewrite_from.simps if_True d simp_thms)
          also have "rewrite_from (Some (last name)) name to rest = subst_words name to rest"
            using rewrite_inside [of "[]" rest name "last name" to] rest assms tail by (simp add: list_all_iff)
          finally show ?thesis using True \<open>is_word c\<close> by (simp add: Cons w_def [symmetric] rest_def [symmetric] Let_def del: takeWhile.simps dropWhile.simps)
        next
          case False
          obtain w' where w': "w = c # w'" using sw w(2) by (cases w) auto
          have "rewrite_from p name to (c # r) = c # rewrite_from (Some c) name to (w' @ rest)"
            using m False sw w' by simp
          also have "rewrite_from (Some c) name to (w' @ rest) = w' @ subst_words name to rest"
            using rewrite_inside [of w' rest name c to] w w' rest assms tail \<open>is_word c\<close> by simp
          finally show ?thesis using False \<open>is_word c\<close> w'
            by (simp add: Cons w_def [symmetric] rest_def [symmetric] Let_def del: takeWhile.simps dropWhile.simps)
        qed
      qed
    qed simp
  qed
  show ?thesis unfolding rewriteIdentifier_def by (rule step) simp
qed

theorem rewriteIdentifier_words_witness:
  "rewriteIdentifier ''CREATE TABLE \"t\" (a, t_new, tt)'' ''t'' ''t_new'' = ''CREATE TABLE \"t_new\" (a, t_new, tt)''"
proof -
  have "list_all is_word ''t''" by (simp add: is_word_def)
  from rewriteIdentifier_words [OF _ this, of "''CREATE TABLE \"t\" (a, t_new, tt)''" "''t_new''"]
  have "rewriteIdentifier ''CREATE TABLE \"t\" (a, t_new, tt)'' ''t'' ''t_new'' =
      subst_words ''t'' ''t_new'' ''CREATE TABLE \"t\" (a, t_new, tt)''" by simp
  also have "\<dots> = ''CREATE TABLE \"t_new\" (a, t_new, tt)''" by code_simp
  finally show ?thesis .
qed


section \<open>The cutover is atomic\<close>

definition rows_of :: "string \<Rightarrow> 'r sq_db \<Rightarrow> 'r list option" where
  "rows_of n d = map_option tb_rows (find_table n d)"

lemma sq_stmt_cases:
  obtains fs where "sq_stmt f d = (Inl ''failed'', d\<lparr>sq_faults := fs\<rparr>)" | fs where "sq_stmt f d = f (d\<lparr>sq_faults := fs\<rparr>)"
proof (cases "sq_faults d")
  case Nil
  then have "sq_stmt f d = f (d\<lparr>sq_faults := []\<rparr>)" by (cases d) (simp add: sq_stmt_def)
  then show thesis by (rule that(2))
next
  case (Cons b fs)
  then show thesis using that by (cases b) (simp_all add: sq_stmt_def)
qed

lemma find_faults [simp]: "find_table n (d\<lparr>sq_faults := fs\<rparr>) = find_table n d"
  by (simp add: find_table_def)

lemma drop_effect:
  assumes "drop_if_exists n d = (Inr u, d')"
  shows "find_table m d' = (if m = n then None else find_table m d)"
proof -
  have f: "List.find (\<lambda>t. tb_name t = m) (filter (\<lambda>t. tb_name t \<noteq> n) ts) =
      (if m = n then None else List.find (\<lambda>t. tb_name t = m) ts)" for ts m
    by (induction ts) auto
  show ?thesis
    by (rule sq_stmt_cases [of "\<lambda>d. (Inr (), d\<lparr>sq_tables := filter (\<lambda>t. tb_name t \<noteq> n) (sq_tables d),
       sq_indexes := filter (\<lambda>i. ix_table i \<noteq> n) (sq_indexes d)\<rparr>)" d])
      (use assms in \<open>auto simp: drop_if_exists_def find_table_def f\<close>)
qed

lemma rename_effect:
  assumes "rename_table E a b d = (Inr u, d')"
  shows "find_table a d \<noteq> None" "find_table b d = None"
    and "rows_of m d' = (if m = b then rows_of a d else if m = a then None else rows_of m d)"
proof -
  let ?body = "\<lambda>d. if find_table a d = None then (Inl ''no such table'', d)
     else if find_table b d \<noteq> None then (Inl ''there is already another table or index with this name'', d)
     else (Inr (), d\<lparr>sq_tables := map (\<lambda>t. if tb_name t = a then t\<lparr>tb_name := b, tb_sql := renamed_sql E a b (tb_sql t)\<rparr> else t) (sq_tables d),
       sq_indexes := map (\<lambda>i. if ix_table i = a then i\<lparr>ix_table := b, ix_sql := renamed_sql E a b (ix_sql i)\<rparr> else i) (sq_indexes d)\<rparr>)"
  obtain fs where e: "?body (d\<lparr>sq_faults := fs\<rparr>) = (Inr (), d')"
    by (rule sq_stmt_cases [of ?body d]) (use assms in \<open>auto simp: rename_table_def\<close>)
  show "find_table a d \<noteq> None" "find_table b d = None" using e by (auto split: if_splits)
  have d': "sq_tables d' = map (\<lambda>t. if tb_name t = a then t\<lparr>tb_name := b, tb_sql := renamed_sql E a b (tb_sql t)\<rparr> else t) (sq_tables d)"
    using e by (auto split: if_splits)
  have nb: "\<forall>t \<in> set (sq_tables d). tb_name t \<noteq> b"
    using \<open>find_table b d = None\<close> unfolding find_table_def by (induction "sq_tables d") (auto simp: find_None_iff)
  have "a \<noteq> b" using \<open>find_table a d \<noteq> None\<close> \<open>find_table b d = None\<close> by auto
  then have "map_option tb_rows (List.find (\<lambda>t. tb_name t = m)
      (map (\<lambda>t. if tb_name t = a then t\<lparr>tb_name := b, tb_sql := renamed_sql E a b (tb_sql t)\<rparr> else t) ts)) =
    (if m = b then map_option tb_rows (List.find (\<lambda>t. tb_name t = a) ts) else if m = a then None
     else map_option tb_rows (List.find (\<lambda>t. tb_name t = m) ts))" if "\<forall>t \<in> set ts. tb_name t \<noteq> b" for ts
    using that by (induction ts) auto
  from this [OF nb] show "rows_of m d' = (if m = b then rows_of a d else if m = a then None else rows_of m d)"
    by (simp add: rows_of_def find_table_def d')
qed

lemma names_differ: "destName n \<noteq> n" "staleName n \<noteq> n" "destName n \<noteq> staleName n" "n \<noteq> destName n" "n \<noteq> staleName n"
  by (simp_all add: destName_def staleName_def)

lemma cutover_effect:
  assumes s: "drop_if_exists (staleName active) d = (Inr (), d1)"
    "rename_table E active (staleName active) d1 = (Inr (), d2)" "rename_table E (destName active) active d2 = (Inr (), d')"
  shows "rows_of active d' = rows_of (destName active) d" "rows_of (destName active) d' = None"
    "rows_of (destName active) d \<noteq> None" "rows_of (staleName active) d' = rows_of active d"
    "m \<notin> {active, destName active, staleName active} \<Longrightarrow> rows_of m d' = rows_of m d"
proof -
  have 1: "rows_of m d1 = (if m = staleName active then None else rows_of m d)" for m
    using drop_effect [OF s(1)] by (simp add: rows_of_def)
  note 2 = rename_effect [OF s(2)] and 3 = rename_effect [OF s(3)]
  have "rows_of (destName active) d2 \<noteq> None" using 3(1) by (simp add: rows_of_def)
  then show "rows_of (destName active) d \<noteq> None" using 1 2(3) names_differ [of active] by simp
  show "rows_of active d' = rows_of (destName active) d" "rows_of (destName active) d' = None"
    "rows_of (staleName active) d' = rows_of active d"
    "m \<notin> {active, destName active, staleName active} \<Longrightarrow> rows_of m d' = rows_of m d"
    using 1 2(3) 3(3) names_differ [of active] by auto
qed

lemma rows_faults [simp]: "rows_of n (d\<lparr>sq_faults := fs\<rparr>) = rows_of n d"
  by (simp add: rows_of_def)

lemma nop_cases:
  obtains fs where "sq_stmt (\<lambda>d. (Inr (), d)) d = (Inl ''failed'', d\<lparr>sq_faults := fs\<rparr>)"
  | fs where "sq_stmt (\<lambda>d. (Inr (), d)) d = (Inr (), d\<lparr>sq_faults := fs\<rparr>)"
  by (rule sq_stmt_cases [of "\<lambda>d. (Inr (), d)" d]) auto

text \<open>A connection at rest, and one inside a transaction that goes back to \<^term>\<open>d\<close>.\<close>

definition at_rest :: "'r sq_db \<Rightarrow> 'r lease \<Rightarrow> bool" where
  "at_rest d l \<longleftrightarrow> ls_tx l = None \<and> (\<exists>fs. ls_db l = d\<lparr>sq_faults := fs\<rparr>) \<and> \<not> ls_fired l \<and> ls_puts l = 0 \<and> \<not> ls_early l"

definition inside :: "'r sq_db \<Rightarrow> 'r lease \<Rightarrow> bool" where
  "inside d l \<longleftrightarrow> (\<exists>fs. ls_tx l = Some (d\<lparr>sq_faults := fs\<rparr>)) \<and> \<not> ls_fired l \<and> ls_puts l = 0 \<and> \<not> ls_early l"

text \<open>The connection has been given back once, with or without an open transaction, and sees \<^term>\<open>d\<close>.\<close>

definition given_back :: "bool \<Rightarrow> 'r sq_db \<Rightarrow> 'r lease \<Rightarrow> bool" where
  "given_back early d l \<longleftrightarrow> ls_puts l = 1 \<and> ls_fired l \<and> ls_early l = early \<and> ls_tx l = None
     \<and> (\<exists>fs. ls_db l = d\<lparr>sq_faults := fs\<rparr>)"

lemma begin_tx_cases:
  assumes "at_rest d l" "begin_tx l = (x, l1)"
  shows "if x = None then inside d l1 \<and> (\<exists>fs. ls_db l1 = d\<lparr>sq_faults := fs\<rparr>) else at_rest d l1"
  using assms by (cases rule: nop_cases [of "ls_db l"]) (auto simp: begin_tx_def at_rest_def inside_def)

lemma exec_tx_inside:
  assumes "inside d l" "exec_tx m l = (x, l1)"
  shows "inside d l1" and "x = None \<Longrightarrow> m (ls_db l) = (Inr (), ls_db l1)"
  using assms by (auto simp: exec_tx_def inside_def split: prod.splits sum.splits)

lemma rollback_given_back: "inside d l \<Longrightarrow> given_back False d (put_once (rollback_tx l))"
  by (auto simp: inside_def rollback_tx_def put_once_def given_back_def)

lemma put_then_rollback: "inside d l \<Longrightarrow> given_back True d (rollback_tx (put_once l))"
  by (auto simp: inside_def rollback_tx_def put_once_def given_back_def)

lemma rest_given_back: "at_rest d l \<Longrightarrow> given_back False d (put_once l)"
  by (auto simp: at_rest_def put_once_def given_back_def)

lemma rollback_at_rest: "ls_tx l = None \<Longrightarrow> rollback_tx l = l"
  by (simp add: rollback_tx_def)

lemma commit_tx_cases:
  assumes "inside d l" "commit_tx l = (x, l1)"
  shows "if x = None then at_rest (ls_db l) l1 else at_rest d l1"
  using assms by (cases rule: nop_cases [of "ls_db l"]) (auto simp: commit_tx_def at_rest_def inside_def rollback_tx_def)

text \<open>The drop of the old table gives the connection back exactly once. It gives it back too early when
  the drop fails, and then the old table is still there.\<close>

lemma dropStale_effect:
  assumes l: "at_rest d l"
  shows "\<exists>early d'. given_back early d' (dropStale n l) \<and>
    (d' = d \<or> \<not> early \<and> (\<forall>m. rows_of m d' = (if m = n then None else rows_of m d)))"
proof -
  obtain x l1 where b: "begin_tx l = (x, l1)" by force
  note b' = begin_tx_cases [OF l b]
  show ?thesis
  proof (cases x)
    case (Some e)
    then show ?thesis using b b' rest_given_back by (fastforce simp: dropStale_def)
  next
    case None
    then have in1: "inside d l1" and d1: "\<exists>fs. ls_db l1 = d\<lparr>sq_faults := fs\<rparr>" using b' by simp_all
    obtain y l2 where e: "exec_tx (drop_if_exists n) l1 = (y, l2)" by force
    note e' = exec_tx_inside [OF in1 e]
    show ?thesis
    proof (cases y)
      case (Some err)
      then show ?thesis using b None e put_then_rollback [OF e'(1)] by (fastforce simp: dropStale_def)
    next
      case y: None
      obtain z l3 where c: "commit_tx l2 = (z, l3)" by force
      note c' = commit_tx_cases [OF e'(1) c]
      have same: "dropStale n l = put_once l3"
        using b None e y c c' by (auto simp: dropStale_def rollback_at_rest at_rest_def put_once_def split: option.splits)
      show ?thesis
      proof (cases z)
        case (Some err)
        then show ?thesis using same c' rest_given_back by fastforce
      next
        case z: None
        have "rows_of m (ls_db l2) = (if m = n then None else rows_of m d)" for m
          using drop_effect [OF e'(2) [OF y]] d1 by (auto simp: rows_of_def)
        moreover have "given_back False (ls_db l2) (put_once l3)" using c' z rest_given_back by fastforce
        ultimately show ?thesis unfolding same by blast
      qed
    qed
  qed
qed

text \<open>Up to the commit every exit rolls back first and then gives the connection back.\<close>

definition cut_over :: "string \<Rightarrow> 'r sq_db \<Rightarrow> 'r sq_db \<Rightarrow> bool" where
  "cut_over active d d' \<longleftrightarrow> rows_of active d' = rows_of (destName active) d \<and> rows_of active d' \<noteq> None \<and>
     rows_of (destName active) d' = None \<and> rows_of (staleName active) d' = rows_of active d \<and>
     (\<forall>m. m \<notin> {active, destName active, staleName active} \<longrightarrow> rows_of m d' = rows_of m d)"

lemma Swap_cases:
  assumes l: "at_rest d l"
  shows "(\<exists>e l'. Swap E mode active l = (Inl e, l', None) \<and> given_back False d l') \<or>
    (\<exists>l5 d5. at_rest d5 l5 \<and> cut_over active d d5 \<and> Swap E mode active l =
      (case mode of
         StaleDropSkip \<Rightarrow> (Inr (), put_once l5, None)
       | StaleDropHold \<Rightarrow> (Inr (), l5, Some (staleName active))
       | StaleDropSync \<Rightarrow> (Inr (), dropStale (staleName active) l5, None)))"
proof -
  obtain x1 l1 where s1: "begin_tx l = (x1, l1)" by force
  obtain x2 l2 where s2: "exec_tx (drop_if_exists (staleName active)) l1 = (x2, l2)" by force
  obtain x3 l3 where s3: "exec_tx (rename_table E active (staleName active)) l2 = (x3, l3)" by force
  obtain x4 l4 where s4: "exec_tx (rename_table E (destName active) active) l3 = (x4, l4)" by force
  obtain x5 l5 where s5: "commit_tx l4 = (x5, l5)" by force
  note sw = Swap_def [of E mode active l, unfolded s1 prod.case]
  show ?thesis
  proof (cases x1)
    case (Some e)
    then show ?thesis using sw begin_tx_cases [OF l s1] rest_given_back by fastforce
  next
    case x1: None
    then have in1: "inside d l1" and d1: "\<exists>fs. ls_db l1 = d\<lparr>sq_faults := fs\<rparr>" using begin_tx_cases [OF l s1] by simp_all
    note in2 = exec_tx_inside [OF in1 s2] note in3 = exec_tx_inside [OF in2(1) s3] note in4 = exec_tx_inside [OF in3(1) s4]
    note sw = sw [unfolded x1 option.case s2 prod.case]
    consider e where "x2 = Some e" | e where "x2 = None" "x3 = Some e" | e where "x2 = None" "x3 = None" "x4 = Some e"
      | "x2 = None" "x3 = None" "x4 = None" by (metis option.exhaust)
    then show ?thesis
    proof cases
      case 4
      note sw = sw [unfolded 4 option.case s3 prod.case s4 s5]
      show ?thesis
      proof (cases x5)
        case (Some e)
        then have "at_rest d l5" using commit_tx_cases [OF in4(1) s5] by simp
        moreover from this have "rollback_tx l5 = l5" by (simp add: at_rest_def rollback_at_rest)
        ultimately have "given_back False d (put_once (rollback_tx l5))" using rest_given_back by simp
        then show ?thesis using sw Some by simp
      next
        case None
        have "cut_over active d (ls_db l4)"
          unfolding cut_over_def using cutover_effect [OF in2(2) in3(2) in4(2)] 4 d1 by (auto simp: rows_of_def)
        then show ?thesis using sw None commit_tx_cases [OF in4(1) s5] by auto
      qed
    qed (use sw s3 s4 rollback_given_back [OF in2(1)] rollback_given_back [OF in3(1)] rollback_given_back [OF in4(1)]
        in simp_all)
  qed
qed

text \<open>C16: A swap is atomic and gives its connection back exactly once, whatever statement fails. When it
  reports an error the database is what it was, and the connection went back after the rollback.
  Otherwise the live table holds the rows of the new one, the new name is gone, the old rows are dropped
  or wait under the stale name, and no other table has changed; with \<^verbatim>\<open>staleDropHold\<close> the worker that
  \<^verbatim>\<open>Swap\<close> leaves behind gives the connection back, once, whatever the database looks like by then. The
  connection goes back before a rollback in one case only: when the drop of the stale table fails.\<close>

theorem swap_atomic:
  assumes "Swap E mode active (new_lease d) = (r, l, worker)"
  shows "case r of
      Inl e \<Rightarrow> worker = None \<and> ls_puts l = 1 \<and> \<not> ls_early l \<and> ls_tx l = None \<and> ls_db l = d\<lparr>sq_faults := sq_faults (ls_db l)\<rparr>
    | Inr u \<Rightarrow>
        rows_of active (ls_db l) = rows_of (destName active) d \<and> rows_of active (ls_db l) \<noteq> None \<and>
        rows_of (destName active) (ls_db l) = None \<and>
        (\<forall>m. m \<notin> {active, destName active, staleName active} \<longrightarrow> rows_of m (ls_db l) = rows_of m d) \<and> ls_tx l = None \<and>
        (case worker of
           None \<Rightarrow> mode \<noteq> StaleDropHold \<and> ls_puts l = 1 \<and>
             (rows_of (staleName active) (ls_db l) = rows_of active d \<or>
              mode = StaleDropSync \<and> \<not> ls_early l \<and> rows_of (staleName active) (ls_db l) = None)
         | Some n \<Rightarrow> mode = StaleDropHold \<and> n = staleName active \<and> ls_puts l = 0 \<and>
             rows_of n (ls_db l) = rows_of active d \<and>
             (\<forall>d2. ls_puts (dropStale n (l\<lparr>ls_db := d2\<rparr>)) = 1 \<and> ls_tx (dropStale n (l\<lparr>ls_db := d2\<rparr>)) = None \<and>
               (\<forall>m. m \<noteq> n \<longrightarrow> rows_of m (ls_db (dropStale n (l\<lparr>ls_db := d2\<rparr>))) = rows_of m d2)))"
proof -
  have rest: "at_rest d (new_lease d)"
    by (cases d) (auto simp: at_rest_def new_lease_def)
  from Swap_cases [OF rest, of E mode active] show ?thesis
  proof (elim disjE exE conjE)
    fix e l' assume "Swap E mode active (new_lease d) = (Inl e, l', None)" "given_back False d l'"
    then show ?thesis using assms by (auto simp: given_back_def)
  next
    fix l5 d5
    assume r5: "at_rest d5 l5" and c: "cut_over active d d5" and s: "Swap E mode active (new_lease d) =
      (case mode of
         StaleDropSkip \<Rightarrow> (Inr (), put_once l5, None)
       | StaleDropHold \<Rightarrow> (Inr (), l5, Some (staleName active))
       | StaleDropSync \<Rightarrow> (Inr (), dropStale (staleName active) l5, None))"
    show ?thesis
    proof (cases mode)
      case StaleDropSkip
      then show ?thesis using assms s c rest_given_back [OF r5] by (auto simp: given_back_def cut_over_def) metis
    next
      case StaleDropHold
      have "\<exists>early d'. given_back early d' (dropStale n (l5\<lparr>ls_db := d2\<rparr>)) \<and> (\<forall>m. m \<noteq> n \<longrightarrow> rows_of m d' = rows_of m d2)" for n d2
      proof -
        have "at_rest d2 (l5\<lparr>ls_db := d2\<rparr>)" using r5 by (cases d2) (auto simp: at_rest_def)
        from dropStale_effect [OF this, of n] show ?thesis by (elim exE conjE disjE) (metis (full_types))+
      qed
      then have w: "ls_puts (dropStale n (l5\<lparr>ls_db := d2\<rparr>)) = 1 \<and> ls_tx (dropStale n (l5\<lparr>ls_db := d2\<rparr>)) = None \<and>
          (\<forall>m. m \<noteq> n \<longrightarrow> rows_of m (ls_db (dropStale n (l5\<lparr>ls_db := d2\<rparr>))) = rows_of m d2)" for n d2
        unfolding given_back_def by (metis rows_faults)
      show ?thesis using StaleDropHold assms s c r5 w by (auto simp: at_rest_def cut_over_def) metis
    next
      case StaleDropSync
      obtain early d' where g: "given_back early d' (dropStale (staleName active) l5)"
        "d' = d5 \<or> \<not> early \<and> (\<forall>m. rows_of m d' = (if m = staleName active then None else rows_of m d5))"
        using dropStale_effect [OF r5] by blast
      have l: "r = Inr ()" "l = dropStale (staleName active) l5" "worker = None" using assms s StaleDropSync by simp_all
      have rows: "rows_of m (ls_db l) = rows_of m d'" for m using g(1) by (auto simp: l(2) given_back_def)
      have d': "rows_of m d' = rows_of m d5" if "m \<noteq> staleName active" for m using g(2) that by auto
      have "rows_of (staleName active) d' = rows_of active d \<or> \<not> early \<and> rows_of (staleName active) d' = None"
        using g(2) c by (auto simp: cut_over_def)
      then show ?thesis using g(1) c rows d' names_differ [of active]
        by (simp add: l(1,3) StaleDropSync cut_over_def given_back_def l(2) [symmetric]) metis
    qed
  qed
qed

text \<open>When the drop of the stale table fails inside its transaction, \<^verbatim>\<open>dropStale\<close> gives the connection
  back while that transaction is still open; the deferred rollback then runs on a connection that
  already belongs to somebody else.\<close>

lemma stale_drop_puts_early:
  assumes "at_rest d l" "begin_tx l = (None, l1)" "exec_tx (drop_if_exists n) l1 = (Some e, l2)"
  shows "ls_early (dropStale n l)"
proof -
  have "inside d l1" using begin_tx_cases [OF assms(1,2)] by simp
  from put_then_rollback [OF exec_tx_inside(1) [OF this assms(3)]] show ?thesis
    using assms by (simp add: dropStale_def given_back_def)
qed

definition plain_engine :: sq_engine where
  "plain_engine = \<lparr>created_table = (\<lambda>s. Some s), created_index = (\<lambda>s. None), renamed_sql = (\<lambda>a b s. s)\<rparr>"

definition two_tables :: "nat sq_db" where
  "two_tables = \<lparr>sq_tables = [\<lparr>tb_name = ''t'', tb_sql = ''t'', tb_rows = [1]\<rparr>, \<lparr>tb_name = ''t_new'', tb_sql = ''t_new'', tb_rows = [2, 3]\<rparr>],
     sq_indexes = [], sq_temp_store = 0, sq_faults = []\<rparr>"

theorem swap_atomic_witness:
  "(\<exists>l. Swap plain_engine StaleDropSync ''t'' (new_lease two_tables) = (Inr (), l, None) \<and>
     ls_puts l = 1 \<and> rows_of ''t'' (ls_db l) = Some [2, 3]) \<and>
   (\<exists>e l. Swap plain_engine StaleDropSync ''t'' (new_lease (two_tables\<lparr>sq_faults := [False, False, False, True]\<rparr>)) = (Inl e, l, None) \<and>
     ls_puts l = 1 \<and> \<not> ls_early l \<and> rows_of ''t'' (ls_db l) = Some [1])"
proof
  have s: "fst (Swap plain_engine StaleDropSync ''t'' (new_lease two_tables)) = Inr ()"
    "snd (snd (Swap plain_engine StaleDropSync ''t'' (new_lease two_tables))) = None" by code_simp+
  obtain l where e: "Swap plain_engine StaleDropSync ''t'' (new_lease two_tables) = (Inr (), l, None)"
    using s by (metis prod.collapse)
  have "rows_of (destName ''t'') two_tables = Some [2, 3]" by code_simp
  with swap_atomic [OF e] e show "\<exists>l. Swap plain_engine StaleDropSync ''t'' (new_lease two_tables) = (Inr (), l, None) \<and>
     ls_puts l = 1 \<and> rows_of ''t'' (ls_db l) = Some [2, 3]" by auto
next
  let ?d = "two_tables\<lparr>sq_faults := [False, False, False, True]\<rparr>"
  have s: "fst (Swap plain_engine StaleDropSync ''t'' (new_lease ?d)) = Inl ''failed''"
    "snd (snd (Swap plain_engine StaleDropSync ''t'' (new_lease ?d))) = None" by code_simp+
  obtain l where e: "Swap plain_engine StaleDropSync ''t'' (new_lease ?d) = (Inl ''failed'', l, None)"
    using s by (metis prod.collapse)
  have r: "rows_of ''t'' two_tables = Some [1]" by code_simp
  from swap_atomic [OF e] have a: "ls_puts l = 1" "\<not> ls_early l" "ls_db l = ?d\<lparr>sq_faults := sq_faults (ls_db l)\<rparr>" by auto
  have "rows_of ''t'' (ls_db l) = Some [1]" using r a(3) by (metis rows_faults)
  with e a show "\<exists>e l. Swap plain_engine StaleDropSync ''t'' (new_lease ?d) = (Inl e, l, None) \<and>
     ls_puts l = 1 \<and> \<not> ls_early l \<and> rows_of ''t'' (ls_db l) = Some [1]" by blast
qed

end
