(* ===== verification/Preload.thy ===== *)
theory Preload
  imports Http_Cache "HOL-Library.Word"
begin

text \<open>
  Preloading of the HTTP cache when a folder is opened (\<^verbatim>\<open>internal/server/cachepreload\<close>): the tracker of
  claimed keys, the sessions, the internal requests, the tasks and the manager that starts and stops the
  scheduler.  Tasks run concurrently; a step is one access to shared state.
\<close>

section \<open>Trackers\<close>

record task_info =
  ti_session :: string
  ti_task :: string
  ti_created :: int

type_synonym tracker = "string \<rightharpoonup> task_info"

definition IsTaskPending :: "tracker \<Rightarrow> string \<Rightarrow> bool" where
  "IsTaskPending t key \<longleftrightarrow> t key \<noteq> None"

definition RegisterTask :: "int \<Rightarrow> string \<Rightarrow> string \<Rightarrow> string \<Rightarrow> tracker \<Rightarrow> bool \<times> tracker" where
  "RegisterTask now key session task t =
     (case t key of
        Some _ \<Rightarrow> (False, t)
      | None \<Rightarrow> (True, t(key \<mapsto> \<lparr>ti_session = session, ti_task = task, ti_created = now\<rparr>)))"

definition UnregisterTask :: "string \<Rightarrow> tracker \<Rightarrow> tracker" where
  "UnregisterTask key t = t(key := None)"

text \<open>The keys are visited in the order of the map's \<^verbatim>\<open>Range\<close>.\<close>

fun CancelSessionTasks :: "string list \<Rightarrow> string \<Rightarrow> tracker \<Rightarrow> string list \<times> tracker" where
  "CancelSessionTasks [] session t = ([], t)"
| "CancelSessionTasks (key # keys) session t =
     (case t key of
        None \<Rightarrow> CancelSessionTasks keys session t
      | Some info \<Rightarrow>
          if ti_session info = session
          then (case CancelSessionTasks keys session (t(key := None)) of (ids, t') \<Rightarrow> (ti_task info # ids, t'))
          else CancelSessionTasks keys session t)"

definition TryClaimTask :: "int \<Rightarrow> string \<Rightarrow> tracker \<Rightarrow> bool \<times> tracker" where
  "TryClaimTask now key t = RegisterTask now key [] [] t"

record session_state =
  se_folder :: int
  se_activity :: int

definition OnFolderOpen :: "int \<Rightarrow> string \<Rightarrow> int \<Rightarrow> (string \<rightharpoonup> session_state) \<Rightarrow> int \<times> (string \<rightharpoonup> session_state)" where
  "OnFolderOpen now session folder ss =
     (case ss session of None \<Rightarrow> 0 | Some st \<Rightarrow> se_folder st, ss(session \<mapsto> \<lparr>se_folder = folder, se_activity = now\<rparr>))"

definition Cleanup :: "int \<Rightarrow> int \<Rightarrow> (string \<rightharpoonup> session_state) \<Rightarrow> (string \<rightharpoonup> session_state)" where
  "Cleanup now maxAge ss = (\<lambda>k. case ss k of None \<Rightarrow> None | Some st \<Rightarrow> if se_activity st < now - maxAge then None else Some st)"

record preload_metrics =
  pr_scheduled :: "64 word"
  pr_completed :: "64 word"
  pr_failed :: "64 word"
  pr_cancelled :: "64 word"
  pr_skipped :: "64 word"
  pr_duration :: "64 word"

definition RecordSuccess :: "int \<Rightarrow> preload_metrics \<Rightarrow> preload_metrics" where
  "RecordSuccess d m = m\<lparr>pr_completed := pr_completed m + 1, pr_duration := pr_duration m + word_of_int d\<rparr>"

definition RecordFailure :: "int \<Rightarrow> preload_metrics \<Rightarrow> preload_metrics" where
  "RecordFailure d m = m\<lparr>pr_failed := pr_failed m + 1, pr_duration := pr_duration m + word_of_int d\<rparr>"

definition RecordSkipped :: "preload_metrics \<Rightarrow> preload_metrics" where
  "RecordSkipped m = m\<lparr>pr_skipped := pr_skipped m + 1\<rparr>"

definition RecordCancelled :: "preload_metrics \<Rightarrow> preload_metrics" where
  "RecordCancelled m = m\<lparr>pr_cancelled := pr_cancelled m + 1\<rparr>"

definition RecordScheduled :: "preload_metrics \<Rightarrow> preload_metrics" where
  "RecordScheduled m = m\<lparr>pr_scheduled := pr_scheduled m + 1\<rparr>"

section \<open>Internal requests\<close>

text \<open>\<^verbatim>\<open>url.Parse\<close> on what the program builds, a path from the root with a query: path and raw query.
  Everything else, a fragment for instance, is left to the parameter.\<close>

fun path_unescape :: "string \<Rightarrow> string option" where
  "path_unescape [] = Some []"
| "path_unescape (c # s) =
     (if c = CHR ''%'' then
        (case s of
           a # b # r \<Rightarrow>
             (case (hex_val a, hex_val b) of
                (Some x, Some y) \<Rightarrow> map_option (Cons (char_of (16 * x + y))) (path_unescape r)
              | _ \<Rightarrow> None)
         | _ \<Rightarrow> None)
      else map_option (Cons c) (path_unescape s))"

definition from_root :: "string \<Rightarrow> bool" where
  "from_root s \<longleftrightarrow> HasPrefix s ''/'' \<and> \<not> HasPrefix s ''//'' \<and> CHR ''#'' \<notin> set s \<and>
     list_all (\<lambda>c. 32 \<le> (of_char c :: nat) \<and> (of_char c :: nat) \<noteq> 127) s"

definition url_Parse :: "(string \<Rightarrow> (string \<times> string) option) \<Rightarrow> string \<Rightarrow> (string \<times> string) option" where
  "url_Parse other s =
     (if from_root s
      then (let p = takeWhile (\<lambda>c. c \<noteq> CHR ''?'') s
            in map_option (\<lambda>p'. (p', drop (length p + 1) s)) (path_unescape p))
      else other s)"

definition InternalPreloadHeader :: string where
  "InternalPreloadHeader = ''X-Sfpg-Internal-Preload''"

text \<open>The request that the handler sees; None is a URL that cannot be parsed.\<close>

definition internal_request ::
  "(string \<Rightarrow> (string \<times> string) option) \<Rightarrow> string \<Rightarrow> string \<Rightarrow> string \<Rightarrow> cache_request option" where
  "internal_request other etag path hxTarget =
     (case url_Parse other (path @ ''?v='' @ etag) of
        None \<Rightarrow> None
      | Some (p, q) \<Rightarrow>
          Some \<lparr>hq_method = ''GET'',
            hq_headers = put_header InternalPreloadHeader ''true''
              (if hxTarget \<noteq> [] then put_header ''Hx-Target'' hxTarget (put_header ''Hx-Request'' ''true'' []) else []),
            rq_path = p, rq_rawQuery = q, rq_remoteAddr = [], rq_cookies = []\<rparr>)"

datatype request_error = HandlerRequired | ParseFailed | RequestFailed int

definition MakeInternalRequestWithHXTarget ::
  "(string \<Rightarrow> (string \<times> string) option) \<Rightarrow> (cache_request \<Rightarrow> int) option \<Rightarrow> string \<Rightarrow> string \<Rightarrow> string \<Rightarrow> request_error option" where
  "MakeInternalRequestWithHXTarget other handler etag path hxTarget =
     (case handler of
        None \<Rightarrow> Some HandlerRequired
      | Some h \<Rightarrow>
          (case internal_request other etag path hxTarget of
             None \<Rightarrow> Some ParseFailed
           | Some r \<Rightarrow> (let status = h r in if status \<ge> 400 then Some (RequestFailed status) else None)))"

definition MakeInternalRequest ::
  "(string \<Rightarrow> (string \<times> string) option) \<Rightarrow> (cache_request \<Rightarrow> int) option \<Rightarrow> string \<Rightarrow> string \<Rightarrow> request_error option" where
  "MakeInternalRequest other handler etag path =
     (case handler of
        None \<Rightarrow> Some HandlerRequired
      | Some h \<Rightarrow>
          (case internal_request other etag path [] of
             None \<Rightarrow> Some ParseFailed
           | Some r \<Rightarrow> (let status = h r in if status \<ge> 400 then Some (RequestFailed status) else None)))"

definition isCacheablePath :: "string \<Rightarrow> string list \<Rightarrow> bool" where
  "isCacheablePath path routes \<longleftrightarrow> list_ex (HasPrefix path) routes"

text \<open>The key that the task looks up and claims.\<close>

definition preload_key :: "string \<Rightarrow> string \<Rightarrow> string" where
  "preload_key etag path =
     NewCacheKey (NewCacheKeyForPreload path (''v='' @ etag) (PreloadVariantForPath path))"

section \<open>The key of a preload is the key of its request\<close>

lemma takeWhile_first: "c \<notin> set xs \<Longrightarrow> takeWhile (\<lambda>x. x \<noteq> c) (xs @ c # ys) = xs"
  by (induction xs) auto

lemma path_unescape_plain: "CHR ''%'' \<notin> set s \<Longrightarrow> path_unescape s = Some s"
  by (induction s) auto

definition plain_route :: "string \<Rightarrow> bool" where
  "plain_route p \<longleftrightarrow> from_root p \<and> CHR ''?'' \<notin> set p \<and> CHR ''%'' \<notin> set p"

definition plain_version :: "string \<Rightarrow> bool" where
  "plain_version e \<longleftrightarrow> CHR ''#'' \<notin> set e \<and> list_all (\<lambda>c. 32 \<le> (of_char c :: nat) \<and> (of_char c :: nat) \<noteq> 127) e"

lemma plain_url:
  assumes "plain_route p" "plain_version e"
  shows "url_Parse other (p @ ''?v='' @ e) = Some (p, ''v='' @ e)"
proof -
  have "from_root (p @ ''?v='' @ e)"
    using assms by (cases p rule: remdups_adj.cases) (auto simp: plain_route_def plain_version_def from_root_def HasPrefix_def)
  moreover have "takeWhile (\<lambda>c. c \<noteq> CHR ''?'') (p @ CHR ''?'' # ''v='' @ e) = p"
    using assms takeWhile_first by (metis plain_route_def)
  ultimately show ?thesis
    using assms by (simp add: url_Parse_def path_unescape_plain plain_route_def Let_def)
qed

text \<open>For every route of the gallery the internal request of a preload task is looked up and stored
  by the cache middleware under exactly the key that the task examined and claimed.\<close>

theorem preload_key_matches:
  assumes "plain_route p" "plain_version e"
  shows "\<exists>r. internal_request other e p (PreloadVariantForPath p) = Some r \<and> rq_path r = p \<and>
    request_key r = preload_key e p \<and>
    mw_submit (Middleware cfg reg ok now hs direct calls r t) \<in> insert None (Some ` {x. ce_Key x = preload_key e p})"
proof -
  let ?r = "\<lparr>hq_method = ''GET'',
            hq_headers = put_header InternalPreloadHeader ''true''
              (put_header ''Hx-Target'' (PreloadVariantForPath p) (put_header ''Hx-Request'' ''true'' [])),
            rq_path = p, rq_rawQuery = ''v='' @ e, rq_remoteAddr = [], rq_cookies = []\<rparr> :: cache_request"
  have r: "internal_request other e p (PreloadVariantForPath p) = Some ?r"
    using plain_url [OF assms]
    by (simp add: internal_request_def PreloadVariantForPath_def split: route_kind.split)
  have k: "request_key ?r = preload_key e p"
    by (simp add: request_key_def preload_key_def NewCacheKeyForRequest_def NewCacheKeyForPreload_def header_get_def
        put_header_def InternalPreloadHeader_def NormalizedVariant_def PreloadVariantForPath_def split: route_kind.split)
  have "ce_Key x = request_key ?r" if "mw_submit (Middleware cfg reg ok now hs direct calls ?r t) = Some x" for x
    using that by (auto simp: Middleware_def serve_miss_def build_entry_def Let_def split: if_splits sum.splits prod.splits)
  then have "mw_submit (Middleware cfg reg ok now hs direct calls ?r t) \<in> insert None (Some ` {x. ce_Key x = preload_key e p})"
    by (cases "mw_submit (Middleware cfg reg ok now hs direct calls ?r t)") (use k in auto)
  with r k show ?thesis by auto
qed

theorem preload_key_matches_witness:
  "\<exists>r. internal_request (\<lambda>s. None) ''20260201-01'' ''/gallery/7'' ''gallery-content'' = Some r \<and>
     request_key r = preload_key ''20260201-01'' ''/gallery/7''"
proof -
  have a: "plain_route ''/gallery/7''" "plain_version ''20260201-01''" by code_simp+
  have v: "PreloadVariantForPath ''/gallery/7'' = ''gallery-content''" by code_simp
  obtain r where "internal_request (\<lambda>s. None) ''20260201-01'' ''/gallery/7'' (PreloadVariantForPath ''/gallery/7'') = Some r"
    "request_key r = preload_key ''20260201-01'' ''/gallery/7''"
    using preload_key_matches [OF a, where other = "\<lambda>s. None"] by blast
  then show ?thesis by (simp only: v) blast
qed

end
