(* ===== verification/Preload_Manager.thy ===== *)
theory Preload_Manager
  imports Preload
begin

text \<open>
  The preload manager (\<^verbatim>\<open>cachepreload/manager.go, folder_preload_task.go, preload_task.go\<close>): folders that are opened,
  the tasks that look for pages to warm, the tasks that warm them, and switching the preloader off and
  on.  Of the scheduler a task is started at most once, and stopping waits for the tasks that run.
\<close>

section \<open>Jobs\<close>

datatype preload_job = FolderJob int | PageJob string string string

text \<open>A folder job at work: the routes that are left, and a key it has claimed but not scheduled yet. A
  page job at work is known by its key.\<close>

datatype preload_run = RunFolder "string list" "(string \<times> string) option" | RunPage string string string

record preload_sched =
  sd_queue :: "preload_job list"
  sd_running :: "preload_run list"
  sd_cancelled :: bool

record preload_manager =
  pm_enabled :: bool
  pm_scheduler :: "preload_sched option"
  pm_routes :: "string list"
  pm_deps :: bool
  pm_tracker :: tracker
  pm_sessions :: "string \<rightharpoonup> session_state"
  pm_metrics :: preload_metrics

definition startScheduler :: "preload_manager \<Rightarrow> preload_manager" where
  "startScheduler m = m\<lparr>pm_scheduler := Some \<lparr>sd_queue = [], sd_running = [], sd_cancelled = False\<rparr>\<rparr>"

definition NewPreloadManager :: "string list \<Rightarrow> bool \<Rightarrow> preload_manager" where
  "NewPreloadManager routes enabled =
     (let m = \<lparr>pm_enabled = enabled, pm_scheduler = None, pm_routes = routes, pm_deps = False, pm_tracker = Map.empty,
        pm_sessions = Map.empty, pm_metrics = \<lparr>pr_scheduled = 0, pr_completed = 0, pr_failed = 0, pr_cancelled = 0,
          pr_skipped = 0, pr_duration = 0\<rparr>\<rparr>
      in if enabled then startScheduler m else m)"

text \<open>All dependencies are given; trackers of their own are empty.\<close>

definition Configure :: "preload_manager \<Rightarrow> preload_manager" where
  "Configure m = m\<lparr>pm_deps := True\<rparr>"

definition add_job :: "preload_job \<Rightarrow> preload_manager \<Rightarrow> preload_manager" where
  "add_job j m = m\<lparr>pm_scheduler := map_option (\<lambda>d. d\<lparr>sd_queue := sd_queue d @ [j]\<rparr>) (pm_scheduler m)\<rparr>"

text \<open>The removal of the cancelled tasks is that of \<^verbatim>\<open>Scheduler.RemoveTask\<close>, which refuses the empty
  number: it has no effect, see the lemma on the cases of an opened folder.\<close>

definition ScheduleFolderPreload :: "int \<Rightarrow> string list \<Rightarrow> int \<Rightarrow> string \<Rightarrow> preload_manager \<Rightarrow> string list \<times> preload_manager" where
  "ScheduleFolderPreload now keys folder session m =
     (if \<not> pm_enabled m \<or> pm_scheduler m = None then ([], m)
      else if \<not> pm_deps m then ([], m)
      else (case OnFolderOpen now session folder (pm_sessions m) of
          (prev, ss) \<Rightarrow>
            (let m1 = m\<lparr>pm_sessions := ss\<rparr>;
                 (ids, t) = (if prev \<noteq> 0 then CancelSessionTasks keys session (pm_tracker m1) else ([], pm_tracker m1))
             in (ids, add_job (FolderJob folder) (m1\<lparr>pm_tracker := t\<rparr>)))))"

definition SetEnabled_begin :: "bool \<Rightarrow> preload_manager \<Rightarrow> preload_manager" where
  "SetEnabled_begin enabled m =
     (if pm_enabled m = enabled then m
      else let m1 = m\<lparr>pm_enabled := enabled\<rparr> in
        if enabled then startScheduler m1
        else m1\<lparr>pm_scheduler := map_option (\<lambda>d. d\<lparr>sd_cancelled := True\<rparr>) (pm_scheduler m1)\<rparr>)"

text \<open>The rest of \<^verbatim>\<open>stopScheduler\<close>, once the scheduler's loop has returned.\<close>

definition stopScheduler :: "preload_manager \<Rightarrow> preload_manager" where
  "stopScheduler m = m\<lparr>pm_scheduler := None\<rparr>"

text \<open>\<^verbatim>\<open>schedulePreload\<close> up to the claim: whether the page is cached is the answer of the database, None
  an error. The claimed key and path are returned.\<close>

definition schedulePreload_claim ::
  "int \<Rightarrow> string \<Rightarrow> bool option \<Rightarrow> string \<Rightarrow> preload_manager \<Rightarrow> (string \<times> string) option \<times> preload_manager" where
  "schedulePreload_claim now etag exists path m =
     (let key = preload_key etag path in
      if exists = Some True then (None, m\<lparr>pm_metrics := RecordSkipped (pm_metrics m)\<rparr>)
      else (case TryClaimTask now key (pm_tracker m) of
          (False, t) \<Rightarrow> (None, m\<lparr>pm_metrics := RecordSkipped (pm_metrics m)\<rparr>)
        | (True, t) \<Rightarrow> (Some (key, path), m\<lparr>pm_tracker := t\<rparr>)))"

definition schedulePreload_add :: "bool \<Rightarrow> string \<times> string \<Rightarrow> preload_manager \<Rightarrow> preload_manager" where
  "schedulePreload_add refused c m = (case c of (key, path) \<Rightarrow>
     (let m1 = m\<lparr>pm_metrics := RecordScheduled (pm_metrics m)\<rparr> in
      if refused then m1\<lparr>pm_tracker := UnregisterTask key (pm_tracker m1)\<rparr>
      else add_job (PageJob key path (PreloadVariantForPath path)) m1))"

text \<open>The routes a folder job goes through.\<close>

definition wanted_routes :: "string list \<Rightarrow> string list \<Rightarrow> string list" where
  "wanted_routes routes paths = filter (\<lambda>p. p \<noteq> [] \<and> isCacheablePath p routes) paths"

text \<open>A page job makes its request with or without the HTMX headers.\<close>

definition PreloadTask_Run_request ::
  "(string \<Rightarrow> (string \<times> string) option) \<Rightarrow> (cache_request \<Rightarrow> int) option \<Rightarrow> string \<Rightarrow> string \<Rightarrow> string \<Rightarrow> request_error option" where
  "PreloadTask_Run_request other handler etag path hx =
     (if hx \<noteq> [] then MakeInternalRequestWithHXTarget other handler etag path hx
      else MakeInternalRequest other handler etag path)"

text \<open>A page job after its request, with the request's outcome.\<close>

definition PreloadTask_Run_end :: "int \<Rightarrow> request_error option \<Rightarrow> string \<Rightarrow> preload_manager \<Rightarrow> preload_manager" where
  "PreloadTask_Run_end d err key m =
     m\<lparr>pm_metrics := (case err of None \<Rightarrow> RecordSuccess d (pm_metrics m) | Some _ \<Rightarrow> RecordFailure d (pm_metrics m)),
       pm_tracker := UnregisterTask key (pm_tracker m)\<rparr>"

definition IsEnabled :: "preload_manager \<Rightarrow> bool" where
  "IsEnabled m = pm_enabled m"

definition GetMetrics :: "preload_manager \<Rightarrow> preload_metrics" where
  "GetMetrics m = pm_metrics m"

definition Shutdown_begin :: "preload_manager \<Rightarrow> preload_manager" where
  "Shutdown_begin m = m\<lparr>pm_enabled := False, pm_scheduler := map_option (\<lambda>d. d\<lparr>sd_cancelled := True\<rparr>) (pm_scheduler m)\<rparr>"

section \<open>Interleaving\<close>

definition set_sched :: "preload_sched \<Rightarrow> preload_manager \<Rightarrow> preload_manager" where
  "set_sched d m = m\<lparr>pm_scheduler := Some d\<rparr>"

text \<open>What a browser does is any sequence of openings by sessions with a name; the database answers
  anything. A caller of \<^verbatim>\<open>ScheduleFolderPreload\<close> may be late: it adds its task to a scheduler that is
  being stopped (to one that is shut down it cannot). A folder job leaves early when it gets no connection or no routes. After the cancellation
  the loop of the scheduler may still start jobs until it notices.\<close>

inductive preload_step :: "(string \<Rightarrow> (string \<times> string) option) \<Rightarrow> string \<Rightarrow> preload_manager \<Rightarrow> preload_manager \<Rightarrow> bool"
  for other etag where
  open_folder: "session \<noteq> [] \<Longrightarrow> set keys = dom (pm_tracker m) \<Longrightarrow>
    preload_step other etag m (snd (ScheduleFolderPreload now keys folder session m))"
| late_open: "preload_step other etag m (add_job (FolderJob folder) m)"
| start_folder: "pm_scheduler m = Some d \<Longrightarrow> sd_queue d = as @ FolderJob f # bs \<Longrightarrow>
    preload_step other etag m (set_sched (d\<lparr>sd_queue := as @ bs,
      sd_running := RunFolder (wanted_routes (pm_routes m) paths) None # sd_running d\<rparr>) m)"
| start_page: "pm_scheduler m = Some d \<Longrightarrow> sd_queue d = as @ PageJob key path hx # bs \<Longrightarrow>
    preload_step other etag m (set_sched (d\<lparr>sd_queue := as @ bs, sd_running := RunPage key path hx # sd_running d\<rparr>) m)"
| claim: "pm_scheduler m = Some d \<Longrightarrow> sd_running d = as @ RunFolder (p # ps) None # bs \<Longrightarrow>
    schedulePreload_claim now etag exists p m = (c, m') \<Longrightarrow>
    preload_step other etag m (set_sched (d\<lparr>sd_running := as @ RunFolder ps c # bs\<rparr>) m')"
| schedule: "pm_scheduler m = Some d \<Longrightarrow> sd_running d = as @ RunFolder ps (Some c) # bs \<Longrightarrow>
    preload_step other etag m (schedulePreload_add refused c (set_sched (d\<lparr>sd_running := as @ RunFolder ps None # bs\<rparr>) m))"
| folder_done: "pm_scheduler m = Some d \<Longrightarrow> sd_running d = as @ RunFolder ps None # bs \<Longrightarrow>
    preload_step other etag m (set_sched (d\<lparr>sd_running := as @ bs\<rparr>) m)"
| page_done: "pm_scheduler m = Some d \<Longrightarrow> sd_running d = as @ RunPage key path hx # bs \<Longrightarrow>
    err = PreloadTask_Run_request other handler etag path hx \<Longrightarrow>
    preload_step other etag m (PreloadTask_Run_end dur err key (set_sched (d\<lparr>sd_running := as @ bs\<rparr>) m))"
| switch: "\<not> (\<exists>d. pm_scheduler m = Some d \<and> sd_cancelled d) \<Longrightarrow> preload_step other etag m (SetEnabled_begin enabled m)"
| shutdown: "\<not> (\<exists>d. pm_scheduler m = Some d \<and> sd_cancelled d) \<Longrightarrow> preload_step other etag m (Shutdown_begin m)"
| stopped: "pm_scheduler m = Some d \<Longrightarrow> sd_cancelled d \<Longrightarrow> sd_running d = [] \<Longrightarrow> preload_step other etag m (stopScheduler m)"

section \<open>One job for a page\<close>

text \<open>The keys of the pages that a job has claimed, is going to request or is requesting.\<close>

definition job_keys :: "preload_job list \<Rightarrow> string list" where
  "job_keys js = concat (map (\<lambda>j. case j of PageJob k p h \<Rightarrow> [k] | FolderJob f \<Rightarrow> []) js)"

definition run_keys :: "preload_run list \<Rightarrow> string list" where
  "run_keys rs = concat (map (\<lambda>r. case r of RunPage k p h \<Rightarrow> [k] | RunFolder ps None \<Rightarrow> [] | RunFolder ps (Some c) \<Rightarrow> [fst c]) rs)"

definition busy_keys :: "preload_manager \<Rightarrow> string list" where
  "busy_keys m = (case pm_scheduler m of None \<Rightarrow> [] | Some d \<Rightarrow> job_keys (sd_queue d) @ run_keys (sd_running d))"

definition preload_inv :: "preload_manager \<Rightarrow> bool" where
  "preload_inv m \<longleftrightarrow> distinct (busy_keys m) \<and> set (busy_keys m) \<subseteq> dom (pm_tracker m) \<and>
     (\<forall>info \<in> ran (pm_tracker m). ti_session info = []) \<and> (pm_enabled m \<longrightarrow> (\<exists>d. pm_scheduler m = Some d \<and> \<not> sd_cancelled d))"

lemma keys_simps [simp]:
  "job_keys [] = []" "job_keys (as @ bs) = job_keys as @ job_keys bs" "job_keys (FolderJob f # js) = job_keys js"
  "job_keys (PageJob k p h # js) = k # job_keys js"
  "run_keys [] = []" "run_keys (rs @ qs) = run_keys rs @ run_keys qs" "run_keys (RunPage k p h # rs) = k # run_keys rs"
  "run_keys (RunFolder ps None # rs) = run_keys rs" "run_keys (RunFolder ps (Some c) # rs) = fst c # run_keys rs"
  by (simp_all add: job_keys_def run_keys_def)

lemma cancel_other:
  "(\<forall>info \<in> ran t. ti_session info = []) \<Longrightarrow> session \<noteq> [] \<Longrightarrow> CancelSessionTasks keys session t = ([], t)"
  by (induction keys) (auto simp: ran_def split: option.splits)

lemma open_cases:
  assumes "\<forall>info \<in> ran (pm_tracker m). ti_session info = []" "session \<noteq> []"
  shows "\<exists>ss. ScheduleFolderPreload now keys folder session m = ([], m) \<or>
    pm_scheduler m \<noteq> None \<and> ScheduleFolderPreload now keys folder session m = ([], add_job (FolderJob folder) (m\<lparr>pm_sessions := ss\<rparr>))"
  using assms by (auto simp: ScheduleFolderPreload_def cancel_other Let_def split: prod.splits)

lemma claim_cases:
  assumes "schedulePreload_claim now etag exists p m = (c, m')"
  shows "c = None \<and> (\<exists>x. m' = m\<lparr>pm_metrics := x\<rparr>) \<or>
    (c = Some (preload_key etag p, p) \<and> pm_tracker m (preload_key etag p) = None \<and>
      m' = m\<lparr>pm_tracker := (pm_tracker m)(preload_key etag p \<mapsto> \<lparr>ti_session = [], ti_task = [], ti_created = now\<rparr>)\<rparr>)"
  using assms
  by (auto simp: schedulePreload_claim_def TryClaimTask_def RegisterTask_def Let_def split: if_splits option.splits prod.splits)

lemma preload_step_inv:
  assumes "preload_step other etag m m'" "preload_inv m"
  shows "preload_inv m'"
  using assms
proof (induction rule: preload_step.induct)
  case (open_folder session keys m now folder)
  then obtain ss where "ScheduleFolderPreload now keys folder session m = ([], m) \<or> pm_scheduler m \<noteq> None \<and>
      ScheduleFolderPreload now keys folder session m = ([], add_job (FolderJob folder) (m\<lparr>pm_sessions := ss\<rparr>))"
    using open_cases [of m session now keys folder] by (auto simp: preload_inv_def)
  then show ?case
  proof (elim disjE conjE)
    assume "pm_scheduler m \<noteq> None" "ScheduleFolderPreload now keys folder session m = ([], add_job (FolderJob folder) (m\<lparr>pm_sessions := ss\<rparr>))"
    then show ?thesis using open_folder.prems by (auto simp: preload_inv_def busy_keys_def add_job_def)
  qed (use open_folder.prems in simp)
next
  case (claim m d as p ps bs now exists c m')
  from claim_cases [OF claim.hyps(3)] show ?case
  proof (elim disjE exE conjE)
    fix x assume "c = None" "m' = m\<lparr>pm_metrics := x\<rparr>"
    then show ?thesis using claim by (auto simp: preload_inv_def busy_keys_def set_sched_def)
  next
    assume c: "c = Some (preload_key etag p, p)" "pm_tracker m (preload_key etag p) = None"
      "m' = m\<lparr>pm_tracker := (pm_tracker m)(preload_key etag p \<mapsto> \<lparr>ti_session = [], ti_task = [], ti_created = now\<rparr>)\<rparr>"
    then have "preload_key etag p \<notin> set (busy_keys m)" using claim.prems by (auto simp: preload_inv_def)
    then show ?thesis using claim c by (auto simp: preload_inv_def busy_keys_def set_sched_def ran_def split: if_splits)
  qed
next
  case (schedule m d as ps c bs refused)
  obtain key p where c: "c = (key, p)" by fastforce
  show ?case using schedule unfolding c
    by (cases refused) (auto simp: preload_inv_def busy_keys_def set_sched_def schedulePreload_add_def add_job_def
        UnregisterTask_def Let_def ran_def split: if_splits)
next
  case (page_done m d as key path hx bs err handler dur)
  then show ?case
    by (auto simp: preload_inv_def busy_keys_def set_sched_def PreloadTask_Run_end_def UnregisterTask_def ran_def split: if_splits)
next
  case (switch m enabled)
  then show ?case
    by (auto simp: preload_inv_def busy_keys_def SetEnabled_begin_def startScheduler_def Let_def split: option.splits)
qed (auto simp: preload_inv_def busy_keys_def set_sched_def stopScheduler_def add_job_def Shutdown_begin_def split: option.splits)

lemma preload_init: "preload_inv (Configure (NewPreloadManager routes enabled))"
  by (simp add: preload_inv_def Configure_def NewPreloadManager_def startScheduler_def busy_keys_def Let_def)

lemma preload_reachable:
  "(preload_step other etag)\<^sup>*\<^sup>* (Configure (NewPreloadManager routes enabled)) m \<Longrightarrow> preload_inv m"
  by (induction rule: rtranclp_induct) (use preload_init preload_step_inv in blast)+

text \<open>C29: However openings, tasks and switching are interleaved, for every page at most one job is queued
  or at work, and its key is claimed as long as it lives.\<close>

theorem preload_one_job_per_page:
  assumes "(preload_step other etag)\<^sup>*\<^sup>* (Configure (NewPreloadManager routes enabled)) m"
  shows "distinct (busy_keys m) \<and> set (busy_keys m) \<subseteq> {k. IsTaskPending (pm_tracker m) k}"
  using preload_reachable [OF assms] by (auto simp: preload_inv_def IsTaskPending_def)

text \<open>\<^verbatim>\<open>CancelSessionTasks\<close>, which a session calls when it opens another folder, finds nothing: the claims
  carry no session.\<close>

lemma session_tasks_not_found:
  assumes "(preload_step other etag)\<^sup>*\<^sup>* (Configure (NewPreloadManager routes enabled)) m" "session \<noteq> []"
  shows "CancelSessionTasks keys session (pm_tracker m) = ([], pm_tracker m)"
  using preload_reachable [OF assms(1)] assms(2) cancel_other [of "pm_tracker m" session keys]
  by (auto simp: preload_inv_def)

section \<open>Claims that are never given back\<close>

definition abandoned :: "string \<Rightarrow> preload_manager \<Rightarrow> bool" where
  "abandoned k m \<longleftrightarrow> preload_inv m \<and> IsTaskPending (pm_tracker m) k \<and> k \<notin> set (busy_keys m)"

lemma abandoned_step:
  assumes "preload_step other etag m m'" "abandoned k m"
  shows "abandoned k m'"
proof -
  have inv: "preload_inv m'" using preload_step_inv assms by (auto simp: abandoned_def)
  have "IsTaskPending (pm_tracker m') k \<and> k \<notin> set (busy_keys m')"
    using assms
  proof (induction rule: preload_step.induct)
    case (open_folder session keys m now folder)
    then obtain ss where "ScheduleFolderPreload now keys folder session m = ([], m) \<or> pm_scheduler m \<noteq> None \<and>
        ScheduleFolderPreload now keys folder session m = ([], add_job (FolderJob folder) (m\<lparr>pm_sessions := ss\<rparr>))"
      using open_cases [of m session now keys folder] by (auto simp: preload_inv_def abandoned_def)
    then show ?case
    proof (elim disjE conjE)
      assume "pm_scheduler m \<noteq> None" "ScheduleFolderPreload now keys folder session m = ([], add_job (FolderJob folder) (m\<lparr>pm_sessions := ss\<rparr>))"
      then show ?thesis using open_folder.prems by (auto simp: abandoned_def busy_keys_def add_job_def)
    qed (use open_folder.prems in \<open>simp add: abandoned_def\<close>)
  next
    case (claim m d as p ps bs now exists c m')
    from claim_cases [OF claim.hyps(3)] show ?case
    proof (elim disjE exE conjE)
      fix x assume "c = None" "m' = m\<lparr>pm_metrics := x\<rparr>"
      then show ?thesis using claim by (auto simp: abandoned_def busy_keys_def set_sched_def)
    next
      assume c: "c = Some (preload_key etag p, p)" "pm_tracker m (preload_key etag p) = None"
        "m' = m\<lparr>pm_tracker := (pm_tracker m)(preload_key etag p \<mapsto> \<lparr>ti_session = [], ti_task = [], ti_created = now\<rparr>)\<rparr>"
      then have "k \<noteq> preload_key etag p" using claim.prems by (auto simp: abandoned_def IsTaskPending_def)
      then show ?thesis using claim c by (auto simp: abandoned_def IsTaskPending_def busy_keys_def set_sched_def)
    qed
  next
    case (schedule m d as ps c bs refused)
    obtain key p where c: "c = (key, p)" by fastforce
    show ?case using schedule unfolding c
      by (cases refused) (auto simp: abandoned_def IsTaskPending_def busy_keys_def set_sched_def schedulePreload_add_def
          add_job_def UnregisterTask_def Let_def)
  next
    case (switch m enabled)
    then show ?case
      by (cases "pm_scheduler m") (auto simp: abandoned_def IsTaskPending_def busy_keys_def SetEnabled_begin_def
          startScheduler_def Let_def)
  qed (auto simp: abandoned_def IsTaskPending_def busy_keys_def set_sched_def stopScheduler_def add_job_def Shutdown_begin_def
      PreloadTask_Run_end_def UnregisterTask_def split: option.splits)
  with inv show ?thesis by (simp add: abandoned_def)
qed

definition fresh_manager :: preload_manager where
  "fresh_manager = Configure (NewPreloadManager [''/info/''] True)"

definition stage :: "tracker \<Rightarrow> 64 word \<Rightarrow> preload_job list \<Rightarrow> preload_run list \<Rightarrow> preload_manager" where
  "stage t x q r = \<lparr>pm_enabled = True, pm_scheduler = Some \<lparr>sd_queue = q, sd_running = r, sd_cancelled = False\<rparr>,
    pm_routes = [''/info/''], pm_deps = True, pm_tracker = t, pm_sessions = [''alice'' \<mapsto> \<lparr>se_folder = 5, se_activity = 0\<rparr>],
    pm_metrics = \<lparr>pr_scheduled = x, pr_completed = 0, pr_failed = 0, pr_cancelled = 0, pr_skipped = 0, pr_duration = 0\<rparr>\<rparr>"

definition page_key :: string where "page_key = preload_key ''1'' ''/info/7''"

definition page_claim :: tracker where
  "page_claim = [page_key \<mapsto> \<lparr>ti_session = [], ti_task = [], ti_created = 0\<rparr>]"

definition page_waits :: preload_manager where
  "page_waits = stage page_claim 1 [PageJob page_key ''/info/7'' ''box_info''] []"

definition switched_off :: preload_manager where
  "switched_off = stopScheduler (SetEnabled_begin False page_waits)"

lemma page_waits_reached: "(preload_step other ''1'')\<^sup>*\<^sup>* fresh_manager page_waits"
proof -
  have hx: "PreloadVariantForPath ''/info/7'' = ''box_info''" "wanted_routes [''/info/''] [''/info/7''] = [''/info/7'']" by code_simp+
  have k: "preload_key ''1'' ''/info/7'' = page_key" by (simp add: page_key_def)
  let ?page = "PageJob page_key ''/info/7'' ''box_info''"
  note defs = stage_def set_sched_def schedulePreload_claim_def TryClaimTask_def RegisterTask_def schedulePreload_add_def
    add_job_def RecordScheduled_def hx k page_claim_def Let_def
  have s1: "preload_step other ''1'' fresh_manager (stage Map.empty 0 [FolderJob 5] [])"
    using preload_step.open_folder [of "''alice''" "[]" fresh_manager other "''1''" 0 5]
    by (simp add: defs fresh_manager_def Configure_def NewPreloadManager_def startScheduler_def ScheduleFolderPreload_def OnFolderOpen_def)
  have s2: "preload_step other ''1'' (stage Map.empty 0 [FolderJob 5] []) (stage Map.empty 0 [] [RunFolder [''/info/7''] None])"
    using preload_step.start_folder [of "stage Map.empty 0 [FolderJob 5] []" "the (pm_scheduler (stage Map.empty 0 [FolderJob 5] []))" "[]" 5 "[]" other "''1''" "[''/info/7'']"]
    by (simp add: defs)
  have s3: "preload_step other ''1'' (stage Map.empty 0 [] [RunFolder [''/info/7''] None])
      (stage page_claim 0 [] [RunFolder [] (Some (page_key, ''/info/7''))])"
    using preload_step.claim [of "stage Map.empty 0 [] [RunFolder [''/info/7''] None]" "the (pm_scheduler (stage Map.empty 0 [] [RunFolder [''/info/7''] None]))" "[]" "''/info/7''" "[]" "[]" 0 "''1''" "Some False"]
    by (simp add: defs)
  have s4: "preload_step other ''1'' (stage page_claim 0 [] [RunFolder [] (Some (page_key, ''/info/7''))])
      (stage page_claim 1 [?page] [RunFolder [] None])"
    using preload_step.schedule [of "stage page_claim 0 [] [RunFolder [] (Some (page_key, ''/info/7''))]" "the (pm_scheduler (stage page_claim 0 [] [RunFolder [] (Some (page_key, ''/info/7''))]))" "[]" "[]" "(page_key, ''/info/7'')" "[]" other "''1''" False]
    by (simp add: defs)
  have s5: "preload_step other ''1'' (stage page_claim 1 [?page] [RunFolder [] None]) (stage page_claim 1 [?page] [])"
    using preload_step.folder_done [of "stage page_claim 1 [?page] [RunFolder [] None]" "the (pm_scheduler (stage page_claim 1 [?page] [RunFolder [] None]))" "[]" "[]" "[]"]
    by (simp add: defs)
  note into = r_into_rtranclp [where r = "preload_step other ''1''"]
  show ?thesis unfolding page_waits_def by (rule rtranclp_trans [OF _ into [OF s5]], rule rtranclp_trans [OF _ into [OF s4]],
    rule rtranclp_trans [OF _ into [OF s3]], rule rtranclp_trans [OF into [OF s1] into [OF s2]])
qed

lemma switched_off_reached: "(preload_step other ''1'')\<^sup>*\<^sup>* fresh_manager switched_off"
proof -
  have "preload_step other ''1'' page_waits (SetEnabled_begin False page_waits)"
    by (rule preload_step.switch) (simp add: page_waits_def stage_def)
  moreover have "preload_step other ''1'' (SetEnabled_begin False page_waits) switched_off"
    unfolding switched_off_def
    by (rule preload_step.stopped [where d = \<open>\<lparr>sd_queue = [PageJob page_key ''/info/7'' ''box_info''], sd_running = [], sd_cancelled = True\<rparr>\<close>])
      (simp_all add: SetEnabled_begin_def page_waits_def stage_def)
  ultimately show ?thesis using page_waits_reached [of other] by (meson rtranclp.rtrancl_into_rtrancl)
qed

lemma switched_off_abandoned: "abandoned page_key switched_off"
  using preload_reachable [of undefined "''1''" "[''/info/'']" True switched_off] switched_off_reached [of undefined]
  by (simp add: abandoned_def fresh_manager_def busy_keys_def switched_off_def stopScheduler_def IsTaskPending_def
      SetEnabled_begin_def page_waits_def stage_def page_claim_def)

text \<open>Switching the preloader off while the job of a page waits drops the job but not its claim: for
  as long as the server runs, no job for this page is started again, also after switching it on.\<close>

theorem preload_claim_lost:
  "(preload_step other ''1'')\<^sup>*\<^sup>* fresh_manager switched_off \<and>
   {m. (preload_step other ''1'')\<^sup>*\<^sup>* switched_off m}
     \<subseteq> {m. preload_key ''1'' ''/info/7'' \<notin> set (busy_keys m) \<and> IsTaskPending (pm_tracker m) (preload_key ''1'' ''/info/7'')} \<and>
   preload_step other ''1'' switched_off (SetEnabled_begin True switched_off) \<and> pm_enabled (SetEnabled_begin True switched_off)"
proof -
  have "abandoned page_key m" if "(preload_step other ''1'')\<^sup>*\<^sup>* switched_off m" for m
    using that by induction (use switched_off_abandoned abandoned_step in blast)+
  then have "{m. (preload_step other ''1'')\<^sup>*\<^sup>* switched_off m} \<subseteq> {m. page_key \<notin> set (busy_keys m) \<and> IsTaskPending (pm_tracker m) page_key}"
    by (auto simp: abandoned_def)
  moreover have "preload_step other ''1'' switched_off (SetEnabled_begin True switched_off)"
    by (rule preload_step.switch) (simp add: switched_off_def stopScheduler_def)
  moreover have "pm_enabled (SetEnabled_begin True switched_off)"
    by (simp add: switched_off_def stopScheduler_def SetEnabled_begin_def startScheduler_def page_waits_def stage_def)
  ultimately show ?thesis using switched_off_reached by (simp add: page_key_def)
qed

theorem preload_one_job_per_page_witness:
  "busy_keys page_waits = [page_key] \<and> distinct (busy_keys page_waits) \<and> IsTaskPending (pm_tracker page_waits) page_key"
  using preload_one_job_per_page [of undefined "''1''" "[''/info/'']" True page_waits] page_waits_reached [of undefined]
  by (simp add: fresh_manager_def busy_keys_def, simp add: page_waits_def stage_def)

end
