(* ===== verification/Batch_Load.thy ===== *)
theory Batch_Load
  imports Preload
begin

text \<open>
  Loading the whole cache in a batch (\<^verbatim>\<open>internal/server/cachebatch\<close>): a run goes through the targets of the
  database, skips what is cached and hands the rest to a few workers through a channel.  Several callers may start a
  run; a step is one access to what they share: one atomic add or store of the metrics, one operation of the channel,
  one look at its length.
\<close>

section \<open>Metrics\<close>

record batch_metrics =
  TargetsTotal :: int
  TargetsScheduled :: int
  TargetsCompleted :: int
  TargetsFailed :: int
  TargetsSkipped :: int
  ThrottlesSkipped :: int
  BackpressureSkipped :: int
  InFlight :: int
  IsRunning :: int
  LastStartedAt :: int
  LastFinishedAt :: int

text \<open>\<^verbatim>\<open>RecordCompleted\<close> and \<^verbatim>\<open>RecordFailed\<close> are two adds: the first one, and the one that both end with.\<close>

definition completed_add :: "batch_metrics \<Rightarrow> batch_metrics" where
  "completed_add m = m\<lparr>TargetsCompleted := TargetsCompleted m + 1\<rparr>"

definition failed_add :: "batch_metrics \<Rightarrow> batch_metrics" where
  "failed_add m = m\<lparr>TargetsFailed := TargetsFailed m + 1\<rparr>"

definition flight_sub :: "batch_metrics \<Rightarrow> batch_metrics" where
  "flight_sub m = m\<lparr>InFlight := InFlight m - 1\<rparr>"

definition batch_RecordSkipped :: "batch_metrics \<Rightarrow> batch_metrics" where
  "batch_RecordSkipped m = m\<lparr>TargetsSkipped := TargetsSkipped m + 1\<rparr>"

definition RecordThrottled :: "batch_metrics \<Rightarrow> batch_metrics" where
  "RecordThrottled m = m\<lparr>ThrottlesSkipped := ThrottlesSkipped m + 1\<rparr>"

definition RecordBackpressureSkipped :: "batch_metrics \<Rightarrow> batch_metrics" where
  "RecordBackpressureSkipped m = m\<lparr>BackpressureSkipped := BackpressureSkipped m + 1\<rparr>"

section \<open>One target\<close>

definition runBatchWarm ::
  "(string \<Rightarrow> (string \<times> string) option) \<Rightarrow> (cache_request \<Rightarrow> int) option \<Rightarrow> string \<Rightarrow> string \<Rightarrow> string \<Rightarrow> request_error option" where
  "runBatchWarm other handler etag path variant =
     (if variant = ''full'' then MakeInternalRequest other handler etag path
      else MakeInternalRequestWithHXTarget other handler etag path variant)"

text \<open>A job at its worker: the request runs, its outcome is to be recorded, the flight is to be ended.\<close>

datatype work = Requesting "string \<times> string" | Recording "request_error option" | Releasing

fun runJob :: "(string \<times> string \<Rightarrow> request_error option) \<Rightarrow> work \<Rightarrow> batch_metrics \<Rightarrow> work option \<times> batch_metrics" where
  "runJob warm (Requesting t) m = (Some (Recording (warm t)), m)"
| "runJob warm (Recording outcome) m =
     (Some Releasing, case outcome of Some _ \<Rightarrow> failed_add m | None \<Rightarrow> completed_add m)"
| "runJob warm Releasing m = (None, flight_sub m)"

definition batch_key :: "string \<Rightarrow> string \<times> string \<Rightarrow> string" where
  "batch_key etag t = (case t of (path, variant) \<Rightarrow> NewCacheKey (NewCacheKeyForPreload path (''v='' @ etag) variant))"

definition batch_etag :: "string \<Rightarrow> string" where
  "batch_etag etag = (if etag = [] then ''0'' else etag)"

definition defaultQueueSize :: nat where "defaultQueueSize = 1000"

text \<open>The utilisation is above 0.95, or above 0.8.\<close>

definition skip_target :: "nat \<Rightarrow> bool" where
  "skip_target pending \<longleftrightarrow> 100 * pending > 95 * defaultQueueSize"

definition throttle :: "nat \<Rightarrow> bool" where
  "throttle pending \<longleftrightarrow> 10 * pending > 8 * defaultQueueSize"

definition batch_workers :: "nat \<Rightarrow> nat" where
  "batch_workers numCPU = (if numCPU < 8 then numCPU else 8)"

section \<open>A run\<close>

text \<open>The producer is before the next target, about to make one of its adds, examining a target, sending one,
  or has left its loop. The ghost fields remember the metrics at the start, the number of targets and the
  failed look-ups.\<close>

datatype producer = Next | Skipping | Throttling "string \<times> string" | Examine "string \<times> string" | Cached
  | Scheduling "string \<times> string" | Launching "string \<times> string" | Send "string \<times> string"
  | Unsend | Unschedule | Drained

record batch_run =
  br_targets :: "(string \<times> string) list"
  br_producer :: producer
  br_jobs :: "(string \<times> string) list"
  br_busy :: "work list"
  br_max :: nat
  br_cancelled :: bool
  br_count :: nat
  br_errors :: nat
  br_start :: batch_metrics

text \<open>A call of \<^verbatim>\<open>Run\<close> that holds the flag and is not in its loop: before its stores at the start, asking for
  the targets, and before its stores at the end and the release of the flag.\<close>

datatype run_stage = Entered | Marked | Asking | Ending | Stamping | Leaving

record batch_manager =
  bm_running :: bool
  bm_metrics :: batch_metrics
  bm_stages :: "run_stage list"
  bm_runs :: "batch_run list"

definition NewManager :: batch_manager where
  "NewManager = \<lparr>bm_running = False, bm_metrics = \<lparr>TargetsTotal = 0, TargetsScheduled = 0, TargetsCompleted = 0,
     TargetsFailed = 0, TargetsSkipped = 0, ThrottlesSkipped = 0, BackpressureSkipped = 0, InFlight = 0, IsRunning = 0,
     LastStartedAt = 0, LastFinishedAt = 0\<rparr>, bm_stages = [], bm_runs = []\<rparr>"

datatype run_error = ErrDiscoveryActive | ErrAlreadyRunning | StateError

text \<open>The beginning of \<^verbatim>\<open>Run\<close>: the answer of the module state service, None without one, and the flag.\<close>

definition Run_begin :: "(unit + bool) option \<Rightarrow> batch_manager \<Rightarrow> run_error option \<times> batch_manager" where
  "Run_begin discovery b =
     (case discovery of
        Some (Inl _) \<Rightarrow> (Some StateError, b)
      | Some (Inr True) \<Rightarrow> (Some ErrDiscoveryActive, b)
      | _ \<Rightarrow>
          if bm_running b then (Some ErrAlreadyRunning, b)
          else (None, b\<lparr>bm_running := True, bm_stages := Entered # bm_stages b\<rparr>))"

text \<open>The stores at the start and at the deferred end, one by one.\<close>

fun Run_stores :: "int \<Rightarrow> run_stage \<Rightarrow> batch_metrics \<Rightarrow> (run_stage \<times> batch_metrics) option" where
  "Run_stores now Entered m = Some (Marked, m\<lparr>IsRunning := 1\<rparr>)"
| "Run_stores now Marked m = Some (Asking, m\<lparr>LastStartedAt := now\<rparr>)"
| "Run_stores now Asking m = None"
| "Run_stores now Ending m = Some (Stamping, m\<lparr>IsRunning := 0\<rparr>)"
| "Run_stores now Stamping m = Some (Leaving, m\<lparr>LastFinishedAt := now\<rparr>)"
| "Run_stores now Leaving m = None"

text \<open>The targets are known; then the run starts unless there is no handler.\<close>

definition Run_targets :: "nat \<Rightarrow> (string \<times> string) list \<Rightarrow> batch_metrics \<Rightarrow> batch_run \<times> batch_metrics" where
  "Run_targets numCPU ts m =
     (let m' = m\<lparr>TargetsTotal := int (length ts)\<rparr> in
      (\<lparr>br_targets = ts, br_producer = Next, br_jobs = [], br_busy = [], br_max = batch_workers numCPU,
         br_cancelled = False, br_count = length ts, br_errors = 0, br_start = m'\<rparr>, m'))"

text \<open>The next target, with what is pending in the channel.\<close>

definition produce_next :: "batch_run \<Rightarrow> batch_run" where
  "produce_next r =
     (case br_targets r of
        [] \<Rightarrow> r\<lparr>br_producer := Drained\<rparr>
      | t # ts \<Rightarrow> r\<lparr>br_targets := ts, br_producer :=
          (if skip_target (length (br_jobs r)) then Skipping
           else if throttle (length (br_jobs r)) then Throttling t else Examine t)\<rparr>)"

text \<open>The look-up in the cache, None being its failure.\<close>

definition examine :: "bool option \<Rightarrow> string \<times> string \<Rightarrow> batch_run \<Rightarrow> batch_run" where
  "examine exists t r =
     (case exists of
        None \<Rightarrow> r\<lparr>br_producer := Next, br_errors := br_errors r + 1\<rparr>
      | Some True \<Rightarrow> r\<lparr>br_producer := Cached\<rparr>
      | Some False \<Rightarrow> r\<lparr>br_producer := Scheduling t\<rparr>)"

text \<open>The adds of the producer, one by one; a target is counted as scheduled before it counts as in flight, and
  a sending that is given up takes both back in the opposite order.\<close>

fun produce_add :: "producer \<Rightarrow> batch_metrics \<Rightarrow> (producer \<times> batch_metrics) option" where
  "produce_add Skipping m = Some (Next, RecordBackpressureSkipped m)"
| "produce_add (Throttling t) m = Some (Examine t, RecordThrottled m)"
| "produce_add Cached m = Some (Next, batch_RecordSkipped m)"
| "produce_add (Scheduling t) m = Some (Launching t, m\<lparr>TargetsScheduled := TargetsScheduled m + 1\<rparr>)"
| "produce_add (Launching t) m = Some (Send t, m\<lparr>InFlight := InFlight m + 1\<rparr>)"
| "produce_add Unsend m = Some (Unschedule, m\<lparr>InFlight := InFlight m - 1\<rparr>)"
| "produce_add Unschedule m = Some (Drained, m\<lparr>TargetsScheduled := TargetsScheduled m - 1\<rparr>)"
| "produce_add Next m = None"
| "produce_add (Examine t) m = None"
| "produce_add (Send t) m = None"
| "produce_add Drained m = None"

definition send_cancelled :: "batch_run \<Rightarrow> batch_run" where
  "send_cancelled r = r\<lparr>br_producer := Unsend, br_cancelled := True\<rparr>"

definition put_run :: "batch_run list \<Rightarrow> batch_run list \<Rightarrow> batch_run \<Rightarrow> batch_metrics \<Rightarrow> batch_manager \<Rightarrow> batch_manager" where
  "put_run as bs r m b = b\<lparr>bm_runs := as @ r # bs, bm_metrics := m\<rparr>"

inductive batch_step :: "batch_manager \<Rightarrow> batch_manager \<Rightarrow> bool" where
  begin_run: "batch_step b (snd (Run_begin discovery b))"
| stores: "bm_stages b = ss @ s # ts \<Longrightarrow> Run_stores now s (bm_metrics b) = Some (s', m) \<Longrightarrow>
    batch_step b (b\<lparr>bm_stages := ss @ s' # ts, bm_metrics := m\<rparr>)"
| no_targets: "bm_stages b = ss @ Asking # ts \<Longrightarrow> batch_step b (b\<lparr>bm_stages := ss @ Ending # ts\<rparr>)"
| no_handler: "bm_stages b = ss @ Asking # ts \<Longrightarrow>
    batch_step b (b\<lparr>bm_stages := ss @ Ending # ts, bm_metrics := (bm_metrics b)\<lparr>TargetsTotal := n\<rparr>\<rparr>)"
| targets: "bm_stages b = ss @ Asking # ts \<Longrightarrow> Run_targets numCPU targets (bm_metrics b) = (r, m) \<Longrightarrow>
    batch_step b (b\<lparr>bm_stages := ss @ ts, bm_runs := r # bm_runs b, bm_metrics := m\<rparr>)"
| next_target: "bm_runs b = as @ r # bs \<Longrightarrow> br_producer r = Next \<Longrightarrow>
    batch_step b (put_run as bs (produce_next r) (bm_metrics b) b)"
| producer_add: "bm_runs b = as @ r # bs \<Longrightarrow> produce_add (br_producer r) (bm_metrics b) = Some (p, m) \<Longrightarrow>
    batch_step b (put_run as bs (r\<lparr>br_producer := p\<rparr>) m b)"
| look_up: "bm_runs b = as @ r # bs \<Longrightarrow> br_producer r = Examine t \<Longrightarrow>
    batch_step b (put_run as bs (examine exists t r) (bm_metrics b) b)"
| send: "bm_runs b = as @ r # bs \<Longrightarrow> br_producer r = Send t \<Longrightarrow> length (br_jobs r) < defaultQueueSize \<Longrightarrow>
    batch_step b (put_run as bs (r\<lparr>br_producer := Next, br_jobs := br_jobs r @ [t]\<rparr>) (bm_metrics b) b)"
| cancel: "bm_runs b = as @ r # bs \<Longrightarrow> br_producer r = Send t \<Longrightarrow>
    batch_step b (put_run as bs (send_cancelled r) (bm_metrics b) b)"
| take_job: "bm_runs b = as @ r # bs \<Longrightarrow> br_jobs r = t # ts \<Longrightarrow> length (br_busy r) < br_max r \<Longrightarrow>
    batch_step b (put_run as bs (r\<lparr>br_jobs := ts, br_busy := Requesting t # br_busy r\<rparr>) (bm_metrics b) b)"
| work_on: "bm_runs b = as @ r # bs \<Longrightarrow> br_busy r = xs @ w # ys \<Longrightarrow>
    runJob (\<lambda>t. runBatchWarm other handler etag (fst t) (snd t)) w (bm_metrics b) = (w', m) \<Longrightarrow>
    batch_step b (put_run as bs (r\<lparr>br_busy := xs @ (case w' of None \<Rightarrow> [] | Some x \<Rightarrow> [x]) @ ys\<rparr>) m b)"
| end_run: "bm_runs b = as @ r # bs \<Longrightarrow> br_producer r = Drained \<Longrightarrow> br_jobs r = [] \<Longrightarrow> br_busy r = [] \<Longrightarrow>
    batch_step b (b\<lparr>bm_runs := as @ bs, bm_stages := Ending # bm_stages b\<rparr>)"
| release: "bm_stages b = ss @ Leaving # ts \<Longrightarrow> batch_step b (b\<lparr>bm_stages := ss @ ts, bm_running := False\<rparr>)"

section \<open>Accounting\<close>

definition sending :: "batch_run \<Rightarrow> nat" where
  "sending r = (case br_producer r of Send t \<Rightarrow> 1 | Unsend \<Rightarrow> 1 | _ \<Rightarrow> 0)"

definition pending :: "batch_run \<Rightarrow> nat" where
  "pending r = length (br_jobs r) + length (br_busy r) + sending r"

text \<open>Between two adds that belong together: of the producer and of the workers.\<close>

definition half_scheduled :: "batch_run \<Rightarrow> nat" where
  "half_scheduled r = (case br_producer r of Launching t \<Rightarrow> 1 | Unschedule \<Rightarrow> 1 | _ \<Rightarrow> 0)"

definition half_done :: "batch_run \<Rightarrow> nat" where
  "half_done r = length (filter (\<lambda>w. w = Releasing) (br_busy r))"

text \<open>The targets of a run that the metrics account for since its start, and the one being decided.\<close>

definition undecided :: "batch_run \<Rightarrow> nat" where
  "undecided r = (case br_producer r of Skipping \<Rightarrow> 1 | Throttling t \<Rightarrow> 1 | Examine t \<Rightarrow> 1 | Cached \<Rightarrow> 1
     | Scheduling t \<Rightarrow> 1 | _ \<Rightarrow> 0)"

definition batch_counted :: "batch_run \<Rightarrow> batch_metrics \<Rightarrow> int" where
  "batch_counted r m = (TargetsScheduled m - TargetsScheduled (br_start r)) + (TargetsSkipped m - TargetsSkipped (br_start r))
     + (BackpressureSkipped m - BackpressureSkipped (br_start r)) + int (br_errors r)"

definition ahead :: "producer \<Rightarrow> bool" where
  "ahead p = (case p of Throttling t \<Rightarrow> True | Examine t \<Rightarrow> True | Scheduling t \<Rightarrow> True | Launching t \<Rightarrow> True
     | Send t \<Rightarrow> True | _ \<Rightarrow> False)"

definition run_accounts :: "batch_metrics \<Rightarrow> batch_run \<Rightarrow> bool" where
  "run_accounts m r \<longleftrightarrow> InFlight m = int (pending r) \<and>
     TargetsScheduled m + int (half_done r) = TargetsCompleted m + TargetsFailed m + InFlight m + int (half_scheduled r) \<and>
     length (br_jobs r) \<le> 951 \<and> (ahead (br_producer r) \<longrightarrow> length (br_jobs r) \<le> 950) \<and>
     length (br_busy r) \<le> br_max r \<and> br_max r \<le> 8 \<and>
     (br_producer r = Drained \<and> \<not> br_cancelled r \<longrightarrow> br_targets r = []) \<and>
     (br_cancelled r \<longleftrightarrow> br_producer r \<in> {Unsend, Unschedule} \<or> br_producer r = Drained \<and> br_cancelled r) \<and>
     (\<not> br_cancelled r \<longrightarrow> int (br_count r) = batch_counted r m + int (length (br_targets r)) + int (undecided r))"

definition batch_inv :: "batch_manager \<Rightarrow> bool" where
  "batch_inv b \<longleftrightarrow>
     length (bm_runs b) + length (bm_stages b) = (if bm_running b then 1 else 0) \<and>
     (bm_runs b = [] \<longrightarrow> InFlight (bm_metrics b) = 0 \<and>
        TargetsScheduled (bm_metrics b) = TargetsCompleted (bm_metrics b) + TargetsFailed (bm_metrics b)) \<and>
     list_all (run_accounts (bm_metrics b)) (bm_runs b)"

lemma one_run:
  assumes "batch_inv b" "bm_runs b = as @ r # bs"
  shows "as = []" "bs = []" "bm_running b" "bm_stages b = []" "run_accounts (bm_metrics b) r"
  using assms by (auto simp: batch_inv_def split: if_splits)

lemma one_stage:
  assumes "batch_inv b" "bm_stages b = ss @ s # ts"
  shows "ss = []" "ts = []" "bm_running b" "bm_runs b = []" "InFlight (bm_metrics b) = 0"
    "TargetsScheduled (bm_metrics b) = TargetsCompleted (bm_metrics b) + TargetsFailed (bm_metrics b)"
  using assms by (auto simp: batch_inv_def split: if_splits)

text \<open>A step of the single run.\<close>

lemma batch_inv_put:
  assumes "batch_inv b" "bm_runs b = as @ r # bs" "run_accounts m r'"
  shows "batch_inv (put_run as bs r' m b)"
  using assms one_run [OF assms(1,2)] by (auto simp: batch_inv_def put_run_def)

lemmas batch_defs = run_accounts_def pending_def sending_def half_scheduled_def half_done_def undecided_def ahead_def
  batch_counted_def skip_target_def throttle_def defaultQueueSize_def completed_add_def failed_add_def flight_sub_def
  batch_RecordSkipped_def RecordThrottled_def RecordBackpressureSkipped_def

lemma produce_accounts:
  assumes "run_accounts m r" "produce_add (br_producer r) m = Some (p, m')"
  shows "run_accounts m' (r\<lparr>br_producer := p\<rparr>)"
  using assms by (cases "br_producer r") (auto simp: batch_defs)

lemma work_accounts:
  assumes r: "run_accounts m r" "br_busy r = xs @ w # ys" and w: "runJob warm w m = (w', m')"
  shows "run_accounts m' (r\<lparr>br_busy := xs @ (case w' of None \<Rightarrow> [] | Some x \<Rightarrow> [x]) @ ys\<rparr>)"
proof (cases w)
  case (Requesting t)
  then show ?thesis using assms by (auto simp: batch_defs cong: producer.case_cong)
next
  case (Recording outcome)
  then show ?thesis using assms by (cases outcome) (auto simp: batch_defs cong: producer.case_cong)
next
  case Releasing
  then show ?thesis using assms by (auto simp: batch_defs cong: producer.case_cong)
qed

lemma batch_step_inv:
  assumes "batch_step b b'" "batch_inv b"
  shows "batch_inv b'"
  using assms
proof (induction rule: batch_step.induct)
  case (begin_run b discovery)
  then show ?case by (auto simp: batch_inv_def Run_begin_def split: option.splits sum.splits bool.splits)
next
  case (stores b ss s ts now s' m)
  then show ?case using one_stage [OF stores.prems stores.hyps(1)] by (cases s) (auto simp: batch_inv_def)
next
  case (no_handler b ss ts n)
  then show ?case using one_stage [OF no_handler.prems no_handler.hyps(1)] by (auto simp: batch_inv_def)
next
  case (targets b ss ts numCPU ps r m)
  then show ?case using one_stage [OF targets.prems targets.hyps(1)]
    by (auto simp: batch_inv_def Run_targets_def Let_def batch_defs batch_workers_def)
next
  case (next_target b as r bs)
  have "run_accounts (bm_metrics b) (produce_next r)"
    using one_run(5) [OF next_target.prems next_target.hyps(1)] next_target.hyps(2)
    by (auto simp: produce_next_def batch_defs split: list.splits)
  then show ?case by (rule batch_inv_put [OF next_target.prems next_target.hyps(1)])
next
  case (producer_add b as r bs p m)
  show ?case by (rule batch_inv_put [OF producer_add.prems producer_add.hyps(1)
      produce_accounts [OF one_run(5) [OF producer_add.prems producer_add.hyps(1)] producer_add.hyps(2)]])
next
  case (look_up b as r bs t exists)
  have "run_accounts (bm_metrics b) (examine exists t r)"
    using one_run(5) [OF look_up.prems look_up.hyps(1)] look_up.hyps(2)
    by (auto simp: examine_def batch_defs split: option.splits bool.splits)
  then show ?case by (rule batch_inv_put [OF look_up.prems look_up.hyps(1)])
next
  case (send b as r bs t)
  show ?case by (rule batch_inv_put [OF send.prems send.hyps(1)])
      (use one_run(5) [OF send.prems send.hyps(1)] send.hyps(2) in \<open>auto simp: batch_defs\<close>)
next
  case (cancel b as r bs t)
  show ?case unfolding send_cancelled_def by (rule batch_inv_put [OF cancel.prems cancel.hyps(1)])
      (use one_run(5) [OF cancel.prems cancel.hyps(1)] cancel.hyps(2) in \<open>auto simp: batch_defs\<close>)
next
  case (take_job b as r bs t ts)
  show ?case by (rule batch_inv_put [OF take_job.prems take_job.hyps(1)])
      (use one_run(5) [OF take_job.prems take_job.hyps(1)] take_job.hyps in
        \<open>auto simp: batch_defs cong: producer.case_cong\<close>)
next
  case (work_on b as r bs xs w ys other handler etag w' m)
  show ?case by (rule batch_inv_put [OF work_on.prems work_on.hyps(1)
      work_accounts [OF one_run(5) [OF work_on.prems work_on.hyps(1)] work_on.hyps(2,3)]])
next
  case (end_run b as r bs)
  then show ?case using one_run [OF end_run.prems end_run.hyps(1)] by (auto simp: batch_inv_def batch_defs)
next
  case (release b ss ts)
  then show ?case using one_stage [OF release.prems release.hyps(1)] by (auto simp: batch_inv_def)
qed (auto simp: batch_inv_def)

lemma batch_reachable: "batch_step\<^sup>*\<^sup>* NewManager b \<Longrightarrow> batch_inv b"
  by (induction rule: rtranclp_induct) (use batch_step_inv in \<open>auto simp: batch_inv_def NewManager_def\<close>)

text \<open>C30: Whoever calls \<^verbatim>\<open>Run\<close>, and however producer and workers are scheduled, one run is in progress at
  most. At every moment the targets in flight are those in its channel, with its workers and being sent;
  every scheduled target is completed, failed or in flight, where a target whose outcome is recorded
  still counts as in flight until the worker's second add, and one between the two adds of the producer
  counts as scheduled only. The channel never fills up, and not more than eight requests are made at once.
  A run that has drained its channel without being cancelled has accounted for every target.\<close>

theorem batch_load_accounts:
  assumes "batch_step\<^sup>*\<^sup>* NewManager b"
  shows "length (bm_runs b) \<le> 1 \<and>
    InFlight (bm_metrics b) = sum_list (map (\<lambda>r. int (pending r)) (bm_runs b)) \<and>
    TargetsScheduled (bm_metrics b) + sum_list (map (\<lambda>r. int (half_done r)) (bm_runs b)) =
      TargetsCompleted (bm_metrics b) + TargetsFailed (bm_metrics b) + InFlight (bm_metrics b)
      + sum_list (map (\<lambda>r. int (half_scheduled r)) (bm_runs b)) \<and>
    list_all (\<lambda>r. length (br_jobs r) < defaultQueueSize \<and> length (br_busy r) \<le> 8) (bm_runs b) \<and>
    list_all (\<lambda>r. br_producer r = Drained \<and> \<not> br_cancelled r \<longrightarrow> batch_counted r (bm_metrics b) = int (br_count r)) (bm_runs b)"
proof -
  have inv: "batch_inv b" by (rule batch_reachable [OF assms])
  show ?thesis
  proof (cases "bm_runs b")
    case (Cons r rs)
    have i: "rs = []" "run_accounts (bm_metrics b) r" using one_run [OF inv, of "[]" r rs] Cons by auto
    then have "br_producer r = Drained \<and> \<not> br_cancelled r \<longrightarrow> batch_counted r (bm_metrics b) = int (br_count r)"
      by (auto simp: run_accounts_def undecided_def)
    then show ?thesis using i Cons by (auto simp: run_accounts_def defaultQueueSize_def)
  qed (use inv in \<open>auto simp: batch_inv_def\<close>)
qed

text \<open>A run with one target that is scheduled and not yet in flight.\<close>

definition launching :: batch_manager where
  "launching = (let m0 = (bm_metrics NewManager)\<lparr>IsRunning := 1, LastStartedAt := 5, TargetsTotal := 1\<rparr> in
     NewManager\<lparr>bm_running := True, bm_metrics := m0\<lparr>TargetsScheduled := 1\<rparr>,
       bm_runs := [\<lparr>br_targets = [], br_producer = Launching (''/gallery/1'', ''full''), br_jobs = [], br_busy = [],
         br_max = 4, br_cancelled = False, br_count = 1, br_errors = 0, br_start = m0\<rparr>]\<rparr>)"

lemma launching_reached: "batch_step\<^sup>*\<^sup>* NewManager launching"
proof -
  let ?t = "(''/gallery/1'', ''full'')"
  let ?m0 = "bm_metrics NewManager" let ?m1 = "?m0\<lparr>IsRunning := 1\<rparr>" let ?m2 = "?m1\<lparr>LastStartedAt := 5\<rparr>"
  let ?m3 = "?m2\<lparr>TargetsTotal := 1\<rparr>"
  let ?st = "\<lambda>ss m. NewManager\<lparr>bm_running := True, bm_stages := ss, bm_metrics := m\<rparr>"
  let ?run = "\<lambda>ts p m. NewManager\<lparr>bm_running := True, bm_metrics := m, bm_runs := [\<lparr>br_targets = ts, br_producer = p,
      br_jobs = [], br_busy = [], br_max = 4, br_cancelled = False, br_count = 1, br_errors = 0, br_start = ?m3\<rparr>]\<rparr>"
  note defs = NewManager_def put_run_def
  have 1: "batch_step NewManager (?st [Entered] ?m0)"
    using batch_step.begin_run [of NewManager None] by (simp add: Run_begin_def defs)
  have 2: "batch_step (?st [Entered] ?m0) (?st [Marked] ?m1)"
    using batch_step.stores [of "?st [Entered] ?m0" "[]" Entered "[]" 5] by (simp add: defs)
  have 3: "batch_step (?st [Marked] ?m1) (?st [Asking] ?m2)"
    using batch_step.stores [of "?st [Marked] ?m1" "[]" Marked "[]" 5] by (simp add: defs)
  have 4: "batch_step (?st [Asking] ?m2) (?run [?t] Next ?m3)"
    using batch_step.targets [of "?st [Asking] ?m2" "[]" "[]" 4 "[?t]"] by (simp add: defs Run_targets_def batch_workers_def Let_def)
  have 5: "batch_step (?run [?t] Next ?m3) (?run [] (Examine ?t) ?m3)"
    using batch_step.next_target [of "?run [?t] Next ?m3" "[]" _ "[]"]
    by (simp add: defs produce_next_def skip_target_def throttle_def defaultQueueSize_def)
  have 6: "batch_step (?run [] (Examine ?t) ?m3) (?run [] (Scheduling ?t) ?m3)"
    using batch_step.look_up [of "?run [] (Examine ?t) ?m3" "[]" _ "[]" ?t "Some False"] by (simp add: defs examine_def)
  have 7: "batch_step (?run [] (Scheduling ?t) ?m3) launching"
    using batch_step.producer_add [of "?run [] (Scheduling ?t) ?m3" "[]" _ "[]" "Launching ?t" "?m3\<lparr>TargetsScheduled := 1\<rparr>"]
    by (simp add: defs launching_def Let_def)
  from 1 2 3 4 5 6 7 show ?thesis by (meson r_into_rtranclp rtranclp_trans)
qed

theorem batch_load_accounts_witness:
  "batch_step\<^sup>*\<^sup>* NewManager launching \<and> InFlight (bm_metrics launching) = 0 \<and>
   TargetsScheduled (bm_metrics launching) = InFlight (bm_metrics launching) + 1"
  using batch_load_accounts [OF launching_reached] launching_reached
  by (simp add: launching_def Let_def NewManager_def pending_def sending_def half_done_def half_scheduled_def)

text \<open>What is loaded under a key is looked up under the same key: for the routes and variants of the
  targets the request of a worker has the key that the producer examined.\<close>

lemma batch_key_matches:
  assumes "plain_route p" "plain_version e" "v = NormalizedVariant p ''true'' v" "v \<noteq> ''full''"
  shows "\<exists>r. internal_request other e p v = Some r \<and> request_key r = batch_key e (p, v)"
proof -
  have "v \<noteq> []" using assms(3) by (auto simp: NormalizedVariant_def split: route_kind.splits if_splits)
  then show ?thesis
    using plain_url [OF assms(1,2)] assms(3)
    by (auto simp: internal_request_def request_key_def batch_key_def NewCacheKeyForRequest_def NewCacheKeyForPreload_def
        header_get_def put_header_def InternalPreloadHeader_def)
qed

end
