(* ===== verification/Log_Files.thy ===== *)
theory Log_Files
  imports Scheduler_Correct Go_Path
begin

text \<open>
  The log files (\<^verbatim>\<open>internal/log/rollover.go, retention.go, logger.go\<close>): when the next file is due, changing to a
  new file, deleting old ones, and reloading the settings.  Times are read in UTC, as in the scheduler.
\<close>

section \<open>The next rollover\<close>

definition civil_day :: "int \<Rightarrow> int" where
  "civil_day t = t div Day + epoch_days"

text \<open>\<^verbatim>\<open>time.Date\<close> of a day number at midnight.\<close>

definition midnight :: "int \<Rightarrow> int" where
  "midnight d = (d - epoch_days) * Day"

text \<open>The first of January 1970 was a Thursday; Sunday is zero.\<close>

definition Weekday :: "int \<Rightarrow> int" where
  "Weekday t = (t div Day + 4) mod 7"

definition calculateNextRolloverTime :: "string \<Rightarrow> int \<Rightarrow> int" where
  "calculateNextRolloverTime rollover now =
     (if rollover = ''daily'' then midnight (civil_day now + 1)
      else if rollover = ''weekly'' then
        (let daysUntilMonday = (8 - Weekday now) mod 7
         in midnight (civil_day now + (if daysUntilMonday = 0 then 7 else daysUntilMonday)))
      else if rollover = ''monthly'' then midnight (days_before_month (month_of_day (civil_day now) + 1))
      else midnight (civil_day now + 1))"

definition rollover_mode :: "string \<Rightarrow> mode" where
  "rollover_mode rollover =
     (if rollover = ''daily'' then Daily else if rollover = ''weekly'' then Weekly
      else if rollover = ''monthly'' then Monthly else Daily)"

section \<open>The month of a day\<close>

lemma days_bounds_lin:
  fixes a b c e k m y :: int
  assumes "12 * y + k = m - 2" "0 \<le> k" "k \<le> 11" "4 * a \<le> y" "y \<le> 4 * a + 3" "100 * b \<le> y" "y \<le> 100 * b + 99"
    "400 * c \<le> y" "y \<le> 400 * c + 399" "5 * e \<le> 153 * k + 2" "153 * k + 2 \<le> 5 * e + 4"
  shows "146097 * (m - 2) - 10308 \<le> 4800 * (365 * y + a - b + c + e)"
    "4800 * (365 * y + a - b + c + e) \<le> 146097 * (m - 2) + 15285"
proof -
  have m: "m = 2 + 12 * y + k" using assms(1) by simp
  show "146097 * (m - 2) - 10308 \<le> 4800 * (365 * y + a - b + c + e)"
    unfolding m using assms(2-) by (simp add: algebra_simps)
  show "4800 * (365 * y + a - b + c + e) \<le> 146097 * (m - 2) + 15285"
    unfolding m using assms(2-) by (simp add: algebra_simps)
qed

lemma days_bounds:
  "146097 * (m - 2) - 10308 \<le> 4800 * days_before_month m" "4800 * days_before_month m \<le> 146097 * (m - 2) + 15285"
proof -
  define y k where "y = (m - 2) div 12" and "k = (m - 2) mod 12"
  have yk: "12 * y + k = m - 2" "0 \<le> k" "k \<le> 11" by (auto simp: y_def k_def)
  have D: "days_before_month m = 365 * y + y div 4 - y div 100 + y div 400 + (153 * k + 2) div 5"
    by (simp add: days_before_month_def march_days_def Let_def y_def k_def)
  have d: "4 * (y div 4) \<le> y" "y \<le> 4 * (y div 4) + 3" "100 * (y div 100) \<le> y" "y \<le> 100 * (y div 100) + 99"
    "400 * (y div 400) \<le> y" "y \<le> 400 * (y div 400) + 399" "5 * ((153 * k + 2) div 5) \<le> 153 * k + 2"
    "153 * k + 2 \<le> 5 * ((153 * k + 2) div 5) + 4" by linarith+
  show "146097 * (m - 2) - 10308 \<le> 4800 * days_before_month m" "4800 * days_before_month m \<le> 146097 * (m - 2) + 15285"
    unfolding D by (rule days_bounds_lin [OF yk d])+
qed

lemma days_before_month_less: "m < m' \<Longrightarrow> days_before_month m < days_before_month m'"
  for m m' :: int
proof (induction m' rule: int_gr_induct [of m])
  case (step i) then show ?case using days_before_month_step [of i] by linarith
qed (use days_before_month_step [of m] in linarith)

lemma month_back_spec:
  "days_before_month (m - int n) \<le> d \<Longrightarrow> d < days_before_month (m + 1) \<Longrightarrow>
     days_before_month (month_back n m d) \<le> d \<and> d < days_before_month (month_back n m d + 1)"
proof (induction n arbitrary: m)
  case (Suc n)
  then show ?case using Suc.IH [of "m - 1"] by (simp add: algebra_simps)
qed simp

lemma month_of_day_spec:
  "days_before_month (month_of_day d) \<le> d" "d < days_before_month (month_of_day d + 1)"
proof -
  define q where "q = d * 4800 div 146097"
  have e: "146097 * q \<le> d * 4800" "d * 4800 < 146097 * q + 146097" unfolding q_def by linarith+
  let ?m = "q + 5"
  have "4800 * days_before_month (?m - 8) \<le> 4800 * d" using days_bounds(2) [of "?m - 8"] e by (simp add: algebra_simps)
  moreover have "4800 * d < 4800 * days_before_month (?m + 1)" using days_bounds(1) [of "?m + 1"] e by (simp add: algebra_simps)
  ultimately show "days_before_month (month_of_day d) \<le> d" "d < days_before_month (month_of_day d + 1)"
    using month_back_spec [of ?m 8 d] by (auto simp: month_of_day_def q_def)
qed

lemma month_of_first: "month_of_day (days_before_month m) = m"
  using month_of_day_spec [of "days_before_month m"] days_before_month_less
  by (metis linorder_not_less linorder_neqE_linordered_idom zless_add1_eq less_le_not_le)

lemma Day_nonzero [simp]: "Day \<noteq> 0"
  using Day_pos by linarith

section \<open>Periods\<close>

text \<open>The beginnings of the periods: every midnight, the midnights to a Monday, those to the first of a
  month.\<close>

definition period_start :: "string \<Rightarrow> int \<Rightarrow> bool" where
  "period_start rollover t \<longleftrightarrow> t mod Day = 0 \<and>
     (rollover = ''weekly'' \<longrightarrow> Weekday t = 1) \<and>
     (rollover = ''monthly'' \<longrightarrow> civil_day t \<in> range days_before_month)"

lemma midnight_simps [simp]: "midnight d mod Day = 0" "civil_day (midnight d) = d" "midnight d div Day = d - epoch_days"
  by (simp_all add: midnight_def civil_day_def)

lemma midnight_less: "midnight d < midnight d' \<longleftrightarrow> d < d'"
  by (simp add: midnight_def)

lemma now_between: "midnight (civil_day t) \<le> t" "t < midnight (civil_day t + 1)"
proof -
  have t: "t div Day * Day + t mod Day = t" "0 \<le> t mod Day" "t mod Day < Day" by simp_all
  have "midnight (civil_day t) = t div Day * Day" by (simp add: midnight_def civil_day_def)
  then show "midnight (civil_day t) \<le> t" using t by linarith
  have "midnight (civil_day t + 1) = t div Day * Day + Day" by (simp add: midnight_def civil_day_def algebra_simps)
  then show "t < midnight (civil_day t + 1)" using t by linarith
qed

lemma period_midnight: "period_start p t \<Longrightarrow> t = midnight (civil_day t)"
  by (simp add: period_start_def midnight_def civil_day_def) (metis div_mult_mod_eq add.right_neutral)

lemma midnight_eq: "t mod Day = 0 \<Longrightarrow> midnight (civil_day t) = t"
  by (simp add: midnight_def civil_day_def mod_0_imp_dvd)

lemma Weekday_midnight: "Weekday (midnight d) = (d - epoch_days + 4) mod 7"
  by (simp add: Weekday_def)

lemma Weekday_civil: "Weekday t = (civil_day t - epoch_days + 4) mod 7"
  by (simp add: Weekday_def civil_day_def)

text \<open>The day numbers on which a period begins.\<close>

definition start_day :: "string \<Rightarrow> int \<Rightarrow> bool" where
  "start_day p d \<longleftrightarrow> (p = ''weekly'' \<longrightarrow> (d - epoch_days + 4) mod 7 = 1) \<and> (p = ''monthly'' \<longrightarrow> d \<in> range days_before_month)"

lemma period_start_midnight: "period_start p (midnight d) \<longleftrightarrow> start_day p d"
  by (simp add: period_start_def start_day_def Weekday_midnight)

definition until_monday :: "int \<Rightarrow> int" where
  "until_monday w = (if (8 - w) mod 7 = 0 then 7 else (8 - w) mod 7)"

lemma until_monday_spec:
  "0 < until_monday (x mod 7)" "(x + until_monday (x mod 7)) mod 7 = 1"
  "(x + y) mod 7 = 1 \<Longrightarrow> 0 < y \<Longrightarrow> until_monday (x mod 7) \<le> y"
  unfolding until_monday_def by presburger+

lemma next_day: "\<exists>d. calculateNextRolloverTime p now = midnight d \<and> start_day p d \<and> civil_day now < d \<and>
    (\<forall>e. start_day p e \<and> civil_day now < e \<longrightarrow> d \<le> e)"
proof -
  let ?n = "civil_day now"
  consider (weekly) "p = ''weekly''" | (monthly) "p = ''monthly''" | (daily) "p \<noteq> ''weekly''" "p \<noteq> ''monthly''" by blast
  then show ?thesis
  proof cases
    case weekly
    let ?x = "?n - epoch_days + 4"
    define d where "d = ?n + until_monday (?x mod 7)"
    have nxt: "calculateNextRolloverTime p now = midnight d"
      using weekly by (simp add: calculateNextRolloverTime_def Weekday_civil d_def until_monday_def Let_def)
    have "d \<le> e" if "start_day p e" "?n < e" for e
      using until_monday_spec(3) [of ?x "e - ?n"] that weekly by (simp add: start_day_def d_def algebra_simps)
    moreover have "start_day p d" "?n < d"
      using until_monday_spec(1,2) [of ?x] weekly by (simp_all add: start_day_def d_def algebra_simps)
    ultimately show ?thesis using nxt by blast
  next
    case monthly
    let ?m = "month_of_day ?n"
    have "days_before_month (?m + 1) \<le> days_before_month k" if "?n < days_before_month k" for k
    proof -
      have "?m < k" using that month_of_day_spec(1) [of ?n] days_before_month_less [of k ?m] by (cases "?m < k") (auto simp: not_less le_less)
      then show ?thesis using days_before_month_less [of "?m + 1" k] by (cases "?m + 1 = k") auto
    qed
    then show ?thesis using monthly month_of_day_spec(2) [of ?n]
      by (intro exI [of _ "days_before_month (?m + 1)"]) (auto simp: calculateNextRolloverTime_def start_day_def)
  next
    case daily
    then show ?thesis by (intro exI [of _ "?n + 1"]) (auto simp: calculateNextRolloverTime_def start_day_def)
  qed
qed

lemma AddDate_midnight:
  "AddDate (midnight d) 0 n = midnight (d + n)"
  "AddDate (midnight (days_before_month m)) n 0 = midnight (days_before_month (m + n))"
  by (simp_all add: AddDate_def Let_def month_of_first) (simp_all add: midnight_def)

lemma calculateNextRun_midnight:
  "calculateNextRun later (midnight d) Daily n = midnight (d + n)"
  "calculateNextRun later (midnight d) Weekly n = midnight (d + 7 * n)"
  "calculateNextRun later (midnight (days_before_month m)) Monthly n = midnight (days_before_month (m + n))"
  by (simp_all add: calculateNextRun_def AddDate_midnight(2)) (simp_all add: midnight_def algebra_simps)

lemma following_run:
  assumes "start_day p d"
  shows "calculateNextRun later (midnight d) (rollover_mode p) 0 = midnight d \<and>
    calculateNextRun later (midnight d) (rollover_mode p) (int (Suc k)) =
      calculateNextRolloverTime p (calculateNextRun later (midnight d) (rollover_mode p) (int k))"
proof -
  consider (weekly) "p = ''weekly''" | (monthly) "p = ''monthly''" | (daily) "p \<noteq> ''weekly''" "p \<noteq> ''monthly''" by blast
  then show ?thesis
  proof cases
    case weekly
    then have "(d - epoch_days + 4) mod 7 = 1" using assms by (simp add: start_day_def)
    then have "(d + 7 * int k - epoch_days + 4) mod 7 = 1" by presburger
    then have "Weekday (midnight (d + 7 * int k)) = 1" by (simp only: Weekday_midnight)
    then show ?thesis using weekly
      by (simp add: calculateNextRun_midnight rollover_mode_def calculateNextRolloverTime_def Let_def)
        (simp add: algebra_simps)
  next
    case monthly
    then obtain m where m: "d = days_before_month m" using assms by (auto simp: start_day_def)
    then show ?thesis using monthly
      by (simp add: calculateNextRun_midnight rollover_mode_def calculateNextRolloverTime_def month_of_first)
        (simp add: algebra_simps)
  next
    case daily
    then have "rollover_mode p = Daily" "calculateNextRolloverTime p t = midnight (civil_day t + 1)" for t
      by (simp_all add: rollover_mode_def calculateNextRolloverTime_def)
    then show ?thesis by (simp add: calculateNextRun_midnight) (simp add: algebra_simps)
  qed
qed

lemma first_period:
  assumes "\<And>e. start_day p e \<Longrightarrow> civil_day now < e \<Longrightarrow> d \<le> e" "period_start p t" "now < t"
  shows "midnight d \<le> t"
proof -
  have t: "t = midnight (civil_day t)" using assms(2) midnight_eq by (simp add: period_start_def)
  have "start_day p (civil_day t)" using assms(2) t period_start_midnight by metis
  moreover have "civil_day now < civil_day t"
  proof (rule ccontr)
    assume "\<not> civil_day now < civil_day t"
    then have "midnight (civil_day t) \<le> midnight (civil_day now)" by (simp add: midnight_def)
    then show False using now_between(1) [of now] t assms(3) by linarith
  qed
  ultimately have "midnight d \<le> midnight (civil_day t)" using assms(1) by (simp add: midnight_def)
  then show ?thesis using t by simp
qed


end
