(* ===== verification/Logger.thy ===== *)
theory Logger
  imports Log_Files
begin

text \<open>
  The logger (\<^verbatim>\<open>internal/log/logger.go, rollover.go, retention.go\<close>): the file it owns, the handler that
  writes to it, the change to a new file, the deletion of old files and the reload of the settings.  An open file is
  a number, so that the handler and the logger can share one; the directories are part of the state.
\<close>

section \<open>The files\<close>

datatype log_level = LDebug | LInfo | LWarn | LError

datatype log_error = ErrInvalidLevel string | ErrLogDir | ErrOpenLog | ErrCloseLog | ErrFindLogs
  | ErrScheduleRollover sched_error | ErrScheduleRetention sched_error

record log_file =
  lf_name :: string
  lf_mod :: int
  lf_dir :: bool
  lf_info :: bool  \<comment> \<open>\<^verbatim>\<open>entry.Info\<close> succeeds\<close>

record log_world =
  lw_fs :: "string \<Rightarrow> log_file list option"
  lw_next :: nat
  lw_open :: "nat set"

text \<open>What the operating system answers to one operation.\<close>

record log_os =
  lo_mkdir :: bool
  lo_open :: bool
  lo_close :: bool
  lo_rm :: "string \<Rightarrow> bool"
  lo_now :: int
  lo_stamp :: string  \<comment> \<open>the formatted time\<close>

definition log_mkdir :: "log_os \<Rightarrow> string \<Rightarrow> log_world \<Rightarrow> bool \<times> log_world" where
  "log_mkdir os dir w =
     (if lw_fs w dir \<noteq> None then (True, w)
      else if lo_mkdir os then (True, w\<lparr>lw_fs := (lw_fs w)(dir := Some [])\<rparr>)
      else (False, w))"

text \<open>\<^verbatim>\<open>os.OpenFile\<close> for appending, creating the file.\<close>

definition log_open :: "log_os \<Rightarrow> string \<Rightarrow> string \<Rightarrow> log_world \<Rightarrow> nat option \<times> log_world" where
  "log_open os dir name w = (case lw_fs w dir of
       None \<Rightarrow> (None, w)
     | Some es \<Rightarrow>
         if \<not> lo_open os then (None, w)
         else (Some (lw_next w),
               w\<lparr>lw_fs := (lw_fs w)(dir := Some (if name \<in> lf_name ` set es then es
                     else es @ [\<lparr>lf_name = name, lf_mod = lo_now os, lf_dir = False, lf_info = True\<rparr>])),
                 lw_next := lw_next w + 1, lw_open := insert (lw_next w) (lw_open w)\<rparr>))"

definition log_close :: "log_os \<Rightarrow> nat \<Rightarrow> log_world \<Rightarrow> bool \<times> log_world" where
  "log_close os h w = (h \<in> lw_open w \<and> lo_close os, w\<lparr>lw_open := lw_open w - {h}\<rparr>)"

definition log_remove :: "log_os \<Rightarrow> string \<Rightarrow> string \<Rightarrow> log_world \<Rightarrow> log_world" where
  "log_remove os dir name w =
     (if lo_rm os (Join2 dir name)
      then w\<lparr>lw_fs := (lw_fs w)(dir := map_option (filter (\<lambda>e. lf_name e \<noteq> name)) (lw_fs w dir))\<rparr>
      else w)"

section \<open>Retention\<close>

text \<open>\<^verbatim>\<open>filepath.Ext\<close>.\<close>

definition Ext :: "string \<Rightarrow> string" where
  "Ext p = (let r = rev p; e = takeWhile (\<lambda>c. c \<noteq> CHR ''.'' \<and> c \<noteq> CHR ''/'') r in
     (case drop (length e) r of [] \<Rightarrow> [] | c # _ \<Rightarrow> if c = CHR ''.'' then CHR ''.'' # rev e else []))"

definition isLogFile :: "log_file \<Rightarrow> bool" where
  "isLogFile e \<longleftrightarrow> \<not> lf_dir e \<and> 5 \<le> length (lf_name e) \<and> take 5 (lf_name e) = ''sfpg-'' \<and>
     Ext (lf_name e) = ''.log'' \<and> lf_info e"

definition findLogFiles :: "string \<Rightarrow> log_world \<Rightarrow> log_file list option" where
  "findLogFiles logDir w = map_option (filter isLogFile) (lw_fs w logDir)"

text \<open>\<^verbatim>\<open>sort.Slice\<close> is not stable: the order \<^term>\<open>srt\<close> it produces is an argument.  A negative count below the
  number of files is an index out of range.\<close>

definition CleanupOldLogs ::
  "log_os \<Rightarrow> (log_file list \<Rightarrow> log_file list) \<Rightarrow> string \<Rightarrow> string \<Rightarrow> int \<Rightarrow> log_world \<Rightarrow>
     ((log_error + unit) \<times> log_world) option" where
  "CleanupOldLogs os srt logDir activeFilePath retentionCount w = (case findLogFiles logDir w of
       None \<Rightarrow> Some (Inl ErrFindLogs, w)
     | Some logFiles \<Rightarrow>
         let filesToConsider = srt (filter (\<lambda>e. Join2 logDir (lf_name e) \<noteq> activeFilePath) logFiles) in
         if retentionCount < int (length filesToConsider)
         then if retentionCount < 0 then None
              else Some (Inr (), fold (\<lambda>e. log_remove os logDir (lf_name e)) (drop (nat retentionCount) filesToConsider) w)
         else Some (Inr (), w))"

section \<open>The logger\<close>

record logger =
  lg_file :: nat
  lg_filePath :: string
  lg_fileName :: string
  lg_dir :: string
  lg_level :: log_level
  lg_logger :: "nat \<times> log_level"  \<comment> \<open>the handler: the file it writes to and its level\<close>
  lg_rootDir :: string
  lg_currentLogLevel :: log_level
  lg_currentLogDir :: string
  lg_rolloverTaskID :: string
  lg_retentionTaskID :: string

definition bootstrap_logger :: "string \<Rightarrow> nat \<Rightarrow> string \<Rightarrow> string \<Rightarrow> string \<Rightarrow> logger" where
  "bootstrap_logger rootDir h path name dir =
     \<lparr>lg_file = h, lg_filePath = path, lg_fileName = name, lg_dir = dir, lg_level = LDebug, lg_logger = (h, LDebug),
      lg_rootDir = rootDir, lg_currentLogLevel = LDebug, lg_currentLogDir = dir, lg_rolloverTaskID = '''',
      lg_retentionTaskID = ''''\<rparr>"

text \<open>\<^term>\<open>env\<close> is the value of \<^verbatim>\<open>SEPG_LOG_FILE\<close>, \<^term>\<open>os1\<close> and \<^term>\<open>os2\<close> the answers to the attempt to
  continue that file and to the attempt to create a new one.\<close>

definition NewBootstrapLogger ::
  "log_os \<Rightarrow> log_os \<Rightarrow> string \<Rightarrow> string \<Rightarrow> log_world \<Rightarrow> (log_error + logger) \<times> log_world" where
  "NewBootstrapLogger os1 os2 env rootDir w =
     (let inherited = Clean (TrimSpace env);
          (f, w1) = (if TrimSpace env = '''' then (None, w) else log_open os1 (Dir inherited) (Base inherited) w) in
      case f of
        Some h \<Rightarrow> (Inr (bootstrap_logger rootDir h inherited (Base inherited) (Dir inherited)), w1)
      | None \<Rightarrow>
          let logsDir = Clean (Join2 rootDir ''logs''); (ok, w2) = log_mkdir os2 logsDir w1 in
          if \<not> ok then (Inl ErrLogDir, w2)
          else
            let name = ''sfpg-'' @ lo_stamp os2 @ ''.log'' in
            (case log_open os2 logsDir name w2 of
               (None, w3) \<Rightarrow> (Inl ErrOpenLog, w3)
             | (Some h, w3) \<Rightarrow> (Inr (bootstrap_logger rootDir h (Join2 logsDir name) name logsDir), w3)))"

text \<open>\<^verbatim>\<open>RolloverTask.Run\<close>; \<^term>\<open>None\<close> when the clean-up panics.\<close>

definition RolloverTask_Run ::
  "log_os \<Rightarrow> (log_file list \<Rightarrow> log_file list) \<Rightarrow> int \<Rightarrow> logger \<Rightarrow> log_world \<Rightarrow>
     ((log_error + unit) \<times> logger \<times> log_world) option" where
  "RolloverTask_Run os srt logRetentionCount l w =
     (let w1 = snd (log_close os (lg_file l) w); name = ''sfpg-'' @ lo_stamp os @ ''.log'' in
      case log_open os (lg_dir l) name w1 of
        (None, w2) \<Rightarrow> Some (Inl ErrOpenLog, l, w2)
      | (Some h, w2) \<Rightarrow>
          let path = Join2 (lg_dir l) name;
              l' = l\<lparr>lg_file := h, lg_filePath := path, lg_fileName := name, lg_logger := (h, lg_level l)\<rparr>
          in (case CleanupOldLogs os srt (lg_dir l) path logRetentionCount w2 of
                None \<Rightarrow> None
              | Some (_, w3) \<Rightarrow> Some (Inr (), l', w3)))"

definition RetentionTask_Run ::
  "log_os \<Rightarrow> (log_file list \<Rightarrow> log_file list) \<Rightarrow> int \<Rightarrow> logger \<Rightarrow> log_world \<Rightarrow>
     ((log_error + unit) \<times> log_world) option" where
  "RetentionTask_Run os srt logRetentionCount l w = CleanupOldLogs os srt (lg_dir l) (lg_filePath l) logRetentionCount w"

definition Logger_Shutdown :: "log_os \<Rightarrow> logger \<Rightarrow> log_world \<Rightarrow> (log_error + unit) \<times> log_world" where
  "Logger_Shutdown os l w = (case log_close os (lg_file l) w of (ok, w') \<Rightarrow> (if ok then Inr () else Inl ErrCloseLog, w'))"

section \<open>Scheduling\<close>

text \<open>What the scheduler runs for an identifier.\<close>

datatype log_task = Rollover string int | Retention int

definition remove_old :: "string \<Rightarrow> scheduler \<Rightarrow> scheduler" where
  "remove_old taskID s = (if taskID = '''' then s else snd (RemoveTask taskID s))"

definition scheduleRollover ::
  "int \<Rightarrow> logger \<Rightarrow> string \<Rightarrow> int \<Rightarrow> scheduler \<Rightarrow> (log_error + string \<times> log_task) \<times> scheduler" where
  "scheduleRollover now l logRollover logRetentionCount s =
     (case AddTask False (rollover_mode logRollover) (calculateNextRolloverTime logRollover now)
             (remove_old (lg_rolloverTaskID l) s) of
        (Inl e, s') \<Rightarrow> (Inl (ErrScheduleRollover e), s')
      | (Inr i, s') \<Rightarrow> (Inr (i, Rollover logRollover logRetentionCount), s'))"

definition scheduleRetentionCleanup ::
  "int \<Rightarrow> logger \<Rightarrow> int \<Rightarrow> scheduler \<Rightarrow> (log_error + string \<times> log_task) \<times> scheduler" where
  "scheduleRetentionCleanup now l logRetentionCount s =
     (case AddTask False Daily (midnight (civil_day now + 1)) (remove_old (lg_retentionTaskID l) s) of
        (Inl e, s') \<Rightarrow> (Inl (ErrScheduleRetention e), s')
      | (Inr i, s') \<Rightarrow> (Inr (i, Retention logRetentionCount), s'))"

text \<open>The two guarded calls at the end of \<^verbatim>\<open>ReloadFromConfig\<close>; \<^term>\<open>ts\<close> are the tasks added so far.\<close>

definition schedule_missing ::
  "int \<Rightarrow> string \<Rightarrow> int \<Rightarrow> logger \<Rightarrow> scheduler \<Rightarrow> (string \<times> log_task) list \<Rightarrow>
     (log_error + unit) \<times> logger \<times> scheduler \<times> (string \<times> log_task) list" where
  "schedule_missing now roll ret l s ts =
     (case (if lg_rolloverTaskID l \<noteq> '''' then (Inr None, s)
            else map_prod (map_sum id Some) id (scheduleRollover now l roll ret s)) of
        (Inl e, s1) \<Rightarrow> (Inl e, l, s1, ts)
      | (Inr a, s1) \<Rightarrow>
          let l1 = (case a of None \<Rightarrow> l | Some (i, _) \<Rightarrow> l\<lparr>lg_rolloverTaskID := i\<rparr>);
              ts1 = (case a of None \<Rightarrow> ts | Some t \<Rightarrow> t # ts)
          in (case (if lg_retentionTaskID l1 \<noteq> '''' then (Inr None, s1)
                    else map_prod (map_sum id Some) id (scheduleRetentionCleanup now l1 ret s1)) of
                (Inl e, s2) \<Rightarrow> (Inl e, l1, s2, ts1)
              | (Inr b, s2) \<Rightarrow>
                  (Inr (), case b of None \<Rightarrow> l1 | Some (i, _) \<Rightarrow> l1\<lparr>lg_retentionTaskID := i\<rparr>, s2,
                   case b of None \<Rightarrow> ts1 | Some t \<Rightarrow> t # ts1)))"

section \<open>Reloading the settings\<close>

text \<open>\<^verbatim>\<open>ReloadFromConfig\<close> reads the logger under the read lock, and takes the lock for writing later: what it read
  may be old by then.\<close>

record reload =
  rl_dir :: string
  rl_bootstrapDir :: string
  rl_currentLevel :: log_level
  rl_currentFile :: nat
  rl_level :: log_level

definition parse_log_level :: "string \<Rightarrow> log_level option" where
  "parse_log_level s = (if s = ''debug'' then Some LDebug else if s = ''info'' then Some LInfo
     else if s = ''warn'' then Some LWarn else if s = ''error'' then Some LError else None)"

definition reload_read :: "string \<Rightarrow> string \<Rightarrow> logger \<Rightarrow> log_error + reload" where
  "reload_read logDirectory logLevel l = (case parse_log_level logLevel of
       None \<Rightarrow> Inl (ErrInvalidLevel logLevel)
     | Some lv \<Rightarrow> Inr \<lparr>rl_dir = Clean (if rooted logDirectory then logDirectory else Join2 (lg_rootDir l) logDirectory),
         rl_bootstrapDir = Clean (lg_dir l), rl_currentLevel = lg_level l, rl_currentFile = lg_file l, rl_level = lv\<rparr>)"

definition schedule_if ::
  "int \<Rightarrow> string \<Rightarrow> int \<Rightarrow> logger \<Rightarrow> scheduler option \<Rightarrow> (string \<times> log_task) list \<Rightarrow>
     (log_error + unit) \<times> logger \<times> scheduler option \<times> (string \<times> log_task) list" where
  "schedule_if now roll ret l sched ts = (case sched of
       None \<Rightarrow> (Inr (), l, None, ts)
     | Some s \<Rightarrow> (case schedule_missing now roll ret l s ts of (r, l', s', ts') \<Rightarrow> (r, l', Some s', ts')))"

definition reload_apply ::
  "log_os \<Rightarrow> reload \<Rightarrow> string \<Rightarrow> int \<Rightarrow> logger \<Rightarrow> log_world \<Rightarrow> scheduler option \<Rightarrow> (string \<times> log_task) list \<Rightarrow>
     (log_error + unit) \<times> logger \<times> log_world \<times> scheduler option \<times> (string \<times> log_task) list" where
  "reload_apply os r roll ret l w sched ts =
     (if rl_dir r = rl_bootstrapDir r then
        let l1 = (if rl_level r \<noteq> rl_currentLevel r
                  then l\<lparr>lg_level := rl_level r, lg_logger := (rl_currentFile r, rl_level r), lg_currentLogLevel := rl_level r\<rparr>
                  else l)
        in (case schedule_if (lo_now os) roll ret l1 sched ts of (e, l2, s', ts') \<Rightarrow> (e, l2, w, s', ts'))
      else
        let (ok, w1) = log_mkdir os (rl_dir r) w; name = Base (lg_filePath l) in
        if \<not> ok then (Inl ErrLogDir, l, w1, sched, ts)
        else (case log_open os (rl_dir r) name w1 of
          (None, w2) \<Rightarrow> (Inl ErrOpenLog, l, w2, sched, ts)
        | (Some h, w2) \<Rightarrow>
            let w3 = snd (log_close os (lg_file l) w2);
                l1 = l\<lparr>lg_file := h, lg_filePath := Join2 (rl_dir r) name, lg_fileName := name, lg_dir := rl_dir r,
                       lg_level := rl_level r, lg_logger := (h, rl_level r), lg_currentLogLevel := rl_level r,
                       lg_currentLogDir := rl_dir r\<rparr>
            in (case schedule_if (lo_now os) roll ret l1 sched ts of (e, l2, s', ts') \<Rightarrow> (e, l2, w3, s', ts'))))"

text \<open>The calls that run together: reloads between their two critical sections, the tasks added, the shutdown.
  The scheduler takes steps of its own.\<close>

record log_sys =
  ly_log :: logger
  ly_world :: log_world
  ly_sched :: scheduler
  ly_tasks :: "(string \<times> log_task) list"
  ly_reloads :: "(reload \<times> string \<times> int) list"

inductive log_step :: "(log_file list \<Rightarrow> log_file list) \<Rightarrow> log_sys \<Rightarrow> log_sys \<Rightarrow> bool" for srt where
  rollover: "(i, Rollover roll ret) \<in> set (ly_tasks y) \<Longrightarrow>
    RolloverTask_Run os srt ret (ly_log y) (ly_world y) = Some (r, l', w') \<Longrightarrow>
    log_step srt y (y\<lparr>ly_log := l', ly_world := w'\<rparr>)"
| retention: "(i, Retention ret) \<in> set (ly_tasks y) \<Longrightarrow>
    RetentionTask_Run os srt ret (ly_log y) (ly_world y) = Some (r, w') \<Longrightarrow>
    log_step srt y (y\<lparr>ly_world := w'\<rparr>)"
| reload_read: "reload_read logDirectory logLevel (ly_log y) = Inr a \<Longrightarrow>
    log_step srt y (y\<lparr>ly_reloads := (a, roll, ret) # ly_reloads y\<rparr>)"
| reload_apply: "(a, roll, ret) \<in> set (ly_reloads y) \<Longrightarrow>
    reload_apply os a roll ret (ly_log y) (ly_world y) (Some (ly_sched y)) (ly_tasks y) = (e, l', w', Some s', ts') \<Longrightarrow>
    log_step srt y (y\<lparr>ly_log := l', ly_world := w', ly_sched := s', ly_tasks := ts',
      ly_reloads := remove1 (a, roll, ret) (ly_reloads y)\<rparr>)"
| scheduler: "sched_step now (ly_sched y) s' \<Longrightarrow> log_step srt y (y\<lparr>ly_sched := s'\<rparr>)"
| shutdown: "Logger_Shutdown os (ly_log y) (ly_world y) = (r, w') \<Longrightarrow> log_step srt y (y\<lparr>ly_world := w'\<rparr>)"

definition log_start :: "logger \<Rightarrow> log_world \<Rightarrow> scheduler \<Rightarrow> log_sys" where
  "log_start l w s = \<lparr>ly_log = l, ly_world = w, ly_sched = s, ly_tasks = [], ly_reloads = []\<rparr>"

end
