(* ===== verification/Logger_Correct.thy ===== *)
theory Logger_Correct
  imports Logger
begin

text \<open>
  What the logger keeps: the retention deletes the oldest files and no other, one file is open at a time, the tasks
  scheduled first stay, and the two ways in which lines are lost.
\<close>

section \<open>Retention\<close>

definition log_candidate :: "string \<Rightarrow> string \<Rightarrow> log_file \<Rightarrow> bool" where
  "log_candidate dir act e \<longleftrightarrow> isLogFile e \<and> Join2 dir (lf_name e) \<noteq> act"

lemma fold_log_remove:
  assumes "lw_fs w dir = Some es" "\<And>p. lo_rm os p"
  shows "fold (\<lambda>e. log_remove os dir (lf_name e)) ds w =
    w\<lparr>lw_fs := (lw_fs w)(dir \<mapsto> filter (\<lambda>e. lf_name e \<notin> lf_name ` set ds) es)\<rparr>"
  using assms(1)
proof (induction ds arbitrary: w es)
  case Nil
  then show ?case by (simp add: fun_upd_idem)
next
  case (Cons d ds)
  let ?w = "log_remove os dir (lf_name d) w"
  have w: "?w = w\<lparr>lw_fs := (lw_fs w)(dir \<mapsto> filter (\<lambda>e. lf_name e \<noteq> lf_name d) es)\<rparr>"
    using Cons.prems assms(2) by (simp add: log_remove_def)
  then have "lw_fs ?w dir = Some (filter (\<lambda>e. lf_name e \<noteq> lf_name d) es)" by simp
  from Cons.IH [OF this] show ?case
    by (simp add: w cong: if_cong)
qed

text \<open>A list sorted newest first: what follows a position is no newer than what precedes it.\<close>

lemma sorted_drop:
  "sorted_wrt (\<lambda>a b. f b \<le> (f a :: int)) xs \<Longrightarrow> x \<in> set (take n xs) \<Longrightarrow> y \<in> set (drop n xs) \<Longrightarrow> f y \<le> f x"
  using sorted_wrt_append [of "\<lambda>a b. f b \<le> f a" "take n xs" "drop n xs"] by simp

lemma cleanup_removes:
  assumes fs: "lw_fs w dir = Some es" and rm: "\<And>p. lo_rm os p" and n: "0 \<le> n"
  shows "CleanupOldLogs os srt dir act n w = Some (Inr (), w\<lparr>lw_fs := (lw_fs w)(dir \<mapsto>
     filter (\<lambda>e. lf_name e \<notin> lf_name ` set (drop (nat n) (srt (filter (log_candidate dir act) es)))) es)\<rparr>)"
proof -
  let ?c = "srt (filter (log_candidate dir act) es)"
  have P: "(\<lambda>e. isLogFile e \<and> Join2 dir (lf_name e) \<noteq> act) = log_candidate dir act"
    by (auto simp: log_candidate_def)
  have c: "filter (\<lambda>e. Join2 dir (lf_name e) \<noteq> act) (filter isLogFile es) = filter (log_candidate dir act) es"
    by (simp only: filter_filter P)
  show ?thesis
  proof (cases "n < int (length ?c)")
    case True
    then show ?thesis using n by (simp add: CleanupOldLogs_def findLogFiles_def fs c [simplified] fold_log_remove [OF fs rm])
  next
    case False
    then have "drop (nat n) ?c = []" by simp
    then show ?thesis using False fs by (simp add: CleanupOldLogs_def findLogFiles_def c [simplified] fun_upd_idem)
  qed
qed

text \<open>Whatever order the sort gives to files of one age, the clean-up leaves every entry that is not a rolled-over
  log file, the active file included, and of the other log files the newest, as many as the settings say.\<close>

theorem cleanup_keeps_newest:
  assumes "lw_fs w dir = Some es" "\<And>p. lo_rm os p" "0 \<le> n" "distinct (map lf_name es)"
    "mset (srt (filter (log_candidate dir act) es)) = mset (filter (log_candidate dir act) es)"
    "sorted_wrt (\<lambda>a b. lf_mod b \<le> lf_mod a) (srt (filter (log_candidate dir act) es))"
  shows "\<exists>es'. CleanupOldLogs os srt dir act n w = Some (Inr (), w\<lparr>lw_fs := (lw_fs w)(dir \<mapsto> es')\<rparr>) \<and>
    set es' \<subseteq> set es \<and> filter (\<lambda>e. \<not> log_candidate dir act e) es' = filter (\<lambda>e. \<not> log_candidate dir act e) es \<and>
    int (length (filter (log_candidate dir act) es')) = min n (int (length (filter (log_candidate dir act) es))) \<and>
    (\<forall>e \<in> set es'. \<forall>d \<in> set es - set es'. log_candidate dir act e \<longrightarrow> lf_mod d \<le> lf_mod e)"
proof -
  let ?P = "log_candidate dir act"
  let ?s = "srt (filter ?P es)"
  let ?D = "set (drop (nat n) ?s)"
  let ?es = "filter (\<lambda>e. lf_name e \<notin> lf_name ` ?D) es"
  have set_s: "set ?s = set (filter ?P es)" using assms(5) by (metis set_mset_mset)
  have dist: "distinct ?s" using assms(4,5) by (metis distinct_map distinct_filter mset_eq_imp_distinct_iff)
  have cs: "card (set (filter ?P es)) = length ?s" using distinct_card [OF dist] set_s by simp
  have D: "?D \<subseteq> set (filter ?P es)" using set_s set_drop_subset by metis
  have inj: "lf_name e \<in> lf_name ` ?D \<longleftrightarrow> e \<in> ?D" if "e \<in> set es" for e
    using assms(4) D that by (auto simp: distinct_map inj_on_def)
  have es: "?es = filter (\<lambda>e. e \<notin> ?D) es" using inj by (auto intro: filter_cong)
  have kept: "filter ?P ?es = filter (\<lambda>e. e \<notin> ?D) (filter ?P es)" by (simp add: es conj_commute)
  have "length (filter ?P ?es) = card (set (filter ?P es) - ?D)"
    unfolding kept using assms(4) by (subst distinct_card [symmetric]) (auto simp: distinct_map intro: arg_cong [where f = card])
  also have "\<dots> = length ?s - length (drop (nat n) ?s)"
    using dist D by (simp add: card_Diff_subset distinct_card cs del: set_filter)
  finally have len: "int (length (filter ?P ?es)) = min n (int (length (filter ?P es)))"
    using assms(3) mset_eq_length [OF assms(5)] by auto
  have "lf_mod d \<le> lf_mod e" if "e \<in> set ?es" "d \<in> set es - set ?es" "?P e" for e d
  proof -
    have "d \<in> ?D" "e \<in> set ?s" "e \<notin> ?D" using that inj set_s by auto
    moreover have "set ?s = set (take (nat n) ?s) \<union> ?D" by (metis append_take_drop_id set_append)
    ultimately show ?thesis using sorted_drop [OF assms(6), of e "nat n" d] by blast
  qed
  moreover have "filter (\<lambda>e. \<not> ?P e) ?es = filter (\<lambda>e. \<not> ?P e) es" using D by (auto simp: es intro!: filter_cong)
  ultimately show ?thesis using cleanup_removes [OF assms(1-3), of srt act] len by (intro exI [of _ ?es]) auto
qed


definition age_sort :: "log_file list \<Rightarrow> log_file list" where
  "age_sort es = rev (sort_key lf_mod es)"

definition log_dir_example :: "log_file list" where
  "log_dir_example = map (\<lambda>(n, t). \<lparr>lf_name = n, lf_mod = t, lf_dir = False, lf_info = True\<rparr>)
     [(''notes.log'', 1), (''sfpg-a.log'', 4), (''sfpg-b.log'', 2), (''sfpg-c.log'', 9), (''sfpg-d.log'', 3)]"

definition calm_os :: log_os where
  "calm_os = \<lparr>lo_mkdir = True, lo_open = True, lo_close = True, lo_rm = (\<lambda>_. True), lo_now = 0, lo_stamp = ''now''\<rparr>"

lemma log_dir_example_sorted:
  "map lf_name (filter (log_candidate ''/l'' ''/l/sfpg-b.log'') log_dir_example) = [''sfpg-a.log'', ''sfpg-c.log'', ''sfpg-d.log'']"
  by code_simp

lemma cleanup_keeps_newest_witness:
  "\<exists>es'. CleanupOldLogs calm_os age_sort ''/l'' ''/l/sfpg-b.log'' 1
      \<lparr>lw_fs = (\<lambda>_. Some log_dir_example), lw_next = 0, lw_open = {}\<rparr> =
      Some (Inr (), \<lparr>lw_fs = (\<lambda>_. Some log_dir_example)(''/l'' \<mapsto> es'), lw_next = 0, lw_open = {}\<rparr>) \<and>
    int (length (filter (log_candidate ''/l'' ''/l/sfpg-b.log'') es')) = 1"
proof -
  let ?w = "\<lparr>lw_fs = (\<lambda>_. Some log_dir_example), lw_next = 0, lw_open = {}\<rparr>"
  have fs: "lw_fs ?w ''/l'' = Some log_dir_example" and rm: "\<And>p. lo_rm calm_os p" by (simp_all add: calm_os_def)
  have dist: "distinct (map lf_name log_dir_example)" by code_simp
  have m: "mset (age_sort xs) = mset xs" for xs by (simp add: age_sort_def)
  have sorted: "sorted_wrt (\<lambda>a b. lf_mod b \<le> lf_mod a) (age_sort xs)" for xs
    using sorted_sort_key [of lf_mod xs] by (simp add: age_sort_def sorted_wrt_rev sorted_map)
  have len: "length (filter (log_candidate ''/l'' ''/l/sfpg-b.log'') log_dir_example) = 3"
    using arg_cong [OF log_dir_example_sorted, of length] by simp
  show ?thesis
    using cleanup_keeps_newest [where srt = age_sort and act = "''/l/sfpg-b.log''" and n = 1, OF fs rm _ dist m sorted] len
    by auto
qed

section \<open>One open file\<close>

definition rollovers :: "(string \<times> log_task) list \<Rightarrow> (string \<times> log_task) list" where
  "rollovers ts = filter (\<lambda>(i, t). case t of Rollover _ _ \<Rightarrow> True | Retention _ \<Rightarrow> False) ts"

definition retentions :: "(string \<times> log_task) list \<Rightarrow> (string \<times> log_task) list" where
  "retentions ts = filter (\<lambda>(i, t). case t of Rollover _ _ \<Rightarrow> False | Retention _ \<Rightarrow> True) ts"

definition log_ok :: "logger \<Rightarrow> log_world \<Rightarrow> bool" where
  "log_ok l w \<longleftrightarrow> lw_open w \<subseteq> {lg_file l} \<and> lg_file l < lw_next w"

lemma log_remove_simps [simp]: "lw_open (log_remove os d n w) = lw_open w" "lw_next (log_remove os d n w) = lw_next w"
  by (simp_all add: log_remove_def)

lemma fold_remove_simps [simp]:
  "lw_open (fold (\<lambda>e. log_remove os d (lf_name e)) ds w) = lw_open w"
  "lw_next (fold (\<lambda>e. log_remove os d (lf_name e)) ds w) = lw_next w"
  by (induction ds arbitrary: w) simp_all

lemma cleanup_frame:
  "CleanupOldLogs os srt d a n w = Some (r, w') \<Longrightarrow> lw_open w' = lw_open w \<and> lw_next w' = lw_next w"
  by (auto simp: CleanupOldLogs_def Let_def split: option.splits if_splits)

lemma log_open_None: "log_open os d n w = (None, w') \<Longrightarrow> w' = w"
  by (auto simp: log_open_def split: option.splits if_splits)

lemma log_open_Some: "log_open os d n w = (Some h, w') \<Longrightarrow>
    h = lw_next w \<and> lw_next w' = lw_next w + 1 \<and> lw_open w' = insert h (lw_open w)"
  by (auto simp: log_open_def split: option.splits if_splits)

lemma log_mkdir_frame: "log_mkdir os d w = (ok, w') \<Longrightarrow> lw_open w' = lw_open w \<and> lw_next w' = lw_next w"
  by (auto simp: log_mkdir_def split: if_splits)

lemma log_close_simps [simp]:
  "lw_open (snd (log_close os h w)) = lw_open w - {h}" "lw_next (snd (log_close os h w)) = lw_next w"
  by (simp_all add: log_close_def)

lemma RolloverTask_ok:
  assumes "log_ok l w" "RolloverTask_Run os srt n l w = Some (r, l', w')"
  shows "log_ok l' w' \<and> lg_rolloverTaskID l' = lg_rolloverTaskID l \<and> lg_retentionTaskID l' = lg_retentionTaskID l"
proof -
  let ?w = "snd (log_close os (lg_file l) w)"
  let ?n = "''sfpg-'' @ lo_stamp os @ ''.log''"
  obtain h w2 where o: "log_open os (lg_dir l) ?n ?w = (h, w2)" by (cases "log_open os (lg_dir l) ?n ?w")
  show ?thesis
  proof (cases h)
    case None
    with o assms log_open_None [of os "lg_dir l" ?n ?w w2] show ?thesis
      by (auto simp: RolloverTask_Run_def Let_def log_ok_def)
  next
    case (Some k)
    with o log_open_Some [of os "lg_dir l" ?n ?w k w2]
    have k: "k = lw_next w" "lw_next w2 = lw_next w + 1" "lw_open w2 = insert k (lw_open w - {lg_file l})" by auto
    from Some assms(2) o obtain r' where
      c: "CleanupOldLogs os srt (lg_dir l) (Join2 (lg_dir l) ?n) n w2 = Some (r', w')"
      and l': "l' = l\<lparr>lg_file := k, lg_filePath := Join2 (lg_dir l) ?n, lg_fileName := ?n, lg_logger := (k, lg_level l)\<rparr>"
      by (auto simp: RolloverTask_Run_def Let_def split: option.splits)
    then show ?thesis using k cleanup_frame [OF c] assms(1) by (auto simp: log_ok_def)
  qed
qed


section \<open>The tasks\<close>

definition tasks_ok :: "logger \<Rightarrow> (string \<times> log_task) list \<Rightarrow> bool" where
  "tasks_ok l ts \<longleftrightarrow>
     (rollovers ts = [] \<longleftrightarrow> lg_rolloverTaskID l = []) \<and> length (rollovers ts) \<le> 1 \<and>
     (retentions ts = [] \<longleftrightarrow> lg_retentionTaskID l = []) \<and> length (retentions ts) \<le> 1"

definition tasks_kept :: "(string \<times> log_task) list \<Rightarrow> (string \<times> log_task) list \<Rightarrow> bool" where
  "tasks_kept ts ts' \<longleftrightarrow> (rollovers ts \<noteq> [] \<longrightarrow> rollovers ts' = rollovers ts) \<and>
     (retentions ts \<noteq> [] \<longrightarrow> retentions ts' = retentions ts)"

lemma tasks_simps [simp]:
  "rollovers ((i, Rollover a b) # ts) = (i, Rollover a b) # rollovers ts"
  "rollovers ((i, Retention b) # ts) = rollovers ts"
  "retentions ((i, Rollover a b) # ts) = retentions ts"
  "retentions ((i, Retention b) # ts) = (i, Retention b) # retentions ts"
  "rollovers [] = []" "retentions [] = []"
  by (simp_all add: rollovers_def retentions_def)

lemma tasks_kept_refl [simp]: "tasks_kept ts ts"
  by (simp add: tasks_kept_def)

lemma tasks_kept_trans: "tasks_kept a b \<Longrightarrow> tasks_kept b c \<Longrightarrow> tasks_kept a c"
  by (auto simp: tasks_kept_def)

lemma AddTask_id: "AddTask n m st s = (Inr i, s') \<Longrightarrow> i \<noteq> []"
  by (auto simp: AddTask_def Let_def task_id_def split: if_splits)

lemma scheduleRollover_Inr: "scheduleRollover now l a b s = (Inr x, s') \<Longrightarrow> \<exists>i. x = (i, Rollover a b) \<and> i \<noteq> []"
  by (auto simp: scheduleRollover_def dest: AddTask_id split: prod.splits sum.splits)

lemma scheduleRetention_Inr: "scheduleRetentionCleanup now l b s = (Inr x, s') \<Longrightarrow> \<exists>i. x = (i, Retention b) \<and> i \<noteq> []"
  by (auto simp: scheduleRetentionCleanup_def dest: AddTask_id split: prod.splits sum.splits)

text \<open>The first half of \<^const>\<open>schedule_missing\<close>, for either task.\<close>

lemma schedule_guarded:
  assumes "(if b then (Inr None, s) else map_prod (map_sum id Some) id r) = (Inr a, s1)"
  shows "(b \<and> a = None) \<or> (\<not> b \<and> (\<exists>x. a = Some x \<and> r = (Inr x, s1)))"
  using assms by (cases r; cases "fst r") (auto split: if_splits)

lemma schedule_missing_ok:
  assumes ok: "tasks_ok l ts" and run: "schedule_missing now roll ret l s ts = (e, l', s', ts')"
  shows "tasks_ok l' ts' \<and> tasks_kept ts ts' \<and> lg_file l' = lg_file l"
proof -
  obtain a s1 where A: "(if lg_rolloverTaskID l \<noteq> [] then (Inr None, s)
      else map_prod (map_sum id Some) id (scheduleRollover now l roll ret s)) = (a, s1)" by fastforce
  show ?thesis
  proof (cases a)
    case (Inl x)
    then show ?thesis using run A ok by (simp add: schedule_missing_def)
  next
    case (Inr a')
    define l1 where "l1 = (case a' of None \<Rightarrow> l | Some (i, _) \<Rightarrow> l\<lparr>lg_rolloverTaskID := i\<rparr>)"
    define ts1 where "ts1 = (case a' of None \<Rightarrow> ts | Some t \<Rightarrow> t # ts)"
    have ok1: "tasks_ok l1 ts1 \<and> tasks_kept ts ts1 \<and> lg_file l1 = lg_file l"
      using schedule_guarded [OF A [unfolded Inr]] ok scheduleRollover_Inr [of now l roll ret s _ s1]
      by (auto simp: l1_def ts1_def tasks_ok_def tasks_kept_def)
    obtain b s2 where B: "(if lg_retentionTaskID l1 \<noteq> [] then (Inr None, s1)
        else map_prod (map_sum id Some) id (scheduleRetentionCleanup now l1 ret s1)) = (b, s2)" by fastforce
    show ?thesis
    proof (cases b)
      case (Inl x)
      then show ?thesis using run A B ok1 Inr by (auto simp: schedule_missing_def Let_def l1_def [symmetric] ts1_def [symmetric])
    next
      case (Inr b')
      define l2 where "l2 = (case b' of None \<Rightarrow> l1 | Some (i, _) \<Rightarrow> l1\<lparr>lg_retentionTaskID := i\<rparr>)"
      define ts2 where "ts2 = (case b' of None \<Rightarrow> ts1 | Some t \<Rightarrow> t # ts1)"
      have "tasks_ok l2 ts2 \<and> tasks_kept ts1 ts2 \<and> lg_file l2 = lg_file l1"
        using schedule_guarded [OF B [unfolded Inr]] ok1 scheduleRetention_Inr [of now l1 ret s1 _ s2]
        by (auto simp: l2_def ts2_def tasks_ok_def tasks_kept_def)
      moreover have "l' = l2" "ts' = ts2"
        using run A B \<open>a = Inr a'\<close> Inr
        by (simp_all add: schedule_missing_def Let_def l1_def [symmetric] ts1_def [symmetric] l2_def ts2_def)
      ultimately show ?thesis using ok1 tasks_kept_trans by metis
    qed
  qed
qed

lemma schedule_if_ok:
  assumes "tasks_ok l ts" "schedule_if now roll ret l sched ts = (e, l', sched', ts')"
  shows "tasks_ok l' ts' \<and> tasks_kept ts ts' \<and> lg_file l' = lg_file l"
proof (cases sched)
  case None
  with assms show ?thesis by (simp add: schedule_if_def)
next
  case (Some s)
  obtain r l1 s1 ts1 where R: "schedule_missing now roll ret l s ts = (r, l1, s1, ts1)" by (metis prod_cases4)
  with Some assms(2) have "l' = l1" "ts' = ts1" by (simp_all add: schedule_if_def)
  then show ?thesis using schedule_missing_ok [OF assms(1) R] by simp
qed

lemma reload_apply_ok:
  assumes "log_ok l w" "tasks_ok l ts" "reload_apply os r roll ret l w sched ts = (e, l', w', sched', ts')"
  shows "log_ok l' w' \<and> tasks_ok l' ts' \<and> tasks_kept ts ts'"
proof (cases "rl_dir r = rl_bootstrapDir r")
  case True
  define l1 where "l1 = (if rl_level r \<noteq> rl_currentLevel r
    then l\<lparr>lg_level := rl_level r, lg_logger := (rl_currentFile r, rl_level r), lg_currentLogLevel := rl_level r\<rparr> else l)"
  have l1: "tasks_ok l1 ts" "lg_file l1 = lg_file l" using assms(2) by (auto simp: l1_def tasks_ok_def)
  obtain e1 l2 s2 ts2 where S: "schedule_if (lo_now os) roll ret l1 sched ts = (e1, l2, s2, ts2)" by (metis prod_cases4)
  have "l' = l2" "w' = w" "ts' = ts2" using assms(3) True S by (simp_all add: reload_apply_def l1_def [symmetric])
  then show ?thesis using schedule_if_ok [OF l1(1) S] l1(2) assms(1) by (simp add: log_ok_def)
next
  case False
  obtain ok w1 where M: "log_mkdir os (rl_dir r) w = (ok, w1)" by fastforce
  have w1: "log_ok l w1" using log_mkdir_frame [OF M] assms(1) by (simp add: log_ok_def)
  obtain h w2 where O: "log_open os (rl_dir r) (Base (lg_filePath l)) w1 = (h, w2)" by fastforce
  consider "\<not> ok" | "ok" "h = None" | k where "ok" "h = Some k" by (cases h) auto
  then show ?thesis
  proof cases
    case 1
    then show ?thesis using assms False M w1 by (simp add: reload_apply_def)
  next
    case 2
    then show ?thesis using assms False M O w1 by (auto simp: reload_apply_def dest: log_open_None)
  next
    case (3 k)
    define l1 where "l1 = l\<lparr>lg_file := k, lg_filePath := Join2 (rl_dir r) (Base (lg_filePath l)),
      lg_fileName := Base (lg_filePath l), lg_dir := rl_dir r, lg_level := rl_level r, lg_logger := (k, rl_level r),
      lg_currentLogLevel := rl_level r, lg_currentLogDir := rl_dir r\<rparr>"
    have l1: "tasks_ok l1 ts" "lg_file l1 = k" using assms(2) by (simp_all add: l1_def tasks_ok_def)
    obtain e1 l2 s2 ts2 where S: "schedule_if (lo_now os) roll ret l1 sched ts = (e1, l2, s2, ts2)" by (metis prod_cases4)
    have r: "l' = l2" "w' = snd (log_close os (lg_file l) w2)" "ts' = ts2"
      using assms(3) False M O 3 S by (simp_all add: reload_apply_def Let_def l1_def [symmetric])
    have "log_ok l1 (snd (log_close os (lg_file l) w2))"
      using log_open_Some [of os "rl_dir r" _ w1 k w2] O 3 w1 l1(2) by (auto simp: log_ok_def)
    then show ?thesis using schedule_if_ok [OF l1(1) S] l1(2) r by (simp add: log_ok_def)
  qed
qed

definition log_sys_ok :: "log_sys \<Rightarrow> bool" where
  "log_sys_ok y \<longleftrightarrow> log_ok (ly_log y) (ly_world y) \<and> tasks_ok (ly_log y) (ly_tasks y)"

lemma log_step_keeps:
  assumes "log_step srt y y'" "log_sys_ok y"
  shows "log_sys_ok y' \<and> tasks_kept (ly_tasks y) (ly_tasks y')"
  using assms
proof (induction rule: log_step.induct)
  case (rollover i roll ret y os r l' w')
  then show ?case using RolloverTask_ok [OF _ rollover(2)] by (simp add: log_sys_ok_def tasks_ok_def)
next
  case (retention i ret y os r w')
  then show ?case using cleanup_frame [of os srt _ _ ret "ly_world y" r w']
    by (simp add: log_sys_ok_def log_ok_def RetentionTask_Run_def)
next
  case (reload_apply a roll ret y os e l' w' s' ts')
  then show ?case using reload_apply_ok [OF _ _ reload_apply(2)] by (simp add: log_sys_ok_def)
next
  case (shutdown os y r w')
  then have "w' = snd (log_close os (lg_file (ly_log y)) (ly_world y))" by (simp add: Logger_Shutdown_def split: prod.splits)
  then show ?case using shutdown(2) by (auto simp: log_sys_ok_def log_ok_def)
qed (simp_all add: log_sys_ok_def)

lemma log_steps_keep:
  "(log_step srt)\<^sup>*\<^sup>* y y' \<Longrightarrow> log_sys_ok y \<Longrightarrow> log_sys_ok y' \<and> tasks_kept (ly_tasks y) (ly_tasks y')"
  by (induction rule: rtranclp_induct) (auto dest: log_step_keeps intro: tasks_kept_trans)

lemma bootstrap_ok:
  assumes "NewBootstrapLogger os1 os2 env root w = (Inr l, w')" "lw_open w = {}"
  shows "log_sys_ok (log_start l w' s)"
proof -
  have "lg_file l < lw_next w' \<and> lw_open w' = {lg_file l} \<and> lg_rolloverTaskID l = [] \<and> lg_retentionTaskID l = []"
    using assms
    by (auto simp: NewBootstrapLogger_def Let_def bootstrap_logger_def
      dest!: log_open_Some log_open_None log_mkdir_frame split: prod.splits option.splits if_splits)
  then show ?thesis by (auto simp: log_sys_ok_def log_start_def log_ok_def tasks_ok_def)
qed

text \<open>C32: From the start of the logger on, whatever reloads, rollovers, clean-ups and shutdowns run together, the
  only log file that can be open is the logger's own, so that none is left open by a change; and one rollover and one
  retention task are scheduled at most, which later settings never replace.\<close>

theorem log_one_file:
  assumes "NewBootstrapLogger os1 os2 env root w = (Inr l, w')" "lw_open w = {}"
    "(log_step srt)\<^sup>*\<^sup>* (log_start l w' s) y" "(log_step srt)\<^sup>*\<^sup>* y y'"
  shows "lw_open (ly_world y) \<subseteq> {lg_file (ly_log y)} \<and>
    length (rollovers (ly_tasks y)) \<le> 1 \<and> length (retentions (ly_tasks y)) \<le> 1 \<and>
    (rollovers (ly_tasks y) \<noteq> [] \<longrightarrow> rollovers (ly_tasks y') = rollovers (ly_tasks y)) \<and>
    (retentions (ly_tasks y) \<noteq> [] \<longrightarrow> retentions (ly_tasks y') = retentions (ly_tasks y))"
proof -
  have "log_sys_ok y" using log_steps_keep [OF assms(3)] bootstrap_ok [OF assms(1,2)] by blast
  then show ?thesis using log_steps_keep [OF assms(4)]
    by (simp add: log_sys_ok_def log_ok_def tasks_ok_def tasks_kept_def)
qed


section \<open>Lost lines\<close>

text \<open>The end states of single steps, to build runs from.\<close>

definition after_reload :: "log_os \<Rightarrow> reload \<Rightarrow> string \<Rightarrow> int \<Rightarrow> log_sys \<Rightarrow> log_sys" where
  "after_reload os a roll ret y =
     (case reload_apply os a roll ret (ly_log y) (ly_world y) (Some (ly_sched y)) (ly_tasks y) of
        (e, l', w', s', ts') \<Rightarrow> y\<lparr>ly_log := l', ly_world := w', ly_sched := the s', ly_tasks := ts',
          ly_reloads := remove1 (a, roll, ret) (ly_reloads y)\<rparr>)"

definition after_rollover :: "log_os \<Rightarrow> int \<Rightarrow> log_sys \<Rightarrow> log_sys" where
  "after_rollover os ret y = (case RolloverTask_Run os age_sort ret (ly_log y) (ly_world y) of
       None \<Rightarrow> y | Some (r, l', w') \<Rightarrow> y\<lparr>ly_log := l', ly_world := w'\<rparr>)"

lemma reload_apply_sched: "reload_apply os a roll ret l w (Some s) ts = (e, l', w', s', ts') \<Longrightarrow> \<exists>s2. s' = Some s2"
  by (auto simp: reload_apply_def schedule_if_def Let_def split: if_splits prod.splits option.splits)

lemma reload_run: "(a, roll, ret) \<in> set (ly_reloads y) \<Longrightarrow> (log_step srt)\<^sup>*\<^sup>* y (after_reload os a roll ret y)"
  using reload_apply_sched [of os a roll ret "ly_log y" "ly_world y" "ly_sched y" "ly_tasks y"]
  by (cases "reload_apply os a roll ret (ly_log y) (ly_world y) (Some (ly_sched y)) (ly_tasks y)")
    (auto simp: after_reload_def intro!: r_into_rtranclp [where r = "log_step srt"] log_step.reload_apply)

lemma rollover_run: "(i, Rollover roll ret) \<in> set (ly_tasks y) \<Longrightarrow> (log_step age_sort)\<^sup>*\<^sup>* y (after_rollover os ret y)"
  by (cases "RolloverTask_Run os age_sort ret (ly_log y) (ly_world y)")
    (auto simp: after_rollover_def intro!: r_into_rtranclp [where r = "log_step age_sort"] log_step.rollover)

lemma read_run: "reload_read d v (ly_log y) = Inr a \<Longrightarrow>
    (log_step srt)\<^sup>*\<^sup>* y (y\<lparr>ly_reloads := (a, roll, ret) # ly_reloads y\<rparr>)"
  by (intro r_into_rtranclp [where r = "log_step srt"] log_step.reload_read)

definition log_disk :: log_world where
  "log_disk = \<lparr>lw_fs = (\<lambda>_. None), lw_next = 0, lw_open = {}\<rparr>"

definition log_boot :: log_sys where
  "log_boot = (case NewBootstrapLogger calm_os calm_os '''' ''/r'' log_disk of
      (Inr l, w) \<Rightarrow> log_start l w (NewScheduler 4 0)
    | (Inl _, w) \<Rightarrow> log_start (bootstrap_logger '''' 0 '''' '''' '''') w (NewScheduler 4 0))"

definition reload_to :: "log_level \<Rightarrow> log_level \<Rightarrow> reload" where
  "reload_to new old = \<lparr>rl_dir = ''/r/logs'', rl_bootstrapDir = ''/r/logs'', rl_currentLevel = old, rl_currentFile = 0,
     rl_level = new\<rparr>"

text \<open>The settings are read and applied once; then a second reload reads the logger.\<close>

definition log_ready :: log_sys where
  "log_ready = after_reload calm_os (reload_to LInfo LDebug) ''daily'' 7
     (log_boot\<lparr>ly_reloads := [(reload_to LInfo LDebug, ''daily'', 7)]\<rparr>)"

definition log_reread :: log_sys where
  "log_reread = log_ready\<lparr>ly_reloads := [(reload_to LWarn LInfo, ''daily'', 7)]\<rparr>"

lemma log_boot_facts:
  "reload_read ''logs'' ''info'' (ly_log log_boot) = Inr (reload_to LInfo LDebug)" "ly_reloads log_boot = []"
  "reload_read ''logs'' ''warn'' (ly_log log_ready) = Inr (reload_to LWarn LInfo)" "ly_reloads log_ready = []"
  "map snd (ly_tasks log_ready) = [Retention 7, Rollover ''daily'' 7]"
  by code_simp+

lemma log_ready_run: "(log_step age_sort)\<^sup>*\<^sup>* log_boot log_ready"
proof (rule rtranclp_trans)
  show "(log_step age_sort)\<^sup>*\<^sup>* log_boot (log_boot\<lparr>ly_reloads := [(reload_to LInfo LDebug, ''daily'', 7)]\<rparr>)"
    using read_run [OF log_boot_facts(1), of age_sort "''daily''" 7] unfolding log_boot_facts(2) .
  show "(log_step age_sort)\<^sup>*\<^sup>* (log_boot\<lparr>ly_reloads := [(reload_to LInfo LDebug, ''daily'', 7)]\<rparr>) log_ready"
    unfolding log_ready_def by (rule reload_run) simp
qed

lemma log_reread_run: "(log_step age_sort)\<^sup>*\<^sup>* log_ready log_reread"
  using read_run [OF log_boot_facts(3), of age_sort "''daily''" 7] unfolding log_boot_facts(4) log_reread_def .

lemma log_ready_rollover: "\<exists>i. (i, Rollover ''daily'' 7) \<in> set (ly_tasks log_ready)"
proof -
  have "Rollover ''daily'' 7 \<in> snd ` set (ly_tasks log_ready)"
    unfolding set_map [symmetric] log_boot_facts(5) by simp
  then show ?thesis by force
qed

text \<open>Two ways of losing lines.  A reload of the log level that reads the logger before a rollover and
  applies the settings after it makes the handler write to the file the rollover has closed, while the new file stays
  open and unused; and a rollover whose new file cannot be opened leaves the handler with the closed one.\<close>

theorem log_lines_lost:
  "(\<exists>y. (log_step age_sort)\<^sup>*\<^sup>* log_boot y \<and> lw_open (ly_world y) = {lg_file (ly_log y)} \<and>
      fst (lg_logger (ly_log y)) \<notin> lw_open (ly_world y)) \<and>
   (\<exists>y. (log_step age_sort)\<^sup>*\<^sup>* log_boot y \<and> lw_open (ly_world y) = {} \<and> fst (lg_logger (ly_log y)) = lg_file (ly_log y))"
proof -
  obtain i where i: "(i, Rollover ''daily'' 7) \<in> set (ly_tasks log_ready)" using log_ready_rollover by blast
  let ?y1 = "after_rollover calm_os 7 log_reread"
  let ?y2 = "after_reload calm_os (reload_to LWarn LInfo) ''daily'' 7 ?y1"
  let ?z = "after_rollover (calm_os\<lparr>lo_open := False\<rparr>) 7 log_ready"
  have pending: "ly_reloads ?y1 = [(reload_to LWarn LInfo, ''daily'', 7)]" by code_simp
  have "(log_step age_sort)\<^sup>*\<^sup>* log_reread ?y1" using i by (intro rollover_run) (simp add: log_reread_def)
  then have "(log_step age_sort)\<^sup>*\<^sup>* log_boot ?y1" using log_ready_run log_reread_run by (meson rtranclp_trans)
  moreover have "(log_step age_sort)\<^sup>*\<^sup>* ?y1 ?y2" by (rule reload_run) (simp add: pending)
  moreover have "lw_open (ly_world ?y2) = {lg_file (ly_log ?y2)} \<and> fst (lg_logger (ly_log ?y2)) \<notin> lw_open (ly_world ?y2)"
    by code_simp
  moreover have "(log_step age_sort)\<^sup>*\<^sup>* log_boot ?z" using log_ready_run rollover_run [OF i] by (meson rtranclp_trans)
  moreover have "lw_open (ly_world ?z) = {} \<and> fst (lg_logger (ly_log ?z)) = lg_file (ly_log ?z)" by code_simp
  ultimately show ?thesis by (meson rtranclp_trans)
qed

text \<open>The run to \<^const>\<open>log_reread\<close> and on to the end of the second reload keeps one file open and one rollover.\<close>

lemma log_one_file_witness:
  "\<exists>y. (log_step age_sort)\<^sup>*\<^sup>* log_boot y \<and> length (ly_tasks y) = 2 \<and> lw_open (ly_world y) \<subseteq> {lg_file (ly_log y)} \<and>
     length (rollovers (ly_tasks y)) \<le> 1"
proof -
  obtain l w where b: "NewBootstrapLogger calm_os calm_os '''' ''/r'' log_disk = (Inr l, w)"
    and s: "log_boot = log_start l w (NewScheduler 4 0)"
  proof -
    have "case NewBootstrapLogger calm_os calm_os '''' ''/r'' log_disk of (Inr l, w) \<Rightarrow> True | _ \<Rightarrow> False" by code_simp
    then show ?thesis using that by (auto simp: log_boot_def split: prod.splits sum.splits)
  qed
  have "length (ly_tasks log_ready) = 2" using arg_cong [OF log_boot_facts(5), of length] by simp
  moreover have "lw_open log_disk = {}" by (simp add: log_disk_def)
  ultimately show ?thesis
    using log_one_file [OF b, of age_sort "NewScheduler 4 0" log_ready log_ready] log_ready_run s by auto
qed

end
