(* ===== verification/Coords.thy ===== *)
theory Coords
  imports Go_Text Complex_Main
begin

text \<open>
  Reading of coordinates (\<^verbatim>\<open>internal/coords/coords.go\<close>).  The four regular expressions are deterministic, so
  each is a scanner that takes the longest run of every class; the signs of degrees, minutes and seconds are their
  bytes in UTF-8.  Values are exact rationals: the rounding of \<^verbatim>\<open>float64\<close> is left out.  \<^verbatim>\<open>strconv.ParseFloat\<close> of a
  text that is not digits with an optional fraction is a parameter.
\<close>

section \<open>Scanners\<close>

definition re_space :: "char \<Rightarrow> bool" where
  "re_space c \<longleftrightarrow> of_char c \<in> {9, 10, 12, 13, 32 :: nat}"

text \<open>A class of the expressions: white space, an ASCII sign (or none), and a sign of several bytes.\<close>

definition degree_sign :: string where
  "degree_sign = [CHR 0xC2, CHR 0xB0]"

definition minute_sign :: string where
  "minute_sign = [CHR 0xE2, CHR 0x80, CHR 0xB2]"

definition second_sign :: string where
  "second_sign = [CHR 0xE2, CHR 0x80, CHR 0xB3]"

fun skip_class :: "char option \<Rightarrow> string \<Rightarrow> nat \<Rightarrow> string \<Rightarrow> string" where
  "skip_class a sign (Suc n) (c # s) =
     (if re_space c \<or> Some c = a then skip_class a sign n s
      else if HasPrefix (c # s) sign then skip_class a sign n (drop (length sign) (c # s))
      else c # s)"
| "skip_class a sign n s = s"

text \<open>\<^verbatim>\<open>[class]*\<close> and \<^verbatim>\<open>[class]+\<close>.\<close>

definition class_star :: "char option \<Rightarrow> string \<Rightarrow> string \<Rightarrow> string" where
  "class_star a sign s = skip_class a sign (length s) s"

definition class_plus :: "char option \<Rightarrow> string \<Rightarrow> string \<Rightarrow> string option" where
  "class_plus a sign s = (let r = class_star a sign s in if length r = length s then None else Some r)"

definition re_digits :: "string \<Rightarrow> (string \<times> string) option" where
  "re_digits s = (let d = takeWhile is_digit s in if d = [] then None else Some (d, dropWhile is_digit s))"

text \<open>\<^verbatim>\<open>\d+(?:\.\d+)?\<close>: whole part, fraction, rest.\<close>

definition re_number :: "string \<Rightarrow> ((string \<times> string) \<times> string) option" where
  "re_number s = (case re_digits s of
       None \<Rightarrow> None
     | Some (d, r) \<Rightarrow>
         (case r of
            [] \<Rightarrow> Some ((d, []), r)
          | c # r' \<Rightarrow>
              if c = CHR ''.'' then (case re_digits r' of None \<Rightarrow> Some ((d, []), r) | Some (f, r2) \<Rightarrow> Some ((d, f), r2))
              else Some ((d, []), r)))"

definition re_minus :: "string \<Rightarrow> bool \<times> string" where
  "re_minus s = (case s of [] \<Rightarrow> (False, s) | c # r \<Rightarrow> if c = CHR ''-'' then (True, r) else (False, s))"

definition is_compass :: "char \<Rightarrow> bool" where
  "is_compass c \<longleftrightarrow> c \<in> {CHR ''N'', CHR ''S'', CHR ''E'', CHR ''W''}"

text \<open>\<^verbatim>\<open>([NSEW])?\<close>.\<close>

definition re_compass :: "string \<Rightarrow> char option \<times> string" where
  "re_compass s = (case s of [] \<Rightarrow> (None, s) | c # r \<Rightarrow> if is_compass c then (Some c, r) else (None, s))"

section \<open>Values\<close>

definition number_value :: "string \<times> string \<Rightarrow> rat" where
  "number_value p = of_nat (nat_of_dec (fst p)) + of_nat (nat_of_dec (snd p)) / 10 ^ length (snd p)"

definition signed :: "bool \<Rightarrow> rat \<Rightarrow> rat" where
  "signed neg x = (if neg then - x else x)"

definition southern :: "char option \<Rightarrow> bool" where
  "southern dir \<longleftrightarrow> dir = Some (CHR ''S'') \<or> dir = Some (CHR ''W'')"

definition parseDMS :: "bool \<times> string \<Rightarrow> string \<Rightarrow> string \<times> string \<Rightarrow> char option \<Rightarrow> rat" where
  "parseDMS deg minutes seconds dir =
     (let degrees = signed (fst deg) (number_value (snd deg, []));
          decimal = degrees + number_value (minutes, []) / 60 + number_value seconds / 3600
      in signed (southern dir \<or> degrees < 0) decimal)"

definition parseDM :: "bool \<times> string \<Rightarrow> string \<times> string \<Rightarrow> char option \<Rightarrow> rat" where
  "parseDM deg minutes dir =
     (let degrees = signed (fst deg) (number_value (snd deg, []));
          decimal = degrees + number_value minutes / 60
      in signed (southern dir \<or> degrees < 0) decimal)"

definition parseDecimalCompass :: "bool \<times> string \<times> string \<Rightarrow> char option \<Rightarrow> rat" where
  "parseDecimalCompass v dir = signed (southern dir) (signed (fst v) (number_value (snd v)))"

section \<open>The expressions\<close>

text \<open>\<^verbatim>\<open>dmsRegex\<close> is not anchored at the end.\<close>

definition dmsRegex :: "string \<Rightarrow> rat option" where
  "dmsRegex s = (case re_minus s of (neg, s1) \<Rightarrow>
     Option.bind (re_digits s1) (\<lambda>(d, s2).
     Option.bind (class_plus None degree_sign s2) (\<lambda>s3.
     Option.bind (re_digits s3) (\<lambda>(m, s4).
     Option.bind (class_plus (Some (CHR 0x27)) minute_sign s4) (\<lambda>s5.
     Option.bind (re_number s5) (\<lambda>(x, s6).
       Some (parseDMS (neg, d) m x (fst (re_compass (class_star (Some (CHR 0x22)) second_sign s6))))))))))"

definition dmRegex :: "string \<Rightarrow> rat option" where
  "dmRegex s = (case re_minus s of (neg, s1) \<Rightarrow>
     Option.bind (re_digits s1) (\<lambda>(d, s2).
     Option.bind (class_plus None degree_sign s2) (\<lambda>s3.
     Option.bind (re_number s3) (\<lambda>(x, s4).
       (case re_compass (class_star (Some (CHR 0x27)) minute_sign s4) of
          (dir, s5) \<Rightarrow> if s5 = [] then Some (parseDM (neg, d) x dir) else None)))))"

definition decimalCompassRegex :: "string \<Rightarrow> rat option" where
  "decimalCompassRegex s = (case re_minus s of (neg, s1) \<Rightarrow>
     Option.bind (re_number s1) (\<lambda>(x, s2).
       (case re_compass (class_star None degree_sign s2) of
          (Some c, []) \<Rightarrow> Some (parseDecimalCompass (neg, x) (Some c))
        | _ \<Rightarrow> None)))"

definition to_upper :: "char \<Rightarrow> char" where
  "to_upper c = (if 97 \<le> (of_char c :: nat) \<and> of_char c \<le> (122 :: nat) then char_of ((of_char c :: nat) - 32) else c)"

text \<open>\<^verbatim>\<open>xmpCommaDMRegex\<close>, and what \<^verbatim>\<open>parseXMPGPS\<close> makes of a match.\<close>

definition number_text :: "string \<times> string \<Rightarrow> string" where
  "number_text p = fst p @ (if snd p = [] then [] else CHR ''.'' # snd p)"

definition parseXMPGPS :: "string \<Rightarrow> string" where
  "parseXMPGPS coord0 =
     (let coord = TrimSpace coord0 in
      case re_number coord of
        Some (d, c1 # r1) \<Rightarrow>
          if c1 = CHR '','' then
            (case re_number r1 of
               Some (m, [c]) \<Rightarrow>
                 if is_compass (to_upper c) then number_text d @ degree_sign @ number_text m @ [CHR 0x27, to_upper c] else coord
             | _ \<Rightarrow> coord)
          else coord
      | _ \<Rightarrow> coord)"

definition ParseCoordinate :: "(string \<Rightarrow> rat option) \<Rightarrow> string \<Rightarrow> rat option" where
  "ParseCoordinate ParseFloat coord0 =
     (let coord1 = TrimSpace coord0 in
      if coord1 = [] then None
      else
        let coord = parseXMPGPS coord1 in
        (case dmsRegex coord of
           Some v \<Rightarrow> Some v
         | None \<Rightarrow>
             (case dmRegex coord of
                Some v \<Rightarrow> Some v
              | None \<Rightarrow> (case decimalCompassRegex coord of Some v \<Rightarrow> Some v | None \<Rightarrow> ParseFloat coord))))"

section \<open>Degrees, minutes and seconds\<close>

lemma digits_take: "list_all is_digit ds \<Longrightarrow> (case r of [] \<Rightarrow> True | c # _ \<Rightarrow> \<not> is_digit c) \<Longrightarrow>
    takeWhile is_digit (ds @ r) = ds \<and> dropWhile is_digit (ds @ r) = r"
  by (induction ds) (auto split: list.splits)

lemma re_digits_dec: "\<not> is_digit c \<Longrightarrow> re_digits (dec_of_nat n @ c # r) = Some (dec_of_nat n, c # r)"
  using digits_take [of "dec_of_nat n" "c # r"] dec_of_nat_digits [of n] by (simp add: re_digits_def)

lemma re_number_dec: "\<not> is_digit c \<Longrightarrow> c \<noteq> CHR ''.'' \<Longrightarrow> re_number (dec_of_nat n @ c # r) = Some ((dec_of_nat n, []), c # r)"
  by (simp add: re_number_def re_digits_dec)

lemma digit_not_space: "is_digit c \<Longrightarrow> \<not> re_space c \<and> \<not> is_space c \<and> c \<noteq> CHR ''-'' \<and> \<not> HasPrefix (c # s) degree_sign \<and>
    \<not> HasPrefix (c # s) minute_sign \<and> c \<noteq> CHR 0x27"
  by (auto simp: is_digit_def re_space_def is_space_def HasPrefix_def degree_sign_def minute_sign_def)

lemma not_digit_signs [simp]: "\<not> is_digit (CHR 0xC2)" "\<not> is_digit (CHR 0x27)" "\<not> is_digit (CHR 0x22)" "\<not> is_digit (CHR ''-'')"
  by (simp_all add: is_digit_def)

lemma dec_head: obtains c t where "dec_of_nat n = c # t" "is_digit c"
  using dec_of_nat_digits [of n] dec_of_nat_nonempty [of n] by (cases "dec_of_nat n") auto

lemma skip_at_digit: "is_digit c \<Longrightarrow> skip_class None degree_sign n (c # s) = c # s"
  "is_digit c \<Longrightarrow> skip_class (Some (CHR 0x27)) minute_sign n (c # s) = c # s"
  using digit_not_space [of c s] by (cases n; simp)+

lemma skip_signs:
  "skip_class None degree_sign (Suc n) (degree_sign @ r) = skip_class None degree_sign n r"
  "skip_class (Some (CHR 0x27)) minute_sign (Suc n) (CHR 0x27 # r) = skip_class (Some (CHR 0x27)) minute_sign n r"
  by (simp_all add: degree_sign_def HasPrefix_def re_space_def)

lemma length_degree_sign [simp]: "length degree_sign = Suc (Suc 0)"
  by (simp add: degree_sign_def)

declare skip_class.simps [simp del]

lemma skip_degree: "class_plus None degree_sign (degree_sign @ dec_of_nat n @ r) = Some (dec_of_nat n @ r)"
proof -
  obtain c t where d: "dec_of_nat n = c # t" "is_digit c" by (rule dec_head)
  then show ?thesis by (simp add: class_plus_def class_star_def skip_signs skip_at_digit)
qed

lemma skip_minute: "class_plus (Some (CHR 0x27)) minute_sign (CHR 0x27 # dec_of_nat n @ r) = Some (dec_of_nat n @ r)"
proof -
  obtain c t where d: "dec_of_nat n = c # t" "is_digit c" by (rule dec_head)
  then show ?thesis by (simp add: class_plus_def class_star_def skip_signs skip_at_digit)
qed

lemma number_value_dec [simp]: "number_value (dec_of_nat n, []) = of_nat n"
  by (simp add: number_value_def nat_of_dec_def [of "[]"])

text \<open>The text of an angle, and what \<^const>\<open>dmsRegex\<close> reads.\<close>

definition dms_text :: "bool \<Rightarrow> nat \<Rightarrow> nat \<Rightarrow> nat \<Rightarrow> string \<Rightarrow> string" where
  "dms_text neg d m s dir = (if neg then ''-'' else []) @ dec_of_nat d @ degree_sign @ dec_of_nat m @ [CHR 0x27] @
     dec_of_nat s @ [CHR 0x22] @ dir"

lemma dms_read:
  "dmsRegex (dms_text neg d m s dir) =
     Some (parseDMS (neg, dec_of_nat d) (dec_of_nat m) (dec_of_nat s, []) (fst (re_compass (class_star (Some (CHR 0x22)) second_sign (CHR 0x22 # dir)))))"
proof -
  have minus: "re_minus (dms_text neg d m s dir) = (neg, dms_text False d m s dir)"
    by (rule dec_head [of d]) (auto simp: re_minus_def dms_text_def dest: digit_not_space split: list.splits)
  have "re_digits (dec_of_nat d @ degree_sign @ r) = Some (dec_of_nat d, degree_sign @ r)" for r
    by (simp add: degree_sign_def re_digits_dec)
  then show ?thesis
    by (simp add: dmsRegex_def minus) (simp add: dms_text_def skip_degree re_digits_dec skip_minute re_number_dec)
qed

lemma xmp_unchanged:
  assumes "TrimSpace (dms_text neg d m s dir) = dms_text neg d m s dir"
  shows "parseXMPGPS (dms_text neg d m s dir) = dms_text neg d m s dir"
proof (cases neg)
  case True
  then have "re_number (dms_text neg d m s dir) = None" by (simp add: dms_text_def re_number_def re_digits_def)
  then show ?thesis by (simp add: parseXMPGPS_def assms)
next
  case False
  have "\<exists>r. re_number (dms_text neg d m s dir) = Some ((dec_of_nat d, []), CHR 0xC2 # r)"
    using False by (simp add: dms_text_def degree_sign_def re_number_dec)
  then show ?thesis by (auto simp: parseXMPGPS_def assms)
qed

lemma trim_dms: "dir = [] \<or> (\<exists>c. dir = [c] \<and> is_compass c) \<Longrightarrow> TrimSpace (dms_text neg d m s dir) = dms_text neg d m s dir"
  by (rule dec_head [of d]) (auto simp: TrimSpace_def dms_text_def is_compass_def is_space_def dest: digit_not_space)

lemma parse_dms:
  assumes "dir = [] \<or> (\<exists>c. dir = [c] \<and> is_compass c)"
  shows "ParseCoordinate pf (dms_text neg d m s dir) =
    Some (parseDMS (neg, dec_of_nat d) (dec_of_nat m) (dec_of_nat s, []) (case dir of [] \<Rightarrow> None | c # _ \<Rightarrow> Some c))"
proof -
  have "fst (re_compass (class_star (Some (CHR 0x22)) second_sign (CHR 0x22 # dir))) = (case dir of [] \<Rightarrow> None | c # _ \<Rightarrow> Some c)"
    using assms by (auto simp: class_star_def re_compass_def is_compass_def re_space_def HasPrefix_def second_sign_def skip_class.simps)
  moreover have "dms_text neg d m s dir \<noteq> []" by (simp add: dms_text_def)
  ultimately show ?thesis
    by (simp add: ParseCoordinate_def Let_def trim_dms [OF assms] xmp_unchanged [OF trim_dms [OF assms]] dms_read)
qed

text \<open>Degrees, minutes and seconds with a compass direction are read as the angle they denote.\<close>

theorem coord_dms_compass:
  "is_compass c \<Longrightarrow> ParseCoordinate pf (dms_text False d m s [c]) =
     Some (signed (c \<in> {CHR ''S'', CHR ''W''}) (of_nat d + of_nat m / 60 + of_nat s / 3600))"
  by (simp add: parse_dms parseDMS_def Let_def signed_def southern_def)

text \<open>A minus sign is taken off the degrees only, before the whole angle is negated: minus 74 degrees 30 minutes
  becomes plus 73.5.\<close>

theorem coord_negative_dms:
  "0 < d \<Longrightarrow> ParseCoordinate pf (dms_text True d m s []) = Some (of_nat d - of_nat m / 60 - of_nat s / 3600)"
  by (simp add: parse_dms parseDMS_def Let_def signed_def southern_def)

end
