(* ===== verification/Symlinks.thy ===== *)
theory Symlinks
  imports Go_Path Walk_Dir "HOL-Library.Monad_Syntax"
begin

text \<open>
  Resolving symbolic links in caller-supplied buffers (\<^verbatim>\<open>internal/osza/evalsymlinks\<close>, and its caller in
  \<^verbatim>\<open>internal/parallelwalkdir\<close>).  A buffer is a list of fixed length; what \<^verbatim>\<open>lstat\<close> and \<^verbatim>\<open>readlink\<close> answer for a path
  are arguments.
\<close>

section \<open>Cleaning in place\<close>

definition is_sep :: "char \<Rightarrow> bool" where
  "is_sep c \<longleftrightarrow> c = CHR ''/''"

text \<open>\<^verbatim>\<open>path\<close> and \<^verbatim>\<open>dest\<close> are the same memory.  The inner loops: copying a component, and going back to the
  separator before the last one.\<close>

function clean_copy :: "nat \<Rightarrow> string \<Rightarrow> nat \<Rightarrow> nat \<Rightarrow> string \<times> nat \<times> nat" where
  "clean_copy n dest r w =
     (if r < n \<and> \<not> is_sep (dest ! r) then clean_copy n (dest[w := dest ! r]) (r + 1) (w + 1) else (dest, r, w))"
  by pat_completeness auto
termination by (relation "measure (\<lambda>(n, dest, r, w). n - r)") auto

fun clean_back :: "string \<Rightarrow> nat \<Rightarrow> nat \<Rightarrow> nat" where
  "clean_back dest dotdot w = (if w > dotdot \<and> \<not> is_sep (dest ! w) then clean_back dest dotdot (w - 1) else w)"

declare clean_copy.simps [simp del] clean_back.simps [simp del]

lemma clean_copy_reads:
  "clean_copy n dest r w = (dest', r', w') \<Longrightarrow> r \<le> r' \<and> (r < n \<longrightarrow> \<not> is_sep (dest' ! r') \<longrightarrow> r < r')"
proof (induction n dest r w rule: clean_copy.induct)
  case (1 n dest r w)
  show ?case
  proof (cases "r < n \<and> \<not> is_sep (dest ! r)")
    case True
    then show ?thesis using "1.IH" "1.prems" by (simp add: clean_copy.simps [of n dest r w])
  next
    case False
    then show ?thesis using "1.prems" by (auto simp: clean_copy.simps [of n dest r w])
  qed
qed

text \<open>A component that is a single dot, or two dots, at \<^term>\<open>r\<close>.\<close>

definition at_end :: "nat \<Rightarrow> string \<Rightarrow> nat \<Rightarrow> bool" where
  "at_end n dest r \<longleftrightarrow> r = n \<or> is_sep (dest ! r)"

definition dot_at :: "nat \<Rightarrow> string \<Rightarrow> nat \<Rightarrow> bool" where
  "dot_at n dest r \<longleftrightarrow> dest ! r = CHR ''.'' \<and> at_end n dest (r + 1)"

definition dotdot_at :: "nat \<Rightarrow> string \<Rightarrow> nat \<Rightarrow> bool" where
  "dotdot_at n dest r \<longleftrightarrow> dest ! r = CHR ''.'' \<and> dest ! (r + 1) = CHR ''.'' \<and> at_end n dest (r + 2)"

text \<open>The two dots that are kept.\<close>

definition put_dotdot :: "string \<Rightarrow> nat \<Rightarrow> string \<times> nat" where
  "put_dotdot dest w =
     (let (d1, w1) = (if w > 0 then (dest[w := CHR ''/''], w + 1) else (dest, w))
      in (d1[w1 := CHR ''.'', w1 + 1 := CHR ''.''], w1 + 2))"

function clean_loop :: "bool \<Rightarrow> nat \<Rightarrow> string \<Rightarrow> nat \<Rightarrow> nat \<Rightarrow> nat \<Rightarrow> string \<times> nat" where
  "clean_loop root n dest r w dotdot =
     (if r \<ge> n then (dest, w)
      else if is_sep (dest ! r) then clean_loop root n dest (r + 1) w dotdot
      else if dot_at n dest r then clean_loop root n dest (r + 1) w dotdot
      else if dotdot_at n dest r then
        (if w > dotdot then clean_loop root n dest (r + 2) (clean_back dest dotdot (w - 1)) dotdot
         else if \<not> root then (case put_dotdot dest w of (d1, w1) \<Rightarrow> clean_loop root n d1 (r + 2) w1 w1)
         else clean_loop root n dest (r + 2) w dotdot)
      else
        (let (d1, w1) = (if (root \<and> w \<noteq> 1) \<or> (\<not> root \<and> w \<noteq> 0) then (dest[w := CHR ''/''], w + 1) else (dest, w))
         in (case clean_copy n d1 r w1 of
               (d2, r2, w2) \<Rightarrow> clean_loop root n d2 r2 w2 dotdot)))"
  by pat_completeness auto
termination
  by (relation "measure (\<lambda>(root, n, dest, r, w, dotdot). 2 * (n - r) + (if is_sep (dest ! r) then 0 else 1))")
    (auto dest!: sym [THEN clean_copy_reads] split: if_splits)

text \<open>\<^verbatim>\<open>unixCleanInPlace\<close>: the buffer and the length of the cleaned path.\<close>

definition unixCleanInPlace :: "string \<Rightarrow> nat \<Rightarrow> string \<times> nat" where
  "unixCleanInPlace dest n0 =
     (if n0 = 0 then (dest[0 := CHR ''.''], 1)
      else
        let n = min n0 (length dest); root = is_sep (dest ! 0); k = (if root then 1 else 0);
            (d, w) = clean_loop root n (if root then dest[0 := CHR ''/''] else dest) k k k
        in if w = 0 then (d[0 := CHR ''.''], 1) else (d, w))"


section \<open>Following the links\<close>

datatype sym_error = ErrPathBuffer | EvalEINVAL | EvalENOTDIR | ErrTooManySymlinks | LstatFails nat | ReadlinkFails nat

datatype sym_kind = SymDir | SymFile | SymLink

text \<open>\<^verbatim>\<open>LstatAt\<close> and \<^verbatim>\<open>readlinkAt\<close> need a byte after the path for the terminating zero.\<close>

definition LstatAt :: "(string \<Rightarrow> nat + sym_kind) \<Rightarrow> string \<Rightarrow> nat \<Rightarrow> sym_error + sym_kind" where
  "LstatAt lst buf n = (if n \<ge> length buf then Inl EvalEINVAL
     else (case lst (take n buf) of Inl e \<Rightarrow> Inl (LstatFails e) | Inr k \<Rightarrow> Inr k))"

definition readlinkAt :: "(string \<Rightarrow> nat + string) \<Rightarrow> string \<Rightarrow> nat \<Rightarrow> sym_error + string" where
  "readlinkAt rdl buf n = (if n \<ge> length buf then Inl EvalEINVAL
     else (case rdl (take n buf) of
         Inl e \<Rightarrow> Inl (ReadlinkFails e)
       | Inr t \<Rightarrow> if 4096 \<le> length t then Inl ErrPathBuffer else Inr t))"

definition appendBytes :: "string \<Rightarrow> nat \<Rightarrow> string \<Rightarrow> (string \<times> nat) option" where
  "appendBytes dest n b =
     (if n + length b > length dest then None else Some (take n dest @ b @ drop (n + length b) dest, n + length b))"

text \<open>The last separator at or after \<^term>\<open>vol\<close> and before the given position.\<close>

fun last_sep :: "string \<Rightarrow> nat \<Rightarrow> nat \<Rightarrow> nat option" where
  "last_sep dest vol 0 = None"
| "last_sep dest vol (Suc r) = (if r < vol then None else if is_sep (dest ! r) then Some r else last_sep dest vol r)"

text \<open>Two dots take the last component off, unless there is none or it is itself two dots.\<close>

definition eval_dotdot :: "string \<Rightarrow> nat \<Rightarrow> nat \<Rightarrow> (string \<times> nat) option" where
  "eval_dotdot dest destLen volLen =
     (case last_sep dest volLen destLen of
        Some r \<Rightarrow>
          if destLen \<ge> r + 3 \<and> dest ! (r + 1) = CHR ''.'' \<and> dest ! (r + 2) = CHR ''.'' \<and>
             (destLen = r + 3 \<or> is_sep (dest ! (r + 3)))
          then do { (d1, n1) \<leftarrow> (if destLen > volLen then appendBytes dest destLen ''/'' else Some (dest, destLen));
                    appendBytes d1 n1 ''..'' }
          else Some (dest, r)
      | None \<Rightarrow> do { (d1, n1) \<leftarrow> (if destLen > volLen then appendBytes dest destLen ''/'' else Some (dest, destLen));
                  appendBytes d1 n1 ''..'' })"

definition eval_name :: "string \<Rightarrow> nat \<Rightarrow> nat \<Rightarrow> string \<Rightarrow> (string \<times> nat) option" where
  "eval_name dest destLen volLen cmp =
     do { (d1, n1) \<leftarrow> (if destLen > volLen \<and> \<not> is_sep (dest ! (destLen - 1)) then appendBytes dest destLen ''/''
            else Some (dest, destLen));
          appendBytes d1 n1 cmp }"

definition maxSymlinks :: nat where "maxSymlinks = 255"

text \<open>The component that begins at or after \<^term>\<open>start\<close>, and the position behind it.\<close>

definition next_comp :: "string \<Rightarrow> nat \<Rightarrow> nat \<Rightarrow> string \<times> nat" where
  "next_comp pathBuf pathEnd start =
     (let s = start + length (takeWhile is_sep (drop start (take pathEnd pathBuf)));
          c = takeWhile (\<lambda>c. \<not> is_sep c) (drop s (take pathEnd pathBuf))
      in (c, s + length c))"

lemma next_comp_forward: "next_comp pathBuf pathEnd start = (c, e) \<Longrightarrow> c \<noteq> [] \<Longrightarrow> start < e \<and> e \<le> pathEnd"
proof -
  assume n: "next_comp pathBuf pathEnd start = (c, e)" and c: "c \<noteq> []"
  let ?s = "start + length (takeWhile is_sep (drop start (take pathEnd pathBuf)))"
  have e: "e = ?s + length c" "c = takeWhile (\<lambda>c. \<not> is_sep c) (drop ?s (take pathEnd pathBuf))"
    using n by (auto simp: next_comp_def Let_def)
  have "length c \<le> length (drop ?s (take pathEnd pathBuf))" by (subst e(2)) (rule length_takeWhile_le)
  then show ?thesis using e(1) c by (cases c) auto
qed

text \<open>The loop of \<^verbatim>\<open>EvalSymlinksAt\<close>; the path buffer is part of the answer, since links are put into it.\<close>

function eval_loop ::
  "(string \<Rightarrow> nat + sym_kind) \<Rightarrow> (string \<Rightarrow> nat + string) \<Rightarrow> string \<Rightarrow> nat \<Rightarrow> nat \<Rightarrow> string \<Rightarrow> nat \<Rightarrow> nat \<Rightarrow> nat \<Rightarrow>
     (sym_error + string) \<times> string" where
  "eval_loop lst rdl pathBuf pathEnd start dest destLen volLen linksWalked =
     (case next_comp pathBuf pathEnd start of (cmp, stop) \<Rightarrow>
        if cmp = [] then (case unixCleanInPlace dest destLen of (d, w) \<Rightarrow> (Inr (take w d), pathBuf))
        else if cmp = ''.'' then eval_loop lst rdl pathBuf pathEnd stop dest destLen volLen linksWalked
        else if cmp = ''..'' then
          (case eval_dotdot dest destLen volLen of
             None \<Rightarrow> (Inl ErrPathBuffer, pathBuf)
           | Some (d, n) \<Rightarrow> eval_loop lst rdl pathBuf pathEnd stop d n volLen linksWalked)
        else
          (case eval_name dest destLen volLen cmp of
             None \<Rightarrow> (Inl ErrPathBuffer, pathBuf)
           | Some (d, n) \<Rightarrow>
               (case LstatAt lst d n of
                  Inl e \<Rightarrow> (Inl e, pathBuf)
                | Inr kind \<Rightarrow>
                    if kind \<noteq> SymLink then
                      if kind \<noteq> SymDir \<and> stop < pathEnd then (Inl EvalENOTDIR, pathBuf)
                      else eval_loop lst rdl pathBuf pathEnd stop d n volLen linksWalked
                    else if linksWalked + 1 > maxSymlinks then (Inl ErrTooManySymlinks, pathBuf)
                    else
                      (case readlinkAt rdl d n of
                         Inl e \<Rightarrow> (Inl e, pathBuf)
                       | Inr link \<Rightarrow>
                           (let rest = drop stop (take pathEnd pathBuf); newLen = length link + length rest;
                                pb = link @ rest @ drop newLen pathBuf in
                            if newLen > length pathBuf then (Inl ErrPathBuffer, pathBuf)
                            else if link \<noteq> [] \<and> is_sep (hd link) then
                              (case appendBytes d 0 (take 1 link) of
                                 None \<Rightarrow> (Inl ErrPathBuffer, pb)
                               | Some (d1, n1) \<Rightarrow> eval_loop lst rdl pb newLen 1 d1 n1 1 (linksWalked + 1))
                            else
                              eval_loop lst rdl pb newLen 0 d (case last_sep d volLen n of None \<Rightarrow> volLen | Some r \<Rightarrow> r)
                                volLen (linksWalked + 1))))))"
  by pat_completeness auto
termination
  by (relation "measures [\<lambda>(lst, rdl, pathBuf, pathEnd, start, dest, destLen, volLen, links). maxSymlinks - links,
      \<lambda>(lst, rdl, pathBuf, pathEnd, start, dest, destLen, volLen, links). pathEnd - start]")
    (auto dest!: sym [THEN next_comp_forward])

declare eval_loop.simps [simp del]

definition EvalSymlinksAt ::
  "(string \<Rightarrow> nat + sym_kind) \<Rightarrow> (string \<Rightarrow> nat + string) \<Rightarrow> string \<Rightarrow> nat \<Rightarrow> string \<Rightarrow> (sym_error + string) \<times> string" where
  "EvalSymlinksAt lst rdl pathBuf pathLen dest =
     (if pathLen \<ge> length pathBuf then (Inl EvalEINVAL, pathBuf)
      else if dest = [] then (Inl ErrPathBuffer, pathBuf)
      else
        let volLen = (if 0 < pathLen \<and> is_sep (pathBuf ! 0) then 1 else 0) in
        (case appendBytes dest 0 (take volLen pathBuf) of
           None \<Rightarrow> (Inl ErrPathBuffer, pathBuf)
         | Some (d, n) \<Rightarrow> eval_loop lst rdl pathBuf pathLen volLen d n volLen 0))"

section \<open>Growing the buffers\<close>

definition maxReadDirNameBytes :: nat where "maxReadDirNameBytes = 67108864"

definition fresh_buffer :: "nat \<Rightarrow> string" where
  "fresh_buffer n = replicate n (CHR 0x00)"

text \<open>The loop of \<^verbatim>\<open>evalSymlinksCanonical\<close>; None stands for never returning.\<close>

partial_function (option) canonical_loop ::
  "(string \<Rightarrow> nat + sym_kind) \<Rightarrow> (string \<Rightarrow> nat + string) \<Rightarrow> string \<Rightarrow> nat \<Rightarrow> string \<Rightarrow> string \<Rightarrow> (sym_error + string) option" where
  "canonical_loop lst rdl orig pathLen pathBuf dest =
     (case EvalSymlinksAt lst rdl pathBuf pathLen dest of (r, pb) \<Rightarrow>
        if r \<noteq> Inl ErrPathBuffer then Some r
        else if length dest < maxReadDirNameBytes
        then canonical_loop lst rdl orig pathLen pb (fresh_buffer (min (2 * length dest) maxReadDirNameBytes))
        else if length pb < maxReadDirNameBytes
        then canonical_loop lst rdl orig pathLen
          (take pathLen orig @ fresh_buffer (min (2 * length pb) maxReadDirNameBytes - pathLen)) dest
        else Some r)"

definition evalSymlinksCanonical ::
  "(string \<Rightarrow> nat + sym_kind) \<Rightarrow> (string \<Rightarrow> nat + string) \<Rightarrow> string \<Rightarrow> string \<Rightarrow> string \<Rightarrow> nat \<Rightarrow> (sym_error + string) option" where
  "evalSymlinksCanonical lst rdl evalPathBuf evalDest pathBuf pathLen =
     (let pb0 = (if length evalPathBuf < pathLen + 1 then fresh_buffer (max (pathLen + 1) initialReadDirNameBytes) else evalPathBuf);
          d0 = (if evalDest = [] then fresh_buffer initialReadDirNameBytes else evalDest)
      in canonical_loop lst rdl pathBuf pathLen (take pathLen pathBuf @ drop pathLen pb0) d0)"

end
