(* ===== verification/Symlinks_Clean.thy ===== *)
theory Symlinks_Clean
  imports Symlinks
begin

text \<open>
  Cleaning in place computes \<^verbatim>\<open>filepath.Clean\<close>: what is written never overtakes what is still to be read.
\<close>

declare clean_loop.simps [simp del]

section \<open>The output and the reference\<close>

definition clean_out :: "bool \<Rightarrow> string list \<Rightarrow> string" where
  "clean_out root stack = (if root then ''/'' else []) @ join_slash (rev stack)"

lemma clean_out_Cons: "clean_out root (c # st) = clean_out root st @ (if st = [] then [] else ''/'') @ c"
  by (cases "st = []") (simp_all add: clean_out_def join_snoc)

lemma clean_out_length_append: "length (clean_out root st) \<le> length (clean_out root (ns @ st))"
  by (induction ns) (auto simp: clean_out_Cons)

lemma clean_out_longer: "ns \<noteq> [] \<Longrightarrow> \<forall>c \<in> set ns. c \<noteq> [] \<Longrightarrow> length (clean_out root st) < length (clean_out root (ns @ st))"
  using clean_out_length_append [of root st "tl ns"] by (cases ns) (auto simp: clean_out_Cons)

text \<open>The components that are left, by \<^const>\<open>clean_components\<close>.\<close>

definition clean_rest :: "bool \<Rightarrow> string list \<Rightarrow> string \<Rightarrow> string list" where
  "clean_rest root stack rest = clean_components root stack (split_on CHR ''/'' rest)"

lemma split_on_comp: "CHR ''/'' \<notin> set c \<Longrightarrow> split_on CHR ''/'' (c @ CHR ''/'' # t) = c # split_on CHR ''/'' t"
  by (induction c) auto

lemma clean_rest_simps [simp]: "clean_rest root st [] = rev st" "clean_rest root st (CHR ''/'' # t) = clean_rest root st t"
  by (simp_all add: clean_rest_def)

lemma clean_rest_comp:
  assumes "CHR ''/'' \<notin> set c" "c \<noteq> []" "rest = [] \<or> hd rest = CHR ''/''"
  shows "clean_rest root st (c @ rest) =
    (if c = ''.'' then clean_rest root st rest
     else if c = ''..'' then
       (case st of [] \<Rightarrow> clean_rest root (if root then [] else [''..'']) rest
        | t # ts \<Rightarrow> clean_rest root (if t = ''..'' then ''..'' # st else ts) rest)
     else clean_rest root (c # st) rest)"
proof (cases rest)
  case Nil
  then show ?thesis using assms by (auto simp: clean_rest_def split_on_no_sep split: list.splits)
next
  case (Cons x t)
  then have "rest = CHR ''/'' # t" using assms(3) by simp
  then show ?thesis using assms by (auto simp: clean_rest_def split_on_comp split: list.splits)
qed

section \<open>The inner loops\<close>

lemma clean_back_stop:
  assumes "\<And>i. k < i \<Longrightarrow> i \<le> w \<Longrightarrow> \<not> is_sep (dest ! i)" "dotdot \<le> k" "k \<le> w" "k = dotdot \<or> is_sep (dest ! k)"
  shows "clean_back dest dotdot w = k"
  using assms
proof (induction dest dotdot w rule: clean_back.induct)
  case (1 dest dotdot w)
  show ?case
  proof (cases "k = w")
    case True
    then show ?thesis using "1.prems" by (auto simp: clean_back.simps [of dest dotdot w])
  next
    case False
    then have "k \<le> w - 1" "dotdot < w" "\<not> is_sep (dest ! w)" using "1.prems" by auto
    then show ?thesis using "1.IH" "1.prems" by (simp add: clean_back.simps [of dest dotdot w])
  qed
qed

lemma nth_rest: "r < n \<Longrightarrow> n \<le> length dest \<Longrightarrow> drop r (take n dest) = dest ! r # drop (Suc r) (take n dest)"
  using Cons_nth_drop_Suc [of r "take n dest"] by simp

text \<open>A write below \<^term>\<open>r\<close> leaves what is still to be read.\<close>

lemma rest_update: "w < r \<Longrightarrow> drop r (take n (dest[w := x])) = drop r (take n dest)"
  by (simp add: take_update_swap drop_update_cancel)

lemma take_write: "w < length dest \<Longrightarrow> take (Suc w) (dest[w := x]) = take w dest @ [x]"
  by (simp add: take_Suc_conv_app_nth)

lemma clean_copy_component:
  assumes "w \<le> r" "r \<le> n" "n \<le> length dest" "clean_copy n dest r w = (d, r', w')"
  shows "take w' d = take w dest @ takeWhile (\<lambda>c. \<not> is_sep c) (drop r (take n dest)) \<and>
    drop r' (take n d) = dropWhile (\<lambda>c. \<not> is_sep c) (drop r (take n dest)) \<and> length d = length dest \<and>
    r' = r + length (takeWhile (\<lambda>c. \<not> is_sep c) (drop r (take n dest))) \<and>
    w' = w + length (takeWhile (\<lambda>c. \<not> is_sep c) (drop r (take n dest))) \<and> r' \<le> n"
  using assms
proof (induction n dest r w rule: clean_copy.induct)
  case (1 n dest r w)
  show ?case
  proof (cases "r < n \<and> \<not> is_sep (dest ! r)")
    case True
    then have run: "clean_copy n (dest[w := dest ! r]) (r + 1) (w + 1) = (d, r', w')"
      using "1.prems"(4) by (simp add: clean_copy.simps [of n dest r w])
    have rest: "drop (r + 1) (take n (dest[w := dest ! r])) = drop (Suc r) (take n dest)"
      using "1.prems"(1) by (simp add: rest_update)
    have w: "take (w + 1) (dest[w := dest ! r]) = take w dest @ [dest ! r]" using "1.prems" True by (simp add: take_write)
    have "drop r (take n dest) = dest ! r # drop (Suc r) (take n dest)" using nth_rest True "1.prems"(3) by blast
    then show ?thesis
      using "1.IH" [OF True _ _ _ run, unfolded rest w] "1.prems" True by (auto simp: Suc_le_eq)
  next
    case False
    then have d: "d = dest" "r' = r" "w' = w" using "1.prems"(4) by (auto simp: clean_copy.simps [of n dest r w] split: if_splits)
    show ?thesis
    proof (cases "r < n")
      case True
      then have "is_sep (dest ! r)" using False by simp
      then show ?thesis using d nth_rest [OF True "1.prems"(3)] "1.prems"(2) by simp
    qed (use d "1.prems" in simp)
  qed
qed


section \<open>The loop\<close>

definition clean_inv :: "bool \<Rightarrow> nat \<Rightarrow> string \<Rightarrow> nat \<Rightarrow> nat \<Rightarrow> nat \<Rightarrow> string list \<Rightarrow> bool" where
  "clean_inv root n dest r w dotdot st \<longleftrightarrow>
     n \<le> length dest \<and> r \<le> n \<and> w \<le> r \<and> take w dest = clean_out root st \<and> w = length (clean_out root st) \<and>
     (r = n \<or> is_sep (dest ! r) \<or> w < r \<or> st = []) \<and> (\<forall>c \<in> set st. c \<noteq> [] \<and> CHR ''/'' \<notin> set c) \<and>
     (\<exists>ns k. st = ns @ replicate k ''..'' \<and> ''..'' \<notin> set ns \<and> (root \<longrightarrow> k = 0) \<and>
        dotdot = length (clean_out root (replicate k ''..'')))"

lemma inv_forward:
  "clean_inv root n dest r w dotdot st \<Longrightarrow> r < r' \<Longrightarrow> r' \<le> n \<Longrightarrow> clean_inv root n dest r' w dotdot st"
  by (auto simp: clean_inv_def)

text \<open>Going back over the last component.\<close>

lemma clean_pop:
  assumes inv: "clean_inv root n dest r w dotdot st" and w: "dotdot < w"
  shows "\<exists>t ts. st = t # ts \<and> t \<noteq> ''..'' \<and> clean_back dest dotdot (w - 1) = length (clean_out root ts) \<and>
    take (length (clean_out root ts)) dest = clean_out root ts \<and>
    (\<exists>ns k. ts = ns @ replicate k ''..'' \<and> ''..'' \<notin> set ns \<and> (root \<longrightarrow> k = 0) \<and> dotdot = length (clean_out root (replicate k ''..'')))"
proof -
  obtain ns k where st: "st = ns @ replicate k ''..''" "''..'' \<notin> set ns" "root \<longrightarrow> k = 0"
    and dd: "dotdot = length (clean_out root (replicate k ''..''))"
    using inv unfolding clean_inv_def by blast
  have len: "w = length (clean_out root st)" and out: "take w dest = clean_out root st"
    and ok: "\<forall>c \<in> set st. c \<noteq> [] \<and> CHR ''/'' \<notin> set c" and wl: "w \<le> length dest"
    using inv unfolding clean_inv_def by auto
  have "ns \<noteq> []" using w st dd len by auto
  then obtain t ns' where ns: "ns = t # ns'" by (cases ns) auto
  let ?ts = "ns' @ replicate k ''..''"
  let ?b = "clean_out root ?ts"
  have stt: "st = t # ?ts" using st ns by simp
  have t: "t \<noteq> []" "CHR ''/'' \<notin> set t" "t \<noteq> ''..''" using ok stt st(2) ns by auto
  have full: "take w dest = ?b @ (if ?ts = [] then [] else ''/'') @ t" using out by (simp add: stt clean_out_Cons)
  have nth: "dest ! i = (take w dest) ! i" if "i < w" for i using that by simp
  have wlen: "w = length ?b + (if ?ts = [] then 0 else 1) + length t" using len by (simp add: stt clean_out_Cons)
  have "clean_back dest dotdot (w - 1) = length ?b"
  proof (rule clean_back_stop)
    show "length ?b \<le> w - 1" using wlen t(1) by (cases t) auto
    show "dotdot \<le> length ?b" unfolding dd by (rule clean_out_length_append)
    show "length ?b = dotdot \<or> is_sep (dest ! length ?b)"
    proof (cases "?ts = []")
      case False
      then have lt: "length ?b < w" using wlen t(1) by simp
      have full2: "take w dest = ?b @ ''/'' @ t" using full unfolding if_not_P [OF False] .
      have "dest ! length ?b = take w dest ! length ?b" by (rule nth [OF lt])
      then have "dest ! length ?b = CHR ''/''" unfolding full2 by simp
      then show ?thesis by (simp add: is_sep_def)
    qed (simp add: dd)
  next
    fix i assume i: "length ?b < i" "i \<le> w - 1"
    then have iw: "i < w" using wlen t(1) by (cases t) auto
    define P where "P = ?b @ (if ?ts = [] then [] else ''/'')"
    have P: "take w dest = P @ t" "length P = length ?b + (if ?ts = [] then 0 else 1)" using full by (simp_all add: P_def)
    have lP: "length P \<le> i" "i - length P < length t" using P(2) i iw wlen by (auto split: if_splits)
    have "dest ! i = (P @ t) ! i" using nth [OF iw] unfolding P(1) .
    then have "dest ! i \<in> set t" using lP by (simp add: nth_append)
    then show "\<not> is_sep (dest ! i)" using t(2) by (auto simp: is_sep_def)
  qed
  moreover have "take (length ?b) dest = ?b"
    using arg_cong [OF full, of "take (length ?b)"] wlen by (simp add: min_def split: if_splits)
  ultimately show ?thesis using stt t(3) st ns dd by auto
qed

lemma inv_pop:
  assumes inv: "clean_inv root n dest r w dotdot st" and w: "dotdot < w" and r: "r + 2 \<le> n" "at_end n dest (r + 2)"
  shows "\<exists>t ts. st = t # ts \<and> t \<noteq> ''..'' \<and> clean_inv root n dest (r + 2) (clean_back dest dotdot (w - 1)) dotdot ts"
proof -
  obtain t ts where p: "st = t # ts" "t \<noteq> ''..''" "clean_back dest dotdot (w - 1) = length (clean_out root ts)"
    "take (length (clean_out root ts)) dest = clean_out root ts"
    "\<exists>ns k. ts = ns @ replicate k ''..'' \<and> ''..'' \<notin> set ns \<and> (root \<longrightarrow> k = 0) \<and> dotdot = length (clean_out root (replicate k ''..''))"
    using clean_pop [OF inv w] by blast
  have "length (clean_out root ts) \<le> w" using inv p(1) by (simp add: clean_inv_def clean_out_Cons)
  then have "clean_inv root n dest (r + 2) (length (clean_out root ts)) dotdot ts"
    using inv p(1,4,5) r by (simp add: clean_inv_def at_end_def)
  then show ?thesis using p(1-3) by (intro exI [of _ t] exI [of _ ts]) simp
qed


text \<open>Keeping two dots.\<close>

lemma inv_keep:
  assumes inv: "clean_inv False n dest r w dotdot st" and w: "\<not> dotdot < w" and r: "r + 2 \<le> n" "at_end n dest (r + 2)"
    "\<not> is_sep (dest ! r)" "r < n"
  shows "(case put_dotdot dest w of (d, w') \<Rightarrow> clean_inv False n d (r + 2) w' w' (''..'' # st) \<and>
      drop (r + 2) (take n d) = drop (r + 2) (take n dest) \<and> length d = length dest) \<and> (\<exists>k. st = replicate k ''..'')"
proof -
  obtain ns k where st: "st = ns @ replicate k ''..''" "''..'' \<notin> set ns" and dd: "dotdot = length (clean_out False (replicate k ''..''))"
    using inv unfolding clean_inv_def by blast
  have out: "take w dest = clean_out False st" "w = length (clean_out False st)"
    and ok: "\<forall>c \<in> set st. c \<noteq> [] \<and> CHR ''/'' \<notin> set c" and wr: "w \<le> r" "n \<le> length dest" "w < r \<or> st = []"
    using inv r(3,4) unfolding clean_inv_def by auto
  have "ns = []"
  proof (rule ccontr)
    assume "ns \<noteq> []"
    then show False using clean_out_longer [of ns False "replicate k ''..''"] ok st w out(2) dd by simp
  qed
  then have dots: "st = replicate k ''..''" using st by simp
  have zero: "w = 0 \<longleftrightarrow> st = []" using out(2) dots by (cases k) (auto simp: clean_out_Cons, simp add: clean_out_def)
  define d1 where "d1 = (if w > 0 then dest[w := CHR ''/''] else dest)"
  define w1 where "w1 = (if w > 0 then w + 1 else w)"
  let ?d = "d1[w1 := CHR ''.'', w1 + 1 := CHR ''.'']"
  have put: "put_dotdot dest w = (?d, w1 + 2)" by (simp add: put_dotdot_def d1_def w1_def)
  have w1: "w1 \<le> r" using wr zero by (auto simp: w1_def)
  have len: "length d1 = length dest" by (simp add: d1_def)
  have t1: "take w1 d1 = clean_out False st @ (if st = [] then [] else ''/'')"
    using out(1) zero wr r(1) by (auto simp: d1_def w1_def take_write)
  have "take (w1 + 2) ?d = take w1 d1 @ ''..''"
  proof -
    have a: "w1 < length d1" "w1 + 1 < length d1" using w1 r(1) wr(2) len by auto
    have "take (Suc (Suc w1)) ?d = take (Suc w1) (d1[w1 := CHR ''.'']) @ [CHR ''.'']"
      using take_write [of "Suc w1" "d1[w1 := CHR ''.'']"] a(2) by simp
    then show ?thesis using take_write [OF a(1)] by simp
  qed
  then have t2: "take (w1 + 2) ?d = clean_out False (''..'' # st)" using t1 by (simp add: clean_out_Cons)
  have l2: "length (clean_out False (''..'' # st)) = w1 + 2"
    using out(2) zero by (auto simp: clean_out_Cons w1_def)
  have rest: "drop (r + 2) (take n ?d) = drop (r + 2) (take n dest)"
    using w1 wr by (auto simp: rest_update d1_def w1_def)
  have "?d ! (r + 2) = dest ! (r + 2)" using w1 wr by (auto simp: d1_def w1_def)
  then have "clean_inv False n ?d (r + 2) (w1 + 2) (w1 + 2) (''..'' # st)"
    unfolding clean_inv_def
    using t2 l2 r(1,2) wr(2) len w1 ok dots
    by (auto simp: at_end_def intro!: exI [of _ "[]"] exI [of _ "Suc k"])
  then show ?thesis using put rest len dots by auto
qed

text \<open>Copying a component.\<close>

lemma inv_push:
  assumes inv: "clean_inv root n dest r w dotdot st" and r: "r < n" "\<not> is_sep (dest ! r)"
    and c: "c = takeWhile (\<lambda>c. \<not> is_sep c) (drop r (take n dest))" "c \<noteq> ''..''"
    and d1: "(d1, w1) = (if (root \<and> w \<noteq> 1) \<or> (\<not> root \<and> w \<noteq> 0) then (dest[w := CHR ''/''], w + 1) else (dest, w))"
    and run: "clean_copy n d1 r w1 = (d2, r2, w2)"
  shows "clean_inv root n d2 r2 w2 dotdot (c # st) \<and> length d2 = length dest \<and>
    drop r2 (take n d2) = dropWhile (\<lambda>c. \<not> is_sep c) (drop r (take n dest))"
proof -
  have out: "take w dest = clean_out root st" "w = length (clean_out root st)"
    and ok: "\<forall>c \<in> set st. c \<noteq> [] \<and> CHR ''/'' \<notin> set c" and wr: "w \<le> r" "n \<le> length dest" "w < r \<or> st = []" "r \<le> n"
    using inv r unfolding clean_inv_def by auto
  have first: "(root \<and> w \<noteq> 1) \<or> (\<not> root \<and> w \<noteq> 0) \<longleftrightarrow> st \<noteq> []"
    using out(2) ok by (cases st; cases root; cases "tl st = []") (auto simp: clean_out_def join_snoc)
  have D: "d1 = (if st \<noteq> [] then dest[w := CHR ''/''] else dest)" "w1 = (if st \<noteq> [] then w + 1 else w)"
    using d1 first by (auto split: if_splits)
  have w1: "w1 \<le> r" "length d1 = length dest" using wr by (auto simp: D)
  have rest: "drop r (take n d1) = drop r (take n dest)" using wr by (auto simp: D rest_update)
  have t1: "take w1 d1 = clean_out root st @ (if st = [] then [] else ''/'')"
    using out(1) wr r(1) by (auto simp: D take_write)
  have n1: "n \<le> length d1" using wr(2) w1(2) by simp
  note cp = clean_copy_component [OF w1(1) wr(4) n1 run, unfolded rest c(1) [symmetric]]
  have cne: "c \<noteq> []" "CHR ''/'' \<notin> set c"
  proof -
    show "c \<noteq> []" using nth_rest [OF r(1) wr(2)] r(2) by (simp add: c(1))
    show "CHR ''/'' \<notin> set c" using set_takeWhileD [of "CHR ''/''"] by (auto simp: c(1) is_sep_def)
  qed
  have t2: "take w2 d2 = clean_out root (c # st)" using cp [THEN conjunct1] unfolding t1 clean_out_Cons by simp
  have l2: "w2 = length (clean_out root (c # st))" using cp out(2) by (auto simp: clean_out_Cons D)
  have e2: "r2 = n \<or> is_sep (d2 ! r2)"
  proof (cases "r2 < n")
    case True
    then have "drop r2 (take n d2) = d2 ! r2 # drop (Suc r2) (take n d2)" using nth_rest cp n1 by metis
    moreover have "drop r2 (take n d2) = dropWhile (\<lambda>c. \<not> is_sep c) (drop r (take n dest))" using cp by blast
    ultimately have "dropWhile (\<lambda>c. \<not> is_sep c) (drop r (take n dest)) = d2 ! r2 # drop (Suc r2) (take n d2)" by metis
    then show ?thesis using hd_dropWhile by (metis list.distinct(1) list.sel(1))
  qed (use cp in simp)
  obtain ns k where "st = ns @ replicate k ''..''" "''..'' \<notin> set ns" "root \<longrightarrow> k = 0"
    "dotdot = length (clean_out root (replicate k ''..''))"
    using inv unfolding clean_inv_def by blast
  then have "\<exists>ns k. c # st = ns @ replicate k ''..'' \<and> ''..'' \<notin> set ns \<and> (root \<longrightarrow> k = 0) \<and>
      dotdot = length (clean_out root (replicate k ''..''))"
    using c(2) by (intro exI [of _ "c # ns"] exI [of _ k]) auto
  then have "clean_inv root n d2 r2 w2 dotdot (c # st)"
    unfolding clean_inv_def using t2 l2 e2 cp n1 w1 cne ok by (auto simp: D)
  then show ?thesis using cp w1(2) by metis
qed


text \<open>The component that the loop looks at.\<close>

lemma dot_component:
  assumes "r < n" "n \<le> length dest" "\<not> is_sep (dest ! r)"
  defines "c \<equiv> takeWhile (\<lambda>c. \<not> is_sep c) (drop r (take n dest))"
  shows "dot_at n dest r \<longleftrightarrow> c = ''.''" "dotdot_at n dest r \<and> r + 2 \<le> n \<longleftrightarrow> c = ''..''"
    "dot_at n dest r \<Longrightarrow> r + 1 \<le> n \<and> drop r (take n dest) = ''.'' @ drop (r + 1) (take n dest)"
    "c = ''..'' \<Longrightarrow> drop r (take n dest) = ''..'' @ drop (r + 2) (take n dest)"
proof -
  have r0: "drop r (take n dest) = dest ! r # drop (Suc r) (take n dest)" using nth_rest assms by blast
  have r1: "drop (Suc r) (take n dest) = (if Suc r < n then dest ! Suc r # drop (Suc (Suc r)) (take n dest) else [])"
    using nth_rest [of "Suc r" n dest] assms(2) by simp
  have r2: "drop (Suc (Suc r)) (take n dest) =
      (if Suc (Suc r) < n then dest ! Suc (Suc r) # drop (Suc (Suc (Suc r))) (take n dest) else [])"
    using nth_rest [of "Suc (Suc r)" n dest] assms(2) by simp
  show "dot_at n dest r \<longleftrightarrow> c = ''.''"
    using assms(1,3) by (auto simp: c_def dot_at_def at_end_def r0 r1)
  show "dotdot_at n dest r \<and> r + 2 \<le> n \<longleftrightarrow> c = ''..''"
    using assms(1,3) by (auto simp: c_def dotdot_at_def at_end_def r0 r1 r2 is_sep_def split: if_splits)
  show "dot_at n dest r \<Longrightarrow> r + 1 \<le> n \<and> drop r (take n dest) = ''.'' @ drop (r + 1) (take n dest)"
    using assms(1) by (auto simp: dot_at_def r0)
  show "c = ''..'' \<Longrightarrow> drop r (take n dest) = ''..'' @ drop (r + 2) (take n dest)"
    using assms(1,3) by (auto simp: c_def r0 r1 split: if_splits)
qed


lemma comp_rest:
  "xs = takeWhile (\<lambda>c. \<not> is_sep c) xs @ dropWhile (\<lambda>c. \<not> is_sep c) xs"
  "dropWhile (\<lambda>c. \<not> is_sep c) xs = [] \<or> hd (dropWhile (\<lambda>c. \<not> is_sep c) xs) = CHR ''/''"
  using hd_dropWhile [of "\<lambda>c. \<not> is_sep c" xs] by (auto simp: is_sep_def)

text \<open>What is left after a component ends the path or begins with a separator.\<close>

lemma rest_at_end:
  "at_end n dest r \<Longrightarrow> r \<le> n \<Longrightarrow> n \<le> length dest \<Longrightarrow> drop r (take n dest) = [] \<or> hd (drop r (take n dest)) = CHR ''/''"
  using nth_rest [of r n dest] by (cases "r < n") (auto simp: at_end_def is_sep_def)

lemma clean_loop_end: "clean_inv root n dest n w dotdot st \<Longrightarrow>
    clean_loop root n dest n w dotdot = (dest, w) \<and> take w dest = (if root then ''/'' else []) @ join_slash (rev st)"
proof -
  assume "clean_inv root n dest n w dotdot st"
  then have "take w dest = clean_out root st" unfolding clean_inv_def by blast
  then show ?thesis by (subst clean_loop.simps) (simp add: clean_out_def)
qed

lemma clean_loop_correct:
  assumes "clean_inv root n dest r w dotdot st" "clean_loop root n dest r w dotdot = (d, w')"
  shows "take w' d = (if root then ''/'' else []) @ join_slash (clean_rest root st (drop r (take n dest))) \<and> w' \<le> n \<and> length d = length dest"
  using assms
proof (induction root n dest r w dotdot arbitrary: st rule: clean_loop.induct)
  case (1 root n dest r w dotdot)
  note inv = "1.prems"(1)
  have bounds: "r \<le> n" "w \<le> r" "n \<le> length dest" using inv by (auto simp: clean_inv_def)
  consider (fin) "r = n" | (sep) "r < n" "is_sep (dest ! r)" | (dot) "r < n" "\<not> is_sep (dest ! r)" "dot_at n dest r"
    | (dotdot) "r < n" "\<not> is_sep (dest ! r)" "\<not> dot_at n dest r" "dotdot_at n dest r"
    | (name) "r < n" "\<not> is_sep (dest ! r)" "\<not> dot_at n dest r" "\<not> dotdot_at n dest r"
    using bounds(1) le_neq_implies_less by blast
  then show ?case
  proof cases
    case fin
    then show ?thesis using clean_loop_end inv "1.prems"(2) bounds by auto
  next
    case sep
    have run: "clean_loop root n dest (r + 1) w dotdot = (d, w')" using "1.prems"(2) sep by (simp add: clean_loop.simps [of root n dest r])
    have "drop r (take n dest) = CHR ''/'' # drop (r + 1) (take n dest)"
      using nth_rest [OF sep(1) bounds(3)] sep(2) by (simp add: is_sep_def)
    then show ?thesis using "1.IH"(1) [OF _ sep(2) inv_forward [OF inv] run] sep(1) by simp
  next
    case dot
    have run: "clean_loop root n dest (r + 1) w dotdot = (d, w')" using "1.prems"(2) dot by (simp add: clean_loop.simps [of root n dest r])
    note c = dot_component(3) [OF dot(1) bounds(3) dot(2,3)]
    have "at_end n dest (r + 1)" using dot(3) by (simp add: dot_at_def)
    then have "clean_rest root st (drop r (take n dest)) = clean_rest root st (drop (r + 1) (take n dest))"
      using c clean_rest_comp [of "''.''" "drop (r + 1) (take n dest)" root st] rest_at_end [of n dest "r + 1"] bounds(3) by simp
    then show ?thesis using "1.IH"(2) [OF _ dot(2,3) inv_forward [OF inv] run] c dot(1) by simp
  next
    case dotdot
    have two: "r + 2 \<le> n" "at_end n dest (r + 2)" using dotdot by (auto simp: dot_at_def dotdot_at_def at_end_def)
    have c: "takeWhile (\<lambda>c. \<not> is_sep c) (drop r (take n dest)) = ''..''"
      using dot_component(2) [OF dotdot(1) bounds(3) dotdot(2)] dotdot(4) two(1) by simp
    have rest: "drop r (take n dest) = ''..'' @ drop (r + 2) (take n dest)"
      by (rule dot_component(4) [OF dotdot(1) bounds(3) dotdot(2) c])
    have R: "clean_rest root st (drop r (take n dest)) =
        (case st of [] \<Rightarrow> clean_rest root (if root then [] else [''..'']) (drop (r + 2) (take n dest))
         | t # ts \<Rightarrow> clean_rest root (if t = ''..'' then ''..'' # st else ts) (drop (r + 2) (take n dest)))"
      unfolding rest using clean_rest_comp [of "''..''" _ root st, OF _ _ rest_at_end [OF two(2,1) bounds(3)]] by simp
    note ih = "1.IH"(3-5) [OF _ dotdot(2-4)]
    show ?thesis
    proof (cases "dotdot < w")
      case True
      obtain t ts where p: "st = t # ts" "t \<noteq> ''..''" "clean_inv root n dest (r + 2) (clean_back dest dotdot (w - 1)) dotdot ts"
        using inv_pop [OF inv True two] by blast
      have run: "clean_loop root n dest (r + 2) (clean_back dest dotdot (w - 1)) dotdot = (d, w')"
        using "1.prems"(2) dotdot True by (simp add: clean_loop.simps [of root n dest r])
      have "clean_rest root st (drop r (take n dest)) = clean_rest root ts (drop (r + 2) (take n dest))"
        using R p(1,2) by simp
      then show ?thesis using ih(1) [OF _ True p(3) run] dotdot(1) by simp
    next
      case False
      show ?thesis
      proof (cases root)
        case True
        then have st: "st = []" using False inv clean_out_longer [of st root "[]"] by (auto simp: clean_inv_def)
        have run: "clean_loop root n dest (r + 2) w dotdot = (d, w')"
          using "1.prems"(2) dotdot False True by (simp add: clean_loop.simps [of True n dest r])
        have "clean_rest root st (drop r (take n dest)) = clean_rest root st (drop (r + 2) (take n dest))"
          using R st True by simp
        then show ?thesis using ih(3) [OF _ False _ inv_forward [OF inv _ two(1)] run] dotdot(1) True by simp
      next
        case nr: False
        obtain d1 w1 where put: "put_dotdot dest w = (d1, w1)" by fastforce
        have k: "clean_inv root n d1 (r + 2) w1 w1 (''..'' # st)" "drop (r + 2) (take n d1) = drop (r + 2) (take n dest)"
          "length d1 = length dest" "\<exists>k. st = replicate k ''..''"
          using inv_keep [of n dest r w dotdot st] inv False two dotdot(1,2) nr put by auto
        have run: "clean_loop root n d1 (r + 2) w1 w1 = (d, w')"
          using "1.prems"(2) dotdot False nr put by (simp add: clean_loop.simps [of False n dest r])
        have "clean_rest root st (drop r (take n dest)) = clean_rest root (''..'' # st) (drop (r + 2) (take n dest))"
        proof -
          obtain k where "st = replicate k ''..''" using k(4) by blast
          then show ?thesis using R nr by (cases k) auto
        qed
        then show ?thesis using ih(2) [OF _ False nr put [symmetric] k(1) run] k(2,3) dotdot(1) by simp
      qed
    qed
  next
    case name
    let ?c = "takeWhile (\<lambda>c. \<not> is_sep c) (drop r (take n dest))"
    obtain d1 w1 where d1: "(d1, w1) = (if (root \<and> w \<noteq> 1) \<or> (\<not> root \<and> w \<noteq> 0) then (dest[w := CHR ''/''], w + 1) else (dest, w))"
      by (metis surj_pair)
    obtain d2 r2 w2 where cp: "clean_copy n d1 r w1 = (d2, r2, w2)" by (metis prod_cases3)
    have two: "r + 2 \<le> n" if "?c = ''..''"
      using dot_component(4) [OF name(1) bounds(3) name(2) that] bounds(3)
      by (metis length_drop length_take length_append length_Cons list.size(3) min.absorb2 One_nat_def add_2_eq_Suc
          le_add1 le_diff_conv2 less_imp_le_nat name(1) add.commute numeral_2_eq_2 plus_1_eq_Suc)
    have c: "?c \<noteq> ''..''" "?c \<noteq> ''.''"
      using dot_component(1,2) [OF name(1) bounds(3) name(2)] name(3,4) two by auto
    note push = inv_push [OF inv name(1,2) refl c(1) d1 cp]
    have run: "clean_loop root n d2 r2 w2 dotdot = (d, w')"
      using "1.prems"(2) name cp d1 [symmetric] by (simp add: clean_loop.simps [of root n dest r])
    have cne: "?c \<noteq> []" "CHR ''/'' \<notin> set ?c"
      using nth_rest [OF name(1) bounds(3)] name(2) set_takeWhileD [of "CHR ''/''"] by (auto simp: is_sep_def)
    have "clean_rest root st (drop r (take n dest)) = clean_rest root (?c # st) (drop r2 (take n d2))"
      using clean_rest_comp [OF cne(2,1) comp_rest(2), of root st] c comp_rest(1) push by metis
    then show ?thesis using "1.IH"(6) [OF _ name(2-4) refl d1 cp [symmetric] refl conjunct1 [OF push] run] push name(1) by simp
  qed
qed


lemma clean_in_place_aux:
  assumes "0 < n" "n \<le> length dest" "unixCleanInPlace dest n = (d, w)"
  shows "take w d = Clean (take n dest) \<and> w \<le> n \<and> length d = length dest"
proof -
  let ?root = "is_sep (dest ! 0)"
  let ?k = "if ?root then 1 else 0 :: nat"
  have d0: "(if ?root then dest[0 := CHR ''/''] else dest) = dest"
    unfolding is_sep_def by (metis list_update_id)
  obtain x t where x: "take n dest = x # t" "dest ! 0 = x" "dest \<noteq> []" using assms(1,2) by (cases dest; cases n) auto
  have root: "rooted (take n dest) = ?root" using x by (simp add: rooted_def is_sep_def)
  have "take (Suc 0) dest = [x]" using x by (cases dest) auto
  then have inv: "clean_inv ?root n dest ?k ?k ?k []"
    using assms(1,2) x by (auto simp: clean_inv_def clean_out_def is_sep_def)
  obtain d1 w1 where run: "clean_loop ?root n dest ?k ?k ?k = (d1, w1)" by fastforce
  have rest: "clean_rest ?root [] (drop ?k (take n dest)) = clean_components ?root [] (split_on CHR ''/'' (take n dest))"
    using x by (auto simp: clean_rest_def is_sep_def)
  note c = clean_loop_correct [OF inv run, unfolded rest]
  let ?body = "join_slash (clean_components ?root [] (split_on CHR ''/'' (take n dest)))"
  have C: "Clean (take n dest) = (if ?root then CHR ''/'' # ?body else if ?body = [] then ''.'' else ?body)"
    by (simp add: Clean_def root Let_def)
  have "(d, w) = (if w1 = 0 then (d1[0 := CHR ''.''], 1) else (d1, w1))"
    using assms run d0 by (simp add: unixCleanInPlace_def Let_def min_absorb1)
  moreover have "w1 = 0 \<longleftrightarrow> (if ?root then ''/'' else []) @ ?body = []"
    using c assms(1,2) by (metis append_Nil2 length_0_conv list.size(3) take_0 take_eq_Nil2 le_zero_eq less_le_trans not_less_zero)
  moreover have "take 1 (d1[0 := CHR ''.'']) = ''.''"
    using c x(3) by (cases d1) auto
  ultimately show ?thesis using c assms(1) C by (auto split: if_splits)
qed

text \<open>C34: Cleaning a path in place gives what \<^verbatim>\<open>filepath.Clean\<close> gives; the result is not longer than the path, and
  the buffer keeps its length.\<close>

theorem clean_in_place:
  assumes "0 < n" "n \<le> length dest" "unixCleanInPlace dest n = (d, w)"
  shows "take w d = Clean (take n dest) \<and> w \<le> n \<and> length d = length dest"
  by (rule clean_in_place_aux [OF assms])

lemma clean_in_place_witness:
  "take (snd (unixCleanInPlace ''a//./b/../c/ '' 12)) (fst (unixCleanInPlace ''a//./b/../c/ '' 12)) = Clean ''a//./b/../c/''"
proof -
  obtain d w where r: "unixCleanInPlace ''a//./b/../c/ '' 12 = (d, w)" by fastforce
  show ?thesis using clean_in_place [OF _ _ r] by (simp add: r)
qed

end
