(* ===== verification/Symlinks_Correct.thy ===== *)
theory Symlinks_Correct
  imports Symlinks_Clean
begin

text \<open>
  What the resolution of links promises: no component of the path it cleans is a link, loops end, the caller always
  returns; and what a second attempt in the same path buffer does.
\<close>

section \<open>Resolved paths\<close>

definition two_dots :: "string \<Rightarrow> bool" where
  "two_dots q \<longleftrightarrow> q = ''..'' \<or> HasSuffix q ''/..''"

text \<open>The prefix of length \<^term>\<open>k\<close> ends with a component.\<close>

definition comp_end :: "string \<Rightarrow> nat \<Rightarrow> bool" where
  "comp_end p k \<longleftrightarrow> 0 < k \<and> k \<le> length p \<and> (k = length p \<or> is_sep (p ! k)) \<and> \<not> is_sep (p ! (k - 1))"

definition resolved_path :: "(string \<Rightarrow> nat + sym_kind) \<Rightarrow> string \<Rightarrow> bool" where
  "resolved_path lst p \<longleftrightarrow> (\<forall>k. comp_end p k \<longrightarrow> two_dots (take k p) \<or> (\<exists>kind. lst (take k p) = Inr kind \<and> kind \<noteq> SymLink))"

lemma resolved_take:
  assumes "resolved_path lst p" "r \<le> length p" "r = length p \<or> is_sep (p ! r) \<or> r = 0 \<or> is_sep (p ! (r - 1))"
  shows "resolved_path lst (take r p)"
  unfolding resolved_path_def
proof (intro allI impI)
  fix k assume k: "comp_end (take r p) k"
  have r: "k \<le> r" using k assms(2) by (auto simp: comp_end_def)
  have "comp_end p k"
  proof (cases "k = r")
    case True
    then show ?thesis using k assms(2,3) by (auto simp: comp_end_def)
  next
    case False
    then show ?thesis using k r assms(2) by (auto simp: comp_end_def)
  qed
  then show "two_dots (take k (take r p)) \<or> (\<exists>kind. lst (take k (take r p)) = Inr kind \<and> kind \<noteq> SymLink)"
    using assms(1) r by (simp add: resolved_path_def min_absorb1)
qed

lemma resolved_sep: "resolved_path lst p \<Longrightarrow> resolved_path lst (p @ ''/'')"
  unfolding resolved_path_def
proof (intro allI impI)
  fix k assume p: "\<forall>k. comp_end p k \<longrightarrow> two_dots (take k p) \<or> (\<exists>kind. lst (take k p) = Inr kind \<and> kind \<noteq> SymLink)"
    and k: "comp_end (p @ ''/'') k"
  have "k \<le> length p" using k by (cases "k = Suc (length p)") (auto simp: comp_end_def is_sep_def nth_append)
  then have "comp_end p k" using k by (auto simp: comp_end_def nth_append less_imp_diff_less split: if_splits)
  then show "two_dots (take k (p @ ''/'')) \<or> (\<exists>kind. lst (take k (p @ ''/'')) = Inr kind \<and> kind \<noteq> SymLink)"
    using p \<open>k \<le> length p\<close> by simp
qed

lemma resolved_comp:
  assumes "resolved_path lst p" "p = [] \<or> is_sep (last p)" "c \<noteq> []" "CHR ''/'' \<notin> set c"
    "two_dots (p @ c) \<or> (\<exists>kind. lst (p @ c) = Inr kind \<and> kind \<noteq> SymLink)"
  shows "resolved_path lst (p @ c)"
  unfolding resolved_path_def
proof (intro allI impI)
  fix k assume k: "comp_end (p @ c) k"
  show "two_dots (take k (p @ c)) \<or> (\<exists>kind. lst (take k (p @ c)) = Inr kind \<and> kind \<noteq> SymLink)"
  proof (cases "k = length (p @ c)")
    case False
    then have lt: "k < length (p @ c)" "is_sep ((p @ c) ! k)" using k by (auto simp: comp_end_def)
    have "k < length p"
    proof (rule ccontr)
      assume "\<not> k < length p"
      then have "c ! (k - length p) \<in> set c" "is_sep (c ! (k - length p))" using lt by (auto simp: nth_append)
      then show False using assms(4) by (auto simp: is_sep_def)
    qed
    then have "comp_end p k" using k lt(2) by (auto simp: comp_end_def nth_append less_imp_diff_less)
    then show ?thesis using assms(1) \<open>k < length p\<close> by (simp add: resolved_path_def)
  qed (use assms(5) in simp)
qed

lemma resolved_root [simp]: "resolved_path lst []" "resolved_path lst ''/''"
  by (auto simp: resolved_path_def comp_end_def is_sep_def less_Suc_eq_le le_Suc_eq)

section \<open>The buffer of the result\<close>

definition eval_inv :: "(string \<Rightarrow> nat + sym_kind) \<Rightarrow> string \<Rightarrow> nat \<Rightarrow> nat \<Rightarrow> bool" where
  "eval_inv lst dest n vol \<longleftrightarrow> dest \<noteq> [] \<and> n \<le> length dest \<and> vol \<le> 1 \<and> vol \<le> n \<and> (vol = 1 \<longrightarrow> is_sep (dest ! 0)) \<and>
     resolved_path lst (take n dest)"

lemma appendBytes_Some:
  "appendBytes dest n b = Some (d, m) \<Longrightarrow> n \<le> length dest \<Longrightarrow>
     m = n + length b \<and> take m d = take n dest @ b \<and> length d = length dest \<and> m \<le> length d \<and> (0 < n \<longrightarrow> d ! 0 = dest ! 0)"
  by (auto simp: appendBytes_def nth_append split: if_splits)

lemma short_prefix: "eval_inv lst dest n vol \<Longrightarrow> \<not> vol < n \<Longrightarrow> take n dest = [] \<or> take n dest = ''/''"
  by (cases dest) (auto simp: eval_inv_def is_sep_def le_Suc_eq)

text \<open>After the separator that a name or two dots need.\<close>

lemma put_sep:
  assumes inv: "eval_inv lst dest n vol"
    and d: "(if n > vol \<and> b then appendBytes dest n ''/'' else Some (dest, n)) = Some (d, m)"
    and b: "\<not> b \<Longrightarrow> n > vol \<Longrightarrow> is_sep (dest ! (n - 1))"
  shows "eval_inv lst d m vol \<and> (take m d = [] \<or> is_sep (last (take m d)))"
proof (cases "n > vol \<and> b")
  case True
  then have ap: "appendBytes dest n ''/'' = Some (d, m)" using d by simp
  note s = appendBytes_Some [OF ap]
  show ?thesis using s inv resolved_sep by (auto simp: eval_inv_def is_sep_def)
next
  case False
  then have e: "d = dest" "m = n" using d by auto
  show ?thesis
  proof (cases "n > vol")
    case True
    then have "is_sep (dest ! (n - 1))" "n \<le> length dest" "0 < n" using False b inv by (auto simp: eval_inv_def)
    then have "is_sep (last (take n dest))" by (subst last_conv_nth) auto
    then show ?thesis using e inv by simp
  next
    case False
    then show ?thesis using e inv short_prefix [OF inv] by (auto simp: is_sep_def)
  qed
qed

lemma put_comp:
  assumes inv: "eval_inv lst d m vol" and l: "take m d = [] \<or> is_sep (last (take m d))"
    and ap: "appendBytes d m c = Some (d', m')" and c: "c \<noteq> []" "CHR ''/'' \<notin> set c"
    and ok: "two_dots (take m' d') \<or> (\<exists>kind. lst (take m' d') = Inr kind \<and> kind \<noteq> SymLink)"
  shows "eval_inv lst d' m' vol"
proof -
  have m: "m \<le> length d" using inv by (simp add: eval_inv_def)
  note s = appendBytes_Some [OF ap m]
  have e: "take m' d' = take m d @ c" using s by blast
  have "resolved_path lst (take m d)" using inv by (simp add: eval_inv_def)
  then have "resolved_path lst (take m' d')" using resolved_comp l c ok unfolding e by blast
  then show ?thesis using s inv by (auto simp: eval_inv_def)
qed

lemma last_sep_Some: "last_sep dest vol n = Some r \<Longrightarrow> vol \<le> r \<and> r < n \<and> is_sep (dest ! r)"
  by (induction n) (auto split: if_splits)

lemma eval_inv_cut:
  assumes "eval_inv lst dest n vol" "r \<le> n" "vol \<le> r" "is_sep (dest ! r) \<or> r = vol"
  shows "eval_inv lst dest r vol"
proof -
  have n: "n \<le> length dest" "vol \<le> 1" "vol = 1 \<longrightarrow> is_sep (dest ! 0)" using assms(1) by (auto simp: eval_inv_def)
  have "resolved_path lst (take r (take n dest))"
  proof (rule resolved_take)
    show "r = length (take n dest) \<or> is_sep (take n dest ! r) \<or> r = 0 \<or> is_sep (take n dest ! (r - 1))"
      using assms(2-4) n by (cases "r = n"; cases "r = 0") (auto simp: le_Suc_eq)
  qed (use assms n in \<open>auto simp: eval_inv_def\<close>)
  then show ?thesis using assms by (auto simp: eval_inv_def min_def)
qed

lemma two_dots_append: "p = [] \<or> is_sep (last p) \<Longrightarrow> two_dots (p @ ''..'')"
  by (cases p rule: rev_cases) (auto simp: two_dots_def HasSuffix_iff is_sep_def)

lemma eval_dotdot_inv:
  assumes inv: "eval_inv lst dest n vol" and e: "eval_dotdot dest n vol = Some (d, m)"
  shows "eval_inv lst d m vol"
proof -
  have keep: "eval_inv lst d m vol"
    if k: "(do { (d1, n1) \<leftarrow> (if n > vol then appendBytes dest n ''/'' else Some (dest, n)); appendBytes d1 n1 ''..'' }) = Some (d, m)"
  proof -
    from k obtain d1 n1 where 1: "(if n > vol \<and> True then appendBytes dest n ''/'' else Some (dest, n)) = Some (d1, n1)"
      and 2: "appendBytes d1 n1 ''..'' = Some (d, m)" by (auto simp: bind_eq_Some_conv)
    note s = put_sep [OF inv 1]
    have "n1 \<le> length d1" using s by (simp add: eval_inv_def)
    then have "take m d = take n1 d1 @ ''..''" using appendBytes_Some [OF 2] by blast
    then have "two_dots (take m d)" using two_dots_append s by metis
    then show ?thesis using put_comp [OF _ _ 2] s by auto
  qed
  show ?thesis
  proof (cases "last_sep dest vol n")
    case None
    then show ?thesis using e keep by (simp add: eval_dotdot_def)
  next
    case (Some r)
    then show ?thesis using e keep eval_inv_cut [OF inv, of r] last_sep_Some [OF Some]
      by (auto simp: eval_dotdot_def split: if_splits)
  qed
qed


section \<open>The loop\<close>

lemma next_comp_no_sep: "next_comp pathBuf pathEnd start = (c, e) \<Longrightarrow> CHR ''/'' \<notin> set c"
  using set_takeWhileD [of "CHR ''/''" "\<lambda>c. \<not> is_sep c"] by (auto simp: next_comp_def Let_def is_sep_def)

lemma eval_name_inv:
  assumes inv: "eval_inv lst dest n vol" and e: "eval_name dest n vol c = Some (d, m)" and c: "c \<noteq> []" "CHR ''/'' \<notin> set c"
  shows "(lst (take m d) = Inr kind \<longrightarrow> kind \<noteq> SymLink \<longrightarrow> eval_inv lst d m vol) \<and>
    eval_inv lst d (case last_sep d vol m of None \<Rightarrow> vol | Some r \<Rightarrow> r) vol"
proof -
  from e obtain d1 n1 where
    1: "(if n > vol \<and> \<not> is_sep (dest ! (n - 1)) then appendBytes dest n ''/'' else Some (dest, n)) = Some (d1, n1)"
    and 2: "appendBytes d1 n1 c = Some (d, m)" by (auto simp: eval_name_def bind_eq_Some_conv)
  note s = put_sep [OF inv 1]
  have i1: "eval_inv lst d1 n1 vol" and l1: "take n1 d1 = [] \<or> is_sep (last (take n1 d1))" using s by auto
  have n1: "n1 \<le> length d1" using i1 by (simp add: eval_inv_def)
  note a = appendBytes_Some [OF 2 n1]
  have d: "take m d = take n1 d1 @ c" using a by blast
  have "take n1 d = take n1 (take m d)" using a by (simp add: min_def)
  also have "\<dots> = take n1 d1" unfolding d using n1 by simp
  finally have i2: "eval_inv lst d n1 vol" using i1 a n1 by (auto simp: eval_inv_def)
  have "eval_inv lst d (case last_sep d vol m of None \<Rightarrow> vol | Some r \<Rightarrow> r) vol"
  proof (cases "last_sep d vol m")
    case None
    then show ?thesis using eval_inv_cut [OF i2, of vol] i2 by (simp add: eval_inv_def)
  next
    case (Some r)
    note r = last_sep_Some [OF Some]
    have "r < n1"
    proof (rule ccontr)
      assume "\<not> r < n1"
      moreover have "d ! r = (take m d) ! r" using r by simp
      ultimately have "d ! r \<in> set c" using r a n1 unfolding d by (auto simp: nth_append intro!: nth_mem)
      then show False using r c(2) by (auto simp: is_sep_def)
    qed
    then show ?thesis using Some r eval_inv_cut [OF i2, of r] by simp
  qed
  then show ?thesis using put_comp [OF i1 l1 2 c] by auto
qed

lemma clean_result: "eval_inv lst dest n vol \<Longrightarrow> unixCleanInPlace dest n = (d, w) \<Longrightarrow> take w d = Clean (take n dest)"
  using clean_in_place_aux [of n dest d w]
  by (cases "n = 0") (auto simp: eval_inv_def unixCleanInPlace_def Clean_def rooted_def neq_Nil_conv)

lemma eval_loop_resolved:
  assumes "eval_inv lst dest n vol" "eval_loop lst rdl pathBuf pathEnd start dest n vol links = (Inr c, pb)"
  shows "\<exists>p. c = Clean p \<and> resolved_path lst p"
  using assms
proof (induction lst rdl pathBuf pathEnd start dest n vol links rule: eval_loop.induct)
  case (1 lst rdl pathBuf pathEnd start dest n vol links)
  note inv = "1.prems"(1)
  obtain x e where x: "next_comp pathBuf pathEnd start = (x, e)" by fastforce
  note run = "1.prems"(2) [unfolded eval_loop.simps [of lst rdl pathBuf pathEnd start dest n vol links] x prod.case]
  consider (fin) "x = []" | (dot) "x = ''.''" | (dots) "x = ''..''" | (name) "x \<noteq> []" "x \<noteq> ''.''" "x \<noteq> ''..''" by blast
  then show ?case
  proof cases
    case fin
    obtain d w where u: "unixCleanInPlace dest n = (d, w)" by fastforce
    then have "c = Clean (take n dest)" using clean_result [OF inv u] run fin by simp
    then show ?thesis using inv by (auto simp: eval_inv_def)
  next
    case dot
    show ?thesis by (rule "1.IH"(1) [OF x [symmetric] _ dot inv]) (use run dot in simp_all)
  next
    case dots
    then obtain d m where d: "eval_dotdot dest n vol = Some (d, m)" using run by (auto split: option.splits)
    show ?thesis
      by (rule "1.IH"(2) [OF x [symmetric] _ _ dots d refl eval_dotdot_inv [OF inv d]]) (use run dots d in simp_all)
  next
    case name
    then obtain d m where d: "eval_name dest n vol x = Some (d, m)" using run by (auto split: option.splits)
    from run name d obtain kind where k: "LstatAt lst d m = Inr kind" by (auto split: sum.splits)
    then have k2: "lst (take m d) = Inr kind" by (auto simp: LstatAt_def split: if_splits sum.splits)
    note ev = eval_name_inv [OF inv d name(1) next_comp_no_sep [OF x], of kind]
    show ?thesis
    proof (cases "kind = SymLink")
      case False
      then show ?thesis
        using "1.IH"(3) [OF x [symmetric] name d refl k] run name d k k2 ev by (auto split: if_splits)
    next
      case True
      from run name d k True obtain link where l: "readlinkAt rdl d m = Inr link" "\<not> links + 1 > maxSymlinks"
        by (auto split: if_splits sum.splits)
      let ?rest = "drop e (take pathEnd pathBuf)"
      let ?nl = "length link + length ?rest"
      let ?pb = "link @ ?rest @ drop ?nl pathBuf"
      have nl: "\<not> ?nl > length pathBuf" using run name d k True l by (auto simp: Let_def split: if_splits)
      show ?thesis
      proof (cases "link \<noteq> [] \<and> is_sep (hd link)")
        case abs: True
        then obtain d1 n1 where a: "appendBytes d 0 (take 1 link) = Some (d1, n1)"
          using run name d k True l nl by (auto simp: Let_def split: option.splits)
        have "n1 = 1" "take 1 d1 = take 1 link" "d1 \<noteq> []" using appendBytes_Some [OF a] abs by (cases link; auto)+
        moreover have "take 1 link = ''/''" using abs by (cases link) (auto simp: is_sep_def)
        ultimately have "eval_inv lst d1 n1 1" by (cases d1) (auto simp: eval_inv_def is_sep_def)
        then show ?thesis
          using "1.IH"(4) [OF x [symmetric] name d refl k _ l(2,1) refl refl refl nl abs a refl] run name d k True l nl abs a
          by (simp add: Let_def)
      next
        case rel: False
        then show ?thesis
          using "1.IH"(5) [OF x [symmetric] name d refl k _ l(2,1) refl refl refl nl rel] run name d k True l nl rel ev
          by (auto simp: Let_def split: if_splits)
      qed
    qed
  qed
qed


text \<open>C35: When a path is resolved, the answer is a cleaned path of which every component was looked up and is no
  link; components of two dots are kept aside.\<close>

theorem eval_resolved:
  assumes "EvalSymlinksAt lst rdl pathBuf pathLen dest = (Inr c, pb)"
  shows "\<exists>p. c = Clean p \<and> resolved_path lst p"
proof -
  let ?v = "if 0 < pathLen \<and> is_sep (pathBuf ! 0) then 1 else 0 :: nat"
  from assms obtain d n where a: "\<not> pathLen \<ge> length pathBuf" "dest \<noteq> []" "appendBytes dest 0 (take ?v pathBuf) = Some (d, n)"
    and run: "eval_loop lst rdl pathBuf pathLen ?v d n ?v 0 = (Inr c, pb)"
    by (auto simp: EvalSymlinksAt_def Let_def split: if_splits option.splits)
  obtain x t where pb: "pathBuf = x # t" using a(1) by (cases pathBuf) auto
  have "eval_inv lst d n ?v"
    using appendBytes_Some [OF a(3)] a(2) by (cases d) (auto simp: eval_inv_def pb is_sep_def split: if_splits)
  then show ?thesis using eval_loop_resolved run by blast
qed

lemma eval_resolved_witness:
  "\<exists>p. EvalSymlinksAt (\<lambda>p. if p = ''a'' then Inr SymLink else Inr SymDir) (\<lambda>_. Inr ''x/./y'') ''a/b           '' 3 ''            '' =
     (Inr (Clean p), ''x/./y/b       '') \<and> resolved_path (\<lambda>p. if p = ''a'' then Inr SymLink else Inr SymDir) p"
proof -
  let ?l = "\<lambda>p. if p = ''a'' then Inr SymLink else Inr SymDir :: nat + sym_kind"
  have e: "EvalSymlinksAt ?l (\<lambda>_. Inr ''x/./y'') ''a/b           '' 3 ''            '' = (Inr ''x/y/b'', ''x/./y/b       '')"
    by code_simp
  show ?thesis using eval_resolved [OF e] unfolding e by blast
qed

section \<open>Loops of links\<close>

lemma last_sep_None: "\<forall>i < n. \<not> is_sep (d ! i) \<Longrightarrow> last_sep d vol n = None"
  by (induction n) auto

lemma self_link_turn:
  assumes c: "c \<noteq> []" "CHR ''/'' \<notin> set c" "c \<noteq> ''.''" "c \<noteq> ''..''" and os: "lst c = Inr SymLink" "rdl c = Inr c"
    and len: "length c < length dest" "length c < 4096" "take (length c) pathBuf = c"
  shows "eval_loop lst rdl pathBuf (length c) 0 dest 0 0 links =
    (if links + 1 > maxSymlinks then (Inl ErrTooManySymlinks, pathBuf)
     else eval_loop lst rdl pathBuf (length c) 0 (c @ drop (length c) dest) 0 0 (links + 1))"
proof -
  let ?d = "c @ drop (length c) dest"
  have ns: "\<forall>x \<in> set c. \<not> is_sep x" using c(2) by (auto simp: is_sep_def)
  have "takeWhile is_sep c = []" using ns c(1) by (cases c) auto
  then have nc: "next_comp pathBuf (length c) 0 = (c, length c)"
    by (simp add: next_comp_def len(3) Let_def takeWhile_eq_all_conv [THEN iffD2, OF ns])
  have en: "eval_name dest 0 0 c = Some (?d, length c)" using len(1) by (simp add: eval_name_def appendBytes_def)
  have ld: "length ?d = length dest" using len(1) by simp
  have t: "take (length c) ?d = c" by simp
  have ls: "LstatAt lst ?d (length c) = Inr SymLink" using len(1) by (simp add: LstatAt_def os(1))
  have rl: "readlinkAt rdl ?d (length c) = Inr c" using len(1,2) by (simp add: readlinkAt_def os(2))
  have sp: "last_sep ?d 0 (length c) = None" using ns by (intro last_sep_None) (simp add: nth_append)
  have rest: "drop (length c) (take (length c) pathBuf) = []" by (simp add: len(3))
  have pb: "c @ drop (length c) pathBuf = pathBuf"
    using append_take_drop_id [of "length c" pathBuf] by (simp add: len(3))
  have cap: "\<not> length pathBuf < length c" using arg_cong [OF len(3), of length] by simp
  have hd: "\<not> is_sep (hd c)" using ns c(1) by (cases c) auto
  show ?thesis
    by (subst eval_loop.simps)
      (simp only: nc en ls rl sp rest pb cap hd prod.case option.case sum.case Let_def if_False if_True c sym_kind.simps
        not_True_eq_False not_False_eq_True simp_thms list.size(3) add_0_right append_Nil refl)
qed

lemma self_link_loop:
  assumes "c \<noteq> []" "CHR ''/'' \<notin> set c" "c \<noteq> ''.''" "c \<noteq> ''..''" "lst c = Inr SymLink" "rdl c = Inr c"
    "length c < 4096" "take (length c) pathBuf = c" "length c < length dest" "links \<le> maxSymlinks"
  shows "fst (eval_loop lst rdl pathBuf (length c) 0 dest 0 0 links) = Inl ErrTooManySymlinks"
  using assms(9,10)
proof (induction "maxSymlinks - links" arbitrary: links dest)
  case 0
  then show ?case unfolding self_link_turn [where lst = lst and rdl = rdl, OF assms(1-6) 0(2) assms(7,8)] by simp
next
  case (Suc k)
  have "k = maxSymlinks - (links + 1)" "links + 1 \<le> maxSymlinks" "length c < length (c @ drop (length c) dest)"
    using Suc.hyps(2) Suc.prems by auto
  then show ?case using Suc.hyps(1) unfolding self_link_turn [where lst = lst and rdl = rdl, OF assms(1-6) Suc.prems(1) assms(7,8)] by simp
qed

text \<open>A link to itself is reported as too many links; the resolution does not run for ever.\<close>

theorem self_link_reported:
  assumes "c \<noteq> []" "CHR ''/'' \<notin> set c" "c \<noteq> ''.''" "c \<noteq> ''..''" "lst c = Inr SymLink" "rdl c = Inr c"
    "length c < 4096" "take (length c) pathBuf = c" "length c < length dest" "length c < length pathBuf"
  shows "fst (EvalSymlinksAt lst rdl pathBuf (length c) dest) = Inl ErrTooManySymlinks"
proof -
  have "\<not> is_sep (pathBuf ! 0)"
    using assms(1,2,8) by (cases pathBuf; cases c) (auto simp: is_sep_def)
  moreover have "dest \<noteq> []" using assms(9) by auto
  ultimately show ?thesis
    using self_link_loop [where lst = lst and rdl = rdl and links = 0, OF assms(1-9)] assms(10) by (simp add: EvalSymlinksAt_def appendBytes_def)
qed

lemma self_link_reported_witness:
  "fst (EvalSymlinksAt (\<lambda>_. Inr SymLink) Inr ''loop  '' 4 ''      '') = Inl ErrTooManySymlinks"
  using self_link_reported [of "''loop''" "\<lambda>_. Inr SymLink" Inr "''loop  ''" "''      ''"] by (simp add: numeral_eq_Suc)

section \<open>The caller\<close>

lemma eval_loop_length: "pathEnd \<le> length pathBuf \<Longrightarrow>
    length (snd (eval_loop lst rdl pathBuf pathEnd start dest n vol links)) = length pathBuf"
proof (induction lst rdl pathBuf pathEnd start dest n vol links rule: eval_loop.induct)
  case (1 lst rdl pathBuf pathEnd start dest n vol links)
  obtain x e where x: "next_comp pathBuf pathEnd start = (x, e)" by fastforce
  note run = eval_loop.simps [of lst rdl pathBuf pathEnd start dest n vol links, unfolded x prod.case]
  consider (fin) "x = []" | (dot) "x = ''.''" | (dots) "x = ''..''" | (name) "x \<noteq> []" "x \<noteq> ''.''" "x \<noteq> ''..''" by blast
  then show ?case
  proof cases
    case fin
    then show ?thesis by (simp add: run split: prod.splits)
  next
    case dot
    then show ?thesis using "1.IH"(1) [OF x [symmetric] _ dot "1.prems"] by (simp add: run)
  next
    case dots
    then show ?thesis using "1.IH"(2) [OF x [symmetric] _ _ dots _ refl "1.prems"] by (auto simp: run split: option.splits)
  next
    case name
    show ?thesis
    proof (cases "eval_name dest n vol x")
      case None
      then show ?thesis using name by (simp add: run)
    next
      case (Some dm)
      obtain d m where d: "dm = (d, m)" by fastforce
      note en = Some [unfolded d]
      consider (err) er where "LstatAt lst d m = Inl er" | (other) k where "LstatAt lst d m = Inr k" "k \<noteq> SymLink"
        | (link) "LstatAt lst d m = Inr SymLink" by (cases "LstatAt lst d m"; auto)
      then show ?thesis
      proof cases
        case err
        then show ?thesis using name en by (simp add: run)
      next
        case (other k)
        then show ?thesis using "1.IH"(3) [OF x [symmetric] name en refl other _ "1.prems"] name en by (simp add: run)
      next
        case link
        show ?thesis
        proof (cases "links + 1 > maxSymlinks \<or> (\<exists>er. readlinkAt rdl d m = Inl er)")
          case True
          then show ?thesis using name en link by (auto simp: run)
        next
          case False
          then obtain l where l: "\<not> links + 1 > maxSymlinks" "readlinkAt rdl d m = Inr l" by (cases "readlinkAt rdl d m") auto
          let ?rest = "drop e (take pathEnd pathBuf)"
          let ?nl = "length l + length ?rest"
          show ?thesis
          proof (cases "?nl > length pathBuf")
            case True
            then show ?thesis using name en link l by (simp add: run Let_def)
          next
            case nl: False
            let ?pb = "l @ ?rest @ drop ?nl pathBuf"
            have pb: "length ?pb = length pathBuf" "?nl \<le> length ?pb" using nl by auto
            show ?thesis
            proof (cases "l \<noteq> [] \<and> is_sep (hd l)")
              case True
              show ?thesis
              proof (cases "appendBytes d 0 (take 1 l)")
                case None
                then show ?thesis using name en link l nl True pb(1) by (simp add: run Let_def)
              next
                case (Some dn)
                obtain d1 n1 where dn: "dn = (d1, n1)" by fastforce
                have "length (snd (eval_loop lst rdl ?pb ?nl 1 d1 n1 1 (links + 1))) = length ?pb"
                  using "1.IH"(4) [OF x [symmetric] name en refl link _ l refl refl refl nl True Some [unfolded dn] refl pb(2)] by simp
                then show ?thesis using name en link l nl True Some dn pb(1) by (simp add: run Let_def cong: if_cong)
              qed
            next
              case rel: False
              have "length (snd (eval_loop lst rdl ?pb ?nl 0 d (case last_sep d vol m of None \<Rightarrow> vol | Some r \<Rightarrow> r) vol (links + 1))) = length ?pb"
                using "1.IH"(5) [OF x [symmetric] name en refl link _ l refl refl refl nl rel pb(2)] by simp
              then show ?thesis using name en link l nl rel pb(1) by (auto simp: run Let_def)
            qed
          qed
        qed
      qed
    qed
  qed
qed


lemma EvalSymlinksAt_length: "length (snd (EvalSymlinksAt lst rdl pathBuf pathLen dest)) = length pathBuf"
  by (auto simp: EvalSymlinksAt_def Let_def eval_loop_length split: option.splits)

lemma EvalSymlinksAt_einval: "fst (EvalSymlinksAt lst rdl pathBuf pathLen dest) = Inl ErrPathBuffer \<Longrightarrow> pathLen < length pathBuf"
  by (auto simp: EvalSymlinksAt_def split: if_splits)

lemma length_fresh_buffer [simp]: "length (fresh_buffer n) = n"
  by (simp add: fresh_buffer_def)

lemma max_pos: "0 < maxReadDirNameBytes"
  by (simp add: maxReadDirNameBytes_def)

lemma canonical_loop_returns:
  assumes "dest \<noteq> []" "pathLen \<le> length orig"
  shows "canonical_loop lst rdl orig pathLen pathBuf dest \<noteq> None"
  using assms(1)
proof (induction "(maxReadDirNameBytes - length dest) + (maxReadDirNameBytes - length pathBuf)"
    arbitrary: pathBuf dest rule: less_induct)
  case less
  obtain r pb where E: "EvalSymlinksAt lst rdl pathBuf pathLen dest = (r, pb)" by fastforce
  have pb: "length pb = length pathBuf" using EvalSymlinksAt_length [of lst rdl pathBuf pathLen dest] E by simp
  note step = canonical_loop.simps [of lst rdl orig pathLen pathBuf dest, unfolded E prod.case]
  have pos: "0 < length dest" using less.prems by simp
  consider (ready) "r \<noteq> Inl ErrPathBuffer" | (dest) "r = Inl ErrPathBuffer" "length dest < maxReadDirNameBytes"
    | (path) "r = Inl ErrPathBuffer" "\<not> length dest < maxReadDirNameBytes" "length pb < maxReadDirNameBytes"
    | (full) "r = Inl ErrPathBuffer" "\<not> length dest < maxReadDirNameBytes" "\<not> length pb < maxReadDirNameBytes" by blast
  then show ?case
  proof cases
    case dest
    let ?d = "fresh_buffer (min (2 * length dest) maxReadDirNameBytes)"
    have l: "length dest < length ?d" using pos dest(2) by simp
    then have "?d \<noteq> []" using pos by (metis length_0_conv less_nat_zero_code)
    moreover have "maxReadDirNameBytes - length ?d < maxReadDirNameBytes - length dest" using l dest(2) by linarith
    ultimately have "canonical_loop lst rdl orig pathLen pb ?d \<noteq> None" using less.hyps [of ?d pb] pb by simp
    then show ?thesis using dest by (simp add: step)
  next
    case path
    let ?n = "min (2 * length pb) maxReadDirNameBytes"
    let ?pb = "take pathLen orig @ fresh_buffer (?n - pathLen)"
    have "pathLen < length pathBuf" using EvalSymlinksAt_einval [of lst rdl pathBuf pathLen dest] E path(1) by simp
    then have "length ?pb = ?n" "length pathBuf < ?n" using assms(2) pb path(3) by auto
    then have "maxReadDirNameBytes - length ?pb < maxReadDirNameBytes - length pathBuf" using path(3) pb by linarith
    from add_strict_left_mono [OF this] have "canonical_loop lst rdl orig pathLen ?pb dest \<noteq> None"
      by (rule less.hyps [OF _ less.prems])
    then show ?thesis using path by (simp add: step)
  qed (simp_all add: step)
qed

text \<open>C36: The caller always returns: whatever the file system answers, the buffers grow up to their limit and no
  further.\<close>

theorem canonical_returns:
  assumes "pathLen \<le> length pathBuf"
  shows "\<exists>r. evalSymlinksCanonical lst rdl evalPathBuf evalDest pathBuf pathLen = Some r"
proof -
  have "(if evalDest = [] then fresh_buffer initialReadDirNameBytes else evalDest) \<noteq> []"
    by (auto simp: fresh_buffer_def initialReadDirNameBytes_def)
  then show ?thesis
    using canonical_loop_returns [OF _ assms] unfolding evalSymlinksCanonical_def Let_def by blast
qed

lemma canonical_returns_witness:
  "\<exists>r. evalSymlinksCanonical (\<lambda>_. Inr SymLink) (\<lambda>_. Inr ''a/a'') [] [] ''a'' 1 = Some r"
  by (rule canonical_returns) simp

text \<open>A directory with a link \<^verbatim>\<open>a\<close> to the directory \<^verbatim>\<open>xyz\<close>.\<close>

definition link_kind :: "string \<Rightarrow> nat + sym_kind" where
  "link_kind p = (if p = ''a'' then Inr SymLink else if p \<in> {''xyz'', ''xyz/b''} then Inr SymDir else Inl 2)"

definition link_target :: "string \<Rightarrow> nat + string" where
  "link_target p = (if p = ''a'' then Inr ''xyz'' else Inl 22)"

lemma retry_steps:
  "EvalSymlinksAt link_kind link_target ''a/b     '' 3 ''    '' = (Inl ErrPathBuffer, ''xyz/b   '')"
  "EvalSymlinksAt link_kind link_target ''xyz/b   '' 3 (fresh_buffer 8) = (Inr ''xyz'', ''xyz/b   '')"
  "EvalSymlinksAt link_kind link_target ''a/b     '' 3 ''        '' = (Inr ''xyz/b'', ''xyz/b   '')"
  "EvalSymlinksAt link_kind link_target ''xyz    '' 3 ''   '' = (Inl EvalEINVAL, ''xyz    '')"
  by code_simp+


end
