(* ===== verification/Module_State.thy ===== *)
theory Module_State
  imports Go_Text "HOL-Library.Word"
begin

text \<open>
  The state of the modules in the database (\<^verbatim>\<open>internal/server/modulestate/service.go\<close> with the statements of
  \<^verbatim>\<open>module_state.sql.go\<close>).  The reading and writing of JSON texts are arguments: of objects as maps from keys to
  raw texts, None for \<^verbatim>\<open>null\<close>, and of the four counters.  The outcomes of the next database calls are a script, which
  succeed when it is empty.
\<close>

section \<open>The table\<close>

record module_row =
  mr_active :: int
  mr_started :: "int option"
  mr_finished :: "int option"
  mr_payload :: "string option"

record module_db =
  md_rows :: "string \<Rightarrow> module_row option"
  md_faults :: "bool list"

datatype module_error = ModNoRows | ModConnDone | ModFailure | ModJson

definition md_call :: "(module_db \<Rightarrow> (module_error + 'a) \<times> module_db) \<Rightarrow> module_db \<Rightarrow> (module_error + 'a) \<times> module_db" where
  "md_call f d = (let d' = d\<lparr>md_faults := tl (md_faults d)\<rparr> in
     if md_faults d \<noteq> [] \<and> hd (md_faults d) then (Inl ModFailure, d') else f d')"

definition GetModuleState :: "string \<Rightarrow> module_db \<Rightarrow> (module_error + module_row) \<times> module_db" where
  "GetModuleState name = md_call (\<lambda>d. (case md_rows d name of None \<Rightarrow> Inl ModNoRows | Some r \<Rightarrow> Inr r, d))"

definition coalesce :: "'a option \<Rightarrow> 'a option \<Rightarrow> 'a option" where
  "coalesce a b = (case a of None \<Rightarrow> b | Some x \<Rightarrow> a)"

definition SetModuleState ::
  "string \<Rightarrow> int \<Rightarrow> int option \<Rightarrow> int option \<Rightarrow> module_db \<Rightarrow> (module_error + unit) \<times> module_db" where
  "SetModuleState name active started finished = md_call (\<lambda>d. (Inr (), d\<lparr>md_rows := (md_rows d)(name \<mapsto>
     (case md_rows d name of
        None \<Rightarrow> \<lparr>mr_active = active, mr_started = started, mr_finished = finished, mr_payload = None\<rparr>
      | Some r \<Rightarrow> r\<lparr>mr_active := active, mr_started := coalesce started (mr_started r),
                    mr_finished := coalesce finished (mr_finished r)\<rparr>))\<rparr>))"

definition SetModuleStatePayload :: "string option \<Rightarrow> string \<Rightarrow> module_db \<Rightarrow> (module_error + unit) \<times> module_db" where
  "SetModuleStatePayload payload name = md_call (\<lambda>d. (Inr (), d\<lparr>md_rows :=
     (md_rows d)(name := map_option (\<lambda>r. r\<lparr>mr_payload := payload\<rparr>) (md_rows d name))\<rparr>))"

section \<open>The service\<close>

text \<open>Getting a connection from the pool is a call that may fail.\<close>

definition with_conn ::
  "bool \<Rightarrow> (module_db \<Rightarrow> (module_error + 'a) \<times> module_db) \<Rightarrow> module_db \<Rightarrow> (module_error + 'a) \<times> module_db" where
  "with_conn nil_service f d = (if nil_service then (Inl ModConnDone, d)
     else (case md_call (\<lambda>d. (Inr (), d)) d of (Inl e, d1) \<Rightarrow> (Inl e, d1) | (Inr _, d1) \<Rightarrow> f d1))"

definition boolToInt :: "bool \<Rightarrow> int" where
  "boolToInt b = (if b then 1 else 0)"

definition SetActive :: "bool \<Rightarrow> int \<Rightarrow> string \<Rightarrow> bool \<Rightarrow> module_db \<Rightarrow> (module_error + unit) \<times> module_db" where
  "SetActive nil_service now name active = with_conn nil_service
     (SetModuleState name (boolToInt active) (if active then Some now else None) (if active then None else Some now))"

definition IsActive :: "bool \<Rightarrow> string \<Rightarrow> module_db \<Rightarrow> (module_error + bool) \<times> module_db" where
  "IsActive nil_service name = with_conn nil_service (\<lambda>d.
     (case GetModuleState name d of
        (Inl ModNoRows, d1) \<Rightarrow> (Inr False, d1)
      | (Inl e, d1) \<Rightarrow> (Inl e, d1)
      | (Inr r, d1) \<Rightarrow> (Inr (mr_active r \<noteq> 0), d1)))"

definition GetLastStartedAt :: "bool \<Rightarrow> string \<Rightarrow> module_db \<Rightarrow> (module_error + int \<times> bool) \<times> module_db" where
  "GetLastStartedAt nil_service name = with_conn nil_service (\<lambda>d.
     (case GetModuleState name d of
        (Inl ModNoRows, d1) \<Rightarrow> (Inr (0, False), d1)
      | (Inl e, d1) \<Rightarrow> (Inl e, d1)
      | (Inr r, d1) \<Rightarrow> (Inr (case mr_started r of None \<Rightarrow> (0, False) | Some t \<Rightarrow> (t, True)), d1)))"

section \<open>The counters of the last run\<close>

record file_processing =
  TotalFound :: "64 word"
  AlreadyExisting :: "64 word"
  NewlyInserted :: "64 word"
  SkippedInvalid :: "64 word"
  fp_InFlight :: int

type_synonym persist = "64 word \<times> 64 word \<times> 64 word \<times> 64 word"

text \<open>\<^verbatim>\<open>encoding/json\<close>: objects are read as maps from keys to raw texts (None is an error, Some None is
  \<^verbatim>\<open>null\<close>) and written from such maps; writing compacts every raw text and escapes its HTML
  characters, \<^verbatim>\<open>js_compact\<close>. The counters are written and read as an object of their own.\<close>

record json_lib =
  js_Unmarshal :: "string \<Rightarrow> (string \<Rightarrow> string option) option option"
  js_Marshal :: "(string \<Rightarrow> string option) \<Rightarrow> string option"
  js_compact :: "string \<Rightarrow> string"
  js_counters :: "persist \<Rightarrow> string"
  js_read :: "string \<Rightarrow> persist option"

definition fileProcessingPayloadKey :: string where
  "fileProcessingPayloadKey = ''file_processing''"

text \<open>The object to merge into: None is an error, Some None the nil map that \<^verbatim>\<open>null\<close> leaves in the variable.\<close>

definition payload_doc :: "json_lib \<Rightarrow> string option \<Rightarrow> (string \<Rightarrow> string option) option" where
  "payload_doc J p = (case p of
       None \<Rightarrow> Some Map.empty
     | Some s \<Rightarrow> if s = [] then Some Map.empty
                 else (case js_Unmarshal J s of None \<Rightarrow> Some Map.empty | Some doc \<Rightarrow> doc))"

text \<open>\<^verbatim>\<open>SaveFileProcessing\<close>; None is the panic of an assignment into a nil map.\<close>

definition save_doc ::
  "json_lib \<Rightarrow> string \<Rightarrow> file_processing \<Rightarrow> (string \<Rightarrow> string option) option \<Rightarrow> module_db \<Rightarrow> ((module_error + unit) \<times> module_db) option" where
  "save_doc J name fp doc d = (case doc of
       None \<Rightarrow> None
     | Some m \<Rightarrow>
         (case js_Marshal J (m(fileProcessingPayloadKey \<mapsto>
              js_counters J (TotalFound fp, AlreadyExisting fp, NewlyInserted fp, SkippedInvalid fp))) of
            None \<Rightarrow> Some (Inl ModJson, d)
          | Some s \<Rightarrow> Some (SetModuleStatePayload (Some s) name d)))"

definition SaveFileProcessing ::
  "json_lib \<Rightarrow> bool \<Rightarrow> string \<Rightarrow> file_processing \<Rightarrow> module_db \<Rightarrow> ((module_error + unit) \<times> module_db) option" where
  "SaveFileProcessing J nil_service name fp d =
     (case with_conn nil_service (\<lambda>d. (Inr (), d)) d of
        (Inl e, d1) \<Rightarrow> Some (Inl e, d1)
      | (Inr _, d1) \<Rightarrow>
          (case GetModuleState name d1 of
             (Inr r, d2) \<Rightarrow> save_doc J name fp (payload_doc J (mr_payload r)) d2
           | (Inl e, d2) \<Rightarrow>
               if e \<noteq> ModNoRows then Some (Inl e, d2)
               else (case SetModuleState name 0 None None d2 of
                       (Inl e, d3) \<Rightarrow> Some (Inl e, d3)
                     | (Inr _, d3) \<Rightarrow> save_doc J name fp (Some Map.empty) d3)))"

definition zero_processing :: file_processing where
  "zero_processing = \<lparr>TotalFound = 0, AlreadyExisting = 0, NewlyInserted = 0, SkippedInvalid = 0, fp_InFlight = 0\<rparr>"

definition load_doc :: "json_lib \<Rightarrow> string \<Rightarrow> module_error + file_processing" where
  "load_doc J s = (case js_Unmarshal J s of
       None \<Rightarrow> Inl ModJson
     | Some doc \<Rightarrow>
         (case Option.bind doc (\<lambda>m. m fileProcessingPayloadKey) of
            None \<Rightarrow> Inr zero_processing
          | Some raw \<Rightarrow>
              (case js_read J raw of
                 None \<Rightarrow> Inl ModJson
               | Some (a, b, c, e) \<Rightarrow> Inr \<lparr>TotalFound = a, AlreadyExisting = b, NewlyInserted = c, SkippedInvalid = e, fp_InFlight = 0\<rparr>)))"

definition LoadFileProcessing :: "json_lib \<Rightarrow> bool \<Rightarrow> string \<Rightarrow> module_db \<Rightarrow> (module_error + file_processing) \<times> module_db" where
  "LoadFileProcessing J nil_service name = with_conn nil_service (\<lambda>d.
     (case GetModuleState name d of
        (Inl ModNoRows, d1) \<Rightarrow> (Inr zero_processing, d1)
      | (Inl e, d1) \<Rightarrow> (Inl e, d1)
      | (Inr r, d1) \<Rightarrow>
          (case mr_payload r of
             None \<Rightarrow> (Inr zero_processing, d1)
           | Some s \<Rightarrow> if s = [] then (Inr zero_processing, d1) else (load_doc J s, d1))))"

section \<open>Properties\<close>

lemma md_call_Inr: "md_call f d = (Inr x, d') \<Longrightarrow> f (d\<lparr>md_faults := tl (md_faults d)\<rparr>) = (Inr x, d')"
  by (simp add: md_call_def Let_def split: if_splits)

lemma md_call_calm: "md_faults d = [] \<Longrightarrow> md_call f d = f d"
  by (cases d) (simp add: md_call_def)

lemma with_conn_Inr: "with_conn nil f d = (Inr x, d') \<Longrightarrow>
    \<not> nil \<and> (\<exists>fs. f (d\<lparr>md_faults := fs\<rparr>) = (Inr x, d'))"
  by (auto simp: with_conn_def dest: md_call_Inr split: if_splits prod.splits sum.splits)

lemma with_conn_calm: "md_faults d = [] \<Longrightarrow> with_conn False f d = f d"
  by (simp add: with_conn_def md_call_calm)

lemma SetModuleState_rows: "SetModuleState name a st fi d = (Inr (), d') \<Longrightarrow> md_rows d' = (md_rows d)(name \<mapsto>
     (case md_rows d name of
        None \<Rightarrow> \<lparr>mr_active = a, mr_started = st, mr_finished = fi, mr_payload = None\<rparr>
      | Some r \<Rightarrow> r\<lparr>mr_active := a, mr_started := coalesce st (mr_started r), mr_finished := coalesce fi (mr_finished r)\<rparr>))"
  unfolding SetModuleState_def by (drule md_call_Inr) auto

lemma SetModuleStatePayload_rows: "SetModuleStatePayload p name d = (Inr (), d') \<Longrightarrow>
    md_rows d' = (md_rows d)(name := map_option (\<lambda>r. r\<lparr>mr_payload := p\<rparr>) (md_rows d name))"
  unfolding SetModuleStatePayload_def by (drule md_call_Inr) auto

lemma GetModuleState_rows: "GetModuleState name d = (x, d') \<Longrightarrow> md_rows d' = md_rows d"
  by (auto simp: GetModuleState_def md_call_def Let_def split: if_splits)

lemma GetModuleState_Inr: "GetModuleState name d = (Inr r, d') \<Longrightarrow> md_rows d name = Some r"
  unfolding GetModuleState_def by (drule md_call_Inr) (auto split: option.splits)

lemma GetModuleState_NoRows: "GetModuleState name d = (Inl ModNoRows, d') \<Longrightarrow> md_rows d name = None"
  by (auto simp: GetModuleState_def md_call_def Let_def split: if_splits option.splits)

lemma GetModuleState_calm: "md_faults d = [] \<Longrightarrow> md_rows d name = Some r \<Longrightarrow> GetModuleState name d = (Inr r, d)"
  by (simp add: GetModuleState_def md_call_calm)

text \<open>A module that has been set is seen so, by its own name only; starting keeps the time of the last end and the
  payload, ending the time of the last start.\<close>

theorem set_active_seen:
  assumes "SetActive nil now name active d = (Inr (), d')" "md_faults d' = []"
  shows "fst (IsActive nil name d') = Inr active \<and>
    (\<exists>r. md_rows d' name = Some r \<and> (if active then mr_started r = Some now else mr_finished r = Some now) \<and>
       (\<forall>r0. md_rows d name = Some r0 \<longrightarrow> mr_payload r = mr_payload r0 \<and>
          (if active then mr_finished r = mr_finished r0 else mr_started r = mr_started r0))) \<and>
    (\<forall>other. other \<noteq> name \<longrightarrow> md_rows d' other = md_rows d other)"
proof -
  obtain fs where live: "\<not> nil" and "SetModuleState name (boolToInt active) (if active then Some now else None)
      (if active then None else Some now) (d\<lparr>md_faults := fs\<rparr>) = (Inr (), d')"
    using with_conn_Inr [OF assms(1) [unfolded SetActive_def]] by blast
  note rows = SetModuleState_rows [OF this(2)]
  then obtain r where r1: "md_rows d' name = Some r" by simp
  have r: "mr_active r = boolToInt active" "if active then mr_started r = Some now else mr_finished r = Some now"
    "\<forall>r0. md_rows d name = Some r0 \<longrightarrow> mr_payload r = mr_payload r0 \<and>
       (if active then mr_finished r = mr_finished r0 else mr_started r = mr_started r0)"
    using rows r1 by (cases "md_rows d name"; cases active; auto simp: coalesce_def)+
  have "fst (IsActive nil name d') = Inr active"
    using live by (simp add: IsActive_def with_conn_calm [OF assms(2)] GetModuleState_calm [OF assms(2) r1] r(1) boolToInt_def)
  then show ?thesis using r r1 rows by simp
qed

lemma save_doc_Inr:
  assumes "save_doc J name fp doc d = Some (Inr (), d')"
  shows "\<exists>m s. doc = Some m \<and> js_Marshal J (m(fileProcessingPayloadKey \<mapsto>
      js_counters J (TotalFound fp, AlreadyExisting fp, NewlyInserted fp, SkippedInvalid fp))) = Some s \<and>
    SetModuleStatePayload (Some s) name d = (Inr (), d')"
  using assms by (simp add: save_doc_def split: option.splits)

text \<open>The row and the object a save starts from.\<close>

definition saved_over :: "json_lib \<Rightarrow> string \<Rightarrow> module_db \<Rightarrow> module_row \<Rightarrow> (string \<Rightarrow> string option) \<Rightarrow> bool" where
  "saved_over J name d r m = (case md_rows d name of
       None \<Rightarrow> r = \<lparr>mr_active = 0, mr_started = None, mr_finished = None, mr_payload = None\<rparr> \<and> m = Map.empty
     | Some r0 \<Rightarrow> r = r0 \<and> payload_doc J (mr_payload r0) = Some m)"

lemma save_processing_Inr:
  assumes "SaveFileProcessing J nil name fp d = Some (Inr (), d')"
  shows "\<not> nil \<and> (\<exists>m d2 r2. save_doc J name fp (Some m) d2 = Some (Inr (), d') \<and>
    md_rows d2 = (md_rows d)(name \<mapsto> r2) \<and> saved_over J name d r2 m)"
proof -
  obtain x d0 where w: "with_conn nil (\<lambda>d. (Inr (), d)) d = (x, d0)" by fastforce
  have x: "x = Inr ()" using assms w by (cases x) (auto simp: SaveFileProcessing_def)
  have live: "\<not> nil" and d0: "md_rows d0 = md_rows d" using with_conn_Inr [OF w [unfolded x]] by auto
  obtain y d2 where g: "GetModuleState name d0 = (y, d2)" by fastforce
  note run = assms [unfolded SaveFileProcessing_def w x prod.case sum.case g]
  have d2: "md_rows d2 = md_rows d" using GetModuleState_rows [OF g] d0 by simp
  show ?thesis
  proof (cases y)
    case (Inr r)
    have row: "md_rows d name = Some r" using GetModuleState_Inr [OF g [unfolded Inr]] d0 by simp
    have sd: "save_doc J name fp (payload_doc J (mr_payload r)) d2 = Some (Inr (), d')"
      using run unfolding Inr sum.case .
    obtain m where m: "payload_doc J (mr_payload r) = Some m" using save_doc_Inr [OF sd] by blast
    show ?thesis using live row d2 sd m
      by (intro conjI exI [of _ m] exI [of _ d2] exI [of _ r]) (auto simp: saved_over_def fun_upd_idem)
  next
    case (Inl e)
    have e: "e = ModNoRows" using run unfolding Inl sum.case by (simp split: if_splits)
    have none: "md_rows d name = None" using GetModuleState_NoRows [OF g [unfolded Inl e]] d0 by simp
    obtain z d3 where z: "SetModuleState name 0 None None d2 = (z, d3)" by fastforce
    have sd: "z = Inr ()" "save_doc J name fp (Some Map.empty) d3 = Some (Inr (), d')"
      using run z e unfolding Inl sum.case by (cases z; simp)+
    from SetModuleState_rows [OF z [unfolded sd(1)]] show ?thesis using live none sd(2) d2
      by (intro conjI exI [of _ Map.empty] exI [of _ d3]
          exI [of _ "\<lparr>mr_active = 0, mr_started = None, mr_finished = None, mr_payload = None\<rparr>"])
        (auto simp: saved_over_def)
  qed
qed

lemma load_calm:
  assumes "md_faults d = []" "md_rows d name = Some r" "mr_payload r = Some s" "s \<noteq> []"
  shows "LoadFileProcessing J False name d = (load_doc J s, d)"
  by (simp add: LoadFileProcessing_def with_conn_calm [OF assms(1)] GetModuleState_calm [OF assms(1,2)] assms(3,4))

text \<open>The maps that can reach the writer: the empty one, or what was read from a text.\<close>

definition json_object :: "json_lib \<Rightarrow> (string \<Rightarrow> string option) \<Rightarrow> bool" where
  "json_object J m \<longleftrightarrow> m = Map.empty \<or> (\<exists>s. js_Unmarshal J s = Some (Some m))"

lemma payload_object: "payload_doc J p = Some m \<Longrightarrow> json_object J m"
  by (auto simp: payload_doc_def json_object_def split: option.splits if_splits)

text \<open>C37: What is saved is loaded again, without what is in flight. The state of the module, its times and all
  other modules stay as they were (a module without a row gets an inactive one); every other key of the
  payload keeps its raw text up to the compaction and escaping that the JSON library applies when it writes.
  A payload that cannot be read as an object counts as empty: it is dropped. Used of the library is that it
  reads back an object it has written from an object it has read, every raw text compacted, and that it
  reads the counters from their compacted text.\<close>

theorem save_load_roundtrip:
  assumes "\<And>m c s. json_object J m \<Longrightarrow> js_Marshal J (m(fileProcessingPayloadKey \<mapsto> js_counters J c)) = Some s \<Longrightarrow>
      s \<noteq> [] \<and> js_Unmarshal J s = Some (Some (\<lambda>k. map_option (js_compact J) ((m(fileProcessingPayloadKey \<mapsto> js_counters J c)) k)))"
    and "\<And>c. js_read J (js_compact J (js_counters J c)) = Some c"
    and "SaveFileProcessing J nil name fp d = Some (Inr (), d')" "md_faults d' = []"
  shows "fst (LoadFileProcessing J nil name d') = Inr (fp\<lparr>fp_InFlight := 0\<rparr>) \<and>
    (\<exists>r m s m'. saved_over J name d r m \<and> md_rows d' = (md_rows d)(name \<mapsto> r\<lparr>mr_payload := Some s\<rparr>) \<and>
       js_Unmarshal J s = Some (Some m') \<and>
       (\<forall>key. key \<noteq> fileProcessingPayloadKey \<longrightarrow> m' key = map_option (js_compact J) (m key)))"
proof -
  obtain m d2 r2 where live: "\<not> nil" and sd: "save_doc J name fp (Some m) d2 = Some (Inr (), d')"
    and r2: "md_rows d2 = (md_rows d)(name \<mapsto> r2)" and old: "saved_over J name d r2 m"
    using save_processing_Inr [OF assms(3)] by blast
  let ?c = "(TotalFound fp, AlreadyExisting fp, NewlyInserted fp, SkippedInvalid fp)"
  let ?m = "m(fileProcessingPayloadKey \<mapsto> js_counters J ?c)"
  obtain s where save: "js_Marshal J ?m = Some s" and set: "SetModuleStatePayload (Some s) name d2 = (Inr (), d')"
    using save_doc_Inr [OF sd] by auto
  have obj: "json_object J m" using old payload_object
    by (auto simp: saved_over_def json_object_def split: option.splits)
  note u = assms(1) [OF obj save]
  have r: "md_rows d' = (md_rows d)(name \<mapsto> r2\<lparr>mr_payload := Some s\<rparr>)"
    using SetModuleStatePayload_rows [OF set] r2 by simp
  have "fst (LoadFileProcessing J nil name d') = Inr (fp\<lparr>fp_InFlight := 0\<rparr>)"
    using live load_calm [OF assms(4), of name "r2\<lparr>mr_payload := Some s\<rparr>" s] r u by (simp add: load_doc_def assms(2))
  then show ?thesis using old r u
    by (intro conjI exI [of _ r2] exI [of _ m] exI [of _ s] exI [of _ "\<lambda>k. map_option (js_compact J) (?m k)"]) auto
qed

text \<open>A library for objects with the one key and a sibling, and counters as four decimal numbers.\<close>

definition small_json :: json_lib where
  "small_json = \<lparr>js_Unmarshal = (\<lambda>s. if s = ''null'' then Some None else
       if s \<noteq> [] \<and> hd s = CHR ''['' then Some (Some [''x'' \<mapsto> tl s]) else
       if s \<noteq> [] \<and> hd s = CHR ''{'' then
         (case split_on CHR '';'' (tl s) of [a, b] \<Rightarrow> Some (Some [fileProcessingPayloadKey \<mapsto> a, ''x'' \<mapsto> b]) | _ \<Rightarrow> None)
       else None),
     js_Marshal = (\<lambda>m. case (m fileProcessingPayloadKey, m ''x'') of
         (Some a, Some b) \<Rightarrow> if CHR '';'' \<in> set b then None
           else Some (CHR ''{'' # a @ CHR '';'' # filter (\<lambda>c. c \<noteq> CHR '' '') b)
       | _ \<Rightarrow> None),
     js_compact = filter (\<lambda>c. c \<noteq> CHR '' ''),
     js_counters = (\<lambda>(a, b, c, e). dec_of_nat (unat a) @ CHR '','' # dec_of_nat (unat b) @ CHR '','' #
        dec_of_nat (unat c) @ CHR '','' # dec_of_nat (unat e)),
     js_read = (\<lambda>s. case map nat_of_dec (split_on CHR '','' s) of
        [a, b, c, e] \<Rightarrow> Some (of_nat a, of_nat b, of_nat c, of_nat e) | _ \<Rightarrow> None)\<rparr>"

lemma split_on_word: "c \<notin> set w \<Longrightarrow> split_on c (w @ c # t) = w # split_on c t"
  by (induction w) auto

lemma digits_only: "c \<notin> {CHR '','', CHR '';'', CHR '' ''} \<or> c \<notin> set (dec_of_nat n)"
  using dec_of_nat_digits [of n] by (auto simp: list_all_iff is_digit_def)

lemma small_counters:
  "filter (\<lambda>x. x \<noteq> CHR '' '') (js_counters small_json c) = js_counters small_json c"
  "CHR '';'' \<notin> set (js_counters small_json c)"
proof -
  have f: "filter (\<lambda>x. x \<noteq> CHR '' '') (dec_of_nat n) = dec_of_nat n" for n
    using digits_only [of "CHR '' ''" n] by (auto simp: filter_id_conv)
  show "filter (\<lambda>x. x \<noteq> CHR '' '') (js_counters small_json c) = js_counters small_json c"
    by (cases c) (simp add: small_json_def f)
  show "CHR '';'' \<notin> set (js_counters small_json c)"
    using digits_only [of "CHR '';''"] by (cases c) (simp add: small_json_def)
qed

lemma small_json_object:
  "json_object small_json m \<Longrightarrow> m = Map.empty \<or> (\<exists>b. m = [''x'' \<mapsto> b]) \<or> (\<exists>a b. m = [fileProcessingPayloadKey \<mapsto> a, ''x'' \<mapsto> b])"
  by (auto simp: json_object_def small_json_def split: if_splits list.splits)

lemma small_json_laws:
  "json_object small_json m \<Longrightarrow> js_Marshal small_json (m(fileProcessingPayloadKey \<mapsto> js_counters small_json c)) = Some s \<Longrightarrow>
    s \<noteq> [] \<and> js_Unmarshal small_json s = Some (Some (\<lambda>k. map_option (js_compact small_json)
      ((m(fileProcessingPayloadKey \<mapsto> js_counters small_json c)) k)))"
  "js_read small_json (js_compact small_json (js_counters small_json c)) = Some c"
proof -
  let ?c = "js_counters small_json c"
  assume o: "json_object small_json m" and e: "js_Marshal small_json (m(fileProcessingPayloadKey \<mapsto> ?c)) = Some s"
  have k: "fileProcessingPayloadKey \<noteq> ''x''" by (simp add: fileProcessingPayloadKey_def)
  obtain b where b: "m ''x'' = Some b" "CHR '';'' \<notin> set b" "s = CHR ''{'' # ?c @ CHR '';'' # filter (\<lambda>c. c \<noteq> CHR '' '') b"
    using e k by (auto simp: small_json_def split: option.splits if_splits)
  have m: "m(fileProcessingPayloadKey \<mapsto> ?c) = [fileProcessingPayloadKey \<mapsto> ?c, ''x'' \<mapsto> b]"
    using small_json_object [OF o] b(1) k by (auto simp: fun_eq_iff split: if_splits)
  have "split_on CHR '';'' (?c @ CHR '';'' # filter (\<lambda>c. c \<noteq> CHR '' '') b) = [?c, filter (\<lambda>c. c \<noteq> CHR '' '') b]"
    using b(2) by (simp add: split_on_word small_counters(2) split_on_no_sep)
  then have "js_Unmarshal small_json s = Some (Some [fileProcessingPayloadKey \<mapsto> ?c, ''x'' \<mapsto> filter (\<lambda>c. c \<noteq> CHR '' '') b])"
    using b(3) by (simp add: small_json_def)
  moreover have "js_compact small_json = filter (\<lambda>c. c \<noteq> CHR '' '')" by (simp add: small_json_def)
  ultimately show "s \<noteq> [] \<and> js_Unmarshal small_json s = Some (Some (\<lambda>k. map_option (js_compact small_json)
      ((m(fileProcessingPayloadKey \<mapsto> ?c)) k)))"
    unfolding m using b(3) small_counters(1) [of c] by (auto simp: fun_eq_iff)
next
  have "js_compact small_json (js_counters small_json c) = js_counters small_json c"
    using small_counters(1) [of c] by (simp add: small_json_def)
  then show "js_read small_json (js_compact small_json (js_counters small_json c)) = Some c"
    using digits_only [of "CHR '',''"] by (cases c) (simp add: small_json_def split_on_word split_on_no_sep)
qed

definition one_module :: module_db where
  "one_module = \<lparr>md_rows = [''discovery'' \<mapsto> \<lparr>mr_active = 1, mr_started = Some 5, mr_finished = None,
     mr_payload = Some ''[ 8 ''\<rparr>], md_faults = []\<rparr>"

definition some_counters :: file_processing where
  "some_counters = \<lparr>TotalFound = 9, AlreadyExisting = 4, NewlyInserted = 3, SkippedInvalid = 2, fp_InFlight = 7\<rparr>"

lemma save_load_roundtrip_witness:
  "\<exists>d' s m'. SaveFileProcessing small_json False ''discovery'' some_counters one_module = Some (Inr (), d') \<and>
     fst (LoadFileProcessing small_json False ''discovery'' d') = Inr (some_counters\<lparr>fp_InFlight := 0\<rparr>) \<and>
     md_rows d' ''discovery'' = Some \<lparr>mr_active = 1, mr_started = Some 5, mr_finished = None, mr_payload = Some s\<rparr> \<and>
     js_Unmarshal small_json s = Some (Some m') \<and> m' ''x'' = Some ''8''"
proof -
  obtain d' where d: "SaveFileProcessing small_json False ''discovery'' some_counters one_module = Some (Inr (), d')" "md_faults d' = []"
    by (simp add: SaveFileProcessing_def with_conn_def md_call_def Let_def one_module_def GetModuleState_def save_doc_def payload_doc_def
        small_json_def SetModuleStatePayload_def fileProcessingPayloadKey_def)
  obtain r m s m' where o: "saved_over small_json ''discovery'' one_module r m"
    "md_rows d' = (md_rows one_module)(''discovery'' \<mapsto> r\<lparr>mr_payload := Some s\<rparr>)"
    "js_Unmarshal small_json s = Some (Some m')"
    "\<forall>key. key \<noteq> fileProcessingPayloadKey \<longrightarrow> m' key = map_option (js_compact small_json) (m key)"
    "fst (LoadFileProcessing small_json False ''discovery'' d') = Inr (some_counters\<lparr>fp_InFlight := 0\<rparr>)"
    using save_load_roundtrip [OF small_json_laws d] by blast
  have "r = \<lparr>mr_active = 1, mr_started = Some 5, mr_finished = None, mr_payload = Some ''[ 8 ''\<rparr>" "m ''x'' = Some '' 8 ''"
    using o(1) by (auto simp: saved_over_def one_module_def payload_doc_def small_json_def)
  moreover have "m' ''x'' = map_option (js_compact small_json) (m ''x'')" using o(4) by (simp add: fileProcessingPayloadKey_def)
  ultimately have "m' ''x'' = Some ''8''"
    "md_rows d' ''discovery'' = Some \<lparr>mr_active = 1, mr_started = Some 5, mr_finished = None, mr_payload = Some s\<rparr>"
    using o(2) by (simp_all add: small_json_def)
  then show ?thesis using d(1) o(3,5) by blast
qed

text \<open>A payload that is the JSON text \<^verbatim>\<open>null\<close> makes the map nil, and the save panics.\<close>

theorem save_null_payload_panics:
  assumes "md_faults d = []" "md_rows d name = Some r" "mr_payload r = Some ''null''" "js_Unmarshal J ''null'' = Some None"
  shows "SaveFileProcessing J False name fp d = None"
  by (simp add: SaveFileProcessing_def with_conn_calm [OF assms(1)] GetModuleState_calm [OF assms(1,2)] payload_doc_def save_doc_def assms(3,4))

end
