(* ===== verification/Humanize.thy ===== *)
theory Humanize
  imports Go_Duration
begin

text \<open>
  Numbers for people (\<^verbatim>\<open>internal/humanize\<close>): grouping of digits by commas, and sizes with binary prefixes.  The
  conversion of an integer to \<^verbatim>\<open>float64\<close> rounds to 53 bits; \<^verbatim>\<open>strconv.FormatFloat\<close> with a precision rounds the exact
  value half to even.  Arguments of floating-point type are left out.
\<close>

section \<open>Rounding\<close>

definition float64 :: "nat \<Rightarrow> nat" where
  "float64 n = (let k = bit_len n - 53 in div_even n (2 ^ k) * 2 ^ k)"

text \<open>\<^verbatim>\<open>FormatFloat\<close> of the quotient of two numbers.\<close>

definition FormatFloat :: "nat \<Rightarrow> nat \<Rightarrow> nat \<Rightarrow> string" where
  "FormatFloat a b p =
     (let m = div_even (a * 10 ^ p) b in
      if p = 0 then dec_of_nat m else dec_of_nat (m div 10 ^ p) @ CHR ''.'' # zero_padded p (m mod 10 ^ p))"

section \<open>Commas\<close>

text \<open>The buffer is filled from right to left; \<^term>\<open>k\<close> counts the digits.\<close>

fun fill_commas :: "string \<Rightarrow> nat \<Rightarrow> string \<Rightarrow> string" where
  "fill_commas [] k acc = acc"
| "fill_commas (c # cs) k acc = fill_commas cs (k + 1) (c # (if k > 0 \<and> k mod 3 = 0 then CHR '','' # acc else acc))"

definition addCommas :: "string \<Rightarrow> string" where
  "addCommas s = (if length s \<le> 3 then s else fill_commas (rev s) 0 [])"

text \<open>\<^verbatim>\<open>Comma(v).String()\<close> of an integer, with the precision when one was set.\<close>

definition Comma_String :: "int \<Rightarrow> int \<Rightarrow> string" where
  "Comma_String precision v =
     (let x = float64 (nat \<bar>v\<bar>); p = (if precision < 0 then 0 else nat precision);
          numStr = FormatFloat x 1 p; parts = split_on CHR ''.'' numStr;
          decPart = (if length parts > 1 then parts ! 1 else []);
          result = addCommas (parts ! 0) @ (if decPart \<noteq> [] then CHR ''.'' # decPart else [])
      in if v < 0 then CHR ''-'' # result else result)"

section \<open>Sizes\<close>

definition binaryUnits :: "(string \<times> nat) list" where
  "binaryUnits = [(''EiB'', 2 ^ 60), (''PiB'', 2 ^ 50), (''TiB'', 2 ^ 40), (''GiB'', 2 ^ 30), (''MiB'', 2 ^ 20),
     (''KiB'', 2 ^ 10), (''B'', 1)]"

definition IBytes_String :: "nat \<Rightarrow> int \<Rightarrow> string" where
  "IBytes_String precision bytes =
     (if bytes = 0 then ''0 B''
      else
        let absVal = nat \<bar>bytes\<bar>;
            result = (case List.find (\<lambda>(s, u). absVal \<ge> u) binaryUnits of
                None \<Rightarrow> FormatFloat 0 1 precision @ '' ''
              | Some (symbol, value) \<Rightarrow> FormatFloat (float64 absVal) value precision @ CHR '' '' # symbol)
        in if bytes < 0 then CHR ''-'' # result else result)"

section \<open>Properties\<close>

lemma fill_commas_plain: "filter (\<lambda>c. c \<noteq> CHR '','') (fill_commas s k acc) = rev (filter (\<lambda>c. c \<noteq> CHR '','') s) @ filter (\<lambda>c. c \<noteq> CHR '','') acc"
  by (induction s k acc rule: fill_commas.induct) auto

lemma fill_commas_length: "length (fill_commas s k acc) + (if k = 0 then 0 else (k - 1) div 3) =
    length acc + length s + (if k + length s = 0 then 0 else (k + length s - 1) div 3)"
proof (induction s k acc rule: fill_commas.induct)
  case (2 c cs k acc)
  have "(if k > 0 \<and> k mod 3 = 0 then 1 else 0) + (if k = 0 then 0 else (k - 1) div 3) = k div 3"
    by (cases k) (auto simp: mod_Suc div_Suc)
  then show ?case using 2 by (auto split: if_splits)
qed simp

lemma bit_len_le: "n < 2 ^ k \<Longrightarrow> bit_len n \<le> k"
proof (cases "n = 0")
  case False
  assume "n < 2 ^ k"
  moreover have "2 ^ (bit_len n - 1) \<le> n" using bit_len_bounds [of n] False by blast
  ultimately have "(2 :: nat) ^ (bit_len n - 1) < 2 ^ k" by linarith
  then have "bit_len n - 1 < k" by (rule power_less_imp_less_exp [rotated]) simp
  then show ?thesis by linarith
qed (simp add: bit_len.simps)

lemma float64_exact: "n < 2 ^ 53 \<Longrightarrow> float64 n = n"
  using bit_len_le [of n 53] by (simp add: float64_def div_even_def Let_def)

lemma no_dot_dec: "CHR ''.'' \<notin> set (dec_of_nat n)"
  using dec_of_nat_digits [of n] by (auto simp: list_all_iff is_digit_def)

lemma no_comma_dec: "filter (\<lambda>c. c \<noteq> CHR '','') (dec_of_nat n) = dec_of_nat n"
  using dec_of_nat_digits [of n] by (auto simp: list_all_iff is_digit_def filter_id_conv)

lemma filter_addCommas: "filter (\<lambda>c. c \<noteq> CHR '','') (addCommas (dec_of_nat n)) = dec_of_nat n"
  using fill_commas_plain [of "rev (dec_of_nat n)" 0 "[]"] no_comma_dec [of n]
  by (simp add: addCommas_def rev_filter [symmetric])

text \<open>The buffer of \<^verbatim>\<open>addCommas\<close> has the right length: no byte is left unset and no index is negative.\<close>

theorem addCommas_fills_buffer: "3 < length s \<Longrightarrow> length (addCommas s) = length s + (length s - 1) div 3"
  using fill_commas_length [of "rev s" 0 "[]"] by (auto simp: addCommas_def)

text \<open>Below two to the 53 the digits between the commas are those of the number; above they need not be.\<close>

theorem comma_digits:
  "\<bar>v\<bar> < 2 ^ 53 \<Longrightarrow> filter (\<lambda>c. c \<noteq> CHR '','') (Comma_String (-1) v) =
     (if v < 0 then CHR ''-'' # dec_of_nat (nat \<bar>v\<bar>) else dec_of_nat (nat \<bar>v\<bar>))"
proof -
  assume v: "\<bar>v\<bar> < 2 ^ 53"
  then have "nat \<bar>v\<bar> < 2 ^ 53" by (simp add: nat_less_iff)
  then have "float64 (nat \<bar>v\<bar>) = nat \<bar>v\<bar>" by (rule float64_exact)
  then show ?thesis
    by (simp add: Comma_String_def Let_def FormatFloat_def div_even_def split_on_no_sep no_dot_dec filter_addCommas)
qed

lemma bit_len_less: "2 ^ k \<le> n \<Longrightarrow> k < bit_len n"
proof -
  assume k: "2 ^ k \<le> n"
  moreover have "(0 :: nat) < 2 ^ k" by simp
  ultimately have "0 < n" by linarith
  then have "n < 2 ^ bit_len n" using bit_len_bounds by blast
  with k have "(2 :: nat) ^ k < 2 ^ bit_len n" by linarith
  then show ?thesis by (rule power_less_imp_less_exp [rotated]) simp
qed

lemma float64_above: "float64 9007199254740993 = 9007199254740992"
proof -
  have "bit_len 9007199254740993 = 54"
    using bit_len_less [of 53 9007199254740993] bit_len_le [of 9007199254740993 54] by simp
  then show ?thesis by (simp add: float64_def div_even_def Let_def)
qed

lemma comma_above_2_53: "Comma_String (-1) 9007199254740993 = ''9,007,199,254,740,992''"
proof -
  have "dec_of_nat 9007199254740992 = ''9007199254740992''" by (simp add: dec_of_nat.simps digit_char_def char_of_def bit_Suc_0_iff)
  then show ?thesis
    by (simp add: Comma_String_def Let_def float64_above FormatFloat_def div_even_def addCommas_def)
qed

lemma ibytes_next_unit: "IBytes_String 0 1048575 = ''1024 KiB''"
proof -
  have "dec_of_nat 1024 = ''1024''" by (simp add: dec_of_nat.simps digit_char_def char_of_def bit_Suc_0_iff)
  then show ?thesis by (simp add: IBytes_String_def binaryUnits_def float64_exact FormatFloat_def div_even_def Let_def)
qed

end
