(* ===== verification/Spec2Isabelle.thy ===== *)
theory Spec2Isabelle
  imports Queue_Wait Writebatcher_DQue Scheduler_Correct Dbconnpool_Correct Mem_Slots Auth_Correct Cache_Accounting Walk_Protocol Walk_Dir Config_Behaviour
    Folder_Protocol Import_Retry Discovery_Worker Table_Swap Preload_Manager Batch_Load Logger_Correct
    Coords Symlinks_Correct Module_State Humanize
begin

text \<open>
  Verification library for the Go program sfpg-go, a photo gallery server with an SQLite database.

  The program.  Discovery walks the image tree (\<^verbatim>\<open>internal/parallelwalkdir\<close>) and puts files into a queue
  (\<^verbatim>\<open>internal/queue\<close>) for workers; what they find, and the pages that the HTTP cache
  (\<^verbatim>\<open>internal/cachelite\<close>) captures, goes as items into the write batcher (\<^verbatim>\<open>internal/writebatcher\<close>), which
  collects them into transactions on one pooled connection (\<^verbatim>\<open>internal/dbconnpool\<close>) and spills what does not fit into
  its channel to a durable queue of segment files (\<^verbatim>\<open>internal/dque\<close>, locked by \<^verbatim>\<open>internal/flock\<close>).  A scheduler
  (\<^verbatim>\<open>internal/scheduler\<close>) runs periodic tasks, among them the unlocking of accounts.  Requests pass a rate
  limiter, authentication with lockout, conditional-request handling and the cache
  (\<^verbatim>\<open>internal/server/...\<close>).

  What the theories hold, and which code they model.

  Library.  \<^theory_text>\<open>Prelude\<close>: checked slice indexing, int64, bit masks, lists.  \<^theory_text>\<open>Go_Text\<close>: what
  the code uses of \<^verbatim>\<open>strings\<close> and \<^verbatim>\<open>strconv\<close> (white space and letter case are those of ASCII).

  In-memory queue (\<^verbatim>\<open>internal/queue/queue.go\<close>).  \<^theory_text>\<open>Queue\<close>: the circular buffer as a record, one
  definition per method, \<^term>\<open>None\<close> being a run-time panic.  \<^theory_text>\<open>Queue_Correct\<close>: its invariant, no
  panic, refinement of a bounded deque, linear memory.  \<^theory_text>\<open>Queue_Wait\<close>: \<^verbatim>\<open>DequeueWait\<close> with its sleeping
  goroutines as a step relation; no wake-up is lost.

  Durable queue (\<^verbatim>\<open>internal/dque/queue.go, segment.go, util.go\<close>, \<^verbatim>\<open>internal/flock\<close>).  \<^theory_text>\<open>Disk\<close>: one
  directory of files, the advisory lock, and a script that says which system call fails, or how many bytes a write
  writes.  \<^theory_text>\<open>Segment\<close>, \<^theory_text>\<open>DQue\<close>: every operation, with its error paths; the object codec (gob) is the
  parameter \<^verbatim>\<open>codec\<close>, assumed to decode what it encoded.  \<^theory_text>\<open>Segment_Correct\<close>, \<^theory_text>\<open>DQue_Correct\<close>: the
  representation relation.  \<^theory_text>\<open>DQue_History\<close>: any history of calls, clean closes and crashes of the process between
  calls refines a list, and the cached disk size is exact.  \<^theory_text>\<open>DQue_Faults\<close>: under any script of
  faults no nil pointer is dereferenced; concrete runs show what a fault leaves on disk.

  Write batcher (\<^verbatim>\<open>internal/writebatcher\<close>).  \<^theory_text>\<open>Writebatcher\<close>: configuration, \<^verbatim>\<open>Submit\<close>, flushing,
  re-queueing, the worker and its drains; the database is a script of transaction outcomes.
  \<^theory_text>\<open>Writebatcher_Correct\<close>: the contract of the spill queue is the locale \<^verbatim>\<open>durable_queue\<close>, conservation
  of items is proved inside it.  \<^theory_text>\<open>Writebatcher_System\<close>: clients, worker, cancellation and closing in every order.
  \<^theory_text>\<open>Writebatcher_DQue\<close>: the interpretation on the durable queue, termination of the drains, recovery.

  Scheduler (\<^verbatim>\<open>internal/scheduler/scheduler.go\<close>).  \<^theory_text>\<open>Scheduler\<close>: registry, dispatch loop, semaphore; days and months
  are added to the calendar in UTC.  \<^theory_text>\<open>Scheduler_Correct\<close>: concurrency bound, one-time tasks,
  removed tasks, and what happens to a recurring task that overruns.

  Connection pool (\<^verbatim>\<open>internal/dbconnpool\<close>).  \<^theory_text>\<open>Dbconnpool\<close>: \<^verbatim>\<open>Get\<close>, \<^verbatim>\<open>Put\<close>, \<^verbatim>\<open>Close\<close> and the monitor as
  goroutine steps, the driver answering by a script.  \<^theory_text>\<open>Dbconnpool_Correct\<close>: the counter is exact, a
  connection has one owner; a missing wake-up and a race.  \<^theory_text>\<open>Mem_Slots\<close>: the shared memory databases of tests.

  Security (\<^verbatim>\<open>internal/server/security, auth, auth_service.go, validation, handlers/auth_handlers.go\<close>).
  \<^theory_text>\<open>Rate_Limit\<close>: the limiter, equivalent to counting over the whole history.  \<^theory_text>\<open>Auth\<close>,
  \<^theory_text>\<open>Auth_Correct\<close>: lockout, login, change of credentials over database tables whose queries may fail; bcrypt is a
  parameter.  \<^theory_text>\<open>Conditional\<close>: ETag and date conditions and the buffering writer; parsing of HTTP dates is
  a parameter.

  HTTP cache (\<^verbatim>\<open>internal/cachelite\<close>, \<^verbatim>\<open>internal/server/infrastructure_*.go\<close>).  \<^theory_text>\<open>Cache_Key\<close>: keys and the parts of
  \<^verbatim>\<open>net/url\<close> behind them.  \<^theory_text>\<open>Body_Codec\<close>: codec registry and storage form; the two compression libraries are
  parameters, assumed lossless and to write their magic bytes.  \<^theory_text>\<open>Http_Cache\<close>: the SQL table and its
  queries, the operations on it, the capturing writer and the middleware.  \<^theory_text>\<open>Http_Cache_Correct\<close>: a lookup finds the
  last stored entry, a hit replays the stored page.  \<^theory_text>\<open>Cache_Accounting\<close>: eviction, and the size counter under
  every interleaving of batches, clean-ups and invalidations.

  Directory walk (\<^verbatim>\<open>internal/parallelwalkdir\<close>).  \<^theory_text>\<open>Walk_Protocol\<close>: workers, feeder and coordinator as interleaved
  atomic steps; accounting of every directory, completeness, and two races.  \<^theory_text>\<open>Walk_Dir\<close>: one directory, its
  filters, the symlink guard, and the path hash.

  Options and configuration (\<^verbatim>\<open>internal/getopt\<close>, \<^verbatim>\<open>internal/server/config\<close>, \<^verbatim>\<open>handlers/config_*.go\<close>).
  \<^theory_text>\<open>Getopt\<close>: environment, flags and their checks.  \<^theory_text>\<open>Go_Duration\<close>, \<^theory_text>\<open>Go_Json\<close>: \<^verbatim>\<open>time.ParseDuration\<close> with its
  printing, and JSON texts, each with its round trip.  \<^theory_text>\<open>Config_Fields\<close>: the settings, their parsers and the table
  of fields.  \<^theory_text>\<open>Config_Store\<close>: database, YAML files (the library is a parameter), options, defaults.  \<^theory_text>\<open>Config_Apply\<close>:
  the service, applying a candidate, the start.  \<^theory_text>\<open>Config_Laws\<close>: what every field promises, as a locale
  interpreted on the table.  \<^theory_text>\<open>Config_Correct\<close>, \<^theory_text>\<open>Config_Behaviour\<close>: ranges, round trip, precedence, and what the
  handlers do.

  Paths.  \<^theory_text>\<open>Go_Path\<close>: \<^verbatim>\<open>Clean\<close>, \<^verbatim>\<open>Join\<close>, \<^verbatim>\<open>Dir\<close> and \<^verbatim>\<open>Base\<close> of \<^verbatim>\<open>path\<close> (and \<^verbatim>\<open>path/filepath\<close> on Unix).
  \<^theory_text>\<open>Path_Util\<close>: \<^verbatim>\<open>internal/server/pathutil\<close>; an accepted path stays inside the images directory.

  Import (\<^verbatim>\<open>internal/gallerylib\<close>, \<^verbatim>\<open>internal/server/files/thumbnail.go\<close>, \<^verbatim>\<open>internal/gallerydb\<close>).  \<^theory_text>\<open>Gallery_Db\<close>: the tables
  with their constraints, each statement with a script of failures, the well-formed folder tree.  \<^theory_text>\<open>Importer\<close>: the
  importer and the writes of a file and of a batch.  \<^theory_text>\<open>Importer_Correct\<close>: every statement and the chain of folders
  keep the tree.  \<^theory_text>\<open>Import_Files\<close>: batches keep the tree and store the data; thumbnails.  \<^theory_text>\<open>Import_Retry\<close>:
  what a batch holds after a failed flush, and what its retry stores.

  Discovery (\<^verbatim>\<open>internal/server/files\<close>, \<^verbatim>\<open>internal/workerpool\<close>).  \<^theory_text>\<open>Discovery\<close>: the catalogue of a directory and the
  decision on a file, on top of the walk and of the gallery database.  \<^theory_text>\<open>Workerpool\<close>: counters and goroutines of the
  pool.  \<^theory_text>\<open>Discovery_Worker\<close>: processing of a file (decoders and thumbnails answer from an environment), invalid files,
  the loop of a worker and the enqueueing of the walk's reports.

  Folder index (\<^verbatim>\<open>files/folder_index.go\<close>, \<^verbatim>\<open>internal/server/folder_index_protocol.go, batcher_wiring.go\<close>).
  \<^theory_text>\<open>Folder_Index\<close>: the rows computed in one pass, and the window query they replace.  \<^theory_text>\<open>Folder_Protocol\<close>: rebuilds
  interleaved with the flushes of the batcher; what is published, and how the counter of rows in flight gets stuck.
  \<^theory_text>\<open>Table_Swap\<close> (\<^verbatim>\<open>internal/tableswap\<close>): names, identifier rewriting, cloning, copying of indexes and the cutover over
  a database of tables; SQLite's reading of SQL texts is a parameter.

  Cache preloader (\<^verbatim>\<open>internal/server/cachepreload\<close>).  \<^theory_text>\<open>Preload\<close>: which paths are fetched under which key.
  \<^theory_text>\<open>Preload_Manager\<close>: the claims on pages, the sessions, the jobs and the start and stop of the preloader's scheduler as
  a step relation; a page has one job at a time.  \<^theory_text>\<open>Batch_Load\<close> (\<^verbatim>\<open>internal/server/cachebatch\<close>): producer, workers and
  counters of the batch load in every interleaving; every target is accounted for.

  Log files (\<^verbatim>\<open>internal/log\<close>).  \<^theory_text>\<open>Log_Files\<close>: the time of the next rollover (UTC), directories of log files, retention.
  \<^theory_text>\<open>Logger\<close>: the logger over its open files, rollover, retention, shutdown and the two parts of a reload of the
  configuration, with system calls that may fail.  \<^theory_text>\<open>Logger_Correct\<close>: one log file is open whatever runs
  together; a reload that overlaps a rollover.

  Symbolic links (\<^verbatim>\<open>internal/osza/evalsymlinks\<close>).  \<^theory_text>\<open>Symlinks\<close>: resolution in buffers of fixed length, with the path
  cleaned in place, and the caller in \<^verbatim>\<open>internal/parallelwalkdir\<close> that grows the buffers; \<^verbatim>\<open>lstat\<close> and \<^verbatim>\<open>readlink\<close> are
  parameters.  \<^theory_text>\<open>Symlinks_Clean\<close>: cleaning in place equals \<^verbatim>\<open>Clean\<close>.  \<^theory_text>\<open>Symlinks_Correct\<close>: what a resolved path is,
  that the caller returns (the buffers double up to 64 MiB, and the 255 links bound each attempt), and the
  retry that resolves another path.

  Smaller parts.  \<^theory_text>\<open>Coords\<close> (\<^verbatim>\<open>internal/coords\<close>): coordinates as exact rationals.  \<^theory_text>\<open>Module_State\<close>
  (\<^verbatim>\<open>internal/server/modulestate\<close>): the table and its service, JSON being a parameter.  \<^theory_text>\<open>Humanize\<close>
  (\<^verbatim>\<open>internal/humanize\<close>): commas and binary prefixes.

  Conventions.  Concurrency is modelled by steps that are one critical section, one atomic access or one channel
  operation each; a theorem about a step relation or about all action lists holds for every interleaving.  Errors are
  values; I/O answers come from scripts or Boolean arguments.  The loops that the code bounds by data are
  structural recursions; the retry loop of \<^verbatim>\<open>TryLock\<close> has three rounds as in the code, and the drains of the
  batcher end by a measure of the items left;
  sizes and counters are integers, except where the code's width matters (wake epochs,
  int64 configuration limits, the path hash).

  Not modelled: metrics and the formatting of log lines; the handlers that only render templates and run queries; image decoding,
  thumbnails, EXIF, IPTC and XMP, which call third-party libraries; the generated database access (sqlc) apart
  from the statements of the cache, login, configuration, import and module tables; sessions; start-up and shutdown of the
  server; the Windows variants of the system calls; the tools under \<^verbatim>\<open>cmd\<close> and \<^verbatim>\<open>scripts\<close>.  Weak memory
  effects do not arise, since all shared data is accessed under locks, by atomics or channels.
\<close>

end
